(* ===== verification/Prelude.thy ===== *)
theory Prelude
  imports Main "HOL-Library.Word"
begin

text \<open>
  What the component theories share: the machine integer types of the C sources, the
  errno results of the kernel code, the null pointer, and the collections of rewrite
  rules that carry the component proofs.
  \<^item> \<open>frame\<close>: "operation f leaves field x alone" equations;
  \<^item> \<open>keeps\<close>: "operation f keeps invariant I" rules.
\<close>

unbundle bit_operations_syntax

named_theorems frame "fields an operation does not write"
named_theorems keeps "invariants an operation keeps"

section \<open>Machine integers and pointers\<close>

type_synonym u8 = "8 word"
type_synonym u16 = "16 word"
type_synonym u32 = "32 word"
type_synonym u64 = "64 word"

text \<open>A C pointer is an address; address 0 is \<^verbatim>\<open>NULL\<close>.\<close>

type_synonym ptr = nat

abbreviation NULL :: ptr where
  "NULL \<equiv> 0"

section \<open>Kernel error numbers\<close>

text \<open>The negative errno values the modelled kernel functions return.\<close>

datatype errno =
  EIO | ENOMEM | EBUSY | ENODEV | EINVAL | ENOSPC | ENOENT | ENODATA | EAGAIN | ERANGE | EFAULT | ETIMEDOUT

type_synonym 'a result = "errno + 'a"

definition is_ok :: "'a result \<Rightarrow> bool" where
  "is_ok r = (case r of Inl _ \<Rightarrow> False | Inr _ \<Rightarrow> True)"

lemma is_ok_simps [simp]:
  "is_ok (Inl e) = False"
  "is_ok (Inr x) = True"
  by (simp_all add: is_ok_def)

section \<open>Words and lists\<close>

lemma unat_add_no_wrap:
  fixes a b :: "'a::len word"
  assumes "unat a + unat b < 2 ^ LENGTH('a)"
  shows "unat (a + b) = unat a + unat b"
  using assms by (simp add: unat_word_ariths)

lemma unat_sub_le:
  fixes a b :: "'a::len word"
  assumes "b \<le> a"
  shows "unat (a - b) = unat a - unat b"
  using assms by (simp add: unat_sub)

lemma nth_list_update_cases:
  assumes "i < length xs"
  shows "xs[i := v] ! j = (if j = i then v else xs ! j)"
  using assms by (cases "i = j") simp_all

end
