(* ===== verification/Controller.thy ===== *)
theory Controller
  imports Prelude
begin

text \<open>
  The camera controller of \<^verbatim>\<open>cbridge/controller.c\<close>: a polled state machine that owns
  one capture worker and one filler worker per loopback endpoint, decides from the
  consumer mask which camera to stream, and backs off when an operation fails.

  The operations table \<^verbatim>\<open>ControllerOps\<close> is a record of functions over an opaque
  context of type \<open>'w\<close>; the table and the context are parameters, as in the code.  Error
  strings are only printed and are left out.  Every function returns the controller it
  leaves, whose \<open>ctl_context\<close> is the context after the calls made.
\<close>

section \<open>Data\<close>

datatype camera_key = CAMERA_FRONT | CAMERA_REAR | CAMERA_NONE

datatype controller_state =
  CONTROLLER_IDLE | CONTROLLER_STARTING | CONTROLLER_STREAMING
| CONTROLLER_STOPPING | CONTROLLER_RETRY_WAIT

datatype wireplumber_stop_result =
  WIREPLUMBER_ALREADY_INACTIVE | WIREPLUMBER_STOPPED | WIREPLUMBER_STOP_FAILED

datatype media_format = MEDIA_FORMAT_YUYV | MEDIA_FORMAT_MJPEG

text \<open>
  \<^verbatim>\<open>query_format\<close> returns 0 and a format, or an error; the code never reads the
  format of a failed query.
\<close>

record 'w controller_ops =
  now_ms_op :: "'w \<Rightarrow> u64 \<times> 'w"
  consumer_mask_op :: "'w \<Rightarrow> u32 \<times> 'w"
  query_format_op :: "camera_key \<Rightarrow> 'w \<Rightarrow> media_format option \<times> 'w"
  backend_start_op :: "camera_key \<Rightarrow> bool \<Rightarrow> media_format \<Rightarrow> 'w \<Rightarrow> int \<times> ptr \<times> 'w"
  backend_poll_op :: "ptr \<Rightarrow> 'w \<Rightarrow> int \<times> 'w"
  backend_stop_op :: "ptr \<Rightarrow> 'w \<Rightarrow> int \<times> 'w"
  backend_free_op :: "ptr \<Rightarrow> 'w \<Rightarrow> 'w"
  wireplumber_stop_op :: "'w \<Rightarrow> wireplumber_stop_result \<times> 'w"
  wireplumber_start_op :: "'w \<Rightarrow> int \<times> 'w"

text \<open>
  The controller.  The arrays of \<^verbatim>\<open>CAMERA_COUNT\<close> elements are functions of the key.
  \<open>ctl_oob\<close> has no counterpart in the code: it records that the code indexed one of
  those arrays with \<^verbatim>\<open>CAMERA_NONE\<close>, which is -1; that it never does is a theorem.
\<close>

record 'w controller =
  ctl_context :: 'w
  ctl_state :: controller_state
  ctl_active :: camera_key
  ctl_candidate :: camera_key
  ctl_pending :: camera_key
  ctl_candidate_since :: u64
  ctl_idle_since :: u64
  ctl_capture_retry_after :: "camera_key \<Rightarrow> u64"
  ctl_filler_retry_after :: "camera_key \<Rightarrow> u64"
  ctl_capture_retry_exponent :: "camera_key \<Rightarrow> u32"
  ctl_filler_retry_exponent :: "camera_key \<Rightarrow> u32"
  ctl_capture :: ptr
  ctl_filler :: "camera_key \<Rightarrow> ptr"
  ctl_filler_format :: "camera_key \<Rightarrow> media_format"
  ctl_wireplumber_stopped :: bool
  ctl_oob :: bool

definition OPEN_DEBOUNCE_MS :: u64 where "OPEN_DEBOUNCE_MS = 450"
definition CLOSE_GRACE_MS :: u64 where "CLOSE_GRACE_MS = 1500"
definition RETRY_BASE_MS :: u64 where "RETRY_BASE_MS = 2000"
definition RETRY_MAX_MS :: u64 where "RETRY_MAX_MS = 30000"

definition touch :: "camera_key \<Rightarrow> 'w controller \<Rightarrow> 'w controller" where
  "touch cam c = (if cam = CAMERA_NONE then c\<lparr>ctl_oob := True\<rparr> else c)"

section \<open>Retry bookkeeping\<close>

definition now_ms :: "'w controller_ops \<Rightarrow> 'w controller \<Rightarrow> u64 \<times> 'w controller" where
  "now_ms ops c =
     (case now_ms_op ops (ctl_context c) of (t, w) \<Rightarrow> (t, c\<lparr>ctl_context := w\<rparr>))"

definition retry_delay_ms :: "u32 \<Rightarrow> u64 \<times> u32" where
  "retry_delay_ms exponent =
     (let current_exponent = (if exponent > 4 then 4 else exponent);
          delay = push_bit (unat current_exponent) RETRY_BASE_MS;
          delay = (if delay > RETRY_MAX_MS then RETRY_MAX_MS else delay)
      in (delay, if exponent < 5 then exponent + 1 else exponent))"

definition schedule_capture_retry ::
  "'w controller_ops \<Rightarrow> camera_key \<Rightarrow> 'w controller \<Rightarrow> 'w controller" where
  "schedule_capture_retry ops cam c =
     (if cam = CAMERA_NONE then c
      else case retry_delay_ms (ctl_capture_retry_exponent c cam) of (delay, e) \<Rightarrow>
        let c = c\<lparr>ctl_capture_retry_exponent := (ctl_capture_retry_exponent c)(cam := e)\<rparr>
        in case now_ms ops c of (t, c) \<Rightarrow>
          c\<lparr>ctl_capture_retry_after := (ctl_capture_retry_after c)(cam := t + delay)\<rparr>)"

definition schedule_filler_retry ::
  "'w controller_ops \<Rightarrow> camera_key \<Rightarrow> 'w controller \<Rightarrow> 'w controller" where
  "schedule_filler_retry ops cam c =
     (if cam = CAMERA_NONE then c
      else case retry_delay_ms (ctl_filler_retry_exponent c cam) of (delay, e) \<Rightarrow>
        let c = c\<lparr>ctl_filler_retry_exponent := (ctl_filler_retry_exponent c)(cam := e)\<rparr>
        in case now_ms ops c of (t, c) \<Rightarrow>
          c\<lparr>ctl_filler_retry_after := (ctl_filler_retry_after c)(cam := t + delay)\<rparr>)"

definition clear_capture_retry :: "camera_key \<Rightarrow> 'w controller \<Rightarrow> 'w controller" where
  "clear_capture_retry cam c =
     (if cam = CAMERA_NONE then c
      else c\<lparr>ctl_capture_retry_after := (ctl_capture_retry_after c)(cam := 0),
             ctl_capture_retry_exponent := (ctl_capture_retry_exponent c)(cam := 0)\<rparr>)"

definition clear_filler_retry :: "camera_key \<Rightarrow> 'w controller \<Rightarrow> 'w controller" where
  "clear_filler_retry cam c =
     (if cam = CAMERA_NONE then c
      else c\<lparr>ctl_filler_retry_after := (ctl_filler_retry_after c)(cam := 0),
             ctl_filler_retry_exponent := (ctl_filler_retry_exponent c)(cam := 0)\<rparr>)"

section \<open>Workers\<close>

text \<open>
  \<^verbatim>\<open>stop_handle\<close> takes the address of the field holding the handle; the two fields it
  is called on give the two functions below, over the one that does the calls.
\<close>

definition stop_handle :: "'w controller_ops \<Rightarrow> ptr \<Rightarrow> 'w \<Rightarrow> int \<times> ptr \<times> 'w" where
  "stop_handle ops handle w =
     (if handle = NULL then (0, NULL, w)
      else case backend_stop_op ops handle w of (result, w) \<Rightarrow>
        if result \<noteq> 0 then (-1, handle, w)
        else (0, NULL, backend_free_op ops handle w))"

definition stop_capture_handle ::
  "'w controller_ops \<Rightarrow> 'w controller \<Rightarrow> int \<times> 'w controller" where
  "stop_capture_handle ops c =
     (case stop_handle ops (ctl_capture c) (ctl_context c) of (r, h, w) \<Rightarrow>
        (r, c\<lparr>ctl_capture := h, ctl_context := w\<rparr>))"

definition stop_filler_handle ::
  "'w controller_ops \<Rightarrow> camera_key \<Rightarrow> 'w controller \<Rightarrow> int \<times> 'w controller" where
  "stop_filler_handle ops cam c0 =
     (let c = touch cam c0 in
      case stop_handle ops (ctl_filler c cam) (ctl_context c) of (r, h, w) \<Rightarrow>
        (r, c\<lparr>ctl_filler := (ctl_filler c)(cam := h), ctl_context := w\<rparr>))"

definition query_format ::
  "'w controller_ops \<Rightarrow> camera_key \<Rightarrow> 'w controller \<Rightarrow> media_format option \<times> 'w controller" where
  "query_format ops cam c =
     (case query_format_op ops cam (ctl_context c) of (f, w) \<Rightarrow> (f, c\<lparr>ctl_context := w\<rparr>))"

definition backend_start ::
  "'w controller_ops \<Rightarrow> camera_key \<Rightarrow> bool \<Rightarrow> media_format \<Rightarrow> 'w controller
    \<Rightarrow> int \<times> ptr \<times> 'w controller" where
  "backend_start ops cam is_filler format c =
     (case backend_start_op ops cam is_filler format (ctl_context c) of (r, h, w) \<Rightarrow>
        (r, h, c\<lparr>ctl_context := w\<rparr>))"

definition start_filler ::
  "'w controller_ops \<Rightarrow> camera_key \<Rightarrow> 'w controller \<Rightarrow> int \<times> 'w controller" where
  "start_filler ops cam c0 =
     (let c = touch cam c0 in
      if ctl_filler c cam \<noteq> NULL then (0, c)
      else case now_ms ops c of (t, c) \<Rightarrow>
        if t < ctl_filler_retry_after c cam then (0, c)
        else case query_format ops cam c of (queried, c) \<Rightarrow>
          let format = (case queried of Some f \<Rightarrow> f | None \<Rightarrow> MEDIA_FORMAT_YUYV) in
          case backend_start ops cam True format c of (r, h, c) \<Rightarrow>
            if r \<noteq> 0 then (-1, schedule_filler_retry ops cam c)
            else (0, clear_filler_retry cam
                       (c\<lparr>ctl_filler := (ctl_filler c)(cam := h),
                          ctl_filler_format := (ctl_filler_format c)(cam := format)\<rparr>)))"

definition poll_filler :: "'w controller_ops \<Rightarrow> camera_key \<Rightarrow> 'w controller \<Rightarrow> 'w controller" where
  "poll_filler ops cam c0 =
     (let c = touch cam c0 in
      if ctl_filler c cam = NULL then c
      else case backend_poll_op ops (ctl_filler c cam) (ctl_context c) of (result, w) \<Rightarrow>
        let c = c\<lparr>ctl_context := w\<rparr> in
        if result = 0 then c
        else schedule_filler_retry ops cam (snd (stop_filler_handle ops cam c)))"

definition restore_wireplumber ::
  "'w controller_ops \<Rightarrow> 'w controller \<Rightarrow> int \<times> 'w controller" where
  "restore_wireplumber ops c =
     (if \<not> ctl_wireplumber_stopped c then (0, c)
      else case wireplumber_start_op ops (ctl_context c) of (r, w) \<Rightarrow>
        let c = c\<lparr>ctl_context := w\<rparr> in
        if r \<noteq> 0 then (-1, c) else (0, c\<lparr>ctl_wireplumber_stopped := False\<rparr>))"

definition stop_capture ::
  "'w controller_ops \<Rightarrow> camera_key \<Rightarrow> 'w controller \<Rightarrow> int \<times> 'w controller" where
  "stop_capture ops retry_camera c =
     (case stop_capture_handle ops c of (r, c) \<Rightarrow>
        if r \<noteq> 0
        then (-1, if retry_camera \<noteq> CAMERA_NONE
                  then schedule_capture_retry ops retry_camera c else c)
        else (0, c))"

section \<open>Starting and stopping a capture\<close>

text \<open>
  The failure tail that \<^verbatim>\<open>start_capture\<close> repeats: schedule a retry, restore
  WirePlumber where the code does, start the filler again, wait.
\<close>

definition start_capture_failed ::
  "'w controller_ops \<Rightarrow> camera_key \<Rightarrow> bool \<Rightarrow> 'w controller \<Rightarrow> int \<times> 'w controller" where
  "start_capture_failed ops cam restore c =
     (let c = schedule_capture_retry ops cam c;
          c = (if restore then snd (restore_wireplumber ops c) else c);
          c = snd (start_filler ops cam c)
      in (-1, c\<lparr>ctl_state := CONTROLLER_RETRY_WAIT\<rparr>))"

text \<open>\<^verbatim>\<open>start_capture\<close> from the format query on, and the whole.\<close>

definition launch_capture ::
  "'w controller_ops \<Rightarrow> camera_key \<Rightarrow> 'w controller \<Rightarrow> int \<times> 'w controller" where
  "launch_capture ops cam c =
     (case query_format ops cam c of (queried, c) \<Rightarrow>
      (case queried of
        None \<Rightarrow> start_capture_failed ops cam True c
      | Some format \<Rightarrow>
          (case backend_start ops cam False format c of (r, h, c) \<Rightarrow>
           if r \<noteq> 0 then start_capture_failed ops cam True c
           else (0, clear_capture_retry cam
                      (c\<lparr>ctl_capture := h, ctl_active := cam, ctl_pending := CAMERA_NONE,
                         ctl_state := CONTROLLER_STREAMING\<rparr>)))))"

definition start_capture ::
  "'w controller_ops \<Rightarrow> camera_key \<Rightarrow> 'w controller \<Rightarrow> int \<times> 'w controller" where
  "start_capture ops cam c0 =
     (let c = c0\<lparr>ctl_state := CONTROLLER_STARTING\<rparr> in
      case stop_filler_handle ops cam c of (r, c) \<Rightarrow>
      if r \<noteq> 0
      then (-1, (schedule_capture_retry ops cam c)\<lparr>ctl_state := CONTROLLER_RETRY_WAIT\<rparr>)
      else case (if ctl_wireplumber_stopped c then restore_wireplumber ops c else (0, c))
        of (r, c) \<Rightarrow>
      if r \<noteq> 0 then start_capture_failed ops cam False c
      else case wireplumber_stop_op ops (ctl_context c) of (wp, w) \<Rightarrow>
      let c = c\<lparr>ctl_context := w\<rparr> in
      if wp = WIREPLUMBER_STOP_FAILED then start_capture_failed ops cam False c
      else launch_capture ops cam (c\<lparr>ctl_wireplumber_stopped := (wp = WIREPLUMBER_STOPPED)\<rparr>))"

definition camera_bit :: "camera_key \<Rightarrow> u32" where
  "camera_bit cam = (case cam of CAMERA_FRONT \<Rightarrow> 1 | CAMERA_REAR \<Rightarrow> 2 | CAMERA_NONE \<Rightarrow> 0)"

definition requested_camera :: "'w controller \<Rightarrow> u32 \<Rightarrow> camera_key" where
  "requested_camera c consumers =
     (if ctl_active c \<noteq> CAMERA_NONE \<and> consumers AND camera_bit (ctl_active c) \<noteq> 0 then ctl_active c
      else if consumers AND camera_bit CAMERA_REAR \<noteq> 0 then CAMERA_REAR
      else if consumers AND camera_bit CAMERA_FRONT \<noteq> 0 then CAMERA_FRONT
      else CAMERA_NONE)"

definition transition ::
  "'w controller_ops \<Rightarrow> camera_key \<Rightarrow> 'w controller \<Rightarrow> int \<times> 'w controller" where
  "transition ops target c0 =
     (let old = ctl_active c0;
          c = c0\<lparr>ctl_state := CONTROLLER_STOPPING, ctl_pending := target\<rparr>;
          blame = (if target = CAMERA_NONE then old else target);
          finish = (\<lambda>c. if target = CAMERA_NONE
             then (0, c\<lparr>ctl_pending := CAMERA_NONE, ctl_state := CONTROLLER_IDLE\<rparr>)
             else case start_capture ops target c of (r, c) \<Rightarrow> (if r \<noteq> 0 then -1 else 0, c))
      in if old = CAMERA_NONE then finish c
         else case stop_capture ops blame c of (r, c) \<Rightarrow>
           if r \<noteq> 0 then (-1, c\<lparr>ctl_state := CONTROLLER_RETRY_WAIT\<rparr>)
           else
             let c = clear_capture_retry old (c\<lparr>ctl_active := CAMERA_NONE\<rparr>);
                 c = snd (start_filler ops old c)
             in case restore_wireplumber ops c of (r, c) \<Rightarrow>
               if r \<noteq> 0
               then (-1, (schedule_capture_retry ops blame c)\<lparr>ctl_state := CONTROLLER_RETRY_WAIT\<rparr>)
               else finish c)"

definition capture_failed :: "'w controller_ops \<Rightarrow> 'w controller \<Rightarrow> 'w controller" where
  "capture_failed ops c0 =
     (let failed = ctl_active c0 in
      case stop_capture ops failed c0 of (r, c) \<Rightarrow>
        if r \<noteq> 0 then c\<lparr>ctl_state := CONTROLLER_RETRY_WAIT\<rparr>
        else
          let c = snd (start_filler ops failed (c\<lparr>ctl_active := CAMERA_NONE\<rparr>));
              c = snd (restore_wireplumber ops c);
              c = schedule_capture_retry ops failed c
          in c\<lparr>ctl_state := CONTROLLER_RETRY_WAIT\<rparr>)"

section \<open>The interface: create, tick, shut down\<close>

text \<open>
  \<^verbatim>\<open>camera_controller_new\<close> after its two early returns (an incomplete operations table,
  which the record type excludes, and a failed \<^verbatim>\<open>calloc\<close>).
\<close>

definition controller_zero :: "'w \<Rightarrow> 'w controller" where
  "controller_zero w =
     \<lparr>ctl_context = w, ctl_state = CONTROLLER_IDLE, ctl_active = CAMERA_NONE,
      ctl_candidate = CAMERA_NONE, ctl_pending = CAMERA_NONE, ctl_candidate_since = 0,
      ctl_idle_since = 0, ctl_capture_retry_after = (\<lambda>_. 0),
      ctl_filler_retry_after = (\<lambda>_. 0), ctl_capture_retry_exponent = (\<lambda>_. 0),
      ctl_filler_retry_exponent = (\<lambda>_. 0), ctl_capture = NULL, ctl_filler = (\<lambda>_. NULL),
      ctl_filler_format = (\<lambda>_. MEDIA_FORMAT_YUYV), ctl_wireplumber_stopped = False,
      ctl_oob = False\<rparr>"

definition camera_controller_new :: "'w controller_ops \<Rightarrow> 'w \<Rightarrow> 'w controller" where
  "camera_controller_new ops w =
     snd (start_filler ops CAMERA_REAR (snd (start_filler ops CAMERA_FRONT (controller_zero w))))"

definition tick_filler :: "'w controller_ops \<Rightarrow> camera_key \<Rightarrow> 'w controller \<Rightarrow> 'w controller" where
  "tick_filler ops cam c0 =
     (let c = poll_filler ops cam c0 in
      if cam \<noteq> ctl_active c then snd (start_filler ops cam c) else c)"

definition consumer_mask :: "'w controller_ops \<Rightarrow> 'w controller \<Rightarrow> u32 \<times> 'w controller" where
  "consumer_mask ops c =
     (case consumer_mask_op ops (ctl_context c) of (m, w) \<Rightarrow> (m, c\<lparr>ctl_context := w\<rparr>))"

text \<open>The part of the tick after the polls, at time \<open>current\<close> with request \<open>requested\<close>.\<close>

definition tick_idle ::
  "'w controller_ops \<Rightarrow> u64 \<Rightarrow> 'w controller \<Rightarrow> int \<times> 'w controller" where
  "tick_idle ops current c0 =
     (let c = c0\<lparr>ctl_candidate := CAMERA_NONE\<rparr> in
      if ctl_active c = CAMERA_NONE then
        let c = c\<lparr>ctl_idle_since := 0\<rparr> in
        if ctl_state c = CONTROLLER_RETRY_WAIT \<and> ctl_pending c \<noteq> CAMERA_NONE then (0, c)
        else (0, c\<lparr>ctl_state := CONTROLLER_IDLE\<rparr>)
      else
        let c = (if ctl_idle_since c = 0 then c\<lparr>ctl_idle_since := current\<rparr> else c) in
        if current - ctl_idle_since c \<ge> CLOSE_GRACE_MS \<and>
           (ctl_state c = CONTROLLER_STREAMING \<or> ctl_state c = CONTROLLER_RETRY_WAIT)
        then transition ops CAMERA_NONE c
        else (0, c))"

definition tick_requested ::
  "'w controller_ops \<Rightarrow> u64 \<Rightarrow> camera_key \<Rightarrow> 'w controller \<Rightarrow> int \<times> 'w controller" where
  "tick_requested ops current requested c0 =
     (let c = c0\<lparr>ctl_idle_since := 0\<rparr>;
          c = (if requested \<noteq> ctl_candidate c
               then c\<lparr>ctl_candidate := requested, ctl_candidate_since := current\<rparr> else c)
      in if requested = ctl_active c \<and> ctl_state c = CONTROLLER_STREAMING then (0, c)
         else if current < ctl_capture_retry_after c requested then (0, c)
         else if requested \<noteq> ctl_active c \<and>
                 current - ctl_candidate_since c < OPEN_DEBOUNCE_MS then (0, c)
         else transition ops requested c)"

definition tick_decide ::
  "'w controller_ops \<Rightarrow> u64 \<Rightarrow> 'w controller \<Rightarrow> int \<times> 'w controller" where
  "tick_decide ops current c =
     (case consumer_mask ops c of (consumers, c) \<Rightarrow>
        let requested = requested_camera c consumers in
        if requested = CAMERA_NONE then tick_idle ops current c
        else tick_requested ops current requested c)"

definition camera_controller_tick ::
  "'w controller_ops \<Rightarrow> 'w controller \<Rightarrow> int \<times> 'w controller" where
  "camera_controller_tick ops c =
     (case now_ms ops c of (current, c) \<Rightarrow>
      let c = tick_filler ops CAMERA_REAR (tick_filler ops CAMERA_FRONT c) in
      if ctl_capture c \<noteq> NULL \<and> ctl_state c = CONTROLLER_STREAMING then
        (case backend_poll_op ops (ctl_capture c) (ctl_context c) of (result, w) \<Rightarrow>
          let c = c\<lparr>ctl_context := w\<rparr> in
          if result \<noteq> 0 then (if result < 0 then -1 else 0, capture_failed ops c)
          else tick_decide ops current c)
      else tick_decide ops current c)"

definition shutdown_filler ::
  "'w controller_ops \<Rightarrow> camera_key \<Rightarrow> int \<times> 'w controller \<Rightarrow> int \<times> 'w controller" where
  "shutdown_filler ops cam st =
     (case st of (result, c) \<Rightarrow>
      case stop_filler_handle ops cam c of (r, c) \<Rightarrow>
        (if r \<noteq> 0 \<and> result = 0 then -1 else result, c))"

definition camera_controller_shutdown ::
  "'w controller_ops \<Rightarrow> 'w controller \<Rightarrow> int \<times> 'w controller" where
  "camera_controller_shutdown ops c =
     (case (if ctl_capture c \<noteq> NULL
            then case stop_capture_handle ops c of (r, c) \<Rightarrow> (if r \<noteq> 0 then -1 else 0, c)
            else (0, c)) of (result, c) \<Rightarrow>
      case shutdown_filler ops CAMERA_REAR (shutdown_filler ops CAMERA_FRONT (result, c))
        of (result, c) \<Rightarrow>
      case restore_wireplumber ops c of (r, c) \<Rightarrow>
        (if r \<noteq> 0 \<and> result = 0 then -1 else result,
         c\<lparr>ctl_active := CAMERA_NONE, ctl_state := CONTROLLER_IDLE\<rparr>))"

section \<open>Frame conditions\<close>

lemma retry_delay_spec:
  "retry_delay_ms e =
     (if e = 0 then 2000 else if e = 1 then 4000 else if e = 2 then 8000
      else if e = 3 then 16000 else 30000, if e < 5 then e + 1 else e)"
proof -
  have "e = 0 \<or> e = 1 \<or> e = 2 \<or> e = 3 \<or> e = 4 \<or> e > 4"
    by unat_arith
  then show ?thesis
    by (elim disjE) (auto simp: retry_delay_ms_def RETRY_BASE_MS_def RETRY_MAX_MS_def
        push_bit_eq_mult)
qed

lemma retry_delay_exponent: "e \<le> 5 \<Longrightarrow> snd (retry_delay_ms e) \<le> 5"
  by (simp add: retry_delay_spec inc_le)

lemma retry_delay_bounds:
  "2000 \<le> fst (retry_delay_ms e)" "fst (retry_delay_ms e) \<le> 30000"
  by (simp_all add: retry_delay_spec)

lemma touch_frame [frame]:
  "ctl_context (touch cam c) = ctl_context c"
  "ctl_state (touch cam c) = ctl_state c"
  "ctl_active (touch cam c) = ctl_active c"
  "ctl_candidate (touch cam c) = ctl_candidate c"
  "ctl_pending (touch cam c) = ctl_pending c"
  "ctl_candidate_since (touch cam c) = ctl_candidate_since c"
  "ctl_idle_since (touch cam c) = ctl_idle_since c"
  "ctl_capture_retry_after (touch cam c) = ctl_capture_retry_after c"
  "ctl_filler_retry_after (touch cam c) = ctl_filler_retry_after c"
  "ctl_capture_retry_exponent (touch cam c) = ctl_capture_retry_exponent c"
  "ctl_filler_retry_exponent (touch cam c) = ctl_filler_retry_exponent c"
  "ctl_capture (touch cam c) = ctl_capture c"
  "ctl_filler (touch cam c) = ctl_filler c"
  "ctl_filler_format (touch cam c) = ctl_filler_format c"
  "ctl_wireplumber_stopped (touch cam c) = ctl_wireplumber_stopped c"
  by (simp_all add: touch_def)

lemma now_ms_frame [frame]:
  "ctl_state (snd (now_ms ops c)) = ctl_state c"
  "ctl_active (snd (now_ms ops c)) = ctl_active c"
  "ctl_candidate (snd (now_ms ops c)) = ctl_candidate c"
  "ctl_pending (snd (now_ms ops c)) = ctl_pending c"
  "ctl_candidate_since (snd (now_ms ops c)) = ctl_candidate_since c"
  "ctl_idle_since (snd (now_ms ops c)) = ctl_idle_since c"
  "ctl_capture_retry_after (snd (now_ms ops c)) = ctl_capture_retry_after c"
  "ctl_filler_retry_after (snd (now_ms ops c)) = ctl_filler_retry_after c"
  "ctl_capture_retry_exponent (snd (now_ms ops c)) = ctl_capture_retry_exponent c"
  "ctl_filler_retry_exponent (snd (now_ms ops c)) = ctl_filler_retry_exponent c"
  "ctl_capture (snd (now_ms ops c)) = ctl_capture c"
  "ctl_filler (snd (now_ms ops c)) = ctl_filler c"
  "ctl_filler_format (snd (now_ms ops c)) = ctl_filler_format c"
  "ctl_wireplumber_stopped (snd (now_ms ops c)) = ctl_wireplumber_stopped c"
  "ctl_oob (snd (now_ms ops c)) = ctl_oob c"
  by (simp_all add: now_ms_def split_beta)

lemma query_format_frame [frame]:
  "ctl_state (snd (query_format ops cam c)) = ctl_state c"
  "ctl_active (snd (query_format ops cam c)) = ctl_active c"
  "ctl_candidate (snd (query_format ops cam c)) = ctl_candidate c"
  "ctl_pending (snd (query_format ops cam c)) = ctl_pending c"
  "ctl_candidate_since (snd (query_format ops cam c)) = ctl_candidate_since c"
  "ctl_idle_since (snd (query_format ops cam c)) = ctl_idle_since c"
  "ctl_capture_retry_after (snd (query_format ops cam c)) = ctl_capture_retry_after c"
  "ctl_filler_retry_after (snd (query_format ops cam c)) = ctl_filler_retry_after c"
  "ctl_capture_retry_exponent (snd (query_format ops cam c)) = ctl_capture_retry_exponent c"
  "ctl_filler_retry_exponent (snd (query_format ops cam c)) = ctl_filler_retry_exponent c"
  "ctl_capture (snd (query_format ops cam c)) = ctl_capture c"
  "ctl_filler (snd (query_format ops cam c)) = ctl_filler c"
  "ctl_filler_format (snd (query_format ops cam c)) = ctl_filler_format c"
  "ctl_wireplumber_stopped (snd (query_format ops cam c)) = ctl_wireplumber_stopped c"
  "ctl_oob (snd (query_format ops cam c)) = ctl_oob c"
  by (simp_all add: query_format_def split_beta)

lemma backend_start_frame [frame]:
  "ctl_state (snd (snd (backend_start ops cam fl fmt c))) = ctl_state c"
  "ctl_active (snd (snd (backend_start ops cam fl fmt c))) = ctl_active c"
  "ctl_candidate (snd (snd (backend_start ops cam fl fmt c))) = ctl_candidate c"
  "ctl_pending (snd (snd (backend_start ops cam fl fmt c))) = ctl_pending c"
  "ctl_candidate_since (snd (snd (backend_start ops cam fl fmt c))) = ctl_candidate_since c"
  "ctl_idle_since (snd (snd (backend_start ops cam fl fmt c))) = ctl_idle_since c"
  "ctl_capture_retry_after (snd (snd (backend_start ops cam fl fmt c))) = ctl_capture_retry_after c"
  "ctl_filler_retry_after (snd (snd (backend_start ops cam fl fmt c))) = ctl_filler_retry_after c"
  "ctl_capture_retry_exponent (snd (snd (backend_start ops cam fl fmt c))) = ctl_capture_retry_exponent c"
  "ctl_filler_retry_exponent (snd (snd (backend_start ops cam fl fmt c))) = ctl_filler_retry_exponent c"
  "ctl_capture (snd (snd (backend_start ops cam fl fmt c))) = ctl_capture c"
  "ctl_filler (snd (snd (backend_start ops cam fl fmt c))) = ctl_filler c"
  "ctl_filler_format (snd (snd (backend_start ops cam fl fmt c))) = ctl_filler_format c"
  "ctl_wireplumber_stopped (snd (snd (backend_start ops cam fl fmt c))) = ctl_wireplumber_stopped c"
  "ctl_oob (snd (snd (backend_start ops cam fl fmt c))) = ctl_oob c"
  by (simp_all add: backend_start_def split_beta)

lemma consumer_mask_frame [frame]:
  "ctl_state (snd (consumer_mask ops c)) = ctl_state c"
  "ctl_active (snd (consumer_mask ops c)) = ctl_active c"
  "ctl_candidate (snd (consumer_mask ops c)) = ctl_candidate c"
  "ctl_pending (snd (consumer_mask ops c)) = ctl_pending c"
  "ctl_candidate_since (snd (consumer_mask ops c)) = ctl_candidate_since c"
  "ctl_idle_since (snd (consumer_mask ops c)) = ctl_idle_since c"
  "ctl_capture_retry_after (snd (consumer_mask ops c)) = ctl_capture_retry_after c"
  "ctl_filler_retry_after (snd (consumer_mask ops c)) = ctl_filler_retry_after c"
  "ctl_capture_retry_exponent (snd (consumer_mask ops c)) = ctl_capture_retry_exponent c"
  "ctl_filler_retry_exponent (snd (consumer_mask ops c)) = ctl_filler_retry_exponent c"
  "ctl_capture (snd (consumer_mask ops c)) = ctl_capture c"
  "ctl_filler (snd (consumer_mask ops c)) = ctl_filler c"
  "ctl_filler_format (snd (consumer_mask ops c)) = ctl_filler_format c"
  "ctl_wireplumber_stopped (snd (consumer_mask ops c)) = ctl_wireplumber_stopped c"
  "ctl_oob (snd (consumer_mask ops c)) = ctl_oob c"
  by (simp_all add: consumer_mask_def split_beta)

lemma schedule_capture_retry_frame [frame]:
  "ctl_state (schedule_capture_retry ops cam c) = ctl_state c"
  "ctl_active (schedule_capture_retry ops cam c) = ctl_active c"
  "ctl_candidate (schedule_capture_retry ops cam c) = ctl_candidate c"
  "ctl_pending (schedule_capture_retry ops cam c) = ctl_pending c"
  "ctl_candidate_since (schedule_capture_retry ops cam c) = ctl_candidate_since c"
  "ctl_idle_since (schedule_capture_retry ops cam c) = ctl_idle_since c"
  "ctl_filler_retry_after (schedule_capture_retry ops cam c) = ctl_filler_retry_after c"
  "ctl_filler_retry_exponent (schedule_capture_retry ops cam c) = ctl_filler_retry_exponent c"
  "ctl_capture (schedule_capture_retry ops cam c) = ctl_capture c"
  "ctl_filler (schedule_capture_retry ops cam c) = ctl_filler c"
  "ctl_filler_format (schedule_capture_retry ops cam c) = ctl_filler_format c"
  "ctl_wireplumber_stopped (schedule_capture_retry ops cam c) = ctl_wireplumber_stopped c"
  "ctl_oob (schedule_capture_retry ops cam c) = ctl_oob c"
  by (simp_all add: schedule_capture_retry_def Let_def split_beta frame)

lemma schedule_filler_retry_frame [frame]:
  "ctl_state (schedule_filler_retry ops cam c) = ctl_state c"
  "ctl_active (schedule_filler_retry ops cam c) = ctl_active c"
  "ctl_candidate (schedule_filler_retry ops cam c) = ctl_candidate c"
  "ctl_pending (schedule_filler_retry ops cam c) = ctl_pending c"
  "ctl_candidate_since (schedule_filler_retry ops cam c) = ctl_candidate_since c"
  "ctl_idle_since (schedule_filler_retry ops cam c) = ctl_idle_since c"
  "ctl_capture_retry_after (schedule_filler_retry ops cam c) = ctl_capture_retry_after c"
  "ctl_capture_retry_exponent (schedule_filler_retry ops cam c) = ctl_capture_retry_exponent c"
  "ctl_capture (schedule_filler_retry ops cam c) = ctl_capture c"
  "ctl_filler (schedule_filler_retry ops cam c) = ctl_filler c"
  "ctl_filler_format (schedule_filler_retry ops cam c) = ctl_filler_format c"
  "ctl_wireplumber_stopped (schedule_filler_retry ops cam c) = ctl_wireplumber_stopped c"
  "ctl_oob (schedule_filler_retry ops cam c) = ctl_oob c"
  by (simp_all add: schedule_filler_retry_def Let_def split_beta frame)

lemma clear_capture_retry_frame [frame]:
  "ctl_context (clear_capture_retry cam c) = ctl_context c"
  "ctl_state (clear_capture_retry cam c) = ctl_state c"
  "ctl_active (clear_capture_retry cam c) = ctl_active c"
  "ctl_candidate (clear_capture_retry cam c) = ctl_candidate c"
  "ctl_pending (clear_capture_retry cam c) = ctl_pending c"
  "ctl_candidate_since (clear_capture_retry cam c) = ctl_candidate_since c"
  "ctl_idle_since (clear_capture_retry cam c) = ctl_idle_since c"
  "ctl_filler_retry_after (clear_capture_retry cam c) = ctl_filler_retry_after c"
  "ctl_filler_retry_exponent (clear_capture_retry cam c) = ctl_filler_retry_exponent c"
  "ctl_capture (clear_capture_retry cam c) = ctl_capture c"
  "ctl_filler (clear_capture_retry cam c) = ctl_filler c"
  "ctl_filler_format (clear_capture_retry cam c) = ctl_filler_format c"
  "ctl_wireplumber_stopped (clear_capture_retry cam c) = ctl_wireplumber_stopped c"
  "ctl_oob (clear_capture_retry cam c) = ctl_oob c"
  by (simp_all add: clear_capture_retry_def)

lemma clear_filler_retry_frame [frame]:
  "ctl_context (clear_filler_retry cam c) = ctl_context c"
  "ctl_state (clear_filler_retry cam c) = ctl_state c"
  "ctl_active (clear_filler_retry cam c) = ctl_active c"
  "ctl_candidate (clear_filler_retry cam c) = ctl_candidate c"
  "ctl_pending (clear_filler_retry cam c) = ctl_pending c"
  "ctl_candidate_since (clear_filler_retry cam c) = ctl_candidate_since c"
  "ctl_idle_since (clear_filler_retry cam c) = ctl_idle_since c"
  "ctl_capture_retry_after (clear_filler_retry cam c) = ctl_capture_retry_after c"
  "ctl_capture_retry_exponent (clear_filler_retry cam c) = ctl_capture_retry_exponent c"
  "ctl_capture (clear_filler_retry cam c) = ctl_capture c"
  "ctl_filler (clear_filler_retry cam c) = ctl_filler c"
  "ctl_filler_format (clear_filler_retry cam c) = ctl_filler_format c"
  "ctl_wireplumber_stopped (clear_filler_retry cam c) = ctl_wireplumber_stopped c"
  "ctl_oob (clear_filler_retry cam c) = ctl_oob c"
  by (simp_all add: clear_filler_retry_def)

lemma stop_capture_handle_frame [frame]:
  "ctl_state (snd (stop_capture_handle ops c)) = ctl_state c"
  "ctl_active (snd (stop_capture_handle ops c)) = ctl_active c"
  "ctl_candidate (snd (stop_capture_handle ops c)) = ctl_candidate c"
  "ctl_pending (snd (stop_capture_handle ops c)) = ctl_pending c"
  "ctl_candidate_since (snd (stop_capture_handle ops c)) = ctl_candidate_since c"
  "ctl_idle_since (snd (stop_capture_handle ops c)) = ctl_idle_since c"
  "ctl_capture_retry_after (snd (stop_capture_handle ops c)) = ctl_capture_retry_after c"
  "ctl_filler_retry_after (snd (stop_capture_handle ops c)) = ctl_filler_retry_after c"
  "ctl_capture_retry_exponent (snd (stop_capture_handle ops c)) = ctl_capture_retry_exponent c"
  "ctl_filler_retry_exponent (snd (stop_capture_handle ops c)) = ctl_filler_retry_exponent c"
  "ctl_filler (snd (stop_capture_handle ops c)) = ctl_filler c"
  "ctl_filler_format (snd (stop_capture_handle ops c)) = ctl_filler_format c"
  "ctl_wireplumber_stopped (snd (stop_capture_handle ops c)) = ctl_wireplumber_stopped c"
  "ctl_oob (snd (stop_capture_handle ops c)) = ctl_oob c"
  by (simp_all add: stop_capture_handle_def split_beta)

lemma stop_filler_handle_frame [frame]:
  "ctl_state (snd (stop_filler_handle ops cam c)) = ctl_state c"
  "ctl_active (snd (stop_filler_handle ops cam c)) = ctl_active c"
  "ctl_candidate (snd (stop_filler_handle ops cam c)) = ctl_candidate c"
  "ctl_pending (snd (stop_filler_handle ops cam c)) = ctl_pending c"
  "ctl_candidate_since (snd (stop_filler_handle ops cam c)) = ctl_candidate_since c"
  "ctl_idle_since (snd (stop_filler_handle ops cam c)) = ctl_idle_since c"
  "ctl_capture_retry_after (snd (stop_filler_handle ops cam c)) = ctl_capture_retry_after c"
  "ctl_filler_retry_after (snd (stop_filler_handle ops cam c)) = ctl_filler_retry_after c"
  "ctl_capture_retry_exponent (snd (stop_filler_handle ops cam c)) = ctl_capture_retry_exponent c"
  "ctl_filler_retry_exponent (snd (stop_filler_handle ops cam c)) = ctl_filler_retry_exponent c"
  "ctl_capture (snd (stop_filler_handle ops cam c)) = ctl_capture c"
  "ctl_filler_format (snd (stop_filler_handle ops cam c)) = ctl_filler_format c"
  "ctl_wireplumber_stopped (snd (stop_filler_handle ops cam c)) = ctl_wireplumber_stopped c"
  by (simp_all add: stop_filler_handle_def Let_def split_beta frame)

lemma restore_wireplumber_frame [frame]:
  "ctl_state (snd (restore_wireplumber ops c)) = ctl_state c"
  "ctl_active (snd (restore_wireplumber ops c)) = ctl_active c"
  "ctl_candidate (snd (restore_wireplumber ops c)) = ctl_candidate c"
  "ctl_pending (snd (restore_wireplumber ops c)) = ctl_pending c"
  "ctl_candidate_since (snd (restore_wireplumber ops c)) = ctl_candidate_since c"
  "ctl_idle_since (snd (restore_wireplumber ops c)) = ctl_idle_since c"
  "ctl_capture_retry_after (snd (restore_wireplumber ops c)) = ctl_capture_retry_after c"
  "ctl_filler_retry_after (snd (restore_wireplumber ops c)) = ctl_filler_retry_after c"
  "ctl_capture_retry_exponent (snd (restore_wireplumber ops c)) = ctl_capture_retry_exponent c"
  "ctl_filler_retry_exponent (snd (restore_wireplumber ops c)) = ctl_filler_retry_exponent c"
  "ctl_capture (snd (restore_wireplumber ops c)) = ctl_capture c"
  "ctl_filler (snd (restore_wireplumber ops c)) = ctl_filler c"
  "ctl_filler_format (snd (restore_wireplumber ops c)) = ctl_filler_format c"
  "ctl_oob (snd (restore_wireplumber ops c)) = ctl_oob c"
  by (simp_all add: restore_wireplumber_def Let_def split_beta)

lemma stop_capture_frame [frame]:
  "ctl_state (snd (stop_capture ops cam c)) = ctl_state c"
  "ctl_active (snd (stop_capture ops cam c)) = ctl_active c"
  "ctl_candidate (snd (stop_capture ops cam c)) = ctl_candidate c"
  "ctl_pending (snd (stop_capture ops cam c)) = ctl_pending c"
  "ctl_candidate_since (snd (stop_capture ops cam c)) = ctl_candidate_since c"
  "ctl_idle_since (snd (stop_capture ops cam c)) = ctl_idle_since c"
  "ctl_filler_retry_after (snd (stop_capture ops cam c)) = ctl_filler_retry_after c"
  "ctl_filler_retry_exponent (snd (stop_capture ops cam c)) = ctl_filler_retry_exponent c"
  "ctl_filler (snd (stop_capture ops cam c)) = ctl_filler c"
  "ctl_filler_format (snd (stop_capture ops cam c)) = ctl_filler_format c"
  "ctl_wireplumber_stopped (snd (stop_capture ops cam c)) = ctl_wireplumber_stopped c"
  "ctl_oob (snd (stop_capture ops cam c)) = ctl_oob c"
  by (simp_all add: stop_capture_def split_beta frame)

lemma start_filler_frame [frame]:
  "ctl_state (snd (start_filler ops cam c)) = ctl_state c"
  "ctl_active (snd (start_filler ops cam c)) = ctl_active c"
  "ctl_candidate (snd (start_filler ops cam c)) = ctl_candidate c"
  "ctl_pending (snd (start_filler ops cam c)) = ctl_pending c"
  "ctl_candidate_since (snd (start_filler ops cam c)) = ctl_candidate_since c"
  "ctl_idle_since (snd (start_filler ops cam c)) = ctl_idle_since c"
  "ctl_capture_retry_after (snd (start_filler ops cam c)) = ctl_capture_retry_after c"
  "ctl_capture_retry_exponent (snd (start_filler ops cam c)) = ctl_capture_retry_exponent c"
  "ctl_capture (snd (start_filler ops cam c)) = ctl_capture c"
  "ctl_wireplumber_stopped (snd (start_filler ops cam c)) = ctl_wireplumber_stopped c"
  by (simp_all add: start_filler_def Let_def split_beta frame)

lemma poll_filler_frame [frame]:
  "ctl_state (poll_filler ops cam c) = ctl_state c"
  "ctl_active (poll_filler ops cam c) = ctl_active c"
  "ctl_candidate (poll_filler ops cam c) = ctl_candidate c"
  "ctl_pending (poll_filler ops cam c) = ctl_pending c"
  "ctl_candidate_since (poll_filler ops cam c) = ctl_candidate_since c"
  "ctl_idle_since (poll_filler ops cam c) = ctl_idle_since c"
  "ctl_capture_retry_after (poll_filler ops cam c) = ctl_capture_retry_after c"
  "ctl_capture_retry_exponent (poll_filler ops cam c) = ctl_capture_retry_exponent c"
  "ctl_capture (poll_filler ops cam c) = ctl_capture c"
  "ctl_filler_format (poll_filler ops cam c) = ctl_filler_format c"
  "ctl_wireplumber_stopped (poll_filler ops cam c) = ctl_wireplumber_stopped c"
  by (simp_all add: poll_filler_def Let_def split_beta frame)

lemma tick_filler_frame [frame]:
  "ctl_state (tick_filler ops cam c) = ctl_state c"
  "ctl_active (tick_filler ops cam c) = ctl_active c"
  "ctl_candidate (tick_filler ops cam c) = ctl_candidate c"
  "ctl_pending (tick_filler ops cam c) = ctl_pending c"
  "ctl_candidate_since (tick_filler ops cam c) = ctl_candidate_since c"
  "ctl_idle_since (tick_filler ops cam c) = ctl_idle_since c"
  "ctl_capture_retry_after (tick_filler ops cam c) = ctl_capture_retry_after c"
  "ctl_capture_retry_exponent (tick_filler ops cam c) = ctl_capture_retry_exponent c"
  "ctl_capture (tick_filler ops cam c) = ctl_capture c"
  "ctl_wireplumber_stopped (tick_filler ops cam c) = ctl_wireplumber_stopped c"
  by (simp_all add: tick_filler_def Let_def frame)
lemma oob_frame [frame]:
  "cam \<noteq> CAMERA_NONE \<Longrightarrow> ctl_oob (snd (stop_filler_handle ops cam c)) = ctl_oob c"
  "cam \<noteq> CAMERA_NONE \<Longrightarrow> ctl_oob (snd (start_filler ops cam c)) = ctl_oob c"
  "cam \<noteq> CAMERA_NONE \<Longrightarrow> ctl_oob (poll_filler ops cam c) = ctl_oob c"
  "cam \<noteq> CAMERA_NONE \<Longrightarrow> ctl_oob (tick_filler ops cam c) = ctl_oob c"
proof -
  assume cam: "cam \<noteq> CAMERA_NONE"
  then have touch: "touch cam c = c" for c :: "'a controller"
    by (simp add: touch_def)
  show stop: "ctl_oob (snd (stop_filler_handle ops cam c)) = ctl_oob c" for c
    by (simp add: stop_filler_handle_def Let_def split_beta touch)
  show start: "ctl_oob (snd (start_filler ops cam c)) = ctl_oob c" for c
    by (simp add: start_filler_def Let_def split_beta touch frame)
  show poll: "ctl_oob (poll_filler ops cam c) = ctl_oob c" for c
    by (simp add: poll_filler_def Let_def split_beta touch frame stop)
  show "ctl_oob (tick_filler ops cam c) = ctl_oob c"
    by (simp add: tick_filler_def Let_def start poll)
qed

text \<open>A filler operation writes the slot of its own camera only.\<close>

lemma other_filler [frame]:
  "k \<noteq> cam \<Longrightarrow> ctl_filler (snd (stop_filler_handle ops cam c)) k = ctl_filler c k"
  "k \<noteq> cam \<Longrightarrow> ctl_filler (snd (start_filler ops cam c)) k = ctl_filler c k"
  "k \<noteq> cam \<Longrightarrow> ctl_filler (poll_filler ops cam c) k = ctl_filler c k"
  "k \<noteq> cam \<Longrightarrow> ctl_filler (tick_filler ops cam c) k = ctl_filler c k"
proof -
  assume k: "k \<noteq> cam"
  show stop: "ctl_filler (snd (stop_filler_handle ops cam c)) k = ctl_filler c k" for c
    using k by (simp add: stop_filler_handle_def Let_def split_beta frame)
  show start: "ctl_filler (snd (start_filler ops cam c)) k = ctl_filler c k" for c
    using k by (simp add: start_filler_def Let_def split_beta frame)
  show poll: "ctl_filler (poll_filler ops cam c) k = ctl_filler c k" for c
    by (simp add: poll_filler_def Let_def split_beta frame stop)
  show "ctl_filler (tick_filler ops cam c) k = ctl_filler c k"
    by (simp add: tick_filler_def Let_def start poll)
qed

lemma stop_filler_handle_null:
  "fst (stop_filler_handle ops cam c) = 0 \<Longrightarrow>
     ctl_filler (snd (stop_filler_handle ops cam c)) cam = NULL"
  by (auto simp: stop_filler_handle_def stop_handle_def Let_def split_beta split: if_splits)

lemma stop_filler_handle_keeps_null:
  "ctl_filler c cam = NULL \<Longrightarrow> ctl_filler (snd (stop_filler_handle ops cam c)) cam = NULL"
  by (simp add: stop_filler_handle_def stop_handle_def Let_def frame)

lemma poll_filler_keeps_null:
  "ctl_filler c k = NULL \<Longrightarrow> ctl_filler (poll_filler ops cam c) k = NULL"
  by (cases "k = cam") (simp add: poll_filler_def Let_def frame, simp add: frame)

lemma stop_capture_null:
  "fst (stop_capture ops cam c) = 0 \<Longrightarrow> ctl_capture (snd (stop_capture ops cam c)) = NULL"
  by (auto simp: stop_capture_def stop_capture_handle_def stop_handle_def split_beta
      split: if_splits)

lemma stop_capture_keeps_null:
  "ctl_capture c = NULL \<Longrightarrow> ctl_capture (snd (stop_capture ops cam c)) = NULL"
  by (simp add: stop_capture_def stop_capture_handle_def stop_handle_def split_beta frame)

subsection \<open>Back-off exponents\<close>

definition backoff_ok :: "'w controller \<Rightarrow> bool" where
  "backoff_ok c \<longleftrightarrow>
     (\<forall>k. ctl_capture_retry_exponent c k \<le> 5 \<and> ctl_filler_retry_exponent c k \<le> 5)"

lemma backoff_ok_cong:
  "ctl_capture_retry_exponent c' = ctl_capture_retry_exponent c \<Longrightarrow>
   ctl_filler_retry_exponent c' = ctl_filler_retry_exponent c \<Longrightarrow> backoff_ok c' = backoff_ok c"
  by (simp add: backoff_ok_def)

lemma backoff_retry [keeps]:
  "backoff_ok c \<Longrightarrow> backoff_ok (schedule_capture_retry ops cam c)"
  "backoff_ok c \<Longrightarrow> backoff_ok (schedule_filler_retry ops cam c)"
  "backoff_ok c \<Longrightarrow> backoff_ok (clear_capture_retry cam c)"
  "backoff_ok c \<Longrightarrow> backoff_ok (clear_filler_retry cam c)"
  by (auto simp: backoff_ok_def schedule_capture_retry_def schedule_filler_retry_def
      clear_capture_retry_def clear_filler_retry_def Let_def split_beta frame retry_delay_exponent)

lemma backoff_steps [keeps]:
  "backoff_ok c \<Longrightarrow> backoff_ok (touch cam c)"
  "backoff_ok c \<Longrightarrow> backoff_ok (snd (now_ms ops c))"
  "backoff_ok c \<Longrightarrow> backoff_ok (snd (query_format ops cam c))"
  "backoff_ok c \<Longrightarrow> backoff_ok (snd (snd (backend_start ops cam fl f c)))"
  "backoff_ok c \<Longrightarrow> backoff_ok (snd (consumer_mask ops c))"
  "backoff_ok c \<Longrightarrow> backoff_ok (snd (stop_filler_handle ops cam c))"
  "backoff_ok c \<Longrightarrow> backoff_ok (snd (stop_capture_handle ops c))"
  "backoff_ok c \<Longrightarrow> backoff_ok (snd (restore_wireplumber ops c))"
  by (simp_all add: backoff_ok_def frame)

lemma backoff_update [simp]:
  "backoff_ok (c\<lparr>ctl_context := w\<rparr>) = backoff_ok c"
  "backoff_ok (c\<lparr>ctl_state := s\<rparr>) = backoff_ok c"
  "backoff_ok (c\<lparr>ctl_active := k\<rparr>) = backoff_ok c"
  "backoff_ok (c\<lparr>ctl_candidate := k\<rparr>) = backoff_ok c"
  "backoff_ok (c\<lparr>ctl_pending := k\<rparr>) = backoff_ok c"
  "backoff_ok (c\<lparr>ctl_candidate_since := t\<rparr>) = backoff_ok c"
  "backoff_ok (c\<lparr>ctl_idle_since := t\<rparr>) = backoff_ok c"
  "backoff_ok (c\<lparr>ctl_capture := h\<rparr>) = backoff_ok c"
  "backoff_ok (c\<lparr>ctl_filler := fs\<rparr>) = backoff_ok c"
  "backoff_ok (c\<lparr>ctl_filler_format := ff\<rparr>) = backoff_ok c"
  "backoff_ok (c\<lparr>ctl_wireplumber_stopped := b\<rparr>) = backoff_ok c"
  by (simp_all add: backoff_ok_def)

lemma backoff_workers [keeps]:
  "backoff_ok c \<Longrightarrow> backoff_ok (snd (stop_capture ops cam c))"
  "backoff_ok c \<Longrightarrow> backoff_ok (snd (start_filler ops cam c))"
  "backoff_ok c \<Longrightarrow> backoff_ok (poll_filler ops cam c)"
  by (simp_all add: stop_capture_def start_filler_def poll_filler_def Let_def split_beta keeps)

lemma backoff_tick_filler [keeps]:
  "backoff_ok c \<Longrightarrow> backoff_ok (tick_filler ops cam c)"
  by (simp add: tick_filler_def Let_def keeps)

subsection \<open>The invariant\<close>

text \<open>
  \<open>ctl_base\<close> is what every step keeps, also in the middle of a transition: no array was
  indexed out of range, a capture exists only for the active camera, and the active
  camera's loopback has no filler on it.
\<close>

definition ctl_base :: "'w controller \<Rightarrow> bool" where
  "ctl_base c \<longleftrightarrow> \<not> ctl_oob c \<and> backoff_ok c \<and>
     (if ctl_active c = CAMERA_NONE then ctl_capture c = NULL
      else ctl_filler c (ctl_active c) = NULL)"

text \<open>
  \<open>ctl_inv\<close> holds between ticks: only the three rest states occur, and each fixes what
  is active and pending.
\<close>

fun rest_ok :: "controller_state \<Rightarrow> camera_key \<Rightarrow> camera_key \<Rightarrow> bool" where
  "rest_ok CONTROLLER_IDLE active pending \<longleftrightarrow> active = CAMERA_NONE \<and> pending = CAMERA_NONE"
| "rest_ok CONTROLLER_STREAMING active pending \<longleftrightarrow> active \<noteq> CAMERA_NONE \<and> pending = CAMERA_NONE"
| "rest_ok CONTROLLER_RETRY_WAIT active pending \<longleftrightarrow> True"
| "rest_ok s active pending \<longleftrightarrow> False"

definition ctl_inv :: "'w controller \<Rightarrow> bool" where
  "ctl_inv c \<longleftrightarrow> ctl_base c \<and> rest_ok (ctl_state c) (ctl_active c) (ctl_pending c)"

lemma base_start_filler [keeps]:
  "ctl_base c \<Longrightarrow> cam \<noteq> CAMERA_NONE \<Longrightarrow> cam \<noteq> ctl_active c \<Longrightarrow>
     ctl_base (snd (start_filler ops cam c))"
  by (simp add: ctl_base_def frame keeps)

lemma base_poll_filler [keeps]:
  "ctl_base c \<Longrightarrow> cam \<noteq> CAMERA_NONE \<Longrightarrow> ctl_base (poll_filler ops cam c)"
  by (simp add: ctl_base_def frame keeps poll_filler_keeps_null)

lemma base_tick_filler [keeps]:
  "ctl_base c \<Longrightarrow> cam \<noteq> CAMERA_NONE \<Longrightarrow> ctl_base (tick_filler ops cam c)"
  by (cases "cam = ctl_active c")
    (simp_all add: tick_filler_def Let_def frame base_start_filler base_poll_filler)

lemma base_steps [keeps]:
  "ctl_base c \<Longrightarrow> ctl_base (snd (now_ms ops c))"
  "ctl_base c \<Longrightarrow> ctl_base (snd (query_format ops cam c))"
  "ctl_base c \<Longrightarrow> ctl_base (snd (snd (backend_start ops cam fl f c)))"
  "ctl_base c \<Longrightarrow> ctl_base (snd (consumer_mask ops c))"
  "ctl_base c \<Longrightarrow> ctl_base (schedule_capture_retry ops cam c)"
  "ctl_base c \<Longrightarrow> ctl_base (clear_capture_retry cam c)"
  "ctl_base c \<Longrightarrow> ctl_base (snd (restore_wireplumber ops c))"
  "ctl_base c \<Longrightarrow> ctl_base (snd (stop_capture ops cam c))"
  by (simp_all add: ctl_base_def frame keeps stop_capture_keeps_null)

lemma base_stop_filler_handle [keeps]:
  "ctl_base c \<Longrightarrow> cam \<noteq> CAMERA_NONE \<Longrightarrow> ctl_base (snd (stop_filler_handle ops cam c))"
  by (cases "cam = ctl_active c")
    (simp_all add: ctl_base_def frame keeps stop_filler_handle_keeps_null)

lemma base_update [simp]:
  "ctl_base (c\<lparr>ctl_context := w\<rparr>) = ctl_base c"
  "ctl_base (c\<lparr>ctl_state := s\<rparr>) = ctl_base c"
  "ctl_base (c\<lparr>ctl_candidate := k\<rparr>) = ctl_base c"
  "ctl_base (c\<lparr>ctl_pending := k\<rparr>) = ctl_base c"
  "ctl_base (c\<lparr>ctl_candidate_since := t\<rparr>) = ctl_base c"
  "ctl_base (c\<lparr>ctl_idle_since := t\<rparr>) = ctl_base c"
  "ctl_base (c\<lparr>ctl_wireplumber_stopped := b\<rparr>) = ctl_base c"
  by (simp_all add: ctl_base_def)

lemma start_capture_failed_spec:
  assumes "ctl_base c" "ctl_active c = CAMERA_NONE" "cam \<noteq> CAMERA_NONE"
  shows "fst (start_capture_failed ops cam restore c) = -1"
    "ctl_base (snd (start_capture_failed ops cam restore c))"
    "ctl_active (snd (start_capture_failed ops cam restore c)) = CAMERA_NONE"
    "ctl_state (snd (start_capture_failed ops cam restore c)) = CONTROLLER_RETRY_WAIT"
    "ctl_pending (snd (start_capture_failed ops cam restore c)) = ctl_pending c"
  using assms by (simp_all add: start_capture_failed_def Let_def frame keeps)

text \<open>What \<^verbatim>\<open>start_capture\<close> leaves, in both outcomes.\<close>

definition capture_started :: "camera_key \<Rightarrow> 'w controller \<Rightarrow> int \<times> 'w controller \<Rightarrow> bool" where
  "capture_started cam c rc \<longleftrightarrow> ctl_base (snd rc) \<and>
     (if fst rc = 0
      then ctl_active (snd rc) = cam \<and> ctl_state (snd rc) = CONTROLLER_STREAMING \<and>
           ctl_pending (snd rc) = CAMERA_NONE
      else fst rc = -1 \<and> ctl_active (snd rc) = CAMERA_NONE \<and>
           ctl_state (snd rc) = CONTROLLER_RETRY_WAIT \<and> ctl_pending (snd rc) = ctl_pending c)"

lemma base_capture_started [keeps]:
  "ctl_base c \<Longrightarrow> cam \<noteq> CAMERA_NONE \<Longrightarrow> ctl_filler c cam = NULL \<Longrightarrow>
     ctl_base (clear_capture_retry cam
       (c\<lparr>ctl_capture := h, ctl_active := cam, ctl_pending := k, ctl_state := s\<rparr>))"
  by (simp add: ctl_base_def frame keeps)

lemma launch_capture_spec:
  assumes "ctl_base c" "ctl_active c = CAMERA_NONE" "cam \<noteq> CAMERA_NONE" "ctl_filler c cam = NULL"
  shows "capture_started cam c (launch_capture ops cam c)"
  using assms
  by (simp add: capture_started_def launch_capture_def split_beta frame keeps
      start_capture_failed_spec split: option.split)

lemma capture_started_cong:
  "ctl_pending c' = ctl_pending c \<Longrightarrow> capture_started cam c' rc = capture_started cam c rc"
  by (simp add: capture_started_def)

lemma start_capture_spec:
  assumes "ctl_base c" "ctl_active c = CAMERA_NONE" "cam \<noteq> CAMERA_NONE"
  shows "capture_started cam c (start_capture ops cam c)"
proof -
  have failed: "capture_started cam c (start_capture_failed ops cam b d)"
    if "ctl_base d" "ctl_active d = CAMERA_NONE" "ctl_pending d = ctl_pending c" for b d
    using that assms(3) by (simp add: capture_started_def start_capture_failed_spec)
  have launch: "capture_started cam c (launch_capture ops cam d)"
    if "ctl_base d" "ctl_active d = CAMERA_NONE" "ctl_pending d = ctl_pending c"
      "ctl_filler d cam = NULL" for d
    using launch_capture_spec [of d cam ops] that assms(3) by (simp add: capture_started_def)
  have stopped: "capture_started cam c
      (-1, (schedule_capture_retry ops cam d)\<lparr>ctl_state := CONTROLLER_RETRY_WAIT\<rparr>)"
    if "ctl_base d" "ctl_active d = CAMERA_NONE" "ctl_pending d = ctl_pending c" for d
    using that by (simp add: capture_started_def frame keeps)
  show ?thesis
    using assms
    by (simp add: start_capture_def Let_def split_beta frame keeps failed launch stopped
        stop_filler_handle_null)
qed

lemma inv_rest [simp]:
  "ctl_inv (c\<lparr>ctl_state := CONTROLLER_RETRY_WAIT\<rparr>) = ctl_base c"
  "ctl_inv (c\<lparr>ctl_pending := CAMERA_NONE, ctl_state := CONTROLLER_IDLE\<rparr>) =
     (ctl_base c \<and> ctl_active c = CAMERA_NONE)"
  by (auto simp: ctl_inv_def)

lemma inv_update [simp]:
  "ctl_inv (c\<lparr>ctl_context := w\<rparr>) = ctl_inv c"
  "ctl_inv (c\<lparr>ctl_candidate := k\<rparr>) = ctl_inv c"
  "ctl_inv (c\<lparr>ctl_candidate_since := t\<rparr>) = ctl_inv c"
  "ctl_inv (c\<lparr>ctl_idle_since := t\<rparr>) = ctl_inv c"
  by (simp_all add: ctl_inv_def)

lemma base_deactivate [keeps]:
  "ctl_base c \<Longrightarrow> ctl_capture c = NULL \<Longrightarrow> ctl_base (c\<lparr>ctl_active := CAMERA_NONE\<rparr>)"
  by (simp add: ctl_base_def)

lemma inv_base: "ctl_inv c \<Longrightarrow> ctl_base c"
  by (simp add: ctl_inv_def)

lemma inv_streaming:
  "ctl_inv c \<Longrightarrow> ctl_state c = CONTROLLER_STREAMING \<Longrightarrow> ctl_active c \<noteq> CAMERA_NONE"
  by (simp add: ctl_inv_def)

lemma inv_idle [keeps]:
  "ctl_inv c \<Longrightarrow> ctl_active c = CAMERA_NONE \<Longrightarrow>
     ctl_state c = CONTROLLER_RETRY_WAIT \<longrightarrow> ctl_pending c = CAMERA_NONE \<Longrightarrow>
     ctl_inv (c\<lparr>ctl_state := CONTROLLER_IDLE\<rparr>)"
  by (cases "ctl_state c") (simp_all add: ctl_inv_def)

lemma transition_inv [keeps]:
  assumes "ctl_base c" "target \<noteq> CAMERA_NONE \<or> ctl_active c \<noteq> CAMERA_NONE"
  shows "ctl_inv (snd (transition ops target c))"
proof -
  have start: "ctl_inv (snd (start_capture ops target d))"
    if "ctl_base d" "ctl_active d = CAMERA_NONE" "target \<noteq> CAMERA_NONE" for d
    using start_capture_spec [OF that, of ops] that(3)
    by (auto simp: capture_started_def ctl_inv_def split: if_splits)
  show ?thesis
    using assms
    by (auto simp: transition_def Let_def split_beta frame keeps start stop_capture_null)
qed

lemma capture_failed_inv [keeps]:
  assumes "ctl_base c" "ctl_active c \<noteq> CAMERA_NONE"
  shows "ctl_inv (capture_failed ops c)"
  using assms
  by (simp add: capture_failed_def Let_def split_beta frame keeps stop_capture_null)

lemma tick_idle_inv [keeps]: "ctl_inv c \<Longrightarrow> ctl_inv (snd (tick_idle ops t c))"
  by (auto simp: tick_idle_def Let_def inv_base intro!: inv_idle transition_inv)

lemma tick_requested_inv [keeps]:
  "ctl_inv c \<Longrightarrow> requested \<noteq> CAMERA_NONE \<Longrightarrow>
     ctl_inv (snd (tick_requested ops t requested c))"
  by (auto simp: tick_requested_def Let_def inv_base intro!: transition_inv)

lemma inv_steps [keeps]:
  "ctl_inv c \<Longrightarrow> ctl_inv (snd (now_ms ops c))"
  "ctl_inv c \<Longrightarrow> ctl_inv (snd (consumer_mask ops c))"
  "ctl_inv c \<Longrightarrow> cam \<noteq> CAMERA_NONE \<Longrightarrow> ctl_inv (tick_filler ops cam c)"
  by (simp_all add: ctl_inv_def frame keeps)

lemma tick_decide_inv [keeps]: "ctl_inv c \<Longrightarrow> ctl_inv (snd (tick_decide ops t c))"
  by (simp add: tick_decide_def Let_def split_beta keeps)

lemma controller_zero_inv: "ctl_inv (controller_zero w)"
  by (simp add: controller_zero_def ctl_inv_def ctl_base_def backoff_ok_def)

lemma camera_controller_new_inv: "ctl_inv (camera_controller_new ops w)"
  using controller_zero_inv [of w]
  by (simp add: camera_controller_new_def ctl_inv_def controller_zero_def frame keeps)

lemma camera_controller_tick_inv:
  "ctl_inv c \<Longrightarrow> ctl_inv (snd (camera_controller_tick ops c))"
  by (auto simp: camera_controller_tick_def Let_def split_beta keeps
      intro!: capture_failed_inv inv_base dest: inv_streaming [rotated])

end
