(* ===== verification/LiveScan.thy ===== *)
theory LiveScan
  imports Controller
begin

text \<open>
  The live bridge \<^verbatim>\<open>cbridge/surface-camera-bridge.c\<close>, first part: its context, and how it
  finds out which cameras have a consumer, from \<^verbatim>\<open>/proc\<close> and from inotify events.

  The kernel is the record \<open>'s kernel\<close> of functions on an opaque state \<open>'s\<close>, one per
  system call the bridge makes; they are parameters and nothing is assumed of them.  Time is
  a clock in milliseconds that does not wrap, so \<^verbatim>\<open>monotonic_ms\<close> reads it.  A blocking
  call is interrupted only by a signal, and \<open>lc_signals\<close> are the signals still to come,
  which bounds every retry on \<^verbatim>\<open>EINTR\<close>.
\<close>

section \<open>Constants\<close>

definition POLL_INTERVAL_MS :: nat where "POLL_INTERVAL_MS = 200"
definition WORKER_START_TIMEOUT_MS :: nat where "WORKER_START_TIMEOUT_MS = 10000"
definition WORKER_STOP_TIMEOUT_MS :: nat where "WORKER_STOP_TIMEOUT_MS = 5000"
definition WORKER_REAP_POLL_MS :: nat where "WORKER_REAP_POLL_MS = 50"
definition ACTIVE_CONSUMER_SCAN_MS :: nat where "ACTIVE_CONSUMER_SCAN_MS = 200"
definition IDLE_CONSUMER_SCAN_MS :: nat where "IDLE_CONSUMER_SCAN_MS = 1000"
definition CAMERA_FRONT_DEVICE :: string where "CAMERA_FRONT_DEVICE = ''/dev/video60''"
definition CAMERA_REAR_DEVICE :: string where "CAMERA_REAR_DEVICE = ''/dev/video61''"
definition INT_MAX :: nat where "INT_MAX = 2147483647"
definition PATH_MAX :: nat where "PATH_MAX = 4096"

definition IN_CLOSE_WRITE :: u32 where "IN_CLOSE_WRITE = 0x8"
definition IN_CLOSE_NOWRITE :: u32 where "IN_CLOSE_NOWRITE = 0x10"
definition IN_OPEN :: u32 where "IN_OPEN = 0x20"
definition IN_DELETE_SELF :: u32 where "IN_DELETE_SELF = 0x400"
definition IN_MOVE_SELF :: u32 where "IN_MOVE_SELF = 0x800"
definition IN_Q_OVERFLOW :: u32 where "IN_Q_OVERFLOW = 0x4000"
definition IN_IGNORED :: u32 where "IN_IGNORED = 0x8000"
definition sizeof_inotify_event :: nat where "sizeof_inotify_event = 16"

section \<open>What the kernel shows\<close>

text \<open>
  A process in \<^verbatim>\<open>/proc\<close>: the name of its directory, the lines of its \<^verbatim>\<open>cgroup\<close> and
  \<^verbatim>\<open>status\<close> files when they can be opened, and its descriptors with their link targets.
  \<open>ps_stat\<close> is \<^verbatim>\<open>stat\<close>: whether the path is a character device, and its number.
\<close>

record proc_entry =
  pe_name :: string
  pe_cgroup :: "string list option"
  pe_status :: "string list option"
  pe_fds :: "(string \<times> string option) list option"

record proc_snapshot =
  ps_entries :: "proc_entry list option"
  ps_stat :: "string \<Rightarrow> (bool \<times> u64) option"

text \<open>
  A buffer read from inotify: its length, and the mask and \<^verbatim>\<open>len\<close> of the event at an
  offset.  A drain sees a sequence of buffers, and whether the read after them fails with
  anything but \<^verbatim>\<open>EAGAIN\<close>.
\<close>

record event_buffer =
  eb_length :: nat
  eb_mask :: "nat \<Rightarrow> u32"
  eb_len :: "nat \<Rightarrow> nat"

datatype wait_end = Reaped | No_Child | Wait_Error
datatype kill_end = Sent | No_Process | Not_Sent
datatype poll_end = Poll_Timeout | Poll_Ready | Poll_Error
datatype stop_signal = SIGTERM | SIGKILL

record 's kernel =
  k_interrupted :: "'s \<Rightarrow> bool \<times> 's"
  k_elapse :: "'s \<Rightarrow> nat \<times> 's"
  k_proc :: "'s \<Rightarrow> proc_snapshot \<times> 's"
  k_events :: "'s \<Rightarrow> (event_buffer list \<times> bool) \<times> 's"
  k_open :: "string \<Rightarrow> 's \<Rightarrow> bool \<times> 's"
  k_g_fmt :: "string \<Rightarrow> bool \<Rightarrow> 's \<Rightarrow> u32 option \<times> 's"
  k_calloc :: "'s \<Rightarrow> ptr \<times> 's"
  k_pipe2 :: "'s \<Rightarrow> int \<times> 's"
  k_fork :: "'s \<Rightarrow> int \<times> 's"
  k_setpgid :: "int \<Rightarrow> 's \<Rightarrow> bool \<times> 's"
  k_kill :: "int \<Rightarrow> stop_signal \<Rightarrow> 's \<Rightarrow> kill_end \<times> 's"
  k_waitpid_nohang :: "int \<Rightarrow> 's \<Rightarrow> wait_end option \<times> 's"
  k_waitpid :: "int \<Rightarrow> 's \<Rightarrow> wait_end \<times> 's"
  k_poll_status :: "int \<Rightarrow> nat \<Rightarrow> 's \<Rightarrow> poll_end \<times> 's"
  k_read_status :: "int \<Rightarrow> 's \<Rightarrow> char option \<times> 's"

section \<open>The context\<close>

record camera_endpoint =
  ep_device :: string
  ep_camera_id :: string
  ep_device_number :: u64
  ep_present :: bool

record live_handle =
  lh_worker_pid :: int
  lh_status_fd :: int

text \<open>
  \<open>lc_errno\<close> is \<^verbatim>\<open>errno\<close> as far as the bridge looks at it.  \<open>lc_heap\<close> holds the
  allocated handles, \<open>lc_fds\<close> the open status pipes.  \<open>lc_controller\<close> is the state of the
  controller that \<^verbatim>\<open>context->controller\<close> points to, \<open>None\<close> before it is set.
\<close>

datatype bridge_errno = EINTR | ECHILD | Other_Errno

record 's live =
  lc_kernel :: 's
  lc_clock :: nat
  lc_signals :: nat
  lc_errno :: bridge_errno
  lc_heap :: "ptr \<Rightarrow> live_handle option"
  lc_fds :: "int set"
  lc_endpoints :: "camera_key \<Rightarrow> camera_endpoint"
  lc_pid :: nat
  lc_uid :: u32
  lc_controller :: "controller_state option"
  lc_next_consumer_scan_ms :: nat
  lc_cached_consumer_mask :: u32
  lc_consumer_scans :: u32
  lc_consumer_scan_valid :: bool
  lc_consumer_event_fd :: bool
  lc_systemd_cgroup :: string

text \<open>A kernel call.\<close>

definition call :: "('s \<Rightarrow> 'a \<times> 's) \<Rightarrow> 's live \<Rightarrow> 'a \<times> 's live" where
  "call f w = (case f (lc_kernel w) of (r, s) \<Rightarrow> (r, w\<lparr>lc_kernel := s\<rparr>))"

definition monotonic_ms :: "'s live \<Rightarrow> nat" where
  "monotonic_ms w = lc_clock w"

text \<open>Does a signal interrupt the next blocking call?\<close>

definition interrupted :: "'s kernel \<Rightarrow> 's live \<Rightarrow> bool \<times> 's live" where
  "interrupted k w =
     (if lc_signals w = 0 then (False, w)
      else case call (k_interrupted k) w of (b, w) \<Rightarrow>
        if b then (True, w\<lparr>lc_signals := lc_signals w - 1, lc_errno := EINTR\<rparr>) else (False, w))"

text \<open>Time passes: at least \<open>n\<close> milliseconds.\<close>

definition elapse :: "'s kernel \<Rightarrow> nat \<Rightarrow> 's live \<Rightarrow> 's live" where
  "elapse k n w = (case call (k_elapse k) w of (d, w) \<Rightarrow> w\<lparr>lc_clock := lc_clock w + n + d\<rparr>)"

text \<open>\<^verbatim>\<open>poll(NULL, 0, n)\<close>, which a signal cuts short.\<close>

definition sleep_ms :: "'s kernel \<Rightarrow> nat \<Rightarrow> 's live \<Rightarrow> 's live" where
  "sleep_ms k n w = (case interrupted k w of (b, w) \<Rightarrow> elapse k (if b then 0 else n) w)"

section \<open>Reading the files of a process\<close>

definition is_digit :: "char \<Rightarrow> bool" where
  "is_digit c \<longleftrightarrow> 48 \<le> (of_char c :: nat) \<and> (of_char c :: nat) \<le> 57"

definition digit :: "char \<Rightarrow> nat" where
  "digit c = of_char c - 48"

fun decimal_digits :: "nat \<Rightarrow> string \<Rightarrow> nat option" where
  "decimal_digits value [] = Some value"
| "decimal_digits value (c # cs) =
     (if \<not> is_digit c then None
      else let value = value * 10 + digit c in
        if INT_MAX < value then None else decimal_digits value cs)"

definition decimal_pid :: "string \<Rightarrow> nat option" where
  "decimal_pid text = (if text = [] then None else decimal_digits 0 text)"

text \<open>
  The first line that \<^verbatim>\<open>sscanf(line, "Uid:\t%lu")\<close> accepts, narrowed to \<^verbatim>\<open>uid_t\<close>.  White
  space in the format matches any white space, and \<^verbatim>\<open>%lu\<close> skips it; the kernel writes no
  sign.
\<close>

definition is_space :: "char \<Rightarrow> bool" where
  "is_space c \<longleftrightarrow> c = CHR '' '' \<or> (9 \<le> (of_char c :: nat) \<and> (of_char c :: nat) \<le> 13)"

definition scan_uid :: "string \<Rightarrow> u32 option" where
  "scan_uid line =
     (if take 4 line \<noteq> ''Uid:'' then None
      else let digits = takeWhile is_digit (dropWhile is_space (drop 4 line)) in
        if digits = [] then None
        else Some (of_nat (fold (\<lambda>c v. v * 10 + digit c) digits 0)))"

fun process_uid_lines :: "string list \<Rightarrow> u32 option" where
  "process_uid_lines [] = None"
| "process_uid_lines (line # ls) =
     (case scan_uid line of Some uid \<Rightarrow> Some uid | None \<Rightarrow> process_uid_lines ls)"

definition process_uid :: "proc_entry \<Rightarrow> u32 option" where
  "process_uid p = (case pe_status p of None \<Rightarrow> None | Some ls \<Rightarrow> process_uid_lines ls)"

text \<open>
  The text before the first \<open>c\<close> and the text behind it, as \<^verbatim>\<open>strchr\<close> and \<^verbatim>\<open>memchr\<close> find
  it.
\<close>

fun split_at :: "char \<Rightarrow> string \<Rightarrow> (string \<times> string) option" where
  "split_at c [] = None"
| "split_at c (x # xs) =
     (if x = c then Some ([], xs)
      else case split_at c xs of None \<Rightarrow> None | Some (a, b) \<Rightarrow> Some (x # a, b))"

lemma split_at_length: "split_at c xs = Some (a, b) \<Longrightarrow> length b < length xs"
  by (induction xs arbitrary: a b) (fastforce split: if_splits option.splits)+

text \<open>Is \<^verbatim>\<open>name=systemd\<close> one of the comma-separated controllers?\<close>

function names_systemd :: "string \<Rightarrow> bool" where
  "names_systemd controllers =
     (if controllers = [] then False
      else case split_at (CHR '','') controllers of
        None \<Rightarrow> controllers = ''name=systemd''
      | Some (a, b) \<Rightarrow> a = ''name=systemd'' \<or> names_systemd b)"
  by pat_completeness auto
termination
  by (relation "measure length") (auto dest: split_at_length)

declare names_systemd.simps [simp del]

text \<open>A line's systemd path with the hierarchy's prefix, when it has one.\<close>

definition systemd_line :: "string \<Rightarrow> (string \<times> string) option" where
  "systemd_line line =
     (if take 3 line = ''0::''
      then (if drop 3 line = [] then None else Some (''v2:'', drop 3 line))
      else case split_at (CHR '':'') line of None \<Rightarrow> None
        | Some (_, rest) \<Rightarrow>
          case split_at (CHR '':'') rest of None \<Rightarrow> None
          | Some (controllers, cgroup_path) \<Rightarrow>
            if \<not> names_systemd controllers \<or> cgroup_path = [] then None
            else Some (''v1:'', cgroup_path))"

fun systemd_cgroup_lines :: "string list \<Rightarrow> nat \<Rightarrow> string option" where
  "systemd_cgroup_lines [] cgroup_size = None"
| "systemd_cgroup_lines (line # ls) cgroup_size =
     (case systemd_line line of
        None \<Rightarrow> systemd_cgroup_lines ls cgroup_size
      | Some (prefix, cgroup_path) \<Rightarrow>
          if cgroup_size \<le> length (prefix @ cgroup_path) then None
          else Some (prefix @ cgroup_path))"

definition read_systemd_cgroup :: "proc_entry \<Rightarrow> nat \<Rightarrow> string option" where
  "read_systemd_cgroup p cgroup_size =
     (case pe_cgroup p of None \<Rightarrow> None
      | Some ls \<Rightarrow> if cgroup_size = 0 then None else systemd_cgroup_lines ls cgroup_size)"

section \<open>Scanning for consumers\<close>

definition same_device :: "proc_snapshot \<Rightarrow> string \<Rightarrow> camera_endpoint \<Rightarrow> bool" where
  "same_device snap target ep =
     (case ps_stat snap target of None \<Rightarrow> False
      | Some (chr, rdev) \<Rightarrow> chr \<and> rdev = ep_device_number ep)"

text \<open>A link's target without the mark of a deleted file.\<close>

definition strip_deleted :: "string \<Rightarrow> string" where
  "strip_deleted target =
     (let n = length target in
      if 10 \<le> n \<and> drop (n - 10) target = '' (deleted)'' then take (n - 10) target else target)"

fun uses_endpoint_fds :: "proc_snapshot \<Rightarrow> (string \<times> string option) list \<Rightarrow> camera_endpoint \<Rightarrow> bool" where
  "uses_endpoint_fds snap [] ep = False"
| "uses_endpoint_fds snap ((name, target) # fds) ep =
     (if take 1 name = ''.'' then uses_endpoint_fds snap fds ep
      else case target of None \<Rightarrow> uses_endpoint_fds snap fds ep
        | Some t \<Rightarrow>
          if same_device snap (strip_deleted (take (PATH_MAX - 1) t)) ep then True
          else uses_endpoint_fds snap fds ep)"

definition process_uses_endpoint :: "proc_snapshot \<Rightarrow> proc_entry \<Rightarrow> camera_endpoint \<Rightarrow> bool" where
  "process_uses_endpoint snap p ep =
     (case pe_fds p of None \<Rightarrow> False | Some fds \<Rightarrow> uses_endpoint_fds snap fds ep)"

text \<open>The bits one process adds: the body of the loop over \<^verbatim>\<open>/proc\<close>.\<close>

definition camera_used :: "'s live \<Rightarrow> proc_snapshot \<Rightarrow> proc_entry \<Rightarrow> camera_key \<Rightarrow> u32 \<Rightarrow> u32" where
  "camera_used w snap p cam m =
     (if ep_present (lc_endpoints w cam) \<and> process_uses_endpoint snap p (lc_endpoints w cam)
      then m OR camera_bit cam else m)"

definition process_mask :: "'s live \<Rightarrow> proc_snapshot \<Rightarrow> proc_entry \<Rightarrow> u32 \<Rightarrow> u32" where
  "process_mask w snap p m =
     (case decimal_pid (pe_name p) of None \<Rightarrow> m
      | Some pid \<Rightarrow>
        if pid = lc_pid w then m
        else if read_systemd_cgroup p PATH_MAX = Some (lc_systemd_cgroup w) then m
        else case process_uid p of None \<Rightarrow> m
          | Some uid \<Rightarrow>
            if uid \<noteq> lc_uid w then m
            else camera_used w snap p CAMERA_REAR (camera_used w snap p CAMERA_FRONT m))"

definition scan_consumer_mask :: "'s kernel \<Rightarrow> 's live \<Rightarrow> u32 \<times> 's live" where
  "scan_consumer_mask k w =
     (case call (k_proc k) w of (snap, w) \<Rightarrow>
      case ps_entries snap of None \<Rightarrow> (0, w)
      | Some ps \<Rightarrow> (fold (process_mask w snap) ps 0, w))"

section \<open>Events\<close>

text \<open>The events of one buffer from an offset on: has something changed, has it failed?\<close>

function drain_buffer :: "event_buffer \<Rightarrow> nat \<Rightarrow> bool \<Rightarrow> bool \<Rightarrow> bool \<times> bool" where
  "drain_buffer b offset changed failed =
     (if offset + sizeof_inotify_event \<le> eb_length b then
        let event_size = sizeof_inotify_event + eb_len b offset; mask = eb_mask b offset in
        if eb_length b - offset < event_size then (changed, True)
        else
          let changed = (changed \<or> mask AND IN_Q_OVERFLOW \<noteq> 0);
              changed = (changed \<or> mask AND (IN_OPEN OR IN_CLOSE_NOWRITE OR IN_CLOSE_WRITE) \<noteq> 0);
              failed = (failed \<or> mask AND (IN_IGNORED OR IN_DELETE_SELF OR IN_MOVE_SELF) \<noteq> 0)
          in drain_buffer b (offset + event_size) changed failed
      else (changed, failed))"
  by pat_completeness auto
termination
  by (relation "measure (\<lambda>(b, offset, _). eb_length b - offset)") (auto simp: sizeof_inotify_event_def)

declare drain_buffer.simps [simp del]

text \<open>The reads: an empty one ends the drain, and so does a failure.\<close>

fun drain_buffers :: "event_buffer list \<Rightarrow> bool \<Rightarrow> bool \<Rightarrow> bool \<times> bool" where
  "drain_buffers [] read_fails changed = (changed, read_fails)"
| "drain_buffers (b # bs) read_fails changed =
     (if eb_length b = 0 then (changed, False)
      else case drain_buffer b 0 changed False of (changed, failed) \<Rightarrow>
        if failed then (changed, True) else drain_buffers bs read_fails changed)"

definition drain_consumer_events :: "'s kernel \<Rightarrow> 's live \<Rightarrow> bool \<times> 's live" where
  "drain_consumer_events k w =
     (if \<not> lc_consumer_event_fd w then (False, w)
      else case call (k_events k) w of ((bs, read_fails), w) \<Rightarrow>
        case drain_buffers bs read_fails False of (changed, failed) \<Rightarrow>
          (changed, if failed then w\<lparr>lc_consumer_event_fd := False, lc_consumer_scan_valid := False\<rparr>
                    else w))"

section \<open>The consumer mask\<close>

text \<open>A scan, remembered.\<close>

definition rescan :: "'s kernel \<Rightarrow> 's live \<Rightarrow> 's live" where
  "rescan k w =
     (case scan_consumer_mask k w of (m, w) \<Rightarrow>
        w\<lparr>lc_cached_consumer_mask := m, lc_consumer_scan_valid := True,
          lc_consumer_scans := lc_consumer_scans w + 1\<rparr>)"

definition live_consumer_mask :: "'s kernel \<Rightarrow> 's live \<Rightarrow> u32 \<times> 's live" where
  "live_consumer_mask k w =
     (let current = monotonic_ms w in
      case drain_consumer_events k w of (event_changed, w) \<Rightarrow>
      if lc_consumer_event_fd w then
        if lc_consumer_scan_valid w \<and> \<not> event_changed then (lc_cached_consumer_mask w, w)
        else let w = rescan k w in (lc_cached_consumer_mask w, w)
      else
        let interval = (if lc_controller w = Some CONTROLLER_IDLE \<and> lc_cached_consumer_mask w = 0
                        then IDLE_CONSUMER_SCAN_MS else ACTIVE_CONSUMER_SCAN_MS) in
        if lc_consumer_scan_valid w \<and> current < lc_next_consumer_scan_ms w
        then (lc_cached_consumer_mask w, w)
        else let w = (rescan k w)\<lparr>lc_next_consumer_scan_ms := current + interval\<rparr>
             in (lc_cached_consumer_mask w, w))"

end
