(* ===== verification/LiveWorker.thy ===== *)
theory LiveWorker
  imports LiveScan
begin

text \<open>
  The live bridge, second part: the media workers.  The parent forks a worker, waits for its
  status byte, polls it and stops it; the child arms its parent-death signal, starts the
  media backend and reports.  \<open>'s live\<close> is threaded through every operation; the loops are
  total functions, measured by the signals still to come and the time left to the deadline.
\<close>

section \<open>Errors and descriptors\<close>

definition set_errno :: "bridge_errno \<Rightarrow> 's live \<Rightarrow> 's live" where
  "set_errno e w = w\<lparr>lc_errno := e\<rparr>"

definition wait_errno :: "wait_end \<Rightarrow> 's live \<Rightarrow> 's live" where
  "wait_errno r w =
     (case r of Reaped \<Rightarrow> w | No_Child \<Rightarrow> set_errno ECHILD w | Wait_Error \<Rightarrow> set_errno Other_Errno w)"

definition close_fd :: "int \<Rightarrow> 's live \<Rightarrow> 's live" where
  "close_fd fd w = w\<lparr>lc_fds := lc_fds w - {fd}\<rparr>"

text \<open>\<^verbatim>\<open>waitpid\<close> with \<^verbatim>\<open>WNOHANG\<close>; \<open>None\<close> is a child that still runs.\<close>

definition waitpid_nohang :: "'s kernel \<Rightarrow> int \<Rightarrow> 's live \<Rightarrow> wait_end option \<times> 's live" where
  "waitpid_nohang k pid w =
     (case call (k_waitpid_nohang k pid) w of (r, w) \<Rightarrow>
        (r, case r of None \<Rightarrow> w | Some e \<Rightarrow> wait_errno e w))"

definition kill_group :: "'s kernel \<Rightarrow> int \<Rightarrow> stop_signal \<Rightarrow> 's live \<Rightarrow> bool \<times> 's live" where
  "kill_group k pid sig w =
     (case call (k_kill k pid sig) w of (r, w) \<Rightarrow>
        (r \<noteq> Not_Sent, if r = Sent then w else set_errno Other_Errno w))"

lemma call_frame [simp]:
  "lc_clock (snd (call f w)) = lc_clock w" "lc_signals (snd (call f w)) = lc_signals w"
  "lc_heap (snd (call f w)) = lc_heap w" "lc_fds (snd (call f w)) = lc_fds w"
  "lc_errno (snd (call f w)) = lc_errno w" "lc_endpoints (snd (call f w)) = lc_endpoints w"
  by (simp_all add: call_def split_beta)

lemma errno_frame [simp]:
  "lc_clock (set_errno e w) = lc_clock w" "lc_signals (set_errno e w) = lc_signals w"
  "lc_heap (set_errno e w) = lc_heap w" "lc_fds (set_errno e w) = lc_fds w"
  "lc_errno (set_errno e w) = e" "lc_endpoints (set_errno e w) = lc_endpoints w"
  "lc_clock (wait_errno r w) = lc_clock w" "lc_signals (wait_errno r w) = lc_signals w"
  "lc_heap (wait_errno r w) = lc_heap w" "lc_fds (wait_errno r w) = lc_fds w"
  "lc_endpoints (wait_errno r w) = lc_endpoints w"
  by (simp_all add: set_errno_def wait_errno_def split: wait_end.split)

lemma interrupted_frame [simp]:
  "lc_clock (snd (interrupted k w)) = lc_clock w"
  "lc_heap (snd (interrupted k w)) = lc_heap w" "lc_fds (snd (interrupted k w)) = lc_fds w"
  "lc_endpoints (snd (interrupted k w)) = lc_endpoints w"
  "lc_signals (snd (interrupted k w)) = lc_signals w - (if fst (interrupted k w) then 1 else 0)"
  "fst (interrupted k w) \<Longrightarrow> 0 < lc_signals w"
  "fst (interrupted k w) \<Longrightarrow> lc_errno (snd (interrupted k w)) = EINTR"
  by (auto simp: interrupted_def Let_def split_beta split: if_splits)

lemma interrupted_step:
  "(b, w1) = interrupted k w \<Longrightarrow>
     lc_clock w1 = lc_clock w \<and> lc_signals w1 = lc_signals w - (if b then 1 else 0) \<and> (b \<longrightarrow> 0 < lc_signals w)"
  using interrupted_frame(1,5,6) [of k w] by (metis fst_conv snd_conv)

lemma waitpid_frame [simp]:
  "lc_clock (snd (waitpid_nohang k p w)) = lc_clock w"
  "lc_signals (snd (waitpid_nohang k p w)) = lc_signals w"
  "lc_heap (snd (waitpid_nohang k p w)) = lc_heap w" "lc_fds (snd (waitpid_nohang k p w)) = lc_fds w"
  "lc_endpoints (snd (waitpid_nohang k p w)) = lc_endpoints w"
  by (simp_all add: waitpid_nohang_def split_beta split: option.split)

lemma elapse_frame [simp]:
  "lc_signals (elapse k n w) = lc_signals w" "lc_heap (elapse k n w) = lc_heap w"
  "lc_fds (elapse k n w) = lc_fds w" "lc_endpoints (elapse k n w) = lc_endpoints w"
  "lc_clock w + n \<le> lc_clock (elapse k n w)"
  by (simp_all add: elapse_def split_beta)

lemma sleep_frame [simp]:
  "lc_heap (sleep_ms k n w) = lc_heap w" "lc_fds (sleep_ms k n w) = lc_fds w"
  "lc_endpoints (sleep_ms k n w) = lc_endpoints w"
  by (simp_all add: sleep_ms_def split_beta)

lemma sleep_progress:
  "lc_signals (sleep_ms k n w) < lc_signals w \<or>
   lc_signals (sleep_ms k n w) = lc_signals w \<and> lc_clock w + n \<le> lc_clock (sleep_ms k n w)"
  using elapse_frame(5) [of "snd (interrupted k w)" n k]
  by (cases "fst (interrupted k w)") (simp_all add: sleep_ms_def split_beta)

lemma sleep_clock: "lc_clock w \<le> lc_clock (sleep_ms k n w)"
  using elapse_frame(5) [of "snd (interrupted k w)" n k] elapse_frame(5) [of "snd (interrupted k w)" 0 k]
  by (simp add: sleep_ms_def split_beta)

lemma kill_frame [simp]:
  "lc_clock (snd (kill_group k p s w)) = lc_clock w" "lc_signals (snd (kill_group k p s w)) = lc_signals w"
  "lc_heap (snd (kill_group k p s w)) = lc_heap w" "lc_fds (snd (kill_group k p s w)) = lc_fds w"
  "lc_endpoints (snd (kill_group k p s w)) = lc_endpoints w"
  by (simp_all add: kill_group_def split_beta)

section \<open>Stopping a worker\<close>

text \<open>\<^verbatim>\<open>reap_worker\<close> from its deadline on: 0 reaped, 1 timed out, -1 failed.\<close>

function reap_until :: "'s kernel \<Rightarrow> int \<Rightarrow> nat \<Rightarrow> 's live \<Rightarrow> int \<times> 's live" where
  "reap_until k pid deadline w =
     (let (intr, w1) = interrupted k w in
      if intr then reap_until k pid deadline w1
      else let (r, w2) = waitpid_nohang k pid w1 in
        case r of
          Some Wait_Error \<Rightarrow> (-1, w2)
        | Some _ \<Rightarrow> (0, w2)
        | None \<Rightarrow> if deadline \<le> monotonic_ms w2 then (1, w2)
                  else reap_until k pid deadline (sleep_ms k WORKER_REAP_POLL_MS w2))"
  by pat_completeness auto
termination
proof (relation "measures [\<lambda>(k, pid, d, w). lc_signals w, \<lambda>(k, pid, d, w). d - lc_clock w]", goal_cases)
  case 1
  then show ?case by simp
next
  case (2 k pid d w)
  then show ?case using interrupted_step [of True _ k w] by auto
next
  case (3 k pid d w x intr w1 y r w2)
  then have s: "lc_signals w2 = lc_signals w" "lc_clock w2 = lc_clock w" "\<not> d \<le> lc_clock w2"
    using interrupted_frame(1,5) [of k w] waitpid_frame(1,2) [of k pid w1]
    by (auto simp: monotonic_ms_def prod_eq_iff)
  then show ?case using sleep_progress [of k WORKER_REAP_POLL_MS w2] by (auto simp: WORKER_REAP_POLL_MS_def)
qed

declare reap_until.simps [simp del]

definition reap_worker :: "'s kernel \<Rightarrow> int \<Rightarrow> nat \<Rightarrow> 's live \<Rightarrow> int \<times> 's live" where
  "reap_worker k pid timeout_ms w = reap_until k pid (monotonic_ms w + timeout_ms) w"

text \<open>The blocking wait after \<^verbatim>\<open>SIGKILL\<close>, retried while interrupted.\<close>

function wait_blocking :: "'s kernel \<Rightarrow> int \<Rightarrow> 's live \<Rightarrow> int \<times> 's live" where
  "wait_blocking k pid w =
     (let (intr, w1) = interrupted k w in
      if intr then wait_blocking k pid w1
      else let (r, w2) = call (k_waitpid k pid) w1; w3 = elapse k 0 w2 in
        (if r = Reaped then pid else -1, wait_errno r w3))"
  by pat_completeness auto
termination
proof (relation "measure (\<lambda>(k, pid, w). lc_signals w)", goal_cases)
  case (2 k pid w)
  then show ?case using interrupted_step [of True _ k w] by auto
qed simp

declare wait_blocking.simps [simp del]

definition set_pid :: "ptr \<Rightarrow> int \<Rightarrow> 's live \<Rightarrow> 's live" where
  "set_pid h pid w =
     (case lc_heap w h of None \<Rightarrow> w
      | Some lh \<Rightarrow> w\<lparr>lc_heap := (lc_heap w)(h \<mapsto> lh\<lparr>lh_worker_pid := pid\<rparr>)\<rparr>)"

text \<open>The reaping part of \<^verbatim>\<open>terminate_worker\<close>: the last result and whether a signal failed.\<close>

definition terminate_reap :: "'s kernel \<Rightarrow> int \<Rightarrow> 's live \<Rightarrow> int \<times> bool \<times> 's live" where
  "terminate_reap k pid w =
     (let (sent, w) = kill_group k pid SIGTERM w;
          failed = (\<not> sent);
          (r, w) = reap_worker k pid WORKER_STOP_TIMEOUT_MS w in
      if r = 1 then
        let (sent, w) = kill_group k pid SIGKILL w;
            failed = (failed \<or> \<not> sent);
            (r, w) = reap_worker k pid WORKER_STOP_TIMEOUT_MS w in
        if r = 1 then let (r, w) = wait_blocking k pid w in (r, failed, w)
        else (r, failed, w)
      else (r, failed, w))"

definition terminate_worker :: "'s kernel \<Rightarrow> ptr \<Rightarrow> 's live \<Rightarrow> int \<times> 's live" where
  "terminate_worker k h w =
     (case lc_heap w h of None \<Rightarrow> (0, w)
      | Some lh \<Rightarrow>
        if lh_worker_pid lh \<le> 0 then (0, w)
        else let (result, failed, w) = terminate_reap k (lh_worker_pid lh) w in
          if result < 0 \<and> lc_errno w \<noteq> ECHILD then (-1, w)
          else (if failed then -1 else 0, set_pid h 0 w))"

section \<open>Waiting for the status byte\<close>

text \<open>The read of one byte, retried while interrupted.\<close>

function read_status :: "'s kernel \<Rightarrow> int \<Rightarrow> 's live \<Rightarrow> char option \<times> 's live" where
  "read_status k fd w =
     (let (intr, w1) = interrupted k w in
      if intr then read_status k fd w1 else call (k_read_status k fd) w1)"
  by pat_completeness auto
termination
proof (relation "measure (\<lambda>(k, fd, w). lc_signals w)", goal_cases)
  case (2 k fd w)
  then show ?case using interrupted_step [of True _ k w] by auto
qed simp

declare read_status.simps [simp del]

text \<open>
  \<^verbatim>\<open>wait_for_worker_ready\<close> from its deadline on.  A poll that finds nothing took its whole
  timeout; the read end of an open pipe shows no other events than the two asked for.
\<close>

function ready_until :: "'s kernel \<Rightarrow> int \<Rightarrow> int \<Rightarrow> nat \<Rightarrow> 's live \<Rightarrow> int \<times> 's live" where
  "ready_until k pid fd deadline w =
     (if deadline \<le> monotonic_ms w then (-1, w)
      else let timeout = min 100 (deadline - monotonic_ms w); (intr, w1) = interrupted k w in
      if intr then ready_until k pid fd deadline w1
      else let (p, w2) = call (k_poll_status k fd timeout) w1 in
        case p of
          Poll_Error \<Rightarrow> (-1, set_errno Other_Errno w2)
        | Poll_Ready \<Rightarrow>
            let (c, w3) = read_status k fd w2 in (if c = Some (CHR ''R'') then 0 else -1, w3)
        | Poll_Timeout \<Rightarrow>
            let w3 = elapse k timeout w2; (intr, w4) = interrupted k w3 in
            if intr then ready_until k pid fd deadline w4
            else let (r, w5) = waitpid_nohang k pid w4 in
              case r of Some _ \<Rightarrow> (-1, w5) | None \<Rightarrow> ready_until k pid fd deadline w5)"
  by pat_completeness auto
termination
proof (relation "measures [\<lambda>(k, pid, fd, d, w). lc_signals w, \<lambda>(k, pid, fd, d, w). d - lc_clock w]",
    goal_cases)
  case 1
  then show ?case by simp
next
  case (2 k pid fd d w)
  then show ?case using interrupted_step [of True _ k w] by auto
next
  case (3 k pid fd d w t intr1 x w1 y p w2 w3 z intr2 w4)
  then have "lc_signals w3 = lc_signals w" "lc_signals w4 < lc_signals w3"
    using interrupted_frame(5) [of k w] interrupted_frame(5,6) [of k w3]
      call_frame(2) [of "k_poll_status k fd t" w1]
    by (auto simp: prod_eq_iff)
  then show ?case by simp
next
  case (4 k pid fd d w t intr1 x w1 y p w2 w3 z intr2 w4 v r w5)
  have "lc_signals w5 = lc_signals w4" "lc_clock w5 = lc_clock w4"
    using 4 waitpid_frame(1,2) [of k pid w4] by (auto simp: prod_eq_iff)
  moreover have "lc_signals w4 = lc_signals w3" "lc_clock w4 = lc_clock w3"
    using 4 interrupted_frame(1,5) [of k w3] by (auto simp: prod_eq_iff)
  moreover have "lc_signals w3 = lc_signals w" "lc_clock w + t \<le> lc_clock w3"
    using 4 interrupted_frame(1,5) [of k w] call_frame(1,2) [of "k_poll_status k fd t" w1]
      elapse_frame(5) [of w2 t k]
    by (auto simp: prod_eq_iff)
  moreover have "0 < t" "\<not> d \<le> lc_clock w" using 4 by (auto simp: monotonic_ms_def)
  ultimately show ?case by auto
qed

declare ready_until.simps [simp del]

definition wait_for_worker_ready :: "'s kernel \<Rightarrow> live_handle \<Rightarrow> 's live \<Rightarrow> int \<times> 's live" where
  "wait_for_worker_ready k lh w =
     ready_until k (lh_worker_pid lh) (lh_status_fd lh) (monotonic_ms w + WORKER_START_TIMEOUT_MS) w"

end
