(* ===== verification/Worker_Ownership.thy ===== *)
theory Worker_Ownership
  imports Controller
begin

text \<open>
  Who owns the workers of the controller: the operations table as an interface (locale
  \<open>worker_ops\<close>), the three handle slots of the controller, and the proof that, over any
  provider of the interface, the handles in the slots are exactly the live workers.
  \<open>ctl_reach\<close> is the reachability relation of a ticked controller.
\<close>

section \<open>The operations table as an interface\<close>

text \<open>
  What the controller needs from \<^verbatim>\<open>ControllerOps\<close> to own its workers: \<open>good\<close> is the
  provider's own invariant on its context, \<open>live\<close> the set of handles it has handed out
  and not freed.  A successful start returns a fresh non-null handle; a failed one leaves
  nothing behind; only \<^verbatim>\<open>backend_free\<close> retires a handle.
\<close>

text \<open>
  The controller holds handles in three slots: the capture and the two fillers.
  \<open>held c\<close> are the handles in them, \<open>held_once c\<close> says no handle is in two.
\<close>

definition slots :: "ptr \<Rightarrow> ptr \<Rightarrow> ptr \<Rightarrow> ptr set" where
  "slots a f r = {a, f, r} - {NULL}"

definition apart :: "ptr \<Rightarrow> ptr \<Rightarrow> ptr \<Rightarrow> bool" where
  "apart a f r \<longleftrightarrow> (a \<noteq> NULL \<longrightarrow> a \<noteq> f \<and> a \<noteq> r) \<and> (f \<noteq> NULL \<longrightarrow> f \<noteq> r)"

definition held :: "'w controller \<Rightarrow> ptr set" where
  "held c = slots (ctl_capture c) (ctl_filler c CAMERA_FRONT) (ctl_filler c CAMERA_REAR)"

definition held_once :: "'w controller \<Rightarrow> bool" where
  "held_once c \<longleftrightarrow> apart (ctl_capture c) (ctl_filler c CAMERA_FRONT) (ctl_filler c CAMERA_REAR)"

lemma slots_add:
  assumes "h \<noteq> NULL"
  shows "slots h f r = insert h (slots NULL f r)" "slots a h r = insert h (slots a NULL r)"
    "slots a f h = insert h (slots a f NULL)"
  using assms by (auto simp: slots_def)

lemma slots_remove:
  assumes "apart a f r"
  shows "slots a f r - {a} = slots NULL f r" "slots a f r - {f} = slots a NULL r"
    "slots a f r - {r} = slots a f NULL"
  using assms by (auto simp: slots_def apart_def)

lemma apart_add:
  "h \<noteq> NULL \<Longrightarrow> apart NULL f r \<Longrightarrow> h \<notin> slots NULL f r \<Longrightarrow> apart h f r"
  "h \<noteq> NULL \<Longrightarrow> apart a NULL r \<Longrightarrow> h \<notin> slots a NULL r \<Longrightarrow> apart a h r"
  "h \<noteq> NULL \<Longrightarrow> apart a f NULL \<Longrightarrow> h \<notin> slots a f NULL \<Longrightarrow> apart a f h"
  by (auto simp: slots_def apart_def)

lemma apart_remove:
  assumes "apart a f r"
  shows "apart NULL f r" "apart a NULL r" "apart a f NULL"
  using assms by (auto simp: apart_def)

lemma slots_member:
  "NULL \<notin> slots a f r"
  "a = NULL \<or> a \<in> slots a f r" "f = NULL \<or> f \<in> slots a f r" "r = NULL \<or> r \<in> slots a f r"
  by (auto simp: slots_def)

lemmas slot_rules = slots_add slots_remove apart_add apart_remove

locale worker_ops =
  fixes ops :: "'w controller_ops"
    and good :: "'w \<Rightarrow> bool"
    and live :: "'w \<Rightarrow> ptr set"
  assumes now_good: "good w \<Longrightarrow> good (snd (now_ms_op ops w))"
    and now_live: "good w \<Longrightarrow> live (snd (now_ms_op ops w)) = live w"
    and consumers_good: "good w \<Longrightarrow> good (snd (consumer_mask_op ops w))"
    and consumers_live: "good w \<Longrightarrow> live (snd (consumer_mask_op ops w)) = live w"
    and query_good: "good w \<Longrightarrow> good (snd (query_format_op ops cam w))"
    and query_live: "good w \<Longrightarrow> live (snd (query_format_op ops cam w)) = live w"
    and start_good: "good w \<Longrightarrow> good (snd (snd (backend_start_op ops cam fl f w)))"
    and start_handle: "good w \<Longrightarrow> fst (backend_start_op ops cam fl f w) = 0 \<Longrightarrow>
      fst (snd (backend_start_op ops cam fl f w)) \<noteq> NULL"
    and start_fresh: "good w \<Longrightarrow> fst (backend_start_op ops cam fl f w) = 0 \<Longrightarrow>
      fst (snd (backend_start_op ops cam fl f w)) \<notin> live w"
    and start_live: "good w \<Longrightarrow> live (snd (snd (backend_start_op ops cam fl f w))) =
      (if fst (backend_start_op ops cam fl f w) = 0
       then insert (fst (snd (backend_start_op ops cam fl f w))) (live w) else live w)"
    and poll_good: "good w \<Longrightarrow> good (snd (backend_poll_op ops h w))"
    and poll_live: "good w \<Longrightarrow> live (snd (backend_poll_op ops h w)) = live w"
    and stop_good: "good w \<Longrightarrow> good (snd (backend_stop_op ops h w))"
    and stop_live: "good w \<Longrightarrow> live (snd (backend_stop_op ops h w)) = live w"
    and free_good: "good w \<Longrightarrow> h \<in> live w \<Longrightarrow> good (backend_free_op ops h w)"
    and free_live: "good w \<Longrightarrow> h \<in> live w \<Longrightarrow> live (backend_free_op ops h w) = live w - {h}"
    and wp_stop_good: "good w \<Longrightarrow> good (snd (wireplumber_stop_op ops w))"
    and wp_stop_live: "good w \<Longrightarrow> live (snd (wireplumber_stop_op ops w)) = live w"
    and wp_start_good: "good w \<Longrightarrow> good (snd (wireplumber_start_op ops w))"
    and wp_start_live: "good w \<Longrightarrow> live (snd (wireplumber_start_op ops w)) = live w"
begin

text \<open>The handles the controller holds are exactly the live ones, each held once.\<close>

definition owns :: "'w controller \<Rightarrow> bool" where
  "owns c \<longleftrightarrow> good (ctl_context c) \<and> held_once c \<and> live (ctl_context c) = held c"

lemma owns_cong:
  assumes "good (ctl_context c')" "live (ctl_context c') = live (ctl_context c)"
    "ctl_capture c' = ctl_capture c" "ctl_filler c' = ctl_filler c"
  shows "owns c \<Longrightarrow> owns c'"
  using assms by (simp add: owns_def held_def held_once_def)

lemma owns_update [simp]:
  "owns (c\<lparr>ctl_state := s\<rparr>) = owns c"
  "owns (c\<lparr>ctl_active := k\<rparr>) = owns c"
  "owns (c\<lparr>ctl_candidate := k\<rparr>) = owns c"
  "owns (c\<lparr>ctl_pending := k\<rparr>) = owns c"
  "owns (c\<lparr>ctl_candidate_since := t\<rparr>) = owns c"
  "owns (c\<lparr>ctl_idle_since := t\<rparr>) = owns c"
  "owns (c\<lparr>ctl_capture_retry_after := ra\<rparr>) = owns c"
  "owns (c\<lparr>ctl_filler_retry_after := ra\<rparr>) = owns c"
  "owns (c\<lparr>ctl_capture_retry_exponent := re\<rparr>) = owns c"
  "owns (c\<lparr>ctl_filler_retry_exponent := re\<rparr>) = owns c"
  "owns (c\<lparr>ctl_filler_format := ff\<rparr>) = owns c"
  "owns (c\<lparr>ctl_wireplumber_stopped := b\<rparr>) = owns c"
  "owns (c\<lparr>ctl_oob := b\<rparr>) = owns c"
  by (simp_all add: owns_def held_def held_once_def)

lemma owns_good: "owns c \<Longrightarrow> good (ctl_context c)"
  by (simp add: owns_def)

text \<open>A call that only moves the context along keeps ownership.\<close>

lemma owns_call:
  "owns c \<Longrightarrow> good w \<Longrightarrow> live w = live (ctl_context c) \<Longrightarrow> owns (c\<lparr>ctl_context := w\<rparr>)"
  by (simp add: owns_def held_def held_once_def)

lemma owns_calls:
  assumes "owns c"
  shows "owns (snd (now_ms ops c))" "owns (snd (query_format ops cam c))"
    "owns (snd (consumer_mask ops c))" "owns (c\<lparr>ctl_context := snd (backend_poll_op ops h (ctl_context c))\<rparr>)"
    "owns (c\<lparr>ctl_context := snd (wireplumber_stop_op ops (ctl_context c))\<rparr>)"
    "owns (c\<lparr>ctl_context := snd (wireplumber_start_op ops (ctl_context c))\<rparr>)"
    "owns (touch cam c)"
  using owns_good [OF assms] assms
  by (auto simp: now_ms_def query_format_def consumer_mask_def touch_def split_beta
      now_good now_live query_good query_live consumers_good consumers_live poll_good poll_live
      wp_stop_good wp_stop_live wp_start_good wp_start_live intro!: owns_call)

lemma owns_retry:
  assumes "owns c"
  shows "owns (schedule_capture_retry ops cam c)" "owns (schedule_filler_retry ops cam c)"
    "owns (clear_capture_retry cam c)" "owns (clear_filler_retry cam c)"
    "owns (snd (restore_wireplumber ops c))"
  using assms
  by (simp_all add: schedule_capture_retry_def schedule_filler_retry_def clear_capture_retry_def
      clear_filler_retry_def restore_wireplumber_def Let_def split_beta owns_calls)

lemma owns_start_failed:
  assumes "owns c" "fst (backend_start ops cam fl f c) \<noteq> 0"
  shows "owns (snd (snd (backend_start ops cam fl f c)))"
proof -
  have good: "good (ctl_context c)" by (rule owns_good [OF assms(1)])
  show ?thesis
    using assms(2) unfolding backend_start_def split_beta
    by (simp add: owns_call [OF assms(1)] start_good [OF good] start_live [OF good])
qed

text \<open>A started worker is owned once it is stored in an empty slot.\<close>

lemma started:
  assumes "owns c" "fst (backend_start ops cam fl f c) = 0"
  shows "fst (snd (backend_start ops cam fl f c)) \<noteq> NULL"
    "fst (snd (backend_start ops cam fl f c)) \<notin> held c"
    "good (ctl_context (snd (snd (backend_start ops cam fl f c))))"
    "live (ctl_context (snd (snd (backend_start ops cam fl f c)))) =
       insert (fst (snd (backend_start ops cam fl f c))) (held c)"
proof -
  have good: "good (ctl_context c)" by (rule owns_good [OF assms(1)])
  have live: "live (ctl_context c) = held c" using assms(1) by (simp add: owns_def)
  have r: "fst (backend_start_op ops cam fl f (ctl_context c)) = 0"
    using assms(2) by (simp add: backend_start_def split_beta)
  show "fst (snd (backend_start ops cam fl f c)) \<noteq> NULL"
    using start_handle [OF good r] by (simp add: backend_start_def split_beta)
  show "fst (snd (backend_start ops cam fl f c)) \<notin> held c"
    using start_fresh [OF good r] by (simp add: backend_start_def split_beta live)
  show "good (ctl_context (snd (snd (backend_start ops cam fl f c))))"
    by (simp add: backend_start_def split_beta start_good [OF good])
  show "live (ctl_context (snd (snd (backend_start ops cam fl f c)))) =
       insert (fst (snd (backend_start ops cam fl f c))) (held c)"
    by (simp add: backend_start_def split_beta start_live [OF good] r live)
qed

lemma owns_started_filler:
  assumes "owns c" "fst (backend_start ops cam fl f c) = 0" "cam \<noteq> CAMERA_NONE"
    "ctl_filler c cam = NULL" "fs = ctl_filler c"
  shows "owns ((snd (snd (backend_start ops cam fl f c)))
    \<lparr>ctl_filler := fs(cam := fst (snd (backend_start ops cam fl f c)))\<rparr>)"
  using assms started [OF assms(1,2)]
  by (cases cam) (simp_all add: owns_def held_def held_once_def frame apart_add slots_add)

lemma owns_started_capture:
  assumes "owns c" "fst (backend_start ops cam fl f c) = 0" "ctl_capture c = NULL"
  shows "owns ((snd (snd (backend_start ops cam fl f c)))
      \<lparr>ctl_capture := fst (snd (backend_start ops cam fl f c))\<rparr>)"
  using assms started [OF assms(1,2)]
  by (simp add: owns_def held_def held_once_def frame apart_add slots_add)

lemma owns_slot:
  assumes "owns c"
  shows "NULL \<notin> live (ctl_context c)"
    "ctl_capture c = NULL \<or> ctl_capture c \<in> live (ctl_context c)"
    "cam \<noteq> CAMERA_NONE \<Longrightarrow> ctl_filler c cam = NULL \<or> ctl_filler c cam \<in> live (ctl_context c)"
proof -
  have l: "live (ctl_context c) =
      slots (ctl_capture c) (ctl_filler c CAMERA_FRONT) (ctl_filler c CAMERA_REAR)"
    using assms by (simp add: owns_def held_def)
  show "NULL \<notin> live (ctl_context c)"
    "ctl_capture c = NULL \<or> ctl_capture c \<in> live (ctl_context c)"
    unfolding l by (rule slots_member)+
  assume "cam \<noteq> CAMERA_NONE"
  then show "ctl_filler c cam = NULL \<or> ctl_filler c cam \<in> live (ctl_context c)"
    unfolding l by (cases cam; simp only: slots_member(3,4))
qed

lemma stop_handle_live:
  assumes "good w" "NULL \<notin> live w" "h = NULL \<or> h \<in> live w"
  shows "good (snd (snd (stop_handle ops h w)))"
    "fst (snd (stop_handle ops h w)) = (if fst (stop_handle ops h w) = 0 then NULL else h)"
    "live (snd (snd (stop_handle ops h w))) =
       (if fst (stop_handle ops h w) = 0 then live w - {h} else live w)"
proof -
  let ?w = "snd (backend_stop_op ops h w)"
  note stopped = stop_good [OF assms(1), of h] stop_live [OF assms(1), of h]
  have freed: "good (backend_free_op ops h ?w)" "live (backend_free_op ops h ?w) = live w - {h}"
    if "h \<noteq> NULL"
    using assms(3) that free_good [OF stopped(1), of h] free_live [OF stopped(1), of h] stopped(2)
    by simp_all
  show "good (snd (snd (stop_handle ops h w)))"
    using assms(1) stopped freed by (simp add: stop_handle_def split_beta)
  show "fst (snd (stop_handle ops h w)) = (if fst (stop_handle ops h w) = 0 then NULL else h)"
    by (simp add: stop_handle_def split_beta)
  show "live (snd (snd (stop_handle ops h w))) =
       (if fst (stop_handle ops h w) = 0 then live w - {h} else live w)"
    using assms(2) stopped freed by (simp add: stop_handle_def split_beta)
qed

lemma owns_stop_capture_handle:
  assumes "owns c"
  shows "owns (snd (stop_capture_handle ops c))"
  using stop_handle_live [OF owns_good [OF assms] owns_slot(1,2) [OF assms]] assms
  by (cases "fst (stop_handle ops (ctl_capture c) (ctl_context c)) = 0")
    (auto simp add: owns_def held_def held_once_def stop_capture_handle_def split_beta
      slots_remove intro: apart_remove)

lemma owns_stop_filler_handle:
  assumes "owns c" "cam \<noteq> CAMERA_NONE"
  shows "owns (snd (stop_filler_handle ops cam c))"
  using stop_handle_live [OF owns_good [OF assms(1)] owns_slot(1) [OF assms(1)] owns_slot(3) [OF assms]]
    assms
  by (cases "fst (stop_handle ops (ctl_filler c cam) (ctl_context c)) = 0"; cases cam)
    (auto simp add: owns_def held_def held_once_def stop_filler_handle_def touch_def split_beta
      slots_remove intro: apart_remove)


lemma owns_start_filler:
  assumes "owns c" "cam \<noteq> CAMERA_NONE"
  shows "owns (snd (start_filler ops cam c))"
proof (cases "ctl_filler c cam = NULL")
  case False
  with assms show ?thesis by (simp add: start_filler_def touch_def)
next
  case True
  let ?c1 = "snd (query_format ops cam (snd (now_ms ops c)))"
  have "owns ?c1" "ctl_filler ?c1 = ctl_filler c"
    using assms(1) by (simp_all add: owns_calls frame)
  with True assms(1) show ?thesis
    by (simp add: start_filler_def touch_def assms(2) Let_def split_beta owns_calls owns_retry
        owns_start_failed owns_started_filler frame)
qed

lemma owns_poll_filler:
  assumes "owns c" "cam \<noteq> CAMERA_NONE"
  shows "owns (poll_filler ops cam c)"
  using assms by (simp add: poll_filler_def touch_def Let_def split_beta owns_calls owns_retry
      owns_stop_filler_handle)

lemma owns_tick_filler:
  "owns c \<Longrightarrow> cam \<noteq> CAMERA_NONE \<Longrightarrow> owns (tick_filler ops cam c)"
  by (simp add: tick_filler_def Let_def owns_poll_filler owns_start_filler)

lemma owns_stop_capture:
  "owns c \<Longrightarrow> owns (snd (stop_capture ops cam c))"
  by (simp add: stop_capture_def split_beta owns_retry owns_stop_capture_handle)

lemma owns_start_capture_failed:
  "owns c \<Longrightarrow> cam \<noteq> CAMERA_NONE \<Longrightarrow> owns (snd (start_capture_failed ops cam restore c))"
  by (simp add: start_capture_failed_def Let_def owns_retry owns_start_filler)

lemma owns_launch_capture:
  assumes "owns c" "cam \<noteq> CAMERA_NONE" "ctl_capture c = NULL"
  shows "owns (snd (launch_capture ops cam c))"
  using assms
  by (simp add: launch_capture_def split_beta owns_retry owns_calls owns_start_capture_failed
      owns_start_failed owns_started_capture frame split: option.split)

lemma launch_capture_attended:
  assumes "owns c" "fst (launch_capture ops cam c) = 0"
  shows "ctl_capture (snd (launch_capture ops cam c)) \<noteq> NULL"
  using assms
  by (auto simp: launch_capture_def start_capture_failed_def Let_def split_beta started owns_calls
      frame split: option.splits if_splits simp del: neq0_conv)

lemma owns_start_capture:
  assumes "owns c" "cam \<noteq> CAMERA_NONE" "ctl_capture c = NULL"
  shows "owns (snd (start_capture ops cam c))"
  using assms
  by (simp add: start_capture_def Let_def split_beta owns_retry owns_calls
      owns_stop_filler_handle owns_start_capture_failed owns_launch_capture frame)

lemma start_capture_attended:
  assumes "owns c" "cam \<noteq> CAMERA_NONE" "fst (start_capture ops cam c) = 0"
  shows "ctl_capture (snd (start_capture ops cam c)) \<noteq> NULL"
proof -
  have "fst (start_capture_failed ops cam b d) \<noteq> 0" for b d
    by (simp add: start_capture_failed_def Let_def)
  with assms show ?thesis
    by (auto simp: start_capture_def Let_def split_beta owns_calls owns_retry
        owns_stop_filler_handle launch_capture_attended split: if_splits simp del: neq0_conv)
qed

lemma owns_transition:
  assumes "owns c" "ctl_base c" "target \<noteq> CAMERA_NONE \<or> ctl_active c \<noteq> CAMERA_NONE"
  shows "owns (snd (transition ops target c))"
proof -
  have idle: "ctl_active c = CAMERA_NONE \<Longrightarrow> ctl_capture c = NULL"
    using assms(2) by (simp add: ctl_base_def)
  show ?thesis
    using assms(1,3) idle
    by (auto simp: transition_def Let_def split_beta owns_stop_capture owns_start_filler owns_retry
        owns_start_capture stop_capture_null frame)
qed


lemma owns_capture_failed:
  assumes "owns c" "ctl_active c \<noteq> CAMERA_NONE"
  shows "owns (capture_failed ops c)"
  using assms by (simp add: capture_failed_def Let_def split_beta owns_stop_capture
      owns_start_filler owns_retry)

text \<open>Between ticks, whatever is active has a worker.\<close>

definition attended :: "'w controller \<Rightarrow> bool" where
  "attended c \<longleftrightarrow> (ctl_active c \<noteq> CAMERA_NONE \<longrightarrow> ctl_capture c \<noteq> NULL)"

lemma stop_capture_failed_attended:
  "fst (stop_capture ops k c) \<noteq> 0 \<Longrightarrow> ctl_capture (snd (stop_capture ops k c)) = ctl_capture c"
  by (auto simp: stop_capture_def stop_capture_handle_def stop_handle_def split_beta frame
      split: if_splits)

lemma attended_capture_failed:
  "attended c \<Longrightarrow> attended (capture_failed ops c)"
  by (simp add: attended_def capture_failed_def Let_def split_beta frame
      stop_capture_failed_attended)

lemma attended_start_capture:
  assumes "owns c" "ctl_base c" "ctl_active c = CAMERA_NONE" "cam \<noteq> CAMERA_NONE"
  shows "attended (snd (start_capture ops cam c))"
  using start_capture_spec [OF assms(2-4), of ops] start_capture_attended [OF assms(1,4)]
  by (auto simp: attended_def capture_started_def split: if_splits)

lemma attended_transition:
  assumes "owns c" "ctl_base c" "attended c" "target \<noteq> CAMERA_NONE \<or> ctl_active c \<noteq> CAMERA_NONE"
  shows "attended (snd (transition ops target c))"
proof -
  have rest: "attended (d\<lparr>ctl_state := s\<rparr>) = attended d" "attended (d\<lparr>ctl_pending := k\<rparr>) = attended d"
    for d s k by (simp_all add: attended_def)
  have none: "ctl_active d = CAMERA_NONE \<Longrightarrow> attended d" for d
    by (simp add: attended_def)
  have failed: "attended (snd (stop_capture ops k d))"
    if "fst (stop_capture ops k d) \<noteq> 0" "attended d" for k d
    using that by (simp add: attended_def frame stop_capture_failed_attended)
  show ?thesis
    using assms
    by (auto simp: transition_def Let_def split_beta rest none failed attended_start_capture
        owns_stop_capture owns_start_filler owns_retry stop_capture_null frame keeps)
qed

subsection \<open>Sound controllers stay sound\<close>

definition sound :: "'w controller \<Rightarrow> bool" where
  "sound c \<longleftrightarrow> ctl_inv c \<and> owns c \<and> attended c"

lemma sound_update [simp]:
  "sound (c\<lparr>ctl_candidate := k\<rparr>) = sound c"
  "sound (c\<lparr>ctl_candidate_since := t\<rparr>) = sound c"
  "sound (c\<lparr>ctl_idle_since := t\<rparr>) = sound c"
  by (simp_all add: sound_def attended_def)

lemma sound_transition:
  "sound c \<Longrightarrow> target \<noteq> CAMERA_NONE \<or> ctl_active c \<noteq> CAMERA_NONE \<Longrightarrow>
     sound (snd (transition ops target c))"
  by (simp add: sound_def owns_transition attended_transition transition_inv inv_base)

lemma sound_idle:
  "sound c \<Longrightarrow> ctl_active c = CAMERA_NONE \<Longrightarrow>
     ctl_state c = CONTROLLER_RETRY_WAIT \<longrightarrow> ctl_pending c = CAMERA_NONE \<Longrightarrow>
     sound (c\<lparr>ctl_state := CONTROLLER_IDLE\<rparr>)"
  by (simp add: sound_def attended_def inv_idle)

lemma sound_tick_decide:
  assumes "sound c"
  shows "sound (snd (tick_decide ops t c))"
proof -
  have "sound (snd (consumer_mask ops c))"
    using assms by (simp add: sound_def attended_def keeps owns_calls frame)
  moreover have "sound (snd (tick_idle ops t d))" if "sound d" for d
    using that by (auto simp: tick_idle_def Let_def intro!: sound_idle sound_transition)
  moreover have "sound (snd (tick_requested ops t k d))" if "sound d" "k \<noteq> CAMERA_NONE" for d k
    using that by (auto simp: tick_requested_def Let_def intro!: sound_transition)
  ultimately show ?thesis
    by (simp add: tick_decide_def Let_def split_beta)
qed

lemma sound_new:
  assumes "good w" "live w = {}"
  shows "sound (camera_controller_new ops w)"
proof -
  have "owns (controller_zero w)"
    using assms by (simp add: owns_def held_def held_once_def controller_zero_def slots_def apart_def)
  moreover have "ctl_active (controller_zero w) = CAMERA_NONE"
    by (simp add: controller_zero_def)
  ultimately show ?thesis
    using camera_controller_new_inv [of ops w]
    by (simp add: sound_def attended_def camera_controller_new_def owns_start_filler frame)
qed

lemma sound_tick:
  assumes "sound c"
  shows "sound (snd (camera_controller_tick ops c))"
proof -
  let ?c1 = "tick_filler ops CAMERA_REAR (tick_filler ops CAMERA_FRONT (snd (now_ms ops c)))"
  let ?c2 = "?c1\<lparr>ctl_context := snd (backend_poll_op ops (ctl_capture ?c1) (ctl_context ?c1))\<rparr>"
  have c1: "sound ?c1"
    using assms by (simp add: sound_def attended_def keeps owns_calls owns_tick_filler frame)
  then have c2: "sound ?c2"
    by (simp add: sound_def attended_def owns_calls)
  have "ctl_state ?c1 = CONTROLLER_STREAMING \<Longrightarrow> sound (capture_failed ops ?c2)"
    using c2 inv_streaming [of ?c2]
    by (simp add: sound_def owns_capture_failed attended_capture_failed capture_failed_inv inv_base)
  then show ?thesis
    using sound_tick_decide [OF c1] sound_tick_decide [OF c2]
    by (simp add: camera_controller_tick_def Let_def split_beta)
qed

lemma owns_shutdown:
  assumes "owns c"
  shows "owns (snd (camera_controller_shutdown ops c))"
  using assms
  by (simp add: camera_controller_shutdown_def shutdown_filler_def split_beta owns_retry
      owns_stop_filler_handle owns_stop_capture_handle)

end

section \<open>Reachable controllers\<close>

text \<open>
  A controller is created in an initial context and then ticked; between ticks the
  environment moves the context (time passes, consumers come and go, workers die).
\<close>

inductive ctl_reach ::
  "'w controller_ops \<Rightarrow> ('w \<Rightarrow> bool) \<Rightarrow> ('w \<Rightarrow> 'w \<Rightarrow> bool) \<Rightarrow> 'w controller \<Rightarrow> bool"
  for ops init env where
  created: "init w \<Longrightarrow> ctl_reach ops init env (camera_controller_new ops w)"
| ticked: "ctl_reach ops init env c \<Longrightarrow>
    ctl_reach ops init env (snd (camera_controller_tick ops c))"
| elapsed: "ctl_reach ops init env c \<Longrightarrow> env (ctl_context c) w \<Longrightarrow>
    ctl_reach ops init env (c\<lparr>ctl_context := w\<rparr>)"

lemma reach_inv: "ctl_reach ops init env c \<Longrightarrow> ctl_inv c"
  by (induction rule: ctl_reach.induct)
    (simp_all add: camera_controller_new_inv camera_controller_tick_inv)

context worker_ops
begin

lemma reach_sound:
  assumes "ctl_reach ops init env c"
    and "\<And>w. init w \<Longrightarrow> good w \<and> live w = {}"
    and "\<And>w w'. good w \<Longrightarrow> env w w' \<Longrightarrow> good w' \<and> live w' = live w"
  shows "sound c"
  using assms(1)
proof (induction rule: ctl_reach.induct)
  case (created w)
  with assms(2) show ?case by (simp add: sound_new)
next
  case (ticked c)
  then show ?case by (simp add: sound_tick)
next
  case (elapsed c w)
  then have "good w" "live w = live (ctl_context c)"
    using assms(3) [of "ctl_context c" w] by (simp_all add: sound_def owns_def)
  with elapsed show ?case
    by (simp add: sound_def attended_def owns_call)
qed

end

end
