(* ===== verification/Controller_Timing.thy ===== *)
theory Controller_Timing
  imports Worker_Ownership
begin

text \<open>
  When the controller of \<^verbatim>\<open>cbridge/controller.c\<close> opens, keeps, closes and retries a
  camera: the open debounce, the close grace period, the exponential back-off, and the
  progress it makes when the operations succeed.  The theory ends with the properties of
  the controller and their witnesses.
\<close>

section \<open>What a tick can do to the active camera\<close>

lemma start_capture_failed_active [frame]:
  "ctl_active (snd (start_capture_failed ops cam b c)) = ctl_active c"
  by (simp add: start_capture_failed_def Let_def frame)

lemma launch_capture_active:
  "ctl_active (snd (launch_capture ops cam c)) \<in> {ctl_active c, cam}"
  by (simp add: launch_capture_def split_beta frame split: option.split)

lemma start_capture_active:
  "ctl_active (snd (start_capture ops cam c)) \<in> {ctl_active c, cam}"
proof -
  have "ctl_active (snd (launch_capture ops cam d)) = ctl_active c \<or>
      ctl_active (snd (launch_capture ops cam d)) = cam" if "ctl_active d = ctl_active c" for d
    using launch_capture_active [of ops cam d] that by simp
  then show ?thesis
    by (simp add: start_capture_def Let_def split_beta frame)
qed

lemma transition_active:
  "ctl_active (snd (transition ops target c)) \<in> {ctl_active c, CAMERA_NONE, target}"
proof -
  have start: "ctl_active (snd (start_capture ops target d)) = ctl_active c \<or>
      ctl_active (snd (start_capture ops target d)) = CAMERA_NONE \<or>
      ctl_active (snd (start_capture ops target d)) = target"
    if "ctl_active d \<in> {ctl_active c, CAMERA_NONE}" for d
    using start_capture_active [of ops target d] that by auto
  show ?thesis
    using start [of "c\<lparr>ctl_state := CONTROLLER_STOPPING, ctl_pending := target\<rparr>"]
    by (cases "target = CAMERA_NONE"; cases "ctl_active c = CAMERA_NONE")
      (auto simp: transition_def Let_def split_beta frame start)
qed

lemma capture_failed_active:
  "ctl_active (capture_failed ops c) \<in> {ctl_active c, CAMERA_NONE}"
  by (simp add: capture_failed_def Let_def split_beta frame)

lemma tick_idle_active:
  "ctl_active (snd (tick_idle ops t c)) \<in> {ctl_active c, CAMERA_NONE}"
proof -
  have "ctl_active (snd (transition ops CAMERA_NONE d)) = ctl_active c \<or>
      ctl_active (snd (transition ops CAMERA_NONE d)) = CAMERA_NONE"
    if "ctl_active d = ctl_active c" for d
    using transition_active [of ops CAMERA_NONE d] that by simp
  then show ?thesis
    by (simp add: tick_idle_def Let_def)
qed

lemma tick_requested_opens:
  assumes "ctl_active (snd (tick_requested ops t k c)) \<notin> {ctl_active c, CAMERA_NONE}"
  shows "ctl_active (snd (tick_requested ops t k c)) = k \<and> ctl_candidate c = k \<and>
    OPEN_DEBOUNCE_MS \<le> t - ctl_candidate_since c \<and> ctl_capture_retry_after c k \<le> t"
proof -
  have opens: "ctl_active (snd (transition ops k d)) = ctl_active c \<or>
      ctl_active (snd (transition ops k d)) = CAMERA_NONE \<or>
      ctl_active (snd (transition ops k d)) = k"
    if "ctl_active d = ctl_active c" for d
    using transition_active [of ops k d] that by auto
  have zero: "\<not> OPEN_DEBOUNCE_MS \<le> 0" by (simp add: OPEN_DEBOUNCE_MS_def)
  let ?c = "c\<lparr>ctl_idle_since := 0\<rparr>"
  let ?d = "if k \<noteq> ctl_candidate ?c then ?c\<lparr>ctl_candidate := k, ctl_candidate_since := t\<rparr> else ?c"
  have moved: "tick_requested ops t k c = transition ops k ?d"
    and late: "ctl_capture_retry_after c k \<le> t"
    and deb: "k = ctl_active c \<or> OPEN_DEBOUNCE_MS \<le> t - ctl_candidate_since ?d"
    using assms by (auto simp: tick_requested_def Let_def not_less OPEN_DEBOUNCE_MS_def split: if_splits)
  have k: "ctl_active (snd (tick_requested ops t k c)) = k"
    using assms opens [of ?d] unfolding moved by simp
  then have "k \<noteq> ctl_active c" using assms by simp
  with deb zero have "ctl_candidate c = k" "OPEN_DEBOUNCE_MS \<le> t - ctl_candidate_since c"
    by (auto split: if_splits)
  with k late show ?thesis by simp
qed

lemma tick_decide_opens:
  assumes "ctl_active (snd (tick_decide ops t c)) \<notin> {ctl_active c, CAMERA_NONE}"
  shows "ctl_candidate c = ctl_active (snd (tick_decide ops t c)) \<and>
    OPEN_DEBOUNCE_MS \<le> t - ctl_candidate_since c \<and>
    ctl_capture_retry_after c (ctl_active (snd (tick_decide ops t c))) \<le> t"
proof -
  let ?d = "snd (consumer_mask ops c)"
  let ?k = "requested_camera ?d (fst (consumer_mask ops c))"
  have "tick_decide ops t c = tick_requested ops t ?k ?d"
    using assms tick_idle_active [of ops t ?d]
    by (auto simp: tick_decide_def Let_def split_beta frame split: if_splits)
  with assms tick_requested_opens [of ops t ?k ?d] show ?thesis
    by (simp add: frame)
qed

lemma tick_opens:
  assumes "ctl_active (snd (camera_controller_tick ops c)) = cam" "cam \<notin> {ctl_active c, CAMERA_NONE}"
  shows "ctl_candidate c = cam \<and>
    OPEN_DEBOUNCE_MS \<le> fst (now_ms ops c) - ctl_candidate_since c \<and>
    ctl_capture_retry_after c cam \<le> fst (now_ms ops c)"
proof -
  let ?t = "fst (now_ms ops c)"
  let ?d = "tick_filler ops CAMERA_REAR (tick_filler ops CAMERA_FRONT (snd (now_ms ops c)))"
  let ?e = "?d\<lparr>ctl_context := snd (backend_poll_op ops (ctl_capture ?d) (ctl_context ?d))\<rparr>"
  have failed: "ctl_active (capture_failed ops ?e) \<in> {ctl_active c, CAMERA_NONE}"
    using capture_failed_active [of ops ?e] by (simp add: frame)
  have "snd (camera_controller_tick ops c) = snd (tick_decide ops ?t ?d) \<or>
      snd (camera_controller_tick ops c) = snd (tick_decide ops ?t ?e)"
    using assms failed
    by (auto simp: camera_controller_tick_def Let_def split_beta split: if_splits)
  then show ?thesis
    using assms tick_decide_opens [of ops ?t ?d] tick_decide_opens [of ops ?t ?e]
    by (auto simp: frame)
qed
subsection \<open>Closing\<close>

definition polls_ok :: "'w controller_ops \<Rightarrow> bool" where
  "polls_ok ops \<longleftrightarrow> (\<forall>h w. fst (backend_poll_op ops h w) = 0)"

text \<open>After the poll phase of a tick nothing but fillers, times and the context moved.\<close>

lemma tick_polls_ok:
  assumes "polls_ok ops"
  shows "\<exists>d. camera_controller_tick ops c = tick_decide ops (fst (now_ms ops c)) d \<and>
    ctl_state d = ctl_state c \<and> ctl_active d = ctl_active c \<and> ctl_pending d = ctl_pending c \<and>
    ctl_candidate d = ctl_candidate c \<and> ctl_candidate_since d = ctl_candidate_since c \<and>
    ctl_idle_since d = ctl_idle_since c \<and> ctl_capture d = ctl_capture c \<and>
    ctl_capture_retry_after d = ctl_capture_retry_after c \<and>
    ctl_wireplumber_stopped d = ctl_wireplumber_stopped c \<and> (ctl_inv c \<longrightarrow> ctl_inv d)"
proof -
  let ?d = "tick_filler ops CAMERA_REAR (tick_filler ops CAMERA_FRONT (snd (now_ms ops c)))"
  let ?e = "?d\<lparr>ctl_context := snd (backend_poll_op ops (ctl_capture ?d) (ctl_context ?d))\<rparr>"
  have "camera_controller_tick ops c = tick_decide ops (fst (now_ms ops c))
      (if ctl_capture ?d \<noteq> NULL \<and> ctl_state ?d = CONTROLLER_STREAMING then ?e else ?d)"
    using assms by (simp add: camera_controller_tick_def Let_def split_beta polls_ok_def)
  then show ?thesis
    by (intro exI conjI, assumption) (simp_all add: frame keeps)
qed

lemma requested_camera_eq:
  "ctl_active d = ctl_active c \<Longrightarrow> requested_camera d m = requested_camera c m"
  by (simp add: requested_camera_def)

lemma tick_decide_constant_mask:
  assumes "\<And>w. fst (consumer_mask_op ops w) = m"
  shows "tick_decide ops t c = (if requested_camera c m = CAMERA_NONE
     then tick_idle ops t (snd (consumer_mask ops c))
     else tick_requested ops t (requested_camera c m) (snd (consumer_mask ops c)))"
proof -
  have "fst (consumer_mask ops c) = m" by (simp add: consumer_mask_def split_beta assms)
  moreover have "requested_camera (snd (consumer_mask ops c)) m = requested_camera c m"
    by (rule requested_camera_eq) (simp add: frame)
  ultimately show ?thesis by (simp add: tick_decide_def split_beta)
qed

text \<open>The first half of a tick: the time, the fillers of the loopbacks and the poll of the streaming
  capture's worker; its result is 0 when there is no capture to poll.\<close>

definition tick_polls :: "'w controller_ops \<Rightarrow> 'w controller \<Rightarrow> int \<times> 'w controller" where
  "tick_polls ops c =
     (let d = tick_filler ops CAMERA_REAR (tick_filler ops CAMERA_FRONT (snd (now_ms ops c))) in
      if ctl_capture d \<noteq> NULL \<and> ctl_state d = CONTROLLER_STREAMING
      then (case backend_poll_op ops (ctl_capture d) (ctl_context d) of (r, w) \<Rightarrow> (r, d\<lparr>ctl_context := w\<rparr>))
      else (0, d))"

lemma tick_polls_split:
  "camera_controller_tick ops c =
     (if fst (tick_polls ops c) \<noteq> 0
      then (if fst (tick_polls ops c) < 0 then -1 else 0, capture_failed ops (snd (tick_polls ops c)))
      else tick_decide ops (fst (now_ms ops c)) (snd (tick_polls ops c)))"
  by (simp add: camera_controller_tick_def tick_polls_def Let_def split_beta)

lemma tick_polls_frame:
  "ctl_state (snd (tick_polls ops c)) = ctl_state c" "ctl_active (snd (tick_polls ops c)) = ctl_active c"
  "ctl_capture (snd (tick_polls ops c)) = ctl_capture c"
  by (simp_all add: tick_polls_def Let_def split_beta frame)

lemma tick_keeps_streaming:
  assumes "ctl_inv c" "ctl_state c = CONTROLLER_STREAMING" "fst (tick_polls ops c) = 0"
    and "fst (consumer_mask ops (snd (tick_polls ops c))) AND camera_bit (ctl_active c) \<noteq> 0"
  shows "fst (camera_controller_tick ops c) = 0 \<and>
    ctl_state (snd (camera_controller_tick ops c)) = CONTROLLER_STREAMING \<and>
    ctl_active (snd (camera_controller_tick ops c)) = ctl_active c \<and>
    ctl_capture (snd (camera_controller_tick ops c)) = ctl_capture c"
proof -
  let ?d = "snd (tick_polls ops c)"
  have "ctl_active c \<noteq> CAMERA_NONE" using assms(1,2) by (rule inv_streaming)
  moreover from this
  have "requested_camera (snd (consumer_mask ops ?d)) (fst (consumer_mask ops ?d)) = ctl_active c"
    using assms(4) by (simp add: requested_camera_def frame tick_polls_frame)
  ultimately show ?thesis
    using assms(2,3)
    by (simp add: tick_polls_split tick_decide_def split_beta tick_requested_def Let_def frame tick_polls_frame)
qed

lemma tick_grace:
  assumes "polls_ok ops" "\<And>w. fst (consumer_mask_op ops w) = 0"
    and "ctl_active c \<noteq> CAMERA_NONE"
    and "ctl_idle_since c = 0 \<or> fst (now_ms ops c) - ctl_idle_since c < CLOSE_GRACE_MS"
  shows "fst (camera_controller_tick ops c) = 0 \<and>
    ctl_state (snd (camera_controller_tick ops c)) = ctl_state c \<and>
    ctl_active (snd (camera_controller_tick ops c)) = ctl_active c \<and>
    ctl_capture (snd (camera_controller_tick ops c)) = ctl_capture c \<and>
    ctl_idle_since (snd (camera_controller_tick ops c)) =
      (if ctl_idle_since c = 0 then fst (now_ms ops c) else ctl_idle_since c)"
proof -
  let ?t = "fst (now_ms ops c)"
  obtain d where d: "camera_controller_tick ops c = tick_decide ops ?t d"
      "ctl_state d = ctl_state c" "ctl_active d = ctl_active c" "ctl_capture d = ctl_capture c"
      "ctl_idle_since d = ctl_idle_since c"
    using tick_polls_ok [OF assms(1), of c] by blast
  have "requested_camera d 0 = CAMERA_NONE" by (simp add: requested_camera_def)
  moreover have "\<not> CLOSE_GRACE_MS \<le> 0" by (simp add: CLOSE_GRACE_MS_def)
  ultimately show ?thesis
    using d assms(3,4)
    by (auto simp: tick_decide_constant_mask [OF assms(2)] tick_idle_def Let_def frame)
qed

subsection \<open>Serving a request\<close>

text \<open>Operations that succeed; a filler may still fail to start.\<close>

definition cooperative :: "'w controller_ops \<Rightarrow> bool" where
  "cooperative ops \<longleftrightarrow> polls_ok ops \<and>
     (\<forall>cam w. fst (query_format_op ops cam w) \<noteq> None) \<and>
     (\<forall>cam f w. fst (backend_start_op ops cam False f w) = 0) \<and>
     (\<forall>h w. fst (backend_stop_op ops h w) = 0) \<and>
     (\<forall>w. fst (wireplumber_stop_op ops w) \<noteq> WIREPLUMBER_STOP_FAILED) \<and>
     (\<forall>w. fst (wireplumber_start_op ops w) = 0)"

lemma cooperative_steps:
  assumes "cooperative ops"
  shows "fst (stop_filler_handle ops cam c) = 0" "fst (stop_capture ops k c) = 0"
    "fst (restore_wireplumber ops c) = 0"
  using assms
  by (simp_all add: cooperative_def stop_filler_handle_def stop_capture_def stop_capture_handle_def
      stop_handle_def restore_wireplumber_def Let_def split_beta)

lemma cooperative_launch:
  assumes "cooperative ops"
  shows "fst (launch_capture ops cam c) = 0"
proof -
  obtain f where "fst (query_format_op ops cam (ctl_context c)) = Some f"
    using assms unfolding cooperative_def by blast
  then have "fst (query_format ops cam c) = Some f" by (simp add: query_format_def split_beta)
  then show ?thesis
    using assms
    by (simp add: launch_capture_def split_beta backend_start_def cooperative_def)
qed

lemma cooperative_start:
  assumes "cooperative ops"
  shows "fst (start_capture ops cam c) = 0"
  using assms
  by (simp add: start_capture_def Let_def split_beta cooperative_steps cooperative_launch)
    (simp add: cooperative_def)

lemma cooperative_transition:
  assumes "cooperative ops" "ctl_base c" "cam \<noteq> CAMERA_NONE"
  shows "fst (transition ops cam c) = 0 \<and>
    ctl_active (snd (transition ops cam c)) = cam \<and>
    ctl_state (snd (transition ops cam c)) = CONTROLLER_STREAMING"
proof -
  have start: "ctl_active (snd (start_capture ops cam d)) = cam"
      "ctl_state (snd (start_capture ops cam d)) = CONTROLLER_STREAMING"
    if "ctl_base d" "ctl_active d = CAMERA_NONE" for d
    using start_capture_spec [OF that assms(3), of ops] cooperative_start [OF assms(1), of cam d]
    by (simp_all add: capture_started_def)
  show ?thesis
    using assms
    by (cases "ctl_active c = CAMERA_NONE")
      (simp_all add: transition_def Let_def split_beta cooperative_steps cooperative_start start
        frame keeps stop_capture_null)
qed

lemma tick_serves:
  assumes "cooperative ops" "\<And>w. fst (consumer_mask_op ops w) = m" "ctl_inv c"
    and "requested_camera c m = cam" "cam \<noteq> CAMERA_NONE"
    and "ctl_candidate c = cam" "OPEN_DEBOUNCE_MS \<le> fst (now_ms ops c) - ctl_candidate_since c"
    and "ctl_capture_retry_after c cam \<le> fst (now_ms ops c)"
  shows "fst (camera_controller_tick ops c) = 0 \<and>
    ctl_state (snd (camera_controller_tick ops c)) = CONTROLLER_STREAMING \<and>
    ctl_active (snd (camera_controller_tick ops c)) = cam"
proof -
  let ?t = "fst (now_ms ops c)"
  have "polls_ok ops" using assms(1) by (simp add: cooperative_def)
  from tick_polls_ok [OF this, of c] obtain d where d:
      "camera_controller_tick ops c = tick_decide ops ?t d"
      "ctl_state d = ctl_state c" "ctl_active d = ctl_active c" "ctl_candidate d = ctl_candidate c"
      "ctl_candidate_since d = ctl_candidate_since c"
      "ctl_capture_retry_after d = ctl_capture_retry_after c" "ctl_inv d"
    using assms(3) by blast
  have req: "requested_camera d m = cam"
    using requested_camera_eq [OF d(3)] assms(4) by simp
  have "ctl_base d" using d(7) by (rule inv_base)
  then show ?thesis
    unfolding d(1) using assms(5-8) d
    by (auto simp: tick_decide_constant_mask [OF assms(2)] req tick_requested_def Let_def frame keeps
        cooperative_transition [OF assms(1)] not_less)
qed

text \<open>A first tick that sees a new consumer only notes the candidate.\<close>

lemma tick_notes_candidate:
  assumes "polls_ok ops" "\<And>w. fst (consumer_mask_op ops w) = m"
    and "requested_camera c m = cam" "cam \<noteq> CAMERA_NONE" "cam \<noteq> ctl_active c"
    and "ctl_candidate c \<noteq> cam"
  shows "fst (camera_controller_tick ops c) = 0 \<and>
    ctl_candidate (snd (camera_controller_tick ops c)) = cam \<and>
    ctl_candidate_since (snd (camera_controller_tick ops c)) = fst (now_ms ops c) \<and>
    ctl_active (snd (camera_controller_tick ops c)) = ctl_active c \<and>
    ctl_capture_retry_after (snd (camera_controller_tick ops c)) = ctl_capture_retry_after c"
proof -
  let ?t = "fst (now_ms ops c)"
  obtain d where d: "camera_controller_tick ops c = tick_decide ops ?t d"
      "ctl_active d = ctl_active c" "ctl_candidate d = ctl_candidate c"
      "ctl_capture_retry_after d = ctl_capture_retry_after c"
    using tick_polls_ok [OF assms(1), of c] by blast
  have req: "requested_camera d m = cam"
    using requested_camera_eq [OF d(2)] assms(3) by simp
  show ?thesis
    unfolding d(1) using assms(4-6) d
    by (auto simp: tick_decide_constant_mask [OF assms(2)] req tick_requested_def Let_def frame
        OPEN_DEBOUNCE_MS_def)
qed

subsection \<open>Shutting down\<close>

lemma stop_filler_handle_failed:
  "fst (stop_filler_handle ops cam c) \<noteq> 0 \<Longrightarrow>
    ctl_filler (snd (stop_filler_handle ops cam c)) cam \<noteq> NULL"
  by (auto simp: stop_filler_handle_def stop_handle_def Let_def split_beta frame split: if_splits
      simp del: neq0_conv)

lemma stop_capture_handle_result:
  "fst (stop_capture_handle ops c) = 0 \<longleftrightarrow> ctl_capture (snd (stop_capture_handle ops c)) = NULL"
  by (auto simp: stop_capture_handle_def stop_handle_def split_beta)

lemma stop_filler_handle_result:
  "ctl_filler (snd (stop_filler_handle ops cam c)) cam = NULL \<longleftrightarrow>
    fst (stop_filler_handle ops cam c) = 0"
  using stop_filler_handle_failed [of ops cam c] stop_filler_handle_null [of ops cam c] by blast

lemma restore_wireplumber_result:
  "ctl_wireplumber_stopped (snd (restore_wireplumber ops c)) \<longleftrightarrow> fst (restore_wireplumber ops c) \<noteq> 0"
  by (simp add: restore_wireplumber_def Let_def split_beta)

lemma shutdown_result:
  "fst (camera_controller_shutdown ops c) = 0 \<longleftrightarrow>
     ctl_capture (snd (camera_controller_shutdown ops c)) = NULL \<and>
     ctl_filler (snd (camera_controller_shutdown ops c)) CAMERA_FRONT = NULL \<and>
     ctl_filler (snd (camera_controller_shutdown ops c)) CAMERA_REAR = NULL \<and>
     \<not> ctl_wireplumber_stopped (snd (camera_controller_shutdown ops c))"
  using stop_capture_handle_result [of ops c]
  by (auto simp: camera_controller_shutdown_def shutdown_filler_def Let_def split_beta frame
     stop_filler_handle_result restore_wireplumber_result simp del: neq0_conv)


section \<open>Back-off\<close>

text \<open>The exponent and the delay after \<open>n\<close> consecutive failures.\<close>

lemma retry_delay_closed:
  "fst (retry_delay_ms e) = (if e \<le> 4 then min 30000 (2000 * 2 ^ unat e) else 30000)"
proof -
  have "e = 0 \<or> e = 1 \<or> e = 2 \<or> e = 3 \<or> e = 4 \<or> e > 4"
    by unat_arith
  then show ?thesis
    by (elim disjE) (auto simp: retry_delay_spec)
qed

definition failures :: "nat \<Rightarrow> u32" where
  "failures n = ((\<lambda>e. snd (retry_delay_ms e)) ^^ n) 0"

lemma failures_eq: "failures n = of_nat (min n 5)"
proof (induction n)
  case 0
  show ?case by (simp add: failures_def)
next
  case (Suc n)
  have "failures (Suc n) = snd (retry_delay_ms (of_nat (min n 5)))"
    using Suc by (simp add: failures_def)
  also have "\<dots> = of_nat (min (Suc n) 5)"
  proof (cases "n < 5")
    case True
    then have "n = 0 \<or> n = 1 \<or> n = 2 \<or> n = 3 \<or> n = 4" by auto
    then show ?thesis by (elim disjE) (simp_all add: retry_delay_spec)
  next
    case False
    then show ?thesis by (simp add: retry_delay_spec)
  qed
  finally show ?case .
qed

lemma nth_delay: "unat (fst (retry_delay_ms (failures n))) = min (2000 * 2 ^ n) 30000"
proof (cases "n < 4")
  case True
  then have "n = 0 \<or> n = 1 \<or> n = 2 \<or> n = 3" by auto
  then show ?thesis by (elim disjE) (simp_all add: failures_eq retry_delay_spec)
next
  case False
  then have "(16::nat) \<le> 2 ^ n" using power_increasing [of 4 n "2::nat"] by simp
  moreover have "fst (retry_delay_ms (failures n)) = 30000"
    using False by (cases "n = 4") (simp_all add: failures_eq retry_delay_spec)
  ultimately show ?thesis by simp
qed

lemma schedule_failures:
  assumes "cam \<noteq> CAMERA_NONE"
  shows "ctl_capture_retry_exponent ((schedule_capture_retry ops cam ^^ n)
    (clear_capture_retry cam c)) cam = failures n"
proof (induction n)
  case 0
  show ?case using assms by (simp add: clear_capture_retry_def failures_def)
next
  case (Suc n)
  then show ?case
    using assms by (simp add: schedule_capture_retry_def Let_def split_beta frame failures_def)
qed

section \<open>Closing when nobody watches\<close>

lemma cooperative_transition_none:
  assumes "cooperative ops" "ctl_active c \<noteq> CAMERA_NONE"
  shows "fst (transition ops CAMERA_NONE c) = 0 \<and>
    ctl_active (snd (transition ops CAMERA_NONE c)) = CAMERA_NONE \<and>
    ctl_capture (snd (transition ops CAMERA_NONE c)) = NULL \<and>
    ctl_state (snd (transition ops CAMERA_NONE c)) = CONTROLLER_IDLE \<and>
    \<not> ctl_wireplumber_stopped (snd (transition ops CAMERA_NONE c))"
  using assms
  by (simp add: transition_def Let_def split_beta cooperative_steps frame stop_capture_null
      restore_wireplumber_result)

lemma tick_idle_decides:
  assumes "polls_ok ops" "\<And>w. fst (consumer_mask_op ops w) = 0"
  shows "\<exists>d. camera_controller_tick ops c = tick_idle ops (fst (now_ms ops c)) d \<and>
    ctl_state d = ctl_state c \<and> ctl_active d = ctl_active c \<and> ctl_pending d = ctl_pending c \<and>
    ctl_idle_since d = ctl_idle_since c \<and> ctl_wireplumber_stopped d = ctl_wireplumber_stopped c"
proof -
  obtain d where d: "camera_controller_tick ops c = tick_decide ops (fst (now_ms ops c)) d"
      "ctl_state d = ctl_state c" "ctl_active d = ctl_active c" "ctl_pending d = ctl_pending c"
      "ctl_idle_since d = ctl_idle_since c"
      "ctl_wireplumber_stopped d = ctl_wireplumber_stopped c"
    using tick_polls_ok [OF assms(1), of c] by blast
  have "requested_camera d 0 = CAMERA_NONE" by (simp add: requested_camera_def)
  then have "tick_decide ops (fst (now_ms ops c)) d =
      tick_idle ops (fst (now_ms ops c)) (snd (consumer_mask ops d))"
    by (simp add: tick_decide_constant_mask [OF assms(2)])
  with d show ?thesis
    by (intro exI [of _ "snd (consumer_mask ops d)"]) (simp add: frame)
qed

section \<open>The properties\<close>

text \<open>
  A small provider the witnesses run on: a clock that stands still, a fixed consumer mask,
  workers numbered in the order they are started; \<open>wp\<close> is what \<^verbatim>\<open>wireplumber_start\<close>
  returns.
\<close>

definition demo_ops :: "u32 \<Rightarrow> int \<Rightarrow> (u64 \<times> nat) controller_ops" where
  "demo_ops m wp =
     \<lparr>now_ms_op = (\<lambda>w. (fst w, w)), consumer_mask_op = (\<lambda>w. (m, w)),
      query_format_op = (\<lambda>_ w. (Some MEDIA_FORMAT_YUYV, w)),
      backend_start_op = (\<lambda>_ _ _ w. (0, snd w + 1, fst w, snd w + 1)),
      backend_poll_op = (\<lambda>_ w. (0, w)), backend_stop_op = (\<lambda>_ w. (0, w)),
      backend_free_op = (\<lambda>_ w. w),
      wireplumber_stop_op = (\<lambda>w. (WIREPLUMBER_ALREADY_INACTIVE, w)),
      wireplumber_start_op = (\<lambda>w. (wp, w))\<rparr>"

lemma demo_ops_ok: "polls_ok (demo_ops m wp)" "fst (consumer_mask_op (demo_ops m wp) w) = m"
  "cooperative (demo_ops m 0)"
  by (simp_all add: demo_ops_def polls_ok_def cooperative_def)

text \<open>A controller created at time 1000 that streams from the rear camera.\<close>

definition demo_streaming :: "(u64 \<times> nat) controller" where
  "demo_streaming = (controller_zero (1000, 7))
     \<lparr>ctl_state := CONTROLLER_STREAMING, ctl_active := CAMERA_REAR, ctl_capture := 5,
      ctl_filler := (\<lambda>_. NULL)\<rparr>"

lemma demo_streaming_inv: "ctl_inv demo_streaming"
  by (simp add: demo_streaming_def controller_zero_def ctl_inv_def ctl_base_def backoff_ok_def)

text \<open>
  C1: In every reachable controller, whatever the operations return: no per-camera array
  was indexed with \<^verbatim>\<open>CAMERA_NONE\<close>, the back-off exponents are at most 5, the active
  camera's loopback carries no filler, there is no capture without an active camera, and the
  state between ticks is one of IDLE (nothing active or pending), STREAMING (something active,
  nothing pending) and RETRY_WAIT.
\<close>

theorem controller_reachable_invariant:
  assumes "ctl_reach ops init env c"
  shows "\<not> ctl_oob c \<and>
    (\<forall>k. ctl_capture_retry_exponent c k \<le> 5 \<and> ctl_filler_retry_exponent c k \<le> 5) \<and>
    (if ctl_active c = CAMERA_NONE then ctl_capture c = NULL else ctl_filler c (ctl_active c) = NULL) \<and>
    rest_ok (ctl_state c) (ctl_active c) (ctl_pending c)"
  using reach_inv [OF assms] by (simp_all add: ctl_inv_def ctl_base_def backoff_ok_def)

theorem controller_reachable_invariant_witness:
  "rest_ok (ctl_state (camera_controller_new (demo_ops 2 0) (1000, 0)))
     (ctl_active (camera_controller_new (demo_ops 2 0) (1000, 0)))
     (ctl_pending (camera_controller_new (demo_ops 2 0) (1000, 0)))"
  using controller_reachable_invariant [OF ctl_reach.created
        [where init = "\<lambda>w. w = (1000, 0)" and env = "\<lambda>_ _. True" and w = "(1000, 0)"],
        of "demo_ops 2 0"]
  by blast

text \<open>
  C17: A tick opens a camera only if the camera has been the candidate for at least 450 ms
  and its retry time has passed.
\<close>

theorem tick_opens_debounced:
  assumes "ctl_active (snd (camera_controller_tick ops c)) = cam"
    and "cam \<noteq> ctl_active c" "cam \<noteq> CAMERA_NONE"
  shows "ctl_candidate c = cam \<and> 450 \<le> fst (now_ms ops c) - ctl_candidate_since c \<and>
    ctl_capture_retry_after c cam \<le> fst (now_ms ops c)"
  using tick_opens [OF assms(1)] assms(2,3) by (simp add: OPEN_DEBOUNCE_MS_def)

theorem tick_opens_debounced_witness:
  "(450::u64) \<le> fst (now_ms (demo_ops 2 0)
      ((controller_zero (1000, 0))\<lparr>ctl_candidate := CAMERA_REAR, ctl_candidate_since := 100\<rparr>)) - 100"
  using tick_opens_debounced [of "demo_ops 2 0"
      "(controller_zero (1000, 0))\<lparr>ctl_candidate := CAMERA_REAR, ctl_candidate_since := 100\<rparr>"
      CAMERA_REAR]
  using tick_serves [OF demo_ops_ok(3) demo_ops_ok(2),
      of "(controller_zero (1000, 0))\<lparr>ctl_candidate := CAMERA_REAR, ctl_candidate_since := 100\<rparr>"
        2 CAMERA_REAR]
  by (simp add: controller_zero_inv) (simp add: controller_zero_def requested_camera_def camera_bit_def
      OPEN_DEBOUNCE_MS_def now_ms_def demo_ops_def)

text \<open>
  C18: No preemption: a tick in which the streaming camera's worker polls fine (with zero) and its
  endpoint is among the consumers changes neither the state nor the active camera nor the
  capture, whatever other consumers there are and whatever the loopbacks' fillers do.  So a
  tick closes a camera that has a consumer only when its own poll did not return zero.
\<close>

theorem tick_never_preempts:
  assumes "ctl_inv c" "ctl_state c = CONTROLLER_STREAMING" "fst (tick_polls ops c) = 0"
    and "fst (consumer_mask ops (snd (tick_polls ops c))) AND camera_bit (ctl_active c) \<noteq> 0"
  shows "fst (camera_controller_tick ops c) = 0 \<and>
    ctl_state (snd (camera_controller_tick ops c)) = CONTROLLER_STREAMING \<and>
    ctl_active (snd (camera_controller_tick ops c)) = ctl_active c \<and>
    ctl_capture (snd (camera_controller_tick ops c)) = ctl_capture c"
  by (rule tick_keeps_streaming [OF assms])

text \<open>Both cameras have consumers.\<close>

theorem tick_never_preempts_witness:
  "ctl_active (snd (camera_controller_tick (demo_ops 3 0) demo_streaming)) = CAMERA_REAR"
proof -
  have "fst (tick_polls (demo_ops 3 0) demo_streaming) = 0"
    by (simp add: tick_polls_def Let_def split_beta demo_ops_def)
  moreover have "fst (consumer_mask (demo_ops 3 0) (snd (tick_polls (demo_ops 3 0) demo_streaming)))
      AND camera_bit (ctl_active demo_streaming) \<noteq> 0"
    by (simp add: consumer_mask_def demo_ops_def demo_streaming_def camera_bit_def)
  ultimately show ?thesis
    using tick_never_preempts [OF demo_streaming_inv] by (simp add: demo_streaming_def)
qed

text \<open>
  The close grace period: when the last consumer of a camera leaves, the camera keeps
  running until the controller has seen no consumer for 1500 ms; the first such tick
  records the time.
\<close>

theorem tick_close_grace:
  assumes "polls_ok ops" "\<And>w. fst (consumer_mask_op ops w) = 0"
    and "ctl_active c \<noteq> CAMERA_NONE"
    and "ctl_idle_since c = 0 \<or> fst (now_ms ops c) - ctl_idle_since c < 1500"
  shows "fst (camera_controller_tick ops c) = 0 \<and>
    ctl_state (snd (camera_controller_tick ops c)) = ctl_state c \<and>
    ctl_active (snd (camera_controller_tick ops c)) = ctl_active c \<and>
    ctl_capture (snd (camera_controller_tick ops c)) = ctl_capture c \<and>
    ctl_idle_since (snd (camera_controller_tick ops c)) =
      (if ctl_idle_since c = 0 then fst (now_ms ops c) else ctl_idle_since c)"
  by (rule tick_grace [OF assms(1-3)]) (use assms(4) in \<open>simp add: CLOSE_GRACE_MS_def\<close>)

theorem tick_close_grace_witness:
  "ctl_idle_since (snd (camera_controller_tick (demo_ops 0 0) demo_streaming)) = 1000"
  using tick_close_grace [OF demo_ops_ok(1,2) [where m = 0 and wp = 0], of demo_streaming]
  by (simp add: demo_streaming_def controller_zero_def now_ms_def demo_ops_def)

text \<open>
  Once the grace period is over the camera is closed: with operations that succeed the
  controller is idle, holds no capture and has restored WirePlumber.
\<close>

theorem tick_closes:
  assumes "cooperative ops" "\<And>w. fst (consumer_mask_op ops w) = 0"
    and "ctl_active c \<noteq> CAMERA_NONE" "ctl_state c \<in> {CONTROLLER_STREAMING, CONTROLLER_RETRY_WAIT}"
    and "ctl_idle_since c \<noteq> 0" "1500 \<le> fst (now_ms ops c) - ctl_idle_since c"
  shows "fst (camera_controller_tick ops c) = 0 \<and>
    ctl_state (snd (camera_controller_tick ops c)) = CONTROLLER_IDLE \<and>
    ctl_active (snd (camera_controller_tick ops c)) = CAMERA_NONE \<and>
    ctl_capture (snd (camera_controller_tick ops c)) = NULL \<and>
    \<not> ctl_wireplumber_stopped (snd (camera_controller_tick ops c))"
proof -
  have "polls_ok ops" using assms(1) by (simp add: cooperative_def)
  from tick_idle_decides [OF this assms(2), of c] obtain d where d:
      "camera_controller_tick ops c = tick_idle ops (fst (now_ms ops c)) d"
      "ctl_state d = ctl_state c" "ctl_active d = ctl_active c"
      "ctl_idle_since d = ctl_idle_since c"
    by blast
  show ?thesis
    unfolding d(1) using assms(3-6) d
    by (simp add: tick_idle_def Let_def CLOSE_GRACE_MS_def
        cooperative_transition_none [OF assms(1)])
qed

theorem tick_closes_witness:
  "ctl_state (snd (camera_controller_tick (demo_ops 0 0)
     (demo_streaming\<lparr>ctl_idle_since := 0x7FFFFFFF\<rparr>))) = CONTROLLER_IDLE"
  using tick_closes [OF demo_ops_ok(3,2) [where m = 0],
      where c = "demo_streaming\<lparr>ctl_idle_since := 0x7FFFFFFF\<rparr>"]
  by (simp add: demo_streaming_def controller_zero_def now_ms_def demo_ops_def)

text \<open>
  Progress: a consumer that appears while the controller is idle is served by two ticks
  that are at least 450 ms apart, if the operations succeed and the camera's retry time has
  passed by the second.  Between the ticks the environment moves the context.
\<close>

theorem two_ticks_serve:
  fixes ops :: "'w controller_ops" and w :: 'w
  assumes "cooperative ops" "\<And>w. fst (consumer_mask_op ops w) = m" "ctl_inv c"
    and "ctl_active c = CAMERA_NONE" "requested_camera c m = cam" "cam \<noteq> CAMERA_NONE"
    and "ctl_candidate c \<noteq> cam"
  defines "c1 \<equiv> (snd (camera_controller_tick ops c))\<lparr>ctl_context := w\<rparr>"
  assumes "450 \<le> fst (now_ms ops c1) - fst (now_ms ops c)"
    and "ctl_capture_retry_after c cam \<le> fst (now_ms ops c1)"
  shows "ctl_state (snd (camera_controller_tick ops c1)) = CONTROLLER_STREAMING \<and>
    ctl_active (snd (camera_controller_tick ops c1)) = cam"
proof -
  have polls: "polls_ok ops" using assms(1) by (simp add: cooperative_def)
  have first: "ctl_candidate c1 = cam" "ctl_candidate_since c1 = fst (now_ms ops c)"
      "ctl_active c1 = CAMERA_NONE" "ctl_capture_retry_after c1 = ctl_capture_retry_after c"
    using tick_notes_candidate [OF polls assms(2,5)] assms(4,6,7) by (simp_all add: c1_def)
  have "ctl_inv c1" using assms(3) by (simp add: c1_def camera_controller_tick_inv)
  moreover have "requested_camera c1 m = cam"
    using requested_camera_eq [of c1 c m] first(3) assms(4,5) by simp
  ultimately show ?thesis
    using tick_serves [OF assms(1,2), where c = c1 and cam = cam] first assms(6,9,10)
    by (simp add: OPEN_DEBOUNCE_MS_def)
qed

theorem two_ticks_serve_witness:
  "ctl_active (snd (camera_controller_tick (demo_ops 2 0)
     ((snd (camera_controller_tick (demo_ops 2 0) (controller_zero (1000, 0))))
       \<lparr>ctl_context := (1450, 9)\<rparr>))) = CAMERA_REAR"
  using two_ticks_serve [OF demo_ops_ok(3,2) [where m = 2] controller_zero_inv [of "(1000, 0)"],
      where cam = CAMERA_REAR and w = "(1450, 9)"]
  by (simp add: controller_zero_def requested_camera_def camera_bit_def now_ms_def demo_ops_def)

text \<open>
  The back-off: the retry time after \<open>n + 1\<close> consecutive failures of a camera is
  \<open>min (2000 * 2 ^ n) 30000\<close> ms after the last of them.
\<close>

theorem backoff_after_failures:
  assumes "cam \<noteq> CAMERA_NONE"
  shows "ctl_capture_retry_after ((schedule_capture_retry ops cam ^^ Suc n)
      (clear_capture_retry cam c)) cam =
    fst (now_ms ops ((schedule_capture_retry ops cam ^^ n) (clear_capture_retry cam c))) +
      of_nat (min (2000 * 2 ^ n) 30000)"
proof -
  let ?c = "(schedule_capture_retry ops cam ^^ n) (clear_capture_retry cam c)"
  have "fst (retry_delay_ms (failures n)) = of_nat (min (2000 * 2 ^ n) 30000)"
    by (metis nth_delay of_nat_unat ucast_id)
  moreover have "fst (now_ms ops (?c\<lparr>ctl_capture_retry_exponent := e\<rparr>)) = fst (now_ms ops ?c)" for e
    by (simp add: now_ms_def split_beta)
  ultimately show ?thesis
    using assms schedule_failures [OF assms, where ops = ops and n = n and c = c]
    by (simp add: schedule_capture_retry_def [of ops cam ?c] Let_def split_beta)
qed

theorem backoff_after_failures_witness:
  "ctl_capture_retry_after (schedule_capture_retry (demo_ops 0 0) CAMERA_REAR
     (clear_capture_retry CAMERA_REAR (controller_zero (1000, 0)))) CAMERA_REAR = 3000"
  using backoff_after_failures [where cam = CAMERA_REAR and ops = "demo_ops 0 0" and n = 0
      and c = "controller_zero (1000, 0)"]
  by (simp add: clear_capture_retry_def controller_zero_def now_ms_def demo_ops_def)

text \<open>
  The request: the active camera keeps its claim while it has a consumer; otherwise the
  rear camera goes before the front one; the answer is \<^verbatim>\<open>CAMERA_NONE\<close> exactly when no
  endpoint has a consumer.
\<close>

theorem requested_camera_priority:
  fixes consumers :: u32
  shows "requested_camera c consumers =
    (if ctl_active c = CAMERA_REAR \<and> bit consumers 1 \<or> ctl_active c \<noteq> CAMERA_FRONT \<and> bit consumers 1
          \<or> ctl_active c = CAMERA_FRONT \<and> bit consumers 1 \<and> \<not> bit consumers 0
     then CAMERA_REAR else if bit consumers 0 then CAMERA_FRONT else CAMERA_NONE)"
proof -
  have b: "consumers AND 1 \<noteq> 0 \<longleftrightarrow> bit consumers 0" "consumers AND 2 \<noteq> 0 \<longleftrightarrow> bit consumers 1"
    using and_exp_eq_0_iff_not_bit [of consumers 0] and_exp_eq_0_iff_not_bit [of consumers 1] by simp_all
  show ?thesis
    unfolding requested_camera_def camera_bit_def
    by (cases "ctl_active c") (simp_all add: b)
qed

text \<open>
  Shutting down succeeds exactly when afterwards every worker slot is empty and
  WirePlumber is not held; in any case the controller ends idle with no active camera.
\<close>

theorem shutdown_releases_all:
  "(fst (camera_controller_shutdown ops c) = 0 \<longleftrightarrow>
     held (snd (camera_controller_shutdown ops c)) = {} \<and>
     \<not> ctl_wireplumber_stopped (snd (camera_controller_shutdown ops c))) \<and>
   ctl_active (snd (camera_controller_shutdown ops c)) = CAMERA_NONE \<and>
   ctl_state (snd (camera_controller_shutdown ops c)) = CONTROLLER_IDLE"
proof -
  have "slots a f r = {} \<longleftrightarrow> a = NULL \<and> f = NULL \<and> r = NULL" for a f r
    by (auto simp: slots_def)
  then show ?thesis
    by (simp add: shutdown_result held_def) (simp add: camera_controller_shutdown_def split_beta)
qed

text \<open>
  A WirePlumber that could not be restarted is forgotten: with nothing active and
  nothing pending, a tick with no consumers goes to IDLE and leaves WirePlumber stopped;
  nothing retries the restart until the next capture or the shutdown.
\<close>

theorem idle_tick_never_restores:
  assumes "polls_ok ops" "\<And>w. fst (consumer_mask_op ops w) = 0"
    and "ctl_active c = CAMERA_NONE" "ctl_pending c = CAMERA_NONE" "ctl_wireplumber_stopped c"
  shows "ctl_state (snd (camera_controller_tick ops c)) = CONTROLLER_IDLE \<and>
    ctl_wireplumber_stopped (snd (camera_controller_tick ops c))"
proof -
  obtain d where "camera_controller_tick ops c = tick_idle ops (fst (now_ms ops c)) d"
      "ctl_active d = ctl_active c" "ctl_pending d = ctl_pending c"
      "ctl_wireplumber_stopped d = ctl_wireplumber_stopped c"
    using tick_idle_decides [OF assms(1,2), of c] by blast
  with assms(3-5) show ?thesis by (simp add: tick_idle_def Let_def)
qed

theorem idle_tick_never_restores_witness:
  "ctl_wireplumber_stopped (snd (camera_controller_tick (demo_ops 0 1)
     (snd (transition (demo_ops 0 1) CAMERA_NONE
        (demo_streaming\<lparr>ctl_wireplumber_stopped := True\<rparr>)))))"
proof -
  let ?c = "snd (transition (demo_ops 0 1) CAMERA_NONE
        (demo_streaming\<lparr>ctl_wireplumber_stopped := True\<rparr>))"
  have "fst (restore_wireplumber (demo_ops 0 1) c) = (if ctl_wireplumber_stopped c then -1 else 0)" for c
    by (simp add: restore_wireplumber_def demo_ops_def)
  moreover have "fst (stop_capture (demo_ops 0 1) k c) = 0" for k c
    by (simp add: stop_capture_def stop_capture_handle_def stop_handle_def demo_ops_def split_beta)
  ultimately have "ctl_active ?c = CAMERA_NONE \<and> ctl_pending ?c = CAMERA_NONE \<and> ctl_wireplumber_stopped ?c"
    by (simp add: transition_def Let_def split_beta frame demo_streaming_def
        restore_wireplumber_result)
  then show ?thesis
    using idle_tick_never_restores [OF demo_ops_ok(1,2) [where m = 0 and wp = 1], of ?c] by simp
qed

end
