(* ===== verification/LiveBridge.thy ===== *)
theory LiveBridge
  imports LiveWorker Controller_Timing
begin

text \<open>
  The live bridge, third part: the operations table it gives to the controller, the worker's
  own side, initialisation and the main loop, and the proof that the table satisfies the
  interface \<open>worker_ops\<close>, so that the controller's ownership theorems hold of the bridge.
\<close>

section \<open>The format query\<close>

definition V4L2_PIX_FMT_YUYV :: u32 where "V4L2_PIX_FMT_YUYV = 0x56595559"
definition V4L2_PIX_FMT_MJPEG :: u32 where "V4L2_PIX_FMT_MJPEG = 0x47504A4D"
definition V4L2_PIX_FMT_JPEG :: u32 where "V4L2_PIX_FMT_JPEG = 0x4745504A"

text \<open>\<^verbatim>\<open>VIDIOC_G_FMT\<close> of the capture or the output side, retried while interrupted.\<close>

function ioctl_retry :: "'s kernel \<Rightarrow> string \<Rightarrow> bool \<Rightarrow> 's live \<Rightarrow> u32 option \<times> 's live" where
  "ioctl_retry k device capture w =
     (let (intr, w1) = interrupted k w in
      if intr then ioctl_retry k device capture w1
      else let (r, w2) = call (k_g_fmt k device capture) w1 in
        (r, if r = None then set_errno Other_Errno w2 else w2))"
  by pat_completeness auto
termination
proof (relation "measure (\<lambda>(k, device, c, w). lc_signals w)", goal_cases)
  case (2 k device c w)
  then show ?case using interrupted_step [of True _ k w] by auto
qed simp

declare ioctl_retry.simps [simp del]

definition pixel_format :: "u32 \<Rightarrow> media_format option" where
  "pixel_format pf =
     (if pf = V4L2_PIX_FMT_YUYV then Some MEDIA_FORMAT_YUYV
      else if pf = V4L2_PIX_FMT_MJPEG \<or> pf = V4L2_PIX_FMT_JPEG then Some MEDIA_FORMAT_MJPEG
      else None)"

definition media_backend_query_format ::
  "'s kernel \<Rightarrow> string \<Rightarrow> 's live \<Rightarrow> media_format option \<times> 's live" where
  "media_backend_query_format k device w =
     (let (opened, w) = call (k_open k device) w in
      if \<not> opened then (None, set_errno Other_Errno w)
      else let (capture, w) = ioctl_retry k device True w in
        case capture of Some pf \<Rightarrow> (pixel_format pf, w)
        | None \<Rightarrow> let (output, w) = ioctl_retry k device False w in
            (case output of None \<Rightarrow> None | Some pf \<Rightarrow> pixel_format pf, w))"

definition endpoint_for :: "'s live \<Rightarrow> camera_key \<Rightarrow> camera_endpoint option" where
  "endpoint_for w cam = (if cam = CAMERA_NONE then None else Some (lc_endpoints w cam))"

definition live_query_format :: "'s kernel \<Rightarrow> camera_key \<Rightarrow> 's live \<Rightarrow> media_format option \<times> 's live" where
  "live_query_format k cam w =
     (case endpoint_for w cam of None \<Rightarrow> (None, w)
      | Some ep \<Rightarrow> if \<not> ep_present ep then (None, w)
                   else media_backend_query_format k (ep_device ep) w)"

section \<open>The worker operations\<close>

text \<open>\<^verbatim>\<open>calloc\<close> fails when it has no address that is free.\<close>

definition alloc_handle :: "'s kernel \<Rightarrow> 's live \<Rightarrow> ptr \<times> 's live" where
  "alloc_handle k w =
     (case call (k_calloc k) w of (p, w) \<Rightarrow>
        if p = NULL \<or> lc_heap w p \<noteq> None then (NULL, w)
        else (p, w\<lparr>lc_heap := (lc_heap w)(p \<mapsto> \<lparr>lh_worker_pid = 0, lh_status_fd = -1\<rparr>)\<rparr>))"

definition free_handle :: "ptr \<Rightarrow> 's live \<Rightarrow> 's live" where
  "free_handle h w = w\<lparr>lc_heap := (lc_heap w)(h := None)\<rparr>"

text \<open>\<^verbatim>\<open>pipe2\<close>: the read end, a descriptor that is not open yet, or -1.\<close>

definition open_pipe :: "'s kernel \<Rightarrow> 's live \<Rightarrow> int \<times> 's live" where
  "open_pipe k w =
     (case call (k_pipe2 k) w of (fd, w) \<Rightarrow>
        if fd < 0 \<or> fd \<in> lc_fds w then (-1, set_errno Other_Errno w)
        else (fd, w\<lparr>lc_fds := insert fd (lc_fds w)\<rparr>))"

text \<open>A start that failed behind the fork.\<close>

definition abandon_worker :: "'s kernel \<Rightarrow> ptr \<Rightarrow> int \<Rightarrow> 's live \<Rightarrow> int \<times> ptr \<times> 's live" where
  "abandon_worker k h fd w =
     (-1, NULL, free_handle h (close_fd fd (snd (terminate_worker k h w))))"

text \<open>The parent's side of the start; the write end of the pipe is closed at once.\<close>

definition live_backend_start ::
  "'s kernel \<Rightarrow> camera_key \<Rightarrow> bool \<Rightarrow> media_format \<Rightarrow> 's live \<Rightarrow> int \<times> ptr \<times> 's live" where
  "live_backend_start k cam filler fmt w =
     (case endpoint_for w cam of None \<Rightarrow> (-1, NULL, w)
      | Some ep \<Rightarrow>
        if \<not> ep_present ep then (-1, NULL, w)
        else let (h, w) = alloc_handle k w in
        if h = NULL then (-1, NULL, w)
        else let (fd, w) = open_pipe k w in
        if fd < 0 then (-1, NULL, free_handle h w)
        else let (pid, w) = call (k_fork k) w in
        if pid \<le> 0 then (-1, NULL, free_handle h (close_fd fd w))
        else let lh = \<lparr>lh_worker_pid = pid, lh_status_fd = fd\<rparr>;
                 w = w\<lparr>lc_heap := (lc_heap w)(h \<mapsto> lh)\<rparr>;
                 (grouped, w) = call (k_setpgid k pid) w in
        if \<not> grouped then abandon_worker k h fd w
        else let (r, w) = wait_for_worker_ready k lh w in
        if r \<noteq> 0 then abandon_worker k h fd w
        else (0, h, w))"

text \<open>
  \<^verbatim>\<open>waitpid\<close> returns 0 for a child that runs and its pid for one it reaps; only a failure
  writes \<^verbatim>\<open>errno\<close>, which the code looks at in either case.
\<close>

definition live_backend_poll :: "'s kernel \<Rightarrow> ptr \<Rightarrow> 's live \<Rightarrow> int \<times> 's live" where
  "live_backend_poll k h w =
     (case lc_heap w h of None \<Rightarrow> (-1, w)
      | Some lh \<Rightarrow>
        if lh_worker_pid lh \<le> 0 then (-1, w)
        else let (intr, w) = interrupted k w in
        if intr then (0, w)
        else let (r, w) = waitpid_nohang k (lh_worker_pid lh) w in
        if r = None then (0, w)
        else if lc_errno w = EINTR then (0, w)
        else (-1, w))"

definition clear_fd :: "ptr \<Rightarrow> 's live \<Rightarrow> 's live" where
  "clear_fd h w =
     (case lc_heap w h of None \<Rightarrow> w
      | Some lh \<Rightarrow>
        if 0 \<le> lh_status_fd lh
        then (close_fd (lh_status_fd lh) w)\<lparr>lc_heap := (lc_heap w)(h \<mapsto> lh\<lparr>lh_status_fd := -1\<rparr>)\<rparr>
        else w)"

definition live_backend_stop :: "'s kernel \<Rightarrow> ptr \<Rightarrow> 's live \<Rightarrow> int \<times> 's live" where
  "live_backend_stop k h w =
     (if h = NULL then (0, w)
      else let (result, w) = terminate_worker k h w in (result, clear_fd h w))"

definition live_backend_free :: "'s kernel \<Rightarrow> ptr \<Rightarrow> 's live \<Rightarrow> 's live" where
  "live_backend_free k h w =
     (if h = NULL then w
      else let w = (case lc_heap w h of None \<Rightarrow> w
             | Some lh \<Rightarrow> if 0 < lh_worker_pid lh then snd (terminate_worker k h w) else w)
           in free_handle h (case lc_heap w h of None \<Rightarrow> w
             | Some lh \<Rightarrow> if 0 \<le> lh_status_fd lh then close_fd (lh_status_fd lh) w else w))"

text \<open>WirePlumber is left running.\<close>

definition live_wireplumber_stop :: "'s live \<Rightarrow> wireplumber_stop_result \<times> 's live" where
  "live_wireplumber_stop w = (WIREPLUMBER_ALREADY_INACTIVE, w)"

definition live_wireplumber_start :: "'s live \<Rightarrow> int \<times> 's live" where
  "live_wireplumber_start w = (0, w)"

definition live_now :: "'s live \<Rightarrow> u64 \<times> 's live" where
  "live_now w = (of_nat (monotonic_ms w), w)"

definition live_ops :: "'s kernel \<Rightarrow> 's live controller_ops" where
  "live_ops k =
     \<lparr>now_ms_op = live_now, consumer_mask_op = live_consumer_mask k,
      query_format_op = live_query_format k, backend_start_op = live_backend_start k,
      backend_poll_op = live_backend_poll k, backend_stop_op = live_backend_stop k,
      backend_free_op = live_backend_free k, wireplumber_stop_op = live_wireplumber_stop,
      wireplumber_start_op = live_wireplumber_start\<rparr>"

section \<open>The worker's side\<close>

text \<open>
  What the child meets, in order; \<open>ce_polls\<close> are its rounds with the backend: was a stop
  requested before the poll, the poll's result, was one requested behind it.
\<close>

record child_env =
  ce_prctl_ok :: bool
  ce_parent_alive :: bool
  ce_setpgid_ok :: bool
  ce_backend_ok :: bool
  ce_start_result :: int
  ce_write_ok :: bool
  ce_polls :: "(bool \<times> int \<times> bool) list"

datatype worker_end = Exit_Success | Exit_Failure | Still_Running

definition configure_worker_parent_death :: "child_env \<Rightarrow> int" where
  "configure_worker_parent_death e =
     (if \<not> ce_prctl_ok e then -1 else if \<not> ce_parent_alive e then -1 else 0)"

definition write_worker_status :: "child_env \<Rightarrow> char \<Rightarrow> int \<times> char option" where
  "write_worker_status e status = (if ce_write_ok e then (0, Some status) else (-1, None))"

fun worker_rounds :: "(bool \<times> int \<times> bool) list \<Rightarrow> worker_end" where
  "worker_rounds [] = Still_Running"
| "worker_rounds ((stop_before, result, stop_behind) # rs) =
     (if stop_before then Exit_Success
      else if result \<noteq> 0 then (if stop_behind then Exit_Success else Exit_Failure)
      else worker_rounds rs)"

text \<open>The byte the parent can read, and how the child ends.\<close>

definition worker_process :: "child_env \<Rightarrow> char option \<times> worker_end" where
  "worker_process e =
     (if configure_worker_parent_death e \<noteq> 0 then (snd (write_worker_status e (CHR ''F'')), Exit_Failure)
      else if \<not> ce_setpgid_ok e then (snd (write_worker_status e (CHR ''F'')), Exit_Failure)
      else if \<not> ce_backend_ok e then (snd (write_worker_status e (CHR ''F'')), Exit_Failure)
      else if ce_start_result e \<noteq> 0 then (snd (write_worker_status e (CHR ''F'')), Exit_Failure)
      else case write_worker_status e (CHR ''R'') of (r, byte) \<Rightarrow>
        if r \<noteq> 0 then (byte, Exit_Failure) else (byte, worker_rounds (ce_polls e)))"

section \<open>Initialisation and the main loop\<close>

text \<open>What \<^verbatim>\<open>initialize_context\<close> finds: the answers to its calls.\<close>

record boot =
  bt_self :: proc_entry
  bt_pid :: nat
  bt_uid :: u32
  bt_stat :: "string \<Rightarrow> (bool \<times> u64) option"
  bt_inotify :: bool
  bt_watch :: "string \<Rightarrow> bool"

definition camera_device :: "camera_key \<Rightarrow> string" where
  "camera_device cam = (if cam = CAMERA_REAR then CAMERA_REAR_DEVICE else CAMERA_FRONT_DEVICE)"

definition camera_id :: "camera_key \<Rightarrow> string" where
  "camera_id cam =
     (if cam = CAMERA_REAR then [CHR 0x5c] @ ''_SB_.PCI0.I2C3.CAMR''
      else [CHR 0x5c] @ ''_SB_.PCI0.I2C2.CAMF'')"

definition boot_endpoint :: "boot \<Rightarrow> camera_key \<Rightarrow> camera_endpoint option" where
  "boot_endpoint b cam =
     (case bt_stat b (camera_device cam) of
        Some (True, number) \<Rightarrow>
          Some \<lparr>ep_device = camera_device cam, ep_camera_id = camera_id cam,
                ep_device_number = number, ep_present = True\<rparr>
      | _ \<Rightarrow> None)"

definition initialize_context :: "boot \<Rightarrow> 's \<Rightarrow> nat \<Rightarrow> nat \<Rightarrow> 's live option" where
  "initialize_context b s clock signals =
     (case read_systemd_cgroup (bt_self b) PATH_MAX of None \<Rightarrow> None
      | Some cgroup \<Rightarrow>
        case boot_endpoint b CAMERA_FRONT of None \<Rightarrow> None
        | Some front \<Rightarrow>
          case boot_endpoint b CAMERA_REAR of None \<Rightarrow> None
          | Some rear \<Rightarrow>
            Some \<lparr>lc_kernel = s, lc_clock = clock, lc_signals = signals, lc_errno = Other_Errno,
                  lc_heap = Map.empty, lc_fds = {},
                  lc_endpoints = (\<lambda>cam. if cam = CAMERA_REAR then rear else front),
                  lc_pid = bt_pid b, lc_uid = bt_uid b, lc_controller = None,
                  lc_next_consumer_scan_ms = 0, lc_cached_consumer_mask = 0,
                  lc_consumer_scans = 0, lc_consumer_scan_valid = False,
                  lc_consumer_event_fd = (bt_inotify b \<and> bt_watch b CAMERA_FRONT_DEVICE
                                          \<and> bt_watch b CAMERA_REAR_DEVICE),
                  lc_systemd_cgroup = cgroup\<rparr>)"

text \<open>
  \<^verbatim>\<open>consumer_mask\<close> reads the controller's state through \<^verbatim>\<open>context->controller\<close>.  A tick
  changes that state only behind its call of \<^verbatim>\<open>consumer_mask\<close>, so the context has the
  state the tick began with.
\<close>

definition note_controller :: "'s live controller \<Rightarrow> 's live controller" where
  "note_controller c = c\<lparr>ctl_context := (ctl_context c)\<lparr>lc_controller := Some (ctl_state c)\<rparr>\<rparr>"

definition bridge_start :: "'s kernel \<Rightarrow> 's live \<Rightarrow> 's live controller" where
  "bridge_start k w = note_controller (camera_controller_new (live_ops k) w)"

definition bridge_round :: "'s kernel \<Rightarrow> 's live controller \<Rightarrow> 's live controller" where
  "bridge_round k c =
     (let c = snd (camera_controller_tick (live_ops k) (note_controller c)) in
      c\<lparr>ctl_context := sleep_ms k POLL_INTERVAL_MS (ctl_context c)\<rparr>)"

text \<open>The loop with a stop request behind \<open>n\<close> rounds, and the exit status of \<^verbatim>\<open>main\<close>.\<close>

definition bridge_rounds :: "'s kernel \<Rightarrow> nat \<Rightarrow> 's live \<Rightarrow> 's live controller" where
  "bridge_rounds k n w = (bridge_round k ^^ n) (bridge_start k w)"

definition bridge_main :: "'s kernel \<Rightarrow> boot \<Rightarrow> 's \<Rightarrow> nat \<Rightarrow> nat \<Rightarrow> nat \<Rightarrow> (bool \<times> 's live controller) option" where
  "bridge_main k b s clock signals n =
     (case initialize_context b s clock signals of None \<Rightarrow> None
      | Some w \<Rightarrow>
        let (r, c) = camera_controller_shutdown (live_ops k) (bridge_rounds k n w) in
        Some (r = 0, c))"

end
