(* ===== verification/LiveOwnership.thy ===== *)
theory LiveOwnership
  imports LiveBridge
begin

text \<open>
  The bridge owns its workers: the operations table of \<open>LiveBridge\<close> satisfies the
  interface \<open>worker_ops\<close> (\<open>interpretation bridge\<close>), so what holds of a controller over any
  provider of the interface holds of the bridge.  With it the properties of the consumer
  scan, of polling and reaping, and of the worker's report.
\<close>

section \<open>What the operations leave alone\<close>

text \<open>\<open>same w w'\<close>: handles, descriptors and endpoints are untouched, and no time is lost.\<close>

definition same :: "'s live \<Rightarrow> 's live \<Rightarrow> bool" where
  "same w w' \<longleftrightarrow> lc_heap w' = lc_heap w \<and> lc_fds w' = lc_fds w \<and> lc_endpoints w' = lc_endpoints w \<and>
     lc_clock w \<le> lc_clock w'"

lemma same_refl [simp]: "same w w"
  by (simp add: same_def)

lemma same_trans: "same w w' \<Longrightarrow> same w' w'' \<Longrightarrow> same w w''"
  by (simp add: same_def)

lemma same_calls:
  "same w (snd (call f w))" "same w (set_errno e w)" "same w (snd (interrupted k w))"
  "same w (snd (waitpid_nohang k p w))" "same w (snd (kill_group k p sg w))"
  "same w (sleep_ms k n w)" "same w (elapse k n w)" "same w (wait_errno r w)"
  using add_leD1 [OF elapse_frame(5) [of w n k]] sleep_clock [of w k n]
  by (simp_all add: same_def add_leD1 [OF elapse_frame(5)])

lemma same_snd:
  "(r, w') = call f w \<Longrightarrow> same w w'" "(b, w') = interrupted k w \<Longrightarrow> same w w'"
  "(x, w') = waitpid_nohang k p w \<Longrightarrow> same w w'"
  using same_calls(1) [of w f] same_calls(3) [of w k] same_calls(4) [of w k p]
  by (metis snd_conv)+

lemma same_reap_until: "same w (snd (reap_until k pid d w))"
proof (induction k pid d w rule: reap_until.induct)
  case (1 k pid d w)
  obtain i w1 where i: "interrupted k w = (i, w1)" by force
  obtain r w2 where r: "waitpid_nohang k pid w1 = (r, w2)" by force
  have w1: "same w w1" using same_calls(3) [of w k] by (simp add: i)
  have w2: "same w w2" using same_trans [OF w1] same_calls(4) [of w1 k pid] by (simp add: r)
  show ?case
  proof (cases "i \<or> r \<noteq> None \<or> d \<le> monotonic_ms w2")
    case True
    then show ?thesis
      using w1 w2 1(1) [OF i [symmetric] refl] same_trans [OF w1]
      by (subst reap_until.simps) (auto simp: i r split: option.split wait_end.split)
  next
    case False
    then have "same (sleep_ms k WORKER_REAP_POLL_MS w2)
        (snd (reap_until k pid d (sleep_ms k WORKER_REAP_POLL_MS w2)))"
      using 1(2) [OF i [symmetric] refl _ r [symmetric] refl] by simp
    then show ?thesis
      using False w2 same_trans same_calls(6) by (subst reap_until.simps) (simp add: i r, blast)
  qed
qed

lemma same_wait_blocking: "same w (snd (wait_blocking k pid w))"
proof (induction k pid w rule: wait_blocking.induct)
  case (1 k pid w)
  obtain i w1 where i: "interrupted k w = (i, w1)" by force
  obtain r w2 where r: "call (k_waitpid k pid) w1 = (r, w2)" by force
  have w1: "same w w1" using same_calls(3) [of w k] by (simp add: i)
  have w2: "same w w2" using same_trans [OF w1] same_calls(1) [of w1 "k_waitpid k pid"] by (simp add: r)
  show ?case
    using 1 [OF i [symmetric] refl] same_trans [OF w1] same_trans [OF same_trans [OF w2 same_calls(7)] same_calls(8)]
    by (subst wait_blocking.simps) (auto simp: i r)
qed

lemma same_read_status: "same w (snd (read_status k fd w))"
proof (induction k fd w rule: read_status.induct)
  case (1 k fd w)
  obtain i w1 where i: "interrupted k w = (i, w1)" by force
  have w1: "same w w1" using same_calls(3) [of w k] by (simp add: i)
  show ?case
    using 1 [OF i [symmetric] refl] same_trans [OF w1] same_calls(1)
    by (subst read_status.simps) (auto simp: i)
qed

lemma same_ioctl_retry: "same w (snd (ioctl_retry k device c w))"
proof (induction k device c w rule: ioctl_retry.induct)
  case (1 k device c w)
  obtain i w1 where i: "interrupted k w = (i, w1)" by force
  obtain r w2 where r: "call (k_g_fmt k device c) w1 = (r, w2)" by force
  have w1: "same w w1" using same_calls(3) [of w k] by (simp add: i)
  have w2: "same w w2" using same_trans [OF w1] same_calls(1) [of w1 "k_g_fmt k device c"] by (simp add: r)
  show ?case
    using 1 [OF i [symmetric] refl] same_trans [OF w1] w2 same_trans [OF w2 same_calls(2)]
    by (subst ioctl_retry.simps) (auto simp: i r)
qed

lemma same_ready_until: "same w (snd (ready_until k pid fd d w))"
proof (induction k pid fd d w rule: ready_until.induct)
  case (1 k pid fd d w)
  let ?t = "min 100 (d - monotonic_ms w)"
  obtain i w1 where i: "interrupted k w = (i, w1)" by force
  obtain p w2 where p: "call (k_poll_status k fd ?t) w1 = (p, w2)" by force
  obtain i2 w4 where i2: "interrupted k (elapse k ?t w2) = (i2, w4)" by force
  obtain r w5 where r: "waitpid_nohang k pid w4 = (r, w5)" by force
  have w1: "same w w1" using same_calls(3) [of w k] by (simp add: i)
  have w2: "same w w2" using same_trans [OF w1] same_calls(1) [of w1 "k_poll_status k fd ?t"] by (simp add: p)
  have w3: "same w (elapse k ?t w2)" by (rule same_trans [OF w2 same_calls(7)])
  have w4: "same w w4" using same_trans [OF w3] same_calls(3) [of "elapse k ?t w2" k] by (simp add: i2)
  have w5: "same w w5" using same_trans [OF w4] same_calls(4) [of w4 k pid] by (simp add: r)
  show ?case
  proof (cases "d \<le> monotonic_ms w")
    case True
    then show ?thesis by (subst ready_until.simps) simp
  next
    case False
    have "same w (snd (ready_until k pid fd d w1))" if i
      using 1(1) [OF False refl i [symmetric] refl] that same_trans [OF w1] by simp
    moreover have "same w (snd (ready_until k pid fd d w4))" if "\<not> i" "p = Poll_Timeout" i2
      using 1(2) [OF False refl i [symmetric] refl _ p [symmetric] refl _ refl i2 [symmetric] refl] that
        same_trans [OF w4] by simp
    moreover have "same w (snd (ready_until k pid fd d w5))" if "\<not> i" "p = Poll_Timeout" "\<not> i2" "r = None"
      using 1(3) [OF False refl i [symmetric] refl _ p [symmetric] refl _ refl i2 [symmetric] refl _ r [symmetric] refl]
        that same_trans [OF w5] by simp
    moreover note same_trans [OF w2 same_calls(2)] same_trans [OF w2 same_read_status]
    ultimately show ?thesis
      using False w5
      by (subst ready_until.simps) (auto simp: i p i2 r split_beta Let_def split: poll_end.split option.split)
  qed
qed

lemmas same_after =
  same_trans [OF _ same_calls(1)] same_trans [OF _ same_calls(2)] same_trans [OF _ same_calls(3)]
  same_trans [OF _ same_calls(4)] same_trans [OF _ same_calls(5)] same_trans [OF _ same_calls(6)]
  same_trans [OF _ same_calls(7)] same_trans [OF _ same_reap_until] same_trans [OF _ same_wait_blocking]
  same_trans [OF _ same_ioctl_retry] same_trans [OF _ same_ready_until]

lemma same_terminate_reap: "same w (snd (snd (terminate_reap k pid w)))"
  unfolding terminate_reap_def reap_worker_def Let_def split_beta
  by (auto intro!: same_after)

lemma terminate_worker_heap:
  "same w (snd (terminate_worker k h w)) \<or>
   (\<exists>lh w'. lc_heap w h = Some lh \<and> same w w' \<and> snd (terminate_worker k h w) = set_pid h 0 w')"
  using same_terminate_reap [of w k]
  by (auto simp: terminate_worker_def Let_def split_beta split: option.split)

text \<open>A scan and a query touch none of it either.\<close>

lemma same_scan: "same w (snd (scan_consumer_mask k w))"
  using same_calls(1) [of w "k_proc k"] by (auto simp: scan_consumer_mask_def split_beta split: option.split)

lemma same_fields [simp]:
  "same w (w'\<lparr>lc_next_consumer_scan_ms := n\<rparr>) = same w w'"
  "same w (w'\<lparr>lc_cached_consumer_mask := m\<rparr>) = same w w'"
  "same w (w'\<lparr>lc_consumer_scan_valid := b\<rparr>) = same w w'"
  "same w (w'\<lparr>lc_consumer_scans := m\<rparr>) = same w w'"
  "same w (w'\<lparr>lc_consumer_event_fd := b\<rparr>) = same w w'"
  "same w (w'\<lparr>lc_controller := st\<rparr>) = same w w'"
  by (simp_all add: same_def)

lemma same_rescan: "same w (rescan k w)"
  using same_scan [of w k] by (simp add: rescan_def split_beta)

lemma same_drain: "same w (snd (drain_consumer_events k w))"
  using same_calls(1) [of w "k_events k"] by (simp add: drain_consumer_events_def split_beta)

lemma same_consumer_mask: "same w (snd (live_consumer_mask k w))"
  using same_drain [of w k] same_trans [OF same_drain same_rescan, of w k k]
  by (simp add: live_consumer_mask_def Let_def split_beta)

lemma same_query_format: "same w (snd (live_query_format k cam w))"
  unfolding live_query_format_def media_backend_query_format_def Let_def split_beta
  by (auto intro!: same_after split: option.split)

section \<open>Handles and their descriptors\<close>

text \<open>
  No handle lies at \<open>NULL\<close>; the open status pipes are those of the handles, and no two
  handles share one.
\<close>

definition owner :: "(ptr \<Rightarrow> live_handle option) \<Rightarrow> int \<Rightarrow> ptr set" where
  "owner heap fd = {h. \<exists>lh. heap h = Some lh \<and> lh_status_fd lh = fd}"

definition fd_good :: "(ptr \<Rightarrow> live_handle option) \<Rightarrow> int set \<Rightarrow> int \<Rightarrow> bool" where
  "fd_good heap fds fd \<longleftrightarrow>
     (if fd \<in> fds then 0 \<le> fd \<and> (\<exists>h. owner heap fd = {h}) else 0 \<le> fd \<longrightarrow> owner heap fd = {})"

definition heap_good :: "(ptr \<Rightarrow> live_handle option) \<Rightarrow> int set \<Rightarrow> bool" where
  "heap_good heap fds \<longleftrightarrow> heap NULL = None \<and> (\<forall>fd. fd_good heap fds fd)"

lemma owner_upd:
  "owner (heap(h \<mapsto> lh)) fd =
     (if lh_status_fd lh = fd then insert h (owner heap fd) else owner heap fd - {h})"
  "owner (heap(h := None)) fd = owner heap fd - {h}"
  by (auto simp: owner_def)

lemma owner_other: "heap h = Some lh \<Longrightarrow> lh_status_fd lh \<noteq> fd \<Longrightarrow> owner heap fd - {h} = owner heap fd"
  by (auto simp: owner_def)

lemma owner_self: "heap h = Some lh \<Longrightarrow> h \<in> owner heap (lh_status_fd lh)"
  by (simp add: owner_def)

lemma owner_fresh: "heap h = None \<Longrightarrow> owner heap fd - {h} = owner heap fd"
  by (auto simp: owner_def)

lemma heap_null: "heap NULL = None \<Longrightarrow> heap h = Some lh \<Longrightarrow> (heap(h \<mapsto> lh')) NULL = None"
  by (cases "h = NULL") (simp_all add: fun_upd_def del: neq0_conv)

lemma heap_goodI:
  "heap NULL = None \<Longrightarrow> (\<And>fd. fd_good heap fds fd) \<Longrightarrow> heap_good heap fds"
  by (simp add: heap_good_def)

lemma heap_goodD:
  assumes "heap_good heap fds"
  shows "heap NULL = None" "fd_good heap fds fd"
    "heap h = Some lh \<Longrightarrow> 0 \<le> lh_status_fd lh \<Longrightarrow>
      lh_status_fd lh \<in> fds \<and> owner heap (lh_status_fd lh) = {h}"
proof -
  show "heap NULL = None" "fd_good heap fds fd" using assms by (simp_all add: heap_good_def)
  assume h: "heap h = Some lh" "0 \<le> lh_status_fd lh"
  have "fd_good heap fds (lh_status_fd lh)" using assms by (simp add: heap_good_def)
  then show "lh_status_fd lh \<in> fds \<and> owner heap (lh_status_fd lh) = {h}"
    using owner_self [of heap h lh] h(1) h(2) by (auto simp: fd_good_def split: if_splits)
qed

definition live_good :: "'s live \<Rightarrow> bool" where
  "live_good w \<longleftrightarrow> heap_good (lc_heap w) (lc_fds w)"

definition live_handles :: "'s live \<Rightarrow> ptr set" where
  "live_handles w = dom (lc_heap w)"

lemma same_live: "same w w' \<Longrightarrow> live_good w' = live_good w \<and> live_handles w' = live_handles w"
  by (simp add: same_def live_good_def live_handles_def)

text \<open>A handle's pid is irrelevant; its descriptor comes and goes with the open set.\<close>

lemma heap_good_pid:
  assumes "heap_good heap fds" "heap h = Some lh" "lh_status_fd lh' = lh_status_fd lh"
  shows "heap_good (heap(h \<mapsto> lh')) fds"
proof (rule heap_goodI)
  show "(heap(h \<mapsto> lh')) NULL = None" using heap_goodD(1) [OF assms(1)] assms(2) by (rule heap_null)
  fix fd
  have "owner (heap(h \<mapsto> lh')) fd = owner heap fd"
    using assms(2,3) owner_other [of heap h lh fd] owner_self [of heap h lh] by (auto simp: owner_upd)
  then show "fd_good (heap(h \<mapsto> lh')) fds fd"
    using heap_goodD(2) [OF assms(1), of fd] by (simp add: fd_good_def)
qed

lemma fd_good_cong:
  "fd_good heap fds fd \<Longrightarrow> fd \<in> fds' \<longleftrightarrow> fd \<in> fds \<Longrightarrow> (0 \<le> fd \<Longrightarrow> owner heap' fd = owner heap fd) \<Longrightarrow>
     fd_good heap' fds' fd"
  unfolding fd_good_def by (cases "fd \<in> fds"; cases "0 \<le> fd") simp_all

lemma fd_good_gone: "fd \<notin> fds \<Longrightarrow> (0 \<le> fd \<Longrightarrow> owner heap fd = {}) \<Longrightarrow> fd_good heap fds fd"
  by (simp add: fd_good_def)

lemma heap_good_alloc:
  assumes "heap_good heap fds" "heap h = None" "h \<noteq> NULL" "lh_status_fd lh = -1"
  shows "heap_good (heap(h \<mapsto> lh)) fds"
proof (rule heap_goodI)
  show "(heap(h \<mapsto> lh)) NULL = None" using heap_goodD(1) [OF assms(1)] assms(3) by simp
  fix fd
  show "fd_good (heap(h \<mapsto> lh)) fds fd"
    by (rule fd_good_cong [OF heap_goodD(2) [OF assms(1)] refl])
      (simp add: owner_upd assms(4) owner_fresh [of heap h fd, OF assms(2)])
qed

lemma heap_good_open:
  assumes "heap_good heap fds" "heap h = Some lh" "lh_status_fd lh = -1" "0 \<le> fd" "fd \<notin> fds"
    and "lh_status_fd lh' = fd"
  shows "heap_good (heap(h \<mapsto> lh')) (insert fd fds)"
proof (rule heap_goodI)
  show "(heap(h \<mapsto> lh')) NULL = None" using heap_goodD(1) [OF assms(1)] assms(2) by (rule heap_null)
  fix fd'
  show "fd_good (heap(h \<mapsto> lh')) (insert fd fds) fd'"
  proof (cases "fd' = fd")
    case True
    have "owner heap fd = {}" using heap_goodD(2) [OF assms(1), of fd] assms(4,5) by (simp add: fd_good_def)
    then show ?thesis using True assms(4,6) by (simp add: fd_good_def owner_upd)
  next
    case False
    show ?thesis
      by (rule fd_good_cong [OF heap_goodD(2) [OF assms(1)]])
        (use False assms(3,6) owner_other [of heap h lh fd', OF assms(2)] in \<open>simp_all add: owner_upd\<close>)
  qed
qed

lemma owner_closed:
  assumes "heap_good heap fds" "heap h = Some lh" "0 \<le> lh_status_fd lh"
  shows "owner heap (lh_status_fd lh) - {h} = {}"
  using heap_goodD(3) [OF assms(1), of h lh] assms(2,3) by simp

lemma heap_good_close:
  assumes "heap_good heap fds" "heap h = Some lh" "lh_status_fd lh' = -1"
  shows "heap_good (heap(h \<mapsto> lh')) (fds - {lh_status_fd lh})"
proof (rule heap_goodI)
  show "(heap(h \<mapsto> lh')) NULL = None" using heap_goodD(1) [OF assms(1)] assms(2) by (rule heap_null)
  fix fd
  show "fd_good (heap(h \<mapsto> lh')) (fds - {lh_status_fd lh}) fd"
  proof (cases "fd = lh_status_fd lh")
    case True
    then show ?thesis
      using owner_closed [OF assms(1,2)] assms(3) by (intro fd_good_gone) (simp_all add: owner_upd)
  next
    case False
    show ?thesis
      by (rule fd_good_cong [OF heap_goodD(2) [OF assms(1)]])
        (use False assms(3) owner_other [of heap h lh fd, OF assms(2)] in \<open>simp_all add: owner_upd\<close>)
  qed
qed

lemma heap_good_free:
  assumes "heap_good heap fds" "heap h = Some lh"
  shows "heap_good (heap(h := None)) (fds - {lh_status_fd lh})"
proof (rule heap_goodI)
  show "(heap(h := None)) NULL = None" using heap_goodD(1) [OF assms(1)] by simp
  fix fd
  show "fd_good (heap(h := None)) (fds - {lh_status_fd lh}) fd"
  proof (cases "fd = lh_status_fd lh")
    case True
    then show ?thesis
      using owner_closed [OF assms(1,2)] by (intro fd_good_gone) (simp_all add: owner_upd)
  next
    case False
    show ?thesis
      by (rule fd_good_cong [OF heap_goodD(2) [OF assms(1)]])
        (use False owner_other [of heap h lh fd, OF assms(2)] in \<open>simp_all add: owner_upd\<close>)
  qed
qed

section \<open>The table satisfies the controller's interface\<close>

lemma terminate_effect:
  "lc_fds (snd (terminate_worker k h w)) = lc_fds w \<and>
   (lc_heap (snd (terminate_worker k h w)) = lc_heap w \<or>
    (\<exists>lh. lc_heap w h = Some lh \<and>
       lc_heap (snd (terminate_worker k h w)) = (lc_heap w)(h \<mapsto> lh\<lparr>lh_worker_pid := 0\<rparr>)))"
  using terminate_worker_heap [of w k h]
proof (elim disjE exE conjE)
  fix lh w'
  assume "lc_heap w h = Some lh" "same w w'" "snd (terminate_worker k h w) = set_pid h 0 w'"
  then show ?thesis by (simp add: same_def set_pid_def)
qed (simp add: same_def)

lemma terminate_good:
  assumes "live_good w"
  shows "live_good (snd (terminate_worker k h w)) \<and>
    live_handles (snd (terminate_worker k h w)) = live_handles w"
proof -
  have "heap_good ((lc_heap w)(h \<mapsto> lh\<lparr>lh_worker_pid := 0\<rparr>)) (lc_fds w)" if "lc_heap w h = Some lh" for lh
    by (rule heap_good_pid [where lh = lh]) (use assms that in \<open>simp_all add: live_good_def\<close>)
  then show ?thesis
    using terminate_effect [of k h w] assms
    by (auto simp: live_good_def live_handles_def dom_def split: if_splits)
qed

lemma terminate_handle:
  assumes "lc_heap w h = Some lh"
  obtains lh' where "lc_heap (snd (terminate_worker k h w)) h = Some lh'"
    "lh_status_fd lh' = lh_status_fd lh"
  using terminate_effect [of k h w] assms that by auto

lemma clear_fd_good:
  assumes "live_good w"
  shows "live_good (clear_fd h w)" "live_handles (clear_fd h w) = live_handles w"
  using assms heap_good_close [of "lc_heap w" "lc_fds w" h]
  by (auto simp: clear_fd_def close_fd_def live_good_def live_handles_def split: option.split)

lemma live_stop_good:
  assumes "live_good w"
  shows "live_good (snd (live_backend_stop k h w)) \<and> live_handles (snd (live_backend_stop k h w)) = live_handles w"
  using assms terminate_good [of w k h] clear_fd_good [of "snd (terminate_worker k h w)" h]
  by (simp add: live_backend_stop_def split_beta)

lemma free_handle_good:
  assumes "live_good w" "lc_heap w h = Some lh"
    "w' = (if 0 \<le> lh_status_fd lh then close_fd (lh_status_fd lh) w else w)"
  shows "live_good (free_handle h w') \<and> live_handles (free_handle h w') = live_handles w - {h}"
proof -
  have "lh_status_fd lh \<notin> lc_fds w" if "\<not> 0 \<le> lh_status_fd lh"
    using assms(1) heap_goodD(2) [of "lc_heap w" "lc_fds w" "lh_status_fd lh"] that
    by (auto simp: live_good_def fd_good_def split: if_splits)
  then have "lc_fds w' = lc_fds w - {lh_status_fd lh}" "lc_heap w' = lc_heap w"
    using assms(3) by (auto simp: close_fd_def)
  then show ?thesis
    using heap_good_free [of "lc_heap w" "lc_fds w" h lh] assms(1,2)
    by (auto simp: free_handle_def live_good_def live_handles_def)
qed

lemma live_free_good:
  assumes "live_good w" "h \<in> live_handles w"
  shows "live_good (live_backend_free k h w)" "live_handles (live_backend_free k h w) = live_handles w - {h}"
proof -
  obtain lh where lh: "lc_heap w h = Some lh" using assms(2) by (auto simp: live_handles_def)
  have h: "h \<noteq> NULL"
    using assms(1) lh heap_goodD(1) [of "lc_heap w" "lc_fds w"]
    by (cases "h = NULL") (simp_all add: live_good_def del: neq0_conv)
  define w1 where "w1 = (if 0 < lh_worker_pid lh then snd (terminate_worker k h w) else w)"
  have w1: "live_good w1" "live_handles w1 = live_handles w"
    using terminate_good [OF assms(1)] assms(1) by (simp_all add: w1_def)
  obtain lh1 where lh1: "lc_heap w1 h = Some lh1"
    using w1(2) assms(2) by (auto simp: live_handles_def)
  have "live_backend_free k h w =
      free_handle h (if 0 \<le> lh_status_fd lh1 then close_fd (lh_status_fd lh1) w1 else w1)"
    using h lh1 by (simp add: live_backend_free_def lh w1_def [symmetric] del: neq0_conv)
  then show "live_good (live_backend_free k h w)"
      "live_handles (live_backend_free k h w) = live_handles w - {h}"
    using free_handle_good [OF w1(1) lh1 refl] w1(2) by simp_all
qed

subsection \<open>Starting\<close>

text \<open>\<open>restored w w'\<close>: the handles and descriptors are those of \<open>w\<close> again.\<close>

definition restored :: "'s live \<Rightarrow> 's live \<Rightarrow> bool" where
  "restored w w' \<longleftrightarrow> lc_heap w' = lc_heap w \<and> lc_fds w' = lc_fds w"

lemma restored_good: "restored w w' \<Longrightarrow> live_good w' = live_good w \<and> live_handles w' = live_handles w"
  by (simp add: restored_def live_good_def live_handles_def)

lemma abandon_restores:
  assumes "lc_heap w h = None" "fd \<notin> lc_fds w"
    and "lc_heap w' = (lc_heap w)(h \<mapsto> lh)" "lc_fds w' = insert fd (lc_fds w)"
  shows "fst (abandon_worker k h fd w') = -1" "restored w (snd (snd (abandon_worker k h fd w')))"
  using terminate_effect [of k h w'] assms
  by (auto simp: abandon_worker_def restored_def free_handle_def close_fd_def fun_upd_idem)

lemma alloc_effect:
  obtains "fst (alloc_handle k w) = NULL" "same w (snd (alloc_handle k w))"
  | "fst (alloc_handle k w) \<noteq> NULL" "lc_heap w (fst (alloc_handle k w)) = None"
    "lc_heap (snd (alloc_handle k w)) =
       (lc_heap w)(fst (alloc_handle k w) \<mapsto> \<lparr>lh_worker_pid = 0, lh_status_fd = -1\<rparr>)"
    "lc_fds (snd (alloc_handle k w)) = lc_fds w"
  using same_calls(1) [of w "k_calloc k"]
  by (cases "fst (alloc_handle k w) = NULL")
    (auto simp: alloc_handle_def split_beta same_def split: if_splits simp del: neq0_conv)

lemma pipe_effect:
  obtains "fst (open_pipe k w) < 0" "same w (snd (open_pipe k w))"
  | "0 \<le> fst (open_pipe k w)" "fst (open_pipe k w) \<notin> lc_fds w"
    "lc_heap (snd (open_pipe k w)) = lc_heap w" "lc_fds (snd (open_pipe k w)) = insert (fst (open_pipe k w)) (lc_fds w)"
  using same_calls(1) [of w "k_pipe2 k"]
  by (cases "fst (open_pipe k w) < 0")
    (auto simp: open_pipe_def split_beta same_def split: if_splits)

text \<open>The start of a worker behind its fork.\<close>

definition launch :: "'s kernel \<Rightarrow> ptr \<Rightarrow> int \<Rightarrow> int \<Rightarrow> 's live \<Rightarrow> int \<times> ptr \<times> 's live" where
  "launch k h fd pid w =
     (let lh = \<lparr>lh_worker_pid = pid, lh_status_fd = fd\<rparr>;
          w = w\<lparr>lc_heap := (lc_heap w)(h \<mapsto> lh)\<rparr>;
          (grouped, w) = call (k_setpgid k pid) w in
      if \<not> grouped then abandon_worker k h fd w
      else let (r, w) = wait_for_worker_ready k lh w in
      if r \<noteq> 0 then abandon_worker k h fd w
      else (0, h, w))"

lemma launch_effect:
  assumes "lc_heap w h = None" "fd \<notin> lc_fds w"
    and "lc_heap w' = (lc_heap w)(h \<mapsto> l0)" "lc_fds w' = insert fd (lc_fds w)"
    and "(r, p, w2) = launch k h fd pid w'"
  shows "if r = 0 then p = h \<and> lc_heap w2 = (lc_heap w)(h \<mapsto> \<lparr>lh_worker_pid = pid, lh_status_fd = fd\<rparr>) \<and>
      lc_fds w2 = insert fd (lc_fds w) else restored w w2"
proof -
  let ?lh = "\<lparr>lh_worker_pid = pid, lh_status_fd = fd\<rparr>"
  define w1 where "w1 = w'\<lparr>lc_heap := (lc_heap w')(h \<mapsto> ?lh)\<rparr>"
  define wg where "wg = snd (call (k_setpgid k pid) w1)"
  define wr where "wr = snd (wait_for_worker_ready k ?lh wg)"
  have g: "lc_heap wg = (lc_heap w)(h \<mapsto> ?lh)" "lc_fds wg = insert fd (lc_fds w)"
    using assms(3,4) by (simp_all add: wg_def w1_def)
  have "same wg wr" unfolding wr_def wait_for_worker_ready_def by (rule same_ready_until)
  then have r: "lc_heap wr = (lc_heap w)(h \<mapsto> ?lh)" "lc_fds wr = insert fd (lc_fds w)"
    using g by (simp_all add: same_def)
  have l: "launch k h fd pid w' =
      (if \<not> fst (call (k_setpgid k pid) w1) then abandon_worker k h fd wg
       else if fst (wait_for_worker_ready k ?lh wg) \<noteq> 0 then abandon_worker k h fd wr else (0, h, wr))"
    by (simp add: launch_def Let_def split_beta w1_def wg_def wr_def)
  note gb = abandon_restores [OF assms(1,2) g, of k] and rb = abandon_restores [OF assms(1,2) r, of k]
  show ?thesis
  proof (cases "fst (call (k_setpgid k pid) w1) \<and> fst (wait_for_worker_ready k ?lh wg) = 0")
    case True
    then show ?thesis using assms(5) r by (simp add: l)
  next
    case False
    then have "(r, p, w2) = abandon_worker k h fd wg \<or> (r, p, w2) = abandon_worker k h fd wr"
      using assms(5) by (simp add: l split: if_splits)
    then have "r = -1 \<and> restored w w2" using gb rb by (metis fst_conv snd_conv)
    then show ?thesis by simp
  qed
qed

lemma start_effect:
  fixes k :: "'s kernel"
  assumes "(r, p, w2) = live_backend_start k cam fl f w"
  shows "if r = 0 then \<exists>fd pid. p \<noteq> NULL \<and> lc_heap w p = None \<and> 0 \<le> fd \<and> fd \<notin> lc_fds w \<and>
        lc_heap w2 = (lc_heap w)(p \<mapsto> \<lparr>lh_worker_pid = pid, lh_status_fd = fd\<rparr>) \<and>
        lc_fds w2 = insert fd (lc_fds w)
      else restored w w2"
proof (cases "\<exists>ep. endpoint_for w cam = Some ep \<and> ep_present ep")
  case False
  then show ?thesis using assms
    by (auto simp: live_backend_start_def restored_def split: option.splits if_splits)
next
  case True
  then obtain ep where ep: "endpoint_for w cam = Some ep" "ep_present ep" by blast
  define h where "h = fst (alloc_handle k w)"
  define wa where "wa = snd (alloc_handle k w)"
  define fd where "fd = fst (open_pipe k wa)"
  define wp where "wp = snd (open_pipe k wa)"
  define pid where "pid = fst (call (k_fork k) wp)"
  define wf where "wf = snd (call (k_fork k) wp)"
  have start: "live_backend_start k cam fl f w =
      (if h = NULL then (-1, NULL, wa) else if fd < 0 then (-1, NULL, free_handle h wp)
       else if pid \<le> 0 then (-1, NULL, free_handle h (close_fd fd wf)) else launch k h fd pid wf)"
    by (simp add: live_backend_start_def ep launch_def Let_def split_beta h_def wa_def fd_def wp_def
        pid_def wf_def)
  show ?thesis
  proof (cases rule: alloc_effect [of k w])
    case 1
    then show ?thesis using assms start by (simp add: h_def wa_def restored_def same_def)
  next
    case 2
    then have h: "h \<noteq> NULL" "lc_heap w h = None" "lc_fds wa = lc_fds w"
        "lc_heap wa = (lc_heap w)(h \<mapsto> \<lparr>lh_worker_pid = 0, lh_status_fd = -1\<rparr>)"
      by (simp_all only: h_def wa_def not_False_eq_True simp_thms)
    show ?thesis
    proof (cases rule: pipe_effect [of k wa])
      case 1
      then have "fd < 0" "lc_heap wp = lc_heap wa" "lc_fds wp = lc_fds wa"
        by (simp_all add: fd_def wp_def same_def)
      then show ?thesis using assms start h
        by (simp add: restored_def free_handle_def fun_upd_idem del: neq0_conv)
    next
      case 2
      then have fd: "0 \<le> fd" "fd \<notin> lc_fds w" "lc_heap wf = lc_heap wa" "lc_fds wf = insert fd (lc_fds w)"
        using h(3) by (simp_all add: fd_def wp_def wf_def)
      show ?thesis
      proof (cases "pid \<le> 0")
        case True
        then show ?thesis using assms start h fd
          by (simp add: restored_def free_handle_def close_fd_def fun_upd_idem del: neq0_conv)
      next
        case False
        then have "(r, p, w2) = launch k h fd pid wf" using assms start h(1) fd(1) by simp
        note launch_effect [OF h(2) fd(2) fd(3) [unfolded h(4)] fd(4) this]
        then show ?thesis using h(1,2) fd(1,2) by (auto split: if_splits simp del: neq0_conv)
      qed
    qed
  qed
qed

lemma live_start_good:
  assumes "live_good w" "(r, p, w2) = live_backend_start k cam fl f w"
  shows "live_good w2" "r = 0 \<Longrightarrow> p \<noteq> NULL \<and> p \<notin> live_handles w"
    "live_handles w2 = (if r = 0 then insert p (live_handles w) else live_handles w)"
proof -
  note eff = start_effect [OF assms(2)]
  show "r = 0 \<Longrightarrow> p \<noteq> NULL \<and> p \<notin> live_handles w"
    using eff by (auto simp: live_handles_def simp del: neq0_conv)
  show "live_handles w2 = (if r = 0 then insert p (live_handles w) else live_handles w)"
    using eff restored_good [of w w2] by (auto simp: live_handles_def split: if_splits)
  show "live_good w2"
  proof (cases "r = 0")
    case False
    then show ?thesis using eff restored_good [of w w2] assms(1) by simp
  next
    case True
    then obtain fd pid where e: "p \<noteq> NULL" "lc_heap w p = None" "0 \<le> fd" "fd \<notin> lc_fds w"
        "lc_heap w2 = (lc_heap w)(p \<mapsto> \<lparr>lh_worker_pid = pid, lh_status_fd = fd\<rparr>)"
        "lc_fds w2 = insert fd (lc_fds w)"
      using eff by auto
    let ?l0 = "\<lparr>lh_worker_pid = 0, lh_status_fd = -1\<rparr>"
    have "heap_good ((lc_heap w)(p \<mapsto> ?l0)) (lc_fds w)"
      by (rule heap_good_alloc) (use assms(1) e in \<open>simp_all add: live_good_def\<close>)
    then have "heap_good (((lc_heap w)(p \<mapsto> ?l0))(p \<mapsto> \<lparr>lh_worker_pid = pid, lh_status_fd = fd\<rparr>))
        (insert fd (lc_fds w))"
      by (rule heap_good_open [where lh = ?l0]) (use e in simp_all)
    then show ?thesis using e by (simp add: live_good_def)
  qed
qed

lemma same_poll: "same w (snd (live_backend_poll k h w))"
  unfolding live_backend_poll_def Let_def split_beta
  by (auto intro!: same_after split: option.split)

text \<open>The interface, on the bridge's own table.\<close>

interpretation bridge: worker_ops "live_ops k" live_good live_handles
proof (unfold_locales, goal_cases)
  case (7 w cam fl f)
  then show ?case using live_start_good(1) [of w _ _ _ k cam fl f] by (simp add: live_ops_def) (metis prod.collapse)
next
  case (8 w cam fl f)
  then show ?case using live_start_good(2) [of w _ _ _ k cam fl f] by (simp add: live_ops_def del: neq0_conv) (metis prod.collapse)
next
  case (9 w cam fl f)
  then show ?case using live_start_good(2) [of w _ _ _ k cam fl f] by (simp add: live_ops_def del: neq0_conv) (metis prod.collapse)
next
  case (10 w cam fl f)
  then show ?case using live_start_good(3) [of w _ _ _ k cam fl f] by (simp add: live_ops_def)
qed (simp_all add: live_ops_def live_now_def live_stop_good live_free_good
      live_wireplumber_stop_def live_wireplumber_start_def
      same_live [OF same_consumer_mask] same_live [OF same_query_format] same_live [OF same_poll])

section \<open>The bridge's controller\<close>

lemma note_reach:
  "ctl_reach ops init same c \<Longrightarrow> ctl_reach ops init same (note_controller c)"
  unfolding note_controller_def by (rule ctl_reach.elapsed) simp_all

lemma bridge_reach:
  "ctl_reach (live_ops k) (\<lambda>v. v = w) same (bridge_rounds k n w)"
proof (induction n)
  case 0
  have "ctl_reach (live_ops k) (\<lambda>v. v = w) same (camera_controller_new (live_ops k) w)"
    by (rule ctl_reach.created) simp
  then show ?case by (simp add: bridge_rounds_def bridge_start_def note_reach)
next
  case (Suc n)
  have "ctl_reach (live_ops k) (\<lambda>v. v = w) same (bridge_round k c)"
    if "ctl_reach (live_ops k) (\<lambda>v. v = w) same c" for c
    using ctl_reach.elapsed [OF ctl_reach.ticked [OF note_reach [OF that]] same_calls(6)]
    by (simp add: bridge_round_def Let_def)
  with Suc show ?case by (simp add: bridge_rounds_def)
qed

lemma initialize_context_good:
  assumes "initialize_context b s clock sigs = Some w"
  shows "live_good w" "live_handles w = {}"
proof -
  have "lc_heap w = Map.empty" "lc_fds w = {}"
    using assms by (auto simp: initialize_context_def split: option.splits)
  then show "live_good w" "live_handles w = {}"
    by (simp_all add: live_good_def live_handles_def heap_good_def fd_good_def owner_def)
qed

lemma bridge_sound:
  assumes "initialize_context b s clock sigs = Some w"
  shows "bridge.sound (bridge_rounds k n w)"
  by (rule bridge.reach_sound [OF bridge_reach])
    (use initialize_context_good [OF assms] same_live in \<open>auto\<close>)

lemma good_pipes:
  assumes "live_good w"
  shows "fd \<in> lc_fds w \<longleftrightarrow> 0 \<le> fd \<and> (\<exists>h lh. lc_heap w h = Some lh \<and> lh_status_fd lh = fd)"
proof
  assume "fd \<in> lc_fds w"
  then obtain h where "0 \<le> fd" "owner (lc_heap w) fd = {h}"
    using assms heap_goodD(2) [of "lc_heap w" "lc_fds w" fd] by (auto simp: live_good_def fd_good_def)
  then have "0 \<le> fd" "h \<in> owner (lc_heap w) fd" by simp_all
  then show "0 \<le> fd \<and> (\<exists>h lh. lc_heap w h = Some lh \<and> lh_status_fd lh = fd)"
    unfolding owner_def by blast
next
  assume "0 \<le> fd \<and> (\<exists>h lh. lc_heap w h = Some lh \<and> lh_status_fd lh = fd)"
  then show "fd \<in> lc_fds w"
    using assms heap_goodD(3) [of "lc_heap w" "lc_fds w"] by (auto simp: live_good_def)
qed

lemma reap_until_late: "fst (reap_until k pid d w) = 1 \<Longrightarrow> d \<le> lc_clock (snd (reap_until k pid d w))"
proof (induction k pid d w rule: reap_until.induct)
  case (1 k pid d w)
  obtain i w1 where i: "interrupted k w = (i, w1)" by force
  obtain r w2 where r: "waitpid_nohang k pid w1 = (r, w2)" by force
  note IH = 1(1) [OF i [symmetric] refl] 1(2) [OF i [symmetric] refl _ r [symmetric] refl]
  show ?case
    using IH 1(3)
    by (subst reap_until.simps, subst (asm) reap_until.simps)
      (auto simp: i r monotonic_ms_def split: if_splits option.splits wait_end.splits)
qed

section \<open>Who consumes a camera\<close>

text \<open>
  A process other than the bridge and outside its service, of the bridge's user, with an
  open descriptor of the camera's device, deleted or not.
\<close>

definition consumes :: "'s live \<Rightarrow> proc_snapshot \<Rightarrow> proc_entry \<Rightarrow> camera_key \<Rightarrow> bool" where
  "consumes w snap p cam \<longleftrightarrow>
     (\<exists>pid. decimal_pid (pe_name p) = Some pid \<and> pid \<noteq> lc_pid w) \<and>
     read_systemd_cgroup p PATH_MAX \<noteq> Some (lc_systemd_cgroup w) \<and>
     process_uid p = Some (lc_uid w) \<and> ep_present (lc_endpoints w cam) \<and>
     (\<exists>fds name t. pe_fds p = Some fds \<and> (name, Some t) \<in> set fds \<and> take 1 name \<noteq> ''.'' \<and>
        ps_stat snap (strip_deleted (take (PATH_MAX - 1) t)) =
          Some (True, ep_device_number (lc_endpoints w cam)))"

definition fd_hits :: "proc_snapshot \<Rightarrow> camera_endpoint \<Rightarrow> string \<Rightarrow> string \<Rightarrow> bool" where
  "fd_hits snap ep name t \<longleftrightarrow> take 1 name \<noteq> ''.'' \<and>
     ps_stat snap (strip_deleted (take (PATH_MAX - 1) t)) = Some (True, ep_device_number ep)"

lemma uses_endpoint_iff:
  "uses_endpoint_fds snap fds ep \<longleftrightarrow> (\<exists>name t. (name, Some t) \<in> set fds \<and> fd_hits snap ep name t)"
proof (induction fds)
  case (Cons x fds)
  obtain name target where x: "x = (name, target)" by force
  have step: "uses_endpoint_fds snap ((name, target) # fds) ep \<longleftrightarrow>
      (\<exists>t. target = Some t \<and> fd_hits snap ep name t) \<or> uses_endpoint_fds snap fds ep"
    by (cases target) (auto simp: fd_hits_def same_device_def split: option.splits)
  show ?case
    unfolding x step Cons.IH by auto
qed simp

lemma camera_bit_or:
  assumes "cam \<noteq> CAMERA_NONE" "cam' \<noteq> CAMERA_NONE"
  shows "(m OR camera_bit cam') AND camera_bit cam \<noteq> 0 \<longleftrightarrow> m AND camera_bit cam \<noteq> 0 \<or> cam' = cam"
proof -
  have "(m OR n) AND 1 \<noteq> 0 \<longleftrightarrow> m AND 1 \<noteq> 0 \<or> n AND 1 \<noteq> 0"
    "(m OR n) AND 2 \<noteq> 0 \<longleftrightarrow> m AND 2 \<noteq> 0 \<or> n AND 2 \<noteq> 0" for m n :: u32
    using and_exp_eq_0_iff_not_bit [of m 0] and_exp_eq_0_iff_not_bit [of n 0]
      and_exp_eq_0_iff_not_bit [of "m OR n" 0] and_exp_eq_0_iff_not_bit [of m 1]
      and_exp_eq_0_iff_not_bit [of n 1] and_exp_eq_0_iff_not_bit [of "m OR n" 1]
    by (simp_all add: bit_or_iff)
  then show ?thesis
    using assms by (cases cam; cases cam') (simp_all add: camera_bit_def)
qed

lemma process_mask_bit:
  assumes "cam \<noteq> CAMERA_NONE"
  shows "process_mask w snap p m AND camera_bit cam \<noteq> 0 \<longleftrightarrow>
    m AND camera_bit cam \<noteq> 0 \<or> consumes w snap p cam"
proof -
  have used: "camera_used w snap p cam' m AND camera_bit cam \<noteq> 0 \<longleftrightarrow>
      m AND camera_bit cam \<noteq> 0 \<or>
      cam' = cam \<and> ep_present (lc_endpoints w cam) \<and> process_uses_endpoint snap p (lc_endpoints w cam)"
    if "cam' \<noteq> CAMERA_NONE" for cam' m
    using camera_bit_or [OF assms that] by (auto simp: camera_used_def)
  have two: "camera_used w snap p CAMERA_REAR (camera_used w snap p CAMERA_FRONT m) AND camera_bit cam \<noteq> 0 \<longleftrightarrow>
      m AND camera_bit cam \<noteq> 0 \<or>
      ep_present (lc_endpoints w cam) \<and> process_uses_endpoint snap p (lc_endpoints w cam)"
    using assms used [of CAMERA_REAR] used [of CAMERA_FRONT m] by (cases cam) auto
  have uses: "process_uses_endpoint snap p (lc_endpoints w cam) \<longleftrightarrow>
      (\<exists>fds name t. pe_fds p = Some fds \<and> (name, Some t) \<in> set fds \<and> take 1 name \<noteq> ''.'' \<and>
        ps_stat snap (strip_deleted (take (PATH_MAX - 1) t)) =
          Some (True, ep_device_number (lc_endpoints w cam)))"
    by (auto simp: process_uses_endpoint_def uses_endpoint_iff fd_hits_def split: option.split)
  show ?thesis
    unfolding process_mask_def consumes_def uses [symmetric]
    by (auto simp: two split: option.split)
qed

lemma scan_mask_bit:
  assumes "cam \<noteq> CAMERA_NONE"
  shows "fold (process_mask w snap) ps m AND camera_bit cam \<noteq> 0 \<longleftrightarrow>
    m AND camera_bit cam \<noteq> 0 \<or> (\<exists>p \<in> set ps. consumes w snap p cam)"
proof (induction ps arbitrary: m)
  case (Cons p ps)
  show ?case
    unfolding fold_simps Cons.IH process_mask_bit [OF assms] by auto
qed simp

lemma consumes_frame: "consumes (snd (call f w)) snap p cam = consumes w snap p cam"
  by (simp add: consumes_def call_def split_beta)

section \<open>Example kernel\<close>

text \<open>
  For the witnesses: a kernel whose state counts the calls that hand out an address or a
  descriptor.  Workers start, stop when told to, and \<open>ex_proc\<close> is what \<^verbatim>\<open>/proc\<close> shows.
\<close>

definition ex_proc :: proc_snapshot where
  "ex_proc = \<lparr>ps_entries = Some
      [\<lparr>pe_name = ''self'', pe_cgroup = None, pe_status = None, pe_fds = None\<rparr>,
       \<lparr>pe_name = ''77'', pe_cgroup = Some [''0::/app''], pe_status = Some [''Name:'', ''Uid: 1000''],
        pe_fds = Some [(''3'', Some ''/dev/video61 (deleted)'')]\<rparr>],
     ps_stat = (\<lambda>t. if t = CAMERA_REAR_DEVICE then Some (True, 61)
                    else if t = CAMERA_FRONT_DEVICE then Some (True, 60) else None)\<rparr>"

definition ex_kernel :: "nat kernel" where
  "ex_kernel = \<lparr>k_interrupted = (\<lambda>s. (True, s)), k_elapse = (\<lambda>s. (0, s)), k_proc = (\<lambda>s. (ex_proc, s)),
     k_events = (\<lambda>s. (([], False), s)), k_open = (\<lambda>d s. (True, s)),
     k_g_fmt = (\<lambda>d c s. (Some V4L2_PIX_FMT_YUYV, s)), k_calloc = (\<lambda>s. (s + 1, s + 1)),
     k_pipe2 = (\<lambda>s. (int s, s + 1)), k_fork = (\<lambda>s. (100 + int s, s + 1)),
     k_setpgid = (\<lambda>p s. (True, s)), k_kill = (\<lambda>p g s. (Sent, s)),
     k_waitpid_nohang = (\<lambda>p s. (Some Reaped, s)), k_waitpid = (\<lambda>p s. (Reaped, s)),
     k_poll_status = (\<lambda>fd t s. (Poll_Ready, s)), k_read_status = (\<lambda>fd s. (Some (CHR ''R''), s))\<rparr>"

definition ex_boot :: boot where
  "ex_boot = \<lparr>bt_self = \<lparr>pe_name = ''self'', pe_cgroup = Some [''0::/bridge''], pe_status = None, pe_fds = None\<rparr>,
     bt_pid = 5, bt_uid = 1000, bt_stat = ps_stat ex_proc, bt_inotify = False, bt_watch = (\<lambda>_. True)\<rparr>"

lemma ex_init: "\<exists>w. initialize_context ex_boot (0::nat) 0 0 = Some w \<and> lc_uid w = 1000 \<and> lc_pid w = 5 \<and>
    lc_systemd_cgroup w = ''v2:/bridge'' \<and> ep_present (lc_endpoints w CAMERA_REAR) \<and>
    ep_device_number (lc_endpoints w CAMERA_REAR) = 61"
  by (simp add: initialize_context_def ex_boot_def read_systemd_cgroup_def systemd_line_def PATH_MAX_def
      boot_endpoint_def camera_device_def ex_proc_def CAMERA_REAR_DEVICE_def CAMERA_FRONT_DEVICE_def)

section \<open>Properties\<close>

text \<open>
  C3: However the kernel behaves, after any number of rounds of the bridge the allocated
  worker handles are exactly those in the controller's three slots, none in two of them, and
  the open status pipes are exactly theirs: no worker handle and no descriptor leaks or
  dangles.
\<close>

theorem bridge_owns_workers:
  assumes "initialize_context b s clock sigs = Some w"
  shows "dom (lc_heap (ctl_context (bridge_rounds k n w))) = held (bridge_rounds k n w) \<and>
    held_once (bridge_rounds k n w) \<and>
    (\<forall>fd. fd \<in> lc_fds (ctl_context (bridge_rounds k n w)) \<longleftrightarrow>
       0 \<le> fd \<and> (\<exists>h lh. lc_heap (ctl_context (bridge_rounds k n w)) h = Some lh \<and> lh_status_fd lh = fd))"
proof -
  have "bridge.owns (bridge_rounds k n w)"
    using bridge_sound [OF assms, of k n] by (simp add: bridge.sound_def)
  then show ?thesis
    using good_pipes [of "ctl_context (bridge_rounds k n w)"]
    by (simp add: bridge.owns_def live_handles_def)
qed

theorem bridge_owns_workers_witness:
  "\<exists>w. initialize_context ex_boot (0::nat) 0 0 = Some w \<and>
     dom (lc_heap (ctl_context (bridge_rounds ex_kernel 3 w))) = held (bridge_rounds ex_kernel 3 w)"
  using ex_init bridge_owns_workers [of ex_boot 0 0 0 _ ex_kernel 3] by blast

text \<open>
  C40: When \<^verbatim>\<open>main\<close> ends with success, every worker has been stopped and freed: no handle is
  allocated and no status pipe is open.
\<close>

theorem bridge_main_releases:
  assumes "bridge_main k b s clock sigs n = Some (True, c)"
  shows "lc_heap (ctl_context c) = Map.empty \<and> lc_fds (ctl_context c) = {}"
proof -
  obtain w where w: "initialize_context b s clock sigs = Some w"
      and c: "c = snd (camera_controller_shutdown (live_ops k) (bridge_rounds k n w))"
        "fst (camera_controller_shutdown (live_ops k) (bridge_rounds k n w)) = 0"
    using assms by (auto simp: bridge_main_def split_beta Let_def split: option.splits)
  have owns: "bridge.owns c"
    using bridge.owns_shutdown bridge_sound [OF w, of k n] unfolding c(1) bridge.sound_def by blast
  have "held c = {}"
    using shutdown_result [of "live_ops k" "bridge_rounds k n w"] c by (simp add: held_def slots_def)
  then have "lc_heap (ctl_context c) = Map.empty" "live_good (ctl_context c)"
    using owns by (simp_all add: bridge.owns_def live_handles_def)
  then show ?thesis
    using good_pipes [of "ctl_context c"] by auto
qed

theorem bridge_main_releases_witness:
  "\<exists>c. bridge_main ex_kernel ex_boot 0 0 0 0 = Some (True, c) \<and> lc_fds (ctl_context c) = {}"
proof -
  have "case bridge_main ex_kernel ex_boot 0 0 0 0 of None \<Rightarrow> False | Some (ok, c) \<Rightarrow> ok"
    by code_simp
  then obtain c where c: "bridge_main ex_kernel ex_boot 0 0 0 0 = Some (True, c)"
    by (auto split: option.splits)
  then show ?thesis using bridge_main_releases [OF c] by simp
qed

text \<open>
  C31: The scan reports a camera exactly when some process consumes it: one of the bridge's
  user, outside the bridge's own service, with an open descriptor of the camera's device.
\<close>

theorem scan_reports_consumers:
  assumes "cam \<noteq> CAMERA_NONE" "k_proc k (lc_kernel w) = (snap, s)" "ps_entries snap = Some ps"
  shows "fst (scan_consumer_mask k w) AND camera_bit cam \<noteq> 0 \<longleftrightarrow> (\<exists>p \<in> set ps. consumes w snap p cam)"
proof -
  have "consumes (snd (call (k_proc k) w)) snap p cam = consumes w snap p cam" for p
    by (rule consumes_frame)
  then show ?thesis
    using scan_mask_bit [OF assms(1), of "snd (call (k_proc k) w)" snap ps 0] assms(2,3)
    by (simp add: scan_consumer_mask_def call_def)
qed

theorem scan_reports_consumers_witness:
  "\<exists>w. initialize_context ex_boot (0::nat) 0 0 = Some w \<and>
     fst (scan_consumer_mask ex_kernel w) AND camera_bit CAMERA_REAR \<noteq> 0"
proof -
  obtain w where w: "initialize_context ex_boot (0::nat) 0 0 = Some w" "lc_uid w = 1000" "lc_pid w = 5"
      "lc_systemd_cgroup w = ''v2:/bridge''" "ep_present (lc_endpoints w CAMERA_REAR)"
      "ep_device_number (lc_endpoints w CAMERA_REAR) = 61"
    using ex_init by blast
  have "\<exists>p \<in> set (the (ps_entries ex_proc)). consumes w ex_proc p CAMERA_REAR"
    by (simp add: ex_proc_def consumes_def w decimal_pid_def is_digit_def digit_def INT_MAX_def
        read_systemd_cgroup_def systemd_line_def PATH_MAX_def process_uid_def scan_uid_def is_space_def
        strip_deleted_def CAMERA_REAR_DEVICE_def CAMERA_FRONT_DEVICE_def)
  then show ?thesis
    using scan_reports_consumers [of CAMERA_REAR ex_kernel w ex_proc "lc_kernel w" "the (ps_entries ex_proc)"] w(1)
    by (simp add: ex_kernel_def ex_proc_def)
qed

text \<open>
  A poll reaps a worker that has exited and reports it, unless \<^verbatim>\<open>errno\<close> is still \<^verbatim>\<open>EINTR\<close>
  from an earlier call: \<^verbatim>\<open>waitpid\<close> does not write \<^verbatim>\<open>errno\<close> when it succeeds, and the code
  looks at it all the same, so that such a worker passes for a running one.
\<close>

theorem poll_of_reaped_worker:
  assumes "lc_heap w h = Some lh" "0 < lh_worker_pid lh" "lc_signals w = 0"
    and "k_waitpid_nohang k (lh_worker_pid lh) (lc_kernel w) = (Some Reaped, s)"
  shows "fst (live_backend_poll k h w) = (if lc_errno w = EINTR then 0 else -1)"
  using assms
  by (simp add: live_backend_poll_def interrupted_def waitpid_nohang_def call_def wait_errno_def)

theorem poll_of_reaped_worker_witness:
  "\<exists>w. lc_heap w 1 = Some \<lparr>lh_worker_pid = 101, lh_status_fd = 3\<rparr> \<and> lc_errno w = EINTR \<and>
     fst (live_backend_poll ex_kernel 1 w) = 0"
proof -
  obtain w where "initialize_context ex_boot (0::nat) 0 0 = Some w" using ex_init by blast
  let ?w = "w\<lparr>lc_heap := [1 \<mapsto> \<lparr>lh_worker_pid = 101, lh_status_fd = 3\<rparr>], lc_errno := EINTR, lc_signals := 0\<rparr>"
  have "fst (live_backend_poll ex_kernel 1 ?w) = 0"
    using poll_of_reaped_worker [of ?w 1 "\<lparr>lh_worker_pid = 101, lh_status_fd = 3\<rparr>" ex_kernel "lc_kernel w"]
    by (simp add: ex_kernel_def)
  then show ?thesis by (intro exI [of _ ?w]) simp
qed

text \<open>
  Waiting for a worker gives it its time: a timeout is reported only when that has
  passed.
\<close>

theorem reap_worker_timeout:
  assumes "fst (reap_worker k pid timeout_ms w) = 1"
  shows "lc_clock w + timeout_ms \<le> lc_clock (snd (reap_worker k pid timeout_ms w))"
  using reap_until_late [of k pid "monotonic_ms w + timeout_ms" w] assms
  by (simp add: reap_worker_def monotonic_ms_def)

definition ex_stubborn :: "nat kernel" where
  "ex_stubborn = ex_kernel\<lparr>k_waitpid_nohang := (\<lambda>p s. (None, s))\<rparr>"

theorem reap_worker_timeout_witness:
  "\<exists>w. initialize_context ex_boot (0::nat) 7 0 = Some w \<and>
     7 + 60 \<le> lc_clock (snd (reap_worker ex_stubborn 101 60 w))"
proof -
  have "case initialize_context ex_boot (0::nat) 7 0 of None \<Rightarrow> False
      | Some w \<Rightarrow> fst (reap_worker ex_stubborn 101 60 w) = 1 \<and> lc_clock w = 7"
    by code_simp
  then obtain w where w: "initialize_context ex_boot (0::nat) 7 0 = Some w"
      "fst (reap_worker ex_stubborn 101 60 w) = 1" "lc_clock w = 7"
    by (auto split: option.splits)
  then show ?thesis using reap_worker_timeout [OF w(2)] by auto
qed

text \<open>
  The worker sends \<^verbatim>\<open>R\<close> only when its parent lives, it leads its own process group and
  its backend plays; otherwise it exits with failure, and a byte it sends is \<^verbatim>\<open>F\<close>.
\<close>

theorem worker_reports_ready:
  "(if ce_prctl_ok e \<and> ce_parent_alive e \<and> ce_setpgid_ok e \<and> ce_backend_ok e \<and>
       ce_start_result e = 0 \<and> ce_write_ok e
    then worker_process e = (Some (CHR ''R''), worker_rounds (ce_polls e))
    else snd (worker_process e) = Exit_Failure \<and> fst (worker_process e) \<in> {None, Some (CHR ''F'')})"
  by (simp add: worker_process_def configure_worker_parent_death_def write_worker_status_def)

end
