(* ===== verification/Cpd.thy ===== *)
theory Cpd
  imports Prelude
begin

text \<open>
  The firmware container parser \<^verbatim>\<open>ipu-cpd.c\<close> (IPU4P layout): validation of a CPD file and
  the package directory built from it for the hardware.

  A file is its bytes; a pointer into it is an offset.  A read outside the file, which in
  C is undefined, is the error \<open>Out_Of_Bounds\<close>, and so is a store outside the directory's memory; \<open>Invalid\<close> is \<^verbatim>\<open>-EINVAL\<close>, and the
  directory's \<^verbatim>\<open>NULL\<close> is \<open>Invalid\<close> or \<open>No_Memory\<close>.  Offsets and sizes
  are natural numbers: the code's sums of 32-bit fields and a pointer do not wrap, and every
  subtraction is checked before it is made.
\<close>

section \<open>Data\<close>

datatype cpd_error = Invalid | No_Memory | Out_Of_Bounds

datatype dmi_field = DMI_SYS_VENDOR | DMI_PRODUCT_NAME

text \<open>What the code asks the device and the kernel's \<^verbatim>\<open>dmi_match\<close>.\<close>

record ipu_device =
  dev_device :: u16
  dev_dmi_match :: "dmi_field \<Rightarrow> string \<Rightarrow> bool"

definition MAX_PKG_DIR_ENT_CNT :: nat where "MAX_PKG_DIR_ENT_CNT = 16"
definition PKG_DIR_ENT_LEN :: nat where "PKG_DIR_ENT_LEN = 2"
definition PKG_DIR_SIZE :: nat where "PKG_DIR_SIZE = MAX_PKG_DIR_ENT_CNT * PKG_DIR_ENT_LEN * 8"
definition PKG_DIR_ID_SHIFT :: nat where "PKG_DIR_ID_SHIFT = 48"
definition PKG_DIR_ID_MASK :: u64 where "PKG_DIR_ID_MASK = 0x7f"
definition PKG_DIR_VERSION_SHIFT :: nat where "PKG_DIR_VERSION_SHIFT = 32"
definition PKG_DIR_SIZE_MASK :: u64 where "PKG_DIR_SIZE_MASK = 0xfffff"
definition PKG_DIR_HDR_MARK :: u64 where "PKG_DIR_HDR_MARK = 0x5f4955504b44525f"
definition CPD_HDR_MARK :: nat where "CPD_HDR_MARK = 0x44504324"
definition MAX_MANIFEST_SIZE :: nat where "MAX_MANIFEST_SIZE = 2 * 1024 * 4"
definition MAX_METADATA_SIZE :: nat where "MAX_METADATA_SIZE = 64 * 1024"
definition MAX_COMPONENT_ID :: nat where "MAX_COMPONENT_ID = 127"
definition MAX_COMPONENT_VERSION :: nat where "MAX_COMPONENT_VERSION = 0xffff"
definition IPU4P_PCI_DEVICE_ID :: u16 where "IPU4P_PCI_DEVICE_ID = 0x8a19"
definition SP7_IPU4P_FW_PKG_DATE :: nat where "SP7_IPU4P_FW_PKG_DATE = 0x20191030"
definition IA_CSS_FW_PKG_RELEASE :: nat where "IA_CSS_FW_PKG_RELEASE = 0x20181222"
definition IPU_CPD_METADATA_EXTN_TYPE_IUNIT :: nat where "IPU_CPD_METADATA_EXTN_TYPE_IUNIT = 0x10"
definition IPU_CPD_METADATA_IMAGE_TYPE_MAIN_FIRMWARE :: nat where
  "IPU_CPD_METADATA_IMAGE_TYPE_MAIN_FIRMWARE = 2"

text \<open>\<^verbatim>\<open>sizeof\<close> the packed structures.\<close>

definition sizeof_module_data_hdr :: nat where "sizeof_module_data_hdr = 44"
definition sizeof_hdr :: nat where "sizeof_hdr = 16"
definition sizeof_ent :: nat where "sizeof_ent = 24"
definition sizeof_cmpnt :: nat where "sizeof_cmpnt = 68"
definition sizeof_extn :: nat where "sizeof_extn = 28"

section \<open>Reading\<close>

definition ebind :: "'e + 'a \<Rightarrow> ('a \<Rightarrow> 'e + 'b) \<Rightarrow> 'e + 'b" where
  "ebind m f = (case m of Inl e \<Rightarrow> Inl e | Inr x \<Rightarrow> f x)"

definition guard :: "bool \<Rightarrow> cpd_error + unit" where
  "guard b = (if b then Inr () else Inl Invalid)"

text \<open>A little-endian 32-bit field.\<close>

definition u32_at :: "u8 list \<Rightarrow> nat \<Rightarrow> nat" where
  "u32_at file off = unat (file ! off) + 256 * unat (file ! (off + 1))
     + 65536 * unat (file ! (off + 2)) + 16777216 * unat (file ! (off + 3))"

definition read32 :: "u8 list \<Rightarrow> nat \<Rightarrow> cpd_error + nat" where
  "read32 file off = (if off + 4 \<le> length file then Inr (u32_at file off) else Inl Out_Of_Bounds)"

text \<open>The fields used: \<^verbatim>\<open>struct ipu_cpd_hdr\<close> and \<^verbatim>\<open>struct ipu_cpd_ent\<close>.\<close>

definition hdr_mark :: "u8 list \<Rightarrow> nat \<Rightarrow> cpd_error + nat" where
  "hdr_mark file cpd = read32 file cpd"

definition ent_cnt :: "u8 list \<Rightarrow> nat \<Rightarrow> cpd_error + nat" where
  "ent_cnt file cpd = read32 file (cpd + 4)"

definition ipu_cpd_get_entry :: "nat \<Rightarrow> nat \<Rightarrow> nat" where
  "ipu_cpd_get_entry cpd idx = cpd + sizeof_hdr + idx * sizeof_ent"

definition ent_offset :: "u8 list \<Rightarrow> nat \<Rightarrow> cpd_error + nat" where
  "ent_offset file ent = read32 file (ent + 12)"

definition ent_len :: "u8 list \<Rightarrow> nat \<Rightarrow> cpd_error + nat" where
  "ent_len file ent = read32 file (ent + 16)"

definition ipu_cpd_get_manifest :: "nat \<Rightarrow> nat" where "ipu_cpd_get_manifest cpd = ipu_cpd_get_entry cpd 0"
definition ipu_cpd_get_metadata :: "nat \<Rightarrow> nat" where "ipu_cpd_get_metadata cpd = ipu_cpd_get_entry cpd 1"
definition ipu_cpd_get_moduledata :: "nat \<Rightarrow> nat" where "ipu_cpd_get_moduledata cpd = ipu_cpd_get_entry cpd 2"

section \<open>Validation\<close>

definition ipu_cpd_known_sp7_version_mismatch :: "ipu_device \<Rightarrow> nat \<Rightarrow> bool" where
  "ipu_cpd_known_sp7_version_mismatch isp fw_pkg_date \<longleftrightarrow>
     dev_device isp = IPU4P_PCI_DEVICE_ID \<and>
     dev_dmi_match isp DMI_SYS_VENDOR ''Microsoft Corporation'' \<and>
     dev_dmi_match isp DMI_PRODUCT_NAME ''Surface Pro 7'' \<and>
     fw_pkg_date = SP7_IPU4P_FW_PKG_DATE \<and> IA_CSS_FW_PKG_RELEASE = 0x20181222"

text \<open>The loop over the entries, with \<open>n\<close> of them left.\<close>

fun validate_entries :: "u8 list \<Rightarrow> nat \<Rightarrow> nat \<Rightarrow> nat \<Rightarrow> cpd_error + unit" where
  "validate_entries file data_size ent 0 = Inr ()"
| "validate_entries file data_size ent (Suc n) =
     ebind (ent_offset file ent) (\<lambda>offset.
     if data_size < offset then Inl Invalid
     else ebind (ent_len file ent) (\<lambda>len.
       if data_size - offset < len then Inl Invalid
       else validate_entries file data_size (ent + sizeof_ent) n))"

definition ipu_cpd_validate_cpd :: "u8 list \<Rightarrow> nat \<Rightarrow> nat \<Rightarrow> nat \<Rightarrow> cpd_error + unit" where
  "ipu_cpd_validate_cpd file cpd cpd_size data_size =
     ebind (guard (sizeof_hdr \<le> cpd_size)) (\<lambda>_.
     ebind (ent_cnt file cpd) (\<lambda>cnt.
     ebind (guard (cnt \<le> (cpd_size - sizeof_hdr) div sizeof_ent)) (\<lambda>_.
     validate_entries file data_size (cpd + sizeof_hdr) cnt)))"

definition ipu_cpd_validate_moduledata :: "ipu_device \<Rightarrow> u8 list \<Rightarrow> nat \<Rightarrow> nat \<Rightarrow> cpd_error + unit" where
  "ipu_cpd_validate_moduledata isp file moduledata moduledata_size =
     ebind (guard (sizeof_module_data_hdr \<le> moduledata_size)) (\<lambda>_.
     ebind (read32 file moduledata) (\<lambda>hdr_len.
     ebind (guard (hdr_len \<le> moduledata_size)) (\<lambda>_.
     ebind (read32 file (moduledata + 8)) (\<lambda>fw_pkg_date.
     ebind (guard (fw_pkg_date = IA_CSS_FW_PKG_RELEASE \<or>
                   ipu_cpd_known_sp7_version_mismatch isp fw_pkg_date)) (\<lambda>_.
     ipu_cpd_validate_cpd file (moduledata + hdr_len) (moduledata_size - hdr_len) moduledata_size)))))"

definition ipu_cpd_validate_metadata :: "u8 list \<Rightarrow> nat \<Rightarrow> nat \<Rightarrow> cpd_error + unit" where
  "ipu_cpd_validate_metadata file metadata meta_size =
     ebind (guard (sizeof_extn \<le> meta_size \<and> meta_size \<le> MAX_METADATA_SIZE)) (\<lambda>_.
     ebind (read32 file metadata) (\<lambda>extn_type.
     ebind (read32 file (metadata + 8)) (\<lambda>img_type.
     ebind (guard (extn_type = IPU_CPD_METADATA_EXTN_TYPE_IUNIT \<and>
                   img_type = IPU_CPD_METADATA_IMAGE_TYPE_MAIN_FIRMWARE)) (\<lambda>_.
     guard ((meta_size - sizeof_extn) mod sizeof_cmpnt = 0)))))"

definition ipu_cpd_validate_cpd_file :: "ipu_device \<Rightarrow> u8 list \<Rightarrow> cpd_error + unit" where
  "ipu_cpd_validate_cpd_file isp file =
     ebind (ipu_cpd_validate_cpd file 0 (length file) (length file)) (\<lambda>_.
     ebind (hdr_mark file 0) (\<lambda>mark.
     ebind (guard (mark = CPD_HDR_MARK)) (\<lambda>_.
     ebind (ent_len file (ipu_cpd_get_manifest 0)) (\<lambda>man_len.
     ebind (guard (man_len \<le> MAX_MANIFEST_SIZE)) (\<lambda>_.
     ebind (ent_offset file (ipu_cpd_get_metadata 0)) (\<lambda>met_off.
     ebind (ent_len file (ipu_cpd_get_metadata 0)) (\<lambda>met_len.
     ebind (ipu_cpd_validate_metadata file met_off met_len) (\<lambda>_.
     ebind (ent_offset file (ipu_cpd_get_moduledata 0)) (\<lambda>mod_off.
     ebind (ent_len file (ipu_cpd_get_moduledata 0)) (\<lambda>mod_len.
     ipu_cpd_validate_moduledata isp file mod_off mod_len))))))))))"

section \<open>Metadata components\<close>

text \<open>The number of components: a 64-bit quotient, narrowed to \<^verbatim>\<open>int\<close>.\<close>

definition cmpnt_count :: "nat \<Rightarrow> int" where
  "cmpnt_count metadata_size =
     sint (word_of_int (((int metadata_size - int sizeof_extn) mod 2 ^ 64) div int sizeof_cmpnt) :: u32)"

definition ipu_cpd_metadata_get_cmpnt :: "nat \<Rightarrow> nat \<Rightarrow> u8 \<Rightarrow> cpd_error + nat" where
  "ipu_cpd_metadata_get_cmpnt metadata metadata_size idx =
     (let cmpnts = metadata + sizeof_extn in
      if unat idx > MAX_COMPONENT_ID \<or> int (unat idx) \<ge> cmpnt_count metadata_size then Inl Invalid
      else Inr (cmpnts + unat idx * sizeof_cmpnt))"

definition ipu_cpd_metadata_get_cmpnt_id :: "u8 list \<Rightarrow> nat \<Rightarrow> nat \<Rightarrow> u8 \<Rightarrow> cpd_error + nat" where
  "ipu_cpd_metadata_get_cmpnt_id file metadata metadata_size idx =
     ebind (ipu_cpd_metadata_get_cmpnt metadata metadata_size idx) (\<lambda>c. read32 file c)"

definition ipu_cpd_metadata_cmpnt_version :: "u8 list \<Rightarrow> nat \<Rightarrow> nat \<Rightarrow> u8 \<Rightarrow> cpd_error + nat" where
  "ipu_cpd_metadata_cmpnt_version file metadata metadata_size idx =
     ebind (ipu_cpd_metadata_get_cmpnt metadata metadata_size idx) (\<lambda>c. read32 file (c + 8))"

definition ipu_cpd_metadata_get_cmpnt_entry_point :: "u8 list \<Rightarrow> nat \<Rightarrow> nat \<Rightarrow> u8 \<Rightarrow> cpd_error + nat" where
  "ipu_cpd_metadata_get_cmpnt_entry_point file metadata metadata_size idx =
     ebind (ipu_cpd_metadata_get_cmpnt metadata metadata_size idx) (\<lambda>c. read32 file (c + 44))"

definition ipu_cpd_metadata_get_cmpnt_icache_base_offs ::
  "u8 list \<Rightarrow> nat \<Rightarrow> nat \<Rightarrow> u8 \<Rightarrow> cpd_error + nat" where
  "ipu_cpd_metadata_get_cmpnt_icache_base_offs file metadata metadata_size idx =
     ebind (ipu_cpd_metadata_get_cmpnt metadata metadata_size idx) (\<lambda>c. read32 file (c + 48))"

definition ipu_cpd_get_pg_icache_base :: "u8 \<Rightarrow> u8 list \<Rightarrow> cpd_error + nat" where
  "ipu_cpd_get_pg_icache_base idx file =
     ebind (ent_offset file (ipu_cpd_get_metadata 0)) (\<lambda>off.
     ebind (ent_len file (ipu_cpd_get_metadata 0)) (\<lambda>len.
     ipu_cpd_metadata_get_cmpnt_icache_base_offs file off len idx))"

definition ipu_cpd_get_pg_entry_point :: "u8 \<Rightarrow> u8 list \<Rightarrow> cpd_error + nat" where
  "ipu_cpd_get_pg_entry_point idx file =
     ebind (ent_offset file (ipu_cpd_get_metadata 0)) (\<lambda>off.
     ebind (ent_len file (ipu_cpd_get_metadata 0)) (\<lambda>len.
     ipu_cpd_metadata_get_cmpnt_entry_point file off len idx))"

section \<open>The package directory\<close>

text \<open>
  \<^verbatim>\<open>pkg_dir\<close> is memory of \<open>room\<close> bytes, its 64-bit words by index.  A store to a word
  that does not lie in it is the error \<open>Out_Of_Bounds\<close>, as a read outside the file is.
\<close>

definition put_word :: "nat \<Rightarrow> nat \<Rightarrow> u64 \<Rightarrow> (nat \<Rightarrow> u64) \<Rightarrow> cpd_error + (nat \<Rightarrow> u64)" where
  "put_word room i v pkg_dir =
     (if i * 8 + 8 \<le> room then Inr (pkg_dir(i := v)) else Inl Out_Of_Bounds)"

definition entry_word :: "nat \<Rightarrow> nat \<Rightarrow> nat \<Rightarrow> u64" where
  "entry_word len ident ver = of_nat len OR push_bit PKG_DIR_ID_SHIFT (of_nat ident)
     OR push_bit PKG_DIR_VERSION_SHIFT (of_nat ver)"

text \<open>
  The loop of \<^verbatim>\<open>ipu_cpd_parse_module_data\<close> from entry \<open>i\<close> on, \<open>n\<close> entries left.  An
  entry's first word is stored before its component is looked up.  The component id and
  version are compared as \<^verbatim>\<open>int\<close>: a value with the top bit set is negative.
\<close>

fun parse_entries ::
  "nat \<Rightarrow> u8 list \<Rightarrow> u64 \<Rightarrow> nat \<Rightarrow> nat \<Rightarrow> nat \<Rightarrow> nat \<Rightarrow> nat \<Rightarrow> (nat \<Rightarrow> u64)
    \<Rightarrow> cpd_error + (nat \<Rightarrow> u64)" where
  "parse_entries room file dma metadata metadata_size ent i 0 pkg_dir = Inr pkg_dir"
| "parse_entries room file dma metadata metadata_size ent i (Suc n) pkg_dir =
     (let p = PKG_DIR_ENT_LEN + i * PKG_DIR_ENT_LEN in
      ebind (ent_offset file ent) (\<lambda>offset.
      ebind (put_word room p (dma + of_nat offset) pkg_dir) (\<lambda>pkg_dir.
      ebind (ipu_cpd_metadata_get_cmpnt_id file metadata metadata_size (of_nat i)) (\<lambda>ident.
      ebind (guard (ident \<le> MAX_COMPONENT_ID)) (\<lambda>_.
      ebind (ipu_cpd_metadata_cmpnt_version file metadata metadata_size (of_nat i)) (\<lambda>ver.
      ebind (guard (ver \<le> MAX_COMPONENT_VERSION)) (\<lambda>_.
      ebind (ent_len file ent) (\<lambda>len.
      ebind (put_word room (p + 1) (entry_word len ident ver) pkg_dir) (\<lambda>pkg_dir.
      parse_entries room file dma metadata metadata_size (ent + sizeof_ent) (i + 1) n pkg_dir)))))))))"

definition ipu_cpd_parse_module_data ::
  "nat \<Rightarrow> u8 list \<Rightarrow> nat \<Rightarrow> u64 \<Rightarrow> (nat \<Rightarrow> u64) \<Rightarrow> nat \<Rightarrow> nat \<Rightarrow> cpd_error + (nat \<Rightarrow> u64)" where
  "ipu_cpd_parse_module_data room file module_data dma pkg_dir metadata metadata_size =
     ebind (read32 file module_data) (\<lambda>hdr_len.
     let dir_hdr = module_data + hdr_len in
     ebind (put_word room 0 PKG_DIR_HDR_MARK pkg_dir) (\<lambda>pkg_dir.
     ebind (ent_cnt file dir_hdr) (\<lambda>cnt.
     ebind (put_word room 1 (of_nat ((cnt + 1) mod 2 ^ 32)) pkg_dir) (\<lambda>pkg_dir.
     parse_entries room file dma metadata metadata_size (dir_hdr + sizeof_hdr) 0 cnt pkg_dir))))"

text \<open>
  The allocation is of \<^verbatim>\<open>PKG_DIR_SIZE + man_sz + met_sz\<close> bytes, a sum of 32 bits; the two
  copies overwrite all of it behind the first \<^verbatim>\<open>PKG_DIR_SIZE\<close>, so the result is the first
  32 words, the manifest and the metadata.  \<open>fresh\<close> is the allocation's result: what the
  memory held, or no memory.
\<close>

record pkg_dir =
  pd_words :: "u64 list"
  pd_manifest :: "u8 list"
  pd_metadata :: "u8 list"

text \<open>A copy of \<open>len\<close> bytes of the file to byte \<open>pos\<close> of the directory's memory.\<close>

definition copy_bytes :: "nat \<Rightarrow> nat \<Rightarrow> u8 list \<Rightarrow> nat \<Rightarrow> nat \<Rightarrow> cpd_error + u8 list" where
  "copy_bytes room pos file off len =
     (if off + len \<le> length file \<and> pos + len \<le> room then Inr (take len (drop off file))
      else Inl Out_Of_Bounds)"

definition ipu_cpd_create_pkg_dir :: "u8 list \<Rightarrow> u64 \<Rightarrow> (nat \<Rightarrow> u64) option \<Rightarrow> cpd_error + pkg_dir" where
  "ipu_cpd_create_pkg_dir file dma_src fresh =
     ebind (ent_len file (ipu_cpd_get_manifest 0)) (\<lambda>man_sz.
     ebind (ent_len file (ipu_cpd_get_metadata 0)) (\<lambda>met_sz.
     let room = (PKG_DIR_SIZE + man_sz + met_sz) mod 2 ^ 32 in
     ebind (case fresh of None \<Rightarrow> Inl No_Memory | Some mem \<Rightarrow> Inr mem) (\<lambda>mem.
     ebind (ent_offset file (ipu_cpd_get_moduledata 0)) (\<lambda>mod_off.
     ebind (ent_offset file (ipu_cpd_get_metadata 0)) (\<lambda>met_off.
     ebind (ipu_cpd_parse_module_data room file mod_off (dma_src + of_nat mod_off) mem met_off met_sz)
       (\<lambda>words.
     ebind (ent_offset file (ipu_cpd_get_manifest 0)) (\<lambda>man_off.
     ebind (copy_bytes room PKG_DIR_SIZE file man_off man_sz) (\<lambda>man.
     ebind (copy_bytes room (PKG_DIR_SIZE + man_sz) file met_off met_sz) (\<lambda>met.
     Inr \<lparr>pd_words = map words [0..<MAX_PKG_DIR_ENT_CNT * PKG_DIR_ENT_LEN], pd_manifest = man,
          pd_metadata = met\<rparr>)))))))))"

text \<open>The readers of the directory; \<open>idx\<close> is the component's index.\<close>

definition ipu_cpd_pkg_dir_get_address :: "u64 list \<Rightarrow> nat \<Rightarrow> u32" where
  "ipu_cpd_pkg_dir_get_address pkg idx = ucast (pkg ! ((idx + 1) * PKG_DIR_ENT_LEN))"

definition ipu_cpd_pkg_dir_get_num_entries :: "u64 list \<Rightarrow> u32" where
  "ipu_cpd_pkg_dir_get_num_entries pkg = ucast (pkg ! 1)"

definition ipu_cpd_pkg_dir_get_size :: "u64 list \<Rightarrow> nat \<Rightarrow> u32" where
  "ipu_cpd_pkg_dir_get_size pkg idx =
     ucast (pkg ! ((idx + 1) * PKG_DIR_ENT_LEN + 1) AND PKG_DIR_SIZE_MASK)"

definition ipu_cpd_pkg_dir_get_type :: "u64 list \<Rightarrow> nat \<Rightarrow> u32" where
  "ipu_cpd_pkg_dir_get_type pkg idx =
     ucast (drop_bit PKG_DIR_ID_SHIFT (pkg ! ((idx + 1) * PKG_DIR_ENT_LEN + 1)) AND PKG_DIR_ID_MASK)"

section \<open>Reading in bounds\<close>

lemma ebind_simps [simp]:
  "ebind (Inl e) f = Inl e"
  "ebind (Inr x) f = f x"
  by (simp_all add: ebind_def)

lemma guard_simps [simp]: "guard True = Inr ()" "guard False = Inl Invalid"
  by (simp_all add: guard_def)

lemma ebind_ok: "ebind m f = Inr y \<longleftrightarrow> (\<exists>x. m = Inr x \<and> f x = Inr y)"
  by (cases m) simp_all

lemma guard_ok: "guard b = Inr u \<longleftrightarrow> b"
  by (simp add: guard_def)

lemma read32_in: "off + 4 \<le> length file \<Longrightarrow> read32 file off = Inr (u32_at file off)"
  by (simp add: read32_def)

lemma read32_ok: "read32 file off = Inr v \<longleftrightarrow> off + 4 \<le> length file \<and> v = u32_at file off"
  by (auto simp: read32_def)

lemma u32_at_bound: "u32_at file off < 2 ^ 32"
  using unsigned_less [of "file ! off", where ?'a = nat] unsigned_less [of "file ! (off + 1)", where ?'a = nat]
    unsigned_less [of "file ! (off + 2)", where ?'a = nat] unsigned_less [of "file ! (off + 3)", where ?'a = nat]
  by (simp add: u32_at_def)

text \<open>\<open>safe r\<close>: no read out of bounds.\<close>

definition safe :: "cpd_error + 'a \<Rightarrow> bool" where
  "safe r \<longleftrightarrow> r \<noteq> Inl Out_Of_Bounds"

lemma safe_simps [simp]: "safe (Inr x)" "safe (Inl Invalid)" "safe (Inl No_Memory)" "safe (guard b)"
  by (simp_all add: safe_def guard_def)

lemma safe_ebind: "safe m \<Longrightarrow> (\<And>x. m = Inr x \<Longrightarrow> safe (f x)) \<Longrightarrow> safe (ebind m f)"
  by (cases m) (simp_all add: safe_def)

lemma safe_guard: "(b \<Longrightarrow> safe (f ())) \<Longrightarrow> safe (ebind (guard b) f)"
  by (cases b) simp_all

lemma safe_read32: "off + 4 \<le> length file \<Longrightarrow> safe (read32 file off)"
  by (simp add: read32_in)

section \<open>Entries\<close>

lemma validate_entries_safe:
  "ent + n * sizeof_ent \<le> length file \<Longrightarrow> safe (validate_entries file data_size ent n)"
proof (induction n arbitrary: ent)
  case 0
  then show ?case by simp
next
  case (Suc n)
  have "safe (validate_entries file data_size (ent + sizeof_ent) n)"
    by (rule Suc.IH) (use Suc.prems in simp)
  then show ?case
    using Suc.prems
    by (simp add: ent_offset_def ent_len_def read32_in sizeof_ent_def)
qed

lemma validate_entries_ok:
  "validate_entries file data_size ent n = Inr u \<Longrightarrow> k < n \<Longrightarrow>
     u32_at file (ent + k * sizeof_ent + 12) + u32_at file (ent + k * sizeof_ent + 16) \<le> data_size"
proof (induction n arbitrary: ent k)
  case 0
  then show ?case by simp
next
  case (Suc n)
  from Suc.prems(1) have here: "u32_at file (ent + 12) + u32_at file (ent + 16) \<le> data_size"
      and rest: "validate_entries file data_size (ent + sizeof_ent) n = Inr u"
    by (auto simp: ebind_ok ent_offset_def ent_len_def read32_ok split: if_splits)
  show ?case
  proof (cases k)
    case 0
    then show ?thesis using here by simp
  next
    case (Suc j)
    then show ?thesis using Suc.IH [OF rest, of j] Suc.prems(2) by (simp add: algebra_simps)
  qed
qed

lemma validate_cpd_safe:
  assumes "cpd + cpd_size \<le> length file"
  shows "safe (ipu_cpd_validate_cpd file cpd cpd_size data_size)"
proof -
  have "safe (validate_entries file data_size (cpd + sizeof_hdr) cnt)"
    if "sizeof_hdr \<le> cpd_size" "cnt \<le> (cpd_size - sizeof_hdr) div sizeof_ent" for cnt
  proof -
    have "cnt * sizeof_ent \<le> (cpd_size - sizeof_hdr) div sizeof_ent * sizeof_ent"
      using that(2) by (rule mult_le_mono1)
    also have "\<dots> \<le> cpd_size - sizeof_hdr" by (rule div_times_less_eq_dividend)
    finally show ?thesis using that(1) assms by (intro validate_entries_safe) simp
  qed
  then show ?thesis
    unfolding ipu_cpd_validate_cpd_def
    using assms by (intro safe_guard safe_ebind) (auto simp: ent_cnt_def safe_read32 sizeof_hdr_def)
qed

lemma validate_cpd_ok:
  assumes "ipu_cpd_validate_cpd file cpd cpd_size data_size = Inr u"
  shows "cpd + 8 \<le> length file" "sizeof_hdr + u32_at file (cpd + 4) * sizeof_ent \<le> cpd_size"
    "k < u32_at file (cpd + 4) \<Longrightarrow>
      u32_at file (ipu_cpd_get_entry cpd k + 12) + u32_at file (ipu_cpd_get_entry cpd k + 16) \<le> data_size"
proof -
  obtain cnt where cnt: "cnt = u32_at file (cpd + 4)" "cpd + 8 \<le> length file" "sizeof_hdr \<le> cpd_size"
      "cnt \<le> (cpd_size - sizeof_hdr) div sizeof_ent"
      "validate_entries file data_size (cpd + sizeof_hdr) cnt = Inr u"
    using assms by (auto simp: ipu_cpd_validate_cpd_def ebind_ok guard_ok ent_cnt_def read32_ok)
  show "cpd + 8 \<le> length file" by (rule cnt(2))
  have "cnt * sizeof_ent \<le> (cpd_size - sizeof_hdr) div sizeof_ent * sizeof_ent"
    using cnt(4) by (rule mult_le_mono1)
  also have "\<dots> \<le> cpd_size - sizeof_hdr" by (rule div_times_less_eq_dividend)
  finally show "sizeof_hdr + u32_at file (cpd + 4) * sizeof_ent \<le> cpd_size" using cnt(1,3) by simp
  show "k < u32_at file (cpd + 4) \<Longrightarrow>
      u32_at file (ipu_cpd_get_entry cpd k + 12) + u32_at file (ipu_cpd_get_entry cpd k + 16) \<le> data_size"
    using validate_entries_ok [OF cnt(5), of k] cnt(1) by (simp add: ipu_cpd_get_entry_def)
qed

section \<open>Whole files\<close>

text \<open>Offset and length of the k-th entry of the file, as the file states them.\<close>

definition file_entry :: "u8 list \<Rightarrow> nat \<Rightarrow> nat \<times> nat" where
  "file_entry file k = (u32_at file (ipu_cpd_get_entry 0 k + 12), u32_at file (ipu_cpd_get_entry 0 k + 16))"

lemma three_entries:
  assumes "ipu_cpd_validate_cpd file 0 (length file) (length file) = Inr u" "3 \<le> u32_at file 4" "k < 3"
  shows "ipu_cpd_get_entry 0 k + 20 \<le> length file"
    "fst (file_entry file k) + snd (file_entry file k) \<le> length file"
    "ent_offset file (ipu_cpd_get_entry 0 k) = Inr (fst (file_entry file k))"
    "ent_len file (ipu_cpd_get_entry 0 k) = Inr (snd (file_entry file k))"
proof -
  have "3 * sizeof_ent \<le> u32_at file 4 * sizeof_ent" using assms(2) by (rule mult_le_mono1)
  then have "sizeof_hdr + 3 * sizeof_ent \<le> length file"
    using validate_cpd_ok(2) [OF assms(1)] by (simp add: sizeof_ent_def)
  then show in1: "ipu_cpd_get_entry 0 k + 20 \<le> length file"
    using assms(3) by (simp add: ipu_cpd_get_entry_def sizeof_hdr_def sizeof_ent_def)
  show "fst (file_entry file k) + snd (file_entry file k) \<le> length file"
    using validate_cpd_ok(3) [OF assms(1), of k] assms(2,3) by (simp add: file_entry_def)
  show "ent_offset file (ipu_cpd_get_entry 0 k) = Inr (fst (file_entry file k))"
    "ent_len file (ipu_cpd_get_entry 0 k) = Inr (snd (file_entry file k))"
    using in1 by (simp_all add: ent_offset_def ent_len_def file_entry_def read32_in)
qed

lemma validate_metadata_safe:
  "metadata + meta_size \<le> length file \<Longrightarrow> safe (ipu_cpd_validate_metadata file metadata meta_size)"
  unfolding ipu_cpd_validate_metadata_def
  by (intro safe_guard safe_ebind) (auto simp: safe_read32 sizeof_extn_def)

lemma validate_moduledata_safe:
  assumes "moduledata + moduledata_size \<le> length file"
  shows "safe (ipu_cpd_validate_moduledata isp file moduledata moduledata_size)"
  unfolding ipu_cpd_validate_moduledata_def using assms
  by (intro safe_guard safe_ebind)
    (auto simp: safe_read32 sizeof_module_data_hdr_def intro!: validate_cpd_safe)

lemma validate_file_safe:
  assumes "3 \<le> u32_at file 4"
  shows "safe (ipu_cpd_validate_cpd_file isp file)"
  unfolding ipu_cpd_validate_cpd_file_def
proof (rule safe_ebind)
  show "safe (ipu_cpd_validate_cpd file 0 (length file) (length file))"
    by (rule validate_cpd_safe) simp
  fix u
  assume ok: "ipu_cpd_validate_cpd file 0 (length file) (length file) = Inr u"
  note ents = three_entries [OF ok assms]
  have mark: "safe (hdr_mark file 0)"
    using ents(1) [of 0] by (simp add: hdr_mark_def safe_read32)
  show "safe (ebind (hdr_mark file 0) (\<lambda>mark.
     ebind (guard (mark = CPD_HDR_MARK)) (\<lambda>_.
     ebind (ent_len file (ipu_cpd_get_manifest 0)) (\<lambda>man_len.
     ebind (guard (man_len \<le> MAX_MANIFEST_SIZE)) (\<lambda>_.
     ebind (ent_offset file (ipu_cpd_get_metadata 0)) (\<lambda>met_off.
     ebind (ent_len file (ipu_cpd_get_metadata 0)) (\<lambda>met_len.
     ebind (ipu_cpd_validate_metadata file met_off met_len) (\<lambda>_.
     ebind (ent_offset file (ipu_cpd_get_moduledata 0)) (\<lambda>mod_off.
     ebind (ent_len file (ipu_cpd_get_moduledata 0)) (\<lambda>mod_len.
     ipu_cpd_validate_moduledata isp file mod_off mod_len))))))))))"
    using ents(2) [of 1] ents(2) [of 2]
    by (intro safe_ebind [OF mark] safe_guard)
      (auto simp: ipu_cpd_get_manifest_def ipu_cpd_get_metadata_def ipu_cpd_get_moduledata_def ents
        intro!: safe_guard safe_ebind validate_metadata_safe validate_moduledata_safe)
qed

lemma validate_file_ok:
  assumes "ipu_cpd_validate_cpd_file isp file = Inr u"
  shows "ipu_cpd_validate_cpd file 0 (length file) (length file) = Inr ()"
    "u32_at file 0 = CPD_HDR_MARK"
    "snd (file_entry file 0) \<le> MAX_MANIFEST_SIZE"
    "ipu_cpd_validate_metadata file (fst (file_entry file 1)) (snd (file_entry file 1)) = Inr ()"
    "ipu_cpd_validate_moduledata isp file (fst (file_entry file 2)) (snd (file_entry file 2)) = Inr ()"
  using assms
  by (auto simp: ipu_cpd_validate_cpd_file_def ebind_ok guard_ok hdr_mark_def ent_len_def ent_offset_def
      read32_ok file_entry_def ipu_cpd_get_manifest_def ipu_cpd_get_metadata_def
      ipu_cpd_get_moduledata_def)

lemma validate_moduledata_ok:
  assumes "ipu_cpd_validate_moduledata isp file m sz = Inr u"
  shows "sizeof_module_data_hdr \<le> sz" "u32_at file m \<le> sz"
    "u32_at file (m + 8) = IA_CSS_FW_PKG_RELEASE \<or>
      ipu_cpd_known_sp7_version_mismatch isp (u32_at file (m + 8))"
    "ipu_cpd_validate_cpd file (m + u32_at file m) (sz - u32_at file m) sz = Inr ()"
  using assms
  by (auto simp: ipu_cpd_validate_moduledata_def ebind_ok guard_ok read32_ok)

lemma validate_metadata_ok:
  assumes "ipu_cpd_validate_metadata file m sz = Inr u"
  shows "sizeof_extn \<le> sz" "sz \<le> MAX_METADATA_SIZE" "(sz - sizeof_extn) mod sizeof_cmpnt = 0"
  using assms by (auto simp: ipu_cpd_validate_metadata_def ebind_ok guard_ok read32_ok)

section \<open>The directory\<close>

lemma cmpnt_count_nat:
  assumes "sizeof_extn \<le> sz" "sz < 2 ^ 32"
  shows "cmpnt_count sz = int ((sz - sizeof_extn) div sizeof_cmpnt)"
proof -
  have "(int sz - int sizeof_extn) mod 2 ^ 64 = int (sz - sizeof_extn)"
    using assms by (simp add: of_nat_diff)
  then have q: "((int sz - int sizeof_extn) mod 2 ^ 64) div int sizeof_cmpnt =
      int ((sz - sizeof_extn) div sizeof_cmpnt)"
    by (simp add: zdiv_int)
  have "(sz - sizeof_extn) div sizeof_cmpnt < 2 ^ 31"
    using assms by (simp add: sizeof_cmpnt_def sizeof_extn_def)
  then have "sint (word_of_int (int ((sz - sizeof_extn) div sizeof_cmpnt)) :: u32) =
      int ((sz - sizeof_extn) div sizeof_cmpnt)"
    unfolding signed_of_int by (simp add: signed_take_bit_int_eq_self)
  with q show ?thesis by (simp add: cmpnt_count_def)
qed

lemma cmpnt_offset:
  assumes "ipu_cpd_metadata_get_cmpnt m sz idx = Inr c" "sizeof_extn \<le> sz" "sz < 2 ^ 32"
  shows "c = m + sizeof_extn + unat idx * sizeof_cmpnt" "c + sizeof_cmpnt \<le> m + sz"
    "unat idx < (sz - sizeof_extn) div sizeof_cmpnt" "unat idx \<le> MAX_COMPONENT_ID"
proof -
  show c: "c = m + sizeof_extn + unat idx * sizeof_cmpnt"
    and i: "unat idx < (sz - sizeof_extn) div sizeof_cmpnt" and "unat idx \<le> MAX_COMPONENT_ID"
  proof -
    have ok: "\<not> (unat idx > MAX_COMPONENT_ID \<or> int (unat idx) \<ge> cmpnt_count sz)"
      using assms(1) unfolding ipu_cpd_metadata_get_cmpnt_def Let_def by (metis sum.distinct(1))
    then show "c = m + sizeof_extn + unat idx * sizeof_cmpnt"
      using assms(1) unfolding ipu_cpd_metadata_get_cmpnt_def Let_def by (metis sum.inject(2))
    show "unat idx < (sz - sizeof_extn) div sizeof_cmpnt"
      using ok unfolding cmpnt_count_nat [OF assms(2,3)] of_nat_le_iff by linarith
    show "unat idx \<le> MAX_COMPONENT_ID" using ok by linarith
  qed
  have "(unat idx + 1) * sizeof_cmpnt \<le> (sz - sizeof_extn) div sizeof_cmpnt * sizeof_cmpnt"
    using i by (intro mult_le_mono1) simp
  also have "\<dots> \<le> sz - sizeof_extn" by (rule div_times_less_eq_dividend)
  finally show "c + sizeof_cmpnt \<le> m + sz" using c assms(2) by (simp add: algebra_simps)
qed

lemma cmpnt_safe: "safe (ipu_cpd_metadata_get_cmpnt m sz idx)"
  by (simp add: ipu_cpd_metadata_get_cmpnt_def Let_def)

lemma cmpnt_fields_safe:
  assumes "sizeof_extn \<le> sz" "sz < 2 ^ 32" "m + sz \<le> length file"
  shows "safe (ipu_cpd_metadata_get_cmpnt_id file m sz idx)"
    "safe (ipu_cpd_metadata_cmpnt_version file m sz idx)"
    "safe (ipu_cpd_metadata_get_cmpnt_entry_point file m sz idx)"
    "safe (ipu_cpd_metadata_get_cmpnt_icache_base_offs file m sz idx)"
proof -
  have "safe (ebind (ipu_cpd_metadata_get_cmpnt m sz idx) (\<lambda>c. read32 file (c + d)))" if "d \<le> 64" for d
    by (rule safe_ebind [OF cmpnt_safe])
      (use cmpnt_offset(2) [OF _ assms(1,2)] assms(3) that in \<open>fastforce simp: sizeof_cmpnt_def intro!: safe_read32\<close>)
  from this [of 0] this [of 8] this [of 44] this [of 48]
  show "safe (ipu_cpd_metadata_get_cmpnt_id file m sz idx)"
    "safe (ipu_cpd_metadata_cmpnt_version file m sz idx)"
    "safe (ipu_cpd_metadata_get_cmpnt_entry_point file m sz idx)"
    "safe (ipu_cpd_metadata_get_cmpnt_icache_base_offs file m sz idx)"
    by (simp_all add: ipu_cpd_metadata_get_cmpnt_id_def ipu_cpd_metadata_cmpnt_version_def
        ipu_cpd_metadata_get_cmpnt_entry_point_def ipu_cpd_metadata_get_cmpnt_icache_base_offs_def)
qed

lemma put_word_in: "i * 8 + 8 \<le> room \<Longrightarrow> put_word room i v pd = Inr (pd(i := v))"
  by (simp add: put_word_def)

lemma put_word_ok: "put_word room i v pd = Inr pd' \<longleftrightarrow> i * 8 + 8 \<le> room \<and> pd' = pd(i := v)"
  by (auto simp: put_word_def)

text \<open>
  A component takes 68 bytes of the metadata and an entry 16 of the directory, so as long as
  every earlier entry found its component the next one's two words lie in the allocation.  The
  index of a component is a byte: the lookup of entry 128 fails, if no earlier one did.
\<close>

lemma component_found:
  assumes "ipu_cpd_metadata_get_cmpnt_id file m sz (of_nat i) = Inr ident" "i \<le> 128"
    and "sizeof_extn \<le> sz" "sz < 2 ^ 32"
  shows "i < 128" "i < (sz - sizeof_extn) div sizeof_cmpnt"
proof -
  obtain c where c: "ipu_cpd_metadata_get_cmpnt m sz (of_nat i) = Inr c"
    using assms(1) by (auto simp: ipu_cpd_metadata_get_cmpnt_id_def ebind_ok)
  have i: "unat (of_nat i :: u8) = i"
    using assms(2) by (simp add: unsigned_of_nat take_bit_nat_eq_self)
  show "i < 128" "i < (sz - sizeof_extn) div sizeof_cmpnt"
    using cmpnt_offset(3,4) [OF c assms(3,4)] unfolding i by (simp_all add: MAX_COMPONENT_ID_def)
qed

lemma entry_fits:
  assumes "i \<le> (sz - sizeof_extn) div sizeof_cmpnt" "sizeof_extn \<le> sz" "PKG_DIR_SIZE + sz \<le> room"
  shows "(PKG_DIR_ENT_LEN + i * PKG_DIR_ENT_LEN) * 8 + 8 \<le> room"
    "(PKG_DIR_ENT_LEN + i * PKG_DIR_ENT_LEN + 1) * 8 + 8 \<le> room"
  using assms
  by (simp_all add: PKG_DIR_ENT_LEN_def PKG_DIR_SIZE_def MAX_PKG_DIR_ENT_CNT_def sizeof_cmpnt_def
      sizeof_extn_def)

lemma parse_entries_safe:
  assumes "sizeof_extn \<le> sz" "sz < 2 ^ 32" "m + sz \<le> length file" "PKG_DIR_SIZE + sz \<le> room"
    and "ent + n * sizeof_ent \<le> length file"
    and "i \<le> 128" "i \<le> (sz - sizeof_extn) div sizeof_cmpnt"
  shows "safe (parse_entries room file dma m sz ent i n pd)"
  using assms(5-)
proof (induction n arbitrary: ent i pd)
  case 0
  then show ?case by simp
next
  case (Suc n)
  have "safe (parse_entries room file dma m sz (ent + sizeof_ent) (i + 1) n pd')"
    if "ipu_cpd_metadata_get_cmpnt_id file m sz (of_nat i) = Inr ident" for ident pd'
    by (rule Suc.IH)
      (use Suc.prems component_found [OF that Suc.prems(2) assms(1,2)] in simp_all)
  moreover have "ent + 20 \<le> length file" using Suc.prems by (simp add: sizeof_ent_def)
  ultimately show ?case
    using cmpnt_fields_safe [OF assms(1-3)] entry_fits [OF Suc.prems(3) assms(1,4)]
    by (auto simp: Let_def ent_offset_def ent_len_def read32_in put_word_in intro!: safe_ebind safe_guard)
qed

text \<open>What a successful run of the loop wrote for each entry, with its component.\<close>

definition entry_parsed ::
  "u8 list \<Rightarrow> u64 \<Rightarrow> nat \<Rightarrow> nat \<Rightarrow> nat \<Rightarrow> nat \<Rightarrow> (nat \<Rightarrow> u64) \<Rightarrow> bool" where
  "entry_parsed file dma m sz ent i pd \<longleftrightarrow>
     pd (PKG_DIR_ENT_LEN + i * PKG_DIR_ENT_LEN) = dma + of_nat (u32_at file (ent + 12)) \<and>
     (\<exists>c ident ver. ipu_cpd_metadata_get_cmpnt m sz (of_nat i) = Inr c \<and>
        ident = u32_at file c \<and> ver = u32_at file (c + 8) \<and>
        ident \<le> MAX_COMPONENT_ID \<and> ver \<le> MAX_COMPONENT_VERSION \<and>
        pd (PKG_DIR_ENT_LEN + i * PKG_DIR_ENT_LEN + 1) = entry_word (u32_at file (ent + 16)) ident ver)"

lemma parse_entries_ok:
  assumes "parse_entries room file dma m sz ent i n pd = Inr pd'"
  shows "(\<forall>j. j < PKG_DIR_ENT_LEN + i * PKG_DIR_ENT_LEN \<longrightarrow> pd' j = pd j) \<and>
    (\<forall>k < n. entry_parsed file dma m sz (ent + k * sizeof_ent) (i + k) pd')"
  using assms
proof (induction n arbitrary: ent i pd)
  case 0
  then show ?case by simp
next
  case (Suc n)
  let ?p = "PKG_DIR_ENT_LEN + i * PKG_DIR_ENT_LEN"
  from Suc.prems obtain c ident ver where
      c: "ipu_cpd_metadata_get_cmpnt m sz (of_nat i) = Inr c" "ident = u32_at file c" "ver = u32_at file (c + 8)"
      "ident \<le> MAX_COMPONENT_ID" "ver \<le> MAX_COMPONENT_VERSION"
      and rest: "parse_entries room file dma m sz (ent + sizeof_ent) (i + 1) n
        (pd(?p := dma + of_nat (u32_at file (ent + 12)), ?p + 1 := entry_word (u32_at file (ent + 16)) ident ver))
        = Inr pd'"
    by (auto simp: Let_def ebind_ok guard_ok ent_offset_def ent_len_def read32_ok put_word_ok
        ipu_cpd_metadata_get_cmpnt_id_def ipu_cpd_metadata_cmpnt_version_def)
  note IH = Suc.IH [OF rest]
  have low: "pd' j = (pd(?p := dma + of_nat (u32_at file (ent + 12)),
      ?p + 1 := entry_word (u32_at file (ent + 16)) ident ver)) j" if "j < ?p + 2" for j
    using IH that by (simp add: PKG_DIR_ENT_LEN_def)
  have "entry_parsed file dma m sz (ent + k * sizeof_ent) (i + k) pd'" if "k < Suc n" for k
  proof (cases k)
    case 0
    then show ?thesis using low [of ?p] low [of "?p + 1"] c by (simp add: entry_parsed_def)
  next
    case (Suc j)
    then have "j < n" "i + k = i + 1 + j" "ent + k * sizeof_ent = ent + sizeof_ent + j * sizeof_ent"
      using that by simp_all
    then show ?thesis using IH by metis
  qed
  moreover have "\<forall>j. j < ?p \<longrightarrow> pd' j = pd j" using low by simp
  ultimately show ?case by blast
qed

text \<open>
  Each entry found its component: with a metadata block of a validated size the components,
  68 bytes each, are as many as the entries, 16 bytes of directory each.
\<close>

lemma parsed_count:
  assumes "\<forall>k < n. entry_parsed file dma m sz (ent + k * sizeof_ent) k pd"
    and "sizeof_extn \<le> sz" "sz \<le> MAX_METADATA_SIZE"
  shows "n \<le> 128" "n \<le> (sz - sizeof_extn) div sizeof_cmpnt"
proof -
  have sz: "sz < 2 ^ 32" using assms(3) by (simp add: MAX_METADATA_SIZE_def)
  have each: "unat (of_nat k :: u8) < (sz - sizeof_extn) div sizeof_cmpnt" "unat (of_nat k :: u8) \<le> 127"
    if "k < n" for k
    using assms(1) that cmpnt_offset(3,4) [OF _ assms(2) sz]
    by (fastforce simp: entry_parsed_def MAX_COMPONENT_ID_def)+
  show n: "n \<le> 128"
  proof (rule ccontr)
    assume "\<not> n \<le> 128"
    then have "unat (of_nat 128 :: u8) \<le> 127" by (intro each(2)) simp
    then show False by simp
  qed
  show "n \<le> (sz - sizeof_extn) div sizeof_cmpnt"
  proof (cases n)
    case 0
    then show ?thesis by simp
  next
    case (Suc k)
    then have "unat (of_nat k :: u8) = k" using n by (simp add: unsigned_of_nat take_bit_nat_eq_self)
    then show ?thesis using each(1) [of k] Suc by simp
  qed
qed

section \<open>Reading an entry back\<close>

lemma bit_of_nat_u64: "x < 2 ^ n \<Longrightarrow> bit (of_nat x :: u64) j \<Longrightarrow> j < n"
proof (rule ccontr)
  assume a: "x < 2 ^ n" "bit (of_nat x :: u64) j" "\<not> j < n"
  then have "(2::nat) ^ n \<le> 2 ^ j" by (intro power_increasing) auto
  with a(1) have "x < 2 ^ j" by linarith
  then show False using a(2) by (simp add: bit_of_nat_iff bit_nat_def div_less)
qed

lemma mask_bits:
  "PKG_DIR_SIZE_MASK = mask 20" "PKG_DIR_ID_MASK = mask 7"
  by (simp_all add: PKG_DIR_SIZE_MASK_def PKG_DIR_ID_MASK_def mask_eq_exp_minus_1)

lemma entry_word_size:
  assumes "len < 2 ^ 20"
  shows "entry_word len ident ver AND PKG_DIR_SIZE_MASK = of_nat len"
  by (rule bit_word_eqI)
    (auto simp: entry_word_def mask_bits bit_and_iff bit_or_iff bit_mask_iff bit_push_bit_iff
      PKG_DIR_ID_SHIFT_def PKG_DIR_VERSION_SHIFT_def dest: bit_of_nat_u64 [OF assms])

lemma entry_word_type:
  assumes "len < 2 ^ 32" "ident \<le> 127" "ver \<le> 0xffff"
  shows "drop_bit PKG_DIR_ID_SHIFT (entry_word len ident ver) AND PKG_DIR_ID_MASK = of_nat ident"
proof -
  have "len < 2 ^ 32" "ident < 2 ^ 7" "ver < 2 ^ 16" using assms by simp_all
  note bits = this [THEN bit_of_nat_u64]
  show ?thesis
    by (rule bit_word_eqI)
      (auto simp: entry_word_def mask_bits bit_and_iff bit_or_iff bit_mask_iff bit_push_bit_iff
        bit_drop_bit_eq PKG_DIR_ID_SHIFT_def PKG_DIR_VERSION_SHIFT_def dest: bits)
qed

lemma ucast_of_nat: "ucast (of_nat x :: u64) = (of_nat x :: u32)"
  by (rule bit_word_eqI) (simp add: bit_unsigned_iff bit_of_nat_iff)

section \<open>The directory of a validated file\<close>

text \<open>What acceptance gives about a file that states at least three entries.\<close>

definition met_off :: "u8 list \<Rightarrow> nat" where "met_off file = fst (file_entry file 1)"
definition met_len :: "u8 list \<Rightarrow> nat" where "met_len file = snd (file_entry file 1)"
definition mod_off :: "u8 list \<Rightarrow> nat" where "mod_off file = fst (file_entry file 2)"

text \<open>The directory inside the module data: its offset and its entry count.\<close>

definition dir_off :: "u8 list \<Rightarrow> nat" where "dir_off file = mod_off file + u32_at file (mod_off file)"
definition dir_cnt :: "u8 list \<Rightarrow> nat" where "dir_cnt file = u32_at file (dir_off file + 4)"

definition man_len :: "u8 list \<Rightarrow> nat" where "man_len file = snd (file_entry file 0)"

text \<open>The bytes of the directory's allocation.\<close>

definition dir_size :: "u8 list \<Rightarrow> nat" where
  "dir_size file = PKG_DIR_SIZE + man_len file + met_len file"

definition accepted :: "ipu_device \<Rightarrow> u8 list \<Rightarrow> bool" where
  "accepted isp file \<longleftrightarrow> ipu_cpd_validate_cpd_file isp file = Inr () \<and> 3 \<le> u32_at file 4"

lemmas file_parts = met_off_def met_len_def mod_off_def dir_off_def dir_cnt_def

lemma file_entry_bound: "fst (file_entry file k) < 2 ^ 32" "snd (file_entry file k) < 2 ^ 32"
  using u32_at_bound by (simp_all add: file_entry_def)

lemma accepted_parts:
  assumes "accepted isp file"
  shows "met_off file + met_len file \<le> length file"
    "sizeof_extn \<le> met_len file" "met_len file \<le> MAX_METADATA_SIZE" "met_len file < 2 ^ 32"
    "mod_off file + 4 \<le> length file"
    "dir_off file + sizeof_hdr + dir_cnt file * sizeof_ent \<le> length file"
    "k < 3 \<Longrightarrow> ent_offset file (ipu_cpd_get_entry 0 k) = Inr (fst (file_entry file k))"
    "k < 3 \<Longrightarrow> ent_len file (ipu_cpd_get_entry 0 k) = Inr (snd (file_entry file k))"
    "k < 3 \<Longrightarrow> fst (file_entry file k) + snd (file_entry file k) \<le> length file"
    "dir_size file mod 2 ^ 32 = dir_size file"
proof -
  from assms have ok: "ipu_cpd_validate_cpd_file isp file = Inr ()" and three: "3 \<le> u32_at file 4"
    by (simp_all add: accepted_def)
  note f = validate_file_ok [OF ok]
  note ents = three_entries [OF f(1) three]
  show "k < 3 \<Longrightarrow> ent_offset file (ipu_cpd_get_entry 0 k) = Inr (fst (file_entry file k))"
    "k < 3 \<Longrightarrow> ent_len file (ipu_cpd_get_entry 0 k) = Inr (snd (file_entry file k))"
    "k < 3 \<Longrightarrow> fst (file_entry file k) + snd (file_entry file k) \<le> length file"
    using ents(2,3,4) by simp_all
  show "met_off file + met_len file \<le> length file" using ents(2) [of 1] by (simp add: file_parts)
  show "sizeof_extn \<le> met_len file" "met_len file \<le> MAX_METADATA_SIZE"
    using validate_metadata_ok(1,2) [OF f(4)] by (simp_all add: file_parts)
  show "dir_size file mod 2 ^ 32 = dir_size file"
    using f(3) validate_metadata_ok(2) [OF f(4)]
    by (simp add: dir_size_def man_len_def met_len_def PKG_DIR_SIZE_def MAX_PKG_DIR_ENT_CNT_def
        PKG_DIR_ENT_LEN_def MAX_MANIFEST_SIZE_def MAX_METADATA_SIZE_def)
  show "met_len file < 2 ^ 32" using file_entry_bound(2) [of "file" "1"] by (simp add: file_parts)
  let ?m = "mod_off file" and ?sz = "snd (file_entry file 2)"
  have mod: "?m + ?sz \<le> length file" using ents(2) [of 2] by (simp add: file_parts)
  have v: "ipu_cpd_validate_moduledata isp file ?m ?sz = Inr ()" using f(5) by (simp add: file_parts)
  note g = validate_moduledata_ok [OF v]
  show "?m + 4 \<le> length file" using mod g(1) by (simp add: sizeof_module_data_hdr_def)
  show "dir_off file + sizeof_hdr + dir_cnt file * sizeof_ent \<le> length file"
    using validate_cpd_ok(2) [OF g(4)] mod g(2) by (simp add: file_parts)
qed

lemma parse_module_data_accepted:
  assumes "accepted isp file" "16 \<le> room"
  shows "ipu_cpd_parse_module_data room file (mod_off file) dma pd (met_off file) (met_len file) =
    parse_entries room file dma (met_off file) (met_len file) (dir_off file + sizeof_hdr) 0 (dir_cnt file)
      (pd(0 := PKG_DIR_HDR_MARK, 1 := of_nat ((dir_cnt file + 1) mod 2 ^ 32)))"
  using accepted_parts(5,6) [OF assms(1)] assms(2)
  by (simp add: ipu_cpd_parse_module_data_def read32_in ent_cnt_def put_word_in Let_def dir_off_def
      dir_cnt_def sizeof_hdr_def)

lemma dir_size_low: "16 \<le> dir_size file" "PKG_DIR_SIZE + met_len file \<le> dir_size file"
  by (simp_all add: dir_size_def PKG_DIR_SIZE_def MAX_PKG_DIR_ENT_CNT_def PKG_DIR_ENT_LEN_def)

lemma create_accepted:
  assumes "accepted isp file"
  shows "ipu_cpd_create_pkg_dir file dma (Some mem) =
    ebind (parse_entries (dir_size file) file (dma + of_nat (mod_off file)) (met_off file) (met_len file)
             (dir_off file + sizeof_hdr) 0 (dir_cnt file)
             (mem(0 := PKG_DIR_HDR_MARK, 1 := of_nat ((dir_cnt file + 1) mod 2 ^ 32))))
      (\<lambda>words. Inr \<lparr>pd_words = map words [0..<MAX_PKG_DIR_ENT_CNT * PKG_DIR_ENT_LEN],
         pd_manifest = take (snd (file_entry file 0)) (drop (fst (file_entry file 0)) file),
         pd_metadata = take (met_len file) (drop (met_off file) file)\<rparr>)"
proof -
  have room: "(PKG_DIR_SIZE + snd (file_entry file 0) + snd (file_entry file 1)) mod 2 ^ 32 = dir_size file"
    using accepted_parts(10) [OF assms] by (simp only: dir_size_def man_len_def met_len_def)
  have copies: "copy_bytes (dir_size file) PKG_DIR_SIZE file (fst (file_entry file 0)) (snd (file_entry file 0)) =
      Inr (take (snd (file_entry file 0)) (drop (fst (file_entry file 0)) file))"
    "copy_bytes (dir_size file) (PKG_DIR_SIZE + snd (file_entry file 0)) file (met_off file) (met_len file) =
      Inr (take (met_len file) (drop (met_off file) file))"
    using accepted_parts(9) [OF assms, of 0] accepted_parts(1) [OF assms]
    by (simp_all add: copy_bytes_def dir_size_def man_len_def)
  have reads: "ent_len file (ipu_cpd_get_manifest 0) = Inr (snd (file_entry file 0))"
    "ent_len file (ipu_cpd_get_metadata 0) = Inr (snd (file_entry file 1))"
    "ent_offset file (ipu_cpd_get_manifest 0) = Inr (fst (file_entry file 0))"
    "ent_offset file (ipu_cpd_get_metadata 0) = Inr (fst (file_entry file 1))"
    "ent_offset file (ipu_cpd_get_moduledata 0) = Inr (fst (file_entry file 2))"
    using accepted_parts(7,8) [OF assms]
    by (simp_all add: ipu_cpd_get_manifest_def ipu_cpd_get_metadata_def ipu_cpd_get_moduledata_def)
  show ?thesis
    using parse_module_data_accepted [OF assms dir_size_low(1), of "file" "dma + of_nat (mod_off file)" mem] copies
    unfolding ipu_cpd_create_pkg_dir_def reads ebind_simps Let_def room
    by (simp add: met_off_def met_len_def mod_off_def)
qed

lemma create_ok:
  assumes "accepted isp file" "ipu_cpd_create_pkg_dir file dma fresh = Inr pd"
  obtains words where
    "pd_words pd = map words [0..<32]"
    "words 1 = of_nat ((dir_cnt file + 1) mod 2 ^ 32)" "words 0 = PKG_DIR_HDR_MARK"
    "\<forall>k < dir_cnt file. entry_parsed file (dma + of_nat (mod_off file)) (met_off file) (met_len file)
       (dir_off file + sizeof_hdr + k * sizeof_ent) k words"
    "pd_manifest pd = take (snd (file_entry file 0)) (drop (fst (file_entry file 0)) file)"
    "pd_metadata pd = take (met_len file) (drop (met_off file) file)"
proof -
  obtain mem where m: "fresh = Some mem"
    using assms(2) accepted_parts(8) [OF assms(1), of 0] accepted_parts(8) [OF assms(1), of 1]
    by (cases fresh) (auto simp: ipu_cpd_create_pkg_dir_def ebind_ok)
  obtain words where w: "parse_entries (dir_size file) file (dma + of_nat (mod_off file)) (met_off file) (met_len file)
             (dir_off file + sizeof_hdr) 0 (dir_cnt file)
             (mem(0 := PKG_DIR_HDR_MARK, 1 := of_nat ((dir_cnt file + 1) mod 2 ^ 32))) = Inr words"
    and pd: "pd = \<lparr>pd_words = map words [0..<MAX_PKG_DIR_ENT_CNT * PKG_DIR_ENT_LEN],
         pd_manifest = take (snd (file_entry file 0)) (drop (fst (file_entry file 0)) file),
         pd_metadata = take (met_len file) (drop (met_off file) file)\<rparr>"
    using assms(2) unfolding m create_accepted [OF assms(1)] ebind_ok by blast
  have frame: "words j = (mem(0 := PKG_DIR_HDR_MARK, 1 := of_nat ((dir_cnt file + 1) mod 2 ^ 32))) j"
    if "j < 2" for j
    using parse_entries_ok [OF w] that by (simp add: PKG_DIR_ENT_LEN_def)
  show thesis
    by (rule that [of words])
      (use parse_entries_ok [OF w] frame [of 0] frame [of 1] pd in
        \<open>simp_all add: MAX_PKG_DIR_ENT_CNT_def PKG_DIR_ENT_LEN_def\<close>)
qed

text \<open>A small container, for the witnesses: three entries, one component and one directory entry.\<close>

definition le32 :: "nat \<Rightarrow> u8 list" where
  "le32 x = [of_nat x, of_nat (x div 256), of_nat (x div 65536), of_nat (x div 16777216)]"

definition ent_bytes :: "nat \<Rightarrow> nat \<Rightarrow> u8 list" where
  "ent_bytes off len = replicate 12 0 @ le32 off @ le32 len @ le32 0"

definition sample_file :: "u8 list" where
  "sample_file =
     le32 CPD_HDR_MARK @ le32 3 @ replicate 8 0 @
     ent_bytes 88 4 @ ent_bytes 92 96 @ ent_bytes 188 84 @
     [1, 2, 3, 4] @
     (le32 0x10 @ le32 28 @ le32 2 @ replicate 16 0) @ (le32 5 @ le32 64 @ le32 2 @ replicate 56 0) @
     (le32 44 @ le32 0 @ le32 IA_CSS_FW_PKG_RELEASE @ replicate 32 0) @
     (le32 CPD_HDR_MARK @ le32 1 @ replicate 8 0) @ ent_bytes 40 44"

definition sample_device :: ipu_device where
  "sample_device = \<lparr>dev_device = IPU4P_PCI_DEVICE_ID, dev_dmi_match = \<lambda>_ _. False\<rparr>"

lemma sample_length: "length sample_file = 272"
  by (simp add: sample_file_def ent_bytes_def le32_def)

lemma sample_words:
  "u32_at sample_file 0 = CPD_HDR_MARK" "u32_at sample_file 4 = 3"
  "u32_at sample_file 28 = 88" "u32_at sample_file 32 = 4"
  "u32_at sample_file 52 = 92" "u32_at sample_file 56 = 96"
  "u32_at sample_file 76 = 188" "u32_at sample_file 80 = 84"
  "u32_at sample_file 92 = 0x10" "u32_at sample_file 100 = 2"
  "u32_at sample_file 120 = 5" "u32_at sample_file 128 = 2"
  "u32_at sample_file 188 = 44" "u32_at sample_file 196 = IA_CSS_FW_PKG_RELEASE"
  "u32_at sample_file 236 = 1" "u32_at sample_file 260 = 40" "u32_at sample_file 264 = 44"
  by (simp_all add: u32_at_def sample_file_def ent_bytes_def le32_def nth_append CPD_HDR_MARK_def
      IA_CSS_FW_PKG_RELEASE_def)

lemmas sample_reads = sample_length sample_words read32_def

lemmas layout = sizeof_hdr_def sizeof_ent_def sizeof_cmpnt_def sizeof_extn_def sizeof_module_data_hdr_def
  ipu_cpd_get_manifest_def ipu_cpd_get_metadata_def ipu_cpd_get_moduledata_def ipu_cpd_get_entry_def

lemma sample_validate_cpd:
  "ipu_cpd_validate_cpd sample_file 0 272 272 = Inr ()"
  "ipu_cpd_validate_cpd sample_file 232 40 84 = Inr ()"
  by (simp_all add: ipu_cpd_validate_cpd_def ent_cnt_def ent_offset_def ent_len_def sample_reads layout
      numeral_3_eq_3)

lemma sample_valid: "ipu_cpd_validate_cpd_file sample_device sample_file = Inr ()"
  by (simp add: ipu_cpd_validate_cpd_file_def ipu_cpd_validate_metadata_def ipu_cpd_validate_moduledata_def
      sample_validate_cpd hdr_mark_def ent_offset_def ent_len_def sample_reads layout MAX_MANIFEST_SIZE_def
      MAX_METADATA_SIZE_def IPU_CPD_METADATA_EXTN_TYPE_IUNIT_def
      IPU_CPD_METADATA_IMAGE_TYPE_MAIN_FIRMWARE_def)

lemma sample_offs: "mod_off sample_file = 188" "met_off sample_file = 92"
  using sample_words by (simp_all add: mod_off_def met_off_def file_entry_def layout)

lemma sample_dir: "dir_off sample_file = 232" "dir_cnt sample_file = 1"
  using sample_words by (simp_all add: dir_off_def dir_cnt_def sample_offs)

lemmas sample_counts = sample_words(2) sample_offs sample_dir

lemma sample_accepted: "accepted sample_device sample_file"
  by (simp add: accepted_def sample_valid sample_counts)

lemma ucast_add_u32: "ucast (a + b :: u64) = (ucast a + ucast b :: u32)"
proof -
  have "take_bit 32 (take_bit 64 x + take_bit 64 y) = take_bit 32 (x + y)" for x y :: int
    using take_bit_add [of 32 "take_bit 64 x" "take_bit 64 y"] by (simp add: take_bit_add)
  then show ?thesis
    by transfer simp
qed

lemma of_nat_mod_u32: "(of_nat (x mod 2 ^ 32) :: u32) = of_nat x"
  by (simp add: word_of_nat_eq_iff take_bit_eq_mod)

lemma parse_entries_total:
  assumes "sizeof_extn \<le> sz" "sz < 2 ^ 32" "m + sz \<le> length file"
    and "PKG_DIR_SIZE + sz \<le> room" "ent + n * sizeof_ent \<le> length file"
    and "i + n \<le> 128" "i + n \<le> (sz - sizeof_extn) div sizeof_cmpnt"
    and "\<And>k. i \<le> k \<Longrightarrow> k < i + n \<Longrightarrow> u32_at file (m + sizeof_extn + k * sizeof_cmpnt) \<le> MAX_COMPONENT_ID"
    and "\<And>k. i \<le> k \<Longrightarrow> k < i + n \<Longrightarrow>
      u32_at file (m + sizeof_extn + k * sizeof_cmpnt + 8) \<le> MAX_COMPONENT_VERSION"
  shows "\<exists>words. parse_entries room file dma m sz ent i n pd = Inr words"
  using assms(5-)
proof (induction n arbitrary: ent i pd)
  case 0
  then show ?case by simp
next
  case (Suc n)
  have i: "unat (of_nat i :: u8) = i" using Suc.prems(2) by (simp add: unsigned_of_nat take_bit_nat_eq_self)
  have c: "ipu_cpd_metadata_get_cmpnt m sz (of_nat i) = Inr (m + sizeof_extn + i * sizeof_cmpnt)"
    unfolding ipu_cpd_metadata_get_cmpnt_def Let_def i cmpnt_count_nat [OF assms(1,2)] of_nat_le_iff
    using Suc.prems(2,3) by (simp add: MAX_COMPONENT_ID_def)
  have inb: "m + sizeof_extn + i * sizeof_cmpnt + 12 \<le> length file"
    using cmpnt_offset(2) [OF c assms(1,2)] assms(3) by (simp add: sizeof_cmpnt_def)
  have "\<exists>words. parse_entries room file dma m sz (ent + sizeof_ent) (i + 1) n pd' = Inr words" for pd'
    by (rule Suc.IH) (use Suc.prems in simp_all)
  moreover have "ent + 20 \<le> length file" using Suc.prems(1) by (simp add: sizeof_ent_def)
  moreover have "i \<le> (sz - sizeof_extn) div sizeof_cmpnt" using Suc.prems(3) by simp
  note entry_fits [OF this assms(1,4)]
  ultimately show ?case
    using inb Suc.prems(4) [of i] Suc.prems(5) [of i]
    by (simp add: Let_def ent_offset_def ent_len_def read32_in put_word_in c ipu_cpd_metadata_get_cmpnt_id_def
        ipu_cpd_metadata_cmpnt_version_def)
qed

section \<open>Properties\<close>

text \<open>
  C33: the validator stays inside the buffer whatever the bytes are, once the header states at
  least the three entries it looks at.
\<close>

theorem validate_cpd_file_in_bounds:
  assumes "3 \<le> u32_at file 4"
  shows "ipu_cpd_validate_cpd_file isp file \<noteq> Inl Out_Of_Bounds"
  using validate_file_safe [OF assms] by (simp add: safe_def)

theorem validate_cpd_file_in_bounds_witness:
  "ipu_cpd_validate_cpd_file sample_device sample_file \<noteq> Inl Out_Of_Bounds"
  by (rule validate_cpd_file_in_bounds) (simp add: sample_counts)

text \<open>
  nothing checks that the file has those entries.  A file of 16 to 35 bytes with the
  right mark and no entries passes the checks of the header, and the validator then reads
  the manifest entry's length behind the end of the buffer.
\<close>

theorem validate_reads_past_short_file:
  assumes "16 \<le> length file" "length file < 36"
    and "u32_at file 0 = CPD_HDR_MARK" "u32_at file 4 = 0"
  shows "ipu_cpd_validate_cpd_file isp file = Inl Out_Of_Bounds"
  using assms
  by (simp add: ipu_cpd_validate_cpd_file_def ipu_cpd_validate_cpd_def sizeof_hdr_def ent_cnt_def
      hdr_mark_def read32_in ent_len_def ipu_cpd_get_manifest_def ipu_cpd_get_entry_def)
    (simp add: read32_def)

theorem validate_reads_past_short_file_witness:
  "ipu_cpd_validate_cpd_file sample_device (le32 CPD_HDR_MARK @ replicate 12 0) = Inl Out_Of_Bounds"
  by (rule validate_reads_past_short_file) (simp_all add: u32_at_def le32_def nth_append CPD_HDR_MARK_def)

text \<open>
  an accepted file carries the release date the driver was built for, or the one known
  mismatch, and that only on a Surface Pro 7 with the IPU4P.
\<close>

theorem accepted_release:
  assumes "ipu_cpd_validate_cpd_file isp file = Inr ()"
  shows "u32_at file (u32_at file (ipu_cpd_get_moduledata 0 + 12) + 8) = 0x20181222 \<or>
    u32_at file (u32_at file (ipu_cpd_get_moduledata 0 + 12) + 8) = 0x20191030 \<and>
    dev_device isp = 0x8a19 \<and> dev_dmi_match isp DMI_SYS_VENDOR ''Microsoft Corporation'' \<and>
    dev_dmi_match isp DMI_PRODUCT_NAME ''Surface Pro 7''"
  using validate_moduledata_ok(3) [OF validate_file_ok(5) [OF assms]]
  by (auto simp: file_entry_def ipu_cpd_get_moduledata_def ipu_cpd_known_sp7_version_mismatch_def
      IA_CSS_FW_PKG_RELEASE_def SP7_IPU4P_FW_PKG_DATE_def IPU4P_PCI_DEVICE_ID_def)

theorem accepted_release_witness:
  "u32_at sample_file (u32_at sample_file (ipu_cpd_get_moduledata 0 + 12) + 8) = 0x20181222"
  using accepted_release [OF sample_valid] by (simp add: sample_device_def)




lemma sample_met_len: "met_len sample_file = 96"
  using sample_words by (simp add: met_len_def file_entry_def layout)

lemma sample_create:
  "\<exists>pd. ipu_cpd_create_pkg_dir sample_file 0x1000 (Some (\<lambda>_. 0)) = Inr pd"
proof -
  have "\<exists>words. parse_entries (dir_size sample_file) sample_file (0x1000 + of_nat 188) 92 96 248 0 1 pd = Inr words" for pd
    by (rule parse_entries_total)
      (simp_all add: layout sample_reads dir_size_def sample_met_len MAX_COMPONENT_ID_def MAX_COMPONENT_VERSION_def)
  then show ?thesis
    unfolding create_accepted [OF sample_accepted] sample_counts sample_met_len sizeof_hdr_def
    by simp (metis ebind_simps(2))
qed


text \<open>
  the directory of an accepted file can be built exactly when every directory entry has a
  component of its own in the metadata, of the 128 that an index can reach, with an id of
  seven bits and a version of sixteen.
\<close>

theorem create_pkg_dir_succeeds_iff:
  assumes "ipu_cpd_validate_cpd_file isp file = Inr ()" "3 \<le> u32_at file 4"
  shows "(\<exists>pd. ipu_cpd_create_pkg_dir file dma (Some mem) = Inr pd) \<longleftrightarrow>
    dir_cnt file \<le> 128 \<and> dir_cnt file \<le> (met_len file - 28) div 68 \<and>
    (\<forall>k < dir_cnt file. u32_at file (met_off file + 28 + k * 68) \<le> 127 \<and>
       u32_at file (met_off file + 28 + k * 68 + 8) \<le> 0xffff)"
  (is "?L \<longleftrightarrow> ?R")
proof -
  have acc: "accepted isp file" using assms by (simp add: accepted_def)
  note sz = accepted_parts(2,4) [OF acc]
  show ?thesis
  proof
    assume ?L
    then obtain pd where pd: "ipu_cpd_create_pkg_dir file dma (Some mem) = Inr pd" by blast
    obtain words where w: "\<forall>k < dir_cnt file. entry_parsed file (dma + of_nat (mod_off file))
          (met_off file) (met_len file) (dir_off file + sizeof_hdr + k * sizeof_ent) k words"
      using create_ok [OF acc pd] by metis
    note n = parsed_count [OF w accepted_parts(2,3) [OF acc]]
    have "u32_at file (met_off file + 28 + k * 68) \<le> 127 \<and>
       u32_at file (met_off file + 28 + k * 68 + 8) \<le> 0xffff" if k: "k < dir_cnt file" for k
    proof -
      have "unat (of_nat k :: u8) = k" using n(1) k by (simp add: unsigned_of_nat take_bit_nat_eq_self)
      then show ?thesis
        using w k cmpnt_offset(1) [OF _ sz, of "met_off file" "of_nat k"]
        by (fastforce simp: entry_parsed_def MAX_COMPONENT_ID_def MAX_COMPONENT_VERSION_def
            sizeof_extn_def sizeof_cmpnt_def)
    qed
    then show ?R using n by (simp add: sizeof_extn_def sizeof_cmpnt_def)
  next
    assume R: ?R
    have "\<exists>words. parse_entries (dir_size file) file (dma + of_nat (mod_off file)) (met_off file) (met_len file)
             (dir_off file + sizeof_hdr) 0 (dir_cnt file) pd = Inr words" for pd
    proof (rule parse_entries_total [OF sz accepted_parts(1) [OF acc] dir_size_low(2)])
      show "dir_off file + sizeof_hdr + dir_cnt file * sizeof_ent \<le> length file"
        by (rule accepted_parts(6) [OF acc])
    qed (use R in \<open>auto simp: sizeof_extn_def sizeof_cmpnt_def MAX_COMPONENT_ID_def MAX_COMPONENT_VERSION_def\<close>)
    then show ?L
      unfolding create_accepted [OF acc] by (metis ebind_simps(2))
  qed
qed

theorem create_pkg_dir_succeeds_iff_witness:
  "\<exists>pd. ipu_cpd_create_pkg_dir sample_file 0x2000 (Some (\<lambda>_. 7)) = Inr pd"
  using create_pkg_dir_succeeds_iff [OF sample_valid, where dma = "0x2000" and mem = "\<lambda>_. 7"]
  by (simp add: sample_counts sample_words sample_met_len)

text \<open>
  on an accepted file the entry point and the instruction-cache base of a program group
  are read from its component's record, and an index without a component is refused.
\<close>

theorem pg_lookup:
  assumes "ipu_cpd_validate_cpd_file isp file = Inr ()" "3 \<le> u32_at file 4"
  shows "ipu_cpd_get_pg_entry_point idx file =
      (if unat idx \<le> 127 \<and> unat idx < (met_len file - 28) div 68
       then Inr (u32_at file (met_off file + 28 + unat idx * 68 + 44)) else Inl Invalid) \<and>
    ipu_cpd_get_pg_icache_base idx file =
      (if unat idx \<le> 127 \<and> unat idx < (met_len file - 28) div 68
       then Inr (u32_at file (met_off file + 28 + unat idx * 68 + 48)) else Inl Invalid)"
proof -
  have acc: "accepted isp file" using assms by (simp add: accepted_def)
  note sz = accepted_parts(2,4) [OF acc]
  define ok where "ok \<longleftrightarrow> unat idx \<le> 127 \<and> unat idx < (met_len file - 28) div 68"
  have c: "ipu_cpd_metadata_get_cmpnt (met_off file) (met_len file) idx =
      (if ok then Inr (met_off file + 28 + unat idx * 68) else Inl Invalid)"
    unfolding ipu_cpd_metadata_get_cmpnt_def Let_def cmpnt_count_nat [OF sz] of_nat_le_iff
    by (auto simp: ok_def MAX_COMPONENT_ID_def sizeof_extn_def sizeof_cmpnt_def not_less)
  have inb: "met_off file + 28 + unat idx * 68 + 68 \<le> length file" if ok
    using cmpnt_offset(2) [OF _ sz, of "met_off file" idx] c that accepted_parts(1) [OF acc]
    by (simp add: sizeof_cmpnt_def)
  have "ent_offset file (ipu_cpd_get_metadata 0) = Inr (met_off file)"
    "ent_len file (ipu_cpd_get_metadata 0) = Inr (met_len file)"
    using accepted_parts(7,8) [OF acc, of 1] by (simp_all add: ipu_cpd_get_metadata_def met_off_def met_len_def)
  then show ?thesis
    using inb unfolding ok_def [symmetric]
    by (cases ok) (simp_all add: ipu_cpd_get_pg_entry_point_def ipu_cpd_get_pg_icache_base_def
        ipu_cpd_metadata_get_cmpnt_entry_point_def ipu_cpd_metadata_get_cmpnt_icache_base_offs_def c
        read32_in)
qed

theorem pg_lookup_witness: "ipu_cpd_get_pg_entry_point 1 sample_file = Inl Invalid"
  using pg_lookup [OF sample_valid, of 1] by (simp add: sample_counts sample_met_len)

end
