(* ===== verification/Mmu.thy ===== *)
theory Mmu
  imports Prelude
begin

text \<open>
  The page tables of the IPU's IOMMU, \<^verbatim>\<open>ipu-mmu.c\<close>: two levels of 1024 entries, each table
  a physical page, named by its frame number.  \<open>page_mem\<close> is the memory the driver has from
  \<^verbatim>\<open>__get_free_page\<close>: the frames it holds and their words.  The page allocator is the
  parameter \<open>gp\<close>, which answers with a frame or nothing.

  Addresses and sizes are natural numbers; where the code cuts to 32 bits, or an
  \<^verbatim>\<open>unsigned long\<close> can wrap, \<^verbatim>\<open>mod\<close> is written out.  A computation that is undefined in C,
  or a loop that does not end, is \<open>None\<close>.
\<close>

section \<open>Data\<close>

definition ISP_PAGE_SHIFT :: nat where "ISP_PAGE_SHIFT = 12"
definition ISP_PAGE_SIZE :: nat where "ISP_PAGE_SIZE = 2 ^ ISP_PAGE_SHIFT"
definition ISP_L1PT_SHIFT :: nat where "ISP_L1PT_SHIFT = 22"
definition ISP_L2PT_SHIFT :: nat where "ISP_L2PT_SHIFT = 12"
definition ISP_L1PT_PTES :: nat where "ISP_L1PT_PTES = 1024"
definition ISP_L2PT_PTES :: nat where "ISP_L2PT_PTES = 1024"
definition SZ_4K :: nat where "SZ_4K = 4096"

text \<open>\<^verbatim>\<open>-EINVAL\<close> as a \<^verbatim>\<open>size_t\<close>.\<close>

definition EINVAL_size :: nat where "EINVAL_size = 2 ^ 64 - 22"

record page_mem =
  pm_pages :: "u32 set"
  pm_words :: "u32 \<Rightarrow> u32 list"
  pm_bad_free :: bool

record mmu_info =
  mi_pgtbl :: u32
  mi_pgsize_bitmap :: nat
  mi_dummy_l2_tbl :: u32
  mi_dummy_page :: u32
  mi_iova_addr_trash :: nat

section \<open>Pages\<close>

type_synonym page_source = "u32 set \<Rightarrow> u32 option"

text \<open>An answer that is no free frame counts as no memory.\<close>

definition get_free_page :: "page_source \<Rightarrow> page_mem \<Rightarrow> (u32 \<times> page_mem) option" where
  "get_free_page gp mem =
     (case gp (pm_pages mem) of None \<Rightarrow> None
      | Some f \<Rightarrow> if f = 0 \<or> f \<in> pm_pages mem then None
                  else Some (f, mem\<lparr>pm_pages := insert f (pm_pages mem)\<rparr>))"

text \<open>\<open>pm_bad_free\<close> records that a frame was given back that the driver did not hold.\<close>

definition free_page :: "u32 \<Rightarrow> page_mem \<Rightarrow> page_mem" where
  "free_page f mem =
     (if f \<in> pm_pages mem then mem\<lparr>pm_pages := pm_pages mem - {f}\<rparr> else mem\<lparr>pm_bad_free := True\<rparr>)"

definition set_word :: "u32 \<Rightarrow> nat \<Rightarrow> u32 \<Rightarrow> page_mem \<Rightarrow> page_mem" where
  "set_word f i v mem = mem\<lparr>pm_words := (pm_words mem)(f := (pm_words mem f)[i := v])\<rparr>"

definition alloc_page_table :: "page_source \<Rightarrow> mmu_info \<Rightarrow> bool \<Rightarrow> page_mem \<Rightarrow> (u32 \<times> page_mem) option" where
  "alloc_page_table gp mi l1 mem =
     (case get_free_page gp mem of None \<Rightarrow> None
      | Some (f, mem) \<Rightarrow>
          Some (f, mem\<lparr>pm_words := (pm_words mem)
            (f := replicate ISP_L1PT_PTES (if l1 then mi_dummy_l2_tbl mi else mi_dummy_page mi))\<rparr>))"

section \<open>Mapping a page\<close>

definition round_down :: "nat \<Rightarrow> nat \<Rightarrow> nat" where
  "round_down x a = x - x mod a"

definition align_up :: "nat \<Rightarrow> nat \<Rightarrow> nat" where
  "align_up x a = round_down (x + a - 1) a"

definition l1_index :: "nat \<Rightarrow> nat" where
  "l1_index iova = drop_bit ISP_L1PT_SHIFT iova mod 2 ^ 32"

text \<open>The mask keeps bits 12 to 21.\<close>

definition l2_index :: "nat \<Rightarrow> nat" where
  "l2_index iova = drop_bit ISP_L2PT_SHIFT ((iova mod 2 ^ 32) AND 0x3ff000)"

definition l1_entry :: "mmu_info \<Rightarrow> page_mem \<Rightarrow> nat \<Rightarrow> u32" where
  "l1_entry mi mem i = pm_words mem (mi_pgtbl mi) ! i"

text \<open>
  \<open>env\<close> is what other processors do to the tables while \<^verbatim>\<open>l2_map\<close> allocates without the
  lock; the loser of that race frees its page.
\<close>

definition install_table ::
  "page_source \<Rightarrow> (page_mem \<Rightarrow> page_mem) \<Rightarrow> mmu_info \<Rightarrow> nat \<Rightarrow> page_mem \<Rightarrow> page_mem option" where
  "install_table gp env mi i mem =
     (if l1_entry mi mem i = mi_dummy_l2_tbl mi then
        case alloc_page_table gp mi False mem of None \<Rightarrow> None
        | Some (f, mem) \<Rightarrow>
            let mem = env mem in
            Some (if l1_entry mi mem i = mi_dummy_l2_tbl mi then set_word (mi_pgtbl mi) i f mem
                  else free_page f mem)
      else Some mem)"

definition l2_map ::
  "page_source \<Rightarrow> (page_mem \<Rightarrow> page_mem) \<Rightarrow> mmu_info \<Rightarrow> nat \<Rightarrow> nat \<Rightarrow> page_mem \<Rightarrow> unit result \<times> page_mem" where
  "l2_map gp env mi iova paddr mem =
     (let i = l1_index iova in
      case install_table gp env mi i mem of None \<Rightarrow> (Inl ENOMEM, mem)
      | Some mem \<Rightarrow>
          let l2_pt = l1_entry mi mem i; paddr = align_up paddr ISP_PAGE_SIZE; j = l2_index iova in
          if pm_words mem l2_pt ! j \<noteq> mi_dummy_page mi then (Inl EBUSY, mem)
          else (Inr (), set_word l2_pt j (of_nat (drop_bit ISP_PAGE_SHIFT paddr)) mem))"

definition ipu_mmu_map_page ::
  "page_source \<Rightarrow> (page_mem \<Rightarrow> page_mem) \<Rightarrow> mmu_info \<Rightarrow> nat \<Rightarrow> nat \<Rightarrow> page_mem \<Rightarrow> unit result \<times> page_mem" where
  "ipu_mmu_map_page gp env mi iova paddr mem =
     l2_map gp env mi (round_down iova ISP_PAGE_SIZE mod 2 ^ 32) paddr mem"

section \<open>Unmapping a page\<close>

text \<open>The loop over the entries of one table from \<open>j\<close> on, and how many it cleared.\<close>

function unmap_entries :: "mmu_info \<Rightarrow> u32 \<Rightarrow> nat \<Rightarrow> nat \<Rightarrow> nat \<Rightarrow> page_mem \<Rightarrow> nat \<times> page_mem" where
  "unmap_entries mi l2_pt base limit j mem =
     (if base + push_bit ISP_PAGE_SHIFT j < limit \<and> j < ISP_L2PT_PTES
      then case unmap_entries mi l2_pt base limit (j + 1) (set_word l2_pt j (mi_dummy_page mi) mem)
           of (n, mem) \<Rightarrow> (n + 1, mem)
      else (0, mem))"
  by pat_completeness auto
termination
  by (relation "measure (\<lambda>(mi, l2, base, limit, j, mem). ISP_L2PT_PTES - j)") auto

declare unmap_entries.simps [simp del]

text \<open>The base of the 4 MB region: the address under \<^verbatim>\<open>ISP_L1PT_MASK\<close>.\<close>

definition l2_unmap :: "mmu_info \<Rightarrow> nat \<Rightarrow> nat \<Rightarrow> page_mem \<Rightarrow> nat \<times> page_mem" where
  "l2_unmap mi iova sz mem =
     (let l2_pt = l1_entry mi mem (l1_index iova); iova_start = iova mod 2 ^ 32 in
      if l2_pt = mi_dummy_l2_tbl mi then (EINVAL_size, mem)
      else case unmap_entries mi l2_pt (iova_start AND 0xffc00000) (iova_start + sz)
                  (l2_index iova) mem
           of (n, mem) \<Rightarrow> (push_bit ISP_PAGE_SHIFT n, mem))"

section \<open>Page sizes\<close>

text \<open>The first and the last set bit; both are undefined for 0.\<close>

fun ffs_bit :: "nat \<Rightarrow> nat" where
  "ffs_bit n = (if n = 0 \<or> odd n then 0 else Suc (ffs_bit (n div 2)))"

fun fls_bit :: "nat \<Rightarrow> nat" where
  "fls_bit n = (if n \<le> 1 then 0 else Suc (fls_bit (n div 2)))"

declare ffs_bit.simps [simp del] fls_bit.simps [simp del]

definition ipu_mmu_pgsize :: "nat \<Rightarrow> nat \<Rightarrow> nat \<Rightarrow> nat option" where
  "ipu_mmu_pgsize pgsize_bitmap addr_merge sz =
     (let pgsize_idx = fls_bit sz;
          pgsize_idx = (if addr_merge \<noteq> 0 then min pgsize_idx (ffs_bit addr_merge) else pgsize_idx);
          pgsize = (2 ^ (pgsize_idx + 1) - 1) AND pgsize_bitmap
      in if pgsize = 0 then None else Some (2 ^ fls_bit pgsize))"

definition min_pagesz :: "mmu_info \<Rightarrow> nat" where
  "min_pagesz mi = 2 ^ ffs_bit (mi_pgsize_bitmap mi)"

section \<open>Unmapping a range\<close>

partial_function (option) unmap_loop ::
  "mmu_info \<Rightarrow> nat \<Rightarrow> nat \<Rightarrow> nat \<Rightarrow> page_mem \<Rightarrow> (nat \<times> page_mem) option" where
  "unmap_loop mi iova sz unmapped mem =
     (if unmapped < sz then
        Option.bind (ipu_mmu_pgsize (mi_pgsize_bitmap mi) iova (sz - unmapped)) (\<lambda>pgsize.
          let r = l2_unmap mi iova pgsize mem; unmapped_page = fst r; mem = snd r in
          if unmapped_page = 0 then Some (unmapped, mem)
          else unmap_loop mi ((iova + unmapped_page) mod 2 ^ 64) sz
                 ((unmapped + unmapped_page) mod 2 ^ 64) mem)
      else Some (unmapped, mem))"

definition ipu_mmu_unmap :: "mmu_info \<Rightarrow> nat \<Rightarrow> nat \<Rightarrow> page_mem \<Rightarrow> (nat \<times> page_mem) option" where
  "ipu_mmu_unmap mi iova sz mem =
     (if (iova OR sz) mod min_pagesz mi \<noteq> 0 then Some (EINVAL_size, mem)
      else unmap_loop mi iova sz 0 mem)"

section \<open>Mapping a range\<close>

text \<open>The loop: its result, what is left of the size, and the memory.\<close>

lemma fls_pow_le: "0 < n \<Longrightarrow> 2 ^ fls_bit n \<le> n"
  by (induction n rule: fls_bit.induct) (subst fls_bit.simps, auto)

lemma pgsize_positive: "ipu_mmu_pgsize b a s = Some p \<Longrightarrow> 0 < p"
  by (auto simp: ipu_mmu_pgsize_def Let_def split: if_splits)

function map_loop ::
  "page_source \<Rightarrow> (page_mem \<Rightarrow> page_mem) \<Rightarrow> mmu_info \<Rightarrow> nat \<Rightarrow> nat \<Rightarrow> nat \<Rightarrow> page_mem
    \<Rightarrow> (unit result \<times> nat \<times> page_mem) option" where
  "map_loop gp env mi iova paddr sz mem =
     (if sz = 0 then Some (Inr (), 0, mem)
      else case ipu_mmu_pgsize (mi_pgsize_bitmap mi) (iova OR paddr) sz of None \<Rightarrow> None
        | Some pgsize \<Rightarrow>
            (case ipu_mmu_map_page gp env mi iova paddr mem of
               (Inl e, mem) \<Rightarrow> Some (Inl e, sz, mem)
             | (Inr _, mem) \<Rightarrow>
                 map_loop gp env mi ((iova + pgsize) mod 2 ^ 64) (paddr + pgsize) (sz - pgsize) mem))"
  by pat_completeness auto
termination
  by (relation "measure (\<lambda>(gp, env, mi, iova, paddr, sz, mem). sz)")
    (auto dest: pgsize_positive)

declare map_loop.simps [simp del]

definition ipu_mmu_map ::
  "page_source \<Rightarrow> (page_mem \<Rightarrow> page_mem) \<Rightarrow> mmu_info \<Rightarrow> nat \<Rightarrow> nat \<Rightarrow> nat \<Rightarrow> page_mem
    \<Rightarrow> (unit result \<times> page_mem) option" where
  "ipu_mmu_map gp env mi iova paddr sz mem =
     (if mi_pgsize_bitmap mi = 0 then Some (Inl ENODEV, mem)
      else if (iova OR paddr OR sz) mod min_pagesz mi \<noteq> 0 then Some (Inl EINVAL, mem)
      else case map_loop gp env mi iova paddr sz mem of None \<Rightarrow> None
        | Some (Inr _, _, mem) \<Rightarrow> Some (Inr (), mem)
        | Some (Inl e, left, mem) \<Rightarrow>
            (case ipu_mmu_unmap mi iova (sz - left) mem of None \<Rightarrow> None
             | Some (_, mem) \<Rightarrow> Some (Inl e, mem)))"

definition ipu_mmu_iova_to_phys :: "mmu_info \<Rightarrow> nat \<Rightarrow> page_mem \<Rightarrow> nat" where
  "ipu_mmu_iova_to_phys mi iova mem =
     push_bit ISP_PAGE_SHIFT
       (unat (pm_words mem (l1_entry mi mem (drop_bit ISP_L1PT_SHIFT iova)) ! l2_index iova))"

section \<open>Creating and destroying\<close>

text \<open>
  \<open>zeroed\<close>: did \<^verbatim>\<open>kzalloc\<close> succeed.  The error path frees both dummies, whichever of them
  exist.
\<close>

definition ipu_mmu_alloc :: "page_source \<Rightarrow> bool \<Rightarrow> page_mem \<Rightarrow> mmu_info option \<times> page_mem" where
  "ipu_mmu_alloc gp zeroed mem =
     (if \<not> zeroed then (None, mem)
      else let mi = \<lparr>mi_pgtbl = 0, mi_pgsize_bitmap = SZ_4K, mi_dummy_l2_tbl = 0, mi_dummy_page = 0,
                     mi_iova_addr_trash = 0\<rparr> in
        case get_free_page gp mem of None \<Rightarrow> (None, mem)
        | Some (f, mem) \<Rightarrow>
          let mi = mi\<lparr>mi_dummy_page := f\<rparr> in
          case alloc_page_table gp mi False mem of
            None \<Rightarrow> (None, free_page (mi_dummy_l2_tbl mi) (free_page (mi_dummy_page mi) mem))
          | Some (f, mem) \<Rightarrow>
            let mi = mi\<lparr>mi_dummy_l2_tbl := f\<rparr> in
            case alloc_page_table gp mi True mem of
              None \<Rightarrow> (None, free_page (mi_dummy_l2_tbl mi) (free_page (mi_dummy_page mi) mem))
            | Some (f, mem) \<Rightarrow> (Some (mi\<lparr>mi_pgtbl := f\<rparr>), mem))"

text \<open>\<open>find_iova\<close> is the iova library's: the bounds of the range that holds a page.\<close>

definition release_trash ::
  "(nat \<Rightarrow> nat \<times> nat) \<Rightarrow> mmu_info \<Rightarrow> page_mem \<Rightarrow> page_mem option" where
  "release_trash find_iova mi mem =
     (if mi_iova_addr_trash mi = 0 then Some mem
      else case find_iova (drop_bit ISP_PAGE_SHIFT (mi_iova_addr_trash mi)) of (lo, hi) \<Rightarrow>
        map_option snd
          (ipu_mmu_unmap mi (push_bit ISP_PAGE_SHIFT lo) (push_bit ISP_PAGE_SHIFT (hi - lo + 1)) mem))"

definition free_tables :: "mmu_info \<Rightarrow> page_mem \<Rightarrow> page_mem" where
  "free_tables mi mem =
     fold (\<lambda>i mem. if l1_entry mi mem i \<noteq> mi_dummy_l2_tbl mi then free_page (l1_entry mi mem i) mem else mem)
       [0..<ISP_L1PT_PTES] mem"

definition ipu_mmu_destroy :: "(nat \<Rightarrow> nat \<times> nat) \<Rightarrow> mmu_info \<Rightarrow> page_mem \<Rightarrow> page_mem option" where
  "ipu_mmu_destroy find_iova mi mem =
     map_option (\<lambda>mem. free_page (mi_pgtbl mi) (free_page (mi_dummy_l2_tbl mi)
         (free_page (mi_dummy_page mi) (free_tables mi mem))))
       (release_trash find_iova mi mem)"

end
