(* ===== verification/MmuTables.thy ===== *)
theory MmuTables
  imports Mmu
begin

text \<open>
  The page tables as a map from IOVA pages to frames, and what the operations of theory Mmu
  do to it: the invariant \<open>wf_mmu\<close>, what mapping and unmapping a page and a range change, the
  life of a domain, and its properties.
\<close>

section \<open>Indices and page sizes\<close>

lemma and_1023: "(p::nat) AND 1023 = p mod 1024"
proof -
  have "p AND mask 10 = take_bit 10 p" by (simp only: take_bit_eq_mask)
  then show ?thesis by (simp add: mask_eq_exp_minus_1 take_bit_eq_mod)
qed

lemma l1_index_page: "(p::nat) < 2 ^ 20 \<Longrightarrow> l1_index (4096 * p) = p div 1024"
proof -
  assume p: "p < 2 ^ 20"
  have "(4096 * p) div (4096 * 1024) = p div 1024" by (rule div_mult_mult1) simp
  then show ?thesis using p by (simp add: l1_index_def ISP_L1PT_SHIFT_def drop_bit_eq_div)
qed

lemma l2_index_page: "(p::nat) < 2 ^ 20 \<Longrightarrow> l2_index (4096 * p) = p mod 1024"
proof -
  assume p: "p < 2 ^ 20"
  have "drop_bit 12 ((4096 * p) AND 0x3ff000) = drop_bit 12 (4096 * p) AND drop_bit 12 (0x3ff000 :: nat)"
    by (rule drop_bit_and)
  also have "drop_bit 12 (0x3ff000 :: nat) = 1023" by (simp add: drop_bit_eq_div)
  also have "drop_bit 12 (4096 * p) = p" by (simp add: drop_bit_eq_div)
  finally show ?thesis using p by (simp add: l2_index_def ISP_L2PT_SHIFT_def and_1023)
qed

lemma bit_less_pow: "bit (x::nat) n \<Longrightarrow> x < 2 ^ m \<Longrightarrow> n < m"
proof (rule ccontr)
  assume a: "bit x n" "x < 2 ^ m" "\<not> n < m"
  then have "(2::nat) ^ m \<le> 2 ^ n" by (intro power_increasing) auto
  then have "x < 2 ^ n" using a(2) by linarith
  then show False using a(1) by (simp add: bit_nat_def div_less)
qed

lemma l1_base: "(p::nat) < 2 ^ 20 \<Longrightarrow> (4096 * p) AND 0xffc00000 = 4194304 * (p div 1024)"
proof -
  assume p: "p < 2 ^ 20"
  have x: "4096 * p < 2 ^ 32" using p by simp
  have "(4096 * p) AND push_bit 22 (mask 10) = push_bit 22 (drop_bit 22 (4096 * p))"
    by (rule bit_eqI) (auto simp: bit_and_iff bit_push_bit_iff bit_mask_iff bit_drop_bit_eq dest: bit_less_pow [OF _ x])
  moreover have "push_bit 22 (mask 10) = (0xffc00000::nat)"
    by (simp add: mask_eq_exp_minus_1 push_bit_eq_mult)
  moreover have "drop_bit 22 (4096 * p) = p div 1024"
    using div_mult_mult1 [of 4096 p 1024] by (simp add: drop_bit_eq_div)
  ultimately show ?thesis by (simp add: push_bit_eq_mult)
qed

lemma fls_ge: "2 ^ k \<le> n \<Longrightarrow> k \<le> fls_bit n"
proof (induction k arbitrary: n)
  case (Suc k)
  then have "2 ^ k \<le> n div 2" by simp
  then have "k \<le> fls_bit (n div 2)" by (rule Suc.IH)
  moreover have "(2::nat) \<le> 2 ^ Suc k" by simp
  then have "\<not> n \<le> 1" using Suc.prems by linarith
  ultimately show ?case by (subst fls_bit.simps) simp
qed simp

lemma ffs_ge: "2 ^ k dvd n \<Longrightarrow> n \<noteq> 0 \<Longrightarrow> k \<le> ffs_bit n"
proof (induction k arbitrary: n)
  case (Suc k)
  then obtain m where "n = 2 * (2 ^ k * m)" by (auto elim!: dvdE simp: mult.assoc)
  moreover from this Suc.prems have "k \<le> ffs_bit (2 ^ k * m)" by (intro Suc.IH) auto
  ultimately show ?case using Suc.prems(2) by (subst ffs_bit.simps) auto
qed simp

lemma ffs_4096: "ffs_bit 4096 = 12" and fls_4096: "fls_bit 4096 = 12"
  by (simp_all add: ffs_bit.simps fls_bit.simps)

lemma mask_and_exp: "k \<le> i \<Longrightarrow> (mask (i + 1) :: nat) AND 2 ^ k = 2 ^ k"
  by (rule bit_eqI) (auto simp: bit_and_iff bit_mask_iff bit_exp_iff)

lemma pgsize_4096:
  assumes "4096 dvd a" "4096 \<le> s"
  shows "ipu_mmu_pgsize 4096 a s = Some 4096"
proof -
  have s: "12 \<le> fls_bit s" by (rule fls_ge) (use assms(2) in simp)
  have a: "12 \<le> ffs_bit a" if "a \<noteq> 0" by (rule ffs_ge) (use assms(1) that in simp_all)
  have "(2 ^ (i + 1) - 1) AND 4096 = (4096::nat)" if "12 \<le> i" for i
    using mask_and_exp [OF that] by (simp add: mask_eq_exp_minus_1)
  then show ?thesis
    using s a by (simp add: ipu_mmu_pgsize_def Let_def fls_4096)
qed

lemma or_aligned: "(a OR b) mod 4096 = 0 \<longleftrightarrow> a mod 4096 = 0 \<and> b mod 4096 = (0::nat)"
proof -
  have "take_bit 12 (a OR b) = 0 \<longleftrightarrow> take_bit 12 a = 0 \<and> take_bit 12 b = 0"
    by (auto simp: bit_eq_iff bit_take_bit_iff bit_or_iff)
  then show ?thesis by (simp add: take_bit_eq_mod)
qed

section \<open>The tables as a map\<close>

text \<open>
  What the tables say of an IOVA page: the frame it is mapped to.  \<open>installed\<close>: its region
  has a table of its own.
\<close>

definition installed :: "mmu_info \<Rightarrow> page_mem \<Rightarrow> nat \<Rightarrow> bool" where
  "installed mi mem p \<longleftrightarrow> l1_entry mi mem (p div 1024) \<noteq> mi_dummy_l2_tbl mi"

definition entry :: "mmu_info \<Rightarrow> page_mem \<Rightarrow> nat \<Rightarrow> u32" where
  "entry mi mem p = pm_words mem (l1_entry mi mem (p div 1024)) ! (p mod 1024)"

definition mapping :: "mmu_info \<Rightarrow> page_mem \<Rightarrow> nat \<Rightarrow> u32 option" where
  "mapping mi mem p =
     (if p < 2 ^ 20 \<and> installed mi mem p \<and> entry mi mem p \<noteq> mi_dummy_page mi
      then Some (entry mi mem p) else None)"

text \<open>The frames of a domain.\<close>

definition tables :: "mmu_info \<Rightarrow> page_mem \<Rightarrow> u32 set" where
  "tables mi mem = {l1_entry mi mem i | i. i < 1024 \<and> l1_entry mi mem i \<noteq> mi_dummy_l2_tbl mi}"

definition fixed :: "mmu_info \<Rightarrow> u32 set" where
  "fixed mi = {mi_pgtbl mi, mi_dummy_l2_tbl mi, mi_dummy_page mi}"

text \<open>
  Well-formed tables: three fixed pages and the tables of the regions, all different, and
  \<open>ext\<close> the other frames that are held.
\<close>

definition wf_mmu :: "u32 set \<Rightarrow> mmu_info \<Rightarrow> page_mem \<Rightarrow> bool" where
  "wf_mmu ext mi mem \<longleftrightarrow>
     mi_pgsize_bitmap mi = 4096 \<and>
     mi_pgtbl mi \<noteq> mi_dummy_l2_tbl mi \<and> mi_pgtbl mi \<noteq> mi_dummy_page mi \<and>
     mi_dummy_l2_tbl mi \<noteq> mi_dummy_page mi \<and>
     length (pm_words mem (mi_pgtbl mi)) = 1024 \<and>
     pm_words mem (mi_dummy_l2_tbl mi) = replicate 1024 (mi_dummy_page mi) \<and>
     (\<forall>f \<in> tables mi mem. length (pm_words mem f) = 1024) \<and>
     inj_on (l1_entry mi mem) {i. i < 1024 \<and> l1_entry mi mem i \<noteq> mi_dummy_l2_tbl mi} \<and>
     tables mi mem \<inter> fixed mi = {} \<and>
     ext \<inter> (tables mi mem \<union> fixed mi) = {} \<and> pm_pages mem = ext \<union> tables mi mem \<union> fixed mi"

lemma wfD:
  assumes "wf_mmu ext mi mem"
  shows "mi_pgsize_bitmap mi = 4096" "mi_pgtbl mi \<noteq> mi_dummy_l2_tbl mi"
    "mi_pgtbl mi \<noteq> mi_dummy_page mi" "mi_dummy_l2_tbl mi \<noteq> mi_dummy_page mi"
    "length (pm_words mem (mi_pgtbl mi)) = 1024"
    "pm_words mem (mi_dummy_l2_tbl mi) = replicate 1024 (mi_dummy_page mi)"
    "f \<in> tables mi mem \<Longrightarrow> length (pm_words mem f) = 1024"
    "inj_on (l1_entry mi mem) {i. i < 1024 \<and> l1_entry mi mem i \<noteq> mi_dummy_l2_tbl mi}"
    "tables mi mem \<inter> fixed mi = {}" "ext \<inter> (tables mi mem \<union> fixed mi) = {}"
    "pm_pages mem = ext \<union> tables mi mem \<union> fixed mi"
  using assms by (simp_all add: wf_mmu_def)

lemma table_of:
  assumes "wf_mmu ext mi mem" "i < 1024" "l1_entry mi mem i \<noteq> mi_dummy_l2_tbl mi"
  shows "l1_entry mi mem i \<in> tables mi mem" "l1_entry mi mem i \<noteq> mi_pgtbl mi"
    "l1_entry mi mem i \<noteq> mi_dummy_page mi" "length (pm_words mem (l1_entry mi mem i)) = 1024"
proof -
  show t: "l1_entry mi mem i \<in> tables mi mem" using assms(2,3) by (auto simp: tables_def)
  show "l1_entry mi mem i \<noteq> mi_pgtbl mi" "l1_entry mi mem i \<noteq> mi_dummy_page mi"
    using wfD(9) [OF assms(1)] t by (auto simp: fixed_def)
  show "length (pm_words mem (l1_entry mi mem i)) = 1024" by (rule wfD(7) [OF assms(1) t])
qed

lemma table_inj:
  assumes "wf_mmu ext mi mem" "i < 1024" "k < 1024" "l1_entry mi mem i \<noteq> mi_dummy_l2_tbl mi"
    "l1_entry mi mem k = l1_entry mi mem i"
  shows "k = i"
  using wfD(8) [OF assms(1)] assms(2-5) by (auto dest: inj_onD)

section \<open>One entry\<close>

lemma set_word_frame [simp]:
  "pm_pages (set_word f i v mem) = pm_pages mem" "pm_bad_free (set_word f i v mem) = pm_bad_free mem"
  "pm_words (set_word f i v mem) g = (if g = f then (pm_words mem f)[i := v] else pm_words mem g)"
  by (simp_all add: set_word_def)

lemma set_entry:
  assumes "wf_mmu ext mi mem" "i < 1024" "j < 1024" "l1_entry mi mem i \<noteq> mi_dummy_l2_tbl mi"
    and "mem' = set_word (l1_entry mi mem i) j v mem"
  shows "wf_mmu ext mi mem'" "l1_entry mi mem' = l1_entry mi mem" "installed mi mem' = installed mi mem"
    "mapping mi mem' =
       (mapping mi mem)(1024 * i + j := if v = mi_dummy_page mi then None else Some v)"
    "pm_bad_free mem' = pm_bad_free mem"
proof -
  note t = table_of [OF assms(1,2,4)]
  show l1: "l1_entry mi mem' = l1_entry mi mem" using t(2) by (auto simp: assms(5) l1_entry_def)
  have words: "pm_words mem' g = (if g = l1_entry mi mem i then (pm_words mem (l1_entry mi mem i))[j := v]
      else pm_words mem g)" for g by (simp add: assms(5))
  have tabs: "tables mi mem' = tables mi mem" using l1 by (simp add: tables_def)
  show inst: "installed mi mem' = installed mi mem" using l1 by (auto simp: installed_def)
  show "pm_bad_free mem' = pm_bad_free mem" by (simp add: assms(5))
  show "wf_mmu ext mi mem'"
    using assms(1,4) t(2) wfD(7) [OF assms(1)] unfolding wf_mmu_def tabs l1 by (auto simp: assms(5))
  show "mapping mi mem' =
      (mapping mi mem)(1024 * i + j := if v = mi_dummy_page mi then None else Some v)"
  proof
    fix q
    have entry: "entry mi mem' q = (if l1_entry mi mem (q div 1024) = l1_entry mi mem i
        then (pm_words mem (l1_entry mi mem i))[j := v] ! (q mod 1024) else entry mi mem q)"
      by (simp add: entry_def l1 words)
    show "mapping mi mem' q =
        ((mapping mi mem)(1024 * i + j := if v = mi_dummy_page mi then None else Some v)) q"
    proof (cases "q = 1024 * i + j")
      case True
      then have q: "q div 1024 = i" "q mod 1024 = j" using assms(3) by simp_all
      then have "q < 2 ^ 20" using assms(2) by (simp add: div_less_iff_less_mult [symmetric])
      then show ?thesis
        using True q assms(3,4) t(4) entry inst by (simp add: mapping_def installed_def)
    next
      case False
      then have "q div 1024 \<noteq> i \<or> q mod 1024 \<noteq> j" using mult_div_mod_eq [of 1024 q] by auto
      then have "entry mi mem' q = entry mi mem q" if "q < 2 ^ 20"
        using entry table_inj [OF assms(1,2) _ assms(4), of "q div 1024"]
          less_mult_imp_div_less [of q 1024 1024] that
        by (auto simp: entry_def nth_list_update)
      then show ?thesis using False inst by (auto simp: mapping_def)
    qed
  qed
qed

section \<open>A table for a region\<close>

lemma get_free_page_some:
  assumes "get_free_page gp mem = Some (f, mem')"
  shows "f \<noteq> 0" "f \<notin> pm_pages mem" "mem' = mem\<lparr>pm_pages := insert f (pm_pages mem)\<rparr>"
  using assms by (auto simp: get_free_page_def split: option.splits if_splits)

lemma alloc_page_table_some:
  assumes "alloc_page_table gp mi l1 mem = Some (f, mem')"
  shows "f \<noteq> 0" "f \<notin> pm_pages mem"
    "mem' = mem\<lparr>pm_pages := insert f (pm_pages mem), pm_words := (pm_words mem)
       (f := replicate 1024 (if l1 then mi_dummy_l2_tbl mi else mi_dummy_page mi))\<rparr>"
  using assms get_free_page_some [of gp mem]
  by (auto simp: alloc_page_table_def ISP_L1PT_PTES_def split: option.splits)

lemma install_word:
  assumes "wf_mmu ext mi mem" "i < 1024" "l1_entry mi mem i = mi_dummy_l2_tbl mi"
    and "f \<notin> pm_pages mem"
    and "m1 = mem\<lparr>pm_pages := insert f (pm_pages mem),
           pm_words := (pm_words mem)(f := replicate 1024 (mi_dummy_page mi))\<rparr>"
    and "mem' = set_word (mi_pgtbl mi) i f m1"
  shows "l1_entry mi mem' k = (if k = i then f else l1_entry mi mem k)"
    "tables mi mem' = insert f (tables mi mem)"
    "g \<noteq> mi_pgtbl mi \<Longrightarrow>
       pm_words mem' g = (if g = f then replicate 1024 (mi_dummy_page mi) else pm_words mem g)"
    "wf_mmu ext mi mem'" "mapping mi mem' = mapping mi mem"
    "installed mi mem' p \<longleftrightarrow> installed mi mem p \<or> p div 1024 = i"
    "pm_bad_free mem' = pm_bad_free mem"
proof -
  note wf = wfD [OF assms(1)]
  have fresh: "f \<notin> ext" "f \<notin> tables mi mem" "f \<noteq> mi_pgtbl mi" "f \<noteq> mi_dummy_l2_tbl mi" "f \<noteq> mi_dummy_page mi"
    using assms(4) wf(11) by (auto simp: fixed_def)
  show l1: "l1_entry mi mem' k = (if k = i then f else l1_entry mi mem k)" for k
    using fresh(3) assms(2) wf(5) by (simp add: assms(5,6) l1_entry_def nth_list_update_cases)
  show tabs: "tables mi mem' = insert f (tables mi mem)"
    using assms(2,3) fresh(4) by (auto simp: tables_def l1)
  show words: "g \<noteq> mi_pgtbl mi \<Longrightarrow>
       pm_words mem' g = (if g = f then replicate 1024 (mi_dummy_page mi) else pm_words mem g)" for g
    using fresh(3) by (simp add: assms(5,6))
  show "pm_bad_free mem' = pm_bad_free mem" by (simp add: assms(5,6))
  have inj: "inj_on (l1_entry mi mem') {k. k < 1024 \<and> l1_entry mi mem' k \<noteq> mi_dummy_l2_tbl mi}"
  proof (rule inj_onI)
    fix a b
    assume a: "a \<in> {k. k < 1024 \<and> l1_entry mi mem' k \<noteq> mi_dummy_l2_tbl mi}"
      and b: "b \<in> {k. k < 1024 \<and> l1_entry mi mem' k \<noteq> mi_dummy_l2_tbl mi}"
      and eq: "l1_entry mi mem' a = l1_entry mi mem' b"
    have "l1_entry mi mem k \<noteq> f" if "k < 1024" for k
      using fresh(2,4) that by (auto simp: tables_def)
    then show "a = b"
      using a b eq table_inj [OF assms(1), of b a] by (auto simp: l1 split: if_splits)
  qed
  show wf': "wf_mmu ext mi mem'"
    unfolding wf_mmu_def tabs
  proof (intro conjI ballI)
    show "length (pm_words mem' (mi_pgtbl mi)) = 1024"
      using fresh(3) wf(5) by (simp add: assms(5,6))
    show "pm_words mem' (mi_dummy_l2_tbl mi) = replicate 1024 (mi_dummy_page mi)"
      using words [of "mi_dummy_l2_tbl mi"] wf(2,6) by simp
    show "length (pm_words mem' g) = 1024" if "g \<in> insert f (tables mi mem)" for g
    proof -
      have "g \<noteq> mi_pgtbl mi" using that wf(9) fresh(3) by (auto simp: fixed_def)
      then show ?thesis using that words [of g] wf(7) [of g] by (cases "g = f") simp_all
    qed
    show "pm_pages mem' = ext \<union> insert f (tables mi mem) \<union> fixed mi"
      using wf(11) by (simp add: assms(5,6))
  qed (use wf fresh inj in \<open>auto simp: fixed_def\<close>)
  show inst: "installed mi mem' p \<longleftrightarrow> installed mi mem p \<or> p div 1024 = i" for p
    using fresh(4) assms(3) by (auto simp: installed_def l1)
  show "mapping mi mem' = mapping mi mem"
  proof
    fix q
    show "mapping mi mem' q = mapping mi mem q"
    proof (cases "q < 2 ^ 20")
      case True
      then have q: "q div 1024 < 1024" using less_mult_imp_div_less [of q 1024 1024] by simp
      show ?thesis
      proof (cases "q div 1024 = i")
        case True
        then have "entry mi mem' q = mi_dummy_page mi" using words [of f] fresh(3) by (simp add: entry_def l1)
        then show ?thesis using True assms(3) by (simp add: mapping_def installed_def)
      next
        case False
        have "entry mi mem' q = entry mi mem q" if "installed mi mem q"
          using False that table_of(1,2) [OF assms(1) q] fresh(2) words [of "l1_entry mi mem (q div 1024)"]
          by (auto simp: entry_def l1 installed_def)
        then show ?thesis using False inst [of q] by (auto simp: mapping_def)
      qed
    qed (simp add: mapping_def)
  qed
qed

lemma install_table_keeps:
  assumes "wf_mmu ext mi mem" "i < 1024" "install_table gp (\<lambda>m. m) mi i mem = Some mem'"
  shows "wf_mmu ext mi mem'" "mapping mi mem' = mapping mi mem" "l1_entry mi mem' i \<noteq> mi_dummy_l2_tbl mi"
    "installed mi mem p \<Longrightarrow> installed mi mem' p" "pm_bad_free mem' = pm_bad_free mem"
proof -
  have "wf_mmu ext mi mem' \<and> mapping mi mem' = mapping mi mem \<and> l1_entry mi mem' i \<noteq> mi_dummy_l2_tbl mi \<and>
      (installed mi mem p \<longrightarrow> installed mi mem' p) \<and> pm_bad_free mem' = pm_bad_free mem"
  proof (cases "l1_entry mi mem i = mi_dummy_l2_tbl mi")
  case False
  then show "wf_mmu ext mi mem' \<and> mapping mi mem' = mapping mi mem \<and> l1_entry mi mem' i \<noteq> mi_dummy_l2_tbl mi \<and>
      (installed mi mem p \<longrightarrow> installed mi mem' p) \<and> pm_bad_free mem' = pm_bad_free mem"
    using assms by (auto simp: install_table_def)
next
  case True
  then obtain f m1 where a: "alloc_page_table gp mi False mem = Some (f, m1)"
      and m: "mem' = (if l1_entry mi m1 i = mi_dummy_l2_tbl mi then set_word (mi_pgtbl mi) i f m1 else free_page f m1)"
    using assms(3) by (auto simp: install_table_def Let_def split: option.splits)
  note al = alloc_page_table_some [OF a]
  have f: "f \<noteq> mi_pgtbl mi" "f \<noteq> mi_dummy_l2_tbl mi"
    using al(2) wfD(11) [OF assms(1)] by (auto simp: fixed_def)
  then have "l1_entry mi m1 i = mi_dummy_l2_tbl mi" using True by (simp add: al(3) l1_entry_def)
  with m have "mem' = set_word (mi_pgtbl mi) i f m1" by simp
  then show "wf_mmu ext mi mem' \<and> mapping mi mem' = mapping mi mem \<and> l1_entry mi mem' i \<noteq> mi_dummy_l2_tbl mi \<and>
      (installed mi mem p \<longrightarrow> installed mi mem' p) \<and> pm_bad_free mem' = pm_bad_free mem"
    using install_word [OF assms(1,2) True al(2), of m1 mem'] al(3) f(2) by simp
  qed
  then show "wf_mmu ext mi mem'" "mapping mi mem' = mapping mi mem" "l1_entry mi mem' i \<noteq> mi_dummy_l2_tbl mi"
    "installed mi mem p \<Longrightarrow> installed mi mem' p" "pm_bad_free mem' = pm_bad_free mem" by blast+
qed

section \<open>One page\<close>

lemma page_mod: "4096 * p mod 4096 = (0::nat)" by simp

lemma align_page: "align_up (4096 * f) ISP_PAGE_SIZE = 4096 * f" "round_down (4096 * f) ISP_PAGE_SIZE = 4096 * f"
proof -
  have "(4096 * f + 4095) mod 4096 = 4095" by simp
  then show "align_up (4096 * f) ISP_PAGE_SIZE = 4096 * f" "round_down (4096 * f) ISP_PAGE_SIZE = 4096 * f"
    by (simp_all add: align_up_def round_down_def ISP_PAGE_SIZE_def ISP_PAGE_SHIFT_def)
qed

lemma page_split: "1024 * (p div 1024) + p mod 1024 = (p::nat)"
  by simp

text \<open>What mapping page \<open>p\<close> to frame \<open>f\<close> does.\<close>

definition page_mapped ::
  "u32 set \<Rightarrow> mmu_info \<Rightarrow> nat \<Rightarrow> u32 \<Rightarrow> page_mem \<Rightarrow> unit result \<Rightarrow> page_mem \<Rightarrow> bool" where
  "page_mapped ext mi p v mem r mem' \<longleftrightarrow>
     wf_mmu ext mi mem' \<and> pm_bad_free mem' = pm_bad_free mem \<and>
     (\<forall>q. installed mi mem q \<longrightarrow> installed mi mem' q) \<and>
     (case r of
        Inr _ \<Rightarrow> mapping mi mem p = None \<and> mapping mi mem' = (mapping mi mem)(p \<mapsto> v) \<and> installed mi mem' p
      | Inl e \<Rightarrow> mapping mi mem' = mapping mi mem \<and>
          (e = EBUSY \<and> mapping mi mem p \<noteq> None \<or> e = ENOMEM \<and> mapping mi mem p = None))"

lemma map_page_spec:
  assumes "wf_mmu ext mi mem" "p < 2 ^ 20" "of_nat f \<noteq> mi_dummy_page mi"
    and "ipu_mmu_map_page gp (\<lambda>m. m) mi (4096 * p) (4096 * f) mem = (r, mem')"
  shows "page_mapped ext mi p (of_nat f) mem r mem'"
proof -
  have p: "p div 1024 < 1024" using assms(2) less_mult_imp_div_less [of p 1024 1024] by simp
  have idx: "(round_down (4096 * p) ISP_PAGE_SIZE) mod 2 ^ 32 = 4096 * p"
    using assms(2) by (simp add: align_page)
  have map: "ipu_mmu_map_page gp (\<lambda>m. m) mi (4096 * p) (4096 * f) mem =
      (case install_table gp (\<lambda>m. m) mi (p div 1024) mem of None \<Rightarrow> (Inl ENOMEM, mem)
       | Some mem \<Rightarrow>
          if entry mi mem p \<noteq> mi_dummy_page mi then (Inl EBUSY, mem)
          else (Inr (), set_word (l1_entry mi mem (p div 1024)) (p mod 1024) (of_nat f) mem))"
    unfolding ipu_mmu_map_page_def idx l2_map_def l1_index_page [OF assms(2)] l2_index_page [OF assms(2)]
    by (simp add: align_page Let_def entry_def ISP_PAGE_SHIFT_def drop_bit_eq_div split: option.split)
  show ?thesis
  proof (cases "install_table gp (\<lambda>m. m) mi (p div 1024) mem")
    case None
    then have "\<not> installed mi mem p" by (auto simp: install_table_def installed_def Let_def split: if_splits)
    then have "mapping mi mem p = None" by (simp add: mapping_def)
    then show ?thesis using None assms(1,4) by (auto simp: map page_mapped_def)
  next
    case (Some m1)
    note ins = install_table_keeps [OF assms(1) p Some]
    have inst: "installed mi m1 p" using ins(3) by (simp add: installed_def)
    show ?thesis
    proof (cases "entry mi m1 p = mi_dummy_page mi")
      case False
      then have "mapping mi mem p \<noteq> None"
        using inst assms(2) ins(2) by (metis mapping_def option.distinct(1))
      then show ?thesis using False Some assms(4) ins by (auto simp: map page_mapped_def)
    next
      case True
      then have "mapping mi mem p = None" using ins(2) by (metis mapping_def)
      moreover have "(r, mem') = (Inr (), set_word (l1_entry mi m1 (p div 1024)) (p mod 1024) (of_nat f) m1)"
        using True Some assms(4) by (simp add: map)
      moreover note set_entry [OF ins(1) p _ ins(3), of "p mod 1024" mem' "of_nat f"]
      ultimately show ?thesis
        using ins inst assms(3) by (auto simp: page_mapped_def page_split)
    qed
  qed
qed

text \<open>Unmapping a page whose region has a table clears just its entry.\<close>

lemma unmap_page_spec:
  assumes "wf_mmu ext mi mem" "p < 2 ^ 20" "installed mi mem p"
  shows "fst (l2_unmap mi (4096 * p) 4096 mem) = 4096"
    "wf_mmu ext mi (snd (l2_unmap mi (4096 * p) 4096 mem))"
    "mapping mi (snd (l2_unmap mi (4096 * p) 4096 mem)) = (mapping mi mem)(p := None)"
    "installed mi (snd (l2_unmap mi (4096 * p) 4096 mem)) = installed mi mem"
    "pm_bad_free (snd (l2_unmap mi (4096 * p) 4096 mem)) = pm_bad_free mem"
proof -
  let ?i = "p div 1024" and ?j = "p mod 1024"
  have i: "?i < 1024" using assms(2) less_mult_imp_div_less [of p 1024 1024] by simp
  have l1: "l1_entry mi mem ?i \<noteq> mi_dummy_l2_tbl mi" using assms(3) by (simp add: installed_def)
  have base: "4194304 * ?i + 4096 * ?j = 4096 * p"
    using mult_div_mod_eq [of 1024 p] by linarith
  have loop: "unmap_entries mi t (4194304 * ?i) (4096 * p + 4096) ?j mem =
      (1, set_word t ?j (mi_dummy_page mi) mem)" for t
  proof -
    have "unmap_entries mi t (4194304 * ?i) (4096 * p + 4096) (?j + 1) m = (0, m)" for m
      using base by (subst unmap_entries.simps) (simp add: ISP_PAGE_SHIFT_def push_bit_eq_mult)
    then show ?thesis
      using base by (subst unmap_entries.simps)
        (simp add: ISP_PAGE_SHIFT_def ISP_L2PT_PTES_def push_bit_eq_mult)
  qed
  have small: "4096 * p mod 2 ^ 32 = 4096 * p" using assms(2) by simp
  have eq: "l2_unmap mi (4096 * p) 4096 mem =
      (4096, set_word (l1_entry mi mem ?i) ?j (mi_dummy_page mi) mem)"
    using l1 loop unfolding l2_unmap_def small l1_index_page [OF assms(2)] l2_index_page [OF assms(2)]
      l1_base [OF assms(2)] Let_def
    by (simp add: ISP_PAGE_SHIFT_def push_bit_eq_mult)
  have j: "?j < 1024" by simp
  note s = set_entry [OF assms(1) i j l1 refl, of "mi_dummy_page mi", unfolded page_split]
  show "fst (l2_unmap mi (4096 * p) 4096 mem) = 4096"
    "wf_mmu ext mi (snd (l2_unmap mi (4096 * p) 4096 mem))"
    "mapping mi (snd (l2_unmap mi (4096 * p) 4096 mem)) = (mapping mi mem)(p := None)"
    "installed mi (snd (l2_unmap mi (4096 * p) 4096 mem)) = installed mi mem"
    "pm_bad_free (snd (l2_unmap mi (4096 * p) 4096 mem)) = pm_bad_free mem"
    using s by (simp_all only: eq fst_conv snd_conv if_True simp_thms)
qed

section \<open>Ranges\<close>

text \<open>A map without the pages \<open>[p, p + n)\<close>, and with them sent to frames from \<open>f\<close> on.\<close>

definition cleared :: "nat \<Rightarrow> nat \<Rightarrow> (nat \<Rightarrow> u32 option) \<Rightarrow> nat \<Rightarrow> u32 option" where
  "cleared p n M q = (if p \<le> q \<and> q < p + n then None else M q)"

definition extended :: "nat \<Rightarrow> nat \<Rightarrow> nat \<Rightarrow> (nat \<Rightarrow> u32 option) \<Rightarrow> nat \<Rightarrow> u32 option" where
  "extended p n f M q = (if p \<le> q \<and> q < p + n then Some (of_nat (f + (q - p))) else M q)"

lemma cleared_simps [simp]: "cleared p 0 M = M" "cleared (Suc p) n (M(p := None)) = cleared p (Suc n) M"
  by (auto simp: cleared_def fun_eq_iff)

lemma extended_simps [simp]:
  "extended p 0 f M = M" "extended (Suc p) n (Suc f) (M(p \<mapsto> of_nat f)) = extended p (Suc n) f M"
  by (auto simp: extended_def fun_eq_iff)

lemma cleared_extended:
  "\<forall>k < n. M (p + k) = None \<Longrightarrow> cleared p n (extended p n f M) = M"
  by (auto simp: cleared_def extended_def fun_eq_iff) (metis le_Suc_ex nat_add_left_cancel_less)

lemma unmap_step:
  assumes "wf_mmu ext mi mem" "p < 2 ^ 20" "u < sz" "4096 dvd sz - u"
  shows "unmap_loop mi (4096 * p) sz u mem =
    (if l2_unmap mi (4096 * p) 4096 mem = (0, snd (l2_unmap mi (4096 * p) 4096 mem))
     then Some (u, snd (l2_unmap mi (4096 * p) 4096 mem))
     else unmap_loop mi ((4096 * p + fst (l2_unmap mi (4096 * p) 4096 mem)) mod 2 ^ 64) sz
            ((u + fst (l2_unmap mi (4096 * p) 4096 mem)) mod 2 ^ 64) (snd (l2_unmap mi (4096 * p) 4096 mem)))"
proof -
  have "4096 \<le> sz - u" using assms(3,4) by (auto dest!: dvd_imp_le)
  then have "ipu_mmu_pgsize 4096 (4096 * p) (sz - u) = Some 4096" by (intro pgsize_4096) simp_all
  then show ?thesis
    using assms(3) wfD(1) [OF assms(1)]
    by (subst unmap_loop.simps) (simp add: Let_def prod_eq_iff)
qed

lemma unmap_installed:
  assumes "wf_mmu ext mi mem" "p < 2 ^ 20" "installed mi mem p" "u < sz" "4096 dvd sz - u" "sz \<le> 2 ^ 32"
  shows "unmap_loop mi (4096 * p) sz u mem =
    unmap_loop mi (4096 * Suc p) sz (u + 4096) (snd (l2_unmap mi (4096 * p) 4096 mem))"
proof -
  have "(4096 * p + 4096) mod 2 ^ 64 = 4096 * Suc p" "(u + 4096) mod 2 ^ 64 = u + 4096"
    using assms(2,4,6) by simp_all
  then show ?thesis
    using unmap_step [OF assms(1,2,4,5)] unmap_page_spec(1) [OF assms(1-3)]
    by (simp only: prod_eq_iff) simp
qed

lemma unmap_loop_spec:
  assumes "wf_mmu ext mi mem" "p + n \<le> 2 ^ 20" "\<forall>k < n. installed mi mem (p + k)" "u + 4096 * n = sz" "sz \<le> 2 ^ 32"
  shows "\<exists>mem'. unmap_loop mi (4096 * p) sz u mem = Some (sz, mem') \<and> wf_mmu ext mi mem' \<and>
    mapping mi mem' = cleared p n (mapping mi mem) \<and> installed mi mem' = installed mi mem \<and>
    pm_bad_free mem' = pm_bad_free mem"
  using assms
proof (induction n arbitrary: p u mem)
  case 0
  then show ?case by (subst unmap_loop.simps) simp
next
  case (Suc n)
  let ?m = "snd (l2_unmap mi (4096 * p) 4096 mem)"
  have p: "p < 2 ^ 20" using Suc.prems(2) by simp
  have inst: "installed mi mem p" using Suc.prems(3) by (metis add_0_right zero_less_Suc)
  have us: "u < sz" "4096 dvd sz - u" using Suc.prems(4) by auto
  note u = unmap_page_spec [OF Suc.prems(1) p inst]
    and step = unmap_installed [OF Suc.prems(1) p inst us Suc.prems(5)]
  have "\<forall>k < n. installed mi ?m (Suc p + k)"
    using Suc.prems(3) unfolding u(4) by (metis Suc_less_eq add_Suc_shift)
  then show ?case
    using Suc.IH [OF u(2), of "Suc p" "u + 4096", unfolded u(3,4,5) cleared_simps(2)] Suc.prems(2,4,5)
    unfolding step u(4) by simp
qed

text \<open>A page whose region has no table ends the loop badly.\<close>

lemma odd_half: "(4096 * p - 22) div 2 = 2048 * p - (11::nat)" by simp

lemma pgsize_undefined:
  assumes "0 < p"
  shows "ipu_mmu_pgsize 4096 (4096 * p - 22) s = None"
proof -
  have "odd (2048 * p - 11)" using assms by (cases p) simp_all
  moreover have "even (4096 * p - 22)" by simp
  moreover have "4096 * p - 22 \<noteq> 0" using assms by simp
  ultimately have "ffs_bit (4096 * p - 22) = 1"
    by (subst ffs_bit.simps, subst ffs_bit.simps) (simp add: odd_half)
  then have i: "min (fls_bit s) (ffs_bit (4096 * p - 22)) \<in> {0, 1}" by (auto simp: min_def)
  have "(1::nat) AND 4096 = 0" "(3::nat) AND 4096 = 0" by simp_all
  then show ?thesis
    using i \<open>4096 * p - 22 \<noteq> 0\<close> by (auto simp: ipu_mmu_pgsize_def Let_def)
qed

lemma unmap_hole:
  assumes "wf_mmu ext mi mem" "p < 2 ^ 20" "\<not> installed mi mem p" "u < sz" "4096 dvd sz - u" "4096 dvd u"
    "sz \<le> 2 ^ 32" "0 < u \<Longrightarrow> 0 < p"
  shows "unmap_loop mi (4096 * p) sz u mem = (if u = 0 then Some (EINVAL_size, mem) else None)"
proof -
  have "l2_unmap mi (4096 * p) 4096 mem = (EINVAL_size, mem)"
    using assms(3) by (simp add: l2_unmap_def l1_index_page [OF assms(2)] installed_def)
  then have step: "unmap_loop mi (4096 * p) sz u mem =
      unmap_loop mi ((4096 * p + EINVAL_size) mod 2 ^ 64) sz ((u + EINVAL_size) mod 2 ^ 64) mem"
    using unmap_step [OF assms(1,2,4,5)] by (simp add: EINVAL_size_def)
  show ?thesis
  proof (cases "u = 0")
    case True
    then show ?thesis unfolding step using assms(7)
      by (subst unmap_loop.simps) (simp add: EINVAL_size_def)
  next
    case False
    then have u: "4096 \<le> u" using assms(6) by (auto dest: dvd_imp_le)
    have wrap: "(x + EINVAL_size) mod 2 ^ 64 = x - 22" if "22 \<le> x" "x < 2 ^ 64" for x :: nat
    proof -
      have "x + EINVAL_size = (x - 22) + 2 ^ 64" using that(1) by (simp add: EINVAL_size_def)
      then show ?thesis using that by (simp only: mod_add_self2) simp
    qed
    have p: "0 < p" using assms(8) False by simp
    have "unmap_loop mi (4096 * p - 22) sz (u - 22) mem = None"
      using pgsize_undefined [OF p] u assms(4) wfD(1) [OF assms(1)]
      by (subst unmap_loop.simps) simp
    moreover have "(4096 * p + EINVAL_size) mod 2 ^ 64 = 4096 * p - 22" using p assms(2) by (intro wrap) simp_all
    moreover have "(u + EINVAL_size) mod 2 ^ 64 = u - 22" using u assms(4,7) by (intro wrap) simp_all
    ultimately show ?thesis using False step by simp
  qed
qed

text \<open>Whatever is unmapped, the tables that are left are well formed.\<close>

lemma unmap_loop_wf:
  assumes "wf_mmu ext mi mem" "p + n \<le> 2 ^ 20" "u + 4096 * n = sz" "sz \<le> 2 ^ 32" "4096 dvd u" "0 < u \<Longrightarrow> 0 < p"
    and "unmap_loop mi (4096 * p) sz u mem = Some (ret, mem')"
  shows "wf_mmu ext mi mem' \<and> pm_bad_free mem' = pm_bad_free mem \<and> installed mi mem' = installed mi mem"
  using assms
proof (induction n arbitrary: p u mem)
  case 0
  have "unmap_loop mi (4096 * p) u u mem = Some (u, mem)" by (subst unmap_loop.simps) simp
  then show ?case using 0 by simp
next
  case (Suc n)
  let ?m = "snd (l2_unmap mi (4096 * p) 4096 mem)"
  have p: "p < 2 ^ 20" using Suc.prems(2) by simp
  have us: "u < sz" "4096 dvd sz - u" using Suc.prems(3) by auto
  show ?case
  proof (cases "installed mi mem p")
    case False
    then show ?thesis
      using unmap_hole [OF Suc.prems(1) p False us Suc.prems(5,4,6)] Suc.prems(1,7)
      by (auto split: if_splits)
  next
    case True
    note u = unmap_page_spec [OF Suc.prems(1) p True]
    note step = unmap_installed [OF Suc.prems(1) p True us Suc.prems(4)]
    show ?thesis
      using Suc.IH [OF u(2), of "Suc p" "u + 4096"] Suc.prems(2-7) u(4,5) step by simp
  qed
qed

lemma map_loop_spec:
  assumes "wf_mmu ext mi mem" "p + n \<le> 2 ^ 20" "\<forall>k < n. of_nat (f + k) \<noteq> mi_dummy_page mi"
  shows "\<exists>r m mem'. map_loop gp (\<lambda>m. m) mi (4096 * p) (4096 * f) (4096 * n) mem = Some (r, 4096 * (n - m), mem') \<and>
    m \<le> n \<and> wf_mmu ext mi mem' \<and> pm_bad_free mem' = pm_bad_free mem \<and>
    (\<forall>k < m. mapping mi mem (p + k) = None \<and> installed mi mem' (p + k)) \<and>
    (\<forall>q. installed mi mem q \<longrightarrow> installed mi mem' q) \<and>
    mapping mi mem' = extended p m f (mapping mi mem) \<and>
    (case r of Inr _ \<Rightarrow> m = n
     | Inl e \<Rightarrow> m < n \<and> (e = EBUSY \<and> mapping mi mem (p + m) \<noteq> None \<or> e = ENOMEM \<and> mapping mi mem (p + m) = None))"
  using assms
proof (induction n arbitrary: p f mem)
  case 0
  then show ?case by (subst map_loop.simps) (auto intro!: exI [of _ 0])
next
  case (Suc n)
  have p: "p < 2 ^ 20" using Suc.prems(2) by simp
  have f: "of_nat f \<noteq> mi_dummy_page mi" using Suc.prems(3) by (metis add_0_right zero_less_Suc)
  obtain r1 m1 where s1: "ipu_mmu_map_page gp (\<lambda>m. m) mi (4096 * p) (4096 * f) mem = (r1, m1)" by force
  note one = map_page_spec [OF Suc.prems(1) p f s1]
  have "4096 dvd (4096 * p OR 4096 * f)" using or_aligned [of "4096 * p" "4096 * f"] by (simp add: mod_eq_0_iff_dvd)
  then have ps: "ipu_mmu_pgsize (mi_pgsize_bitmap mi) (4096 * p OR 4096 * f) (4096 + 4096 * n) = Some 4096"
    using wfD(1) [OF Suc.prems(1)] by (simp add: pgsize_4096)
  have step: "map_loop gp (\<lambda>m. m) mi (4096 * p) (4096 * f) (4096 * Suc n) mem =
      (case r1 of Inl e \<Rightarrow> Some (Inl e, 4096 * Suc n, m1)
       | Inr _ \<Rightarrow> map_loop gp (\<lambda>m. m) mi (4096 * Suc p) (4096 * Suc f) (4096 * n) m1)"
    using p by (subst map_loop.simps) (simp add: ps s1 add.commute [of "4096 * _" 4096] split: sum.split)
  show ?case
  proof (cases r1)
    case (Inl e)
    then show ?thesis using one step 
      by (intro exI [of _ r1] exI [of _ 0] exI [of _ m1]) (auto simp: page_mapped_def)
  next
    case (Inr u)
    then have m1: "wf_mmu ext mi m1" "mapping mi mem p = None" "mapping mi m1 = (mapping mi mem)(p \<mapsto> of_nat f)"
        "installed mi m1 p" "pm_bad_free m1 = pm_bad_free mem" "\<And>q. installed mi mem q \<Longrightarrow> installed mi m1 q"
      using one by (auto simp: page_mapped_def)
    have "\<forall>k < n. of_nat (Suc f + k) \<noteq> mi_dummy_page mi"
      using Suc.prems(3) by (metis Suc_less_eq add_Suc_shift)
    then obtain r m mem' where r: "map_loop gp (\<lambda>m. m) mi (4096 * Suc p) (4096 * Suc f) (4096 * n) m1 =
          Some (r, 4096 * (n - m), mem')" "m \<le> n" "wf_mmu ext mi mem'" "pm_bad_free mem' = pm_bad_free m1"
        "\<forall>k < m. mapping mi m1 (Suc p + k) = None \<and> installed mi mem' (Suc p + k)"
        "\<forall>q. installed mi m1 q \<longrightarrow> installed mi mem' q"
        "mapping mi mem' = extended (Suc p) m (Suc f) (mapping mi m1)"
        "case r of Inr _ \<Rightarrow> m = n | Inl e \<Rightarrow> m < n \<and>
          (e = EBUSY \<and> mapping mi m1 (Suc p + m) \<noteq> None \<or> e = ENOMEM \<and> mapping mi m1 (Suc p + m) = None)"
      using Suc.IH [OF m1(1), of "Suc p" "Suc f"] Suc.prems(2) by auto
    have "\<forall>k < Suc m. mapping mi mem (p + k) = None \<and> installed mi mem' (p + k)"
    proof (intro allI impI)
      fix k
      assume "k < Suc m"
      then show "mapping mi mem (p + k) = None \<and> installed mi mem' (p + k)"
        using r(5,6) m1(2,3,4) by (cases k) (auto split: if_splits)
    qed
    then show ?thesis
      using r m1 step Inr
      by (intro exI [of _ r] exI [of _ "Suc m"] exI [of _ mem']) (auto split: sum.splits)
  qed
qed

section \<open>Whole ranges\<close>

lemma min_pagesz_4096: "mi_pgsize_bitmap mi = 4096 \<Longrightarrow> min_pagesz mi = 4096"
  by (simp add: min_pagesz_def ffs_4096)

lemma unmap_range:
  assumes "wf_mmu ext mi mem"
  shows "ipu_mmu_unmap mi (4096 * p) (4096 * n) mem = unmap_loop mi (4096 * p) (4096 * n) 0 mem"
  using wfD(1) [OF assms] by (simp add: ipu_mmu_unmap_def min_pagesz_4096 or_aligned)

lemma map_range:
  assumes "wf_mmu ext mi mem"
  shows "ipu_mmu_map gp env mi (4096 * p) (4096 * f) (4096 * n) mem =
    (case map_loop gp env mi (4096 * p) (4096 * f) (4096 * n) mem of None \<Rightarrow> None
     | Some (Inr _, _, mem) \<Rightarrow> Some (Inr (), mem)
     | Some (Inl e, left, mem) \<Rightarrow>
         (case ipu_mmu_unmap mi (4096 * p) (4096 * n - left) mem of None \<Rightarrow> None
          | Some (_, mem) \<Rightarrow> Some (Inl e, mem)))"
  using wfD(1) [OF assms] by (simp add: ipu_mmu_map_def min_pagesz_4096 or_aligned)

lemma unmap_range_spec:
  assumes "wf_mmu ext mi mem" "p + n \<le> 2 ^ 20" "\<forall>k < n. installed mi mem (p + k)"
  shows "\<exists>mem'. ipu_mmu_unmap mi (4096 * p) (4096 * n) mem = Some (4096 * n, mem') \<and> wf_mmu ext mi mem' \<and>
    mapping mi mem' = cleared p n (mapping mi mem) \<and> installed mi mem' = installed mi mem \<and>
    pm_bad_free mem' = pm_bad_free mem"
  unfolding unmap_range [OF assms(1)]
  by (rule unmap_loop_spec [OF assms(1,2,3)]) (use assms(2) in simp_all)

lemma map_range_spec:
  assumes "wf_mmu ext mi mem" "p + n \<le> 2 ^ 20" "\<forall>k < n. of_nat (f + k) \<noteq> mi_dummy_page mi"
  shows "\<exists>r mem'. ipu_mmu_map gp (\<lambda>m. m) mi (4096 * p) (4096 * f) (4096 * n) mem = Some (r, mem') \<and>
    wf_mmu ext mi mem' \<and> pm_bad_free mem' = pm_bad_free mem \<and>
    (\<forall>q. installed mi mem q \<longrightarrow> installed mi mem' q) \<and>
    (case r of
       Inr _ \<Rightarrow> (\<forall>k < n. mapping mi mem (p + k) = None \<and> installed mi mem' (p + k)) \<and>
         mapping mi mem' = extended p n f (mapping mi mem)
     | Inl e \<Rightarrow> mapping mi mem' = mapping mi mem \<and>
         (e = EBUSY \<and> (\<exists>k < n. mapping mi mem (p + k) \<noteq> None) \<or> e = ENOMEM))"
proof -
  obtain r m m1 where l: "map_loop gp (\<lambda>m. m) mi (4096 * p) (4096 * f) (4096 * n) mem = Some (r, 4096 * (n - m), m1)"
      "m \<le> n" "wf_mmu ext mi m1" "pm_bad_free m1 = pm_bad_free mem"
      "\<forall>k < m. mapping mi mem (p + k) = None \<and> installed mi m1 (p + k)"
      "\<forall>q. installed mi mem q \<longrightarrow> installed mi m1 q" "mapping mi m1 = extended p m f (mapping mi mem)"
      "case r of Inr _ \<Rightarrow> m = n | Inl e \<Rightarrow> m < n \<and>
         (e = EBUSY \<and> mapping mi mem (p + m) \<noteq> None \<or> e = ENOMEM \<and> mapping mi mem (p + m) = None)"
    using map_loop_spec [OF assms] by blast
  show ?thesis
  proof (cases r)
    case (Inr u)
    then show ?thesis using l by (auto simp: map_range [OF assms(1)])
  next
    case (Inl e)
    have "4096 * n - 4096 * (n - m) = 4096 * m" using l(2) by (simp add: right_diff_distrib')
    moreover obtain m2 where "ipu_mmu_unmap mi (4096 * p) (4096 * m) m1 = Some (4096 * m, m2)" "wf_mmu ext mi m2"
        "mapping mi m2 = cleared p m (mapping mi m1)" "installed mi m2 = installed mi m1" "pm_bad_free m2 = pm_bad_free m1"
      using unmap_range_spec [OF l(3), of p m] l(2,5) assms(2) by auto
    ultimately show ?thesis
      using l Inl cleared_extended [of m "mapping mi mem" p f]
      by (intro exI [of _ r] exI [of _ m2]) (auto simp: map_range [OF assms(1)])
  qed
qed

lemma translate_page:
  assumes "wf_mmu ext mi mem" "p < 2 ^ 20"
  shows "ipu_mmu_iova_to_phys mi (4096 * p) mem =
    4096 * unat (case mapping mi mem p of None \<Rightarrow> mi_dummy_page mi | Some v \<Rightarrow> v)"
proof -
  have i: "p div 1024 < 1024" using assms(2) less_mult_imp_div_less [of p 1024 1024] by simp
  have l1: "drop_bit ISP_L1PT_SHIFT (4096 * p) = p div 1024"
    using l1_index_page [OF assms(2)] i assms(2)
    by (simp add: l1_index_def ISP_L1PT_SHIFT_def drop_bit_eq_div)
  have "entry mi mem p = mi_dummy_page mi" if "\<not> installed mi mem p"
    using that wfD(6) [OF assms(1)] by (simp add: entry_def installed_def)
  then have "entry mi mem p = (case mapping mi mem p of None \<Rightarrow> mi_dummy_page mi | Some v \<Rightarrow> v)"
    using assms(2) by (auto simp: mapping_def)
  then show ?thesis
    by (simp add: ipu_mmu_iova_to_phys_def l1 l2_index_page [OF assms(2)] entry_def ISP_PAGE_SHIFT_def
        push_bit_eq_mult)
qed

lemma unmap_loop_hole:
  assumes "wf_mmu ext mi mem" "p + n \<le> 2 ^ 20" "m < n" "\<forall>k < m. installed mi mem (p + k)"
    and "\<not> installed mi mem (p + m)" "u + 4096 * n = sz" "sz \<le> 2 ^ 32" "4096 dvd u" "0 < u \<Longrightarrow> 0 < p"
  shows "unmap_loop mi (4096 * p) sz u mem = (if u = 0 \<and> m = 0 then Some (EINVAL_size, mem) else None)"
  using assms
proof (induction m arbitrary: p n u mem)
  case 0
  have "u < sz" "4096 dvd sz - u" using 0 by auto
  then show ?case using 0 unmap_hole [OF 0(1) _ _ _ _ 0(8,7,9)] by auto
next
  case (Suc m)
  then obtain n' where n: "n = Suc n'" by (cases n) simp_all
  have p: "p < 2 ^ 20" using Suc.prems(2,3) by simp
  have inst: "installed mi mem p" using Suc.prems(4) by (metis add_0_right zero_less_Suc)
  have us: "u < sz" "4096 dvd sz - u" using Suc.prems(3,6) by auto
  note one = unmap_page_spec [OF Suc.prems(1) p inst]
  have "\<forall>k < m. installed mi (snd (l2_unmap mi (4096 * p) 4096 mem)) (Suc p + k)"
    using Suc.prems(4) unfolding one(4) by (metis Suc_less_eq add_Suc_shift)
  then have "unmap_loop mi (4096 * Suc p) sz (u + 4096) (snd (l2_unmap mi (4096 * p) 4096 mem)) = None"
    using Suc.IH [OF one(2), of "Suc p" n' "u + 4096"] Suc.prems(2,3,5-8) n unfolding one(4) by simp
  then show ?case using unmap_installed [OF Suc.prems(1) p inst us Suc.prems(7)] by simp
qed

lemma frame_unat: "x < 2 ^ 32 \<Longrightarrow> unat (of_nat x :: u32) = x"
  by (simp add: unsigned_of_nat take_bit_nat_eq_self)

section \<open>The life of a domain\<close>

lemma free_page_frame [simp]: "pm_words (free_page f mem) = pm_words mem"
  by (simp add: free_page_def)

lemma free_page_held [simp]:
  "f \<in> pm_pages mem \<Longrightarrow> pm_pages (free_page f mem) = pm_pages mem - {f}"
  "f \<in> pm_pages mem \<Longrightarrow> pm_bad_free (free_page f mem) = pm_bad_free mem"
  by (simp_all add: free_page_def)

lemma free_tables_fold:
  assumes "distinct is" "inj_on (l1_entry mi mem) {i \<in> set is. l1_entry mi mem i \<noteq> mi_dummy_l2_tbl mi}"
    and "\<forall>i \<in> set is. l1_entry mi mem i \<noteq> mi_dummy_l2_tbl mi \<longrightarrow> l1_entry mi mem i \<in> pm_pages mem"
    and "mem' = fold (\<lambda>i mem. if l1_entry mi mem i \<noteq> mi_dummy_l2_tbl mi then free_page (l1_entry mi mem i) mem
                               else mem) is mem"
  shows "pm_pages mem' = pm_pages mem - {l1_entry mi mem i | i. i \<in> set is \<and> l1_entry mi mem i \<noteq> mi_dummy_l2_tbl mi} \<and>
    pm_bad_free mem' = pm_bad_free mem"
  using assms
proof (induction "is" arbitrary: mem)
  case (Cons i "is")
  define m1 where "m1 = (if l1_entry mi mem i \<noteq> mi_dummy_l2_tbl mi then free_page (l1_entry mi mem i) mem else mem)"
  have same: "l1_entry mi m1 = l1_entry mi mem" by (auto simp: m1_def l1_entry_def)
  have held: "\<forall>k \<in> set is. l1_entry mi m1 k \<noteq> mi_dummy_l2_tbl mi \<longrightarrow> l1_entry mi m1 k \<in> pm_pages m1"
  proof (intro ballI impI)
    fix k
    assume k: "k \<in> set is" "l1_entry mi m1 k \<noteq> mi_dummy_l2_tbl mi"
    have "l1_entry mi mem k \<noteq> l1_entry mi mem i" if "l1_entry mi mem i \<noteq> mi_dummy_l2_tbl mi"
      using Cons.prems(1,2) k that unfolding same by (auto dest!: inj_onD)
    then show "l1_entry mi m1 k \<in> pm_pages m1"
      using Cons.prems(3) k unfolding same by (auto simp: m1_def)
  qed
  have "pm_pages mem' = pm_pages m1 - {l1_entry mi m1 k | k. k \<in> set is \<and> l1_entry mi m1 k \<noteq> mi_dummy_l2_tbl mi} \<and>
      pm_bad_free mem' = pm_bad_free m1"
  proof (rule Cons.IH)
    show "distinct is" using Cons.prems(1) by simp
    show "inj_on (l1_entry mi m1) {k \<in> set is. l1_entry mi m1 k \<noteq> mi_dummy_l2_tbl mi}"
      unfolding same by (rule inj_on_subset [OF Cons.prems(2)]) auto
    show "mem' = fold (\<lambda>i mem. if l1_entry mi mem i \<noteq> mi_dummy_l2_tbl mi then free_page (l1_entry mi mem i) mem
        else mem) is m1"
      using Cons.prems(4) by (simp add: m1_def)
  qed (rule held)
  then show ?case using Cons.prems(3) unfolding same by (auto simp: m1_def)
qed simp

lemma free_tables_spec:
  assumes "wf_mmu ext mi mem"
  shows "pm_pages (free_tables mi mem) = ext \<union> fixed mi" "pm_bad_free (free_tables mi mem) = pm_bad_free mem"
proof -
  have t: "tables mi mem = {l1_entry mi mem i | i. i \<in> set [0..<ISP_L1PT_PTES] \<and> l1_entry mi mem i \<noteq> mi_dummy_l2_tbl mi}"
    by (simp add: tables_def ISP_L1PT_PTES_def)
  have "pm_pages (free_tables mi mem) = pm_pages mem - tables mi mem \<and> pm_bad_free (free_tables mi mem) = pm_bad_free mem"
    unfolding t
  proof (rule free_tables_fold)
    show "inj_on (l1_entry mi mem) {i \<in> set [0..<ISP_L1PT_PTES]. l1_entry mi mem i \<noteq> mi_dummy_l2_tbl mi}"
      using wfD(8) [OF assms] by (simp add: ISP_L1PT_PTES_def)
    show "\<forall>i \<in> set [0..<ISP_L1PT_PTES]. l1_entry mi mem i \<noteq> mi_dummy_l2_tbl mi \<longrightarrow> l1_entry mi mem i \<in> pm_pages mem"
      using wfD(11) [OF assms] by (auto simp: tables_def ISP_L1PT_PTES_def)
  qed (simp_all add: free_tables_def)
  then show "pm_pages (free_tables mi mem) = ext \<union> fixed mi" "pm_bad_free (free_tables mi mem) = pm_bad_free mem"
    using wfD(9,10,11) [OF assms] by auto
qed

lemma destroy_spec:
  assumes "wf_mmu ext mi mem" "mi_iova_addr_trash mi = 0"
  shows "\<exists>mem'. ipu_mmu_destroy fi mi mem = Some mem' \<and> pm_pages mem' = ext \<and> pm_bad_free mem' = pm_bad_free mem"
  using free_tables_spec [OF assms(1)] wfD(2,3,4,10) [OF assms(1)] assms(2)
  by (auto simp: ipu_mmu_destroy_def release_trash_def fixed_def)

lemma alloc_wf:
  assumes "ipu_mmu_alloc gp zeroed mem = (Some mi, mem')"
  shows "wf_mmu (pm_pages mem) mi mem'" "mapping mi mem' = (\<lambda>_. None)" "mi_iova_addr_trash mi = 0"
    "pm_bad_free mem' = pm_bad_free mem"
proof -
  obtain d m1 t m2 l where d: "get_free_page gp mem = Some (d, m1)"
      and t: "alloc_page_table gp \<lparr>mi_pgtbl = 0, mi_pgsize_bitmap = SZ_4K, mi_dummy_l2_tbl = 0,
                mi_dummy_page = d, mi_iova_addr_trash = 0\<rparr> False m1 = Some (t, m2)"
      and l: "alloc_page_table gp \<lparr>mi_pgtbl = 0, mi_pgsize_bitmap = SZ_4K, mi_dummy_l2_tbl = t,
                mi_dummy_page = d, mi_iova_addr_trash = 0\<rparr> True m2 = Some (l, mem')"
      and mi: "mi = \<lparr>mi_pgtbl = l, mi_pgsize_bitmap = SZ_4K, mi_dummy_l2_tbl = t, mi_dummy_page = d, mi_iova_addr_trash = 0\<rparr>"
    using assms by (auto simp: ipu_mmu_alloc_def Let_def split: if_splits option.splits)
  note ds = get_free_page_some [OF d] and ts = alloc_page_table_some [OF t] and ls = alloc_page_table_some [OF l]
  have l1: "i < 1024 \<Longrightarrow> l1_entry mi mem' i = t" for i using ls by (simp add: l1_entry_def mi)
  then have none: "\<not> installed mi mem' p" if "p < 2 ^ 20" for p
    using less_mult_imp_div_less [of p 1024 1024] that by (simp add: installed_def mi)
  have tabs: "tables mi mem' = {}" using l1 by (auto simp: tables_def mi)
  have inj: "{i. i < 1024 \<and> l1_entry mi mem' i \<noteq> mi_dummy_l2_tbl mi} = {}" using l1 by (auto simp: mi)
  show "wf_mmu (pm_pages mem) mi mem'"
    unfolding wf_mmu_def tabs inj using ds ts ls by (auto simp: mi fixed_def SZ_4K_def)
  show "mapping mi mem' = (\<lambda>_. None)" 
  proof
    fix p
    show "mapping mi mem' p = None" using none [of p] by (cases "p < 2 ^ 20") (simp_all add: mapping_def)
  qed
  show "mi_iova_addr_trash mi = 0" by (simp add: mi)
  show "pm_bad_free mem' = pm_bad_free mem" using ds(3) ts(3) ls(3) by simp
qed

text \<open>A domain that was created on \<open>mem0\<close> and then mapped into and unmapped from.\<close>

inductive domain_reach :: "page_source \<Rightarrow> page_mem \<Rightarrow> mmu_info \<Rightarrow> page_mem \<Rightarrow> bool" for gp mem0 mi where
  created: "ipu_mmu_alloc gp True mem0 = (Some mi, mem) \<Longrightarrow> domain_reach gp mem0 mi mem"
| mapped: "domain_reach gp mem0 mi mem \<Longrightarrow> p + n \<le> 2 ^ 20 \<Longrightarrow> \<forall>k < n. of_nat (f + k) \<noteq> mi_dummy_page mi \<Longrightarrow>
    ipu_mmu_map gp (\<lambda>m. m) mi (4096 * p) (4096 * f) (4096 * n) mem = Some (r, mem') \<Longrightarrow> domain_reach gp mem0 mi mem'"
| unmapped: "domain_reach gp mem0 mi mem \<Longrightarrow> p + n \<le> 2 ^ 20 \<Longrightarrow>
    ipu_mmu_unmap mi (4096 * p) (4096 * n) mem = Some (ret, mem') \<Longrightarrow> domain_reach gp mem0 mi mem'"

lemma reach_wf:
  "domain_reach gp mem0 mi mem \<Longrightarrow>
     wf_mmu (pm_pages mem0) mi mem \<and> mi_iova_addr_trash mi = 0 \<and> pm_bad_free mem = pm_bad_free mem0"
proof (induction rule: domain_reach.induct)
  case (created mem)
  then show ?case using alloc_wf by blast
next
  case (mapped mem p n f r mem')
  then show ?case using map_range_spec [of "pm_pages mem0" mi mem p n f gp] by auto
next
  case (unmapped mem p n ret mem')
  have "wf_mmu (pm_pages mem0) mi mem' \<and> pm_bad_free mem' = pm_bad_free mem \<and> installed mi mem' = installed mi mem"
    by (rule unmap_loop_wf [where p = p and n = n and u = 0 and sz = "4096 * n"])
      (use unmapped unmap_range in auto)
  then show ?case using unmapped by auto
qed

section \<open>Example domain\<close>

text \<open>Frames 1 to 6 are free; the domain takes 1, 2 and 3.\<close>

definition ex_gp :: page_source where
  "ex_gp P = List.find (\<lambda>f. f \<notin> P) [1, 2, 3, 4, 5, 6]"

definition ex_mem :: page_mem where
  "ex_mem = \<lparr>pm_pages = {}, pm_words = (\<lambda>_. []), pm_bad_free = False\<rparr>"

definition ex_mi :: mmu_info where
  "ex_mi = \<lparr>mi_pgtbl = 3, mi_pgsize_bitmap = SZ_4K, mi_dummy_l2_tbl = 2, mi_dummy_page = 1,
     mi_iova_addr_trash = 0\<rparr>"

lemma ex_alloc: "\<exists>mem. ipu_mmu_alloc ex_gp True ex_mem = (Some ex_mi, mem) \<and> pm_pages mem = {1, 2, 3} \<and>
    \<not> installed ex_mi mem 5"
  by (simp add: ipu_mmu_alloc_def get_free_page_def alloc_page_table_def ex_gp_def ex_mem_def ex_mi_def
      installed_def l1_entry_def ISP_L1PT_PTES_def insert_commute)

lemma ex_domain:
  obtains mem where "domain_reach ex_gp ex_mem ex_mi mem" "wf_mmu {} ex_mi mem" "mapping ex_mi mem = (\<lambda>_. None)"
    "pm_pages mem = {1, 2, 3}" "\<not> installed ex_mi mem 5"
proof -
  obtain mem where mem: "ipu_mmu_alloc ex_gp True ex_mem = (Some ex_mi, mem)" "pm_pages mem = {1, 2, 3}"
      "\<not> installed ex_mi mem 5" using ex_alloc by blast
  show thesis
    by (rule that [OF domain_reach.created [OF mem(1)]])
      (use alloc_wf [OF mem(1)] mem in \<open>simp_all add: ex_mem_def\<close>)
qed

lemma ex_frames:
  assumes "k < 2"
  shows "of_nat (9 + k) \<noteq> mi_dummy_page ex_mi"
proof
  assume "of_nat (9 + k) = mi_dummy_page ex_mi"
  from arg_cong [OF this, of unat] show False
    using assms frame_unat [of "9 + k"] by (simp add: ex_mi_def del: of_nat_add)
qed

lemma ex_dummy_free: "\<forall>k < (1::nat). of_nat (9 + k) \<noteq> mi_dummy_page ex_mi"
  using ex_frames [of 0] by simp

lemma ex_map:
  assumes "wf_mmu {} ex_mi mem" "pm_pages mem = {1, 2, 3}" "mapping ex_mi mem = (\<lambda>_. None)"
  obtains mem' where
    "ipu_mmu_map ex_gp (\<lambda>m. m) ex_mi (4096 * 5) (4096 * 9) (4096 * 1) mem = Some (Inr (), mem')"
proof -
  obtain r1 m1 where r: "ipu_mmu_map_page ex_gp (\<lambda>m. m) ex_mi (4096 * 5) (4096 * 9) mem = (r1, m1)" by force
  have al: "round_down 20480 ISP_PAGE_SIZE mod 4294967296 = 20480"
    using align_page(2) [of 5] by simp
  have "of_nat 9 \<noteq> mi_dummy_page ex_mi" using ex_frames [of 0] by simp
  then have "page_mapped {} ex_mi 5 (of_nat 9) mem r1 m1"
    using map_page_spec [OF assms(1) _ _ r] by simp
  moreover have "install_table ex_gp (\<lambda>m. m) ex_mi (l1_index (4096 * 5)) mem \<noteq> None"
    using assms(2) by (auto simp: install_table_def alloc_page_table_def get_free_page_def ex_gp_def Let_def
        split: option.splits)
  then have "r1 \<noteq> Inl ENOMEM"
    using r by (auto simp: ipu_mmu_map_page_def l2_map_def Let_def al split: option.splits if_splits)
  ultimately have "r1 = Inr ()"
    using assms(3) by (cases r1) (auto simp: page_mapped_def)
  then have "map_loop ex_gp (\<lambda>m. m) ex_mi (4096 * 5) (4096 * 9) (4096 * 1) mem = Some (Inr (), 0, m1)"
    using r pgsize_4096 [of "4096 * 5 OR 4096 * 9" 4096] or_aligned [of "4096 * 5" "4096 * 9"]
    by (subst map_loop.simps, subst map_loop.simps) (simp add: ex_mi_def SZ_4K_def)
  then show thesis using that unfolding map_range [OF assms(1)] by simp
qed

section \<open>Properties\<close>

text \<open>
  C7: Mapping a range of pages is all or nothing.  On success none of the pages was mapped
  and the table maps exactly them in addition, to consecutive frames; on failure, be it a
  page that is mapped already or no memory for a table, the mapping is what it was, so the
  pages mapped before the failure have been unmapped again.
\<close>

theorem mmu_map_refines:
  assumes "wf_mmu ext mi mem" "p + n \<le> 2 ^ 20" "\<forall>k < n. of_nat (f + k) \<noteq> mi_dummy_page mi"
  shows "\<exists>r mem'. ipu_mmu_map gp (\<lambda>m. m) mi (4096 * p) (4096 * f) (4096 * n) mem = Some (r, mem') \<and>
    wf_mmu ext mi mem' \<and>
    (case r of
       Inr _ \<Rightarrow> (\<forall>k < n. mapping mi mem (p + k) = None) \<and>
         mapping mi mem' = extended p n f (mapping mi mem)
     | Inl e \<Rightarrow> mapping mi mem' = mapping mi mem \<and>
         (e = EBUSY \<and> (\<exists>k < n. mapping mi mem (p + k) \<noteq> None) \<or> e = ENOMEM))"
  using map_range_spec [OF assms, of gp] by (auto split: sum.splits)

theorem mmu_map_refines_witness:
  "\<exists>mem mem'. ipu_mmu_map ex_gp (\<lambda>m. m) ex_mi (4096 * 5) (4096 * 9) (4096 * 1) mem = Some (Inr (), mem') \<and>
     mapping ex_mi mem' = extended 5 1 9 (\<lambda>_. None)"
proof -
  obtain mem where m: "wf_mmu {} ex_mi mem" "mapping ex_mi mem = (\<lambda>_. None)" "pm_pages mem = {1, 2, 3}"
    by (rule ex_domain)
  obtain mem' where r: "ipu_mmu_map ex_gp (\<lambda>m. m) ex_mi (4096 * 5) (4096 * 9) (4096 * 1) mem = Some (Inr (), mem')"
    by (rule ex_map [OF m(1,3,2)])
  then have "mapping ex_mi mem' = extended 5 1 9 (mapping ex_mi mem)"
    using mmu_map_refines [OF m(1) _ ex_dummy_free, of 5 ex_gp] by auto
  then show ?thesis using r m(2) by auto
qed

text \<open>
  Translation reads back what was mapped: after a successful map of frames that fit the
  entries, each page of the range translates to its frame's address; a page that is not
  mapped translates to the dummy page.
\<close>

theorem mmu_translate_mapped:
  assumes "wf_mmu ext mi mem" "p + n \<le> 2 ^ 20" "\<forall>k < n. of_nat (f + k) \<noteq> mi_dummy_page mi"
    and "f + n \<le> 2 ^ 32"
    and "ipu_mmu_map gp (\<lambda>m. m) mi (4096 * p) (4096 * f) (4096 * n) mem = Some (Inr (), mem')"
  shows "(\<forall>k < n. ipu_mmu_iova_to_phys mi (4096 * (p + k)) mem' = 4096 * (f + k)) \<and>
    (\<forall>q < 2 ^ 20. mapping mi mem' q = None \<longrightarrow>
       ipu_mmu_iova_to_phys mi (4096 * q) mem' = 4096 * unat (mi_dummy_page mi))"
proof -
  have m: "wf_mmu ext mi mem'" "mapping mi mem' = extended p n f (mapping mi mem)"
    using map_range_spec [OF assms(1-3), of gp] assms(5) by auto
  have "ipu_mmu_iova_to_phys mi (4096 * (p + k)) mem' = 4096 * (f + k)" if k: "k < n" for k
  proof -
    have "unat (of_nat (f + k) :: u32) = f + k"
      using assms(4) k by (intro frame_unat) simp
    then show ?thesis
      using translate_page [OF m(1), of "p + k"] k assms(2) by (simp add: m(2) extended_def)
  qed
  then show ?thesis using translate_page [OF m(1)] by auto
qed

theorem mmu_translate_mapped_witness:
  "\<exists>mem mem'. ipu_mmu_map ex_gp (\<lambda>m. m) ex_mi (4096 * 5) (4096 * 9) (4096 * 1) mem = Some (Inr (), mem') \<and>
     ipu_mmu_iova_to_phys ex_mi (4096 * 5) mem' = 4096 * 9"
proof -
  obtain mem where m: "wf_mmu {} ex_mi mem" "mapping ex_mi mem = (\<lambda>_. None)" "pm_pages mem = {1, 2, 3}"
    by (rule ex_domain)
  obtain mem' where r: "ipu_mmu_map ex_gp (\<lambda>m. m) ex_mi (4096 * 5) (4096 * 9) (4096 * 1) mem = Some (Inr (), mem')"
    by (rule ex_map [OF m(1,3,2)])
  have "\<forall>k < 1. ipu_mmu_iova_to_phys ex_mi (4096 * (5 + k)) mem' = 4096 * (9 + k)"
    using mmu_translate_mapped [OF m(1) _ ex_dummy_free _ r] by simp
  then show ?thesis using r by auto
qed

text \<open>
  A page whose region has no table makes \<^verbatim>\<open>l2_unmap\<close> return \<^verbatim>\<open>-EINVAL\<close> as a size.  If it
  is the first of the range, the caller gets that huge number for the bytes unmapped; if it
  comes later, the sums wrap, the loop goes on at an address 22 bytes before the page, and
  the page size of that address is computed from an empty set, which is undefined.
\<close>

theorem mmu_unmap_hole:
  assumes "wf_mmu ext mi mem" "p + n \<le> 2 ^ 20" "m < n" "\<forall>k < m. installed mi mem (p + k)"
    and "\<not> installed mi mem (p + m)"
  shows "ipu_mmu_unmap mi (4096 * p) (4096 * n) mem = (if m = 0 then Some (2 ^ 64 - 22, mem) else None)"
  using unmap_loop_hole [OF assms, of 0 "4096 * n"] assms(2)
  by (simp add: unmap_range [OF assms(1)] EINVAL_size_def)

theorem mmu_unmap_hole_witness:
  "\<exists>mem. ipu_mmu_unmap ex_mi (4096 * 5) (4096 * 3) mem = Some (2 ^ 64 - 22, mem)"
proof -
  obtain mem where m: "wf_mmu {} ex_mi mem" "\<not> installed ex_mi mem 5" by (rule ex_domain)
  show ?thesis using mmu_unmap_hole [OF m(1), of 5 3 0] m(2) by auto
qed



text \<open>
  A domain gives back what it took: after any sequence of maps and unmaps its
  destruction frees every page that was allocated for it, each once, and no other.
\<close>

theorem mmu_domain_balance:
  assumes "domain_reach gp mem0 mi mem"
  shows "\<exists>mem'. ipu_mmu_destroy find_iova mi mem = Some mem' \<and> pm_pages mem' = pm_pages mem0 \<and>
    pm_bad_free mem' = pm_bad_free mem0"
proof -
  have "wf_mmu (pm_pages mem0) mi mem" "mi_iova_addr_trash mi = 0" "pm_bad_free mem = pm_bad_free mem0"
    using reach_wf [OF assms] by auto
  then show ?thesis using destroy_spec by metis
qed

theorem mmu_domain_balance_witness:
  "\<exists>mem mem'. ipu_mmu_destroy (\<lambda>n. (n, n)) ex_mi mem = Some mem' \<and> pm_pages mem' = {}"
proof -
  obtain mem where m: "domain_reach ex_gp ex_mem ex_mi mem" by (rule ex_domain)
  show ?thesis using mmu_domain_balance [OF m, of "\<lambda>n. (n, n)"] by (auto simp: ex_mem_def)
qed

text \<open>
  When the first page of a domain can be allocated and its second level table cannot,
  the error path frees frame 0, which was never allocated.
\<close>

theorem mmu_alloc_frees_frame_zero:
  assumes "gp (pm_pages mem) = Some d" "d \<noteq> 0" "d \<notin> pm_pages mem" "gp (insert d (pm_pages mem)) = None"
    and "0 \<notin> pm_pages mem"
  shows "fst (ipu_mmu_alloc gp True mem) = None \<and> pm_bad_free (snd (ipu_mmu_alloc gp True mem))"
  using assms by (simp add: ipu_mmu_alloc_def get_free_page_def alloc_page_table_def free_page_def)

theorem mmu_alloc_frees_frame_zero_witness:
  "pm_bad_free (snd (ipu_mmu_alloc (\<lambda>P. if 7 \<in> P then None else Some 7) True ex_mem))"
  by (rule mmu_alloc_frees_frame_zero [of _ _ 7, THEN conjunct2]) (simp_all add: ex_mem_def)

end
