(* ===== verification/Dma.thy ===== *)
theory Dma
  imports MmuTables
begin

text \<open>
  The DMA operations of the IPU's devices, \<^verbatim>\<open>ipu-dma.c\<close>, a client of the page tables of theory
  Mmu: buffers of pages that are mapped into the device's address space and into the kernel's,
  and scatter lists.  Pages are named by their frame numbers.

  The kernel is the record \<open>dma_kernel\<close>: the page allocator, the allocator of IOVA ranges,
  \<^verbatim>\<open>vmap\<close> and the object allocator.  An answer that does not fit what is held counts as none.
  Flushes of the processor's caches have no effect in the model, nor has the list's lock.
\<close>

section \<open>Data\<close>

definition PAGE_SHIFT :: nat where "PAGE_SHIFT = 12"
definition PAGE_SIZE :: nat where "PAGE_SIZE = 2 ^ PAGE_SHIFT"

text \<open>\<^verbatim>\<open>PAGE_ALIGN\<close> in a type of \<open>w\<close> bits.\<close>

definition page_align :: "nat \<Rightarrow> nat \<Rightarrow> nat" where
  "page_align w x = round_down ((x + (PAGE_SIZE - 1)) mod 2 ^ w) PAGE_SIZE"

record ipu_dma_vma =
  dv_iova :: nat
  dv_size :: nat
  dv_vaddr :: ptr
  dv_pages :: "nat list"

record scatterlist =
  sg_page :: nat
  sg_length :: nat
  sg_dma_address :: nat

text \<open>
  \<open>ds_zero\<close> are the pages that were cleared since they were allocated.  \<open>ds_stale\<close> are the IOVA
  pages whose translations were removed since the device's TLB was last invalidated, and
  \<open>ds_exposed\<close> is set when a page is given back while there are such.
\<close>

record ipu_dma =
  ds_mem :: page_mem
  ds_iovas :: "(nat \<times> nat) list"
  ds_vmas :: "ipu_dma_vma list"
  ds_pages :: "nat set"
  ds_zero :: "nat set"
  ds_vmaps :: "ptr set"
  ds_objects :: nat
  ds_stale :: "nat set"
  ds_exposed :: bool
  ds_bad_free :: bool

record dma_kernel =
  dk_free_page :: page_source
  dk_alloc_pages :: "nat set \<Rightarrow> nat \<Rightarrow> nat option"
  dk_alloc_iova :: "(nat \<times> nat) list \<Rightarrow> nat \<Rightarrow> nat \<Rightarrow> nat option"
  dk_mask :: nat
  dk_array :: "nat \<Rightarrow> bool"
  dk_vmap :: "nat list \<Rightarrow> ptr option"
  dk_info :: bool

section \<open>IOVA ranges\<close>

text \<open>A range is its first and its last page.\<close>

definition alloc_iova :: "dma_kernel \<Rightarrow> nat \<Rightarrow> ipu_dma \<Rightarrow> ((nat \<times> nat) \<times> ipu_dma) option" where
  "alloc_iova k n st =
     (case dk_alloc_iova k (ds_iovas st) n (drop_bit PAGE_SHIFT (dk_mask k)) of None \<Rightarrow> None
      | Some lo \<Rightarrow>
          if n = 0 \<or> lo + n - 1 > drop_bit PAGE_SHIFT (dk_mask k) \<or>
             list_ex (\<lambda>(a, b). a \<le> lo + n - 1 \<and> lo \<le> b) (ds_iovas st)
          then None
          else Some ((lo, lo + n - 1), st\<lparr>ds_iovas := (lo, lo + n - 1) # ds_iovas st\<rparr>))"

definition find_iova :: "nat \<Rightarrow> ipu_dma \<Rightarrow> (nat \<times> nat) option" where
  "find_iova pfn st = List.find (\<lambda>(a, b). a \<le> pfn \<and> pfn \<le> b) (ds_iovas st)"

definition free_iova :: "nat \<times> nat \<Rightarrow> ipu_dma \<Rightarrow> ipu_dma" where
  "free_iova iova st = st\<lparr>ds_iovas := remove1 iova (ds_iovas st)\<rparr>"

definition find_vma_by_iova :: "nat \<Rightarrow> ipu_dma \<Rightarrow> ipu_dma_vma option" where
  "find_vma_by_iova iova st = List.find (\<lambda>v. iova \<ge> dv_iova v \<and> iova < dv_iova v + dv_size v) (ds_vmas st)"

definition find_vma_by_vaddr :: "ptr \<Rightarrow> ipu_dma \<Rightarrow> ipu_dma_vma option" where
  "find_vma_by_vaddr vaddr st = List.find (\<lambda>v. dv_vaddr v = vaddr) (ds_vmas st)"

section \<open>Buffers of pages\<close>

definition dma_clear_buffer :: "nat \<Rightarrow> nat \<Rightarrow> ipu_dma \<Rightarrow> ipu_dma" where
  "dma_clear_buffer page n st = st\<lparr>ds_zero := ds_zero st \<union> {page..<page + n}\<rparr>"

text \<open>\<open>2 ^ order\<close> pages, apart from the buffers and the tables; their contents are not known.\<close>

definition alloc_pages :: "dma_kernel \<Rightarrow> nat \<Rightarrow> ipu_dma \<Rightarrow> (nat \<times> ipu_dma) option" where
  "alloc_pages k order st =
     (case dk_alloc_pages k (ds_pages st) order of None \<Rightarrow> None
      | Some p \<Rightarrow>
          if p = 0 \<or> p + 2 ^ order > 2 ^ 32 \<or>
             {p..<p + 2 ^ order} \<inter> (ds_pages st \<union> unat ` pm_pages (ds_mem st)) \<noteq> {}
          then None
          else Some (p, st\<lparr>ds_pages := ds_pages st \<union> {p..<p + 2 ^ order},
                          ds_zero := ds_zero st - {p..<p + 2 ^ order}\<rparr>))"

definition free_dma_page :: "nat \<Rightarrow> ipu_dma \<Rightarrow> ipu_dma" where
  "free_dma_page p st =
     st\<lparr>ds_pages := ds_pages st - {p}, ds_bad_free := ds_bad_free st \<or> p \<notin> ds_pages st,
        ds_exposed := ds_exposed st \<or> ds_stale st \<noteq> {}\<rparr>"

definition free_dma_pages :: "nat list \<Rightarrow> ipu_dma \<Rightarrow> ipu_dma" where
  "free_dma_pages ps st = fold free_dma_page ps st"

text \<open>The largest block there is, of at most the given order.\<close>

primrec alloc_up_to :: "dma_kernel \<Rightarrow> nat \<Rightarrow> ipu_dma \<Rightarrow> (nat \<times> nat \<times> ipu_dma) option" where
  "alloc_up_to k 0 st = map_option (\<lambda>(p, st). (p, 0, st)) (alloc_pages k 0 st)"
| "alloc_up_to k (Suc order) st =
     (case alloc_pages k (Suc order) st of
        Some (p, st) \<Rightarrow> Some (p, Suc order, st)
      | None \<Rightarrow> alloc_up_to k order st)"

text \<open>The entries of the array that have been set, and whether all could be.\<close>

function alloc_blocks :: "dma_kernel \<Rightarrow> nat \<Rightarrow> nat list \<Rightarrow> ipu_dma \<Rightarrow> bool \<times> nat list \<times> ipu_dma" where
  "alloc_blocks k cnt pages st =
     (if cnt = 0 then (True, pages, st)
      else case alloc_up_to k (fls_bit cnt) st of
        None \<Rightarrow> (False, pages, st)
      | Some (p, order, st) \<Rightarrow>
          alloc_blocks k (cnt - 2 ^ order) (pages @ [p..<p + 2 ^ order]) (dma_clear_buffer p (2 ^ order) st))"
  by pat_completeness auto
termination
  by (relation "measure (\<lambda>(k, cnt, pages, st). cnt)") auto

declare alloc_blocks.simps [simp del]

definition dma_alloc_buffer :: "dma_kernel \<Rightarrow> nat \<Rightarrow> ipu_dma \<Rightarrow> nat list option \<times> ipu_dma" where
  "dma_alloc_buffer k sz st =
     (let cnt = drop_bit PAGE_SHIFT sz in
      if \<not> dk_array k (cnt * 8) then (None, st)
      else case alloc_blocks k cnt [] (st\<lparr>ds_objects := ds_objects st + 1\<rparr>) of
        (True, pages, st) \<Rightarrow> (Some pages, st)
      | (False, pages, st) \<Rightarrow>
          (None, (free_dma_pages (rev pages) st)\<lparr>ds_objects := ds_objects st - 1\<rparr>))"

definition dma_free_buffer :: "nat list \<Rightarrow> nat \<Rightarrow> ipu_dma \<Rightarrow> ipu_dma" where
  "dma_free_buffer pages sz st =
     (let st = fold (\<lambda>p st. free_dma_page p (dma_clear_buffer p 1 st)) (take (drop_bit PAGE_SHIFT sz) pages) st
      in st\<lparr>ds_objects := ds_objects st - 1\<rparr>)"

section \<open>The page tables\<close>

text \<open>The calls of \<^verbatim>\<open>ipu_mmu_map\<close> and \<^verbatim>\<open>ipu_mmu_unmap\<close>; \<open>None\<close> is undefined behaviour.\<close>

definition mmu_map :: "dma_kernel \<Rightarrow> mmu_info \<Rightarrow> nat \<Rightarrow> nat \<Rightarrow> nat \<Rightarrow> page_mem \<Rightarrow> (unit result \<times> page_mem) option" where
  "mmu_map k mi = ipu_mmu_map (dk_free_page k) (\<lambda>m. m) mi"

definition tlb_invalidate :: "ipu_dma \<Rightarrow> ipu_dma" where
  "tlb_invalidate st = st\<lparr>ds_stale := {}\<rparr>"

definition mark_stale :: "nat \<Rightarrow> nat \<Rightarrow> ipu_dma \<Rightarrow> ipu_dma" where
  "mark_stale lo n st = st\<lparr>ds_stale := ds_stale st \<union> {lo..<lo + n}\<rparr>"

text \<open>The loop of \<^verbatim>\<open>ipu_dma_alloc\<close>: whether all pages were mapped, and how many were.\<close>

primrec map_pages ::
  "(nat \<Rightarrow> nat \<Rightarrow> nat \<Rightarrow> 'm \<Rightarrow> (unit result \<times> 'm) option) \<Rightarrow> nat \<Rightarrow> nat list \<Rightarrow> nat \<Rightarrow> 'm \<Rightarrow>
     (bool \<times> nat \<times> 'm) option" where
  "map_pages f lo [] i m = Some (True, i, m)"
| "map_pages f lo (p # ps) i m =
     (case f (push_bit PAGE_SHIFT (lo + i)) (push_bit PAGE_SHIFT p) PAGE_SIZE m of
        None \<Rightarrow> None
      | Some (Inl _, m) \<Rightarrow> Some (False, i, m)
      | Some (Inr _, m) \<Rightarrow> map_pages f lo ps (i + 1) m)"

primrec unmap_pages :: "(nat \<Rightarrow> nat \<Rightarrow> 'm \<Rightarrow> (nat \<times> 'm) option) \<Rightarrow> nat \<Rightarrow> nat \<Rightarrow> 'm \<Rightarrow> 'm option" where
  "unmap_pages u lo 0 m = Some m"
| "unmap_pages u lo (Suc i) m =
     (case u (push_bit PAGE_SHIFT (lo + i)) PAGE_SIZE m of
        None \<Rightarrow> None
      | Some (_, m) \<Rightarrow> unmap_pages u lo i m)"

section \<open>Allocating and freeing a buffer\<close>

text \<open>The exits \<^verbatim>\<open>out_unmap\<close> and \<^verbatim>\<open>out_vunmap\<close>: \<open>i\<close> pages are mapped.\<close>

definition alloc_undo ::
  "mmu_info \<Rightarrow> nat \<times> nat \<Rightarrow> nat list \<Rightarrow> nat \<Rightarrow> nat \<Rightarrow> ipu_dma \<Rightarrow> ((ptr \<times> nat) option \<times> ipu_dma) option" where
  "alloc_undo mi iova pages sz i st =
     map_option (\<lambda>mem. (None, free_iova iova (dma_free_buffer pages sz
         (mark_stale (fst iova) i (st\<lparr>ds_mem := mem\<rparr>)))))
       (unmap_pages (ipu_mmu_unmap mi) (fst iova) i (ds_mem st))"

text \<open>The result is the address and the handle, or nothing.\<close>

definition ipu_dma_alloc ::
  "dma_kernel \<Rightarrow> mmu_info \<Rightarrow> nat \<Rightarrow> ipu_dma \<Rightarrow> ((ptr \<times> nat) option \<times> ipu_dma) option" where
  "ipu_dma_alloc k mi sz st =
     (let sz = page_align 64 sz in
      case alloc_iova k (drop_bit PAGE_SHIFT sz) st of
        None \<Rightarrow> Some (None, st)
      | Some (iova, st) \<Rightarrow>
        (case dma_alloc_buffer k sz st of
           (None, st) \<Rightarrow> Some (None, free_iova iova st)
         | (Some pages, st) \<Rightarrow>
           (case map_pages (mmu_map k mi) (fst iova) pages 0 (ds_mem st) of
              None \<Rightarrow> None
            | Some (False, i, mem) \<Rightarrow> alloc_undo mi iova pages sz i (st\<lparr>ds_mem := mem\<rparr>)
            | Some (True, i, mem) \<Rightarrow>
              let st = st\<lparr>ds_mem := mem\<rparr> in
              case dk_vmap k pages of
                None \<Rightarrow> alloc_undo mi iova pages sz i st
              | Some addr \<Rightarrow>
                  if addr = NULL \<or> addr \<in> ds_vmaps st then alloc_undo mi iova pages sz i st
                  else if \<not> dk_info k then alloc_undo mi iova pages sz i st
                  else
                    let handle = push_bit PAGE_SHIFT (fst iova) in
                    Some (Some (addr, handle),
                      tlb_invalidate (st\<lparr>ds_vmaps := insert addr (ds_vmaps st), ds_objects := ds_objects st + 1,
                        ds_vmas := \<lparr>dv_iova = handle, dv_size = sz, dv_vaddr = addr, dv_pages = pages\<rparr> # ds_vmas st\<rparr>)))))"

text \<open>The buffer's own address is not used; \<open>remove1\<close> takes out what the search found.\<close>

definition ipu_dma_free :: "mmu_info \<Rightarrow> nat \<Rightarrow> nat \<Rightarrow> ipu_dma \<Rightarrow> ipu_dma option" where
  "ipu_dma_free mi sz handle st =
     (case (find_iova (drop_bit PAGE_SHIFT handle) st, find_vma_by_iova handle st) of
        (None, _) \<Rightarrow> Some st
      | (Some _, None) \<Rightarrow> Some st
      | (Some iova, Some info) \<Rightarrow>
          let st = st\<lparr>ds_vmas := remove1 info (ds_vmas st)\<rparr>;
              sz = page_align 64 sz; sz = (if sz > dv_size info then dv_size info else sz);
              st = st\<lparr>ds_vmaps := ds_vmaps st - {dv_vaddr info}\<rparr>; n = snd iova - fst iova + 1 in
          map_option (\<lambda>(_, mem).
              let st = dma_free_buffer (dv_pages info) sz (mark_stale (fst iova) n (st\<lparr>ds_mem := mem\<rparr>)) in
              tlb_invalidate ((free_iova iova st)\<lparr>ds_objects := ds_objects st - 1\<rparr>))
            (ipu_mmu_unmap mi (push_bit PAGE_SHIFT (fst iova)) (push_bit PAGE_SHIFT n) (ds_mem st)))"

text \<open>
  Mapping a buffer into a process: the pages and the addresses they are inserted at.
\<close>

definition ipu_dma_mmap :: "nat \<Rightarrow> nat \<Rightarrow> nat \<Rightarrow> ipu_dma \<Rightarrow> (nat \<times> nat) list result" where
  "ipu_dma_mmap vm_start iova sz st =
     (case find_vma_by_iova iova st of
        None \<Rightarrow> Inl EFAULT
      | Some info \<Rightarrow>
          if vm_start mod PAGE_SIZE \<noteq> 0 then Inl EINVAL
          else if sz > dv_size info then Inl EFAULT
          else Inr (map (\<lambda>i. (vm_start + push_bit PAGE_SHIFT i, dv_pages info ! i))
                 [0..<drop_bit PAGE_SHIFT (page_align 64 sz)]))"

text \<open>
  The pages a scatter list is built from: as many as the size asked for, so \<open>None\<close> when the
  array is shorter.
\<close>

definition ipu_dma_get_sgtable :: "ptr \<Rightarrow> nat \<Rightarrow> nat \<Rightarrow> ipu_dma \<Rightarrow> nat list result option" where
  "ipu_dma_get_sgtable cpu_addr handle sz st =
     (case (case find_vma_by_iova handle st of None \<Rightarrow> find_vma_by_vaddr cpu_addr st | Some v \<Rightarrow> Some v) of
        None \<Rightarrow> Some (Inl ENOMEM)
      | Some info \<Rightarrow>
          let n_pages = drop_bit PAGE_SHIFT (page_align 64 sz) in
          if n_pages > length (dv_pages info) then None else Some (Inr (take n_pages (dv_pages info))))"

section \<open>Scatter lists\<close>

definition sg_pages :: "scatterlist \<Rightarrow> nat" where
  "sg_pages e = drop_bit PAGE_SHIFT (page_align 32 (sg_length e))"

text \<open>The loop of \<^verbatim>\<open>ipu_dma_map_sg\<close>; \<open>a\<close> is the next IOVA page, kept in 32 bits.\<close>

primrec map_entries ::
  "(nat \<Rightarrow> nat \<Rightarrow> nat \<Rightarrow> 'm \<Rightarrow> (unit result \<times> 'm) option) \<Rightarrow> nat \<Rightarrow> scatterlist list \<Rightarrow> 'm \<Rightarrow>
     (bool \<times> nat \<times> scatterlist list \<times> 'm) option" where
  "map_entries f a [] m = Some (True, 0, [], m)"
| "map_entries f a (e # es) m =
     (let address = push_bit PAGE_SHIFT a mod 2 ^ 32 in
      case f address (push_bit PAGE_SHIFT (sg_page e)) (page_align 32 (sg_length e)) m of
        None \<Rightarrow> None
      | Some (Inl _, m) \<Rightarrow> Some (False, 0, e # es, m)
      | Some (Inr _, m) \<Rightarrow>
          map_option (\<lambda>(ok, i, es, m). (ok, i + 1, e\<lparr>sg_dma_address := address\<rparr> # es, m))
            (map_entries f ((a + sg_pages e) mod 2 ^ 32) es m))"

definition ipu_dma_unmap_sg :: "mmu_info \<Rightarrow> scatterlist list \<Rightarrow> nat \<Rightarrow> ipu_dma \<Rightarrow> ipu_dma option" where
  "ipu_dma_unmap_sg mi sglist nents st =
     (if nents = 0 then Some st
      else case find_iova (drop_bit PAGE_SHIFT (sg_dma_address (hd sglist))) st of
        None \<Rightarrow> Some st
      | Some iova \<Rightarrow>
          let n = snd iova - fst iova + 1 in
          map_option (\<lambda>(_, mem). free_iova iova (tlb_invalidate (mark_stale (fst iova) n (st\<lparr>ds_mem := mem\<rparr>))))
            (ipu_mmu_unmap mi (push_bit PAGE_SHIFT (fst iova)) (push_bit PAGE_SHIFT n) (ds_mem st)))"

text \<open>The number of entries that were mapped, 0 for a failure, and the list with its addresses.\<close>

definition ipu_dma_map_sg ::
  "dma_kernel \<Rightarrow> mmu_info \<Rightarrow> scatterlist list \<Rightarrow> ipu_dma \<Rightarrow> (nat \<times> scatterlist list \<times> ipu_dma) option" where
  "ipu_dma_map_sg k mi sglist st =
     (case alloc_iova k (sum_list (map sg_pages sglist)) st of
        None \<Rightarrow> Some (0, sglist, st)
      | Some (iova, st) \<Rightarrow>
        (case map_entries (mmu_map k mi) (fst iova mod 2 ^ 32) sglist (ds_mem st) of
           None \<Rightarrow> None
         | Some (True, i, sglist, mem) \<Rightarrow> Some (length sglist, sglist, tlb_invalidate (st\<lparr>ds_mem := mem\<rparr>))
         | Some (False, i, sglist, mem) \<Rightarrow>
             map_option (\<lambda>st. (0, sglist, st)) (ipu_dma_unmap_sg mi sglist i (st\<lparr>ds_mem := mem\<rparr>))))"

end
