(* ===== verification/DmaBooks.thy ===== *)
theory DmaBooks
  imports Dma
begin

text \<open>
  Buffers of theory Dma: the interface \<open>page_mapper\<close> of the page tables and its proof for theory
  Mmu, allocating and freeing a buffer, and the invariant \<open>dma_inv\<close> of the driver's books.
\<close>

section \<open>What a client needs of the page tables\<close>

text \<open>
  Mapping a range of pages is all or nothing, and unmapping takes out a range whose regions
  have tables; \<open>M\<close> is the mapping, \<open>ready\<close> says which pages have a table, and \<open>dummy\<close> is
  the frame that stands for no page.
\<close>

locale page_mapper =
  fixes map_op :: "nat \<Rightarrow> nat \<Rightarrow> nat \<Rightarrow> 'm \<Rightarrow> (unit result \<times> 'm) option"
    and unmap_op :: "nat \<Rightarrow> nat \<Rightarrow> 'm \<Rightarrow> (nat \<times> 'm) option"
    and wf :: "'m \<Rightarrow> bool"
    and M :: "'m \<Rightarrow> nat \<Rightarrow> u32 option"
    and ready :: "'m \<Rightarrow> nat \<Rightarrow> bool"
    and dummy :: u32
  assumes map_law: "wf m \<Longrightarrow> p + n \<le> 2 ^ 20 \<Longrightarrow> \<forall>k < n. of_nat (f + k) \<noteq> dummy \<Longrightarrow>
      \<exists>r m'. map_op (4096 * p) (4096 * f) (4096 * n) m = Some (r, m') \<and> wf m' \<and>
        (\<forall>q. ready m q \<longrightarrow> ready m' q) \<and>
        (case r of
           Inr _ \<Rightarrow> (\<forall>k < n. M m (p + k) = None \<and> ready m' (p + k)) \<and> M m' = extended p n f (M m)
         | Inl e \<Rightarrow> M m' = M m)"
    and unmap_law: "wf m \<Longrightarrow> p + n \<le> 2 ^ 20 \<Longrightarrow> \<forall>k < n. ready m (p + k) \<Longrightarrow>
      \<exists>m'. unmap_op (4096 * p) (4096 * n) m = Some (4096 * n, m') \<and> wf m' \<and> M m' = cleared p n (M m) \<and>
        ready m' = ready m"

text \<open>A list of pages mapped from \<open>p\<close> on.\<close>

definition paged :: "nat \<Rightarrow> nat list \<Rightarrow> (nat \<Rightarrow> u32 option) \<Rightarrow> nat \<Rightarrow> u32 option" where
  "paged p ps M q = (if p \<le> q \<and> q < p + length ps then Some (of_nat (ps ! (q - p))) else M q)"

lemma paged_Nil [simp]: "paged p [] M = M"
  by (auto simp: paged_def fun_eq_iff)

lemma paged_Cons: "paged (Suc p) ps (extended p 1 x M) = paged p (x # ps) M"
proof
  fix q
  show "paged (Suc p) ps (extended p 1 x M) q = paged p (x # ps) M q"
    by (cases "q = p") (auto simp: paged_def extended_def nth_Cons')
qed

lemma cleared_paged: "length ps = n \<Longrightarrow> \<forall>k < n. M (p + k) = None \<Longrightarrow> cleared p n (paged p ps M) = M"
proof
  fix q
  assume "length ps = n" "\<forall>k < n. M (p + k) = None"
  moreover from this have "M q = None" if "p \<le> q" "q < p + n"
    using that le_Suc_ex [OF that(1)] by auto
  ultimately show "cleared p n (paged p ps M) q = M q"
    by (auto simp: cleared_def paged_def)
qed

lemma cleared_Suc: "cleared p i (cleared (p + i) (Suc 0) M) = cleared p (Suc i) M"
  by (auto simp: cleared_def fun_eq_iff)

lemma page_shift:
  fixes n :: nat
  shows "push_bit PAGE_SHIFT n = 4096 * n" "PAGE_SIZE = 4096" "drop_bit PAGE_SHIFT n = n div 4096"
  by (simp_all add: PAGE_SHIFT_def PAGE_SIZE_def push_bit_eq_mult drop_bit_eq_div)

context page_mapper
begin

lemma map_pages_spec:
  assumes "wf m" "lo + i + length ps \<le> 2 ^ 20" "\<forall>p \<in> set ps. of_nat p \<noteq> dummy"
  shows "\<exists>ok j m'. map_pages map_op lo ps i m = Some (ok, i + j, m') \<and> wf m' \<and> j \<le> length ps \<and>
    (ok \<longrightarrow> j = length ps) \<and> M m' = paged (lo + i) (take j ps) (M m) \<and>
    (\<forall>k < j. M m (lo + i + k) = None \<and> ready m' (lo + i + k)) \<and> (\<forall>q. ready m q \<longrightarrow> ready m' q)"
  using assms
proof (induction ps arbitrary: i m)
  case Nil
  then show ?case by (auto intro!: exI [of _ True] exI [of _ 0])
next
  case (Cons p ps)
  obtain r m1 where r: "map_op (4096 * (lo + i)) (4096 * p) (4096 * 1) m = Some (r, m1)" "wf m1"
      "\<forall>q. ready m q \<longrightarrow> ready m1 q"
      "case r of Inr _ \<Rightarrow> (\<forall>k < 1. M m (lo + i + k) = None \<and> ready m1 (lo + i + k)) \<and> M m1 = extended (lo + i) 1 p (M m)
         | Inl e \<Rightarrow> M m1 = M m"
    using map_law [of m "lo + i" 1 p] Cons.prems by auto
  show ?case
  proof (cases r)
    case (Inl e)
    then show ?thesis using r
      by (auto simp: page_shift intro!: exI [of _ False] exI [of _ 0])
  next
    case (Inr u)
    then have one: "M m (lo + i) = None" "ready m1 (lo + i)" "M m1 = extended (lo + i) 1 p (M m)" using r(4) by auto
    obtain ok j m2 where l: "map_pages map_op lo ps (i + 1) m1 = Some (ok, i + 1 + j, m2)" "wf m2" "j \<le> length ps"
        "ok \<longrightarrow> j = length ps" "M m2 = paged (lo + (i + 1)) (take j ps) (M m1)"
        "\<forall>k < j. M m1 (lo + (i + 1) + k) = None \<and> ready m2 (lo + (i + 1) + k)" "\<forall>q. ready m1 q \<longrightarrow> ready m2 q"
      using Cons.IH [OF r(2), of "i + 1"] Cons.prems by auto
    have "M m2 = paged (lo + i) (p # take j ps) (M m)" using l(5) one(3) paged_Cons [of "lo + i"] by simp
    moreover have "M m (lo + i + k) = None \<and> ready m2 (lo + i + k)" if "k < Suc j" for k
    proof (cases k)
      case 0
      then show ?thesis using one l(7) by simp
    next
      case (Suc k')
      then have "M m1 (lo + i + k) = None" "ready m2 (lo + i + k)" using l(6) that by auto
      then show ?thesis using Suc by (simp add: one(3) extended_def split: if_splits)
    qed
    ultimately show ?thesis
      using l Inr r(1,3) by (intro exI [of _ ok] exI [of _ "Suc j"] exI [of _ m2]) (auto simp: page_shift)
  qed
qed

lemma unmap_pages_spec:
  assumes "wf m" "lo + i \<le> 2 ^ 20" "\<forall>k < i. ready m (lo + k)"
  shows "\<exists>m'. unmap_pages unmap_op lo i m = Some m' \<and> wf m' \<and> M m' = cleared lo i (M m) \<and> ready m' = ready m"
  using assms
proof (induction i arbitrary: m)
  case 0
  then show ?case by simp
next
  case (Suc i)
  obtain m1 where u: "unmap_op (4096 * (lo + i)) (4096 * 1) m = Some (4096 * 1, m1)" "wf m1"
      "M m1 = cleared (lo + i) 1 (M m)" "ready m1 = ready m"
    using unmap_law [of m "lo + i" 1] Suc.prems by auto
  obtain m2 where "unmap_pages unmap_op lo i m1 = Some m2" "wf m2" "M m2 = cleared lo i (M m1)" "ready m2 = ready m1"
    using Suc.IH [OF u(2)] Suc.prems u(4) by auto
  then show ?case using u by (auto simp: page_shift cleared_Suc)
qed

lemma map_then_unmap:
  assumes "wf m" "lo + length ps \<le> 2 ^ 20" "\<forall>p \<in> set ps. of_nat p \<noteq> dummy"
    and "map_pages map_op lo ps 0 m = Some (ok, i, m')"
  shows "\<exists>m''. unmap_pages unmap_op lo i m' = Some m'' \<and> wf m'' \<and> M m'' = M m"
proof -
  obtain j where j: "i = j" "wf m'" "j \<le> length ps" "M m' = paged lo (take j ps) (M m)"
      "\<forall>k < j. M m (lo + k) = None \<and> ready m' (lo + k)"
    using map_pages_spec [of m lo 0 ps] assms by auto
  then have "cleared lo j (M m') = M m" using cleared_paged [of "take j ps" j "M m" lo] by (simp add: min_absorb2)
  then show ?thesis using unmap_pages_spec [of m' lo i] j assms(2) by auto
qed

end

section \<open>The page tables are such\<close>

interpretation mmu: page_mapper "mmu_map k mi" "ipu_mmu_unmap mi" "wf_mmu ext mi" "mapping mi" "installed mi" "mi_dummy_page mi"
  for k mi ext
proof
  show "\<exists>r m'. mmu_map k mi (4096 * p) (4096 * f) (4096 * n) m = Some (r, m') \<and> wf_mmu ext mi m' \<and>
      (\<forall>q. installed mi m q \<longrightarrow> installed mi m' q) \<and>
      (case r of Inr _ \<Rightarrow> (\<forall>k < n. mapping mi m (p + k) = None \<and> installed mi m' (p + k)) \<and>
         mapping mi m' = extended p n f (mapping mi m)
       | Inl e \<Rightarrow> mapping mi m' = mapping mi m)"
    if "wf_mmu ext mi m" "p + n \<le> 2 ^ 20" "\<forall>k < n. of_nat (f + k) \<noteq> mi_dummy_page mi" for m p n f
    using map_range_spec [OF that, of "dk_free_page k"] by (fastforce simp: mmu_map_def split: sum.splits)
qed (use unmap_range_spec in blast)

section \<open>Buffers of pages\<close>

text \<open>
  What the state holds beside the tables: the buffers' pages are no frames of the tables and
  no frame 0, and no page was given back that was not held.
\<close>

definition dma_ok :: "u32 set \<Rightarrow> mmu_info \<Rightarrow> ipu_dma \<Rightarrow> bool" where
  "dma_ok ext mi st \<longleftrightarrow> wf_mmu ext mi (ds_mem st) \<and> \<not> ds_bad_free st"

text \<open>Pages that were just taken: held, cleared, apart from what was held and from the tables.\<close>

definition fresh_pages :: "nat list \<Rightarrow> ipu_dma \<Rightarrow> ipu_dma \<Rightarrow> bool" where
  "fresh_pages ps st st' \<longleftrightarrow> distinct ps \<and> set ps \<inter> ds_pages st = {} \<and> ds_pages st' = ds_pages st \<union> set ps \<and>
     set ps \<subseteq> ds_zero st' \<and> (\<forall>p \<in> set ps. p < 2 ^ 32 \<and> p \<notin> unat ` pm_pages (ds_mem st))"

text \<open>Nothing but the buffers' pages and the cleared ones differs.\<close>

definition pages_only :: "ipu_dma \<Rightarrow> ipu_dma \<Rightarrow> bool" where
  "pages_only st st' \<longleftrightarrow> ds_mem st' = ds_mem st \<and> ds_iovas st' = ds_iovas st \<and> ds_vmas st' = ds_vmas st \<and>
     ds_vmaps st' = ds_vmaps st \<and> ds_objects st' = ds_objects st \<and> ds_stale st' = ds_stale st \<and>
     ds_exposed st' = ds_exposed st \<and> ds_bad_free st' = ds_bad_free st"

lemma alloc_pages_spec:
  assumes "alloc_pages k order st = Some (p, st')"
  shows "pages_only st st'" "{p..<p + 2 ^ order} \<inter> ds_pages st = {}" "p + 2 ^ order \<le> 2 ^ 32"
    "{p..<p + 2 ^ order} \<inter> unat ` pm_pages (ds_mem st) = {}"
    "ds_pages st' = ds_pages st \<union> {p..<p + 2 ^ order}" "ds_zero st' = ds_zero st - {p..<p + 2 ^ order}"
  using assms by (auto simp: alloc_pages_def pages_only_def split: option.splits if_splits)

lemma alloc_up_to_spec:
  "alloc_up_to k n st = Some (p, order, st') \<Longrightarrow> order \<le> n \<and> alloc_pages k order st = Some (p, st')"
  by (induction n) (auto split: option.splits)

lemma pages_only_refl [simp]: "pages_only st st"
  by (simp add: pages_only_def)

lemma pages_only_trans: "pages_only a b \<Longrightarrow> pages_only b c \<Longrightarrow> pages_only a c"
  by (simp add: pages_only_def)

lemma alloc_blocks_spec:
  "alloc_blocks k cnt pages st = (ok, pages', st') \<Longrightarrow>
     \<exists>ps. pages' = pages @ ps \<and> (ok \<longrightarrow> length ps = cnt) \<and> fresh_pages ps st st' \<and> pages_only st st' \<and>
       ds_zero st - set ps \<subseteq> ds_zero st'"
proof (induction k cnt pages st rule: alloc_blocks.induct)
  case (1 k cnt pages st)
  consider "cnt = 0" | "cnt \<noteq> 0" "alloc_up_to k (fls_bit cnt) st = None"
    | p order s where "cnt \<noteq> 0" "alloc_up_to k (fls_bit cnt) st = Some (p, order, s)" by (metis prod_cases3 option.exhaust)
  then show ?case
  proof cases
    case 1
    then show ?thesis using "1.prems" by (subst (asm) alloc_blocks.simps) (simp add: fresh_pages_def)
  next
    case 2
    then show ?thesis using "1.prems" by (subst (asm) alloc_blocks.simps) (simp add: fresh_pages_def)
  next
    case 3
    let ?new = "[p..<p + 2 ^ order]" and ?s = "dma_clear_buffer p (2 ^ order) s"
    have "order \<le> fls_bit cnt" and a: "alloc_pages k order st = Some (p, s)" using alloc_up_to_spec [OF 3(2)] by auto
    have "2 ^ order \<le> (2 :: nat) ^ fls_bit cnt" by (rule power_increasing) (simp_all add: \<open>order \<le> fls_bit cnt\<close>)
    also have "\<dots> \<le> cnt" using fls_pow_le [of cnt] 3(1) by blast
    finally have le: "2 ^ order \<le> cnt" .
    note sp = alloc_pages_spec [OF a]
    have clr: "pages_only st ?s" "ds_pages ?s = ds_pages st \<union> set ?new" "ds_zero ?s = ds_zero st \<union> set ?new"
      using sp by (auto simp: dma_clear_buffer_def pages_only_def)
    have "alloc_blocks k (cnt - 2 ^ order) (pages @ ?new) ?s = (ok, pages', st')"
      using "1.prems" 3 by (subst (asm) alloc_blocks.simps) simp
    from "1.IH" [OF 3(1) 3(2) refl refl this] obtain ps where ps: "pages' = (pages @ ?new) @ ps"
        "ok \<longrightarrow> length ps = cnt - 2 ^ order" "fresh_pages ps ?s st'" "pages_only ?s st'" "ds_zero ?s - set ps \<subseteq> ds_zero st'"
      by blast
    have po: "pages_only st st'" using clr(1) ps(4) pages_only_trans by blast
    have mem: "ds_mem ?s = ds_mem st" using clr(1) by (simp add: pages_only_def)
    have "fresh_pages (?new @ ps) st st'"
      using ps(3,5) clr(2,3) sp(2-4) unfolding fresh_pages_def mem
      by (auto simp: disjoint_iff)
    moreover have "ds_zero st - set (?new @ ps) \<subseteq> ds_zero st'" using ps(5) clr(3) by auto
    moreover have "ok \<longrightarrow> length (?new @ ps) = cnt" using ps(2) le by simp
    ultimately show ?thesis using ps(1) po by (intro exI [of _ "?new @ ps"]) auto
  qed
qed

lemma free_pages_fold:
  "\<forall>p \<in> set ps. p \<in> ds_pages st \<Longrightarrow> distinct ps \<Longrightarrow>
     fold free_dma_page ps st = st\<lparr>ds_pages := ds_pages st - set ps,
       ds_exposed := ds_exposed st \<or> ps \<noteq> [] \<and> ds_stale st \<noteq> {}\<rparr>"
proof (induction ps arbitrary: st)
  case (Cons p ps)
  have f: "free_dma_page p st = st\<lparr>ds_pages := ds_pages st - {p}, ds_exposed := ds_exposed st \<or> ds_stale st \<noteq> {}\<rparr>"
    using Cons.prems by (simp add: free_dma_page_def)
  have d: "ds_pages st - {p} - set ps = ds_pages st - set (p # ps)" by auto
  have "fold free_dma_page ps (free_dma_page p st) = (free_dma_page p st)\<lparr>ds_pages := ds_pages (free_dma_page p st) - set ps,
      ds_exposed := ds_exposed (free_dma_page p st) \<or> ps \<noteq> [] \<and> ds_stale (free_dma_page p st) \<noteq> {}\<rparr>"
    using Cons.prems by (intro Cons.IH) (auto simp: f)
  then show ?case using f by (simp add: d [simplified])
qed simp

lemma free_buffer_fold:
  "\<forall>p \<in> set ps. p \<in> ds_pages st \<Longrightarrow> distinct ps \<Longrightarrow>
     fold (\<lambda>p st. free_dma_page p (dma_clear_buffer p 1 st)) ps st =
       st\<lparr>ds_pages := ds_pages st - set ps, ds_zero := ds_zero st \<union> set ps,
         ds_exposed := ds_exposed st \<or> ps \<noteq> [] \<and> ds_stale st \<noteq> {}\<rparr>"
proof (induction ps arbitrary: st)
  case (Cons p ps)
  let ?s = "free_dma_page p (dma_clear_buffer p 1 st)"
  have f: "?s = st\<lparr>ds_pages := ds_pages st - {p}, ds_zero := ds_zero st \<union> {p},
      ds_exposed := ds_exposed st \<or> ds_stale st \<noteq> {}\<rparr>"
    using Cons.prems by (simp add: free_dma_page_def dma_clear_buffer_def)
  have d: "ds_pages st - {p} - set ps = ds_pages st - set (p # ps)"
    "ds_zero st \<union> {p} \<union> set ps = ds_zero st \<union> set (p # ps)" by auto
  have "fold (\<lambda>p st. free_dma_page p (dma_clear_buffer p 1 st)) ps ?s =
      ?s\<lparr>ds_pages := ds_pages ?s - set ps, ds_zero := ds_zero ?s \<union> set ps,
        ds_exposed := ds_exposed ?s \<or> ps \<noteq> [] \<and> ds_stale ?s \<noteq> {}\<rparr>"
    using Cons.prems by (intro Cons.IH) (auto simp: f [unfolded One_nat_def])
  then show ?case using f d by simp
qed simp

text \<open>The same as far as the driver's books go.\<close>

definition dma_same :: "mmu_info \<Rightarrow> ipu_dma \<Rightarrow> ipu_dma \<Rightarrow> bool" where
  "dma_same mi st st' \<longleftrightarrow> mapping mi (ds_mem st') = mapping mi (ds_mem st) \<and> ds_iovas st' = ds_iovas st \<and>
     ds_vmas st' = ds_vmas st \<and> ds_pages st' = ds_pages st \<and> ds_vmaps st' = ds_vmaps st \<and>
     ds_objects st' = ds_objects st \<and> ds_bad_free st' = ds_bad_free st"

lemma alloc_iova_spec:
  assumes "alloc_iova k n st = Some (iova, st')" "drop_bit PAGE_SHIFT (dk_mask k) < 2 ^ 20"
  obtains lo where "iova = (lo, lo + n - 1)" "0 < n" "lo + n \<le> 2 ^ 20" "st' = st\<lparr>ds_iovas := iova # ds_iovas st\<rparr>"
    "\<forall>(a, b) \<in> set (ds_iovas st). b < lo \<or> lo + n - 1 < a"
  using assms by (fastforce simp: alloc_iova_def list_ex_iff split: option.splits if_splits)

lemma alloc_buffer_spec:
  assumes "dma_alloc_buffer k sz st = (r, st')"
  shows "case r of
      Some ps \<Rightarrow> length ps = sz div 4096 \<and> fresh_pages ps st st' \<and> pages_only (st\<lparr>ds_objects := ds_objects st + 1\<rparr>) st'
    | None \<Rightarrow> ds_mem st' = ds_mem st \<and> dma_same mi st st'"
proof (cases "dk_array k (drop_bit PAGE_SHIFT sz * 8)")
  case False
  then show ?thesis using assms by (auto simp: dma_alloc_buffer_def dma_same_def Let_def)
next
  case True
  let ?st = "st\<lparr>ds_objects := ds_objects st + 1\<rparr>"
  obtain ok ps s where b: "alloc_blocks k (drop_bit PAGE_SHIFT sz) [] ?st = (ok, ps, s)" by (rule prod_cases3)
  have sp: "ok \<longrightarrow> length ps = sz div 4096" "fresh_pages ps ?st s" "pages_only ?st s"
    using alloc_blocks_spec [OF b] by (auto simp: page_shift)
  have fresh: "fresh_pages ps st s" using sp(2) by (simp add: fresh_pages_def)
  show ?thesis
  proof (cases ok)
    case ok: True
    then show ?thesis using assms True b sp fresh by (auto simp: dma_alloc_buffer_def Let_def)
  next
    case False
    have "free_dma_pages (rev ps) s = s\<lparr>ds_pages := ds_pages s - set (rev ps),
        ds_exposed := ds_exposed s \<or> rev ps \<noteq> [] \<and> ds_stale s \<noteq> {}\<rparr>"
      unfolding free_dma_pages_def by (rule free_pages_fold) (use fresh in \<open>auto simp: fresh_pages_def\<close>)
    moreover have "ds_pages s - set (rev ps) = ds_pages st" using fresh by (auto simp: fresh_pages_def)
    ultimately show ?thesis using assms True b False sp(3)
      by (auto simp: dma_alloc_buffer_def Let_def dma_same_def pages_only_def)
  qed
qed

section \<open>The driver's books\<close>

text \<open>
  A buffer of the list: it has a range of its own, whose pages are mapped to the buffer's.
\<close>

definition vma_ok :: "mmu_info \<Rightarrow> ipu_dma \<Rightarrow> ipu_dma_vma \<Rightarrow> bool" where
  "vma_ok mi st v \<longleftrightarrow> (\<exists>lo. dv_iova v = 4096 * lo \<and> dv_size v = 4096 * length (dv_pages v) \<and> dv_pages v \<noteq> [] \<and>
     (lo, lo + length (dv_pages v) - 1) \<in> set (ds_iovas st) \<and>
     (\<forall>i < length (dv_pages v). mapping mi (ds_mem st) (lo + i) = Some (of_nat (dv_pages v ! i))) \<and>
     set (dv_pages v) \<subseteq> ds_pages st \<and> (\<forall>p \<in> set (dv_pages v). p < 2 ^ 32))"

definition dma_inv :: "u32 set \<Rightarrow> mmu_info \<Rightarrow> ipu_dma \<Rightarrow> bool" where
  "dma_inv ext mi st \<longleftrightarrow> wf_mmu ext mi (ds_mem st) \<and> \<not> ds_bad_free st \<and>
     (\<forall>(a, b) \<in> set (ds_iovas st). a \<le> b \<and> b < 2 ^ 20) \<and> distinct (ds_iovas st) \<and>
     pairwise (\<lambda>(a, b) (c, d). b < c \<or> d < a) (set (ds_iovas st)) \<and>
     (\<forall>q. mapping mi (ds_mem st) q \<noteq> None \<longrightarrow> (\<exists>(a, b) \<in> set (ds_iovas st). a \<le> q \<and> q \<le> b)) \<and>
     (\<forall>v \<in> set (ds_vmas st). vma_ok mi st v) \<and>
     distinct (concat (map dv_pages (ds_vmas st))) \<and> distinct (map dv_iova (ds_vmas st))"

lemma inv_same:
  assumes "dma_inv ext mi st" "dma_same mi st st'" "wf_mmu ext mi (ds_mem st')"
  shows "dma_inv ext mi st'"
  using assms by (simp add: dma_inv_def dma_same_def vma_ok_def)

lemma inv_iova_in:
  assumes "dma_inv ext mi st" "\<forall>(a, b) \<in> set (ds_iovas st). b < lo \<or> lo + n - 1 < a" "i < n"
  shows "mapping mi (ds_mem st) (lo + i) = None"
proof (rule ccontr)
  assume "mapping mi (ds_mem st) (lo + i) \<noteq> None"
  then obtain a b where "(a, b) \<in> set (ds_iovas st)" "a \<le> lo + i" "lo + i \<le> b"
    using assms(1) unfolding dma_inv_def by blast
  then show False using assms(2,3) by fastforce
qed

text \<open>A range more.\<close>

lemma inv_add_iova:
  assumes "dma_inv ext mi st" "0 < n" "lo + n \<le> 2 ^ 20" "\<forall>(a, b) \<in> set (ds_iovas st). b < lo \<or> lo + n - 1 < a"
  shows "dma_inv ext mi (st\<lparr>ds_iovas := (lo, lo + n - 1) # ds_iovas st\<rparr>)"
  using assms unfolding dma_inv_def vma_ok_def
  by (auto simp: pairwise_insert split: prod.splits; fastforce)

section \<open>Allocating a buffer\<close>

lemma page_align_dvd: "\<exists>n. page_align w x = 4096 * n"
  by (simp add: page_align_def round_down_def page_shift minus_mod_eq_mult_div)

lemma pages_not_dummy:
  assumes "wf_mmu ext mi (ds_mem st)" "fresh_pages ps st st'" "p \<in> set ps"
  shows "of_nat p \<noteq> mi_dummy_page mi"
proof
  assume "of_nat p = mi_dummy_page mi"
  moreover have "p < 2 ^ 32" using assms(2,3) by (simp add: fresh_pages_def)
  ultimately have "unat (mi_dummy_page mi) = p" by (metis frame_unat)
  moreover have "mi_dummy_page mi \<in> pm_pages (ds_mem st)" using wfD(11) [OF assms(1)] by (simp add: fixed_def)
  ultimately show False using assms(2,3) by (auto simp: fresh_pages_def)
qed

text \<open>An allocation that is undone leaves the books as they were.\<close>

lemma alloc_undo_spec:
  assumes "wf_mmu ext mi (ds_mem st0)" "lo + length ps \<le> 2 ^ 20" "4096 * length ps = sz"
    and "fresh_pages ps st0 st1" "pages_only (st0\<lparr>ds_objects := ds_objects st0 + 1\<rparr>) st1"
    and "map_pages (mmu_map k mi) lo ps 0 (ds_mem st1) = Some (ok, i, mem)"
  shows "\<exists>st'. alloc_undo mi (lo, hi) ps sz i (st1\<lparr>ds_mem := mem, ds_iovas := (lo, hi) # ds_iovas st1\<rparr>) = Some (None, st') \<and>
    dma_same mi st0 st' \<and> wf_mmu ext mi (ds_mem st')"
proof -
  have mem1: "ds_mem st1 = ds_mem st0" using assms(5) by (simp add: pages_only_def)
  obtain m where m: "unmap_pages (ipu_mmu_unmap mi) lo i mem = Some m" "wf_mmu ext mi m"
      "mapping mi m = mapping mi (ds_mem st0)"
    using mmu.map_then_unmap [OF assms(1) assms(2) _ assms(6) [unfolded mem1]] pages_not_dummy [OF assms(1,4)] by blast
  let ?s = "mark_stale lo i (st1\<lparr>ds_iovas := (lo, hi) # ds_iovas st1, ds_mem := m\<rparr>)"
  have ps: "take (drop_bit PAGE_SHIFT sz) ps = ps" using assms(3) by (simp add: page_shift)
  have fr: "fold (\<lambda>p st. free_dma_page p (dma_clear_buffer p 1 st)) ps ?s =
      ?s\<lparr>ds_pages := ds_pages ?s - set ps, ds_zero := ds_zero ?s \<union> set ps,
        ds_exposed := ds_exposed ?s \<or> ps \<noteq> [] \<and> ds_stale ?s \<noteq> {}\<rparr>"
    by (rule free_buffer_fold) (use assms(4) in \<open>auto simp: fresh_pages_def mark_stale_def\<close>)
  have pages: "ds_pages st1 - set ps = ds_pages st0" using assms(4) by (auto simp: fresh_pages_def)
  have u: "alloc_undo mi (lo, hi) ps sz i (st1\<lparr>ds_mem := mem, ds_iovas := (lo, hi) # ds_iovas st1\<rparr>) =
      Some (None, free_iova (lo, hi) (dma_free_buffer ps sz ?s))"
    using m(1) by (simp add: alloc_undo_def)
  have "dma_same mi st0 (free_iova (lo, hi) (dma_free_buffer ps sz ?s))"
    using m(3) assms(5) pages
    unfolding dma_free_buffer_def Let_def ps fr by (simp add: dma_same_def free_iova_def mark_stale_def pages_only_def)
  moreover have "ds_mem (free_iova (lo, hi) (dma_free_buffer ps sz ?s)) = m"
    unfolding dma_free_buffer_def Let_def ps fr by (simp add: free_iova_def mark_stale_def)
  ultimately show ?thesis using u m(2) by auto
qed

text \<open>What an allocation that succeeds adds.\<close>

definition buffer_added ::
  "mmu_info \<Rightarrow> nat \<Rightarrow> nat list \<Rightarrow> ptr \<Rightarrow> ipu_dma \<Rightarrow> ipu_dma \<Rightarrow> bool" where
  "buffer_added mi lo ps addr st st' \<longleftrightarrow> ps \<noteq> [] \<and> distinct ps \<and> set ps \<inter> ds_pages st = {} \<and> set ps \<subseteq> ds_zero st' \<and>
     lo + length ps \<le> 2 ^ 20 \<and> (\<forall>(a, b) \<in> set (ds_iovas st). b < lo \<or> lo + length ps - 1 < a) \<and>
     (\<forall>p \<in> set ps. p < 2 ^ 32) \<and>
     mapping mi (ds_mem st') = paged lo ps (mapping mi (ds_mem st)) \<and>
     ds_iovas st' = (lo, lo + length ps - 1) # ds_iovas st \<and>
     ds_vmas st' = \<lparr>dv_iova = 4096 * lo, dv_size = 4096 * length ps, dv_vaddr = addr, dv_pages = ps\<rparr> # ds_vmas st \<and>
     ds_pages st' = ds_pages st \<union> set ps \<and> addr \<noteq> NULL \<and> addr \<notin> ds_vmaps st \<and> ds_vmaps st' = insert addr (ds_vmaps st) \<and>
     ds_objects st' = ds_objects st + 2 \<and> ds_bad_free st' = ds_bad_free st \<and> ds_stale st' = {}"

lemma ipu_dma_alloc_spec:
  assumes inv: "dma_inv ext mi st" and limit: "drop_bit PAGE_SHIFT (dk_mask k) < 2 ^ 20"
  shows "\<exists>r st'. ipu_dma_alloc k mi sz st = Some (r, st') \<and> wf_mmu ext mi (ds_mem st') \<and>
    (case r of None \<Rightarrow> dma_same mi st st'
     | Some (addr, handle) \<Rightarrow> \<exists>lo ps. handle = 4096 * lo \<and> 4096 * length ps = page_align 64 sz \<and>
         buffer_added mi lo ps addr st st')"
proof -
  obtain n where n: "page_align 64 sz = 4096 * n" using page_align_dvd by blast
  have wf: "wf_mmu ext mi (ds_mem st)" using inv by (simp add: dma_inv_def)
  have dn: "drop_bit PAGE_SHIFT (page_align 64 sz) = n" by (simp add: n page_shift)
  show ?thesis
  proof (cases "alloc_iova k n st")
    case None
    then show ?thesis using wf by (auto simp: ipu_dma_alloc_def Let_def dn dma_same_def)
  next
    case (Some a)
    obtain iova st1 where a: "a = (iova, st1)" by fastforce
    obtain lo where lo: "iova = (lo, lo + n - 1)" "0 < n" "lo + n \<le> 2 ^ 20" "st1 = st\<lparr>ds_iovas := iova # ds_iovas st\<rparr>"
        "\<forall>(a, b) \<in> set (ds_iovas st). b < lo \<or> lo + n - 1 < a"
      using alloc_iova_spec [OF Some [unfolded a] limit] by blast
    obtain r st2 where b: "dma_alloc_buffer k (page_align 64 sz) st1 = (r, st2)" by fastforce
    note bs = alloc_buffer_spec [OF b, of mi]
    show ?thesis
    proof (cases r)
      case None
      have "dma_same mi st (free_iova iova st2)" "ds_mem (free_iova iova st2) = ds_mem st"
        using bs None lo(4) by (auto simp: dma_same_def free_iova_def)
      then show ?thesis using wf by (simp add: ipu_dma_alloc_def Let_def dn Some a b None)
    next
      case ps: (Some ps)
      have len: "length ps = n" and fresh: "fresh_pages ps st1 st2"
        and po: "pages_only (st1\<lparr>ds_objects := ds_objects st1 + 1\<rparr>) st2" using bs ps by (auto simp: n)
      let ?st2 = "st2\<lparr>ds_iovas := ds_iovas st\<rparr>"
      have fr: "fresh_pages ps st ?st2" "pages_only (st\<lparr>ds_objects := ds_objects st + 1\<rparr>) ?st2"
        using fresh po lo(4) by (auto simp: fresh_pages_def pages_only_def)
      have iov: "ds_iovas st2 = (lo, lo + n - 1) # ds_iovas st" using po lo(1,4) by (simp add: pages_only_def)
      have mem2: "ds_mem st2 = ds_mem st" using po lo(4) by (simp add: pages_only_def)
      obtain ok j mem where m: "map_pages (mmu_map k mi) lo ps 0 (ds_mem st2) = Some (ok, j, mem)" "wf_mmu ext mi mem"
          "ok \<longrightarrow> j = length ps" "mapping mi mem = paged lo (take j ps) (mapping mi (ds_mem st))"
        using mmu.map_pages_spec [of ext mi "ds_mem st" lo 0 ps k] wf lo(3) len pages_not_dummy [OF wf fr(1)] mem2 by auto
      have st2: "st2\<lparr>ds_mem := mem\<rparr> = ?st2\<lparr>ds_mem := mem, ds_iovas := (lo, lo + n - 1) # ds_iovas ?st2\<rparr>"
        using iov by simp
      obtain st' where u: "alloc_undo mi (lo, lo + n - 1) ps (page_align 64 sz) j (st2\<lparr>ds_mem := mem\<rparr>) = Some (None, st')"
          "dma_same mi st st'" "wf_mmu ext mi (ds_mem st')"
        using alloc_undo_spec [OF wf _ _ fr, of lo "page_align 64 sz" k ok j mem "lo + n - 1"] lo(3) m(1) n len
        unfolding st2 by auto
      let ?a = "dk_vmap k ps"
      show ?thesis
      proof (cases "ok \<and> ?a \<noteq> None \<and> the ?a \<noteq> NULL \<and> the ?a \<notin> ds_vmaps st2 \<and> dk_info k")
        case False
        have "ipu_dma_alloc k mi sz st = Some (None, st')"
        proof (cases ok)
          case True
          then show ?thesis using False u(1) m(1)
            by (cases ?a) (auto simp: ipu_dma_alloc_def Let_def dn Some a b ps lo(1))
        next
          case False
          then show ?thesis using u(1) m(1) by (simp add: ipu_dma_alloc_def Let_def dn Some a b ps lo(1))
        qed
        then show ?thesis using u by auto
      next
        case True
        then obtain addr where addr: "?a = Some addr" "addr \<noteq> NULL" "addr \<notin> ds_vmaps st2" by auto
        let ?st' = "tlb_invalidate ((st2\<lparr>ds_mem := mem\<rparr>)\<lparr>ds_vmaps := insert addr (ds_vmaps st2), ds_objects := ds_objects st2 + 1,
            ds_vmas := \<lparr>dv_iova = 4096 * lo, dv_size = page_align 64 sz, dv_vaddr = addr, dv_pages = ps\<rparr> # ds_vmas st2\<rparr>)"
        have e: "ipu_dma_alloc k mi sz st = Some (Some (addr, 4096 * lo), ?st')"
          using True addr m(1) by (simp add: ipu_dma_alloc_def Let_def dn Some a b ps lo(1) page_shift(1))
        have "buffer_added mi lo ps addr st ?st'"
          using fr lo m addr len po n True iov
          by (auto simp: buffer_added_def tlb_invalidate_def fresh_pages_def pages_only_def)
        then show ?thesis using e m(2) n len by (auto simp: tlb_invalidate_def)
      qed
    qed
  qed
qed

lemma paged_at: "i < length ps \<Longrightarrow> paged lo ps M (lo + i) = Some (of_nat (ps ! i))"
  "q < lo \<or> lo + length ps \<le> q \<Longrightarrow> paged lo ps M q = M q"
  by (auto simp: paged_def)

text \<open>The range of a buffer holds none of another range's pages.\<close>

lemma range_apart:
  fixes rs :: "(nat \<times> nat) list"
  assumes "\<forall>(a, b) \<in> set rs. b < lo \<or> lo + n - 1 < a" "(a, a + m - 1) \<in> set rs" "i < m" "0 < n"
  shows "a + i < lo \<or> lo + n \<le> a + i"
proof -
  have "a + m - 1 < lo \<or> lo + n - 1 < a" using bspec [OF assms(1,2)] by simp
  then show ?thesis using assms(3,4) by linarith
qed

lemma inv_vma:
  assumes "dma_inv ext mi st" "v \<in> set (ds_vmas st)"
  obtains lo where "dv_iova v = 4096 * lo" "dv_size v = 4096 * length (dv_pages v)" "dv_pages v \<noteq> []"
    "(lo, lo + length (dv_pages v) - 1) \<in> set (ds_iovas st)" "set (dv_pages v) \<subseteq> ds_pages st"
    "\<forall>p \<in> set (dv_pages v). p < 2 ^ 32"
    "\<forall>i < length (dv_pages v). mapping mi (ds_mem st) (lo + i) = Some (of_nat (dv_pages v ! i))"
proof -
  have "vma_ok mi st v" using assms by (simp add: dma_inv_def)
  then show thesis using that unfolding vma_ok_def by blast
qed

lemma inv_added:
  assumes inv: "dma_inv ext mi st" and add: "buffer_added mi lo ps addr st st'" and wf: "wf_mmu ext mi (ds_mem st')"
  shows "dma_inv ext mi st'"
proof -
  note a = add [unfolded buffer_added_def]
  have ne: "0 < length ps" using a by simp
  have iov: "ds_iovas st' = (lo, lo + length ps - 1) # ds_iovas st" using a by blast
  have apart: "\<forall>(a, b) \<in> set (ds_iovas st). b < lo \<or> lo + length ps - 1 < a" using a by blast
  have one: "dma_inv ext mi (st\<lparr>ds_iovas := (lo, lo + length ps - 1) # ds_iovas st\<rparr>)"
    by (rule inv_add_iova [OF inv ne]) (use a apart in simp_all)
  have old: "vma_ok mi st' v" if "v \<in> set (ds_vmas st)" for v
  proof -
    obtain l where l: "dv_iova v = 4096 * l" "dv_size v = 4096 * length (dv_pages v)" "dv_pages v \<noteq> []"
        "(l, l + length (dv_pages v) - 1) \<in> set (ds_iovas st)" "set (dv_pages v) \<subseteq> ds_pages st"
        "\<forall>p \<in> set (dv_pages v). p < 2 ^ 32"
        "\<forall>i < length (dv_pages v). mapping mi (ds_mem st) (l + i) = Some (of_nat (dv_pages v ! i))"
      using inv_vma [OF inv \<open>v \<in> _\<close>] by blast
    have "mapping mi (ds_mem st') (l + i) = mapping mi (ds_mem st) (l + i)" if "i < length (dv_pages v)" for i
      using range_apart [OF apart l(4) that ne] a paged_at(2) [of "l + i" lo ps] by simp
    then show ?thesis using l iov a unfolding vma_ok_def by (intro exI [of _ l]) auto
  qed
  let ?v = "\<lparr>dv_iova = 4096 * lo, dv_size = 4096 * length ps, dv_vaddr = addr, dv_pages = ps\<rparr>"
  have new: "vma_ok mi st' ?v"
    unfolding vma_ok_def by (rule exI [of _ lo]) (use a iov paged_at(1) [of _ ps lo] in auto)
  have vmas: "ds_vmas st' = ?v # ds_vmas st" using a by blast
  have "set (dv_pages v) \<subseteq> ds_pages st" if "v \<in> set (ds_vmas st)" for v
    using inv that unfolding dma_inv_def vma_ok_def by blast
  then have "set ps \<inter> set (concat (map dv_pages (ds_vmas st))) = {}" using a by fastforce
  then have dp: "distinct (concat (map dv_pages (ds_vmas st')))"
    using inv a by (simp add: vmas dma_inv_def)
  have "dv_iova v \<noteq> 4096 * lo" if "v \<in> set (ds_vmas st)" for v
  proof
    assume "dv_iova v = 4096 * lo"
    then have "(lo, lo + length (dv_pages v) - 1) \<in> set (ds_iovas st)" "dv_pages v \<noteq> []"
      using inv that unfolding dma_inv_def vma_ok_def by auto
    then show False using range_apart [OF apart, of lo "length (dv_pages v)" 0] ne by simp
  qed
  then have "4096 * lo \<notin> dv_iova ` set (ds_vmas st)" by (metis imageE)
  then have di: "distinct (map dv_iova (ds_vmas st'))" using inv by (simp add: vmas dma_inv_def)
  have cover: "\<exists>(a, b) \<in> set (ds_iovas st'). a \<le> q \<and> q \<le> b" if "mapping mi (ds_mem st') q \<noteq> None" for q
  proof (cases "lo \<le> q \<and> q < lo + length ps")
    case True
    then show ?thesis using iov by auto
  next
    case False
    then have "mapping mi (ds_mem st) q \<noteq> None" using that a paged_at(2) [of q lo ps] by auto
    then show ?thesis using inv iov unfolding dma_inv_def by fastforce
  qed
  show ?thesis
    unfolding dma_inv_def
    using wf one old new dp di cover a unfolding vmas dma_inv_def iov by auto
qed

lemma find_unique: "x \<in> set xs \<Longrightarrow> P x \<Longrightarrow> (\<And>y. y \<in> set xs \<Longrightarrow> P y \<Longrightarrow> y = x) \<Longrightarrow> List.find P xs = Some x"
proof (induction xs)
  case (Cons y ys)
  show ?case
  proof (cases "P y")
    case True
    then have "y = x" by (intro Cons.prems(3)) simp_all
    then show ?thesis using True by simp
  next
    case False
    then have x: "x \<in> set ys" using Cons.prems(1,2) by auto
    have "List.find P ys = Some x"
      by (rule Cons.IH [OF x Cons.prems(2)]) (rule Cons.prems(3), simp_all)
    then show ?thesis using False by simp
  qed
qed simp

lemma inv_one_range:
  assumes "dma_inv ext mi st" "(a, b) \<in> set (ds_iovas st)" "(c, d) \<in> set (ds_iovas st)"
    "a \<le> q" "q \<le> b" "c \<le> q" "q \<le> d"
  shows "(a, b) = (c, d)"
proof (rule ccontr)
  assume "(a, b) \<noteq> (c, d)"
  then have "b < c \<or> d < a" using assms(1-3) unfolding dma_inv_def pairwise_def by fastforce
  then show False using assms(4-7) by auto
qed

lemma inv_find_iova:
  assumes "dma_inv ext mi st" "(a, b) \<in> set (ds_iovas st)" "a \<le> q" "q \<le> b"
  shows "find_iova q st = Some (a, b)"
  unfolding find_iova_def
proof (rule find_unique [OF assms(2)])
  fix y
  assume y: "y \<in> set (ds_iovas st)" "case y of (a, b) \<Rightarrow> a \<le> q \<and> q \<le> b"
  obtain c d where "y = (c, d)" by fastforce
  then show "y = (a, b)" using inv_one_range [OF assms(1), of c d a b q] y assms(2-4) by simp
qed (use assms in simp)

text \<open>A buffer of the list, found by any address in it.\<close>

lemma inv_find_vma:
  assumes inv: "dma_inv ext mi st" and v: "v \<in> set (ds_vmas st)" and h: "dv_iova v \<le> h" "h < dv_iova v + dv_size v"
  obtains lo n where "dv_iova v = 4096 * lo" "n = length (dv_pages v)" "0 < n" "dv_size v = 4096 * n"
    "(lo, lo + n - 1) \<in> set (ds_iovas st)" "lo + n \<le> 2 ^ 20" "set (dv_pages v) \<subseteq> ds_pages st"
    "\<forall>i < n. mapping mi (ds_mem st) (lo + i) = Some (of_nat (dv_pages v ! i))"
    "find_iova (h div 4096) st = Some (lo, lo + n - 1)" "find_vma_by_iova h st = Some v"
proof -
  have at: "\<exists>lo. dv_iova u = 4096 * lo \<and> (lo, lo + length (dv_pages u) - 1) \<in> set (ds_iovas st) \<and>
      lo \<le> h div 4096 \<and> h div 4096 \<le> lo + length (dv_pages u) - 1 \<and> dv_size u = 4096 * length (dv_pages u) \<and>
      dv_pages u \<noteq> [] \<and> set (dv_pages u) \<subseteq> ds_pages st \<and>
      (\<forall>i < length (dv_pages u). mapping mi (ds_mem st) (lo + i) = Some (of_nat (dv_pages u ! i)))"
    if "u \<in> set (ds_vmas st)" "dv_iova u \<le> h" "h < dv_iova u + dv_size u" for u
  proof -
    note u = that
    obtain l where l: "dv_iova u = 4096 * l" "dv_size u = 4096 * length (dv_pages u)" "dv_pages u \<noteq> []"
        "(l, l + length (dv_pages u) - 1) \<in> set (ds_iovas st)" "set (dv_pages u) \<subseteq> ds_pages st"
        "\<forall>p \<in> set (dv_pages u). p < 2 ^ 32"
        "\<forall>i < length (dv_pages u). mapping mi (ds_mem st) (l + i) = Some (of_nat (dv_pages u ! i))"
      using inv_vma [OF inv u(1)] by blast
    have "h < (l + length (dv_pages u)) * 4096" using u(3) l(1,2) by (simp add: algebra_simps)
    then have "h div 4096 < l + length (dv_pages u)" by (rule less_mult_imp_div_less)
    moreover have "l \<le> h div 4096" using u(2) l(1) by simp
    ultimately show ?thesis using l by (intro exI [of _ l]) auto
  qed
  obtain lo where lo: "dv_iova v = 4096 * lo" "(lo, lo + length (dv_pages v) - 1) \<in> set (ds_iovas st)"
      "lo \<le> h div 4096" "h div 4096 \<le> lo + length (dv_pages v) - 1" "dv_size v = 4096 * length (dv_pages v)"
      "dv_pages v \<noteq> []" "set (dv_pages v) \<subseteq> ds_pages st"
      "\<forall>i < length (dv_pages v). mapping mi (ds_mem st) (lo + i) = Some (of_nat (dv_pages v ! i))"
    using at [OF v h] by blast
  have "find_vma_by_iova h st = Some v"
    unfolding find_vma_by_iova_def
  proof (rule find_unique [OF v])
    fix u
    assume u: "u \<in> set (ds_vmas st)" "h \<ge> dv_iova u \<and> h < dv_iova u + dv_size u"
    obtain l where l: "dv_iova u = 4096 * l" "(l, l + length (dv_pages u) - 1) \<in> set (ds_iovas st)"
      "l \<le> h div 4096" "h div 4096 \<le> l + length (dv_pages u) - 1" using at [OF u(1)] u(2) by blast
    have "l = lo" using inv_one_range [OF inv l(2) lo(2) l(3,4) lo(3,4)] by simp
    then have "dv_iova u = dv_iova v" using l(1) lo(1) by simp
    moreover have "inj_on dv_iova (set (ds_vmas st))" using inv by (simp add: dma_inv_def distinct_map)
    ultimately show "u = v" using u(1) v by (simp add: inj_on_eq_iff)
  qed (use h in simp)
  moreover have "find_iova (h div 4096) st = Some (lo, lo + length (dv_pages v) - 1)"
    by (rule inv_find_iova [OF inv lo(2-4)])
  moreover have "lo + length (dv_pages v) \<le> 2 ^ 20"
    using inv lo(2,6) unfolding dma_inv_def by (cases "dv_pages v") fastforce+
  ultimately show thesis using that [of lo "length (dv_pages v)"] lo by simp
qed

section \<open>Freeing a buffer\<close>

definition buffer_removed :: "mmu_info \<Rightarrow> nat \<Rightarrow> ipu_dma_vma \<Rightarrow> ipu_dma \<Rightarrow> ipu_dma \<Rightarrow> bool" where
  "buffer_removed mi lo v st st' \<longleftrightarrow>
     mapping mi (ds_mem st') = cleared lo (length (dv_pages v)) (mapping mi (ds_mem st)) \<and>
     ds_iovas st' = remove1 (lo, lo + length (dv_pages v) - 1) (ds_iovas st) \<and>
     ds_vmas st' = remove1 v (ds_vmas st) \<and> ds_pages st' = ds_pages st - set (dv_pages v) \<and>
     ds_vmaps st' = ds_vmaps st - {dv_vaddr v} \<and> ds_objects st' = ds_objects st - 2 \<and>
     ds_bad_free st' = ds_bad_free st \<and> ds_stale st' = {} \<and> ds_exposed st'"

lemma inv_installed:
  "mapping mi mem q = Some x \<Longrightarrow> installed mi mem q"
  by (auto simp: mapping_def split: if_splits)

lemma ipu_dma_free_spec:
  assumes inv: "dma_inv ext mi st" and v: "v \<in> set (ds_vmas st)" and h: "dv_iova v \<le> h" "h < dv_iova v + dv_size v"
    and sz: "page_align 64 sz = dv_size v"
  shows "\<exists>lo st'. dv_iova v = 4096 * lo \<and> ipu_dma_free mi sz h st = Some st' \<and> wf_mmu ext mi (ds_mem st') \<and>
    buffer_removed mi lo v st st'"
proof -
  obtain lo n where lo: "dv_iova v = 4096 * lo" "n = length (dv_pages v)" "0 < n" "dv_size v = 4096 * n"
      "(lo, lo + n - 1) \<in> set (ds_iovas st)" "lo + n \<le> 2 ^ 20" "set (dv_pages v) \<subseteq> ds_pages st"
      "\<forall>i < n. mapping mi (ds_mem st) (lo + i) = Some (of_nat (dv_pages v ! i))"
      "find_iova (h div 4096) st = Some (lo, lo + n - 1)" "find_vma_by_iova h st = Some v"
    by (rule inv_find_vma [OF inv v h])
  have wf: "wf_mmu ext mi (ds_mem st)" using inv by (simp add: dma_inv_def)
  have "\<forall>i < n. installed mi (ds_mem st) (lo + i)" using lo(8) inv_installed by blast
  then obtain mem where m: "ipu_mmu_unmap mi (4096 * lo) (4096 * n) (ds_mem st) = Some (4096 * n, mem)"
      "wf_mmu ext mi mem" "mapping mi mem = cleared lo n (mapping mi (ds_mem st))"
    using mmu.unmap_law [OF wf lo(6)] by blast
  have dist: "distinct (dv_pages v)"
    using inv v by (auto simp: dma_inv_def distinct_concat_iff)
  let ?s = "mark_stale lo n (st\<lparr>ds_vmas := remove1 v (ds_vmas st), ds_vmaps := ds_vmaps st - {dv_vaddr v}, ds_mem := mem\<rparr>)"
  have tk: "take (drop_bit PAGE_SHIFT (dv_size v)) (dv_pages v) = dv_pages v" using lo(2,4) by (simp add: page_shift)
  have fr: "fold (\<lambda>p st. free_dma_page p (dma_clear_buffer p 1 st)) (dv_pages v) ?s =
      ?s\<lparr>ds_pages := ds_pages ?s - set (dv_pages v), ds_zero := ds_zero ?s \<union> set (dv_pages v),
        ds_exposed := ds_exposed ?s \<or> dv_pages v \<noteq> [] \<and> ds_stale ?s \<noteq> {}\<rparr>"
    by (rule free_buffer_fold) (use lo(7) dist in \<open>auto simp: mark_stale_def\<close>)
  let ?st' = "tlb_invalidate ((free_iova (lo, lo + n - 1) (dma_free_buffer (dv_pages v) (dv_size v) ?s))
      \<lparr>ds_objects := ds_objects (dma_free_buffer (dv_pages v) (dv_size v) ?s) - 1\<rparr>)"
  have nn: "lo + n - 1 - lo + 1 = n" using lo(3) by simp
  have e: "ipu_dma_free mi sz h st = Some ?st'"
    unfolding ipu_dma_free_def page_shift(3) lo(9,10) option.case prod.case Let_def sz fst_conv snd_conv nn
    using m(1) by (simp add: page_shift(1) split_beta)
  have "dma_free_buffer (dv_pages v) (dv_size v) ?s =
      ?s\<lparr>ds_pages := ds_pages ?s - set (dv_pages v), ds_zero := ds_zero ?s \<union> set (dv_pages v),
        ds_exposed := ds_exposed ?s \<or> dv_pages v \<noteq> [] \<and> ds_stale ?s \<noteq> {}, ds_objects := ds_objects ?s - 1\<rparr>"
    unfolding dma_free_buffer_def Let_def tk fr by simp
  moreover have "dv_pages v \<noteq> []" "lo < lo + n" using lo(2,3) by auto
  ultimately have "buffer_removed mi lo v st ?st'" "ds_mem ?st' = mem"
    using m(3) lo(2) by (auto simp: buffer_removed_def tlb_invalidate_def free_iova_def mark_stale_def)
  then show ?thesis using e m(2) lo(1) by (intro exI [of _ lo] exI [of _ ?st']) simp
qed

lemma distinct_concat_remove1: "distinct (concat (map f xs)) \<Longrightarrow> distinct (concat (map f (remove1 x xs)))"
proof (induction xs)
  case (Cons y ys)
  then show ?case using set_remove1_subset [of x ys] by (simp add: disjoint_iff) blast
qed simp

lemma distinct_map_remove1: "distinct (map f xs) \<Longrightarrow> distinct (map f (remove1 x xs))"
proof (induction xs)
  case (Cons y ys)
  then show ?case using set_remove1_subset [of x ys] by auto
qed simp

lemma pages_apart:
  assumes "distinct (concat (map f xs))" "distinct (map g xs)" "x \<in> set xs" "y \<in> set xs" "x \<noteq> y"
  shows "set (f x) \<inter> set (f y) = {}"
  using assms by (induction xs) auto

lemma inv_removed:
  assumes inv: "dma_inv ext mi st" and v: "v \<in> set (ds_vmas st)" and lo: "dv_iova v = 4096 * lo"
    and rem: "buffer_removed mi lo v st st'" and wf: "wf_mmu ext mi (ds_mem st')"
  shows "dma_inv ext mi st'"
proof -
  note r = rem [unfolded buffer_removed_def]
  let ?n = "length (dv_pages v)" and ?r = "(lo, lo + length (dv_pages v) - 1)"
  have rv: "?r \<in> set (ds_iovas st)" "dv_pages v \<noteq> []" by (rule inv_vma [OF inv v], use lo in simp)+
  have di: "distinct (ds_iovas st)" using inv by (simp add: dma_inv_def)
  have iov: "set (ds_iovas st') = set (ds_iovas st) - {?r}" using r di by (simp add: set_remove1_eq)
  have dv: "distinct (ds_vmas st)" using inv by (simp add: dma_inv_def distinct_map)
  have vm: "set (ds_vmas st') = set (ds_vmas st) - {v}" using r dv by (simp add: set_remove1_eq)
  have other: "vma_ok mi st' u" if u: "u \<in> set (ds_vmas st')" for u
  proof -
    have u': "u \<in> set (ds_vmas st)" "u \<noteq> v" using u vm by auto
    obtain l where l: "dv_iova u = 4096 * l" "dv_size u = 4096 * length (dv_pages u)" "dv_pages u \<noteq> []"
        "(l, l + length (dv_pages u) - 1) \<in> set (ds_iovas st)" "set (dv_pages u) \<subseteq> ds_pages st"
        "\<forall>p \<in> set (dv_pages u). p < 2 ^ 32"
        "\<forall>i < length (dv_pages u). mapping mi (ds_mem st) (l + i) = Some (of_nat (dv_pages u ! i))"
      using inv_vma [OF inv u'(1)] by blast
    have "dv_iova u \<noteq> dv_iova v" using inv u' v by (auto simp: dma_inv_def distinct_map dest: inj_onD)
    then have ne: "l \<noteq> lo" using l(1) lo by auto
    have apart: "l + i < lo \<or> lo + ?n \<le> l + i" if i: "i < length (dv_pages u)" for i
    proof (rule ccontr)
      assume "\<not> (l + i < lo \<or> lo + ?n \<le> l + i)"
      then have "lo \<le> l + i" "l + i \<le> lo + ?n - 1" by auto
      moreover have "l + i \<le> l + length (dv_pages u) - 1" using i by simp
      ultimately show False using inv_one_range [OF inv l(4) rv(1), of "l + i"] ne by simp
    qed
    have "mapping mi (ds_mem st') (l + i) = mapping mi (ds_mem st) (l + i)" if "i < length (dv_pages u)" for i
      using r [THEN conjunct1] apart [OF that] by (auto simp: cleared_def)
    moreover have "set (dv_pages u) \<subseteq> ds_pages st'"
      using l(5) r pages_apart [of dv_pages "ds_vmas st" dv_iova u v] inv u' v by (auto simp: dma_inv_def)
    ultimately show ?thesis using l iov ne unfolding vma_ok_def by (intro exI [of _ l]) auto
  qed
  have cover: "\<exists>(a, b) \<in> set (ds_iovas st'). a \<le> q \<and> q \<le> b" if q: "mapping mi (ds_mem st') q \<noteq> None" for q
  proof -
    have q': "\<not> (lo \<le> q \<and> q < lo + ?n)" "mapping mi (ds_mem st) q \<noteq> None"
      using q r by (auto simp: cleared_def split: if_splits)
    have "\<exists>(a, b) \<in> set (ds_iovas st). a \<le> q \<and> q \<le> b" using inv q'(2) unfolding dma_inv_def by blast
    then obtain a b where ab: "(a, b) \<in> set (ds_iovas st)" "a \<le> q" "q \<le> b" by blast
    have "(a, b) \<noteq> ?r"
    proof
      assume "(a, b) = ?r"
      then show False using ab(2,3) q'(1) rv(2) by (cases "dv_pages v") auto
    qed
    then show ?thesis using ab iov by blast
  qed
  have pw: "pairwise (\<lambda>(a, b) (c, d). b < c \<or> d < a) (set (ds_iovas st'))"
    using inv iov by (auto simp: dma_inv_def intro: pairwise_subset)
  note i = inv [unfolded dma_inv_def]
  have bad: "\<not> ds_bad_free st'" using i r by blast
  have bounds: "\<forall>(a, b) \<in> set (ds_iovas st'). a \<le> b \<and> b < 2 ^ 20" using i iov by blast
  have dis: "distinct (ds_iovas st')" "distinct (concat (map dv_pages (ds_vmas st')))" "distinct (map dv_iova (ds_vmas st'))"
    using i r distinct_remove1 distinct_concat_remove1 distinct_map_remove1 by metis+
  show ?thesis unfolding dma_inv_def using wf bad bounds dis pw cover other by blast
qed

text \<open>Freeing what was just allocated.\<close>

lemma remove_added:
  assumes inv: "dma_inv ext mi st" and add: "buffer_added mi lo ps addr st st'"
    and rem: "buffer_removed mi lo \<lparr>dv_iova = 4096 * lo, dv_size = 4096 * length ps, dv_vaddr = addr, dv_pages = ps\<rparr> st' st''"
  shows "dma_same mi st st''"
proof -
  note a = add [unfolded buffer_added_def] and r = rem [unfolded buffer_removed_def]
  have "\<forall>i < length ps. mapping mi (ds_mem st) (lo + i) = None" using inv_iova_in [OF inv] a by blast
  then have "cleared lo (length ps) (paged lo ps (mapping mi (ds_mem st))) = mapping mi (ds_mem st)"
    by (rule cleared_paged [OF refl])
  then show ?thesis using a r by (auto simp: dma_same_def)
qed

end
