(* ===== verification/DmaLists.thy ===== *)
theory DmaLists
  imports DmaBooks
begin

text \<open>
  Scatter lists of theory Dma, the states that allocating, freeing, mapping and unmapping
  reach, and the properties of the component.
\<close>

section \<open>Scatter lists\<close>

text \<open>The addresses of a list mapped from page \<open>a\<close> on, and its pages.\<close>

primrec placed :: "nat \<Rightarrow> scatterlist list \<Rightarrow> scatterlist list" where
  "placed a [] = []"
| "placed a (e # es) = e\<lparr>sg_dma_address := 4096 * a\<rparr> # placed (a + sg_pages e) es"

primrec sg_mapping :: "nat \<Rightarrow> scatterlist list \<Rightarrow> (nat \<Rightarrow> u32 option) \<Rightarrow> nat \<Rightarrow> u32 option" where
  "sg_mapping a [] M = M"
| "sg_mapping a (e # es) M = sg_mapping (a + sg_pages e) es (extended a (sg_pages e) (sg_page e) M)"

definition sg_total :: "scatterlist list \<Rightarrow> nat" where
  "sg_total es = sum_list (map sg_pages es)"

lemma sg_total_simps [simp]: "sg_total [] = 0" "sg_total (e # es) = sg_pages e + sg_total es"
  by (simp_all add: sg_total_def)

lemma placed_length [simp]: "length (placed a es) = length es"
  by (induction es arbitrary: a) simp_all

lemma sg_size: "page_align 32 (sg_length e) = 4096 * sg_pages e"
proof -
  obtain n where "page_align 32 (sg_length e) = 4096 * n" using page_align_dvd by blast
  then show ?thesis by (simp add: sg_pages_def page_shift)
qed

lemma sg_mapping_outside: "q < a \<or> a + sg_total es \<le> q \<Longrightarrow> sg_mapping a es M q = M q"
  by (induction es arbitrary: a M) (auto simp: extended_def)

lemma sg_mapping_inside: "a \<le> q \<Longrightarrow> q < a + sg_total es \<Longrightarrow> sg_mapping a es M q \<noteq> None"
proof (induction es arbitrary: a M)
  case (Cons e es)
  show ?case
  proof (cases "q < a + sg_pages e")
    case True
    then show ?thesis using Cons.prems(1) by (simp add: sg_mapping_outside extended_def)
  next
    case False
    then show ?thesis using Cons.IH [of "a + sg_pages e"] Cons.prems by simp
  qed
qed simp

context page_mapper
begin

lemma map_entries_spec:
  assumes "wf m" "a + sg_total es \<le> 2 ^ 20"
    and "\<forall>e \<in> set es. 0 < sg_pages e \<and> (\<forall>i < sg_pages e. of_nat (sg_page e + i) \<noteq> dummy)"
  shows "\<exists>ok i m'. map_entries map_op a es m = Some (ok, i, placed a (take i es) @ drop i es, m') \<and> wf m' \<and>
    i \<le> length es \<and> (if ok then i = length es else i < length es) \<and> M m' = sg_mapping a (take i es) (M m) \<and>
    (\<forall>q. a \<le> q \<and> q < a + sg_total (take i es) \<longrightarrow> M m q = None \<and> ready m' q) \<and>
    (\<forall>q. ready m q \<longrightarrow> ready m' q)"
  using assms
proof (induction es arbitrary: a m)
  case Nil
  then show ?case by (auto intro!: exI [of _ True] exI [of _ 0])
next
  case (Cons e es)
  let ?n = "sg_pages e"
  have lt: "a < 2 ^ 20" "a + ?n \<le> 2 ^ 20" using Cons.prems(2,3) by auto
  have addr: "4096 * a mod 4294967296 = 4096 * a" using lt(1) by simp
  obtain r m1 where r: "map_op (4096 * a) (4096 * sg_page e) (4096 * ?n) m = Some (r, m1)" "wf m1"
      "\<forall>q. ready m q \<longrightarrow> ready m1 q"
      "case r of Inr _ \<Rightarrow> (\<forall>k < ?n. M m (a + k) = None \<and> ready m1 (a + k)) \<and> M m1 = extended a ?n (sg_page e) (M m)
         | Inl e \<Rightarrow> M m1 = M m"
    using map_law [of m a ?n "sg_page e"] Cons.prems(1,3) lt(2) by auto
  show ?case
  proof (cases r)
    case (Inl x)
    then show ?thesis using r
      by (auto simp: addr sg_size page_shift(1) Let_def intro!: exI [of _ False] exI [of _ 0])
  next
    case (Inr u)
    then have one: "\<forall>k < ?n. M m (a + k) = None \<and> ready m1 (a + k)" "M m1 = extended a ?n (sg_page e) (M m)"
      using r(4) by auto
    have nxt: "(a + ?n) mod 2 ^ 32 = a + ?n" using lt(2) by simp
    obtain ok i m2 where l: "map_entries map_op (a + ?n) es m1 = Some (ok, i, placed (a + ?n) (take i es) @ drop i es, m2)"
        "wf m2" "i \<le> length es" "if ok then i = length es else i < length es"
        "M m2 = sg_mapping (a + ?n) (take i es) (M m1)"
        "\<forall>q. a + ?n \<le> q \<and> q < a + ?n + sg_total (take i es) \<longrightarrow> M m1 q = None \<and> ready m2 q"
        "\<forall>q. ready m1 q \<longrightarrow> ready m2 q"
      using Cons.IH [OF r(2), of "a + ?n"] Cons.prems(2,3) by auto
    have "M m q = None \<and> ready m2 q" if q: "a \<le> q" "q < a + (?n + sg_total (take i es))" for q
    proof (cases "q < a + ?n")
      case True
      then have "q - a < ?n" "a + (q - a) = q" using q(1) by auto
      then show ?thesis using one(1) l(7) by metis
    next
      case False
      then have "M m1 q = None" "ready m2 q" using l(6) q by auto
      then show ?thesis using False by (simp add: one(2) extended_def)
    qed
    then show ?thesis
      using l Inr r(1,3) one(2) nxt
      by (intro exI [of _ ok] exI [of _ "Suc i"] exI [of _ m2]) (auto simp: addr sg_size page_shift(1) Let_def)
  qed
qed

end

section \<open>Mapping and unmapping a list\<close>

definition sg_entries_ok :: "mmu_info \<Rightarrow> scatterlist list \<Rightarrow> bool" where
  "sg_entries_ok mi es \<longleftrightarrow> es \<noteq> [] \<and>
     list_all (\<lambda>e. 0 < sg_pages e \<and> unat (mi_dummy_page mi) \<notin> {sg_page e..<sg_page e + sg_pages e} \<and>
       sg_page e + sg_pages e \<le> 2 ^ 32) es"

lemma not_dummy_page:
  fixes d :: u32
  assumes "unat d \<notin> {f..<f + n}" "f + n \<le> 2 ^ 32" "i < n"
  shows "of_nat (f + i) \<noteq> d"
proof
  assume "of_nat (f + i) = d"
  then have "unat d = f + i" using frame_unat [of "f + i"] assms(2,3) by auto
  then show False using assms(1,3) by auto
qed

definition list_added :: "mmu_info \<Rightarrow> nat \<Rightarrow> scatterlist list \<Rightarrow> ipu_dma \<Rightarrow> ipu_dma \<Rightarrow> bool" where
  "list_added mi lo es st st' \<longleftrightarrow> lo + sg_total es \<le> 2 ^ 20 \<and>
     (\<forall>(a, b) \<in> set (ds_iovas st). b < lo \<or> lo + sg_total es - 1 < a) \<and>
     mapping mi (ds_mem st') = sg_mapping lo es (mapping mi (ds_mem st)) \<and>
     (\<exists>mem. st' = st\<lparr>ds_mem := mem, ds_iovas := (lo, lo + sg_total es - 1) # ds_iovas st, ds_stale := {}\<rparr>)"

text \<open>Without a failure of the page tables the list is mapped.\<close>

lemma map_sg_mapped:
  assumes inv: "dma_inv ext mi st" and limit: "drop_bit PAGE_SHIFT (dk_mask k) < 2 ^ 20" and ok: "sg_entries_ok mi es"
    and r: "ipu_dma_map_sg k mi es st = Some (n, es', st')" and n: "0 < n"
  shows "\<exists>lo. n = length es \<and> es' = placed lo es \<and> list_added mi lo es st st' \<and> wf_mmu ext mi (ds_mem st')"
proof -
  have wf: "wf_mmu ext mi (ds_mem st)" using inv by (simp add: dma_inv_def)
  obtain a where a: "alloc_iova k (sg_total es) st = Some a"
    using r n by (cases "alloc_iova k (sum_list (map sg_pages es)) st") (auto simp: ipu_dma_map_sg_def sg_total_def)
  obtain iova st1 where a': "a = (iova, st1)" by fastforce
  obtain lo where lo: "iova = (lo, lo + sg_total es - 1)" "0 < sg_total es" "lo + sg_total es \<le> 2 ^ 20"
      "st1 = st\<lparr>ds_iovas := iova # ds_iovas st\<rparr>"
      "\<forall>(a, b) \<in> set (ds_iovas st). b < lo \<or> lo + sg_total es - 1 < a"
    using alloc_iova_spec [OF a [unfolded a'] limit] by blast
  have ents: "\<forall>e \<in> set es. 0 < sg_pages e \<and> (\<forall>i < sg_pages e. of_nat (sg_page e + i) \<noteq> mi_dummy_page mi)"
    using ok not_dummy_page [of "mi_dummy_page mi"] unfolding sg_entries_ok_def list_all_iff by blast
  have mem1: "ds_mem st1 = ds_mem st" by (simp add: lo(4))
  have lo32: "fst iova mod 2 ^ 32 = lo" using lo(2,3) by (simp add: lo(1))
  obtain ok' i mem where m: "map_entries (mmu_map k mi) lo es (ds_mem st) = Some (ok', i, placed lo (take i es) @ drop i es, mem)"
      "wf_mmu ext mi mem" "if ok' then i = length es else i < length es"
      "mapping mi mem = sg_mapping lo (take i es) (mapping mi (ds_mem st))"
    using mmu.map_entries_spec [OF wf lo(3) ents, of k] by blast
  have "ok'"
  proof (rule ccontr)
    assume "\<not> ok'"
    then show False using r n a a' lo32 m(1) mem1 by (auto simp: ipu_dma_map_sg_def sg_total_def)
  qed
  then have i: "i = length es" using m(3) by simp
  have "n = length es" "es' = placed lo es" "st' = tlb_invalidate (st1\<lparr>ds_mem := mem\<rparr>)"
    using r a a' lo32 m(1) mem1 \<open>ok'\<close> i by (auto simp: ipu_dma_map_sg_def sg_total_def placed_length)
  then show ?thesis using lo m(2,4) i
    by (intro exI [of _ lo]) (auto simp: list_added_def tlb_invalidate_def intro!: exI [of _ mem])
qed

text \<open>A range more or less that is no buffer's.\<close>

lemma inv_grow:
  assumes inv: "dma_inv ext mi st" and n: "0 < n" "lo + n \<le> 2 ^ 20"
    and apart: "\<forall>(a, b) \<in> set (ds_iovas st). b < lo \<or> lo + n - 1 < a"
    and st': "ds_iovas st' = (lo, lo + n - 1) # ds_iovas st" "ds_vmas st' = ds_vmas st" "ds_pages st' = ds_pages st"
      "ds_bad_free st' = ds_bad_free st" "wf_mmu ext mi (ds_mem st')"
    and map: "\<And>q. q < lo \<or> lo + n \<le> q \<Longrightarrow> mapping mi (ds_mem st') q = mapping mi (ds_mem st) q"
  shows "dma_inv ext mi st'"
proof -
  have one: "dma_inv ext mi (st\<lparr>ds_iovas := (lo, lo + n - 1) # ds_iovas st\<rparr>)" by (rule inv_add_iova [OF inv n apart])
  have old: "vma_ok mi st' v" if v: "v \<in> set (ds_vmas st)" for v
  proof -
    obtain l where l: "dv_iova v = 4096 * l" "dv_size v = 4096 * length (dv_pages v)" "dv_pages v \<noteq> []"
        "(l, l + length (dv_pages v) - 1) \<in> set (ds_iovas st)" "set (dv_pages v) \<subseteq> ds_pages st"
        "\<forall>p \<in> set (dv_pages v). p < 2 ^ 32"
        "\<forall>i < length (dv_pages v). mapping mi (ds_mem st) (l + i) = Some (of_nat (dv_pages v ! i))"
      using inv_vma [OF inv v] by blast
    have "mapping mi (ds_mem st') (l + i) = mapping mi (ds_mem st) (l + i)" if "i < length (dv_pages v)" for i
      by (rule map [OF range_apart [OF apart l(4) that n(1)]])
    then show ?thesis using l st' unfolding vma_ok_def by (intro exI [of _ l]) auto
  qed
  have cover: "\<exists>(a, b) \<in> set (ds_iovas st'). a \<le> q \<and> q \<le> b" if q: "mapping mi (ds_mem st') q \<noteq> None" for q
  proof (cases "q < lo \<or> lo + n \<le> q")
    case True
    then have "\<exists>(a, b) \<in> set (ds_iovas st). a \<le> q \<and> q \<le> b" using q map inv unfolding dma_inv_def by metis
    then show ?thesis using st'(1) by auto
  next
    case False
    then show ?thesis using st'(1) by auto
  qed
  note o = one [unfolded dma_inv_def]
  show ?thesis unfolding dma_inv_def using o st' old cover by simp
qed

lemma inv_shrink:
  assumes inv: "dma_inv ext mi st" and r: "(lo, hi) \<in> set (ds_iovas st)"
    and free: "\<forall>v \<in> set (ds_vmas st). dv_iova v \<noteq> 4096 * lo"
    and st': "ds_iovas st' = remove1 (lo, hi) (ds_iovas st)" "ds_vmas st' = ds_vmas st" "ds_pages st' = ds_pages st"
      "ds_bad_free st' = ds_bad_free st" "wf_mmu ext mi (ds_mem st')"
    and map: "mapping mi (ds_mem st') = cleared lo (hi - lo + 1) (mapping mi (ds_mem st))"
  shows "dma_inv ext mi st'"
proof -
  have lh: "lo \<le> hi" using inv r unfolding dma_inv_def by blast
  have iov: "set (ds_iovas st') = set (ds_iovas st) - {(lo, hi)}"
    using inv st'(1) by (simp add: dma_inv_def set_remove1_eq)
  have old: "vma_ok mi st' v" if v: "v \<in> set (ds_vmas st)" for v
  proof -
    obtain l where l: "dv_iova v = 4096 * l" "dv_size v = 4096 * length (dv_pages v)" "dv_pages v \<noteq> []"
        "(l, l + length (dv_pages v) - 1) \<in> set (ds_iovas st)" "set (dv_pages v) \<subseteq> ds_pages st"
        "\<forall>p \<in> set (dv_pages v). p < 2 ^ 32"
        "\<forall>i < length (dv_pages v). mapping mi (ds_mem st) (l + i) = Some (of_nat (dv_pages v ! i))"
      using inv_vma [OF inv v] by blast
    have ne: "l \<noteq> lo" using free v l(1) by auto
    have out: "\<not> (lo \<le> l + i \<and> l + i < lo + (hi - lo + 1))" if i: "i < length (dv_pages v)" for i
    proof
      assume "lo \<le> l + i \<and> l + i < lo + (hi - lo + 1)"
      then have "lo \<le> l + i" "l + i \<le> hi" "l + i \<le> l + length (dv_pages v) - 1" using lh i by auto
      then show False using inv_one_range [OF inv l(4) r, of "l + i"] ne by simp
    qed
    have "mapping mi (ds_mem st') (l + i) = mapping mi (ds_mem st) (l + i)" if "i < length (dv_pages v)" for i
      unfolding map cleared_def if_not_P [OF out [OF that]] by (rule refl)
    then show ?thesis using l st' iov ne unfolding vma_ok_def by (intro exI [of _ l]) auto
  qed
  have cover: "\<exists>(a, b) \<in> set (ds_iovas st'). a \<le> q \<and> q \<le> b" if q: "mapping mi (ds_mem st') q \<noteq> None" for q
  proof -
    have q': "\<not> (lo \<le> q \<and> q < lo + (hi - lo + 1))" "mapping mi (ds_mem st) q \<noteq> None"
      using q unfolding map by (auto simp: cleared_def split: if_splits)
    have "\<exists>(a, b) \<in> set (ds_iovas st). a \<le> q \<and> q \<le> b" using inv q'(2) unfolding dma_inv_def by blast
    then obtain a b where ab: "(a, b) \<in> set (ds_iovas st)" "a \<le> q" "q \<le> b" by blast
    then have "(a, b) \<noteq> (lo, hi)" using q'(1) lh by auto
    then show ?thesis using ab iov by blast
  qed
  have pw: "pairwise (\<lambda>(a, b) (c, d). b < c \<or> d < a) (set (ds_iovas st'))"
    using inv iov by (auto simp: dma_inv_def intro: pairwise_subset)
  note i = inv [unfolded dma_inv_def]
  have bounds: "\<forall>(a, b) \<in> set (ds_iovas st'). a \<le> b \<and> b < 2 ^ 20" using i iov by blast
  have dis: "distinct (ds_iovas st')" using i st'(1) distinct_remove1 by metis
  show ?thesis unfolding dma_inv_def using i bounds dis pw cover old st' by simp
qed

lemma inv_list_added:
  assumes inv: "dma_inv ext mi st" and add: "list_added mi lo es st st'" and wf: "wf_mmu ext mi (ds_mem st')"
    and ok: "sg_entries_ok mi es"
  shows "dma_inv ext mi st'"
proof -
  note a = add [unfolded list_added_def]
  have n: "0 < sg_total es" using ok by (cases es) (auto simp: sg_entries_ok_def)
  show ?thesis
    by (rule inv_grow [OF inv n]) (use a wf sg_mapping_outside in auto)
qed

text \<open>Unmapping a range all of whose pages are mapped.\<close>

lemma unmap_sg_spec:
  assumes inv: "dma_inv ext mi st" and r: "(lo, hi) \<in> set (ds_iovas st)" and n: "0 < nents"
    and hd: "lo \<le> sg_dma_address (hd es) div 4096" "sg_dma_address (hd es) div 4096 \<le> hi"
    and mapped: "\<forall>q. lo \<le> q \<and> q \<le> hi \<longrightarrow> installed mi (ds_mem st) q"
  shows "\<exists>mem. ipu_dma_unmap_sg mi es nents st =
      Some (st\<lparr>ds_mem := mem, ds_stale := {}, ds_iovas := remove1 (lo, hi) (ds_iovas st)\<rparr>) \<and>
    wf_mmu ext mi mem \<and> mapping mi mem = cleared lo (hi - lo + 1) (mapping mi (ds_mem st))"
proof -
  have wf: "wf_mmu ext mi (ds_mem st)" using inv by (simp add: dma_inv_def)
  have b: "lo \<le> hi" "hi < 2 ^ 20" using inv r unfolding dma_inv_def by auto
  have f: "find_iova (sg_dma_address (hd es) div 4096) st = Some (lo, hi)" by (rule inv_find_iova [OF inv r hd])
  obtain mem where m: "ipu_mmu_unmap mi (4096 * lo) (4096 * (hi - lo + 1)) (ds_mem st) = Some (4096 * (hi - lo + 1), mem)"
      "wf_mmu ext mi mem" "mapping mi mem = cleared lo (hi - lo + 1) (mapping mi (ds_mem st))"
    using mmu.unmap_law [OF wf, of lo "hi - lo + 1"] b mapped by auto
  have nn: "nents \<noteq> 0" using n by simp
  have "ipu_dma_unmap_sg mi es nents st = Some (free_iova (lo, hi) (tlb_invalidate (mark_stale lo (hi - lo + 1) (st\<lparr>ds_mem := mem\<rparr>))))"
    unfolding ipu_dma_unmap_sg_def if_not_P [OF nn] page_shift(3) f option.case Let_def fst_conv snd_conv page_shift(1) m(1)
    by simp
  then show ?thesis using m(2,3) by (intro exI [of _ mem]) (simp add: free_iova_def tlb_invalidate_def mark_stale_def)
qed

text \<open>
  A list that is not mapped: nothing has changed, or the range that was taken for it stays
  taken, because its first entry could not be mapped.
\<close>

lemma placed_hd: "es \<noteq> [] \<Longrightarrow> sg_dma_address (hd (placed a es)) = 4096 * a"
  by (cases es) simp_all

lemma cleared_sg:
  assumes "sg_total es \<le> n" "\<forall>q. lo \<le> q \<and> q < lo + n \<longrightarrow> M q = None"
  shows "cleared lo n (sg_mapping lo es M) = M"
proof
  fix q
  show "cleared lo n (sg_mapping lo es M) q = M q"
    using assms by (cases "lo \<le> q \<and> q < lo + n") (auto simp: cleared_def sg_mapping_outside)
qed

lemma unmap_first_hole:
  assumes "wf_mmu ext mi mem" "lo + n \<le> 2 ^ 20" "installed mi mem lo" "j < n" "\<not> installed mi mem (lo + j)"
  shows "ipu_mmu_unmap mi (4096 * lo) (4096 * n) mem = None"
proof -
  define h where "h = (LEAST j. \<not> installed mi mem (lo + j))"
  have h: "\<not> installed mi mem (lo + h)" "\<forall>j < h. installed mi mem (lo + j)" "h \<le> j"
    using LeastI [of "\<lambda>j. \<not> installed mi mem (lo + j)", OF assms(5)] not_less_Least
      Least_le [of "\<lambda>j. \<not> installed mi mem (lo + j)", OF assms(5)]
    unfolding h_def by blast+
  have "h \<noteq> 0" using h(1) assms(3) by (metis add_0_right)
  moreover have "h < n" using h(3) assms(4) by simp
  ultimately show ?thesis
    using unmap_loop_hole [OF assms(1,2) _ h(2,1), of 0 "4096 * n"] assms(2) by (simp add: unmap_range [OF assms(1)])
qed

lemma map_sg_failed:
  assumes inv: "dma_inv ext mi st" and limit: "drop_bit PAGE_SHIFT (dk_mask k) < 2 ^ 20" and ok: "sg_entries_ok mi es"
    and r: "ipu_dma_map_sg k mi es st = Some (0, es', st')"
  shows "wf_mmu ext mi (ds_mem st') \<and> mapping mi (ds_mem st') = mapping mi (ds_mem st) \<and> ds_vmas st' = ds_vmas st \<and>
    ds_pages st' = ds_pages st \<and> ds_bad_free st' = ds_bad_free st \<and>
    (ds_iovas st' = ds_iovas st \<or> (\<exists>lo. ds_iovas st' = (lo, lo + sg_total es - 1) # ds_iovas st \<and> lo + sg_total es \<le> 2 ^ 20 \<and>
       (\<forall>(a, b) \<in> set (ds_iovas st). b < lo \<or> lo + sg_total es - 1 < a)))"
proof (cases "alloc_iova k (sg_total es) st")
  case None
  then show ?thesis using r inv by (simp add: ipu_dma_map_sg_def sg_total_def dma_inv_def)
next
  case a: (Some a)
  have wf: "wf_mmu ext mi (ds_mem st)" using inv by (simp add: dma_inv_def)
  obtain iova st1 where a': "a = (iova, st1)" by fastforce
  obtain lo where lo: "iova = (lo, lo + sg_total es - 1)" "0 < sg_total es" "lo + sg_total es \<le> 2 ^ 20"
      "st1 = st\<lparr>ds_iovas := iova # ds_iovas st\<rparr>"
      "\<forall>(a, b) \<in> set (ds_iovas st). b < lo \<or> lo + sg_total es - 1 < a"
    using alloc_iova_spec [OF a [unfolded a'] limit] by blast
  have ents: "\<forall>e \<in> set es. 0 < sg_pages e \<and> (\<forall>i < sg_pages e. of_nat (sg_page e + i) \<noteq> mi_dummy_page mi)"
    using ok not_dummy_page [of "mi_dummy_page mi"] unfolding sg_entries_ok_def list_all_iff by blast
  have mem1: "ds_mem st1 = ds_mem st" by (simp add: lo(4))
  have lo32: "fst iova mod 2 ^ 32 = lo" using lo(2,3) by (simp add: lo(1))
  obtain ok' i mem where m: "map_entries (mmu_map k mi) lo es (ds_mem st) = Some (ok', i, placed lo (take i es) @ drop i es, mem)"
      "wf_mmu ext mi mem" "if ok' then i = length es else i < length es"
      "mapping mi mem = sg_mapping lo (take i es) (mapping mi (ds_mem st))"
      "\<forall>q. lo \<le> q \<and> q < lo + sg_total (take i es) \<longrightarrow> mapping mi (ds_mem st) q = None \<and> installed mi mem q"
    using mmu.map_entries_spec [OF wf lo(3) ents, of k] by blast
  have ne: "es \<noteq> []" using ok by (simp add: sg_entries_ok_def)
  have "\<not> ok'"
  proof
    assume "ok'"
    then show False using r ne a a' lo32 m(1,3) mem1 by (auto simp: ipu_dma_map_sg_def sg_total_def)
  qed
  let ?l = "placed lo (take i es) @ drop i es" and ?st2 = "st1\<lparr>ds_mem := mem\<rparr>"
  have u: "ipu_dma_unmap_sg mi ?l i ?st2 = Some st'"
    using r a a' lo32 m(1) mem1 \<open>\<not> ok'\<close> by (auto simp: ipu_dma_map_sg_def sg_total_def)
  have range: "mapping mi (ds_mem st) q = None" if "lo \<le> q" "q < lo + sg_total es" for q
    using inv_iova_in [OF inv lo(5), of "q - lo"] that by simp
  have le: "sg_total (take i es) \<le> sg_total es"
    using sum_list_append [of "map sg_pages (take i es)" "map sg_pages (drop i es)"]
    by (simp add: sg_total_def flip: map_append)
  show ?thesis
  proof (cases "i = 0")
    case True
    then have "st' = ?st2" "mapping mi mem = mapping mi (ds_mem st)" using u m(4) by (simp_all add: ipu_dma_unmap_sg_def)
    then show ?thesis using lo m(2) by auto
  next
    case False
    have tk: "take i es \<noteq> []" using False ne by simp
    have inv2: "dma_inv ext mi ?st2"
    proof (rule inv_grow [OF inv lo(2,3,5)])
      show "mapping mi (ds_mem ?st2) q = mapping mi (ds_mem st) q" if "q < lo \<or> lo + sg_total es \<le> q" for q
        using that le m(4) by (auto intro!: sg_mapping_outside)
    qed (use m(2) lo(1,4) in simp_all)
    have "placed lo (take i es) \<noteq> []" using tk by (cases "take i es") simp_all
    then have hd: "sg_dma_address (hd ?l) div 4096 = lo" using tk placed_hd [of "take i es" lo] by (simp add: hd_append)
    have in2: "(lo, lo + sg_total es - 1) \<in> set (ds_iovas ?st2)" using lo(1,4) by simp
    have first: "0 < sg_total (take i es)" using tk ents by (cases es; cases i) auto
    have nn: "lo + sg_total es - 1 - lo + 1 = sg_total es" using lo(2) by simp
    have all: "\<forall>j < sg_total es. installed mi mem (lo + j)"
    proof (rule ccontr)
      assume "\<not> ?thesis"
      then obtain j where j: "j < sg_total es" "\<not> installed mi mem (lo + j)" by blast
      have "ipu_mmu_unmap mi (4096 * lo) (4096 * sg_total es) mem = None"
        by (rule unmap_first_hole [OF m(2) lo(3) _ j]) (use m(5) first in simp)
      then have "ipu_dma_unmap_sg mi ?l i ?st2 = None"
        unfolding ipu_dma_unmap_sg_def if_not_P [OF False] page_shift(3) hd
          inv_find_iova [OF inv2 in2 order_refl, simplified] using lo(2) nn
        by (simp add: inv_find_iova [OF inv2 in2 order_refl] page_shift(1))
      then show False using u by simp
    qed
    have "\<forall>q. lo \<le> q \<and> q \<le> lo + sg_total es - 1 \<longrightarrow> installed mi (ds_mem ?st2) q"
    proof (intro allI impI)
      fix q
      assume q: "lo \<le> q \<and> q \<le> lo + sg_total es - 1"
      then have "q - lo < sg_total es" using lo(2) by auto
      with all have "installed mi mem (lo + (q - lo))" by blast
      then show "installed mi (ds_mem ?st2) q" using q by simp
    qed
    moreover have h: "lo \<le> sg_dma_address (hd ?l) div 4096" "sg_dma_address (hd ?l) div 4096 \<le> lo + sg_total es - 1" "0 < i"
      using hd lo(2) False by linarith+
    ultimately obtain mem2 where m2:
        "ipu_dma_unmap_sg mi ?l i ?st2 = Some (?st2\<lparr>ds_mem := mem2, ds_stale := {},
           ds_iovas := remove1 (lo, lo + sg_total es - 1) (ds_iovas ?st2)\<rparr>)"
        "wf_mmu ext mi mem2" "mapping mi mem2 = cleared lo (sg_total es) (mapping mi mem)"
      using unmap_sg_spec [OF inv2 in2 h(3,1,2)] nn by auto
    have "mapping mi mem2 = mapping mi (ds_mem st)"
      unfolding m2(3) m(4) by (rule cleared_sg [OF le]) (use range in blast)
    moreover have "st' = ?st2\<lparr>ds_mem := mem2, ds_stale := {},
        ds_iovas := remove1 (lo, lo + sg_total es - 1) (ds_iovas ?st2)\<rparr>" using u m2(1) by simp
    ultimately show ?thesis using m2(2) lo(1,4) by auto
  qed
qed

section \<open>Reachable states\<close>

text \<open>
  What the driver's callers do: they free a buffer with its size, by an address in it, and
  unmap a list that was mapped, all of whose range is therefore mapped and no buffer's.
\<close>

inductive dma_reach :: "dma_kernel \<Rightarrow> mmu_info \<Rightarrow> ipu_dma \<Rightarrow> ipu_dma \<Rightarrow> bool" for k mi st0 where
  start: "dma_reach k mi st0 st0"
| alloc: "dma_reach k mi st0 st \<Longrightarrow> ipu_dma_alloc k mi sz st = Some (r, st') \<Longrightarrow> dma_reach k mi st0 st'"
| free: "dma_reach k mi st0 st \<Longrightarrow> v \<in> set (ds_vmas st) \<Longrightarrow> dv_iova v \<le> h \<Longrightarrow> h < dv_iova v + dv_size v \<Longrightarrow>
    page_align 64 sz = dv_size v \<Longrightarrow> ipu_dma_free mi sz h st = Some st' \<Longrightarrow> dma_reach k mi st0 st'"
| map_sg: "dma_reach k mi st0 st \<Longrightarrow> sg_entries_ok mi es \<Longrightarrow> ipu_dma_map_sg k mi es st = Some (n, es', st') \<Longrightarrow>
    dma_reach k mi st0 st'"
| unmap_sg: "dma_reach k mi st0 st \<Longrightarrow> (lo, hi) \<in> set (ds_iovas st) \<Longrightarrow> \<forall>v \<in> set (ds_vmas st). dv_iova v \<noteq> 4096 * lo \<Longrightarrow>
    0 < nents \<Longrightarrow> lo \<le> sg_dma_address (hd es) div 4096 \<Longrightarrow> sg_dma_address (hd es) div 4096 \<le> hi \<Longrightarrow>
    \<forall>q. lo \<le> q \<and> q \<le> hi \<longrightarrow> mapping mi (ds_mem st) q \<noteq> None \<Longrightarrow>
    ipu_dma_unmap_sg mi es nents st = Some st' \<Longrightarrow> dma_reach k mi st0 st'"

lemma dma_reach_inv:
  assumes "dma_inv ext mi st0" "drop_bit PAGE_SHIFT (dk_mask k) < 2 ^ 20"
  shows "dma_reach k mi st0 st \<Longrightarrow> dma_inv ext mi st"
proof (induction rule: dma_reach.induct)
  case start
  show ?case by (rule assms)
next
  case (alloc st sz r st')
  obtain r' st2 where s: "ipu_dma_alloc k mi sz st = Some (r', st2)" "wf_mmu ext mi (ds_mem st2)"
      "case r' of None \<Rightarrow> dma_same mi st st2
       | Some (addr, handle) \<Rightarrow> \<exists>lo ps. handle = 4096 * lo \<and> 4096 * length ps = page_align 64 sz \<and> buffer_added mi lo ps addr st st2"
    using ipu_dma_alloc_spec [OF alloc.IH assms(2)] by blast
  show ?case
  proof (cases r')
    case None
    then show ?thesis using s alloc inv_same by auto
  next
    case (Some x)
    then obtain lo ps addr where "buffer_added mi lo ps addr st st2" using s(3) by (cases x) auto
    then show ?thesis using s(1,2) alloc inv_added by auto
  qed
next
  case (free st v h sz st')
  obtain lo st2 where "dv_iova v = 4096 * lo" "ipu_dma_free mi sz h st = Some st2" "wf_mmu ext mi (ds_mem st2)"
      "buffer_removed mi lo v st st2"
    using ipu_dma_free_spec [OF free.IH free.hyps(2-5)] by blast
  then show ?case using inv_removed [OF free.IH free.hyps(2)] free.hyps(6) by auto
next
  case (map_sg st es n es' st')
  show ?case
  proof (cases "n = 0")
    case True
    have f: "wf_mmu ext mi (ds_mem st')" "mapping mi (ds_mem st') = mapping mi (ds_mem st)" "ds_vmas st' = ds_vmas st"
      "ds_pages st' = ds_pages st" "ds_bad_free st' = ds_bad_free st"
      "ds_iovas st' = ds_iovas st \<or> (\<exists>lo. ds_iovas st' = (lo, lo + sg_total es - 1) # ds_iovas st \<and> lo + sg_total es \<le> 2 ^ 20 \<and>
         (\<forall>(a, b) \<in> set (ds_iovas st). b < lo \<or> lo + sg_total es - 1 < a))"
      using map_sg_failed [OF map_sg.IH assms(2) map_sg.hyps(2)] map_sg.hyps(3) True by blast+
    have n: "0 < sg_total es" using map_sg.hyps(2) by (cases es) (auto simp: sg_entries_ok_def)
    from f(6) show ?thesis
    proof
      assume "ds_iovas st' = ds_iovas st"
      then show ?thesis using map_sg.IH f by (simp add: dma_inv_def vma_ok_def)
    next
      assume "\<exists>lo. ds_iovas st' = (lo, lo + sg_total es - 1) # ds_iovas st \<and> lo + sg_total es \<le> 2 ^ 20 \<and>
         (\<forall>(a, b) \<in> set (ds_iovas st). b < lo \<or> lo + sg_total es - 1 < a)"
      then obtain lo where "ds_iovas st' = (lo, lo + sg_total es - 1) # ds_iovas st" "lo + sg_total es \<le> 2 ^ 20"
         "\<forall>(a, b) \<in> set (ds_iovas st). b < lo \<or> lo + sg_total es - 1 < a" by blast
      then show ?thesis using inv_grow [OF map_sg.IH n, of lo st'] f by simp
    qed
  next
    case False
    then obtain lo where "list_added mi lo es st st'" "wf_mmu ext mi (ds_mem st')"
      using map_sg_mapped [OF map_sg.IH assms(2) map_sg.hyps(2,3)] by blast
    then show ?thesis using inv_list_added [OF map_sg.IH _ _ map_sg.hyps(2)] by blast
  qed
next
  case (unmap_sg st lo hi nents es st')
  have all: "\<forall>q. lo \<le> q \<and> q \<le> hi \<longrightarrow> installed mi (ds_mem st) q" using unmap_sg.hyps(7) inv_installed by blast
  obtain mem where "ipu_dma_unmap_sg mi es nents st =
      Some (st\<lparr>ds_mem := mem, ds_stale := {}, ds_iovas := remove1 (lo, hi) (ds_iovas st)\<rparr>)" "wf_mmu ext mi mem"
      "mapping mi mem = cleared lo (hi - lo + 1) (mapping mi (ds_mem st))"
    using unmap_sg_spec [OF unmap_sg.IH unmap_sg.hyps(2,4-6) all] by blast
  then show ?case using inv_shrink [OF unmap_sg.IH unmap_sg.hyps(2,3), of st'] unmap_sg.hyps(8) by auto
qed

text \<open>An empty start.\<close>

definition no_buffers :: "page_mem \<Rightarrow> ipu_dma" where
  "no_buffers mem = \<lparr>ds_mem = mem, ds_iovas = [], ds_vmas = [], ds_pages = {}, ds_zero = {}, ds_vmaps = {},
     ds_objects = 0, ds_stale = {}, ds_exposed = False, ds_bad_free = False\<rparr>"

lemma no_buffers_inv: "wf_mmu ext mi mem \<Longrightarrow> mapping mi mem = (\<lambda>_. None) \<Longrightarrow> dma_inv ext mi (no_buffers mem)"
  by (simp add: no_buffers_def dma_inv_def pairwise_def)

section \<open>Example\<close>

text \<open>A kernel with page 9 for buffers, the range from page 5 on and one address.\<close>

definition ex_dma :: dma_kernel where
  "ex_dma = \<lparr>dk_free_page = ex_gp, dk_alloc_pages = (\<lambda>held order. if 9 \<in> held then None else Some 9),
     dk_alloc_iova = (\<lambda>_ _ _. Some 5), dk_mask = 2 ^ 32 - 1, dk_array = (\<lambda>_. True),
     dk_vmap = (\<lambda>_. Some 1000), dk_info = True\<rparr>"

lemma ex_dma_alloc:
  assumes "wf_mmu {} ex_mi mem" "pm_pages mem = {1, 2, 3}" "mapping ex_mi mem = (\<lambda>_. None)"
  shows "\<exists>st. ipu_dma_alloc ex_dma ex_mi 4096 (no_buffers mem) = Some (Some (1000, 4096 * 5), st) \<and>
    ds_vmas st = [\<lparr>dv_iova = 4096 * 5, dv_size = 4096, dv_vaddr = 1000, dv_pages = [9]\<rparr>]"
proof -
  obtain mem' where m: "ipu_mmu_map ex_gp (\<lambda>m. m) ex_mi (4096 * 5) (4096 * 9) (4096 * 1) mem = Some (Inr (), mem')"
    by (rule ex_map [OF assms])
  have al: "page_align 64 4096 = 4096" by (simp add: page_align_def page_shift round_down_def)
  have one: "fls_bit (Suc 0) = 0" by (subst fls_bit.simps) simp
  have nine: "{9..<10} = {9 :: nat}" by auto
  have b: "alloc_blocks ex_dma 1 [] s = (True, [9], s\<lparr>ds_pages := {9}, ds_zero := ds_zero s \<union> {9}\<rparr>)"
    if "ds_pages s = {}" "ds_mem s = mem" for s
    using that assms(2)
    by (subst alloc_blocks.simps, subst alloc_blocks.simps)
      (auto simp: one nine alloc_pages_def ex_dma_def dma_clear_buffer_def)
  show ?thesis using m
    by (auto simp: ipu_dma_alloc_def Let_def al page_shift alloc_iova_def ex_dma_def dma_alloc_buffer_def no_buffers_def
        mmu_map_def tlb_invalidate_def b [unfolded ex_dma_def, simplified])
qed

section \<open>Properties\<close>

text \<open>
  C11: Whatever the drivers allocate, free, map and unmap, and whichever of these fails for want
  of memory or of addresses, every buffer's handle translates to the buffer's own pages, page
  by page, no page is in two buffers, and no page is given back that is not held.
\<close>

theorem dma_buffers_translate:
  assumes "wf_mmu ext mi mem" "mapping mi mem = (\<lambda>_. None)" "drop_bit PAGE_SHIFT (dk_mask k) < 2 ^ 20"
    and "dma_reach k mi (no_buffers mem) st"
  shows "\<not> ds_bad_free st \<and> distinct (concat (map dv_pages (ds_vmas st))) \<and>
    (\<forall>v \<in> set (ds_vmas st). dv_size v = 4096 * length (dv_pages v) \<and>
      map (\<lambda>i. ipu_mmu_iova_to_phys mi (dv_iova v + 4096 * i) (ds_mem st)) [0..<length (dv_pages v)] =
        map (\<lambda>p. 4096 * p) (dv_pages v))"
proof -
  have inv: "dma_inv ext mi st" by (rule dma_reach_inv [OF no_buffers_inv [OF assms(1,2)] assms(3,4)])
  then have wf: "wf_mmu ext mi (ds_mem st)" by (simp add: dma_inv_def)
  have "dv_size v = 4096 * length (dv_pages v) \<and>
      map (\<lambda>i. ipu_mmu_iova_to_phys mi (dv_iova v + 4096 * i) (ds_mem st)) [0..<length (dv_pages v)] =
        map (\<lambda>p. 4096 * p) (dv_pages v)" if v: "v \<in> set (ds_vmas st)" for v
  proof -
    obtain l where l: "dv_iova v = 4096 * l" "dv_size v = 4096 * length (dv_pages v)" "dv_pages v \<noteq> []"
        "(l, l + length (dv_pages v) - 1) \<in> set (ds_iovas st)" "set (dv_pages v) \<subseteq> ds_pages st"
        "\<forall>p \<in> set (dv_pages v). p < 2 ^ 32"
        "\<forall>i < length (dv_pages v). mapping mi (ds_mem st) (l + i) = Some (of_nat (dv_pages v ! i))"
      using inv_vma [OF inv v] by blast
    have "ipu_mmu_iova_to_phys mi (dv_iova v + 4096 * i) (ds_mem st) = 4096 * (dv_pages v ! i)"
      if i: "i < length (dv_pages v)" for i
    proof -
      have m: "mapping mi (ds_mem st) (l + i) = Some (of_nat (dv_pages v ! i))" using l(7) i by blast
      then have "l + i < 2 ^ 20" by (auto simp: mapping_def split: if_splits)
      moreover have "dv_pages v ! i < 2 ^ 32" using l(6) i by simp
      ultimately show ?thesis
        using translate_page [OF wf, of "l + i"] m frame_unat [of "dv_pages v ! i"] by (simp add: l(1) algebra_simps)
    qed
    then have "map (\<lambda>i. ipu_mmu_iova_to_phys mi (dv_iova v + 4096 * i) (ds_mem st)) [0..<length (dv_pages v)] =
        map (\<lambda>p. 4096 * p) (dv_pages v)" by (intro nth_equalityI) simp_all
    with l(2) show ?thesis by blast
  qed
  moreover have "\<not> ds_bad_free st" "distinct (concat (map dv_pages (ds_vmas st)))" using inv by (simp_all add: dma_inv_def)
  ultimately show ?thesis by blast
qed

lemma dma_buffers_translate_witness:
  "\<exists>(st :: ipu_dma) v. ds_vmas st = [v] \<and> dv_pages v = [9] \<and> dv_iova v = 4096 * 5 \<and>
     ipu_mmu_iova_to_phys ex_mi (4096 * 5) (ds_mem st) = 4096 * 9"
proof -
  obtain mem where m: "wf_mmu {} ex_mi mem" "mapping ex_mi mem = (\<lambda>_. None)" "pm_pages mem = {1, 2, 3}"
    by (rule ex_domain)
  have lim: "drop_bit PAGE_SHIFT (dk_mask ex_dma) < 2 ^ 20" by (simp add: page_shift ex_dma_def)
  obtain st where a: "ipu_dma_alloc ex_dma ex_mi 4096 (no_buffers mem) = Some (Some (1000, 4096 * 5), st)"
      "ds_vmas st = [\<lparr>dv_iova = 4096 * 5, dv_size = 4096, dv_vaddr = 1000, dv_pages = [9]\<rparr>]"
    using ex_dma_alloc [OF m(1,3,2)] by blast
  have "dma_reach ex_dma ex_mi (no_buffers mem) st" by (rule dma_reach.alloc [OF dma_reach.start a(1)])
  from dma_buffers_translate [OF m(1,2) lim this]
  have "ipu_mmu_iova_to_phys ex_mi (4096 * 5) (ds_mem st) = 4096 * 9" by (simp add: a(2))
  then show ?thesis using a(2)
    by (intro exI [of _ st] exI [of _ "\<lparr>dv_iova = 4096 * 5, dv_size = 4096, dv_vaddr = 1000, dv_pages = [9]\<rparr>"]) simp
qed

text \<open>
  An allocation is all or nothing.  It always returns; without memory, addresses or an
  address of the kernel, the mapping, the ranges, the pages and the objects are as before; on
  success the buffer's pages were in no buffer before, are all cleared, and are mapped at the
  handle in their order, where nothing was mapped.  Freeing the buffer restores the books.
\<close>

theorem dma_alloc_free:
  assumes "dma_inv ext mi st" "drop_bit PAGE_SHIFT (dk_mask k) < 2 ^ 20"
  shows "\<exists>r st'. ipu_dma_alloc k mi sz st = Some (r, st') \<and>
    (case r of
       None \<Rightarrow> dma_same mi st st'
     | Some (addr, handle) \<Rightarrow> \<exists>lo ps. handle = 4096 * lo \<and> 4096 * length ps = page_align 64 sz \<and>
         distinct ps \<and> set ps \<inter> ds_pages st = {} \<and> set ps \<subseteq> ds_zero st' \<and>
         mapping mi (ds_mem st') = paged lo ps (mapping mi (ds_mem st)) \<and>
         (\<exists>st''. ipu_dma_free mi sz handle st' = Some st'' \<and> dma_same mi st st''))"
proof -
  obtain r st' where a: "ipu_dma_alloc k mi sz st = Some (r, st')" "wf_mmu ext mi (ds_mem st')"
      "case r of None \<Rightarrow> dma_same mi st st'
       | Some (addr, handle) \<Rightarrow> \<exists>lo ps. handle = 4096 * lo \<and> 4096 * length ps = page_align 64 sz \<and> buffer_added mi lo ps addr st st'"
    using ipu_dma_alloc_spec [OF assms] by blast
  show ?thesis
  proof (cases r)
    case None
    then show ?thesis using a by auto
  next
    case (Some x)
    then obtain addr lo ps where x: "x = (addr, 4096 * lo)" "4096 * length ps = page_align 64 sz" "buffer_added mi lo ps addr st st'"
      using a(3) by (cases x) auto
    let ?v = "\<lparr>dv_iova = 4096 * lo, dv_size = 4096 * length ps, dv_vaddr = addr, dv_pages = ps\<rparr>"
    note ba = x(3) [unfolded buffer_added_def]
    have inv': "dma_inv ext mi st'" by (rule inv_added [OF assms(1) x(3) a(2)])
    have v: "?v \<in> set (ds_vmas st')" "0 < length ps" using ba by auto
    have pos: "0 < page_align 64 sz" using v(2) x(2) by linarith
    have "\<exists>l st''. dv_iova ?v = 4096 * l \<and> ipu_dma_free mi sz (4096 * lo) st' = Some st'' \<and> wf_mmu ext mi (ds_mem st'') \<and>
        buffer_removed mi l ?v st' st''"
      by (rule ipu_dma_free_spec [OF inv' v(1)]) (use pos x(2) in simp_all)
    then obtain l st'' where f: "dv_iova ?v = 4096 * l" "ipu_dma_free mi sz (4096 * lo) st' = Some st''"
        "buffer_removed mi l ?v st' st''" by blast
    have "dma_same mi st st''" using remove_added [OF assms(1) x(3)] f(1,3) by simp
    then have "\<exists>lo' ps. 4096 * lo = 4096 * lo' \<and> 4096 * length ps = page_align 64 sz \<and>
        distinct ps \<and> set ps \<inter> ds_pages st = {} \<and> set ps \<subseteq> ds_zero st' \<and>
        mapping mi (ds_mem st') = paged lo' ps (mapping mi (ds_mem st)) \<and>
        (\<exists>st''. ipu_dma_free mi sz (4096 * lo) st' = Some st'' \<and> dma_same mi st st'')"
      using x(2) ba f(2) by (intro exI [of _ lo] exI [of _ ps]) simp
    then show ?thesis unfolding a(1) Some x(1) by (intro exI [of _ "Some (addr, 4096 * lo)"] exI [of _ st']) simp
  qed
qed

lemma dma_alloc_free_witness:
  "\<exists>st' st''. ipu_dma_alloc ex_dma ex_mi 4096 st' = Some (Some (1000, 20480), st'') \<and>
    (\<exists>st. ipu_dma_free ex_mi 4096 20480 st'' = Some st \<and> ds_pages st = {} \<and> ds_vmas st = [])"
proof -
  obtain mem where m: "wf_mmu {} ex_mi mem" "mapping ex_mi mem = (\<lambda>_. None)" "pm_pages mem = {1, 2, 3}"
    by (rule ex_domain)
  have lim: "drop_bit PAGE_SHIFT (dk_mask ex_dma) < 2 ^ 20" by (simp add: page_shift ex_dma_def)
  obtain st where a: "ipu_dma_alloc ex_dma ex_mi 4096 (no_buffers mem) = Some (Some (1000, 20480), st)"
    using ex_dma_alloc [OF m(1,3,2)] by auto
  then have "\<exists>s. ipu_dma_free ex_mi 4096 20480 st = Some s \<and> dma_same ex_mi (no_buffers mem) s"
    using dma_alloc_free [OF no_buffers_inv [OF m(1,2)] lim, of 4096] by auto
  with a show ?thesis by (fastforce simp: dma_same_def no_buffers_def)
qed

text \<open>
  A scatter list is mapped entry by entry, from one page on, where nothing was mapped, and
  unmapping it takes exactly that out again; a list that cannot be mapped leaves the mapping as
  it was.
\<close>

theorem dma_sg_roundtrip:
  assumes "dma_inv ext mi st" "drop_bit PAGE_SHIFT (dk_mask k) < 2 ^ 20" "sg_entries_ok mi es"
    and "ipu_dma_map_sg k mi es st = Some (n, es', st')"
  shows "if n = 0 then mapping mi (ds_mem st') = mapping mi (ds_mem st) \<and> ds_vmas st' = ds_vmas st
    else \<exists>lo. n = length es \<and> es' = placed lo es \<and>
      mapping mi (ds_mem st') = sg_mapping lo es (mapping mi (ds_mem st)) \<and>
      (\<exists>st''. ipu_dma_unmap_sg mi es' n st' = Some st'' \<and> mapping mi (ds_mem st'') = mapping mi (ds_mem st) \<and>
        ds_iovas st'' = ds_iovas st \<and> ds_vmas st'' = ds_vmas st)"
proof (cases "n = 0")
  case True
  then show ?thesis using map_sg_failed [OF assms(1-3)] assms(4) by simp
next
  case False
  then obtain lo where lo: "n = length es" "es' = placed lo es" "list_added mi lo es st st'" "wf_mmu ext mi (ds_mem st')"
    using map_sg_mapped [OF assms] by blast
  note la = lo(3) [unfolded list_added_def]
  have inv': "dma_inv ext mi st'" by (rule inv_list_added [OF assms(1) lo(3,4) assms(3)])
  have tot: "0 < sg_total es" "es \<noteq> []" using assms(3) by (cases es; auto simp: sg_entries_ok_def)+
  have iov: "ds_iovas st' = (lo, lo + sg_total es - 1) # ds_iovas st" using la by auto
  have all: "\<forall>q. lo \<le> q \<and> q \<le> lo + sg_total es - 1 \<longrightarrow> installed mi (ds_mem st') q"
  proof (intro allI impI)
    fix q
    assume "lo \<le> q \<and> q \<le> lo + sg_total es - 1"
    then have "mapping mi (ds_mem st') q \<noteq> None" using la sg_mapping_inside [of lo q es] tot(1) by auto
    then show "installed mi (ds_mem st') q" using inv_installed by blast
  qed
  have hd: "sg_dma_address (hd es') div 4096 = lo" using placed_hd [OF tot(2)] lo(2) by simp
  have nn: "lo + sg_total es - 1 - lo + 1 = sg_total es" using tot(1) by simp
  have h: "lo \<le> sg_dma_address (hd es') div 4096" "sg_dma_address (hd es') div 4096 \<le> lo + sg_total es - 1" "0 < n"
    using hd tot(1) False by linarith+
  have "(lo, lo + sg_total es - 1) \<in> set (ds_iovas st')" using iov by simp
  from unmap_sg_spec [OF inv' this h(3,1,2) all] obtain mem where m: "ipu_dma_unmap_sg mi es' n st' =
      Some (st'\<lparr>ds_mem := mem, ds_stale := {}, ds_iovas := remove1 (lo, lo + sg_total es - 1) (ds_iovas st')\<rparr>)"
      "mapping mi mem = cleared lo (sg_total es) (mapping mi (ds_mem st'))"
    using nn by auto
  have "mapping mi mem = mapping mi (ds_mem st)"
    unfolding m(2) la [THEN conjunct2, THEN conjunct2, THEN conjunct1]
    by (rule cleared_sg) (use inv_iova_in [OF assms(1), of lo "sg_total es"] la in \<open>auto dest!: le_Suc_ex\<close>)
  then show ?thesis using False lo(1,2) la m(1) iov by auto
qed

lemma ex_sg_map:
  assumes "wf_mmu {} ex_mi mem" "pm_pages mem = {1, 2, 3}" "mapping ex_mi mem = (\<lambda>_. None)"
  shows "\<exists>st. ipu_dma_map_sg ex_dma ex_mi [\<lparr>sg_page = 9, sg_length = 4096, sg_dma_address = 0\<rparr>] (no_buffers mem) =
    Some (1, [\<lparr>sg_page = 9, sg_length = 4096, sg_dma_address = 20480\<rparr>], st)"
proof -
  let ?e = "\<lparr>sg_page = 9, sg_length = 4096, sg_dma_address = 0\<rparr>"
  obtain mem' where m: "ipu_mmu_map ex_gp (\<lambda>m. m) ex_mi (4096 * 5) (4096 * 9) (4096 * 1) mem = Some (Inr (), mem')"
    by (rule ex_map [OF assms])
  have al: "page_align 32 4096 = 4096" by (simp add: page_align_def page_shift round_down_def)
  then have pages: "sg_pages ?e = 1" by (simp add: sg_pages_def page_shift)
  show ?thesis using m
    by (simp add: ipu_dma_map_sg_def pages alloc_iova_def ex_dma_def page_shift no_buffers_def mmu_map_def al)
qed

lemma dma_sg_roundtrip_witness:
  "\<exists>(st :: ipu_dma) st'. ipu_dma_unmap_sg ex_mi [\<lparr>sg_page = 9, sg_length = 4096, sg_dma_address = 20480\<rparr>] 1 st = Some st' \<and>
    mapping ex_mi (ds_mem st) 5 = Some 9 \<and> mapping ex_mi (ds_mem st') 5 = None \<and> ds_iovas st' = []"
proof -
  obtain mem where m: "wf_mmu {} ex_mi mem" "mapping ex_mi mem = (\<lambda>_. None)" "pm_pages mem = {1, 2, 3}"
    by (rule ex_domain)
  let ?e = "\<lparr>sg_page = 9, sg_length = 4096, sg_dma_address = 0\<rparr>"
  have lim: "drop_bit PAGE_SHIFT (dk_mask ex_dma) < 2 ^ 20" by (simp add: page_shift ex_dma_def)
  obtain st where r: "ipu_dma_map_sg ex_dma ex_mi [?e] (no_buffers mem) =
      Some (1, [\<lparr>sg_page = 9, sg_length = 4096, sg_dma_address = 20480\<rparr>], st)"
    using ex_sg_map [OF m(1,3,2)] by blast
  have pages: "sg_pages ?e = 1" by (simp add: sg_pages_def page_align_def page_shift round_down_def)
  have "unat (mi_dummy_page ex_mi) = 1" by (simp add: ex_mi_def)
  then have "sg_entries_ok ex_mi [?e]" by (simp add: sg_entries_ok_def pages)
  from dma_sg_roundtrip [OF no_buffers_inv [OF m(1,2)] lim this r] obtain lo st' where
      u: "[\<lparr>sg_page = 9, sg_length = 4096, sg_dma_address = 20480\<rparr>] = placed lo [?e]"
      "mapping ex_mi (ds_mem st) = sg_mapping lo [?e] (\<lambda>_. None)"
      "ipu_dma_unmap_sg ex_mi [\<lparr>sg_page = 9, sg_length = 4096, sg_dma_address = 20480\<rparr>] 1 st = Some st'"
      "mapping ex_mi (ds_mem st') = (\<lambda>_. None)" "ds_iovas st' = []"
    using m(2) by (auto simp: no_buffers_def)
  have "lo = 5" using u(1) by simp
  then have "mapping ex_mi (ds_mem st) 5 = Some 9" using u(2) by (simp add: pages extended_def)
  with u(3-5) show ?thesis by (intro exI [of _ st] exI [of _ st']) simp
qed

section \<open>Errors\<close>

text \<open>
  A list whose first entry cannot be mapped keeps the addresses that were taken for it: the
  caller is told that nothing was mapped and has no address to give back.
\<close>

theorem dma_map_sg_leak:
  assumes "sg_entries_ok mi es" "alloc_iova k (sg_total es) st = Some (iova, st')"
    and "mmu_map k mi (4096 * fst iova mod 2 ^ 32) (4096 * sg_page (hd es)) (4096 * sg_pages (hd es)) (ds_mem st) = Some (Inl x, mem)"
    and "fst iova < 2 ^ 32"
  shows "ipu_dma_map_sg k mi es st = Some (0, es, st'\<lparr>ds_mem := mem\<rparr>) \<and> ds_iovas st' = iova # ds_iovas st"
proof -
  have "ds_mem st' = ds_mem st" "ds_iovas st' = iova # ds_iovas st"
    using assms(2) by (auto simp: alloc_iova_def split: option.splits if_splits)
  moreover have "fst iova mod 4294967296 = fst iova" using assms(4) by simp
  ultimately show ?thesis using assms
    by (cases es) (auto simp: ipu_dma_map_sg_def sg_entries_ok_def sg_total_def page_shift(1) sg_size Let_def ipu_dma_unmap_sg_def)
qed

lemma dma_map_sg_leak_witness:
  "\<exists>mem. ipu_dma_map_sg (ex_dma\<lparr>dk_free_page := \<lambda>_. None\<rparr>) ex_mi
      [\<lparr>sg_page = 9, sg_length = 4096, sg_dma_address = 0\<rparr>] (no_buffers mem) =
    Some (0, [\<lparr>sg_page = 9, sg_length = 4096, sg_dma_address = 0\<rparr>], (no_buffers mem)\<lparr>ds_iovas := [(5, 5)]\<rparr>)"
proof -
  obtain mem where m: "wf_mmu {} ex_mi mem" "\<not> installed ex_mi mem 5" by (rule ex_domain)
  let ?k = "ex_dma\<lparr>dk_free_page := \<lambda>_. None\<rparr>" and ?e = "\<lparr>sg_page = 9, sg_length = 4096, sg_dma_address = 0\<rparr>"
  have pages: "sg_pages ?e = 1" by (simp add: sg_pages_def page_align_def page_shift round_down_def)
  have l1: "l1_index 20480 = 0" by (simp add: l1_index_def ISP_L1PT_SHIFT_def drop_bit_eq_div)
  have "l1_entry ex_mi mem 0 = mi_dummy_l2_tbl ex_mi" using m(2) by (simp add: installed_def)
  then have one: "ipu_mmu_map_page (\<lambda>_. None) (\<lambda>m. m) ex_mi 20480 p mem = (Inl ENOMEM, mem)" for p
    by (simp add: ipu_mmu_map_page_def l2_map_def install_table_def alloc_page_table_def get_free_page_def l1
        round_down_def ISP_PAGE_SIZE_def ISP_PAGE_SHIFT_def)
  have ps: "ipu_mmu_pgsize (mi_pgsize_bitmap ex_mi) (4096 * 5 OR 4096 * 9) (4096 * 1) = Some 4096"
    using pgsize_4096 [of "4096 * 5 OR 4096 * 9" 4096] or_aligned [of "4096 * 5" "4096 * 9"]
    by (simp add: ex_mi_def SZ_4K_def)
  have u: "ipu_mmu_unmap ex_mi 20480 0 mem = Some (0, mem)"
    using unmap_range [OF m(1), of 5 0] by (simp add: unmap_loop.simps)
  have "ipu_mmu_map (\<lambda>_. None) (\<lambda>m. m) ex_mi (4096 * 5) (4096 * 9) (4096 * 1) mem = Some (Inl ENOMEM, mem)"
    unfolding map_range [OF m(1)]
    by (subst map_loop.simps, subst ps, simp add: one u)
  then have map: "mmu_map ?k ex_mi (4096 * fst (5 :: nat, 5 :: nat) mod 2 ^ 32) (4096 * sg_page (hd [?e]))
      (4096 * sg_pages (hd [?e])) (ds_mem (no_buffers mem)) = Some (Inl ENOMEM, mem)"
    by (simp add: mmu_map_def pages no_buffers_def)
  have iova: "alloc_iova ?k (sg_total [?e]) (no_buffers mem) = Some ((5, 5), (no_buffers mem)\<lparr>ds_iovas := [(5, 5)]\<rparr>)"
    by (simp add: alloc_iova_def ex_dma_def pages no_buffers_def page_shift(3))
  have "unat (mi_dummy_page ex_mi) = 1" by (simp add: ex_mi_def)
  then have "sg_entries_ok ex_mi [?e]" by (simp add: sg_entries_ok_def pages)
  from dma_map_sg_leak [OF this iova map] show ?thesis
    by (intro exI [of _ mem]) (simp add: no_buffers_def)
qed

text \<open>
  When a later entry cannot be mapped, the whole range is unmapped; if a part of it has no
  table yet, for instance because that table could not be allocated, what happens is undefined.
\<close>

lemma dma_map_sg_hole:
  assumes inv: "dma_inv ext mi st" and a: "alloc_iova k (sg_total es) st = Some ((lo, hi), st')"
    and limit: "drop_bit PAGE_SHIFT (dk_mask k) < 2 ^ 20"
    and m: "map_entries (mmu_map k mi) lo es (ds_mem st) = Some (False, i, es', mem)" "wf_mmu ext mi mem" "0 < i"
    and hd: "sg_dma_address (hd es') = 4096 * lo" "installed mi mem lo"
    and hole: "j < sg_total es" "\<not> installed mi mem (lo + j)"
  shows "ipu_dma_map_sg k mi es st = None"
proof -
  obtain l where l: "(lo, hi) = (l, l + sg_total es - 1)" "0 < sg_total es" "l + sg_total es \<le> 2 ^ 20"
      "st' = st\<lparr>ds_iovas := (lo, hi) # ds_iovas st\<rparr>"
    using alloc_iova_spec [OF a limit] by metis
  have f: "find_iova lo (st'\<lparr>ds_mem := mem\<rparr>) = Some (lo, hi)"
    using l by (auto simp: find_iova_def)
  have n: "hi - lo + 1 = sg_total es" "lo mod 4294967296 = lo" using l(1-3) by auto
  have u: "ipu_mmu_unmap mi (4096 * lo) (4096 * sg_total es) mem = None"
    by (rule unmap_first_hole [OF m(2) _ hd(2) hole]) (use l in simp)
  have "ipu_dma_unmap_sg mi es' i (st'\<lparr>ds_mem := mem\<rparr>) = None"
    using m(3) hd(1) n u by (simp add: ipu_dma_unmap_sg_def page_shift f)
  moreover have "ds_mem st' = ds_mem st" using l(4) by simp
  ultimately show ?thesis using a m(1) n(2) by (simp add: ipu_dma_map_sg_def sg_total_def)
qed

text \<open>
  A buffer's pages are given back to the kernel before the device's TLB is invalidated.
\<close>

lemma dma_free_exposes:
  assumes "dma_inv ext mi st" "v \<in> set (ds_vmas st)" "page_align 64 sz = dv_size v"
  shows "\<exists>st'. ipu_dma_free mi sz (dv_iova v) st = Some st' \<and> ds_exposed st'"
proof -
  have "0 < dv_size v" by (rule inv_vma [OF assms(1,2)]) simp
  then show ?thesis
    using ipu_dma_free_spec [OF assms(1,2) order_refl _ assms(3)] by (auto simp: buffer_removed_def)
qed

text \<open>The size asked for is not compared with the buffer's.\<close>

lemma dma_sgtable_overrun:
  assumes "find_vma_by_iova handle st = Some v" "4096 * length (dv_pages v) < page_align 64 sz"
  shows "ipu_dma_get_sgtable addr handle sz st = None"
proof -
  obtain n where "page_align 64 sz = 4096 * n" using page_align_dvd by blast
  then show ?thesis using assms by (simp add: ipu_dma_get_sgtable_def page_shift)
qed

end
