(* ===== verification/IrDecode.thy ===== *)
theory IrDecode
  imports Prelude "HOL-Library.Monad_Syntax"
begin

text \<open>
  The frame decoder of the infrared camera, \<^verbatim>\<open>ir_decode_raw10_to_yuyv\<close> in
  \<^verbatim>\<open>cbridge/ir-v4l2.c\<close>: rows of packed RAW10 pixels behind a four byte line header become
  YUYV with neutral chroma.  Memory is a list of bytes; a read or a write outside it is
  \<open>None\<close>.  Sizes and offsets are natural numbers, with \<^verbatim>\<open>mod\<close> where the C expression can wrap.
\<close>

section \<open>Constants\<close>

definition IR_CAPTURE_WIDTH :: nat where "IR_CAPTURE_WIDTH = 640"
definition IR_CAPTURE_HEIGHT :: nat where "IR_CAPTURE_HEIGHT = 480"
definition IR_CAPTURE_HEADER_BYTES :: nat where "IR_CAPTURE_HEADER_BYTES = 4"
definition IR_CAPTURE_RAW10_BYTES :: nat where "IR_CAPTURE_RAW10_BYTES = IR_CAPTURE_WIDTH * 10 div 8"
definition IR_CAPTURE_MIN_STRIDE :: nat where "IR_CAPTURE_MIN_STRIDE = 832"
definition IR_CAPTURE_OUTPUT_BYTES :: nat where
  "IR_CAPTURE_OUTPUT_BYTES = IR_CAPTURE_WIDTH * IR_CAPTURE_HEIGHT * 2"
definition IR_HEADER_WORD :: u32 where "IR_HEADER_WORD = 0x40"

section \<open>Memory and loops\<close>

definition get_byte :: "u8 list \<Rightarrow> nat \<Rightarrow> u8 option" where
  "get_byte buf i = (if i < length buf then Some (buf ! i) else None)"

definition put_byte :: "u8 list \<Rightarrow> nat \<Rightarrow> u8 \<Rightarrow> u8 list option" where
  "put_byte buf i v = (if i < length buf then Some (buf[i := v]) else None)"

text \<open>A counted loop: the body for 0, 1, ... in turn.\<close>

primrec for_loop :: "(nat \<Rightarrow> 'a \<Rightarrow> 'a option) \<Rightarrow> nat \<Rightarrow> 'a \<Rightarrow> 'a option" where
  "for_loop body 0 a = Some a"
| "for_loop body (Suc n) a = for_loop body n a \<bind> body n"

section \<open>A group of four pixels\<close>

definition raw10_pixel :: "u8 list \<Rightarrow> nat \<Rightarrow> nat \<Rightarrow> u16 option" where
  "raw10_pixel buf source component =
     do {
       high \<leftarrow> get_byte buf (source + component);
       low \<leftarrow> get_byte buf (source + 4);
       Some (push_bit 2 (ucast high) OR ucast (drop_bit (component * 2) low AND 3))
     }"

definition put_pixel :: "u16 list \<Rightarrow> nat \<Rightarrow> nat \<Rightarrow> u8 list \<Rightarrow> u8 list option" where
  "put_pixel pixel output component yuyv =
     do {
       yuyv \<leftarrow> put_byte yuyv (output + component * 2) (ucast (drop_bit 2 (pixel ! component)));
       put_byte yuyv (output + component * 2 + 1) 0x80
     }"

definition decode_group :: "u8 list \<Rightarrow> nat \<Rightarrow> nat \<Rightarrow> u8 list \<Rightarrow> u8 list option" where
  "decode_group buf source output yuyv =
     do {
       p0 \<leftarrow> raw10_pixel buf source 0;
       p1 \<leftarrow> raw10_pixel buf source 1;
       p2 \<leftarrow> raw10_pixel buf source 2;
       p3 \<leftarrow> raw10_pixel buf source 3;
       for_loop (put_pixel [p0, p1, p2, p3] output) 4 yuyv
     }"

section \<open>A row\<close>

definition line_header :: "u8 list \<Rightarrow> nat \<Rightarrow> u32 option" where
  "line_header buf line =
     do {
       b0 \<leftarrow> get_byte buf line;
       b1 \<leftarrow> get_byte buf (line + 1);
       b2 \<leftarrow> get_byte buf (line + 2);
       b3 \<leftarrow> get_byte buf (line + 3);
       Some (ucast b0 OR push_bit 8 (ucast b1) OR push_bit 16 (ucast b2) OR push_bit 24 (ucast b3))
     }"

text \<open>The flag says whether the row's header was right; a wrong one ends the decoding.\<close>

definition decode_row ::
  "u8 list \<Rightarrow> nat \<Rightarrow> nat \<Rightarrow> nat \<Rightarrow> nat \<Rightarrow> u8 list \<Rightarrow> (bool \<times> u8 list) option" where
  "decode_row buf width stride data_offset row yuyv =
     do {
       let line = data_offset + row * stride;
       let packed = line + IR_CAPTURE_HEADER_BYTES;
       header \<leftarrow> line_header buf line;
       if header AND 0xff \<noteq> IR_HEADER_WORD then Some (False, yuyv)
       else do {
         yuyv \<leftarrow> for_loop (\<lambda>group. decode_group buf (packed + group * 5) ((row * width + group * 4) * 2))
                   (width div 4) yuyv;
         Some (True, yuyv)
       }
     }"

section \<open>The frame\<close>

text \<open>
  The guard; the arithmetic is that of \<^verbatim>\<open>size_t\<close>, \<^verbatim>\<open>height - 1U\<close> that of \<^verbatim>\<open>unsigned\<close>.
  \<open>buffer_size\<close> is the size the caller states, \<open>length buf\<close> the memory there is.
\<close>

definition raw10_payload :: "nat \<Rightarrow> nat" where
  "raw10_payload width = width * 10 div 8"

definition raw10_required :: "nat \<Rightarrow> nat \<Rightarrow> nat \<Rightarrow> nat \<Rightarrow> nat" where
  "raw10_required width height stride data_offset =
     (data_offset + (height + (2 ^ 32 - 1)) mod 2 ^ 32 * stride + IR_CAPTURE_HEADER_BYTES + raw10_payload width)
       mod 2 ^ 64"

definition raw10_accepted :: "nat \<Rightarrow> nat \<Rightarrow> nat \<Rightarrow> nat \<Rightarrow> nat \<Rightarrow> nat \<Rightarrow> bool" where
  "raw10_accepted buffer_size width height stride data_offset yuyv_size \<longleftrightarrow>
     \<not> (width = 0 \<or> height = 0 \<or> width mod 4 \<noteq> 0 \<or>
        stride < IR_CAPTURE_HEADER_BYTES + raw10_payload width \<or>
        data_offset \<ge> buffer_size \<or> buffer_size < raw10_required width height stride data_offset \<or>
        yuyv_size < width * height * 2 mod 2 ^ 64)"

definition ir_decode_raw10_to_yuyv ::
  "u8 list \<Rightarrow> nat \<Rightarrow> nat \<Rightarrow> nat \<Rightarrow> nat \<Rightarrow> nat \<Rightarrow> u8 list \<Rightarrow> (bool \<times> u8 list) option" where
  "ir_decode_raw10_to_yuyv buf buffer_size width height stride data_offset yuyv =
     (if \<not> raw10_accepted buffer_size width height stride data_offset (length yuyv) then Some (False, yuyv)
      else for_loop
        (\<lambda>row (ok, yuyv). if ok then decode_row buf width stride data_offset row yuyv else Some (ok, yuyv))
        height (True, yuyv))"

section \<open>The reference\<close>

text \<open>
  Where the eight high bits of pixel \<open>p\<close> of the frame are: behind its row's header, in
  groups of five bytes of which four hold one pixel each.
\<close>

definition luma_at :: "nat \<Rightarrow> nat \<Rightarrow> nat \<Rightarrow> nat \<Rightarrow> nat" where
  "luma_at width stride data_offset p =
     data_offset + p div width * stride + 4 + p mod width div 4 * 5 + p mod width mod 4"

definition yuyv_byte :: "u8 list \<Rightarrow> nat \<Rightarrow> nat \<Rightarrow> nat \<Rightarrow> nat \<Rightarrow> u8" where
  "yuyv_byte buf width stride data_offset i =
     (if even i then buf ! luma_at width stride data_offset (i div 2) else 0x80)"

definition header_ok :: "u8 list \<Rightarrow> nat \<Rightarrow> nat \<Rightarrow> nat \<Rightarrow> bool" where
  "header_ok buf stride data_offset row \<longleftrightarrow> buf ! (data_offset + row * stride) = 0x40"

text \<open>The rows that are decoded: those before the first wrong header.\<close>

primrec good_rows :: "u8 list \<Rightarrow> nat \<Rightarrow> nat \<Rightarrow> nat \<Rightarrow> nat" where
  "good_rows buf stride data_offset 0 = 0"
| "good_rows buf stride data_offset (Suc n) =
     (if good_rows buf stride data_offset n = n \<and> header_ok buf stride data_offset n then Suc n
      else good_rows buf stride data_offset n)"

text \<open>The frame by comprehension, over what the output held before.\<close>

definition raw10_reference ::
  "u8 list \<Rightarrow> nat \<Rightarrow> nat \<Rightarrow> nat \<Rightarrow> nat \<Rightarrow> u8 list \<Rightarrow> u8 list" where
  "raw10_reference buf width stride data_offset rows yuyv =
     map (\<lambda>i. if i < 2 * width * rows then yuyv_byte buf width stride data_offset i else yuyv ! i)
       [0..<length yuyv]"

section \<open>Loops and memory\<close>

lemma for_loop_rule:
  assumes "P 0 a" and "\<And>k x. k < n \<Longrightarrow> P k x \<Longrightarrow> \<exists>y. body k x = Some y \<and> P (Suc k) y"
  shows "\<exists>y. for_loop body n a = Some y \<and> P n y"
  using assms(2)
proof (induction n)
  case 0
  then show ?case using assms(1) by simp
next
  case (Suc n)
  then obtain y where "for_loop body n a = Some y" "P n y" by fastforce
  then show ?case using Suc.prems [of n y] by simp
qed

lemma get_byte_in [simp]: "i < length buf \<Longrightarrow> get_byte buf i = Some (buf ! i)"
  by (simp add: get_byte_def)

text \<open>The first \<open>k\<close> bytes of a list replaced.\<close>

definition painted :: "(nat \<Rightarrow> 'a) \<Rightarrow> nat \<Rightarrow> 'a list \<Rightarrow> 'a list" where
  "painted f k xs = map (\<lambda>i. if i < k then f i else xs ! i) [0..<length xs]"

lemma painted_basic [simp]:
  "length (painted f k xs) = length xs" "painted f 0 xs = xs"
  by (simp_all add: painted_def map_nth)

lemma put_painted:
  assumes "k < length xs" "v = f k"
  shows "put_byte (painted f k xs) k v = Some (painted f (Suc k) xs)"
  using assms by (auto simp: put_byte_def painted_def less_Suc_eq intro!: nth_equalityI)

section \<open>Pixels\<close>

lemma raw10_luma:
  "ucast (drop_bit 2 (push_bit 2 (ucast (high :: u8)) OR ucast (low AND 3 :: u8) :: u16)) = high"
  by (rule bit_word_eqI) (auto simp: bit_simps)

lemma raw10_pixel_in:
  assumes "source + 4 < length buf" "component < 4"
  shows "\<exists>p. raw10_pixel buf source component = Some p \<and> ucast (drop_bit 2 p) = buf ! (source + component)"
proof -
  have "get_byte buf (source + component) = Some (buf ! (source + component))"
    and "get_byte buf (source + 4) = Some (buf ! (source + 4))" using assms by simp_all
  then show ?thesis unfolding raw10_pixel_def by (simp add: raw10_luma del: drop_bit_or)
qed

lemma put_pixel_painted:
  assumes "output + 2 * component + 1 < length yuyv"
    and "ucast (drop_bit 2 (pixel ! component)) = f (output + 2 * component)"
    and "f (output + 2 * component + 1) = 0x80"
  shows "put_pixel pixel output component (painted f (output + 2 * component) yuyv) =
    Some (painted f (output + 2 * Suc component) yuyv)"
  using assms put_painted [of "output + 2 * component" yuyv _ f]
    put_painted [of "Suc (output + 2 * component)" yuyv _ f]
  by (simp add: put_pixel_def mult.commute)

lemma decode_group_painted:
  assumes "source + 4 < length buf" "output + 8 \<le> length yuyv"
    and "\<And>c. c < 4 \<Longrightarrow> f (output + 2 * c) = buf ! (source + c) \<and> f (output + 2 * c + 1) = 0x80"
  shows "decode_group buf source output (painted f output yuyv) = Some (painted f (output + 8) yuyv)"
proof -
  obtain p0 p1 p2 p3 where p: "raw10_pixel buf source 0 = Some p0" "raw10_pixel buf source 1 = Some p1"
      "raw10_pixel buf source 2 = Some p2" "raw10_pixel buf source 3 = Some p3"
    and l: "ucast (drop_bit 2 p0) = buf ! (source + 0)" "ucast (drop_bit 2 p1) = buf ! (source + 1)"
      "ucast (drop_bit 2 p2) = buf ! (source + 2)" "ucast (drop_bit 2 p3) = buf ! (source + 3)"
    using raw10_pixel_in [OF assms(1), of 0] raw10_pixel_in [OF assms(1), of 1]
      raw10_pixel_in [OF assms(1), of 2] raw10_pixel_in [OF assms(1), of 3] by auto
  have luma: "ucast (drop_bit 2 ([p0, p1, p2, p3] ! c)) = f (output + 2 * c)" if "c < 4" for c
  proof -
    have "c = 0 \<or> c = 1 \<or> c = 2 \<or> c = 3" using that by linarith
    then show ?thesis using l assms(3) [OF that] by (elim disjE) simp_all
  qed
  have "\<exists>y. for_loop (put_pixel [p0, p1, p2, p3] output) 4 (painted f output yuyv) = Some y \<and>
      y = painted f (output + 2 * 4) yuyv"
    by (rule for_loop_rule [where P = "\<lambda>c y. y = painted f (output + 2 * c) yuyv"])
      (use luma assms(2,3) in \<open>simp_all add: put_pixel_painted\<close>)
  then show ?thesis using p by (simp add: decode_group_def)
qed

section \<open>Rows\<close>

lemma header_low_byte:
  "((ucast (b0 :: u8) :: u32) OR push_bit 8 (ucast (b1 :: u8)) OR push_bit 16 (ucast (b2 :: u8)) OR
      push_bit 24 (ucast (b3 :: u8))) AND 0xff = ucast b0"
proof (rule bit_word_eqI)
  fix n
  assume "n < LENGTH(32)"
  have "bit (0xff :: u32) n \<longleftrightarrow> n < 8" if "n < 32" for n
    using that by (simp add: bit_simps flip: mask_eq_exp_minus_1 [of 8, where 'a = u32, simplified])
  then show "bit (((ucast b0 :: u32) OR push_bit 8 (ucast b1) OR push_bit 16 (ucast b2) OR
      push_bit 24 (ucast b3)) AND 0xff) n = bit (ucast b0 :: u32) n"
    using \<open>n < LENGTH(32)\<close> bit_imp_le_length [of b0 n] by (auto simp: bit_simps)
qed

lemma ucast_eq_header: "ucast (b :: u8) = IR_HEADER_WORD \<longleftrightarrow> b = 0x40"
proof
  assume "ucast b = IR_HEADER_WORD"
  have "unat b < 2 ^ 32" using unsigned_less [of b, where 'a = nat] by simp
  then have "unat b = 64"
    using arg_cong [OF \<open>ucast b = IR_HEADER_WORD\<close>, of unat]
    by (simp add: IR_HEADER_WORD_def unsigned_ucast_eq take_bit_nat_eq_self)
  then have "unat b = unat (0x40 :: u8)" by simp
  then show "b = 0x40" by (rule unsigned_word_eqI)
qed (simp add: IR_HEADER_WORD_def)

lemma line_header_in:
  assumes "line + 3 < length buf"
  shows "\<exists>h. line_header buf line = Some h \<and> (h AND 0xff = IR_HEADER_WORD \<longleftrightarrow> buf ! line = 0x40)"
  using assms by (simp add: line_header_def header_low_byte ucast_eq_header)

lemma luma_group:
  assumes "4 * g + c < width" "c < 4"
  shows "luma_at width stride data_offset (row * width + g * 4 + c) =
    data_offset + row * stride + 4 + g * 5 + c"
proof -
  have "(row * width + g * 4 + c) div width = row" "(row * width + g * 4 + c) mod width = g * 4 + c"
    using assms(1) by (simp_all add: add.assoc mult.commute)
  moreover have "(g * 4 + c) div 4 = g" "(g * 4 + c) mod 4 = c" using assms(2) by simp_all
  ultimately show ?thesis by (simp add: luma_at_def)
qed

lemma yuyv_group:
  assumes "4 * g + c < width" "c < 4"
  shows "yuyv_byte buf width stride data_offset ((row * width + g * 4) * 2 + 2 * c) =
      buf ! (data_offset + row * stride + 4 + g * 5 + c)"
    and "yuyv_byte buf width stride data_offset ((row * width + g * 4) * 2 + 2 * c + 1) = 0x80"
proof -
  have "((row * width + g * 4) * 2 + 2 * c) div 2 = row * width + g * 4 + c" by simp
  then show "yuyv_byte buf width stride data_offset ((row * width + g * 4) * 2 + 2 * c) =
      buf ! (data_offset + row * stride + 4 + g * 5 + c)"
    using luma_group [OF assms] by (simp add: yuyv_byte_def mult.commute [of 4])
qed (simp add: yuyv_byte_def)

lemma decode_row_painted:
  assumes w: "width mod 4 = 0"
    and m: "data_offset + row * stride + 4 + raw10_payload width \<le> length buf" "0 < width"
    and out: "2 * width * Suc row \<le> length yuyv"
  shows "decode_row buf width stride data_offset row
      (painted (yuyv_byte buf width stride data_offset) (2 * width * row) yuyv) =
    Some (if header_ok buf stride data_offset row
          then (True, painted (yuyv_byte buf width stride data_offset) (2 * width * Suc row) yuyv)
          else (False, painted (yuyv_byte buf width stride data_offset) (2 * width * row) yuyv))"
proof -
  let ?f = "yuyv_byte buf width stride data_offset" and ?packed = "data_offset + row * stride + 4"
  obtain n where n: "width = 4 * n" using w by (metis mod_0_imp_dvd dvdE)
  have payload: "raw10_payload width = 5 * n" by (simp add: raw10_payload_def n)
  obtain h where h: "line_header buf (data_offset + row * stride) = Some h"
      "h AND 0xff = IR_HEADER_WORD \<longleftrightarrow> header_ok buf stride data_offset row"
    using line_header_in [of "data_offset + row * stride" buf] m payload by (auto simp: header_ok_def)
  have "\<exists>y. for_loop (\<lambda>group. decode_group buf (?packed + group * 5) ((row * width + group * 4) * 2)) n
        (painted ?f (2 * width * row) yuyv) = Some y \<and> y = painted ?f ((row * width + n * 4) * 2) yuyv"
  proof (rule for_loop_rule [where P = "\<lambda>g y. y = painted ?f ((row * width + g * 4) * 2) yuyv"])
    show "painted ?f (2 * width * row) yuyv = painted ?f ((row * width + 0 * 4) * 2) yuyv"
      by (simp add: algebra_simps)
  next
    fix g y
    assume g: "g < n" and y: "y = painted ?f ((row * width + g * 4) * 2) yuyv"
    have "decode_group buf (?packed + g * 5) ((row * width + g * 4) * 2) y =
        Some (painted ?f ((row * width + g * 4) * 2 + 8) yuyv)"
      unfolding y
    proof (rule decode_group_painted)
      show "?packed + g * 5 + 4 < length buf" using m(1) g payload by simp
      have "2 * width * Suc row = 2 * (row * width) + 8 * n" by (simp add: n algebra_simps)
      then show "(row * width + g * 4) * 2 + 8 \<le> length yuyv" using out g by (simp add: algebra_simps)
      show "?f ((row * width + g * 4) * 2 + 2 * c) = buf ! (?packed + g * 5 + c) \<and>
          ?f ((row * width + g * 4) * 2 + 2 * c + 1) = 0x80" if "c < 4" for c
        using yuyv_group [of g c width buf stride data_offset row] g n that by simp
    qed
    then show "\<exists>z. decode_group buf (?packed + g * 5) ((row * width + g * 4) * 2) y = Some z \<and>
        z = painted ?f ((row * width + Suc g * 4) * 2) yuyv"
      by (simp add: algebra_simps)
  qed
  moreover have "(row * width + n * 4) * 2 = 2 * width * Suc row" by (simp add: n algebra_simps)
  ultimately show ?thesis
    using h by (simp add: decode_row_def Let_def IR_CAPTURE_HEADER_BYTES_def n algebra_simps)
qed

section \<open>Frames\<close>

lemma raw10_accepted_bounds:
  assumes "raw10_accepted buffer_size width height stride data_offset yuyv_size"
    and "buffer_size < 2 ^ 63" "width < 2 ^ 32" "height < 2 ^ 32" "stride < 2 ^ 32" "data_offset < 2 ^ 32"
  shows "0 < width" "0 < height" "width mod 4 = 0"
    "data_offset + (height - 1) * stride + 4 + raw10_payload width \<le> buffer_size"
    "2 * width * height \<le> yuyv_size"
proof -
  show w: "0 < width" "0 < height" "width mod 4 = 0" using assms(1) by (auto simp: raw10_accepted_def)
  have s: "4 + raw10_payload width \<le> stride" using assms(1) by (auto simp: raw10_accepted_def IR_CAPTURE_HEADER_BYTES_def)
  have h: "(height + (2 ^ 32 - 1)) mod 2 ^ 32 = height - 1"
    using w(2) assms(4) mod_less [of "height - 1" "2 ^ 32"] by (simp add: mod_if)
  have "(height - 1) * stride \<le> (2 ^ 32 - 2) * (2 ^ 32 - 1)"
    using assms(4,5) by (intro mult_le_mono) simp_all
  then have nowrap: "data_offset + (height - 1) * stride + 4 + raw10_payload width < 2 ^ 64"
    using s assms(5,6) by simp
  then show r: "data_offset + (height - 1) * stride + 4 + raw10_payload width \<le> buffer_size"
    using assms(1) h by (simp add: raw10_accepted_def raw10_required_def IR_CAPTURE_HEADER_BYTES_def)
  have "5 * width \<le> 4 * stride" using s w(3) by (auto simp: raw10_payload_def dvd_def simp flip: dvd_eq_mod_eq_0)
  moreover have "height * stride = (height - 1) * stride + stride"
    using w(2) by (cases height) simp_all
  ultimately have "height * stride < 2 ^ 63 + 2 ^ 32" using r assms(2,5) by simp
  moreover have "5 * (height * width) \<le> 4 * (height * stride)"
    using mult_le_mono2 [OF \<open>5 * width \<le> 4 * stride\<close>, of height] by (metis mult.left_commute)
  moreover have "2 * a < 2 ^ 64" if "5 * a \<le> 4 * b" "b < 2 ^ 63 + 2 ^ 32" for a b :: nat
    using that by simp
  ultimately have "2 * (height * width) < 2 ^ 64" by blast
  then have "2 * width * height < 2 ^ 64" by (simp add: ac_simps)
  then show "2 * width * height \<le> yuyv_size"
    using assms(1) by (simp add: raw10_accepted_def algebra_simps)
qed

lemma good_rows_le: "good_rows buf stride data_offset n \<le> n"
  by (induction n) auto

lemma good_rows_all:
  "good_rows buf stride data_offset n = n \<longleftrightarrow> (\<forall>row < n. header_ok buf stride data_offset row)"
proof (induction n)
  case (Suc n)
  have "good_rows buf stride data_offset n \<noteq> Suc n" using good_rows_le [of buf stride data_offset n] by simp
  then show ?case using Suc by (auto simp: less_Suc_eq)
qed simp

lemma decode_frame:
  assumes acc: "raw10_accepted buffer_size width height stride data_offset (length yuyv)"
    and bounds: "buffer_size < 2 ^ 63" "width < 2 ^ 32" "height < 2 ^ 32" "stride < 2 ^ 32" "data_offset < 2 ^ 32"
    and mem: "buffer_size \<le> length buf"
  shows "ir_decode_raw10_to_yuyv buf buffer_size width height stride data_offset yuyv =
    Some (good_rows buf stride data_offset height = height,
      raw10_reference buf width stride data_offset (good_rows buf stride data_offset height) yuyv)"
proof -
  note b = raw10_accepted_bounds [OF acc bounds]
  let ?f = "yuyv_byte buf width stride data_offset" and ?g = "good_rows buf stride data_offset"
  have "\<exists>y. for_loop (\<lambda>row (ok, yuyv).
        if ok then decode_row buf width stride data_offset row yuyv else Some (ok, yuyv)) height (True, yuyv) = Some y \<and>
      y = (?g height = height, painted ?f (2 * width * ?g height) yuyv)"
  proof (rule for_loop_rule [where P = "\<lambda>r y. y = (?g r = r, painted ?f (2 * width * ?g r) yuyv)"])
    fix r y
    assume r: "r < height" and y: "y = (?g r = r, painted ?f (2 * width * ?g r) yuyv)"
    have "r * stride \<le> (height - 1) * stride" using r by (intro mult_le_mono1) simp
    then have m: "data_offset + r * stride + 4 + raw10_payload width \<le> length buf" using b(4) mem by linarith
    have "2 * width * Suc r \<le> 2 * width * height" using r by (intro mult_le_mono2) simp
    then have o': "2 * width * Suc r \<le> length yuyv" using b(5) by simp
    show "\<exists>z. (case y of (ok, yuyv) \<Rightarrow>
          if ok then decode_row buf width stride data_offset r yuyv else Some (ok, yuyv)) = Some z \<and>
        z = (?g (Suc r) = Suc r, painted ?f (2 * width * ?g (Suc r)) yuyv)"
      using decode_row_painted [OF b(3) m b(1) o'] y good_rows_le [of buf stride data_offset r]
      by (auto split: if_splits)
  qed simp
  then show ?thesis
    using acc by (simp add: ir_decode_raw10_to_yuyv_def raw10_reference_def painted_def)
qed

section \<open>Properties\<close>

text \<open>
  C12: Decoding is equivalent to the reference.  Whatever the input, no byte outside the
  buffer or the output is touched; the guard refuses the frame without writing, or the
  output holds the luma bytes of the rows before the first wrong header, with neutral
  chroma, and nothing else of it changes; the call succeeds when every header is right.
\<close>

theorem decode_equivalent:
  assumes "buffer_size \<le> length buf" "buffer_size < 2 ^ 63"
    and "width < 2 ^ 32" "height < 2 ^ 32" "stride < 2 ^ 32" "data_offset < 2 ^ 32"
  shows "ir_decode_raw10_to_yuyv buf buffer_size width height stride data_offset yuyv = Some (
    if \<not> raw10_accepted buffer_size width height stride data_offset (length yuyv) then (False, yuyv)
    else (\<forall>row < height. buf ! (data_offset + row * stride) = 0x40,
      raw10_reference buf width stride data_offset (good_rows buf stride data_offset height) yuyv))"
  using decode_frame [OF _ assms(2-6,1), of yuyv]
  by (simp add: good_rows_all header_ok_def ir_decode_raw10_to_yuyv_def)

theorem decode_equivalent_witness:
  "ir_decode_raw10_to_yuyv ([0x40, 0, 0, 0] @ [1, 2, 3, 4, 0xff] @ [0, 0, 0, 0] @ [5, 6, 7, 8, 0]) 18 4 2 9 0
       (replicate 16 7) =
     Some (False, [1, 0x80, 2, 0x80, 3, 0x80, 4, 0x80] @ replicate 8 7)"
proof -
  let ?buf = "[0x40, 0, 0, 0] @ [1, 2, 3, 4, 0xff] @ [0, 0, 0, 0] @ [5, 6, 7, 8, 0 :: u8]"
  have acc: "raw10_accepted 18 4 2 9 0 (length (replicate 16 (7 :: u8)))"
    by (simp add: raw10_accepted_def raw10_required_def raw10_payload_def IR_CAPTURE_HEADER_BYTES_def)
  have bad: "\<not> (\<forall>row < 2. ?buf ! (0 + row * 9) = 0x40)" by (intro notI, drule spec [of _ 1]) simp
  have ref: "raw10_reference ?buf 4 9 0 (good_rows ?buf 9 0 2) (replicate 16 7) =
      [1, 0x80, 2, 0x80, 3, 0x80, 4, 0x80] @ replicate 8 7"
    by code_simp
  show ?thesis
    using decode_equivalent [of 18 ?buf 4 2 9 0 "replicate 16 7"] acc bad unfolding ref by simp
qed

end
