(* ===== verification/IrCapture.thy ===== *)
theory IrCapture
  imports IrDecode
begin

text \<open>
  The infrared capture \<^verbatim>\<open>cbridge/ir-v4l2.c\<close>: finding the OV7251's route through the media
  graph, its formats and buffers, and streaming.

  The kernel is the record \<open>'s ir_kernel\<close> of functions on an opaque state \<open>'s\<close>, one per call
  the program makes; nothing is assumed of them.  A call is interrupted only by a signal,
  and \<open>iw_signals\<close> are the signals still to come, which bounds the retries on \<^verbatim>\<open>EINTR\<close>.
  \<open>iw_fds\<close>, \<open>iw_maps\<close> and \<open>iw_captures\<close> are the descriptors, mappings and captures that are
  held, \<open>iw_queued\<close> the buffers the driver owns.  Error messages are not modelled.
\<close>

section \<open>Constants\<close>

definition IR_MEDIA_MAX_ENTITIES :: nat where "IR_MEDIA_MAX_ENTITIES = 128"
definition IR_MEDIA_MAX_LINKS :: nat where "IR_MEDIA_MAX_LINKS = 512"
definition IR_CAPTURE_BUFFERS :: nat where "IR_CAPTURE_BUFFERS = 8"
definition IR_MAX_ROW_PADDING :: nat where "IR_MAX_ROW_PADDING = 64"
definition IR_CAPTURE_MAX_CONSECUTIVE_DISCARDS :: nat where "IR_CAPTURE_MAX_CONSECUTIVE_DISCARDS = 5"
definition IR_CAPTURE_MAX_DISCARD_WAIT_NS :: u64 where "IR_CAPTURE_MAX_DISCARD_WAIT_NS = 2000000000"
definition IR_CAPTURE_RESULT_DISCARDED :: int where "IR_CAPTURE_RESULT_DISCARDED = 2"
definition IR_PATH_SIZE :: nat where "IR_PATH_SIZE = 64"

text \<open>Values of the kernel's headers.\<close>

definition MEDIA_ENT_ID_FLAG_NEXT :: u32 where "MEDIA_ENT_ID_FLAG_NEXT = 0x80000000"
definition MEDIA_LNK_FL_ENABLED :: u32 where "MEDIA_LNK_FL_ENABLED = 1"
definition MEDIA_BUS_FMT_Y10_1X10 :: u32 where "MEDIA_BUS_FMT_Y10_1X10 = 0x200a"
definition V4L2_PIX_FMT_Y10 :: u32 where "V4L2_PIX_FMT_Y10 = 0x20303159"
definition V4L2_FIELD_NONE :: u32 where "V4L2_FIELD_NONE = 1"
definition V4L2_BUF_FLAG_ERROR :: u32 where "V4L2_BUF_FLAG_ERROR = 0x40"
definition V4L2_BUF_FLAG_TIMESTAMP_MASK :: u32 where "V4L2_BUF_FLAG_TIMESTAMP_MASK = 0xe000"
definition V4L2_BUF_FLAG_TIMESTAMP_MONOTONIC :: u32 where "V4L2_BUF_FLAG_TIMESTAMP_MONOTONIC = 0x2000"
definition POLLERR :: u16 where "POLLERR = 0x8"
definition POLLNVAL :: u16 where "POLLNVAL = 0x20"

section \<open>What is rejected, and why\<close>

datatype ir_capture_error =
  IR_CAPTURE_ERROR_NONE | IR_CAPTURE_ERROR_TIMEOUT | IR_CAPTURE_ERROR_POLL | IR_CAPTURE_ERROR_DQBUF
| IR_CAPTURE_ERROR_METADATA | IR_CAPTURE_ERROR_TIMESTAMP | IR_CAPTURE_ERROR_SEQUENCE
| IR_CAPTURE_ERROR_DECODE | IR_CAPTURE_ERROR_REQUEUE | IR_CAPTURE_ERROR_DISCARD_LIMIT

definition IR_CAPTURE_REJECTION_NONE :: u32 where "IR_CAPTURE_REJECTION_NONE = 0"
definition IR_CAPTURE_REJECTION_INVALID_INDEX :: u32 where "IR_CAPTURE_REJECTION_INVALID_INDEX = 1"
definition IR_CAPTURE_REJECTION_INVALID_PLANE_COUNT :: u32 where "IR_CAPTURE_REJECTION_INVALID_PLANE_COUNT = 2"
definition IR_CAPTURE_REJECTION_ERROR_FLAG :: u32 where "IR_CAPTURE_REJECTION_ERROR_FLAG = 4"
definition IR_CAPTURE_REJECTION_TIMESTAMP_FLAGS :: u32 where "IR_CAPTURE_REJECTION_TIMESTAMP_FLAGS = 8"
definition IR_CAPTURE_REJECTION_CAPACITY_UNAVAILABLE :: u32 where
  "IR_CAPTURE_REJECTION_CAPACITY_UNAVAILABLE = 16"
definition IR_CAPTURE_REJECTION_INVALID_PLANE_METADATA :: u32 where
  "IR_CAPTURE_REJECTION_INVALID_PLANE_METADATA = 32"
definition IR_CAPTURE_REJECTION_TIMESTAMP_EMPTY :: u32 where "IR_CAPTURE_REJECTION_TIMESTAMP_EMPTY = 64"
definition IR_CAPTURE_REJECTION_TIMESTAMP_REGRESSION :: u32 where
  "IR_CAPTURE_REJECTION_TIMESTAMP_REGRESSION = 128"
definition IR_CAPTURE_REJECTION_SEQUENCE :: u32 where "IR_CAPTURE_REJECTION_SEQUENCE = 256"
definition IR_CAPTURE_REJECTION_DECODE :: u32 where "IR_CAPTURE_REJECTION_DECODE = 512"
definition IR_CAPTURE_REJECTION_REQUEUE :: u32 where "IR_CAPTURE_REJECTION_REQUEUE = 1024"

datatype ir_requeue_result =
  IR_CAPTURE_REQUEUE_NOT_ATTEMPTED | IR_CAPTURE_REQUEUE_SUCCEEDED | IR_CAPTURE_REQUEUE_FAILED

section \<open>Data\<close>

text \<open>The \<^verbatim>\<open>last_rejection\<close> and \<^verbatim>\<open>last_requeue\<close> fields of \<^verbatim>\<open>IrCaptureStats\<close>.\<close>

record ir_rejection =
  rj_monotonic_ns :: u64
  rj_requeue_monotonic_ns :: u64
  rj_reasons :: u32
  rj_index :: u32
  rj_plane_count :: u32
  rj_sequence :: u32
  rj_flags :: u32
  rj_timestamp_flags :: u32
  rj_timestamp_seconds :: u64
  rj_timestamp_usec :: u64
  rj_bytesused :: u32
  rj_data_offset :: u32
  rj_capacity :: nat
  rj_capacity_available :: bool
  rj_requeue_result :: ir_requeue_result

text \<open>The rest of \<^verbatim>\<open>IrCaptureStats\<close>; its 64 bit counters count events and do not wrap.\<close>

record ir_stats =
  st_width :: u32
  st_height :: u32
  st_stride :: u32
  st_sizeimage :: u32
  st_data_offset :: u32
  st_last_bytesused :: u32
  st_last_data_offset :: u32
  st_last_sequence :: u32
  st_last_dequeued_sequence :: u32
  st_last_timestamp_seconds :: u64
  st_last_timestamp_usec :: u64
  st_stream_attempt_id :: u64
  st_stream_start_ns :: u64
  st_stream_stop_ns :: u64
  st_rejection :: ir_rejection
  st_frames :: nat
  st_sequence_gaps :: nat
  st_rejected_buffers :: nat
  st_metadata_errors :: nat
  st_timestamp_errors :: nat
  st_sequence_errors :: nat
  st_decode_errors :: nat
  st_requeue_errors :: nat
  st_discarded_buffers :: nat
  st_discard_limit_errors :: nat
  st_consecutive_discards :: nat
  st_poll_errors :: nat
  st_dqbuf_errors :: nat
  st_last_error :: ir_capture_error

record pix_format =
  px_width :: u32
  px_height :: u32
  px_pixelformat :: u32
  px_field :: u32
  px_num_planes :: nat
  px_bytesperline :: u32
  px_sizeimage :: u32

record subdev_format =
  sf_width :: u32
  sf_height :: u32
  sf_code :: u32

record media_entity =
  me_id :: u32
  me_name :: string
  me_links :: nat
  me_major :: u32
  me_minor :: u32

record media_link =
  ml_source :: u32
  ml_sink :: u32
  ml_flags :: u32

text \<open>The fields of \<^verbatim>\<open>struct v4l2_buffer\<close> and of its plane that the program reads.\<close>

record v4l2_buffer =
  vb_index :: u32
  vb_length :: u32
  vb_flags :: u32
  vb_sequence :: u32
  vb_timestamp :: "int \<times> int"
  vb_bytesused :: u32
  vb_data_offset :: u32

record ir_capture =
  ic_media_fd :: int
  ic_csi_fd :: int
  ic_video_fd :: int
  ic_video_path :: string
  ic_format :: pix_format
  ic_buffers :: "(ptr \<times> nat) list"
  ic_buffer_count :: nat
  ic_streaming :: bool
  ic_have_sequence :: bool
  ic_discard_error_buffers :: bool
  ic_last_sequence :: u32
  ic_last_timestamp :: "int \<times> int"
  ic_stream_attempt_id :: u64
  ic_discard_anchor_ns :: u64
  ic_stats :: ir_stats

section \<open>The kernel\<close>

datatype enum_reply = Entity media_entity | No_More_Entities | Enum_Failed
datatype ir_poll = Poll_Elapsed | Poll_Interrupted | Poll_Failed | Poll_Events u16
datatype dqbuf_reply = Dequeued v4l2_buffer | Would_Block | Dequeue_Failed

record 's ir_kernel =
  ik_interrupted :: "'s \<Rightarrow> bool \<times> 's"
  ik_now :: "'s \<Rightarrow> u64 \<times> 's"
  ik_calloc :: "'s \<Rightarrow> bool \<times> 's"
  ik_glob :: "string \<Rightarrow> 's \<Rightarrow> string list option \<times> 's"
  ik_stat :: "string \<Rightarrow> 's \<Rightarrow> (bool \<times> u64) option \<times> 's"
  ik_open :: "string \<Rightarrow> 's \<Rightarrow> int \<times> 's"
  ik_enum_entities :: "int \<Rightarrow> u32 \<Rightarrow> 's \<Rightarrow> enum_reply \<times> 's"
  ik_enum_links :: "int \<Rightarrow> u32 \<Rightarrow> 's \<Rightarrow> (nat \<Rightarrow> media_link) option \<times> 's"
  ik_subdev_s_fmt :: "int \<Rightarrow> nat \<Rightarrow> subdev_format \<Rightarrow> 's \<Rightarrow> subdev_format option \<times> 's"
  ik_s_fmt :: "int \<Rightarrow> pix_format \<Rightarrow> 's \<Rightarrow> pix_format option \<times> 's"
  ik_g_fmt :: "int \<Rightarrow> pix_format \<Rightarrow> 's \<Rightarrow> pix_format option \<times> 's"
  ik_reqbufs :: "int \<Rightarrow> nat \<Rightarrow> 's \<Rightarrow> nat option \<times> 's"
  ik_querybuf :: "int \<Rightarrow> nat \<Rightarrow> 's \<Rightarrow> (nat \<times> nat) option \<times> 's"
  ik_mmap :: "int \<Rightarrow> nat \<Rightarrow> nat \<Rightarrow> 's \<Rightarrow> ptr option \<times> 's"
  ik_qbuf :: "int \<Rightarrow> v4l2_buffer \<Rightarrow> 's \<Rightarrow> bool \<times> 's"
  ik_dqbuf :: "int \<Rightarrow> 's \<Rightarrow> dqbuf_reply \<times> 's"
  ik_streamon :: "int \<Rightarrow> 's \<Rightarrow> bool \<times> 's"
  ik_streamoff :: "int \<Rightarrow> 's \<Rightarrow> bool \<times> 's"
  ik_poll :: "int \<Rightarrow> nat \<Rightarrow> 's \<Rightarrow> ir_poll \<times> 's"
  ik_memory :: "ptr \<Rightarrow> 's \<Rightarrow> (nat \<Rightarrow> u8) \<times> 's"

record 's ir_world =
  iw_kernel :: 's
  iw_signals :: nat
  iw_fds :: "int set"
  iw_maps :: "ptr set"
  iw_captures :: nat
  iw_queued :: "u32 set"

definition ir_call :: "('s \<Rightarrow> 'a \<times> 's) \<Rightarrow> 's ir_world \<Rightarrow> 'a \<times> 's ir_world" where
  "ir_call f w = (case f (iw_kernel w) of (x, s) \<Rightarrow> (x, w\<lparr>iw_kernel := s\<rparr>))"

definition ir_interrupted :: "'s ir_kernel \<Rightarrow> 's ir_world \<Rightarrow> bool \<times> 's ir_world" where
  "ir_interrupted k w =
     (case ir_call (ik_interrupted k) w of (b, w) \<Rightarrow>
        if b \<and> 0 < iw_signals w then (True, w\<lparr>iw_signals := iw_signals w - 1\<rparr>) else (False, w))"

text \<open>\<^verbatim>\<open>ioctl_retry\<close>: once more for every signal.\<close>

function ir_ioctl_retry :: "'s ir_kernel \<Rightarrow> ('s \<Rightarrow> 'a \<times> 's) \<Rightarrow> 's ir_world \<Rightarrow> 'a \<times> 's ir_world" where
  "ir_ioctl_retry k f w =
     (let (intr, w) = ir_interrupted k w in if intr then ir_ioctl_retry k f w else ir_call f w)"
  by pat_completeness auto
termination
  by (relation "measure (\<lambda>(k, f, w). iw_signals w)")
    (auto simp: ir_interrupted_def ir_call_def split: prod.splits if_splits)

declare ir_ioctl_retry.simps [simp del]

definition open_file :: "'s ir_kernel \<Rightarrow> string \<Rightarrow> 's ir_world \<Rightarrow> int \<times> 's ir_world" where
  "open_file k path w =
     (case ir_call (ik_open k path) w of (fd, w) \<Rightarrow>
        (fd, if fd < 0 then w else w\<lparr>iw_fds := insert fd (iw_fds w)\<rparr>))"

definition close_file :: "int \<Rightarrow> 's ir_world \<Rightarrow> 's ir_world" where
  "close_file fd w = w\<lparr>iw_fds := iw_fds w - {fd}\<rparr>"

section \<open>The media graph\<close>

text \<open>\<^verbatim>\<open>strstr\<close> and \<^verbatim>\<open>strcmp\<close>; no name is \<^verbatim>\<open>NULL\<close> here.\<close>

definition name_has :: "string \<Rightarrow> string \<Rightarrow> bool" where
  "name_has name needle =
     list_ex (\<lambda>i. take (length needle) (drop i name) = needle) [0..<length name + 1]"

definition name_is :: "string \<Rightarrow> string \<Rightarrow> bool" where
  "name_is name expected = (name = expected)"

text \<open>\<open>n\<close> entries of the array are still free.\<close>

primrec enumerate_from ::
  "'s ir_kernel \<Rightarrow> int \<Rightarrow> nat \<Rightarrow> u32 \<Rightarrow> media_entity list \<Rightarrow> 's ir_world \<Rightarrow>
     media_entity list option \<times> 's ir_world" where
  "enumerate_from k fd 0 ident found w = (None, w)"
| "enumerate_from k fd (Suc n) ident found w =
     (case ir_ioctl_retry k (ik_enum_entities k fd ident) w of
        (Entity e, w) \<Rightarrow> enumerate_from k fd n (me_id e OR MEDIA_ENT_ID_FLAG_NEXT) (found @ [e]) w
      | (No_More_Entities, w) \<Rightarrow> (Some found, w)
      | (Enum_Failed, w) \<Rightarrow> (None, w))"

definition enumerate_entities ::
  "'s ir_kernel \<Rightarrow> int \<Rightarrow> 's ir_world \<Rightarrow> media_entity list option \<times> 's ir_world" where
  "enumerate_entities k fd w = enumerate_from k fd IR_MEDIA_MAX_ENTITIES MEDIA_ENT_ID_FLAG_NEXT [] w"

text \<open>The state of the search: was the route found, and is the last link found for it enabled.\<close>

definition scan_links :: "u32 \<Rightarrow> u32 \<Rightarrow> media_link list \<Rightarrow> bool \<times> bool \<Rightarrow> bool \<times> bool" where
  "scan_links source_id sink_id links st =
     fold (\<lambda>l (found, enabled).
         if ml_source l = source_id \<and> ml_sink l = sink_id
         then (True, ml_flags l AND MEDIA_LNK_FL_ENABLED \<noteq> 0) else (found, enabled)) links st"

primrec scan_entities ::
  "'s ir_kernel \<Rightarrow> int \<Rightarrow> u32 \<Rightarrow> u32 \<Rightarrow> media_entity list \<Rightarrow> bool \<times> bool \<Rightarrow> 's ir_world \<Rightarrow>
     (bool \<times> bool) option \<times> 's ir_world" where
  "scan_entities k fd source_id sink_id [] st w = (Some st, w)"
| "scan_entities k fd source_id sink_id (e # es) st w =
     (if me_links e > IR_MEDIA_MAX_LINKS then (None, w)
      else let (pads_ok, w) = ir_call (ik_calloc k) w; (links_ok, w) = ir_call (ik_calloc k) w in
        if \<not> (pads_ok \<and> links_ok) then (None, w)
        else case ir_ioctl_retry k (ik_enum_links k fd (me_id e)) w of
          (None, w) \<Rightarrow> (None, w)
        | (Some link, w) \<Rightarrow>
            scan_entities k fd source_id sink_id es
              (scan_links source_id sink_id (map link [0..<me_links e]) st) w)"

definition link_route_enabled ::
  "'s ir_kernel \<Rightarrow> int \<Rightarrow> media_entity list \<Rightarrow> u32 \<Rightarrow> u32 \<Rightarrow> 's ir_world \<Rightarrow> bool option \<times> 's ir_world" where
  "link_route_enabled k fd entities source_id sink_id w =
     (case scan_entities k fd source_id sink_id entities (False, False) w of
        (None, w) \<Rightarrow> (None, w)
      | (Some (found, enabled), w) \<Rightarrow> (if found then Some enabled else None, w))"

text \<open>\<^verbatim>\<open>makedev\<close> of the C library.\<close>

definition makedev :: "u32 \<Rightarrow> u32 \<Rightarrow> u64" where
  "makedev major minor =
     push_bit 32 (ucast (major AND 0xfffff000)) OR push_bit 8 (ucast (major AND 0xfff)) OR
     push_bit 12 (ucast (minor AND 0xffffff00)) OR ucast (minor AND 0xff)"

primrec first_device ::
  "'s ir_kernel \<Rightarrow> u64 \<Rightarrow> string list \<Rightarrow> 's ir_world \<Rightarrow> string option \<times> 's ir_world" where
  "first_device k dev [] w = (None, w)"
| "first_device k dev (path # paths) w =
     (case ir_call (ik_stat k path) w of (st, w) \<Rightarrow>
        if st = Some (True, dev) then (if length path \<ge> IR_PATH_SIZE then None else Some path, w)
        else first_device k dev paths w)"

definition find_entity_node ::
  "'s ir_kernel \<Rightarrow> media_entity \<Rightarrow> string \<Rightarrow> 's ir_world \<Rightarrow> string option \<times> 's ir_world" where
  "find_entity_node k entity pattern w =
     (case ir_call (ik_glob k pattern) w of
        (None, w) \<Rightarrow> (None, w)
      | (Some paths, w) \<Rightarrow> first_device k (makedev (me_major entity) (me_minor entity)) paths w)"

text \<open>The last entity with a property, as the loop over the entities leaves it.\<close>

definition last_entity :: "(media_entity \<Rightarrow> bool) \<Rightarrow> media_entity list \<Rightarrow> media_entity option" where
  "last_entity p entities = List.find p (rev entities)"

text \<open>
  One media device: the paths of the CSI subdevice and of the capture node, when the route
  from the sensor is enabled.
\<close>

definition examine_graph ::
  "'s ir_kernel \<Rightarrow> int \<Rightarrow> media_entity list \<Rightarrow> 's ir_world \<Rightarrow> (string \<times> string) option \<times> 's ir_world" where
  "examine_graph k fd entities w =
     (case (last_entity (\<lambda>e. name_has (me_name e) ''ov7251'') entities,
            last_entity (\<lambda>e. name_is (me_name e) ''Intel IPU4 CSI-2 1'') entities,
            last_entity (\<lambda>e. name_has (me_name e) ''CSI-2 1 capture 0'') entities) of
        (Some sensor, Some csi, Some capture) \<Rightarrow>
          (case link_route_enabled k fd entities (me_id sensor) (me_id csi) w of
             (None, w) \<Rightarrow> (None, w)
           | (Some sensor_csi, w) \<Rightarrow>
               (case link_route_enabled k fd entities (me_id csi) (me_id capture) w of
                  (None, w) \<Rightarrow> (None, w)
                | (Some csi_capture, w) \<Rightarrow>
                    if \<not> (sensor_csi \<and> csi_capture) then (None, w)
                    else case find_entity_node k csi ''/dev/v4l-subdev*'' w of
                      (None, w) \<Rightarrow> (None, w)
                    | (Some csi_path, w) \<Rightarrow>
                        (case find_entity_node k capture ''/dev/video*'' w of
                           (None, w) \<Rightarrow> (None, w)
                         | (Some video_path, w) \<Rightarrow> (Some (csi_path, video_path), w))))
      | _ \<Rightarrow> (None, w))"

primrec try_media ::
  "'s ir_kernel \<Rightarrow> string list \<Rightarrow> 's ir_world \<Rightarrow> (int \<times> string \<times> string) option \<times> 's ir_world" where
  "try_media k [] w = (None, w)"
| "try_media k (m # ms) w =
     (let (fd, w) = open_file k m w in
      if fd < 0 then try_media k ms w
      else case enumerate_entities k fd w of
        (None, w) \<Rightarrow> try_media k ms (close_file fd w)
      | (Some entities, w) \<Rightarrow>
          (case examine_graph k fd entities w of
             (Some (csi_path, video_path), w) \<Rightarrow> (Some (fd, csi_path, video_path), w)
           | (None, w) \<Rightarrow> try_media k ms (close_file fd w)))"

definition discover_graph ::
  "'s ir_kernel \<Rightarrow> 's ir_world \<Rightarrow> (int \<times> string \<times> string) option \<times> 's ir_world" where
  "discover_graph k w =
     (case ir_call (ik_glob k ''/dev/media*'') w of
        (None, w) \<Rightarrow> (None, w)
      | (Some paths, w) \<Rightarrow> try_media k paths w)"

section \<open>Formats and buffers\<close>

primrec configure_pads :: "'s ir_kernel \<Rightarrow> int \<Rightarrow> nat list \<Rightarrow> 's ir_world \<Rightarrow> bool \<times> 's ir_world" where
  "configure_pads k fd [] w = (True, w)"
| "configure_pads k fd (pad # pads) w =
     (let req = \<lparr>sf_width = of_nat IR_CAPTURE_WIDTH, sf_height = of_nat IR_CAPTURE_HEIGHT,
                 sf_code = MEDIA_BUS_FMT_Y10_1X10\<rparr> in
      case ir_ioctl_retry k (ik_subdev_s_fmt k fd pad req) w of
        (None, w) \<Rightarrow> (False, w)
      | (Some f, w) \<Rightarrow>
          if sf_width f \<noteq> of_nat IR_CAPTURE_WIDTH \<or> sf_height f \<noteq> of_nat IR_CAPTURE_HEIGHT \<or>
             sf_code f \<noteq> MEDIA_BUS_FMT_Y10_1X10
          then (False, w) else configure_pads k fd pads w)"

definition configure_csi_format :: "'s ir_kernel \<Rightarrow> int \<Rightarrow> 's ir_world \<Rightarrow> bool \<times> 's ir_world" where
  "configure_csi_format k fd w = configure_pads k fd [0, 1] w"

definition packed_row_bytes :: u32 where
  "packed_row_bytes = of_nat (IR_CAPTURE_HEADER_BYTES + IR_CAPTURE_RAW10_BYTES)"

definition unsupported_format :: "pix_format \<Rightarrow> bool" where
  "unsupported_format p \<longleftrightarrow>
     px_width p \<noteq> of_nat IR_CAPTURE_WIDTH \<or> px_height p \<noteq> of_nat IR_CAPTURE_HEIGHT \<or>
     px_pixelformat p \<noteq> V4L2_PIX_FMT_Y10 \<or> px_num_planes p \<noteq> 1 \<or> px_field p \<noteq> V4L2_FIELD_NONE \<or>
     px_bytesperline p < packed_row_bytes \<or> px_bytesperline p < of_nat IR_CAPTURE_MIN_STRIDE \<or>
     px_bytesperline p - packed_row_bytes > of_nat IR_MAX_ROW_PADDING \<or>
     px_sizeimage p < px_bytesperline p * of_nat IR_CAPTURE_HEIGHT"

definition negotiate_format ::
  "'s ir_kernel \<Rightarrow> ir_capture \<Rightarrow> 's ir_world \<Rightarrow> bool \<times> ir_capture \<times> 's ir_world" where
  "negotiate_format k c w =
     (let fmt = \<lparr>px_width = of_nat IR_CAPTURE_WIDTH, px_height = of_nat IR_CAPTURE_HEIGHT,
                 px_pixelformat = V4L2_PIX_FMT_Y10, px_field = V4L2_FIELD_NONE, px_num_planes = 1,
                 px_bytesperline = 0, px_sizeimage = 0\<rparr> in
      case ir_ioctl_retry k (ik_s_fmt k (ic_video_fd c) fmt) w of
        (None, w) \<Rightarrow> (False, c, w)
      | (Some fmt, w) \<Rightarrow>
          (case ir_ioctl_retry k (ik_g_fmt k (ic_video_fd c) fmt) w of
             (None, w) \<Rightarrow> (False, c, w)
           | (Some p, w) \<Rightarrow>
               if unsupported_format p then (False, c, w)
               else (True,
                 c\<lparr>ic_format := p,
                   ic_stats := (ic_stats c)\<lparr>st_width := px_width p, st_height := px_height p,
                     st_stride := px_bytesperline p, st_sizeimage := px_sizeimage p\<rparr>\<rparr>, w)))"

text \<open>No mapping is at address 0.\<close>

definition map_memory :: "'s ir_kernel \<Rightarrow> int \<Rightarrow> nat \<Rightarrow> nat \<Rightarrow> 's ir_world \<Rightarrow> ptr option \<times> 's ir_world" where
  "map_memory k fd len off w =
     (case ir_call (ik_mmap k fd len off) w of
        (None, w) \<Rightarrow> (None, w)
      | (Some p, w) \<Rightarrow> if p = NULL then (None, w) else (Some p, w\<lparr>iw_maps := insert p (iw_maps w)\<rparr>))"

text \<open>Buffers \<open>index\<close> and on; \<open>n\<close> are left.\<close>

primrec map_from ::
  "'s ir_kernel \<Rightarrow> nat \<Rightarrow> nat \<Rightarrow> ir_capture \<Rightarrow> 's ir_world \<Rightarrow> bool \<times> ir_capture \<times> 's ir_world" where
  "map_from k 0 index c w = (True, c, w)"
| "map_from k (Suc n) index c w =
     (case ir_ioctl_retry k (ik_querybuf k (ic_video_fd c) index) w of
        (None, w) \<Rightarrow> (False, c, w)
      | (Some (len, off), w) \<Rightarrow>
          (case map_memory k (ic_video_fd c) len off w of
             (None, w) \<Rightarrow> (False, c\<lparr>ic_buffers := (ic_buffers c)[index := (NULL, len)]\<rparr>, w)
           | (Some p, w) \<Rightarrow>
               map_from k n (index + 1) (c\<lparr>ic_buffers := (ic_buffers c)[index := (p, len)]\<rparr>) w))"

definition map_buffers :: "'s ir_kernel \<Rightarrow> ir_capture \<Rightarrow> 's ir_world \<Rightarrow> bool \<times> ir_capture \<times> 's ir_world" where
  "map_buffers k c w =
     (case ir_ioctl_retry k (ik_reqbufs k (ic_video_fd c) IR_CAPTURE_BUFFERS) w of
        (None, w) \<Rightarrow> (False, c, w)
      | (Some cnt, w) \<Rightarrow>
          if cnt < 2 then (False, c, w)
          else let c = c\<lparr>ic_buffer_count := (if cnt > IR_CAPTURE_BUFFERS then IR_CAPTURE_BUFFERS else cnt)\<rparr>
            in map_from k (ic_buffer_count c) 0 c w)"

primrec unmap_from :: "nat \<Rightarrow> nat \<Rightarrow> ir_capture \<Rightarrow> 's ir_world \<Rightarrow> ir_capture \<times> 's ir_world" where
  "unmap_from 0 index c w = (c, w)"
| "unmap_from (Suc n) index c w =
     (let p = fst (ic_buffers c ! index);
          w = (if p \<noteq> NULL then w\<lparr>iw_maps := iw_maps w - {p}\<rparr> else w)
      in unmap_from n (index + 1) (c\<lparr>ic_buffers := (ic_buffers c)[index := (NULL, 0)]\<rparr>) w)"

definition unmap_buffers :: "ir_capture \<Rightarrow> 's ir_world \<Rightarrow> ir_capture \<times> 's ir_world" where
  "unmap_buffers c w =
     (case unmap_from (ic_buffer_count c) 0 c w of (c, w) \<Rightarrow> (c\<lparr>ic_buffer_count := 0\<rparr>, w))"

section \<open>Closing and opening\<close>

definition close_if_open :: "int \<Rightarrow> 's ir_world \<Rightarrow> 's ir_world" where
  "close_if_open fd w = (if fd \<ge> 0 then close_file fd w else w)"

text \<open>Stopping the stream gives the driver's buffers back.\<close>

definition stream_off :: "'s ir_kernel \<Rightarrow> int \<Rightarrow> 's ir_world \<Rightarrow> bool \<times> 's ir_world" where
  "stream_off k fd w =
     (case ir_ioctl_retry k (ik_streamoff k fd) w of (ok, w) \<Rightarrow>
        (ok, if ok then w\<lparr>iw_queued := {}\<rparr> else w))"

text \<open>The capture is freed, so only the world is left.\<close>

definition ir_capture_close :: "'s ir_kernel \<Rightarrow> ir_capture \<Rightarrow> 's ir_world \<Rightarrow> 's ir_world" where
  "ir_capture_close k c w =
     (let w = (if ic_streaming c then snd (stream_off k (ic_video_fd c) (snd (ir_call (ik_now k) w))) else w);
          w = close_if_open (ic_video_fd c) w;
          w = close_if_open (ic_csi_fd c) w;
          w = snd (unmap_buffers c w);
          w = close_if_open (ic_media_fd c) w
      in w\<lparr>iw_captures := iw_captures w - 1\<rparr>)"

definition no_rejection :: ir_rejection where
  "no_rejection = \<lparr>rj_monotonic_ns = 0, rj_requeue_monotonic_ns = 0, rj_reasons = 0, rj_index = 0,
     rj_plane_count = 0, rj_sequence = 0, rj_flags = 0, rj_timestamp_flags = 0, rj_timestamp_seconds = 0,
     rj_timestamp_usec = 0, rj_bytesused = 0, rj_data_offset = 0, rj_capacity = 0,
     rj_capacity_available = False, rj_requeue_result = IR_CAPTURE_REQUEUE_NOT_ATTEMPTED\<rparr>"

definition no_stats :: ir_stats where
  "no_stats = \<lparr>st_width = 0, st_height = 0, st_stride = 0, st_sizeimage = 0, st_data_offset = 0,
     st_last_bytesused = 0, st_last_data_offset = 0, st_last_sequence = 0, st_last_dequeued_sequence = 0,
     st_last_timestamp_seconds = 0, st_last_timestamp_usec = 0, st_stream_attempt_id = 0,
     st_stream_start_ns = 0, st_stream_stop_ns = 0, st_rejection = no_rejection, st_frames = 0,
     st_sequence_gaps = 0, st_rejected_buffers = 0, st_metadata_errors = 0, st_timestamp_errors = 0,
     st_sequence_errors = 0, st_decode_errors = 0, st_requeue_errors = 0, st_discarded_buffers = 0,
     st_discard_limit_errors = 0, st_consecutive_discards = 0, st_poll_errors = 0, st_dqbuf_errors = 0,
     st_last_error = IR_CAPTURE_ERROR_NONE\<rparr>"

text \<open>What \<^verbatim>\<open>calloc\<close> gives, with the descriptors set to -1.\<close>

definition new_capture :: ir_capture where
  "new_capture = \<lparr>ic_media_fd = -1, ic_csi_fd = -1, ic_video_fd = -1, ic_video_path = [],
     ic_format = \<lparr>px_width = 0, px_height = 0, px_pixelformat = 0, px_field = 0, px_num_planes = 0,
       px_bytesperline = 0, px_sizeimage = 0\<rparr>,
     ic_buffers = replicate IR_CAPTURE_BUFFERS (NULL, 0), ic_buffer_count = 0, ic_streaming = False,
     ic_have_sequence = False, ic_discard_error_buffers = False, ic_last_sequence = 0,
     ic_last_timestamp = (0, 0), ic_stream_attempt_id = 0, ic_discard_anchor_ns = 0, ic_stats = no_stats\<rparr>"

text \<open>The steps on the new capture; a step that fails leaves what the steps before it took.\<close>

definition open_steps :: "'s ir_kernel \<Rightarrow> ir_capture \<Rightarrow> 's ir_world \<Rightarrow> bool \<times> ir_capture \<times> 's ir_world" where
  "open_steps k c w =
     (case discover_graph k w of
        (None, w) \<Rightarrow> (False, c, w)
      | (Some (media_fd, csi_path, video_path), w) \<Rightarrow>
          let c = c\<lparr>ic_media_fd := media_fd, ic_video_path := video_path\<rparr>;
              (csi_fd, w) = open_file k csi_path w;
              c = c\<lparr>ic_csi_fd := csi_fd\<rparr> in
          if csi_fd < 0 then (False, c, w)
          else case configure_csi_format k csi_fd w of
            (False, w) \<Rightarrow> (False, c, w)
          | (True, w) \<Rightarrow>
              let (video_fd, w) = open_file k video_path w; c = c\<lparr>ic_video_fd := video_fd\<rparr> in
              if video_fd < 0 then (False, c, w)
              else case negotiate_format k c w of
                (False, c, w) \<Rightarrow> (False, c, w)
              | (True, c, w) \<Rightarrow> map_buffers k c w)"

definition ir_capture_open :: "'s ir_kernel \<Rightarrow> 's ir_world \<Rightarrow> ir_capture option \<times> 's ir_world" where
  "ir_capture_open k w =
     (case ir_call (ik_calloc k) w of
        (False, w) \<Rightarrow> (None, w)
      | (True, w) \<Rightarrow>
          (case open_steps k new_capture (w\<lparr>iw_captures := iw_captures w + 1\<rparr>) of
             (True, c, w) \<Rightarrow> (Some c, w)
           | (False, c, w) \<Rightarrow> (None, ir_capture_close k c w)))"

definition ir_capture_set_stream_attempt_id :: "u64 \<Rightarrow> ir_capture \<Rightarrow> ir_capture" where
  "ir_capture_set_stream_attempt_id ident c =
     c\<lparr>ic_stream_attempt_id := ident, ic_stats := (ic_stats c)\<lparr>st_stream_attempt_id := ident\<rparr>\<rparr>"

definition ir_capture_set_discard_error_buffers :: "bool \<Rightarrow> ir_capture \<Rightarrow> ir_capture" where
  "ir_capture_set_discard_error_buffers enabled c = c\<lparr>ic_discard_error_buffers := enabled\<rparr>"

end
