(* ===== verification/IrStream.thy ===== *)
theory IrStream
  imports IrCapture
begin

text \<open>
  Streaming from the infrared camera, the second half of \<^verbatim>\<open>cbridge/ir-v4l2.c\<close>: starting and
  stopping, and \<^verbatim>\<open>ir_capture_next\<close>, which takes a buffer from the driver, checks it, decodes
  it and gives it back.
\<close>

section \<open>Statistics\<close>

definition update_stats :: "(ir_stats \<Rightarrow> ir_stats) \<Rightarrow> ir_capture \<Rightarrow> ir_capture" where
  "update_stats f c = c\<lparr>ic_stats := f (ic_stats c)\<rparr>"

definition update_rejection :: "(ir_rejection \<Rightarrow> ir_rejection) \<Rightarrow> ir_capture \<Rightarrow> ir_capture" where
  "update_rejection f = update_stats (\<lambda>s. s\<lparr>st_rejection := f (st_rejection s)\<rparr>)"

definition set_last_error :: "ir_capture_error \<Rightarrow> ir_capture \<Rightarrow> ir_capture" where
  "set_last_error e = update_stats (\<lambda>s. s\<lparr>st_last_error := e\<rparr>)"

definition prepare_rejection ::
  "'s ir_kernel \<Rightarrow> u32 \<Rightarrow> ir_capture \<Rightarrow> 's ir_world \<Rightarrow> ir_capture \<times> 's ir_world" where
  "prepare_rejection k reasons c w =
     (case ir_call (ik_now k) w of (now, w) \<Rightarrow>
        (update_rejection (\<lambda>r. r\<lparr>rj_reasons := reasons, rj_monotonic_ns := now,
           rj_requeue_monotonic_ns := 0, rj_requeue_result := IR_CAPTURE_REQUEUE_NOT_ATTEMPTED\<rparr>) c, w))"

section \<open>Starting\<close>

text \<open>A queued buffer is the driver's.\<close>

definition queue_buffer :: "'s ir_kernel \<Rightarrow> int \<Rightarrow> v4l2_buffer \<Rightarrow> 's ir_world \<Rightarrow> bool \<times> 's ir_world" where
  "queue_buffer k fd b w =
     (case ir_ioctl_retry k (ik_qbuf k fd b) w of (ok, w) \<Rightarrow>
        (ok, if ok then w\<lparr>iw_queued := insert (vb_index b) (iw_queued w)\<rparr> else w))"

definition empty_buffer :: "nat \<Rightarrow> v4l2_buffer" where
  "empty_buffer index = \<lparr>vb_index = of_nat index, vb_length = 1, vb_flags = 0, vb_sequence = 0,
     vb_timestamp = (0, 0), vb_bytesused = 0, vb_data_offset = 0\<rparr>"

primrec queue_all :: "'s ir_kernel \<Rightarrow> int \<Rightarrow> nat list \<Rightarrow> 's ir_world \<Rightarrow> bool \<times> 's ir_world" where
  "queue_all k fd [] w = (True, w)"
| "queue_all k fd (i # is) w =
     (case queue_buffer k fd (empty_buffer i) w of
        (False, w) \<Rightarrow> (False, w)
      | (True, w) \<Rightarrow> queue_all k fd is w)"

definition ir_capture_start :: "'s ir_kernel \<Rightarrow> ir_capture \<Rightarrow> 's ir_world \<Rightarrow> int \<times> ir_capture \<times> 's ir_world" where
  "ir_capture_start k c w =
     (if ic_video_fd c < 0 then (-1, c, w)
      else let (now, w) = ir_call (ik_now k) w;
               c = update_stats (\<lambda>s. s\<lparr>st_stream_start_ns := now, st_consecutive_discards := 0\<rparr>)
                     (c\<lparr>ic_discard_anchor_ns := 0\<rparr>) in
        case queue_all k (ic_video_fd c) [0..<ic_buffer_count c] w of
          (False, w) \<Rightarrow> (-1, c, w)
        | (True, w) \<Rightarrow>
            (case ir_ioctl_retry k (ik_streamon k (ic_video_fd c)) w of
               (False, w) \<Rightarrow> (-1, c, w)
             | (True, w) \<Rightarrow> (0, c\<lparr>ic_streaming := True\<rparr>, w)))"

section \<open>Checks\<close>

definition validate_timestamp :: "ir_capture \<Rightarrow> int \<times> int \<Rightarrow> u32" where
  "validate_timestamp c ts =
     (if fst ts = 0 \<and> snd ts = 0 then IR_CAPTURE_REJECTION_TIMESTAMP_EMPTY
      else if ic_have_sequence c \<and>
          (fst ts < fst (ic_last_timestamp c) \<or>
           fst ts = fst (ic_last_timestamp c) \<and> snd ts \<le> snd (ic_last_timestamp c))
        then IR_CAPTURE_REJECTION_TIMESTAMP_REGRESSION
      else IR_CAPTURE_REJECTION_NONE)"

definition discard_limit_reached :: "ir_capture \<Rightarrow> u64 \<Rightarrow> bool" where
  "discard_limit_reached c now =
     (if \<not> ic_discard_error_buffers c then False
      else if st_consecutive_discards (ic_stats c) \<ge> IR_CAPTURE_MAX_CONSECUTIVE_DISCARDS then True
      else ic_discard_anchor_ns c \<noteq> 0 \<and> now \<ge> ic_discard_anchor_ns c \<and>
           now - ic_discard_anchor_ns c \<ge> IR_CAPTURE_MAX_DISCARD_WAIT_NS)"

definition handle_capture_timeout ::
  "'s ir_kernel \<Rightarrow> ir_capture \<Rightarrow> 's ir_world \<Rightarrow> int \<times> ir_capture \<times> 's ir_world" where
  "handle_capture_timeout k c w =
     (case ir_call (ik_now k) w of (now, w) \<Rightarrow>
        if discard_limit_reached c now
        then (-1, update_stats (\<lambda>s. s\<lparr>st_discard_limit_errors := st_discard_limit_errors s + 1,
                st_last_error := IR_CAPTURE_ERROR_DISCARD_LIMIT\<rparr>) c, w)
        else (0, set_last_error IR_CAPTURE_ERROR_TIMEOUT c, w))"

text \<open>The buffer's memory, if the index is that of a mapped buffer.\<close>

definition index_valid :: "ir_capture \<Rightarrow> v4l2_buffer \<Rightarrow> bool" where
  "index_valid c b \<longleftrightarrow> unat (vb_index b) < ic_buffer_count c"

definition plane_count_valid :: "v4l2_buffer \<Rightarrow> bool" where
  "plane_count_valid b \<longleftrightarrow> vb_length b = 1"

definition capacity_available :: "ir_capture \<Rightarrow> v4l2_buffer \<Rightarrow> bool" where
  "capacity_available c b \<longleftrightarrow> index_valid c b \<and>
     fst (ic_buffers c ! unat (vb_index b)) \<noteq> NULL \<and> snd (ic_buffers c ! unat (vb_index b)) \<noteq> 0"

definition capacity :: "ir_capture \<Rightarrow> v4l2_buffer \<Rightarrow> nat" where
  "capacity c b = (if capacity_available c b then snd (ic_buffers c ! unat (vb_index b)) else 0)"

definition can_requeue :: "ir_capture \<Rightarrow> v4l2_buffer \<Rightarrow> bool" where
  "can_requeue c b \<longleftrightarrow> index_valid c b \<and> plane_count_valid b"

definition reason_if :: "bool \<Rightarrow> u32 \<Rightarrow> u32" where
  "reason_if b r = (if b then r else IR_CAPTURE_REJECTION_NONE)"

definition metadata_reasons :: "ir_capture \<Rightarrow> v4l2_buffer \<Rightarrow> u32" where
  "metadata_reasons c b =
     reason_if (\<not> index_valid c b)
       (IR_CAPTURE_REJECTION_INVALID_INDEX OR IR_CAPTURE_REJECTION_CAPACITY_UNAVAILABLE) OR
     reason_if (\<not> plane_count_valid b) IR_CAPTURE_REJECTION_INVALID_PLANE_COUNT OR
     reason_if (vb_flags b AND V4L2_BUF_FLAG_ERROR \<noteq> 0) IR_CAPTURE_REJECTION_ERROR_FLAG OR
     reason_if (vb_flags b AND V4L2_BUF_FLAG_TIMESTAMP_MASK \<noteq> V4L2_BUF_FLAG_TIMESTAMP_MONOTONIC)
       IR_CAPTURE_REJECTION_TIMESTAMP_FLAGS OR
     reason_if (index_valid c b \<and> plane_count_valid b \<and> \<not> capacity_available c b)
       IR_CAPTURE_REJECTION_CAPACITY_UNAVAILABLE"

definition plane_metadata_reasons :: "ir_capture \<Rightarrow> v4l2_buffer \<Rightarrow> u32" where
  "plane_metadata_reasons c b =
     reason_if (index_valid c b \<and> plane_count_valid b \<and> capacity_available c b \<and>
         (vb_data_offset b \<ge> vb_bytesused b \<or> unat (vb_bytesused b) > capacity c b))
       IR_CAPTURE_REJECTION_INVALID_PLANE_METADATA"

text \<open>What the dequeued buffer leaves in the statistics, whatever becomes of it.\<close>

definition note_dequeued :: "v4l2_buffer \<Rightarrow> ir_capture \<Rightarrow> ir_capture" where
  "note_dequeued b c =
     (let sec = word_of_int (fst (vb_timestamp b)); usec = word_of_int (snd (vb_timestamp b)) in
      update_rejection (\<lambda>r. r\<lparr>rj_index := vb_index b, rj_plane_count := vb_length b,
          rj_sequence := vb_sequence b, rj_flags := vb_flags b,
          rj_timestamp_flags := vb_flags b AND V4L2_BUF_FLAG_TIMESTAMP_MASK,
          rj_timestamp_seconds := sec, rj_timestamp_usec := usec,
          rj_bytesused := vb_bytesused b, rj_data_offset := vb_data_offset b,
          rj_capacity := capacity c b, rj_capacity_available := capacity_available c b\<rparr>)
        (update_stats (\<lambda>s. s\<lparr>st_last_bytesused := vb_bytesused b, st_last_data_offset := vb_data_offset b,
            st_last_dequeued_sequence := vb_sequence b, st_last_timestamp_seconds := sec,
            st_last_timestamp_usec := usec\<rparr>) c))"

section \<open>Rejecting a buffer\<close>

definition requeue_rejected ::
  "'s ir_kernel \<Rightarrow> v4l2_buffer \<Rightarrow> ir_capture \<Rightarrow> 's ir_world \<Rightarrow> ir_capture \<times> 's ir_world" where
  "requeue_rejected k b c w =
     (let (ok, w) = queue_buffer k (ic_video_fd c) b w; (now, w) = ir_call (ik_now k) w in
      (if ok
       then update_rejection (\<lambda>r. r\<lparr>rj_requeue_monotonic_ns := now,
              rj_requeue_result := IR_CAPTURE_REQUEUE_SUCCEEDED\<rparr>) c
       else update_stats (\<lambda>s. s\<lparr>st_requeue_errors := st_requeue_errors s + 1,
                st_last_error := IR_CAPTURE_ERROR_REQUEUE\<rparr>)
              (update_rejection (\<lambda>r. r\<lparr>rj_reasons := rj_reasons r OR IR_CAPTURE_REJECTION_REQUEUE,
                 rj_requeue_monotonic_ns := now, rj_requeue_result := IR_CAPTURE_REQUEUE_FAILED\<rparr>) c), w))"

text \<open>An error buffer that the driver has again is discarded, within the limits.\<close>

definition discard_or_fail :: "ir_capture \<Rightarrow> int \<times> ir_capture" where
  "discard_or_fail c =
     (let r = st_rejection (ic_stats c) in
      if ic_discard_error_buffers c \<and> rj_reasons r = IR_CAPTURE_REJECTION_ERROR_FLAG \<and>
         rj_requeue_result r = IR_CAPTURE_REQUEUE_SUCCEEDED
      then let now = rj_requeue_monotonic_ns r;
               c = (if ic_discard_anchor_ns c = 0 then c\<lparr>ic_discard_anchor_ns := now\<rparr> else c) in
        if discard_limit_reached c now
        then (-1, update_stats (\<lambda>s. s\<lparr>st_discard_limit_errors := st_discard_limit_errors s + 1,
                 st_last_error := IR_CAPTURE_ERROR_DISCARD_LIMIT\<rparr>) c)
        else (IR_CAPTURE_RESULT_DISCARDED,
              update_stats (\<lambda>s. s\<lparr>st_discarded_buffers := st_discarded_buffers s + 1,
                 st_consecutive_discards := st_consecutive_discards s + 1\<rparr>) c)
      else (-1, c))"

definition requeue_fail ::
  "'s ir_kernel \<Rightarrow> v4l2_buffer \<Rightarrow> ir_capture \<Rightarrow> 's ir_world \<Rightarrow> int \<times> ir_capture \<times> 's ir_world" where
  "requeue_fail k b c w =
     (let c = update_stats (\<lambda>s. s\<lparr>st_rejected_buffers := st_rejected_buffers s + 1\<rparr>) c;
          (c, w) = (if can_requeue c b then requeue_rejected k b c w else (c, w));
          (r, c) = discard_or_fail c
      in (r, c, w))"

definition reject ::
  "'s ir_kernel \<Rightarrow> u32 \<Rightarrow> (ir_stats \<Rightarrow> ir_stats) \<Rightarrow> v4l2_buffer \<Rightarrow> ir_capture \<Rightarrow> 's ir_world \<Rightarrow>
     int \<times> ir_capture \<times> 's ir_world" where
  "reject k reasons cnt b c w =
     (case prepare_rejection k reasons c w of (c, w) \<Rightarrow> requeue_fail k b (update_stats cnt c) w)"

section \<open>The next frame\<close>

text \<open>
  The sequence number has to advance by less than half its range; numbers that were skipped
  are counted.
\<close>

definition sequence_delta :: "ir_capture \<Rightarrow> v4l2_buffer \<Rightarrow> u32" where
  "sequence_delta c b = vb_sequence b - ic_last_sequence c"

definition sequence_bad :: "ir_capture \<Rightarrow> v4l2_buffer \<Rightarrow> bool" where
  "sequence_bad c b \<longleftrightarrow> ic_have_sequence c \<and> (sequence_delta c b = 0 \<or> sequence_delta c b > 0xffffffff div 2)"

definition count_gap :: "v4l2_buffer \<Rightarrow> ir_capture \<Rightarrow> ir_capture" where
  "count_gap b c =
     (if ic_have_sequence c \<and> sequence_delta c b > 1
      then update_stats (\<lambda>s. s\<lparr>st_sequence_gaps := st_sequence_gaps s + (unat (sequence_delta c b) - 1)\<rparr>) c
      else c)"

definition accept_frame :: "v4l2_buffer \<Rightarrow> ir_capture \<Rightarrow> ir_capture" where
  "accept_frame b c =
     update_stats (\<lambda>s. s\<lparr>st_last_sequence := vb_sequence b, st_data_offset := vb_data_offset b,
         st_frames := st_frames s + 1, st_consecutive_discards := 0\<rparr>)
       (c\<lparr>ic_last_sequence := vb_sequence b, ic_last_timestamp := vb_timestamp b,
         ic_have_sequence := True, ic_discard_anchor_ns := 0\<rparr>)"

definition decode_and_requeue ::
  "'s ir_kernel \<Rightarrow> v4l2_buffer \<Rightarrow> ir_capture \<Rightarrow> u8 list \<Rightarrow> 's ir_world \<Rightarrow>
     (int \<times> ir_capture \<times> u8 list \<times> 's ir_world) option" where
  "decode_and_requeue k b c yuyv w =
     (let (mem, w) = ir_call (ik_memory k (fst (ic_buffers c ! unat (vb_index b)))) w;
          buf = map mem [0..<snd (ic_buffers c ! unat (vb_index b))] in
      case ir_decode_raw10_to_yuyv buf (unat (vb_bytesused b)) (unat (px_width (ic_format c)))
          (unat (px_height (ic_format c))) (unat (px_bytesperline (ic_format c)))
          (unat (vb_data_offset b)) yuyv of
        None \<Rightarrow> None
      | Some (False, yuyv) \<Rightarrow>
          (case reject k IR_CAPTURE_REJECTION_DECODE
              (\<lambda>s. s\<lparr>st_decode_errors := st_decode_errors s + 1, st_last_error := IR_CAPTURE_ERROR_DECODE\<rparr>) b c w of
             (r, c, w) \<Rightarrow> Some (r, c, yuyv, w))
      | Some (True, yuyv) \<Rightarrow>
          (case queue_buffer k (ic_video_fd c) b w of
             (False, w) \<Rightarrow> Some (-1, update_stats (\<lambda>s. s\<lparr>st_requeue_errors := st_requeue_errors s + 1,
                 st_last_error := IR_CAPTURE_ERROR_REQUEUE\<rparr>) c, yuyv, w)
           | (True, w) \<Rightarrow> Some (1, accept_frame b c, yuyv, w)))"

definition handle_dequeued ::
  "'s ir_kernel \<Rightarrow> v4l2_buffer \<Rightarrow> ir_capture \<Rightarrow> u8 list \<Rightarrow> 's ir_world \<Rightarrow>
     (int \<times> ir_capture \<times> u8 list \<times> 's ir_world) option" where
  "handle_dequeued k b c yuyv w =
     (let c = note_dequeued b c;
          meta = metadata_reasons c b; plane = plane_metadata_reasons c b;
          time = validate_timestamp c (vb_timestamp b);
          give = (\<lambda>(r, c, w). Some (r, c, yuyv, w)) in
      if meta \<noteq> IR_CAPTURE_REJECTION_NONE then
        give (reject k (meta OR plane OR time)
          (\<lambda>s. s\<lparr>st_metadata_errors := st_metadata_errors s + 1, st_last_error := IR_CAPTURE_ERROR_METADATA\<rparr>) b c w)
      else if time \<noteq> IR_CAPTURE_REJECTION_NONE then
        give (reject k (time OR plane)
          (\<lambda>s. s\<lparr>st_timestamp_errors := st_timestamp_errors s + 1, st_last_error := IR_CAPTURE_ERROR_TIMESTAMP\<rparr>) b c w)
      else if sequence_bad c b then
        give (reject k (IR_CAPTURE_REJECTION_SEQUENCE OR plane)
          (\<lambda>s. s\<lparr>st_sequence_errors := st_sequence_errors s + 1, st_last_error := IR_CAPTURE_ERROR_SEQUENCE\<rparr>) b c w)
      else
        let c = count_gap b c in
        if plane \<noteq> IR_CAPTURE_REJECTION_NONE then
          give (reject k plane
            (\<lambda>s. s\<lparr>st_metadata_errors := st_metadata_errors s + 1, st_last_error := IR_CAPTURE_ERROR_METADATA\<rparr>) b c w)
        else decode_and_requeue k b c yuyv w)"

definition poll_failure :: "ir_capture \<Rightarrow> ir_capture" where
  "poll_failure c =
     update_stats (\<lambda>s. s\<lparr>st_poll_errors := st_poll_errors s + 1, st_last_error := IR_CAPTURE_ERROR_POLL\<rparr>) c"

text \<open>The caller's copy of the statistics is the capture's, once the stream is running.\<close>

definition ir_capture_next ::
  "'s ir_kernel \<Rightarrow> nat \<Rightarrow> ir_capture \<Rightarrow> u8 list \<Rightarrow> 's ir_world \<Rightarrow>
     (int \<times> ir_capture \<times> u8 list \<times> 's ir_world) option" where
  "ir_capture_next k timeout_ms c yuyv w =
     (let give = (\<lambda>(r, c, w). Some (r, c, yuyv, w)) in
      if \<not> ic_streaming c then Some (-1, c, yuyv, w)
      else case ir_call (ik_poll k (ic_video_fd c) timeout_ms) w of
        (Poll_Elapsed, w) \<Rightarrow> give (handle_capture_timeout k c w)
      | (Poll_Interrupted, w) \<Rightarrow> give (handle_capture_timeout k c w)
      | (Poll_Failed, w) \<Rightarrow> Some (-1, poll_failure c, yuyv, w)
      | (Poll_Events revents, w) \<Rightarrow>
          if revents AND (POLLERR OR POLLNVAL) \<noteq> 0 then Some (-1, poll_failure c, yuyv, w)
          else case ir_ioctl_retry k (ik_dqbuf k (ic_video_fd c)) w of
            (Would_Block, w) \<Rightarrow> give (handle_capture_timeout k c w)
          | (Dequeue_Failed, w) \<Rightarrow>
              Some (-1, update_stats (\<lambda>s. s\<lparr>st_dqbuf_errors := st_dqbuf_errors s + 1,
                  st_last_error := IR_CAPTURE_ERROR_DQBUF\<rparr>) c, yuyv, w)
          | (Dequeued b, w) \<Rightarrow>
              handle_dequeued k b c yuyv (w\<lparr>iw_queued := iw_queued w - {vb_index b}\<rparr>))"

section \<open>Stopping\<close>

definition ir_capture_stop :: "'s ir_kernel \<Rightarrow> ir_capture \<Rightarrow> 's ir_world \<Rightarrow> int \<times> ir_capture \<times> 's ir_world" where
  "ir_capture_stop k c w =
     (if \<not> ic_streaming c then (0, c, w)
      else let (now, w) = ir_call (ik_now k) w;
               c = update_stats (\<lambda>s. s\<lparr>st_stream_stop_ns := now\<rparr>) c in
        case stream_off k (ic_video_fd c) w of
          (False, w) \<Rightarrow> (-1, c, w)
        | (True, w) \<Rightarrow> (0, c\<lparr>ic_streaming := False\<rparr>, w))"

end
