(* ===== verification/IrSession.thy ===== *)
theory IrSession
  imports IrStream
begin

text \<open>
  What streaming keeps: the outcomes of a call for the next frame, runs of calls, what a
  session holds from opening to closing, and the properties of theories IrCapture and
  IrStream.  An example camera gives frames of one row.
\<close>

section \<open>What the operations leave alone\<close>

lemma update_stats_frame [simp]:
  "ic_media_fd (update_stats f c) = ic_media_fd c" "ic_csi_fd (update_stats f c) = ic_csi_fd c"
  "ic_video_fd (update_stats f c) = ic_video_fd c" "ic_format (update_stats f c) = ic_format c"
  "ic_buffers (update_stats f c) = ic_buffers c" "ic_buffer_count (update_stats f c) = ic_buffer_count c"
  "ic_streaming (update_stats f c) = ic_streaming c"
  "ic_have_sequence (update_stats f c) = ic_have_sequence c"
  "ic_discard_error_buffers (update_stats f c) = ic_discard_error_buffers c"
  "ic_last_sequence (update_stats f c) = ic_last_sequence c"
  "ic_last_timestamp (update_stats f c) = ic_last_timestamp c"
  "ic_discard_anchor_ns (update_stats f c) = ic_discard_anchor_ns c"
  "ic_stats (update_stats f c) = f (ic_stats c)"
  by (simp_all add: update_stats_def)

lemma ir_call_frame [simp]:
  "iw_signals (snd (ir_call f w)) = iw_signals w" "iw_fds (snd (ir_call f w)) = iw_fds w"
  "iw_maps (snd (ir_call f w)) = iw_maps w" "iw_captures (snd (ir_call f w)) = iw_captures w"
  "iw_queued (snd (ir_call f w)) = iw_queued w"
  by (simp_all add: ir_call_def split_beta)

lemma ir_interrupted_frame [simp]:
  "iw_fds (snd (ir_interrupted k w)) = iw_fds w" "iw_maps (snd (ir_interrupted k w)) = iw_maps w"
  "iw_captures (snd (ir_interrupted k w)) = iw_captures w"
  "iw_queued (snd (ir_interrupted k w)) = iw_queued w"
  by (simp_all add: ir_interrupted_def split_beta)

lemma ir_ioctl_retry_frame [simp]:
  "iw_fds (snd (ir_ioctl_retry k f w)) = iw_fds w" "iw_maps (snd (ir_ioctl_retry k f w)) = iw_maps w"
  "iw_captures (snd (ir_ioctl_retry k f w)) = iw_captures w"
  "iw_queued (snd (ir_ioctl_retry k f w)) = iw_queued w"
proof -
  have "iw_fds (snd (ir_ioctl_retry k f w)) = iw_fds w \<and> iw_maps (snd (ir_ioctl_retry k f w)) = iw_maps w \<and>
      iw_captures (snd (ir_ioctl_retry k f w)) = iw_captures w \<and> iw_queued (snd (ir_ioctl_retry k f w)) = iw_queued w"
  proof (induction k f w rule: ir_ioctl_retry.induct)
    case (1 k f w)
    obtain b w1 where i: "ir_interrupted k w = (b, w1)" by fastforce
    have w1: "iw_fds w1 = iw_fds w" "iw_maps w1 = iw_maps w" "iw_captures w1 = iw_captures w"
        "iw_queued w1 = iw_queued w"
      using ir_interrupted_frame [of k w] by (simp_all add: i)
    show ?case
    proof (cases b)
      case True
      then have "ir_ioctl_retry k f w = ir_ioctl_retry k f w1" by (subst ir_ioctl_retry.simps) (simp add: i)
      then show ?thesis using "1.IH" [OF i [symmetric] refl] True w1 by simp
    next
      case False
      then have "ir_ioctl_retry k f w = ir_call f w1" by (subst ir_ioctl_retry.simps) (simp add: i)
      then show ?thesis using w1 by simp
    qed
  qed
  then show "iw_fds (snd (ir_ioctl_retry k f w)) = iw_fds w" "iw_maps (snd (ir_ioctl_retry k f w)) = iw_maps w"
    "iw_captures (snd (ir_ioctl_retry k f w)) = iw_captures w" "iw_queued (snd (ir_ioctl_retry k f w)) = iw_queued w"
    by simp_all
qed

lemma queue_buffer_frame [simp]:
  "iw_fds (snd (queue_buffer k fd b w)) = iw_fds w" "iw_maps (snd (queue_buffer k fd b w)) = iw_maps w"
  "iw_captures (snd (queue_buffer k fd b w)) = iw_captures w"
  "iw_queued (snd (queue_buffer k fd b w)) =
     (if fst (queue_buffer k fd b w) then insert (vb_index b) (iw_queued w) else iw_queued w)"
  by (simp_all add: queue_buffer_def split_beta)

text \<open>
  What a call of \<^verbatim>\<open>ir_capture_next\<close> may not touch: the capture's descriptors, format and
  buffers, and the descriptors, mappings and captures that are held.
\<close>

definition same_shape :: "ir_capture \<Rightarrow> ir_capture \<Rightarrow> bool" where
  "same_shape c c' \<longleftrightarrow>
     ic_media_fd c' = ic_media_fd c \<and> ic_csi_fd c' = ic_csi_fd c \<and> ic_video_fd c' = ic_video_fd c \<and>
     ic_format c' = ic_format c \<and> ic_buffers c' = ic_buffers c \<and> ic_buffer_count c' = ic_buffer_count c \<and>
     ic_discard_error_buffers c' = ic_discard_error_buffers c"

definition same_held :: "'s ir_world \<Rightarrow> 's ir_world \<Rightarrow> bool" where
  "same_held w w' \<longleftrightarrow> iw_fds w' = iw_fds w \<and> iw_maps w' = iw_maps w \<and> iw_captures w' = iw_captures w"

text \<open>What it remembers of the last frame.\<close>

definition same_frame :: "ir_capture \<Rightarrow> ir_capture \<Rightarrow> bool" where
  "same_frame c c' \<longleftrightarrow> ic_have_sequence c' = ic_have_sequence c \<and> ic_last_sequence c' = ic_last_sequence c \<and>
     ic_last_timestamp c' = ic_last_timestamp c"

lemma shape_refl [simp]: "same_shape c c" "same_held w w" "same_frame c c"
  by (simp_all add: same_shape_def same_held_def same_frame_def)

lemma shape_update [simp]:
  "same_shape c (update_stats f d) \<longleftrightarrow> same_shape c d"
  "same_shape (update_stats f c) d \<longleftrightarrow> same_shape c d" "same_frame (update_stats f c) d \<longleftrightarrow> same_frame c d"
  "same_frame c (update_stats f d) \<longleftrightarrow> same_frame c d"
  "same_held w (snd (ir_call g v)) \<longleftrightarrow> same_held w v" "same_held w (snd (ir_ioctl_retry k g v)) \<longleftrightarrow> same_held w v"
  "same_held w (snd (queue_buffer k fd b v)) \<longleftrightarrow> same_held w v"
  by (simp_all add: same_shape_def same_frame_def same_held_def)

abbreviation discards :: "ir_capture \<Rightarrow> nat" where
  "discards c \<equiv> st_consecutive_discards (ic_stats c)"

abbreviation gaps :: "ir_capture \<Rightarrow> nat" where
  "gaps c \<equiv> st_sequence_gaps (ic_stats c)"

section \<open>Outcomes\<close>

text \<open>
  What an outcome \<open>r\<close> other than a frame means: nothing about the last frame changes, a
  discard is counted and within the limit, nothing else is.
\<close>

definition no_frame :: "ir_capture \<Rightarrow> int \<Rightarrow> ir_capture \<Rightarrow> bool" where
  "no_frame c r c' \<longleftrightarrow>
     same_shape c c' \<and> same_frame c c' \<and> ic_streaming c' = ic_streaming c \<and> (r = -1 \<or> r = 0 \<or> r = 2) \<and>
     (if r = 2 then discards c < 5 \<and> discards c' = discards c + 1 else discards c' = discards c)"

lemma timeout_no_frame:
  assumes "handle_capture_timeout k c w = (r, c', w')"
  shows "no_frame c r c'" "r \<noteq> 2" "same_held w w'" "iw_queued w' = iw_queued w" "gaps c' = gaps c"
  using assms
  by (auto simp: handle_capture_timeout_def split_beta set_last_error_def no_frame_def same_held_def
      split: if_splits)

lemma discard_no_frame:
  assumes "discard_or_fail c = (r, c')"
  shows "no_frame c r c'" "r \<noteq> 0" "gaps c' = gaps c"
  using assms
  by (auto simp: discard_or_fail_def Let_def no_frame_def discard_limit_reached_def same_shape_def same_frame_def
      IR_CAPTURE_RESULT_DISCARDED_def IR_CAPTURE_MAX_CONSECUTIVE_DISCARDS_def split: if_splits)

lemma no_frame_from:
  assumes "no_frame d r c'" "same_shape c d" "same_frame c d" "ic_streaming d = ic_streaming c" "discards d = discards c"
  shows "no_frame c r c'"
  using assms by (auto simp: no_frame_def same_shape_def same_frame_def split: if_splits)

section \<open>Rejections\<close>

lemma update_rejection_stats [simp]:
  "update_rejection f c = update_stats (\<lambda>s. s\<lparr>st_rejection := f (st_rejection s)\<rparr>) c"
  by (simp add: update_rejection_def)

definition quiet :: "ir_capture \<Rightarrow> ir_capture \<Rightarrow> bool" where
  "quiet c d \<longleftrightarrow> same_shape c d \<and> same_frame c d \<and> ic_streaming d = ic_streaming c \<and>
     discards d = discards c \<and> gaps d = gaps c"

lemma quiet_basic [simp]: "quiet c c"
  "(\<And>s. st_consecutive_discards (f s) = st_consecutive_discards s \<and> st_sequence_gaps (f s) = st_sequence_gaps s) \<Longrightarrow>
     quiet c (update_stats f d) = quiet c d"
  by (simp_all add: quiet_def)

lemma quiet_can_requeue: "quiet c d \<Longrightarrow> can_requeue d b = can_requeue c b"
  by (simp add: quiet_def same_shape_def can_requeue_def index_valid_def)

lemma queue_step:
  assumes "queue_buffer k fd b w = (ok, w1)"
  shows "same_held w w1" "iw_queued w1 = (if ok then insert (vb_index b) (iw_queued w) else iw_queued w)"
  using queue_buffer_frame [of k fd b w] by (simp_all add: assms same_held_def)

lemma call_step:
  assumes "ir_call f w = (x, w1)"
  shows "same_held w w1" "iw_queued w1 = iw_queued w"
  using ir_call_frame [of f w] by (simp_all add: assms same_held_def)

lemma ioctl_step:
  assumes "ir_ioctl_retry k f w = (x, w1)"
  shows "same_held w w1" "iw_queued w1 = iw_queued w"
  using ir_ioctl_retry_frame [of k f w] by (simp_all add: assms same_held_def)

lemma held_trans: "same_held w w1 \<Longrightarrow> same_held w1 w2 \<Longrightarrow> same_held w w2"
  by (simp add: same_held_def)

lemma requeue_rejected_quiet:
  assumes "requeue_rejected k b c w = (c', w')"
  shows "quiet c c'" "same_held w w'"
    "iw_queued w' = (if rj_requeue_result (st_rejection (ic_stats c')) = IR_CAPTURE_REQUEUE_SUCCEEDED
       then insert (vb_index b) (iw_queued w) else iw_queued w)"
proof -
  obtain ok w1 where q: "queue_buffer k (ic_video_fd c) b w = (ok, w1)" by fastforce
  obtain now w2 where n: "ir_call (ik_now k) w1 = (now, w2)" by fastforce
  note q' = queue_step [OF q] and n' = call_step [OF n]
  show "quiet c c'" "same_held w w'"
    "iw_queued w' = (if rj_requeue_result (st_rejection (ic_stats c')) = IR_CAPTURE_REQUEUE_SUCCEEDED
       then insert (vb_index b) (iw_queued w) else iw_queued w)"
    using assms q' n' by (auto simp: requeue_rejected_def q n same_held_def split: if_splits)
qed

lemma requeue_fail_spec:
  assumes "requeue_fail k b c w = (r, c', w')"
    "rj_requeue_result (st_rejection (ic_stats c)) = IR_CAPTURE_REQUEUE_NOT_ATTEMPTED"
  shows "no_frame c r c'" "r \<noteq> 0" "gaps c' = gaps c" "same_held w w'"
    "iw_queued w' = iw_queued w \<or> iw_queued w' = insert (vb_index b) (iw_queued w)"
    "r = 2 \<Longrightarrow> iw_queued w' = insert (vb_index b) (iw_queued w)"
    "\<not> can_requeue c b \<Longrightarrow> iw_queued w' = iw_queued w"
proof -
  let ?c1 = "update_stats (\<lambda>s. s\<lparr>st_rejected_buffers := st_rejected_buffers s + 1\<rparr>) c"
  obtain d v where d: "(if can_requeue ?c1 b then requeue_rejected k b ?c1 w else (?c1, w)) = (d, v)" by fastforce
  obtain r' where r: "discard_or_fail d = (r', c')" "r' = r" "w' = v"
    using assms(1) unfolding requeue_fail_def Let_def d by (auto split: prod.splits)
  have q: "quiet c d"
    using d requeue_rejected_quiet(1) [of k b ?c1 w d v] by (auto simp: quiet_def split: if_splits) 
  have held: "same_held w v"
    using d requeue_rejected_quiet(2) [of k b ?c1 w d v] by (auto split: if_splits)
  have queued: "iw_queued v = (if can_requeue c b \<and>
        rj_requeue_result (st_rejection (ic_stats d)) = IR_CAPTURE_REQUEUE_SUCCEEDED
      then insert (vb_index b) (iw_queued w) else iw_queued w)"
    using d requeue_rejected_quiet(3) [of k b ?c1 w d v] quiet_can_requeue [of c ?c1 b]
    by (auto split: if_splits)
  have ok: "rj_requeue_result (st_rejection (ic_stats d)) = IR_CAPTURE_REQUEUE_SUCCEEDED \<Longrightarrow> can_requeue c b"
    using d assms(2) quiet_can_requeue [of c ?c1 b] by (auto split: if_splits)
  show "no_frame c r c'"
    using no_frame_from [of d r c' c] discard_no_frame(1) [OF r(1)] q r(2) by (auto simp: quiet_def)
  show "r \<noteq> 0" using discard_no_frame(2) [OF r(1)] r(2) by simp
  show "gaps c' = gaps c" using discard_no_frame(3) [OF r(1)] q by (simp add: quiet_def)
  show "same_held w w'" using held r(3) by simp
  show "iw_queued w' = iw_queued w \<or> iw_queued w' = insert (vb_index b) (iw_queued w)"
    using queued r(3) by auto
  show "\<not> can_requeue c b \<Longrightarrow> iw_queued w' = iw_queued w" using queued r(3) by auto
  assume "r = 2"
  then have "rj_requeue_result (st_rejection (ic_stats d)) = IR_CAPTURE_REQUEUE_SUCCEEDED"
    using r(1,2) by (auto simp: discard_or_fail_def Let_def split: if_splits)
  then show "iw_queued w' = insert (vb_index b) (iw_queued w)" using queued ok r(3) by simp
qed

definition counter_only :: "(ir_stats \<Rightarrow> ir_stats) \<Rightarrow> bool" where
  "counter_only f \<longleftrightarrow> (\<forall>s. st_consecutive_discards (f s) = st_consecutive_discards s \<and>
     st_sequence_gaps (f s) = st_sequence_gaps s \<and> st_rejection (f s) = st_rejection s)"

lemma reject_spec:
  assumes "reject k reasons cnt b c w = (r, c', w')" "counter_only cnt"
  shows "no_frame c r c'" "r \<noteq> 0" "gaps c' = gaps c" "same_held w w'"
    "iw_queued w' = iw_queued w \<or> iw_queued w' = insert (vb_index b) (iw_queued w)"
    "r = 2 \<Longrightarrow> iw_queued w' = insert (vb_index b) (iw_queued w)"
    "\<not> can_requeue c b \<Longrightarrow> iw_queued w' = iw_queued w"
proof -
  obtain d v where p: "prepare_rejection k reasons c w = (d, v)" by fastforce
  let ?e = "update_stats cnt d"
  have q: "quiet c ?e" and v: "same_held w v" "iw_queued v = iw_queued w"
    and none: "rj_requeue_result (st_rejection (ic_stats ?e)) = IR_CAPTURE_REQUEUE_NOT_ATTEMPTED"
    using p assms(2) by (auto simp: prepare_rejection_def split_beta counter_only_def quiet_def)
  have f: "requeue_fail k b ?e v = (r, c', w')" using assms(1) p by (simp add: reject_def)
  note s = requeue_fail_spec [OF f none]
  show "no_frame c r c'" using no_frame_from [OF s(1), of c] q by (simp add: quiet_def)
  show "r \<noteq> 0" by (rule s(2))
  show "gaps c' = gaps c" using s(3) q by (simp add: quiet_def)
  show "same_held w w'" using s(4) v by (simp add: same_held_def)
  show "iw_queued w' = iw_queued w \<or> iw_queued w' = insert (vb_index b) (iw_queued w)" using s(5) v by simp
  show "r = 2 \<Longrightarrow> iw_queued w' = insert (vb_index b) (iw_queued w)" using s(6) v by simp
  show "\<not> can_requeue c b \<Longrightarrow> iw_queued w' = iw_queued w" using s(7) v quiet_can_requeue [OF q] by simp
qed

section \<open>A dequeued buffer\<close>

definition later :: "int \<times> int \<Rightarrow> int \<times> int \<Rightarrow> bool" where
  "later a b \<longleftrightarrow> fst a < fst b \<or> fst a = fst b \<and> snd a < snd b"

text \<open>
  A frame: if there was one before, its time is later and its sequence number ahead by less
  than half the range.
\<close>

definition frame_taken :: "ir_capture \<Rightarrow> ir_capture \<Rightarrow> bool" where
  "frame_taken c c' \<longleftrightarrow> same_shape c c' \<and> ic_streaming c' = ic_streaming c \<and> discards c' = 0 \<and>
     ic_have_sequence c' \<and>
     (ic_have_sequence c \<longrightarrow> later (ic_last_timestamp c) (ic_last_timestamp c') \<and>
        0 < ic_last_sequence c' - ic_last_sequence c \<and> ic_last_sequence c' - ic_last_sequence c \<le> 0x7fffffff)"

text \<open>The output is the decoded image of some buffer's memory, and every row's header was right.\<close>

definition decoded_from :: "ir_capture \<Rightarrow> u8 list \<Rightarrow> u8 list \<Rightarrow> bool" where
  "decoded_from c yuyv yuyv' \<longleftrightarrow>
     (\<exists>i buf off. i < ic_buffer_count c \<and> length buf = snd (ic_buffers c ! i) \<and>
        (\<forall>row < unat (px_height (ic_format c)). header_ok buf (unat (px_bytesperline (ic_format c))) off row) \<and>
        yuyv' = raw10_reference buf (unat (px_width (ic_format c)))
          (unat (px_bytesperline (ic_format c))) off (unat (px_height (ic_format c))) yuyv)"

definition outcome ::
  "ir_capture \<Rightarrow> u8 list \<Rightarrow> int \<Rightarrow> ir_capture \<Rightarrow> u8 list \<Rightarrow> bool" where
  "outcome c yuyv r c' yuyv' \<longleftrightarrow>
     length yuyv' = length yuyv \<and>
     (if r = 1 then frame_taken c c' \<and> decoded_from c yuyv yuyv' else no_frame c r c')"

text \<open>The buffer \<open>i\<close> was taken from the queue and is back in it, or, in a failure, lost.\<close>

definition queue_kept :: "u32 \<Rightarrow> int \<Rightarrow> 's ir_world \<Rightarrow> 's ir_world \<Rightarrow> bool" where
  "queue_kept i r w w' \<longleftrightarrow> same_held w w' \<and>
     (iw_queued w' = insert i (iw_queued w) \<or> r = -1 \<and> iw_queued w' = iw_queued w)"

lemma no_frame_cases: "no_frame c r c' \<Longrightarrow> r = -1 \<or> r = 0 \<or> r = 2"
  by (simp add: no_frame_def)

lemma reject_outcome:
  assumes "reject k reasons cnt b d w = (r, c', w')" "counter_only cnt"
    and "same_shape c d" "same_frame c d" "ic_streaming d = ic_streaming c" "discards d = discards c"
    and "length yuyv' = length yuyv"
  shows "outcome c yuyv r c' yuyv'" "queue_kept (vb_index b) r w w'"
proof -
  note s = reject_spec [OF assms(1,2)]
  have "no_frame c r c'" by (rule no_frame_from [OF s(1) assms(3-6)])
  then show "outcome c yuyv r c' yuyv'" using assms(7) by (auto simp: outcome_def no_frame_def)
  show "queue_kept (vb_index b) r w w'"
    using s(2,4,5,6) no_frame_cases [OF s(1)] by (auto simp: queue_kept_def)
qed

lemma decode_total:
  assumes "buffer_size \<le> length buf" "buffer_size < 2 ^ 63"
    and "width < 2 ^ 32" "height < 2 ^ 32" "stride < 2 ^ 32" "data_offset < 2 ^ 32"
  shows "\<exists>ok y. ir_decode_raw10_to_yuyv buf buffer_size width height stride data_offset yuyv = Some (ok, y) \<and>
    length y = length yuyv \<and> (ok \<longrightarrow> (\<forall>row < height. header_ok buf stride data_offset row) \<and>
       y = raw10_reference buf width stride data_offset height yuyv)"
proof (cases "raw10_accepted buffer_size width height stride data_offset (length yuyv)")
  case True
  show ?thesis unfolding decode_frame [OF True assms(2-6,1)]
    by (rule exI, rule exI, rule conjI, rule refl) (auto simp: raw10_reference_def good_rows_all [symmetric])
next
  case False
  then show ?thesis by (intro exI [of _ False] exI [of _ yuyv]) (simp add: ir_decode_raw10_to_yuyv_def)
qed

lemma decode_and_requeue_outcome:
  assumes "capacity_available d b" "unat (vb_bytesused b) \<le> capacity d b"
    and d: "same_shape c d" "same_frame c d" "ic_streaming d = ic_streaming c" "discards d = discards c"
    and order: "ic_have_sequence c \<Longrightarrow> later (ic_last_timestamp c) (vb_timestamp b) \<and>
      0 < vb_sequence b - ic_last_sequence c \<and> vb_sequence b - ic_last_sequence c \<le> 0x7fffffff"
  shows "\<exists>r c' yuyv' w'. decode_and_requeue k b d yuyv w = Some (r, c', yuyv', w') \<and>
    outcome c yuyv r c' yuyv' \<and> queue_kept (vb_index b) r w w'"
proof -
  let ?i = "unat (vb_index b)"
  obtain mem w1 where m: "ir_call (ik_memory k (fst (ic_buffers d ! ?i))) w = (mem, w1)" by fastforce
  let ?buf = "map mem [0..<snd (ic_buffers d ! ?i)]"
  let ?w = "unat (px_width (ic_format d))" and ?h = "unat (px_height (ic_format d))"
    and ?s = "unat (px_bytesperline (ic_format d))" and ?o = "unat (vb_data_offset b)"
  have lt: "unat (x :: u32) < 2 ^ 32" for x using unsigned_less [of x, where 'a = nat] by simp
  have len: "unat (vb_bytesused b) \<le> length ?buf" using assms(1,2) by (simp add: capacity_def)
  have small: "unat (vb_bytesused b) < 2 ^ 63" using lt [of "vb_bytesused b"] by simp
  obtain ok yuyv' where y: "ir_decode_raw10_to_yuyv ?buf (unat (vb_bytesused b)) ?w ?h ?s ?o yuyv = Some (ok, yuyv')"
      "length yuyv' = length yuyv" "ok \<Longrightarrow> (\<forall>row < ?h. header_ok ?buf ?s ?o row) \<and>
        yuyv' = raw10_reference ?buf ?w ?s ?o ?h yuyv"
    using decode_total [OF len small lt lt lt lt] by blast
  show ?thesis
  proof (cases ok)
    case False
    obtain r c' w' where r: "reject k IR_CAPTURE_REJECTION_DECODE
        (\<lambda>s. s\<lparr>st_decode_errors := st_decode_errors s + 1, st_last_error := IR_CAPTURE_ERROR_DECODE\<rparr>) b d w1 = (r, c', w')"
      by (rule prod_cases3)
    have "outcome c yuyv r c' yuyv'" "queue_kept (vb_index b) r w1 w'"
      using reject_outcome [OF r _ d y(2)] by (simp_all add: counter_only_def)
    moreover have "decode_and_requeue k b d yuyv w = Some (r, c', yuyv', w')"
      using y(1) False
      by (simp only: decode_and_requeue_def Let_def m prod.case option.case r bool.case)
    ultimately show ?thesis using call_step [OF m] by (auto simp: queue_kept_def same_held_def)
  next
    case True
    obtain q w2 where q: "queue_buffer k (ic_video_fd d) b w1 = (q, w2)" by fastforce
    have i: "?i < ic_buffer_count c" using assms(1) d(1) by (simp add: capacity_available_def index_valid_def same_shape_def)
    show ?thesis
    proof (cases q)
      case True
      have "decoded_from c yuyv yuyv'"
        unfolding decoded_from_def
        by (rule exI [of _ ?i], rule exI [of _ ?buf], rule exI [of _ ?o])
          (use y(3) [OF \<open>ok\<close>] i d(1) in \<open>simp add: same_shape_def\<close>)
      moreover have "frame_taken c (accept_frame b d)"
        using d order by (simp add: frame_taken_def accept_frame_def same_shape_def same_frame_def)
      moreover have "decode_and_requeue k b d yuyv w = Some (1, accept_frame b d, yuyv', w2)"
        using True \<open>ok\<close> by (simp add: decode_and_requeue_def m y(1) q)
      ultimately show ?thesis
        using y(2) queue_step [OF q] call_step [OF m] True
        by (auto simp: outcome_def queue_kept_def same_held_def)
    next
      case False
      let ?e = "update_stats (\<lambda>s. s\<lparr>st_requeue_errors := st_requeue_errors s + 1,
          st_last_error := IR_CAPTURE_ERROR_REQUEUE\<rparr>) d"
      have "no_frame c (-1) ?e" using d by (simp add: no_frame_def)
      moreover have "decode_and_requeue k b d yuyv w = Some (-1, ?e, yuyv', w2)"
        using False \<open>ok\<close> by (simp add: decode_and_requeue_def m y(1) q)
      ultimately show ?thesis
        using y(2) queue_step [OF q] call_step [OF m] False
        by (auto simp: outcome_def queue_kept_def same_held_def)
    qed
  qed
qed

lemma note_dequeued_quiet: "quiet c (note_dequeued b c)"
  by (simp add: note_dequeued_def Let_def)

lemma count_gap_same:
  "same_shape c (count_gap b d) = same_shape c d" "same_frame c (count_gap b d) = same_frame c d"
  "ic_streaming (count_gap b d) = ic_streaming d" "discards (count_gap b d) = discards d"
  "capacity_available (count_gap b d) b = capacity_available d b" "capacity (count_gap b d) b = capacity d b"
  by (simp_all add: count_gap_def capacity_available_def capacity_def index_valid_def)

lemma reason_if_zero [simp]: "r \<noteq> 0 \<Longrightarrow> reason_if p r = 0 \<longleftrightarrow> \<not> p"
  by (simp add: reason_if_def IR_CAPTURE_REJECTION_NONE_def)

lemma reasons_nonzero:
  "IR_CAPTURE_REJECTION_INVALID_INDEX OR IR_CAPTURE_REJECTION_CAPACITY_UNAVAILABLE \<noteq> 0"
  "IR_CAPTURE_REJECTION_INVALID_PLANE_COUNT \<noteq> 0" "IR_CAPTURE_REJECTION_ERROR_FLAG \<noteq> 0"
  "IR_CAPTURE_REJECTION_TIMESTAMP_FLAGS \<noteq> 0" "IR_CAPTURE_REJECTION_CAPACITY_UNAVAILABLE \<noteq> 0"
  "IR_CAPTURE_REJECTION_INVALID_PLANE_METADATA \<noteq> 0"
  by (simp_all add: IR_CAPTURE_REJECTION_INVALID_INDEX_def IR_CAPTURE_REJECTION_CAPACITY_UNAVAILABLE_def
      IR_CAPTURE_REJECTION_INVALID_PLANE_COUNT_def IR_CAPTURE_REJECTION_ERROR_FLAG_def
      IR_CAPTURE_REJECTION_TIMESTAMP_FLAGS_def IR_CAPTURE_REJECTION_INVALID_PLANE_METADATA_def)

lemma metadata_good:
  assumes "metadata_reasons c b = IR_CAPTURE_REJECTION_NONE"
  shows "index_valid c b" "plane_count_valid b" "vb_flags b AND V4L2_BUF_FLAG_ERROR = 0"
    "vb_flags b AND V4L2_BUF_FLAG_TIMESTAMP_MASK = V4L2_BUF_FLAG_TIMESTAMP_MONOTONIC" "capacity_available c b"
  using assms
  by (simp_all add: metadata_reasons_def or_eq_0_iff reasons_nonzero IR_CAPTURE_REJECTION_NONE_def)

lemma plane_good:
  assumes "plane_metadata_reasons c b = IR_CAPTURE_REJECTION_NONE"
    and "index_valid c b" "plane_count_valid b" "capacity_available c b"
  shows "vb_data_offset b < vb_bytesused b" "unat (vb_bytesused b) \<le> capacity c b"
  using assms by (simp_all add: plane_metadata_reasons_def reasons_nonzero IR_CAPTURE_REJECTION_NONE_def not_le)

lemma timestamp_good:
  "validate_timestamp c ts = IR_CAPTURE_REJECTION_NONE \<Longrightarrow> ic_have_sequence c \<Longrightarrow> later (ic_last_timestamp c) ts"
  by (auto simp: validate_timestamp_def later_def IR_CAPTURE_REJECTION_NONE_def
      IR_CAPTURE_REJECTION_TIMESTAMP_EMPTY_def IR_CAPTURE_REJECTION_TIMESTAMP_REGRESSION_def split: if_splits)

lemma sequence_good:
  "\<not> sequence_bad c b \<Longrightarrow> ic_have_sequence c \<Longrightarrow>
     0 < vb_sequence b - ic_last_sequence c \<and> vb_sequence b - ic_last_sequence c \<le> 0x7fffffff"
  by (auto simp: sequence_bad_def sequence_delta_def not_less word_gt_0)

lemma handle_dequeued_outcome:
  "\<exists>r c' yuyv' w'. handle_dequeued k b c yuyv w = Some (r, c', yuyv', w') \<and>
    outcome c yuyv r c' yuyv' \<and> queue_kept (vb_index b) r w w'"
proof -
  let ?c = "note_dequeued b c" and ?meta = "metadata_reasons (note_dequeued b c) b"
    and ?plane = "plane_metadata_reasons (note_dequeued b c) b"
    and ?time = "validate_timestamp (note_dequeued b c) (vb_timestamp b)"
  have q: "same_shape c ?c" "same_frame c ?c" "ic_streaming ?c = ic_streaming c" "discards ?c = discards c"
    using note_dequeued_quiet [of c b] by (simp_all add: quiet_def)
  have rej: "\<exists>r c' yuyv' w'. (\<lambda>(r, c, w). Some (r, c, yuyv, w)) (reject k reasons cnt b d w) = Some (r, c', yuyv', w') \<and>
      outcome c yuyv r c' yuyv' \<and> queue_kept (vb_index b) r w w'"
    if "counter_only cnt" "d = ?c \<or> d = count_gap b ?c" for reasons cnt d
  proof -
    obtain r c' w' where r: "reject k reasons cnt b d w = (r, c', w')" by (rule prod_cases3)
    have "same_shape c d" "same_frame c d" "ic_streaming d = ic_streaming c" "discards d = discards c"
      using that(2) q by (auto simp: count_gap_same)
    from reject_outcome [OF r that(1) this refl] r show ?thesis by auto
  qed
  show ?thesis
  proof (cases "?meta \<noteq> IR_CAPTURE_REJECTION_NONE")
    case True
    show ?thesis
      unfolding handle_dequeued_def Let_def if_P [OF True] by (rule rej) (simp_all add: counter_only_def)
  next
    case meta: False
    show ?thesis
    proof (cases "?time \<noteq> IR_CAPTURE_REJECTION_NONE")
      case True
      show ?thesis
        unfolding handle_dequeued_def Let_def if_not_P [OF meta] if_P [OF True]
        by (rule rej) (simp_all add: counter_only_def)
    next
      case time: False
      show ?thesis
      proof (cases "sequence_bad ?c b")
        case True
        show ?thesis
          unfolding handle_dequeued_def Let_def if_not_P [OF meta] if_not_P [OF time] if_P [OF True]
          by (rule rej) (simp_all add: counter_only_def)
      next
        case seq: False
        show ?thesis
        proof (cases "?plane \<noteq> IR_CAPTURE_REJECTION_NONE")
          case True
          show ?thesis
            unfolding handle_dequeued_def Let_def if_not_P [OF meta] if_not_P [OF time] if_not_P [OF seq]
              if_P [OF True]
            by (rule rej) (simp_all add: counter_only_def)
        next
          case plane: False
          have m: "index_valid ?c b" "plane_count_valid b" "capacity_available ?c b"
            using metadata_good [of ?c b] meta by blast+
          have "unat (vb_bytesused b) \<le> capacity ?c b" using plane_good [of ?c b] m plane by blast
          moreover have "ic_have_sequence c \<Longrightarrow> later (ic_last_timestamp c) (vb_timestamp b) \<and>
              0 < vb_sequence b - ic_last_sequence c \<and> vb_sequence b - ic_last_sequence c \<le> 0x7fffffff"
            using timestamp_good [of ?c "vb_timestamp b"] sequence_good [OF seq] time q(2)
            by (simp add: same_frame_def)
          ultimately show ?thesis
            unfolding handle_dequeued_def Let_def if_not_P [OF meta] if_not_P [OF time] if_not_P [OF seq]
              if_not_P [OF plane]
            using decode_and_requeue_outcome [of "count_gap b ?c" b c k yuyv w] m(3) q
            by (simp add: count_gap_same)
        qed
      qed
    qed
  qed
qed

section \<open>The next frame\<close>

text \<open>
  The driver's queue after a call: every buffer it owned it still owns, but for one that a
  failed call could not give back.
\<close>

definition queue_after :: "int \<Rightarrow> 's ir_world \<Rightarrow> 's ir_world \<Rightarrow> bool" where
  "queue_after r w w' \<longleftrightarrow> same_held w w' \<and>
     (if r = -1 then \<exists>i. iw_queued w - {i} \<subseteq> iw_queued w' else iw_queued w \<subseteq> iw_queued w')"

lemma next_outcome:
  "\<exists>r c' yuyv' w'. ir_capture_next k t c yuyv w = Some (r, c', yuyv', w') \<and>
    outcome c yuyv r c' yuyv' \<and> queue_after r w w'"
proof (cases "ic_streaming c")
  case False
  then show ?thesis
    by (auto simp: ir_capture_next_def outcome_def no_frame_def queue_after_def)
next
  case streaming: True
  obtain p w1 where p: "ir_call (ik_poll k (ic_video_fd c) t) w = (p, w1)" by fastforce
  note p' = call_step [OF p]
  have timeout: "\<exists>r c' yuyv' w'. (case handle_capture_timeout k c v of (r, c, w) \<Rightarrow> Some (r, c, yuyv, w)) =
        Some (r, c', yuyv', w') \<and> outcome c yuyv r c' yuyv' \<and> queue_after r w w'"
    if "same_held w v" "iw_queued v = iw_queued w" for v
  proof -
    obtain r c' w' where h: "handle_capture_timeout k c v = (r, c', w')" by (rule prod_cases3)
    show ?thesis
      using timeout_no_frame [OF h] that h no_frame_cases [of c r c']
      by (auto simp: outcome_def queue_after_def same_held_def)
  qed
  have failed: "outcome c yuyv (-1) (update_stats f c) yuyv" if "counter_only f" for f
    using that by (simp add: outcome_def no_frame_def counter_only_def)
  note next_def = ir_capture_next_def [of k t c yuyv w] Let_def
  show ?thesis
  proof (cases p)
    case Poll_Elapsed
    then show ?thesis using timeout [of w1] p' streaming by (simp add: next_def p)
  next
    case Poll_Interrupted
    then show ?thesis using timeout [of w1] p' streaming by (simp add: next_def p)
  next
    case Poll_Failed
    then show ?thesis using p' streaming failed
      by (auto simp: next_def p poll_failure_def counter_only_def queue_after_def)
  next
    case (Poll_Events revents)
    show ?thesis
    proof (cases "revents AND (POLLERR OR POLLNVAL) \<noteq> 0")
      case True
      then show ?thesis using p' streaming failed Poll_Events
        by (auto simp: next_def p poll_failure_def counter_only_def queue_after_def)
    next
      case ev: False
      obtain d w2 where d: "ir_ioctl_retry k (ik_dqbuf k (ic_video_fd c)) w1 = (d, w2)" by fastforce
      note d' = ioctl_step [OF d]
      have w2: "same_held w w2" "iw_queued w2 = iw_queued w" using p' d' by (auto intro: held_trans)
      have eq: "ir_capture_next k t c yuyv w = (case d of
          Would_Block \<Rightarrow> (case handle_capture_timeout k c w2 of (r, c, w) \<Rightarrow> Some (r, c, yuyv, w))
        | Dequeue_Failed \<Rightarrow> Some (-1, update_stats (\<lambda>s. s\<lparr>st_dqbuf_errors := st_dqbuf_errors s + 1,
                  st_last_error := IR_CAPTURE_ERROR_DQBUF\<rparr>) c, yuyv, w2)
        | Dequeued b \<Rightarrow> handle_dequeued k b c yuyv (w2\<lparr>iw_queued := iw_queued w2 - {vb_index b}\<rparr>))"
        using streaming Poll_Events ev by (simp add: next_def p d split: dqbuf_reply.split)
      show ?thesis
      proof (cases d)
        case Would_Block
        then show ?thesis using timeout [OF w2] by (simp add: eq)
      next
        case Dequeue_Failed
        then show ?thesis using failed w2 by (auto simp: eq counter_only_def queue_after_def)
      next
        case (Dequeued b)
        obtain r c' yuyv' w' where h: "handle_dequeued k b c yuyv (w2\<lparr>iw_queued := iw_queued w2 - {vb_index b}\<rparr>) =
            Some (r, c', yuyv', w')" "outcome c yuyv r c' yuyv'"
            "queue_kept (vb_index b) r (w2\<lparr>iw_queued := iw_queued w2 - {vb_index b}\<rparr>) w'"
          using handle_dequeued_outcome by blast
        then have "queue_after r w w'"
          using w2 by (auto simp: queue_kept_def queue_after_def same_held_def)
        then show ?thesis using h Dequeued by (simp add: eq)
      qed
    qed
  qed
qed

section \<open>Runs\<close>

text \<open>\<open>n\<close> calls one after the other: each result with the capture it leaves.\<close>

primrec next_calls ::
  "'s ir_kernel \<Rightarrow> nat \<Rightarrow> nat \<Rightarrow> ir_capture \<Rightarrow> u8 list \<Rightarrow> 's ir_world \<Rightarrow>
     ((int \<times> ir_capture) list \<times> ir_capture \<times> u8 list \<times> 's ir_world) option" where
  "next_calls k t 0 c yuyv w = Some ([], c, yuyv, w)"
| "next_calls k t (Suc n) c yuyv w =
     (case ir_capture_next k t c yuyv w of None \<Rightarrow> None
      | Some (r, c, yuyv, w) \<Rightarrow>
          map_option (\<lambda>(rs, rest). ((r, c) # rs, rest)) (next_calls k t n c yuyv w))"

definition frames_of :: "(int \<times> ir_capture) list \<Rightarrow> ir_capture list" where
  "frames_of rs = map snd (filter (\<lambda>(r, c). r = 1) rs)"

lemma frames_of_simps [simp]:
  "frames_of [] = []" "frames_of ((r, c) # rs) = (if r = 1 then c # frames_of rs else frames_of rs)"
  by (simp_all add: frames_of_def)

lemma next_calls_step:
  obtains r c1 yuyv1 w1 where
    "next_calls k t (Suc n) c yuyv w =
       map_option (\<lambda>(rs, rest). ((r, c1) # rs, rest)) (next_calls k t n c1 yuyv1 w1)"
    "outcome c yuyv r c1 yuyv1" "queue_after r w w1"
  using next_outcome [of k t c yuyv w] by auto

definition after_frame :: "ir_capture \<Rightarrow> ir_capture \<Rightarrow> bool" where
  "after_frame a b \<longleftrightarrow> later (ic_last_timestamp a) (ic_last_timestamp b)"

definition ahead :: "ir_capture \<Rightarrow> ir_capture \<Rightarrow> bool" where
  "ahead a b \<longleftrightarrow> 0 < ic_last_sequence b - ic_last_sequence a \<and> ic_last_sequence b - ic_last_sequence a \<le> 0x7fffffff"

lemma after_frame_trans: "after_frame a b \<Longrightarrow> after_frame b c \<Longrightarrow> after_frame a c"
  by (auto simp: after_frame_def later_def)

text \<open>
  The frames of a run: in order among themselves, and after the frame before the run.
\<close>

lemma calls_ordered:
  "\<exists>rs c' yuyv' w'. next_calls k t n c yuyv w = Some (rs, c', yuyv', w') \<and> length rs = n \<and>
    (\<forall>(r, d) \<in> set rs. r = -1 \<or> r = 0 \<or> r = 1 \<or> r = 2) \<and>
    (let fs = frames_of rs in
      sorted_wrt after_frame fs \<and> successively ahead fs \<and> (\<forall>f \<in> set fs. ic_have_sequence f) \<and>
      (ic_have_sequence c \<and> fs \<noteq> [] \<longrightarrow> (\<forall>f \<in> set fs. after_frame c f) \<and> ahead c (hd fs)))"
proof (induction n arbitrary: c yuyv w)
  case 0
  then show ?case by (simp add: frames_of_def)
next
  case (Suc n)
  obtain r c1 yuyv1 w1 where s: "next_calls k t (Suc n) c yuyv w =
       map_option (\<lambda>(rs, rest). ((r, c1) # rs, rest)) (next_calls k t n c1 yuyv1 w1)"
    "outcome c yuyv r c1 yuyv1" by (rule next_calls_step)
  obtain rs c' yuyv' w' where rs: "next_calls k t n c1 yuyv1 w1 = Some (rs, c', yuyv', w')" "length rs = n"
      "\<forall>(r, d) \<in> set rs. r = -1 \<or> r = 0 \<or> r = 1 \<or> r = 2"
      "sorted_wrt after_frame (frames_of rs)" "successively ahead (frames_of rs)"
      "\<forall>f \<in> set (frames_of rs). ic_have_sequence f"
      "ic_have_sequence c1 \<and> frames_of rs \<noteq> [] \<longrightarrow> (\<forall>f \<in> set (frames_of rs). after_frame c1 f) \<and> ahead c1 (hd (frames_of rs))"
    using Suc.IH [of c1 yuyv1 w1] by (auto simp: Let_def)
  show ?case
  proof (cases "r = 1")
    case True
    have t: "ic_have_sequence c1" "ic_have_sequence c \<Longrightarrow> after_frame c c1 \<and> ahead c c1"
      using s(2) True by (simp_all add: outcome_def frame_taken_def after_frame_def ahead_def)
    have "sorted_wrt after_frame (c1 # frames_of rs)" using rs(4,7) t(1) by (cases "frames_of rs") auto
    moreover have "successively ahead (c1 # frames_of rs)"
      using rs(5,7) t(1) by (auto simp: successively_Cons)
    moreover have "after_frame c f" if "ic_have_sequence c" "f \<in> set (c1 # frames_of rs)" for f
      using that t rs(7) after_frame_trans [of c c1 f] by (cases "frames_of rs") auto
    ultimately show ?thesis
      unfolding s(1) using rs(1-3,6) t True by (simp add: Let_def)
  next
    case False
    have o': "no_frame c r c1" using s(2) False by (simp add: outcome_def)
    then have "ic_have_sequence c1 = ic_have_sequence c" "after_frame c1 = after_frame c" "ahead c1 = ahead c"
      by (auto simp: no_frame_def same_frame_def after_frame_def ahead_def fun_eq_iff)
    then show ?thesis unfolding s(1) using rs no_frame_cases [OF o'] False by (simp add: Let_def)
  qed
qed

lemma calls_discards:
  "\<exists>rs rest. next_calls k t n c yuyv w = Some (rs, rest) \<and>
    count_list (takeWhile (\<lambda>r. r \<noteq> 1) (map fst rs)) 2 \<le> 5 - discards c"
proof (induction n arbitrary: c yuyv w)
  case (Suc n)
  obtain r c1 yuyv1 w1 where s: "next_calls k t (Suc n) c yuyv w =
       map_option (\<lambda>(rs, rest). ((r, c1) # rs, rest)) (next_calls k t n c1 yuyv1 w1)"
    "outcome c yuyv r c1 yuyv1" by (rule next_calls_step)
  then show ?case using Suc.IH [of c1 yuyv1 w1] by (auto simp: outcome_def no_frame_def split: if_splits)
qed simp

lemma calls_kept:
  "\<exists>rs c' yuyv' w'. next_calls k t n c yuyv w = Some (rs, c', yuyv', w') \<and> same_shape c c' \<and> same_held w w' \<and>
    ((\<forall>r \<in> set (map fst rs). r \<noteq> -1) \<longrightarrow> iw_queued w \<subseteq> iw_queued w')"
proof (induction n arbitrary: c yuyv w)
  case (Suc n)
  obtain r c1 yuyv1 w1 where s: "next_calls k t (Suc n) c yuyv w =
       map_option (\<lambda>(rs, rest). ((r, c1) # rs, rest)) (next_calls k t n c1 yuyv1 w1)"
    "outcome c yuyv r c1 yuyv1" "queue_after r w w1" by (rule next_calls_step)
  have "same_shape c c1" "same_held w w1"
    using s(2,3) by (auto simp: outcome_def frame_taken_def no_frame_def queue_after_def split: if_splits)
  moreover obtain rs c' yuyv' w' where rs: "next_calls k t n c1 yuyv1 w1 = Some (rs, c', yuyv', w')"
      "same_shape c1 c'" "same_held w1 w'" "(\<forall>r \<in> set (map fst rs). r \<noteq> -1) \<longrightarrow> iw_queued w1 \<subseteq> iw_queued w'"
    using Suc.IH by blast
  ultimately have "same_shape c c'" "same_held w w'" by (auto simp: same_shape_def same_held_def)
  moreover have "r \<noteq> -1 \<and> (\<forall>r \<in> set (map fst rs). r \<noteq> -1) \<longrightarrow> iw_queued w \<subseteq> iw_queued w'"
    using rs(4) s(3) by (metis queue_after_def subset_trans)
  ultimately show ?case unfolding s(1) using rs(1) by simp
qed simp

lemma queue_all_queues:
  "queue_all k fd is w = (ok, w') \<Longrightarrow> same_held w w' \<and> iw_queued w \<subseteq> iw_queued w' \<and>
     (ok \<longrightarrow> of_nat ` set is \<subseteq> iw_queued w')"
proof (induction "is" arbitrary: w)
  case (Cons i "is")
  obtain q w1 where q: "queue_buffer k fd (empty_buffer i) w = (q, w1)" by fastforce
  have i: "vb_index (empty_buffer i) = of_nat i" by (simp add: empty_buffer_def)
  show ?case
  proof (cases q)
    case True
    then have "queue_all k fd is w1 = (ok, w')" using Cons.prems by (simp add: q)
    then show ?thesis using Cons.IH [of w1] queue_step [OF q] True by (auto simp: i same_held_def)
  next
    case False
    then show ?thesis using Cons.prems queue_step [OF q] by (simp add: q)
  qed
qed simp

lemma start_spec:
  assumes "ir_capture_start k c w = (r, c', w')"
  shows "same_held w w'" "same_shape c c'" "r = 0 \<or> r = -1"
    "r = 0 \<Longrightarrow> ic_streaming c' \<and> discards c' = 0 \<and> of_nat ` {..<ic_buffer_count c} \<subseteq> iw_queued w'"
proof -
  obtain now w1 where n: "ir_call (ik_now k) w = (now, w1)" by fastforce
  obtain q w2 where q: "queue_all k (ic_video_fd c) [0..<ic_buffer_count c] w1 = (q, w2)" by fastforce
  obtain s w3 where s: "ir_ioctl_retry k (ik_streamon k (ic_video_fd c)) w2 = (s, w3)" by fastforce
  have set: "set [0..<ic_buffer_count c] = {..<ic_buffer_count c}" by auto
  show "same_held w w'" "same_shape c c'" "r = 0 \<or> r = -1"
    "r = 0 \<Longrightarrow> ic_streaming c' \<and> discards c' = 0 \<and> of_nat ` {..<ic_buffer_count c} \<subseteq> iw_queued w'"
    using assms queue_all_queues [OF q] call_step [OF n] ioctl_step [OF s]
    by (auto simp: ir_capture_start_def n q s set same_held_def same_shape_def Let_def
        split: if_splits bool.splits)
qed

section \<open>What the set-up holds\<close>

lemma enumerate_held: "enumerate_from k fd n ident found w = (r, w') \<Longrightarrow> same_held w w'"
proof (induction n arbitrary: ident found w)
  case (Suc n)
  obtain e w1 where e: "ir_ioctl_retry k (ik_enum_entities k fd ident) w = (e, w1)" by fastforce
  show ?case using Suc.prems Suc.IH held_trans [OF ioctl_step(1) [OF e]] ioctl_step(1) [OF e]
    by (cases e) (auto simp: e)
qed simp

lemma scan_entities_held: "scan_entities k fd s t es st w = (r, w') \<Longrightarrow> same_held w w'"
proof (induction es arbitrary: st w)
  case (Cons e es)
  obtain p w1 where p: "ir_call (ik_calloc k) w = (p, w1)" by fastforce
  obtain l w2 where l: "ir_call (ik_calloc k) w1 = (l, w2)" by fastforce
  obtain x w3 where x: "ir_ioctl_retry k (ik_enum_links k fd (me_id e)) w2 = (x, w3)" by fastforce
  have h: "same_held w w2" using held_trans [OF call_step(1) [OF p] call_step(1) [OF l]] .
  then have "same_held w w3" by (rule held_trans [OF _ ioctl_step(1) [OF x]])
  moreover have "same_held w3 w'" if "scan_entities k fd s t es st' w3 = (r, w')" for st'
    by (rule Cons.IH [OF that])
  moreover have "w' = w \<or> w' = w2 \<or> w' = w3 \<or> (\<exists>st'. scan_entities k fd s t es st' w3 = (r, w'))"
    using Cons.prems by (cases x) (auto simp: p l x simp del: split_paired_Ex split: if_splits)
  ultimately show ?case using h by (metis held_trans shape_refl(2))
qed simp

lemma link_route_held: "link_route_enabled k fd es s t w = (r, w') \<Longrightarrow> same_held w w'"
  using scan_entities_held [of k fd s t es "(False, False)" w]
  by (auto simp: link_route_enabled_def split: prod.splits option.splits)

lemma first_device_held: "first_device k dev ps w = (r, w') \<Longrightarrow> same_held w w'"
proof (induction ps arbitrary: w)
  case (Cons p ps)
  obtain st w1 where s: "ir_call (ik_stat k p) w = (st, w1)" by fastforce
  show ?case using Cons.prems Cons.IH [of w1] call_step(1) [OF s]
    by (auto simp: s split: if_splits intro: held_trans)
qed simp

lemma find_entity_node_held: "find_entity_node k e pat w = (r, w') \<Longrightarrow> same_held w w'"
proof -
  assume a: "find_entity_node k e pat w = (r, w')"
  obtain g w1 where g: "ir_call (ik_glob k pat) w = (g, w1)" by fastforce
  show ?thesis using a call_step(1) [OF g] first_device_held [of k _ _ w1 r w']
    by (auto simp: find_entity_node_def g split: option.splits intro: held_trans)
qed

lemma examine_graph_held: "examine_graph k fd es w = (r, w') \<Longrightarrow> same_held w w'"
  unfolding examine_graph_def
  by (auto split: option.splits prod.splits if_splits dest!: link_route_held find_entity_node_held
      simp: same_held_def)

text \<open>\<open>taken F\<close>: besides what was held before, at most the descriptors \<open>F\<close>.\<close>

definition taken :: "int set \<Rightarrow> 's ir_world \<Rightarrow> 's ir_world \<Rightarrow> bool" where
  "taken F w w' \<longleftrightarrow> iw_fds w' \<subseteq> iw_fds w \<union> F \<and> iw_maps w' = iw_maps w \<and> iw_captures w' = iw_captures w"

lemma taken_held: "same_held w w' \<Longrightarrow> taken {} w w'" "taken F w w1 \<Longrightarrow> same_held w1 w' \<Longrightarrow> taken F w w'"
  by (simp_all add: taken_def same_held_def)

lemma taken_close: "taken F w w1 \<Longrightarrow> taken (F - {fd}) w (close_file fd w1)"
  by (auto simp: taken_def close_file_def)

lemma taken_trans: "taken {} w w1 \<Longrightarrow> taken F w1 w2 \<Longrightarrow> taken F w w2"
  by (auto simp: taken_def)

lemma open_file_taken:
  "open_file k p w = (fd, w') \<Longrightarrow> taken (if fd < 0 then {} else {fd}) w w'"
  by (auto simp: open_file_def split_beta taken_def)

lemma try_media_taken:
  "try_media k ms w = (r, w') \<Longrightarrow>
     (case r of None \<Rightarrow> taken {} w w' | Some (fd, _) \<Rightarrow> 0 \<le> fd \<and> taken {fd} w w')"
proof (induction ms arbitrary: w)
  case Nil
  then show ?case by (auto simp: taken_def)
next
  case (Cons m ms)
  obtain fd w1 where o': "open_file k m w = (fd, w1)" by fastforce
  note t1 = open_file_taken [OF o']
  have skip: "case r of None \<Rightarrow> taken {} w w' | Some (fd, _) \<Rightarrow> 0 \<le> fd \<and> taken {fd} w w'"
    if "try_media k ms v = (r, w')" "taken {} w v" for v
    using Cons.IH [OF that(1)] taken_trans [OF that(2)] by (auto split: option.splits)
  show ?case
  proof (cases "fd < 0")
    case True
    then show ?thesis using Cons.prems skip [of w1] t1 by (simp add: o')
  next
    case False
    obtain e w2 where e: "enumerate_entities k fd w1 = (e, w2)" by fastforce
    have t2: "taken {fd} w w2"
      using t1 False taken_held(2) enumerate_held [OF e [unfolded enumerate_entities_def]] by fastforce
    show ?thesis
    proof (cases e)
      case None
      then show ?thesis using Cons.prems False skip [of "close_file fd w2"] taken_close [OF t2, of fd]
        by (simp add: o' e)
    next
      case (Some es)
      obtain x w3 where x: "examine_graph k fd es w2 = (x, w3)" by fastforce
      have t3: "taken {fd} w w3" using taken_held(2) [OF t2 examine_graph_held [OF x]] .
      show ?thesis
        using Cons.prems False Some skip [of "close_file fd w3"] taken_close [OF t3, of fd] t3
        by (cases x) (auto simp: o' e x)
    qed
  qed
qed

lemma discover_taken:
  assumes "discover_graph k w = (r, w')"
  shows "case r of None \<Rightarrow> taken {} w w' | Some (fd, _) \<Rightarrow> 0 \<le> fd \<and> taken {fd} w w'"
proof -
  obtain g w1 where g: "ir_call (ik_glob k ''/dev/media*'') w = (g, w1)" by fastforce
  have t: "taken {} w w1" using taken_held(1) [OF call_step(1) [OF g]] .
  show ?thesis
  proof (cases g)
    case (Some ps)
    then have "try_media k ps w1 = (r, w')" using assms by (simp add: discover_graph_def g)
    from try_media_taken [OF this] taken_trans [OF t] show ?thesis by (auto split: option.splits)
  qed (use assms t in \<open>auto simp: discover_graph_def g\<close>)
qed

lemma configure_pads_held: "configure_pads k fd ps w = (r, w') \<Longrightarrow> same_held w w'"
proof (induction ps arbitrary: w)
  case (Cons p ps)
  let ?req = "\<lparr>sf_width = of_nat IR_CAPTURE_WIDTH, sf_height = of_nat IR_CAPTURE_HEIGHT,
                 sf_code = MEDIA_BUS_FMT_Y10_1X10\<rparr>"
  obtain f w1 where f: "ir_ioctl_retry k (ik_subdev_s_fmt k fd p ?req) w = (f, w1)" by fastforce
  show ?case using Cons.prems Cons.IH [of w1] ioctl_step(1) [OF f]
    by (cases f) (auto simp: f split: if_splits intro: held_trans)
qed simp

section \<open>Sessions\<close>

text \<open>The capture \<open>c\<close> accounts for what is held beyond the world \<open>w0\<close>.\<close>

definition fds_of :: "ir_capture \<Rightarrow> int set" where
  "fds_of c = {fd \<in> {ic_media_fd c, ic_csi_fd c, ic_video_fd c}. 0 \<le> fd}"

definition maps_of :: "ir_capture \<Rightarrow> ptr set" where
  "maps_of c = {p. \<exists>i < ic_buffer_count c. fst (ic_buffers c ! i) = p \<and> p \<noteq> NULL}"

definition accounted :: "'s ir_world \<Rightarrow> ir_capture \<Rightarrow> 's ir_world \<Rightarrow> bool" where
  "accounted w0 c w \<longleftrightarrow> iw_fds w \<subseteq> iw_fds w0 \<union> fds_of c \<and> iw_maps w \<subseteq> iw_maps w0 \<union> maps_of c \<and>
     iw_captures w = iw_captures w0 + 1"

text \<open>Nothing is left.\<close>

definition released :: "'s ir_world \<Rightarrow> 's ir_world \<Rightarrow> bool" where
  "released w0 w \<longleftrightarrow> iw_fds w \<subseteq> iw_fds w0 \<and> iw_maps w \<subseteq> iw_maps w0 \<and> iw_captures w = iw_captures w0"

lemma unmap_from_spec:
  "unmap_from n i c w = (c', w') \<Longrightarrow> iw_fds w' = iw_fds w \<and> iw_captures w' = iw_captures w \<and>
     iw_maps w' = iw_maps w - {p. \<exists>j < n. fst (ic_buffers c ! (i + j)) = p \<and> p \<noteq> NULL}"
proof (induction n arbitrary: i c w)
  case (Suc n)
  let ?p = "fst (ic_buffers c ! i)" and ?c = "c\<lparr>ic_buffers := (ic_buffers c)[i := (NULL, 0)]\<rparr>"
  let ?w = "if ?p \<noteq> NULL then w\<lparr>iw_maps := iw_maps w - {?p}\<rparr> else w"
  have "unmap_from n (i + 1) ?c ?w = (c', w')" using Suc.prems by (simp add: Let_def)
  note IH = Suc.IH [OF this]
  have "{p. \<exists>j < n. fst (ic_buffers ?c ! (i + 1 + j)) = p \<and> p \<noteq> NULL} =
      {p. \<exists>j < n. fst (ic_buffers c ! (i + Suc j)) = p \<and> p \<noteq> NULL}"
    by simp
  moreover have "{p. \<exists>j < Suc n. fst (ic_buffers c ! (i + j)) = p \<and> p \<noteq> NULL} =
      {p. \<exists>j < n. fst (ic_buffers c ! (i + Suc j)) = p \<and> p \<noteq> NULL} \<union> {p. p = ?p \<and> p \<noteq> NULL}"
    unfolding Ex_less_Suc2 by auto
  ultimately show ?case using IH by (auto split: if_splits)
qed simp

lemma close_if_open_frame [simp]:
  "iw_maps (close_if_open fd w) = iw_maps w" "iw_captures (close_if_open fd w) = iw_captures w"
  "iw_fds (close_if_open fd w) = iw_fds w - {x. x = fd \<and> 0 \<le> fd}"
  by (auto simp: close_if_open_def close_file_def)

lemma stream_off_held: "stream_off k fd w = (ok, w') \<Longrightarrow> same_held w w'"
proof -
  assume a: "stream_off k fd w = (ok, w')"
  obtain b w1 where b: "ir_ioctl_retry k (ik_streamoff k fd) w = (b, w1)" by fastforce
  then show ?thesis using a ioctl_step(1) [OF b] by (auto simp: stream_off_def same_held_def split: if_splits)
qed

lemma close_releases:
  assumes "accounted w0 c w"
  shows "released w0 (ir_capture_close k c w)"
proof -
  obtain now w1 where n: "ir_call (ik_now k) w = (now, w1)" by fastforce
  obtain ok w2 where s: "stream_off k (ic_video_fd c) w1 = (ok, w2)" by fastforce
  define w3 where "w3 = (if ic_streaming c then w2 else w)"
  define w4 where "w4 = close_if_open (ic_csi_fd c) (close_if_open (ic_video_fd c) w3)"
  obtain c5 w5 where u: "unmap_from (ic_buffer_count c) 0 c w4 = (c5, w5)" by fastforce
  have "same_held w w3" using call_step(1) [OF n] stream_off_held [OF s] by (auto simp: w3_def intro: held_trans)
  then have a: "accounted w0 c w3" using assms by (simp add: accounted_def same_held_def)
  have eq: "ir_capture_close k c w = (close_if_open (ic_media_fd c) w5)
      \<lparr>iw_captures := iw_captures (close_if_open (ic_media_fd c) w5) - 1\<rparr>"
    using u unfolding w4_def w3_def
    by (cases "ic_streaming c") (simp_all add: ir_capture_close_def Let_def n s unmap_buffers_def)
  show ?thesis
    using a unmap_from_spec [OF u] unfolding eq
    by (auto simp: released_def accounted_def fds_of_def maps_of_def w4_def)
qed

lemma accounted_held: "accounted w0 c w \<Longrightarrow> same_held w w' \<Longrightarrow> accounted w0 c w'"
  by (simp add: accounted_def same_held_def)

lemma accounted_shape: "accounted w0 c w \<Longrightarrow> same_shape c c' \<Longrightarrow> accounted w0 c' w"
  by (simp add: accounted_def fds_of_def maps_of_def same_shape_def)

lemma negotiate_step:
  assumes "negotiate_format k c w = (ok, c', w')"
  shows "same_held w w'" "fds_of c' = fds_of c" "maps_of c' = maps_of c" "ic_buffers c' = ic_buffers c"
    "ic_buffer_count c' = ic_buffer_count c"
proof -
  let ?f = "\<lparr>px_width = of_nat IR_CAPTURE_WIDTH, px_height = of_nat IR_CAPTURE_HEIGHT,
      px_pixelformat = V4L2_PIX_FMT_Y10, px_field = V4L2_FIELD_NONE, px_num_planes = 1,
      px_bytesperline = 0, px_sizeimage = 0\<rparr>"
  obtain s w1 where s: "ir_ioctl_retry k (ik_s_fmt k (ic_video_fd c) ?f) w = (s, w1)" by fastforce
  obtain g w2 where g: "ir_ioctl_retry k (ik_g_fmt k (ic_video_fd c) (the s)) w1 = (g, w2)" by fastforce
  have "same_held w w2" using held_trans [OF ioctl_step(1) [OF s] ioctl_step(1) [OF g]] .
  moreover have "same_held w w1" by (rule ioctl_step(1) [OF s])
  moreover have "negotiate_format k c w = (case s of None \<Rightarrow> (False, c, w1)
      | Some fmt \<Rightarrow> (case ir_ioctl_retry k (ik_g_fmt k (ic_video_fd c) fmt) w1 of
             (None, w) \<Rightarrow> (False, c, w)
           | (Some p, w) \<Rightarrow>
               if unsupported_format p then (False, c, w)
               else (True,
                 c\<lparr>ic_format := p,
                   ic_stats := (ic_stats c)\<lparr>st_width := px_width p, st_height := px_height p,
                     st_stride := px_bytesperline p, st_sizeimage := px_sizeimage p\<rparr>\<rparr>, w)))"
    unfolding negotiate_format_def Let_def s by (simp split: option.split)
  ultimately show "same_held w w'" "fds_of c' = fds_of c" "maps_of c' = maps_of c" "ic_buffers c' = ic_buffers c"
    "ic_buffer_count c' = ic_buffer_count c"
    using assms g by (auto simp: fds_of_def maps_of_def split: option.splits if_splits)
qed

lemma map_memory_step:
  assumes "map_memory k fd len off w = (p, w')"
  shows "iw_fds w' = iw_fds w" "iw_captures w' = iw_captures w"
    "iw_maps w' = (case p of None \<Rightarrow> iw_maps w | Some q \<Rightarrow> insert q (iw_maps w))" "p \<noteq> Some NULL"
proof -
  obtain r w1 where r: "ir_call (ik_mmap k fd len off) w = (r, w1)" by fastforce
  show "iw_fds w' = iw_fds w" "iw_captures w' = iw_captures w"
    "iw_maps w' = (case p of None \<Rightarrow> iw_maps w | Some q \<Rightarrow> insert q (iw_maps w))" "p \<noteq> Some NULL"
    using assms call_step [OF r]
    by (auto simp: map_memory_def r same_held_def simp del: neq0_conv split: option.splits if_splits)
qed

lemma map_from_accounted:
  "map_from k n i c w = (ok, c', w') \<Longrightarrow> accounted w0 c w \<Longrightarrow> i + n = ic_buffer_count c \<Longrightarrow>
     ic_buffer_count c \<le> length (ic_buffers c) \<Longrightarrow>
     (\<forall>j. i \<le> j \<and> j < ic_buffer_count c \<longrightarrow> fst (ic_buffers c ! j) = NULL) \<Longrightarrow> accounted w0 c' w'"
proof (induction n arbitrary: i c w)
  case (Suc n)
  obtain q w1 where q: "ir_ioctl_retry k (ik_querybuf k (ic_video_fd c) i) w = (q, w1)" by fastforce
  note q' = ioctl_step(1) [OF q]
  show ?case
  proof (cases q)
    case None
    then show ?thesis using Suc.prems q' by (auto simp: q intro: accounted_held)
  next
    case (Some lo)
    obtain len off where lo: "lo = (len, off)" by fastforce
    obtain p w2 where p: "map_memory k (ic_video_fd c) len off w1 = (p, w2)" by fastforce
    note p' = map_memory_step [OF p]
    let ?buf = "\<lambda>a. c\<lparr>ic_buffers := (ic_buffers c)[i := (a, len)]\<rparr>"
    have maps: "maps_of (?buf a) = maps_of c \<union> {x. x = a \<and> x \<noteq> NULL}" for a
      using Suc.prems(3,4,5) by (auto simp: maps_of_def nth_list_update_cases split: if_splits)
    have fds: "fds_of (?buf a) = fds_of c" for a by (simp add: fds_of_def)
    have acc: "accounted w0 (?buf a) w2" if "p = None \<and> a = NULL \<or> p = Some a" for a
      using Suc.prems(2) q' p' that maps [of a] fds [of a]
      by (auto simp: accounted_def same_held_def split: option.splits)
    show ?thesis
    proof (cases p)
      case None
      then show ?thesis using Suc.prems(1) acc [of NULL] by (simp add: q Some lo p)
    next
      case (Some a)
      have "map_from k n (i + 1) (?buf a) w2 = (ok, c', w')"
        using Suc.prems(1) \<open>q = Some lo\<close> Some by (simp add: q lo p)
      then show ?thesis
        by (rule Suc.IH) (use acc [of a] Some Suc.prems(3,4,5) in \<open>simp_all add: nth_list_update\<close>)
    qed
  qed
qed simp

lemma map_buffers_accounted:
  assumes "map_buffers k c w = (ok, c', w')" "accounted w0 c w" "ic_buffer_count c = 0"
    and "ic_buffers c = replicate IR_CAPTURE_BUFFERS (NULL, 0)"
  shows "accounted w0 c' w'"
proof -
  obtain r w1 where r: "ir_ioctl_retry k (ik_reqbufs k (ic_video_fd c) IR_CAPTURE_BUFFERS) w = (r, w1)" by fastforce
  have w1: "accounted w0 c w1" by (rule accounted_held [OF assms(2) ioctl_step(1) [OF r]])
  show ?thesis
  proof (cases r)
    case None
    then show ?thesis using assms(1) w1 by (simp add: map_buffers_def r)
  next
    case (Some cnt)
    show ?thesis
    proof (cases "cnt < 2")
      case True
      then show ?thesis using assms(1) w1 Some by (simp add: map_buffers_def r)
    next
      case False
      let ?c = "c\<lparr>ic_buffer_count := (if cnt > IR_CAPTURE_BUFFERS then IR_CAPTURE_BUFFERS else cnt)\<rparr>"
      have "map_from k (ic_buffer_count ?c) 0 ?c w1 = (ok, c', w')"
        using assms(1) Some False by (simp add: map_buffers_def r Let_def)
      moreover have "accounted w0 ?c w1"
        using w1 assms(3,4) by (auto simp: accounted_def fds_of_def maps_of_def)
      ultimately show ?thesis
        by (rule map_from_accounted) (simp_all add: assms(4))
    qed
  qed
qed

lemma open_steps_accounted:
  assumes "open_steps k new_capture w = (ok, c', w')" "iw_captures w = iw_captures w0 + 1"
    "iw_fds w = iw_fds w0" "iw_maps w = iw_maps w0"
  shows "accounted w0 c' w'"
proof -
  have new: "maps_of new_capture = {}" "fds_of new_capture = {}"
    by (auto simp: maps_of_def fds_of_def new_capture_def)
  obtain d w1 where d: "discover_graph k w = (d, w1)" by fastforce
  note d' = discover_taken [OF d]
  show ?thesis
  proof (cases d)
    case None
    then show ?thesis using assms d' new by (auto simp: open_steps_def d accounted_def taken_def)
  next
    case (Some t)
    obtain media csi video where t: "t = (media, csi, video)" by (rule prod_cases3)
    obtain cf w2 where o1: "open_file k csi w1 = (cf, w2)" by fastforce
    let ?c = "new_capture\<lparr>ic_media_fd := media, ic_video_path := video, ic_csi_fd := cf\<rparr>"
    note t1 = open_file_taken [OF o1]
    have nb: "ic_buffers ?c = replicate IR_CAPTURE_BUFFERS (NULL, 0)" "ic_buffer_count ?c = 0"
      by (simp_all add: new_capture_def)
    have a2: "accounted w0 ?c w2"
      using d' t1 assms(2-4) by (auto simp: Some t accounted_def taken_def fds_of_def maps_of_def split: if_splits)
    show ?thesis
    proof (cases "cf < 0")
      case True
      then show ?thesis using assms(1) a2 by (simp add: open_steps_def d Some t o1 Let_def)
    next
      case cf: False
      obtain g w3 where g: "configure_csi_format k cf w2 = (g, w3)" by fastforce
      have a3: "accounted w0 ?c w3"
        by (rule accounted_held [OF a2 configure_pads_held [OF g [unfolded configure_csi_format_def]]])
      show ?thesis
      proof (cases g)
        case False
        then show ?thesis using assms(1) a3 cf by (simp add: open_steps_def d Some t o1 g Let_def)
      next
        case g': True
        obtain vf w4 where o2: "open_file k video w3 = (vf, w4)" by fastforce
        let ?e = "?c\<lparr>ic_video_fd := vf\<rparr>"
        have a4: "accounted w0 ?e w4"
          using a3 open_file_taken [OF o2]
          by (auto simp: accounted_def taken_def fds_of_def maps_of_def new_capture_def split: if_splits)
        show ?thesis
        proof (cases "vf < 0")
          case True
          then show ?thesis using assms(1) a4 cf g' by (simp add: open_steps_def d Some t o1 g o2 Let_def)
        next
          case vf: False
          obtain n e5 w5 where n: "negotiate_format k ?e w4 = (n, e5, w5)" by (rule prod_cases3)
          note n' = negotiate_step [OF n]
          have a5: "accounted w0 e5 w5"
            using accounted_held [OF a4 n'(1)] n'(2,3) by (simp add: accounted_def)
          show ?thesis
          proof (cases n)
            case False
            then show ?thesis using assms(1) a5 cf g' vf by (simp add: open_steps_def d Some t o1 g o2 n Let_def)
          next
            case True
            then have "map_buffers k e5 w5 = (ok, c', w')"
              using assms(1) cf g' vf by (simp add: open_steps_def d Some t o1 g o2 n Let_def)
            then show ?thesis
              by (rule map_buffers_accounted) (use a5 n' nb in simp_all)
          qed
        qed
      qed
    qed
  qed
qed

lemma open_accounted:
  assumes "ir_capture_open k w0 = (r, w)"
  shows "case r of None \<Rightarrow> released w0 w | Some c \<Rightarrow> accounted w0 c w"
proof -
  obtain ok w1 where o': "ir_call (ik_calloc k) w0 = (ok, w1)" by fastforce
  note h = call_step(1) [OF o']
  obtain s c w2 where s: "open_steps k new_capture (w1\<lparr>iw_captures := iw_captures w1 + 1\<rparr>) = (s, c, w2)"
    by (rule prod_cases3)
  have acc: "accounted w0 c w2"
    by (rule open_steps_accounted [OF s]) (use h in \<open>simp_all add: same_held_def\<close>)
  have h': "released w0 w1" using h by (simp add: released_def same_held_def)
  show ?thesis
  proof (cases ok)
    case False
    then show ?thesis using assms h' by (auto simp: ir_capture_open_def o')
  next
    case True
    then have "ir_capture_open k w0 = (if s then (Some c, w2) else (None, ir_capture_close k c w2))"
      unfolding ir_capture_open_def o' using s by (simp add: case_bool_if)
    then show ?thesis using assms acc close_releases [OF acc, of k] by (auto split: if_splits)
  qed
qed

text \<open>What a caller does with a capture it opened.\<close>

inductive ir_session ::
  "'s ir_kernel \<Rightarrow> 's ir_world \<Rightarrow> ir_capture \<Rightarrow> 's ir_world \<Rightarrow> bool" for k w0 where
  opened: "ir_capture_open k w0 = (Some c, w) \<Longrightarrow> ir_session k w0 c w"
| named: "ir_session k w0 c w \<Longrightarrow> ir_session k w0 (ir_capture_set_stream_attempt_id i c) w"
| discarding: "ir_session k w0 c w \<Longrightarrow> ir_session k w0 (ir_capture_set_discard_error_buffers b c) w"
| started: "ir_session k w0 c w \<Longrightarrow> ir_capture_start k c w = (r, c', w') \<Longrightarrow> ir_session k w0 c' w'"
| continued: "ir_session k w0 c w \<Longrightarrow> ir_capture_next k t c yuyv w = Some (r, c', yuyv', w') \<Longrightarrow> ir_session k w0 c' w'"
| stopped: "ir_session k w0 c w \<Longrightarrow> ir_capture_stop k c w = (r, c', w') \<Longrightarrow> ir_session k w0 c' w'"

lemma stop_spec:
  assumes "ir_capture_stop k c w = (r, c', w')"
  shows "same_held w w'" "same_shape c c'" "r = 0 \<Longrightarrow> \<not> ic_streaming c'"
proof -
  obtain now w1 where n: "ir_call (ik_now k) w = (now, w1)" by fastforce
  obtain ok w2 where s: "stream_off k (ic_video_fd c) w1 = (ok, w2)" by fastforce
  have "same_held w w2" by (rule held_trans [OF call_step(1) [OF n] stream_off_held [OF s]])
  then show "same_held w w'" "same_shape c c'" "r = 0 \<Longrightarrow> \<not> ic_streaming c'"
    using assms by (auto simp: ir_capture_stop_def n s Let_def same_shape_def split: if_splits bool.splits)
qed

lemma session_accounted: "ir_session k w0 c w \<Longrightarrow> accounted w0 c w"
proof (induction rule: ir_session.induct)
  case (opened c w)
  then show ?case using open_accounted [of k w0 "Some c" w] by simp
next
  case (named c w i)
  then show ?case by (simp add: accounted_def fds_of_def maps_of_def ir_capture_set_stream_attempt_id_def)
next
  case (discarding c w b)
  then show ?case by (simp add: accounted_def fds_of_def maps_of_def ir_capture_set_discard_error_buffers_def)
next
  case (started c w r c' w')
  then show ?case using start_spec(1,2) accounted_held accounted_shape by blast
next
  case (continued c w t yuyv r c' yuyv' w')
  have "same_held w w'" "same_shape c c'"
    using next_outcome [of k t c yuyv w] continued.hyps(2)
    by (auto simp: outcome_def frame_taken_def no_frame_def queue_after_def split: if_splits)
  then show ?case using continued.IH accounted_held accounted_shape by blast
next
  case (stopped c w r c' w')
  then show ?case using stop_spec(1,2) accounted_held accounted_shape by blast
qed

section \<open>Example\<close>

text \<open>
  A camera with frames of one row of four pixels.  Its state is the number of frames it has
  given; each is full of header bytes, and one second and one sequence number after the last.
\<close>

definition ex_frame :: "nat \<Rightarrow> v4l2_buffer" where
  "ex_frame n = \<lparr>vb_index = 0, vb_length = 1, vb_flags = V4L2_BUF_FLAG_TIMESTAMP_MONOTONIC,
     vb_sequence = of_nat n, vb_timestamp = (int n + 1, 0), vb_bytesused = 9, vb_data_offset = 0\<rparr>"

definition ex_camera :: "nat ir_kernel" where
  "ex_camera = \<lparr>ik_interrupted = Pair False, ik_now = Pair 1, ik_calloc = Pair True, ik_glob = (\<lambda>_. Pair None),
     ik_stat = (\<lambda>_. Pair None), ik_open = (\<lambda>_. Pair (-1)), ik_enum_entities = (\<lambda>_ _. Pair Enum_Failed),
     ik_enum_links = (\<lambda>_ _. Pair None), ik_subdev_s_fmt = (\<lambda>_ _ _. Pair None), ik_s_fmt = (\<lambda>_ _. Pair None),
     ik_g_fmt = (\<lambda>_ _. Pair None), ik_reqbufs = (\<lambda>_ _. Pair None), ik_querybuf = (\<lambda>_ _. Pair None),
     ik_mmap = (\<lambda>_ _ _. Pair None), ik_qbuf = (\<lambda>_ _. Pair True),
     ik_dqbuf = (\<lambda>_ n. (Dequeued (ex_frame n), n + 1)), ik_streamon = (\<lambda>_. Pair True),
     ik_streamoff = (\<lambda>_. Pair True), ik_poll = (\<lambda>_ _. Pair (Poll_Events 1)), ik_memory = (\<lambda>_. Pair (\<lambda>_. 0x40))\<rparr>"

definition ex_capture :: ir_capture where
  "ex_capture = new_capture\<lparr>ic_video_fd := 3, ic_buffer_count := 1,
     ic_buffers := [(4096, 9)],
     ic_format := (ic_format new_capture)\<lparr>px_width := 4, px_height := 1, px_bytesperline := 9\<rparr>\<rparr>"

definition ex_world :: "nat ir_world" where
  "ex_world = \<lparr>iw_kernel = 0, iw_signals = 0, iw_fds = {3}, iw_maps = {4096}, iw_captures = 1, iw_queued = {}\<rparr>"

lemma ex_camera_fields [simp]:
  "ik_interrupted ex_camera = Pair False" "ik_now ex_camera = Pair 1" "ik_calloc ex_camera = Pair True"
  "ik_glob ex_camera = (\<lambda>_. Pair None)" "ik_qbuf ex_camera = (\<lambda>_ _. Pair True)"
  "ik_dqbuf ex_camera = (\<lambda>_ n. (Dequeued (ex_frame n), n + 1))" "ik_streamon ex_camera = (\<lambda>_. Pair True)"
  "ik_streamoff ex_camera = (\<lambda>_. Pair True)" "ik_poll ex_camera = (\<lambda>_ _. Pair (Poll_Events 1))"
  "ik_memory ex_camera = (\<lambda>_. Pair (\<lambda>_. 0x40))"
  by (simp_all add: ex_camera_def)

lemma ex_retry: "ir_ioctl_retry ex_camera f w = ir_call f w"
  by (subst ir_ioctl_retry.simps) (simp add: ir_interrupted_def ir_call_def)

lemma ex_decode:
  "\<exists>y. ir_decode_raw10_to_yuyv (map (\<lambda>_. 0x40) [0..<9]) 9 4 1 9 0 (replicate 8 0) = Some (True, y)"
proof -
  have "raw10_accepted 9 4 1 9 0 (length (replicate 8 (0 :: u8)))"
    by (simp add: raw10_accepted_def raw10_required_def raw10_payload_def IR_CAPTURE_HEADER_BYTES_def)
  then show ?thesis
    using decode_frame [of 9 4 1 9 0 "replicate 8 0" "map (\<lambda>_. 0x40) [0..<9]"]
    by (simp add: header_ok_def)
qed

text \<open>The camera started, and its capture.\<close>

definition ex_started :: ir_capture where
  "ex_started = ex_capture\<lparr>ic_streaming := True, ic_stats := no_stats\<lparr>st_stream_start_ns := 1\<rparr>\<rparr>"

definition ex_streaming :: "nat ir_world" where
  "ex_streaming = ex_world\<lparr>iw_queued := {0}\<rparr>"

lemma ex_start: "ir_capture_start ex_camera ex_capture ex_world = (0, ex_started, ex_streaming)"
  by (simp add: ir_capture_start_def ex_retry queue_buffer_def ir_call_def update_stats_def empty_buffer_def
      ex_capture_def ex_world_def ex_started_def ex_streaming_def new_capture_def no_stats_def)

lemma ex_frame_good:
  "metadata_reasons (note_dequeued (ex_frame 0) ex_started) (ex_frame 0) = IR_CAPTURE_REJECTION_NONE"
  "plane_metadata_reasons (note_dequeued (ex_frame 0) ex_started) (ex_frame 0) = IR_CAPTURE_REJECTION_NONE"
  "validate_timestamp (note_dequeued (ex_frame 0) ex_started) (vb_timestamp (ex_frame 0)) = IR_CAPTURE_REJECTION_NONE"
  "\<not> ic_have_sequence (note_dequeued (ex_frame 0) ex_started)"
  by (simp_all add: metadata_reasons_def plane_metadata_reasons_def validate_timestamp_def reason_if_def
      note_dequeued_def ex_frame_def ex_started_def ex_capture_def new_capture_def Let_def capacity_available_def
      capacity_def index_valid_def plane_count_valid_def IR_CAPTURE_REJECTION_NONE_def
      V4L2_BUF_FLAG_TIMESTAMP_MONOTONIC_def V4L2_BUF_FLAG_TIMESTAMP_MASK_def V4L2_BUF_FLAG_ERROR_def)

lemma ex_next:
  "\<exists>c y w. ir_capture_next ex_camera t ex_started (replicate 8 0) ex_streaming = Some (1, c, y, w)"
proof -
  obtain y where y: "ir_decode_raw10_to_yuyv (map (\<lambda>_. 0x40) [0..<9]) 9 4 1 9 0 (replicate 8 0) = Some (True, y)"
    using ex_decode by blast
  have "\<exists>c w'. decode_and_requeue ex_camera (ex_frame 0) (note_dequeued (ex_frame 0) ex_started) (replicate 8 0) w =
      Some (1, c, y, w')" for w
    using y
    by (simp add: decode_and_requeue_def ir_call_def ex_retry queue_buffer_def note_dequeued_def Let_def
        ex_started_def ex_capture_def new_capture_def ex_frame_def)
  then have "\<exists>c w'. handle_dequeued ex_camera (ex_frame 0) ex_started (replicate 8 0) w = Some (1, c, y, w')" for w
    using ex_frame_good by (simp add: handle_dequeued_def Let_def sequence_bad_def count_gap_def)
  moreover have "ir_capture_next ex_camera t ex_started (replicate 8 0) ex_streaming =
      handle_dequeued ex_camera (ex_frame 0) ex_started (replicate 8 0) (ex_streaming\<lparr>iw_queued := {}, iw_kernel := 1\<rparr>)"
    by (simp add: ir_capture_next_def ex_retry ir_call_def POLLERR_def POLLNVAL_def ex_started_def
        ex_streaming_def ex_world_def ex_frame_def)
  ultimately show ?thesis by (metis (no_types))
qed

section \<open>Properties\<close>

text \<open>
  C15: However often the next frame is asked for, every call returns one of its four results,
  and the frames that are delivered are in order: each is later than all before it, and its
  sequence number is ahead of the previous one's by less than half the range of the counter.
\<close>

theorem ir_frames_in_order:
  "\<exists>rs c' yuyv' w'. next_calls k t n c yuyv w = Some (rs, c', yuyv', w') \<and>
    fst ` set rs \<subseteq> {-1, 0, 1, 2} \<and>
    sorted_wrt (\<lambda>a b. later (ic_last_timestamp a) (ic_last_timestamp b)) (frames_of rs) \<and>
    successively (\<lambda>a b. 0 < ic_last_sequence b - ic_last_sequence a \<and>
      ic_last_sequence b - ic_last_sequence a \<le> 0x7fffffff) (frames_of rs)"
  using calls_ordered [of k t n c yuyv w]
  by (fastforce simp: Let_def after_frame_def [abs_def] ahead_def [abs_def])

text \<open>
  A delivered frame is the decoded image of the memory of one of the capture's buffers,
  all rows of which had the right header, and no byte outside that memory was read.
\<close>

theorem ir_frame_decoded:
  assumes "ir_capture_next k t c yuyv w = Some (1, c', yuyv', w')"
  shows "\<exists>i buf off. i < ic_buffer_count c \<and> length buf = snd (ic_buffers c ! i) \<and>
    (\<forall>row < unat (px_height (ic_format c)). header_ok buf (unat (px_bytesperline (ic_format c))) off row) \<and>
    yuyv' = raw10_reference buf (unat (px_width (ic_format c))) (unat (px_bytesperline (ic_format c))) off
      (unat (px_height (ic_format c))) yuyv"
  using next_outcome [of k t c yuyv w] assms by (simp add: outcome_def decoded_from_def)

theorem ir_frame_decoded_witness:
  "\<exists>yuyv' buf off. length buf = 9 \<and> yuyv' = raw10_reference buf 4 9 off 1 (replicate 8 0)"
proof -
  obtain c y w where n: "ir_capture_next ex_camera 0 ex_started (replicate 8 0) ex_streaming = Some (1, c, y, w)"
    using ex_next by blast
  show ?thesis using ir_frame_decoded [OF n] by (auto simp: ex_started_def ex_capture_def)
qed

text \<open>
  Error buffers are discarded at most five times in a row: counting those before, the
  calls up to the next frame, or forever if there is none, never report more.
\<close>

theorem ir_discards_bounded:
  "\<exists>rs rest. next_calls k t n c yuyv w = Some (rs, rest) \<and>
    count_list (takeWhile (\<lambda>r. r \<noteq> 1) (map fst rs)) 2 \<le> 5 - st_consecutive_discards (ic_stats c)"
  by (rule calls_discards)

text \<open>
  C37: A stream that was started never loses a buffer without saying so: as long as no call
  has failed, the driver owns all of the capture's buffers.
\<close>

theorem ir_buffers_stay_queued:
  assumes "ir_capture_start k c w = (0, c1, w1)"
    and "next_calls k t n c1 yuyv w1 = Some (rs, c2, yuyv', w2)" "-1 \<notin> set (map fst rs)"
  shows "of_nat ` {..<ic_buffer_count c} \<subseteq> iw_queued w2"
proof -
  have "of_nat ` {..<ic_buffer_count c} \<subseteq> iw_queued w1" using start_spec(4) [OF assms(1)] by simp
  moreover have "iw_queued w1 \<subseteq> iw_queued w2"
    using calls_kept [of k t n c1 yuyv w1] assms(2,3) by (auto simp: image_iff)
  ultimately show ?thesis by (rule subset_trans)
qed

theorem ir_buffers_stay_queued_witness:
  "\<exists>c y w. next_calls ex_camera 0 1 ex_started (replicate 8 0) ex_streaming = Some ([(1, c)], c, y, w) \<and>
     0 \<in> iw_queued w"
proof -
  obtain c y w where n: "ir_capture_next ex_camera 0 ex_started (replicate 8 0) ex_streaming = Some (1, c, y, w)"
    using ex_next by blast
  then have "next_calls ex_camera 0 1 ex_started (replicate 8 0) ex_streaming = Some ([(1, c)], c, y, w)" by simp
  moreover from ir_buffers_stay_queued [OF ex_start this] have "0 \<in> iw_queued w" by (auto simp: ex_capture_def)
  ultimately show ?thesis by blast
qed

text \<open>
  Whatever a caller does with a capture it has opened, closing it releases the
  descriptors and the mappings that were taken for it, and the capture; opening that fails
  leaves nothing either.
\<close>

theorem ir_session_releases:
  "(\<forall>w. ir_capture_open k w0 = (None, w) \<longrightarrow> released w0 w) \<and>
   (\<forall>c w. ir_session k w0 c w \<longrightarrow> released w0 (ir_capture_close k c w))"
  using open_accounted [of k w0 None] session_accounted close_releases by fastforce

theorem ir_session_releases_witness:
  "\<exists>w. ir_capture_open ex_camera ex_world = (None, w) \<and> iw_fds w \<subseteq> {3} \<and> iw_captures w = 1"
proof -
  have "\<exists>w. ir_capture_open ex_camera ex_world = (None, w)"
    by (simp add: ir_capture_open_def ir_call_def open_steps_def discover_graph_def)
  then obtain w where w: "ir_capture_open ex_camera ex_world = (None, w)" by blast
  then have "released ex_world w" using ir_session_releases [of ex_camera ex_world] by blast
  with w show ?thesis by (auto simp: released_def ex_world_def)
qed

text \<open>
  Sequence gaps are counted twice when the buffer after the gap is rejected for its plane
  metadata: the gap is counted, but the sequence number it was measured from stays, so the
  next buffer counts it again.  After a gap of \<open>d - 1\<close> numbers and one rejected buffer the
  counter has grown by \<open>2 d - 1\<close>.
\<close>

theorem ir_gap_counted_twice:
  assumes "ic_have_sequence c" "metadata_reasons (note_dequeued b c) b = IR_CAPTURE_REJECTION_NONE"
    and "validate_timestamp (note_dequeued b c) (vb_timestamp b) = IR_CAPTURE_REJECTION_NONE"
    and "plane_metadata_reasons (note_dequeued b c) b \<noteq> IR_CAPTURE_REJECTION_NONE"
    and "1 < d" "d < 2 ^ 31" "vb_sequence b = ic_last_sequence c + of_nat d"
    and "vb_sequence b' = vb_sequence b + 1"
  shows "\<exists>r c' w'. handle_dequeued k b c yuyv w = Some (r, c', yuyv, w') \<and>
    gaps (count_gap b' c') = gaps c + (2 * d - 1)"
proof -
  let ?c = "note_dequeued b c"
  have q: "ic_have_sequence ?c" "ic_last_sequence ?c = ic_last_sequence c" "gaps ?c = gaps c"
    using note_dequeued_quiet [of c b] assms(1) by (simp_all add: quiet_def same_frame_def)
  have u: "unat (of_nat n :: u32) = n" if "n \<le> 2 ^ 31" for n
    using that by (simp add: unsigned_of_nat take_bit_nat_eq_self)
  have d: "sequence_delta ?c b = of_nat d" using assms(7) q by (simp add: sequence_delta_def)
  have d1: "1 < (of_nat d :: u32)" "(of_nat d :: u32) \<le> 0x7fffffff" "of_nat d \<noteq> (0 :: u32)"
    using u [of d] assms(5,6) by (simp_all add: word_less_nat_alt word_le_nat_alt unat_eq_0 [symmetric])
  have seq: "\<not> sequence_bad ?c b" using d d1 by (simp add: sequence_bad_def not_less)
  have g: "gaps (count_gap b ?c) = gaps c + (d - 1)" using q d d1 u [of d] assms(6) by (simp add: count_gap_def)
  obtain r c' w' where r: "reject k (plane_metadata_reasons ?c b)
      (\<lambda>s. s\<lparr>st_metadata_errors := st_metadata_errors s + 1, st_last_error := IR_CAPTURE_ERROR_METADATA\<rparr>)
      b (count_gap b ?c) w = (r, c', w')" by (rule prod_cases3)
  have s: "no_frame (count_gap b ?c) r c'" "gaps c' = gaps (count_gap b ?c)"
    using reject_spec(1,3) [OF r] by (simp_all add: counter_only_def)
  have c': "ic_have_sequence c'" "ic_last_sequence c' = ic_last_sequence c"
    using s(1) q by (simp_all add: no_frame_def same_frame_def count_gap_def split: if_splits)
  have "sequence_delta c' b' = of_nat (d + 1)" using assms(7,8) c'(2) by (simp add: sequence_delta_def)
  moreover have "1 < (of_nat (d + 1) :: u32)" using u [of "d + 1"] assms(5,6) by (simp add: word_less_nat_alt del: of_nat_add)
  ultimately have "gaps (count_gap b' c') = gaps c' + d"
    using c' u [of "d + 1"] assms(6) by (simp add: count_gap_def del: of_nat_add)
  then have "gaps (count_gap b' c') = gaps c + (2 * d - 1)" using g s(2) assms(5) by simp
  moreover have "handle_dequeued k b c yuyv w = Some (r, c', yuyv, w')"
    unfolding handle_dequeued_def Let_def
    using assms(2,3,4) seq r by (simp only: simp_thms if_False if_True prod.case)
  ultimately show ?thesis by blast
qed

theorem ir_gap_counted_twice_witness:
  "\<exists>r c' w'. handle_dequeued ex_camera ((ex_frame 2)\<lparr>vb_bytesused := 10\<rparr>)
       (ex_started\<lparr>ic_have_sequence := True\<rparr>) [] ex_streaming = Some (r, c', [], w') \<and>
     gaps (count_gap (ex_frame 3) c') = 3"
proof -
  let ?c = "ex_started\<lparr>ic_have_sequence := True\<rparr>" and ?b = "(ex_frame 2)\<lparr>vb_bytesused := 10\<rparr>"
  have "metadata_reasons (note_dequeued ?b ?c) ?b = IR_CAPTURE_REJECTION_NONE"
    "validate_timestamp (note_dequeued ?b ?c) (vb_timestamp ?b) = IR_CAPTURE_REJECTION_NONE"
    "plane_metadata_reasons (note_dequeued ?b ?c) ?b \<noteq> IR_CAPTURE_REJECTION_NONE"
    by (simp_all add: metadata_reasons_def plane_metadata_reasons_def validate_timestamp_def reason_if_def
      note_dequeued_def ex_frame_def ex_started_def ex_capture_def new_capture_def Let_def capacity_available_def
      capacity_def index_valid_def plane_count_valid_def IR_CAPTURE_REJECTION_NONE_def
      V4L2_BUF_FLAG_TIMESTAMP_MONOTONIC_def V4L2_BUF_FLAG_TIMESTAMP_MASK_def V4L2_BUF_FLAG_ERROR_def
      IR_CAPTURE_REJECTION_INVALID_PLANE_METADATA_def)
  from ir_gap_counted_twice [OF _ this, of 2 "ex_frame 3" ex_camera "[]" ex_streaming] show ?thesis
    by (simp add: ex_frame_def ex_started_def ex_capture_def new_capture_def no_stats_def)
qed

end
