(* ===== verification/IrBridge.thy ===== *)
theory IrBridge
  imports IrSession
begin

text \<open>
  The infrared bridge \<^verbatim>\<open>cbridge/ir-camera-bridge.c\<close>: it copies frames from the camera to a
  loopback device, and opens the camera again when the stream fails.  \<open>ir_io\<close> are the calls it
  makes beside those of the capture.  Its loop runs until a signal stops it; \<open>ir_bridge_rounds\<close>
  is the state after at most \<open>n\<close> passes.
\<close>

section \<open>Data\<close>

definition IR_MAX_RECOVERIES :: nat where "IR_MAX_RECOVERIES = 5"
definition IR_OUTPUT_DEVICE :: string where "IR_OUTPUT_DEVICE = ''/dev/video62''"
definition IR_PIX_FMT_YUYV :: u32 where "IR_PIX_FMT_YUYV = 0x56595559"

record output_format =
  of_pixelformat :: u32
  of_width :: u32
  of_height :: u32
  of_bytesperline :: u32
  of_sizeimage :: u32

text \<open>\<open>io_write\<close> is \<^verbatim>\<open>write\<close> but for interruptions: the bytes written, or a failure if not positive.\<close>

record 's ir_io =
  io_stop_requested :: "'s \<Rightarrow> bool \<times> 's"
  io_open_output :: "string \<Rightarrow> 's \<Rightarrow> int \<times> 's"
  io_set_format :: "int \<Rightarrow> output_format \<Rightarrow> 's \<Rightarrow> output_format option \<times> 's"
  io_write :: "int \<Rightarrow> u8 list \<Rightarrow> 's \<Rightarrow> int \<times> 's"
  io_sleep :: "'s \<Rightarrow> unit \<times> 's"

record bridge_state =
  br_capture :: "ir_capture option"
  br_frame :: "u8 list"
  br_recoveries :: nat
  br_attempt_id :: u64
  br_next_attempt_id :: u64
  br_stop :: bool
  br_failed :: bool

section \<open>Starting\<close>

definition set_output_format :: "'s ir_kernel \<Rightarrow> 's ir_io \<Rightarrow> int \<Rightarrow> 's ir_world \<Rightarrow> bool \<times> 's ir_world" where
  "set_output_format k io fd w =
     (let req = \<lparr>of_pixelformat = IR_PIX_FMT_YUYV, of_width = of_nat IR_CAPTURE_WIDTH,
                 of_height = of_nat IR_CAPTURE_HEIGHT, of_bytesperline = of_nat (IR_CAPTURE_WIDTH * 2),
                 of_sizeimage = of_nat IR_CAPTURE_OUTPUT_BYTES\<rparr> in
      case ir_call (io_set_format io fd req) w of
        (None, w) \<Rightarrow> (False, w)
      | (Some f, w) \<Rightarrow>
          (\<not> (of_pixelformat f \<noteq> IR_PIX_FMT_YUYV \<or> of_width f \<noteq> of_nat IR_CAPTURE_WIDTH \<or>
              of_height f \<noteq> of_nat IR_CAPTURE_HEIGHT), w))"

definition ir_start_capture :: "'s ir_kernel \<Rightarrow> u64 \<Rightarrow> 's ir_world \<Rightarrow> ir_capture option \<times> 's ir_world" where
  "ir_start_capture k attempt_id w =
     (case ir_capture_open k w of
        (None, w) \<Rightarrow> (None, w)
      | (Some c, w) \<Rightarrow>
          (case ir_capture_start k (ir_capture_set_stream_attempt_id attempt_id c) w of (r, c, w) \<Rightarrow>
             if r \<noteq> 0 then (None, ir_capture_close k c w) else (Some c, w)))"

section \<open>A pass of the loop\<close>

text \<open>The loop that writes a frame; the result says whether all of it was written.\<close>

function write_frame :: "'s ir_kernel \<Rightarrow> 's ir_io \<Rightarrow> int \<Rightarrow> u8 list \<Rightarrow> 's ir_world \<Rightarrow> bool \<times> 's ir_world" where
  "write_frame k io fd rest w =
     (if rest = [] then (True, w)
      else case ir_ioctl_retry k (io_write io fd rest) w of (n, w) \<Rightarrow>
        if n \<le> 0 then (False, w) else write_frame k io fd (drop (nat n) rest) w)"
  by pat_completeness auto
termination
  by (relation "measure (\<lambda>(k, io, fd, rest, w). length rest)") auto

declare write_frame.simps [simp del]

text \<open>After a failure: give up, or wait and try again.  The flag says whether the loop goes on.\<close>

definition recover :: "'s ir_io \<Rightarrow> bridge_state \<Rightarrow> 's ir_world \<Rightarrow> bool \<times> bridge_state \<times> 's ir_world" where
  "recover io st w =
     (if br_recoveries st \<ge> IR_MAX_RECOVERIES then (False, st\<lparr>br_failed := True\<rparr>, w)
      else (True, st\<lparr>br_recoveries := br_recoveries st + 1\<rparr>, snd (ir_call (io_sleep io) w)))"

text \<open>A pass with a capture; \<open>None\<close> is undefined behaviour in decoding.\<close>

definition capture_pass ::
  "'s ir_kernel \<Rightarrow> 's ir_io \<Rightarrow> int \<Rightarrow> ir_capture \<Rightarrow> bridge_state \<Rightarrow> 's ir_world \<Rightarrow>
     (bool \<times> bridge_state \<times> 's ir_world) option" where
  "capture_pass k io out c st w =
     (case ir_capture_next k 1000 c (br_frame st) w of
        None \<Rightarrow> None
      | Some (r, c, frame, w) \<Rightarrow>
          let st = st\<lparr>br_capture := Some c, br_frame := frame\<rparr> in
          Some
            (if r = 0 \<or> r = IR_CAPTURE_RESULT_DISCARDED then (True, st, w)
             else if r < 0 then
               case ir_capture_stop k c w of (_, c, w) \<Rightarrow>
                 recover io (st\<lparr>br_capture := None\<rparr>) (ir_capture_close k c w)
             else
               let st = st\<lparr>br_recoveries := 0\<rparr> in
               case write_frame k io out frame w of (ok, w) \<Rightarrow>
                 (True, if ok then st else st\<lparr>br_stop := True\<rparr>, w)))"

definition bridge_pass ::
  "'s ir_kernel \<Rightarrow> 's ir_io \<Rightarrow> int \<Rightarrow> bridge_state \<Rightarrow> 's ir_world \<Rightarrow>
     (bool \<times> bridge_state \<times> 's ir_world) option" where
  "bridge_pass k io out st w =
     (case ir_call (io_stop_requested io) w of (stop, w) \<Rightarrow>
        if stop \<or> br_stop st then Some (False, st, w)
        else case br_capture st of
          Some c \<Rightarrow> capture_pass k io out c st w
        | None \<Rightarrow>
            let st = st\<lparr>br_attempt_id := br_next_attempt_id st, br_next_attempt_id := br_next_attempt_id st + 1\<rparr> in
            (case ir_start_capture k (br_attempt_id st) w of
               (None, w) \<Rightarrow> Some (recover io st w)
             | (Some c, w) \<Rightarrow> capture_pass k io out c (st\<lparr>br_capture := Some c\<rparr>) w))"

primrec ir_bridge_rounds ::
  "'s ir_kernel \<Rightarrow> 's ir_io \<Rightarrow> int \<Rightarrow> nat \<Rightarrow> bridge_state \<Rightarrow> 's ir_world \<Rightarrow>
     (bool \<times> bridge_state \<times> 's ir_world) option" where
  "ir_bridge_rounds k io out 0 st w = Some (True, st, w)"
| "ir_bridge_rounds k io out (Suc n) st w =
     (case bridge_pass k io out st w of
        None \<Rightarrow> None
      | Some (go, st, w) \<Rightarrow> if go then ir_bridge_rounds k io out n st w else Some (False, st, w))"

section \<open>The program\<close>

definition initial_bridge :: bridge_state where
  "initial_bridge = \<lparr>br_capture = None, br_frame = replicate IR_CAPTURE_OUTPUT_BYTES 0, br_recoveries = 0,
     br_attempt_id = 0, br_next_attempt_id = 1, br_stop = False, br_failed = False\<rparr>"

text \<open>What is done after the loop; the result is the exit status, \<open>True\<close> for success.\<close>

definition bridge_shutdown ::
  "'s ir_kernel \<Rightarrow> int \<Rightarrow> bridge_state \<Rightarrow> 's ir_world \<Rightarrow> bool \<times> 's ir_world" where
  "bridge_shutdown k out st w =
     (let w = close_file out w in
      case br_capture st of
        None \<Rightarrow> (\<not> br_failed st, w)
      | Some c \<Rightarrow>
          (case ir_capture_stop k c w of (r, c, w) \<Rightarrow>
             (\<not> br_failed st \<and> r = 0, ir_capture_close k c w)))"

text \<open>\<^verbatim>\<open>main\<close>, if its loop ends within \<open>n\<close> passes; \<open>env\<close> is \<^verbatim>\<open>SP7_IR_OUTPUT\<close>.\<close>

definition ir_bridge_main ::
  "'s ir_kernel \<Rightarrow> 's ir_io \<Rightarrow> string option \<Rightarrow> nat \<Rightarrow> 's ir_world \<Rightarrow> (bool \<times> 's ir_world) option" where
  "ir_bridge_main k io env n w =
     (let path = (case env of None \<Rightarrow> IR_OUTPUT_DEVICE | Some p \<Rightarrow> if p = [] then IR_OUTPUT_DEVICE else p);
          (out, w) = ir_call (io_open_output io path) w in
      if out < 0 then Some (False, w)
      else
        let w = w\<lparr>iw_fds := insert out (iw_fds w)\<rparr> in
        case set_output_format k io out w of
          (False, w) \<Rightarrow> Some (False, close_file out w)
        | (True, w) \<Rightarrow>
            (case ir_bridge_rounds k io out n initial_bridge w of
               Some (False, st, w) \<Rightarrow> Some (bridge_shutdown k out st w)
             | _ \<Rightarrow> None))"

section \<open>What the loop keeps\<close>

lemma released_refl [simp]: "released w w"
  by (simp add: released_def)

lemma released_held: "released w0 w \<Longrightarrow> same_held w w' \<Longrightarrow> released w0 w'"
  by (simp add: released_def same_held_def)

text \<open>What the bridge holds: the capture it has, if it has one.\<close>

definition bridge_holds :: "'s ir_world \<Rightarrow> ir_capture option \<Rightarrow> 's ir_world \<Rightarrow> bool" where
  "bridge_holds w0 co w = (case co of None \<Rightarrow> released w0 w | Some c \<Rightarrow> accounted w0 c w)"

definition bridge_inv :: "'s ir_world \<Rightarrow> bridge_state \<Rightarrow> 's ir_world \<Rightarrow> bool" where
  "bridge_inv w0 st w \<longleftrightarrow> bridge_holds w0 (br_capture st) w \<and> br_recoveries st \<le> IR_MAX_RECOVERIES"

lemma bridge_holds_held: "bridge_holds w0 co w \<Longrightarrow> same_held w w' \<Longrightarrow> bridge_holds w0 co w'"
  by (auto simp: bridge_holds_def split: option.splits intro: released_held accounted_held)

lemma open_accounted_from:
  assumes "ir_capture_open k w = (r, w')" "released w0 w"
  shows "bridge_holds w0 r w'"
proof -
  have "case r of None \<Rightarrow> released w w' | Some c \<Rightarrow> accounted w c w'" by (rule open_accounted [OF assms(1)])
  then show ?thesis using assms(2) by (cases r) (auto simp: bridge_holds_def released_def accounted_def)
qed

lemma close_from:
  assumes "accounted w0 c w"
  shows "bridge_holds w0 None (ir_capture_close k c w)"
  using close_releases [OF assms] by (simp add: bridge_holds_def)

lemma ir_start_capture_holds:
  assumes "ir_start_capture k i w = (co, w')" "released w0 w"
  shows "bridge_holds w0 co w'"
proof -
  obtain r w1 where o': "ir_capture_open k w = (r, w1)" by fastforce
  note h = open_accounted_from [OF o' assms(2)]
  show ?thesis
  proof (cases r)
    case None
    then show ?thesis using assms(1) h by (simp add: ir_start_capture_def o')
  next
    case (Some c)
    let ?c = "ir_capture_set_stream_attempt_id i c"
    obtain s c2 w2 where s: "ir_capture_start k ?c w1 = (s, c2, w2)" by (rule prod_cases3)
    have "accounted w0 ?c w1"
      using h Some by (simp add: bridge_holds_def accounted_def fds_of_def maps_of_def ir_capture_set_stream_attempt_id_def)
    then have "accounted w0 c2 w2" using start_spec(1,2) [OF s] accounted_held accounted_shape by blast
    then show ?thesis
      using assms(1) Some close_from [of w0 c2 w2 k]
      by (auto simp: ir_start_capture_def o' s bridge_holds_def split: if_splits)
  qed
qed

lemma write_frame_held: "write_frame k io fd rest w = (ok, w') \<Longrightarrow> same_held w w'"
proof (induction k io fd rest w rule: write_frame.induct)
  case (1 k io fd rest w)
  obtain n w1 where n: "ir_ioctl_retry k (io_write io fd rest) w = (n, w1)" by fastforce
  show ?case
  proof (cases "rest = [] \<or> n \<le> 0")
    case True
    then show ?thesis using "1.prems" ioctl_step(1) [OF n] 
      by (subst (asm) write_frame.simps) (auto simp: n split: if_splits)
  next
    case False
    then have "write_frame k io fd (drop (nat n) rest) w1 = (ok, w')"
      using "1.prems" by (subst (asm) write_frame.simps) (simp add: n)
    then have "same_held w1 w'" using "1.IH" [OF _ n [symmetric]] False by simp
    then show ?thesis by (rule held_trans [OF ioctl_step(1) [OF n]])
  qed
qed

lemma recover_inv:
  assumes "recover io st w = (go, st', w')" "bridge_holds w0 (br_capture st) w" "br_recoveries st \<le> IR_MAX_RECOVERIES"
  shows "bridge_inv w0 st' w'"
  using assms bridge_holds_held [OF assms(2), of "snd (ir_call (io_sleep io) w)"]
  by (auto simp: recover_def bridge_inv_def split: if_splits)

lemma capture_pass_inv:
  assumes "capture_pass k io out c st w = Some (go, st', w')" "accounted w0 c w" "br_recoveries st \<le> IR_MAX_RECOVERIES"
  shows "bridge_inv w0 st' w'"
proof -
  obtain r c1 frame w1 where n: "ir_capture_next k 1000 c (br_frame st) w = Some (r, c1, frame, w1)"
      "outcome c (br_frame st) r c1 frame" "queue_after r w w1"
    using next_outcome by blast
  have "same_held w w1" "same_shape c c1"
    using n(2,3) by (auto simp: outcome_def frame_taken_def no_frame_def queue_after_def split: if_splits)
  then have a1: "accounted w0 c1 w1" using assms(2) accounted_held accounted_shape by blast
  obtain x c2 w2 where s: "ir_capture_stop k c1 w1 = (x, c2, w2)" by (rule prod_cases3)
  have "accounted w0 c2 w2" using a1 stop_spec(1,2) [OF s] accounted_held accounted_shape by blast
  note cl = close_from [OF this, of k]
  obtain ok w3 where wf: "write_frame k io out frame w1 = (ok, w3)" by fastforce
  have a3: "accounted w0 c1 w3" by (rule accounted_held [OF a1 write_frame_held [OF wf]])
  let ?st = "st\<lparr>br_capture := Some c1, br_frame := frame\<rparr>"
  consider "r = 0 \<or> r = IR_CAPTURE_RESULT_DISCARDED" | "r < 0" "\<not> (r = 0 \<or> r = IR_CAPTURE_RESULT_DISCARDED)"
    | "\<not> r < 0" "\<not> (r = 0 \<or> r = IR_CAPTURE_RESULT_DISCARDED)" by blast
  then show ?thesis
  proof cases
    case 1
    then show ?thesis using assms(1,3) a1 by (auto simp: capture_pass_def n(1) bridge_inv_def bridge_holds_def)
  next
    case 2
    then have "recover io (?st\<lparr>br_capture := None\<rparr>) (ir_capture_close k c2 w2) = (go, st', w')"
      using assms(1) by (simp add: capture_pass_def n(1) s)
    then show ?thesis by (rule recover_inv) (use cl assms(3) in simp_all)
  next
    case 3
    then show ?thesis using assms(1) a3
      by (auto simp: capture_pass_def n(1) wf bridge_inv_def bridge_holds_def Let_def split: if_splits)
  qed
qed

lemma bridge_pass_inv:
  assumes "bridge_pass k io out st w = Some (go, st', w')" "bridge_inv w0 st w"
  shows "bridge_inv w0 st' w'"
proof -
  obtain stop w1 where p: "ir_call (io_stop_requested io) w = (stop, w1)" by fastforce
  have b: "bridge_holds w0 (br_capture st) w1" "br_recoveries st \<le> IR_MAX_RECOVERIES"
    using bridge_holds_held [OF _ call_step(1) [OF p]] assms(2) by (auto simp: bridge_inv_def)
  show ?thesis
  proof (cases "stop \<or> br_stop st")
    case True
    then show ?thesis using assms(1) b by (auto simp: bridge_pass_def p bridge_inv_def)
  next
    case go: False
    show ?thesis
    proof (cases "br_capture st")
      case (Some c)
      then have "capture_pass k io out c st w1 = Some (go, st', w')" using assms(1) go by (simp add: bridge_pass_def p)
      then show ?thesis by (rule capture_pass_inv) (use b Some in \<open>simp_all add: bridge_holds_def\<close>)
    next
      case None
      let ?st = "st\<lparr>br_attempt_id := br_next_attempt_id st, br_next_attempt_id := br_next_attempt_id st + 1\<rparr>"
      obtain co w2 where s: "ir_start_capture k (br_next_attempt_id st) w1 = (co, w2)" by fastforce
      have h: "bridge_holds w0 co w2"
        by (rule ir_start_capture_holds [OF s]) (use b None in \<open>simp add: bridge_holds_def\<close>)
      show ?thesis
      proof (cases co)
        case None
        then have "recover io ?st w2 = (go, st', w')" using assms(1) go \<open>br_capture st = None\<close>
          by (simp add: bridge_pass_def p s)
        then show ?thesis by (rule recover_inv) (use h b None \<open>br_capture st = None\<close> in simp_all)
      next
        case (Some c)
        then have "capture_pass k io out c (?st\<lparr>br_capture := Some c\<rparr>) w2 = Some (go, st', w')"
          using assms(1) go \<open>br_capture st = None\<close> by (simp add: bridge_pass_def p s)
        then show ?thesis by (rule capture_pass_inv) (use h b Some in \<open>simp_all add: bridge_holds_def\<close>)
      qed
    qed
  qed
qed

lemma ir_bridge_rounds_inv:
  "ir_bridge_rounds k io out n st w = Some (go, st', w') \<Longrightarrow> bridge_inv w0 st w \<Longrightarrow> bridge_inv w0 st' w'"
proof (induction n arbitrary: st w)
  case (Suc n)
  then show ?case using bridge_pass_inv
    by (auto split: option.splits if_splits) blast+
qed simp

lemma set_output_format_held: "set_output_format k io fd w = (ok, w') \<Longrightarrow> same_held w w'"
proof -
  assume a: "set_output_format k io fd w = (ok, w')"
  have "same_held w (snd (set_output_format k io fd w))"
    by (simp add: set_output_format_def Let_def split_beta split: option.split)
  then show ?thesis by (simp add: a)
qed

lemma gives_up_after:
  assumes "\<And>i v. fst (ir_start_capture k i v) = None"
  shows "br_capture st = None \<Longrightarrow> br_recoveries st + n = 6 \<Longrightarrow> 0 < n \<Longrightarrow>
    \<exists>st' w'. ir_bridge_rounds k io out n st w = Some (False, st', w') \<and>
      ((\<forall>v. \<not> fst (ir_call (io_stop_requested io) v)) \<and> \<not> br_stop st \<longrightarrow> br_failed st')"
proof (induction n arbitrary: st w)
  case (Suc n)
  obtain stop w1 where p: "ir_call (io_stop_requested io) w = (stop, w1)" by fastforce
  have stop: "(\<forall>v. \<not> fst (ir_call (io_stop_requested io) v)) \<Longrightarrow> \<not> stop" using p by (metis fst_conv)
  obtain w2 where s: "ir_start_capture k (br_next_attempt_id st) w1 = (None, w2)"
    using assms [of "br_next_attempt_id st" w1] by (metis prod.collapse)
  let ?st = "st\<lparr>br_attempt_id := br_next_attempt_id st, br_next_attempt_id := br_next_attempt_id st + 1\<rparr>"
  have pass: "bridge_pass k io out st w =
      Some (if stop \<or> br_stop st then (False, st, w1) else recover io ?st w2)"
    using Suc.prems by (simp add: bridge_pass_def p s Let_def)
  show ?case
  proof (cases "stop \<or> br_stop st")
    case True
    then show ?thesis using stop by (auto simp: pass)
  next
    case go: False
    show ?thesis
    proof (cases n)
      case 0
      then show ?thesis using Suc.prems go by (simp add: pass recover_def IR_MAX_RECOVERIES_def)
    next
      case (Suc m)
      let ?st' = "?st\<lparr>br_recoveries := br_recoveries st + 1\<rparr>"
      have "bridge_pass k io out st w = Some (True, ?st', snd (ir_call (io_sleep io) w2))"
        using Suc.prems Suc go by (simp add: pass recover_def IR_MAX_RECOVERIES_def)
      then show ?thesis
        using Suc.IH [of ?st' "snd (ir_call (io_sleep io) w2)"] Suc.prems Suc go by auto
    qed
  qed
qed simp

section \<open>Example\<close>

text \<open>A loopback device that takes its format and refuses every frame; no signal comes.\<close>

definition ex_io :: "nat ir_io" where
  "ex_io = \<lparr>io_stop_requested = Pair False, io_open_output = (\<lambda>_. Pair 5),
     io_set_format = (\<lambda>_ f. Pair (Some f)), io_write = (\<lambda>_ _. Pair (-1)), io_sleep = Pair ()\<rparr>"

lemma ex_cannot_start: "fst (ir_start_capture ex_camera i v) = None"
  by (simp add: ir_start_capture_def ir_capture_open_def open_steps_def discover_graph_def ir_call_def)

section \<open>Properties\<close>

text \<open>
  However it ends, the bridge leaves no descriptor, no mapping and no capture behind, not
  even the loopback device it writes to.
\<close>

theorem ir_bridge_releases:
  assumes "ir_bridge_main k io env n w = Some (ok, w')"
  shows "released w w'"
proof -
  let ?path = "case env of None \<Rightarrow> IR_OUTPUT_DEVICE | Some p \<Rightarrow> if p = [] then IR_OUTPUT_DEVICE else p"
  obtain out w1 where o': "ir_call (io_open_output io ?path) w = (out, w1)" by fastforce
  note h1 = call_step(1) [OF o']
  show ?thesis
  proof (cases "out < 0")
    case True
    then show ?thesis using assms h1 by (auto simp: ir_bridge_main_def Let_def o' released_def same_held_def)
  next
    case out: False
    let ?w1 = "w1\<lparr>iw_fds := insert out (iw_fds w1)\<rparr>"
    obtain f w2 where f: "set_output_format k io out ?w1 = (f, w2)" by fastforce
    have h2: "same_held ?w1 w2" by (rule set_output_format_held [OF f])
    have inv: "bridge_inv w2 initial_bridge w2"
      by (simp add: bridge_inv_def bridge_holds_def initial_bridge_def)
    show ?thesis
    proof (cases f)
      case False
      then show ?thesis using assms out h1 h2
        by (auto simp: ir_bridge_main_def Let_def o' f released_def same_held_def close_file_def)
    next
      case True
      then obtain st w3 where r: "ir_bridge_rounds k io out n initial_bridge w2 = Some (False, st, w3)"
          "bridge_shutdown k out st w3 = (ok, w')"
        using assms out by (auto simp: ir_bridge_main_def Let_def o' f split: option.splits prod.splits bool.splits)
      note i = ir_bridge_rounds_inv [OF r(1) inv]
      have "released w (snd (bridge_shutdown k out st w3))"
      proof (cases "br_capture st")
        case None
        then show ?thesis using i h1 h2
          by (auto simp: bridge_shutdown_def bridge_inv_def bridge_holds_def released_def same_held_def close_file_def)
      next
        case (Some c)
        obtain x c2 w4 where s: "ir_capture_stop k c (close_file out w3) = (x, c2, w4)" by (rule prod_cases3)
        have "accounted w c (close_file out w3)"
          using i h1 h2 Some by (auto simp: bridge_inv_def bridge_holds_def accounted_def same_held_def close_file_def)
        then have "accounted w c2 w4" using stop_spec(1,2) [OF s] accounted_held accounted_shape by blast
        then show ?thesis using close_releases [of w c2 w4 k] Some by (simp add: bridge_shutdown_def Let_def s)
      qed
      then show ?thesis by (simp add: r(2))
    qed
  qed
qed

theorem ir_bridge_releases_witness:
  "\<exists>ok w'. ir_bridge_main ex_camera ex_io None 6 ex_world = Some (ok, w') \<and> iw_fds w' \<subseteq> {3}"
proof -
  obtain st w where "ir_bridge_rounds ex_camera ex_io 5 6 initial_bridge (ex_world\<lparr>iw_fds := {5, 3}\<rparr>) = Some (False, st, w)"
    using gives_up_after [OF ex_cannot_start, of initial_bridge 6 ex_io 5] by (fastforce simp: initial_bridge_def)
  then have "ir_bridge_main ex_camera ex_io None 6 ex_world = Some (bridge_shutdown ex_camera 5 st w)"
    by (simp add: ir_bridge_main_def ex_io_def ir_call_def set_output_format_def Let_def ex_world_def)
  moreover obtain ok w' where b: "bridge_shutdown ex_camera 5 st w = (ok, w')" by fastforce
  ultimately have m: "ir_bridge_main ex_camera ex_io None 6 ex_world = Some (ok, w')" by simp
  from ir_bridge_releases [OF m] m show ?thesis by (auto simp: released_def ex_world_def)
qed

text \<open>
  A bridge that cannot start its camera gives up: from a state with \<open>r\<close> recoveries used,
  its loop has ended after \<open>6 - r\<close> passes, with the exit status of a failure unless a signal
  stopped it first.
\<close>

theorem ir_bridge_gives_up:
  assumes "br_capture st = None" "br_recoveries st \<le> IR_MAX_RECOVERIES"
    and "\<And>i v. fst (ir_start_capture k i v) = None"
  shows "\<exists>st' w'. ir_bridge_rounds k io out (6 - br_recoveries st) st w = Some (False, st', w') \<and>
    ((\<forall>v. \<not> fst (ir_call (io_stop_requested io) v)) \<and> \<not> br_stop st \<longrightarrow> br_failed st')"
  using gives_up_after [OF assms(3), of st "6 - br_recoveries st" io out w] assms(1,2)
  by (simp add: IR_MAX_RECOVERIES_def)

theorem ir_bridge_gives_up_witness:
  "\<exists>st' w'. ir_bridge_rounds ex_camera ex_io 5 6 initial_bridge ex_world = Some (False, st', w') \<and> br_failed st'"
  using ir_bridge_gives_up [OF _ _ ex_cannot_start, of initial_bridge ex_io 5 ex_world]
  by (simp add: initial_bridge_def ex_io_def ir_call_def)

text \<open>
  When writing to the loopback device fails, the loop ends at its next pass without
  recording a failure, so unless stopping the stream fails too, the program exits with
  success.
\<close>

theorem ir_bridge_write_failure:
  assumes "br_capture st = Some c" "\<not> br_stop st" "\<not> br_failed st"
    and "ir_call (io_stop_requested io) w = (False, w1)"
    and "ir_capture_next k 1000 c (br_frame st) w1 = Some (1, c', frame, w2)"
    and "write_frame k io out frame w2 = (False, w3)"
  shows "\<exists>st' w4. ir_bridge_rounds k io out 2 st w = Some (False, st', w4) \<and> br_capture st' = Some c' \<and>
    (\<forall>v. fst (bridge_shutdown k out st' v) \<longleftrightarrow> fst (ir_capture_stop k c' (close_file out v)) = 0)"
proof -
  let ?st = "st\<lparr>br_capture := Some c', br_frame := frame, br_recoveries := 0, br_stop := True\<rparr>"
  have "bridge_pass k io out st w = Some (True, ?st, w3)"
    using assms by (simp add: bridge_pass_def capture_pass_def IR_CAPTURE_RESULT_DISCARDED_def)
  moreover have "bridge_pass k io out ?st w3 = Some (False, ?st, snd (ir_call (io_stop_requested io) w3))"
    by (simp add: bridge_pass_def split_beta)
  ultimately have "ir_bridge_rounds k io out 2 st w = Some (False, ?st, snd (ir_call (io_stop_requested io) w3))"
    by (simp add: numeral_2_eq_2)
  moreover have "\<forall>v. fst (bridge_shutdown k out ?st v) \<longleftrightarrow> fst (ir_capture_stop k c' (close_file out v)) = 0"
    using assms(3) by (simp add: bridge_shutdown_def Let_def split_beta)
  ultimately show ?thesis by fastforce
qed

theorem ir_bridge_write_failure_witness:
  "\<exists>st st' w. ir_bridge_rounds ex_camera ex_io 5 2 st ex_streaming = Some (False, st', w) \<and>
     fst (bridge_shutdown ex_camera 5 st' w)"
proof -
  let ?st = "initial_bridge\<lparr>br_capture := Some ex_started, br_frame := replicate 8 0\<rparr>"
  obtain c y w where n: "ir_capture_next ex_camera 1000 ex_started (replicate 8 0) ex_streaming = Some (1, c, y, w)"
    using ex_next by blast
  have "length y = 8" using next_outcome [of ex_camera 1000 ex_started "replicate 8 0" ex_streaming] n
    by (simp add: outcome_def)
  then have wf: "write_frame ex_camera ex_io 5 y w = (False, w)"
    by (subst write_frame.simps) (auto simp: ex_retry ir_call_def ex_io_def)
  have stop: "fst (ir_capture_stop ex_camera c v) = 0" for v
    by (simp add: ir_capture_stop_def stream_off_def ex_retry ir_call_def)
  have "ir_call (io_stop_requested ex_io) ex_streaming = (False, ex_streaming)"
    by (simp add: ex_io_def ir_call_def)
  from ir_bridge_write_failure [OF _ _ _ this, of ?st ex_started ex_camera c y w 5 w] n wf stop show ?thesis
    by (fastforce simp: initial_bridge_def)
qed

end
