(* ===== verification/AuthCapture.thy ===== *)
theory AuthCapture
  imports IrSession
begin

text \<open>
  The capture helper of the authentication, \<^verbatim>\<open>cbridge/auth-capture-helper.c\<close>: a worker
  captures frames and writes them to a pipe, and a supervisor copies the pipe to the standard
  output within a fixed time.  Loops that may run on are counted: \<open>n\<close> bounds their passes.
\<close>

section \<open>Constants\<close>

definition AUTH_LOCK_PATH :: string where "AUTH_LOCK_PATH = ''/run/lock/sp7-camera-auth-capture.lock''"
definition AUTH_CAPTURE_BUDGET_NS :: u64 where "AUTH_CAPTURE_BUDGET_NS = 3000000000"
definition AUTH_DEFAULT_FRAMES :: nat where "AUTH_DEFAULT_FRAMES = 5"
definition AUTH_MAX_FRAMES :: nat where "AUTH_MAX_FRAMES = 12"
definition AUTH_FRAME_HEADER_BYTES :: nat where "AUTH_FRAME_HEADER_BYTES = 44"
definition AUTH_FRAME_PAYLOAD_BYTES :: nat where "AUTH_FRAME_PAYLOAD_BYTES = IR_CAPTURE_WIDTH * IR_CAPTURE_HEIGHT"
definition AUTH_MAX_FRAME_AGE_NS :: u64 where "AUTH_MAX_FRAME_AGE_NS = 2000000000"
definition AUTH_EXIT_SUCCESS :: int where "AUTH_EXIT_SUCCESS = 0"
definition AUTH_EXIT_FAILURE :: int where "AUTH_EXIT_FAILURE = 1"
definition AUTH_EXIT_BUSY :: int where "AUTH_EXIT_BUSY = 2"
definition AUTH_EXIT_TIMEOUT :: int where "AUTH_EXIT_TIMEOUT = 124"
definition AUTH_CHILD_POLL_MS :: int where "AUTH_CHILD_POLL_MS = 50"
definition AUTH_FRAME_POLL_MS :: nat where "AUTH_FRAME_POLL_MS = 100"

text \<open>The bytes of \<^verbatim>\<open>SP7IRF01\<close>.\<close>

definition AUTH_FRAME_MAGIC :: "u8 list" where
  "AUTH_FRAME_MAGIC = [0x53, 0x50, 0x37, 0x49, 0x52, 0x46, 0x30, 0x31]"

section \<open>The frame format\<close>

definition put_u32_le :: "u32 \<Rightarrow> u8 list" where
  "put_u32_le v = [ucast (v AND 0xff), ucast (drop_bit 8 v AND 0xff), ucast (drop_bit 16 v AND 0xff),
     ucast (drop_bit 24 v AND 0xff)]"

definition put_u64_le :: "u64 \<Rightarrow> u8 list" where
  "put_u64_le v = map (\<lambda>byte. ucast (drop_bit (byte * 8) v AND 0xff)) [0..<8]"

text \<open>Bytes stored into an array from an offset on.\<close>

definition store_bytes :: "u8 list \<Rightarrow> nat \<Rightarrow> u8 list \<Rightarrow> u8 list" where
  "store_bytes array off bytes = take off array @ bytes @ drop (off + length bytes) array"

definition frame_header :: "ir_stats \<Rightarrow> u8 list" where
  "frame_header s =
     (let h = replicate AUTH_FRAME_HEADER_BYTES 0;
          h = store_bytes h 0 AUTH_FRAME_MAGIC;
          h = store_bytes h 8 (put_u32_le 1);
          h = store_bytes h 12 (put_u32_le (of_nat IR_CAPTURE_WIDTH));
          h = store_bytes h 16 (put_u32_le (of_nat IR_CAPTURE_HEIGHT));
          h = store_bytes h 20 (put_u32_le (of_nat AUTH_FRAME_PAYLOAD_BYTES));
          h = store_bytes h 24 (put_u32_le (st_last_sequence s));
          h = store_bytes h 28 (put_u64_le (st_last_timestamp_seconds s))
      in store_bytes h 36 (put_u64_le (st_last_timestamp_usec s)))"

definition frame_luma :: "u8 list \<Rightarrow> u8 list" where
  "frame_luma yuyv = map (\<lambda>pixel. yuyv ! (pixel * 2)) [0..<AUTH_FRAME_PAYLOAD_BYTES]"

section \<open>The worker\<close>

text \<open>\<open>ao_write\<close> is a \<^verbatim>\<open>write\<close> to the pipe that no signal interrupts.\<close>

record 's auth_io =
  ao_stop_requested :: "'s \<Rightarrow> bool \<times> 's"
  ao_write :: "u8 list \<Rightarrow> 's \<Rightarrow> int \<times> 's"
  ao_getpid :: "'s \<Rightarrow> u64 \<times> 's"

text \<open>
  The loop of \<^verbatim>\<open>write_all\<close>: did it write all of the data, and what it wrote.  A signal
  interrupts a write at most \<open>iw_signals\<close> times, and the stop flag is read before each attempt.
\<close>

function write_all :: "'s ir_kernel \<Rightarrow> 's auth_io \<Rightarrow> u8 list \<Rightarrow> 's ir_world \<Rightarrow> bool \<times> u8 list \<times> 's ir_world" where
  "write_all k io data w =
     (if data = [] then (True, [], w)
      else let (stop, w1) = ir_call (ao_stop_requested io) w in
        if stop then (False, [], w1)
        else let (intr, w2) = ir_interrupted k w1 in
          if intr then write_all k io data w2
          else let (count, w3) = ir_call (ao_write io data) w2 in
            if count \<le> 0 then (False, [], w3)
            else case write_all k io (drop (nat count) data) w3 of
              (ok, written, w4) \<Rightarrow> (ok, take (nat count) data @ written, w4))"
  by pat_completeness auto
termination
  by (relation "measures [\<lambda>(k, io, data, w). length data, \<lambda>(k, io, data, w). iw_signals w]")
    (auto simp: ir_interrupted_def ir_call_def split: prod.splits if_splits)

declare write_all.simps [simp del]

definition auth_write_frame ::
  "'s ir_kernel \<Rightarrow> 's auth_io \<Rightarrow> u8 list \<Rightarrow> ir_stats \<Rightarrow> 's ir_world \<Rightarrow> bool \<times> u8 list \<times> 's ir_world" where
  "auth_write_frame k io yuyv s w =
     (case write_all k io (frame_header s) w of (ok, out1, w) \<Rightarrow>
        if \<not> ok then (False, out1, w)
        else case write_all k io (frame_luma yuyv) w of (ok, out2, w) \<Rightarrow> (ok, out1 @ out2, w))"

text \<open>\<^verbatim>\<open>frame_timestamp_is_fresh\<close>; a clock that cannot be read gives 0.\<close>

definition timestamp_fresh :: "ir_stats \<Rightarrow> u64 \<Rightarrow> bool" where
  "timestamp_fresh s now \<longleftrightarrow>
     (let timestamp = st_last_timestamp_seconds s * 1000000000 + st_last_timestamp_usec s * 1000 in
      now \<noteq> 0 \<and> timestamp \<le> now \<and> now - timestamp \<le> AUTH_MAX_FRAME_AGE_NS)"

record auth_worker =
  aw_capture :: ir_capture
  aw_yuyv :: "u8 list"
  aw_frames :: nat
  aw_stop :: bool
  aw_pipe :: "u8 list"

text \<open>A pass of the loop: \<open>None\<close> is undefined behaviour; the flag says whether the loop goes on.\<close>

definition worker_pass ::
  "'s ir_kernel \<Rightarrow> 's auth_io \<Rightarrow> nat \<Rightarrow> auth_worker \<Rightarrow> 's ir_world \<Rightarrow> (bool \<times> auth_worker \<times> 's ir_world) option" where
  "worker_pass k io requested a w =
     (case ir_call (ao_stop_requested io) w of (stop, w) \<Rightarrow>
        let a = a\<lparr>aw_stop := aw_stop a \<or> stop\<rparr> in
        if aw_stop a \<or> \<not> (requested = 0 \<or> aw_frames a < requested) then Some (False, a, w)
        else case ir_capture_next k AUTH_FRAME_POLL_MS (aw_capture a) (aw_yuyv a) w of
          None \<Rightarrow> None
        | Some (r, c, yuyv, w) \<Rightarrow>
            let a = a\<lparr>aw_capture := c, aw_yuyv := yuyv\<rparr> in
            if r = 0 \<or> r = IR_CAPTURE_RESULT_DISCARDED then Some (True, a, w)
            else if r < 0 then Some (False, a, w)
            else case ir_call (ik_now k) w of (now, w) \<Rightarrow>
              if \<not> timestamp_fresh (ic_stats c) now then Some (False, a, w)
              else case auth_write_frame k io yuyv (ic_stats c) w of (ok, out, w) \<Rightarrow>
                let a = a\<lparr>aw_pipe := aw_pipe a @ out\<rparr> in
                if \<not> ok then Some (False, a\<lparr>aw_stop := True\<rparr>, w)
                else Some (True, a\<lparr>aw_frames := aw_frames a + 1\<rparr>, w))"

primrec worker_loop ::
  "'s ir_kernel \<Rightarrow> 's auth_io \<Rightarrow> nat \<Rightarrow> nat \<Rightarrow> auth_worker \<Rightarrow> 's ir_world \<Rightarrow> (bool \<times> auth_worker \<times> 's ir_world) option" where
  "worker_loop k io requested 0 a w = Some (True, a, w)"
| "worker_loop k io requested (Suc n) a w =
     (case worker_pass k io requested a w of
        None \<Rightarrow> None
      | Some (go, a, w) \<Rightarrow> if go then worker_loop k io requested n a w else Some (False, a, w))"

text \<open>
  What follows the loop.  The stop flag is read again; the result is the exit status.
\<close>

definition worker_finish ::
  "'s ir_kernel \<Rightarrow> 's auth_io \<Rightarrow> nat \<Rightarrow> auth_worker \<Rightarrow> 's ir_world \<Rightarrow> int \<times> 's ir_world" where
  "worker_finish k io requested a w =
     (case ir_capture_stop k (aw_capture a) w of (r, c, w) \<Rightarrow>
        case ir_call (ao_stop_requested io) w of (stop, w) \<Rightarrow>
          (if r \<noteq> 0 then AUTH_EXIT_FAILURE
           else if \<not> (aw_stop a \<or> stop) \<or> aw_frames a = requested
             then (if aw_frames a = requested \<or> requested = 0 then AUTH_EXIT_SUCCESS else AUTH_EXIT_FAILURE)
           else AUTH_EXIT_FAILURE,
           ir_capture_close k c w))"

text \<open>\<^verbatim>\<open>worker_main\<close>: the exit status, what went into the pipe, and the world.\<close>

definition worker_main ::
  "'s ir_kernel \<Rightarrow> 's auth_io \<Rightarrow> nat \<Rightarrow> nat \<Rightarrow> 's ir_world \<Rightarrow> (int \<times> u8 list \<times> 's ir_world) option" where
  "worker_main k io requested n w =
     (case ir_capture_open k w of
        (None, w) \<Rightarrow> Some (AUTH_EXIT_FAILURE, [], w)
      | (Some c, w) \<Rightarrow>
          let c = ir_capture_set_discard_error_buffers True c;
              (pid, w) = ir_call (ao_getpid io) w;
              c = ir_capture_set_stream_attempt_id pid c in
          case ir_capture_start k c w of (r, c, w) \<Rightarrow>
            if r \<noteq> 0 then
              case ir_capture_stop k c w of (_, c, w) \<Rightarrow> Some (AUTH_EXIT_FAILURE, [], ir_capture_close k c w)
            else case worker_loop k io requested n
                \<lparr>aw_capture = c, aw_yuyv = replicate IR_CAPTURE_OUTPUT_BYTES 0, aw_frames = 0,
                  aw_stop = False, aw_pipe = []\<rparr> w of
              Some (False, a, w) \<Rightarrow>
                (case worker_finish k io requested a w of (status, w) \<Rightarrow> Some (status, aw_pipe a, w))
            | _ \<Rightarrow> None)"

section \<open>The frame format read back\<close>

text \<open>A little-endian number of \<open>n\<close> bytes.\<close>

primrec read_le :: "u8 list \<Rightarrow> nat \<Rightarrow> nat \<Rightarrow> nat" where
  "read_le bytes off 0 = 0"
| "read_le bytes off (Suc n) = unat (bytes ! off) + 256 * read_le bytes (off + 1) n"

lemma low_byte: "8 \<le> LENGTH('a) \<Longrightarrow> (ucast (v AND 0xff :: 'a::len word) :: u8) = ucast v"
proof (rule bit_word_eqI)
  fix n
  assume "8 \<le> LENGTH('a)" "n < LENGTH(8)"
  then show "bit (ucast (v AND 0xff) :: u8) n = bit (ucast v :: u8) n"
    using bit_mask_iff [of 8 n, where 'a = "'a word"] by (auto simp: bit_simps mask_eq_exp_minus_1)
qed

lemma byte_at: "unat (ucast (drop_bit (8 * i) v) :: u8) = unat (v :: 'a::len word) div 256 ^ i mod 256"
proof -
  have "unat (drop_bit (8 * i) v) = drop_bit (8 * i) (unat v)" by (rule unat_drop_bit_eq)
  then have "unat (drop_bit (8 * i) v) = unat v div 256 ^ i" by (simp add: drop_bit_eq_div power_mult)
  then show ?thesis by (simp add: unsigned_ucast_eq take_bit_eq_mod)
qed

lemma read_le_eq:
  "(\<And>i. i < n \<Longrightarrow> unat (bytes ! (off + i)) = x div 256 ^ i mod 256) \<Longrightarrow> read_le bytes off n = x mod 256 ^ n"
proof (induction n arbitrary: off x)
  case (Suc n)
  have "read_le bytes (off + 1) n = x div 256 mod 256 ^ n"
  proof (rule Suc.IH)
    fix i
    assume "i < n"
    then show "unat (bytes ! (off + 1 + i)) = x div 256 div 256 ^ i mod 256"
      using Suc.prems [of "Suc i"] by (simp add: div_mult2_eq)
  qed
  moreover have "unat (bytes ! off) = x mod 256" using Suc.prems [of 0] by simp
  ultimately show ?case by (simp add: mod_mult2_eq)
qed simp

lemma put_u32_bytes: "put_u32_le v = map (\<lambda>i. ucast (drop_bit (8 * i) v)) [0..<4]"
  by (simp add: put_u32_le_def low_byte upt_rec)

lemma put_u64_bytes: "put_u64_le v = map (\<lambda>i. ucast (drop_bit (8 * i) v)) [0..<8]"
  by (simp add: put_u64_le_def low_byte mult.commute)

lemma read_u32:
  assumes "\<And>i. i < 4 \<Longrightarrow> bytes ! (off + i) = put_u32_le v ! i"
  shows "read_le bytes off 4 = unat v"
proof -
  have "read_le bytes off 4 = unat v mod 256 ^ 4"
    by (rule read_le_eq) (simp add: assms put_u32_bytes byte_at)
  moreover have "unat v < 2 ^ 32" using unsigned_less [of v, where 'a = nat] by simp
  ultimately show ?thesis by simp
qed

lemma read_u64:
  assumes "\<And>i. i < 8 \<Longrightarrow> bytes ! (off + i) = put_u64_le v ! i"
  shows "read_le bytes off 8 = unat v"
proof -
  have "read_le bytes off 8 = unat v mod 256 ^ 8"
    by (rule read_le_eq) (simp add: assms put_u64_bytes byte_at)
  moreover have "unat v < 2 ^ 64" using unsigned_less [of v, where 'a = nat] by simp
  ultimately show ?thesis by simp
qed

lemma put_length [simp]: "length (put_u32_le v) = 4" "length (put_u64_le u) = 8" "length AUTH_FRAME_MAGIC = 8"
  by (simp_all add: put_u32_le_def put_u64_le_def AUTH_FRAME_MAGIC_def)

lemma store_length [simp]: "off + length bytes \<le> length array \<Longrightarrow> length (store_bytes array off bytes) = length array"
  by (simp add: store_bytes_def)

lemma store_nth:
  assumes "off + length bytes \<le> length array" "i < length array"
  shows "store_bytes array off bytes ! i =
    (if off \<le> i \<and> i < off + length bytes then bytes ! (i - off) else array ! i)"
  using assms by (auto simp: store_bytes_def nth_append)

lemma header_length [simp]: "length (frame_header s) = 44"
  by (simp add: frame_header_def Let_def AUTH_FRAME_HEADER_BYTES_def)

lemma header_fields:
  "i < 8 \<Longrightarrow> frame_header s ! i = AUTH_FRAME_MAGIC ! i"
  "i < 4 \<Longrightarrow> frame_header s ! (8 + i) = put_u32_le 1 ! i"
  "i < 4 \<Longrightarrow> frame_header s ! (12 + i) = put_u32_le (of_nat IR_CAPTURE_WIDTH) ! i"
  "i < 4 \<Longrightarrow> frame_header s ! (16 + i) = put_u32_le (of_nat IR_CAPTURE_HEIGHT) ! i"
  "i < 4 \<Longrightarrow> frame_header s ! (20 + i) = put_u32_le (of_nat AUTH_FRAME_PAYLOAD_BYTES) ! i"
  "i < 4 \<Longrightarrow> frame_header s ! (24 + i) = put_u32_le (st_last_sequence s) ! i"
  "i < 8 \<Longrightarrow> frame_header s ! (28 + i) = put_u64_le (st_last_timestamp_seconds s) ! i"
  "i < 8 \<Longrightarrow> frame_header s ! (36 + i) = put_u64_le (st_last_timestamp_usec s) ! i"
  by (simp_all add: frame_header_def Let_def AUTH_FRAME_HEADER_BYTES_def store_nth)

section \<open>The worker\<close>

lemma take_then_take:
  assumes "out = take (length out) (drop n data)"
  shows "take n data @ out = take (length (take n data @ out)) data"
proof (cases "n \<le> length data")
  case True
  have "take (n + length out) data = take n data @ take (length out) (drop n data)" by (rule take_add)
  then show ?thesis using assms True by simp
next
  case False
  then show ?thesis using assms by simp
qed

lemma write_all_spec:
  "write_all k io data w = (ok, out, w') \<Longrightarrow> same_held w w' \<and> (ok \<longrightarrow> out = data) \<and>
    out = take (length out) data"
proof (induction k io data w arbitrary: ok out w' rule: write_all.induct)
  case (1 k io data w)
  show ?case
  proof (cases "data = []")
    case True
    then show ?thesis using "1.prems" by (subst (asm) write_all.simps) simp
  next
    case ne: False
    obtain stop w1 where s: "ir_call (ao_stop_requested io) w = (stop, w1)" by fastforce
    obtain intr w2 where i: "ir_interrupted k w1 = (intr, w2)" by fastforce
    obtain count w3 where c: "ir_call (ao_write io data) w2 = (count, w3)" by fastforce
    have h1: "same_held w w1" by (rule call_step(1) [OF s])
    have "same_held w1 w2" using ir_interrupted_frame [of k w1] by (simp add: i same_held_def)
    then have h2: "same_held w w2" by (rule held_trans [OF h1])
    have h3: "same_held w w3" by (rule held_trans [OF h2 call_step(1) [OF c]])
    have eq: "write_all k io data w = (if stop then (False, [], w1) else if intr then write_all k io data w2
        else if count \<le> 0 then (False, [], w3)
        else case write_all k io (drop (nat count) data) w3 of
          (ok, written, w4) \<Rightarrow> (ok, take (nat count) data @ written, w4))"
      using ne by (subst write_all.simps) (simp add: s i c)
    consider "stop" | "\<not> stop" intr | "\<not> stop" "\<not> intr" "count \<le> 0" | "\<not> stop" "\<not> intr" "\<not> count \<le> 0" by blast
    then show ?thesis
    proof cases
      case 1
      then show ?thesis using "1.prems" h1 by (simp add: eq)
    next
      case 2
      then have "write_all k io data w2 = (ok, out, w')" using "1.prems" by (simp add: eq)
      from "1.IH"(1) [OF ne s [symmetric] refl 2(1) i [symmetric] refl 2(2) this] show ?thesis
        using h2 held_trans by blast
    next
      case 3
      then show ?thesis using "1.prems" h3 by (simp add: eq)
    next
      case 4
      obtain out2 where o2: "write_all k io (drop (nat count) data) w3 = (ok, out2, w')"
          "out = take (nat count) data @ out2"
        using "1.prems" 4 by (auto simp: eq split: prod.splits)
      from "1.IH"(2) [OF ne s [symmetric] refl 4(1) i [symmetric] refl 4(2) c [symmetric] refl 4(3) o2(1)] show ?thesis
        using h3 held_trans o2(2) take_then_take by auto
    qed
  qed
qed

lemma auth_write_frame_spec:
  assumes "auth_write_frame k io yuyv s w = (ok, out, w')"
  shows "same_held w w'" "ok \<Longrightarrow> out = frame_header s @ frame_luma yuyv"
    "out = take (length out) (frame_header s @ frame_luma yuyv)"
proof -
  obtain ok1 out1 w1 where h: "write_all k io (frame_header s) w = (ok1, out1, w1)" by (rule prod_cases3)
  obtain ok2 out2 w2 where l: "write_all k io (frame_luma yuyv) w1 = (ok2, out2, w2)" by (rule prod_cases3)
  show "same_held w w'" "ok \<Longrightarrow> out = frame_header s @ frame_luma yuyv"
    using assms write_all_spec [OF h] write_all_spec [OF l] held_trans [of w w1 w2]
    by (auto simp: auth_write_frame_def h l split: if_splits)
  show "out = take (length out) (frame_header s @ frame_luma yuyv)"
  proof (cases ok1)
    case True
    then have "out = frame_header s @ out2" "out2 = take (length out2) (frame_luma yuyv)"
      using assms write_all_spec [OF h] write_all_spec [OF l] by (auto simp: auth_write_frame_def h l)
    then show ?thesis by simp
  next
    case False
    then have "out = out1" using assms by (simp add: auth_write_frame_def h)
    moreover have o1: "out1 = take (length out1) (frame_header s)" using write_all_spec [OF h] by simp
    moreover have "length out1 \<le> length (frame_header s)" by (subst o1) simp
    ultimately show ?thesis by (simp only: take_append) simp
  qed
qed

text \<open>
  What the worker has written: one encoded frame for each it has counted, each fresh when it
  was written, then perhaps a part of one that could not be written.
\<close>

definition encoded :: "ir_stats \<times> u8 list \<Rightarrow> u8 list" where
  "encoded f = frame_header (fst f) @ frame_luma (snd f)"

text \<open>Fresh by a reading of the clock.\<close>

definition fresh_frame :: "'s ir_kernel \<Rightarrow> ir_stats \<times> u8 list \<Rightarrow> bool" where
  "fresh_frame k f \<longleftrightarrow> (\<exists>s. timestamp_fresh (fst f) (fst (ik_now k s)))"

definition partial_frame :: "u8 list \<Rightarrow> bool" where
  "partial_frame rest \<longleftrightarrow> (\<exists>f. length (snd f) = IR_CAPTURE_OUTPUT_BYTES \<and> rest = take (length rest) (encoded f))"

definition written_frames :: "'s ir_kernel \<Rightarrow> nat \<Rightarrow> u8 list \<Rightarrow> (ir_stats \<times> u8 list) list \<Rightarrow> bool" where
  "written_frames k n pipe fs \<longleftrightarrow> length fs = n \<and> (\<forall>f \<in> set fs. fresh_frame k f \<and> length (snd f) = IR_CAPTURE_OUTPUT_BYTES) \<and>
     pipe = concat (map encoded fs)"

definition worker_inv :: "'s ir_kernel \<Rightarrow> 's ir_world \<Rightarrow> nat \<Rightarrow> bool \<Rightarrow> auth_worker \<Rightarrow> 's ir_world \<Rightarrow> bool" where
  "worker_inv k w0 requested go a w \<longleftrightarrow> accounted w0 (aw_capture a) w \<and>
     length (aw_yuyv a) = IR_CAPTURE_OUTPUT_BYTES \<and> (requested = 0 \<or> aw_frames a \<le> requested) \<and>
     (\<exists>fs rest. written_frames k (aw_frames a) (concat (map encoded fs)) fs \<and> aw_pipe a = concat (map encoded fs) @ rest \<and>
       partial_frame rest \<and> (rest \<noteq> [] \<longrightarrow> \<not> go \<and> (requested = 0 \<or> aw_frames a < requested)))"

lemma partial_frame_Nil: "partial_frame []"
  unfolding partial_frame_def
  by (rule exI [of _ "(undefined, replicate IR_CAPTURE_OUTPUT_BYTES 0)"]) simp

lemma worker_inv_extend:
  assumes "worker_inv k w0 requested True a w" "aw_frames a < requested \<or> requested = 0"
    and "same_held w w'" "same_shape (aw_capture a) c" "length yuyv = IR_CAPTURE_OUTPUT_BYTES"
    and "aw_capture b = c" "aw_yuyv b = yuyv"
    and "aw_frames b = aw_frames a \<and> partial_frame out \<and> (go \<longrightarrow> out = []) \<or>
      aw_frames b = aw_frames a + 1 \<and> fresh_frame k (s, yuyv) \<and> out = encoded (s, yuyv)"
    and "aw_pipe b = aw_pipe a @ out"
  shows "worker_inv k w0 requested go b w'"
proof -
  obtain fs where fs: "written_frames k (aw_frames a) (concat (map encoded fs)) fs" "aw_pipe a = concat (map encoded fs)"
    using assms(1) by (auto simp: worker_inv_def)
  have acc: "accounted w0 c w'"
    by (rule accounted_shape [OF accounted_held [OF _ assms(3)] assms(4)]) (use assms(1) in \<open>simp add: worker_inv_def\<close>)
  from assms(8) show ?thesis
  proof
    assume f: "aw_frames b = aw_frames a \<and> partial_frame out \<and> (go \<longrightarrow> out = [])"
    then have "aw_pipe b = concat (map encoded fs) @ out" "out \<noteq> [] \<longrightarrow> \<not> go \<and> (requested = 0 \<or> aw_frames b < requested)"
      using fs(2) assms(2,9) by auto
    moreover have "requested = 0 \<or> aw_frames b \<le> requested" using f assms(2) by auto
    ultimately show ?thesis
      using fs(1) acc assms(5-7) f by (auto simp: worker_inv_def intro!: exI [of _ fs] exI [of _ out])
  next
    assume f: "aw_frames b = aw_frames a + 1 \<and> fresh_frame k (s, yuyv) \<and> out = encoded (s, yuyv)"
    let ?fs = "fs @ [(s, yuyv)]"
    have "partial_frame []" by (rule partial_frame_Nil)
    moreover have "written_frames k (aw_frames b) (concat (map encoded ?fs)) ?fs" "aw_pipe b = concat (map encoded ?fs) @ []"
      using fs f assms(5,9) by (auto simp: written_frames_def)
    moreover have "requested = 0 \<or> aw_frames b \<le> requested" using f assms(2) by auto
    ultimately show ?thesis
      unfolding worker_inv_def using acc assms(5-7) by blast
  qed
qed

lemma call_reads: "ir_call f w = (x, w') \<Longrightarrow> \<exists>s. x = fst (f s)"
  by (rule exI [of _ "iw_kernel w"]) (auto simp: ir_call_def split: prod.splits)

lemma worker_pass_inv:
  assumes "worker_pass k io requested a w = Some (go, a', w')" "worker_inv k w0 requested True a w"
  shows "worker_inv k w0 requested go a' w'"
proof -
  obtain stop w1 where s: "ir_call (ao_stop_requested io) w = (stop, w1)" by fastforce
  let ?a = "a\<lparr>aw_stop := aw_stop a \<or> stop\<rparr>"
  have h1: "same_held w w1" by (rule call_step(1) [OF s])
  have stay: "worker_inv k w0 requested go ?a w1" for go
    using assms(2) accounted_held [OF _ h1] by (auto simp: worker_inv_def)
  show ?thesis
  proof (cases "aw_stop ?a \<or> \<not> (requested = 0 \<or> aw_frames ?a < requested)")
    case True
    have "worker_pass k io requested a w = Some (False, ?a, w1)"
      unfolding worker_pass_def s prod.case Let_def if_P [OF True] by (rule refl)
    then have "a' = ?a" "w' = w1" using assms(1) by simp_all
    then show ?thesis using stay by simp
  next
    case run: False
    then have more: "aw_frames ?a < requested \<or> requested = 0" by auto
    obtain r c yuyv w2 where n: "ir_capture_next k AUTH_FRAME_POLL_MS (aw_capture a) (aw_yuyv a) w1 = Some (r, c, yuyv, w2)"
        "outcome (aw_capture a) (aw_yuyv a) r c yuyv" "queue_after r w1 w2"
      using next_outcome by blast
    have h: "same_held w1 w2" "same_shape (aw_capture ?a) c" "length yuyv = IR_CAPTURE_OUTPUT_BYTES"
      using n(2,3) assms(2)
      by (auto simp: outcome_def frame_taken_def no_frame_def queue_after_def worker_inv_def split: if_splits)
    obtain now w3 where t: "ir_call (ik_now k) w2 = (now, w3)" by fastforce
    obtain ok out w4 where o': "auth_write_frame k io yuyv (ic_stats c) w3 = (ok, out, w4)" by (rule prod_cases3)
    note wf = auth_write_frame_spec [OF o']
    have h3: "same_held w1 w3" by (rule held_trans [OF h(1) call_step(1) [OF t]])
    have h4: "same_held w1 w4" by (rule held_trans [OF h3 wf(1)])
    let ?b = "?a\<lparr>aw_capture := c, aw_yuyv := yuyv\<rparr>"
    have eq: "worker_pass k io requested a w = Some (
        if r = 0 \<or> r = IR_CAPTURE_RESULT_DISCARDED then (True, ?b, w2)
        else if r < 0 then (False, ?b, w2)
        else if \<not> timestamp_fresh (ic_stats c) now then (False, ?b, w3)
        else if \<not> ok then (False, ?b\<lparr>aw_pipe := aw_pipe a @ out, aw_stop := True\<rparr>, w4)
        else (True, ?b\<lparr>aw_pipe := aw_pipe a @ out, aw_frames := aw_frames a + 1\<rparr>, w4))"
      unfolding worker_pass_def s prod.case Let_def if_not_P [OF run] by (simp add: n(1) t o')
    have quiet: "worker_inv k w0 requested go ?b v" if "same_held w1 v" for go v
      by (rule worker_inv_extend [OF stay more that h(2,3), where out = "[]"]) (simp_all add: partial_frame_Nil)
    show ?thesis
    proof (cases "r = 0 \<or> r = IR_CAPTURE_RESULT_DISCARDED \<or> r < 0 \<or> \<not> timestamp_fresh (ic_stats c) now")
      case True
      then have "a' = ?b" "w' = w2 \<or> w' = w3" using assms(1) by (auto simp: eq split: if_splits)
      then show ?thesis using quiet h(1) h3 by auto
    next
      case fr: False
      show ?thesis
      proof (cases ok)
        case True
        then have e: "go" "a' = ?b\<lparr>aw_pipe := aw_pipe a @ out, aw_frames := aw_frames a + 1\<rparr>" "w' = w4"
          using assms(1) fr by (auto simp: eq)
        have "fresh_frame k (ic_stats c, yuyv)" using fr call_reads [OF t] by (auto simp: fresh_frame_def)
        then show ?thesis
          unfolding e(3)
          by (intro worker_inv_extend [OF stay more h4 h(2,3), where out = out and s = "ic_stats c"])
            (use wf(2) True in \<open>simp_all add: e encoded_def\<close>)
      next
        case False
        have part: "partial_frame out"
          unfolding partial_frame_def
          by (rule exI [of _ "(ic_stats c, yuyv)"]) (use wf(3) h(3) in \<open>simp add: encoded_def\<close>)
        from False have e: "\<not> go" "a' = ?b\<lparr>aw_pipe := aw_pipe a @ out, aw_stop := True\<rparr>" "w' = w4"
          using assms(1) fr by (auto simp: eq)
        show ?thesis
          unfolding e(3)
          by (rule worker_inv_extend [OF stay more h4 h(2,3), where out = out]) (simp_all add: e part)
      qed
    qed
  qed
qed

lemma worker_loop_inv:
  "worker_loop k io requested n a w = Some (go, a', w') \<Longrightarrow> worker_inv k w0 requested True a w \<Longrightarrow>
     worker_inv k w0 requested go a' w'"
proof (induction n arbitrary: a w)
  case (Suc n)
  obtain g b v where p: "worker_pass k io requested a w = Some (g, b, v)"
    using Suc.prems(1) by (auto split: option.splits)
  note i = worker_pass_inv [OF p Suc.prems(2)]
  show ?case
  proof (cases g)
    case True
    then show ?thesis using Suc.prems(1) Suc.IH [of b v] i by (simp add: p)
  next
    case False
    then show ?thesis using Suc.prems(1) i by (simp add: p)
  qed
qed simp

lemma worker_finish_spec:
  assumes "worker_finish k io requested a w = (status, w')" "accounted w0 (aw_capture a) w"
  shows "released w0 w'"
    "status = AUTH_EXIT_SUCCESS \<Longrightarrow> aw_frames a = requested \<or> requested = 0"
proof -
  obtain r c w1 where s: "ir_capture_stop k (aw_capture a) w = (r, c, w1)" by (rule prod_cases3)
  obtain stop w2 where t: "ir_call (ao_stop_requested io) w1 = (stop, w2)" by fastforce
  have "accounted w0 c w1" using assms(2) stop_spec(1,2) [OF s] accounted_held accounted_shape by blast
  then have "accounted w0 c w2" by (rule accounted_held [OF _ call_step(1) [OF t]])
  then show "released w0 w'" using close_releases [of w0 c w2 k] assms(1) by (simp add: worker_finish_def s t)
  show "status = AUTH_EXIT_SUCCESS \<Longrightarrow> aw_frames a = requested \<or> requested = 0"
    using assms(1) by (auto simp: worker_finish_def s t AUTH_EXIT_SUCCESS_def AUTH_EXIT_FAILURE_def split: if_splits)
qed

text \<open>What a run of the worker leaves.\<close>

lemma nothing_written: "written_frames k 0 [] []"
  by (simp add: written_frames_def)

lemma worker_main_spec:
  assumes "worker_main k io requested n w = Some (status, pipe, w')"
  shows "released w w'"
    "status = AUTH_EXIT_SUCCESS \<Longrightarrow> 0 < requested \<Longrightarrow> \<exists>fs. written_frames k requested pipe fs"
    "\<exists>fs rest. written_frames k (length fs) (concat (map encoded fs)) fs \<and> pipe = concat (map encoded fs) @ rest \<and>
      partial_frame rest \<and> (requested = 0 \<or> length fs \<le> requested)"
proof -
  obtain co w1 where o': "ir_capture_open k w = (co, w1)" by fastforce
  have *: "released w w' \<and> (status = AUTH_EXIT_SUCCESS \<and> 0 < requested \<longrightarrow> (\<exists>fs. written_frames k requested pipe fs)) \<and>
      (\<exists>fs rest. written_frames k (length fs) (concat (map encoded fs)) fs \<and> pipe = concat (map encoded fs) @ rest \<and>
      partial_frame rest \<and> (requested = 0 \<or> length fs \<le> requested))"
  proof (cases co)
    case None
    then show ?thesis using assms open_accounted [OF o']
      by (auto simp: worker_main_def o' AUTH_EXIT_SUCCESS_def AUTH_EXIT_FAILURE_def nothing_written partial_frame_Nil intro!: exI [of _ "[]"])
  next
    case (Some c)
    obtain pid w2 where p: "ir_call (ao_getpid io) w1 = (pid, w2)" by fastforce
    let ?c = "ir_capture_set_stream_attempt_id pid (ir_capture_set_discard_error_buffers True c)"
    obtain r c3 w3 where s: "ir_capture_start k ?c w2 = (r, c3, w3)" by (rule prod_cases3)
    have "accounted w c w2" using open_accounted [OF o'] Some accounted_held [OF _ call_step(1) [OF p]] by simp
    then have "accounted w ?c w2"
      by (simp add: accounted_def fds_of_def maps_of_def ir_capture_set_stream_attempt_id_def
          ir_capture_set_discard_error_buffers_def)
    then have a3: "accounted w c3 w3" using start_spec(1,2) [OF s] accounted_held accounted_shape by blast
    show ?thesis
    proof (cases "r = 0")
      case False
      obtain x c4 w4 where t: "ir_capture_stop k c3 w3 = (x, c4, w4)" by (rule prod_cases3)
      have "accounted w c4 w4" using a3 stop_spec(1,2) [OF t] accounted_held accounted_shape by blast
      from close_releases [OF this, of k] show ?thesis using assms False
        by (auto simp: worker_main_def o' Some p s t Let_def AUTH_EXIT_SUCCESS_def AUTH_EXIT_FAILURE_def nothing_written partial_frame_Nil
            intro!: exI [of _ "[]"])
    next
      case True
      let ?a = "\<lparr>aw_capture = c3, aw_yuyv = replicate IR_CAPTURE_OUTPUT_BYTES 0, aw_frames = 0,
                  aw_stop = False, aw_pipe = []\<rparr>"
      have i: "worker_inv k w requested True ?a w3"
        using a3 by (auto simp: worker_inv_def nothing_written partial_frame_Nil intro!: exI [of _ "[]"])
      obtain a w4 where l: "worker_loop k io requested n ?a w3 = Some (False, a, w4)"
          "worker_finish k io requested a w4 = (status, w')" "pipe = aw_pipe a"
      proof -
        have eq: "worker_main k io requested n w = (case worker_loop k io requested n ?a w3 of
              Some (False, a, w) \<Rightarrow>
                (case worker_finish k io requested a w of (status, w) \<Rightarrow> Some (status, aw_pipe a, w))
            | _ \<Rightarrow> None)"
          using True by (simp add: worker_main_def o' Some p s Let_def)
        obtain g a w4 where l: "worker_loop k io requested n ?a w3 = Some (g, a, w4)" "\<not> g"
          using assms unfolding eq by (auto split: option.splits bool.splits)
        obtain x v where f: "worker_finish k io requested a w4 = (x, v)" by fastforce
        show thesis using that [of a w4] assms l unfolding eq by (simp add: f)
      qed
      note j = worker_loop_inv [OF l(1) i]
      then obtain fs rest where fs: "written_frames k (aw_frames a) (concat (map encoded fs)) fs"
          "pipe = concat (map encoded fs) @ rest" "partial_frame rest" "rest \<noteq> [] \<longrightarrow> requested = 0 \<or> aw_frames a < requested"
          "requested = 0 \<or> aw_frames a \<le> requested"
        unfolding worker_inv_def l(3) by blast
      have f: "released w w'" "status = AUTH_EXIT_SUCCESS \<Longrightarrow> aw_frames a = requested \<or> requested = 0"
        using worker_finish_spec [OF l(2)] j by (auto simp: worker_inv_def)
      have len: "length fs = aw_frames a" using fs(1) by (simp add: written_frames_def)
      have "written_frames k requested pipe fs" if "status = AUTH_EXIT_SUCCESS" "0 < requested"
      proof -
        have "aw_frames a = requested" using f(2) [OF that(1)] that(2) by simp
        moreover from this have "rest = []" using fs(4) that(2) by auto
        ultimately show ?thesis using fs(1,2) by (simp only: append_Nil2)
      qed
      then show ?thesis using f(1) fs(1-3,5) len by metis
    qed
  qed
  then show "released w w'"
    "status = AUTH_EXIT_SUCCESS \<Longrightarrow> 0 < requested \<Longrightarrow> \<exists>fs. written_frames k requested pipe fs"
    "\<exists>fs rest. written_frames k (length fs) (concat (map encoded fs)) fs \<and> pipe = concat (map encoded fs) @ rest \<and>
      partial_frame rest \<and> (requested = 0 \<or> length fs \<le> requested)"
    by blast+
qed

section \<open>Example\<close>

text \<open>
  A machine with the camera: its graph, its nodes and a buffer whose bytes are all the header
  byte.  Its state is the number of frames it has given.
\<close>

definition auth_entity :: "u32 \<Rightarrow> string \<Rightarrow> nat \<Rightarrow> media_entity" where
  "auth_entity i name links = \<lparr>me_id = i, me_name = name, me_links = links, me_major = 81, me_minor = i\<rparr>"

definition auth_entities :: "u32 \<Rightarrow> enum_reply" where
  "auth_entities i =
     (if i = MEDIA_ENT_ID_FLAG_NEXT then Entity (auth_entity 1 ''ov7251'' 1)
      else if i = 1 OR MEDIA_ENT_ID_FLAG_NEXT then Entity (auth_entity 2 ''Intel IPU4 CSI-2 1'' 1)
      else if i = 2 OR MEDIA_ENT_ID_FLAG_NEXT then Entity (auth_entity 3 ''CSI-2 1 capture 0'' 0)
      else No_More_Entities)"

definition auth_format :: pix_format where
  "auth_format = \<lparr>px_width = 640, px_height = 480, px_pixelformat = V4L2_PIX_FMT_Y10,
     px_field = V4L2_FIELD_NONE, px_num_planes = 1, px_bytesperline = 832, px_sizeimage = 399360\<rparr>"

definition auth_buffer_bytes :: nat where "auth_buffer_bytes = 399360"

definition auth_dequeued :: "nat \<Rightarrow> v4l2_buffer" where
  "auth_dequeued n = \<lparr>vb_index = 0, vb_length = 1, vb_flags = V4L2_BUF_FLAG_TIMESTAMP_MONOTONIC,
     vb_sequence = of_nat n, vb_timestamp = (int n + 1, 0), vb_bytesused = 399360, vb_data_offset = 0\<rparr>"

definition auth_camera :: "nat ir_kernel" where
  "auth_camera = \<lparr>ik_interrupted = Pair False, ik_now = Pair 2000000000, ik_calloc = Pair True,
     ik_glob = (\<lambda>p. Pair (Some [if p = ''/dev/media*'' then ''/dev/media0''
       else if p = ''/dev/video*'' then ''/dev/video0'' else ''/dev/v4l-subdev0''])),
     ik_stat = (\<lambda>p. Pair (Some (True, makedev 81 (if p = ''/dev/video0'' then 3 else 2)))),
     ik_open = (\<lambda>p. Pair (if p = ''/dev/media0'' then 4 else if p = ''/dev/video0'' then 6 else 5)),
     ik_enum_entities = (\<lambda>_ i. Pair (auth_entities i)),
     ik_enum_links = (\<lambda>_ i. Pair (Some (\<lambda>_. \<lparr>ml_source = i, ml_sink = i + 1, ml_flags = MEDIA_LNK_FL_ENABLED\<rparr>))),
     ik_subdev_s_fmt = (\<lambda>_ _ f. Pair (Some f)), ik_s_fmt = (\<lambda>_ _. Pair (Some auth_format)),
     ik_g_fmt = (\<lambda>_ _. Pair (Some auth_format)), ik_reqbufs = (\<lambda>_ _. Pair (Some 2)),
     ik_querybuf = (\<lambda>_ i. Pair (Some (auth_buffer_bytes, i))),
     ik_mmap = (\<lambda>_ _ off. Pair (Some (4096 + of_nat off))), ik_qbuf = (\<lambda>_ _. Pair True),
     ik_dqbuf = (\<lambda>_ n. (Dequeued (auth_dequeued n), n + 1)), ik_streamon = (\<lambda>_. Pair True),
     ik_streamoff = (\<lambda>_. Pair True), ik_poll = (\<lambda>_ _. Pair (Poll_Events 1)),
     ik_memory = (\<lambda>_. Pair (\<lambda>_. 0x40))\<rparr>"

definition auth_pipe :: "nat auth_io" where
  "auth_pipe = \<lparr>ao_stop_requested = Pair False, ao_write = (\<lambda>data. Pair (int (length data))), ao_getpid = Pair 7\<rparr>"

definition auth_world :: "nat ir_world" where
  "auth_world = \<lparr>iw_kernel = 0, iw_signals = 0, iw_fds = {}, iw_maps = {}, iw_captures = 0, iw_queued = {}\<rparr>"

lemma auth_camera_fields [simp]:
  "ik_interrupted auth_camera = Pair False" "ik_now auth_camera = Pair 2000000000" "ik_calloc auth_camera = Pair True"
  "ik_glob auth_camera = (\<lambda>p. Pair (Some [if p = ''/dev/media*'' then ''/dev/media0''
       else if p = ''/dev/video*'' then ''/dev/video0'' else ''/dev/v4l-subdev0'']))"
  "ik_stat auth_camera = (\<lambda>p. Pair (Some (True, makedev 81 (if p = ''/dev/video0'' then 3 else 2))))"
  "ik_open auth_camera = (\<lambda>p. Pair (if p = ''/dev/media0'' then 4 else if p = ''/dev/video0'' then 6 else 5))"
  "ik_enum_entities auth_camera = (\<lambda>_ i. Pair (auth_entities i))"
  "ik_enum_links auth_camera =
     (\<lambda>_ i. Pair (Some (\<lambda>_. \<lparr>ml_source = i, ml_sink = i + 1, ml_flags = MEDIA_LNK_FL_ENABLED\<rparr>)))"
  "ik_subdev_s_fmt auth_camera = (\<lambda>_ _ f. Pair (Some f))" "ik_s_fmt auth_camera = (\<lambda>_ _. Pair (Some auth_format))"
  "ik_g_fmt auth_camera = (\<lambda>_ _. Pair (Some auth_format))" "ik_reqbufs auth_camera = (\<lambda>_ _. Pair (Some 2))"
  "ik_querybuf auth_camera = (\<lambda>_ i. Pair (Some (auth_buffer_bytes, i)))"
  "ik_mmap auth_camera = (\<lambda>_ _ off. Pair (Some (4096 + of_nat off)))" "ik_qbuf auth_camera = (\<lambda>_ _. Pair True)"
  "ik_dqbuf auth_camera = (\<lambda>_ n. (Dequeued (auth_dequeued n), n + 1))" "ik_streamon auth_camera = (\<lambda>_. Pair True)"
  "ik_streamoff auth_camera = (\<lambda>_. Pair True)" "ik_poll auth_camera = (\<lambda>_ _. Pair (Poll_Events 1))"
  "ik_memory auth_camera = (\<lambda>_. Pair (\<lambda>_. 0x40))"
  by (simp_all add: auth_camera_def)

lemma auth_pipe_fields [simp]:
  "ao_stop_requested auth_pipe = Pair False" "ao_write auth_pipe = (\<lambda>data. Pair (int (length data)))"
  "ao_getpid auth_pipe = Pair 7"
  by (simp_all add: auth_pipe_def)

lemma auth_interrupted [simp]: "ir_interrupted auth_camera w = (False, w)"
  by (simp add: ir_interrupted_def ir_call_def)

lemma auth_retry [simp]: "ir_ioctl_retry auth_camera f w = ir_call f w"
  by (subst ir_ioctl_retry.simps) (simp add: ir_interrupted_def ir_call_def)

lemma call_pure [simp]: "ir_call (Pair x) w = (x, w)"
  by (simp add: ir_call_def)

lemma auth_enumerate: "enumerate_entities auth_camera fd w =
  (Some [auth_entity 1 ''ov7251'' (Suc 0), auth_entity 2 ''Intel IPU4 CSI-2 1'' (Suc 0), auth_entity 3 ''CSI-2 1 capture 0'' 0], w)"
proof -
  have n: "IR_MEDIA_MAX_ENTITIES = Suc (Suc (Suc (Suc 124)))" by (simp add: IR_MEDIA_MAX_ENTITIES_def)
  have "enumerate_from auth_camera fd (Suc (Suc (Suc (Suc m)))) MEDIA_ENT_ID_FLAG_NEXT [] w =
    (Some [auth_entity 1 ''ov7251'' (Suc 0), auth_entity 2 ''Intel IPU4 CSI-2 1'' (Suc 0),
       auth_entity 3 ''CSI-2 1 capture 0'' 0], w)" for m
    by (simp add: auth_entities_def auth_entity_def MEDIA_ENT_ID_FLAG_NEXT_def)
  then show ?thesis unfolding enumerate_entities_def n .
qed

lemma auth_examine: "examine_graph auth_camera fd
    [auth_entity 1 ''ov7251'' (Suc 0), auth_entity 2 ''Intel IPU4 CSI-2 1'' (Suc 0), auth_entity 3 ''CSI-2 1 capture 0'' 0] w =
  (Some (''/dev/v4l-subdev0'', ''/dev/video0''), w)"
proof -
  have names: "name_has ''ov7251'' ''ov7251''" "\<not> name_has ''Intel IPU4 CSI-2 1'' ''ov7251''"
      "\<not> name_has ''CSI-2 1 capture 0'' ''ov7251''" "name_has ''CSI-2 1 capture 0'' ''CSI-2 1 capture 0''"
    by code_simp+
  show ?thesis
    by (simp add: examine_graph_def last_entity_def auth_entity_def names name_is_def link_route_enabled_def
        scan_links_def IR_MEDIA_MAX_LINKS_def MEDIA_LNK_FL_ENABLED_def find_entity_node_def IR_PATH_SIZE_def)
qed

lemma auth_discover: "discover_graph auth_camera w =
  (Some (4, ''/dev/v4l-subdev0'', ''/dev/video0''), w\<lparr>iw_fds := insert 4 (iw_fds w)\<rparr>)"
  by (simp add: discover_graph_def open_file_def auth_enumerate auth_examine)

definition auth_open_capture :: ir_capture where
  "auth_open_capture = new_capture\<lparr>ic_media_fd := 4, ic_video_path := ''/dev/video0'', ic_csi_fd := 5, ic_video_fd := 6,
     ic_format := auth_format, ic_buffer_count := 2,
     ic_buffers := (ic_buffers new_capture)[0 := (4096, auth_buffer_bytes), 1 := (4097, auth_buffer_bytes)],
     ic_stats := no_stats\<lparr>st_width := 640, st_height := 480, st_stride := 832, st_sizeimage := 399360\<rparr>\<rparr>"

lemma auth_open: "\<exists>w. ir_capture_open auth_camera auth_world = (Some auth_open_capture, w) \<and> iw_kernel w = 0"
proof -
  have f: "\<not> unsupported_format auth_format"
    by (simp add: unsupported_format_def auth_format_def packed_row_bytes_def IR_CAPTURE_WIDTH_def
        IR_CAPTURE_HEIGHT_def IR_CAPTURE_HEADER_BYTES_def IR_CAPTURE_RAW10_BYTES_def IR_CAPTURE_MIN_STRIDE_def
        IR_MAX_ROW_PADDING_def)
  have format: "px_width auth_format = 640" "px_height auth_format = 480"
      "px_bytesperline auth_format = 832" "px_sizeimage auth_format = 399360"
    by (simp_all add: auth_format_def)
  have n: "(2 :: nat) = Suc (Suc 0)" by simp
  have m: "map_from auth_camera 2 0 c w = map_from auth_camera (Suc (Suc 0)) 0 c w" for c w by (simp only: n)
  show ?thesis
    by (simp add: Let_def m ir_capture_open_def open_steps_def auth_discover open_file_def configure_csi_format_def
        negotiate_format_def f map_buffers_def map_memory_def auth_open_capture_def new_capture_def no_stats_def
        format IR_CAPTURE_BUFFERS_def auth_world_def)
qed


lemma auth_decode: "\<exists>y.
  ir_decode_raw10_to_yuyv (map (\<lambda>_. 0x40) [0..<auth_buffer_bytes]) 399360 640 480 832 0
    (replicate IR_CAPTURE_OUTPUT_BYTES 0) = Some (True, y)"
proof -
  let ?y = "replicate IR_CAPTURE_OUTPUT_BYTES 0 :: u8 list" and ?b = "map (\<lambda>_. 0x40) [0..<auth_buffer_bytes] :: u8 list"
  have a: "raw10_accepted 399360 640 480 832 0 (length ?y)"
    by (simp add: raw10_accepted_def raw10_required_def raw10_payload_def IR_CAPTURE_HEADER_BYTES_def
        IR_CAPTURE_OUTPUT_BYTES_def IR_CAPTURE_WIDTH_def IR_CAPTURE_HEIGHT_def)
  have "good_rows ?b 832 0 480 = 480"
    unfolding good_rows_all header_ok_def by (auto simp: auth_buffer_bytes_def)
  then show ?thesis
    using decode_frame [OF a, of ?b] by (simp add: auth_buffer_bytes_def)
qed


text \<open>The camera started by the worker, and a pass that delivers its first frame.\<close>

definition auth_started :: ir_capture where
  "auth_started = update_stats (\<lambda>s. s\<lparr>st_stream_attempt_id := 7, st_stream_start_ns := 2000000000\<rparr>)
     (auth_open_capture\<lparr>ic_streaming := True, ic_discard_error_buffers := True, ic_stream_attempt_id := 7\<rparr>)"

lemma auth_start: "\<exists>w'. ir_capture_start auth_camera (ir_capture_set_stream_attempt_id 7
    (ir_capture_set_discard_error_buffers True auth_open_capture)) w = (0, auth_started, w') \<and> iw_kernel w' = iw_kernel w"
  by (simp add: ir_capture_start_def queue_buffer_def update_stats_def empty_buffer_def auth_started_def
      ir_capture_set_stream_attempt_id_def ir_capture_set_discard_error_buffers_def auth_open_capture_def
      new_capture_def no_stats_def upt_rec)

lemma auth_frame_good:
  "metadata_reasons (note_dequeued (auth_dequeued 0) auth_started) (auth_dequeued 0) = IR_CAPTURE_REJECTION_NONE"
  "plane_metadata_reasons (note_dequeued (auth_dequeued 0) auth_started) (auth_dequeued 0) = IR_CAPTURE_REJECTION_NONE"
  "validate_timestamp (note_dequeued (auth_dequeued 0) auth_started) (vb_timestamp (auth_dequeued 0)) =
    IR_CAPTURE_REJECTION_NONE"
  "\<not> ic_have_sequence (note_dequeued (auth_dequeued 0) auth_started)"
  by (simp_all add: metadata_reasons_def plane_metadata_reasons_def validate_timestamp_def reason_if_def
      note_dequeued_def auth_dequeued_def auth_started_def auth_open_capture_def new_capture_def no_stats_def Let_def
      capacity_available_def capacity_def index_valid_def plane_count_valid_def IR_CAPTURE_REJECTION_NONE_def
      V4L2_BUF_FLAG_TIMESTAMP_MONOTONIC_def V4L2_BUF_FLAG_TIMESTAMP_MASK_def V4L2_BUF_FLAG_ERROR_def
      auth_buffer_bytes_def IR_CAPTURE_BUFFERS_def update_stats_def update_rejection_def)

lemma auth_next:
  assumes "iw_kernel w = 0"
  shows "\<exists>c y w'. ir_capture_next auth_camera t auth_started (replicate IR_CAPTURE_OUTPUT_BYTES 0) w = Some (1, c, y, w') \<and>
    st_last_timestamp_seconds (ic_stats c) = 1 \<and> st_last_timestamp_usec (ic_stats c) = 0"
proof -
  let ?b = "auth_dequeued 0" and ?y = "replicate IR_CAPTURE_OUTPUT_BYTES 0 :: u8 list"
  obtain y where y: "ir_decode_raw10_to_yuyv (map (\<lambda>_. 0x40) [0..<auth_buffer_bytes]) 399360 640 480 832 0 ?y = Some (True, y)"
    using auth_decode by blast
  have "\<exists>c w'. decode_and_requeue auth_camera ?b (note_dequeued ?b auth_started) ?y v = Some (1, c, y, w') \<and>
      st_last_timestamp_seconds (ic_stats c) = 1 \<and> st_last_timestamp_usec (ic_stats c) = 0" for v
    using y
    by (simp add: decode_and_requeue_def queue_buffer_def note_dequeued_def Let_def accept_frame_def update_stats_def
        update_rejection_def auth_started_def auth_open_capture_def new_capture_def auth_dequeued_def auth_format_def
        IR_CAPTURE_BUFFERS_def)
  then have h: "\<exists>c w'. handle_dequeued auth_camera ?b auth_started ?y v = Some (1, c, y, w') \<and>
      st_last_timestamp_seconds (ic_stats c) = 1 \<and> st_last_timestamp_usec (ic_stats c) = 0" for v
    using auth_frame_good by (simp add: handle_dequeued_def Let_def sequence_bad_def count_gap_def)
  have "ic_streaming auth_started" by (simp add: auth_started_def update_stats_def)
  then have "ir_capture_next auth_camera t auth_started ?y w =
      handle_dequeued auth_camera ?b auth_started ?y (w\<lparr>iw_kernel := 1, iw_queued := iw_queued w - {0}\<rparr>)"
    using assms by (simp add: ir_capture_next_def ir_call_def POLLERR_def POLLNVAL_def auth_dequeued_def)
  with h show ?thesis by metis
qed


lemma auth_write: "write_all auth_camera auth_pipe data w = (True, data, w)"
proof (cases "data = []")
  case False
  then show ?thesis by (subst write_all.simps, simp, subst write_all.simps, simp)
qed (simp add: write_all.simps)

lemma auth_run: "\<exists>pipe w. worker_main auth_camera auth_pipe 1 2 auth_world = Some (AUTH_EXIT_SUCCESS, pipe, w)"
proof -
  obtain w1 where o': "ir_capture_open auth_camera auth_world = (Some auth_open_capture, w1)" "iw_kernel w1 = 0"
    using auth_open by blast
  obtain w2 where s: "ir_capture_start auth_camera (ir_capture_set_stream_attempt_id 7
      (ir_capture_set_discard_error_buffers True auth_open_capture)) w1 = (0, auth_started, w2)" "iw_kernel w2 = 0"
    using auth_start [of w1] o'(2) by auto
  obtain c y w3 where n: "ir_capture_next auth_camera AUTH_FRAME_POLL_MS auth_started
      (replicate IR_CAPTURE_OUTPUT_BYTES 0) w2 = Some (1, c, y, w3)"
      "st_last_timestamp_seconds (ic_stats c) = 1" "st_last_timestamp_usec (ic_stats c) = 0"
    using auth_next [OF s(2)] by blast
  have f: "timestamp_fresh (ic_stats c) 2000000000"
    by (simp add: timestamp_fresh_def n(2,3) AUTH_MAX_FRAME_AGE_NS_def)
  have two: "2 = Suc (Suc 0)" by simp
  have stop: "fst (ir_capture_stop auth_camera c w3) = 0"
    by (simp add: ir_capture_stop_def stream_off_def)
  then obtain c' w4 where t: "ir_capture_stop auth_camera c w3 = (0, c', w4)"
    by (metis prod.collapse)
  show ?thesis unfolding two
    by (simp add: worker_main_def o' s worker_pass_def n f auth_write_frame_def auth_write worker_finish_def t
        IR_CAPTURE_RESULT_DISCARDED_def AUTH_EXIT_SUCCESS_def)
qed

section \<open>Properties\<close>

text \<open>
  A frame on the pipe can be read back: behind the magic bytes are, as little-endian
  numbers, the version, the size of the picture and of the payload, the sequence number and
  the timestamp of the frame, and then as many bytes as the header says, the luma of its pixels.
\<close>

theorem auth_frame_roundtrip:
  "take 8 (encoded f) = AUTH_FRAME_MAGIC \<and>
   map (\<lambda>(off, n). read_le (encoded f) off n) [(8, 4), (12, 4), (16, 4), (20, 4), (24, 4), (28, 8), (36, 8)] =
     [1, 640, 480, length (encoded f) - 44, unat (st_last_sequence (fst f)),
      unat (st_last_timestamp_seconds (fst f)), unat (st_last_timestamp_usec (fst f))] \<and>
   drop 44 (encoded f) = map (\<lambda>pixel. snd f ! (2 * pixel)) [0..<640 * 480]"
proof -
  let ?h = "frame_header (fst f)"
  have nth: "encoded f ! i = ?h ! i" if "i < 44" for i using that by (simp add: encoded_def nth_append)
  have at: "encoded f ! (off + i) = put_u32_le v ! i"
    if "i < 4" "off \<in> {8, 12, 16, 20, 24}" "?h ! (off + i) = put_u32_le v ! i" for off i v
    using that by (subst nth) auto
  have at8: "encoded f ! (off + i) = put_u64_le v ! i"
    if "i < 8" "off \<in> {28, 36}" "?h ! (off + i) = put_u64_le v ! i" for off i v
    using that by (subst nth) auto
  have payload: "length (encoded f) = 44 + 640 * 480"
    by (simp add: encoded_def frame_luma_def AUTH_FRAME_PAYLOAD_BYTES_def IR_CAPTURE_WIDTH_def IR_CAPTURE_HEIGHT_def)
  have "take 8 (encoded f) = AUTH_FRAME_MAGIC"
    by (rule nth_equalityI) (simp_all add: encoded_def header_fields(1) nth_append AUTH_FRAME_MAGIC_def)
  moreover have "read_le (encoded f) 8 4 = unat (1 :: u32)" by (rule read_u32) (simp add: at header_fields(2))
  moreover have "read_le (encoded f) 12 4 = unat (of_nat IR_CAPTURE_WIDTH :: u32)"
    by (rule read_u32) (simp add: at header_fields(3))
  moreover have "read_le (encoded f) 16 4 = unat (of_nat IR_CAPTURE_HEIGHT :: u32)"
    by (rule read_u32) (simp add: at header_fields(4))
  moreover have "read_le (encoded f) 20 4 = unat (of_nat AUTH_FRAME_PAYLOAD_BYTES :: u32)"
    by (rule read_u32) (simp add: at header_fields(5))
  moreover have "read_le (encoded f) 24 4 = unat (st_last_sequence (fst f))"
    by (rule read_u32) (simp add: at header_fields(6))
  moreover have "read_le (encoded f) 28 8 = unat (st_last_timestamp_seconds (fst f))"
    by (rule read_u64) (simp add: at8 header_fields(7))
  moreover have "read_le (encoded f) 36 8 = unat (st_last_timestamp_usec (fst f))"
    by (rule read_u64) (simp add: at8 header_fields(8))
  moreover have "drop 44 (encoded f) = frame_luma (snd f)" by (simp add: encoded_def)
  ultimately show ?thesis
    by (simp add: payload frame_luma_def AUTH_FRAME_PAYLOAD_BYTES_def IR_CAPTURE_WIDTH_def IR_CAPTURE_HEIGHT_def
        mult.commute)
qed

text \<open>
  Whatever the camera, the clock and the pipe do, the worker gives back all it took, and
  what it wrote is whole frames, each fresh by the clock, no more than were asked for, then at
  most a part of one.  When it exits with success and a number of frames was asked for, the
  pipe has exactly that many frames and nothing else.
\<close>

theorem auth_worker_delivers:
  assumes "worker_main k io requested n w = Some (status, pipe, w')"
  shows "released w w' \<and>
    (\<exists>fs rest. written_frames k (length fs) (concat (map encoded fs)) fs \<and> pipe = concat (map encoded fs) @ rest \<and>
      partial_frame rest \<and> (requested = 0 \<or> length fs \<le> requested)) \<and>
    (status = AUTH_EXIT_SUCCESS \<and> 0 < requested \<longrightarrow> (\<exists>fs. written_frames k requested pipe fs))"
  using worker_main_spec [OF assms] by blast

lemma auth_worker_delivers_witness:
  "\<exists>pipe w' f. worker_main auth_camera auth_pipe 1 2 auth_world = Some (AUTH_EXIT_SUCCESS, pipe, w') \<and>
    iw_fds w' = {} \<and> pipe = encoded f"
proof -
  obtain pipe w' where r: "worker_main auth_camera auth_pipe 1 2 auth_world = Some (AUTH_EXIT_SUCCESS, pipe, w')"
    using auth_run by blast
  from auth_worker_delivers [OF r] obtain fs where "released auth_world w'" "written_frames auth_camera 1 pipe fs"
    by auto
  moreover from this obtain f where "fs = [f]" by (auto simp: written_frames_def length_Suc_conv)
  ultimately have "iw_fds w' = {}" "pipe = encoded f"
    by (auto simp: released_def auth_world_def written_frames_def)
  then show ?thesis using r by blast
qed

end
