(* ===== verification/AuthSupervisor.thy ===== *)
theory AuthSupervisor
  imports AuthCapture
begin

text \<open>
  The supervisor of \<^verbatim>\<open>cbridge/auth-capture-helper.c\<close>: the lock, the loop that copies the
  worker's pipe to the standard output until the worker has exited and its pipe is empty, or
  the time is over, and \<^verbatim>\<open>main\<close>.
\<close>

section \<open>What the supervisor sees\<close>

datatype exit_kind = Exited int | Ended_Otherwise
datatype wait_reply = Worker_Running | Worker_Ended exit_kind | Wait_Interrupted | Wait_Failed
datatype pipe_poll = Pipe_Quiet | Pipe_Interrupted | Pipe_Poll_Failed | Pipe_Events u16
datatype pipe_read = Pipe_End | Pipe_Bytes "u8 list" | Pipe_Try_Again | Pipe_Error
datatype lock_reply = Locked | Lock_Held | Lock_Error

definition POLLIN :: u16 where "POLLIN = 0x1"
definition POLLHUP :: u16 where "POLLHUP = 0x10"

text \<open>
  \<open>so_poll_out\<close> says whether the standard output is ready and shows no error; \<open>so_check_lock\<close>
  stands for \<^verbatim>\<open>fstat\<close>, its tests and \<^verbatim>\<open>fchmod\<close>.
\<close>

record 's sup_io =
  so_geteuid :: "'s \<Rightarrow> nat \<times> 's"
  so_open_lock :: "'s \<Rightarrow> int \<times> 's"
  so_check_lock :: "int \<Rightarrow> 's \<Rightarrow> bool \<times> 's"
  so_flock :: "int \<Rightarrow> 's \<Rightarrow> lock_reply \<times> 's"
  so_pipe2 :: "'s \<Rightarrow> (int \<times> int) option \<times> 's"
  so_fork :: "'s \<Rightarrow> int \<times> 's"
  so_waitpid :: "'s \<Rightarrow> wait_reply \<times> 's"
  so_kill :: "'s \<Rightarrow> unit \<times> 's"
  so_poll_pipe :: "int \<Rightarrow> 's \<Rightarrow> pipe_poll \<times> 's"
  so_read_pipe :: "'s \<Rightarrow> pipe_read \<times> 's"
  so_poll_out :: "int \<Rightarrow> 's \<Rightarrow> bool \<times> 's"
  so_write_out :: "u8 list \<Rightarrow> 's \<Rightarrow> int \<times> 's"

text \<open>
  \<open>sv_in\<close> and \<open>sv_out\<close> are the bytes read from the pipe and written to the standard output,
  \<open>sv_reaped\<close> whether the worker's process id has been given back, and \<open>sv_kills\<close> what that
  flag was at each signal that was sent.
\<close>

record supervisor =
  sv_done :: bool
  sv_eof :: bool
  sv_status :: exit_kind
  sv_reaped :: bool
  sv_in :: "u8 list"
  sv_out :: "u8 list"
  sv_kills :: "bool list"

section \<open>Copying\<close>

definition remaining_poll_ms :: "u64 \<Rightarrow> u64 \<Rightarrow> int" where
  "remaining_poll_ms deadline now =
     (if now = 0 \<or> now \<ge> deadline then 0
      else sint (ucast ((deadline - now + 999999) div 1000000) :: 32 word))"

function forward_bytes ::
  "'s ir_kernel \<Rightarrow> 's sup_io \<Rightarrow> u64 \<Rightarrow> u8 list \<Rightarrow> 's ir_world \<Rightarrow> bool \<times> u8 list \<times> 's ir_world" where
  "forward_bytes k io deadline data w =
     (if data = [] then (True, [], w)
      else let (now, w1) = ir_call (ik_now k) w;
               (ready, w2) = ir_call (so_poll_out io (remaining_poll_ms deadline now)) w1 in
        if \<not> ready then (False, [], w2)
        else let (intr, w3) = ir_interrupted k w2 in
          if intr then forward_bytes k io deadline data w3
          else let (count, w4) = ir_call (so_write_out io data) w3 in
            if count \<le> 0 then (False, [], w4)
            else case forward_bytes k io deadline (drop (nat count) data) w4 of
              (ok, written, w5) \<Rightarrow> (ok, take (nat count) data @ written, w5))"
  by pat_completeness auto
termination
  by (relation "measures [\<lambda>(k, io, d, data, w). length data, \<lambda>(k, io, d, data, w). iw_signals w]")
    (auto simp: ir_interrupted_def ir_call_def split: prod.splits if_splits)

declare forward_bytes.simps [simp del]

section \<open>The loop\<close>

datatype sup_step = Again | Return int

text \<open>The three exits that stop the worker.\<close>

definition kill_worker :: "'s sup_io \<Rightarrow> supervisor \<Rightarrow> 's ir_world \<Rightarrow> supervisor \<times> 's ir_world" where
  "kill_worker io s w = (s\<lparr>sv_kills := sv_kills s @ [sv_reaped s]\<rparr>, snd (ir_call (so_kill io) w))"

definition give_up ::
  "'s sup_io \<Rightarrow> int \<Rightarrow> int \<Rightarrow> int \<Rightarrow> supervisor \<Rightarrow> 's ir_world \<Rightarrow> sup_step \<times> supervisor \<times> 's ir_world" where
  "give_up io pipe lock status s w =
     (case kill_worker io s w of (s, w) \<Rightarrow> (Return status, s, close_file lock (close_file pipe w)))"

definition note_worker :: "wait_reply \<Rightarrow> supervisor \<Rightarrow> supervisor" where
  "note_worker r s =
     (case r of
        Worker_Ended e \<Rightarrow> s\<lparr>sv_done := True, sv_status := e, sv_reaped := True\<rparr>
      | Wait_Failed \<Rightarrow> s\<lparr>sv_done := True\<rparr>
      | _ \<Rightarrow> s)"

definition copy_pipe ::
  "'s ir_kernel \<Rightarrow> 's sup_io \<Rightarrow> int \<Rightarrow> int \<Rightarrow> u64 \<Rightarrow> supervisor \<Rightarrow> 's ir_world \<Rightarrow> sup_step \<times> supervisor \<times> 's ir_world" where
  "copy_pipe k io pipe lock deadline s w =
     (case ir_call (so_read_pipe io) w of (r, w) \<Rightarrow>
        case r of
          Pipe_End \<Rightarrow> (Again, s\<lparr>sv_eof := True\<rparr>, w)
        | Pipe_Bytes bytes \<Rightarrow>
            (case forward_bytes k io deadline bytes w of (ok, out, w) \<Rightarrow>
               let s = s\<lparr>sv_in := sv_in s @ bytes, sv_out := sv_out s @ out\<rparr> in
               if ok then (Again, s, w) else give_up io pipe lock AUTH_EXIT_FAILURE s w)
        | Pipe_Try_Again \<Rightarrow> (Again, s, w)
        | Pipe_Error \<Rightarrow> give_up io pipe lock AUTH_EXIT_FAILURE s w)"

definition supervise_pass ::
  "'s ir_kernel \<Rightarrow> 's sup_io \<Rightarrow> int \<Rightarrow> int \<Rightarrow> u64 \<Rightarrow> supervisor \<Rightarrow> 's ir_world \<Rightarrow>
     sup_step \<times> supervisor \<times> 's ir_world" where
  "supervise_pass k io pipe lock deadline s w =
     (if sv_done s \<and> sv_eof s then
        (Return (case sv_status s of Exited n \<Rightarrow> n | Ended_Otherwise \<Rightarrow> AUTH_EXIT_FAILURE), s,
         close_file lock (close_file pipe w))
      else
        let (r, w) = ir_call (so_waitpid io) w; s = note_worker r s; (now, w) = ir_call (ik_now k) w in
        if now \<ge> deadline then give_up io pipe lock AUTH_EXIT_TIMEOUT s w
        else
          let (now, w) = ir_call (ik_now k) w; t = remaining_poll_ms deadline now;
              (t, w) = (if t > AUTH_CHILD_POLL_MS then (AUTH_CHILD_POLL_MS, w)
                        else case ir_call (ik_now k) w of (now, w) \<Rightarrow> (remaining_poll_ms deadline now, w));
              (p, w) = ir_call (so_poll_pipe io t) w in
          case p of
            Pipe_Interrupted \<Rightarrow> (Again, s, w)
          | Pipe_Poll_Failed \<Rightarrow> give_up io pipe lock AUTH_EXIT_FAILURE s w
          | Pipe_Quiet \<Rightarrow> (Again, s, w)
          | Pipe_Events revents \<Rightarrow>
              if revents AND (POLLERR OR POLLNVAL) \<noteq> 0 then give_up io pipe lock AUTH_EXIT_FAILURE s w
              else if revents AND (POLLIN OR POLLHUP) \<noteq> 0 then copy_pipe k io pipe lock deadline s w
              else (Again, s, w))"

primrec supervise_loop ::
  "'s ir_kernel \<Rightarrow> 's sup_io \<Rightarrow> int \<Rightarrow> int \<Rightarrow> u64 \<Rightarrow> nat \<Rightarrow> supervisor \<Rightarrow> 's ir_world \<Rightarrow>
     sup_step \<times> supervisor \<times> 's ir_world" where
  "supervise_loop k io pipe lock deadline 0 s w = (Again, s, w)"
| "supervise_loop k io pipe lock deadline (Suc n) s w =
     (case supervise_pass k io pipe lock deadline s w of
        (Again, s, w) \<Rightarrow> supervise_loop k io pipe lock deadline n s w
      | (Return x, s, w) \<Rightarrow> (Return x, s, w))"

definition new_supervisor :: supervisor where
  "new_supervisor = \<lparr>sv_done = False, sv_eof = False, sv_status = Ended_Otherwise, sv_reaped = False,
     sv_in = [], sv_out = [], sv_kills = []\<rparr>"

text \<open>The parent's side of \<^verbatim>\<open>supervise_worker\<close>.\<close>

definition supervise_worker ::
  "'s ir_kernel \<Rightarrow> 's sup_io \<Rightarrow> int \<Rightarrow> nat \<Rightarrow> 's ir_world \<Rightarrow> sup_step \<times> supervisor \<times> 's ir_world" where
  "supervise_worker k io lock n w =
     (let (now, w) = ir_call (ik_now k) w; deadline = now + AUTH_CAPTURE_BUDGET_NS in
      case ir_call (so_pipe2 io) w of
        (None, w) \<Rightarrow> (Return AUTH_EXIT_FAILURE, new_supervisor, w)
      | (Some (rd, wr), w) \<Rightarrow>
          let w = w\<lparr>iw_fds := insert rd (insert wr (iw_fds w))\<rparr>; (pid, w) = ir_call (so_fork io) w in
          if pid < 0 then (Return AUTH_EXIT_FAILURE, new_supervisor, close_file wr (close_file rd w))
          else supervise_loop k io rd lock deadline n new_supervisor (close_file wr w))"

section \<open>The lock and the program\<close>

text \<open>
  \<^verbatim>\<open>open_auth_lock\<close>: a descriptor, -1, or the exit status for a lock that is held.  Closing the
  file is taken to leave \<^verbatim>\<open>errno\<close> as it is.
\<close>

definition open_auth_lock :: "'s sup_io \<Rightarrow> 's ir_world \<Rightarrow> int \<times> 's ir_world" where
  "open_auth_lock io w =
     (case ir_call (so_geteuid io) w of (uid, w) \<Rightarrow>
        if uid \<noteq> 0 then (-1, w)
        else case ir_call (so_open_lock io) w of (fd, w) \<Rightarrow>
          if fd < 0 then (-1, w)
          else let w = w\<lparr>iw_fds := insert fd (iw_fds w)\<rparr> in
            case ir_call (so_check_lock io fd) w of (ok, w) \<Rightarrow>
              if \<not> ok then (-1, close_file fd w)
              else case ir_call (so_flock io fd) w of
                (Locked, w) \<Rightarrow> (fd, w)
              | (Lock_Held, w) \<Rightarrow> (AUTH_EXIT_BUSY, close_file fd w)
              | (Lock_Error, w) \<Rightarrow> (-1, close_file fd w))"

text \<open>\<^verbatim>\<open>strtoul\<close> in base 10: the value, whether it overflowed, and what is left.\<close>

definition strtoul_space :: "char \<Rightarrow> bool" where
  "strtoul_space c \<longleftrightarrow> c \<in> {CHR '' '', CHR 0x09, CHR 0x0a, CHR 0x0b, CHR 0x0c, CHR 0x0d}"

definition digit_value :: "char \<Rightarrow> nat option" where
  "digit_value c = (let n = of_char c in if 48 \<le> n \<and> n \<le> 57 then Some (n - 48) else None)"

definition strtoul :: "string \<Rightarrow> nat \<times> bool \<times> string" where
  "strtoul text =
     (let s = dropWhile strtoul_space text;
          negative = (s \<noteq> [] \<and> hd s = CHR ''-'');
          s = (if s \<noteq> [] \<and> (hd s = CHR ''-'' \<or> hd s = CHR ''+'') then tl s else s);
          digits = takeWhile (\<lambda>c. digit_value c \<noteq> None) s;
          v = foldl (\<lambda>n c. 10 * n + the (digit_value c)) 0 digits in
      if digits = [] then (0, False, text)
      else if v \<ge> 2 ^ 64 then (2 ^ 64 - 1, True, drop (length digits) s)
      else (if negative then (2 ^ 64 - v) mod 2 ^ 64 else v, False, drop (length digits) s))"

definition parse_frames :: "string \<Rightarrow> nat option" where
  "parse_frames text =
     (case strtoul text of (v, overflow, rest) \<Rightarrow>
        if overflow \<or> rest = text \<or> rest \<noteq> [] \<or> v > AUTH_MAX_FRAMES then None else Some v)"

datatype auth_arguments = Show_Usage int | Capture nat

fun parse_arguments :: "string list \<Rightarrow> nat \<Rightarrow> auth_arguments" where
  "parse_arguments [] frames = Capture frames"
| "parse_arguments (a # as) frames =
     (if a = ''--help'' \<or> a = ''-h'' then Show_Usage AUTH_EXIT_SUCCESS
      else if a = ''--frames'' \<and> as \<noteq> [] then
        case parse_frames (hd as) of
          None \<Rightarrow> Show_Usage AUTH_EXIT_FAILURE
        | Some n \<Rightarrow> if n > 0 then parse_arguments (tl as) n else Show_Usage AUTH_EXIT_FAILURE
      else Show_Usage AUTH_EXIT_FAILURE)"

text \<open>\<^verbatim>\<open>main\<close> without the program's name.\<close>

definition auth_main ::
  "'s ir_kernel \<Rightarrow> 's sup_io \<Rightarrow> string list \<Rightarrow> nat \<Rightarrow> 's ir_world \<Rightarrow> sup_step \<times> supervisor \<times> 's ir_world" where
  "auth_main k io args n w =
     (case parse_arguments args AUTH_DEFAULT_FRAMES of
        Show_Usage status \<Rightarrow> (Return status, new_supervisor, w)
      | Capture frames \<Rightarrow>
          (case open_auth_lock io w of (fd, w) \<Rightarrow>
             if fd = AUTH_EXIT_BUSY then (Return AUTH_EXIT_BUSY, new_supervisor, w)
             else if fd < 0 then (Return AUTH_EXIT_FAILURE, new_supervisor, w)
             else supervise_worker k io fd n w))"

section \<open>Lemmas\<close>

lemma forward_bytes_spec:
  "forward_bytes k io deadline data w = (ok, out, w') \<Longrightarrow>
     same_held w w' \<and> (ok \<longrightarrow> out = data) \<and> out = take (length out) data"
proof (induction k io deadline data w arbitrary: ok out w' rule: forward_bytes.induct)
  case (1 k io deadline data w)
  show ?case
  proof (cases "data = []")
    case True
    then show ?thesis using "1.prems" by (subst (asm) forward_bytes.simps) simp
  next
    case ne: False
    obtain now w1 where t: "ir_call (ik_now k) w = (now, w1)" by fastforce
    obtain ready w2 where r: "ir_call (so_poll_out io (remaining_poll_ms deadline now)) w1 = (ready, w2)" by fastforce
    obtain intr w3 where i: "ir_interrupted k w2 = (intr, w3)" by fastforce
    obtain count w4 where c: "ir_call (so_write_out io data) w3 = (count, w4)" by fastforce
    have h2: "same_held w w2" by (rule held_trans [OF call_step(1) [OF t] call_step(1) [OF r]])
    have "same_held w2 w3" using ir_interrupted_frame [of k w2] by (simp add: i same_held_def)
    then have h3: "same_held w w3" by (rule held_trans [OF h2])
    have h4: "same_held w w4" by (rule held_trans [OF h3 call_step(1) [OF c]])
    have eq: "forward_bytes k io deadline data w = (if \<not> ready then (False, [], w2)
        else if intr then forward_bytes k io deadline data w3
        else if count \<le> 0 then (False, [], w4)
        else case forward_bytes k io deadline (drop (nat count) data) w4 of
          (ok, written, w5) \<Rightarrow> (ok, take (nat count) data @ written, w5))"
      using ne by (subst forward_bytes.simps) (simp add: t r i c)
    consider "\<not> ready" | "ready" intr | "ready" "\<not> intr" "count \<le> 0" | "ready" "\<not> intr" "\<not> count \<le> 0" by blast
    then show ?thesis
    proof cases
      case 1
      then show ?thesis using "1.prems" h2 by (simp add: eq)
    next
      case 2
      then have "forward_bytes k io deadline data w3 = (ok, out, w')" using "1.prems" by (simp add: eq)
      from "1.IH"(1) [OF ne t [symmetric] refl r [symmetric] refl _ i [symmetric] refl 2(2) this] 2(1) show ?thesis
        using h3 held_trans by blast
    next
      case 3
      then show ?thesis using "1.prems" h4 by (simp add: eq)
    next
      case 4
      obtain out2 where o2: "forward_bytes k io deadline (drop (nat count) data) w4 = (ok, out2, w')"
          "out = take (nat count) data @ out2"
        using "1.prems" 4 by (auto simp: eq split: prod.splits)
      from "1.IH"(2) [OF ne t [symmetric] refl r [symmetric] refl _ i [symmetric] refl 4(2) c [symmetric] refl 4(3) o2(1)] 4(1)
      show ?thesis using h4 held_trans o2(2) take_then_take by auto
    qed
  qed
qed

text \<open>
  What a step of the supervisor leaves: the output is the input as far as it goes, all of it
  while the loop goes on; a return that is not the worker's own status has sent one signal.
\<close>

definition sup_outcome ::
  "int \<Rightarrow> int \<Rightarrow> supervisor \<Rightarrow> 's ir_world \<Rightarrow> sup_step \<Rightarrow> supervisor \<Rightarrow> 's ir_world \<Rightarrow> bool" where
  "sup_outcome pipe lock s w step s' w' \<longleftrightarrow>
     (case step of
        Again \<Rightarrow> sv_kills s' = sv_kills s \<and> iw_fds w' = iw_fds w \<and> sv_out s' = sv_in s'
      | Return x \<Rightarrow> iw_fds w' = iw_fds w - {pipe, lock} \<and> sv_out s' = take (length (sv_out s')) (sv_in s') \<and>
          (if sv_kills s' = sv_kills s
           then sv_done s' \<and> sv_eof s' \<and> sv_out s' = sv_in s' \<and>
             x = (case sv_status s' of Exited n \<Rightarrow> n | Ended_Otherwise \<Rightarrow> AUTH_EXIT_FAILURE)
           else sv_kills s' = sv_kills s @ [sv_reaped s'] \<and> x \<in> {AUTH_EXIT_FAILURE, AUTH_EXIT_TIMEOUT}))"

lemma give_up_outcome:
  assumes "give_up io pipe lock x s w = (step, s', w')" "x \<in> {AUTH_EXIT_FAILURE, AUTH_EXIT_TIMEOUT}"
    and "iw_fds w = iw_fds w0" "sv_kills s = sv_kills s0" "sv_out s = take (length (sv_out s)) (sv_in s)"
  shows "sup_outcome pipe lock s0 w0 step s' w'"
proof -
  have "iw_fds (snd (ir_call (so_kill io) w)) = iw_fds w" by (simp add: ir_call_def split: prod.splits)
  then show ?thesis using assms by (auto simp: give_up_def kill_worker_def sup_outcome_def close_file_def)
qed

lemma note_worker_fields [simp]:
  "sv_kills (note_worker r s) = sv_kills s" "sv_in (note_worker r s) = sv_in s"
  "sv_out (note_worker r s) = sv_out s" "sv_eof (note_worker r s) = sv_eof s"
  by (simp_all add: note_worker_def split: wait_reply.splits)

lemma held_fds: "same_held w w' \<Longrightarrow> iw_fds w' = iw_fds w"
  by (simp add: same_held_def)

lemma copy_pipe_outcome:
  assumes "copy_pipe k io pipe lock deadline s w = (step, s', w')"
    and "iw_fds w = iw_fds w0" "sv_kills s = sv_kills s0" "sv_out s = sv_in s"
  shows "sup_outcome pipe lock s0 w0 step s' w'"
proof -
  obtain r w1 where r: "ir_call (so_read_pipe io) w = (r, w1)" by fastforce
  have f1: "iw_fds w1 = iw_fds w0" using held_fds [OF call_step(1) [OF r]] assms(2) by simp
  show ?thesis
  proof (cases r)
    case (Pipe_Bytes bytes)
    obtain ok out w2 where f: "forward_bytes k io deadline bytes w1 = (ok, out, w2)" by (rule prod_cases3)
    note sp = forward_bytes_spec [OF f]
    have f2: "iw_fds w2 = iw_fds w0" using held_fds sp f1 by auto
    show ?thesis
    proof (cases ok)
      case True
      then show ?thesis using assms sp f2 by (auto simp: copy_pipe_def r Pipe_Bytes f sup_outcome_def Let_def)
    next
      case False
      let ?s = "s\<lparr>sv_in := sv_in s @ bytes, sv_out := sv_out s @ out\<rparr>"
      have g: "give_up io pipe lock AUTH_EXIT_FAILURE ?s w2 = (step, s', w')"
        using assms(1) False by (simp add: copy_pipe_def r Pipe_Bytes f Let_def)
      have t: "sv_out ?s = take (length (sv_out ?s)) (sv_in ?s)" using assms(4) sp by simp
      show ?thesis by (rule give_up_outcome [OF g _ f2 _ t]) (simp_all add: assms(3))
    qed
  next
    case Pipe_Error
    then have "give_up io pipe lock AUTH_EXIT_FAILURE s w1 = (step, s', w')" using assms(1) by (simp add: copy_pipe_def r)
    then show ?thesis using give_up_outcome [of io pipe lock AUTH_EXIT_FAILURE s w1] f1 assms(3,4) by simp
  qed (use assms f1 in \<open>auto simp: copy_pipe_def r sup_outcome_def\<close>)
qed


lemma supervise_pass_outcome:
  assumes "supervise_pass k io pipe lock deadline s w = (step, s', w')" "sv_out s = sv_in s"
  shows "sup_outcome pipe lock s w step s' w'"
proof (cases "sv_done s \<and> sv_eof s")
  case True
  then show ?thesis using assms by (auto simp: supervise_pass_def sup_outcome_def close_file_def)
next
  case run: False
  obtain r w1 where r: "ir_call (so_waitpid io) w = (r, w1)" by fastforce
  obtain now w2 where t: "ir_call (ik_now k) w1 = (now, w2)" by fastforce
  let ?s = "note_worker r s"
  have f1: "iw_fds w1 = iw_fds w" by (rule held_fds [OF call_step(1) [OF r]])
  then have f2: "iw_fds w2 = iw_fds w" using held_fds [OF call_step(1) [OF t]] by simp
  have given: "sup_outcome pipe lock s w step s' w'"
    if "give_up io pipe lock x ?s v = (step, s', w')" "x \<in> {AUTH_EXIT_FAILURE, AUTH_EXIT_TIMEOUT}"
      "iw_fds v = iw_fds w" for x v
    by (rule give_up_outcome [OF that]) (simp_all add: assms(2))
  show ?thesis
  proof (cases "now \<ge> deadline")
    case True
    then have "give_up io pipe lock AUTH_EXIT_TIMEOUT ?s w2 = (step, s', w')"
      using assms(1) unfolding supervise_pass_def if_not_P [OF run] Let_def r prod.case t by simp
    then show ?thesis using given f2 by simp
  next
    case False
    obtain t1 w3 where t1: "ir_call (ik_now k) w2 = (t1, w3)" by fastforce
    obtain t2 w4 where t2: "(if remaining_poll_ms deadline t1 > AUTH_CHILD_POLL_MS then (AUTH_CHILD_POLL_MS, w3)
        else case ir_call (ik_now k) w3 of (now, w) \<Rightarrow> (remaining_poll_ms deadline now, w)) = (t2, w4)" by fastforce
    obtain p w5 where p: "ir_call (so_poll_pipe io t2) w4 = (p, w5)" by fastforce
    have f3: "iw_fds w3 = iw_fds w" using held_fds [OF call_step(1) [OF t1]] f2 by simp
    have "iw_fds v = iw_fds w3" if "ir_call (ik_now k) w3 = (y, v)" for y v by (rule held_fds [OF call_step(1) [OF that]])
    then have "iw_fds w4 = iw_fds w" using t2 f3 by (fastforce split: if_splits prod.splits)
    then have f5: "iw_fds w5 = iw_fds w" using held_fds [OF call_step(1) [OF p]] by simp
    have eq: "supervise_pass k io pipe lock deadline s w = (case p of
            Pipe_Interrupted \<Rightarrow> (Again, ?s, w5)
          | Pipe_Poll_Failed \<Rightarrow> give_up io pipe lock AUTH_EXIT_FAILURE ?s w5
          | Pipe_Quiet \<Rightarrow> (Again, ?s, w5)
          | Pipe_Events revents \<Rightarrow>
              if revents AND (POLLERR OR POLLNVAL) \<noteq> 0 then give_up io pipe lock AUTH_EXIT_FAILURE ?s w5
              else if revents AND (POLLIN OR POLLHUP) \<noteq> 0 then copy_pipe k io pipe lock deadline ?s w5
              else (Again, ?s, w5))"
      unfolding supervise_pass_def if_not_P [OF run] Let_def r prod.case t if_not_P [OF False] t1 t2 p by (rule refl)
    have again: "sup_outcome pipe lock s w step s' w'" if "(Again, ?s, w5) = (step, s', w')"
      using that assms(2) f5 by (auto simp: sup_outcome_def)
    have copied: "sup_outcome pipe lock s w step s' w'" if "copy_pipe k io pipe lock deadline ?s w5 = (step, s', w')"
      by (rule copy_pipe_outcome [OF that f5]) (simp_all add: assms(2))
    show ?thesis using assms(1) again given [OF _ _ f5] copied
      by (auto simp: eq split: pipe_poll.splits if_splits)
  qed
qed

lemma supervise_loop_outcome:
  "supervise_loop k io pipe lock deadline n s w = (step, s', w') \<Longrightarrow> sv_out s = sv_in s \<Longrightarrow>
     sup_outcome pipe lock s w step s' w'"
proof (induction n arbitrary: s w)
  case 0
  then show ?case by (auto simp: sup_outcome_def)
next
  case (Suc n)
  obtain x b v where p: "supervise_pass k io pipe lock deadline s w = (x, b, v)" by (rule prod_cases3)
  note o' = supervise_pass_outcome [OF p Suc.prems(2)]
  show ?case
  proof (cases x)
    case Again
    then have b: "sv_kills b = sv_kills s" "iw_fds v = iw_fds w" "sv_out b = sv_in b"
      using o' by (auto simp: sup_outcome_def)
    have "sup_outcome pipe lock b v step s' w'"
      using Suc.prems(1) Suc.IH [of b v] b(3) by (simp add: p Again)
    then show ?thesis by (simp only: sup_outcome_def b(1,2))
  next
    case (Return y)
    then show ?thesis using o' Suc.prems(1) by (simp add: p)
  qed
qed

section \<open>Properties\<close>


section \<open>Example\<close>

text \<open>
  A worker that has exited with 0 and left two bytes in its pipe.  The state counts the waits
  for the pipe, and the clock reads it, up to 10.
\<close>

definition sup_clock :: "nat \<Rightarrow> u64" where
  "sup_clock s = of_nat (min s 10)"

definition sup_kernel :: "nat ir_kernel" where
  "sup_kernel = auth_camera\<lparr>ik_now := \<lambda>s. (sup_clock s, s)\<rparr>"

definition sup_pipe :: "nat sup_io" where
  "sup_pipe = \<lparr>so_geteuid = Pair 0, so_open_lock = Pair 2, so_check_lock = (\<lambda>_. Pair True), so_flock = (\<lambda>_. Pair Locked),
     so_pipe2 = Pair (Some (4, 5)), so_fork = Pair 100, so_waitpid = Pair (Worker_Ended (Exited 0)),
     so_kill = Pair (), so_poll_pipe = (\<lambda>_ s. (Pipe_Events POLLIN, s + 1)),
     so_read_pipe = (\<lambda>s. (if s = 1 then Pipe_Bytes [83, 80] else Pipe_End, s)),
     so_poll_out = (\<lambda>_. Pair True), so_write_out = (\<lambda>data. Pair (int (length data)))\<rparr>"

lemma sup_pipe_fields [simp]:
  "so_geteuid sup_pipe = Pair 0" "so_open_lock sup_pipe = Pair 2" "so_check_lock sup_pipe = (\<lambda>_. Pair True)"
  "so_flock sup_pipe = (\<lambda>_. Pair Locked)" "so_pipe2 sup_pipe = Pair (Some (4, 5))" "so_fork sup_pipe = Pair 100"
  "so_waitpid sup_pipe = Pair (Worker_Ended (Exited 0))" "so_kill sup_pipe = Pair ()"
  "so_poll_pipe sup_pipe = (\<lambda>_ s. (Pipe_Events POLLIN, s + 1))"
  "so_read_pipe sup_pipe = (\<lambda>s. (if s = 1 then Pipe_Bytes [83, 80] else Pipe_End, s))"
  "so_poll_out sup_pipe = (\<lambda>_. Pair True)" "so_write_out sup_pipe = (\<lambda>data. Pair (int (length data)))"
  by (simp_all add: sup_pipe_def)

lemma sup_kernel_fields [simp]:
  "ik_now sup_kernel = (\<lambda>s. (sup_clock s, s))" "ik_interrupted sup_kernel = Pair False"
  by (simp_all add: sup_kernel_def)

lemma sup_forward: "forward_bytes sup_kernel sup_pipe deadline data w = (True, data, w)"
proof (cases "data = []")
  case False
  then show ?thesis
    by (subst forward_bytes.simps, simp add: ir_interrupted_def ir_call_def, subst forward_bytes.simps, simp)
qed (simp add: forward_bytes.simps)

lemma sup_run: "\<exists>s w. supervise_worker sup_kernel sup_pipe 3 3 auth_world = (Return 0, s, w) \<and> sv_out s = [83, 80]"
proof -
  have three: "3 = Suc (Suc (Suc 0))" by simp
  have early: "\<not> (3000000000 :: u64) \<le> 1" "\<not> (3000000000 :: u64) \<le> 0" by (simp_all add: word_le_nat_alt)
  have t: "(if remaining_poll_ms d u > AUTH_CHILD_POLL_MS then (AUTH_CHILD_POLL_MS, w)
      else case ir_call (ik_now sup_kernel) w of (now, w) \<Rightarrow> (remaining_poll_ms d now, w)) =
    (if remaining_poll_ms d u > AUTH_CHILD_POLL_MS then AUTH_CHILD_POLL_MS
      else remaining_poll_ms d (sup_clock (iw_kernel w)), w)" for d u w
    by (simp add: ir_call_def)
  show ?thesis unfolding three
    by (simp add: supervise_worker_def supervise_pass_def early t auth_world_def ir_call_def sup_clock_def
        AUTH_CAPTURE_BUDGET_NS_def new_supervisor_def note_worker_def copy_pipe_def sup_forward close_file_def
        POLLIN_def POLLHUP_def POLLERR_def POLLNVAL_def Let_def)
qed


section \<open>The deadline\<close>

text \<open>
  What is relied on of a clock of the kernel, its value in a state being \<open>clock\<close>: reading it
  gives that value, no call takes it back, and a wait for the pipe takes some time while the
  deadline is ahead.
\<close>

definition no_earlier :: "('s \<Rightarrow> u64) \<Rightarrow> ('s \<Rightarrow> 'a \<times> 's) \<Rightarrow> bool" where
  "no_earlier clock f \<longleftrightarrow> (\<forall>s. clock s \<le> clock (snd (f s)))"

definition clock_runs :: "'s ir_kernel \<Rightarrow> 's sup_io \<Rightarrow> u64 \<Rightarrow> ('s \<Rightarrow> u64) \<Rightarrow> bool" where
  "clock_runs k io deadline clock \<longleftrightarrow>
     (\<forall>s. fst (ik_now k s) = clock s) \<and> no_earlier clock (ik_now k) \<and> no_earlier clock (ik_interrupted k) \<and>
     no_earlier clock (so_waitpid io) \<and> no_earlier clock (so_read_pipe io) \<and>
     (\<forall>t. no_earlier clock (so_poll_out io t)) \<and> (\<forall>data. no_earlier clock (so_write_out io data)) \<and>
     (\<forall>t. no_earlier clock (so_poll_pipe io t)) \<and>
     (\<forall>t s. clock s < deadline \<longrightarrow> clock s < clock (snd (so_poll_pipe io t s)))"

lemma call_no_earlier: "no_earlier clock f \<Longrightarrow> ir_call f w = (x, w') \<Longrightarrow> clock (iw_kernel w) \<le> clock (iw_kernel w')"
  by (auto simp: no_earlier_def ir_call_def split: prod.splits dest!: spec [of _ "iw_kernel w"])

lemma call_reads_clock:
  "clock_runs k io deadline clock \<Longrightarrow> ir_call (ik_now k) w = (x, w') \<Longrightarrow> x = clock (iw_kernel w)"
  by (auto simp: clock_runs_def ir_call_def split: prod.splits dest!: spec [of _ "iw_kernel w"])

lemma interrupted_no_earlier:
  assumes "no_earlier clock (ik_interrupted k)"
  shows "clock (iw_kernel w) \<le> clock (iw_kernel (snd (ir_interrupted k w)))"
proof -
  obtain b v where c: "ir_call (ik_interrupted k) w = (b, v)" by fastforce
  then show ?thesis using call_no_earlier [OF assms c] by (simp add: ir_interrupted_def)
qed

lemma forward_bytes_no_earlier:
  assumes "clock_runs k io deadline clock"
  shows "clock (iw_kernel w) \<le> clock (iw_kernel (snd (snd (forward_bytes k io deadline data w))))"
  using assms
proof (induction k io deadline data w rule: forward_bytes.induct)
  case (1 k io deadline data w)
  note runs = "1.prems" [unfolded clock_runs_def]
  show ?case
  proof (cases "data = []")
    case True
    then show ?thesis by (subst forward_bytes.simps) simp
  next
    case ne: False
    obtain now w1 where t: "ir_call (ik_now k) w = (now, w1)" by fastforce
    obtain ready w2 where r: "ir_call (so_poll_out io (remaining_poll_ms deadline now)) w1 = (ready, w2)" by fastforce
    obtain intr w3 where i: "ir_interrupted k w2 = (intr, w3)" by fastforce
    obtain count w4 where c: "ir_call (so_write_out io data) w3 = (count, w4)" by fastforce
    have e1: "clock (iw_kernel w) \<le> clock (iw_kernel w1)" using call_no_earlier [OF _ t] runs by blast
    have e2: "clock (iw_kernel w1) \<le> clock (iw_kernel w2)" using call_no_earlier [OF _ r] runs by blast
    have e3: "clock (iw_kernel w2) \<le> clock (iw_kernel w3)" using interrupted_no_earlier [of clock k w2] runs i by simp
    have e4: "clock (iw_kernel w3) \<le> clock (iw_kernel w4)" using call_no_earlier [OF _ c] runs by blast
    have eq: "forward_bytes k io deadline data w = (if \<not> ready then (False, [], w2)
        else if intr then forward_bytes k io deadline data w3
        else if count \<le> 0 then (False, [], w4)
        else case forward_bytes k io deadline (drop (nat count) data) w4 of
          (ok, written, w5) \<Rightarrow> (ok, take (nat count) data @ written, w5))"
      using ne by (subst forward_bytes.simps) (simp add: t r i c)
    consider "\<not> ready" | "ready" intr | "ready" "\<not> intr" "count \<le> 0" | "ready" "\<not> intr" "\<not> count \<le> 0" by blast
    then show ?thesis
    proof cases
      case 1
      then show ?thesis using e1 e2 by (auto simp: eq)
    next
      case 2
      from "1.IH"(1) [OF ne t [symmetric] refl r [symmetric] refl _ i [symmetric] refl 2(2) "1.prems"] 2
      show ?thesis using e1 e2 e3 by (auto simp: eq)
    next
      case 3
      then show ?thesis using e1 e2 e3 e4 by (auto simp: eq)
    next
      case 4
      from "1.IH"(2) [OF ne t [symmetric] refl r [symmetric] refl _ i [symmetric] refl 4(2) c [symmetric] refl 4(3) "1.prems"] 4
      show ?thesis using e1 e2 e3 e4 by (auto simp: eq split_beta)
    qed
  qed
qed

text \<open>A pass that goes on was started before the deadline and has let the clock run.\<close>

lemma pass_advances:
  assumes runs: "clock_runs k io deadline clock"
    and p: "supervise_pass k io pipe lock deadline s w = (Again, s', w')"
  shows "clock (iw_kernel w) < deadline \<and> clock (iw_kernel w) < clock (iw_kernel w') \<or>
    clock (iw_kernel w) < deadline \<and> deadline \<le> clock (iw_kernel w')"
proof -
  note r = runs [unfolded clock_runs_def]
  have more: "\<not> (sv_done s \<and> sv_eof s)" using p by (auto simp: supervise_pass_def)
  obtain x w1 where x: "ir_call (so_waitpid io) w = (x, w1)" by fastforce
  obtain now w2 where t: "ir_call (ik_now k) w1 = (now, w2)" by fastforce
  let ?s = "note_worker x s"
  have gu: "fst (give_up io pipe lock y u v) \<noteq> Again" for y u v by (simp add: give_up_def split: prod.splits)
  then have gu: "give_up io pipe lock y u v \<noteq> (Again, s', w')" for y u v by (metis fst_conv)
  have e1: "clock (iw_kernel w) \<le> clock (iw_kernel w1)" using call_no_earlier [OF _ x] r by blast
  have e2: "clock (iw_kernel w1) \<le> clock (iw_kernel w2)" using call_no_earlier [OF _ t] r by blast
  have now: "now = clock (iw_kernel w1)" by (rule call_reads_clock [OF runs t])
  have early: "\<not> now \<ge> deadline"
  proof
    assume "now \<ge> deadline"
    then show False
      using p gu unfolding supervise_pass_def if_not_P [OF more] Let_def x prod.case t by simp
  qed
  then have start: "clock (iw_kernel w) < deadline" using now e1 by simp
  obtain t1 w3 where t1: "ir_call (ik_now k) w2 = (t1, w3)" by fastforce
  obtain t2 w4 where t2: "(if remaining_poll_ms deadline t1 > AUTH_CHILD_POLL_MS then (AUTH_CHILD_POLL_MS, w3)
      else case ir_call (ik_now k) w3 of (now, w) \<Rightarrow> (remaining_poll_ms deadline now, w)) = (t2, w4)" by fastforce
  obtain q w5 where q: "ir_call (so_poll_pipe io t2) w4 = (q, w5)" by fastforce
  have e3: "clock (iw_kernel w2) \<le> clock (iw_kernel w3)" using call_no_earlier [OF _ t1] r by blast
  have "clock (iw_kernel w3) \<le> clock (iw_kernel v)" if "ir_call (ik_now k) w3 = (y, v)" for y v
    using call_no_earlier [OF _ that] r by blast
  then have e4: "clock (iw_kernel w3) \<le> clock (iw_kernel w4)" using t2 by (fastforce split: if_splits prod.splits)
  have e5: "clock (iw_kernel w4) \<le> clock (iw_kernel w5)" using call_no_earlier [OF _ q] r by blast
  have "snd (so_poll_pipe io t2 (iw_kernel w4)) = iw_kernel w5" using q by (auto simp: ir_call_def split: prod.splits)
  then have s5: "clock (iw_kernel w4) < deadline \<longrightarrow> clock (iw_kernel w4) < clock (iw_kernel w5)" using r by metis
  have eq: "supervise_pass k io pipe lock deadline s w = (case q of
          Pipe_Interrupted \<Rightarrow> (Again, ?s, w5)
        | Pipe_Poll_Failed \<Rightarrow> give_up io pipe lock AUTH_EXIT_FAILURE ?s w5
        | Pipe_Quiet \<Rightarrow> (Again, ?s, w5)
        | Pipe_Events revents \<Rightarrow>
            if revents AND (POLLERR OR POLLNVAL) \<noteq> 0 then give_up io pipe lock AUTH_EXIT_FAILURE ?s w5
            else if revents AND (POLLIN OR POLLHUP) \<noteq> 0 then copy_pipe k io pipe lock deadline ?s w5
            else (Again, ?s, w5))"
    unfolding supervise_pass_def if_not_P [OF more] Let_def x prod.case t if_not_P [OF early] t1 t2 q by (rule refl)
  have copy: "clock (iw_kernel w5) \<le> clock (iw_kernel w')" if c: "copy_pipe k io pipe lock deadline ?s w5 = (Again, s', w')"
  proof -
    obtain y w6 where y: "ir_call (so_read_pipe io) w5 = (y, w6)" by fastforce
    have e6: "clock (iw_kernel w5) \<le> clock (iw_kernel w6)" using call_no_earlier [OF _ y] r by blast
    show ?thesis
    proof (cases y)
      case (Pipe_Bytes bytes)
      obtain ok out w7 where f: "forward_bytes k io deadline bytes w6 = (ok, out, w7)" by (rule prod_cases3)
      have "clock (iw_kernel w6) \<le> clock (iw_kernel w7)" using forward_bytes_no_earlier [OF runs, of w6 bytes] by (simp add: f)
      moreover have "w' = w7" using c gu by (auto simp: copy_pipe_def y Pipe_Bytes f Let_def split: if_splits)
      ultimately show ?thesis using e6 by simp
    qed (use c gu e6 in \<open>auto simp: copy_pipe_def y\<close>)
  qed
  have "clock (iw_kernel w5) \<le> clock (iw_kernel w')"
    using p copy gu by (auto simp: eq split: pipe_poll.splits if_splits)
  moreover have "clock (iw_kernel w) < clock (iw_kernel w5) \<or> deadline \<le> clock (iw_kernel w5)"
    using e1 e2 e3 e4 e5 s5 by (meson le_less_trans less_le_trans linorder_not_le order_trans)
  ultimately show ?thesis using start by (meson less_le_trans order_trans)
qed

lemma loop_ends:
  assumes "clock_runs k io deadline clock"
  shows "unat deadline - unat (clock (iw_kernel w)) < n \<Longrightarrow> fst (supervise_loop k io pipe lock deadline n s w) \<noteq> Again"
proof (induction n arbitrary: s w)
  case (Suc n)
  obtain x b v where p: "supervise_pass k io pipe lock deadline s w = (x, b, v)" by (rule prod_cases3)
  show ?case
  proof (cases x)
    case Again
    have "unat deadline - unat (clock (iw_kernel v)) < unat deadline - unat (clock (iw_kernel w))"
      using pass_advances [OF assms p [unfolded Again]] by (auto simp: word_less_nat_alt word_le_nat_alt)
    then show ?thesis using Suc.IH [of v b] Suc.prems by (simp add: p Again)
  qed (simp add: p)
qed simp

text \<open>
  The supervisor comes back: while the monotonic clock runs, its loop ends after at most as
  many passes as the deadline is nanoseconds away, whether or not the worker ever writes,
  exits or closes its pipe.
\<close>

theorem auth_supervisor_deadline:
  assumes "clock_runs k io deadline clock"
  shows "\<exists>x s' w'. supervise_loop k io pipe lock deadline (unat deadline - unat (clock (iw_kernel w)) + 1) s w =
    (Return x, s', w')"
proof -
  obtain x s' w' where r:
    "supervise_loop k io pipe lock deadline (unat deadline - unat (clock (iw_kernel w)) + 1) s w = (x, s', w')"
    by (rule prod_cases3)
  with loop_ends [OF assms, of w "unat deadline - unat (clock (iw_kernel w)) + 1" pipe lock s] show ?thesis
    by (cases x) auto
qed

lemma unat_sup_clock: "unat (sup_clock s) = min s 10"
  by (simp add: sup_clock_def unsigned_of_nat take_bit_nat_eq_self)

lemma sup_clock_runs: "clock_runs sup_kernel sup_pipe 5 sup_clock"
  by (auto simp: clock_runs_def no_earlier_def word_le_nat_alt word_less_nat_alt unat_sup_clock)

lemma auth_supervisor_deadline_witness:
  "\<exists>x s w. supervise_loop sup_kernel sup_pipe 4 3 5 6 new_supervisor auth_world = (Return x, s, w)"
  using auth_supervisor_deadline [OF sup_clock_runs, of 4 3 auth_world new_supervisor]
  by (simp add: auth_world_def sup_clock_def)

section \<open>Errors\<close>

text \<open>
  A worker that was waited for while its pipe still had data is signalled at the deadline all
  the same, by a process id that is no longer its own.
\<close>

lemma auth_kill_after_wait:
  assumes "sv_reaped s" "\<not> sv_eof s" "ir_call (so_waitpid io) w = (Wait_Failed, w1)"
    "ir_call (ik_now k) w1 = (now, w2)" "deadline \<le> now"
  shows "\<exists>s' w'. supervise_pass k io pipe lock deadline s w = (Return AUTH_EXIT_TIMEOUT, s', w') \<and>
    sv_kills s' = sv_kills s @ [True]"
  using assms by (auto simp: supervise_pass_def give_up_def kill_worker_def note_worker_def)

text \<open>A lock whose descriptor is 2 is taken for one that is held by another process.\<close>

lemma auth_lock_descriptor_two:
  assumes "open_auth_lock io w = (2, w1)"
  shows "auth_main k io [] n w = (Return AUTH_EXIT_BUSY, new_supervisor, w1)"
  using assms by (simp add: auth_main_def AUTH_EXIT_BUSY_def)

lemma sup_lock_two: "\<exists>w. open_auth_lock sup_pipe auth_world = (2, w) \<and> iw_fds w = {2}"
  by (simp add: open_auth_lock_def ir_call_def auth_world_def)

text \<open>
  The number of frames is 5 unless \<^verbatim>\<open>--frames\<close> sets it, and then it is from 1 to 12.
\<close>

lemma parse_frames_bound: "parse_frames text = Some n \<Longrightarrow> n \<le> AUTH_MAX_FRAMES"
  by (auto simp: parse_frames_def split: prod.splits if_splits)

theorem auth_frames_bounded:
  "case parse_arguments args AUTH_DEFAULT_FRAMES of
     Capture n \<Rightarrow> 1 \<le> n \<and> n \<le> 12
   | Show_Usage status \<Rightarrow> status = AUTH_EXIT_SUCCESS \<or> status = AUTH_EXIT_FAILURE"
proof -
  have "1 \<le> frames \<and> frames \<le> 12 \<Longrightarrow> case parse_arguments args frames of
     Capture n \<Rightarrow> 1 \<le> n \<and> n \<le> 12
   | Show_Usage status \<Rightarrow> status = AUTH_EXIT_SUCCESS \<or> status = AUTH_EXIT_FAILURE" for frames
  proof (induction args frames rule: parse_arguments.induct)
    case (2 a as frames)
    then show ?case using parse_frames_bound [of "hd as"]
      by (auto simp: AUTH_MAX_FRAMES_def split: option.splits)
  qed simp
  then show ?thesis by (simp add: AUTH_DEFAULT_FRAMES_def)
qed

text \<open>\<^verbatim>\<open>strtoul\<close> takes a sign, so that a negative number can be a number of frames.\<close>

lemma auth_negative_frames: "parse_frames ''-18446744073709551611'' = Some 5"
  by (simp add: parse_frames_def strtoul_def strtoul_space_def digit_value_def Let_def AUTH_MAX_FRAMES_def)

end
