(* ===== verification/FwCom.thy ===== *)
theory FwCom
  imports Prelude
begin

text \<open>
  The firmware communication layer \<^verbatim>\<open>ipu-fw-com.c\<close>: token queues in DMA memory whose
  read and write indices live in device memory, and the start/stop handshake with the
  firmware cell.

  Device memory is a map from MMIO addresses to 32-bit registers; the firmware's writes
  to it are steps of the environment.  The queue descriptors the code keeps in the DMA
  buffer are lists in the context; the tokens are a map from host addresses to messages.
  A pointer is a 64-bit word, 0 being \<^verbatim>\<open>NULL\<close>.
\<close>

section \<open>Data\<close>

type_synonym regs = "u64 \<Rightarrow> u32"

record sys_queue =
  sq_host_address :: u64
  sq_vied_address :: u32
  sq_size :: u32
  sq_token_size :: u32
  sq_wr_reg :: u32
  sq_rd_reg :: u32

record sys_queue_res =
  res_host_address :: u64
  res_vied_address :: u32
  res_reg :: u32

record syscom_config =
  sc_num_input_queues :: u32
  sc_num_output_queues :: u32
  sc_input_queue :: u32
  sc_output_queue :: u32
  sc_specific_addr :: u32
  sc_specific_size :: u32

record syscom_queue_config =
  qc_queue_size :: u32
  qc_token_size :: u32

record fw_com_cfg =
  cfg_num_input_queues :: u32
  cfg_num_output_queues :: u32
  cfg_input :: "syscom_queue_config list"
  cfg_output :: "syscom_queue_config list"
  cfg_dmem_addr :: u32
  cfg_specific :: "u8 list option"
  cfg_specific_size :: u32
  cfg_cell_ready :: "(regs \<Rightarrow> bool) option"
  cfg_cell_start :: "(regs \<Rightarrow> regs) option"

record fw_com_context =
  fc_dmem_addr :: u64
  fc_cell_ready :: "regs \<Rightarrow> bool"
  fc_cell_start :: "regs \<Rightarrow> regs"
  fc_dma_buffer :: u64
  fc_dma_addr :: u64
  fc_dma_size :: u32
  fc_num_input_queues :: u32
  fc_num_output_queues :: u32
  fc_input_queue :: "sys_queue list"
  fc_output_queue :: "sys_queue list"
  fc_config :: syscom_config
  fc_specific :: "u8 list"
  fc_config_vied_addr :: u32
  fc_input_queue_vied_addr :: u32
  fc_output_queue_vied_addr :: u32
  fc_specific_vied_addr :: u32
  fc_ibuf_host_addr :: u64
  fc_obuf_host_addr :: u64
  fc_ibuf_vied_addr :: u32
  fc_obuf_vied_addr :: u32

definition SYSCOM_STATE_UNINIT :: u32 where "SYSCOM_STATE_UNINIT = 0x57A7E000"
definition SYSCOM_STATE_READY :: u32 where "SYSCOM_STATE_READY = 0x57A7E001"
definition SYSCOM_COMMAND_UNINIT :: u32 where "SYSCOM_COMMAND_UNINIT = 0x57A7F000"
definition SYSCOM_COMMAND_INACTIVE :: u32 where "SYSCOM_COMMAND_INACTIVE = 0x57A7F001"

definition FW_COM_WR_REG :: u64 where "FW_COM_WR_REG = 0"
definition FW_COM_RD_REG :: u64 where "FW_COM_RD_REG = 4"

definition SYSCOM_CONFIG_REG :: u64 where "SYSCOM_CONFIG_REG = 1"
definition SYSCOM_STATE_REG :: u64 where "SYSCOM_STATE_REG = 2"
definition SYSCOM_COMMAND_REG :: u64 where "SYSCOM_COMMAND_REG = 3"
definition SYSCOM_QPR_BASE_REG :: u32 where "SYSCOM_QPR_BASE_REG = 6"

datatype message_direction = DIR_RECV | DIR_SEND

definition readl :: "regs \<Rightarrow> u64 \<Rightarrow> u32" where
  "readl regs a = regs a"

definition writel :: "u32 \<Rightarrow> u64 \<Rightarrow> regs \<Rightarrow> regs" where
  "writel v a regs = regs(a := v)"

section \<open>Ring arithmetic\<close>

definition num_messages :: "u32 \<Rightarrow> u32 \<Rightarrow> u32 \<Rightarrow> u32" where
  "num_messages wr rd n = (let wr = (if wr < rd then wr + n else wr) in wr - rd)"

definition num_free :: "u32 \<Rightarrow> u32 \<Rightarrow> u32 \<Rightarrow> u32" where
  "num_free wr rd n = n - num_messages wr rd n"

definition curr_index :: "u64 \<Rightarrow> message_direction \<Rightarrow> regs \<Rightarrow> u32" where
  "curr_index q_dmem dir regs =
     readl regs (q_dmem + (if dir = DIR_RECV then FW_COM_RD_REG else FW_COM_WR_REG))"

definition inc_index :: "u64 \<Rightarrow> sys_queue \<Rightarrow> message_direction \<Rightarrow> regs \<Rightarrow> u32" where
  "inc_index q_dmem q dir regs =
     (let index = curr_index q_dmem dir regs + 1 in if index \<ge> sq_size q then 0 else index)"

definition ipu_sys_queue_buf_size :: "u32 \<Rightarrow> u32 \<Rightarrow> u32" where
  "ipu_sys_queue_buf_size n token_size = (n + 1) * token_size"

definition ipu_sys_queue_init ::
  "u32 \<Rightarrow> u32 \<Rightarrow> sys_queue_res \<Rightarrow> sys_queue \<times> sys_queue_res" where
  "ipu_sys_queue_init n token_size res =
     (let buf_size = ipu_sys_queue_buf_size n token_size in
      (\<lparr>sq_host_address = res_host_address res, sq_vied_address = res_vied_address res,
        sq_size = n + 1, sq_token_size = token_size, sq_wr_reg = res_reg res,
        sq_rd_reg = res_reg res + 1\<rparr>,
       \<lparr>res_host_address = res_host_address res + ucast buf_size,
        res_vied_address = res_vied_address res + buf_size, res_reg = res_reg res + 2\<rparr>))"

section \<open>Preparing a context\<close>

text \<open>\<^verbatim>\<open>roundup(x, 8)\<close>\<close>

definition roundup8 :: "u32 \<Rightarrow> u32" where
  "roundup8 x = ((x + 7) div 8) * 8"

text \<open>\<^verbatim>\<open>sizeof\<close> the two structures shared with the firmware.\<close>

definition sizeof_syscom_config :: u32 where "sizeof_syscom_config = 28"
definition sizeof_sys_queue :: u32 where "sizeof_sys_queue = 32"

definition queues_size :: "syscom_queue_config list \<Rightarrow> u32" where
  "queues_size cs =
     foldl (\<lambda>s c. s + ipu_sys_queue_buf_size (qc_queue_size c) (qc_token_size c)) 0 cs"

fun init_queues ::
  "syscom_queue_config list \<Rightarrow> sys_queue_res \<Rightarrow> sys_queue list \<times> sys_queue_res" where
  "init_queues [] res = ([], res)"
| "init_queues (c # cs) res =
     (case ipu_sys_queue_init (qc_queue_size c) (qc_token_size c) res of (q, res) \<Rightarrow>
      case init_queues cs res of (qs, res) \<Rightarrow> (q # qs, res))"

text \<open>The allocations the driver holds: contexts from \<^verbatim>\<open>kzalloc\<close> and DMA buffers.\<close>

record fw_heap =
  heap_contexts :: nat
  heap_dma :: nat

text \<open>
  \<^verbatim>\<open>ipu_fw_com_prepare\<close>; \<open>kzalloc_ok\<close> and \<open>dma_alloc\<close> are the two allocators.  The
  arrays \<^verbatim>\<open>cfg->input\<close> and \<^verbatim>\<open>cfg->output\<close> are the first \<open>num\<close> elements of the lists.
\<close>

definition header_size :: "fw_com_cfg \<Rightarrow> u32" where
  "header_size cfg = roundup8 sizeof_syscom_config
     + cfg_num_input_queues cfg * sizeof_sys_queue
     + cfg_num_output_queues cfg * sizeof_sys_queue
     + roundup8 (cfg_specific_size cfg)"

definition inputs :: "fw_com_cfg \<Rightarrow> syscom_queue_config list" where
  "inputs cfg = take (unat (cfg_num_input_queues cfg)) (cfg_input cfg)"

definition outputs :: "fw_com_cfg \<Rightarrow> syscom_queue_config list" where
  "outputs cfg = take (unat (cfg_num_output_queues cfg)) (cfg_output cfg)"

definition size_all :: "fw_com_cfg \<Rightarrow> u32" where
  "size_all cfg = header_size cfg + (queues_size (inputs cfg) + queues_size (outputs cfg))"

definition layout_context ::
  "fw_com_cfg \<Rightarrow> (regs \<Rightarrow> bool) \<Rightarrow> (regs \<Rightarrow> regs) \<Rightarrow> u64 \<Rightarrow> u64 \<Rightarrow> u64 \<Rightarrow> fw_com_context" where
  "layout_context cfg ready start base buf addr =
     (let offset = roundup8 sizeof_syscom_config;
          input_vied = ucast (addr + ucast offset);
          offset = offset + cfg_num_input_queues cfg * sizeof_sys_queue;
          output_vied = ucast (addr + ucast offset);
          offset = offset + cfg_num_output_queues cfg * sizeof_sys_queue;
          specific_vied = ucast (addr + ucast offset);
          offset = offset + roundup8 (cfg_specific_size cfg);
          ibuf_host = buf + ucast offset;
          ibuf_vied = ucast (addr + ucast offset);
          offset = offset + queues_size (inputs cfg);
          obuf_host = buf + ucast offset;
          obuf_vied = ucast (addr + ucast offset)
      in case init_queues (inputs cfg)
             \<lparr>res_host_address = ibuf_host, res_vied_address = ibuf_vied,
              res_reg = SYSCOM_QPR_BASE_REG\<rparr> of (input_queue, res) \<Rightarrow>
         case init_queues (outputs cfg)
             (res\<lparr>res_host_address := obuf_host, res_vied_address := obuf_vied\<rparr>)
           of (output_queue, _) \<Rightarrow>
         \<lparr>fc_dmem_addr = base + ucast (cfg_dmem_addr cfg), fc_cell_ready = ready,
          fc_cell_start = start, fc_dma_buffer = buf, fc_dma_addr = addr,
          fc_dma_size = size_all cfg, fc_num_input_queues = cfg_num_input_queues cfg,
          fc_num_output_queues = cfg_num_output_queues cfg, fc_input_queue = input_queue,
          fc_output_queue = output_queue,
          fc_config = \<lparr>sc_num_input_queues = cfg_num_input_queues cfg,
            sc_num_output_queues = cfg_num_output_queues cfg, sc_input_queue = input_vied,
            sc_output_queue = output_vied, sc_specific_addr = specific_vied,
            sc_specific_size = cfg_specific_size cfg\<rparr>,
          fc_specific = (case cfg_specific cfg of None \<Rightarrow> []
            | Some bytes \<Rightarrow> take (unat (cfg_specific_size cfg)) bytes),
          fc_config_vied_addr = ucast addr, fc_input_queue_vied_addr = input_vied,
          fc_output_queue_vied_addr = output_vied, fc_specific_vied_addr = specific_vied,
          fc_ibuf_host_addr = ibuf_host, fc_obuf_host_addr = obuf_host,
          fc_ibuf_vied_addr = ibuf_vied, fc_obuf_vied_addr = obuf_vied\<rparr>)"

definition ipu_fw_com_prepare ::
  "fw_com_cfg option \<Rightarrow> u64 \<Rightarrow> bool \<Rightarrow> (u32 \<Rightarrow> (u64 \<times> u64) option) \<Rightarrow> fw_heap
    \<Rightarrow> fw_com_context option \<times> fw_heap" where
  "ipu_fw_com_prepare cfg_opt base kzalloc_ok dma_alloc h =
     (case cfg_opt of None \<Rightarrow> (None, h)
      | Some cfg \<Rightarrow>
        (case (cfg_cell_start cfg, cfg_cell_ready cfg) of
          (Some start, Some ready) \<Rightarrow>
            if \<not> kzalloc_ok then (None, h)
            else
              let h = h\<lparr>heap_contexts := heap_contexts h + 1\<rparr> in
              (case dma_alloc (size_all cfg) of
                 None \<Rightarrow> (None, h)
               | Some (buf, addr) \<Rightarrow>
                   (Some (layout_context cfg ready start base buf addr),
                    h\<lparr>heap_dma := heap_dma h + 1\<rparr>))
        | _ \<Rightarrow> (None, h)))"

section \<open>Handshake with the firmware cell\<close>

definition ipu_fw_com_open :: "fw_com_context \<Rightarrow> regs \<Rightarrow> unit result \<times> regs" where
  "ipu_fw_com_open ctx regs =
     (if \<not> fc_cell_ready ctx regs then (Inl EIO, regs)
      else
        let regs = writel SYSCOM_STATE_UNINIT (fc_dmem_addr ctx + SYSCOM_STATE_REG * 4) regs;
            regs = writel SYSCOM_COMMAND_UNINIT (fc_dmem_addr ctx + SYSCOM_COMMAND_REG * 4) regs;
            regs = writel (fc_config_vied_addr ctx) (fc_dmem_addr ctx + SYSCOM_CONFIG_REG * 4) regs
        in (Inr (), fc_cell_start ctx regs))"

definition ipu_fw_com_close :: "fw_com_context \<Rightarrow> regs \<Rightarrow> unit result \<times> regs" where
  "ipu_fw_com_close ctx regs =
     (if readl regs (fc_dmem_addr ctx + 4 * SYSCOM_STATE_REG) \<noteq> SYSCOM_STATE_READY
      then (Inl EBUSY, regs)
      else (Inr (), writel SYSCOM_COMMAND_INACTIVE
                      (fc_dmem_addr ctx + SYSCOM_COMMAND_REG * 4) regs))"

definition ipu_fw_com_release ::
  "fw_com_context \<Rightarrow> bool \<Rightarrow> regs \<Rightarrow> fw_heap \<Rightarrow> unit result \<times> fw_heap" where
  "ipu_fw_com_release ctx force regs h =
     (if \<not> force \<and> \<not> fc_cell_ready ctx regs then (Inl EBUSY, h)
      else (Inr (), \<lparr>heap_contexts = heap_contexts h - 1, heap_dma = heap_dma h - 1\<rparr>))"

definition ipu_fw_com_ready :: "fw_com_context \<Rightarrow> regs \<Rightarrow> unit result" where
  "ipu_fw_com_ready ctx regs =
     (if readl regs (fc_dmem_addr ctx + SYSCOM_STATE_REG * 4) \<noteq> SYSCOM_STATE_READY
      then Inl EBUSY else Inr ())"

section \<open>Tokens\<close>

definition is_index_valid :: "sys_queue \<Rightarrow> u32 \<Rightarrow> bool" where
  "is_index_valid q index = (if index \<ge> sq_size q then False else True)"

definition q_dmem :: "fw_com_context \<Rightarrow> sys_queue \<Rightarrow> u64" where
  "q_dmem ctx q = fc_dmem_addr ctx + ucast (sq_wr_reg q * 4)"

definition token_addr :: "sys_queue \<Rightarrow> u32 \<Rightarrow> u64" where
  "token_addr q index = sq_host_address q + ucast (index * sq_token_size q)"

definition ipu_send_get_token :: "fw_com_context \<Rightarrow> nat \<Rightarrow> regs \<Rightarrow> u64" where
  "ipu_send_get_token ctx q_nbr regs =
     (let q = fc_input_queue ctx ! q_nbr;
          wr = readl regs (q_dmem ctx q + FW_COM_WR_REG);
          rd = readl regs (q_dmem ctx q + FW_COM_RD_REG)
      in if \<not> is_index_valid q wr \<or> \<not> is_index_valid q rd then 0
         else if num_free (wr + 1) rd (sq_size q) = 0 then 0
         else token_addr q (curr_index (q_dmem ctx q) DIR_SEND regs))"

definition ipu_send_put_token :: "fw_com_context \<Rightarrow> nat \<Rightarrow> regs \<Rightarrow> regs" where
  "ipu_send_put_token ctx q_nbr regs =
     (let q = fc_input_queue ctx ! q_nbr;
          index = inc_index (q_dmem ctx q) q DIR_SEND regs
      in writel index (q_dmem ctx q + FW_COM_WR_REG) regs)"

definition ipu_recv_get_token :: "fw_com_context \<Rightarrow> nat \<Rightarrow> regs \<Rightarrow> u64" where
  "ipu_recv_get_token ctx q_nbr regs =
     (let q = fc_output_queue ctx ! q_nbr;
          wr = readl regs (q_dmem ctx q + FW_COM_WR_REG);
          rd = readl regs (q_dmem ctx q + FW_COM_RD_REG)
      in if \<not> is_index_valid q wr \<or> \<not> is_index_valid q rd then 0
         else if num_messages wr rd (sq_size q) = 0 then 0
         else token_addr q rd)"

definition ipu_recv_put_token :: "fw_com_context \<Rightarrow> nat \<Rightarrow> regs \<Rightarrow> regs" where
  "ipu_recv_put_token ctx q_nbr regs =
     (let q = fc_output_queue ctx ! q_nbr;
          rd = inc_index (q_dmem ctx q) q DIR_RECV regs
      in writel rd (q_dmem ctx q + FW_COM_RD_REG) regs)"

section \<open>The ring\<close>

text \<open>
  A queue of size \<open>sz\<close> with valid indices: \<open>pending wr rd sz\<close> are the slots between the
  read and the write index, oldest first.
\<close>

definition pending :: "nat \<Rightarrow> nat \<Rightarrow> nat \<Rightarrow> nat list" where
  "pending wr rd sz = map (\<lambda>i. (rd + i) mod sz) [0..<(wr + sz - rd) mod sz]"

definition next_slot :: "nat \<Rightarrow> nat \<Rightarrow> nat" where
  "next_slot i sz = (if Suc i = sz then 0 else Suc i)"

lemma next_slot_mod: "i < sz \<Longrightarrow> next_slot i sz = Suc i mod sz"
  by (simp add: next_slot_def)

lemma next_slot_less: "i < sz \<Longrightarrow> next_slot i sz < sz"
  by (simp add: next_slot_def)

lemma ring_count:
  fixes wr rd sz :: nat
  assumes "wr < sz" "rd < sz"
  shows "(wr + sz - rd) mod sz = (if rd \<le> wr then wr - rd else wr + sz - rd)"
proof (cases "rd \<le> wr")
  case True
  then have "wr + sz - rd = (wr - rd) + sz" by simp
  with True assms show ?thesis by (metis less_imp_diff_less mod_add_self2 mod_less)
next
  case False
  with assms show ?thesis by simp
qed

lemma pending_length:
  "wr < sz \<Longrightarrow> rd < sz \<Longrightarrow> length (pending wr rd sz) = (if rd \<le> wr then wr - rd else wr + sz - rd)"
  by (simp add: pending_def ring_count)

lemma pending_empty: "wr < sz \<Longrightarrow> rd < sz \<Longrightarrow> pending wr rd sz = [] \<longleftrightarrow> wr = rd"
  by (auto simp: pending_def ring_count split: if_splits)

lemma pending_bound: "wr < sz \<Longrightarrow> rd < sz \<Longrightarrow> length (pending wr rd sz) < sz"
  by (simp add: pending_def)

lemma pending_full:
  "wr < sz \<Longrightarrow> rd < sz \<Longrightarrow> length (pending wr rd sz) = sz - 1 \<longleftrightarrow> next_slot wr sz = rd"
  by (auto simp: pending_length next_slot_def)

lemma pending_last:
  fixes wr rd sz :: nat
  assumes "wr < sz" "rd < sz"
  shows "(rd + (wr + sz - rd) mod sz) mod sz = wr"
  using assms by (auto simp: ring_count)

lemma pending_send:
  assumes "wr < sz" "rd < sz" "next_slot wr sz \<noteq> rd"
  shows "pending (next_slot wr sz) rd sz = pending wr rd sz @ [wr]"
proof -
  have "(next_slot wr sz + sz - rd) mod sz = Suc ((wr + sz - rd) mod sz)"
    using assms by (auto simp: ring_count next_slot_less next_slot_def split: if_splits)
  then show ?thesis using pending_last [OF assms(1,2)] by (simp add: pending_def)
qed

lemma pending_recv:
  assumes "wr < sz" "rd < sz" "wr \<noteq> rd"
  shows "pending wr rd sz = rd # pending wr (next_slot rd sz) sz"
proof -
  have n: "(wr + sz - rd) mod sz = Suc ((wr + sz - next_slot rd sz) mod sz)"
    using assms by (auto simp: ring_count next_slot_less next_slot_def split: if_splits)
  have "(rd + Suc i) mod sz = (next_slot rd sz + i) mod sz" for i
    using assms(2) by (simp add: next_slot_mod mod_simps)
  then have "map (\<lambda>i. (rd + i) mod sz) [0..<Suc k] =
      (rd mod sz) # map (\<lambda>i. (next_slot rd sz + i) mod sz) [0..<k]" for k
    unfolding upt_conv_Cons [OF zero_less_Suc] map_Suc_upt [symmetric] by simp
  with n assms(2) show ?thesis by (simp add: pending_def)
qed

lemma pending_slots: "x \<in> set (pending wr rd sz) \<Longrightarrow> 0 < sz \<Longrightarrow> x < sz"
  by (auto simp: pending_def)

lemma pending_fresh:
  assumes "wr < sz" "rd < sz"
  shows "wr \<notin> set (pending wr rd sz)"
proof
  assume "wr \<in> set (pending wr rd sz)"
  then obtain i where i: "i < (wr + sz - rd) mod sz" "wr = (rd + i) mod sz"
    by (auto simp: pending_def)
  have "rd + i < 2 * sz" using i(1) assms mod_less_divisor [of sz "wr + sz - rd"] by linarith
  then have "(rd + i) mod sz = (if rd + i < sz then rd + i else rd + i - sz)"
    using assms by (simp add: mod_if)
  with i assms show False by (auto simp: ring_count split: if_splits)
qed

subsection \<open>The code's arithmetic\<close>

lemma num_messages_nat:
  assumes "wr < sz" "rd < sz"
  shows "unat (num_messages wr rd sz) = length (pending (unat wr) (unat rd) (unat sz))"
proof -
  have n: "unat wr < unat sz" "unat rd < unat sz" using assms by (simp_all add: word_less_nat_alt)
  show ?thesis
  proof (cases "wr < rd")
    case True
    then have "unat (wr + sz - rd) = unat wr + unat sz - unat rd"
      using assms n by unat_arith
    with True n show ?thesis
      by (simp add: num_messages_def pending_length word_less_nat_alt)
  next
    case False
    then show ?thesis
      using n by (simp add: num_messages_def pending_length unat_sub_le word_less_nat_alt not_less
          word_le_nat_alt)
  qed
qed

lemma num_messages_zero:
  assumes "wr < sz" "rd < sz"
  shows "num_messages wr rd sz = 0 \<longleftrightarrow> wr = rd"
  using num_messages_nat [OF assms] pending_empty [of "unat wr" "unat sz" "unat rd"] assms
  by (metis length_0_conv unat_eq_zero word_less_nat_alt word_unat_eq_iff)

lemma num_free_zero:
  assumes "wr < sz" "rd < sz"
  shows "num_free (wr + 1) rd sz = 0 \<longleftrightarrow> rd = 0 \<and> wr + 1 = sz"
proof -
  have le: "unat (wr + 1) = unat wr + 1" "unat wr + 1 \<le> unat sz" "unat rd < unat sz"
    using assms by unat_arith+
  show ?thesis
  proof (cases "wr + 1 < rd")
    case True
    then have "num_messages (wr + 1) rd sz = sz - (rd - (wr + 1))" "rd \<noteq> 0"
      by (auto simp: num_messages_def)
    then have "num_free (wr + 1) rd sz = rd - (wr + 1)" by (simp add: num_free_def)
    moreover have "rd - (wr + 1) \<noteq> 0" unfolding right_minus_eq using True by auto
    ultimately show ?thesis using \<open>rd \<noteq> 0\<close> by simp
  next
    case False
    have "unat (wr + 1 - rd) = unat wr + 1 - unat rd"
      using False le(1) by (simp add: unat_sub_le not_less)
    then have "sz = wr + 1 - rd \<longleftrightarrow> unat sz = unat wr + 1 - unat rd"
      by (metis word_unat_eq_iff)
    also have "\<dots> \<longleftrightarrow> unat rd = 0 \<and> unat wr + 1 = unat sz" using le(2,3) by auto
    finally have "sz = wr + 1 - rd \<longleftrightarrow> rd = 0 \<and> wr + 1 = sz"
      using le(1) by (metis unat_eq_zero word_unat_eq_iff)
    with False show ?thesis by (simp add: num_free_def num_messages_def)
  qed
qed

section \<open>A queue in memory\<close>

text \<open>
  \<open>queue_ok q\<close>: the token buffer fits the address space, so the token addresses of
  different slots differ and none is \<^verbatim>\<open>NULL\<close>.
\<close>

definition queue_ok :: "sys_queue \<Rightarrow> bool" where
  "queue_ok q \<longleftrightarrow> 0 < sq_size q \<and> 0 < sq_token_size q \<and> 0 < sq_host_address q \<and>
     unat (sq_size q) * unat (sq_token_size q) < 2 ^ 32 \<and>
     unat (sq_host_address q) + unat (sq_size q) * unat (sq_token_size q) < 2 ^ 64"

lemma unat_token_addr:
  assumes "queue_ok q" "i < sq_size q"
  shows "unat (token_addr q i) = unat (sq_host_address q) + unat i * unat (sq_token_size q)"
proof -
  have le: "unat i * unat (sq_token_size q) \<le> unat (sq_size q) * unat (sq_token_size q)"
    by (rule mult_le_mono1) (use assms(2) in \<open>simp add: word_less_nat_alt less_imp_le\<close>)
  have "unat i * unat (sq_token_size q) < 2 ^ 32"
      "unat (sq_host_address q) + unat i * unat (sq_token_size q) < 2 ^ 64"
    using assms(1) le unfolding queue_ok_def by linarith+
  then show ?thesis
    by (simp add: token_addr_def unat_word_ariths unsigned_ucast_eq take_bit_nat_eq_self)
qed

lemma token_addr_inj:
  assumes "queue_ok q" "i < sq_size q" "j < sq_size q"
  shows "token_addr q i = token_addr q j \<longleftrightarrow> i = j"
proof -
  have "0 < unat (sq_token_size q)" using assms(1) by (simp add: queue_ok_def unat_gt_0 word_gt_0)
  then show ?thesis
    using unat_token_addr [OF assms(1,2)] unat_token_addr [OF assms(1,3)]
    by (metis add_left_cancel mult_cancel2 not_less0 word_unat_eq_iff)
qed

lemma token_addr_not_null:
  assumes "queue_ok q" "i < sq_size q"
  shows "token_addr q i \<noteq> 0"
proof -
  have "0 < unat (sq_host_address q)" using assms(1) by (simp add: queue_ok_def unat_gt_0 word_gt_0)
  then show ?thesis using unat_token_addr [OF assms] by auto
qed

text \<open>The state of one queue: its two index registers and the messages in its tokens.\<close>

definition wr_of :: "fw_com_context \<Rightarrow> sys_queue \<Rightarrow> regs \<Rightarrow> u32" where
  "wr_of ctx q regs = readl regs (q_dmem ctx q + FW_COM_WR_REG)"

definition rd_of :: "fw_com_context \<Rightarrow> sys_queue \<Rightarrow> regs \<Rightarrow> u32" where
  "rd_of ctx q regs = readl regs (q_dmem ctx q + FW_COM_RD_REG)"

lemma index_writes [simp]:
  "wr_of ctx q (writel v (q_dmem ctx q + FW_COM_WR_REG) regs) = v"
  "rd_of ctx q (writel v (q_dmem ctx q + FW_COM_WR_REG) regs) = rd_of ctx q regs"
  "rd_of ctx q (writel v (q_dmem ctx q + FW_COM_RD_REG) regs) = v"
  "wr_of ctx q (writel v (q_dmem ctx q + FW_COM_RD_REG) regs) = wr_of ctx q regs"
  by (simp_all add: wr_of_def rd_of_def readl_def writel_def FW_COM_WR_REG_def FW_COM_RD_REG_def)

definition indices_ok :: "fw_com_context \<Rightarrow> sys_queue \<Rightarrow> regs \<Rightarrow> bool" where
  "indices_ok ctx q regs \<longleftrightarrow> wr_of ctx q regs < sq_size q \<and> rd_of ctx q regs < sq_size q"

definition slots_of :: "fw_com_context \<Rightarrow> sys_queue \<Rightarrow> regs \<Rightarrow> nat list" where
  "slots_of ctx q regs =
     pending (unat (wr_of ctx q regs)) (unat (rd_of ctx q regs)) (unat (sq_size q))"

definition messages :: "fw_com_context \<Rightarrow> sys_queue \<Rightarrow> regs \<Rightarrow> (u64 \<Rightarrow> 'm) \<Rightarrow> 'm list" where
  "messages ctx q regs mem =
     map (\<lambda>i. mem (token_addr q (of_nat i))) (slots_of ctx q regs)"

lemma unat_next:
  assumes "i < sq_size q"
  shows "unat (if i + 1 \<ge> sq_size q then 0 else i + 1 :: u32) = next_slot (unat i) (unat (sq_size q))"
proof -
  have "unat (i + 1) = unat i + 1" using assms by unat_arith
  moreover have "unat i < unat (sq_size q)" using assms by (simp add: word_less_nat_alt)
  ultimately show ?thesis by (simp add: next_slot_def word_le_nat_alt)
qed

lemma inc_index_send:
  "inc_index (q_dmem ctx q) q DIR_SEND regs =
    (if wr_of ctx q regs + 1 \<ge> sq_size q then 0 else wr_of ctx q regs + 1)"
  by (simp add: inc_index_def curr_index_def wr_of_def Let_def)

lemma inc_index_recv:
  "inc_index (q_dmem ctx q) q DIR_RECV regs =
    (if rd_of ctx q regs + 1 \<ge> sq_size q then 0 else rd_of ctx q regs + 1)"
  by (simp add: inc_index_def curr_index_def rd_of_def Let_def)

lemma send_put_indices:
  assumes "q = fc_input_queue ctx ! n"
  shows "wr_of ctx q (ipu_send_put_token ctx n regs) =
      (if wr_of ctx q regs + 1 \<ge> sq_size q then 0 else wr_of ctx q regs + 1)"
    "rd_of ctx q (ipu_send_put_token ctx n regs) = rd_of ctx q regs"
  using assms by (simp_all add: ipu_send_put_token_def Let_def inc_index_send)

lemma recv_put_indices:
  assumes "q = fc_output_queue ctx ! n"
  shows "rd_of ctx q (ipu_recv_put_token ctx n regs) =
      (if rd_of ctx q regs + 1 \<ge> sq_size q then 0 else rd_of ctx q regs + 1)"
    "wr_of ctx q (ipu_recv_put_token ctx n regs) = wr_of ctx q regs"
  using assms by (simp_all add: ipu_recv_put_token_def Let_def inc_index_recv)

lemma put_indices_ok:
  "indices_ok ctx (fc_input_queue ctx ! n) regs \<Longrightarrow>
     indices_ok ctx (fc_input_queue ctx ! n) (ipu_send_put_token ctx n regs)"
  "indices_ok ctx (fc_output_queue ctx ! n) regs \<Longrightarrow>
     indices_ok ctx (fc_output_queue ctx ! n) (ipu_recv_put_token ctx n regs)"
  by (auto simp: indices_ok_def send_put_indices recv_put_indices not_le word_gt_0 
      dest: order.strict_trans1 [rotated])

lemma is_index_valid_iff: "is_index_valid q i \<longleftrightarrow> i < sq_size q"
  by (auto simp: is_index_valid_def)

lemma send_get_token_spec:
  assumes "q = fc_input_queue ctx ! n"
  shows "ipu_send_get_token ctx n regs =
    (if \<not> indices_ok ctx q regs \<or> rd_of ctx q regs = 0 \<and> wr_of ctx q regs + 1 = sq_size q then 0
     else token_addr q (wr_of ctx q regs))"
proof -
  have "ipu_send_get_token ctx n regs =
      (if \<not> indices_ok ctx q regs \<or> num_free (wr_of ctx q regs + 1) (rd_of ctx q regs) (sq_size q) = 0
       then 0 else token_addr q (wr_of ctx q regs))"
    by (simp add: ipu_send_get_token_def assms [symmetric] Let_def indices_ok_def is_index_valid_iff
        wr_of_def rd_of_def curr_index_def)
  then show ?thesis by (auto simp: indices_ok_def num_free_zero)
qed

lemma recv_get_token_spec:
  assumes "q = fc_output_queue ctx ! n"
  shows "ipu_recv_get_token ctx n regs =
    (if \<not> indices_ok ctx q regs \<or> wr_of ctx q regs = rd_of ctx q regs then 0
     else token_addr q (rd_of ctx q regs))"
proof -
  have "ipu_recv_get_token ctx n regs =
      (if \<not> indices_ok ctx q regs \<or> num_messages (wr_of ctx q regs) (rd_of ctx q regs) (sq_size q) = 0
       then 0 else token_addr q (rd_of ctx q regs))"
    by (simp add: ipu_recv_get_token_def assms [symmetric] Let_def indices_ok_def is_index_valid_iff
        wr_of_def rd_of_def)
  then show ?thesis by (auto simp: indices_ok_def num_messages_zero)
qed

lemma slots_send:
  assumes "q = fc_input_queue ctx ! n" "indices_ok ctx q regs"
    and "length (slots_of ctx q regs) < unat (sq_size q) - 1"
  shows "slots_of ctx q (ipu_send_put_token ctx n regs) = slots_of ctx q regs @ [unat (wr_of ctx q regs)]"
proof -
  have n: "unat (wr_of ctx q regs) < unat (sq_size q)" "unat (rd_of ctx q regs) < unat (sq_size q)"
    using assms(2) by (simp_all add: indices_ok_def word_less_nat_alt)
  have "next_slot (unat (wr_of ctx q regs)) (unat (sq_size q)) \<noteq> unat (rd_of ctx q regs)"
    using pending_full [OF n] assms(3) unfolding slots_of_def by linarith
  with pending_send [OF n] assms(2) show ?thesis
    by (simp add: slots_of_def send_put_indices [OF assms(1)] unat_next indices_ok_def)
qed

lemma slots_recv:
  assumes "q = fc_output_queue ctx ! n" "indices_ok ctx q regs"
    and "wr_of ctx q regs \<noteq> rd_of ctx q regs"
  shows "slots_of ctx q regs =
    unat (rd_of ctx q regs) # slots_of ctx q (ipu_recv_put_token ctx n regs)"
proof -
  have n: "unat (wr_of ctx q regs) < unat (sq_size q)" "unat (rd_of ctx q regs) < unat (sq_size q)"
    using assms(2) by (simp_all add: indices_ok_def word_less_nat_alt)
  have "unat (wr_of ctx q regs) \<noteq> unat (rd_of ctx q regs)"
    using assms(3) by (simp add: word_unat_eq_iff)
  from pending_recv [OF n this] assms(2) show ?thesis
    by (simp add: slots_of_def recv_put_indices [OF assms(1)] unat_next indices_ok_def)
qed

lemma slots_empty:
  assumes "indices_ok ctx q regs"
  shows "slots_of ctx q regs = [] \<longleftrightarrow> wr_of ctx q regs = rd_of ctx q regs"
  using assms pending_empty [of "unat (wr_of ctx q regs)" "unat (sq_size q)" "unat (rd_of ctx q regs)"]
  by (simp add: slots_of_def indices_ok_def word_less_nat_alt word_unat_eq_iff)

text \<open>Writing the message of the slot being filled leaves the pending messages alone.\<close>

lemma messages_write:
  assumes "queue_ok q" "indices_ok ctx q regs"
  shows "messages ctx q regs (mem(token_addr q (wr_of ctx q regs) := m)) = messages ctx q regs mem"
proof -
  have n: "unat (wr_of ctx q regs) < unat (sq_size q)" "unat (rd_of ctx q regs) < unat (sq_size q)"
    using assms(2) by (simp_all add: indices_ok_def word_less_nat_alt)
  have "token_addr q (of_nat i) \<noteq> token_addr q (wr_of ctx q regs)"
    if i: "i \<in> set (slots_of ctx q regs)" for i
  proof -
    have "i < unat (sq_size q)" using pending_slots i n by (auto simp: slots_of_def)
    then have "unat (of_nat i :: u32) = i"
      using unsigned_less [of "sq_size q", where ?'a = nat] by (simp add: unsigned_of_nat take_bit_nat_eq_self)
    moreover from this have "(of_nat i :: u32) < sq_size q"
      using \<open>i < unat (sq_size q)\<close> by (simp add: word_less_nat_alt)
    moreover have "i \<noteq> unat (wr_of ctx q regs)"
      using pending_fresh [OF n] i by (auto simp: slots_of_def)
    ultimately show ?thesis
      using token_addr_inj [OF assms(1), of "of_nat i" "wr_of ctx q regs"] assms(2)
      by (auto simp: indices_ok_def)
  qed
  then show ?thesis by (simp add: messages_def)
qed

section \<open>The queue as an interface\<close>

text \<open>
  What a client of a token queue relies on: while there is room, a send succeeds and
  appends its message; a receive takes the oldest message; nothing else changes.
\<close>

datatype 'm queue_op = Send 'm | Receive

locale message_queue =
  fixes send :: "'m \<Rightarrow> 's \<Rightarrow> 's option"
    and receive :: "'s \<Rightarrow> ('m \<times> 's) option"
    and contents :: "'s \<Rightarrow> 'm list"
    and capacity :: "'s \<Rightarrow> nat"
    and good :: "'s \<Rightarrow> bool"
  assumes send_room: "good s \<Longrightarrow> length (contents s) < capacity s \<Longrightarrow>
      \<exists>s'. send m s = Some s' \<and> good s' \<and> contents s' = contents s @ [m] \<and> capacity s' = capacity s"
    and receive_empty: "good s \<Longrightarrow> contents s = [] \<Longrightarrow> receive s = None"
    and receive_some: "good s \<Longrightarrow> contents s = m # ms \<Longrightarrow>
      \<exists>s'. receive s = Some (m, s') \<and> good s' \<and> contents s' = ms \<and> capacity s' = capacity s"
begin

text \<open>A run of sends and receives; a refused operation ends it.\<close>

fun run :: "'m queue_op list \<Rightarrow> 's \<Rightarrow> ('m list \<times> 's) option" where
  "run [] s = Some ([], s)"
| "run (Send m # ops) s = (case send m s of None \<Rightarrow> None | Some s \<Rightarrow> run ops s)"
| "run (Receive # ops) s =
     (case receive s of None \<Rightarrow> None
      | Some (m, s) \<Rightarrow> (case run ops s of None \<Rightarrow> None | Some (ms, s) \<Rightarrow> Some (m # ms, s)))"

fun sent :: "'m queue_op list \<Rightarrow> 'm list" where
  "sent [] = []"
| "sent (Send m # ops) = m # sent ops"
| "sent (Receive # ops) = sent ops"

text \<open>A schedule that never overfills the queue nor reads it empty.\<close>

fun fits :: "nat \<Rightarrow> nat \<Rightarrow> 'm queue_op list \<Rightarrow> bool" where
  "fits cap n [] = True"
| "fits cap n (Send m # ops) = (n < cap \<and> fits cap (Suc n) ops)"
| "fits cap n (Receive # ops) = (0 < n \<and> fits cap (n - 1) ops)"

theorem fifo:
  assumes "good s" "fits (capacity s) (length (contents s)) ops"
  shows "\<exists>ms s'. run ops s = Some (ms, s') \<and> good s' \<and> ms @ contents s' = contents s @ sent ops"
  using assms
proof (induction ops s rule: run.induct)
  case (1 s)
  then show ?case by simp
next
  case (2 m ops s)
  from 2(2,3) send_room [of s m] obtain s' where s': "send m s = Some s'" "good s'"
      "contents s' = contents s @ [m]" "capacity s' = capacity s"
    by auto
  with 2(1) [OF s'(1,2)] 2(3) show ?case by auto
next
  case (3 ops s)
  from 3(3) obtain m ms where m: "contents s = m # ms" by (cases "contents s") auto
  with receive_some [OF 3(2) m] obtain s' where s': "receive s = Some (m, s')" "good s'"
      "contents s' = ms" "capacity s' = capacity s"
    by auto
  with 3(1) [OF s'(1)] 3(3) m show ?case by fastforce
qed

end

text \<open>
  The other end of a queue is the firmware's, which is not in the repository.  What the driver relies
  on: it keeps the two indices of a queue as the driver does.  \<open>fw_takes\<close>: when the
  firmware takes a message from an input queue it reads the token at the read index and moves
  that index on; \<open>fw_posts\<close>: when it posts one to an output queue that is not full it writes the
  token at the write index and moves that one on.  The queue's other index and tokens stay; what else the
  firmware does to registers and memory is its own affair.
\<close>

definition next_index :: "sys_queue \<Rightarrow> u32 \<Rightarrow> u32" where
  "next_index q i = (if i + 1 \<ge> sq_size q then 0 else i + 1)"

definition fw_takes ::
  "fw_com_context \<Rightarrow> sys_queue \<Rightarrow> (regs \<times> (u64 \<Rightarrow> 'm) \<Rightarrow> ('m \<times> regs \<times> (u64 \<Rightarrow> 'm)) option) \<Rightarrow> bool" where
  "fw_takes ctx q take_token \<longleftrightarrow> (\<forall>regs mem. indices_ok ctx q regs \<longrightarrow>
     (if wr_of ctx q regs = rd_of ctx q regs then take_token (regs, mem) = None
      else \<exists>regs' mem'. take_token (regs, mem) = Some (mem (token_addr q (rd_of ctx q regs)), regs', mem') \<and>
        wr_of ctx q regs' = wr_of ctx q regs \<and> rd_of ctx q regs' = next_index q (rd_of ctx q regs) \<and>
        (\<forall>i < sq_size q. mem' (token_addr q i) = mem (token_addr q i))))"

definition fw_posts ::
  "fw_com_context \<Rightarrow> sys_queue \<Rightarrow> ('m \<Rightarrow> regs \<times> (u64 \<Rightarrow> 'm) \<Rightarrow> (regs \<times> (u64 \<Rightarrow> 'm)) option) \<Rightarrow> bool" where
  "fw_posts ctx q post \<longleftrightarrow> (\<forall>regs mem m. indices_ok ctx q regs \<and>
       length (slots_of ctx q regs) < unat (sq_size q) - 1 \<longrightarrow>
     (\<exists>regs' mem'. post m (regs, mem) = Some (regs', mem') \<and>
        rd_of ctx q regs' = rd_of ctx q regs \<and> wr_of ctx q regs' = next_index q (wr_of ctx q regs) \<and>
        (\<forall>i < sq_size q. mem' (token_addr q i) = (if i = wr_of ctx q regs then m else mem (token_addr q i)))))"

text \<open>
  An input queue: the driver takes a token, fills it and puts it.  An output queue: the driver reads
  the oldest token and releases it.
\<close>

record 'm command_link =
  cl_ctx :: fw_com_context
  cl_queue :: nat
  cl_take :: "regs \<times> (u64 \<Rightarrow> 'm) \<Rightarrow> ('m \<times> regs \<times> (u64 \<Rightarrow> 'm)) option"
  cl_regs :: regs
  cl_mem :: "u64 \<Rightarrow> 'm"

definition command_queue :: "'m command_link \<Rightarrow> sys_queue" where
  "command_queue s = fc_input_queue (cl_ctx s) ! cl_queue s"

definition command_send :: "'m \<Rightarrow> 'm command_link \<Rightarrow> 'm command_link option" where
  "command_send m s =
     (let token = ipu_send_get_token (cl_ctx s) (cl_queue s) (cl_regs s) in
      if token = 0 then None
      else Some (s\<lparr>cl_mem := (cl_mem s)(token := m),
                   cl_regs := ipu_send_put_token (cl_ctx s) (cl_queue s) (cl_regs s)\<rparr>))"

definition command_take :: "'m command_link \<Rightarrow> ('m \<times> 'm command_link) option" where
  "command_take s =
     (case cl_take s (cl_regs s, cl_mem s) of None \<Rightarrow> None
      | Some (m, regs, mem) \<Rightarrow> Some (m, s\<lparr>cl_regs := regs, cl_mem := mem\<rparr>))"

definition command_contents :: "'m command_link \<Rightarrow> 'm list" where
  "command_contents s = messages (cl_ctx s) (command_queue s) (cl_regs s) (cl_mem s)"

definition command_capacity :: "'m command_link \<Rightarrow> nat" where
  "command_capacity s = unat (sq_size (command_queue s)) - 1"

definition command_good :: "'m command_link \<Rightarrow> bool" where
  "command_good s \<longleftrightarrow> queue_ok (command_queue s) \<and> indices_ok (cl_ctx s) (command_queue s) (cl_regs s) \<and>
     fw_takes (cl_ctx s) (command_queue s) (cl_take s)"

record 'm event_link =
  el_ctx :: fw_com_context
  el_queue :: nat
  el_post :: "'m \<Rightarrow> regs \<times> (u64 \<Rightarrow> 'm) \<Rightarrow> (regs \<times> (u64 \<Rightarrow> 'm)) option"
  el_regs :: regs
  el_mem :: "u64 \<Rightarrow> 'm"

definition event_queue :: "'m event_link \<Rightarrow> sys_queue" where
  "event_queue s = fc_output_queue (el_ctx s) ! el_queue s"

definition event_post :: "'m \<Rightarrow> 'm event_link \<Rightarrow> 'm event_link option" where
  "event_post m s =
     map_option (\<lambda>(regs, mem). s\<lparr>el_regs := regs, el_mem := mem\<rparr>) (el_post s m (el_regs s, el_mem s))"

definition event_receive :: "'m event_link \<Rightarrow> ('m \<times> 'm event_link) option" where
  "event_receive s =
     (let token = ipu_recv_get_token (el_ctx s) (el_queue s) (el_regs s) in
      if token = 0 then None
      else Some (el_mem s token, s\<lparr>el_regs := ipu_recv_put_token (el_ctx s) (el_queue s) (el_regs s)\<rparr>))"

definition event_contents :: "'m event_link \<Rightarrow> 'm list" where
  "event_contents s = messages (el_ctx s) (event_queue s) (el_regs s) (el_mem s)"

definition event_capacity :: "'m event_link \<Rightarrow> nat" where
  "event_capacity s = unat (sq_size (event_queue s)) - 1"

definition event_good :: "'m event_link \<Rightarrow> bool" where
  "event_good s \<longleftrightarrow> queue_ok (event_queue s) \<and> indices_ok (el_ctx s) (event_queue s) (el_regs s) \<and>
     fw_posts (el_ctx s) (event_queue s) (el_post s)"

lemma full_length:
  assumes "indices_ok ctx q regs" "rd_of ctx q regs = 0" "wr_of ctx q regs + 1 = sq_size q"
  shows "length (slots_of ctx q regs) = unat (sq_size q) - 1"
proof -
  have "unat (wr_of ctx q regs) < unat (sq_size q)" "unat (rd_of ctx q regs) < unat (sq_size q)"
    using assms(1) by (simp_all add: indices_ok_def word_less_nat_alt)
  moreover have "unat (sq_size q) = unat (wr_of ctx q regs) + 1"
    using assms unfolding indices_ok_def by unat_arith
  ultimately show ?thesis
    using assms(2) by (simp add: slots_of_def pending_length)
qed

lemma messages_send:
  assumes "q = fc_input_queue ctx ! n" "queue_ok q" "indices_ok ctx q regs"
    and "length (slots_of ctx q regs) < unat (sq_size q) - 1"
  shows "messages ctx q (ipu_send_put_token ctx n regs) (mem(token_addr q (wr_of ctx q regs) := m)) =
    messages ctx q regs mem @ [m]"
  using messages_write [OF assms(2,3), of mem m] slots_send [OF assms(1,3,4)]
  by (simp add: messages_def)

lemma messages_receive:
  assumes "q = fc_output_queue ctx ! n" "indices_ok ctx q regs" "wr_of ctx q regs \<noteq> rd_of ctx q regs"
  shows "messages ctx q regs mem =
    mem (token_addr q (rd_of ctx q regs)) # messages ctx q (ipu_recv_put_token ctx n regs) mem"
  using slots_recv [OF assms] by (simp add: messages_def)

text \<open>The slots depend on the two indices only, the messages on the tokens besides.\<close>

lemma slots_of_cong:
  "wr_of ctx q regs = wr_of ctx' q regs' \<Longrightarrow> rd_of ctx q regs = rd_of ctx' q regs' \<Longrightarrow>
    slots_of ctx q regs = slots_of ctx' q regs'"
  by (simp add: slots_of_def)

lemma slot_index:
  assumes "indices_ok ctx q regs" "i \<in> set (slots_of ctx q regs)"
  shows "(of_nat i :: u32) < sq_size q"
proof -
  have "unat (rd_of ctx q regs) < unat (sq_size q)" "unat (wr_of ctx q regs) < unat (sq_size q)"
    using assms(1) by (simp_all add: indices_ok_def word_less_nat_alt)
  then have i: "i < unat (sq_size q)" using pending_slots assms(2) by (auto simp: slots_of_def)
  then have "unat (of_nat i :: u32) = i"
    using unsigned_less [of "sq_size q", where ?'a = nat] by (simp add: unsigned_of_nat take_bit_nat_eq_self)
  then show ?thesis using i by (simp add: word_less_nat_alt)
qed

lemma messages_cong:
  assumes "indices_ok ctx q regs" "\<forall>i < sq_size q. mem' (token_addr q i) = mem (token_addr q i)"
  shows "messages ctx q regs mem' = messages ctx q regs mem"
  using slot_index [OF assms(1)] assms(2) by (simp add: messages_def)

lemma next_index_less: "i < sq_size q \<Longrightarrow> next_index q i < sq_size q"
  by (auto simp: next_index_def not_le word_gt_0 dest: order.strict_trans1 [rotated])

text \<open>The same contexts with the two directions exchanged: the driver's own operations at the other end.\<close>

definition swapped :: "fw_com_context \<Rightarrow> fw_com_context" where
  "swapped ctx = ctx\<lparr>fc_input_queue := fc_output_queue ctx, fc_output_queue := fc_input_queue ctx\<rparr>"

lemma swapped_simps [simp]:
  "fc_input_queue (swapped ctx) = fc_output_queue ctx" "fc_output_queue (swapped ctx) = fc_input_queue ctx"
  "wr_of (swapped ctx) q regs = wr_of ctx q regs" "rd_of (swapped ctx) q regs = rd_of ctx q regs"
  "indices_ok (swapped ctx) q regs = indices_ok ctx q regs" "slots_of (swapped ctx) q regs = slots_of ctx q regs"
  by (simp_all add: swapped_def wr_of_def rd_of_def q_dmem_def indices_ok_def slots_of_def)

lemma next_index_send: "q = fc_input_queue ctx ! n \<Longrightarrow>
    wr_of ctx q (ipu_send_put_token ctx n regs) = next_index q (wr_of ctx q regs)"
  by (simp add: send_put_indices next_index_def)

lemma next_index_recv: "q = fc_output_queue ctx ! n \<Longrightarrow>
    rd_of ctx q (ipu_recv_put_token ctx n regs) = next_index q (rd_of ctx q regs)"
  by (simp add: recv_put_indices next_index_def)

lemma messages_taken:
  assumes "indices_ok ctx q regs" "wr_of ctx q regs \<noteq> rd_of ctx q regs"
    and "wr_of ctx q regs' = wr_of ctx q regs" "rd_of ctx q regs' = next_index q (rd_of ctx q regs)"
    and "\<forall>i < sq_size q. mem' (token_addr q i) = mem (token_addr q i)"
  shows "messages ctx q regs mem = mem (token_addr q (rd_of ctx q regs)) # messages ctx q regs' mem'"
    "indices_ok ctx q regs'"
proof -
  let ?c = "ctx\<lparr>fc_output_queue := [q]\<rparr>"
  have c: "wr_of ?c q r = wr_of ctx q r" "rd_of ?c q r = rd_of ctx q r" for r
    by (simp_all add: wr_of_def rd_of_def q_dmem_def)
  show ok: "indices_ok ctx q regs'" using assms(1,3,4) by (simp add: indices_ok_def next_index_less)
  have "slots_of ?c q regs = unat (rd_of ctx q regs) # slots_of ?c q (ipu_recv_put_token ?c 0 regs)"
    using slots_recv [of q ?c 0 regs] assms(1,2) by (simp add: c indices_ok_def)
  moreover have "slots_of ?c q (ipu_recv_put_token ?c 0 regs) = slots_of ctx q regs'"
    using recv_put_indices [of q ?c 0 regs] assms(3,4) by (intro slots_of_cong) (simp_all add: c next_index_def)
  moreover have "slots_of ?c q regs = slots_of ctx q regs" by (rule slots_of_cong) (simp_all add: c)
  ultimately have "messages ctx q regs mem = mem (token_addr q (rd_of ctx q regs)) # messages ctx q regs' mem"
    by (simp add: messages_def)
  then show "messages ctx q regs mem = mem (token_addr q (rd_of ctx q regs)) # messages ctx q regs' mem'"
    using messages_cong [OF ok assms(5)] by simp
qed

lemma messages_posted:
  assumes "queue_ok q" "indices_ok ctx q regs" "length (slots_of ctx q regs) < unat (sq_size q) - 1"
    and "rd_of ctx q regs' = rd_of ctx q regs" "wr_of ctx q regs' = next_index q (wr_of ctx q regs)"
    and "\<forall>i < sq_size q. mem' (token_addr q i) = (if i = wr_of ctx q regs then m else mem (token_addr q i))"
  shows "messages ctx q regs' mem' = messages ctx q regs mem @ [m]" "indices_ok ctx q regs'"
proof -
  let ?c = "ctx\<lparr>fc_input_queue := [q]\<rparr>"
  let ?t = "token_addr q (wr_of ctx q regs)"
  have c: "wr_of ?c q r = wr_of ctx q r" "rd_of ?c q r = rd_of ctx q r" "indices_ok ?c q r = indices_ok ctx q r"
    "slots_of ?c q r = slots_of ctx q r" for r
    by (simp_all add: wr_of_def rd_of_def q_dmem_def indices_ok_def slots_of_def)
  have wr: "wr_of ctx q regs < sq_size q" using assms(2) by (simp add: indices_ok_def)
  show ok: "indices_ok ctx q regs'" using assms(2,4,5) by (simp add: indices_ok_def next_index_less)
  have "messages ?c q (ipu_send_put_token ?c 0 regs) (mem(?t := m)) = messages ?c q regs mem @ [m]"
    using messages_send [of q ?c 0 regs mem m] assms(1-3) by (simp add: c)
  moreover have "slots_of ?c q (ipu_send_put_token ?c 0 regs) = slots_of ctx q regs'"
    using send_put_indices [of q ?c 0 regs] assms(4,5) by (intro slots_of_cong) (simp_all add: c next_index_def)
  ultimately have "messages ctx q regs' (mem(?t := m)) = messages ctx q regs mem @ [m]"
    by (simp add: messages_def c)
  moreover have "\<forall>i < sq_size q. mem' (token_addr q i) = (mem(?t := m)) (token_addr q i)"
    using assms(6) token_addr_inj [OF assms(1) _ wr] by simp
  ultimately show "messages ctx q regs' mem' = messages ctx q regs mem @ [m]"
    using messages_cong [OF ok, of mem' "mem(?t := m)"] by simp
qed

interpretation commands: message_queue command_send command_take command_contents command_capacity command_good
proof
  fix s :: "'m command_link" and m
  let ?ctx = "cl_ctx s" and ?q = "command_queue s" and ?regs = "cl_regs s"
  assume good: "command_good s"
  then have q: "queue_ok ?q" "indices_ok ?ctx ?q ?regs" "fw_takes ?ctx ?q (cl_take s)"
    by (simp_all add: command_good_def)
  then have lt: "wr_of ?ctx ?q ?regs < sq_size ?q" by (simp add: indices_ok_def)
  {
    assume room: "length (command_contents s) < command_capacity s"
    then have len: "length (slots_of ?ctx ?q ?regs) < unat (sq_size ?q) - 1"
      by (simp add: command_contents_def command_capacity_def messages_def)
    have "ipu_send_get_token ?ctx (cl_queue s) ?regs = token_addr ?q (wr_of ?ctx ?q ?regs)"
      using q(2) full_length [OF q(2)] len by (auto simp: send_get_token_spec [OF command_queue_def])
    moreover have "indices_ok ?ctx ?q (ipu_send_put_token ?ctx (cl_queue s) ?regs)"
      using put_indices_ok(1) [of ?ctx "cl_queue s" ?regs] q(2) by (simp add: command_queue_def)
    ultimately show "\<exists>s'. command_send m s = Some s' \<and> command_good s' \<and>
        command_contents s' = command_contents s @ [m] \<and> command_capacity s' = command_capacity s"
      using token_addr_not_null [OF q(1) lt] q messages_send [OF command_queue_def q(1,2) len, of "cl_mem s" m]
      by (simp add: command_send_def command_good_def command_contents_def command_capacity_def command_queue_def)
  }
  {
    assume "command_contents s = []"
    then have "wr_of ?ctx ?q ?regs = rd_of ?ctx ?q ?regs"
      using slots_empty [OF q(2)] by (simp add: command_contents_def messages_def)
    then have "cl_take s (?regs, cl_mem s) = None" using q(2,3) by (simp add: fw_takes_def)
    then show "command_take s = None" by (simp add: command_take_def)
  }
  {
    fix ms
    assume c: "command_contents s = m # ms"
    then have ne: "wr_of ?ctx ?q ?regs \<noteq> rd_of ?ctx ?q ?regs"
      using slots_empty [OF q(2)] by (auto simp: command_contents_def messages_def)
    then obtain regs' mem' where t:
      "cl_take s (?regs, cl_mem s) = Some (cl_mem s (token_addr ?q (rd_of ?ctx ?q ?regs)), regs', mem')"
      "wr_of ?ctx ?q regs' = wr_of ?ctx ?q ?regs" "rd_of ?ctx ?q regs' = next_index ?q (rd_of ?ctx ?q ?regs)"
      "\<forall>i < sq_size ?q. mem' (token_addr ?q i) = cl_mem s (token_addr ?q i)"
      using q(3) [unfolded fw_takes_def, rule_format, of ?regs "cl_mem s", OF q(2)] by auto
    show "\<exists>s'. command_take s = Some (m, s') \<and> command_good s' \<and> command_contents s' = ms \<and>
        command_capacity s' = command_capacity s"
      using messages_taken [OF q(2) ne t(2-4)] c q(1,3) t(1)
      by (simp add: command_take_def command_good_def command_contents_def command_capacity_def command_queue_def)
  }
qed

interpretation events: message_queue event_post event_receive event_contents event_capacity event_good
proof
  fix s :: "'m event_link" and m
  let ?ctx = "el_ctx s" and ?q = "event_queue s" and ?regs = "el_regs s"
  assume good: "event_good s"
  then have q: "queue_ok ?q" "indices_ok ?ctx ?q ?regs" "fw_posts ?ctx ?q (el_post s)"
    by (simp_all add: event_good_def)
  then have lt: "rd_of ?ctx ?q ?regs < sq_size ?q" by (simp add: indices_ok_def)
  note get = recv_get_token_spec [OF event_queue_def, of s ?regs]
  {
    assume room: "length (event_contents s) < event_capacity s"
    then have len: "length (slots_of ?ctx ?q ?regs) < unat (sq_size ?q) - 1"
      by (simp add: event_contents_def event_capacity_def messages_def)
    then obtain regs' mem' where t: "el_post s m (?regs, el_mem s) = Some (regs', mem')"
      "rd_of ?ctx ?q regs' = rd_of ?ctx ?q ?regs" "wr_of ?ctx ?q regs' = next_index ?q (wr_of ?ctx ?q ?regs)"
      "\<forall>i < sq_size ?q. mem' (token_addr ?q i) = (if i = wr_of ?ctx ?q ?regs then m else el_mem s (token_addr ?q i))"
      using q(2,3) unfolding fw_posts_def by blast
    show "\<exists>s'. event_post m s = Some s' \<and> event_good s' \<and>
        event_contents s' = event_contents s @ [m] \<and> event_capacity s' = event_capacity s"
      using messages_posted [OF q(1,2) len t(2-4)] q(1,3) t(1)
      by (simp add: event_post_def event_good_def event_contents_def event_capacity_def event_queue_def)
  }
  {
    assume "event_contents s = []"
    then have "wr_of ?ctx ?q ?regs = rd_of ?ctx ?q ?regs"
      using slots_empty [OF q(2)] by (simp add: event_contents_def messages_def)
    then show "event_receive s = None" by (simp add: event_receive_def get)
  }
  {
    fix ms
    assume c: "event_contents s = m # ms"
    then have ne: "wr_of ?ctx ?q ?regs \<noteq> rd_of ?ctx ?q ?regs"
      using slots_empty [OF q(2)] by (auto simp: event_contents_def messages_def)
    have "ipu_recv_get_token ?ctx (el_queue s) ?regs = token_addr ?q (rd_of ?ctx ?q ?regs)"
      using ne q(2) by (simp add: get)
    moreover have "indices_ok ?ctx ?q (ipu_recv_put_token ?ctx (el_queue s) ?regs)"
      using put_indices_ok(2) [of ?ctx "el_queue s" ?regs] q(2) by (simp add: event_queue_def)
    ultimately show "\<exists>s'. event_receive s = Some (m, s') \<and> event_good s' \<and> event_contents s' = ms \<and>
        event_capacity s' = event_capacity s"
      using token_addr_not_null [OF q(1) lt] q c messages_receive [OF event_queue_def q(2) ne, of "el_mem s"]
      by (simp add: event_receive_def event_good_def event_contents_def event_capacity_def event_queue_def)
  }
qed

text \<open>A run leaves the parameters of a link alone and takes as many messages as it says.\<close>

lemma command_frame:
  "command_send m s = Some s' \<Longrightarrow> cl_ctx s' = cl_ctx s \<and> cl_queue s' = cl_queue s \<and> cl_take s' = cl_take s"
  "command_take s = Some (m', s') \<Longrightarrow> cl_ctx s' = cl_ctx s \<and> cl_queue s' = cl_queue s \<and> cl_take s' = cl_take s"
  by (auto simp: command_send_def command_take_def Let_def split: option.splits if_splits)

lemma event_frame:
  "event_post m s = Some s' \<Longrightarrow> el_ctx s' = el_ctx s \<and> el_queue s' = el_queue s \<and> el_post s' = el_post s"
  "event_receive s = Some (m', s') \<Longrightarrow> el_ctx s' = el_ctx s \<and> el_queue s' = el_queue s \<and> el_post s' = el_post s"
  by (auto simp: event_post_def event_receive_def Let_def split: if_splits)

lemma commands_run_frame:
  "commands.run ops s = Some (ms, s') \<Longrightarrow> cl_ctx s' = cl_ctx s \<and> cl_queue s' = cl_queue s \<and> cl_take s' = cl_take s"
proof (induction ops s arbitrary: ms s' rule: commands.run.induct)
  case (2 m ops s)
  from 2(2) obtain t where "command_send m s = Some t" "commands.run ops t = Some (ms, s')" by (auto split: option.splits)
  then show ?case using 2(1) command_frame(1) by metis
next
  case (3 ops s)
  from 3(2) obtain m t ms' where "command_take s = Some (m, t)" "commands.run ops t = Some (ms', s')"
    by (auto split: option.splits)
  then show ?case using 3(1) command_frame(2) by metis
qed simp

lemma events_run_frame:
  "events.run ops s = Some (ms, s') \<Longrightarrow> el_ctx s' = el_ctx s \<and> el_queue s' = el_queue s \<and> el_post s' = el_post s"
proof (induction ops s arbitrary: ms s' rule: events.run.induct)
  case (2 m ops s)
  from 2(2) obtain t where "event_post m s = Some t" "events.run ops t = Some (ms, s')" by (auto split: option.splits)
  then show ?case using 2(1) event_frame(1) by metis
next
  case (3 ops s)
  from 3(2) obtain m t ms' where "event_receive s = Some (m, t)" "events.run ops t = Some (ms', s')"
    by (auto split: option.splits)
  then show ?case using 3(1) event_frame(2) by metis
qed simp

lemma commands_run_length: "commands.run ops s = Some (ms, s') \<Longrightarrow> length ms = length (filter (\<lambda>x. x = Receive) ops)"
  by (induction ops s arbitrary: ms s' rule: commands.run.induct) (auto split: option.splits)

lemma events_run_length: "events.run ops s = Some (ms, s') \<Longrightarrow> length ms = length (filter (\<lambda>x. x = Receive) ops)"
  by (induction ops s arbitrary: ms s' rule: events.run.induct) (auto split: option.splits)

text \<open>The driver's own operations at the other end are such a firmware.\<close>

definition peer_take ::
  "fw_com_context \<Rightarrow> nat \<Rightarrow> regs \<times> (u64 \<Rightarrow> 'm) \<Rightarrow> ('m \<times> regs \<times> (u64 \<Rightarrow> 'm)) option" where
  "peer_take ctx n st =
     (let token = ipu_recv_get_token (swapped ctx) n (fst st) in
      if token = 0 then None
      else Some (snd st token, ipu_recv_put_token (swapped ctx) n (fst st), snd st))"

definition peer_post ::
  "fw_com_context \<Rightarrow> nat \<Rightarrow> 'm \<Rightarrow> regs \<times> (u64 \<Rightarrow> 'm) \<Rightarrow> (regs \<times> (u64 \<Rightarrow> 'm)) option" where
  "peer_post ctx n m st =
     (let token = ipu_send_get_token (swapped ctx) n (fst st) in
      if token = 0 then None
      else Some (ipu_send_put_token (swapped ctx) n (fst st), (snd st)(token := m)))"

lemma peer_takes:
  assumes "queue_ok (fc_input_queue ctx ! n)"
  shows "fw_takes ctx (fc_input_queue ctx ! n) (peer_take ctx n)"
  unfolding fw_takes_def
proof (intro allI impI)
  fix regs mem
  let ?q = "fc_input_queue ctx ! n"
  assume ok: "indices_ok ctx ?q regs"
  have lt: "rd_of ctx ?q regs < sq_size ?q" using ok by (simp add: indices_ok_def)
  note get = recv_get_token_spec [of ?q "swapped ctx" n regs] and idx = recv_put_indices [of ?q "swapped ctx" n regs]
  show "if wr_of ctx ?q regs = rd_of ctx ?q regs then peer_take ctx n (regs, mem) = None
      else \<exists>regs' mem'. peer_take ctx n (regs, mem) = Some (mem (token_addr ?q (rd_of ctx ?q regs)), regs', mem') \<and>
        wr_of ctx ?q regs' = wr_of ctx ?q regs \<and> rd_of ctx ?q regs' = next_index ?q (rd_of ctx ?q regs) \<and>
        (\<forall>i < sq_size ?q. mem' (token_addr ?q i) = mem (token_addr ?q i))"
    using ok token_addr_not_null [OF assms lt] get idx by (simp add: peer_take_def next_index_def)
qed

lemma peer_posts:
  assumes "queue_ok (fc_output_queue ctx ! n)"
  shows "fw_posts ctx (fc_output_queue ctx ! n) (peer_post ctx n)"
  unfolding fw_posts_def
proof (intro allI impI, elim conjE)
  fix regs mem and m
  let ?q = "fc_output_queue ctx ! n"
  assume ok: "indices_ok ctx ?q regs" and len: "length (slots_of ctx ?q regs) < unat (sq_size ?q) - 1"
  have lt: "wr_of ctx ?q regs < sq_size ?q" using ok by (simp add: indices_ok_def)
  have get: "ipu_send_get_token (swapped ctx) n regs = token_addr ?q (wr_of ctx ?q regs)"
    using full_length [OF ok] len ok by (auto simp: send_get_token_spec [of ?q "swapped ctx"])
  note idx = send_put_indices [of ?q "swapped ctx" n regs]
  show "\<exists>regs' mem'. peer_post ctx n m (regs, mem) = Some (regs', mem') \<and>
        rd_of ctx ?q regs' = rd_of ctx ?q regs \<and> wr_of ctx ?q regs' = next_index ?q (wr_of ctx ?q regs) \<and>
        (\<forall>i < sq_size ?q. mem' (token_addr ?q i) = (if i = wr_of ctx ?q regs then m else mem (token_addr ?q i)))"
    using token_addr_not_null [OF assms lt] get idx token_addr_inj [OF assms _ lt]
    by (simp add: peer_post_def next_index_def)
qed

text \<open>The full ring whose read index is not 0 looks like one with \<open>size\<close> free slots.\<close>

lemma full_ring_overrun:
  assumes "q = fc_input_queue ctx ! n" "queue_ok q" "indices_ok ctx q regs"
    and "rd_of ctx q regs = wr_of ctx q regs + 1"
  shows "length (slots_of ctx q regs) = unat (sq_size q) - 1 \<and>
    ipu_send_get_token ctx n regs = token_addr q (wr_of ctx q regs) \<and>
    ipu_send_get_token ctx n regs \<noteq> 0 \<and>
    slots_of ctx q (ipu_send_put_token ctx n regs) = []"
proof -
  let ?wr = "wr_of ctx q regs" and ?rd = "rd_of ctx q regs"
  have lt: "?wr < sq_size q" "?rd < sq_size q" using assms(3) by (simp_all add: indices_ok_def)
  have n: "unat ?rd = unat ?wr + 1" "unat ?rd < unat (sq_size q)"
    using assms(4) lt unfolding assms(4) by unat_arith+
  have rd: "?rd \<noteq> 0" using n(1) by auto
  have "length (slots_of ctx q regs) = unat (sq_size q) - 1"
    using n by (simp add: slots_of_def pending_length)
  moreover have "ipu_send_get_token ctx n regs = token_addr q ?wr"
    using rd assms(3) by (simp add: send_get_token_spec [OF assms(1)])
  moreover have "slots_of ctx q (ipu_send_put_token ctx n regs) = []"
  proof -
    have "wr_of ctx q (ipu_send_put_token ctx n regs) = rd_of ctx q (ipu_send_put_token ctx n regs)"
      using lt(2) assms(4) by (auto simp: send_put_indices [OF assms(1)] dest: leD)
    moreover have "indices_ok ctx q (ipu_send_put_token ctx n regs)"
      using put_indices_ok(1) [of ctx n regs] assms(1,3) by simp
    ultimately show ?thesis by (simp add: slots_empty)
  qed
  ultimately show ?thesis using token_addr_not_null [OF assms(2) lt(1)] by simp
qed

section \<open>The layout of the DMA buffer\<close>

definition bytes :: "syscom_queue_config \<Rightarrow> nat" where
  "bytes c = (unat (qc_queue_size c) + 1) * unat (qc_token_size c)"

lemma bytes_nat:
  assumes "bytes c < 2 ^ 32" "qc_queue_size c + 1 \<noteq> 0"
  shows "unat (ipu_sys_queue_buf_size (qc_queue_size c) (qc_token_size c)) = bytes c"
proof -
  have "unat (qc_queue_size c + 1) = unat (qc_queue_size c) + 1" using assms(2) by unat_arith
  then show ?thesis
    using assms(1) by (simp add: ipu_sys_queue_buf_size_def bytes_def unat_word_ariths)
qed

lemma queues_size_nat:
  assumes "\<forall>c \<in> set cs. qc_queue_size c + 1 \<noteq> 0" "n + sum_list (map bytes cs) < 2 ^ 32"
    "unat s = n"
  shows "unat (foldl (\<lambda>s c. s + ipu_sys_queue_buf_size (qc_queue_size c) (qc_token_size c)) s cs) =
    n + sum_list (map bytes cs)"
  using assms
proof (induction cs arbitrary: n s)
  case Nil
  then show ?case by simp
next
  case (Cons c cs)
  have "unat (ipu_sys_queue_buf_size (qc_queue_size c) (qc_token_size c)) = bytes c"
    by (rule bytes_nat) (use Cons.prems in auto)
  then have "unat (s + ipu_sys_queue_buf_size (qc_queue_size c) (qc_token_size c)) = n + bytes c"
    using Cons.prems by (subst unat_add_no_wrap) auto
  then show ?case using Cons.IH [of "n + bytes c"] Cons.prems by (simp add: add.assoc)
qed

lemma init_queues_length: "length (fst (init_queues cs res)) = length cs"
  by (induction cs arbitrary: res) (auto simp: split_beta)

lemma init_queues_nth:
  assumes "i < length cs"
  shows "sq_size (fst (init_queues cs res) ! i) = qc_queue_size (cs ! i) + 1"
    "sq_token_size (fst (init_queues cs res) ! i) = qc_token_size (cs ! i)"
    "sq_wr_reg (fst (init_queues cs res) ! i) = res_reg res + 2 * of_nat i"
    "sq_rd_reg (fst (init_queues cs res) ! i) = res_reg res + 2 * of_nat i + 1"
  using assms
  by (induction cs arbitrary: res i)
    (auto simp: split_beta ipu_sys_queue_init_def Let_def nth_Cons algebra_simps split: nat.split)

lemma init_queues_res_reg: "res_reg (snd (init_queues cs res)) = res_reg res + 2 * of_nat (length cs)"
  by (induction cs arbitrary: res)
    (auto simp: split_beta ipu_sys_queue_init_def Let_def algebra_simps)

lemma init_queues_host:
  assumes "i < length cs" "\<forall>c \<in> set cs. qc_queue_size c + 1 \<noteq> 0"
    "sum_list (map bytes cs) < 2 ^ 32"
    "unat (res_host_address res) + sum_list (map bytes cs) < 2 ^ 64"
  shows "unat (sq_host_address (fst (init_queues cs res) ! i)) =
    unat (res_host_address res) + sum_list (map bytes (take i cs))"
  using assms
proof (induction cs arbitrary: res i)
  case Nil
  then show ?case by simp
next
  case (Cons c cs)
  let ?res = "snd (ipu_sys_queue_init (qc_queue_size c) (qc_token_size c) res)"
  have b: "unat (ipu_sys_queue_buf_size (qc_queue_size c) (qc_token_size c)) = bytes c"
    by (rule bytes_nat) (use Cons.prems in auto)
  have "unat (ucast (ipu_sys_queue_buf_size (qc_queue_size c) (qc_token_size c)) :: u64) = bytes c"
    using b Cons.prems(3) by (simp add: unsigned_ucast_eq take_bit_nat_eq_self)
  then have res: "unat (res_host_address ?res) = unat (res_host_address res) + bytes c"
    using Cons.prems(4) by (simp add: ipu_sys_queue_init_def Let_def unat_add_no_wrap)
  show ?case
  proof (cases i)
    case 0
    then show ?thesis by (simp add: split_beta ipu_sys_queue_init_def Let_def)
  next
    case (Suc j)
    then show ?thesis
      using Cons.IH [of j ?res] Cons.prems res by (simp add: split_beta add.assoc)
  qed
qed

text \<open>The bytes a queue's tokens occupy, as addresses.\<close>

definition span :: "sys_queue \<Rightarrow> nat set" where
  "span q = {unat (sq_host_address q) ..<
     unat (sq_host_address q) + unat (sq_size q) * unat (sq_token_size q)}"

lemma sum_bytes_take:
  "i < length cs \<Longrightarrow> sum_list (map bytes (take i cs)) + bytes (cs ! i) = sum_list (map bytes (take (Suc i) cs))"
  by (simp add: take_Suc_conv_app_nth)

lemma sum_bytes_mono:
  assumes "i \<le> j"
  shows "sum_list (map bytes (take i cs)) \<le> sum_list (map bytes (take j cs))"
proof -
  have "take j cs = take i cs @ take (j - i) (drop i cs)"
    using assms by (metis le_add_diff_inverse take_add)
  then show ?thesis by simp
qed

lemma init_queues_span:
  assumes "i < length cs" "\<forall>c \<in> set cs. qc_queue_size c + 1 \<noteq> 0"
    "sum_list (map bytes cs) < 2 ^ 32"
    "unat (res_host_address res) + sum_list (map bytes cs) < 2 ^ 64"
  shows "span (fst (init_queues cs res) ! i) =
    {unat (res_host_address res) + sum_list (map bytes (take i cs)) ..<
     unat (res_host_address res) + sum_list (map bytes (take (Suc i) cs))}"
proof -
  have "qc_queue_size (cs ! i) + 1 \<noteq> 0" using assms(1,2) nth_mem by blast
  then have "unat (qc_queue_size (cs ! i) + 1) = unat (qc_queue_size (cs ! i)) + 1"
    by unat_arith
  then show ?thesis
    using sum_bytes_take [OF assms(1)]
    by (simp add: span_def init_queues_host [OF assms] init_queues_nth [OF assms(1)] bytes_def add.assoc)
qed

lemma init_queues_disjoint:
  assumes "i < j" "j < length cs" "\<forall>c \<in> set cs. qc_queue_size c + 1 \<noteq> 0"
    "sum_list (map bytes cs) < 2 ^ 32"
    "unat (res_host_address res) + sum_list (map bytes cs) < 2 ^ 64"
  shows "span (fst (init_queues cs res) ! i) \<inter> span (fst (init_queues cs res) ! j) = {}"
proof -
  have "i < length cs" using assms(1,2) by simp
  then show ?thesis
    using init_queues_span [OF _ assms(3-5)] assms(1,2) sum_bytes_mono [of "Suc i" j cs]
    by (auto simp: not_less)
qed

text \<open>The sizes of a configuration, without wrap-around, and that they fit.\<close>

definition header_nat :: "fw_com_cfg \<Rightarrow> nat" where
  "header_nat cfg = 32 + 32 * unat (cfg_num_input_queues cfg) + 32 * unat (cfg_num_output_queues cfg)
     + (unat (cfg_specific_size cfg) + 7) div 8 * 8"

definition layout_fits :: "fw_com_cfg \<Rightarrow> u64 \<Rightarrow> bool" where
  "layout_fits cfg buf \<longleftrightarrow>
     list_all (\<lambda>c. qc_queue_size c + 1 \<noteq> 0) (inputs cfg @ outputs cfg) \<and>
     header_nat cfg + sum_list (map bytes (inputs cfg)) + sum_list (map bytes (outputs cfg)) < 2 ^ 32 \<and>
     unat buf + header_nat cfg + sum_list (map bytes (inputs cfg)) + sum_list (map bytes (outputs cfg))
       < 2 ^ 64"

lemma unat_roundup8:
  assumes "(unat x + 7) div 8 * 8 < 2 ^ 32 - 32"
  shows "unat (roundup8 x) = (unat x + 7) div 8 * 8"
proof -
  have "unat x + 7 < 2 ^ 32" using assms by simp
  then have "unat (x + 7) = unat x + 7" by (simp add: unat_word_ariths)
  then have "unat ((x + 7) div 8) = (unat x + 7) div 8" by (simp add: unat_div)
  then show ?thesis using assms unfolding roundup8_def by (simp add: unat_word_ariths)
qed

lemma unat_mult32:
  fixes n :: u32
  assumes "32 * unat n < 2 ^ 32"
  shows "unat (n * sizeof_sys_queue) = 32 * unat n"
  using assms by (simp add: sizeof_sys_queue_def unat_word_ariths mult.commute)

lemma roundup8_config: "roundup8 sizeof_syscom_config = 32"
  by (simp add: roundup8_def sizeof_syscom_config_def)

lemma header_size_nat:
  assumes "header_nat cfg < 2 ^ 32"
  shows "unat (header_size cfg) = header_nat cfg"
proof -
  let ?a = "cfg_num_input_queues cfg" and ?b = "cfg_num_output_queues cfg"
  have "unat (roundup8 (cfg_specific_size cfg)) = (unat (cfg_specific_size cfg) + 7) div 8 * 8"
    by (rule unat_roundup8) (use assms in \<open>simp add: header_nat_def\<close>)
  moreover have "unat (?a * sizeof_sys_queue) = 32 * unat ?a" "unat (?b * sizeof_sys_queue) = 32 * unat ?b"
    by (rule unat_mult32; use assms in \<open>simp add: header_nat_def\<close>)+
  ultimately show ?thesis
    using assms
    by (simp add: header_size_def header_nat_def roundup8_config unat_add_no_wrap)
qed

lemma layout_sizes:
  assumes "layout_fits cfg buf"
  shows "unat (header_size cfg) = header_nat cfg"
    "unat (queues_size (inputs cfg)) = sum_list (map bytes (inputs cfg))"
    "unat (queues_size (outputs cfg)) = sum_list (map bytes (outputs cfg))"
    "unat (size_all cfg) = header_nat cfg + sum_list (map bytes (inputs cfg)) + sum_list (map bytes (outputs cfg))"
proof -
  show h: "unat (header_size cfg) = header_nat cfg"
    by (rule header_size_nat) (use assms in \<open>simp add: layout_fits_def\<close>)
  show i: "unat (queues_size (inputs cfg)) = sum_list (map bytes (inputs cfg))"
    using queues_size_nat [of "inputs cfg" 0 0] assms
    by (simp add: layout_fits_def queues_size_def list_all_iff)
  show o: "unat (queues_size (outputs cfg)) = sum_list (map bytes (outputs cfg))"
    using queues_size_nat [of "outputs cfg" 0 0] assms
    by (simp add: layout_fits_def queues_size_def list_all_iff)
  show "unat (size_all cfg) = header_nat cfg + sum_list (map bytes (inputs cfg)) + sum_list (map bytes (outputs cfg))"
    using assms h i o by (simp add: size_all_def layout_fits_def unat_add_no_wrap)
qed

lemma layout_queues:
  "fc_input_queue (layout_context cfg ready start base buf addr) =
     fst (init_queues (inputs cfg) \<lparr>res_host_address = buf + ucast (header_size cfg),
       res_vied_address = ucast (addr + ucast (header_size cfg)), res_reg = SYSCOM_QPR_BASE_REG\<rparr>)"
  "fc_output_queue (layout_context cfg ready start base buf addr) =
     fst (init_queues (outputs cfg)
       \<lparr>res_host_address = buf + ucast (header_size cfg + queues_size (inputs cfg)),
        res_vied_address = ucast (addr + ucast (header_size cfg + queues_size (inputs cfg))),
        res_reg = SYSCOM_QPR_BASE_REG + 2 * of_nat (length (inputs cfg))\<rparr>)"
proof -
  have upd: "r\<lparr>res_host_address := a, res_vied_address := b\<rparr> =
      \<lparr>res_host_address = a, res_vied_address = b, res_reg = res_reg r\<rparr>" for r :: sys_queue_res and a b
    by simp
  show "fc_input_queue (layout_context cfg ready start base buf addr) =
     fst (init_queues (inputs cfg) \<lparr>res_host_address = buf + ucast (header_size cfg),
       res_vied_address = ucast (addr + ucast (header_size cfg)), res_reg = SYSCOM_QPR_BASE_REG\<rparr>)"
    by (simp add: layout_context_def Let_def split_beta header_size_def)
  show "fc_output_queue (layout_context cfg ready start base buf addr) =
     fst (init_queues (outputs cfg)
       \<lparr>res_host_address = buf + ucast (header_size cfg + queues_size (inputs cfg)),
        res_vied_address = ucast (addr + ucast (header_size cfg + queues_size (inputs cfg))),
        res_reg = SYSCOM_QPR_BASE_REG + 2 * of_nat (length (inputs cfg))\<rparr>)"
    by (simp add: layout_context_def Let_def split_beta header_size_def upd init_queues_res_reg)
qed

lemma host_offset:
  fixes off :: u32
  assumes "unat buf + unat off < 2 ^ 64"
  shows "unat (buf + ucast off :: u64) = unat buf + unat off"
proof -
  have "unat (ucast off :: u64) = unat off"
    using unsigned_less [of off, where ?'a = nat] by (simp add: unsigned_ucast_eq take_bit_nat_eq_self)
  then show ?thesis using assms by (simp add: unat_add_no_wrap)
qed

text \<open>
  All queues of a context: their token buffers lie in the DMA buffer behind its header,
  do not overlap, and each has its own pair of registers.
\<close>

lemma span_block:
  fixes cs res
  defines "qs \<equiv> fst (init_queues cs res)"
  assumes "list_all (\<lambda>c. qc_queue_size c + 1 \<noteq> 0) cs" "sum_list (map bytes cs) < 2 ^ 32"
    "unat (res_host_address res) + sum_list (map bytes cs) < 2 ^ 64" "j < length qs"
  shows "span (qs ! j) \<subseteq> {unat (res_host_address res) ..<
      unat (res_host_address res) + sum_list (map bytes cs)}"
    and "i < j \<Longrightarrow> span (qs ! i) \<inter> span (qs ! j) = {}"
proof -
  have j: "j < length cs" using assms(5) by (simp add: qs_def init_queues_length)
  have ok: "\<forall>c \<in> set cs. qc_queue_size c + 1 \<noteq> 0" using assms(2) by (simp add: list_all_iff)
  have "sum_list (map bytes (take (Suc j) cs)) \<le> sum_list (map bytes cs)"
    using sum_bytes_mono [of "Suc j" "length cs" cs] j by simp
  then show "span (qs ! j) \<subseteq> {unat (res_host_address res) ..<
      unat (res_host_address res) + sum_list (map bytes cs)}"
    using init_queues_span [OF j ok assms(3,4)] by (auto simp: qs_def)
  show "i < j \<Longrightarrow> span (qs ! i) \<inter> span (qs ! j) = {}"
    unfolding qs_def by (rule init_queues_disjoint [OF _ j ok assms(3,4)])
qed

definition all_queues :: "fw_com_context \<Rightarrow> sys_queue list" where
  "all_queues ctx = fc_input_queue ctx @ fc_output_queue ctx"

lemma layout_spans:
  fixes cfg ready start base buf addr
  defines "ctx \<equiv> layout_context cfg ready start base buf addr"
  assumes fits: "layout_fits cfg buf" and j: "j < length (all_queues ctx)"
  shows "span (all_queues ctx ! j) \<subseteq>
      {unat buf + header_nat cfg ..< unat buf + unat (fc_dma_size ctx)}"
    and "i < j \<Longrightarrow> span (all_queues ctx ! i) \<inter> span (all_queues ctx ! j) = {}"
    and "sq_wr_reg (all_queues ctx ! j) = SYSCOM_QPR_BASE_REG + 2 * of_nat j"
    and "sq_rd_reg (all_queues ctx ! j) = sq_wr_reg (all_queues ctx ! j) + 1"
proof -
  let ?ins = "inputs cfg" and ?outs = "outputs cfg"
  let ?n = "length ?ins"
  let ?sin = "sum_list (map bytes ?ins)" and ?sout = "sum_list (map bytes ?outs)"
  let ?r = "\<lparr>res_host_address = buf + ucast (header_size cfg),
       res_vied_address = ucast (addr + ucast (header_size cfg)), res_reg = SYSCOM_QPR_BASE_REG\<rparr>"
  let ?s = "\<lparr>res_host_address = buf + ucast (header_size cfg + queues_size ?ins),
        res_vied_address = ucast (addr + ucast (header_size cfg + queues_size ?ins)),
        res_reg = SYSCOM_QPR_BASE_REG + 2 * of_nat ?n\<rparr>"
  have fit: "header_nat cfg + ?sin + ?sout < 2 ^ 32" "unat buf + header_nat cfg + ?sin + ?sout < 2 ^ 64"
      "list_all (\<lambda>c. qc_queue_size c + 1 \<noteq> 0) ?ins" "list_all (\<lambda>c. qc_queue_size c + 1 \<noteq> 0) ?outs"
    using fits by (simp_all add: layout_fits_def)
  note sizes = layout_sizes [OF fits]
  have r: "unat (res_host_address ?r) = unat buf + header_nat cfg"
    using fit(2) sizes(1) host_offset [of buf "header_size cfg"] by simp
  have "unat (header_size cfg + queues_size ?ins) = header_nat cfg + ?sin"
    using fit(1) sizes by (simp add: unat_add_no_wrap)
  then have s: "unat (res_host_address ?s) = unat buf + header_nat cfg + ?sin"
    using fit(2) host_offset [of buf "header_size cfg + queues_size ?ins"] by simp
  have dma: "unat (fc_dma_size ctx) = header_nat cfg + ?sin + ?sout"
    using sizes(4) by (simp add: ctx_def layout_context_def Let_def split_beta)
  have ins: "fc_input_queue ctx = fst (init_queues ?ins ?r)"
    and outs: "fc_output_queue ctx = fst (init_queues ?outs ?s)"
    by (simp_all add: ctx_def layout_queues)
  have len: "length (fc_input_queue ctx) = ?n" "length (fc_output_queue ctx) = length ?outs"
    by (simp_all add: ins outs init_queues_length)
  have inb: "span (fst (init_queues ?ins ?r) ! k) \<subseteq> {unat buf + header_nat cfg ..<
        unat buf + header_nat cfg + ?sin}" if "k < ?n" for k
    using span_block(1) [of ?ins ?r k] fit r that by (simp add: init_queues_length)
  have outb: "span (fst (init_queues ?outs ?s) ! k) \<subseteq> {unat buf + header_nat cfg + ?sin ..<
        unat buf + header_nat cfg + ?sin + ?sout}" if "k < length ?outs" for k
    using span_block(1) [of ?outs ?s k] fit s that by (simp add: init_queues_length)
  have nth: "all_queues ctx ! k = (if k < ?n then fst (init_queues ?ins ?r) ! k
      else fst (init_queues ?outs ?s) ! (k - ?n))" for k
    by (simp add: all_queues_def nth_append len ins [symmetric] outs [symmetric])
  have jlen: "j < ?n + length ?outs" using j by (simp add: all_queues_def len)
  show "span (all_queues ctx ! j) \<subseteq> {unat buf + header_nat cfg ..< unat buf + unat (fc_dma_size ctx)}"
  proof (cases "j < ?n")
    case True
    have "{unat buf + header_nat cfg ..< unat buf + header_nat cfg + ?sin} \<subseteq>
        {unat buf + header_nat cfg ..< unat buf + (header_nat cfg + ?sin + ?sout)}" by auto
    then show ?thesis using inb [OF True] True unfolding nth dma by auto
  next
    case False
    then have "j - ?n < length ?outs" using jlen by linarith
    moreover have "{unat buf + header_nat cfg + ?sin ..< unat buf + header_nat cfg + ?sin + ?sout} \<subseteq>
        {unat buf + header_nat cfg ..< unat buf + (header_nat cfg + ?sin + ?sout)}" by auto
    ultimately show ?thesis using outb [of "j - ?n"] False unfolding nth dma by (auto 0 3)
  qed
  show "span (all_queues ctx ! i) \<inter> span (all_queues ctx ! j) = {}" if ij: "i < j"
  proof -
    consider "j < ?n" | "i < ?n" "\<not> j < ?n" | "\<not> i < ?n" "\<not> j < ?n" using ij by linarith
    then show ?thesis
    proof cases
      case 1
      then show ?thesis
        using span_block(2) [of ?ins ?r j i] fit r ij by (simp add: nth init_queues_length)
    next
      case 2
      then show ?thesis
        unfolding nth using inb [of i] outb [of "j - ?n"] jlen by fastforce
    next
      case 3
      then show ?thesis
        using span_block(2) [of ?outs ?s "j - ?n" "i - ?n"] fit s ij jlen
        by (simp add: nth init_queues_length)
    qed
  qed
  show "sq_wr_reg (all_queues ctx ! j) = SYSCOM_QPR_BASE_REG + 2 * of_nat j"
    using jlen by (simp add: nth init_queues_nth(3) of_nat_diff not_less algebra_simps)
  show "sq_rd_reg (all_queues ctx ! j) = sq_wr_reg (all_queues ctx ! j) + 1"
    using jlen by (simp add: nth init_queues_nth(3,4))
qed

text \<open>Every queue of a prepared context is in order.\<close>

lemma prepared_context:
  assumes "ipu_fw_com_prepare (Some cfg) base True alloc h = (Some ctx, h')"
  obtains ready start addr where "ctx = layout_context cfg ready start base (fc_dma_buffer ctx) addr"
proof -
  obtain ready start buf addr where ctx: "ctx = layout_context cfg ready start base buf addr"
    using assms by (auto simp: ipu_fw_com_prepare_def Let_def split: option.splits)
  then have "fc_dma_buffer ctx = buf" by (simp add: layout_context_def Let_def split_beta)
  then show ?thesis using ctx that by blast
qed

lemma prepared_queue:
  assumes "ipu_fw_com_prepare (Some cfg) base True alloc h = (Some ctx, h')"
    and "layout_fits cfg (fc_dma_buffer ctx)" "list_all (\<lambda>c. 0 < qc_token_size c) (inputs cfg @ outputs cfg)"
    and "j < length (inputs cfg @ outputs cfg)"
  shows "queue_ok (all_queues ctx ! j)" "unat (sq_size (all_queues ctx ! j)) = Suc (unat (qc_queue_size ((inputs cfg @ outputs cfg) ! j)))"
    "length (fc_input_queue ctx) = length (inputs cfg)" "length (fc_output_queue ctx) = length (outputs cfg)"
proof -
  obtain ready start addr where ctx: "ctx = layout_context cfg ready start base (fc_dma_buffer ctx) addr"
    by (rule prepared_context [OF assms(1)])
  let ?qs = "all_queues ctx" and ?cs = "inputs cfg @ outputs cfg"
  note lay = layout_queues [of cfg ready start base "fc_dma_buffer ctx" addr, folded ctx]
  show len: "length (fc_input_queue ctx) = length (inputs cfg)" "length (fc_output_queue ctx) = length (outputs cfg)"
    by (simp_all add: lay init_queues_length)
  then have j: "j < length ?qs" using assms(4) by (simp add: all_queues_def)
  have nth: "sq_size (?qs ! j) = qc_queue_size (?cs ! j) + 1 \<and> sq_token_size (?qs ! j) = qc_token_size (?cs ! j)"
    using assms(4) by (cases "j < length (inputs cfg)")
      (simp_all add: all_queues_def nth_append lay init_queues_length init_queues_nth)
  have in_cs: "?cs ! j \<in> set ?cs" using assms(4) nth_mem by blast
  then have c: "qc_queue_size (?cs ! j) + 1 \<noteq> 0" "0 < qc_token_size (?cs ! j)"
    using assms(2,3) unfolding layout_fits_def list_all_iff by blast+
  then show sz: "unat (sq_size (?qs ! j)) = Suc (unat (qc_queue_size (?cs ! j)))" using nth by simp unat_arith
  have "bytes (?cs ! j) \<le> sum_list (map bytes ?cs)"
    by (rule member_le_sum_list) (use in_cs in auto)
  then have b: "bytes (?cs ! j) < 2 ^ 32" using assms(2) by (simp add: layout_fits_def)
  have area: "unat (sq_size (?qs ! j)) * unat (sq_token_size (?qs ! j)) = bytes (?cs ! j)"
    using sz nth by (simp add: bytes_def)
  have "0 < unat (qc_token_size (?cs ! j))" using c(2) by (simp add: unat_gt_0 word_gt_0)
  then have pos: "0 < bytes (?cs ! j)" by (simp add: bytes_def)
  have sp: "span (?qs ! j) \<subseteq> {unat (fc_dma_buffer ctx) + header_nat cfg ..<
      unat (fc_dma_buffer ctx) + unat (fc_dma_size ctx)}"
    using layout_spans(1) [of cfg "fc_dma_buffer ctx" j ready start base addr, folded ctx] assms(2) j by blast
  have "unat (sq_host_address (?qs ! j)) \<in> span (?qs ! j)" using pos area by (simp add: span_def)
  then have host: "unat (fc_dma_buffer ctx) + header_nat cfg \<le> unat (sq_host_address (?qs ! j))" using sp by auto
  have "unat (sq_host_address (?qs ! j)) + bytes (?cs ! j) - 1 \<in> span (?qs ! j)" using pos area by (simp add: span_def)
  then have last: "unat (sq_host_address (?qs ! j)) + bytes (?cs ! j) - 1 < unat (fc_dma_buffer ctx) + unat (fc_dma_size ctx)"
    using sp by auto
  have "fc_dma_size ctx = size_all cfg" by (subst ctx) (simp add: layout_context_def Let_def split_beta)
  then have "unat (fc_dma_buffer ctx) + unat (fc_dma_size ctx) < 2 ^ 64"
    using layout_sizes(4) [OF assms(2)] assms(2) by (simp add: layout_fits_def)
  moreover have "0 < sq_host_address (?qs ! j)" using host by (simp add: header_nat_def word_gt_0 unat_gt_0 flip: unat_eq_zero)
  ultimately show "queue_ok (?qs ! j)"
    unfolding queue_ok_def area using nth c b last pos by (simp add: word_gt_0)
qed

section \<open>The properties\<close>

text \<open>A context with one queue each way, of three and of five slots, at 0x1000, for the witnesses.\<close>

definition demo_cfg :: fw_com_cfg where
  "demo_cfg = \<lparr>cfg_num_input_queues = 1, cfg_num_output_queues = 1,
     cfg_input = [\<lparr>qc_queue_size = 2, qc_token_size = 8\<rparr>],
     cfg_output = [\<lparr>qc_queue_size = 4, qc_token_size = 16\<rparr>],
     cfg_dmem_addr = 0, cfg_specific = None, cfg_specific_size = 0,
     cfg_cell_ready = Some (\<lambda>_. True), cfg_cell_start = Some (\<lambda>r. r)\<rparr>"

definition demo_ctx :: fw_com_context where
  "demo_ctx = layout_context demo_cfg (\<lambda>_. True) (\<lambda>r. r) 0 0x1000 0x1000"

lemma demo_prepare:
  "ipu_fw_com_prepare (Some demo_cfg) 0 True (\<lambda>_. Some (0x1000, 0x1000)) \<lparr>heap_contexts = 0, heap_dma = 0\<rparr> =
    (Some demo_ctx, \<lparr>heap_contexts = 1, heap_dma = 1\<rparr>)"
  by (simp add: ipu_fw_com_prepare_def demo_ctx_def demo_cfg_def)

definition demo_queue :: sys_queue where
  "demo_queue = \<lparr>sq_host_address = 0x1060, sq_vied_address = 0x1060, sq_size = 3, sq_token_size = 8,
     sq_wr_reg = 6, sq_rd_reg = 7\<rparr>"

definition demo_event_queue :: sys_queue where
  "demo_event_queue = \<lparr>sq_host_address = 0x1078, sq_vied_address = 0x1078, sq_size = 5, sq_token_size = 16,
     sq_wr_reg = 8, sq_rd_reg = 9\<rparr>"

definition demo_regs :: "u32 \<Rightarrow> u32 \<Rightarrow> regs" where
  "demo_regs wr rd = (\<lambda>_. 0)(q_dmem demo_ctx demo_queue + 0 := wr, q_dmem demo_ctx demo_queue + 4 := rd)"

lemma demo_layout:
  "fc_input_queue demo_ctx = [demo_queue]" "fc_output_queue demo_ctx = [demo_event_queue]"
  "inputs demo_cfg = [\<lparr>qc_queue_size = 2, qc_token_size = 8\<rparr>]"
  "outputs demo_cfg = [\<lparr>qc_queue_size = 4, qc_token_size = 16\<rparr>]"
  "fc_dma_buffer demo_ctx = 0x1000" "fc_dmem_addr demo_ctx = 0"
  by (simp_all add: demo_ctx_def layout_context_def demo_cfg_def inputs_def outputs_def Let_def demo_queue_def
      demo_event_queue_def ipu_sys_queue_init_def ipu_sys_queue_buf_size_def queues_size_def roundup8_def
      sizeof_syscom_config_def sizeof_sys_queue_def SYSCOM_QPR_BASE_REG_def)

lemma demo_simps [simp]:
  "fc_input_queue demo_ctx ! 0 = demo_queue"
  "wr_of demo_ctx demo_queue (demo_regs wr rd) = wr"
  "rd_of demo_ctx demo_queue (demo_regs wr rd) = rd"
  "queue_ok demo_queue" "sq_size demo_queue = 3"
  by (simp_all add: demo_layout demo_regs_def wr_of_def rd_of_def readl_def FW_COM_WR_REG_def
      FW_COM_RD_REG_def queue_ok_def demo_queue_def)

lemma demo_cfg_fits:
  "layout_fits demo_cfg (fc_dma_buffer demo_ctx)"
  "list_all (\<lambda>c. 0 < qc_token_size c) (inputs demo_cfg @ outputs demo_cfg)"
  "queue_ok demo_event_queue"
  by (simp_all add: layout_fits_def demo_layout header_nat_def bytes_def queue_ok_def demo_event_queue_def)
    (simp add: demo_cfg_def)



text \<open>
  C2: An output queue of a prepared context is a FIFO from the firmware to the driver in the same way.
\<close>

theorem event_queue_fifo:
  assumes "ipu_fw_com_prepare (Some cfg) base True alloc h = (Some ctx, h')"
    and "layout_fits cfg (fc_dma_buffer ctx)" "list_all (\<lambda>c. 0 < qc_token_size c) (inputs cfg @ outputs cfg)"
    and "n < length (outputs cfg)" "indices_ok ctx (fc_output_queue ctx ! n) regs"
    and "fw_posts ctx (fc_output_queue ctx ! n) post"
    and "events.fits (unat (qc_queue_size (outputs cfg ! n)))
      (length (messages ctx (fc_output_queue ctx ! n) regs mem)) ops"
  shows "\<exists>ms regs' mem'.
    events.run ops \<lparr>el_ctx = ctx, el_queue = n, el_post = post, el_regs = regs, el_mem = mem\<rparr> =
      Some (ms, \<lparr>el_ctx = ctx, el_queue = n, el_post = post, el_regs = regs', el_mem = mem'\<rparr>) \<and>
    ms @ messages ctx (fc_output_queue ctx ! n) regs' mem' =
      messages ctx (fc_output_queue ctx ! n) regs mem @ events.sent ops"
proof -
  let ?s = "\<lparr>el_ctx = ctx, el_queue = n, el_post = post, el_regs = regs, el_mem = mem\<rparr>"
  let ?j = "length (inputs cfg) + n"
  note p = prepared_queue [OF assms(1-3), of ?j]
  have n: "all_queues ctx ! ?j = fc_output_queue ctx ! n" "(inputs cfg @ outputs cfg) ! ?j = outputs cfg ! n"
    using assms(4) p(3) by (simp_all add: all_queues_def nth_append)
  have "queue_ok (fc_output_queue ctx ! n)"
    "unat (sq_size (fc_output_queue ctx ! n)) = Suc (unat (qc_queue_size (outputs cfg ! n)))"
    using p(1,2) assms(4) by (simp_all add: n)
  then have "event_good ?s" "event_capacity ?s = unat (qc_queue_size (outputs cfg ! n))"
    using assms(5,6) by (simp_all add: event_good_def event_queue_def event_capacity_def)
  then obtain ms s' where r: "events.run ops ?s = Some (ms, s')"
      "ms @ event_contents s' = event_contents ?s @ events.sent ops"
    using events.fifo [of ?s ops] assms(7) by (auto simp: event_contents_def event_queue_def)
  have "el_ctx s' = ctx \<and> el_queue s' = n \<and> el_post s' = post" using events_run_frame [OF r(1)] by simp
  then show ?thesis using r by (cases s') (auto simp: event_contents_def event_queue_def)
qed

theorem event_queue_fifo_witness:
  "\<exists>s'. events.run [Send 7, Send (8::nat), Receive, Receive]
     \<lparr>el_ctx = demo_ctx, el_queue = 0, el_post = peer_post demo_ctx 0, el_regs = (\<lambda>_. 0), el_mem = \<lambda>_. 0\<rparr> =
       Some ([7, 8], s')"
proof -
  have q: "fc_output_queue demo_ctx ! 0 = demo_event_queue" "sq_size demo_event_queue = 5"
    by (simp_all add: demo_layout demo_event_queue_def)
  have post_ok: "fw_posts demo_ctx (fc_output_queue demo_ctx ! 0) (peer_post demo_ctx 0)"
    by (rule peer_posts) (simp add: q demo_cfg_fits(3))
  have idx: "wr_of demo_ctx demo_event_queue (\<lambda>_. 0) = 0" "rd_of demo_ctx demo_event_queue (\<lambda>_. 0) = 0"
    by (simp_all add: wr_of_def rd_of_def readl_def)
  have ok: "indices_ok demo_ctx (fc_output_queue demo_ctx ! 0) (\<lambda>_. 0)" by (simp add: q idx indices_ok_def)
  have "messages demo_ctx (fc_output_queue demo_ctx ! 0) (\<lambda>_. 0) (\<lambda>_. 0) = ([] :: nat list)"
    by (simp add: messages_def slots_of_def pending_def q idx)
  then obtain ms regs' mem' where r: "events.run [Send 7, Send (8::nat), Receive, Receive]
     \<lparr>el_ctx = demo_ctx, el_queue = 0, el_post = peer_post demo_ctx 0, el_regs = (\<lambda>_. 0), el_mem = \<lambda>_. 0\<rparr> =
      Some (ms, \<lparr>el_ctx = demo_ctx, el_queue = 0, el_post = peer_post demo_ctx 0, el_regs = regs', el_mem = mem'\<rparr>)"
    "ms @ messages demo_ctx (fc_output_queue demo_ctx ! 0) regs' mem' = [7, 8]"
    using event_queue_fifo [OF demo_prepare demo_cfg_fits(1,2) _ ok post_ok, of "\<lambda>_. 0 :: nat" "[Send 7, Send 8, Receive, Receive]"]
    by (auto simp: demo_layout)
  moreover have "length ms = 2" using events_run_length [OF r(1)] by simp
  ultimately show ?thesis by (auto simp: append_eq_conv_conj)
qed

text \<open>
  The one full ring the sender sees: \<^verbatim>\<open>ipu_send_get_token\<close> refuses a token exactly
  when an index in device memory is out of range or the ring is full with its read index
  at 0; otherwise the token is the slot of the write index.
\<close>

theorem send_token_refused:
  assumes "queue_ok (fc_input_queue ctx ! n)"
  shows "ipu_send_get_token ctx n regs = 0 \<longleftrightarrow>
    \<not> (wr_of ctx (fc_input_queue ctx ! n) regs < sq_size (fc_input_queue ctx ! n) \<and>
       rd_of ctx (fc_input_queue ctx ! n) regs < sq_size (fc_input_queue ctx ! n)) \<or>
    rd_of ctx (fc_input_queue ctx ! n) regs = 0 \<and>
    wr_of ctx (fc_input_queue ctx ! n) regs + 1 = sq_size (fc_input_queue ctx ! n)"
  using token_addr_not_null [OF assms] send_get_token_spec [OF refl, of ctx n regs]
  by (auto simp: indices_ok_def)

theorem send_token_refused_witness:
  "ipu_send_get_token demo_ctx 0 (demo_regs 2 0) = 0 \<and>
   ipu_send_get_token demo_ctx 0 (demo_regs 1 2) \<noteq> 0"
  using send_token_refused [of demo_ctx 0 "demo_regs 2 0"] send_token_refused [of demo_ctx 0 "demo_regs 1 2"]
  by simp

text \<open>
  The overrun: a ring that is full with its read index not at 0 (\<open>rd = wr + 1\<close>) is
  taken for one with \<open>size\<close> free slots; the token is handed out, and after the put the ring
  reads as empty, so all \<open>size - 1\<close> pending messages are lost.
\<close>

theorem full_ring_is_overrun:
  assumes "queue_ok (fc_input_queue ctx ! n)" "indices_ok ctx (fc_input_queue ctx ! n) regs"
    and "rd_of ctx (fc_input_queue ctx ! n) regs = wr_of ctx (fc_input_queue ctx ! n) regs + 1"
  shows "length (messages ctx (fc_input_queue ctx ! n) regs mem) =
      unat (sq_size (fc_input_queue ctx ! n)) - 1 \<and>
    ipu_send_get_token ctx n regs \<noteq> 0 \<and>
    messages ctx (fc_input_queue ctx ! n) (ipu_send_put_token ctx n regs) mem' = []"
  using full_ring_overrun [OF refl assms] by (auto simp: messages_def)

theorem full_ring_is_overrun_witness:
  "length (messages demo_ctx demo_queue (demo_regs 0 1) (\<lambda>_. ())) = 2 \<and>
   messages demo_ctx demo_queue (ipu_send_put_token demo_ctx 0 (demo_regs 0 1)) (\<lambda>_. ()) = []"
  using full_ring_is_overrun [of demo_ctx 0 "demo_regs 0 1" "\<lambda>_. ()" "\<lambda>_. ()"] by (simp add: indices_ok_def)

text \<open>
  The layout \<^verbatim>\<open>ipu_fw_com_prepare\<close> makes of the DMA buffer: every queue's tokens lie
  behind the header and inside the allocation, no two queues share a byte, and each queue
  has its own two index registers, from register 6 on.
\<close>

theorem prepare_layout:
  assumes "ipu_fw_com_prepare (Some cfg) base True alloc h = (Some ctx, h')"
    and "layout_fits cfg (fc_dma_buffer ctx)" "j < length (all_queues ctx)"
  shows "span (all_queues ctx ! j) \<subseteq> {unat (fc_dma_buffer ctx) + header_nat cfg ..<
      unat (fc_dma_buffer ctx) + unat (fc_dma_size ctx)} \<and>
    (\<forall>i<j. span (all_queues ctx ! i) \<inter> span (all_queues ctx ! j) = {}) \<and>
    sq_wr_reg (all_queues ctx ! j) = 6 + 2 * of_nat j \<and>
    sq_rd_reg (all_queues ctx ! j) = 6 + 2 * of_nat j + 1"
proof -
  obtain ready start buf addr where ctx: "ctx = layout_context cfg ready start base buf addr"
    using assms(1) by (auto simp: ipu_fw_com_prepare_def Let_def split: option.splits)
  then have "fc_dma_buffer ctx = buf" by (simp add: layout_context_def Let_def split_beta)
  with layout_spans [of cfg buf j ready start base addr] assms(2,3) show ?thesis
    unfolding ctx by (simp add: SYSCOM_QPR_BASE_REG_def)
qed

theorem prepare_layout_witness:
  "\<exists>ctx h'. ipu_fw_com_prepare (Some demo_cfg) 0 True (\<lambda>_. Some (0x1000, 0x1000)) \<lparr>heap_contexts = 0, heap_dma = 0\<rparr>
      = (Some ctx, h') \<and> span (all_queues ctx ! 0) \<inter> span (all_queues ctx ! 1) = {}"
proof -
  let ?ctx = "layout_context demo_cfg (\<lambda>_. True) (\<lambda>r. r) 0 0x1000 0x1000"
  have p: "ipu_fw_com_prepare (Some demo_cfg) 0 True (\<lambda>_. Some (0x1000, 0x1000))
      \<lparr>heap_contexts = 0, heap_dma = 0\<rparr> = (Some ?ctx, \<lparr>heap_contexts = 1, heap_dma = 1\<rparr>)"
    by (simp add: ipu_fw_com_prepare_def demo_cfg_def)
  have "fc_dma_buffer ?ctx = 0x1000" by (simp add: layout_context_def Let_def split_beta)
  moreover have "layout_fits demo_cfg 0x1000"
    by (simp add: layout_fits_def demo_cfg_def inputs_def outputs_def header_nat_def bytes_def)
  moreover have "length (inputs demo_cfg) = 1" "length (outputs demo_cfg) = 1"
    by (simp_all add: demo_cfg_def inputs_def outputs_def)
  then have "length (all_queues ?ctx) = 2"
    by (simp add: all_queues_def layout_queues init_queues_length)
  ultimately show ?thesis
    using prepare_layout [OF p, of 1] p by auto
qed

text \<open>
  What \<^verbatim>\<open>ipu_fw_com_prepare\<close> leaves allocated: on success a context and a DMA buffer,
  which a forced \<^verbatim>\<open>ipu_fw_com_release\<close> gives back; on a failure before the first allocation
  nothing; but when the DMA allocation fails the context is leaked.
\<close>

theorem prepare_release_balance:
  "(case ipu_fw_com_prepare cfg base kz alloc h of
      (Some ctx, h') \<Rightarrow> ipu_fw_com_release ctx True regs h' = (Inr (), h)
    | (None, h') \<Rightarrow>
        h' = (case cfg of
                Some c \<Rightarrow> if kz \<and> cfg_cell_start c \<noteq> None \<and> cfg_cell_ready c \<noteq> None
                  then h\<lparr>heap_contexts := heap_contexts h + 1\<rparr> else h
              | None \<Rightarrow> h))"
  by (auto simp: ipu_fw_com_prepare_def ipu_fw_com_release_def Let_def split: option.splits)

text \<open>
  The handshake: after a successful open the state register reads UNINIT and the command
  register UNINIT if the start hook leaves them alone, so the port is neither ready nor can
  it be closed until the firmware writes READY; once it has, a close requests INACTIVE.
\<close>

theorem open_then_close:
  assumes "fc_cell_ready ctx regs"
    and "\<And>r. fc_cell_start ctx r (fc_dmem_addr ctx + 8) = r (fc_dmem_addr ctx + 8)"
  shows "fst (ipu_fw_com_open ctx regs) = Inr () \<and>
    ipu_fw_com_ready ctx (snd (ipu_fw_com_open ctx regs)) = Inl EBUSY \<and>
    ipu_fw_com_close ctx (snd (ipu_fw_com_open ctx regs)) = (Inl EBUSY, snd (ipu_fw_com_open ctx regs)) \<and>
    (ipu_fw_com_ready ctx fw = Inr () \<longrightarrow>
      ipu_fw_com_close ctx fw = (Inr (), fw(fc_dmem_addr ctx + 12 := SYSCOM_COMMAND_INACTIVE)))"
  using assms
  by (simp add: ipu_fw_com_open_def ipu_fw_com_ready_def ipu_fw_com_close_def Let_def readl_def
      writel_def SYSCOM_STATE_REG_def SYSCOM_COMMAND_REG_def SYSCOM_CONFIG_REG_def
      SYSCOM_STATE_UNINIT_def SYSCOM_STATE_READY_def mult.commute)

theorem open_then_close_witness:
  "ipu_fw_com_ready demo_ctx (snd (ipu_fw_com_open demo_ctx (\<lambda>_. 0))) = Inl EBUSY"
  using open_then_close [of demo_ctx "\<lambda>_. 0"]
  by (simp add: demo_ctx_def layout_context_def Let_def split_beta)

end
