(* ===== verification/FwPsys.thy ===== *)
theory FwPsys
  imports FwCom
begin

text \<open>
  The processing system's side of the firmware queues, \<^verbatim>\<open>ipu-fw-psys.c\<close>: commands sent on
  queue 0, events received from queue 0, the buffers of a terminal, and opening and closing
  the port.  What the firmware does while the driver sleeps is a parameter of the open loop.
\<close>

section \<open>Data\<close>

definition IPU_FW_PSYS_PROCESS_GROUP_BLOCKED :: u32 where "IPU_FW_PSYS_PROCESS_GROUP_BLOCKED = 3"
definition IPU_FW_PSYS_PROCESS_GROUP_STARTED :: u32 where "IPU_FW_PSYS_PROCESS_GROUP_STARTED = 4"
definition IPU_FW_PSYS_PROCESS_GROUP_CMD_START :: u16 where "IPU_FW_PSYS_PROCESS_GROUP_CMD_START = 4"
definition IPU_FW_PSYS_PROCESS_GROUP_CMD_STOP :: u16 where "IPU_FW_PSYS_PROCESS_GROUP_CMD_STOP = 7"

record psys_cmd =
  pc_command :: u16
  pc_msg :: u16
  pc_context_handle :: u32

record psys_event =
  pe_status :: u16
  pe_command :: u16
  pe_context_handle :: u32
  pe_token :: u64

text \<open>The fields of the process group header these operations touch.\<close>

record psys_process_group =
  pgr_token :: u64
  pgr_size :: u32
  pgr_ID :: u32
  pgr_state :: u32
  pgr_ipu_virtual_address :: u32
  pgr_terminal_count :: u8
  pgr_protocol_version :: u8

record psys_kcmd =
  kc_pg :: psys_process_group
  kc_pg_user :: ptr

text \<open>The port: the queues, device memory, and the tokens of both directions.\<close>

record psys_port =
  pp_fwcom :: fw_com_context
  pp_regs :: regs
  pp_cmds :: "u64 \<Rightarrow> psys_cmd"
  pp_events :: "u64 \<Rightarrow> psys_event"

section \<open>Process groups\<close>

definition ipu_fw_psys_pg_start :: "psys_kcmd \<Rightarrow> psys_kcmd" where
  "ipu_fw_psys_pg_start k = k\<lparr>kc_pg := (kc_pg k)\<lparr>pgr_state := IPU_FW_PSYS_PROCESS_GROUP_STARTED\<rparr>\<rparr>"

definition ipu_fw_psys_pg_submit :: "psys_kcmd \<Rightarrow> psys_kcmd" where
  "ipu_fw_psys_pg_submit k = k\<lparr>kc_pg := (kc_pg k)\<lparr>pgr_state := IPU_FW_PSYS_PROCESS_GROUP_BLOCKED\<rparr>\<rparr>"

definition ipu_fw_psys_pg_set_ipu_vaddress :: "psys_kcmd \<Rightarrow> u64 \<Rightarrow> psys_kcmd" where
  "ipu_fw_psys_pg_set_ipu_vaddress k vaddress =
     k\<lparr>kc_pg := (kc_pg k)\<lparr>pgr_ipu_virtual_address := ucast vaddress\<rparr>\<rparr>"

definition ipu_fw_psys_pg_set_token :: "psys_kcmd \<Rightarrow> u64 \<Rightarrow> psys_kcmd" where
  "ipu_fw_psys_pg_set_token k token = k\<lparr>kc_pg := (kc_pg k)\<lparr>pgr_token := token\<rparr>\<rparr>"

definition ipu_fw_psys_pg_get_token :: "psys_kcmd \<Rightarrow> u64" where
  "ipu_fw_psys_pg_get_token k = pgr_token (kc_pg k)"

definition ipu_fw_psys_pg_get_protocol :: "psys_kcmd \<Rightarrow> u8" where
  "ipu_fw_psys_pg_get_protocol k = pgr_protocol_version (kc_pg k)"

section \<open>Commands and events\<close>

definition ipu_fw_psys_pg_disown ::
  "psys_kcmd \<Rightarrow> psys_port \<Rightarrow> unit result \<times> psys_kcmd \<times> psys_port" where
  "ipu_fw_psys_pg_disown k p =
     (let token = ipu_send_get_token (pp_fwcom p) 0 (pp_regs p) in
      if token = 0 then (Inl ENODATA, k\<lparr>kc_pg_user := NULL\<rparr>, p)
      else
        let cmd = \<lparr>pc_command = IPU_FW_PSYS_PROCESS_GROUP_CMD_START, pc_msg = 0,
                   pc_context_handle = pgr_ipu_virtual_address (kc_pg k)\<rparr>;
            p = p\<lparr>pp_cmds := (pp_cmds p)(token := cmd)\<rparr>
        in (Inr (), k, p\<lparr>pp_regs := ipu_send_put_token (pp_fwcom p) 0 (pp_regs p)\<rparr>))"

definition ipu_fw_psys_pg_abort ::
  "psys_kcmd \<Rightarrow> psys_port \<Rightarrow> unit result \<times> psys_kcmd \<times> psys_port" where
  "ipu_fw_psys_pg_abort k p =
     (let token = ipu_send_get_token (pp_fwcom p) 0 (pp_regs p) in
      if token = 0 then (Inl ENODATA, k\<lparr>kc_pg_user := NULL\<rparr>, p)
      else
        let cmd = \<lparr>pc_command = IPU_FW_PSYS_PROCESS_GROUP_CMD_STOP, pc_msg = 0,
                   pc_context_handle = pgr_ipu_virtual_address (kc_pg k)\<rparr>;
            p = p\<lparr>pp_cmds := (pp_cmds p)(token := cmd)\<rparr>
        in (Inr (), k, p\<lparr>pp_regs := ipu_send_put_token (pp_fwcom p) 0 (pp_regs p)\<rparr>))"

text \<open>The event, if there is one (the code returns 0 or 1 and fills its argument).\<close>

definition ipu_fw_psys_rcv_event :: "psys_port \<Rightarrow> psys_event option \<times> psys_port" where
  "ipu_fw_psys_rcv_event p =
     (let rcv = ipu_recv_get_token (pp_fwcom p) 0 (pp_regs p) in
      if rcv = 0 then (None, p)
      else (Some (pp_events p rcv),
            p\<lparr>pp_regs := ipu_recv_put_token (pp_fwcom p) 0 (pp_regs p)\<rparr>))"

section \<open>Terminals\<close>

definition IPU_FW_PSYS_TERMINAL_TYPE_DATA_IN :: u32 where "IPU_FW_PSYS_TERMINAL_TYPE_DATA_IN = 0"
definition IPU_FW_PSYS_TERMINAL_TYPE_DATA_OUT :: u32 where "IPU_FW_PSYS_TERMINAL_TYPE_DATA_OUT = 1"
definition IPU_FW_PSYS_TERMINAL_TYPE_PARAM_STREAM :: u32 where "IPU_FW_PSYS_TERMINAL_TYPE_PARAM_STREAM = 2"
definition IPU_FW_PSYS_TERMINAL_TYPE_PARAM_CACHED_IN :: u32 where "IPU_FW_PSYS_TERMINAL_TYPE_PARAM_CACHED_IN = 3"
definition IPU_FW_PSYS_TERMINAL_TYPE_PARAM_CACHED_OUT :: u32 where "IPU_FW_PSYS_TERMINAL_TYPE_PARAM_CACHED_OUT = 4"
definition IPU_FW_PSYS_TERMINAL_TYPE_PARAM_SPATIAL_IN :: u32 where "IPU_FW_PSYS_TERMINAL_TYPE_PARAM_SPATIAL_IN = 5"
definition IPU_FW_PSYS_TERMINAL_TYPE_PARAM_SPATIAL_OUT :: u32 where "IPU_FW_PSYS_TERMINAL_TYPE_PARAM_SPATIAL_OUT = 6"
definition IPU_FW_PSYS_TERMINAL_TYPE_PARAM_SLICED_IN :: u32 where "IPU_FW_PSYS_TERMINAL_TYPE_PARAM_SLICED_IN = 7"
definition IPU_FW_PSYS_TERMINAL_TYPE_PARAM_SLICED_OUT :: u32 where "IPU_FW_PSYS_TERMINAL_TYPE_PARAM_SLICED_OUT = 8"
definition IPU_FW_PSYS_TERMINAL_TYPE_STATE_IN :: u32 where "IPU_FW_PSYS_TERMINAL_TYPE_STATE_IN = 9"
definition IPU_FW_PSYS_TERMINAL_TYPE_STATE_OUT :: u32 where "IPU_FW_PSYS_TERMINAL_TYPE_STATE_OUT = 10"
definition IPU_FW_PSYS_TERMINAL_TYPE_PROGRAM :: u32 where "IPU_FW_PSYS_TERMINAL_TYPE_PROGRAM = 11"

definition IPU_FW_PSYS_CONNECTION_MEMORY :: u32 where "IPU_FW_PSYS_CONNECTION_MEMORY = 0"
definition IPU_FW_PSYS_BUFFER_UNDEFINED :: u32 where "IPU_FW_PSYS_BUFFER_UNDEFINED = 1"
definition IPU_FW_PSYS_BUFFER_EMPTY :: u32 where "IPU_FW_PSYS_BUFFER_EMPTY = 2"
definition IPU_FW_PSYS_BUFFER_FULL :: u32 where "IPU_FW_PSYS_BUFFER_FULL = 4"

text \<open>
  A terminal is read as a data or a parameter terminal according to its type; the fields
  of both views that \<^verbatim>\<open>ipu_fw_psys_terminal_set\<close> writes.
\<close>

record psys_terminal =
  tm_terminal_type :: u32
  tm_connection_type :: u32
  tm_frame_buffer_state :: u32
  tm_frame_data :: u32
  tm_frame_data_index :: u32
  tm_frame_data_bytes :: u32
  tm_payload_buffer :: u32
  tm_payload_terminal_index :: u32

definition terminal_buffer_state :: "u32 \<Rightarrow> u32 option" where
  "terminal_buffer_state type =
     (if type \<in> {IPU_FW_PSYS_TERMINAL_TYPE_PARAM_CACHED_IN, IPU_FW_PSYS_TERMINAL_TYPE_PARAM_CACHED_OUT,
                 IPU_FW_PSYS_TERMINAL_TYPE_PARAM_SPATIAL_IN, IPU_FW_PSYS_TERMINAL_TYPE_PARAM_SPATIAL_OUT,
                 IPU_FW_PSYS_TERMINAL_TYPE_PARAM_SLICED_IN, IPU_FW_PSYS_TERMINAL_TYPE_PARAM_SLICED_OUT,
                 IPU_FW_PSYS_TERMINAL_TYPE_PROGRAM}
      then Some IPU_FW_PSYS_BUFFER_UNDEFINED
      else if type \<in> {IPU_FW_PSYS_TERMINAL_TYPE_PARAM_STREAM, IPU_FW_PSYS_TERMINAL_TYPE_DATA_IN,
                      IPU_FW_PSYS_TERMINAL_TYPE_STATE_IN}
      then Some IPU_FW_PSYS_BUFFER_FULL
      else if type \<in> {IPU_FW_PSYS_TERMINAL_TYPE_DATA_OUT, IPU_FW_PSYS_TERMINAL_TYPE_STATE_OUT}
      then Some IPU_FW_PSYS_BUFFER_EMPTY
      else None)"

definition ipu_fw_psys_terminal_set ::
  "psys_terminal \<Rightarrow> u32 \<Rightarrow> psys_kcmd \<Rightarrow> u32 \<Rightarrow> u32 \<Rightarrow> unit result \<times> psys_terminal" where
  "ipu_fw_psys_terminal_set t terminal_idx k buffer sz =
     (let type = tm_terminal_type t in
      case terminal_buffer_state type of
        None \<Rightarrow> (Inl EAGAIN, t)
      | Some buffer_state \<Rightarrow>
          if type = IPU_FW_PSYS_TERMINAL_TYPE_DATA_IN \<or> type = IPU_FW_PSYS_TERMINAL_TYPE_DATA_OUT then
            let t = t\<lparr>tm_connection_type := IPU_FW_PSYS_CONNECTION_MEMORY, tm_frame_data_bytes := sz\<rparr>;
                t = (if ipu_fw_psys_pg_get_protocol k = 0 then t\<lparr>tm_frame_data := buffer\<rparr>
                     else t\<lparr>tm_frame_data_index := terminal_idx\<rparr>)
            in (Inr (), t\<lparr>tm_frame_buffer_state := buffer_state\<rparr>)
          else (Inr (), if ipu_fw_psys_pg_get_protocol k = 0 then t\<lparr>tm_payload_buffer := buffer\<rparr>
                        else t\<lparr>tm_payload_terminal_index := terminal_idx\<rparr>))"

section \<open>Opening and closing\<close>

definition IPU_PSYS_OPEN_RETRY :: nat where "IPU_PSYS_OPEN_RETRY = 10000 div 50"

text \<open>
  The loop of \<^verbatim>\<open>ipu_fw_psys_open\<close>: \<open>sleep n\<close> is what happens to device memory during the
  n-th sleep; the result is the last return value and the value of \<^verbatim>\<open>retry\<close> after the loop.
\<close>

fun wait_ready ::
  "fw_com_context \<Rightarrow> (nat \<Rightarrow> regs \<Rightarrow> regs) \<Rightarrow> nat \<Rightarrow> nat \<Rightarrow> regs \<Rightarrow> unit result \<times> int \<times> regs" where
  "wait_ready ctx sleep n 0 regs =
     (let regs = sleep n regs in
      case ipu_fw_com_ready ctx regs of
        Inr _ \<Rightarrow> (Inr (), 0, regs)
      | Inl e \<Rightarrow> (Inl e, -1, regs))"
| "wait_ready ctx sleep n (Suc retry) regs =
     (let regs = sleep n regs in
      case ipu_fw_com_ready ctx regs of
        Inr _ \<Rightarrow> (Inr (), int (Suc retry), regs)
      | Inl e \<Rightarrow> wait_ready ctx sleep (Suc n) retry regs)"

definition ipu_fw_psys_open ::
  "fw_com_context \<Rightarrow> (nat \<Rightarrow> regs \<Rightarrow> regs) \<Rightarrow> regs \<Rightarrow> unit result \<times> regs" where
  "ipu_fw_psys_open ctx sleep regs =
     (case ipu_fw_com_open ctx regs of
        (Inl e, regs) \<Rightarrow> (Inl e, regs)
      | (Inr _, regs) \<Rightarrow>
          (case wait_ready ctx sleep 0 IPU_PSYS_OPEN_RETRY regs of
             (retval, retry, regs) \<Rightarrow>
               if retry = 0 \<and> \<not> is_ok retval
               then (retval, snd (ipu_fw_com_close ctx regs))
               else (Inr (), regs)))"

definition ipu_fw_psys_close :: "fw_com_context \<Rightarrow> regs \<Rightarrow> unit result \<times> regs" where
  "ipu_fw_psys_close ctx regs = ipu_fw_com_close ctx regs"

section \<open>Lemmas\<close>

lemmas terminal_types =
  IPU_FW_PSYS_TERMINAL_TYPE_DATA_IN_def IPU_FW_PSYS_TERMINAL_TYPE_DATA_OUT_def
  IPU_FW_PSYS_TERMINAL_TYPE_PARAM_STREAM_def IPU_FW_PSYS_TERMINAL_TYPE_PARAM_CACHED_IN_def
  IPU_FW_PSYS_TERMINAL_TYPE_PARAM_CACHED_OUT_def IPU_FW_PSYS_TERMINAL_TYPE_PARAM_SPATIAL_IN_def
  IPU_FW_PSYS_TERMINAL_TYPE_PARAM_SPATIAL_OUT_def IPU_FW_PSYS_TERMINAL_TYPE_PARAM_SLICED_IN_def
  IPU_FW_PSYS_TERMINAL_TYPE_PARAM_SLICED_OUT_def IPU_FW_PSYS_TERMINAL_TYPE_STATE_IN_def
  IPU_FW_PSYS_TERMINAL_TYPE_STATE_OUT_def IPU_FW_PSYS_TERMINAL_TYPE_PROGRAM_def
  IPU_FW_PSYS_CONNECTION_MEMORY_def IPU_FW_PSYS_BUFFER_UNDEFINED_def
  IPU_FW_PSYS_BUFFER_EMPTY_def IPU_FW_PSYS_BUFFER_FULL_def

lemma terminal_state_known: "terminal_buffer_state ty \<noteq> None \<longleftrightarrow> ty \<le> 11"
proof
  assume "terminal_buffer_state ty \<noteq> None"
  then show "ty \<le> 11"
    by (auto simp: terminal_buffer_state_def terminal_types split: if_splits)
next
  assume "ty \<le> 11"
  then have "unat ty \<le> 11" by (simp add: word_le_nat_alt)
  then have "unat ty \<in> set [0..<12]" by auto
  moreover have "ty = of_nat (unat ty)" by simp
  ultimately have "ty \<in> of_nat ` set [0..<12]" by (metis image_eqI)
  then show "terminal_buffer_state ty \<noteq> None"
    by (auto simp: terminal_buffer_state_def terminal_types upt_conv_Cons)
qed

lemma wait_ready_failed:
  "wait_ready ctx sleep n retry regs = (Inl e, r, regs') \<Longrightarrow> r = -1"
proof (induction retry arbitrary: n regs)
  case 0
  then show ?case by (cases "ipu_fw_com_ready ctx (sleep n regs)") (simp_all add: Let_def)
next
  case (Suc retry)
  then show ?case by (cases "ipu_fw_com_ready ctx (sleep n regs)") (simp_all add: Let_def)
qed

lemma wait_ready_first:
  assumes "\<And>i. i < k \<Longrightarrow> ipu_fw_com_ready ctx (s (Suc i)) = Inl EBUSY"
    and "ipu_fw_com_ready ctx (s (Suc k)) = Inr ()" "k \<le> retry"
    and "\<And>i. sleep (n + i) (s i) = s (Suc i)"
  shows "wait_ready ctx sleep n retry (s 0) = (Inr (), int (retry - k), s (Suc k))"
  using assms
proof (induction k arbitrary: n retry s)
  case 0
  then show ?case using "0"(4) [of 0] by (cases retry) (simp_all add: Let_def)
next
  case (Suc k)
  obtain r where r: "retry = Suc r" using Suc.prems(3) by (cases retry) auto
  have "wait_ready ctx sleep (Suc n) r (s (Suc 0)) = (Inr (), int (r - k), s (Suc (Suc k)))"
    using Suc.IH [of "\<lambda>i. s (Suc i)" r "Suc n"] Suc.prems(1) [of "Suc _"] Suc.prems(2,3)
      Suc.prems(4) [of "Suc _"] r by simp
  then show ?case
    using Suc.prems(1) [of 0] Suc.prems(4) [of 0] r by (simp add: Let_def)
qed

section \<open>The properties\<close>

text \<open>
  Opening the port never reports a timeout: once the cell is ready and the firmware
  configuration written, \<^verbatim>\<open>ipu_fw_psys_open\<close> returns 0 whatever the firmware does during
  the sleeps, because the retry counter leaves the loop at -1 and the check asks for 0.
\<close>

theorem psys_open_never_times_out:
  assumes "fc_cell_ready ctx regs"
  shows "fst (ipu_fw_psys_open ctx sleep regs) = Inr ()"
proof -
  obtain r0 where r0: "ipu_fw_com_open ctx regs = (Inr (), r0)"
    using assms by (simp add: ipu_fw_com_open_def Let_def)
  obtain v r r1 where w: "wait_ready ctx sleep 0 IPU_PSYS_OPEN_RETRY r0 = (v, r, r1)"
    by (cases "wait_ready ctx sleep 0 IPU_PSYS_OPEN_RETRY r0")
  show ?thesis
  proof (cases v)
    case (Inl e)
    then have "r = -1" using w by (auto intro: wait_ready_failed)
    then show ?thesis by (simp add: ipu_fw_psys_open_def r0 w)
  next
    case (Inr u)
    then show ?thesis by (simp add: ipu_fw_psys_open_def r0 w)
  qed
qed

theorem psys_open_never_times_out_witness:
  "fst (ipu_fw_psys_open demo_ctx (\<lambda>_ r. r) (\<lambda>_. 0)) = Inr () \<and>
   (\<forall>n. ipu_fw_com_ready demo_ctx (snd (ipu_fw_com_open demo_ctx (\<lambda>_. 0))) = Inl EBUSY)"
proof -
  have "fc_cell_ready demo_ctx r" for r
    by (simp add: demo_ctx_def layout_context_def Let_def split_beta)
  moreover have "fc_cell_start demo_ctx r = r" for r
    by (simp add: demo_ctx_def layout_context_def Let_def split_beta)
  ultimately show ?thesis
    using psys_open_never_times_out [of demo_ctx "\<lambda>_. 0" "\<lambda>_ r. r"]
    by (simp add: ipu_fw_com_open_def ipu_fw_com_ready_def Let_def readl_def writel_def
        SYSCOM_STATE_REG_def SYSCOM_COMMAND_REG_def SYSCOM_CONFIG_REG_def SYSCOM_STATE_UNINIT_def
        SYSCOM_STATE_READY_def)
qed

text \<open>
  If the firmware gets ready during one of the first 201 sleeps, opening the port stops
  polling right then and succeeds.
\<close>

theorem psys_open_stops_when_ready:
  assumes "fc_cell_ready ctx regs" "s 0 = snd (ipu_fw_com_open ctx regs)"
    and "\<And>i. sleep i (s i) = s (Suc i)"
    and "\<And>i. i < k \<Longrightarrow> ipu_fw_com_ready ctx (s (Suc i)) = Inl EBUSY"
    and "ipu_fw_com_ready ctx (s (Suc k)) = Inr ()" "k \<le> 200"
  shows "ipu_fw_psys_open ctx sleep regs = (Inr (), s (Suc k))"
proof -
  have "ipu_fw_com_open ctx regs = (Inr (), s 0)"
    using assms(1,2) by (simp add: ipu_fw_com_open_def Let_def)
  moreover have "wait_ready ctx sleep 0 IPU_PSYS_OPEN_RETRY (s 0) =
      (Inr (), int (IPU_PSYS_OPEN_RETRY - k), s (Suc k))"
    by (rule wait_ready_first) (use assms(3-6) in \<open>simp_all add: IPU_PSYS_OPEN_RETRY_def\<close>)
  ultimately show ?thesis by (simp add: ipu_fw_psys_open_def)
qed

theorem psys_open_stops_when_ready_witness:
  "fst (ipu_fw_psys_open demo_ctx (\<lambda>_ r. r(8 := 0x57A7E001)) (\<lambda>_. 0)) = Inr ()"
proof -
  define s where "s = (\<lambda>i::nat. if i = 0 then snd (ipu_fw_com_open demo_ctx (\<lambda>_. 0))
    else (snd (ipu_fw_com_open demo_ctx (\<lambda>_. 0)))(8 := 0x57A7E001 :: u32))"
  have ctx: "fc_cell_ready demo_ctx r" "fc_dmem_addr demo_ctx = 0" for r
    by (simp_all add: demo_ctx_def layout_context_def Let_def split_beta demo_cfg_def)
  have ready: "ipu_fw_com_ready demo_ctx (s (Suc 0)) = Inr ()"
    by (simp add: s_def ipu_fw_com_ready_def readl_def ctx SYSCOM_STATE_REG_def
        SYSCOM_STATE_READY_def)
  have s: "s 0 = snd (ipu_fw_com_open demo_ctx (\<lambda>_. 0))" "(s i)(8 := 0x57A7E001) = s (Suc i)" for i
    by (simp_all add: s_def)
  show ?thesis
    using psys_open_stops_when_ready [where k = 0 and sleep = "\<lambda>_ r. r(8 := 0x57A7E001)",
        OF ctx(1) s] ready by simp
qed

text \<open>
  The start and stop commands: with room in the command queue both succeed and append
  one message naming the group's address; if no token is given they fail with
  \<^verbatim>\<open>-ENODATA\<close>, send nothing and forget the user's group.
\<close>

theorem psys_command_queued:
  fixes p :: psys_port
  defines "ctx \<equiv> pp_fwcom p" and "q \<equiv> fc_input_queue (pp_fwcom p) ! 0"
  assumes "queue_ok q"
    and "command \<in> {(ipu_fw_psys_pg_disown, 4), (ipu_fw_psys_pg_abort, 7)}"
  shows "if ipu_send_get_token ctx 0 (pp_regs p) = 0
    then fst command k p = (Inl ENODATA, k\<lparr>kc_pg_user := NULL\<rparr>, p)
    else fst (fst command k p) = Inr () \<and> fst (snd (fst command k p)) = k \<and>
      (length (messages ctx q (pp_regs p) (pp_cmds p)) < unat (sq_size q) - 1 \<longrightarrow>
       messages ctx q (pp_regs (snd (snd (fst command k p)))) (pp_cmds (snd (snd (fst command k p)))) =
         messages ctx q (pp_regs p) (pp_cmds p) @
         [\<lparr>pc_command = snd command, pc_msg = 0,
           pc_context_handle = pgr_ipu_virtual_address (kc_pg k)\<rparr>])"
proof (cases "ipu_send_get_token ctx 0 (pp_regs p) = 0")
  case True
  with assms(4) show ?thesis
    by (auto simp: ipu_fw_psys_pg_disown_def ipu_fw_psys_pg_abort_def Let_def ctx_def)
next
  case False
  have ok: "indices_ok ctx q (pp_regs p)"
    and token: "ipu_send_get_token ctx 0 (pp_regs p) = token_addr q (wr_of ctx q (pp_regs p))"
    using False send_get_token_spec [of q ctx 0 "pp_regs p"] by (auto simp: q_def ctx_def split: if_splits)
  have "messages ctx q (ipu_send_put_token ctx 0 (pp_regs p))
      ((pp_cmds p)(token_addr q (wr_of ctx q (pp_regs p)) := m)) = messages ctx q (pp_regs p) (pp_cmds p) @ [m]"
    if "length (messages ctx q (pp_regs p) (pp_cmds p)) < unat (sq_size q) - 1" for m
    using messages_send [of q ctx 0 "pp_regs p"] assms(3) ok that
    by (simp add: q_def ctx_def messages_def)
  then show ?thesis
    using False assms(4) token
    by (auto simp: ipu_fw_psys_pg_disown_def ipu_fw_psys_pg_abort_def Let_def ctx_def
        IPU_FW_PSYS_PROCESS_GROUP_CMD_START_def IPU_FW_PSYS_PROCESS_GROUP_CMD_STOP_def)
qed

definition demo_port :: "u32 \<Rightarrow> u32 \<Rightarrow> psys_port" where
  "demo_port wr rd = \<lparr>pp_fwcom = demo_ctx, pp_regs = demo_regs wr rd,
     pp_cmds = (\<lambda>_. \<lparr>pc_command = 0, pc_msg = 0, pc_context_handle = 0\<rparr>),
     pp_events = (\<lambda>_. \<lparr>pe_status = 0, pe_command = 0, pe_context_handle = 0, pe_token = 0\<rparr>)\<rparr>"

theorem psys_command_queued_witness:
  "\<forall>k. fst (ipu_fw_psys_pg_disown k (demo_port 2 0)) = Inl ENODATA \<and>
     fst (ipu_fw_psys_pg_abort k (demo_port 1 1)) = Inr ()"
proof
  fix k
  have "ipu_send_get_token demo_ctx 0 (demo_regs 2 0) = 0"
      "ipu_send_get_token demo_ctx 0 (demo_regs 1 1) \<noteq> 0"
    using token_addr_not_null [of demo_queue 1]
    by (simp_all add: send_get_token_spec [OF refl] indices_ok_def)
  then show "fst (ipu_fw_psys_pg_disown k (demo_port 2 0)) = Inl ENODATA \<and>
     fst (ipu_fw_psys_pg_abort k (demo_port 1 1)) = Inr ()"
    using psys_command_queued [of "demo_port 2 0" "(ipu_fw_psys_pg_disown, 4)" k]
      psys_command_queued [of "demo_port 1 1" "(ipu_fw_psys_pg_abort, 7)" k]
    by (simp add: demo_port_def)
qed

text \<open>
  Filling a terminal: the type decides the view written; every type but an unknown one
  succeeds, data terminals get the buffer state FULL (in) or EMPTY (out), and with the
  legacy protocol the buffer address goes into the view's address field, otherwise the
  terminal's index into its index field.
\<close>

theorem terminal_set_effect:
  "ipu_fw_psys_terminal_set t idx k buffer sz =
    (if tm_terminal_type t > 11 then (Inl EAGAIN, t)
     else if tm_terminal_type t \<le> 1 then
       (Inr (), t\<lparr>tm_connection_type := 0, tm_frame_data_bytes := sz,
          tm_frame_data := (if pgr_protocol_version (kc_pg k) = 0 then buffer else tm_frame_data t),
          tm_frame_data_index := (if pgr_protocol_version (kc_pg k) = 0 then tm_frame_data_index t else idx),
          tm_frame_buffer_state := (if tm_terminal_type t = 0 then 4 else 2)\<rparr>)
     else
       (Inr (), t\<lparr>
          tm_payload_buffer := (if pgr_protocol_version (kc_pg k) = 0 then buffer else tm_payload_buffer t),
          tm_payload_terminal_index :=
            (if pgr_protocol_version (kc_pg k) = 0 then tm_payload_terminal_index t else idx)\<rparr>))"
proof -
  let ?ty = "tm_terminal_type t"
  consider "?ty = 0" | "?ty = 1" | "2 \<le> ?ty" "?ty \<le> 11" | "?ty > 11"
    by unat_arith
  then show ?thesis
  proof cases
    case 1
    then show ?thesis
      by (simp add: ipu_fw_psys_terminal_set_def terminal_buffer_state_def terminal_types Let_def
          ipu_fw_psys_pg_get_protocol_def)
  next
    case 2
    then show ?thesis
      by (simp add: ipu_fw_psys_terminal_set_def terminal_buffer_state_def terminal_types Let_def
          ipu_fw_psys_pg_get_protocol_def)
  next
    case 3
    then have "\<not> 11 < ?ty" "\<not> ?ty \<le> 1" "?ty \<noteq> 0" "?ty \<noteq> 1" by unat_arith+
    moreover obtain b where "terminal_buffer_state ?ty = Some b"
      using terminal_state_known [of ?ty] 3(2) by auto
    ultimately show ?thesis
      by (simp add: ipu_fw_psys_terminal_set_def Let_def ipu_fw_psys_pg_get_protocol_def
          IPU_FW_PSYS_TERMINAL_TYPE_DATA_IN_def IPU_FW_PSYS_TERMINAL_TYPE_DATA_OUT_def)
  next
    case 4
    then have "terminal_buffer_state ?ty = None" using terminal_state_known [of ?ty] by auto
    with 4 show ?thesis by (simp add: ipu_fw_psys_terminal_set_def Let_def)
  qed
qed

end
