(* ===== verification/PsysResources.thy ===== *)
theory PsysResources
  imports Prelude
begin

text \<open>
  The resource bookkeeping of the processing system, \<^verbatim>\<open>ipu4/ipu4-resources.c\<close> with the
  tables and process accessors of \<^verbatim>\<open>ipu4/ipu4-fw-resources.c\<close> (the IPU4P configuration):
  pools of cells, device channels and memories, allocations for a process group, their
  move to another pool and their release.

  A kernel bitmap is the set of its 1 bits.  The kernel's search for a free area is a
  parameter; what the code relies on is the locale \<open>zero_area\<close>.  Freeing an entry without
  resource, a null pointer access of the code, is shown not to happen and leaves the state alone.  A \<^verbatim>\<open>struct ipu_resource *\<close>
  is the name of the resource: which pool, which array of it, which index.
\<close>

section \<open>Data\<close>

datatype resource_type = IPU_RESOURCE_DEV_CHN | IPU_RESOURCE_EXT_MEM | IPU_RESOURCE_DFM

record ipu_resource =
  rs_id :: nat
  rs_elements :: nat
  rs_bitmap :: "nat set option"

record resource_pool =
  pl_cells :: u32
  pl_resources :: "resource_type \<Rightarrow> nat \<Rightarrow> ipu_resource"

type_synonym pools = "nat \<Rightarrow> resource_pool"
type_synonym resource_ref = "nat \<times> resource_type \<times> nat"

record resource_alloc =
  ra_type :: resource_type
  ra_resource :: "resource_ref option"
  ra_elements :: nat
  ra_pos :: nat

record psys_resource_alloc =
  al_cells :: u32
  al_resource_alloc :: "nat \<Rightarrow> resource_alloc"
  al_resources :: nat

definition IPU_MAX_RESOURCES :: nat where "IPU_MAX_RESOURCES = 128"

text \<open>The resource tables \<^verbatim>\<open>res_defs\<close>.\<close>

record resource_definitions =
  df_cells :: "u32 list"
  df_num_cells :: nat
  df_num_cells_type :: nat
  df_dev_channels :: "nat list"
  df_ext_mem_ids :: "nat list"
  df_num_ext_mem_types :: nat
  df_num_ext_mem_ids :: nat
  df_dfms :: "nat list"
  df_cell_mem_row :: nat
  df_cell_mem :: "nat list"

definition ipu_fw_psys_cell_types :: "u32 list" where
  "ipu_fw_psys_cell_types = [0, 1, 1, 2, 2, 2, 2, 4, 3, 3, 3, 3, 3, 3, 5, 6, 6]"

definition ipu_fw_num_dev_channels :: "nat list" where
  "ipu_fw_num_dev_channels = [30, 4, 30, 20, 2, 5, 2, 1, 6]"

definition ipu_fw_psys_mem_size :: "nat list" where
  "ipu_fw_psys_mem_size =
     [0x800, 0x800, 0x800, 0x800, 0x800, 0x400, 0x400, 0x400, 0x400, 0x4000, 0x1000, 0x1000,
      0x1000, 0x1000, 0x1000, 0x1000, 0x1000, 0x500, 0x500, 0x500, 0x500]"

definition ipu_fw_psys_cell_mem :: "nat list" where
  "ipu_fw_psys_cell_mem =
     [21, 9, 21, 21, 21,   21, 10, 21, 21, 21,   21, 11, 21, 21, 21,
      4, 13, 0, 5, 17,   4, 14, 1, 6, 18,   4, 15, 2, 7, 19,   4, 16, 3, 8, 20]
     @ replicate 50 21"

definition default_defs :: resource_definitions where
  "default_defs = \<lparr>df_cells = ipu_fw_psys_cell_types, df_num_cells = 17, df_num_cells_type = 7,
     df_dev_channels = ipu_fw_num_dev_channels, df_ext_mem_ids = ipu_fw_psys_mem_size,
     df_num_ext_mem_types = 4, df_num_ext_mem_ids = 21, df_dfms = [], df_cell_mem_row = 5,
     df_cell_mem = ipu_fw_psys_cell_mem\<rparr>"

text \<open>Process, process group and program manifests, with the fields used here.\<close>

record psys_process =
  pr_ID :: u32
  pr_cell_id :: u8
  pr_dev_chn_offset :: "nat \<Rightarrow> u16"
  pr_ext_mem_id :: "nat \<Rightarrow> nat"
  pr_ext_mem_offset :: "nat \<Rightarrow> u16"

record process_group =
  pg_processes :: "psys_process list"
  pg_resource_bitmap :: u32

record program_manifest =
  pm_ID :: u32
  pm_dev_chn_size :: "nat \<Rightarrow> u16"
  pm_ext_mem_size :: "nat \<Rightarrow> u16"
  pm_cell_id :: u8
  pm_cell_type_id :: u8

section \<open>One resource\<close>

definition ipu_resource_init :: "bool \<Rightarrow> nat \<Rightarrow> int \<Rightarrow> ipu_resource \<Rightarrow> unit result \<times> ipu_resource" where
  "ipu_resource_init kcalloc_ok ident elements res =
     (if elements \<le> 0 then (Inr (), res\<lparr>rs_bitmap := None\<rparr>)
      else if \<not> kcalloc_ok then (Inl ENOMEM, res\<lparr>rs_bitmap := None\<rparr>)
      else (Inr (), res\<lparr>rs_bitmap := Some {}, rs_elements := nat elements, rs_id := ident\<rparr>))"

definition get_resource :: "pools \<Rightarrow> resource_ref \<Rightarrow> ipu_resource" where
  "get_resource ps r = (case r of (pool, type, i) \<Rightarrow> pl_resources (ps pool) type i)"

definition put_resource :: "resource_ref \<Rightarrow> ipu_resource \<Rightarrow> pools \<Rightarrow> pools" where
  "put_resource r res ps = (case r of (pool, type, i) \<Rightarrow>
     ps(pool := (ps pool)\<lparr>pl_resources :=
       (pl_resources (ps pool))(type := (pl_resources (ps pool) type)(i := res))\<rparr>))"

definition set_bits :: "resource_ref \<Rightarrow> nat set \<Rightarrow> pools \<Rightarrow> pools" where
  "set_bits r bs ps = (let res = get_resource ps r in
     put_resource r (res\<lparr>rs_bitmap := map_option (\<lambda>b. b \<union> bs) (rs_bitmap res)\<rparr>) ps)"

definition clear_bits :: "resource_ref \<Rightarrow> nat set \<Rightarrow> pools \<Rightarrow> pools" where
  "clear_bits r bs ps = (let res = get_resource ps r in
     put_resource r (res\<lparr>rs_bitmap := map_option (\<lambda>b. b - bs) (rs_bitmap res)\<rparr>) ps)"

text \<open>The bits of a word-sized mask, for the data-flow ports, which are kept as masks.\<close>

definition mask_bits :: "nat \<Rightarrow> nat set" where
  "mask_bits n = set (filter (\<lambda>i. bit n i) [0..<64])"

text \<open>
  \<^verbatim>\<open>ipu_resource_alloc\<close> for \<open>n > 0\<close>; \<open>srch b size start n\<close> is
  \<^verbatim>\<open>bitmap_find_next_zero_area\<close>.  The error value is \<^verbatim>\<open>-ENOSPC\<close>.
\<close>

definition ipu_resource_alloc ::
  "(nat set \<Rightarrow> nat \<Rightarrow> nat \<Rightarrow> nat \<Rightarrow> nat) \<Rightarrow> resource_ref \<Rightarrow> nat \<Rightarrow> resource_type \<Rightarrow> resource_alloc
    \<Rightarrow> pools \<Rightarrow> nat result \<times> resource_alloc \<times> pools" where
  "ipu_resource_alloc srch r n type a ps =
     (if n = 0 then (Inr 0, a\<lparr>ra_elements := 0\<rparr>, ps)
      else let res = get_resource ps r in
        case rs_bitmap res of
          None \<Rightarrow> (Inl ENOSPC, a, ps)
        | Some b \<Rightarrow>
            let p = srch b (rs_elements res) 0 n; a = a\<lparr>ra_resource := None\<rparr> in
            if p \<ge> rs_elements res then (Inl ENOSPC, a, ps)
            else (Inr p, a\<lparr>ra_resource := Some r, ra_elements := n, ra_pos := p, ra_type := type\<rparr>,
                  set_bits r {p ..< p + n} ps))"

definition ipu_resource_free :: "resource_alloc \<Rightarrow> pools \<Rightarrow> resource_alloc \<times> pools" where
  "ipu_resource_free a ps =
     (if ra_elements a = 0 then (a, ps)
      else case ra_resource a of
        None \<Rightarrow> (a, ps)
      | Some r \<Rightarrow>
          (a\<lparr>ra_resource := None\<rparr>,
           if ra_type a = IPU_RESOURCE_DFM then clear_bits r (mask_bits (ra_elements a)) ps
           else clear_bits r {ra_pos a ..< ra_pos a + ra_elements a} ps))"

definition ipu_resource_cleanup :: "ipu_resource \<Rightarrow> ipu_resource" where
  "ipu_resource_cleanup res = res\<lparr>rs_bitmap := None\<rparr>"

section \<open>Processes and manifests\<close>

definition update_process :: "nat \<Rightarrow> (psys_process \<Rightarrow> psys_process) \<Rightarrow> process_group \<Rightarrow> process_group" where
  "update_process i f pg = pg\<lparr>pg_processes := (pg_processes pg)[i := f (pg_processes pg ! i)]\<rparr>"

definition ipu_fw_psys_set_process_cell_id :: "nat \<Rightarrow> u8 \<Rightarrow> process_group \<Rightarrow> process_group" where
  "ipu_fw_psys_set_process_cell_id i v pg =
     (let pg = update_process i (\<lambda>p. p\<lparr>pr_cell_id := v\<rparr>) pg in
      pg\<lparr>pg_resource_bitmap := pg_resource_bitmap pg OR push_bit (unat v) 1\<rparr>)"

definition ipu_fw_psys_get_process_cell_id :: "nat \<Rightarrow> process_group \<Rightarrow> u8" where
  "ipu_fw_psys_get_process_cell_id i pg = pr_cell_id (pg_processes pg ! i)"

definition IPU_FW_PSYS_N_CELL_ID :: u8 where "IPU_FW_PSYS_N_CELL_ID = 17"

definition ipu_fw_psys_clear_process_cell :: "nat \<Rightarrow> process_group \<Rightarrow> int \<times> process_group" where
  "ipu_fw_psys_clear_process_cell i pg =
     (let cell_id = ipu_fw_psys_get_process_cell_id i pg;
          cell_id_shift = push_bit 1 cell_id :: u8
      in if cell_id_shift \<noteq> 0 \<and> (ucast cell_id_shift :: u32) AND pg_resource_bitmap pg \<noteq> 0 then
           let pg = ipu_fw_psys_set_process_cell_id i IPU_FW_PSYS_N_CELL_ID pg
           in (0, pg\<lparr>pg_resource_bitmap := pg_resource_bitmap pg AND NOT (push_bit (unat cell_id) 1)\<rparr>)
         else (-1, pg))"

definition ipu_fw_psys_set_process_dev_chn_offset ::
  "nat \<Rightarrow> nat \<Rightarrow> u16 \<Rightarrow> process_group \<Rightarrow> process_group" where
  "ipu_fw_psys_set_process_dev_chn_offset i offset v =
     update_process i (\<lambda>p. p\<lparr>pr_dev_chn_offset := (pr_dev_chn_offset p)(offset := v)\<rparr>)"

definition ipu_fw_psys_set_process_ext_mem ::
  "nat \<Rightarrow> nat \<Rightarrow> nat \<Rightarrow> u16 \<Rightarrow> process_group \<Rightarrow> process_group" where
  "ipu_fw_psys_set_process_ext_mem i type_id mem_id offset =
     update_process i (\<lambda>p. p\<lparr>pr_ext_mem_offset := (pr_ext_mem_offset p)(type_id := offset),
       pr_ext_mem_id := (pr_ext_mem_id p)(type_id := mem_id)\<rparr>)"

text \<open>The first manifest of the group with the process's ID.\<close>

fun ipu_fw_psys_get_program_manifest_by_process ::
  "program_manifest list \<Rightarrow> psys_process \<Rightarrow> program_manifest result" where
  "ipu_fw_psys_get_program_manifest_by_process [] p = Inl ENOENT"
| "ipu_fw_psys_get_program_manifest_by_process (pm # pms) p =
     (if pm_ID pm = pr_ID p then Inr pm
      else ipu_fw_psys_get_program_manifest_by_process pms p)"

section \<open>Allocating for a process group\<close>

text \<open>
  The variables of \<^verbatim>\<open>ipu_psys_allocate_resources\<close>.  \<open>as_oob\<close> has no counterpart in the
  code: it records a read of \<^verbatim>\<open>resource_alloc[-1]\<close> (the value read is then taken as 0) or of
  \<^verbatim>\<open>cell_mem\<close> past its end (taken as "no memory").
\<close>

record alloc_state =
  as_pools :: pools
  as_alloc :: psys_resource_alloc
  as_group :: process_group
  as_cells :: u32
  as_oob :: bool

definition allocate_one ::
  "(nat set \<Rightarrow> nat \<Rightarrow> nat \<Rightarrow> nat \<Rightarrow> nat) \<Rightarrow> resource_ref \<Rightarrow> u16 \<Rightarrow> resource_type \<Rightarrow> alloc_state
    \<Rightarrow> unit result \<times> alloc_state" where
  "allocate_one srch r req type st =
     (let al = as_alloc st; n = al_resources al in
      if req = 0 then (Inr (), st)
      else if n \<ge> IPU_MAX_RESOURCES then (Inl ENOSPC, st)
      else case ipu_resource_alloc srch r (unat req) type (al_resource_alloc al n) (as_pools st) of
        (retl, a, ps) \<Rightarrow>
          let st = st\<lparr>as_pools := ps,
                as_alloc := al\<lparr>al_resource_alloc := (al_resource_alloc al)(n := a)\<rparr>\<rparr> in
          case retl of
            Inl e \<Rightarrow> (Inl e, st)
          | Inr _ \<Rightarrow> (Inr (), st\<lparr>as_alloc := (as_alloc st)\<lparr>al_resources := n + 1\<rparr>\<rparr>))"

definition last_pos :: "psys_resource_alloc \<Rightarrow> nat option" where
  "last_pos al = (if al_resources al = 0 then None
     else Some (ra_pos (al_resource_alloc al (al_resources al - 1))))"

definition note_oob :: "bool \<Rightarrow> alloc_state \<Rightarrow> alloc_state" where
  "note_oob b st = st\<lparr>as_oob := as_oob st \<or> b\<rparr>"

definition read_last_pos :: "alloc_state \<Rightarrow> u16 \<times> alloc_state" where
  "read_last_pos st =
     (case last_pos (as_alloc st) of
        Some p \<Rightarrow> (of_nat p, st)
      | None \<Rightarrow> (0, note_oob True st))"

fun allocate_dev_channels ::
  "(nat set \<Rightarrow> nat \<Rightarrow> nat \<Rightarrow> nat \<Rightarrow> nat) \<Rightarrow> nat \<Rightarrow> nat \<Rightarrow> program_manifest \<Rightarrow> nat list \<Rightarrow> alloc_state
    \<Rightarrow> unit result \<times> alloc_state" where
  "allocate_dev_channels srch pool i pm [] st = (Inr (), st)"
| "allocate_dev_channels srch pool i pm (resid # rest) st =
     (case allocate_one srch (pool, IPU_RESOURCE_DEV_CHN, resid) (pm_dev_chn_size pm resid)
         IPU_RESOURCE_DEV_CHN st of
        (Inl e, st) \<Rightarrow> (Inl e, st)
      | (Inr _, st) \<Rightarrow>
          (case read_last_pos st of (pos, st) \<Rightarrow>
           allocate_dev_channels srch pool i pm rest
             (st\<lparr>as_group := ipu_fw_psys_set_process_dev_chn_offset i resid pos (as_group st)\<rparr>)))"

text \<open>The memory bank of a cell for a memory type; \<open>df_num_ext_mem_ids\<close> means none.\<close>

definition memory_bank :: "resource_definitions \<Rightarrow> nat \<Rightarrow> nat \<Rightarrow> nat \<times> bool" where
  "memory_bank df cell mem_type_id =
     (if cell = df_num_cells df then (df_num_ext_mem_ids df, False)
      else
        let k = df_cell_mem_row df * cell + mem_type_id in
        if k < length (df_cell_mem df) then (df_cell_mem df ! k, False)
        else (df_num_ext_mem_ids df, True))"

fun allocate_memories ::
  "(nat set \<Rightarrow> nat \<Rightarrow> nat \<Rightarrow> nat \<Rightarrow> nat) \<Rightarrow> resource_definitions \<Rightarrow> nat \<Rightarrow> nat \<Rightarrow> program_manifest
    \<Rightarrow> nat \<Rightarrow> nat list \<Rightarrow> alloc_state \<Rightarrow> unit result \<times> alloc_state" where
  "allocate_memories srch df pool i pm cell [] st = (Inr (), st)"
| "allocate_memories srch df pool i pm cell (mem_type_id # rest) st =
     (case memory_bank df cell mem_type_id of (bank, oob) \<Rightarrow>
      let st = note_oob oob st in
      if bank = df_num_ext_mem_ids df then allocate_memories srch df pool i pm cell rest st
      else
        case allocate_one srch (pool, IPU_RESOURCE_EXT_MEM, bank) (pm_ext_mem_size pm mem_type_id)
            IPU_RESOURCE_EXT_MEM st of
          (Inl e, st) \<Rightarrow> (Inl e, st)
        | (Inr _, st) \<Rightarrow>
            (case read_last_pos st of (pos, st) \<Rightarrow>
             allocate_memories srch df pool i pm cell rest
               (st\<lparr>as_group := ipu_fw_psys_set_process_ext_mem i mem_type_id bank pos (as_group st)\<rparr>)))"

text \<open>Does the manifest name a fixed cell, so that the process keeps the one it has?\<close>

definition fixed_cell :: "resource_definitions \<Rightarrow> program_manifest \<Rightarrow> bool" where
  "fixed_cell df pm \<longleftrightarrow>
     unat (pm_cell_id pm) \<noteq> df_num_cells df \<and> unat (pm_cell_type_id pm) = df_num_cells_type df"

definition cell_bit :: "nat \<Rightarrow> u32" where
  "cell_bit cell = push_bit cell 1"

definition find_cell :: "resource_definitions \<Rightarrow> u32 \<Rightarrow> u32 \<Rightarrow> nat option" where
  "find_cell df type busy =
     List.find (\<lambda>cell. df_cells df ! cell = type \<and> busy AND cell_bit cell = 0) [0..<df_num_cells df]"

definition choose_cell ::
  "resource_definitions \<Rightarrow> nat \<Rightarrow> nat \<Rightarrow> program_manifest \<Rightarrow> alloc_state \<Rightarrow> nat result \<times> alloc_state" where
  "choose_cell df pool i pm st =
     (if unat (pm_cell_id pm) = df_num_cells df \<and> unat (pm_cell_type_id pm) = df_num_cells_type df
      then (Inr (df_num_cells df), st)
      else if fixed_cell df pm
      then (Inr (unat (ipu_fw_psys_get_process_cell_id i (as_group st))), st)
      else
        case find_cell df (ucast (pm_cell_type_id pm)) (pl_cells (as_pools st pool) OR as_cells st) of
          None \<Rightarrow> (Inl ENOSPC, st)
        | Some cell \<Rightarrow>
            (Inr cell, st\<lparr>as_group := ipu_fw_psys_set_process_cell_id i (of_nat cell) (as_group st)\<rparr>))"

text \<open>One turn of the loop over the processes.\<close>

definition allocate_process ::
  "(nat set \<Rightarrow> nat \<Rightarrow> nat \<Rightarrow> nat \<Rightarrow> nat) \<Rightarrow> resource_definitions \<Rightarrow> program_manifest list \<Rightarrow> nat \<Rightarrow> nat
    \<Rightarrow> alloc_state \<Rightarrow> unit result \<times> alloc_state" where
  "allocate_process srch df pms pool i st =
     (case ipu_fw_psys_get_program_manifest_by_process pms (pg_processes (as_group st) ! i) of
        Inl e \<Rightarrow> (Inl e, st)
      | Inr pm \<Rightarrow>
          (case choose_cell df pool i pm st of
             (Inl e, st) \<Rightarrow> (Inl e, st)
           | (Inr cell, st) \<Rightarrow>
               let st = (if cell < df_num_cells df
                         then st\<lparr>as_cells := as_cells st OR cell_bit cell\<rparr> else st) in
               if pl_cells (as_pools st pool) AND as_cells st \<noteq> 0 then (Inl ENOSPC, st)
               else case allocate_dev_channels srch pool i pm [0..<length (df_dev_channels df)] st of
                 (Inl e, st) \<Rightarrow> (Inl e, st)
               | (Inr _, st) \<Rightarrow>
                   allocate_memories srch df pool i pm cell [0..<df_num_ext_mem_types df] st))"

text \<open>The loop from process \<open>i\<close> on; the result names the process that failed.\<close>

fun allocate_processes ::
  "(nat set \<Rightarrow> nat \<Rightarrow> nat \<Rightarrow> nat \<Rightarrow> nat) \<Rightarrow> resource_definitions \<Rightarrow> program_manifest list \<Rightarrow> nat
    \<Rightarrow> nat list \<Rightarrow> alloc_state \<Rightarrow> (errno \<times> nat) option \<times> alloc_state" where
  "allocate_processes srch df pms pool [] st = (None, st)"
| "allocate_processes srch df pms pool (i # is) st =
     (case allocate_process srch df pms pool i st of
        (Inl e, st) \<Rightarrow> (Some (e, i), st)
      | (Inr _, st) \<Rightarrow> allocate_processes srch df pms pool is st)"

text \<open>The clean-up of the failure path, from the process that failed down to the first.\<close>

fun undo_cells ::
  "resource_definitions \<Rightarrow> program_manifest list \<Rightarrow> nat list \<Rightarrow> process_group \<Rightarrow> process_group" where
  "undo_cells df pms [] pg = pg"
| "undo_cells df pms (i # is) pg =
     (case ipu_fw_psys_get_program_manifest_by_process pms (pg_processes pg ! i) of
        Inl _ \<Rightarrow> pg
      | Inr pm \<Rightarrow> undo_cells df pms is
          (if fixed_cell df pm then pg else snd (ipu_fw_psys_clear_process_cell i pg)))"

definition set_cells :: "nat \<Rightarrow> u32 \<Rightarrow> pools \<Rightarrow> pools" where
  "set_cells pool cells ps = ps(pool := (ps pool)\<lparr>pl_cells := cells\<rparr>)"

fun free_entries :: "nat list \<Rightarrow> psys_resource_alloc \<Rightarrow> pools \<Rightarrow> psys_resource_alloc \<times> pools" where
  "free_entries [] al ps = (al, ps)"
| "free_entries (i # is) al ps =
     (case ipu_resource_free (al_resource_alloc al i) ps of (a, ps) \<Rightarrow>
      free_entries is (al\<lparr>al_resource_alloc := (al_resource_alloc al)(i := a)\<rparr>) ps)"

definition ipu_psys_free_resources ::
  "psys_resource_alloc \<Rightarrow> nat \<Rightarrow> pools \<Rightarrow> psys_resource_alloc \<times> pools" where
  "ipu_psys_free_resources al pool ps =
     (let ps = set_cells pool (pl_cells (ps pool) AND NOT (al_cells al)) ps in
      case free_entries [0..<al_resources al] (al\<lparr>al_cells := 0\<rparr>) ps of (al, ps) \<Rightarrow>
        (al\<lparr>al_resources := 0\<rparr>, ps))"

definition ipu_psys_allocate_resources ::
  "(nat set \<Rightarrow> nat \<Rightarrow> nat \<Rightarrow> nat \<Rightarrow> nat) \<Rightarrow> resource_definitions \<Rightarrow> process_group \<Rightarrow> program_manifest list
    \<Rightarrow> psys_resource_alloc \<Rightarrow> nat \<Rightarrow> pools \<Rightarrow> unit result \<times> alloc_state" where
  "ipu_psys_allocate_resources srch df pg pms al pool ps =
     (let st0 = \<lparr>as_pools = ps, as_alloc = al, as_group = pg, as_cells = 0, as_oob = False\<rparr> in
      case allocate_processes srch df pms pool [0..<length (pg_processes pg)] st0 of
        (None, st) \<Rightarrow>
          (Inr (), st\<lparr>as_alloc := (as_alloc st)\<lparr>al_cells := al_cells (as_alloc st) OR as_cells st\<rparr>,
             as_pools := set_cells pool (pl_cells (as_pools st pool) OR as_cells st) (as_pools st)\<rparr>)
      | (Some (e, i), st) \<Rightarrow>
          (case ipu_psys_free_resources (as_alloc st) pool (as_pools st) of (al, ps) \<Rightarrow>
             (Inl e, st\<lparr>as_group := undo_cells df pms (rev [0..<Suc i]) (as_group st),
                as_alloc := al, as_pools := ps\<rparr>)))"

section \<open>Moving to another pool\<close>

definition resource_bits :: "ipu_resource \<Rightarrow> nat set" where
  "resource_bits res = (case rs_bitmap res of None \<Rightarrow> {} | Some b \<Rightarrow> b)"

text \<open>
  The bits an entry occupies in the resource of the same kind and id of the target pool,
  and the test of the first loop.  The channel test looks at the first word only.
\<close>

definition entry_bits :: "resource_alloc \<Rightarrow> nat set" where
  "entry_bits a = (if ra_type a = IPU_RESOURCE_DFM then mask_bits (ra_elements a)
     else {ra_pos a ..< ra_pos a + ra_elements a})"

definition target_ref :: "nat \<Rightarrow> pools \<Rightarrow> resource_alloc \<Rightarrow> resource_ref" where
  "target_ref target ps a =
     (target, ra_type a, case ra_resource a of Some r \<Rightarrow> rs_id (get_resource ps r) | None \<Rightarrow> 0)"

definition target_busy :: "nat \<Rightarrow> pools \<Rightarrow> resource_alloc \<Rightarrow> bool" where
  "target_busy target ps a =
     (let bits = resource_bits (get_resource ps (target_ref target ps a)) in
      case ra_type a of
        IPU_RESOURCE_DEV_CHN \<Rightarrow> bits \<inter> {..<64} \<inter> entry_bits a \<noteq> {}
      | IPU_RESOURCE_EXT_MEM \<Rightarrow> bits \<inter> entry_bits a \<noteq> {}
      | IPU_RESOURCE_DFM \<Rightarrow> bits \<inter> entry_bits a \<noteq> {})"

definition move_entry :: "nat \<Rightarrow> resource_alloc \<Rightarrow> pools \<Rightarrow> resource_alloc \<times> pools" where
  "move_entry target a ps =
     (let r = target_ref target ps a;
          ps = set_bits r (entry_bits a) ps
      in case ra_type a of
           IPU_RESOURCE_DFM \<Rightarrow>
             (a\<lparr>ra_resource := Some r\<rparr>,
              case ra_resource a of Some src \<Rightarrow> clear_bits src (entry_bits a) ps | None \<Rightarrow> ps)
         | _ \<Rightarrow> (case ipu_resource_free a ps of (a, ps) \<Rightarrow> (a\<lparr>ra_resource := Some r\<rparr>, ps)))"

fun move_entries :: "nat \<Rightarrow> nat list \<Rightarrow> psys_resource_alloc \<Rightarrow> pools \<Rightarrow> psys_resource_alloc \<times> pools" where
  "move_entries target [] al ps = (al, ps)"
| "move_entries target (i # is) al ps =
     (case move_entry target (al_resource_alloc al i) ps of (a, ps) \<Rightarrow>
      move_entries target is (al\<lparr>al_resource_alloc := (al_resource_alloc al)(i := a)\<rparr>) ps)"

definition ipu_psys_move_resources ::
  "psys_resource_alloc \<Rightarrow> nat \<Rightarrow> nat \<Rightarrow> pools \<Rightarrow> unit result \<times> psys_resource_alloc \<times> pools" where
  "ipu_psys_move_resources al source target ps =
     (if pl_cells (ps target) AND al_cells al \<noteq> 0 then (Inl ENOSPC, al, ps)
      else if list_ex (\<lambda>i. target_busy target ps (al_resource_alloc al i)) [0..<al_resources al]
      then (Inl ENOSPC, al, ps)
      else case move_entries target [0..<al_resources al] al ps of (al, ps) \<Rightarrow>
        let ps = set_cells target (pl_cells (ps target) OR al_cells al) ps;
            ps = set_cells source (pl_cells (ps source) AND NOT (al_cells al)) ps
        in (Inr (), al, ps))"

section \<open>The resource map\<close>

lemma get_put_resource [simp]:
  "get_resource (put_resource r res ps) r' = (if r' = r then res else get_resource ps r')"
  by (cases r; cases r') (auto simp: get_resource_def put_resource_def)

lemma put_resource_cells [simp]: "pl_cells (put_resource r res ps pool) = pl_cells (ps pool)"
  by (cases r) (simp add: put_resource_def)

lemma get_set_cells [simp]:
  "get_resource (set_cells pool c ps) r = get_resource ps r"
  "pl_cells (set_cells pool c ps k) = (if k = pool then c else pl_cells (ps k))"
  by (cases r) (simp_all add: get_resource_def set_cells_def)

lemma get_set_bits:
  "get_resource (set_bits r bs ps) r' = (if r' = r
     then (get_resource ps r)\<lparr>rs_bitmap := map_option (\<lambda>b. b \<union> bs) (rs_bitmap (get_resource ps r))\<rparr>
     else get_resource ps r')"
  "pl_cells (set_bits r bs ps pool) = pl_cells (ps pool)"
  by (simp_all add: set_bits_def Let_def)

lemma get_clear_bits:
  "get_resource (clear_bits r bs ps) r' = (if r' = r
     then (get_resource ps r)\<lparr>rs_bitmap := map_option (\<lambda>b. b - bs) (rs_bitmap (get_resource ps r))\<rparr>
     else get_resource ps r')"
  "pl_cells (clear_bits r bs ps pool) = pl_cells (ps pool)"
  by (simp_all add: clear_bits_def Let_def)

lemma pools_eqI:
  assumes "\<And>r. get_resource ps r = get_resource qs r" "\<And>k. pl_cells (ps k) = pl_cells (qs k)"
  shows "ps = qs"
proof
  fix k
  have "pl_resources (ps k) type i = pl_resources (qs k) type i" for type i
    using assms(1) [of "(k, type, i)"] by (simp add: get_resource_def)
  then show "ps k = qs k" using assms(2) [of k] by (auto intro!: resource_pool.equality ext)
qed

text \<open>A resource with bits added, and with bits taken away.\<close>

definition with_bits :: "nat set \<Rightarrow> ipu_resource \<Rightarrow> ipu_resource" where
  "with_bits bs res = res\<lparr>rs_bitmap := map_option (\<lambda>b. b \<union> bs) (rs_bitmap res)\<rparr>"

definition without_bits :: "nat set \<Rightarrow> ipu_resource \<Rightarrow> ipu_resource" where
  "without_bits bs res = res\<lparr>rs_bitmap := map_option (\<lambda>b. b - bs) (rs_bitmap res)\<rparr>"

lemma with_bits_simps [simp]:
  "with_bits {} res = res" "without_bits {} res = res"
  "with_bits bs (with_bits cs res) = with_bits (cs \<union> bs) res"
  "without_bits bs (without_bits cs res) = without_bits (cs \<union> bs) res"
  "rs_elements (with_bits bs res) = rs_elements res" "rs_id (with_bits bs res) = rs_id res"
  "rs_elements (without_bits bs res) = rs_elements res" "rs_id (without_bits bs res) = rs_id res"
  "rs_bitmap (with_bits bs res) = map_option (\<lambda>b. b \<union> bs) (rs_bitmap res)"
  "rs_bitmap (without_bits bs res) = map_option (\<lambda>b. b - bs) (rs_bitmap res)"
  by (cases "rs_bitmap res"; simp add: with_bits_def without_bits_def Un_assoc Diff_eq Int_ac; fail)+

lemma without_with_bits:
  "resource_bits res \<inter> bs = {} \<Longrightarrow> without_bits bs (with_bits bs res) = res"
proof (cases "rs_bitmap res")
  case None
  then show ?thesis by (simp add: without_bits_def with_bits_def)
next
  case (Some b)
  moreover assume "resource_bits res \<inter> bs = {}"
  ultimately have "b \<union> bs - bs = b" by (auto simp: resource_bits_def)
  with Some show ?thesis by (cases res) (simp add: without_bits_def with_bits_def)
qed

lemma get_set_bits': "get_resource (set_bits r bs ps) r' =
    (if r' = r then with_bits bs (get_resource ps r) else get_resource ps r')"
  by (simp add: get_set_bits with_bits_def)

lemma get_clear_bits': "get_resource (clear_bits r bs ps) r' =
    (if r' = r then without_bits bs (get_resource ps r) else get_resource ps r')"
  by (simp add: get_clear_bits without_bits_def)

section \<open>What an allocation owns\<close>

definition entry_ok :: "resource_alloc \<Rightarrow> bool" where
  "entry_ok a \<longleftrightarrow> (\<exists>r. ra_resource a = Some r \<and> fst (snd r) = ra_type a) \<and>
     ra_type a \<noteq> IPU_RESOURCE_DFM \<and> 0 < ra_elements a"

definition owned_in :: "nat set \<Rightarrow> psys_resource_alloc \<Rightarrow> resource_ref \<Rightarrow> nat set" where
  "owned_in I al r = (\<Union>i \<in> {i \<in> I. ra_resource (al_resource_alloc al i) = Some r}.
     entry_bits (al_resource_alloc al i))"

abbreviation owned :: "psys_resource_alloc \<Rightarrow> resource_ref \<Rightarrow> nat set" where
  "owned al \<equiv> owned_in {..<al_resources al} al"

lemma owned_in_insert:
  "owned_in (insert i I) al r =
     (if ra_resource (al_resource_alloc al i) = Some r then entry_bits (al_resource_alloc al i) else {})
      \<union> owned_in I al r"
  by (auto simp: owned_in_def)

lemma owned_in_cong:
  "(\<And>i. i \<in> I \<Longrightarrow> al_resource_alloc al i = al_resource_alloc al' i) \<Longrightarrow> owned_in I al r = owned_in I al' r"
  by (auto simp: owned_in_def)

lemma owned_in_empty [simp]: "owned_in {} al r = {}"
  by (simp add: owned_in_def)

text \<open>
  \<open>claims orig al ps\<close>: the pools \<open>ps\<close> are \<open>orig\<close> with the bits of \<open>al\<close> set, which were
  free in \<open>orig\<close>, and no two entries of \<open>al\<close> share a bit.
\<close>

definition claims :: "pools \<Rightarrow> psys_resource_alloc \<Rightarrow> pools \<Rightarrow> bool" where
  "claims orig al ps \<longleftrightarrow>
     (\<forall>r. get_resource ps r = with_bits (owned al r) (get_resource orig r)) \<and>
     (\<forall>r. resource_bits (get_resource orig r) \<inter> owned al r = {}) \<and>
     (\<forall>r. rs_bitmap (get_resource orig r) = None \<longrightarrow> owned al r = {}) \<and>
     (\<forall>k. pl_cells (ps k) = pl_cells (orig k)) \<and>
     (\<forall>i < al_resources al. entry_ok (al_resource_alloc al i)) \<and>
     (\<forall>i < al_resources al. \<forall>j < i.
        ra_resource (al_resource_alloc al i) = ra_resource (al_resource_alloc al j) \<longrightarrow>
        entry_bits (al_resource_alloc al i) \<inter> entry_bits (al_resource_alloc al j) = {})"

lemma claimsD:
  assumes "claims orig al ps"
  shows "get_resource ps r = with_bits (owned al r) (get_resource orig r)"
    "resource_bits (get_resource orig r) \<inter> owned al r = {}"
    "rs_bitmap (get_resource orig r) = None \<Longrightarrow> owned al r = {}"
    "pl_cells (ps k) = pl_cells (orig k)"
    "i < al_resources al \<Longrightarrow> entry_ok (al_resource_alloc al i)"
    "i < al_resources al \<Longrightarrow> j < i \<Longrightarrow>
      ra_resource (al_resource_alloc al i) = ra_resource (al_resource_alloc al j) \<Longrightarrow>
      entry_bits (al_resource_alloc al i) \<inter> entry_bits (al_resource_alloc al j) = {}"
  using assms unfolding claims_def by blast+

lemma claims_start: "al_resources al = 0 \<Longrightarrow> claims ps al ps"
  by (simp add: claims_def)

text \<open>What the code relies on in the kernel's search for a free area.\<close>

locale zero_area =
  fixes srch :: "nat set \<Rightarrow> nat \<Rightarrow> nat \<Rightarrow> nat \<Rightarrow> nat"
  assumes area_free: "srch b sz start n < sz \<Longrightarrow> b \<inter> {srch b sz start n ..< srch b sz start n + n} = {}"
    and area_inside: "srch b sz start n < sz \<Longrightarrow> srch b sz start n + n \<le> sz"
    and area_found: "start \<le> p \<Longrightarrow> p + n \<le> sz \<Longrightarrow> 0 < n \<Longrightarrow> b \<inter> {p ..< p + n} = {} \<Longrightarrow>
      srch b sz start n \<le> p"
begin

lemma alloc_ok:
  assumes "ipu_resource_alloc srch r n type a ps = (Inr p, a', ps')" "0 < n"
  shows "rs_bitmap (get_resource ps r) \<noteq> None" "p + n \<le> rs_elements (get_resource ps r)"
    "resource_bits (get_resource ps r) \<inter> {p ..< p + n} = {}"
    "a' = \<lparr>ra_type = type, ra_resource = Some r, ra_elements = n, ra_pos = p\<rparr>"
    "ps' = set_bits r {p ..< p + n} ps"
proof -
  obtain b where b: "rs_bitmap (get_resource ps r) = Some b"
      and p: "p = srch b (rs_elements (get_resource ps r)) 0 n" "p < rs_elements (get_resource ps r)"
      and a': "a' = a\<lparr>ra_resource := Some r, ra_elements := n, ra_pos := p, ra_type := type\<rparr>"
      and ps': "ps' = set_bits r {p ..< p + n} ps"
    using assms by (auto simp: ipu_resource_alloc_def Let_def split: option.splits if_splits)
  show "rs_bitmap (get_resource ps r) \<noteq> None" using b by simp
  show "p + n \<le> rs_elements (get_resource ps r)" using area_inside p by auto
  show "resource_bits (get_resource ps r) \<inter> {p ..< p + n} = {}"
    using area_free [of b "rs_elements (get_resource ps r)" 0 n] p b by (simp add: resource_bits_def)
  show "a' = \<lparr>ra_type = type, ra_resource = Some r, ra_elements = n, ra_pos = p\<rparr>"
    using a' by (auto intro: resource_alloc.equality)
  show "ps' = set_bits r {p ..< p + n} ps" by (rule ps')
qed

lemma alloc_failed:
  assumes "ipu_resource_alloc srch r n type a ps = (Inl e, a', ps')"
  shows "ps' = ps" "e = ENOSPC"
  using assms by (auto simp: ipu_resource_alloc_def Let_def split: option.splits if_splits)

lemma claims_alloc:
  assumes c: "claims orig al ps"
    and a: "ipu_resource_alloc srch r n type (al_resource_alloc al (al_resources al)) ps = (Inr p, a, ps')"
    and n: "0 < n" and r: "fst (snd r) = type" "type \<noteq> IPU_RESOURCE_DFM"
  defines "al' \<equiv> al\<lparr>al_resource_alloc := (al_resource_alloc al)(al_resources al := a),
                     al_resources := al_resources al + 1\<rparr>"
  shows "claims orig al' ps'"
proof -
  note ok = alloc_ok [OF a n]
  let ?N = "al_resources al"
  have ent: "al_resource_alloc al' i = (if i = ?N then a else al_resource_alloc al i)" for i
    by (simp add: al'_def)
  have res: "al_resources al' = Suc ?N" by (simp add: al'_def)
  have bits: "entry_bits a = {p ..< p + n}" using ok(4) r(2) by (simp add: entry_bits_def)
  have own: "owned al' s = (if s = r then {p ..< p + n} else {}) \<union> owned al s" for s
    using owned_in_cong [of "{..<?N}" al' al s] bits ok(4)
    by (simp add: res lessThan_Suc owned_in_insert ent)
  have cur: "get_resource ps s = with_bits (owned al s) (get_resource orig s)" for s
    by (rule claimsD(1) [OF c])
  have old: "resource_bits (get_resource ps r) = resource_bits (get_resource orig r) \<union> owned al r"
    using ok(1) by (auto simp: cur resource_bits_def)
  have free: "(resource_bits (get_resource orig r) \<union> owned al r) \<inter> {p ..< p + n} = {}"
    using ok(3) old by simp
  have one: "get_resource ps' s = with_bits (owned al' s) (get_resource orig s)" for s
    by (simp add: ok(5) get_set_bits' cur own Un_commute)
  have two: "resource_bits (get_resource orig s) \<inter> owned al' s = {}" for s
    using claimsD(2) [OF c, of s] free by (auto simp: own)
  have three: "rs_bitmap (get_resource orig s) = None \<Longrightarrow> owned al' s = {}" for s
    using claimsD(3) [OF c, of s] ok(1) by (auto simp: own cur)
  have four: "pl_cells (ps' k) = pl_cells (orig k)" for k
    using claimsD(4) [OF c, of k] by (simp add: ok(5) get_set_bits(2))
  have five: "entry_ok (al_resource_alloc al' i)" if "i < al_resources al'" for i
    using claimsD(5) [OF c, of i] that ok(4) r n by (cases r) (auto simp: ent res entry_ok_def less_Suc_eq)
  have six: "entry_bits (al_resource_alloc al' i) \<inter> entry_bits (al_resource_alloc al' j) = {}"
    if "i < al_resources al'" "j < i" "ra_resource (al_resource_alloc al' i) = ra_resource (al_resource_alloc al' j)"
    for i j
  proof (cases "i = ?N")
    case True
    then have "ra_resource (al_resource_alloc al j) = Some r" "j < ?N"
      using that ok(4) by (simp_all add: ent)
    then have "entry_bits (al_resource_alloc al j) \<subseteq> owned al r" by (auto simp: owned_in_def)
    then show ?thesis using True that(2) free bits by (auto simp: ent)
  next
    case False
    then have "i < ?N" using that(1) by (simp add: res)
    then show ?thesis using claimsD(6) [OF c, of i j] that(2,3) by (simp add: ent)
  qed
  show ?thesis unfolding claims_def using one two three four five six by blast
qed

end

text \<open>An entry beyond the count does not matter.\<close>

lemma claims_spare:
  "claims orig (al\<lparr>al_resource_alloc := (al_resource_alloc al)(al_resources al := a)\<rparr>) ps = claims orig al ps"
proof -
  let ?al = "al\<lparr>al_resource_alloc := (al_resource_alloc al)(al_resources al := a)\<rparr>"
  have "owned ?al r = owned al r" for r
    using owned_in_cong [of "{..<al_resources al}" ?al al r] by simp
  then show ?thesis by (simp add: claims_def)
qed

context zero_area
begin

lemma claims_allocate_one:
  fixes req :: u16
  assumes "claims orig (as_alloc st) (as_pools st)"
    "fst (snd r) = type" "type \<noteq> IPU_RESOURCE_DFM"
  defines "st' \<equiv> snd (allocate_one srch r req type st)"
  shows "claims orig (as_alloc st') (as_pools st') \<and> as_cells st' = as_cells st \<and>
    al_cells (as_alloc st') = al_cells (as_alloc st)"
proof -
  let ?al = "as_alloc st"
  consider "req = 0" | "req \<noteq> 0" "al_resources ?al \<ge> IPU_MAX_RESOURCES"
    | "req \<noteq> 0" "\<not> al_resources ?al \<ge> IPU_MAX_RESOURCES" by blast
  then show ?thesis
  proof cases
    case 1
    then have "st' = st" by (simp add: st'_def allocate_one_def)
    with assms(1) show ?thesis by simp
  next
    case 2
    then have "st' = st" by (simp add: st'_def allocate_one_def)
    with assms(1) show ?thesis by simp
  next
    case 3
    obtain retl a ps where al: "ipu_resource_alloc srch r (unat req) type
        (al_resource_alloc ?al (al_resources ?al)) (as_pools st) = (retl, a, ps)"
      by (cases "ipu_resource_alloc srch r (unat req) type
        (al_resource_alloc ?al (al_resources ?al)) (as_pools st)")
    have n: "0 < unat req" using 3 by (simp add: unat_gt_0)
    show ?thesis
    proof (cases retl)
      case (Inl e)
      then have "ps = as_pools st" using alloc_failed(1) al by blast
      moreover have "st' = st\<lparr>as_pools := ps,
          as_alloc := ?al\<lparr>al_resource_alloc := (al_resource_alloc ?al)(al_resources ?al := a)\<rparr>\<rparr>"
        using 3 al Inl by (simp add: st'_def allocate_one_def Let_def)
      ultimately show ?thesis using assms(1) by (simp add: claims_spare)
    next
      case (Inr p)
      then have "claims orig (?al\<lparr>al_resource_alloc := (al_resource_alloc ?al)(al_resources ?al := a),
          al_resources := al_resources ?al + 1\<rparr>) ps"
        using claims_alloc [OF assms(1) _ n assms(2,3)] al by blast
      moreover have "st' = st\<lparr>as_pools := ps,
          as_alloc := ?al\<lparr>al_resource_alloc := (al_resource_alloc ?al)(al_resources ?al := a),
            al_resources := al_resources ?al + 1\<rparr>\<rparr>"
        using 3 al Inr by (simp add: st'_def allocate_one_def Let_def)
      ultimately show ?thesis by simp
    qed
  qed
qed

definition kept :: "pools \<Rightarrow> alloc_state \<Rightarrow> alloc_state \<Rightarrow> bool" where
  "kept orig st st' \<longleftrightarrow> claims orig (as_alloc st') (as_pools st') \<and> as_cells st' = as_cells st \<and>
     al_cells (as_alloc st') = al_cells (as_alloc st)"

lemma kept_refl: "claims orig (as_alloc st) (as_pools st) \<Longrightarrow> kept orig st st"
  by (simp add: kept_def)

lemma kept_trans: "kept orig st st' \<Longrightarrow> kept orig st' st'' \<Longrightarrow> kept orig st st''"
  by (simp add: kept_def)

lemma kept_claims: "kept orig st st' \<Longrightarrow> claims orig (as_alloc st') (as_pools st')"
  by (simp add: kept_def)

lemma kept_group [simp]: "kept orig st (st'\<lparr>as_group := g\<rparr>) = kept orig st st'"
  by (simp add: kept_def)

lemma kept_oob [simp]: "kept orig st (note_oob b st') = kept orig st st'"
  by (simp add: kept_def note_oob_def)

lemma kept_read: "kept orig st st' \<Longrightarrow> kept orig st (snd (read_last_pos st'))"
  by (simp add: read_last_pos_def split: option.split)

lemma kept_one:
  assumes "kept orig st0 st" "fst (snd r) = type" "type \<noteq> IPU_RESOURCE_DFM"
  shows "kept orig st0 (snd (allocate_one srch r req type st))"
  using claims_allocate_one [OF kept_claims [OF assms(1)] assms(2,3), of req] assms(1)
  by (simp add: kept_def)

lemma kept_dev_channels:
  "kept orig st0 st \<Longrightarrow> kept orig st0 (snd (allocate_dev_channels srch pool i pm ids st))"
proof (induction ids arbitrary: st)
  case Nil
  then show ?case by simp
next
  case (Cons resid ids)
  have "kept orig st0 (snd (allocate_one srch (pool, IPU_RESOURCE_DEV_CHN, resid)
      (pm_dev_chn_size pm resid) IPU_RESOURCE_DEV_CHN st))"
    using Cons.prems by (simp add: kept_one)
  then show ?case
    by (auto simp: split_beta intro!: Cons.IH kept_read split: sum.split prod.split)
qed

lemma kept_memories:
  "kept orig st0 st \<Longrightarrow> kept orig st0 (snd (allocate_memories srch df pool i pm cell ids st))"
proof (induction ids arbitrary: st)
  case Nil
  then show ?case by simp
next
  case (Cons ty ids)
  obtain bank oob where bank: "memory_bank df cell ty = (bank, oob)" by (cases "memory_bank df cell ty")
  have "kept orig st0 (snd (allocate_one srch (pool, IPU_RESOURCE_EXT_MEM, bank)
      (pm_ext_mem_size pm ty) IPU_RESOURCE_EXT_MEM (note_oob oob st)))"
    using Cons.prems by (simp add: kept_one)
  then show ?case
    using Cons.prems
    by (auto simp: bank Let_def split_beta intro!: Cons.IH kept_read split: sum.split prod.split)
qed

end

context zero_area
begin

lemma choose_cell_state:
  "as_pools (snd (choose_cell df pool i pm st)) = as_pools st"
  "as_alloc (snd (choose_cell df pool i pm st)) = as_alloc st"
  "as_cells (snd (choose_cell df pool i pm st)) = as_cells st"
  by (simp_all add: choose_cell_def split: option.split)

definition booked :: "pools \<Rightarrow> u32 \<Rightarrow> alloc_state \<Rightarrow> bool" where
  "booked orig c st \<longleftrightarrow> claims orig (as_alloc st) (as_pools st) \<and> al_cells (as_alloc st) = c"

lemma booked_kept: "booked orig c st \<Longrightarrow> kept orig st st' \<Longrightarrow> booked orig c st'"
  by (simp add: booked_def kept_def)

lemma booked_claims: "booked orig c st \<Longrightarrow> kept orig st st"
  by (simp add: booked_def kept_def)

lemma allocate_process_booked:
  assumes "booked orig c st"
  shows "booked orig c (snd (allocate_process srch df pms pool i st))"
    and "is_ok (fst (allocate_process srch df pms pool i st)) \<Longrightarrow>
      pl_cells (orig pool) AND as_cells (snd (allocate_process srch df pms pool i st)) = 0"
proof -
  obtain rm where rm: "ipu_fw_psys_get_program_manifest_by_process pms (pg_processes (as_group st) ! i) = rm"
    by simp
  have "booked orig c (snd (allocate_process srch df pms pool i st)) \<and>
    (is_ok (fst (allocate_process srch df pms pool i st)) \<longrightarrow>
      pl_cells (orig pool) AND as_cells (snd (allocate_process srch df pms pool i st)) = 0)"
  proof (cases rm)
    case (Inl e)
    with rm assms show ?thesis by (simp add: allocate_process_def)
  next
    case (Inr pm)
    let ?st1 = "snd (choose_cell df pool i pm st)"
    have b1: "booked orig c ?st1" using assms by (simp add: booked_def choose_cell_state)
    show ?thesis
    proof (cases "fst (choose_cell df pool i pm st)")
      case (Inl e)
      with rm Inr b1 show ?thesis by (simp add: allocate_process_def split_beta)
    next
      case (Inr cell)
      let ?st2 = "if cell < df_num_cells df then ?st1\<lparr>as_cells := as_cells ?st1 OR cell_bit cell\<rparr> else ?st1"
      have b2: "booked orig c ?st2" using b1 by (simp add: booked_def)
      have cells: "pl_cells (as_pools ?st2 pool) = pl_cells (orig pool)"
        using claimsD(4) [of orig "as_alloc ?st2" "as_pools ?st2" pool] b2 unfolding booked_def by blast
      let ?r3 = "allocate_dev_channels srch pool i pm [0..<length (df_dev_channels df)] ?st2"
      let ?r4 = "allocate_memories srch df pool i pm cell [0..<df_num_ext_mem_types df] (snd ?r3)"
      have k3: "kept orig ?st2 (snd ?r3)" by (rule kept_dev_channels) (rule booked_claims [OF b2])
      have k4: "kept orig ?st2 (snd ?r4)" by (rule kept_memories) (rule k3)
      have eq: "allocate_process srch df pms pool i st =
          (if pl_cells (orig pool) AND as_cells ?st2 \<noteq> 0 then (Inl ENOSPC, ?st2)
           else case fst ?r3 of Inl e \<Rightarrow> (Inl e, snd ?r3) | Inr _ \<Rightarrow> ?r4)"
        using rm \<open>rm = Inr pm\<close> Inr cells
        by (simp add: allocate_process_def split_beta Let_def split: sum.split)
      show ?thesis
        unfolding eq using b2 booked_kept [OF b2 k3] booked_kept [OF b2 k4] k4
        by (auto simp: kept_def split: sum.split)
    qed
  qed
  then show "booked orig c (snd (allocate_process srch df pms pool i st))"
    and "is_ok (fst (allocate_process srch df pms pool i st)) \<Longrightarrow>
      pl_cells (orig pool) AND as_cells (snd (allocate_process srch df pms pool i st)) = 0"
    by auto
qed

lemma allocate_processes_booked:
  assumes "booked orig c st" "pl_cells (orig pool) AND as_cells st = 0"
  shows "booked orig c (snd (allocate_processes srch df pms pool is st)) \<and>
    (fst (allocate_processes srch df pms pool is st) = None \<longrightarrow>
      pl_cells (orig pool) AND as_cells (snd (allocate_processes srch df pms pool is st)) = 0)"
  using assms
proof (induction "is" arbitrary: st)
  case Nil
  then show ?case by simp
next
  case (Cons i "is")
  note p = allocate_process_booked [OF Cons.prems(1), of df pms pool i]
  show ?case
  proof (cases "fst (allocate_process srch df pms pool i st)")
    case (Inl e)
    with p(1) show ?thesis by (simp add: split_beta)
  next
    case (Inr u)
    then show ?thesis using Cons.IH [OF p(1) p(2)] by (simp add: split_beta)
  qed
qed

end

section \<open>Freeing\<close>

lemma word_or_and_not:
  fixes p c :: u32
  assumes "p AND c = 0"
  shows "(p OR c) AND NOT c = p"
proof (rule bit_word_eqI)
  fix n
  assume "n < LENGTH(32)"
  moreover have "\<not> (bit p n \<and> bit c n)"
    using arg_cong [OF assms, of "\<lambda>w. bit w n"] by (simp add: bit_and_iff)
  ultimately show "bit ((p OR c) AND NOT c) n = bit p n" by (auto simp: bit_simps)
qed

lemma free_entry:
  assumes "entry_ok a" "ra_resource a = Some r"
  shows "get_resource (snd (ipu_resource_free a ps)) r' =
      (if r' = r then without_bits (entry_bits a) (get_resource ps r) else get_resource ps r')"
    "pl_cells (snd (ipu_resource_free a ps) k) = pl_cells (ps k)"
  using assms
  by (auto simp: entry_ok_def ipu_resource_free_def entry_bits_def get_clear_bits' get_clear_bits(2))

lemma free_entries_spec:
  assumes "distinct is" "\<forall>i \<in> set is. entry_ok (al_resource_alloc al i)"
  shows "get_resource (snd (free_entries is al ps)) r =
      without_bits (owned_in (set is) al r) (get_resource ps r) \<and>
    pl_cells (snd (free_entries is al ps) k) = pl_cells (ps k)"
  using assms
proof (induction "is" arbitrary: al ps)
  case Nil
  then show ?case by simp
next
  case (Cons i "is")
  let ?a = "al_resource_alloc al i"
  obtain s where s: "ra_resource ?a = Some s" using Cons.prems(2) by (auto simp: entry_ok_def)
  have ok: "entry_ok ?a" using Cons.prems(2) by simp
  let ?al = "al\<lparr>al_resource_alloc := (al_resource_alloc al)(i := fst (ipu_resource_free ?a ps))\<rparr>"
  have same: "owned_in (set is) ?al r = owned_in (set is) al r"
    by (rule owned_in_cong) (use Cons.prems(1) in auto)
  have "\<forall>j \<in> set is. entry_ok (al_resource_alloc ?al j)" using Cons.prems by auto
  then have "get_resource (snd (free_entries is ?al (snd (ipu_resource_free ?a ps)))) r =
      without_bits (owned_in (set is) al r) (get_resource (snd (ipu_resource_free ?a ps)) r)"
    "pl_cells (snd (free_entries is ?al (snd (ipu_resource_free ?a ps))) k) =
      pl_cells (snd (ipu_resource_free ?a ps) k)"
    using Cons.IH [of ?al "snd (ipu_resource_free ?a ps)"] Cons.prems(1) same by auto
  then show ?case
    by (simp add: split_beta free_entry [OF ok s] owned_in_insert s Un_commute)
qed

lemma free_entries_cells: "al_cells (fst (free_entries is al ps)) = al_cells al"
  by (induction "is" arbitrary: al ps) (simp_all add: split_beta)

lemma claims_cells [simp]: "claims orig (al\<lparr>al_cells := c\<rparr>) ps = claims orig al ps"
  by (simp add: claims_def owned_in_def)

text \<open>Freeing an allocation gives back the pools it was made from.\<close>

lemma free_resources_restores:
  assumes "claims orig al (set_cells pool (pl_cells (orig pool)) ps)"
    and "pl_cells (ps pool) AND NOT (al_cells al) = pl_cells (orig pool)"
  shows "snd (ipu_psys_free_resources al pool ps) = orig"
    and "al_resources (fst (ipu_psys_free_resources al pool ps)) = 0"
    and "al_cells (fst (ipu_psys_free_resources al pool ps)) = 0"
proof -
  let ?ps = "set_cells pool (pl_cells (orig pool)) ps"
  let ?al = "al\<lparr>al_cells := 0\<rparr>"
  have "\<forall>i \<in> set [0..<al_resources al]. entry_ok (al_resource_alloc ?al i)"
    using claimsD(5) [OF assms(1)] by simp
  note free = free_entries_spec [OF distinct_upt this]
  have own: "owned_in {0..<al_resources al} ?al r = owned al r" for r
    by (simp add: owned_in_def atLeast0LessThan)
  have "get_resource (snd (free_entries [0..<al_resources al] ?al ?ps)) r = get_resource orig r" for r
    using free [of ?ps r undefined] claimsD(1) [OF assms(1), of r] claimsD(2) [OF assms(1), of r]
    by (simp add: own without_with_bits)
  moreover have "pl_cells (snd (free_entries [0..<al_resources al] ?al ?ps) k) = pl_cells (orig k)" for k
    using free [of ?ps _ k] claimsD(4) [OF assms(1), of k] by simp
  ultimately have "snd (free_entries [0..<al_resources al] ?al ?ps) = orig"
    by (rule pools_eqI)
  then show "snd (ipu_psys_free_resources al pool ps) = orig"
    by (simp add: ipu_psys_free_resources_def Let_def split_beta assms(2))
  show "al_resources (fst (ipu_psys_free_resources al pool ps)) = 0"
    by (simp add: ipu_psys_free_resources_def Let_def split_beta)
  show "al_cells (fst (ipu_psys_free_resources al pool ps)) = 0"
    by (simp add: ipu_psys_free_resources_def Let_def split_beta free_entries_cells)
qed

lemma set_cells_same: "claims orig al ps \<Longrightarrow> set_cells pool (pl_cells (orig pool)) ps = ps"
  by (rule pools_eqI) (simp_all add: claimsD(4))

lemma claims_set_cells:
  "claims orig al ps \<Longrightarrow> claims orig al (set_cells pool (pl_cells (orig pool)) (set_cells pool c ps))"
  using set_cells_same [of orig al ps pool]
  by (simp add: claims_def)

context zero_area
begin

lemma allocate_resources_failed:
  assumes "ipu_psys_allocate_resources srch df pg pms al pool ps = (Inl e, st)"
    and "al_resources al = 0" "al_cells al = 0"
  shows "as_pools st = ps \<and> al_resources (as_alloc st) = 0 \<and> al_cells (as_alloc st) = 0"
proof -
  let ?st0 = "\<lparr>as_pools = ps, as_alloc = al, as_group = pg, as_cells = 0, as_oob = False\<rparr>"
  let ?r = "allocate_processes srch df pms pool [0..<length (pg_processes pg)] ?st0"
  have "booked ps 0 ?st0" using assms(2,3) by (simp add: booked_def claims_start)
  then have b: "booked ps 0 (snd ?r)"
    using allocate_processes_booked [of ps 0 ?st0 pool df pms "[0..<length (pg_processes pg)]"] by simp
  then have c: "claims ps (as_alloc (snd ?r)) (as_pools (snd ?r))" "al_cells (as_alloc (snd ?r)) = 0"
    by (simp_all add: booked_def)
  have "pl_cells (as_pools (snd ?r) pool) AND NOT (al_cells (as_alloc (snd ?r))) = pl_cells (ps pool)"
    using claimsD(4) [OF c(1), of pool] c(2) by simp
  note free = free_resources_restores [of ps "as_alloc (snd ?r)" pool "as_pools (snd ?r)",
      unfolded set_cells_same [OF c(1)], OF c(1) this]
  show ?thesis
    using assms(1) free
    by (auto simp: ipu_psys_allocate_resources_def Let_def split_beta split: option.splits)
qed

lemma allocate_resources_ok:
  assumes "ipu_psys_allocate_resources srch df pg pms al pool ps = (Inr u, st)"
    and "al_resources al = 0" "al_cells al = 0"
  shows "snd (ipu_psys_free_resources (as_alloc st) pool (as_pools st)) = ps"
    and "claims ps (as_alloc st) (set_cells pool (pl_cells (ps pool)) (as_pools st))"
    and "pl_cells (ps pool) AND al_cells (as_alloc st) = 0"
    and "pl_cells (as_pools st pool) = pl_cells (ps pool) OR al_cells (as_alloc st)"
proof -
  let ?st0 = "\<lparr>as_pools = ps, as_alloc = al, as_group = pg, as_cells = 0, as_oob = False\<rparr>"
  let ?r = "allocate_processes srch df pms pool [0..<length (pg_processes pg)] ?st0"
  have "booked ps 0 ?st0" using assms(2,3) by (simp add: booked_def claims_start)
  then have b: "booked ps 0 (snd ?r)"
      and d: "fst ?r = None \<Longrightarrow> pl_cells (ps pool) AND as_cells (snd ?r) = 0"
    using allocate_processes_booked [of ps 0 ?st0 pool df pms "[0..<length (pg_processes pg)]"] by simp_all
  then have c: "claims ps (as_alloc (snd ?r)) (as_pools (snd ?r))" "al_cells (as_alloc (snd ?r)) = 0"
    by (simp_all add: booked_def)
  have r: "fst ?r = None" and st: "st = (snd ?r)\<lparr>as_alloc := (as_alloc (snd ?r))\<lparr>al_cells := as_cells (snd ?r)\<rparr>,
      as_pools := set_cells pool (pl_cells (ps pool) OR as_cells (snd ?r)) (as_pools (snd ?r))\<rparr>"
    using assms(1) c(2) claimsD(4) [OF c(1), of pool]
    by (auto simp: ipu_psys_allocate_resources_def Let_def split_beta split: option.splits)
  show "claims ps (as_alloc st) (set_cells pool (pl_cells (ps pool)) (as_pools st))"
    using claims_set_cells [OF c(1)] by (simp add: st)
  show "pl_cells (ps pool) AND al_cells (as_alloc st) = 0" using d [OF r] by (simp add: st)
  show "pl_cells (as_pools st pool) = pl_cells (ps pool) OR al_cells (as_alloc st)" by (simp add: st)
  show "snd (ipu_psys_free_resources (as_alloc st) pool (as_pools st)) = ps"
    by (rule free_resources_restores) (use c d [OF r] in \<open>simp_all add: st claims_set_cells word_or_and_not\<close>)
qed

end

section \<open>Moving\<close>

lemma with_bits_id: "rs_id (get_resource (set_bits r bs ps) s) = rs_id (get_resource ps s)"
    "rs_id (get_resource (clear_bits r bs ps) s) = rs_id (get_resource ps s)"
  by (simp_all add: get_set_bits' get_clear_bits')

text \<open>An entry on the resource of its kind and id in the pool \<open>source\<close>.\<close>

definition entry_of :: "nat \<Rightarrow> pools \<Rightarrow> resource_alloc \<Rightarrow> bool" where
  "entry_of source ps a \<longleftrightarrow> ra_type a \<noteq> IPU_RESOURCE_DFM \<and> 0 < ra_elements a \<and>
     (\<exists>k. ra_resource a = Some (source, ra_type a, k) \<and> rs_id (get_resource ps (source, ra_type a, k)) = k)"

lemma move_entry_spec:
  assumes "ra_type a \<noteq> IPU_RESOURCE_DFM" "0 < ra_elements a"
    "ra_resource a = Some (source, ra_type a, k)" "rs_id (get_resource ps (source, ra_type a, k)) = k"
  shows "move_entry target a ps = (a\<lparr>ra_resource := Some (target, ra_type a, k)\<rparr>,
    clear_bits (source, ra_type a, k) (entry_bits a) (set_bits (target, ra_type a, k) (entry_bits a) ps))"
  using assms
  by (auto simp: move_entry_def target_ref_def ipu_resource_free_def entry_bits_def Let_def
      split: resource_type.split)

lemma entry_of_moved:
  "entry_of source (clear_bits r bs (set_bits s cs ps)) a = entry_of source ps a"
  by (simp add: entry_of_def with_bits_id)

lemma move_entries_spec:
  assumes "distinct is" "\<forall>i \<in> set is. entry_of source ps (al_resource_alloc al i)" "source \<noteq> target"
  shows "get_resource (snd (move_entries target is al ps)) (p, ty, k) =
      (if p = target then with_bits (owned_in (set is) al (source, ty, k)) (get_resource ps (p, ty, k))
       else if p = source then without_bits (owned_in (set is) al (source, ty, k)) (get_resource ps (p, ty, k))
       else get_resource ps (p, ty, k)) \<and>
    pl_cells (snd (move_entries target is al ps) j) = pl_cells (ps j) \<and>
    (\<forall>i \<in> set is. ra_resource (al_resource_alloc (fst (move_entries target is al ps)) i) =
       map_option (\<lambda>(_, t, k). (target, t, k)) (ra_resource (al_resource_alloc al i))) \<and>
    (\<forall>i. i \<notin> set is \<longrightarrow> al_resource_alloc (fst (move_entries target is al ps)) i = al_resource_alloc al i) \<and>
    al_resources (fst (move_entries target is al ps)) = al_resources al \<and>
    al_cells (fst (move_entries target is al ps)) = al_cells al"
  using assms
proof (induction "is" arbitrary: al ps)
  case Nil
  then show ?case by simp
next
  case (Cons i "is")
  let ?a = "al_resource_alloc al i"
  obtain m where a: "ra_type ?a \<noteq> IPU_RESOURCE_DFM" "0 < ra_elements ?a"
      "ra_resource ?a = Some (source, ra_type ?a, m)" "rs_id (get_resource ps (source, ra_type ?a, m)) = m"
    using Cons.prems(2) by (auto simp: entry_of_def)
  let ?ps = "clear_bits (source, ra_type ?a, m) (entry_bits ?a)
      (set_bits (target, ra_type ?a, m) (entry_bits ?a) ps)"
  let ?al = "al\<lparr>al_resource_alloc := (al_resource_alloc al)(i := ?a\<lparr>ra_resource := Some (target, ra_type ?a, m)\<rparr>)\<rparr>"
  have own: "owned_in (set is) ?al r = owned_in (set is) al r" for r
    by (rule owned_in_cong) (use Cons.prems(1) in auto)
  have "\<forall>j \<in> set is. entry_of source ?ps (al_resource_alloc ?al j)"
    using Cons.prems(1,2) by (auto simp: entry_of_moved)
  note IH = Cons.IH [where al = ?al and ps = ?ps, OF _ this assms(3)]
  have step: "move_entries target (i # is) al ps = move_entries target is ?al ?ps"
    by (simp add: move_entry_spec [OF a])
  show ?case
    unfolding step using IH Cons.prems(1) assms(3) a(3)
    by (auto simp: own get_set_bits' get_clear_bits' get_set_bits(2) get_clear_bits(2)
        owned_in_insert Un_commute)
qed

section \<open>Setting up a pool\<close>

text \<open>
  \<^verbatim>\<open>ipu_psys_resource_pool_init\<close>: the three loops in order, as one list of resources to
  initialise; \<open>ok n\<close> is the outcome of the n-th of them's \<^verbatim>\<open>kcalloc\<close>.  On a failure what was
  initialised before is cleaned up.
\<close>

definition pool_tasks :: "resource_definitions \<Rightarrow> (resource_type \<times> nat \<times> nat) list" where
  "pool_tasks df =
     map (\<lambda>i. (IPU_RESOURCE_DEV_CHN, i, df_dev_channels df ! i)) [0..<length (df_dev_channels df)] @
     map (\<lambda>i. (IPU_RESOURCE_EXT_MEM, i, df_ext_mem_ids df ! i)) [0..<df_num_ext_mem_ids df] @
     map (\<lambda>i. (IPU_RESOURCE_DFM, i, df_dfms df ! i)) [0..<length (df_dfms df)]"

definition put_in_pool :: "resource_type \<Rightarrow> nat \<Rightarrow> ipu_resource \<Rightarrow> resource_pool \<Rightarrow> resource_pool" where
  "put_in_pool ty i res pool = pool\<lparr>pl_resources :=
     (pl_resources pool)(ty := (pl_resources pool ty)(i := res))\<rparr>"

fun init_tasks ::
  "(nat \<Rightarrow> bool) \<Rightarrow> nat \<Rightarrow> (resource_type \<times> nat \<times> nat) list \<Rightarrow> resource_pool
    \<Rightarrow> (errno \<times> nat) option \<times> resource_pool" where
  "init_tasks ok n [] pool = (None, pool)"
| "init_tasks ok n ((ty, i, elements) # ts) pool =
     (case ipu_resource_init (ok n) i (int elements) (pl_resources pool ty i) of
        (Inl e, res) \<Rightarrow> (Some (e, n), put_in_pool ty i res pool)
      | (Inr _, res) \<Rightarrow> init_tasks ok (Suc n) ts (put_in_pool ty i res pool))"

fun cleanup_tasks :: "(resource_type \<times> nat \<times> nat) list \<Rightarrow> resource_pool \<Rightarrow> resource_pool" where
  "cleanup_tasks [] pool = pool"
| "cleanup_tasks ((ty, i, _) # ts) pool =
     cleanup_tasks ts (put_in_pool ty i (ipu_resource_cleanup (pl_resources pool ty i)) pool)"

definition ipu_psys_resource_pool_init ::
  "(nat \<Rightarrow> bool) \<Rightarrow> resource_definitions \<Rightarrow> resource_pool \<Rightarrow> unit result \<times> resource_pool" where
  "ipu_psys_resource_pool_init ok df pool0 =
     (let pool = pool0\<lparr>pl_cells := 0\<rparr> in
      case init_tasks ok 0 (pool_tasks df) pool of
        (None, pool) \<Rightarrow> (Inr (), pool)
      | (Some (e, n), pool) \<Rightarrow> (Inl e, cleanup_tasks (rev (take n (pool_tasks df))) pool))"

definition ipu_psys_resource_pool_cleanup :: "resource_definitions \<Rightarrow> resource_pool \<Rightarrow> resource_pool" where
  "ipu_psys_resource_pool_cleanup df pool = cleanup_tasks (pool_tasks df) pool"

lemma put_in_pool_get [simp]:
  "pl_resources (put_in_pool ty i res pool) ty' i' =
     (if ty' = ty \<and> i' = i then res else pl_resources pool ty' i')"
  by (simp add: put_in_pool_def)

lemma cleanup_tasks_null:
  "rs_bitmap (pl_resources (cleanup_tasks ts pool) ty i) =
     (if (ty, i) \<in> (\<lambda>t. (fst t, fst (snd t))) ` set ts then None
      else rs_bitmap (pl_resources pool ty i))"
proof (induction ts arbitrary: pool)
  case Nil
  then show ?case by simp
next
  case (Cons t ts)
  obtain u j n where t: "t = (u, j, n)" by (cases t)
  show ?case by (auto simp: t Cons.IH ipu_resource_cleanup_def)
qed

lemma init_tasks_other:
  assumes "(ty, i) \<notin> (\<lambda>t. (fst t, fst (snd t))) ` set ts"
  shows "pl_resources (snd (init_tasks ok n ts pool)) ty i = pl_resources pool ty i"
  using assms
proof (induction ts arbitrary: n pool)
  case Nil
  then show ?case by simp
next
  case (Cons t ts)
  obtain u j e where t: "t = (u, j, e)" by (cases t)
  show ?case
    using Cons.prems by (auto simp: t Cons.IH split_beta split: sum.split prod.split)
qed

lemma init_tasks_failed:
  assumes "init_tasks ok n ts pool = (Some (e, m), pool')"
    "distinct (map (\<lambda>t. (fst t, fst (snd t))) ts)"
    "\<forall>t \<in> set ts. rs_bitmap (pl_resources pool (fst t) (fst (snd t))) = None"
  shows "e = ENOMEM \<and> n \<le> m \<and>
    (\<forall>t \<in> set (drop (m - n) ts). rs_bitmap (pl_resources pool' (fst t) (fst (snd t))) = None)"
  using assms
proof (induction ts arbitrary: n pool)
  case Nil
  then show ?case by simp
next
  case (Cons t ts)
  obtain u j x where t: "t = (u, j, x)" by (cases t)
  obtain r res where r: "ipu_resource_init (ok n) j (int x) (pl_resources pool u j) = (r, res)"
    by (cases "ipu_resource_init (ok n) j (int x) (pl_resources pool u j)")
  have other: "\<forall>s \<in> set ts. rs_bitmap (pl_resources (put_in_pool u j res pool) (fst s) (fst (snd s))) = None"
    using Cons.prems(2,3) by (force simp: t)
  show ?case
  proof (cases r)
    case (Inl e')
    then have "e' = ENOMEM" "rs_bitmap res = None"
      using r by (auto simp: ipu_resource_init_def split: if_splits)
    moreover have "e = e'" "m = n" "pool' = put_in_pool u j res pool"
      using Cons.prems(1) r Inl by (auto simp: t)
    ultimately show ?thesis using other by (auto simp: t)
  next
    case (Inr v)
    then have rest: "init_tasks ok (Suc n) ts (put_in_pool u j res pool) = (Some (e, m), pool')"
      using Cons.prems(1) r by (simp add: t)
    have "distinct (map (\<lambda>t. (fst t, fst (snd t))) ts)" using Cons.prems(2) by simp
    from Cons.IH [OF rest this other] have IH: "e = ENOMEM" "Suc n \<le> m"
      "\<forall>t \<in> set (drop (m - Suc n) ts). rs_bitmap (pl_resources pool' (fst t) (fst (snd t))) = None"
      by auto
    have "m - n = Suc (m - Suc n)" using IH(2) by simp
    with IH show ?thesis by simp
  qed
qed

lemma init_tasks_ok:
  assumes "fst (init_tasks ok n ts pool) = None" "distinct (map (\<lambda>t. (fst t, fst (snd t))) ts)"
    "t \<in> set ts"
  shows "rs_bitmap (pl_resources (snd (init_tasks ok n ts pool)) (fst t) (fst (snd t))) =
    (if snd (snd t) = 0 then None else Some {})"
  using assms
proof (induction ts arbitrary: n pool)
  case Nil
  then show ?case by simp
next
  case (Cons s ts)
  obtain u j x where s: "s = (u, j, x)" by (cases s)
  obtain r res where r: "ipu_resource_init (ok n) j (int x) (pl_resources pool u j) = (r, res)"
    by (cases "ipu_resource_init (ok n) j (int x) (pl_resources pool u j)")
  obtain v where v: "r = Inr v" using Cons.prems(1) r by (cases r) (auto simp: s)
  then have res: "rs_bitmap res = (if x = 0 then None else Some {})"
    using r by (auto simp: ipu_resource_init_def split: if_splits)
  have step: "init_tasks ok n (s # ts) pool = init_tasks ok (Suc n) ts (put_in_pool u j res pool)"
    using r v by (simp add: s)
  show ?case
  proof (cases "t = s")
    case True
    have "(u, j) \<notin> (\<lambda>t. (fst t, fst (snd t))) ` set ts" using Cons.prems(2) by (simp add: s)
    then show ?thesis using True res unfolding step by (simp add: s init_tasks_other)
  next
    case False
    then show ?thesis
      using Cons.IH [of "Suc n" "put_in_pool u j res pool"] Cons.prems unfolding step by simp
  qed
qed

lemma pool_tasks_distinct: "distinct (map (\<lambda>t. (fst t, fst (snd t))) (pool_tasks df))"
  by (auto simp: pool_tasks_def distinct_map inj_on_def o_def)

section \<open>A search that fits\<close>

definition first_fit :: "nat set \<Rightarrow> nat \<Rightarrow> nat \<Rightarrow> nat \<Rightarrow> nat" where
  "first_fit b sz start n =
     (case List.find (\<lambda>p. p + n \<le> sz \<and> list_all (\<lambda>i. i \<notin> b) [p ..< p + n]) [start ..< sz] of
        Some p \<Rightarrow> p | None \<Rightarrow> sz + 1)"

interpretation fit: zero_area first_fit
proof
  fix b :: "nat set" and sz start n :: nat
  assume "first_fit b sz start n < sz"
  then obtain p where "List.find (\<lambda>p. p + n \<le> sz \<and> list_all (\<lambda>i. i \<notin> b) [p ..< p + n]) [start ..< sz] = Some p"
      "first_fit b sz start n = p"
    by (auto simp: first_fit_def split: option.splits)
  then show "b \<inter> {first_fit b sz start n ..< first_fit b sz start n + n} = {}"
      "first_fit b sz start n + n \<le> sz"
    by (auto simp: find_Some_iff list_all_iff)
next
  fix start p n sz :: nat and b :: "nat set"
  assume p: "start \<le> p" "p + n \<le> sz" "0 < n" "b \<inter> {p ..< p + n} = {}"
  let ?P = "\<lambda>p. p + n \<le> sz \<and> list_all (\<lambda>i. i \<notin> b) [p ..< p + n]"
  have P: "?P p" "p \<in> set [start ..< sz]" using p by (auto simp: list_all_iff)
  then obtain q where q: "List.find ?P [start ..< sz] = Some q"
    by (cases "List.find ?P [start ..< sz]") (auto simp: find_None_iff)
  then obtain i where i: "i < length [start ..< sz]" "q = [start ..< sz] ! i"
      "\<forall>j < i. \<not> ?P ([start ..< sz] ! j)"
    by (auto simp: find_Some_iff)
  have "\<not> p - start < i"
  proof
    assume "p - start < i"
    moreover have "[start ..< sz] ! (p - start) = p" using p(1) P(2) by (simp add: nth_upt)
    ultimately show False using i(3) P(1) by metis
  qed
  then have "q \<le> p" using i(1,2) p(1) by (simp add: nth_upt)
  then show "first_fit b sz start n \<le> p" by (simp add: first_fit_def q)
qed

section \<open>The properties\<close>

text \<open>Two cells, one device channel with four elements, and processes that want three each.\<close>

definition demo_defs :: resource_definitions where
  "demo_defs = \<lparr>df_cells = [0, 0], df_num_cells = 2, df_num_cells_type = 1, df_dev_channels = [4],
     df_ext_mem_ids = [], df_num_ext_mem_types = 0, df_num_ext_mem_ids = 0, df_dfms = [],
     df_cell_mem_row = 0, df_cell_mem = []\<rparr>"

definition demo_manifest :: program_manifest where
  "demo_manifest = \<lparr>pm_ID = 1, pm_dev_chn_size = (\<lambda>_. 3), pm_ext_mem_size = (\<lambda>_. 0),
     pm_cell_id = 2, pm_cell_type_id = 0\<rparr>"

definition demo_process :: psys_process where
  "demo_process = \<lparr>pr_ID = 1, pr_cell_id = 0, pr_dev_chn_offset = (\<lambda>_. 0), pr_ext_mem_id = (\<lambda>_. 0),
     pr_ext_mem_offset = (\<lambda>_. 0)\<rparr>"

definition demo_group :: "nat \<Rightarrow> process_group" where
  "demo_group n = \<lparr>pg_processes = replicate n demo_process, pg_resource_bitmap = 0\<rparr>"

definition demo_pools :: pools where
  "demo_pools = (\<lambda>k. \<lparr>pl_cells = 0, pl_resources = (\<lambda>ty i. \<lparr>rs_id = i, rs_elements = 4, rs_bitmap = Some {}\<rparr>)\<rparr>)"

definition no_alloc :: psys_resource_alloc where
  "no_alloc = \<lparr>al_cells = 0, al_resource_alloc = (\<lambda>_. \<lparr>ra_type = IPU_RESOURCE_DEV_CHN, ra_resource = None,
     ra_elements = 0, ra_pos = 0\<rparr>), al_resources = 0\<rparr>"

lemma no_alloc_empty: "al_resources no_alloc = 0" "al_cells no_alloc = 0"
  by (simp_all add: no_alloc_def)

lemma demo_fails:
  "fst (ipu_psys_allocate_resources first_fit demo_defs (demo_group 2) [demo_manifest] no_alloc 0 demo_pools)
     = Inl ENOSPC"
  by code_simp

lemma demo_fits:
  "fst (ipu_psys_allocate_resources first_fit demo_defs (demo_group 1) [demo_manifest] no_alloc 0 demo_pools)
     = Inr ()"
  by code_simp

lemma demo_claims:
  assumes "ipu_psys_allocate_resources first_fit demo_defs (demo_group 1) [demo_manifest] no_alloc 0 demo_pools = (Inr u, st)"
  shows "claims demo_pools (as_alloc st) (set_cells 0 0 (as_pools st))"
  using fit.allocate_resources_ok(2) [OF assms no_alloc_empty] by (simp add: demo_pools_def)

text \<open>
  C8: A failed allocation is undone: when \<^verbatim>\<open>ipu_psys_allocate_resources\<close>, started with an
  empty allocation, returns an error, every bitmap and the cell mask of every pool are as
  they were, and the allocation is empty again, however many resources of however many
  processes had been allocated before the failure.
\<close>

theorem allocate_resources_atomic:
  assumes "zero_area srch"
    and "ipu_psys_allocate_resources srch df pg pms al pool ps = (Inl e, st)"
    and "al_resources al = 0" "al_cells al = 0"
  shows "as_pools st = ps \<and> al_resources (as_alloc st) = 0 \<and> al_cells (as_alloc st) = 0"
  by (rule zero_area.allocate_resources_failed [OF assms])

theorem allocate_resources_atomic_witness:
  "as_pools (snd (ipu_psys_allocate_resources first_fit demo_defs (demo_group 2) [demo_manifest]
     no_alloc 0 demo_pools)) = demo_pools"
proof -
  let ?r = "ipu_psys_allocate_resources first_fit demo_defs (demo_group 2) [demo_manifest] no_alloc 0 demo_pools"
  have "?r = (Inl ENOSPC, snd ?r)" using demo_fails by (metis prod.collapse)
  from allocate_resources_atomic [OF fit.zero_area_axioms this no_alloc_empty] show ?thesis by blast
qed

text \<open>
  A successful allocation only takes what was free, cells and bits of channels and
  memories, gives no bit to two of its entries, and freeing it gives back exactly the pools
  it was made from.
\<close>

theorem allocate_free_roundtrip:
  assumes "zero_area srch"
    and "ipu_psys_allocate_resources srch df pg pms al pool ps = (Inr u, st)"
    and "al_resources al = 0" "al_cells al = 0"
  shows "pl_cells (ps pool) AND al_cells (as_alloc st) = 0 \<and>
    pl_cells (as_pools st pool) = pl_cells (ps pool) OR al_cells (as_alloc st) \<and>
    (\<forall>r. resource_bits (get_resource ps r) \<inter> owned (as_alloc st) r = {} \<and>
      get_resource (as_pools st) r = with_bits (owned (as_alloc st) r) (get_resource ps r)) \<and>
    snd (ipu_psys_free_resources (as_alloc st) pool (as_pools st)) = ps"
  using zero_area.allocate_resources_ok [OF assms]
    claimsD(1,2) [OF zero_area.allocate_resources_ok(2) [OF assms]] by simp

theorem allocate_free_roundtrip_witness:
  "let st = snd (ipu_psys_allocate_resources first_fit demo_defs (demo_group 1) [demo_manifest]
     no_alloc 0 demo_pools)
   in snd (ipu_psys_free_resources (as_alloc st) 0 (as_pools st)) = demo_pools"
proof -
  let ?r = "ipu_psys_allocate_resources first_fit demo_defs (demo_group 1) [demo_manifest] no_alloc 0 demo_pools"
  have "?r = (Inr (), snd ?r)" using demo_fits by (metis prod.collapse)
  from allocate_free_roundtrip [OF fit.zero_area_axioms this no_alloc_empty] show ?thesis
    unfolding Let_def by blast
qed

text \<open>
  Moving an allocation from one pool to another transfers exactly its bits and cells:
  the target's bits of the entries' resources were free and get set, the source's get
  cleared, nothing else changes; a refused move changes nothing.
\<close>

theorem move_resources_transfer:
  assumes "\<forall>i < al_resources al. entry_of source ps (al_resource_alloc al i)" "source \<noteq> target"
    and "\<forall>i < al_resources al. ra_type (al_resource_alloc al i) = IPU_RESOURCE_DEV_CHN \<longrightarrow>
      ra_pos (al_resource_alloc al i) + ra_elements (al_resource_alloc al i) \<le> 64"
  shows "case ipu_psys_move_resources al source target ps of
      (Inl e, al', ps') \<Rightarrow> al' = al \<and> ps' = ps
    | (Inr u, al', ps') \<Rightarrow>
        pl_cells (ps target) AND al_cells al = 0 \<and>
        pl_cells (ps' target) = pl_cells (ps target) OR al_cells al \<and>
        pl_cells (ps' source) = pl_cells (ps source) AND NOT (al_cells al) \<and>
        (\<forall>ty k. resource_bits (get_resource ps (target, ty, k)) \<inter> owned al (source, ty, k) = {} \<and>
          get_resource ps' (target, ty, k) = with_bits (owned al (source, ty, k)) (get_resource ps (target, ty, k)) \<and>
          get_resource ps' (source, ty, k) = without_bits (owned al (source, ty, k)) (get_resource ps (source, ty, k)))"
proof (cases "pl_cells (ps target) AND al_cells al \<noteq> 0 \<or>
    list_ex (\<lambda>i. target_busy target ps (al_resource_alloc al i)) [0..<al_resources al]")
  case True
  then show ?thesis by (auto simp: ipu_psys_move_resources_def)
next
  case False
  let ?is = "[0..<al_resources al]"
  have ok: "\<forall>i \<in> set ?is. entry_of source ps (al_resource_alloc al i)" using assms(1) by simp
  note move = move_entries_spec [OF distinct_upt ok assms(2)]
  have free: "resource_bits (get_resource ps (target, ty, k)) \<inter> owned al (source, ty, k) = {}" for ty k
  proof -
    have "resource_bits (get_resource ps (target, ty, k)) \<inter> entry_bits (al_resource_alloc al i) = {}"
      if i: "i < al_resources al" "ra_resource (al_resource_alloc al i) = Some (source, ty, k)" for i
    proof -
      let ?a = "al_resource_alloc al i"
      have "entry_of source ps ?a" using assms(1) i(1) by blast
      then have a: "ra_type ?a = ty" "ty \<noteq> IPU_RESOURCE_DFM" "rs_id (get_resource ps (source, ty, k)) = k"
        using i(2) by (auto simp: entry_of_def)
      have "\<not> target_busy target ps ?a" using False i(1) by (auto simp: list_ex_iff)
      moreover have "entry_bits ?a \<subseteq> {..<64}" if "ty = IPU_RESOURCE_DEV_CHN"
        using assms(3) i(1) a that by (auto simp: entry_bits_def)
      ultimately show ?thesis
        using a i(2) by (cases ty) (auto simp: target_busy_def target_ref_def Let_def)
    qed
    then show ?thesis by (auto simp: owned_in_def)
  qed
  have own: "owned_in (set ?is) al r = owned al r" for r by (simp add: owned_in_def)
  show ?thesis
    using False move free assms(2) own
    by (simp add: ipu_psys_move_resources_def Let_def split_beta)
qed

definition demo_entry :: psys_resource_alloc where
  "demo_entry = \<lparr>al_cells = 1, al_resource_alloc = (\<lambda>_. \<lparr>ra_type = IPU_RESOURCE_DEV_CHN,
     ra_resource = Some (0, IPU_RESOURCE_DEV_CHN, 0), ra_elements = 3, ra_pos = 0\<rparr>), al_resources = 1\<rparr>"

theorem move_resources_transfer_witness:
  "case ipu_psys_move_resources demo_entry 0 1 demo_pools of
     (Inl e, al, ps) \<Rightarrow> False
   | (Inr u, al, ps) \<Rightarrow> resource_bits (get_resource ps (1, IPU_RESOURCE_DEV_CHN, 0)) = {0, 1, 2}"
proof -
  have "fst (ipu_psys_move_resources demo_entry 0 1 demo_pools) = Inr ()" by code_simp
  moreover have "{0 ..< 3} = {0, 1, 2 :: nat}" by auto
  moreover have "owned demo_entry (0, IPU_RESOURCE_DEV_CHN, 0) = {0 ..< 3}"
    by (auto simp: owned_in_def demo_entry_def entry_bits_def)
  moreover have "\<forall>i < al_resources demo_entry. entry_of 0 demo_pools (al_resource_alloc demo_entry i)"
    by (simp add: demo_entry_def entry_of_def demo_pools_def get_resource_def)
  ultimately show ?thesis
    using move_resources_transfer [of demo_entry 0 demo_pools 1]
    by (auto simp: demo_entry_def demo_pools_def get_resource_def resource_bits_def split: prod.splits sum.splits)
qed

text \<open>
  Undoing a cell assignment fails for all but two cells: after
  \<^verbatim>\<open>ipu_fw_psys_set_process_cell_id\<close> in a group with no cells,
  \<^verbatim>\<open>ipu_fw_psys_clear_process_cell\<close> refuses (because it tests \<^verbatim>\<open>cell_id << 1\<close> against the
  bitmap) unless the cell is 1 or 2; and for those it leaves bit 17 set in the group's bitmap.
\<close>

theorem clear_cell_refused:
  assumes "i < length (pg_processes pg)" "pg_resource_bitmap pg = 0" "cell < 17"
  defines "pg' \<equiv> ipu_fw_psys_set_process_cell_id i cell pg"
  shows "if cell = 1 \<or> cell = 2
    then fst (ipu_fw_psys_clear_process_cell i pg') = 0 \<and>
      pg_resource_bitmap (snd (ipu_fw_psys_clear_process_cell i pg')) = 2 ^ 17
    else ipu_fw_psys_clear_process_cell i pg' = (-1, pg')"
proof -
  have "unat cell < 17" using assms(3) by (simp add: word_less_nat_alt)
  then have "unat cell \<in> set [0..<17]" by simp
  moreover have "cell = of_nat (unat cell)" by simp
  ultimately have "cell \<in> of_nat ` set [0..<17]" by (metis image_eqI)
  moreover have "pr_cell_id (pg_processes pg' ! i) = cell"
    using assms(1) by (simp add: pg'_def ipu_fw_psys_set_process_cell_id_def update_process_def)
  moreover have "pg_resource_bitmap pg' = push_bit (unat cell) 1"
    using assms(2) by (simp add: pg'_def ipu_fw_psys_set_process_cell_id_def update_process_def Let_def)
  ultimately show ?thesis
    by (auto simp: ipu_fw_psys_clear_process_cell_def ipu_fw_psys_get_process_cell_id_def Let_def
        ipu_fw_psys_set_process_cell_id_def update_process_def IPU_FW_PSYS_N_CELL_ID_def
        upt_conv_Cons push_bit_eq_mult)
qed

theorem clear_cell_refused_witness:
  "fst (ipu_fw_psys_clear_process_cell 0 (ipu_fw_psys_set_process_cell_id 0 3 (demo_group 1))) = -1"
  using clear_cell_refused [of 0 "demo_group 1" 3] by (simp add: demo_group_def)

lemma dev_channels_oob:
  "as_oob st \<Longrightarrow> as_oob (snd (allocate_dev_channels srch pool i pm ids st))"
proof (induction ids arbitrary: st)
  case Nil
  then show ?case by simp
next
  case (Cons resid ids)
  have one: "as_oob (snd (allocate_one srch r req ty st)) = as_oob st" for r req ty st
    by (simp add: allocate_one_def Let_def split_beta split: sum.split)
  have read: "as_oob st' \<Longrightarrow> as_oob (snd (read_last_pos st'))" for st'
    by (simp add: read_last_pos_def note_oob_def split: option.split)
  show ?case
    using Cons.prems one by (auto simp: split_beta intro!: Cons.IH read split: sum.split prod.split)
qed

text \<open>
  When the first channel of the first process needs no elements, the code still reads
  \<^verbatim>\<open>resource_alloc[resources - 1].pos\<close> with \<^verbatim>\<open>resources\<close> 0, before the array.
\<close>

theorem unneeded_channel_reads_before_array:
  assumes "al_resources (as_alloc st) = 0" "pm_dev_chn_size pm resid = 0"
  shows "as_oob (snd (allocate_dev_channels srch pool i pm (resid # rest) st))"
proof -
  have "allocate_one srch r (pm_dev_chn_size pm resid) ty st = (Inr (), st)" for r ty
    using assms(2) by (simp add: allocate_one_def)
  then show ?thesis
    using assms(1) by (simp add: read_last_pos_def last_pos_def note_oob_def dev_channels_oob)
qed

theorem unneeded_channel_reads_before_array_witness:
  "as_oob (snd (allocate_dev_channels first_fit 0 0 (demo_manifest\<lparr>pm_dev_chn_size := \<lambda>_. 0\<rparr>) [0]
     \<lparr>as_pools = demo_pools, as_alloc = no_alloc, as_group = demo_group 1, as_cells = 0, as_oob = False\<rparr>))"
  using unneeded_channel_reads_before_array [of "\<lparr>as_pools = demo_pools, as_alloc = no_alloc,
      as_group = demo_group 1, as_cells = 0, as_oob = False\<rparr>"
      "demo_manifest\<lparr>pm_dev_chn_size := \<lambda>_. 0\<rparr>" 0 first_fit 0 0 "[]"]
  by (simp add: no_alloc_def)

lemma init_tasks_cells: "pl_cells (snd (init_tasks ok n ts pool)) = pl_cells pool"
proof (induction ts arbitrary: n pool)
  case Nil
  then show ?case by simp
next
  case (Cons t ts)
  obtain u j e where t: "t = (u, j, e)" by (cases t)
  show ?case by (auto simp: t Cons.IH put_in_pool_def split_beta split: sum.split prod.split)
qed

text \<open>
  Setting up a pool: on success every resource with elements has an empty bitmap; on
  failure, which is out of memory, every bitmap allocated before has been freed again, in a
  pool that had none to begin with.
\<close>

theorem pool_init_all_or_nothing:
  assumes "\<forall>t \<in> set (pool_tasks df). rs_bitmap (pl_resources pool (fst t) (fst (snd t))) = None"
    and "t \<in> set (pool_tasks df)"
  shows "case ipu_psys_resource_pool_init ok df pool of
      (Inr u, pool') \<Rightarrow> pl_cells pool' = 0 \<and>
        rs_bitmap (pl_resources pool' (fst t) (fst (snd t))) = (if snd (snd t) = 0 then None else Some {})
    | (Inl e, pool') \<Rightarrow> e = ENOMEM \<and> rs_bitmap (pl_resources pool' (fst t) (fst (snd t))) = None"
proof -
  let ?pool = "pool\<lparr>pl_cells := 0\<rparr>" and ?ts = "pool_tasks df"
  obtain r pool1 where r: "init_tasks ok 0 ?ts ?pool = (r, pool1)" by (cases "init_tasks ok 0 ?ts ?pool")
  show ?thesis
  proof (cases r)
    case None
    then show ?thesis
      using init_tasks_ok [of ok 0 ?ts ?pool t] pool_tasks_distinct assms(2) r
        init_tasks_cells [of ok 0 ?ts ?pool]
      by (simp add: ipu_psys_resource_pool_init_def Let_def)
  next
    case (Some en)
    obtain e n where en: "en = (e, n)" by (cases en)
    have failed: "e = ENOMEM" "\<forall>t \<in> set (drop n ?ts). rs_bitmap (pl_resources pool1 (fst t) (fst (snd t))) = None"
      using init_tasks_failed [of ok 0 ?ts ?pool e n pool1] pool_tasks_distinct assms(1) r Some en by simp_all
    have "t \<in> set (take n ?ts) \<or> t \<in> set (drop n ?ts)"
      using assms(2) by (metis Un_iff append_take_drop_id set_append)
    then have "rs_bitmap (pl_resources (cleanup_tasks (rev (take n ?ts)) pool1) (fst t) (fst (snd t))) = None"
      using failed(2) by (auto simp: cleanup_tasks_null)
    then show ?thesis using failed(1) r Some en by (simp add: ipu_psys_resource_pool_init_def Let_def)
  qed
qed

theorem pool_init_all_or_nothing_witness:
  "rs_bitmap (pl_resources (snd (ipu_psys_resource_pool_init (\<lambda>_. True) demo_defs
     \<lparr>pl_cells = 0, pl_resources = (\<lambda>_ i. \<lparr>rs_id = 0, rs_elements = 0, rs_bitmap = None\<rparr>)\<rparr>))
     IPU_RESOURCE_DEV_CHN 0) = Some {}"
proof -
  let ?pool = "\<lparr>pl_cells = 0, pl_resources = (\<lambda>_ i. \<lparr>rs_id = 0, rs_elements = 0, rs_bitmap = None\<rparr>)\<rparr> :: resource_pool"
  have t: "pool_tasks demo_defs = [(IPU_RESOURCE_DEV_CHN, 0, 4)]"
    by (simp add: pool_tasks_def demo_defs_def)
  have "fst (ipu_psys_resource_pool_init (\<lambda>_. True) demo_defs ?pool) = Inr ()"
    by (simp add: ipu_psys_resource_pool_init_def t ipu_resource_init_def Let_def)
  then show ?thesis
    using pool_init_all_or_nothing [of demo_defs ?pool "(IPU_RESOURCE_DEV_CHN, 0, 4)" "\<lambda>_. True"]
    by (auto simp: t split: prod.splits)
qed

end
