(* ===== verification/PsysBuffers.thy ===== *)
theory PsysBuffers
  imports Prelude
begin

text \<open>
  The buffers of a processing-system client, \<^verbatim>\<open>ipu-psys.c\<close>: the list \<open>bufmap\<close> of a file
  handle, the ioctls that create, map and unmap a buffer, the dma-buf callbacks that pin the
  user's pages, and what closing the handle does with the buffers that are left.

  The dma-buf core, the page pinning and the allocator are not part of the repository.  Their
  results are parameters (the record \<open>dma_buf_env\<close>, the record \<open>pin_env\<close>); the calls the
  driver makes are recorded in order, and what is held after an operation is what was taken
  and not given back in that record.  A kbuffer is a name; \<open>bs_live\<close> are the ones allocated
  and not yet freed, and freeing one that is not live sets \<open>bs_fault\<close>, as does following a
  pointer that carries an error code.
\<close>

section \<open>Data\<close>

datatype 'a kptr = KNull | KErr errno | KRef 'a

record kbuffer =
  kb_len :: u64
  kb_userptr :: ptr
  kb_flags :: u32
  kb_fd :: int
  kb_kaddr :: ptr
  kb_dma_addr :: u64
  kb_sgt :: "nat kptr"
  kb_db_attach :: "nat kptr"
  kb_dbuf :: "nat kptr"
  kb_valid :: bool

definition zero_kbuffer :: kbuffer where
  "zero_kbuffer = \<lparr>kb_len = 0, kb_userptr = NULL, kb_flags = 0, kb_fd = 0, kb_kaddr = NULL,
     kb_dma_addr = 0, kb_sgt = KNull, kb_db_attach = KNull, kb_dbuf = KNull, kb_valid = False\<rparr>"

record psys_buffer =
  ub_len :: u64
  ub_userptr :: ptr
  ub_fd :: int
  ub_data_offset :: u32
  ub_bytes_used :: u32
  ub_flags :: u32

text \<open>
  The calls into the dma-buf core, with the object each one takes or gives back (an
  attachment with its dma-buf, a mapping with its address), and the return of the pages of
  an attachment.
\<close>

datatype dma_buf_call =
    Dma_buf_export nat | Dma_buf_get nat | Dma_buf_put "nat kptr"
  | Dma_buf_attach nat nat | Dma_buf_detach "nat kptr"
  | Dma_buf_map_attachment nat | Dma_buf_unmap_attachment "nat kptr"
  | Dma_buf_vmap nat ptr | Dma_buf_vunmap "nat kptr" ptr
  | Put_userpages "nat kptr"

record buf_state =
  bs_kbuf :: "nat \<Rightarrow> kbuffer"
  bs_live :: "nat set"
  bs_bufmap :: "nat \<Rightarrow> nat list"
  bs_calls :: "dma_buf_call list"
  bs_fault :: bool

text \<open>What the allocator and the dma-buf core answer during one operation.\<close>

record dma_buf_env =
  de_kzalloc :: "nat option"
  de_export :: "nat result"
  de_fd :: "int result"
  de_get :: "nat result"
  de_size :: u64
  de_attach :: "nat result"
  de_map :: "nat kptr"
  de_dma_address :: u64
  de_vmap :: "ptr option"

definition IPU_BUFFER_FLAG_NO_FLUSH :: u32 where "IPU_BUFFER_FLAG_NO_FLUSH = 8"
definition IPU_BUFFER_FLAG_DMA_HANDLE :: u32 where "IPU_BUFFER_FLAG_DMA_HANDLE = 16"
definition IPU_BUFFER_FLAG_USERPTR :: u32 where "IPU_BUFFER_FLAG_USERPTR = 32"

section \<open>Looking a buffer up\<close>

definition ipu_psys_lookup_kbuffer :: "nat \<Rightarrow> int \<Rightarrow> buf_state \<Rightarrow> nat option" where
  "ipu_psys_lookup_kbuffer f fd s = List.find (\<lambda>b. kb_fd (bs_kbuf s b) = fd) (bs_bufmap s f)"

definition ipu_psys_lookup_kbuffer_by_kaddr :: "nat \<Rightarrow> ptr \<Rightarrow> buf_state \<Rightarrow> nat option" where
  "ipu_psys_lookup_kbuffer_by_kaddr f kaddr s =
     List.find (\<lambda>b. kb_kaddr (bs_kbuf s b) = kaddr) (bs_bufmap s f)"

section \<open>Steps on the state\<close>

definition upd_kbuf :: "nat \<Rightarrow> (kbuffer \<Rightarrow> kbuffer) \<Rightarrow> buf_state \<Rightarrow> buf_state" where
  "upd_kbuf b g s = s\<lparr>bs_kbuf := (bs_kbuf s)(b := g (bs_kbuf s b))\<rparr>"

definition log_call :: "dma_buf_call \<Rightarrow> buf_state \<Rightarrow> buf_state" where
  "log_call c s = s\<lparr>bs_calls := bs_calls s @ [c]\<rparr>"

definition new_kbuf :: "nat \<Rightarrow> buf_state \<Rightarrow> buf_state" where
  "new_kbuf b s = s\<lparr>bs_kbuf := (bs_kbuf s)(b := zero_kbuffer), bs_live := insert b (bs_live s)\<rparr>"

definition kfree_kbuf :: "nat \<Rightarrow> buf_state \<Rightarrow> buf_state" where
  "kfree_kbuf b s = s\<lparr>bs_live := bs_live s - {b}, bs_fault := (bs_fault s \<or> b \<notin> bs_live s)\<rparr>"

definition list_add_kbuf :: "nat \<Rightarrow> nat \<Rightarrow> buf_state \<Rightarrow> buf_state" where
  "list_add_kbuf f b s = s\<lparr>bs_bufmap := (bs_bufmap s)(f := bs_bufmap s f @ [b])\<rparr>"

definition list_del_kbuf :: "nat \<Rightarrow> nat \<Rightarrow> buf_state \<Rightarrow> buf_state" where
  "list_del_kbuf f b s = s\<lparr>bs_bufmap := (bs_bufmap s)(f := remove1 b (bs_bufmap s f))\<rparr>"

section \<open>Creating, mapping and unmapping\<close>

text \<open>
  \<^verbatim>\<open>ipu_psys_getbuf\<close> returns the buffer description it copies back to the user; the flags
  keep every bit but the user-pointer one and gain the handle bit.
\<close>

definition ipu_psys_getbuf ::
  "dma_buf_env \<Rightarrow> psys_buffer \<Rightarrow> nat \<Rightarrow> buf_state \<Rightarrow> unit result \<times> psys_buffer \<times> buf_state" where
  "ipu_psys_getbuf e buf f s =
     (if ub_userptr buf = NULL then (Inl EINVAL, buf, s)
      else case de_kzalloc e of
        None \<Rightarrow> (Inl ENOMEM, buf, s)
      | Some b \<Rightarrow>
          let s = upd_kbuf b (\<lambda>k. k\<lparr>kb_len := ub_len buf, kb_userptr := ub_userptr buf,
                                   kb_flags := ub_flags buf\<rparr>) (new_kbuf b s)
          in case de_export e of
               Inl err \<Rightarrow> (Inl err, buf, kfree_kbuf b s)
             | Inr d \<Rightarrow>
                 let s = log_call (Dma_buf_export d) s in
                 case de_fd e of
                   Inl err \<Rightarrow> (Inl err, buf, kfree_kbuf b s)
                 | Inr fd \<Rightarrow>
                     let buf = buf\<lparr>ub_fd := fd, ub_flags :=
                           (ub_flags buf AND NOT IPU_BUFFER_FLAG_USERPTR) OR IPU_BUFFER_FLAG_DMA_HANDLE\<rparr>;
                         s = upd_kbuf b (\<lambda>k. k\<lparr>kb_fd := fd, kb_flags := ub_flags buf\<rparr>) s
                     in (Inr (), buf, list_add_kbuf f b s))"

definition ipu_psys_putbuf :: "psys_buffer \<Rightarrow> buf_state \<Rightarrow> unit result \<times> buf_state" where
  "ipu_psys_putbuf buf s = (Inr (), s)"

definition mapbuf_error_put :: "nat \<Rightarrow> nat \<Rightarrow> buf_state \<Rightarrow> buf_state" where
  "mapbuf_error_put f b s =
     (let s = list_del_kbuf f b s;
          dbuf = kb_dbuf (bs_kbuf s b);
          s = (if kb_userptr (bs_kbuf s b) = NULL then kfree_kbuf b s else s)
      in log_call (Dma_buf_put dbuf) s)"

definition mapbuf_error_detach :: "nat \<Rightarrow> nat \<Rightarrow> buf_state \<Rightarrow> buf_state" where
  "mapbuf_error_detach f b s =
     (let s = log_call (Dma_buf_detach (kb_db_attach (bs_kbuf s b))) s;
          s = upd_kbuf b (\<lambda>k. k\<lparr>kb_db_attach := KNull\<rparr>) s
      in mapbuf_error_put f b s)"

definition mapbuf_error_unmap :: "nat \<Rightarrow> nat \<Rightarrow> buf_state \<Rightarrow> buf_state" where
  "mapbuf_error_unmap f b s =
     mapbuf_error_detach f b (log_call (Dma_buf_unmap_attachment (kb_db_attach (bs_kbuf s b))) s)"

text \<open>The part of \<^verbatim>\<open>ipu_psys_mapbuf\<close> after the buffer has been found or added.\<close>

definition mapbuf_kbuf ::
  "dma_buf_env \<Rightarrow> int \<Rightarrow> nat \<Rightarrow> nat \<Rightarrow> buf_state \<Rightarrow> unit result \<times> buf_state" where
  "mapbuf_kbuf e fd f b s =
     (if kb_sgt (bs_kbuf s b) \<noteq> KNull
      then (Inr (), upd_kbuf b (\<lambda>k. k\<lparr>kb_valid := True\<rparr>) s)
      else case de_get e of
        Inl err \<Rightarrow>
          let s = upd_kbuf b (\<lambda>k. k\<lparr>kb_dbuf := KErr err\<rparr>) s in
          (Inl EINVAL, if kb_userptr (bs_kbuf s b) = NULL
             then kfree_kbuf b (list_del_kbuf f b s) else s)
      | Inr d \<Rightarrow>
          let s = upd_kbuf b (\<lambda>k. k\<lparr>kb_dbuf := KRef d,
                kb_len := (if kb_len k = 0 then de_size e else kb_len k), kb_fd := fd\<rparr>)
                (log_call (Dma_buf_get d) s)
          in case de_attach e of
               Inl err \<Rightarrow> (Inl err, mapbuf_error_put f b (upd_kbuf b (\<lambda>k. k\<lparr>kb_db_attach := KErr err\<rparr>) s))
             | Inr a \<Rightarrow>
                 let s = upd_kbuf b (\<lambda>k. k\<lparr>kb_db_attach := KRef a\<rparr>) (log_call (Dma_buf_attach d a) s) in
                 case de_map e of
                   KRef t \<Rightarrow>
                     let s = upd_kbuf b (\<lambda>k. k\<lparr>kb_sgt := KRef t, kb_dma_addr := de_dma_address e\<rparr>)
                           (log_call (Dma_buf_map_attachment a) s)
                     in (case de_vmap e of
                           None \<Rightarrow> (Inl EINVAL, mapbuf_error_unmap f b s)
                         | Some v \<Rightarrow>
                             (Inr (), upd_kbuf b (\<lambda>k. k\<lparr>kb_kaddr := v, kb_valid := True\<rparr>)
                                (log_call (Dma_buf_vmap d v) s)))
                 | _ \<Rightarrow> (Inl EINVAL, mapbuf_error_detach f b (upd_kbuf b (\<lambda>k. k\<lparr>kb_sgt := KNull\<rparr>) s)))"

definition ipu_psys_mapbuf ::
  "dma_buf_env \<Rightarrow> int \<Rightarrow> nat \<Rightarrow> buf_state \<Rightarrow> unit result \<times> buf_state" where
  "ipu_psys_mapbuf e fd f s =
     (case ipu_psys_lookup_kbuffer f fd s of
        Some b \<Rightarrow> mapbuf_kbuf e fd f b s
      | None \<Rightarrow>
          (case de_kzalloc e of
             None \<Rightarrow> (Inl ENOMEM, s)
           | Some b \<Rightarrow> mapbuf_kbuf e fd f b (list_add_kbuf f b (new_kbuf b s))))"

text \<open>The map handed to \<^verbatim>\<open>dma_buf_vunmap\<close> is the zeroed local one, not the buffer's address.\<close>

definition ipu_psys_unmapbuf :: "int \<Rightarrow> nat \<Rightarrow> buf_state \<Rightarrow> unit result \<times> buf_state" where
  "ipu_psys_unmapbuf fd f s =
     (case ipu_psys_lookup_kbuffer f fd s of
        None \<Rightarrow> (Inl EINVAL, s)
      | Some b \<Rightarrow>
          let s = upd_kbuf b (\<lambda>k. k\<lparr>kb_valid := False\<rparr>) s;
              k = bs_kbuf s b;
              s = log_call (Dma_buf_vunmap (kb_dbuf k) NULL) s;
              s = log_call (Dma_buf_unmap_attachment (kb_db_attach k)) s;
              s = log_call (Dma_buf_detach (kb_db_attach k)) s;
              s = upd_kbuf b (\<lambda>k. k\<lparr>kb_db_attach := KNull, kb_dbuf := KNull\<rparr>) s;
              s = list_del_kbuf f b s;
              s = (if kb_userptr k = NULL then kfree_kbuf b s else s)
          in (Inr (), log_call (Dma_buf_put (kb_dbuf k)) s))"

section \<open>Closing the handle\<close>

text \<open>
  \<^verbatim>\<open>ipu_psys_put_userpages(kbuf->db_attach->priv)\<close> when there is an attachment: following a
  pointer that carries an error code is a fault.
\<close>

definition put_attached :: "kbuffer \<Rightarrow> buf_state \<Rightarrow> buf_state" where
  "put_attached k s =
     (case kb_db_attach k of
        KNull \<Rightarrow> s
      | KErr _ \<Rightarrow> s\<lparr>bs_fault := True\<rparr>
      | KRef a \<Rightarrow> log_call (Put_userpages (KRef a)) s)"

text \<open>One round of the clean-up loop of \<^verbatim>\<open>ipu_psys_release\<close>.\<close>

definition release_kbuf :: "nat \<Rightarrow> nat \<Rightarrow> buf_state \<Rightarrow> buf_state" where
  "release_kbuf f b s =
     (let s = list_del_kbuf f b s; k = bs_kbuf s b in
      if kb_dbuf k \<noteq> KNull \<and> kb_db_attach k \<noteq> KNull then
        let s = upd_kbuf b (\<lambda>k. k\<lparr>kb_valid := False\<rparr>) s;
            s = (if kb_kaddr k \<noteq> NULL then log_call (Dma_buf_vunmap (kb_dbuf k) (kb_kaddr k)) s else s);
            s = log_call (Dma_buf_unmap_attachment (kb_db_attach k)) s;
            s = log_call (Dma_buf_detach (kb_db_attach k)) s;
            s = upd_kbuf b (\<lambda>k. k\<lparr>kb_dbuf := KNull, kb_db_attach := KNull\<rparr>) s
        in log_call (Dma_buf_put (kb_dbuf k)) s
      else kfree_kbuf b (put_attached k s))"

fun release_kbufs :: "nat \<Rightarrow> nat list \<Rightarrow> buf_state \<Rightarrow> buf_state" where
  "release_kbufs f [] s = s"
| "release_kbufs f (b # bs) s = release_kbufs f bs (release_kbuf f b s)"

definition release_buffers :: "nat \<Rightarrow> buf_state \<Rightarrow> buf_state" where
  "release_buffers f s = release_kbufs f (bs_bufmap s f) s"

text \<open>
  The release callback of a dma-buf the driver exported, called by the core when the last
  reference goes.
\<close>

definition ipu_dma_buf_release :: "nat option \<Rightarrow> buf_state \<Rightarrow> buf_state" where
  "ipu_dma_buf_release priv s =
     (case priv of
        None \<Rightarrow> s
      | Some b \<Rightarrow> kfree_kbuf b (put_attached (bs_kbuf s b) s))"

section \<open>Pinning the user's pages\<close>

record dma_attach =
  at_len :: u64
  at_userptr :: ptr
  at_pages :: "nat list"
  at_npages :: int
  at_sgt :: bool

text \<open>What the kernel answers: allocations, the vma lookup, the pages pinned, the scatter list.\<close>

record pin_env =
  pe_sgt_alloc :: bool
  pe_pages_alloc :: bool
  pe_vma :: bool
  pe_pin :: "int \<times> nat list"
  pe_sg_table :: "unit result"

text \<open>The pages pinned and not yet given back, in order.\<close>

record pin_state =
  pn_attach :: dma_attach
  pn_pinned :: "nat list"

definition PAGE_MASK :: u64 where "PAGE_MASK = NOT 0xFFF"
definition PAGE_ALIGN :: "u64 \<Rightarrow> u64" where "PAGE_ALIGN a = (a + 0xFFF) AND PAGE_MASK"

definition userpages_npages :: "u64 \<Rightarrow> u64 \<Rightarrow> int" where
  "userpages_npages start len =
     (let end = PAGE_ALIGN (start + len) in
      sint (ucast (drop_bit 12 (end - (start AND PAGE_MASK))) :: 32 word))"

definition unpin :: "nat list \<Rightarrow> nat list \<Rightarrow> nat list" where
  "unpin ps pinned = foldr remove1 ps pinned"

definition ipu_psys_get_userpages :: "pin_env \<Rightarrow> pin_state \<Rightarrow> unit result \<times> pin_state" where
  "ipu_psys_get_userpages e s =
     (let at = pn_attach s; npages = userpages_npages (of_nat (at_userptr at)) (at_len at) in
      if \<not> pe_sgt_alloc e then (Inl ENOMEM, s)
      else if \<not> pe_pages_alloc e then (Inl ENOMEM, s)
      else if \<not> pe_vma e then (Inl EFAULT, s)
      else case pe_pin e of (nr, pages) \<Rightarrow>
        let s = s\<lparr>pn_pinned := pn_pinned s @ pages\<rparr> in
        if nr < npages then
          (Inl ENOMEM, if nr \<noteq> 0 then s\<lparr>pn_pinned := unpin pages (pn_pinned s)\<rparr> else s)
        else
          let s = s\<lparr>pn_attach := at\<lparr>at_pages := pages, at_npages := npages\<rparr>\<rparr> in
          case pe_sg_table e of
            Inl err \<Rightarrow> (Inl err, if nr \<noteq> 0 then s\<lparr>pn_pinned := unpin pages (pn_pinned s)\<rparr> else s)
          | Inr _ \<Rightarrow> (Inr (), s\<lparr>pn_attach := (pn_attach s)\<lparr>at_sgt := True\<rparr>\<rparr>))"

definition ipu_psys_put_userpages :: "pin_state \<Rightarrow> pin_state" where
  "ipu_psys_put_userpages s =
     (let at = pn_attach s in
      if at_userptr at = NULL \<or> \<not> at_sgt at then s
      else s\<lparr>pn_pinned := unpin (at_pages at) (pn_pinned s), pn_attach := at\<lparr>at_sgt := False\<rparr>\<rparr>)"

text \<open>\<open>nents\<close> is the number of scatter-list entries, \<open>mapped\<close> what \<^verbatim>\<open>dma_map_sg_attrs\<close> returns.\<close>

definition ipu_dma_buf_attach :: "bool \<Rightarrow> kbuffer \<Rightarrow> dma_attach result" where
  "ipu_dma_buf_attach alloc k =
     (if alloc then Inr \<lparr>at_len = kb_len k, at_userptr = kb_userptr k, at_pages = [], at_npages = 0,
                         at_sgt = False\<rparr>
      else Inl ENOMEM)"

definition ipu_dma_buf_map :: "pin_env \<Rightarrow> int \<Rightarrow> int \<Rightarrow> pin_state \<Rightarrow> unit kptr \<times> pin_state" where
  "ipu_dma_buf_map e nents mapped s =
     (case ipu_psys_get_userpages e s of
        (Inl _, s) \<Rightarrow> (KNull, s)
      | (Inr _, s) \<Rightarrow>
          if mapped < nents then (KErr EIO, ipu_psys_put_userpages s) else (KRef (), s))"

definition ipu_dma_buf_unmap :: "pin_state \<Rightarrow> pin_state" where
  "ipu_dma_buf_unmap s = ipu_psys_put_userpages s"

text \<open>The last attachment's pages, mapped into the kernel; \<open>vm_map_ram\<close> is what the kernel gives.\<close>

definition ipu_dma_buf_vmap :: "dma_attach option list \<Rightarrow> (nat list \<Rightarrow> int \<Rightarrow> ptr) \<Rightarrow> ptr result" where
  "ipu_dma_buf_vmap attachments vm_map_ram =
     (if attachments = [] then Inl EINVAL
      else case last attachments of
        None \<Rightarrow> Inl EINVAL
      | Some at \<Rightarrow>
          if at_pages at = [] \<or> at_npages at = 0 then Inl EINVAL
          else let v = vm_map_ram (at_pages at) (at_npages at) in
               if v = NULL then Inl EINVAL else Inr v)"

definition ipu_dma_buf_vunmap :: "dma_attach option list \<Rightarrow> int option" where
  "ipu_dma_buf_vunmap attachments =
     (if attachments = [] then None
      else case last attachments of
        None \<Rightarrow> None
      | Some at \<Rightarrow> if at_pages at = [] \<or> at_npages at = 0 then None else Some (at_npages at))"

end
