(* ===== verification/ButtressFreq.thy ===== *)
theory ButtressFreq
  imports Prelude
begin

text \<open>
  The frequency and power control of the processing system in the buttress,
  \<^verbatim>\<open>ipu-buttress.c\<close>: the list of minimum-frequency constraints the running commands hold,
  the frequency derived from it, the fused limits, the forced ratio of the debug file, and
  the power sequence of a subsystem.  Registers are a function of their offset; what the
  hardware answers to a poll is a parameter.
\<close>

section \<open>Data\<close>

type_synonym breg = "nat \<Rightarrow> u32"

definition BUTTRESS_PS_FREQ_STEP :: u32 where "BUTTRESS_PS_FREQ_STEP = 25"
definition BUTTRESS_MIN_FORCE_PS_FREQ :: u32 where "BUTTRESS_MIN_FORCE_PS_FREQ = BUTTRESS_PS_FREQ_STEP * 8"
definition BUTTRESS_MAX_FORCE_PS_FREQ :: u32 where "BUTTRESS_MAX_FORCE_PS_FREQ = BUTTRESS_PS_FREQ_STEP * 32"
definition BUTTRESS_REG_PS_FREQ_CTL :: nat where "BUTTRESS_REG_PS_FREQ_CTL = 0x38"
definition BUTTRESS_REG_PWR_STATE :: nat where "BUTTRESS_REG_PWR_STATE = 0x5c"
definition BUTTRESS_FREQ_CTL_START :: u32 where "BUTTRESS_FREQ_CTL_START = push_bit 31 1"
definition BUTTRESS_FREQ_CTL_QOS_FLOOR_SHIFT :: nat where "BUTTRESS_FREQ_CTL_QOS_FLOOR_SHIFT = 8"
definition BUTTRESS_PS_FREQ_CTL_RATIO_MASK :: u32 where "BUTTRESS_PS_FREQ_CTL_RATIO_MASK = 0xff"

record buttress_ctrl =
  bc_freq_ctl :: nat
  bc_pwr_sts_shift :: nat
  bc_pwr_sts_mask :: u32
  bc_pwr_sts_on :: u32
  bc_pwr_sts_off :: u32
  bc_divisor :: u32
  bc_divisor_shift :: nat
  bc_qos_floor :: u32
  bc_started :: bool

record fused_freqs =
  ff_min_freq :: u32
  ff_max_freq :: u32
  ff_efficient_freq :: u32

text \<open>A constraint is its owner (the list node's address) with the frequency it asks for.\<close>

record psys_freq =
  pf_ctrl :: buttress_ctrl
  pf_constraints :: "(nat \<times> u32) list"
  pf_fused :: fused_freqs
  pf_min_freq :: u32
  pf_force_ratio :: u8
  pf_regs :: breg

section \<open>The frequency\<close>

definition ipu_buttress_set_psys_ratio :: "u32 \<Rightarrow> u32 \<Rightarrow> psys_freq \<Rightarrow> psys_freq" where
  "ipu_buttress_set_psys_ratio psys_divisor psys_qos_floor s =
     (if bc_divisor (pf_ctrl s) = psys_divisor \<and> bc_qos_floor (pf_ctrl s) = psys_qos_floor then s
      else
        let c = (pf_ctrl s)\<lparr>bc_divisor := psys_divisor, bc_qos_floor := psys_qos_floor\<rparr>;
            s = s\<lparr>pf_ctrl := c\<rparr>
        in if bc_started c
           then s\<lparr>pf_regs := (pf_regs s)(BUTTRESS_REG_PS_FREQ_CTL :=
                    BUTTRESS_FREQ_CTL_START OR
                    push_bit BUTTRESS_FREQ_CTL_QOS_FLOOR_SHIFT (bc_qos_floor c) OR psys_divisor)\<rparr>
           else s)"

definition ipu_buttress_set_psys_freq :: "u32 \<Rightarrow> psys_freq \<Rightarrow> psys_freq" where
  "ipu_buttress_set_psys_freq freq s =
     (let psys_ratio = freq div BUTTRESS_PS_FREQ_STEP in
      if pf_force_ratio s \<noteq> 0 then s else ipu_buttress_set_psys_ratio psys_ratio psys_ratio s)"

definition ipu_buttress_add_psys_constraint :: "nat \<Rightarrow> u32 \<Rightarrow> psys_freq \<Rightarrow> psys_freq" where
  "ipu_buttress_add_psys_constraint k freq s =
     (let s = s\<lparr>pf_constraints := (k, freq) # pf_constraints s\<rparr> in
      if freq > pf_min_freq s then
        let s = s\<lparr>pf_min_freq := min freq (ff_max_freq (pf_fused s))\<rparr>
        in ipu_buttress_set_psys_freq (pf_min_freq s) s
      else s)"

text \<open>The loop over the constraints that are left, and \<^verbatim>\<open>clamp\<close>.\<close>

fun max_constraint :: "u32 \<Rightarrow> (nat \<times> u32) list \<Rightarrow> u32" where
  "max_constraint m [] = m"
| "max_constraint m ((_, f) # cs) = max_constraint (if f > m then f else m) cs"

definition clamp :: "u32 \<Rightarrow> u32 \<Rightarrow> u32 \<Rightarrow> u32" where
  "clamp v lo hi = min (max v lo) hi"

text \<open>
  \<^verbatim>\<open>list_del\<close> of a node that is in no list writes through its poisoned links: the result
  is \<open>None\<close> then.
\<close>

definition ipu_buttress_remove_psys_constraint :: "nat \<Rightarrow> u32 \<Rightarrow> psys_freq \<Rightarrow> psys_freq option" where
  "ipu_buttress_remove_psys_constraint k freq s =
     (if k \<notin> fst ` set (pf_constraints s) then None
      else
        let s = s\<lparr>pf_constraints := filter (\<lambda>c. fst c \<noteq> k) (pf_constraints s)\<rparr> in
        if freq \<ge> pf_min_freq s then
          let m = max_constraint 0 (pf_constraints s);
              s = s\<lparr>pf_min_freq := clamp m (ff_efficient_freq (pf_fused s)) (ff_max_freq (pf_fused s))\<rparr>
          in Some (ipu_buttress_set_psys_freq (pf_min_freq s) s)
        else Some s)"

section \<open>Power\<close>

text \<open>
  \<open>poll\<close> is what \<^verbatim>\<open>readl_poll_timeout\<close> on the power state register returns: whether the
  expected state was seen, given the registers and the state asked for.
\<close>

definition power_control :: "buttress_ctrl \<Rightarrow> bool \<Rightarrow> u32 \<times> u32" where
  "power_control c on =
     (if on then (BUTTRESS_FREQ_CTL_START OR push_bit (bc_divisor_shift c) (bc_divisor c)
                    OR push_bit BUTTRESS_FREQ_CTL_QOS_FLOOR_SHIFT (bc_qos_floor c),
                  push_bit (bc_pwr_sts_shift c) (bc_pwr_sts_on c))
      else (0, push_bit (bc_pwr_sts_shift c) (bc_pwr_sts_off c)))"

definition ipu_buttress_power ::
  "(breg \<Rightarrow> u32 \<Rightarrow> u32 \<Rightarrow> unit result) \<Rightarrow> bool \<Rightarrow> buttress_ctrl option \<Rightarrow> bool \<Rightarrow> breg
    \<Rightarrow> unit result \<times> buttress_ctrl option \<times> breg" where
  "ipu_buttress_power poll flr_done ctrl on regs =
     (case ctrl of
        None \<Rightarrow> (Inr (), None, regs)
      | Some c \<Rightarrow>
          if flr_done then (Inr (), Some c, regs)
          else case power_control c on of (val, pwr_sts) \<Rightarrow>
            let regs = regs(bc_freq_ctl c := val);
                ret = poll regs (bc_pwr_sts_mask c) pwr_sts
            in (ret, Some (c\<lparr>bc_started := is_ok ret \<and> on\<rparr>), regs))"

section \<open>Fused limits and the forced ratio\<close>

definition BUTTRESS_REG_PS_FREQ_CAPABILITIES :: nat where "BUTTRESS_REG_PS_FREQ_CAPABILITIES = 0xf7498"
definition MIN_RATIO_MASK :: u32 where "MIN_RATIO_MASK = 0xff"
definition EFFICIENT_RATIO_SHIFT :: nat where "EFFICIENT_RATIO_SHIFT = 8"
definition EFFICIENT_RATIO_MASK :: u32 where "EFFICIENT_RATIO_MASK = push_bit 8 0xff"
definition MAX_RATIO_SHIFT :: nat where "MAX_RATIO_SHIFT = 16"
definition MAX_RATIO_MASK :: u32 where "MAX_RATIO_MASK = push_bit 16 0xff"

definition ipu_buttress_read_psys_fused_freqs :: "psys_freq \<Rightarrow> psys_freq" where
  "ipu_buttress_read_psys_fused_freqs s =
     (let reg_val = pf_regs s BUTTRESS_REG_PS_FREQ_CAPABILITIES;
          min_ratio = reg_val AND MIN_RATIO_MASK;
          max_ratio = drop_bit MAX_RATIO_SHIFT (reg_val AND MAX_RATIO_MASK);
          efficient_ratio = drop_bit EFFICIENT_RATIO_SHIFT (reg_val AND EFFICIENT_RATIO_MASK)
      in s\<lparr>pf_fused := \<lparr>ff_min_freq = min_ratio * BUTTRESS_PS_FREQ_STEP,
            ff_max_freq = max_ratio * BUTTRESS_PS_FREQ_STEP,
            ff_efficient_freq = efficient_ratio * BUTTRESS_PS_FREQ_STEP\<rparr>\<rparr>)"

text \<open>The beginning of \<^verbatim>\<open>ipu_buttress_clk_init\<close>: the limits, and the efficient frequency.\<close>

definition init_min_freq :: "psys_freq \<Rightarrow> psys_freq" where
  "init_min_freq s =
     (let s = ipu_buttress_read_psys_fused_freqs s
      in s\<lparr>pf_min_freq := ff_efficient_freq (pf_fused s)\<rparr>)"

definition ipu_buttress_psys_force_freq_get :: "psys_freq \<Rightarrow> u64" where
  "ipu_buttress_psys_force_freq_get s = ucast (ucast (pf_force_ratio s) * BUTTRESS_PS_FREQ_STEP)"

definition ipu_buttress_psys_force_freq_set :: "u64 \<Rightarrow> psys_freq \<Rightarrow> unit result \<times> psys_freq" where
  "ipu_buttress_psys_force_freq_set val s =
     (if val \<noteq> 0 \<and> (val < ucast BUTTRESS_MIN_FORCE_PS_FREQ \<or> val > ucast BUTTRESS_MAX_FORCE_PS_FREQ)
      then (Inl EINVAL, s)
      else
        let s = s\<lparr>pf_force_ratio := ucast (val div ucast BUTTRESS_PS_FREQ_STEP)\<rparr> in
        (Inr (), if pf_force_ratio s \<noteq> 0
           then ipu_buttress_set_psys_ratio (ucast (pf_force_ratio s)) (ucast (pf_force_ratio s)) s
           else ipu_buttress_set_psys_freq (pf_min_freq s) s))"

section \<open>Lemmas\<close>

lemma set_psys_ratio_frame [simp]:
  "pf_constraints (ipu_buttress_set_psys_ratio d q s) = pf_constraints s"
  "pf_fused (ipu_buttress_set_psys_ratio d q s) = pf_fused s"
  "pf_min_freq (ipu_buttress_set_psys_ratio d q s) = pf_min_freq s"
  "pf_force_ratio (ipu_buttress_set_psys_ratio d q s) = pf_force_ratio s"
  by (simp_all add: ipu_buttress_set_psys_ratio_def Let_def)

lemma set_psys_freq_frame [simp]:
  "pf_constraints (ipu_buttress_set_psys_freq f s) = pf_constraints s"
  "pf_fused (ipu_buttress_set_psys_freq f s) = pf_fused s"
  "pf_min_freq (ipu_buttress_set_psys_freq f s) = pf_min_freq s"
  "pf_force_ratio (ipu_buttress_set_psys_freq f s) = pf_force_ratio s"
  by (simp_all add: ipu_buttress_set_psys_freq_def Let_def)

lemma set_psys_ratio_divisor [simp]:
  "bc_divisor (pf_ctrl (ipu_buttress_set_psys_ratio d q s)) = d"
  "bc_qos_floor (pf_ctrl (ipu_buttress_set_psys_ratio d q s)) = q"
  by (simp_all add: ipu_buttress_set_psys_ratio_def Let_def)

lemma max_constraint_fold: "max_constraint m cs = foldr max (map snd cs) m"
proof (induction cs arbitrary: m)
  case (Cons c cs)
  have "foldr max fs (max a m) = max a (foldr max fs m)" for fs and a m :: u32
    by (induction fs) (simp_all add: max.left_commute)
  moreover have "(if b > m then b else m) = max b m" for b m :: u32 by (auto simp: max_def)
  ultimately show ?case using Cons by (cases c) simp
qed simp

lemma max_constraint_Cons: "max_constraint 0 ((k, f) # cs) = max f (max_constraint 0 cs)"
  by (simp add: max_constraint_fold)

lemma max_constraint_ge: "(k, f) \<in> set cs \<Longrightarrow> f \<le> max_constraint 0 cs"
  by (induction cs) (auto simp: max_constraint_fold le_max_iff_disj)

lemma max_constraint_remove:
  assumes "(k, f) \<in> set cs" "distinct (map fst cs)"
  shows "max_constraint 0 cs = max f (max_constraint 0 (filter (\<lambda>c. fst c \<noteq> k) cs))"
  using assms
proof (induction cs)
  case (Cons c cs)
  show ?case
  proof (cases "fst c = k")
    case True
    then have "(k, f) \<notin> set cs" using Cons.prems(2) True image_eqI [of k fst "(k, f)" "set cs"] by auto
    then have "c = (k, f)" using Cons.prems(1) by simp
    moreover have "filter (\<lambda>c. fst c \<noteq> k) cs = cs"
      using Cons.prems(2) True by (intro filter_True) (metis distinct.simps(2) image_eqI list.map(2) list.set_map)
    ultimately show ?thesis by (simp add: max_constraint_Cons del: max_constraint.simps)
  next
    case False
    then have "max_constraint 0 cs = max f (max_constraint 0 (filter (\<lambda>c. fst c \<noteq> k) cs))"
      using Cons by auto
    then show ?thesis using False
      by (cases c) (simp add: max_constraint_Cons max.left_commute del: max_constraint.simps)
  qed
qed simp

text \<open>
  What the code keeps: the frequency in force is the largest one asked for, within the
  efficient and the maximal frequency of the part.
\<close>

definition freq_ok :: "psys_freq \<Rightarrow> bool" where
  "freq_ok s \<longleftrightarrow> distinct (map fst (pf_constraints s)) \<and>
     ff_efficient_freq (pf_fused s) \<le> ff_max_freq (pf_fused s) \<and>
     pf_min_freq s = clamp (max_constraint 0 (pf_constraints s))
       (ff_efficient_freq (pf_fused s)) (ff_max_freq (pf_fused s))"

lemma clamp_max:
  fixes f m lo hi :: u32
  assumes "lo \<le> hi"
  shows "clamp (max f m) lo hi = (if f > clamp m lo hi then min f hi else clamp m lo hi)"
  using assms by (auto simp: clamp_def min_def max_def)

lemma add_constraint_ok [keeps]:
  assumes "freq_ok s" "k \<notin> fst ` set (pf_constraints s)"
  shows "freq_ok (ipu_buttress_add_psys_constraint k f s)"
  using assms clamp_max [of "ff_efficient_freq (pf_fused s)" "ff_max_freq (pf_fused s)" f
      "max_constraint 0 (pf_constraints s)"]
  by (simp add: freq_ok_def ipu_buttress_add_psys_constraint_def Let_def max_constraint_Cons
      del: max_constraint.simps)

lemma remove_constraint_ok [keeps]:
  assumes "freq_ok s" "(k, f) \<in> set (pf_constraints s)"
    and "ipu_buttress_remove_psys_constraint k f s = Some s'"
  shows "freq_ok s'"
proof -
  let ?cs = "filter (\<lambda>c. fst c \<noteq> k) (pf_constraints s)"
  note ok = assms(1) [unfolded freq_ok_def]
  have m: "max_constraint 0 (pf_constraints s) = max f (max_constraint 0 ?cs)"
    by (rule max_constraint_remove) (use assms(2) ok in auto)
  have k: "k \<in> fst ` set (pf_constraints s)" using assms(2) by force
  have d: "distinct (map fst ?cs)" using ok by (simp add: distinct_map_filter)
  have c: "clamp (max f (max_constraint 0 ?cs)) (ff_efficient_freq (pf_fused s)) (ff_max_freq (pf_fused s)) =
      (if f > clamp (max_constraint 0 ?cs) (ff_efficient_freq (pf_fused s)) (ff_max_freq (pf_fused s))
       then min f (ff_max_freq (pf_fused s))
       else clamp (max_constraint 0 ?cs) (ff_efficient_freq (pf_fused s)) (ff_max_freq (pf_fused s)))"
    using ok by (intro clamp_max) simp
  show ?thesis
  proof (cases "f \<ge> pf_min_freq s")
    case True
    then have "s' = ipu_buttress_set_psys_freq
        (clamp (max_constraint 0 ?cs) (ff_efficient_freq (pf_fused s)) (ff_max_freq (pf_fused s)))
        (s\<lparr>pf_constraints := ?cs, pf_min_freq :=
          clamp (max_constraint 0 ?cs) (ff_efficient_freq (pf_fused s)) (ff_max_freq (pf_fused s))\<rparr>)"
      using assms(3) k by (simp add: ipu_buttress_remove_psys_constraint_def Let_def)
    then show ?thesis using ok d by (simp add: freq_ok_def)
  next
    case False
    then have s': "s' = s\<lparr>pf_constraints := ?cs\<rparr>"
      using assms(3) k by (simp add: ipu_buttress_remove_psys_constraint_def Let_def)
    have "pf_min_freq s = clamp (max_constraint 0 ?cs) (ff_efficient_freq (pf_fused s)) (ff_max_freq (pf_fused s))"
      using ok m c False by (simp split: if_splits)
    then show ?thesis using ok d s' by (simp add: freq_ok_def)
  qed
qed

lemma init_min_freq_ok:
  assumes "pf_constraints s = []"
    and "drop_bit EFFICIENT_RATIO_SHIFT (pf_regs s BUTTRESS_REG_PS_FREQ_CAPABILITIES AND EFFICIENT_RATIO_MASK)
      \<le> drop_bit MAX_RATIO_SHIFT (pf_regs s BUTTRESS_REG_PS_FREQ_CAPABILITIES AND MAX_RATIO_MASK)"
  shows "freq_ok (init_min_freq s)"
proof -
  have ff: "(0xff :: u32) = mask 8" by (simp add: mask_eq_exp_minus_1)
  have part: "drop_bit n (r AND push_bit n 0xff) = drop_bit n r AND 0xff" if "n = 8 \<or> n = 16" for n and r :: u32
    unfolding ff using that by (intro bit_word_eqI) (auto simp: bit_simps)
  have less: "unat (w AND 0xff) \<le> 255" for w :: u32
    using word_and_le1 [of w 255] by (simp add: word_le_nat_alt)
  have times: "a * 25 \<le> b * 25" if "a \<le> b" "unat a \<le> 255" "unat b \<le> 255" for a b :: u32
    using that by (simp add: word_le_nat_alt unat_word_ariths)
  note part = part [of 8, simplified] part [of 16, simplified]
  have "ff_efficient_freq (pf_fused (init_min_freq s)) \<le> ff_max_freq (pf_fused (init_min_freq s))"
    using assms(2) less
    by (simp add: init_min_freq_def ipu_buttress_read_psys_fused_freqs_def Let_def EFFICIENT_RATIO_SHIFT_def
        EFFICIENT_RATIO_MASK_def MAX_RATIO_SHIFT_def MAX_RATIO_MASK_def part BUTTRESS_PS_FREQ_STEP_def times)
  then show ?thesis
    using assms(1) by (simp add: freq_ok_def clamp_def init_min_freq_def Let_def
        ipu_buttress_read_psys_fused_freqs_def)
qed

section \<open>The frequency in force\<close>

text \<open>
  What happens to the list: a command adds its constraint under a node of its own, and takes off the
  constraint it added.
\<close>

inductive freq_step :: "psys_freq \<Rightarrow> psys_freq \<Rightarrow> bool" where
  added: "freq_step s (ipu_buttress_add_psys_constraint k f s)" if "k \<notin> fst ` set (pf_constraints s)"
| removed: "freq_step s s'"
    if "(k, f) \<in> set (pf_constraints s)" "ipu_buttress_remove_psys_constraint k f s = Some s'"
| forced: "freq_step s s'" if "ipu_buttress_psys_force_freq_set v s = (r, s')"

text \<open>The divisor in force is that of the frequency, unless a ratio is forced.\<close>

definition ratio_ok :: "psys_freq \<Rightarrow> bool" where
  "ratio_ok s \<longleftrightarrow> pf_force_ratio s = 0 \<longrightarrow> bc_divisor (pf_ctrl s) = pf_min_freq s div BUTTRESS_PS_FREQ_STEP"

lemma force_freq_ok:
  assumes "freq_ok s" "ipu_buttress_psys_force_freq_set v s = (r, s')"
  shows "freq_ok s'"
  using assms by (auto simp: ipu_buttress_psys_force_freq_set_def freq_ok_def Let_def split: if_splits)

lemma freq_step_ok: "freq_step s s' \<Longrightarrow> freq_ok s \<Longrightarrow> freq_ok s'"
  by (induction rule: freq_step.induct) (auto intro: add_constraint_ok remove_constraint_ok force_freq_ok)

lemma set_psys_freq_ratio [simp]:
  "pf_force_ratio s = 0 \<Longrightarrow> bc_divisor (pf_ctrl (ipu_buttress_set_psys_freq f s)) = f div BUTTRESS_PS_FREQ_STEP"
  by (simp add: ipu_buttress_set_psys_freq_def Let_def)

lemma freq_step_ratio: "freq_step s s' \<Longrightarrow> ratio_ok s \<Longrightarrow> ratio_ok s'"
proof (induction rule: freq_step.induct)
  case (added k s f)
  then show ?case
    by (simp add: ipu_buttress_add_psys_constraint_def Let_def ratio_ok_def)
next
  case (removed k f s s')
  then show ?case
    by (auto simp: ipu_buttress_remove_psys_constraint_def Let_def ratio_ok_def split: if_splits)
next
  case (forced v s r s')
  then show ?case
    by (auto simp: ipu_buttress_psys_force_freq_set_def Let_def ratio_ok_def split: if_splits)
qed


definition idle_freq :: psys_freq where
  "idle_freq = \<lparr>pf_ctrl = \<lparr>bc_freq_ctl = 0, bc_pwr_sts_shift = 0, bc_pwr_sts_mask = 0, bc_pwr_sts_on = 0,
       bc_pwr_sts_off = 0, bc_divisor = 8, bc_divisor_shift = 8, bc_qos_floor = 8, bc_started = False\<rparr>,
     pf_constraints = [], pf_fused = \<lparr>ff_min_freq = 100, ff_max_freq = 800, ff_efficient_freq = 200\<rparr>,
     pf_min_freq = 200, pf_force_ratio = 0, pf_regs = (\<lambda>_. 0)\<rparr>"


end
