(* ===== verification/PsysKcmd.thy ===== *)
theory PsysKcmd
  imports FwPsys PsysResources PsysBuffers ButtressFreq "HOL-Library.Monad_Syntax"
begin

text \<open>
  The command queues of the processing system, \<^verbatim>\<open>ipu4/ipu4-psys.c\<close> with the scheduler
  thread, the interrupt thread and the handle operations of \<^verbatim>\<open>ipu-psys.c\<close>: a command is
  copied from the client, queued by priority, started when its resources fit, completed by a
  firmware event, the watchdog, a reset or the closing of the handle, and picked up by the
  client as an event.

  A \<^verbatim>\<open>struct ipu_psys_kcmd *\<close>, a handle and a process-group buffer are names.  Pool 0 is the
  running pool, pool 1 the started pool.  What the model does not own is in \<open>psys_env\<close>: the
  module parameters, the kernel's search for a free area, the clock, runtime power
  management and whether a timer handler is running; these answers may differ from call to
  call, which \<open>ps_calls\<close> counts.  \<open>ps_fault\<close> records a double \<^verbatim>\<open>list_del\<close> or an access to
  a command that has been freed.

  Completing a running command starts a waiting one, and a command that cannot be started
  is aborted, that is completed: the recursion of the code is bounded by fuel here, and
  \<open>None\<close> is a run that does not end.
\<close>

section \<open>Data\<close>

datatype kcmd_state =
  KCMD_STATE_NEW | KCMD_STATE_START_PREPARED | KCMD_STATE_STARTED | KCMD_STATE_RUN_PREPARED
  | KCMD_STATE_RUNNING | KCMD_STATE_COMPLETE

definition IPU_PSYS_CMD_PRIORITY_NUM :: nat where "IPU_PSYS_CMD_PRIORITY_NUM = 3"
definition IPU_MAX_PSYS_CMD_BUFFERS :: u32 where "IPU_MAX_PSYS_CMD_BUFFERS = 32"
definition IPU_PSYS_EVENT_TYPE_CMD_COMPLETE :: u32 where "IPU_PSYS_EVENT_TYPE_CMD_COMPLETE = 1"
definition IPU_FW_PSYS_EVENT_TYPE_SUCCESS :: u16 where "IPU_FW_PSYS_EVENT_TYPE_SUCCESS = 0"

definition RUNNING_POOL :: nat where "RUNNING_POOL = 0"
definition STARTED_POOL :: nat where "STARTED_POOL = 1"

text \<open>The event handed to the client; \<open>None\<close> is error 0.\<close>

record psys_user_event =
  ue_type :: u32
  ue_user_token :: u64
  ue_issue_id :: u64
  ue_error :: "errno option"

record kcmd =
  km_fh :: nat
  km_state :: kcmd_state
  km_manifest :: "program_manifest list"
  km_kbufs :: "nat list"
  km_buffers :: "psys_buffer list"
  km_nbuffers :: nat
  km_pg_user :: ptr
  km_kpg :: nat
  km_user_token :: u64
  km_issue_id :: u64
  km_priority :: u32
  km_min_freq :: u32
  km_ev :: psys_user_event
  km_watchdog :: "u64 option"

text \<open>A process group in memory, and the driver's buffer that holds a copy of it.\<close>

record pg_image =
  im_pg :: psys_process_group
  im_group :: process_group
  im_terminals :: "nat \<Rightarrow> psys_terminal"

record psys_pg =
  kp_image :: pg_image
  kp_size :: u64
  kp_pg_size :: u64
  kp_dma_addr :: u64
  kp_alloc :: psys_resource_alloc

record psys =
  ps_fhs :: "nat list"
  ps_queue :: "nat \<Rightarrow> nat \<Rightarrow> nat list"
  ps_new_tail :: "nat \<Rightarrow> nat \<Rightarrow> nat option"
  ps_kcmd :: "nat \<Rightarrow> kcmd"
  ps_live :: "nat set"
  ps_started_list :: "nat list"
  ps_started :: int
  ps_active :: int
  ps_pools :: pools
  ps_pgs :: "nat list"
  ps_kpg :: "nat \<Rightarrow> psys_pg"
  ps_bufs :: buf_state
  ps_mem :: "ptr \<Rightarrow> pg_image"
  ps_freq :: psys_freq
  ps_pm :: int
  ps_port :: psys_port
  ps_wakeup :: nat
  ps_calls :: nat
  ps_fault :: bool

record psys_env =
  en_search :: "nat set \<Rightarrow> nat \<Rightarrow> nat \<Rightarrow> nat \<Rightarrow> nat"
  en_defs :: resource_definitions
  en_early_pg_transfer :: bool
  en_enable_concurrency :: bool
  en_flr_done :: bool
  en_jiffies :: "nat \<Rightarrow> u64"
  en_timeout :: u64
  en_pm_get :: "nat \<Rightarrow> psys_port \<Rightarrow> unit result \<times> psys_port"
  en_timer_running :: "nat \<Rightarrow> nat \<Rightarrow> bool"

section \<open>Steps on the state\<close>

definition upd_kcmd :: "nat \<Rightarrow> (kcmd \<Rightarrow> kcmd) \<Rightarrow> psys \<Rightarrow> psys" where
  "upd_kcmd k g s = s\<lparr>ps_kcmd := (ps_kcmd s)(k := g (ps_kcmd s k))\<rparr>"

definition set_state :: "nat \<Rightarrow> kcmd_state \<Rightarrow> psys \<Rightarrow> psys" where
  "set_state k st = upd_kcmd k (\<lambda>c. c\<lparr>km_state := st\<rparr>)"

definition kpg_of :: "psys \<Rightarrow> nat \<Rightarrow> psys_pg" where
  "kpg_of s k = ps_kpg s (km_kpg (ps_kcmd s k))"

definition upd_kpg :: "nat \<Rightarrow> (psys_pg \<Rightarrow> psys_pg) \<Rightarrow> psys \<Rightarrow> psys" where
  "upd_kpg k g s = (let i = km_kpg (ps_kcmd s k) in s\<lparr>ps_kpg := (ps_kpg s)(i := g (ps_kpg s i))\<rparr>)"

text \<open>The view the firmware port has of a command, and writing it back.\<close>

definition fw_view :: "psys \<Rightarrow> nat \<Rightarrow> psys_kcmd" where
  "fw_view s k = \<lparr>kc_pg = im_pg (kp_image (kpg_of s k)), kc_pg_user = km_pg_user (ps_kcmd s k)\<rparr>"

definition put_fw_view :: "nat \<Rightarrow> psys_kcmd \<Rightarrow> psys \<Rightarrow> psys" where
  "put_fw_view k v s =
     upd_kcmd k (\<lambda>c. c\<lparr>km_pg_user := kc_pg_user v\<rparr>)
       (upd_kpg k (\<lambda>p. p\<lparr>kp_image := (kp_image p)\<lparr>im_pg := kc_pg v\<rparr>\<rparr>) s)"

text \<open>Resources of a command: given back to, taken from, or moved between the pools.\<close>

definition free_kcmd_resources :: "nat \<Rightarrow> nat \<Rightarrow> psys \<Rightarrow> psys" where
  "free_kcmd_resources k pool s =
     (case ipu_psys_free_resources (kp_alloc (kpg_of s k)) pool (ps_pools s) of
        (al, ps) \<Rightarrow> upd_kpg k (\<lambda>p. p\<lparr>kp_alloc := al\<rparr>) (s\<lparr>ps_pools := ps\<rparr>))"

definition allocate_kcmd_resources :: "psys_env \<Rightarrow> nat \<Rightarrow> nat \<Rightarrow> psys \<Rightarrow> unit result \<times> psys" where
  "allocate_kcmd_resources e k pool s =
     (case ipu_psys_allocate_resources (en_search e) (en_defs e) (im_group (kp_image (kpg_of s k)))
             (km_manifest (ps_kcmd s k)) (kp_alloc (kpg_of s k)) pool (ps_pools s) of
        (ret, st) \<Rightarrow>
          (ret, upd_kpg k (\<lambda>p. p\<lparr>kp_alloc := as_alloc st,
                                 kp_image := (kp_image p)\<lparr>im_group := as_group st\<rparr>\<rparr>)
                  (s\<lparr>ps_pools := as_pools st\<rparr>)))"

definition move_kcmd_resources :: "nat \<Rightarrow> psys \<Rightarrow> unit result \<times> psys" where
  "move_kcmd_resources k s =
     (case ipu_psys_move_resources (kp_alloc (kpg_of s k)) STARTED_POOL RUNNING_POOL (ps_pools s) of
        (ret, al, ps) \<Rightarrow> (ret, upd_kpg k (\<lambda>p. p\<lparr>kp_alloc := al\<rparr>) (s\<lparr>ps_pools := ps\<rparr>)))"

definition arm_watchdog :: "psys_env \<Rightarrow> nat \<Rightarrow> psys \<Rightarrow> psys" where
  "arm_watchdog e k s =
     (upd_kcmd k (\<lambda>c. c\<lparr>km_watchdog := Some (en_jiffies e (ps_calls s) + en_timeout e)\<rparr>) s)
       \<lparr>ps_calls := Suc (ps_calls s)\<rparr>"

section \<open>Copying a command from the client\<close>

definition get_pg_buf :: "(nat \<times> u64) option \<Rightarrow> u64 \<Rightarrow> psys \<Rightarrow> nat option \<times> psys" where
  "get_pg_buf fresh pg_size s =
     (case List.find (\<lambda>i. kp_pg_size (ps_kpg s i) = 0 \<and> kp_size (ps_kpg s i) \<ge> pg_size) (ps_pgs s) of
        Some i \<Rightarrow> (Some i, s\<lparr>ps_kpg := (ps_kpg s)(i := (ps_kpg s i)\<lparr>kp_pg_size := pg_size\<rparr>)\<rparr>)
      | None \<Rightarrow>
          (case fresh of
             None \<Rightarrow> (None, s)
           | Some (i, addr) \<Rightarrow>
               (Some i, s\<lparr>ps_pgs := i # ps_pgs s,
                  ps_kpg := (ps_kpg s)(i := (ps_kpg s i)\<lparr>kp_pg_size := pg_size, kp_size := pg_size,
                     kp_dma_addr := addr, kp_alloc := \<lparr>al_cells = 0,
                       al_resource_alloc = al_resource_alloc (kp_alloc (ps_kpg s i)), al_resources = 0\<rparr>\<rparr>)\<rparr>)))"

definition list_del_kcmd :: "nat \<Rightarrow> psys \<Rightarrow> psys" where
  "list_del_kcmd k s =
     (let f = km_fh (ps_kcmd s k); p = unat (km_priority (ps_kcmd s k)) in
      s\<lparr>ps_queue := (ps_queue s)(f := (ps_queue s f)(p := remove1 k (ps_queue s f p)))\<rparr>)"

text \<open>
  \<^verbatim>\<open>ipu_psys_kcmd_free\<close>; \<open>has_kpg\<close> is whether the command got its buffer.  The node in the
  list of started commands is left alone, as in the code.
\<close>

definition ipu_psys_kcmd_free :: "bool \<Rightarrow> nat \<Rightarrow> psys \<Rightarrow> psys" where
  "ipu_psys_kcmd_free has_kpg k s =
     (let s = list_del_kcmd k s;
          s = (if has_kpg then upd_kpg k (\<lambda>p. p\<lparr>kp_pg_size := 0\<rparr>) s else s)
      in s\<lparr>ps_live := ps_live s - {k}, ps_fault := (ps_fault s \<or> k \<notin> ps_live s)\<rparr>)"

record psys_command =
  uc_issue_id :: u64
  uc_user_token :: u64
  uc_priority :: u32
  uc_pg :: int
  uc_pg_manifest_size :: u32
  uc_bufcount :: u32
  uc_min_psys_freq :: u32

text \<open>The allocations and user copies of one \<^verbatim>\<open>QCMD\<close>: \<open>None\<close> and \<open>False\<close> are failures.\<close>

record qcmd_env =
  qe_max_cache_size :: u32
  qe_kcmd :: "nat option"
  qe_kpg :: "(nat \<times> u64) option"
  qe_manifest :: "program_manifest list option"
  qe_arrays :: bool
  qe_buffers :: "psys_buffer list option"

definition new_kcmd :: "nat \<Rightarrow> kcmd" where
  "new_kcmd f = \<lparr>km_fh = f, km_state = KCMD_STATE_NEW, km_manifest = [], km_kbufs = [], km_buffers = [],
     km_nbuffers = 0, km_pg_user = NULL, km_kpg = 0, km_user_token = 0, km_issue_id = 0, km_priority = 0,
     km_min_freq = 0, km_ev = \<lparr>ue_type = 0, ue_user_token = 0, ue_issue_id = 0, ue_error = None\<rparr>,
     km_watchdog = None\<rparr>"

text \<open>
  The loop over the terminals; every index has a terminal.  Its only other effect, the
  cache synchronisation of the buffer, is outside the model.
\<close>

fun lookup_kbufs :: "nat \<Rightarrow> psys_buffer list \<Rightarrow> buf_state \<Rightarrow> nat list option" where
  "lookup_kbufs f [] bs = Some []"
| "lookup_kbufs f (b # rest) bs =
     (case ipu_psys_lookup_kbuffer f (ub_fd b) bs of
        None \<Rightarrow> None
      | Some kb \<Rightarrow>
          if kb_sgt (bs_kbuf bs kb) = KNull \<or> kb_len (bs_kbuf bs kb) < ucast (ub_bytes_used b) then None
          else map_option (\<lambda>r. kb # r) (lookup_kbufs f rest bs))"

text \<open>
  The first half of \<^verbatim>\<open>ipu_psys_copy_cmd\<close>: the client's process group is copied into a buffer of
  the driver.  The second half: the arguments.  \<open>False\<close> is the jump to the error label.
\<close>

definition copy_process_group :: "qcmd_env \<Rightarrow> psys_command \<Rightarrow> nat \<Rightarrow> nat \<Rightarrow> psys \<Rightarrow> bool \<times> psys" where
  "copy_process_group q cmd f k s =
     (case ipu_psys_lookup_kbuffer f (uc_pg cmd) (ps_bufs s) of
        None \<Rightarrow> (False, s)
      | Some kb \<Rightarrow>
          if kb_sgt (bs_kbuf (ps_bufs s) kb) = KNull then (False, s)
          else
            let s = upd_kcmd k (\<lambda>c. c\<lparr>km_pg_user := kb_kaddr (bs_kbuf (ps_bufs s) kb)\<rparr>) s in
            case get_pg_buf (qe_kpg q) (kb_len (bs_kbuf (ps_bufs s) kb)) s of
              (None, s) \<Rightarrow> (False, s)
            | (Some i, s) \<Rightarrow>
                let s = upd_kcmd k (\<lambda>c. c\<lparr>km_kpg := i\<rparr>) s
                in (True, upd_kpg k (\<lambda>p. p\<lparr>kp_image := ps_mem s (km_pg_user (ps_kcmd s k))\<rparr>) s))"

definition copy_arguments :: "qcmd_env \<Rightarrow> psys_command \<Rightarrow> nat \<Rightarrow> nat \<Rightarrow> psys \<Rightarrow> bool \<times> psys" where
  "copy_arguments q cmd f k s =
     (case qe_manifest q of
        None \<Rightarrow> (False, s)
      | Some pm \<Rightarrow>
          let s = upd_kcmd k (\<lambda>c. c\<lparr>km_manifest := pm, km_user_token := uc_user_token cmd,
                km_issue_id := uc_issue_id cmd, km_priority := uc_priority cmd\<rparr>) s
          in if unat (uc_priority cmd) \<ge> IPU_PSYS_CMD_PRIORITY_NUM then (False, s)
             else
               let n = unat (pgr_terminal_count (im_pg (kp_image (kpg_of s k))));
                   s = upd_kcmd k (\<lambda>c. c\<lparr>km_nbuffers := n\<rparr>) s
               in if \<not> qe_arrays q \<or> uc_bufcount cmd = 0 \<or> n > unat (uc_bufcount cmd) then (False, s)
                  else case qe_buffers q of
                    None \<Rightarrow> (False, s)
                  | Some bufs \<Rightarrow>
                      let s = upd_kcmd k (\<lambda>c. c\<lparr>km_buffers := take n bufs\<rparr>) s in
                      case lookup_kbufs f (take n bufs) (ps_bufs s) of
                        None \<Rightarrow> (False, s)
                      | Some kbs \<Rightarrow> (True, upd_kcmd k (\<lambda>c. c\<lparr>km_kbufs := kbs\<rparr>) s))"

definition ipu_psys_copy_cmd :: "qcmd_env \<Rightarrow> psys_command \<Rightarrow> nat \<Rightarrow> psys \<Rightarrow> nat option \<times> psys" where
  "ipu_psys_copy_cmd q cmd f s =
     (if uc_bufcount cmd > IPU_MAX_PSYS_CMD_BUFFERS then (None, s)
      else if uc_pg_manifest_size cmd = 0 \<or> uc_pg_manifest_size cmd > qe_max_cache_size q then (None, s)
      else case qe_kcmd q of
        None \<Rightarrow> (None, s)
      | Some k \<Rightarrow>
          let s = s\<lparr>ps_kcmd := (ps_kcmd s)(k := new_kcmd f), ps_live := insert k (ps_live s)\<rparr> in
          case copy_process_group q cmd f k s of
            (False, s) \<Rightarrow> (None, ipu_psys_kcmd_free False k s)
          | (True, s) \<Rightarrow>
              (case copy_arguments q cmd f k s of
                 (False, s) \<Rightarrow> (None, ipu_psys_kcmd_free True k s)
               | (True, s) \<Rightarrow> (Some k, s)))"

section \<open>Completing, running and aborting\<close>

definition write_back :: "nat \<Rightarrow> psys \<Rightarrow> psys" where
  "write_back k s =
     s\<lparr>ps_mem := (ps_mem s)(km_pg_user (ps_kcmd s k) := kp_image (kpg_of s k))\<rparr>"

text \<open>
  The second half of \<^verbatim>\<open>ipu_psys_kcmd_complete\<close>: the event, the frequency constraint, the copy
  back to the client's buffer (unless it went into it at start) and the power reference.
\<close>

definition finish_complete :: "psys_env \<Rightarrow> nat \<Rightarrow> errno option \<Rightarrow> psys \<Rightarrow> psys" where
  "finish_complete e k err s =
     (let c = ps_kcmd s k;
          s = upd_kcmd k (\<lambda>c. c\<lparr>km_ev := \<lparr>ue_type = IPU_PSYS_EVENT_TYPE_CMD_COMPLETE,
                ue_user_token = km_user_token c, ue_issue_id = km_issue_id c, ue_error = err\<rparr>\<rparr>) s;
          s = (if km_min_freq c \<noteq> 0
               then case ipu_buttress_remove_psys_constraint k (km_min_freq c) (ps_freq s) of
                      Some fr \<Rightarrow> s\<lparr>ps_freq := fr\<rparr>
                    | None \<Rightarrow> s\<lparr>ps_fault := True\<rparr>
               else s);
          s = (if \<not> en_early_pg_transfer e \<and> km_pg_user c \<noteq> NULL then
                 case ipu_psys_lookup_kbuffer_by_kaddr (km_fh c) (km_pg_user c) (ps_bufs s) of
                   Some kb \<Rightarrow> if kb_valid (bs_kbuf (ps_bufs s) kb) then write_back k s else s
                 | None \<Rightarrow> s
               else s);
          s = (if km_state c = KCMD_STATE_RUNNING \<or> km_state c = KCMD_STATE_STARTED
               then s\<lparr>ps_pm := ps_pm s - 1\<rparr> else s)
      in set_state k KCMD_STATE_COMPLETE s)"

definition list_del_started :: "nat \<Rightarrow> psys \<Rightarrow> psys" where
  "list_del_started k s =
     s\<lparr>ps_started_list := remove1 k (ps_started_list s),
       ps_fault := (ps_fault s \<or> k \<notin> set (ps_started_list s))\<rparr>"

text \<open>The first half, by the state of the command; \<open>run\<close> starts a waiting command.\<close>

definition leave_running :: "(psys \<Rightarrow> psys option) \<Rightarrow> nat \<Rightarrow> psys \<Rightarrow> psys option" where
  "leave_running run k s = do {
     let s = free_kcmd_resources k RUNNING_POOL s;
     s \<leftarrow> (if ps_started s \<noteq> 0 then run s else Some s);
     Some (if km_state (ps_kcmd s k) = KCMD_STATE_RUNNING then s\<lparr>ps_active := ps_active s - 1\<rparr> else s)
   }"

definition leave_state :: "(psys \<Rightarrow> psys option) \<Rightarrow> nat \<Rightarrow> psys \<Rightarrow> psys option" where
  "leave_state run k s =
     (case km_state (ps_kcmd s k) of
        KCMD_STATE_RUNNING \<Rightarrow> leave_running run k (upd_kcmd k (\<lambda>c. c\<lparr>km_watchdog := None\<rparr>) s)
      | KCMD_STATE_RUN_PREPARED \<Rightarrow> leave_running run k s
      | KCMD_STATE_STARTED \<Rightarrow>
          Some (free_kcmd_resources k STARTED_POOL (list_del_started k (s\<lparr>ps_started := ps_started s - 1\<rparr>)))
      | KCMD_STATE_START_PREPARED \<Rightarrow> Some (free_kcmd_resources k STARTED_POOL s)
      | _ \<Rightarrow> Some s)"

definition kcmd_complete_body ::
  "(psys \<Rightarrow> psys option) \<Rightarrow> psys_env \<Rightarrow> nat \<Rightarrow> errno option \<Rightarrow> psys \<Rightarrow> psys option" where
  "kcmd_complete_body run e k err s =
     (if km_state (ps_kcmd s k) = KCMD_STATE_RUNNING \<and> en_timer_running e (ps_calls s) k
      then Some (s\<lparr>ps_calls := Suc (ps_calls s)\<rparr>)
      else map_option (finish_complete e k err) (leave_state run k s))"

text \<open>\<^verbatim>\<open>ipu_psys_kcmd_abort\<close> and \<^verbatim>\<open>ipu_psys_kcmd_run\<close>, over the completion they call.\<close>

definition kcmd_abort_body ::
  "(nat \<Rightarrow> errno option \<Rightarrow> psys \<Rightarrow> psys option) \<Rightarrow> nat \<Rightarrow> psys \<Rightarrow> (errno option \<times> psys) option" where
  "kcmd_abort_body complete k s =
     (if km_state (ps_kcmd s k) = KCMD_STATE_COMPLETE then Some (None, s)
      else
        let (ret, s) =
          (if km_state (ps_kcmd s k) = KCMD_STATE_RUNNING \<or> km_state (ps_kcmd s k) = KCMD_STATE_STARTED
           then case ipu_fw_psys_pg_abort (fw_view s k) (ps_port s) of
                  (Inr _, v, p) \<Rightarrow> (None, put_fw_view k v (s\<lparr>ps_port := p\<rparr>))
                | (Inl err, v, p) \<Rightarrow> (Some err, put_fw_view k v (s\<lparr>ps_port := p\<rparr>))
           else (None, s))
        in map_option (\<lambda>s. (ret, s)) (complete k ret s))"

definition kcmd_run_body ::
  "(nat \<Rightarrow> errno option \<Rightarrow> psys \<Rightarrow> psys option) \<Rightarrow> psys_env \<Rightarrow> psys \<Rightarrow> psys option" where
  "kcmd_run_body complete e s =
     (case ps_started_list s of
        [] \<Rightarrow> Some (s\<lparr>ps_fault := True\<rparr>)
      | k # _ \<Rightarrow>
          (case move_kcmd_resources k s of
             (Inr _, s) \<Rightarrow>
               Some (arm_watchdog e k (list_del_started k (set_state k KCMD_STATE_RUNNING
                 (s\<lparr>ps_started := ps_started s - 1, ps_active := ps_active s + 1\<rparr>))))
           | (Inl err, s) \<Rightarrow>
               if err \<noteq> ENOSPC \<or> ps_active s = 0
               then map_option snd (kcmd_abort_body complete k s)
               else Some s))"

fun ipu_psys_kcmd_complete ::
  "nat \<Rightarrow> psys_env \<Rightarrow> nat \<Rightarrow> errno option \<Rightarrow> psys \<Rightarrow> psys option" where
  "ipu_psys_kcmd_complete 0 e k err s = None"
| "ipu_psys_kcmd_complete (Suc n) e k err s =
     kcmd_complete_body (kcmd_run_body (ipu_psys_kcmd_complete n e) e) e k err s"

definition ipu_psys_kcmd_run :: "nat \<Rightarrow> psys_env \<Rightarrow> psys \<Rightarrow> psys option" where
  "ipu_psys_kcmd_run n e = kcmd_run_body (ipu_psys_kcmd_complete n e) e"

definition ipu_psys_kcmd_abort :: "nat \<Rightarrow> psys_env \<Rightarrow> nat \<Rightarrow> psys \<Rightarrow> (errno option \<times> psys) option" where
  "ipu_psys_kcmd_abort n e = kcmd_abort_body (ipu_psys_kcmd_complete n e)"

section \<open>Starting and queueing\<close>

text \<open>
  What happens to a command whose firmware start has been sent: it runs, with the watchdog,
  or waits in the started list; any other state is refused.
\<close>

definition enter_state :: "psys_env \<Rightarrow> nat \<Rightarrow> psys \<Rightarrow> unit result \<times> psys" where
  "enter_state e k s =
     (case km_state (ps_kcmd s k) of
        KCMD_STATE_RUN_PREPARED \<Rightarrow>
          (Inr (), arm_watchdog e k (set_state k KCMD_STATE_RUNNING s\<lparr>ps_active := ps_active s + 1\<rparr>))
      | KCMD_STATE_START_PREPARED \<Rightarrow>
          (Inr (), set_state k KCMD_STATE_STARTED s
             \<lparr>ps_started := ps_started s + 1, ps_started_list := ps_started_list s @ [k]\<rparr>)
      | _ \<Rightarrow> (Inl EINVAL, s))"

text \<open>The firmware part: \<^verbatim>\<open>pg_start\<close> (never an error), then \<^verbatim>\<open>pg_disown\<close>.\<close>

definition fw_start :: "nat \<Rightarrow> psys \<Rightarrow> unit result \<times> psys" where
  "fw_start k s =
     (let s = put_fw_view k (ipu_fw_psys_pg_start (fw_view s k)) s in
      case ipu_fw_psys_pg_disown (fw_view s k) (ps_port s) of
        (ret, v, p) \<Rightarrow> (ret, put_fw_view k v (s\<lparr>ps_port := p\<rparr>)))"

definition ipu_psys_kcmd_start :: "nat \<Rightarrow> psys_env \<Rightarrow> nat \<Rightarrow> psys \<Rightarrow> (unit result \<times> psys) option" where
  "ipu_psys_kcmd_start n e k s =
     (if en_flr_done e then map_option (\<lambda>s. (Inl EIO, s)) (ipu_psys_kcmd_complete n e k (Some EIO) s)
      else
        case en_pm_get e (ps_calls s) (ps_port s) of
          (Inl err, p) \<Rightarrow> do {
            let s = s\<lparr>ps_calls := Suc (ps_calls s), ps_pm := ps_pm s + 1, ps_port := p\<rparr>;
            s \<leftarrow> ipu_psys_kcmd_complete n e k (Some EIO) s;
            Some (Inl err, s\<lparr>ps_pm := ps_pm s - 1\<rparr>) }
        | (Inr _, p) \<Rightarrow>
            let s = s\<lparr>ps_calls := Suc (ps_calls s), ps_pm := ps_pm s + 1, ps_port := p\<rparr>;
                s = (if en_early_pg_transfer e \<and> km_pg_user (ps_kcmd s k) \<noteq> NULL then write_back k s else s);
                (ret, s) = (case fw_start k s of
                              (Inl err, s) \<Rightarrow> (Inl err, s)
                            | (Inr _, s) \<Rightarrow> enter_state e k s)
            in case ret of
                 Inr _ \<Rightarrow> Some (Inr (), s)
               | Inl err \<Rightarrow> map_option (\<lambda>s. (Inl err, s)) (ipu_psys_kcmd_complete n e k (Some EIO) s))"

text \<open>
  A command that cannot be allocated for good: completed with the error, and a pw
  reference is dropped although none was taken.
\<close>

definition queue_failed :: "nat \<Rightarrow> psys_env \<Rightarrow> nat \<Rightarrow> errno \<Rightarrow> psys \<Rightarrow> (unit result \<times> psys) option" where
  "queue_failed n e k err s =
     map_option (\<lambda>s. (Inl EINVAL, s\<lparr>ps_pm := ps_pm s - 1\<rparr>)) (ipu_psys_kcmd_complete n e k (Some err) s)"

definition queue_started :: "nat \<Rightarrow> psys_env \<Rightarrow> nat \<Rightarrow> psys \<Rightarrow> (unit result \<times> psys) option" where
  "queue_started n e k s =
     (case allocate_kcmd_resources e k STARTED_POOL s of
        (Inr _, s) \<Rightarrow> ipu_psys_kcmd_start n e k (set_state k KCMD_STATE_START_PREPARED s)
      | (Inl err, s) \<Rightarrow>
          if err \<noteq> ENOSPC \<or> ps_started s = 0 then queue_failed n e k err s else Some (Inl err, s))"

definition ipu_psys_kcmd_queue :: "nat \<Rightarrow> psys_env \<Rightarrow> nat \<Rightarrow> psys \<Rightarrow> (unit result \<times> psys) option" where
  "ipu_psys_kcmd_queue n e k s =
     (if km_state (ps_kcmd s k) \<noteq> KCMD_STATE_NEW then Some (Inl EINVAL, s)
      else if ps_started s = 0 then
        case allocate_kcmd_resources e k RUNNING_POOL s of
          (Inr _, s) \<Rightarrow> ipu_psys_kcmd_start n e k (set_state k KCMD_STATE_RUN_PREPARED s)
        | (Inl err, s) \<Rightarrow>
            if err \<noteq> ENOSPC \<or> ps_active s = 0 then queue_failed n e k err s
            else queue_started n e k s
      else queue_started n e k s)"

section \<open>The scheduler\<close>

text \<open>The next new command after \<open>k\<close> in its queue.\<close>

definition next_new :: "psys \<Rightarrow> nat \<Rightarrow> nat list \<Rightarrow> nat option" where
  "next_new s k q = List.find (\<lambda>x. km_state (ps_kcmd s x) = KCMD_STATE_NEW) (tl (dropWhile (\<lambda>x. x \<noteq> k) q))"

definition set_tail :: "nat \<Rightarrow> nat \<Rightarrow> nat option \<Rightarrow> psys \<Rightarrow> psys" where
  "set_tail f p k s = s\<lparr>ps_new_tail := (ps_new_tail s)(f := (ps_new_tail s f)(p := k))\<rparr>"

definition list_move_tail :: "nat \<Rightarrow> psys \<Rightarrow> psys" where
  "list_move_tail f s = s\<lparr>ps_fhs := remove1 f (ps_fhs s) @ [f]\<rparr>"

datatype fh_turn = Stop | Skip | Removed

text \<open>One handle in a pass of \<^verbatim>\<open>ipu_psys_run_next\<close>.\<close>

definition run_fh :: "nat \<Rightarrow> psys_env \<Rightarrow> nat \<Rightarrow> nat \<Rightarrow> psys \<Rightarrow> (fh_turn \<times> psys) option" where
  "run_fh n e p f s =
     (if \<not> en_enable_concurrency e \<and> ps_active s > 0 then Some (Stop, s)
      else case ps_new_tail s f p of
        None \<Rightarrow> Some (Skip, s)
      | Some k \<Rightarrow> do {
          (ret, s) \<leftarrow> ipu_psys_kcmd_queue n e k s;
          if ret = Inl ENOSPC then Some (Skip, s)
          else Some (Removed, list_move_tail f (set_tail f p (next_new s k (ps_queue s f p)) s)) })"

text \<open>
  A pass visits the handles in the order the list had when it began: the next one is taken
  before a handle is moved behind the last, where the pass ends.
\<close>

fun run_pass :: "nat \<Rightarrow> psys_env \<Rightarrow> nat \<Rightarrow> nat list \<Rightarrow> psys \<Rightarrow> (fh_turn \<times> psys) option" where
  "run_pass n e p [] s = Some (Skip, s)"
| "run_pass n e p (f # fs) s = do {
     (turn, s) \<leftarrow> run_fh n e p f s;
     if turn = Stop then Some (Stop, s)
     else do {
       (turn', s) \<leftarrow> run_pass n e p fs s;
       Some (if turn' = Skip then turn else turn', s) } }"

text \<open>Passes until one removes nothing, and the priorities in order; \<open>True\<close> is a stop.\<close>

fun run_priority :: "nat \<Rightarrow> nat \<Rightarrow> psys_env \<Rightarrow> nat \<Rightarrow> psys \<Rightarrow> (bool \<times> psys) option" where
  "run_priority 0 n e p s = None"
| "run_priority (Suc m) n e p s = do {
     (turn, s) \<leftarrow> run_pass n e p (ps_fhs s) s;
     case turn of
       Stop \<Rightarrow> Some (True, s)
     | Removed \<Rightarrow> run_priority m n e p s
     | Skip \<Rightarrow> Some (False, s) }"

fun run_priorities :: "nat \<Rightarrow> nat \<Rightarrow> psys_env \<Rightarrow> nat list \<Rightarrow> psys \<Rightarrow> psys option" where
  "run_priorities m n e [] s = Some s"
| "run_priorities m n e (p # ps) s = do {
     (stop, s) \<leftarrow> run_priority m n e p s;
     if stop then Some s else run_priorities m n e ps s }"

definition ipu_psys_run_next :: "nat \<Rightarrow> nat \<Rightarrow> psys_env \<Rightarrow> psys \<Rightarrow> psys option" where
  "ipu_psys_run_next m n e s =
     (if ps_fhs s = [] then Some s
      else run_priorities m n e [0..<IPU_PSYS_CMD_PRIORITY_NUM] s)"

text \<open>One round of the scheduler thread: \<open>None\<close> in the flag is the end of the thread.\<close>

definition ipu_psys_sched_cmd :: "nat \<Rightarrow> nat \<Rightarrow> psys_env \<Rightarrow> bool \<Rightarrow> psys \<Rightarrow> (bool \<times> psys) option" where
  "ipu_psys_sched_cmd m n e should_stop s =
     (if should_stop then Some (False, s)
      else if ps_wakeup s = 0 then Some (True, s)
      else map_option (\<lambda>s. (True, s)) (ipu_psys_run_next m n e (s\<lparr>ps_wakeup := 0\<rparr>)))"

definition kick_scheduler :: "psys \<Rightarrow> psys" where
  "kick_scheduler s = s\<lparr>ps_wakeup := 1\<rparr>"

section \<open>Reset and watchdog\<close>

fun complete_all :: "nat \<Rightarrow> psys_env \<Rightarrow> errno option \<Rightarrow> nat list \<Rightarrow> psys \<Rightarrow> psys option" where
  "complete_all n e err [] s = Some s"
| "complete_all n e err (k # ks) s = do {
     s \<leftarrow> (if km_state (ps_kcmd s k) = KCMD_STATE_COMPLETE then Some s
           else ipu_psys_kcmd_complete n e k err s);
     complete_all n e err ks s }"

fun flush_queues :: "nat \<Rightarrow> psys_env \<Rightarrow> errno option \<Rightarrow> nat \<Rightarrow> nat list \<Rightarrow> psys \<Rightarrow> psys option" where
  "flush_queues n e err f [] s = Some s"
| "flush_queues n e err f (p # ps) s = do {
     let s = set_tail f p None s;
     s \<leftarrow> complete_all n e err (ps_queue s f p) s;
     flush_queues n e err f ps s }"

fun flush_fhs :: "nat \<Rightarrow> psys_env \<Rightarrow> errno option \<Rightarrow> nat list \<Rightarrow> psys \<Rightarrow> psys option" where
  "flush_fhs n e err [] s = Some s"
| "flush_fhs n e err (f # fs) s = do {
     s \<leftarrow> flush_queues n e err f [0..<IPU_PSYS_CMD_PRIORITY_NUM] s;
     flush_fhs n e err fs s }"

definition ipu_psys_flush_kcmds :: "nat \<Rightarrow> psys_env \<Rightarrow> errno option \<Rightarrow> psys \<Rightarrow> psys option" where
  "ipu_psys_flush_kcmds n e err s = flush_fhs n e err (ps_fhs s) s"

text \<open>\<open>pw\<close> is whether the power reference on the IOMMU could be taken.\<close>

definition ipu_psys_reset :: "nat \<Rightarrow> nat \<Rightarrow> psys_env \<Rightarrow> bool \<Rightarrow> psys \<Rightarrow> psys option" where
  "ipu_psys_reset m n e pw s =
     (if \<not> pw then Some s
      else do {
        s \<leftarrow> ipu_psys_flush_kcmds n e (Some EIO) s;
        ipu_psys_run_next m n e s })"

text \<open>
  The watchdog's walk over one queue stops at the first new command; \<open>True\<close> is an abort that
  the firmware refused.
\<close>

fun watch_queue ::
  "nat \<Rightarrow> psys_env \<Rightarrow> nat option \<Rightarrow> nat list \<Rightarrow> psys \<Rightarrow> (bool \<times> psys) option" where
  "watch_queue n e tail [] s = Some (False, s)"
| "watch_queue n e tail (k # ks) s =
     (if tail = Some k then Some (False, s)
      else if km_state (ps_kcmd s k) \<noteq> KCMD_STATE_RUNNING then watch_queue n e tail ks s
      else if km_watchdog (ps_kcmd s k) \<noteq> None then watch_queue n e tail ks s
      else do {
        (r, s) \<leftarrow> ipu_psys_kcmd_abort n e k s;
        if r \<noteq> None then Some (True, s) else watch_queue n e tail ks s })"

fun watch_queues :: "nat \<Rightarrow> psys_env \<Rightarrow> (nat \<times> nat) list \<Rightarrow> psys \<Rightarrow> (bool \<times> psys) option" where
  "watch_queues n e [] s = Some (False, s)"
| "watch_queues n e ((f, p) # rest) s = do {
     (failed, s) \<leftarrow> watch_queue n e (ps_new_tail s f p) (ps_queue s f p) s;
     if failed then Some (True, s) else watch_queues n e rest s }"

definition queue_walk :: "psys \<Rightarrow> (nat \<times> nat) list" where
  "queue_walk s = List.product (ps_fhs s) [0..<IPU_PSYS_CMD_PRIORITY_NUM]"

definition ipu_psys_watchdog_work :: "nat \<Rightarrow> nat \<Rightarrow> psys_env \<Rightarrow> bool \<Rightarrow> psys \<Rightarrow> psys option" where
  "ipu_psys_watchdog_work m n e pw s = do {
     (failed, s) \<leftarrow> watch_queues n e (queue_walk s) s;
     if failed then ipu_psys_reset m n e pw s else Some (kick_scheduler s) }"

text \<open>The timer handler: the timer is no longer pending, and the work is queued.\<close>

definition ipu_psys_watchdog :: "nat \<Rightarrow> psys \<Rightarrow> psys" where
  "ipu_psys_watchdog k = upd_kcmd k (\<lambda>c. c\<lparr>km_watchdog := None\<rparr>)"

section \<open>Queueing a new command\<close>

text \<open>The loop of \<^verbatim>\<open>ipu_psys_config_legacy_pg\<close> over the terminals.\<close>

fun set_terminals :: "nat \<Rightarrow> nat list \<Rightarrow> psys \<Rightarrow> unit result \<times> psys" where
  "set_terminals k [] s = (Inr (), s)"
| "set_terminals k (i # is) s =
     (let kb = bs_kbuf (ps_bufs s) (km_kbufs (ps_kcmd s k) ! i);
          buffer = ucast (kb_dma_addr kb) + ub_data_offset (km_buffers (ps_kcmd s k) ! i);
          img = kp_image (kpg_of s k)
      in case ipu_fw_psys_terminal_set (im_terminals img i) (of_nat i) (fw_view s k) buffer
                (ucast (kb_len kb)) of
           (Inl EAGAIN, _) \<Rightarrow> set_terminals k is s
         | (Inl err, t) \<Rightarrow> (Inl err, s)
         | (Inr _, t) \<Rightarrow> set_terminals k is
             (upd_kpg k (\<lambda>p. p\<lparr>kp_image := (kp_image p)\<lparr>im_terminals := (im_terminals (kp_image p))(i := t)\<rparr>\<rparr>) s))"

definition ipu_psys_config_legacy_pg :: "nat \<Rightarrow> psys \<Rightarrow> unit result \<times> psys" where
  "ipu_psys_config_legacy_pg k s =
     (let s = put_fw_view k (ipu_fw_psys_pg_set_ipu_vaddress (fw_view s k) (kp_dma_addr (kpg_of s k))) s in
      case set_terminals k [0..<km_nbuffers (ps_kcmd s k)] s of
        (Inl err, s) \<Rightarrow> (Inl err, s)
      | (Inr _, s) \<Rightarrow>
          let s = put_fw_view k (ipu_fw_psys_pg_set_token (fw_view s k) (of_nat k)) s;
              s = put_fw_view k (ipu_fw_psys_pg_submit (fw_view s k)) s
          in (Inr (), s))"

text \<open>The size field is an \<^verbatim>\<open>int\<close> on its way to the comparison, and sign-extended.\<close>

definition ipu_psys_kcmd_new :: "psys_env \<Rightarrow> qcmd_env \<Rightarrow> psys_command \<Rightarrow> nat \<Rightarrow> psys \<Rightarrow> unit result \<times> psys" where
  "ipu_psys_kcmd_new e q cmd f s =
     (if en_flr_done e then (Inl EIO, s)
      else case ipu_psys_copy_cmd q cmd f s of
        (None, s) \<Rightarrow> (Inl EINVAL, s)
      | (Some k, s) \<Rightarrow>
          let s = (if uc_min_psys_freq cmd \<noteq> 0
                   then (upd_kcmd k (\<lambda>c. c\<lparr>km_min_freq := uc_min_psys_freq cmd\<rparr>) s)
                          \<lparr>ps_freq := ipu_buttress_add_psys_constraint k (uc_min_psys_freq cmd) (ps_freq s)\<rparr>
                   else s);
              pg_size = scast (pgr_size (im_pg (kp_image (kpg_of s k)))) :: u64
          in if pg_size > kp_pg_size (kpg_of s k) then (Inl EINVAL, ipu_psys_kcmd_free True k s)
             else case ipu_psys_config_legacy_pg k s of
               (Inl err, s) \<Rightarrow> (Inl err, ipu_psys_kcmd_free True k s)
             | (Inr _, s) \<Rightarrow>
                 let p = unat (uc_priority cmd);
                     s = s\<lparr>ps_queue := (ps_queue s)(f := (ps_queue s f)(p := ps_queue s f p @ [k]))\<rparr>
                 in (Inr (), if ps_new_tail s f p = None \<and> km_state (ps_kcmd s k) = KCMD_STATE_NEW
                             then kick_scheduler (set_tail f p (Some k) s) else s))"

section \<open>Firmware events\<close>

definition ipu_psys_kcmd_is_valid :: "psys \<Rightarrow> nat \<Rightarrow> bool" where
  "ipu_psys_kcmd_is_valid s k \<longleftrightarrow> (\<exists>f \<in> set (ps_fhs s). \<exists>p \<in> {..<IPU_PSYS_CMD_PRIORITY_NUM}. k \<in> set (ps_queue s f p))"

text \<open>\<^verbatim>\<open>IS_ERR_OR_NULL\<close> on the token read as a pointer.\<close>

definition token_error :: "u64 \<Rightarrow> bool" where
  "token_error t \<longleftrightarrow> t = 0 \<or> t \<ge> - 4095"

definition handle_event :: "nat \<Rightarrow> psys_env \<Rightarrow> psys_event \<Rightarrow> psys \<Rightarrow> psys option" where
  "handle_event n e ev s =
     (let k = unat (pe_token ev) in
      map_option kick_scheduler
        (if ipu_psys_kcmd_is_valid s k
         then ipu_psys_kcmd_complete n e k
                (if pe_status ev = IPU_FW_PSYS_EVENT_TYPE_SUCCESS then None else Some EIO) s
         else Some s))"

fun ipu_psys_handle_events :: "nat \<Rightarrow> nat \<Rightarrow> nat \<Rightarrow> psys_env \<Rightarrow> bool \<Rightarrow> psys \<Rightarrow> psys option" where
  "ipu_psys_handle_events 0 m n e pw s = None"
| "ipu_psys_handle_events (Suc j) m n e pw s =
     (case ipu_fw_psys_rcv_event (ps_port s) of
        (None, p) \<Rightarrow> Some (s\<lparr>ps_port := p\<rparr>)
      | (Some ev, p) \<Rightarrow>
          let s = s\<lparr>ps_port := p\<rparr> in
          if token_error (pe_token ev) then do {
            s \<leftarrow> ipu_psys_reset m n e pw (s\<lparr>ps_pm := ps_pm s - 1\<rparr>);
            Some (s\<lparr>ps_pm := ps_pm s + 1\<rparr>) }
          else do {
            s \<leftarrow> handle_event n e ev s;
            ipu_psys_handle_events j m n e pw s })"

section \<open>Handles\<close>

definition ipu_psys_fh_init :: "nat \<Rightarrow> psys \<Rightarrow> psys" where
  "ipu_psys_fh_init f s =
     s\<lparr>ps_queue := (ps_queue s)(f := (\<lambda>_. [])),
       ps_new_tail := (ps_new_tail s)(f := (\<lambda>_. None))\<rparr>"

text \<open>
  \<^verbatim>\<open>ipu_psys_open\<close>: \<open>auth\<close> is what the authentication of the firmware returns, the handle is the
  zeroed allocation; its buffer list is empty.
\<close>

definition ipu_psys_open :: "psys_env \<Rightarrow> unit result \<Rightarrow> nat option \<Rightarrow> psys \<Rightarrow> unit result \<times> psys" where
  "ipu_psys_open e auth fh s =
     (if en_flr_done e then (Inl EIO, s)
      else case auth of
        Inl err \<Rightarrow> (Inl err, s)
      | Inr _ \<Rightarrow>
          (case fh of
             None \<Rightarrow> (Inl ENOMEM, s)
           | Some f \<Rightarrow>
               let s = s\<lparr>ps_bufs := (ps_bufs s)\<lparr>bs_bufmap := (bs_bufmap (ps_bufs s))(f := [])\<rparr>\<rparr>;
                   s = ipu_psys_fh_init f s
               in (Inr (), s\<lparr>ps_fhs := ps_fhs s @ [f]\<rparr>)))"

fun abort_and_free :: "nat \<Rightarrow> psys_env \<Rightarrow> nat list \<Rightarrow> psys \<Rightarrow> psys option" where
  "abort_and_free n e [] s = Some s"
| "abort_and_free n e (k # ks) s = do {
     (_, s) \<leftarrow> ipu_psys_kcmd_abort n e k s;
     abort_and_free n e ks (ipu_psys_kcmd_free True k s) }"

fun deinit_queues :: "nat \<Rightarrow> psys_env \<Rightarrow> nat \<Rightarrow> nat list \<Rightarrow> psys \<Rightarrow> psys option" where
  "deinit_queues n e f [] s = Some s"
| "deinit_queues n e f (p # ps) s = do {
     s \<leftarrow> abort_and_free n e (ps_queue s f p) s;
     deinit_queues n e f ps s }"

definition forget_users :: "nat list \<Rightarrow> psys \<Rightarrow> psys" where
  "forget_users ks s = fold (\<lambda>k. upd_kcmd k (\<lambda>c. c\<lparr>km_pg_user := NULL\<rparr>)) ks s"

definition ipu_psys_fh_deinit :: "nat \<Rightarrow> psys_env \<Rightarrow> nat \<Rightarrow> psys \<Rightarrow> psys option" where
  "ipu_psys_fh_deinit n e f s =
     (let ps = [0..<IPU_PSYS_CMD_PRIORITY_NUM];
          s = forget_users (concat (map (ps_queue s f) ps)) s;
          s = s\<lparr>ps_new_tail := (ps_new_tail s)(f := (\<lambda>_. None))\<rparr>
      in deinit_queues n e f ps s)"

definition ipu_psys_release :: "nat \<Rightarrow> psys_env \<Rightarrow> nat \<Rightarrow> psys \<Rightarrow> psys option" where
  "ipu_psys_release n e f s =
     (let s = s\<lparr>ps_bufs := release_buffers f (ps_bufs s)\<rparr>;
          s = s\<lparr>ps_fhs := remove1 f (ps_fhs s)\<rparr>
      in ipu_psys_fh_deinit n e f s)"

section \<open>Events to the client\<close>

definition ipu_get_completed_kcmd :: "nat \<Rightarrow> psys \<Rightarrow> nat option" where
  "ipu_get_completed_kcmd f s =
     (case List.find (\<lambda>p. case ps_queue s f p of [] \<Rightarrow> False
                          | k # _ \<Rightarrow> km_state (ps_kcmd s k) = KCMD_STATE_COMPLETE)
             [0..<IPU_PSYS_CMD_PRIORITY_NUM] of
        None \<Rightarrow> None
      | Some p \<Rightarrow> Some (hd (ps_queue s f p)))"

datatype dqevent_result = Dq_event psys_user_event | Dq_nodata | Dq_waits | Dq_restart

text \<open>
  A waiting caller finds its command with the mutex held, lets it go, and takes the command
  when it has the mutex again, without looking at the queues a second time; the definition
  after is a caller that is not overtaken in between.
\<close>

definition dqevent_take :: "nat \<Rightarrow> psys \<Rightarrow> psys_user_event \<times> psys" where
  "dqevent_take k s = (km_ev (ps_kcmd s k), ipu_psys_kcmd_free True k s)"

definition ipu_ioctl_dqevent :: "bool \<Rightarrow> bool \<Rightarrow> nat \<Rightarrow> psys \<Rightarrow> dqevent_result \<times> psys" where
  "ipu_ioctl_dqevent nonblock signal f s =
     (case ipu_get_completed_kcmd f s of
        Some k \<Rightarrow> (Dq_event (km_ev (ps_kcmd s k)), ipu_psys_kcmd_free True k s)
      | None \<Rightarrow> (if nonblock then Dq_nodata else if signal then Dq_restart else Dq_waits, s))"

definition ipu_psys_poll :: "nat \<Rightarrow> psys \<Rightarrow> bool" where
  "ipu_psys_poll f s = (ipu_get_completed_kcmd f s \<noteq> None)"

section \<open>The interrupt thread\<close>

text \<open>
  \<open>status\<close> is what the interrupt status register held, \<open>fwirq\<close> the bit of the firmware's event
  interrupt; the result is whether the interrupt was handled.
\<close>

definition psys_isr_threaded ::
  "nat \<Rightarrow> nat \<Rightarrow> nat \<Rightarrow> psys_env \<Rightarrow> bool \<Rightarrow> bool \<Rightarrow> u32 \<Rightarrow> u32 \<Rightarrow> psys \<Rightarrow> (bool \<times> psys) option" where
  "psys_isr_threaded j m n e powered pw status fwirq s =
     (if \<not> powered then Some (False, s)
      else
        let (ret, p) = en_pm_get e (ps_calls s) (ps_port s);
            s = s\<lparr>ps_calls := Suc (ps_calls s), ps_pm := ps_pm s + 1, ps_port := p\<rparr>
        in case ret of
             Inl _ \<Rightarrow> Some (False, s\<lparr>ps_pm := ps_pm s - 1\<rparr>)
           | Inr _ \<Rightarrow> do {
               s \<leftarrow> (if status AND fwirq \<noteq> 0 then ipu_psys_handle_events j m n e pw s else Some s);
               Some (status \<noteq> 0, s\<lparr>ps_pm := ps_pm s - 1\<rparr>) })"

end
