(* ===== verification/PsysSched.thy ===== *)
theory PsysSched
  imports PsysKcmd
begin

text \<open>
  The scheduler of \<^verbatim>\<open>PsysKcmd\<close>: the steps it takes and what they keep.  \<open>eq_sched\<close> is two states
  that the scheduler cannot tell apart, \<open>core D\<close> the invariant of lists, counters and
  states but for the commands \<open>D\<close> in the hands of an operation, \<open>advanced\<close> and \<open>untouched\<close> what
  an operation on one command leaves of the others.  Completing a command with fuel 1 always
  returns (the command it may start is not completed in turn); a scheduling run returns with
  one round more than there are commands.
\<close>


section \<open>What the scheduler proofs look at\<close>

text \<open>
  The part of a command and of the state the scheduler's invariants speak about.  Resources,
  buffers, memory, the port, power counts and the clock are changed freely by steps that are
  \<open>eq_sched\<close>.
\<close>

definition kcore :: "kcmd \<Rightarrow> nat \<times> kcmd_state \<times> u32 \<times> u32 \<times> u64 \<times> u64 \<times> psys_user_event \<times> u64 option" where
  "kcore c = (km_fh c, km_state c, km_priority c, km_min_freq c, km_user_token c, km_issue_id c,
     km_ev c, km_watchdog c)"

definition eq_sched :: "psys \<Rightarrow> psys \<Rightarrow> bool" where
  "eq_sched s s' \<longleftrightarrow> ps_fhs s' = ps_fhs s \<and> ps_queue s' = ps_queue s \<and> ps_new_tail s' = ps_new_tail s \<and>
     ps_live s' = ps_live s \<and> ps_started_list s' = ps_started_list s \<and> ps_started s' = ps_started s \<and>
     ps_active s' = ps_active s \<and> ps_fault s' = ps_fault s \<and>
     pf_constraints (ps_freq s') = pf_constraints (ps_freq s) \<and>
     (\<forall>k. kcore (ps_kcmd s' k) = kcore (ps_kcmd s k))"

lemma eq_sched_refl [simp]: "eq_sched s s"
  by (simp add: eq_sched_def)

lemma eq_sched_trans [trans]: "eq_sched s s' \<Longrightarrow> eq_sched s' s'' \<Longrightarrow> eq_sched s s''"
  by (simp add: eq_sched_def)

lemma eq_schedD:
  assumes "eq_sched s s'"
  shows "ps_fhs s' = ps_fhs s" "ps_queue s' = ps_queue s" "ps_new_tail s' = ps_new_tail s"
    "ps_live s' = ps_live s" "ps_started_list s' = ps_started_list s" "ps_started s' = ps_started s"
    "ps_active s' = ps_active s" "ps_fault s' = ps_fault s"
    "pf_constraints (ps_freq s') = pf_constraints (ps_freq s)"
    "km_fh (ps_kcmd s' k) = km_fh (ps_kcmd s k)" "km_state (ps_kcmd s' k) = km_state (ps_kcmd s k)"
    "km_priority (ps_kcmd s' k) = km_priority (ps_kcmd s k)"
    "km_min_freq (ps_kcmd s' k) = km_min_freq (ps_kcmd s k)"
    "km_user_token (ps_kcmd s' k) = km_user_token (ps_kcmd s k)"
    "km_issue_id (ps_kcmd s' k) = km_issue_id (ps_kcmd s k)"
    "km_ev (ps_kcmd s' k) = km_ev (ps_kcmd s k)"
    "km_watchdog (ps_kcmd s' k) = km_watchdog (ps_kcmd s k)"
  using assms by (simp_all add: eq_sched_def kcore_def)

named_theorems same_step "steps that leave the scheduler's view alone"

lemma same_upd_kcmd: "(\<And>c. kcore (g c) = kcore c) \<Longrightarrow> eq_sched s (upd_kcmd k g s)"
  by (simp add: eq_sched_def upd_kcmd_def)

lemma same_upd_kpg [same_step]: "eq_sched s (upd_kpg k g s)"
  by (simp add: eq_sched_def upd_kpg_def Let_def)

lemma same_put_fw_view [same_step]: "eq_sched s (put_fw_view k v s)"
proof -
  have "eq_sched (upd_kpg k g s) (put_fw_view k v s)"
    if "g = (\<lambda>p. p\<lparr>kp_image := (kp_image p)\<lparr>im_pg := kc_pg v\<rparr>\<rparr>)" for g
    unfolding put_fw_view_def that by (rule same_upd_kcmd) (simp add: kcore_def)
  then show ?thesis using same_upd_kpg eq_sched_trans by blast
qed

lemma same_env [same_step]:
  "eq_sched s (s\<lparr>ps_pools := x1\<rparr>)" "eq_sched s (s\<lparr>ps_port := x2\<rparr>)" "eq_sched s (s\<lparr>ps_mem := x3\<rparr>)"
  "eq_sched s (s\<lparr>ps_pm := x4\<rparr>)" "eq_sched s (s\<lparr>ps_calls := x5\<rparr>)" "eq_sched s (s\<lparr>ps_bufs := x6\<rparr>)"
  "eq_sched s (s\<lparr>ps_pgs := x7\<rparr>)" "eq_sched s (s\<lparr>ps_kpg := x8\<rparr>)" "eq_sched s (s\<lparr>ps_wakeup := x9\<rparr>)"
  by (simp_all add: eq_sched_def)

lemma same_put_fw_view' [same_step]: "eq_sched s (put_fw_view k v (s\<lparr>ps_port := p\<rparr>))"
  using eq_sched_trans [OF same_env(2) same_put_fw_view] .

lemma same_free [same_step]: "eq_sched s (free_kcmd_resources k pool s)"
  by (auto simp: free_kcmd_resources_def split: prod.splits
      intro: eq_sched_trans [OF same_env(1) same_upd_kpg])

lemma same_allocate: "allocate_kcmd_resources e k pool s = (r, s') \<Longrightarrow> eq_sched s s'"
  by (auto simp: allocate_kcmd_resources_def split: prod.splits
      intro: eq_sched_trans [OF same_env(1) same_upd_kpg])

lemma same_move: "move_kcmd_resources k s = (r, s') \<Longrightarrow> eq_sched s s'"
  by (auto simp: move_kcmd_resources_def split: prod.splits
      intro: eq_sched_trans [OF same_env(1) same_upd_kpg])

lemma same_write_back [same_step]: "eq_sched s (write_back k s)"
  unfolding write_back_def by (rule same_env)

lemma same_fw_start: "fw_start k s = (r, s') \<Longrightarrow> eq_sched s s'"
  by (auto simp: fw_start_def Let_def split: prod.splits
      intro: eq_sched_trans [OF same_put_fw_view same_put_fw_view'])

lemma move_only_enospc: "move_kcmd_resources k s = (Inl err, s') \<Longrightarrow> err = ENOSPC"
  by (auto simp: move_kcmd_resources_def ipu_psys_move_resources_def Let_def
      split: prod.splits if_splits)

section \<open>The invariant\<close>

definition prepared :: "kcmd_state \<Rightarrow> bool" where
  "prepared st \<longleftrightarrow> st = KCMD_STATE_RUN_PREPARED \<or> st = KCMD_STATE_START_PREPARED"

abbreviation kstate :: "psys \<Rightarrow> nat \<Rightarrow> kcmd_state" where
  "kstate s k \<equiv> km_state (ps_kcmd s k)"

definition queue_of :: "psys \<Rightarrow> nat \<Rightarrow> nat list" where
  "queue_of s k = ps_queue s (km_fh (ps_kcmd s k)) (unat (km_priority (ps_kcmd s k)))"

definition holding :: "kcmd_state \<Rightarrow> nat set \<Rightarrow> psys \<Rightarrow> nat set" where
  "holding st D s = {x \<in> ps_live s - D. kstate s x = st}"

text \<open>
  Every command that exists is in exactly the queue of its handle and priority and nothing
  else is queued; the list of started commands holds the commands in that state, and the two
  counters count the started and the running ones; no command is left half-way into the
  hardware; a frequency constraint is held by every command that has one and is not
  complete.  The commands in \<open>D\<close> are in the hands of an operation and not counted.
\<close>

definition queued_ok :: "psys \<Rightarrow> bool" where
  "queued_ok s \<longleftrightarrow>
     (\<forall>f p k. k \<in> set (ps_queue s f p) \<longrightarrow>
        k \<in> ps_live s \<and> km_fh (ps_kcmd s k) = f \<and> unat (km_priority (ps_kcmd s k)) = p) \<and>
     (\<forall>f p. distinct (ps_queue s f p))"

definition core :: "nat set \<Rightarrow> psys \<Rightarrow> bool" where
  "core D s \<longleftrightarrow> finite (ps_live s) \<and> queued_ok s \<and>
     distinct (ps_started_list s) \<and> set (ps_started_list s) = holding KCMD_STATE_STARTED D s \<and>
     ps_started s = int (length (ps_started_list s)) \<and>
     ps_active s = int (card (holding KCMD_STATE_RUNNING D s)) \<and>
     (\<forall>x \<in> ps_live s - D. \<not> prepared (kstate s x)) \<and>
     (\<forall>x \<in> ps_live s. kstate s x \<noteq> KCMD_STATE_COMPLETE \<longrightarrow> km_min_freq (ps_kcmd s x) \<noteq> 0 \<longrightarrow>
        x \<in> fst ` set (pf_constraints (ps_freq s))) \<and>
     \<not> ps_fault s"

lemma coreD:
  assumes "core D s"
  shows "finite (ps_live s)" "queued_ok s" "distinct (ps_started_list s)"
    "set (ps_started_list s) = holding KCMD_STATE_STARTED D s"
    "ps_started s = int (length (ps_started_list s))"
    "ps_active s = int (card (holding KCMD_STATE_RUNNING D s))"
    "x \<in> ps_live s \<Longrightarrow> x \<notin> D \<Longrightarrow> \<not> prepared (kstate s x)"
    "x \<in> ps_live s \<Longrightarrow> kstate s x \<noteq> KCMD_STATE_COMPLETE \<Longrightarrow> km_min_freq (ps_kcmd s x) \<noteq> 0 \<Longrightarrow>
       x \<in> fst ` set (pf_constraints (ps_freq s))"
    "\<not> ps_fault s"
  using assms by (auto simp: core_def)

lemma coreI:
  assumes "finite (ps_live s)" "queued_ok s" "distinct (ps_started_list s)"
    "set (ps_started_list s) = holding KCMD_STATE_STARTED D s"
    "ps_started s = int (length (ps_started_list s))"
    "ps_active s = int (card (holding KCMD_STATE_RUNNING D s))"
    "\<And>x. x \<in> ps_live s \<Longrightarrow> x \<notin> D \<Longrightarrow> \<not> prepared (kstate s x)"
    "\<And>x. x \<in> ps_live s \<Longrightarrow> kstate s x \<noteq> KCMD_STATE_COMPLETE \<Longrightarrow> km_min_freq (ps_kcmd s x) \<noteq> 0 \<Longrightarrow>
       x \<in> fst ` set (pf_constraints (ps_freq s))"
    "\<not> ps_fault s"
  shows "core D s"
  using assms by (simp add: core_def)

lemma queued_ok_same: "eq_sched s s' \<Longrightarrow> queued_ok s' = queued_ok s"
  by (simp add: queued_ok_def eq_schedD)

lemma core_same: "eq_sched s s' \<Longrightarrow> core D s' = core D s"
  by (simp add: core_def queued_ok_same holding_def eq_schedD)

lemma holding_upd_state:
  "holding st D (set_state k st' s) =
     (if k \<in> ps_live s - D then (if st = st' then insert k (holding st D s) else holding st D s - {k})
      else holding st D s)"
  by (auto simp: holding_def set_state_def upd_kcmd_def)

lemma holding_insert: "holding st (insert k D) s = holding st D s - {k}"
  by (auto simp: holding_def)

lemma finite_holding [simp]: "finite (ps_live s) \<Longrightarrow> finite (holding st D s)"
  by (simp add: holding_def)

lemma set_state_frame [simp]:
  "ps_fhs (set_state k st s) = ps_fhs s" "ps_queue (set_state k st s) = ps_queue s"
  "ps_new_tail (set_state k st s) = ps_new_tail s" "ps_live (set_state k st s) = ps_live s"
  "ps_started_list (set_state k st s) = ps_started_list s" "ps_started (set_state k st s) = ps_started s"
  "ps_active (set_state k st s) = ps_active s" "ps_fault (set_state k st s) = ps_fault s"
  "ps_freq (set_state k st s) = ps_freq s" "ps_calls (set_state k st s) = ps_calls s"
  "km_fh (ps_kcmd (set_state k st s) x) = km_fh (ps_kcmd s x)"
  "kstate (set_state k st s) x = (if x = k then st else kstate s x)"
  "km_priority (ps_kcmd (set_state k st s) x) = km_priority (ps_kcmd s x)"
  "km_min_freq (ps_kcmd (set_state k st s) x) = km_min_freq (ps_kcmd s x)"
  "km_user_token (ps_kcmd (set_state k st s) x) = km_user_token (ps_kcmd s x)"
  "km_issue_id (ps_kcmd (set_state k st s) x) = km_issue_id (ps_kcmd s x)"
  "km_ev (ps_kcmd (set_state k st s) x) = km_ev (ps_kcmd s x)"
  "km_watchdog (ps_kcmd (set_state k st s) x) = km_watchdog (ps_kcmd s x)"
  "ps_bufs (set_state k st s) = ps_bufs s" "ps_pm (set_state k st s) = ps_pm s"
  "ps_wakeup (set_state k st s) = ps_wakeup s"
  by (simp_all add: set_state_def upd_kcmd_def)

lemma queued_ok_set_state [simp]: "queued_ok (set_state k st s) = queued_ok s"
  by (simp add: queued_ok_def)

text \<open>Taking a command in hand, and giving it back in another state.\<close>

lemma core_detach:
  assumes "core {} s" "kstate s k \<notin> {KCMD_STATE_STARTED, KCMD_STATE_RUNNING}"
  shows "core {k} s"
proof -
  have "holding st {k} s = holding st {} s" if "st \<in> {KCMD_STATE_STARTED, KCMD_STATE_RUNNING}" for st
    using assms(2) that by (auto simp: holding_def)
  then show ?thesis using assms(1) by (simp add: core_def)
qed

lemma holding_cong:
  assumes "ps_live s' = ps_live s" "\<And>x. x \<in> ps_live s \<Longrightarrow> x \<notin> D \<Longrightarrow> kstate s' x = kstate s x"
  shows "holding st D s' = holding st D s"
  using assms by (auto simp: holding_def)

lemma core_set_prepared:
  assumes "core {k} s" "prepared st" "kstate s k \<noteq> KCMD_STATE_COMPLETE"
  shows "core {k} (set_state k st s)"
proof -
  have r: "holding st' {k} (set_state k st s) = holding st' {k} s" for st'
    by (rule holding_cong) simp_all
  show ?thesis
    using assms coreD(8) [OF assms(1)] coreD(7) [OF assms(1)]
    by (intro coreI) (simp_all add: r coreD [OF assms(1)] split: if_splits)
qed

lemma core_attach:
  assumes "core {k} s" "kstate s k \<notin> {KCMD_STATE_STARTED, KCMD_STATE_RUNNING}" "\<not> prepared (kstate s k)"
  shows "core {} s"
proof -
  have "holding st {k} s = holding st {} s" if "st \<in> {KCMD_STATE_STARTED, KCMD_STATE_RUNNING}" for st
    using assms(2) that by (auto simp: holding_def)
  then show ?thesis using assms(1,3) by (auto simp: core_def)
qed

lemma core_complete:
  assumes "core {k} s"
  shows "core {} (set_state k KCMD_STATE_COMPLETE s)"
proof -
  have "holding st {} (set_state k KCMD_STATE_COMPLETE s) = holding st {k} s"
    if "st \<in> {KCMD_STATE_STARTED, KCMD_STATE_RUNNING}" for st
    using that by (auto simp: holding_def)
  then show ?thesis
    using coreD(8) [OF assms] coreD(7) [OF assms]
    by (intro coreI) (auto simp: coreD(1-6,9) [OF assms] prepared_def split: if_splits)
qed

lemma core_run:
  assumes "core {k} s" "k \<in> ps_live s" "kstate s k \<noteq> KCMD_STATE_COMPLETE"
  shows "core {} (set_state k KCMD_STATE_RUNNING s\<lparr>ps_active := ps_active s + 1\<rparr>)" (is "core {} ?s")
proof -
  have r: "holding KCMD_STATE_RUNNING {} ?s = insert k (holding KCMD_STATE_RUNNING {k} s)"
    "k \<notin> holding KCMD_STATE_RUNNING {k} s"
    "holding KCMD_STATE_STARTED {} ?s = holding KCMD_STATE_STARTED {k} s"
    using assms(2) by (auto simp: holding_def)
  have q: "queued_ok ?s = queued_ok s" by (simp add: queued_ok_def)
  show ?thesis
    using coreD(8) [OF assms(1)] coreD(7) [OF assms(1)] assms(3)
    by (intro coreI, unfold r q) (auto simp: coreD(1-6,9) [OF assms(1)] r(2) prepared_def split: if_splits)
qed

lemma core_start:
  assumes "core {k} s" "k \<in> ps_live s" "kstate s k \<noteq> KCMD_STATE_COMPLETE"
  shows "core {} (set_state k KCMD_STATE_STARTED s
    \<lparr>ps_started := ps_started s + 1, ps_started_list := ps_started_list s @ [k]\<rparr>)" (is "core {} ?s")
proof -
  have r: "holding KCMD_STATE_STARTED {} ?s = insert k (holding KCMD_STATE_STARTED {k} s)"
    "k \<notin> holding KCMD_STATE_STARTED {k} s"
    "holding KCMD_STATE_RUNNING {} ?s = holding KCMD_STATE_RUNNING {k} s"
    using assms(2) by (auto simp: holding_def)
  have q: "queued_ok ?s = queued_ok s" by (simp add: queued_ok_def)
  show ?thesis
    using coreD(8) [OF assms(1)] coreD(7) [OF assms(1)] assms(3)
    by (intro coreI, unfold r q) (auto simp: coreD(1-6,9) [OF assms(1)] r(2) prepared_def split: if_splits)
qed

lemma core_unstart:
  assumes "core {} s" "kstate s k = KCMD_STATE_STARTED" "k \<in> ps_live s"
  shows "core {k} (list_del_started k (s\<lparr>ps_started := ps_started s - 1\<rparr>))" (is "core {k} ?s")
proof -
  have k: "k \<in> set (ps_started_list s)" using assms by (simp add: core_def holding_def)
  have r: "holding st {k} ?s = holding st {} s - {k}" for st
    by (auto simp: holding_def list_del_started_def)
  have run: "holding KCMD_STATE_RUNNING {} s - {k} = holding KCMD_STATE_RUNNING {} s"
    using assms(2) by (auto simp: holding_def)
  have q: "queued_ok ?s = queued_ok s" by (simp add: queued_ok_def list_del_started_def)
  have len: "int (length (ps_started_list s)) - 1 = int (length (ps_started_list s) - Suc 0)"
    using k by (cases "ps_started_list s") auto
  show ?thesis
    using coreD(8) [OF assms(1)] coreD(7) [OF assms(1)] k
    by (intro coreI, unfold r q run)
      (auto simp: coreD(1-6,9) [OF assms(1)] list_del_started_def length_remove1 len)
qed

lemma core_unrun:
  assumes "core {} s" "kstate s k = KCMD_STATE_RUNNING" "k \<in> ps_live s"
  shows "core {k} (s\<lparr>ps_active := ps_active s - 1\<rparr>)" (is "core {k} ?s")
proof -
  have r: "holding st {k} ?s = holding st {} s - {k}" for st by (auto simp: holding_def)
  have k: "k \<in> holding KCMD_STATE_RUNNING {} s" using assms(2,3) by (simp add: holding_def)
  have "finite (holding KCMD_STATE_RUNNING {} s)" using assms(1) by (simp add: core_def)
  then have "card (holding KCMD_STATE_RUNNING {} s) > 0" using k card_gt_0_iff by blast
  then have c: "int (card (holding KCMD_STATE_RUNNING {} s - {k})) = int (card (holding KCMD_STATE_RUNNING {} s)) - 1"
    using k by (simp add: card_Diff_singleton)
  have start: "holding KCMD_STATE_STARTED {} s - {k} = holding KCMD_STATE_STARTED {} s"
    using assms(2) by (auto simp: holding_def)
  have q: "queued_ok ?s = queued_ok s" by (simp add: queued_ok_def)
  show ?thesis
    using coreD(8) [OF assms(1)] coreD(7) [OF assms(1)]
    by (intro coreI, unfold r q start) (auto simp: coreD(1-6,9) [OF assms(1)] c)
qed

section \<open>Completion\<close>

text \<open>
  What an operation may do to commands other than the ones it works on: at most start a
  waiting one, with its watchdog armed.
\<close>

definition untouched :: "psys \<Rightarrow> psys \<Rightarrow> nat \<Rightarrow> bool" where
  "untouched s s' x \<longleftrightarrow> km_ev (ps_kcmd s' x) = km_ev (ps_kcmd s x) \<and>
     ((kstate s' x = kstate s x \<and> km_watchdog (ps_kcmd s' x) = km_watchdog (ps_kcmd s x)) \<or>
      (kstate s x = KCMD_STATE_STARTED \<and> kstate s' x = KCMD_STATE_RUNNING \<and>
       km_watchdog (ps_kcmd s' x) \<noteq> None))"

definition advanced :: "nat set \<Rightarrow> psys \<Rightarrow> psys \<Rightarrow> bool" where
  "advanced K s s' \<longleftrightarrow> ps_fhs s' = ps_fhs s \<and> ps_queue s' = ps_queue s \<and> ps_new_tail s' = ps_new_tail s \<and>
     ps_live s' = ps_live s \<and>
     (\<forall>x. km_fh (ps_kcmd s' x) = km_fh (ps_kcmd s x) \<and> km_priority (ps_kcmd s' x) = km_priority (ps_kcmd s x) \<and>
          km_min_freq (ps_kcmd s' x) = km_min_freq (ps_kcmd s x) \<and>
          km_user_token (ps_kcmd s' x) = km_user_token (ps_kcmd s x) \<and>
          km_issue_id (ps_kcmd s' x) = km_issue_id (ps_kcmd s x)) \<and>
     (\<forall>x. x \<notin> K \<longrightarrow> untouched s s' x)"

lemma untouched_refl [simp]: "untouched s s x"
  by (simp add: untouched_def)

lemma advanced_refl [simp]: "advanced K s s"
  by (simp add: advanced_def)

lemma untouched_trans: "untouched s s' x \<Longrightarrow> untouched s' s'' x \<Longrightarrow> untouched s s'' x"
  by (auto simp: untouched_def)

lemma advanced_trans [trans]: "advanced K s s' \<Longrightarrow> advanced K s' s'' \<Longrightarrow> advanced K s s''"
  by (auto simp: advanced_def intro: untouched_trans)

lemma advanced_same: "eq_sched s s' \<Longrightarrow> advanced K s s'"
  by (simp add: advanced_def untouched_def eq_schedD)

lemma advanced_mono: "advanced K s s' \<Longrightarrow> K \<subseteq> L \<Longrightarrow> advanced L s s'"
  by (auto simp: advanced_def)

lemma advancedD:
  assumes "advanced K s s'"
  shows "ps_fhs s' = ps_fhs s" "ps_queue s' = ps_queue s" "ps_new_tail s' = ps_new_tail s"
    "ps_live s' = ps_live s" "km_fh (ps_kcmd s' x) = km_fh (ps_kcmd s x)"
    "km_priority (ps_kcmd s' x) = km_priority (ps_kcmd s x)"
    "km_min_freq (ps_kcmd s' x) = km_min_freq (ps_kcmd s x)"
    "km_user_token (ps_kcmd s' x) = km_user_token (ps_kcmd s x)"
    "km_issue_id (ps_kcmd s' x) = km_issue_id (ps_kcmd s x)"
    "x \<notin> K \<Longrightarrow> untouched s s' x"
  using assms by (auto simp: advanced_def)

lemma advanced_set_state: "k \<in> K \<Longrightarrow> advanced K s (set_state k st s)"
  by (auto simp: advanced_def untouched_def)

lemma advanced_counters:
  "advanced K s (s\<lparr>ps_active := a\<rparr>)" "advanced K s (s\<lparr>ps_started := b\<rparr>)"
  "advanced K s (list_del_started k s)"
  by (auto simp: advanced_def untouched_def list_del_started_def)

lemma arm_watchdog_frame [simp]:
  "ps_fhs (arm_watchdog e k s) = ps_fhs s" "ps_queue (arm_watchdog e k s) = ps_queue s"
  "ps_new_tail (arm_watchdog e k s) = ps_new_tail s" "ps_live (arm_watchdog e k s) = ps_live s"
  "ps_started_list (arm_watchdog e k s) = ps_started_list s" "ps_started (arm_watchdog e k s) = ps_started s"
  "ps_active (arm_watchdog e k s) = ps_active s" "ps_fault (arm_watchdog e k s) = ps_fault s"
  "ps_freq (arm_watchdog e k s) = ps_freq s"
  "km_fh (ps_kcmd (arm_watchdog e k s) x) = km_fh (ps_kcmd s x)"
  "kstate (arm_watchdog e k s) x = kstate s x"
  "km_priority (ps_kcmd (arm_watchdog e k s) x) = km_priority (ps_kcmd s x)"
  "km_min_freq (ps_kcmd (arm_watchdog e k s) x) = km_min_freq (ps_kcmd s x)"
  "km_user_token (ps_kcmd (arm_watchdog e k s) x) = km_user_token (ps_kcmd s x)"
  "km_issue_id (ps_kcmd (arm_watchdog e k s) x) = km_issue_id (ps_kcmd s x)"
  "km_ev (ps_kcmd (arm_watchdog e k s) x) = km_ev (ps_kcmd s x)"
  "km_watchdog (ps_kcmd (arm_watchdog e k s) x) =
     (if x = k then Some (en_jiffies e (ps_calls s) + en_timeout e) else km_watchdog (ps_kcmd s x))"
  by (simp_all add: arm_watchdog_def upd_kcmd_def)

lemma core_watchdog:
  assumes "\<And>c. kcore (g c) = kcore (c\<lparr>km_watchdog := w c\<rparr>)"
  shows "core D (upd_kcmd k g s) = core D s"
proof -
  have f: "km_fh (g c) = km_fh c" "km_state (g c) = km_state c" "km_priority (g c) = km_priority c"
    "km_min_freq (g c) = km_min_freq c" for c
    using assms [of c] by (simp_all add: kcore_def)
  have "kstate (upd_kcmd k g s) x = kstate s x" for x by (simp add: upd_kcmd_def f)
  moreover have "km_fh (ps_kcmd (upd_kcmd k g s) x) = km_fh (ps_kcmd s x)" for x by (simp add: upd_kcmd_def f)
  moreover have "km_priority (ps_kcmd (upd_kcmd k g s) x) = km_priority (ps_kcmd s x)" for x
    by (simp add: upd_kcmd_def f)
  moreover have "km_min_freq (ps_kcmd (upd_kcmd k g s) x) = km_min_freq (ps_kcmd s x)" for x
    by (simp add: upd_kcmd_def f)
  moreover have "ps_live (upd_kcmd k g s) = ps_live s" "ps_queue (upd_kcmd k g s) = ps_queue s"
    "ps_started_list (upd_kcmd k g s) = ps_started_list s" "ps_started (upd_kcmd k g s) = ps_started s"
    "ps_active (upd_kcmd k g s) = ps_active s" "ps_freq (upd_kcmd k g s) = ps_freq s"
    "ps_fault (upd_kcmd k g s) = ps_fault s"
    by (simp_all add: upd_kcmd_def)
  ultimately show ?thesis by (simp add: core_def queued_ok_def holding_def)
qed

lemma core_calls [simp]: "core D (s\<lparr>ps_calls := c\<rparr>) = core D s"
  by (rule core_same) (rule same_env)

lemma core_arm_watchdog [simp]: "core D (arm_watchdog e k s) = core D s"
  unfolding arm_watchdog_def core_calls by (rule core_watchdog) simp

text \<open>The command at the head of the started list starts to run.\<close>

lemma core_promote:
  assumes "core {} s" "kstate s k = KCMD_STATE_STARTED" "k \<in> ps_live s"
  shows "core {} (list_del_started k (set_state k KCMD_STATE_RUNNING
    (s\<lparr>ps_started := ps_started s - 1, ps_active := ps_active s + 1\<rparr>)))"
proof -
  let ?s = "list_del_started k (s\<lparr>ps_started := ps_started s - 1\<rparr>)"
  have "core {} (set_state k KCMD_STATE_RUNNING ?s\<lparr>ps_active := ps_active ?s + 1\<rparr>)"
    using core_unstart [OF assms] assms(2,3) by (intro core_run) (simp_all add: list_del_started_def)
  moreover have "set_state k KCMD_STATE_RUNNING ?s\<lparr>ps_active := ps_active ?s + 1\<rparr> =
      list_del_started k (set_state k KCMD_STATE_RUNNING
        (s\<lparr>ps_started := ps_started s - 1, ps_active := ps_active s + 1\<rparr>))"
    by (simp add: list_del_started_def set_state_def upd_kcmd_def)
  ultimately show ?thesis by simp
qed

lemma kcmd_run_spec:
  assumes "core {} s" "ps_started s \<noteq> 0" "ps_active s > 0"
  shows "\<exists>s'. kcmd_run_body complete e s = Some s' \<and> core {} s' \<and> advanced {} s s'"
proof -
  obtain k ks where l: "ps_started_list s = k # ks"
    using assms(2) coreD(5) [OF assms(1)] by (cases "ps_started_list s") auto
  then have k: "kstate s k = KCMD_STATE_STARTED" "k \<in> ps_live s"
    using coreD(4) [OF assms(1)] by (auto simp: holding_def)
  obtain r s1 where m: "move_kcmd_resources k s = (r, s1)" by (cases "move_kcmd_resources k s")
  have eq_sched: "eq_sched s s1" by (rule same_move [OF m])
  have c1: "core {} s1" using core_same [OF eq_sched] assms(1) by simp
  show ?thesis
  proof (cases r)
    case (Inl err)
    then have "err = ENOSPC" using m by (auto intro: move_only_enospc)
    then have "kcmd_run_body complete e s = Some s1"
      using assms(3) Inl by (simp add: kcmd_run_body_def l m eq_schedD [OF eq_sched])
    then show ?thesis using c1 advanced_same [OF eq_sched] by auto
  next
    case (Inr u)
    let ?t = "list_del_started k (set_state k KCMD_STATE_RUNNING
      (s1\<lparr>ps_started := ps_started s1 - 1, ps_active := ps_active s1 + 1\<rparr>))"
    have "kcmd_run_body complete e s = Some (arm_watchdog e k ?t)"
      using Inr by (simp add: kcmd_run_body_def l m)
    moreover have "core {} (arm_watchdog e k ?t)"
      using core_promote [OF c1] k by (simp add: eq_schedD [OF eq_sched])
    moreover have "advanced {} s1 (arm_watchdog e k ?t)"
      using k by (auto simp: advanced_def untouched_def list_del_started_def eq_schedD [OF eq_sched])
    ultimately show ?thesis using advanced_trans [OF advanced_same [OF eq_sched]] by blast
  qed
qed

lemma core_free [simp]: "core D (free_kcmd_resources k pool s) = core D s"
  by (rule core_same [OF same_free])

lemma advanced_free: "advanced K s (free_kcmd_resources k pool s)"
  by (rule advanced_same [OF same_free])

lemma leave_state_idle:
  assumes "core {k} s" "k \<in> ps_live s"
    "kstate s k \<in> {KCMD_STATE_NEW, KCMD_STATE_START_PREPARED, KCMD_STATE_RUN_PREPARED}"
    "kstate s k = KCMD_STATE_RUN_PREPARED \<Longrightarrow> ps_started s = 0"
  shows "\<exists>s'. leave_state run k s = Some s' \<and> eq_sched s s'"
proof -
  have z: "ps_started (free_kcmd_resources k pool s) = ps_started s"
    "kstate (free_kcmd_resources k pool s) k = kstate s k" for pool
    using eq_schedD [OF same_free] by auto
  show ?thesis
    using assms(3,4) same_free [of s]
    by (auto simp: leave_state_def leave_running_def Let_def z split: kcmd_state.splits)
qed

lemma leave_state_started:
  assumes "core {} s" "k \<in> ps_live s" "kstate s k = KCMD_STATE_STARTED"
  shows "\<exists>s'. leave_state run k s = Some s' \<and> core {k} s' \<and> advanced {k} s s' \<and>
    kstate s' k = KCMD_STATE_STARTED"
proof -
  let ?s = "list_del_started k (s\<lparr>ps_started := ps_started s - 1\<rparr>)"
  let ?t = "free_kcmd_resources k STARTED_POOL ?s"
  have "leave_state run k s = Some ?t" using assms(3) by (simp add: leave_state_def)
  moreover have "core {k} ?t" using core_unstart [OF assms(1,3,2)] by simp
  moreover have "advanced {k} s ?s" by (rule advanced_trans [OF advanced_counters(2) advanced_counters(3)])
  moreover have "kstate ?t k = KCMD_STATE_STARTED"
    using eq_schedD(11) [OF same_free] assms(3) by (simp add: list_del_started_def)
  ultimately show ?thesis using advanced_trans [OF _ advanced_free] by blast
qed

lemma leave_state_running:
  assumes "core {} s" "k \<in> ps_live s" "kstate s k = KCMD_STATE_RUNNING"
  shows "\<exists>s'. leave_state (kcmd_run_body complete e) k s = Some s' \<and> core {k} s' \<and> advanced {k} s s' \<and>
    kstate s' k = KCMD_STATE_RUNNING"
proof -
  let ?w = "upd_kcmd k (\<lambda>c. c\<lparr>km_watchdog := None\<rparr>) s"
  let ?s = "free_kcmd_resources k RUNNING_POOL ?w"
  have cw: "core {} ?w" using core_watchdog [of "\<lambda>c. c\<lparr>km_watchdog := None\<rparr>" "\<lambda>_. None"] assms(1) by simp
  have aw: "advanced {k} s ?w" by (auto simp: advanced_def untouched_def upd_kcmd_def)
  have cs: "core {} ?s" using cw by simp
  have as: "advanced {k} s ?s" by (rule advanced_trans [OF aw advanced_free])
  have kw: "kstate ?w k = KCMD_STATE_RUNNING" "ps_live ?w = ps_live s"
    using assms(3) by (simp_all add: upd_kcmd_def)
  have ks: "kstate ?s k = KCMD_STATE_RUNNING" "ps_live ?s = ps_live s"
    using eq_schedD(4,11) [OF same_free] kw by simp_all
  have "k \<in> holding KCMD_STATE_RUNNING {} ?s" using ks assms(2) by (simp add: holding_def)
  then have act: "ps_active ?s > 0"
    using coreD(6) [OF cs] finite_holding [OF coreD(1) [OF cs]] card_gt_0_iff by fastforce
  obtain s1 where s1: "(if ps_started ?s \<noteq> 0 then kcmd_run_body complete e ?s else Some ?s) = Some s1"
      "core {} s1" "advanced {} ?s s1"
    using kcmd_run_spec [OF cs _ act, of complete e] cs by (cases "ps_started ?s = 0") auto
  have k1: "kstate s1 k = KCMD_STATE_RUNNING"
    using advancedD(10) [OF s1(3), of k] ks by (auto simp: untouched_def)
  have l1: "k \<in> ps_live s1" using advancedD(4) [OF s1(3)] ks assms(2) by simp
  have "leave_state (kcmd_run_body complete e) k s = Some (s1\<lparr>ps_active := ps_active s1 - 1\<rparr>)"
    using assms(3) s1(1) k1 by (simp add: leave_state_def leave_running_def Let_def)
  moreover have "core {k} (s1\<lparr>ps_active := ps_active s1 - 1\<rparr>)" by (rule core_unrun [OF s1(2) k1 l1])
  moreover have "advanced {k} s (s1\<lparr>ps_active := ps_active s1 - 1\<rparr>)"
    using advanced_trans [OF as advanced_trans [OF advanced_mono [OF s1(3)] advanced_counters(1)]] by simp
  ultimately show ?thesis using k1 by auto
qed

definition completed_with :: "psys \<Rightarrow> nat \<Rightarrow> errno option \<Rightarrow> bool" where
  "completed_with s k err \<longleftrightarrow> kstate s k = KCMD_STATE_COMPLETE \<and>
     km_ev (ps_kcmd s k) = \<lparr>ue_type = IPU_PSYS_EVENT_TYPE_CMD_COMPLETE,
       ue_user_token = km_user_token (ps_kcmd s k), ue_issue_id = km_issue_id (ps_kcmd s k), ue_error = err\<rparr>"

text \<open>The steps of the second half, one by one.\<close>

definition set_event :: "nat \<Rightarrow> errno option \<Rightarrow> psys \<Rightarrow> psys" where
  "set_event k err = upd_kcmd k (\<lambda>c. c\<lparr>km_ev := \<lparr>ue_type = IPU_PSYS_EVENT_TYPE_CMD_COMPLETE,
     ue_user_token = km_user_token c, ue_issue_id = km_issue_id c, ue_error = err\<rparr>\<rparr>)"

definition drop_constraint :: "nat \<Rightarrow> psys \<Rightarrow> psys" where
  "drop_constraint k s =
     (if km_min_freq (ps_kcmd s k) \<noteq> 0
      then case ipu_buttress_remove_psys_constraint k (km_min_freq (ps_kcmd s k)) (ps_freq s) of
             Some fr \<Rightarrow> s\<lparr>ps_freq := fr\<rparr>
           | None \<Rightarrow> s\<lparr>ps_fault := True\<rparr>
      else s)"

lemma set_event_frame [simp]:
  "ps_fhs (set_event k err s) = ps_fhs s" "ps_queue (set_event k err s) = ps_queue s"
  "ps_new_tail (set_event k err s) = ps_new_tail s" "ps_live (set_event k err s) = ps_live s"
  "ps_started_list (set_event k err s) = ps_started_list s" "ps_started (set_event k err s) = ps_started s"
  "ps_active (set_event k err s) = ps_active s" "ps_fault (set_event k err s) = ps_fault s"
  "ps_freq (set_event k err s) = ps_freq s"
  "km_fh (ps_kcmd (set_event k err s) x) = km_fh (ps_kcmd s x)"
  "kstate (set_event k err s) x = kstate s x"
  "km_priority (ps_kcmd (set_event k err s) x) = km_priority (ps_kcmd s x)"
  "km_min_freq (ps_kcmd (set_event k err s) x) = km_min_freq (ps_kcmd s x)"
  "km_user_token (ps_kcmd (set_event k err s) x) = km_user_token (ps_kcmd s x)"
  "km_issue_id (ps_kcmd (set_event k err s) x) = km_issue_id (ps_kcmd s x)"
  "km_watchdog (ps_kcmd (set_event k err s) x) = km_watchdog (ps_kcmd s x)"
  "x \<noteq> k \<Longrightarrow> km_ev (ps_kcmd (set_event k err s) x) = km_ev (ps_kcmd s x)"
  "km_ev (ps_kcmd (set_event k err s) k) = \<lparr>ue_type = IPU_PSYS_EVENT_TYPE_CMD_COMPLETE,
     ue_user_token = km_user_token (ps_kcmd s k), ue_issue_id = km_issue_id (ps_kcmd s k), ue_error = err\<rparr>"
  by (simp_all add: set_event_def upd_kcmd_def)

lemma set_event_core [simp]: "core D (set_event k err s) = core D s"
  by (simp add: core_def queued_ok_def holding_def)

lemma remove_constraint_frame:
  assumes "k \<in> fst ` set (pf_constraints fr)"
  shows "\<exists>fr'. ipu_buttress_remove_psys_constraint k f fr = Some fr' \<and>
    pf_constraints fr' = filter (\<lambda>c. fst c \<noteq> k) (pf_constraints fr)"
  using assms by (simp add: ipu_buttress_remove_psys_constraint_def Let_def)

lemma drop_constraint_ok:
  assumes "core {k} s" "k \<in> ps_live s" "kstate s k \<noteq> KCMD_STATE_COMPLETE"
  obtains fr where "drop_constraint k s = s\<lparr>ps_freq := fr\<rparr>"
    "fst ` set (pf_constraints fr) - {k} = fst ` set (pf_constraints (ps_freq s)) - {k}"
proof (cases "km_min_freq (ps_kcmd s k) = 0")
  case True
  then show ?thesis by (intro that [of "ps_freq s"]) (simp_all add: drop_constraint_def)
next
  case False
  then have k: "k \<in> fst ` set (pf_constraints (ps_freq s))"
    using coreD(8) [OF assms(1)] assms(2,3) by blast
  obtain fr where fr: "ipu_buttress_remove_psys_constraint k (km_min_freq (ps_kcmd s k)) (ps_freq s) = Some fr"
      "pf_constraints fr = filter (\<lambda>c. fst c \<noteq> k) (pf_constraints (ps_freq s))"
    using remove_constraint_frame [OF k] by blast
  show ?thesis
    by (rule that [of fr]) (use False fr in \<open>auto simp: drop_constraint_def\<close>)
qed

lemma finish_complete_steps:
  "finish_complete e k err s =
     (let t = drop_constraint k (set_event k err s);
          c = ps_kcmd s k;
          t = (if \<not> en_early_pg_transfer e \<and> km_pg_user c \<noteq> NULL then
                 case ipu_psys_lookup_kbuffer_by_kaddr (km_fh c) (km_pg_user c) (ps_bufs t) of
                   Some kb \<Rightarrow> if kb_valid (bs_kbuf (ps_bufs t) kb) then write_back k t else t
                 | None \<Rightarrow> t
               else t);
          t = (if km_state c = KCMD_STATE_RUNNING \<or> km_state c = KCMD_STATE_STARTED
               then t\<lparr>ps_pm := ps_pm t - 1\<rparr> else t)
      in set_state k KCMD_STATE_COMPLETE t)"
  unfolding finish_complete_def drop_constraint_def Let_def set_event_def [symmetric] set_event_frame
  by (rule refl)

lemma finish_complete_same:
  "\<exists>t. eq_sched (drop_constraint k (set_event k err s)) t \<and> finish_complete e k err s = set_state k KCMD_STATE_COMPLETE t"
proof -
  let ?t0 = "drop_constraint k (set_event k err s)"
  let ?c = "ps_kcmd s k"
  define t1 where "t1 = (if \<not> en_early_pg_transfer e \<and> km_pg_user ?c \<noteq> NULL then
                 case ipu_psys_lookup_kbuffer_by_kaddr (km_fh ?c) (km_pg_user ?c) (ps_bufs ?t0) of
                   Some kb \<Rightarrow> if kb_valid (bs_kbuf (ps_bufs ?t0) kb) then write_back k ?t0 else ?t0
                 | None \<Rightarrow> ?t0
               else ?t0)"
  define t2 where "t2 = (if km_state ?c = KCMD_STATE_RUNNING \<or> km_state ?c = KCMD_STATE_STARTED
               then t1\<lparr>ps_pm := ps_pm t1 - 1\<rparr> else t1)"
  have 1: "eq_sched ?t0 t1" unfolding t1_def by (auto split: option.splits intro: same_write_back)
  have 2: "eq_sched t1 t2" unfolding t2_def by (auto intro: same_env(4))
  have 3: "finish_complete e k err s = set_state k KCMD_STATE_COMPLETE t2"
    unfolding finish_complete_steps Let_def t1_def [symmetric] t2_def [symmetric] ..
  show ?thesis by (rule exI [of _ t2]) (use eq_sched_trans [OF 1 2] 3 in simp)
qed

lemma finish_complete_spec:
  assumes "core {k} s" "k \<in> ps_live s" "kstate s k \<noteq> KCMD_STATE_COMPLETE"
  shows "core {} (finish_complete e k err s)" "advanced {k} s (finish_complete e k err s)"
    "completed_with (finish_complete e k err s) k err"
proof -
  let ?v = "set_event k err s"
  obtain fr where fr: "drop_constraint k ?v = ?v\<lparr>ps_freq := fr\<rparr>"
      "fst ` set (pf_constraints fr) - {k} = fst ` set (pf_constraints (ps_freq s)) - {k}"
    using drop_constraint_ok [of k ?v] assms by auto
  obtain t where t: "eq_sched (?v\<lparr>ps_freq := fr\<rparr>) t"
      "finish_complete e k err s = set_state k KCMD_STATE_COMPLETE t"
    using finish_complete_same [of k err s e] fr(1) by auto
  have hold: "holding st {} (set_state k KCMD_STATE_COMPLETE t) = holding st {k} s"
    if "st \<in> {KCMD_STATE_STARTED, KCMD_STATE_RUNNING}" for st
    using that by (auto simp: holding_def eq_schedD [OF t(1)])
  have q: "queued_ok t = queued_ok s" by (simp add: queued_ok_def eq_schedD [OF t(1)])
  have c: "x \<in> fst ` set (pf_constraints fr)"
    if "x \<in> ps_live s" "x \<noteq> k" "kstate s x \<noteq> KCMD_STATE_COMPLETE" "km_min_freq (ps_kcmd s x) \<noteq> 0" for x
    using coreD(8) [OF assms(1) that(1,3,4)] that(2) fr(2) by blast
  show "core {} (finish_complete e k err s)"
    unfolding t(2)
  proof (rule coreI)
    show "queued_ok (set_state k KCMD_STATE_COMPLETE t)" using coreD(2) [OF assms(1)] q by simp
    show "\<not> prepared (kstate (set_state k KCMD_STATE_COMPLETE t) x)"
      if "x \<in> ps_live (set_state k KCMD_STATE_COMPLETE t)" for x
      using that coreD(7) [OF assms(1), of x] by (auto simp: eq_schedD [OF t(1)] prepared_def)
    show "x \<in> fst ` set (pf_constraints (ps_freq (set_state k KCMD_STATE_COMPLETE t)))"
      if "x \<in> ps_live (set_state k KCMD_STATE_COMPLETE t)"
        "kstate (set_state k KCMD_STATE_COMPLETE t) x \<noteq> KCMD_STATE_COMPLETE"
        "km_min_freq (ps_kcmd (set_state k KCMD_STATE_COMPLETE t) x) \<noteq> 0" for x
      using that c [of x] by (auto simp: eq_schedD [OF t(1)] split: if_splits)
  qed (use coreD(1-6,9) [OF assms(1)] in \<open>simp_all add: hold eq_schedD [OF t(1)]\<close>)
  show "advanced {k} s (finish_complete e k err s)"
    unfolding t(2) by (auto simp: advanced_def untouched_def eq_schedD [OF t(1)])
  show "completed_with (finish_complete e k err s) k err"
    unfolding t(2) by (simp add: completed_with_def eq_schedD [OF t(1)])
qed

text \<open>
  \<^verbatim>\<open>ipu_psys_kcmd_complete\<close> on a command that is not complete: it ends with one unit of fuel,
  and unless the watchdog's handler is running the command is complete.
\<close>

definition complete_pre :: "psys \<Rightarrow> nat \<Rightarrow> bool" where
  "complete_pre s k \<longleftrightarrow> k \<in> ps_live s \<and>
     (core {} s \<and> kstate s k \<in> {KCMD_STATE_NEW, KCMD_STATE_STARTED, KCMD_STATE_RUNNING} \<or>
      core {k} s \<and> (kstate s k = KCMD_STATE_START_PREPARED \<or>
                     kstate s k = KCMD_STATE_RUN_PREPARED \<and> ps_started s = 0))"

lemma complete_pre_same: "eq_sched s s' \<Longrightarrow> complete_pre s k \<Longrightarrow> complete_pre s' k"
  by (simp add: complete_pre_def core_same eq_schedD)

lemma leave_state_spec:
  assumes "complete_pre s k"
  shows "\<exists>s'. leave_state (kcmd_run_body complete e) k s = Some s' \<and> core {k} s' \<and> advanced {k} s s' \<and>
    k \<in> ps_live s' \<and> kstate s' k \<noteq> KCMD_STATE_COMPLETE"
proof -
  have k: "k \<in> ps_live s" using assms by (simp add: complete_pre_def)
  consider (run) "core {} s" "kstate s k = KCMD_STATE_RUNNING"
    | (start) "core {} s" "kstate s k = KCMD_STATE_STARTED"
    | (idle) "core {k} s" "kstate s k \<in> {KCMD_STATE_NEW, KCMD_STATE_START_PREPARED, KCMD_STATE_RUN_PREPARED}"
        "kstate s k = KCMD_STATE_RUN_PREPARED \<Longrightarrow> ps_started s = 0"
    using assms core_detach [of s k] by (auto simp: complete_pre_def)
  then show ?thesis
  proof cases
    case run
    then show ?thesis using leave_state_running [OF run(1) k run(2), of complete e] advancedD(4) k by fastforce
  next
    case start
    then show ?thesis
      using leave_state_started [OF start(1) k start(2), of "kcmd_run_body complete e"] advancedD(4) k by fastforce
  next
    case idle
    then obtain s' where s': "leave_state (kcmd_run_body complete e) k s = Some s'" "eq_sched s s'"
      using leave_state_idle [OF idle(1) k idle(2), of "kcmd_run_body complete e"] by auto
    then have "core {k} s'" "k \<in> ps_live s'" "kstate s' k \<noteq> KCMD_STATE_COMPLETE"
      using idle k by (auto simp: core_same eq_schedD [OF s'(2)])
    then show ?thesis using s' advanced_same [OF s'(2)] by blast
  qed
qed

lemma complete_spec:
  assumes "complete_pre s k" "kstate s k = KCMD_STATE_RUNNING \<Longrightarrow> \<not> en_timer_running e (ps_calls s) k"
  shows "\<exists>s'. ipu_psys_kcmd_complete (Suc n) e k err s = Some s' \<and> core {} s' \<and> advanced {k} s s' \<and>
    completed_with s' k err"
proof -
  obtain s1 where s1: "leave_state (kcmd_run_body (ipu_psys_kcmd_complete n e) e) k s = Some s1"
      "core {k} s1" "advanced {k} s s1" "k \<in> ps_live s1" "kstate s1 k \<noteq> KCMD_STATE_COMPLETE"
    using leave_state_spec [OF assms(1)] by blast
  have "ipu_psys_kcmd_complete (Suc n) e k err s = Some (finish_complete e k err s1)"
    using assms(2) s1(1) by (auto simp: kcmd_complete_body_def)
  then show ?thesis
    using finish_complete_spec [OF s1(2,4,5), of e err] advanced_trans [OF s1(3)] by blast
qed

lemma complete_stuck:
  assumes "kstate s k = KCMD_STATE_RUNNING" "en_timer_running e (ps_calls s) k"
  shows "ipu_psys_kcmd_complete (Suc n) e k err s = Some (s\<lparr>ps_calls := Suc (ps_calls s)\<rparr>)"
  using assms by (simp add: kcmd_complete_body_def)

text \<open>Both cases, for loops that complete many commands.\<close>

lemma complete_any:
  assumes "complete_pre s k"
  shows "\<exists>s'. ipu_psys_kcmd_complete (Suc n) e k err s = Some s' \<and> advanced {k} s s' \<and>
    (core {} s' \<and> completed_with s' k err \<or>
     kstate s k = KCMD_STATE_RUNNING \<and> en_timer_running e (ps_calls s) k \<and> eq_sched s s')"
proof (cases "kstate s k = KCMD_STATE_RUNNING \<and> en_timer_running e (ps_calls s) k")
  case True
  have "eq_sched s (s\<lparr>ps_calls := Suc (ps_calls s)\<rparr>)" by (rule same_env)
  then show ?thesis using True complete_stuck [of s k e n err] advanced_same by blast
next
  case False
  then show ?thesis using complete_spec [OF assms, of e n err] by blast
qed

section \<open>Aborting, starting and queueing\<close>

text \<open>
  What the runtime power management answers is never "no space".  A watchdog handler is found running
  by some of the completions of an operation: those completions give up.
\<close>

definition pm_ok :: "psys_env \<Rightarrow> bool" where
  "pm_ok e \<longleftrightarrow> (\<forall>c p. fst (en_pm_get e c p) \<noteq> Inl ENOSPC)"

definition handler_running :: "psys_env \<Rightarrow> nat \<Rightarrow> bool" where
  "handler_running e k \<longleftrightarrow> (\<exists>c. en_timer_running e c k)"

lemma eq_sched_sym: "eq_sched s s' \<Longrightarrow> eq_sched s' s"
  by (simp add: eq_sched_def)

lemma complete_idle_counts:
  assumes "kstate s k \<in> {KCMD_STATE_NEW, KCMD_STATE_START_PREPARED, KCMD_STATE_RUN_PREPARED}"
    and "kstate s k = KCMD_STATE_RUN_PREPARED \<Longrightarrow> ps_started s = 0" "core {k} s" "k \<in> ps_live s"
    and "ipu_psys_kcmd_complete (Suc n) e k err s = Some s'"
  shows "ps_active s' = ps_active s" "ps_started s' = ps_started s"
proof -
  obtain s1 where s1: "leave_state (kcmd_run_body (ipu_psys_kcmd_complete n e) e) k s = Some s1" "eq_sched s s1"
    using leave_state_idle [OF assms(3,4,1,2)] by blast
  then have "s' = finish_complete e k err s1" using assms(1,5) by (auto simp: kcmd_complete_body_def)
  moreover obtain t where "eq_sched (drop_constraint k (set_event k err s1)) t"
      "finish_complete e k err s1 = set_state k KCMD_STATE_COMPLETE t"
    using finish_complete_same by blast
  moreover have "ps_active (drop_constraint k u) = ps_active u" "ps_started (drop_constraint k u) = ps_started u" for u
    by (simp_all add: drop_constraint_def split: option.splits)
  ultimately show "ps_active s' = ps_active s" "ps_started s' = ps_started s"
    by (simp_all add: eq_schedD s1(2))
qed

lemma abort_spec:
  assumes "core {} s" "k \<in> ps_live s"
  shows "\<exists>r s'. ipu_psys_kcmd_abort (Suc n) e k s = Some (r, s') \<and> core {} s' \<and> advanced {k} s s' \<and>
    (kstate s k = KCMD_STATE_COMPLETE \<and> s' = s \<or> completed_with s' k r \<or>
     kstate s k = KCMD_STATE_RUNNING \<and> handler_running e k \<and> eq_sched s s')"
proof (cases "kstate s k = KCMD_STATE_COMPLETE")
  case True
  then show ?thesis using assms(1) by (simp add: ipu_psys_kcmd_abort_def kcmd_abort_body_def)
next
  case False
  obtain r s0 where step: "(if kstate s k = KCMD_STATE_RUNNING \<or> kstate s k = KCMD_STATE_STARTED
       then case ipu_fw_psys_pg_abort (fw_view s k) (ps_port s) of
              (Inr _, v, p) \<Rightarrow> (None, put_fw_view k v (s\<lparr>ps_port := p\<rparr>))
            | (Inl err, v, p) \<Rightarrow> (Some err, put_fw_view k v (s\<lparr>ps_port := p\<rparr>))
       else (None, s)) = (r, s0)" (is "?step = _")
    by (cases ?step)
  then have eq_sched: "eq_sched s s0"
    by (auto split: if_splits prod.splits sum.splits intro: same_put_fw_view')
  have "kstate s k \<in> {KCMD_STATE_NEW, KCMD_STATE_STARTED, KCMD_STATE_RUNNING}"
    using False coreD(7) [OF assms(1,2)] by (cases "kstate s k") (auto simp: prepared_def)
  then have pre: "complete_pre s0 k"
    using complete_pre_same [OF eq_sched, of k] assms unfolding complete_pre_def by blast
  obtain s' where s': "ipu_psys_kcmd_complete (Suc n) e k r s0 = Some s'" "advanced {k} s0 s'"
      "core {} s' \<and> completed_with s' k r \<or>
       kstate s0 k = KCMD_STATE_RUNNING \<and> en_timer_running e (ps_calls s0) k \<and> eq_sched s0 s'"
    using complete_any [OF pre] by blast
  have run: "ipu_psys_kcmd_abort (Suc n) e k s = Some (r, s')"
    using False s'(1) by (simp add: ipu_psys_kcmd_abort_def kcmd_abort_body_def step del: ipu_psys_kcmd_complete.simps)
  have adv: "advanced {k} s s'" by (rule advanced_trans [OF advanced_same [OF eq_sched] s'(2)])
  show ?thesis
  proof (cases "core {} s' \<and> completed_with s' k r")
    case True
    then show ?thesis using run adv by blast
  next
    case nc: False
    then have st: "kstate s0 k = KCMD_STATE_RUNNING" "handler_running e k" "eq_sched s0 s'"
      using s'(3) by (auto simp: handler_running_def)
    have "eq_sched s s'" by (rule eq_sched_trans [OF eq_sched st(3)])
    then show ?thesis using run adv st assms(1) core_same eq_schedD(11) [OF eq_sched] by metis
  qed
qed

text \<open>Starting a prepared command.\<close>

lemma core_enter_run:
  assumes "core {k} s" "k \<in> ps_live s" "kstate s k = KCMD_STATE_RUN_PREPARED"
  shows "core {} (arm_watchdog e k (set_state k KCMD_STATE_RUNNING s\<lparr>ps_active := ps_active s + 1\<rparr>))"
  using core_run [OF assms(1,2)] assms(3) by simp

lemma advanced_enter:
  "advanced {k} s (arm_watchdog e k (set_state k KCMD_STATE_RUNNING s\<lparr>ps_active := ps_active s + 1\<rparr>))"
  "advanced {k} s (set_state k KCMD_STATE_STARTED s
     \<lparr>ps_started := ps_started s + 1, ps_started_list := ps_started_list s @ [k]\<rparr>)"
  by (auto simp: advanced_def untouched_def)

definition start_pre :: "psys \<Rightarrow> nat \<Rightarrow> bool" where
  "start_pre s k \<longleftrightarrow> core {k} s \<and> k \<in> ps_live s \<and>
     (kstate s k = KCMD_STATE_START_PREPARED \<or> kstate s k = KCMD_STATE_RUN_PREPARED \<and> ps_started s = 0)"

lemma start_pre_same: "eq_sched s s' \<Longrightarrow> start_pre s k \<Longrightarrow> start_pre s' k"
  by (simp add: start_pre_def core_same eq_schedD)

text \<open>The ways the start of a prepared command can end.\<close>

definition handed :: "psys \<Rightarrow> nat \<Rightarrow> bool" where
  "handed s k \<longleftrightarrow> kstate s k = KCMD_STATE_STARTED \<or>
     kstate s k = KCMD_STATE_RUNNING \<and> km_watchdog (ps_kcmd s k) \<noteq> None \<or> (\<exists>err. completed_with s k err)"

lemma handed_not_new: "handed s k \<Longrightarrow> kstate s k \<noteq> KCMD_STATE_NEW"
  by (auto simp: handed_def completed_with_def)

lemma completed_untouched: "completed_with s x err \<Longrightarrow> untouched s s' x \<Longrightarrow>
    km_user_token (ps_kcmd s' x) = km_user_token (ps_kcmd s x) \<Longrightarrow>
    km_issue_id (ps_kcmd s' x) = km_issue_id (ps_kcmd s x) \<Longrightarrow> completed_with s' x err"
  by (auto simp: completed_with_def untouched_def)

lemma handed_untouched: "handed s x \<Longrightarrow> untouched s s' x \<Longrightarrow>
    km_user_token (ps_kcmd s' x) = km_user_token (ps_kcmd s x) \<Longrightarrow>
    km_issue_id (ps_kcmd s' x) = km_issue_id (ps_kcmd s x) \<Longrightarrow> handed s' x"
  using completed_untouched [of s x _ s'] by (auto simp: handed_def untouched_def)

definition started_ok :: "psys \<Rightarrow> nat \<Rightarrow> psys \<Rightarrow> bool" where
  "started_ok s k s' \<longleftrightarrow> core {} s' \<and> advanced {k} s s' \<and>
     handed s' k \<and> ps_active s' + ps_started s' \<ge> ps_active s + ps_started s"

lemma started_ok_same: "eq_sched s s0 \<Longrightarrow> started_ok s0 k s' \<Longrightarrow> started_ok s k s'"
  using advanced_trans [OF advanced_same] by (auto simp: started_ok_def eq_schedD)

lemma complete_prepared:
  assumes "start_pre s k"
  shows "\<exists>s'. ipu_psys_kcmd_complete (Suc n) e k err s = Some s' \<and> started_ok s k s' \<and> completed_with s' k err"
proof -
  have pre: "complete_pre s k" using assms by (auto simp: start_pre_def complete_pre_def)
  have nr: "kstate s k \<noteq> KCMD_STATE_RUNNING" using assms by (auto simp: start_pre_def)
  obtain s' where s': "ipu_psys_kcmd_complete (Suc n) e k err s = Some s'" "core {} s'" "advanced {k} s s'"
      "completed_with s' k err"
    using complete_spec [OF pre, of e n err] nr by blast
  have "ps_active s' = ps_active s" "ps_started s' = ps_started s"
    using complete_idle_counts [OF _ _ _ _ s'(1)] assms by (auto simp: start_pre_def)
  then show ?thesis using s' by (auto simp: started_ok_def handed_def)
qed

lemma started_ok_pm [simp]: "started_ok s k (s'\<lparr>ps_pm := c\<rparr>) = started_ok s k s'"
proof -
  have "eq_sched s' (s'\<lparr>ps_pm := c\<rparr>)" by (rule same_env)
  then show ?thesis
    by (auto simp: started_ok_def core_same eq_schedD advanced_def untouched_def handed_def completed_with_def)
qed

lemma kcmd_start_spec:
  assumes "start_pre s k"
  shows "\<exists>ret s'. ipu_psys_kcmd_start (Suc n) e k s = Some (ret, s') \<and> started_ok s k s' \<and>
    (pm_ok e \<longrightarrow> ret \<noteq> Inl ENOSPC)"
proof (cases "en_flr_done e")
  case True
  obtain s' where "ipu_psys_kcmd_complete (Suc n) e k (Some EIO) s = Some s'" "started_ok s k s'"
    using complete_prepared [OF assms] by blast
  then show ?thesis using True by (simp add: ipu_psys_kcmd_start_def del: ipu_psys_kcmd_complete.simps)
next
  case False
  obtain r p where get: "en_pm_get e (ps_calls s) (ps_port s) = (r, p)"
    by (cases "en_pm_get e (ps_calls s) (ps_port s)")
  let ?s = "s\<lparr>ps_calls := Suc (ps_calls s), ps_pm := ps_pm s + 1, ps_port := p\<rparr>"
  have eq_sched: "eq_sched s ?s" using eq_sched_trans [OF eq_sched_trans [OF same_env(5) same_env(4)] same_env(2)] by simp
  have pre: "start_pre ?s k" by (rule start_pre_same [OF eq_sched assms])
  show ?thesis
  proof (cases r)
    case (Inl err)
    obtain s' where s': "ipu_psys_kcmd_complete (Suc n) e k (Some EIO) ?s = Some s'" "started_ok ?s k s'"
      using complete_prepared [OF pre] by blast
    have "ipu_psys_kcmd_start (Suc n) e k s = Some (Inl err, s'\<lparr>ps_pm := ps_pm s' - 1\<rparr>)"
      using False Inl get s'(1) by (simp add: ipu_psys_kcmd_start_def Let_def del: ipu_psys_kcmd_complete.simps)
    moreover have "pm_ok e \<longrightarrow> Inl err \<noteq> (Inl ENOSPC :: unit result)"
      unfolding pm_ok_def using get Inl by (metis fst_conv)
    ultimately show ?thesis using started_ok_same [OF eq_sched s'(2)] by auto
  next
    case (Inr u)
    define t where "t = (if en_early_pg_transfer e \<and> km_pg_user (ps_kcmd ?s k) \<noteq> NULL then write_back k ?s else ?s)"
    have st: "eq_sched s t" unfolding t_def using eq_sched_trans [OF eq_sched same_write_back] eq_sched by simp
    obtain fr t1 where fw: "fw_start k t = (fr, t1)" by (cases "fw_start k t")
    have st1: "eq_sched s t1" by (rule eq_sched_trans [OF st same_fw_start [OF fw]])
    have pre1: "start_pre t1 k" by (rule start_pre_same [OF st1 assms])
    note unfold = ipu_psys_kcmd_start_def [of "Suc n" e k s, unfolded Let_def get prod.case Inr sum.case if_not_P [OF False],
        folded t_def, unfolded fw prod.case]
    show ?thesis
    proof (cases fr)
      case fe: (Inl err)
      have "err = ENODATA"
        using fw fe by (auto simp: fw_start_def ipu_fw_psys_pg_disown_def Let_def split: prod.splits if_splits)
      moreover obtain s' where s': "ipu_psys_kcmd_complete (Suc n) e k (Some EIO) t1 = Some s'" "started_ok t1 k s'"
        using complete_prepared [OF pre1] by blast
      ultimately have "ipu_psys_kcmd_start (Suc n) e k s = Some (Inl ENODATA, s')"
        unfolding unfold using fe by (simp del: ipu_psys_kcmd_complete.simps)
      then show ?thesis using started_ok_same [OF st1 s'(2)] by auto
    next
      case fo: (Inr v)
      have l: "core {k} t1" "k \<in> ps_live t1" using pre1 by (simp_all add: start_pre_def)
      show ?thesis
      proof (cases "kstate t1 k = KCMD_STATE_RUN_PREPARED")
        case True
        let ?t = "arm_watchdog e k (set_state k KCMD_STATE_RUNNING t1\<lparr>ps_active := ps_active t1 + 1\<rparr>)"
        have "ipu_psys_kcmd_start (Suc n) e k s = Some (Inr (), ?t)"
          unfolding unfold using fo True by (simp add: enter_state_def)
        moreover have "started_ok t1 k ?t"
          using core_enter_run [OF l True] advanced_enter(1) by (simp add: started_ok_def handed_def)
        ultimately show ?thesis using started_ok_same [OF st1] by auto
      next
        case nr: False
        then have sp: "kstate t1 k = KCMD_STATE_START_PREPARED" using pre1 by (simp add: start_pre_def)
        let ?t = "set_state k KCMD_STATE_STARTED t1
          \<lparr>ps_started := ps_started t1 + 1, ps_started_list := ps_started_list t1 @ [k]\<rparr>"
        have "ipu_psys_kcmd_start (Suc n) e k s = Some (Inr (), ?t)"
          unfolding unfold using fo sp by (simp add: enter_state_def)
        moreover have "started_ok t1 k ?t"
          using core_start [OF l] sp advanced_enter(2) by (simp add: started_ok_def handed_def)
        ultimately show ?thesis using started_ok_same [OF st1] by auto
      qed
    qed
  qed
qed

text \<open>
  Queueing a new command: it leaves the new state, or stays as it was because its resources
  are taken, and then some command is running or started.
\<close>

definition queue_post :: "psys \<Rightarrow> nat \<Rightarrow> unit result \<Rightarrow> psys \<Rightarrow> bool" where
  "queue_post s k ret s' \<longleftrightarrow> (ret = Inl ENOSPC \<longrightarrow> eq_sched s s' \<and> ps_active s + ps_started s > 0) \<and>
     (ret \<noteq> Inl ENOSPC \<longrightarrow> started_ok s k s')"

lemma queue_failed_spec:
  assumes "core {} s" "k \<in> ps_live s" "kstate s k = KCMD_STATE_NEW"
  shows "\<exists>s'. queue_failed (Suc n) e k err s = Some (Inl EINVAL, s') \<and> started_ok s k s'"
proof -
  have pre: "complete_pre s k" using assms by (simp add: complete_pre_def)
  obtain s' where s': "ipu_psys_kcmd_complete (Suc n) e k (Some err) s = Some s'" "core {} s'" "advanced {k} s s'"
      "completed_with s' k (Some err)"
    using complete_spec [OF pre, of e n "Some err"] assms(3) by auto
  have "ps_active s' = ps_active s" "ps_started s' = ps_started s"
    using complete_idle_counts [OF _ _ core_detach [OF assms(1)] assms(2) s'(1)] assms(3) by auto
  then have "started_ok s k s'" using s' by (auto simp: started_ok_def handed_def)
  then show ?thesis using s'(1) by (simp add: queue_failed_def del: ipu_psys_kcmd_complete.simps)
qed

lemma counts_nonneg: "core D s \<Longrightarrow> ps_active s \<ge> 0 \<and> ps_started s \<ge> 0"
  by (simp add: core_def)

lemma start_prepared_spec:
  assumes "core {} s" "k \<in> ps_live s" "kstate s k = KCMD_STATE_NEW"
    and "st = KCMD_STATE_START_PREPARED \<or> st = KCMD_STATE_RUN_PREPARED \<and> ps_started s = 0" "pm_ok e"
  shows "\<exists>ret s'. ipu_psys_kcmd_start (Suc n) e k (set_state k st s) = Some (ret, s') \<and> ret \<noteq> Inl ENOSPC \<and>
    started_ok s k s'"
proof -
  have "start_pre (set_state k st s) k"
    using core_set_prepared [OF core_detach [OF assms(1)], of k st] assms(2-4)
    by (auto simp: start_pre_def prepared_def)
  then obtain ret s' where "ipu_psys_kcmd_start (Suc n) e k (set_state k st s) = Some (ret, s')"
      "started_ok (set_state k st s) k s'" "ret \<noteq> Inl ENOSPC"
    using kcmd_start_spec assms(5) by blast
  moreover have "started_ok s k s'" if "started_ok (set_state k st s) k s'"
    using that advanced_trans [OF advanced_set_state [of k "{k}" s st]] by (simp add: started_ok_def)
  ultimately show ?thesis by blast
qed

lemma queue_started_spec:
  assumes "core {} s" "k \<in> ps_live s" "kstate s k = KCMD_STATE_NEW" "pm_ok e"
  shows "\<exists>ret s'. queue_started (Suc n) e k s = Some (ret, s') \<and> queue_post s k ret s'"
proof -
  obtain r s1 where a: "allocate_kcmd_resources e k STARTED_POOL s = (r, s1)"
    by (cases "allocate_kcmd_resources e k STARTED_POOL s")
  have eq_sched: "eq_sched s s1" by (rule same_allocate [OF a])
  have c1: "core {} s1" "k \<in> ps_live s1" "kstate s1 k = KCMD_STATE_NEW"
    using assms by (simp_all add: core_same [OF eq_sched] eq_schedD [OF eq_sched])
  show ?thesis
  proof (cases r)
    case (Inr u)
    obtain ret s' where "ipu_psys_kcmd_start (Suc n) e k (set_state k KCMD_STATE_START_PREPARED s1) = Some (ret, s')"
        "ret \<noteq> Inl ENOSPC" "started_ok s1 k s'"
      using start_prepared_spec [OF c1 disjI1 [OF refl] assms(4)] by blast
    then show ?thesis using started_ok_same [OF eq_sched] Inr by (auto simp: queue_started_def a queue_post_def)
  next
    case (Inl err)
    show ?thesis
    proof (cases "err \<noteq> ENOSPC \<or> ps_started s1 = 0")
      case True
      obtain s' where "queue_failed (Suc n) e k err s1 = Some (Inl EINVAL, s')" "started_ok s1 k s'"
        using queue_failed_spec [OF c1] by blast
      then show ?thesis using started_ok_same [OF eq_sched] Inl True by (auto simp: queue_started_def a queue_post_def)
    next
      case False
      then have "ps_started s > 0" using counts_nonneg [OF c1(1)] by (simp add: eq_schedD [OF eq_sched])
      then show ?thesis
        using False Inl eq_sched counts_nonneg [OF assms(1)] by (auto simp: queue_started_def a queue_post_def)
    qed
  qed
qed

lemma queue_post_same: "eq_sched s s0 \<Longrightarrow> queue_post s0 k ret s' \<Longrightarrow> queue_post s k ret s'"
  using eq_sched_trans started_ok_same by (auto simp: queue_post_def eq_schedD)

lemma queue_spec:
  assumes "core {} s" "k \<in> ps_live s" "kstate s k = KCMD_STATE_NEW" "pm_ok e"
  shows "\<exists>ret s'. ipu_psys_kcmd_queue (Suc n) e k s = Some (ret, s') \<and> queue_post s k ret s'"
proof (cases "ps_started s = 0")
  case False
  then show ?thesis using queue_started_spec [OF assms] assms(3) by (simp add: ipu_psys_kcmd_queue_def)
next
  case st0: True
  obtain r s1 where a: "allocate_kcmd_resources e k RUNNING_POOL s = (r, s1)"
    by (cases "allocate_kcmd_resources e k RUNNING_POOL s")
  have eq_sched: "eq_sched s s1" by (rule same_allocate [OF a])
  have c1: "core {} s1" "k \<in> ps_live s1" "kstate s1 k = KCMD_STATE_NEW" "ps_started s1 = 0"
    using assms st0 by (simp_all add: core_same [OF eq_sched] eq_schedD [OF eq_sched])
  show ?thesis
  proof (cases r)
    case (Inr u)
    obtain ret s' where "ipu_psys_kcmd_start (Suc n) e k (set_state k KCMD_STATE_RUN_PREPARED s1) = Some (ret, s')"
        "ret \<noteq> Inl ENOSPC" "started_ok s1 k s'"
      using start_prepared_spec [OF c1(1-3) disjI2 assms(4)] c1(4) by blast
    then show ?thesis
      using started_ok_same [OF eq_sched] Inr st0 assms(3) by (auto simp: ipu_psys_kcmd_queue_def a queue_post_def)
  next
    case (Inl err)
    show ?thesis
    proof (cases "err \<noteq> ENOSPC \<or> ps_active s1 = 0")
      case True
      obtain s' where "queue_failed (Suc n) e k err s1 = Some (Inl EINVAL, s')" "started_ok s1 k s'"
        using queue_failed_spec [OF c1(1-3)] by blast
      then show ?thesis
        using started_ok_same [OF eq_sched] Inl True st0 assms(3) by (auto simp: ipu_psys_kcmd_queue_def a queue_post_def)
    next
      case False
      obtain ret s' where q: "queue_started (Suc n) e k s1 = Some (ret, s')" "queue_post s1 k ret s'"
        using queue_started_spec [OF c1(1-3) assms(4)] by blast
      have "ipu_psys_kcmd_queue (Suc n) e k s = Some (ret, s')"
        using False Inl st0 assms(3) q(1) by (simp add: ipu_psys_kcmd_queue_def a)
      then show ?thesis using queue_post_same [OF eq_sched q(2)] by blast
    qed
  qed
qed

section \<open>The scheduler\<close>

text \<open>
  A queue is a block of commands that have been handed on, then, from the pointer, the new
  ones.  And the shape of the queues: handles are listed once, only open handles and the three priorities have commands, and every command
  that exists is queued.
\<close>

definition tail_ok :: "psys \<Rightarrow> bool" where
  "tail_ok s \<longleftrightarrow> (\<forall>f p. case ps_new_tail s f p of
       None \<Rightarrow> \<forall>x \<in> set (ps_queue s f p). kstate s x \<noteq> KCMD_STATE_NEW
     | Some k \<Rightarrow> k \<in> set (ps_queue s f p) \<and>
         (\<forall>x \<in> set (takeWhile (\<lambda>x. x \<noteq> k) (ps_queue s f p)). kstate s x \<noteq> KCMD_STATE_NEW) \<and>
         (\<forall>x \<in> set (dropWhile (\<lambda>x. x \<noteq> k) (ps_queue s f p)). kstate s x = KCMD_STATE_NEW))"

definition queues_ok :: "psys \<Rightarrow> bool" where
  "queues_ok s \<longleftrightarrow> distinct (ps_fhs s) \<and>
     (\<forall>f p. ps_queue s f p \<noteq> [] \<longrightarrow> f \<in> set (ps_fhs s) \<and> p < IPU_PSYS_CMD_PRIORITY_NUM) \<and>
     (\<forall>k \<in> ps_live s. k \<in> set (queue_of s k))"

definition sched_ok :: "psys \<Rightarrow> bool" where
  "sched_ok s \<longleftrightarrow> core {} s \<and> tail_ok s \<and> queues_ok s"

text \<open>
  What a scheduling step keeps: the queues, and every command that is no longer new (a
  waiting one may start); a new command stays new or is handed on.
\<close>

definition progress :: "psys \<Rightarrow> psys \<Rightarrow> bool" where
  "progress s s' \<longleftrightarrow> set (ps_fhs s') = set (ps_fhs s) \<and> ps_queue s' = ps_queue s \<and> ps_live s' = ps_live s \<and>
     (\<forall>x. km_fh (ps_kcmd s' x) = km_fh (ps_kcmd s x) \<and> km_priority (ps_kcmd s' x) = km_priority (ps_kcmd s x) \<and>
          km_min_freq (ps_kcmd s' x) = km_min_freq (ps_kcmd s x) \<and>
          km_user_token (ps_kcmd s' x) = km_user_token (ps_kcmd s x) \<and>
          km_issue_id (ps_kcmd s' x) = km_issue_id (ps_kcmd s x)) \<and>
     (\<forall>x. kstate s x \<noteq> KCMD_STATE_NEW \<longrightarrow> untouched s s' x) \<and>
     (\<forall>x. kstate s x = KCMD_STATE_NEW \<longrightarrow> kstate s' x = KCMD_STATE_NEW \<or> handed s' x) \<and>
     ps_active s' + ps_started s' \<ge> ps_active s + ps_started s"

lemma progress_same: "eq_sched s s' \<Longrightarrow> progress s s'"
  by (simp add: progress_def untouched_def eq_schedD)

lemma progress_trans [trans]:
  assumes "progress s s'" "progress s' s''"
  shows "progress s s''"
proof -
  have "untouched s s'' x" if "kstate s x \<noteq> KCMD_STATE_NEW" for x
  proof -
    have u: "untouched s s' x" using assms(1) that by (simp add: progress_def)
    then have "kstate s' x \<noteq> KCMD_STATE_NEW" using that by (auto simp: untouched_def)
    then show ?thesis using untouched_trans [OF u] assms(2) by (simp add: progress_def)
  qed
  moreover have "kstate s'' x = KCMD_STATE_NEW \<or> handed s'' x" if "kstate s x = KCMD_STATE_NEW" for x
  proof (cases "kstate s' x = KCMD_STATE_NEW")
    case False
    then have "handed s' x" "untouched s' s'' x" using assms that by (auto simp: progress_def)
    then show ?thesis using handed_untouched assms(2) by (auto simp: progress_def)
  qed (use assms(2) in \<open>auto simp: progress_def\<close>)
  ultimately show ?thesis using assms by (simp add: progress_def)
qed

lemma tail_ok_same: "eq_sched s s' \<Longrightarrow> tail_ok s' = tail_ok s"
  by (simp add: tail_ok_def eq_schedD split: option.split)

lemma queues_ok_same: "eq_sched s s' \<Longrightarrow> queues_ok s' = queues_ok s"
  by (simp add: queues_ok_def queue_of_def eq_schedD)

lemma sched_ok_same: "eq_sched s s' \<Longrightarrow> sched_ok s' = sched_ok s"
  by (simp add: sched_ok_def core_same tail_ok_same queues_ok_same)

lemma queue_disjoint:
  assumes "queued_ok s" "k \<in> set (ps_queue s f p)" "k \<in> set (ps_queue s f' p')"
  shows "f' = f \<and> p' = p"
  using assms by (metis queued_ok_def)

lemma takeWhile_tl_dropWhile:
  assumes "distinct q" "k \<in> set q" "x \<in> set (tl (dropWhile (\<lambda>x. x \<noteq> k) q))"
  shows "takeWhile (\<lambda>y. y \<noteq> x) q =
    takeWhile (\<lambda>y. y \<noteq> k) q @ k # takeWhile (\<lambda>y. y \<noteq> x) (tl (dropWhile (\<lambda>y. y \<noteq> k) q))"
  using assms
proof (induction q)
  case (Cons a q)
  show ?case
  proof (cases "a = k")
    case True
    then show ?thesis using Cons.prems by auto
  next
    case False
    then have "x \<in> set q"
      using Cons.prems(3) list.set_sel(2) [of "dropWhile (\<lambda>x. x \<noteq> k) q" x]
        set_dropWhileD [of x "\<lambda>x. x \<noteq> k" q]
      by (cases "dropWhile (\<lambda>x. x \<noteq> k) q") auto
    then show ?thesis using Cons False by auto
  qed
qed simp

lemma dropWhile_tl_dropWhile:
  assumes "distinct q" "k \<in> set q" "x \<in> set (tl (dropWhile (\<lambda>x. x \<noteq> k) q))"
  shows "set (dropWhile (\<lambda>y. y \<noteq> x) q) \<subseteq> set (tl (dropWhile (\<lambda>y. y \<noteq> k) q))"
proof -
  let ?r = "tl (dropWhile (\<lambda>y. y \<noteq> k) q)"
  have d: "dropWhile (\<lambda>y. y \<noteq> k) q = k # ?r"
    using assms(2) hd_dropWhile [of "\<lambda>y. y \<noteq> k" q]
    by (cases "dropWhile (\<lambda>y. y \<noteq> k) q") (auto simp: dropWhile_eq_Nil_conv)
  have q: "q = takeWhile (\<lambda>y. y \<noteq> k) q @ k # ?r"
    using takeWhile_dropWhile_id [of "\<lambda>y. y \<noteq> k" q] d by simp
  have "q = takeWhile (\<lambda>y. y \<noteq> x) q @ dropWhile (\<lambda>y. y \<noteq> x) q" by simp
  then have "takeWhile (\<lambda>y. y \<noteq> k) q @ k # ?r =
      takeWhile (\<lambda>y. y \<noteq> k) q @ k # takeWhile (\<lambda>y. y \<noteq> x) ?r @ dropWhile (\<lambda>y. y \<noteq> x) q"
    unfolding takeWhile_tl_dropWhile [OF assms] using q by simp
  then have "?r = takeWhile (\<lambda>y. y \<noteq> x) ?r @ dropWhile (\<lambda>y. y \<noteq> x) q" by simp
  then show ?thesis by (metis set_append Un_upper2)
qed

lemma find_takeWhile:
  "List.find P xs = Some x \<Longrightarrow>
     x \<in> set xs \<and> P x \<and> (\<forall>y \<in> set (takeWhile (\<lambda>y. y \<noteq> x) xs). \<not> P y)"
proof (induction xs)
  case (Cons a xs)
  show ?case
  proof (cases "P a")
    case True
    then show ?thesis using Cons.prems by simp
  next
    case False
    then have "x \<in> set xs \<and> P x \<and> (\<forall>y \<in> set (takeWhile (\<lambda>y. y \<noteq> x) xs). \<not> P y)"
      using Cons by simp
    moreover have "takeWhile (\<lambda>y. y \<noteq> x) (a # xs) = a # takeWhile (\<lambda>y. y \<noteq> x) xs"
      using calculation False by (subst takeWhile.simps) (metis (full_types))
    ultimately show ?thesis using False by (metis list.set_intros(2) set_ConsD)
  qed
qed simp

lemma set_tail_split:
  assumes "k \<in> set q"
  shows "set q = set (takeWhile (\<lambda>x. x \<noteq> k) q) \<union> {k} \<union> set (tl (dropWhile (\<lambda>x. x \<noteq> k) q))"
proof -
  have "dropWhile (\<lambda>x. x \<noteq> k) q \<noteq> []" using assms by (simp add: dropWhile_eq_Nil_conv)
  then obtain y ys where d: "dropWhile (\<lambda>x. x \<noteq> k) q = y # ys" by (cases "dropWhile (\<lambda>x. x \<noteq> k) q") auto
  then have "y = k" using hd_dropWhile [of "\<lambda>x. x \<noteq> k" q] by simp
  then have "q = takeWhile (\<lambda>x. x \<noteq> k) q @ k # ys" using d takeWhile_dropWhile_id [of "\<lambda>x. x \<noteq> k" q] by simp
  then have "set q = set (takeWhile (\<lambda>x. x \<noteq> k) q @ k # ys)" by simp
  then show ?thesis using d by auto
qed

text \<open>Advancing the pointer past a command that is no longer new keeps it right.\<close>

lemma next_new_spec:
  assumes "distinct q" "k \<in> set q" "\<forall>x \<in> set (takeWhile (\<lambda>x. x \<noteq> k) q). kstate s x \<noteq> KCMD_STATE_NEW"
    and "kstate s k \<noteq> KCMD_STATE_NEW" "\<forall>x \<in> set (tl (dropWhile (\<lambda>x. x \<noteq> k) q)). kstate s x = KCMD_STATE_NEW"
  shows "case next_new s k q of
       None \<Rightarrow> \<forall>x \<in> set q. kstate s x \<noteq> KCMD_STATE_NEW
     | Some j \<Rightarrow> j \<in> set q \<and>
         (\<forall>x \<in> set (takeWhile (\<lambda>x. x \<noteq> j) q). kstate s x \<noteq> KCMD_STATE_NEW) \<and>
         (\<forall>x \<in> set (dropWhile (\<lambda>x. x \<noteq> j) q). kstate s x = KCMD_STATE_NEW) \<and>
         length (dropWhile (\<lambda>x. x \<noteq> j) q) < length (dropWhile (\<lambda>x. x \<noteq> k) q)"
proof (cases "next_new s k q")
  case None
  then have "\<forall>x \<in> set (tl (dropWhile (\<lambda>x. x \<noteq> k) q)). kstate s x \<noteq> KCMD_STATE_NEW"
    by (simp add: next_new_def find_None_iff)
  then show ?thesis using None assms(3,4) set_tail_split [OF assms(2)] by auto
next
  case (Some j)
  let ?r = "tl (dropWhile (\<lambda>x. x \<noteq> k) q)"
  note find = find_takeWhile [OF Some [unfolded next_new_def]]
  note j = conjunct1 [OF find] conjunct1 [OF conjunct2 [OF find]] conjunct2 [OF conjunct2 [OF find]]
  have tw: "takeWhile (\<lambda>y. y \<noteq> j) q = takeWhile (\<lambda>y. y \<noteq> k) q @ k # takeWhile (\<lambda>y. y \<noteq> j) ?r"
    by (rule takeWhile_tl_dropWhile [OF assms(1,2) j(1)])
  have "length (takeWhile (\<lambda>y. y \<noteq> j) q) > length (takeWhile (\<lambda>y. y \<noteq> k) q)" unfolding tw by simp
  moreover have len: "length (takeWhile P q) + length (dropWhile P q) = length q" for P
    by (metis length_append takeWhile_dropWhile_id)
  ultimately have len: "length (dropWhile (\<lambda>x. x \<noteq> j) q) < length (dropWhile (\<lambda>x. x \<noteq> k) q)"
    using len [of "\<lambda>x. x \<noteq> j"] len [of "\<lambda>x. x \<noteq> k"] by linarith
  have "j \<in> set q" using j(1) set_tail_split [OF assms(2)] by auto
  moreover have "\<forall>x \<in> set (takeWhile (\<lambda>x. x \<noteq> j) q). kstate s x \<noteq> KCMD_STATE_NEW"
    unfolding tw using j(3) assms(3,4) by auto
  moreover have "\<forall>x \<in> set (dropWhile (\<lambda>x. x \<noteq> j) q). kstate s x = KCMD_STATE_NEW"
    using dropWhile_tl_dropWhile [OF assms(1,2) j(1)] assms(5) by blast
  ultimately show ?thesis using Some len by simp
qed

text \<open>The commands a queue still has to schedule, from the pointer on; the loops' measure.\<close>

definition to_schedule :: "psys \<Rightarrow> nat \<Rightarrow> nat \<Rightarrow> nat" where
  "to_schedule s f p = (case ps_new_tail s f p of None \<Rightarrow> 0
     | Some k \<Rightarrow> length (dropWhile (\<lambda>x. x \<noteq> k) (ps_queue s f p)))"

definition workload :: "psys \<Rightarrow> nat \<Rightarrow> nat" where
  "workload s p = (\<Sum>f \<in> set (ps_fhs s). to_schedule s f p)"

lemma to_schedule_same: "eq_sched s s' \<Longrightarrow> to_schedule s' f p = to_schedule s f p"
  by (simp add: to_schedule_def eq_schedD split: option.split)

lemma workload_same: "eq_sched s s' \<Longrightarrow> workload s' p = workload s p"
  by (simp add: workload_def to_schedule_same eq_schedD)

lemma sched_nonneg: "sched_ok s \<Longrightarrow> ps_active s \<ge> 0 \<and> ps_started s \<ge> 0"
  using counts_nonneg by (auto simp: sched_ok_def)

text \<open>One handle's turn.\<close>

definition turn_post :: "psys_env \<Rightarrow> nat \<Rightarrow> nat \<Rightarrow> psys \<Rightarrow> fh_turn \<Rightarrow> psys \<Rightarrow> bool" where
  "turn_post e p f s turn s' \<longleftrightarrow> sched_ok s' \<and> progress s s' \<and>
     (\<forall>f' p'. p' \<noteq> p \<longrightarrow> ps_new_tail s' f' p' = ps_new_tail s f' p') \<and>
     (turn = Stop \<longrightarrow> s' = s \<and> ps_active s > 0 \<and> \<not> en_enable_concurrency e) \<and>
     (turn = Skip \<longrightarrow> eq_sched s s' \<and> (ps_new_tail s f p = None \<or> ps_active s + ps_started s > 0)) \<and>
     (turn = Removed \<longrightarrow> workload s' p < workload s p)"

lemma tail_in_queue:
  assumes "sched_ok s" "ps_new_tail s f p = Some k"
  shows "k \<in> set (ps_queue s f p)" "kstate s k = KCMD_STATE_NEW" "k \<in> ps_live s"
    "\<forall>x \<in> set (takeWhile (\<lambda>x. x \<noteq> k) (ps_queue s f p)). kstate s x \<noteq> KCMD_STATE_NEW"
    "f \<in> set (ps_fhs s)" "p < IPU_PSYS_CMD_PRIORITY_NUM" "distinct (ps_queue s f p)"
    "\<forall>x \<in> set (dropWhile (\<lambda>x. x \<noteq> k) (ps_queue s f p)). kstate s x = KCMD_STATE_NEW"
proof -
  let ?q = "ps_queue s f p"
  have t: "k \<in> set ?q \<and> (\<forall>x \<in> set (takeWhile (\<lambda>x. x \<noteq> k) ?q). kstate s x \<noteq> KCMD_STATE_NEW) \<and>
      (\<forall>x \<in> set (dropWhile (\<lambda>x. x \<noteq> k) ?q). kstate s x = KCMD_STATE_NEW)"
    using assms(1) [unfolded sched_ok_def tail_ok_def, THEN conjunct2, THEN conjunct1, rule_format, of f p] assms(2)
    by simp
  have q: "queued_ok s" "queues_ok s" using assms(1) by (simp_all add: sched_ok_def core_def)
  show k: "k \<in> set ?q" "\<forall>x \<in> set (takeWhile (\<lambda>x. x \<noteq> k) ?q). kstate s x \<noteq> KCMD_STATE_NEW"
    "\<forall>x \<in> set (dropWhile (\<lambda>x. x \<noteq> k) ?q). kstate s x = KCMD_STATE_NEW"
    using t by auto
  have "dropWhile (\<lambda>x. x \<noteq> k) ?q \<noteq> []" using k(1) by (simp add: dropWhile_eq_Nil_conv)
  then have "k \<in> set (dropWhile (\<lambda>x. x \<noteq> k) ?q)"
    using hd_dropWhile [of "\<lambda>x. x \<noteq> k" ?q] by (metis list.set_sel(1))
  then show "kstate s k = KCMD_STATE_NEW" using k(3) by simp
  have "?q \<noteq> []" using k(1) by auto
  then show "f \<in> set (ps_fhs s)" "p < IPU_PSYS_CMD_PRIORITY_NUM" using q(2) by (simp_all add: queues_ok_def)
  show "k \<in> ps_live s" "distinct ?q" using q(1) t by (auto simp: queued_ok_def)
qed

lemma new_iff:
  assumes "started_ok s k s'" "x \<noteq> k"
  shows "kstate s' x = KCMD_STATE_NEW \<longleftrightarrow> kstate s x = KCMD_STATE_NEW"
  using assms advancedD(10) [of "{k}" s s' x] by (auto simp: started_ok_def untouched_def)

lemma move_tail_frame [simp]:
  "ps_queue (list_move_tail f s) = ps_queue s" "ps_new_tail (list_move_tail f s) = ps_new_tail s"
  "ps_live (list_move_tail f s) = ps_live s" "ps_kcmd (list_move_tail f s) = ps_kcmd s"
  "ps_active (list_move_tail f s) = ps_active s" "ps_started (list_move_tail f s) = ps_started s"
  "ps_started_list (list_move_tail f s) = ps_started_list s" "ps_fault (list_move_tail f s) = ps_fault s"
  "ps_freq (list_move_tail f s) = ps_freq s"
  "f \<in> set (ps_fhs s) \<Longrightarrow> set (ps_fhs (list_move_tail f s)) = set (ps_fhs s)"
  "distinct (ps_fhs s) \<Longrightarrow> distinct (ps_fhs (list_move_tail f s))"
proof -
  have "insert f (set (remove1 f xs)) = set xs" if "f \<in> set xs" for xs
    using that by (induction xs) auto
  then show "f \<in> set (ps_fhs s) \<Longrightarrow> set (ps_fhs (list_move_tail f s)) = set (ps_fhs s)"
    by (simp add: list_move_tail_def)
qed (simp_all add: list_move_tail_def distinct_remove1 set_remove1_eq)

lemma set_tail_frame [simp]:
  "ps_queue (set_tail f p k s) = ps_queue s" "ps_fhs (set_tail f p k s) = ps_fhs s"
  "ps_live (set_tail f p k s) = ps_live s" "ps_kcmd (set_tail f p k s) = ps_kcmd s"
  "ps_active (set_tail f p k s) = ps_active s" "ps_started (set_tail f p k s) = ps_started s"
  "ps_started_list (set_tail f p k s) = ps_started_list s" "ps_fault (set_tail f p k s) = ps_fault s"
  "ps_freq (set_tail f p k s) = ps_freq s"
  "ps_new_tail (set_tail f p k s) f' p' = (if f' = f \<and> p' = p then k else ps_new_tail s f' p')"
  by (simp_all add: set_tail_def)

lemma core_tail [simp]: "core D (list_move_tail f s) = core D s" "core D (set_tail f p k s) = core D s"
  by (simp_all add: core_def queued_ok_def holding_def)

lemma advance_tail:
  assumes "sched_ok s" "ps_new_tail s f p = Some k" "started_ok s k s1"
  shows "turn_post e p f s Removed (list_move_tail f (set_tail f p (next_new s1 k (ps_queue s1 f p)) s1))"
    (is "turn_post e p f s Removed ?s2")
proof -
  note k = tail_in_queue [OF assms(1,2)]
  have c1: "core {} s1" "advanced {k} s s1" "kstate s1 k \<noteq> KCMD_STATE_NEW"
    "ps_active s1 + ps_started s1 \<ge> ps_active s + ps_started s"
    using assms(3) by (auto simp: started_ok_def handed_not_new)
  note a = advancedD [OF c1(2)]
  have q: "queued_ok s" "queues_ok s" "tail_ok s" using assms(1) by (simp_all add: sched_ok_def core_def)
  have tw: "\<forall>x \<in> set (takeWhile (\<lambda>x. x \<noteq> k) (ps_queue s f p)). kstate s1 x \<noteq> KCMD_STATE_NEW"
  proof
    fix x assume "x \<in> set (takeWhile (\<lambda>x. x \<noteq> k) (ps_queue s f p))"
    then show "kstate s1 x \<noteq> KCMD_STATE_NEW" using k(4) new_iff [OF assms(3), of x] c1(3) by (cases "x = k") auto
  qed
  have dw: "\<forall>x \<in> set (tl (dropWhile (\<lambda>x. x \<noteq> k) (ps_queue s f p))). kstate s1 x = KCMD_STATE_NEW"
  proof
    fix x assume x: "x \<in> set (tl (dropWhile (\<lambda>x. x \<noteq> k) (ps_queue s f p)))"
    have "distinct (dropWhile (\<lambda>x. x \<noteq> k) (ps_queue s f p))" using k(7) by simp
    moreover have "hd (dropWhile (\<lambda>x. x \<noteq> k) (ps_queue s f p)) = k"
      using hd_dropWhile [of "\<lambda>x. x \<noteq> k" "ps_queue s f p"] k(1) by (auto simp: dropWhile_eq_Nil_conv)
    ultimately have "x \<noteq> k" "x \<in> set (dropWhile (\<lambda>x. x \<noteq> k) (ps_queue s f p))"
      using x by (cases "dropWhile (\<lambda>x. x \<noteq> k) (ps_queue s f p)"; auto)+
    then show "kstate s1 x = KCMD_STATE_NEW" using k(8) new_iff [OF assms(3)] by blast
  qed
  note nn = next_new_spec [OF k(7,1) tw c1(3) dw]
  have f1: "f \<in> set (ps_fhs s1)" using k(5) a(1) by simp
  have tails: "tail_ok ?s2"
    unfolding tail_ok_def
  proof (intro allI)
    fix f' p'
    show "case ps_new_tail ?s2 f' p' of
       None \<Rightarrow> \<forall>x \<in> set (ps_queue ?s2 f' p'). kstate ?s2 x \<noteq> KCMD_STATE_NEW
     | Some k \<Rightarrow> k \<in> set (ps_queue ?s2 f' p') \<and>
         (\<forall>x \<in> set (takeWhile (\<lambda>x. x \<noteq> k) (ps_queue ?s2 f' p')). kstate ?s2 x \<noteq> KCMD_STATE_NEW) \<and>
         (\<forall>x \<in> set (dropWhile (\<lambda>x. x \<noteq> k) (ps_queue ?s2 f' p')). kstate ?s2 x = KCMD_STATE_NEW)"
    proof (cases "f' = f \<and> p' = p")
      case True
      then show ?thesis using nn a(2) by (simp split: option.splits)
    next
      case False
      have other: "x \<noteq> k" if "x \<in> set (ps_queue s f' p')" for x
        using that False queue_disjoint [OF q(1) k(1)] by blast
      have st: "kstate s1 x = KCMD_STATE_NEW \<longleftrightarrow> kstate s x = KCMD_STATE_NEW" if "x \<in> set (ps_queue s f' p')" for x
        using new_iff [OF assms(3) other [OF that]] .
      have t2: "ps_new_tail ?s2 f' p' = ps_new_tail s f' p'" using False by (auto simp: a(3))
      have q2: "ps_queue ?s2 = ps_queue s" "kstate ?s2 x = kstate s1 x" for x by (simp_all add: a(2))
      show ?thesis
        unfolding t2 q2
      proof (cases "ps_new_tail s f' p'")
        case None
        then have "\<forall>x \<in> set (ps_queue s f' p'). kstate s x \<noteq> KCMD_STATE_NEW"
          using q(3) [unfolded tail_ok_def, rule_format, of f' p'] by simp
        then show "case ps_new_tail s f' p' of
             None \<Rightarrow> \<forall>x \<in> set (ps_queue s f' p'). kstate s1 x \<noteq> KCMD_STATE_NEW
           | Some k \<Rightarrow> k \<in> set (ps_queue s f' p') \<and>
               (\<forall>x \<in> set (takeWhile (\<lambda>x. x \<noteq> k) (ps_queue s f' p')). kstate s1 x \<noteq> KCMD_STATE_NEW) \<and>
               (\<forall>x \<in> set (dropWhile (\<lambda>x. x \<noteq> k) (ps_queue s f' p')). kstate s1 x = KCMD_STATE_NEW)"
          using None st by simp
      next
        case (Some j)
        note j = tail_in_queue [OF assms(1) Some]
        have "\<forall>x \<in> set (takeWhile (\<lambda>x. x \<noteq> j) (ps_queue s f' p')). kstate s1 x \<noteq> KCMD_STATE_NEW"
          using j(4) st set_takeWhileD by fastforce
        moreover have drop: "\<forall>x \<in> set (dropWhile (\<lambda>x. x \<noteq> j) (ps_queue s f' p')). kstate s1 x = KCMD_STATE_NEW"
          using j(8) st set_dropWhileD by fastforce
        ultimately show "case ps_new_tail s f' p' of
             None \<Rightarrow> \<forall>x \<in> set (ps_queue s f' p'). kstate s1 x \<noteq> KCMD_STATE_NEW
           | Some k \<Rightarrow> k \<in> set (ps_queue s f' p') \<and>
               (\<forall>x \<in> set (takeWhile (\<lambda>x. x \<noteq> k) (ps_queue s f' p')). kstate s1 x \<noteq> KCMD_STATE_NEW) \<and>
               (\<forall>x \<in> set (dropWhile (\<lambda>x. x \<noteq> k) (ps_queue s f' p')). kstate s1 x = KCMD_STATE_NEW)"
          using Some j(1) drop by simp
      qed
    qed
  qed
  have queues: "queues_ok ?s2"
    using q(2) f1 by (simp add: queues_ok_def queue_of_def a)
  have prog: "progress s ?s2"
    unfolding progress_def
  proof (intro conjI allI impI)
    show "untouched s ?s2 x" if "kstate s x \<noteq> KCMD_STATE_NEW" for x
      using a(10) [of x] k(2) that by (auto simp: untouched_def)
    show "kstate ?s2 x = KCMD_STATE_NEW \<or> handed ?s2 x" if "kstate s x = KCMD_STATE_NEW" for x
      using that new_iff [OF assms(3), of x] assms(3)
      by (cases "x = k") (auto simp: started_ok_def handed_def completed_with_def)
  qed (use f1 c1(4) in \<open>simp_all add: a\<close>)
  have pend: "to_schedule ?s2 f' p = to_schedule s f' p" if "f' \<noteq> f" for f'
    using that by (simp add: to_schedule_def a split: option.split)
  have less: "to_schedule ?s2 f p < to_schedule s f p"
  proof -
    have "to_schedule s f p = length (dropWhile (\<lambda>x. x \<noteq> k) (ps_queue s f p))"
      using assms(2) by (simp add: to_schedule_def)
    moreover have "length (dropWhile (\<lambda>x. x \<noteq> k) (ps_queue s f p)) > 0"
      using k(1) by (simp add: dropWhile_eq_Nil_conv)
    ultimately show ?thesis using nn by (simp add: to_schedule_def a split: option.splits)
  qed
  have "workload ?s2 p < workload s p"
    unfolding workload_def using f1 a(1)
  proof (simp, intro sum_strict_mono_ex1)
    show "\<forall>x \<in> set (ps_fhs s). to_schedule ?s2 x p \<le> to_schedule s x p" using pend less by (metis order.refl nat_less_le)
    show "\<exists>x \<in> set (ps_fhs s). to_schedule ?s2 x p < to_schedule s x p" using less k(5) by blast
  qed simp
  then show ?thesis
    using tails queues prog c1(1) by (simp add: turn_post_def sched_ok_def a)
qed

lemma run_fh_spec:
  assumes "sched_ok s" "pm_ok e"
  shows "\<exists>turn s'. run_fh (Suc n) e p f s = Some (turn, s') \<and> turn_post e p f s turn s'"
proof (cases "\<not> en_enable_concurrency e \<and> ps_active s > 0")
  case True
  then show ?thesis using assms progress_same [OF eq_sched_refl] by (simp add: run_fh_def turn_post_def)
next
  case go: False
  show ?thesis
  proof (cases "ps_new_tail s f p")
    case None
    then show ?thesis using go assms progress_same [OF eq_sched_refl] by (auto simp: run_fh_def turn_post_def)
  next
    case (Some k)
    note k = tail_in_queue [OF assms(1) Some]
    have c: "core {} s" using assms(1) by (simp add: sched_ok_def)
    obtain ret s1 where q: "ipu_psys_kcmd_queue (Suc n) e k s = Some (ret, s1)" "queue_post s k ret s1"
      using queue_spec [OF c k(3,2) assms(2)] by blast
    show ?thesis
    proof (cases "ret = Inl ENOSPC")
      case True
      then have "eq_sched s s1" "ps_active s + ps_started s > 0" using q(2) by (simp_all add: queue_post_def)
      moreover have "run_fh (Suc n) e p f s = Some (Skip, s1)" using go Some q(1) True by (simp add: run_fh_def)
      ultimately show ?thesis
        using assms(1) sched_ok_same progress_same by (auto simp: turn_post_def eq_schedD)
    next
      case False
      then have st: "started_ok s k s1" using q(2) by (simp add: queue_post_def)
      have "run_fh (Suc n) e p f s =
          Some (Removed, list_move_tail f (set_tail f p (next_new s1 k (ps_queue s1 f p)) s1))"
        using go Some q(1) False by (simp add: run_fh_def)
      then show ?thesis using advance_tail [OF assms(1) Some st] by blast
    qed
  qed
qed

text \<open>A pass over all handles.\<close>

definition pass_post :: "psys_env \<Rightarrow> nat \<Rightarrow> nat list \<Rightarrow> psys \<Rightarrow> fh_turn \<Rightarrow> psys \<Rightarrow> bool" where
  "pass_post e p fs s turn s' \<longleftrightarrow> sched_ok s' \<and> progress s s' \<and>
     (\<forall>f' p'. p' \<noteq> p \<longrightarrow> ps_new_tail s' f' p' = ps_new_tail s f' p') \<and>
     (turn = Stop \<longrightarrow> ps_active s' > 0 \<and> \<not> en_enable_concurrency e) \<and>
     (turn = Skip \<longrightarrow> eq_sched s s' \<and>
        (ps_active s + ps_started s > 0 \<or> (\<forall>f \<in> set fs. ps_new_tail s f p = None))) \<and>
     (turn = Removed \<longrightarrow> workload s' p < workload s p) \<and> workload s' p \<le> workload s p"

lemma pass_step:
  assumes "turn_post e p f s turn s1" "turn \<noteq> Stop" "pass_post e p fs s1 turn' s2"
  shows "pass_post e p (f # fs) s (if turn' = Skip then turn else turn') s2"
proof -
  note t = assms(1) [unfolded turn_post_def] and q = assms(3) [unfolded pass_post_def]
  have prog: "progress s s2" using t q progress_trans by blast
  have w1: "workload s1 p \<le> workload s p" using t assms(2) by (cases turn) (auto simp: workload_same)
  show ?thesis
  proof (cases turn')
    case Stop
    then show ?thesis using t q prog w1 by (simp add: pass_post_def)
  next
    case Removed
    then show ?thesis using t q prog w1 by (simp add: pass_post_def)
  next
    case s': Skip
    show ?thesis
    proof (cases turn)
      case Skip
      then have "eq_sched s s1" "eq_sched s1 s2" using s' t q by simp_all
      then have "eq_sched s s2" by (rule eq_sched_trans)
      then show ?thesis using Skip s' t q prog by (simp add: pass_post_def eq_schedD [OF \<open>eq_sched s s1\<close>] workload_same) auto
    next
      case Removed
      then have "eq_sched s1 s2" "workload s1 p < workload s p" using s' t q by simp_all
      then show ?thesis using Removed s' t q prog by (simp add: pass_post_def workload_same)
    qed (use assms(2) in simp)
  qed
qed

lemma run_pass_spec:
  assumes "sched_ok s" "pm_ok e"
  shows "\<exists>turn s'. run_pass (Suc n) e p fs s = Some (turn, s') \<and> pass_post e p fs s turn s'"
  using assms(1)
proof (induction fs arbitrary: s)
  case Nil
  then show ?case using progress_same [OF eq_sched_refl] by (simp add: pass_post_def)
next
  case (Cons f fs)
  obtain turn s1 where 1: "run_fh (Suc n) e p f s = Some (turn, s1)" "turn_post e p f s turn s1"
    using run_fh_spec [OF Cons.prems assms(2)] by blast
  have ok1: "sched_ok s1" using 1(2) by (simp add: turn_post_def)
  show ?case
  proof (cases "turn = Stop")
    case True
    then have "run_pass (Suc n) e p (f # fs) s = Some (Stop, s1)" using 1(1) by simp
    moreover have "pass_post e p (f # fs) s Stop s1" using 1(2) ok1 True progress_same [OF eq_sched_refl, of s]
      by (simp add: turn_post_def pass_post_def)
    ultimately show ?thesis by blast
  next
    case False
    obtain turn' s2 where 2: "run_pass (Suc n) e p fs s1 = Some (turn', s2)" "pass_post e p fs s1 turn' s2"
      using Cons.IH [OF ok1] by blast
    have "run_pass (Suc n) e p (f # fs) s = Some (if turn' = Skip then turn else turn', s2)"
      using 1(1) 2(1) False by simp
    then show ?thesis using pass_step [OF 1(2) False 2(2)] by blast
  qed
qed

text \<open>One priority, and all of them; the fuel is one more than the work in the queues.\<close>

definition next_post :: "psys_env \<Rightarrow> nat list \<Rightarrow> psys \<Rightarrow> psys \<Rightarrow> bool" where
  "next_post e ps s s' \<longleftrightarrow> sched_ok s' \<and> progress s s' \<and>
     (\<forall>f p. p \<notin> set ps \<longrightarrow> ps_new_tail s' f p = ps_new_tail s f p) \<and>
     (ps_active s' + ps_started s' > 0 \<or> (\<forall>p \<in> set ps. \<forall>f \<in> set (ps_fhs s). ps_new_tail s' f p = None))"

lemma run_priority_spec:
  assumes "sched_ok s" "pm_ok e" "workload s p < m"
  shows "\<exists>stop s'. run_priority m (Suc n) e p s = Some (stop, s') \<and> next_post e [p] s s' \<and>
    (stop \<longrightarrow> ps_active s' > 0)"
  using assms(1,3)
proof (induction m arbitrary: s)
  case (Suc m)
  obtain turn s1 where 1: "run_pass (Suc n) e p (ps_fhs s) s = Some (turn, s1)"
      "pass_post e p (ps_fhs s) s turn s1"
    using run_pass_spec [OF Suc.prems(1) assms(2)] by blast
  note q = 1(2) [unfolded pass_post_def]
  show ?case
  proof (cases turn)
    case Stop
    have "ps_started s1 \<ge> 0" using q sched_nonneg by blast
    then show ?thesis using 1(1) q Stop by (intro exI [of _ True] exI [of _ s1]) (simp add: next_post_def)
  next
    case Skip
    then show ?thesis using 1(1) q by (auto simp: next_post_def eq_schedD)
  next
    case Removed
    then have "workload s1 p < m" using q Suc.prems(2) by simp
    then obtain stop s2 where 2: "run_priority m (Suc n) e p s1 = Some (stop, s2)" "next_post e [p] s1 s2"
        "stop \<longrightarrow> ps_active s2 > 0"
      using Suc.IH [of s1] q by blast
    note r = 2(2) [unfolded next_post_def]
    have "set (ps_fhs s1) = set (ps_fhs s)" using q by (simp add: progress_def)
    then have "next_post e [p] s s2" using q r progress_trans by (simp add: next_post_def) blast
    then show ?thesis using 1(1) 2 Removed by auto
  qed
qed simp

lemma run_priorities_spec:
  assumes "sched_ok s" "pm_ok e" "distinct ps" "\<And>p s'. progress s s' \<Longrightarrow> sched_ok s' \<Longrightarrow> workload s' p < m"
  shows "\<exists>s'. run_priorities m (Suc n) e ps s = Some s' \<and> next_post e ps s s'"
  using assms(1,3,4)
proof (induction ps arbitrary: s)
  case Nil
  then show ?case using progress_same [OF eq_sched_refl] by (simp add: next_post_def)
next
  case (Cons p ps)
  have "workload s p < m" using Cons.prems(3) [OF progress_same [OF eq_sched_refl] Cons.prems(1)] .
  then obtain stop s1 where 1: "run_priority m (Suc n) e p s = Some (stop, s1)" "next_post e [p] s s1"
      "stop \<longrightarrow> ps_active s1 > 0"
    using run_priority_spec [OF Cons.prems(1) assms(2)] by blast
  note q = 1(2) [unfolded next_post_def]
  have nn: "ps_started s1 \<ge> 0" using q sched_nonneg by blast
  show ?case
  proof (cases stop)
    case True
    then have "run_priorities m (Suc n) e (p # ps) s = Some s1" using 1(1) by simp
    moreover have "next_post e (p # ps) s s1" using q True 1(3) nn by (simp add: next_post_def)
    ultimately show ?thesis by blast
  next
    case False
    have pr: "progress s s1" and ok1: "sched_ok s1" using q by simp_all
    have bound: "workload s' p < m" if "progress s1 s'" "sched_ok s'" for p s'
      by (rule Cons.prems(3) [OF progress_trans [OF pr that(1)] that(2)])
    obtain s2 where 2: "run_priorities m (Suc n) e ps s1 = Some s2" "next_post e ps s1 s2"
      using Cons.IH [OF ok1 _ bound] Cons.prems(2) by auto
    note r = 2(2) [unfolded next_post_def]
    have "progress s s2" using pr r progress_trans by blast
    moreover have fh: "set (ps_fhs s1) = set (ps_fhs s)" using pr by (simp add: progress_def)
    moreover have "ps_active s2 + ps_started s2 \<ge> ps_active s1 + ps_started s1" using r by (simp add: progress_def)
    moreover have "ps_new_tail s2 f p = ps_new_tail s1 f p" for f using r Cons.prems(2) by simp
    ultimately have "next_post e (p # ps) s s2" using q r by (simp add: next_post_def) force
    then show ?thesis using 1(1) 2(1) False by simp
  qed
qed

text \<open>The commands that exist bound the work.\<close>

lemma workload_le:
  assumes "sched_ok s"
  shows "workload s p \<le> card (ps_live s)"
proof -
  have c: "finite (ps_live s)" "queued_ok s" and d: "distinct (ps_fhs s)"
    using assms by (auto simp: sched_ok_def core_def queues_ok_def)
  have "length (dropWhile P xs) \<le> length xs" for P and xs :: "nat list" by (rule length_dropWhile_le)
  then have "to_schedule s f p \<le> card (set (ps_queue s f p))" for f
    using c(2) by (auto simp: to_schedule_def queued_ok_def distinct_card split: option.split)
  then have "workload s p \<le> (\<Sum>f \<in> set (ps_fhs s). card (set (ps_queue s f p)))"
    unfolding workload_def by (rule sum_mono)
  also have "\<dots> = card (\<Union>f \<in> set (ps_fhs s). set (ps_queue s f p))"
    using queue_disjoint [OF c(2)] by (intro card_UN_disjoint [symmetric]) auto
  also have "\<dots> \<le> card (ps_live s)"
    using c by (intro card_mono) (auto simp: queued_ok_def)
  finally show ?thesis .
qed

lemma run_next_spec:
  assumes "sched_ok s" "pm_ok e" "card (ps_live s) < m"
  shows "\<exists>s'. ipu_psys_run_next m (Suc n) e s = Some s' \<and> next_post e [0..<IPU_PSYS_CMD_PRIORITY_NUM] s s'"
proof (cases "ps_fhs s = []")
  case True
  then show ?thesis using assms progress_same [OF eq_sched_refl] by (simp add: ipu_psys_run_next_def next_post_def)
next
  case False
  have "workload s' p < m" if "progress s s'" "sched_ok s'" for p s'
    using workload_le [OF that(2), of p] that(1) assms(3) by (simp add: progress_def)
  then show ?thesis
    using run_priorities_spec [OF assms(1,2), of "[0..<IPU_PSYS_CMD_PRIORITY_NUM]" m n] False
    by (simp add: ipu_psys_run_next_def)
qed

end
