(* ===== verification/PsysService.thy ===== *)
theory PsysService
  imports PsysSched
begin

text \<open>
  What the driver does beside scheduling: firmware events, reset, watchdog, closing a handle,
  picking up events, and queueing a command.  \<open>serves\<close> is the promise each of these keeps
  to the clients for commands that exist before and after.
\<close>


section \<open>Events, reset and watchdog\<close>

definition expired :: "psys \<Rightarrow> nat \<Rightarrow> bool" where
  "expired s x \<longleftrightarrow> kstate s x = KCMD_STATE_RUNNING \<and> km_watchdog (ps_kcmd s x) = None"

definition statics :: "psys \<Rightarrow> psys \<Rightarrow> nat \<Rightarrow> bool" where
  "statics s s' x \<longleftrightarrow> km_fh (ps_kcmd s' x) = km_fh (ps_kcmd s x) \<and>
     km_priority (ps_kcmd s' x) = km_priority (ps_kcmd s x) \<and>
     km_user_token (ps_kcmd s' x) = km_user_token (ps_kcmd s x) \<and>
     km_issue_id (ps_kcmd s' x) = km_issue_id (ps_kcmd s x)"

text \<open>
  What every step of the driver does for the clients: a complete command keeps its event, a
  command that gets complete gets the event that names it, no command expires or becomes new.
\<close>

definition served :: "psys \<Rightarrow> psys \<Rightarrow> nat \<Rightarrow> bool" where
  "served s s' x \<longleftrightarrow> statics s s' x \<and>
     (kstate s x = KCMD_STATE_COMPLETE \<longrightarrow>
        kstate s' x = KCMD_STATE_COMPLETE \<and> km_ev (ps_kcmd s' x) = km_ev (ps_kcmd s x)) \<and>
     (kstate s x \<noteq> KCMD_STATE_COMPLETE \<longrightarrow> kstate s' x = KCMD_STATE_COMPLETE \<longrightarrow>
        (\<exists>err. completed_with s' x err)) \<and>
     (kstate s' x = KCMD_STATE_NEW \<longrightarrow> kstate s x = KCMD_STATE_NEW) \<and>
     (expired s' x \<longrightarrow> expired s x)"

definition serves :: "psys \<Rightarrow> psys \<Rightarrow> bool" where
  "serves s s' \<longleftrightarrow> set (ps_fhs s') = set (ps_fhs s) \<and> ps_queue s' = ps_queue s \<and> ps_live s' = ps_live s \<and>
     (\<forall>x. served s s' x)"

lemma served_trans:
  assumes "served s s' x" "served s' s'' x"
  shows "served s s'' x"
proof (cases "kstate s' x = KCMD_STATE_COMPLETE")
  case True
  then have "completed_with s'' x err" if "completed_with s' x err" for err
    using that assms(2) by (simp add: served_def statics_def completed_with_def)
  then show ?thesis using assms True by (auto simp: served_def statics_def)
qed (use assms in \<open>auto simp: served_def statics_def\<close>)

lemma serves_trans [trans]: "serves s s' \<Longrightarrow> serves s' s'' \<Longrightarrow> serves s s''"
  by (auto simp: serves_def intro: served_trans)

lemma served_refl [simp]: "served s s x"
  by (simp add: served_def statics_def)

lemma serves_refl [simp]: "serves s s"
  by (simp add: serves_def)

lemma served_same: "eq_sched s s' \<Longrightarrow> served s s' x"
  by (auto simp: served_def statics_def expired_def eq_schedD)

lemma serves_same: "eq_sched s s' \<Longrightarrow> serves s s'"
  by (simp add: serves_def served_same eq_schedD)

lemma served_untouched: "untouched s s' x \<Longrightarrow> statics s s' x \<Longrightarrow> served s s' x"
  by (auto simp: served_def untouched_def expired_def)

lemma served_handed:
  assumes "handed s' x" "kstate s x \<noteq> KCMD_STATE_COMPLETE" "statics s s' x"
  shows "served s s' x"
  using assms by (auto simp: served_def handed_def expired_def completed_with_def)

lemma serves_progress:
  assumes "progress s s'"
  shows "serves s s'"
proof -
  have st: "statics s s' x" for x using assms by (simp add: progress_def statics_def)
  have "served s s' x" for x
  proof (cases "kstate s x = KCMD_STATE_NEW")
    case True
    then consider "kstate s' x = KCMD_STATE_NEW" | "handed s' x" using assms by (auto simp: progress_def)
    then show ?thesis
    proof cases
      case 1
      then show ?thesis using True st by (simp add: served_def expired_def)
    next
      case 2
      then show ?thesis using True st served_handed by simp
    qed
  next
    case False
    then show ?thesis using served_untouched st assms by (simp add: progress_def)
  qed
  then show ?thesis using assms by (simp add: serves_def progress_def)
qed

lemma statics_advanced: "advanced K s s' \<Longrightarrow> statics s s' x"
  by (simp add: statics_def advanced_def)

lemma serves_completed:
  assumes "advanced {k} s s'" "kstate s k \<noteq> KCMD_STATE_COMPLETE" "completed_with s' k err"
  shows "serves s s'"
proof -
  have "served s s' x" for x
    using assms served_untouched [OF advancedD(10) [OF assms(1)] statics_advanced [OF assms(1)], of x]
      served_handed [of s' x s, OF _ _ statics_advanced [OF assms(1)]]
    by (cases "x = k") (auto simp: handed_def)
  then show ?thesis by (simp add: serves_def advancedD [OF assms(1)])
qed

text \<open>
  The command is complete, or a watchdog handler was running and it is as it was.
\<close>

lemma abort_serves:
  assumes "core {} s" "k \<in> ps_live s"
  shows "\<exists>r s'. ipu_psys_kcmd_abort (Suc n) e k s = Some (r, s') \<and> core {} s' \<and> advanced {k} s s' \<and>
    serves s s' \<and> (kstate s' k = KCMD_STATE_COMPLETE \<or>
      kstate s k = KCMD_STATE_RUNNING \<and> handler_running e k \<and> eq_sched s s')"
proof -
  obtain r s' where a: "ipu_psys_kcmd_abort (Suc n) e k s = Some (r, s')" "core {} s'" "advanced {k} s s'"
      "kstate s k = KCMD_STATE_COMPLETE \<and> s' = s \<or> completed_with s' k r \<or>
       kstate s k = KCMD_STATE_RUNNING \<and> handler_running e k \<and> eq_sched s s'"
    using abort_spec [OF assms, of n e] by blast
  from a(4) consider (over) "kstate s k = KCMD_STATE_COMPLETE" "s' = s" | (compl) "completed_with s' k r"
    | (stuck) "kstate s k = KCMD_STATE_RUNNING" "handler_running e k" "eq_sched s s'" by blast
  then have "serves s s' \<and> (kstate s' k = KCMD_STATE_COMPLETE \<or>
      kstate s k = KCMD_STATE_RUNNING \<and> handler_running e k \<and> eq_sched s s')"
  proof cases
    case over
    then show ?thesis by simp
  next
    case compl
    show ?thesis
    proof (cases "kstate s k = KCMD_STATE_COMPLETE")
      case True
      then show ?thesis using a(1) by (simp add: ipu_psys_kcmd_abort_def kcmd_abort_body_def)
    next
      case nc: False
      then show ?thesis using serves_completed [OF a(3) nc compl] compl by (simp add: completed_with_def)
    qed
  next
    case stuck
    then show ?thesis using serves_same by blast
  qed
  then show ?thesis using a by blast
qed

text \<open>Tails and queues are right as long as no command moves in or out of the new state.\<close>

lemma tail_ok_cong:
  assumes "ps_new_tail s' = ps_new_tail s" "ps_queue s' = ps_queue s"
    "\<And>x. x \<in> ps_live s \<Longrightarrow> (kstate s' x = KCMD_STATE_NEW) = (kstate s x = KCMD_STATE_NEW)" "queued_ok s"
  shows "tail_ok s' = tail_ok s"
proof -
  have n: "(kstate s' x = KCMD_STATE_NEW) = (kstate s x = KCMD_STATE_NEW)" if "x \<in> set (ps_queue s f p)" for x f p
    using assms(3,4) that by (auto simp: queued_ok_def)
  have tw: "(\<forall>x \<in> set (takeWhile P (ps_queue s f p)). kstate s' x \<noteq> KCMD_STATE_NEW) =
      (\<forall>x \<in> set (takeWhile P (ps_queue s f p)). kstate s x \<noteq> KCMD_STATE_NEW)" for P f p
    by (rule ball_cong) (use n set_takeWhileD in fastforce)+
  have dw: "(\<forall>x \<in> set (dropWhile P (ps_queue s f p)). kstate s' x = KCMD_STATE_NEW) =
      (\<forall>x \<in> set (dropWhile P (ps_queue s f p)). kstate s x = KCMD_STATE_NEW)" for P f p
    by (rule ball_cong) (use n set_dropWhileD in fastforce)+
  have q: "(\<forall>x \<in> set (ps_queue s f p). kstate s' x \<noteq> KCMD_STATE_NEW) =
      (\<forall>x \<in> set (ps_queue s f p). kstate s x \<noteq> KCMD_STATE_NEW)" for f p
    by (rule ball_cong) (use n in auto)
  show ?thesis by (simp add: tail_ok_def assms(1,2) tw dw q split: option.split)
qed

lemma queues_ok_advanced: "advanced K s s' \<Longrightarrow> queues_ok s' = queues_ok s"
  by (simp add: queues_ok_def queue_of_def advancedD)

lemma sched_ok_advanced:
  assumes "sched_ok s" "advanced {k} s s'" "core {} s'" "kstate s k \<noteq> KCMD_STATE_NEW" "kstate s' k \<noteq> KCMD_STATE_NEW"
  shows "sched_ok s'"
proof -
  have "(kstate s' x = KCMD_STATE_NEW) = (kstate s x = KCMD_STATE_NEW)" for x
    using advancedD(10) [OF assms(2), of x] assms(4,5) by (cases "x = k") (auto simp: untouched_def)
  then have "tail_ok s' = tail_ok s"
    using assms(1) by (intro tail_ok_cong) (auto simp: advancedD [OF assms(2)] sched_ok_def core_def)
  then show ?thesis using assms(1,3) queues_ok_advanced [OF assms(2)] by (simp add: sched_ok_def)
qed

lemma valid_live: "queued_ok s \<Longrightarrow> ipu_psys_kcmd_is_valid s k \<Longrightarrow> k \<in> ps_live s"
  by (auto simp: ipu_psys_kcmd_is_valid_def queued_ok_def)

lemma kick_same [same_step]: "eq_sched s (kick_scheduler s)"
  unfolding kick_scheduler_def by (rule same_env)

text \<open>
  An event for a command the hardware has: it is completed, unless its watchdog handler is running,
  which leaves everything as it was.
\<close>

lemma handle_event_spec:
  assumes "sched_ok s"
    and "ipu_psys_kcmd_is_valid s (unat (pe_token ev)) \<Longrightarrow>
      kstate s (unat (pe_token ev)) \<in> {KCMD_STATE_STARTED, KCMD_STATE_RUNNING}"
  shows "\<exists>s'. handle_event (Suc n) e ev s = Some s' \<and> sched_ok s' \<and> serves s s' \<and>
    (ipu_psys_kcmd_is_valid s (unat (pe_token ev)) \<longrightarrow>
      (if kstate s (unat (pe_token ev)) = KCMD_STATE_RUNNING \<and> en_timer_running e (ps_calls s) (unat (pe_token ev))
       then eq_sched s s'
       else completed_with s' (unat (pe_token ev))
         (if pe_status ev = IPU_FW_PSYS_EVENT_TYPE_SUCCESS then None else Some EIO)))"
proof -
  let ?k = "unat (pe_token ev)"
  let ?err = "if pe_status ev = IPU_FW_PSYS_EVENT_TYPE_SUCCESS then None else Some EIO"
  note kick = sched_ok_same [OF kick_same] serves_same [OF kick_same]
  consider (unknown) "\<not> ipu_psys_kcmd_is_valid s ?k"
    | (stuck) "ipu_psys_kcmd_is_valid s ?k" "kstate s ?k = KCMD_STATE_RUNNING" "en_timer_running e (ps_calls s) ?k"
    | (compl) "ipu_psys_kcmd_is_valid s ?k" "\<not> (kstate s ?k = KCMD_STATE_RUNNING \<and> en_timer_running e (ps_calls s) ?k)"
    by blast
  then show ?thesis
  proof cases
    case unknown
    then have "handle_event (Suc n) e ev s = Some (kick_scheduler s)" by (simp add: handle_event_def)
    then show ?thesis using unknown assms(1) kick by simp
  next
    case stuck
    let ?t = "s\<lparr>ps_calls := Suc (ps_calls s)\<rparr>"
    have "eq_sched s ?t" by (rule same_env)
    then have t: "eq_sched s (kick_scheduler ?t)" using eq_sched_trans [OF _ kick_same] by blast
    have "handle_event (Suc n) e ev s = Some (kick_scheduler ?t)"
      using stuck complete_stuck [OF stuck(2,3), of n ?err] by (simp add: handle_event_def del: ipu_psys_kcmd_complete.simps)
    then show ?thesis using stuck assms(1) t sched_ok_same [OF t] serves_same [OF t] by simp
  next
    case compl
    have c: "core {} s" "queued_ok s" using assms(1) by (simp_all add: sched_ok_def core_def)
    have k: "?k \<in> ps_live s" by (rule valid_live [OF c(2) compl(1)])
    have st: "kstate s ?k \<in> {KCMD_STATE_STARTED, KCMD_STATE_RUNNING}" by (rule assms(2) [OF compl(1)])
    have pre: "complete_pre s ?k" using c k st by (auto simp: complete_pre_def)
    obtain s1 where s1: "ipu_psys_kcmd_complete (Suc n) e ?k ?err s = Some s1" "core {} s1" "advanced {?k} s s1"
        "completed_with s1 ?k ?err"
      using complete_spec [OF pre, of e n ?err] compl(2) by blast
    have "sched_ok s1"
      using sched_ok_advanced [OF assms(1) s1(3,2)] st s1(4) by (auto simp: completed_with_def)
    moreover have "serves s s1" using serves_completed [OF s1(3) _ s1(4)] st by auto
    moreover have "completed_with (kick_scheduler s1) ?k ?err"
      using s1(4) by (simp add: completed_with_def eq_schedD [OF kick_same])
    moreover have "handle_event (Suc n) e ev s = Some (kick_scheduler s1)"
      using compl(1) s1(1) by (simp add: handle_event_def del: ipu_psys_kcmd_complete.simps)
    ultimately show ?thesis
      using compl(2) sched_ok_same [OF kick_same] serves_trans [OF _ serves_same [OF kick_same]] by auto
  qed
qed

text \<open>
  The flush: every command of every queue is completed, unless its watchdog handler is running.
\<close>

definition settled :: "psys_env \<Rightarrow> psys \<Rightarrow> nat \<Rightarrow> bool" where
  "settled e s k \<longleftrightarrow> kstate s k = KCMD_STATE_COMPLETE \<or> kstate s k \<noteq> KCMD_STATE_NEW \<and> handler_running e k"

lemma settled_serves: "settled e s k \<Longrightarrow> serves s s' \<Longrightarrow> settled e s' k"
  by (auto simp: settled_def serves_def served_def)

lemma complete_all_spec:
  assumes "core {} s" "set ks \<subseteq> ps_live s"
  shows "\<exists>s'. complete_all (Suc n) e err ks s = Some s' \<and> core {} s' \<and> serves s s' \<and>
    ps_fhs s' = ps_fhs s \<and> ps_new_tail s' = ps_new_tail s \<and>
    (\<forall>k \<in> set ks. settled e s' k)"
  using assms
proof (induction ks arbitrary: s)
  case (Cons k ks)
  have k: "k \<in> ps_live s" using Cons.prems(2) by simp
  obtain s1 where s1: "(if kstate s k = KCMD_STATE_COMPLETE then Some s
       else ipu_psys_kcmd_complete (Suc n) e k err s) = Some s1" "core {} s1" "serves s s1"
      "ps_fhs s1 = ps_fhs s" "ps_new_tail s1 = ps_new_tail s" "settled e s1 k"
  proof (cases "kstate s k = KCMD_STATE_COMPLETE")
    case True
    then show ?thesis using that Cons.prems(1) by (simp add: settled_def)
  next
    case False
    then have "kstate s k \<in> {KCMD_STATE_NEW, KCMD_STATE_STARTED, KCMD_STATE_RUNNING}"
      using coreD(7) [OF Cons.prems(1) k] by (cases "kstate s k") (auto simp: prepared_def)
    then have pre: "complete_pre s k" using Cons.prems(1) k unfolding complete_pre_def by blast
    obtain s1 where c: "ipu_psys_kcmd_complete (Suc n) e k err s = Some s1" "advanced {k} s s1"
        "core {} s1 \<and> completed_with s1 k err \<or>
         kstate s k = KCMD_STATE_RUNNING \<and> en_timer_running e (ps_calls s) k \<and> eq_sched s s1"
      using complete_any [OF pre, of n e err] by blast
    have "core {} s1 \<and> serves s s1 \<and> settled e s1 k"
    proof (cases "core {} s1 \<and> completed_with s1 k err")
      case True
      then show ?thesis using serves_completed [OF c(2) False] by (simp add: settled_def completed_with_def)
    next
      case stuck: False
      then have st: "kstate s k = KCMD_STATE_RUNNING" "handler_running e k" "eq_sched s s1"
        using c(3) by (auto simp: handler_running_def)
      then show ?thesis
        using core_same [OF st(3)] serves_same [OF st(3)] Cons.prems(1) by (simp add: settled_def eq_schedD [OF st(3)])
    qed
    then show ?thesis
      using that [of s1] c(1) False advancedD(1,3) [OF c(2)] by (simp del: ipu_psys_kcmd_complete.simps)
  qed
  have "set ks \<subseteq> ps_live s1" using Cons.prems(2) s1(3) by (simp add: serves_def)
  then obtain s2 where s2: "complete_all (Suc n) e err ks s1 = Some s2" "core {} s2" "serves s1 s2"
      "ps_fhs s2 = ps_fhs s1" "ps_new_tail s2 = ps_new_tail s1" "\<forall>k \<in> set ks. settled e s2 k"
    using Cons.IH [OF s1(2)] by blast
  have "settled e s2 k" by (rule settled_serves [OF s1(6) s2(3)])
  moreover have "complete_all (Suc n) e err (k # ks) s = Some s2"
    using s1(1) s2(1) by (simp del: ipu_psys_kcmd_complete.simps)
  ultimately show ?case using s1 s2 serves_trans [OF s1(3) s2(3)] by simp
qed simp

lemma serves_set_tail: "serves s (set_tail f p k s)"
  by (simp add: serves_def served_def statics_def expired_def)

text \<open>What is left of the queues: settled commands and no pointer.\<close>

definition flushed :: "psys_env \<Rightarrow> (nat \<times> nat) set \<Rightarrow> (nat \<Rightarrow> nat \<Rightarrow> nat option) \<Rightarrow> psys \<Rightarrow> bool" where
  "flushed e Q T s \<longleftrightarrow> (\<forall>f p. ps_new_tail s f p = None \<or> ps_new_tail s f p = T f p) \<and>
     (\<forall>(f, p) \<in> Q. ps_new_tail s f p = None \<and>
     (\<forall>k \<in> set (ps_queue s f p). settled e s k))"

lemma flush_queues_spec:
  assumes "core {} s" "flushed e Q T s"
  shows "\<exists>s'. flush_queues (Suc n) e err f ps s = Some s' \<and> core {} s' \<and> serves s s' \<and>
    ps_fhs s' = ps_fhs s \<and> flushed e (Q \<union> {f} \<times> set ps) T s'"
  using assms
proof (induction ps arbitrary: s Q)
  case (Cons p ps)
  let ?s = "set_tail f p None s"
  have "core {} ?s" using Cons.prems(1) by simp
  moreover have "set (ps_queue ?s f p) \<subseteq> ps_live ?s"
    using coreD(2) [OF Cons.prems(1)] by (auto simp: queued_ok_def)
  ultimately obtain s1 where s1: "complete_all (Suc n) e err (ps_queue ?s f p) ?s = Some s1" "core {} s1"
      "serves ?s s1" "ps_fhs s1 = ps_fhs ?s" "ps_new_tail s1 = ps_new_tail ?s"
      "\<forall>k \<in> set (ps_queue ?s f p). settled e s1 k"
    using complete_all_spec by blast
  have q: "ps_queue s1 = ps_queue s" using s1(3) by (simp add: serves_def)
  have keep: "settled e s1 k" if "settled e s k" for k
    using that settled_serves [OF _ s1(3), of e k] by (simp add: settled_def)
  have "flushed e (insert (f, p) Q) T s1"
    using Cons.prems(2) s1(5,6) keep by (auto simp: flushed_def q split: if_splits)
  then obtain s2 where s2: "flush_queues (Suc n) e err f ps s1 = Some s2" "core {} s2" "serves s1 s2"
      "ps_fhs s2 = ps_fhs s1" "flushed e (insert (f, p) Q \<union> {f} \<times> set ps) T s2"
    using Cons.IH [OF s1(2)] by blast
  have "flush_queues (Suc n) e err f (p # ps) s = Some s2"
    using s1(1) s2(1) by (simp add: Let_def del: complete_all.simps)
  moreover have "serves s s2" by (rule serves_trans [OF serves_set_tail serves_trans [OF s1(3) s2(3)]])
  moreover have "Q \<union> {f} \<times> set (p # ps) = insert (f, p) Q \<union> {f} \<times> set ps" by auto
  ultimately show ?case using s1(4) s2 by simp
qed simp

lemma flush_fhs_spec:
  assumes "core {} s" "flushed e Q T s"
  shows "\<exists>s'. flush_fhs (Suc n) e err fs s = Some s' \<and> core {} s' \<and> serves s s' \<and>
    ps_fhs s' = ps_fhs s \<and> flushed e (Q \<union> set fs \<times> {..<IPU_PSYS_CMD_PRIORITY_NUM}) T s'"
  using assms
proof (induction fs arbitrary: s Q)
  case (Cons f fs)
  obtain s1 where s1: "flush_queues (Suc n) e err f [0..<IPU_PSYS_CMD_PRIORITY_NUM] s = Some s1" "core {} s1"
      "serves s s1" "ps_fhs s1 = ps_fhs s" "flushed e (Q \<union> {f} \<times> set [0..<IPU_PSYS_CMD_PRIORITY_NUM]) T s1"
    using flush_queues_spec [OF Cons.prems] by blast
  obtain s2 where s2: "flush_fhs (Suc n) e err fs s1 = Some s2" "core {} s2" "serves s1 s2"
      "ps_fhs s2 = ps_fhs s1"
      "flushed e (Q \<union> {f} \<times> set [0..<IPU_PSYS_CMD_PRIORITY_NUM] \<union> set fs \<times> {..<IPU_PSYS_CMD_PRIORITY_NUM}) T s2"
    using Cons.IH [OF s1(2,5)] by blast
  moreover have "Q \<union> set (f # fs) \<times> {..<IPU_PSYS_CMD_PRIORITY_NUM} =
      Q \<union> {f} \<times> set [0..<IPU_PSYS_CMD_PRIORITY_NUM] \<union> set fs \<times> {..<IPU_PSYS_CMD_PRIORITY_NUM}" by auto
  ultimately show ?case using s1(1,4) serves_trans [OF s1(3) s2(3)] by simp
qed simp

lemma flush_kcmds_spec:
  assumes "sched_ok s"
  shows "\<exists>s'. ipu_psys_flush_kcmds (Suc n) e err s = Some s' \<and> sched_ok s' \<and> serves s s' \<and>
    (\<forall>k \<in> ps_live s'. settled e s' k)"
proof -
  have c: "core {} s" "queues_ok s" using assms(1) by (simp_all add: sched_ok_def)
  have "flushed e {} (ps_new_tail s) s" by (simp add: flushed_def)
  then obtain s' where s': "flush_fhs (Suc n) e err (ps_fhs s) s = Some s'" "core {} s'" "serves s s'"
      "ps_fhs s' = ps_fhs s" "flushed e ({} \<union> set (ps_fhs s) \<times> {..<IPU_PSYS_CMD_PRIORITY_NUM}) (ps_new_tail s) s'"
    using flush_fhs_spec [OF c(1)] by blast
  have qo: "queues_ok s'"
    using c(2) s'(3,4) by (simp add: queues_ok_def queue_of_def serves_def served_def statics_def)
  have all: "settled e s' k" if "k \<in> ps_live s'" for k
  proof -
    have q: "k \<in> set (queue_of s' k)" using qo that by (simp add: queues_ok_def)
    then have "queue_of s' k \<noteq> []" by auto
    then have "km_fh (ps_kcmd s' k) \<in> set (ps_fhs s)" "unat (km_priority (ps_kcmd s' k)) < IPU_PSYS_CMD_PRIORITY_NUM"
      using qo s'(4) by (auto simp: queues_ok_def queue_of_def)
    then show ?thesis using s'(5) q by (auto simp: flushed_def queue_of_def)
  qed
  have notail: "ps_new_tail s' f p = None" if "f \<in> set (ps_fhs s)" "p < IPU_PSYS_CMD_PRIORITY_NUM" for f p
    using s'(5) that by (auto simp: flushed_def)
  have "tail_ok s'"
    unfolding tail_ok_def
  proof (intro allI)
    fix f p
    have "ps_new_tail s' f p = None"
    proof (cases "f \<in> set (ps_fhs s) \<and> p < IPU_PSYS_CMD_PRIORITY_NUM")
      case False
      then have "ps_new_tail s f p = None"
        using tail_in_queue(5,6) [OF assms(1), of f p] by (cases "ps_new_tail s f p") auto
      then show ?thesis using s'(5) by (metis (no_types, lifting) flushed_def)
    qed (use notail in simp)
    moreover have "\<forall>x \<in> set (ps_queue s' f p). kstate s' x \<noteq> KCMD_STATE_NEW"
      using all coreD(2) [OF s'(2)] unfolding queued_ok_def settled_def by (metis kcmd_state.distinct(9))
    ultimately show "case ps_new_tail s' f p of None \<Rightarrow> \<forall>x \<in> set (ps_queue s' f p). kstate s' x \<noteq> KCMD_STATE_NEW
       | Some k \<Rightarrow> k \<in> set (ps_queue s' f p) \<and>
         (\<forall>x \<in> set (takeWhile (\<lambda>x. x \<noteq> k) (ps_queue s' f p)). kstate s' x \<noteq> KCMD_STATE_NEW) \<and>
         (\<forall>x \<in> set (dropWhile (\<lambda>x. x \<noteq> k) (ps_queue s' f p)). kstate s' x = KCMD_STATE_NEW)"
      by simp
  qed
  then show ?thesis using s' qo all by (simp add: ipu_psys_flush_kcmds_def sched_ok_def)
qed

definition run_fuel :: "psys \<Rightarrow> nat" where
  "run_fuel s = Suc (card (ps_live s))"

lemma reset_spec:
  assumes "sched_ok s" "pm_ok e"
  shows "\<exists>s'. ipu_psys_reset (run_fuel s) (Suc n) e pw s = Some s' \<and> sched_ok s' \<and> serves s s' \<and>
    (pw \<longrightarrow> (\<forall>k \<in> ps_live s. settled e s' k))"
proof (cases pw)
  case False
  then show ?thesis using assms by (simp add: ipu_psys_reset_def)
next
  case True
  obtain s1 where s1: "ipu_psys_flush_kcmds (Suc n) e (Some EIO) s = Some s1" "sched_ok s1" "serves s s1"
      "\<forall>k \<in> ps_live s1. settled e s1 k"
    using flush_kcmds_spec [OF assms(1)] by blast
  have l: "ps_live s1 = ps_live s" using s1(3) by (simp add: serves_def)
  obtain s2 where s2: "ipu_psys_run_next (run_fuel s) (Suc n) e s1 = Some s2"
      "next_post e [0..<IPU_PSYS_CMD_PRIORITY_NUM] s1 s2"
    using run_next_spec [OF s1(2) assms(2), of "run_fuel s" n] l by (auto simp: run_fuel_def)
  have p: "sched_ok s2" "serves s1 s2" using s2(2) serves_progress by (auto simp: next_post_def)
  have "settled e s2 k" if "k \<in> ps_live s" for k
    using that s1(4) l settled_serves [OF _ p(2)] by simp
  then show ?thesis
    using True s1(1) s2(1) p serves_trans [OF s1(3) p(2)] by (simp add: ipu_psys_reset_def)
qed

text \<open>What the watchdog leaves: no expired command but those whose handler is running again.\<close>

definition overdue :: "psys_env \<Rightarrow> psys \<Rightarrow> nat \<Rightarrow> bool" where
  "overdue e s k \<longleftrightarrow> expired s k \<and> \<not> handler_running e k"

lemma overdue_serves: "serves s s' \<Longrightarrow> overdue e s' k \<Longrightarrow> overdue e s k"
  by (simp add: overdue_def serves_def served_def)

lemma watch_queue_spec:
  assumes "sched_ok s" "set ks \<subseteq> ps_live s"
    and "\<And>j. tail = Some j \<Longrightarrow> j \<in> set ks \<Longrightarrow> \<forall>x \<in> set (dropWhile (\<lambda>x. x \<noteq> j) ks). kstate s x = KCMD_STATE_NEW"
  shows "\<exists>failed s'. watch_queue (Suc n) e tail ks s = Some (failed, s') \<and> sched_ok s' \<and> serves s s' \<and>
    ps_new_tail s' = ps_new_tail s \<and> ps_fhs s' = ps_fhs s \<and> (\<not> failed \<longrightarrow> (\<forall>k \<in> set ks. \<not> overdue e s' k))"
  using assms
proof (induction ks arbitrary: s)
  case (Cons k ks)
  have k: "k \<in> ps_live s" "set ks \<subseteq> ps_live s" using Cons.prems(2) by auto
  have rest: "\<forall>x \<in> set (dropWhile (\<lambda>x. x \<noteq> j) ks). kstate s x = KCMD_STATE_NEW"
    if "tail = Some j" "j \<in> set ks" for j
    using Cons.prems(3) [OF that(1)] that(2) by (cases "k = j") (auto dest: set_dropWhileD)
  show ?case
  proof (cases "tail = Some k")
    case True
    then have "\<forall>x \<in> set (k # ks). kstate s x = KCMD_STATE_NEW" using Cons.prems(3) [OF True] by simp
    then show ?thesis using True Cons.prems(1) by (auto simp: overdue_def expired_def)
  next
    case nt: False
    show ?thesis
    proof (cases "expired s k")
      case False
      obtain failed s' where w: "watch_queue (Suc n) e tail ks s = Some (failed, s')" "sched_ok s'" "serves s s'"
          "ps_new_tail s' = ps_new_tail s" "ps_fhs s' = ps_fhs s" "\<not> failed \<longrightarrow> (\<forall>k \<in> set ks. \<not> overdue e s' k)"
        using Cons.IH [OF Cons.prems(1) k(2) rest] by blast
      have "\<not> overdue e s' k" using False w(3) by (auto simp: serves_def served_def overdue_def)
      moreover have "watch_queue (Suc n) e tail (k # ks) s = Some (failed, s')"
        using nt False w(1) by (auto simp: expired_def)
      ultimately show ?thesis using w by auto
    next
      case True
      have c: "core {} s" using Cons.prems(1) by (simp add: sched_ok_def)
      obtain r s1 where a: "ipu_psys_kcmd_abort (Suc n) e k s = Some (r, s1)" "core {} s1" "advanced {k} s s1"
          "serves s s1" "kstate s1 k = KCMD_STATE_COMPLETE \<or>
             kstate s k = KCMD_STATE_RUNNING \<and> handler_running e k \<and> eq_sched s s1"
        using abort_serves [OF c k(1)] by blast
      have "kstate s1 k \<noteq> KCMD_STATE_NEW" using a(5) by (auto simp: eq_schedD)
      then have ok1: "sched_ok s1"
        using sched_ok_advanced [OF Cons.prems(1) a(3,2)] True by (simp add: expired_def)
      have od: "\<not> overdue e s1 k" using a(5) by (auto simp: overdue_def expired_def)
      have new: "kstate s1 x = KCMD_STATE_NEW" if "kstate s x = KCMD_STATE_NEW" for x
        using that advancedD(10) [OF a(3), of x] True by (cases "x = k") (auto simp: untouched_def expired_def)
      show ?thesis
      proof (cases r)
        case (Some err)
        have "watch_queue (Suc n) e tail (k # ks) s = Some (True, s1)"
          using nt True a(1) Some by (simp add: expired_def)
        then show ?thesis using ok1 a(4) advancedD(1,3) [OF a(3)]
          by (intro exI [of _ True] exI [of _ s1]) simp
      next
        case None
        have "set ks \<subseteq> ps_live s1" using k(2) advancedD(4) [OF a(3)] by simp
        then obtain failed s' where w: "watch_queue (Suc n) e tail ks s1 = Some (failed, s')" "sched_ok s'"
            "serves s1 s'" "ps_new_tail s' = ps_new_tail s1" "ps_fhs s' = ps_fhs s1"
            "\<not> failed \<longrightarrow> (\<forall>k \<in> set ks. \<not> overdue e s' k)"
          using Cons.IH [OF ok1] rest new by blast
        have "\<not> overdue e s' k" using overdue_serves [OF w(3)] od by blast
        moreover have "watch_queue (Suc n) e tail (k # ks) s = Some (failed, s')"
          using nt True a(1) None w(1) by (simp add: expired_def)
        ultimately show ?thesis using w serves_trans [OF a(4) w(3)] advancedD [OF a(3)] by simp
      qed
    qed
  qed
qed (rule exI [of _ False], simp)

lemma watch_queues_spec:
  assumes "sched_ok s"
  shows "\<exists>failed s'. watch_queues (Suc n) e qs s = Some (failed, s') \<and> sched_ok s' \<and> serves s s' \<and>
    (\<not> failed \<longrightarrow> (\<forall>(f, p) \<in> set qs. \<forall>k \<in> set (ps_queue s f p). \<not> overdue e s' k))"
  using assms
proof (induction qs arbitrary: s)
  case (Cons q qs)
  obtain f p where q: "q = (f, p)" by (cases q)
  have live: "set (ps_queue s f p) \<subseteq> ps_live s"
    using Cons.prems by (auto simp: sched_ok_def core_def queued_ok_def)
  obtain failed s1 where w: "watch_queue (Suc n) e (ps_new_tail s f p) (ps_queue s f p) s = Some (failed, s1)"
      "sched_ok s1" "serves s s1" "\<not> failed \<longrightarrow> (\<forall>k \<in> set (ps_queue s f p). \<not> overdue e s1 k)"
    using watch_queue_spec [OF Cons.prems live, of "ps_new_tail s f p" n] tail_in_queue(8) [OF Cons.prems]
    by blast
  show ?case
  proof (cases failed)
    case True
    then show ?thesis using w(1,2,3) q by (intro exI [of _ True] exI [of _ s1]) simp
  next
    case False
    obtain failed' s2 where w2: "watch_queues (Suc n) e qs s1 = Some (failed', s2)" "sched_ok s2" "serves s1 s2"
        "\<not> failed' \<longrightarrow> (\<forall>(f, p) \<in> set qs. \<forall>k \<in> set (ps_queue s1 f p). \<not> overdue e s2 k)"
      using Cons.IH [OF w(2)] by blast
    have "ps_queue s1 = ps_queue s" using w(3) by (simp add: serves_def)
    moreover have "\<not> overdue e s2 k" if "\<not> overdue e s1 k" for k
      using that overdue_serves [OF w2(3)] by blast
    moreover have "watch_queues (Suc n) e (q # qs) s = Some (failed', s2)" using w(1) w2(1) False q by simp
    ultimately show ?thesis using w w2 q False serves_trans [OF w(3) w2(3)] by auto
  qed
qed (rule exI [of _ False], simp)

lemma watchdog_work_spec:
  assumes "sched_ok s" "pm_ok e"
  shows "\<exists>s'. ipu_psys_watchdog_work (run_fuel s) (Suc n) e pw s = Some s' \<and> sched_ok s' \<and> serves s s' \<and>
    ((\<forall>k \<in> ps_live s. \<not> overdue e s' k) \<or> \<not> pw)"
proof -
  obtain failed s1 where w: "watch_queues (Suc n) e (queue_walk s) s = Some (failed, s1)" "sched_ok s1"
      "serves s s1" "\<not> failed \<longrightarrow> (\<forall>(f, p) \<in> set (queue_walk s). \<forall>k \<in> set (ps_queue s f p). \<not> overdue e s1 k)"
    using watch_queues_spec [OF assms(1)] by blast
  have l: "ps_live s1 = ps_live s" using w(3) by (simp add: serves_def)
  show ?thesis
  proof (cases failed)
    case True
    have "run_fuel s1 = run_fuel s" by (simp add: run_fuel_def l)
    then obtain s2 where s2: "ipu_psys_reset (run_fuel s) (Suc n) e pw s1 = Some s2" "sched_ok s2" "serves s1 s2"
        "pw \<longrightarrow> (\<forall>k \<in> ps_live s1. settled e s2 k)"
      using reset_spec [OF w(2) assms(2), of n pw] by auto
    then show ?thesis
      using True w(1) serves_trans [OF w(3) s2(3)] l by (auto simp: ipu_psys_watchdog_work_def overdue_def expired_def settled_def)
  next
    case False
    have "\<not> overdue e s1 k" if "k \<in> ps_live s" for k
    proof -
      have q: "k \<in> set (queue_of s k)" "queues_ok s" using assms(1) that by (auto simp: sched_ok_def queues_ok_def)
      then have "queue_of s k \<noteq> []" by auto
      then have "(km_fh (ps_kcmd s k), unat (km_priority (ps_kcmd s k))) \<in> set (queue_walk s)"
        using q(2) by (simp add: queue_walk_def queues_ok_def queue_of_def)
      then show ?thesis using w(4) False q(1) by (auto simp: queue_of_def)
    qed
    moreover have "overdue e (kick_scheduler s1) k = overdue e s1 k" for k
      by (simp add: overdue_def expired_def eq_schedD [OF kick_same])
    ultimately show ?thesis
      using False w sched_ok_same [OF kick_same] serves_trans [OF w(3) serves_same [OF kick_same]]
      by (simp add: ipu_psys_watchdog_work_def)
  qed
qed

section \<open>Commands leave and arrive\<close>

text \<open>Freeing a command that is complete.\<close>

lemma list_del_queue:
  assumes "queued_ok s" "k \<in> set (ps_queue s f p)"
  shows "ps_queue (ipu_psys_kcmd_free b k s) f' p' = (if f' = f \<and> p' = p then remove1 k (ps_queue s f p) else ps_queue s f' p')"
proof -
  have "km_fh (ps_kcmd s k) = f" "unat (km_priority (ps_kcmd s k)) = p"
    using assms by (auto simp: queued_ok_def)
  then show ?thesis by (simp add: ipu_psys_kcmd_free_def list_del_kcmd_def Let_def upd_kpg_def)
qed

lemma kcmd_free_frame [simp]:
  "ps_fhs (ipu_psys_kcmd_free b k s) = ps_fhs s" "ps_new_tail (ipu_psys_kcmd_free b k s) = ps_new_tail s"
  "ps_live (ipu_psys_kcmd_free b k s) = ps_live s - {k}" "ps_kcmd (ipu_psys_kcmd_free b k s) = ps_kcmd s"
  "ps_started_list (ipu_psys_kcmd_free b k s) = ps_started_list s"
  "ps_started (ipu_psys_kcmd_free b k s) = ps_started s" "ps_active (ipu_psys_kcmd_free b k s) = ps_active s"
  "ps_fault (ipu_psys_kcmd_free b k s) = (ps_fault s \<or> k \<notin> ps_live s)"
  "ps_freq (ipu_psys_kcmd_free b k s) = ps_freq s"
  by (simp_all add: ipu_psys_kcmd_free_def list_del_kcmd_def Let_def upd_kpg_def)

lemma kcmd_free_core:
  assumes "core {} s" "k \<in> set (ps_queue s f p)" "kstate s k = KCMD_STATE_COMPLETE"
  shows "core {} (ipu_psys_kcmd_free b k s)"
proof -
  have q: "queued_ok s" using assms(1) by (simp add: core_def)
  have k: "k \<in> ps_live s" "distinct (ps_queue s f' p')" for f' p' using q assms(2) by (auto simp: queued_ok_def)
  have notin: "k \<notin> set (ps_queue (ipu_psys_kcmd_free b k s) f' p')" for f' p'
    using queue_disjoint [OF q assms(2)] k(2) by (auto simp: list_del_queue [OF q assms(2)])
  have sub: "set (ps_queue (ipu_psys_kcmd_free b k s) f' p') \<subseteq> set (ps_queue s f' p')" for f' p'
    using set_remove1_subset [of k "ps_queue s f p"] by (auto simp: list_del_queue [OF q assms(2)])
  have q': "queued_ok (ipu_psys_kcmd_free b k s)"
    unfolding queued_ok_def
  proof (intro conjI allI impI)
    show "distinct (ps_queue (ipu_psys_kcmd_free b k s) f' p')" for f' p'
      using k(2) by (simp add: list_del_queue [OF q assms(2)])
    fix f' p' x assume x: "x \<in> set (ps_queue (ipu_psys_kcmd_free b k s) f' p')"
    then have "x \<noteq> k" "x \<in> set (ps_queue s f' p')" using notin sub by blast+
    then show "x \<in> ps_live (ipu_psys_kcmd_free b k s)" "km_fh (ps_kcmd (ipu_psys_kcmd_free b k s) x) = f'"
      "unat (km_priority (ps_kcmd (ipu_psys_kcmd_free b k s) x)) = p'"
      using q by (simp_all add: queued_ok_def)
  qed
  have "holding st {} (ipu_psys_kcmd_free b k s) = holding st {} s" if "st \<noteq> KCMD_STATE_COMPLETE" for st
    using assms(3) that by (auto simp: holding_def)
  then show ?thesis
    using coreD(7,8) [OF assms(1)] k(1)
    by (intro coreI) (auto simp: coreD(1-6,9) [OF assms(1)] q')
qed

text \<open>Picking up the first complete command of a handle.\<close>

lemma find_Some_iff2: "List.find P xs = Some x \<Longrightarrow> x \<in> set xs \<and> P x"
  by (induction xs) (auto split: if_splits)

lemma get_completed_spec:
  assumes "ipu_get_completed_kcmd f s = Some k"
  obtains p q where "p < IPU_PSYS_CMD_PRIORITY_NUM" "ps_queue s f p = k # q" "kstate s k = KCMD_STATE_COMPLETE"
proof -
  obtain p where p: "List.find (\<lambda>p. case ps_queue s f p of [] \<Rightarrow> False | k # _ \<Rightarrow> kstate s k = KCMD_STATE_COMPLETE)
       [0..<IPU_PSYS_CMD_PRIORITY_NUM] = Some p" "k = hd (ps_queue s f p)"
    using assms by (auto simp: ipu_get_completed_kcmd_def split: option.splits)
  from find_Some_iff2 [OF p(1)] p(2) show ?thesis
    by (auto split: list.splits intro: that)
qed

lemma kcmd_free_sched:
  assumes "sched_ok s" "ps_queue s f p = k # q" "kstate s k = KCMD_STATE_COMPLETE"
  shows "sched_ok (ipu_psys_kcmd_free b k s)"
proof -
  let ?s = "ipu_psys_kcmd_free b k s"
  have c: "core {} s" "queued_ok s" "queues_ok s" using assms(1) by (simp_all add: sched_ok_def core_def)
  have k: "k \<in> set (ps_queue s f p)" using assms(2) by simp
  have q': "ps_queue ?s f' p' = (if f' = f \<and> p' = p then q else ps_queue s f' p')" for f' p'
    using list_del_queue [OF c(2) k] assms(2) by simp
  have "tail_ok ?s"
    unfolding tail_ok_def kcmd_free_frame
  proof (intro allI)
    fix f' p'
    note t = assms(1) [unfolded sched_ok_def tail_ok_def, THEN conjunct2, THEN conjunct1, rule_format, of f' p']
    show "case ps_new_tail s f' p' of None \<Rightarrow> \<forall>x \<in> set (ps_queue ?s f' p'). kstate s x \<noteq> KCMD_STATE_NEW
       | Some k \<Rightarrow> k \<in> set (ps_queue ?s f' p') \<and>
         (\<forall>x \<in> set (takeWhile (\<lambda>x. x \<noteq> k) (ps_queue ?s f' p')). kstate s x \<noteq> KCMD_STATE_NEW) \<and>
         (\<forall>x \<in> set (dropWhile (\<lambda>x. x \<noteq> k) (ps_queue ?s f' p')). kstate s x = KCMD_STATE_NEW)"
    proof (cases "f' = f \<and> p' = p")
      case True
      have "j \<noteq> k" if "ps_new_tail s f p = Some j" for j
        using tail_in_queue(2) [OF assms(1) that] assms(3) by auto
      moreover have "ps_queue ?s f p = q" using q' by simp
      ultimately show ?thesis
        using t True assms(2) by (cases "ps_new_tail s f p") (auto split: if_splits)
    next
      case False
      then have "ps_queue ?s f' p' = ps_queue s f' p'" using q' by auto
      then show ?thesis using t by (simp split: option.splits)
    qed
  qed
  moreover have "queues_ok ?s"
    unfolding queues_ok_def
  proof (intro conjI allI ballI impI)
    show "distinct (ps_fhs ?s)" using c(3) by (simp add: queues_ok_def)
  next
    fix f' p' assume "ps_queue ?s f' p' \<noteq> []"
    then have "ps_queue s f' p' \<noteq> []" using q' assms(2) by (auto split: if_splits)
    then show "f' \<in> set (ps_fhs ?s)" "p' < IPU_PSYS_CMD_PRIORITY_NUM" using c(3) by (simp_all add: queues_ok_def)
  next
    fix x assume "x \<in> ps_live ?s"
    then have x: "x \<noteq> k" "x \<in> set (queue_of s x)" using c(3) by (simp_all add: queues_ok_def)
    then show "x \<in> set (queue_of ?s x)"
      using q' assms(2) by (cases "km_fh (ps_kcmd s x) = f \<and> unat (km_priority (ps_kcmd s x)) = p")
        (auto simp: queue_of_def)
  qed
  ultimately show ?thesis using kcmd_free_core [OF c(1) k assms(3)] by (simp add: sched_ok_def)
qed

lemma dqevent_spec:
  assumes "sched_ok s"
  shows "sched_ok (snd (ipu_ioctl_dqevent nonblock signal f s))"
proof (cases "ipu_get_completed_kcmd f s")
  case None
  then show ?thesis using assms by (simp add: ipu_ioctl_dqevent_def)
next
  case (Some k)
  obtain p q where "ps_queue s f p = k # q" "kstate s k = KCMD_STATE_COMPLETE"
    using get_completed_spec [OF Some] by blast
  then show ?thesis using Some kcmd_free_sched [OF assms] by (simp add: ipu_ioctl_dqevent_def)
qed

text \<open>
  Closing a handle: its commands go, those of the other handles stay (a waiting one may
  start).
\<close>

definition spares :: "nat set \<Rightarrow> psys \<Rightarrow> psys \<Rightarrow> bool" where
  "spares K s s' \<longleftrightarrow> ps_fhs s' = ps_fhs s \<and> ps_new_tail s' = ps_new_tail s \<and> ps_live s' = ps_live s - K \<and>
     (\<forall>f p. ps_queue s' f p = filter (\<lambda>x. x \<notin> K) (ps_queue s f p)) \<and>
     (\<forall>x. x \<notin> K \<longrightarrow> statics s s' x \<and> untouched s s' x)"

lemma spares_refl [simp]: "spares {} s s"
  by (simp add: spares_def statics_def)

lemma spares_trans:
  assumes "spares K s s'" "spares L s' s''"
  shows "spares (K \<union> L) s s''"
  using assms by (auto simp: spares_def statics_def intro: untouched_trans)

lemma abort_and_free_one:
  assumes "core {} s" "\<not> handler_running e k" "k \<in> set (ps_queue s f p)"
  shows "\<exists>r s1. ipu_psys_kcmd_abort (Suc n) e k s = Some (r, s1) \<and> core {} (ipu_psys_kcmd_free True k s1) \<and>
    spares {k} s (ipu_psys_kcmd_free True k s1)"
proof -
  have q: "queued_ok s" using assms(1) by (simp add: core_def)
  then have k: "k \<in> ps_live s" using assms(3) by (auto simp: queued_ok_def)
  obtain r s1 where a: "ipu_psys_kcmd_abort (Suc n) e k s = Some (r, s1)" "core {} s1" "advanced {k} s s1"
      "kstate s1 k = KCMD_STATE_COMPLETE"
    using abort_serves [OF assms(1) k] assms(2) by blast
  have q1: "queued_ok s1" using a(2) by (simp add: core_def)
  have k1: "k \<in> set (ps_queue s1 f p)" using assms(3) advancedD(2) [OF a(3)] by simp
  have rem: "ps_queue (ipu_psys_kcmd_free True k s1) f' p' = filter (\<lambda>x. x \<notin> {k}) (ps_queue s f' p')" for f' p'
  proof (cases "f' = f \<and> p' = p")
    case True
    have "distinct (ps_queue s f p)" using q by (simp add: queued_ok_def)
    then have "remove1 k (ps_queue s f p) = filter (\<lambda>x. x \<noteq> k) (ps_queue s f p)"
      by (simp add: distinct_remove1_removeAll removeAll_filter_not_eq)
         (metis (mono_tags, lifting) filter_cong)
    then show ?thesis using True list_del_queue [OF q1 k1] advancedD(2) [OF a(3)] by simp
  next
    case False
    then have "k \<notin> set (ps_queue s f' p')" using queue_disjoint [OF q assms(3)] by blast
    then have "filter (\<lambda>x. x \<notin> {k}) (ps_queue s f' p') = ps_queue s f' p'" by (auto intro: filter_True)
    then show ?thesis using False list_del_queue [OF q1 k1] advancedD(2) [OF a(3)] by auto
  qed
  have "spares {k} s (ipu_psys_kcmd_free True k s1)"
    using statics_advanced [OF a(3)] advancedD(10) [OF a(3)]
    by (auto simp: spares_def rem advancedD(1,3,4) [OF a(3)] statics_def untouched_def)
  then show ?thesis using a(1) kcmd_free_core [OF a(2) k1 a(4)] by blast
qed

lemma abort_and_free_spec:
  assumes "core {} s" "\<forall>k \<in> set ks. \<not> handler_running e k" "set ks \<subseteq> set (ps_queue s f p)" "distinct ks"
  shows "\<exists>s'. abort_and_free (Suc n) e ks s = Some s' \<and> core {} s' \<and> spares (set ks) s s'"
  using assms
proof (induction ks arbitrary: s)
  case (Cons k ks)
  have "\<not> handler_running e k" "k \<in> set (ps_queue s f p)" using Cons.prems(2,3) by simp_all
  then obtain r s1 where a: "ipu_psys_kcmd_abort (Suc n) e k s = Some (r, s1)"
      "core {} (ipu_psys_kcmd_free True k s1)" "spares {k} s (ipu_psys_kcmd_free True k s1)"
    using abort_and_free_one [OF Cons.prems(1)] by blast
  have "set ks \<subseteq> set (ps_queue (ipu_psys_kcmd_free True k s1) f p)"
    using Cons.prems(3,4) a(3) by (auto simp: spares_def)
  then obtain s2 where s2: "abort_and_free (Suc n) e ks (ipu_psys_kcmd_free True k s1) = Some s2" "core {} s2"
      "spares (set ks) (ipu_psys_kcmd_free True k s1) s2"
    using Cons.IH [OF a(2)] Cons.prems(2,4) by (meson distinct.simps(2) list.set_intros(2))
  have "abort_and_free (Suc n) e (k # ks) s = Some s2" using a(1) s2(1) by simp
  moreover have "spares (set (k # ks)) s s2" using spares_trans [OF a(3) s2(3)] by simp
  ultimately show ?case using s2(2) by blast
qed simp

lemma deinit_queues_spec:
  assumes "core {} s" "\<forall>p \<in> set ps. \<forall>k \<in> set (ps_queue s f p). \<not> handler_running e k"
  shows "\<exists>s' K. deinit_queues (Suc n) e f ps s = Some s' \<and> core {} s' \<and> spares K s s' \<and>
    K = (\<Union>p \<in> set ps. set (ps_queue s f p))"
  using assms
proof (induction ps arbitrary: s)
  case (Cons p ps)
  have "distinct (ps_queue s f p)" using Cons.prems(1) by (simp add: core_def queued_ok_def)
  then obtain s1 where s1: "abort_and_free (Suc n) e (ps_queue s f p) s = Some s1" "core {} s1"
      "spares (set (ps_queue s f p)) s s1"
    using abort_and_free_spec [OF Cons.prems(1), of "ps_queue s f p" e f p n] Cons.prems(2) by auto
  have "\<forall>p \<in> set ps. \<forall>k \<in> set (ps_queue s1 f p). \<not> handler_running e k"
    using s1(3) Cons.prems(2) by (auto simp: spares_def)
  obtain s2 K where s2: "deinit_queues (Suc n) e f ps s1 = Some s2" "core {} s2" "spares K s1 s2"
      "K = (\<Union>p \<in> set ps. set (ps_queue s1 f p))"
    using Cons.IH [OF s1(2)] \<open>\<forall>p \<in> set ps. \<forall>k \<in> set (ps_queue s1 f p). \<not> handler_running e k\<close> by blast
  have "set (ps_queue s f p) \<union> K = (\<Union>p \<in> set (p # ps). set (ps_queue s f p))"
    using s2(4) s1(3) by (auto simp: spares_def)
  then show ?case using s1(1) s2(1,2) spares_trans [OF s1(3) s2(3)] by simp
qed simp

lemma forget_users_same: "eq_sched s (forget_users ks s)"
proof (induction ks arbitrary: s)
  case (Cons k ks)
  have "eq_sched s (upd_kcmd k (\<lambda>c. c\<lparr>km_pg_user := NULL\<rparr>) s)" by (rule same_upd_kcmd) (simp add: kcore_def)
  then show ?case
    using eq_sched_trans [OF _ Cons [of "upd_kcmd k (\<lambda>c. c\<lparr>km_pg_user := NULL\<rparr>) s"]] by (simp add: forget_users_def)
qed (simp add: forget_users_def)

lemma core_fhs_tail: "core D (s\<lparr>ps_fhs := fs\<rparr>) = core D s" "core D (s\<lparr>ps_new_tail := t\<rparr>) = core D s"
  by (simp_all add: core_def queued_ok_def holding_def)

text \<open>No handler of the commands that are closed runs.\<close>

definition timers_idle :: "psys_env \<Rightarrow> nat \<Rightarrow> psys \<Rightarrow> bool" where
  "timers_idle e f s \<longleftrightarrow> (\<forall>k \<in> ps_live s. km_fh (ps_kcmd s k) = f \<longrightarrow> \<not> handler_running e k)"

lemma release_spec:
  assumes "sched_ok s" "timers_idle e f s"
  shows "\<exists>s'. ipu_psys_release (Suc n) e f s = Some s' \<and> sched_ok s' \<and> ps_fhs s' = remove1 f (ps_fhs s) \<and>
    ps_live s' = {k \<in> ps_live s. km_fh (ps_kcmd s k) \<noteq> f} \<and>
    (\<forall>f' p. ps_queue s' f' p = (if f' = f then [] else ps_queue s f' p)) \<and>
    (\<forall>k \<in> ps_live s'. statics s s' k \<and> untouched s s' k)"
proof -
  have c: "core {} s" "queued_ok s" "queues_ok s" using assms(1) by (simp_all add: sched_ok_def core_def)
  define s0 where "s0 = s\<lparr>ps_bufs := release_buffers f (ps_bufs s), ps_fhs := remove1 f (ps_fhs s)\<rparr>"
  define s1 where "s1 = forget_users (concat (map (ps_queue s0 f) [0..<IPU_PSYS_CMD_PRIORITY_NUM])) s0"
  define s2 where "s2 = s1\<lparr>ps_new_tail := (ps_new_tail s1)(f := (\<lambda>_. None))\<rparr>"
  have same0: "eq_sched s (s\<lparr>ps_bufs := release_buffers f (ps_bufs s)\<rparr>)" by (rule same_env)
  have same1: "eq_sched s0 s1" unfolding s1_def by (rule forget_users_same)
  have c2: "core {} s2"
    unfolding s2_def core_fhs_tail core_same [OF same1] unfolding s0_def core_fhs_tail
    using core_same [OF same0] c(1) by simp
  have f2: "ps_fhs s2 = remove1 f (ps_fhs s)" "ps_queue s2 = ps_queue s" "ps_live s2 = ps_live s"
    "ps_new_tail s2 = (ps_new_tail s)(f := (\<lambda>_. None))"
    "km_ev (ps_kcmd s2 k) = km_ev (ps_kcmd s k)" "kstate s2 k = kstate s k"
    "km_watchdog (ps_kcmd s2 k) = km_watchdog (ps_kcmd s k)" "statics s s2 k" for k
    by (simp_all add: s2_def eq_schedD [OF same1] statics_def, simp_all add: s0_def)
  have idle: "\<forall>p \<in> set [0..<IPU_PSYS_CMD_PRIORITY_NUM]. \<forall>k \<in> set (ps_queue s2 f p). \<not> handler_running e k"
    using assms(2) c(2) by (auto simp: f2(2) timers_idle_def queued_ok_def)
  obtain s' K where d: "deinit_queues (Suc n) e f [0..<IPU_PSYS_CMD_PRIORITY_NUM] s2 = Some s'" "core {} s'"
      "spares K s2 s'" "K = (\<Union>p \<in> set [0..<IPU_PSYS_CMD_PRIORITY_NUM]. set (ps_queue s2 f p))"
    using deinit_queues_spec [OF c2 idle] by blast
  note sp = d(3) [unfolded spares_def]
  have run: "ipu_psys_release (Suc n) e f s = Some s'"
    using d(1) by (simp add: ipu_psys_release_def ipu_psys_fh_deinit_def Let_def s2_def s1_def s0_def)
  have inK: "x \<in> K \<longleftrightarrow> x \<in> ps_live s \<and> km_fh (ps_kcmd s x) = f" for x
  proof
    assume "x \<in> K"
    then show "x \<in> ps_live s \<and> km_fh (ps_kcmd s x) = f" using c(2) d(4) f2(2) by (auto simp: queued_ok_def)
  next
    assume x: "x \<in> ps_live s \<and> km_fh (ps_kcmd s x) = f"
    then have q: "x \<in> set (queue_of s x)" using c(3) by (simp add: queues_ok_def)
    then have "queue_of s x \<noteq> []" by auto
    then have "unat (km_priority (ps_kcmd s x)) < IPU_PSYS_CMD_PRIORITY_NUM"
      using c(3) by (simp add: queues_ok_def queue_of_def)
    then show "x \<in> K" using q x d(4) f2(2) by (auto simp: queue_of_def)
  qed
  have live: "ps_live s' = {k \<in> ps_live s. km_fh (ps_kcmd s k) \<noteq> f}"
    using sp f2(3) inK by auto
  have queue: "ps_queue s' f' p = (if f' = f then [] else ps_queue s f' p)" for f' p
  proof (cases "f' = f")
    case True
    have "x \<in> K" if "x \<in> set (ps_queue s f p)" for x using that c(2) inK by (auto simp: queued_ok_def)
    then show ?thesis using True sp f2(2) by (simp add: filter_empty_conv)
  next
    case False
    have "x \<notin> K" if "x \<in> set (ps_queue s f' p)" for x using that c(2) inK False by (auto simp: queued_ok_def)
    then show ?thesis using False sp f2(2) by (simp add: filter_True)
  qed
  have others: "statics s s' k \<and> untouched s s' k" if "k \<in> ps_live s'" for k
  proof -
    have "k \<notin> K" using that sp by auto
    then have "statics s2 s' k" "untouched s2 s' k" using sp by auto
    then show ?thesis using f2(5-8) by (auto simp: statics_def untouched_def)
  qed
  have tails: "tail_ok s'"
    unfolding tail_ok_def
  proof (intro allI)
    fix f' p
    note t = assms(1) [unfolded sched_ok_def tail_ok_def, THEN conjunct2, THEN conjunct1, rule_format, of f' p]
    show "case ps_new_tail s' f' p of None \<Rightarrow> \<forall>x \<in> set (ps_queue s' f' p). kstate s' x \<noteq> KCMD_STATE_NEW
       | Some k \<Rightarrow> k \<in> set (ps_queue s' f' p) \<and>
         (\<forall>x \<in> set (takeWhile (\<lambda>x. x \<noteq> k) (ps_queue s' f' p)). kstate s' x \<noteq> KCMD_STATE_NEW) \<and>
         (\<forall>x \<in> set (dropWhile (\<lambda>x. x \<noteq> k) (ps_queue s' f' p)). kstate s' x = KCMD_STATE_NEW)"
    proof (cases "f' = f")
      case True
      have "ps_queue s' f p = []" "ps_new_tail s' f p = None" using queue [of f p] sp f2(4) by simp_all
      then show ?thesis using True by simp
    next
      case False
      have n: "(kstate s' x = KCMD_STATE_NEW) = (kstate s x = KCMD_STATE_NEW)" if "x \<in> set (ps_queue s f' p)" for x
      proof -
        have "x \<in> ps_live s'" using that False c(2) live by (auto simp: queued_ok_def)
        then show ?thesis using others [of x] by (auto simp: untouched_def)
      qed
      have tl: "ps_new_tail s' f' p = ps_new_tail s f' p" "ps_queue s' f' p = ps_queue s f' p"
        using queue [of f' p] sp f2(4) False by simp_all
      show ?thesis
      proof (cases "ps_new_tail s f' p")
        case None
        then show ?thesis using t n tl by simp
      next
        case (Some j)
        have "kstate s' x \<noteq> KCMD_STATE_NEW" if "x \<in> set (takeWhile (\<lambda>x. x \<noteq> j) (ps_queue s f' p))" for x
          using t Some that n [of x] set_takeWhileD [OF that] by simp
        moreover have "kstate s' x = KCMD_STATE_NEW" if "x \<in> set (dropWhile (\<lambda>x. x \<noteq> j) (ps_queue s f' p))" for x
          using t Some that n [of x] set_dropWhileD [OF that] by simp
        ultimately show ?thesis using t Some tl by simp
      qed
    qed
  qed
  have "queues_ok s'"
    unfolding queues_ok_def
  proof (intro conjI allI ballI impI)
    show "distinct (ps_fhs s')" using c(3) sp f2(1) by (simp add: queues_ok_def distinct_remove1)
  next
    fix f' p assume "ps_queue s' f' p \<noteq> []"
    then have "f' \<noteq> f" "ps_queue s f' p \<noteq> []" using queue by (auto split: if_splits)
    then show "f' \<in> set (ps_fhs s')" "p < IPU_PSYS_CMD_PRIORITY_NUM"
      using c(3) sp f2(1) by (simp_all add: queues_ok_def)
  next
    fix x assume x: "x \<in> ps_live s'"
    then have "x \<in> set (queue_of s x)" "km_fh (ps_kcmd s x) \<noteq> f" using c(3) live by (simp_all add: queues_ok_def)
    then show "x \<in> set (queue_of s' x)" using others [OF x] queue by (simp add: queue_of_def statics_def)
  qed
  then show ?thesis using run d(2) tails sp f2(1) live queue others by (simp add: sched_ok_def)
qed

text \<open>A new command is built outside everything the scheduler sees.\<close>

definition building :: "nat \<Rightarrow> psys \<Rightarrow> psys \<Rightarrow> bool" where
  "building k s s' \<longleftrightarrow> ps_fhs s' = ps_fhs s \<and> ps_queue s' = ps_queue s \<and> ps_new_tail s' = ps_new_tail s \<and>
     ps_live s' = insert k (ps_live s) \<and>
     ps_started_list s' = ps_started_list s \<and> ps_started s' = ps_started s \<and> ps_active s' = ps_active s \<and>
     ps_fault s' = ps_fault s \<and>
     fst ` set (pf_constraints (ps_freq s)) \<subseteq> fst ` set (pf_constraints (ps_freq s')) \<and>
     (\<forall>x. x \<noteq> k \<longrightarrow> kcore (ps_kcmd s' x) = kcore (ps_kcmd s x))"

lemma building_same: "building k s s' \<Longrightarrow> eq_sched s' s'' \<Longrightarrow> building k s s''"
  by (simp add: building_def eq_sched_def)

lemma building_upd: "building k s s' \<Longrightarrow> building k s (upd_kcmd k g s')"
  by (simp add: building_def upd_kcmd_def)

text \<open>Two states that differ in commands that do not exist look the same.\<close>

definition eq_live :: "psys \<Rightarrow> psys \<Rightarrow> bool" where
  "eq_live s s' \<longleftrightarrow> ps_fhs s' = ps_fhs s \<and> ps_queue s' = ps_queue s \<and> ps_new_tail s' = ps_new_tail s \<and>
     ps_live s' = ps_live s \<and> ps_started_list s' = ps_started_list s \<and> ps_started s' = ps_started s \<and>
     ps_active s' = ps_active s \<and> ps_fault s' = ps_fault s \<and>
     fst ` set (pf_constraints (ps_freq s)) \<subseteq> fst ` set (pf_constraints (ps_freq s')) \<and>
     (\<forall>k \<in> ps_live s. kcore (ps_kcmd s' k) = kcore (ps_kcmd s k))"

lemma eq_liveD:
  assumes "eq_live s s'" "k \<in> ps_live s"
  shows "km_fh (ps_kcmd s' k) = km_fh (ps_kcmd s k)" "kstate s' k = kstate s k"
    "km_priority (ps_kcmd s' k) = km_priority (ps_kcmd s k)"
    "km_min_freq (ps_kcmd s' k) = km_min_freq (ps_kcmd s k)"
    "km_user_token (ps_kcmd s' k) = km_user_token (ps_kcmd s k)"
    "km_issue_id (ps_kcmd s' k) = km_issue_id (ps_kcmd s k)"
    "km_ev (ps_kcmd s' k) = km_ev (ps_kcmd s k)" "km_watchdog (ps_kcmd s' k) = km_watchdog (ps_kcmd s k)"
  using assms by (simp_all add: eq_live_def kcore_def)

lemma sched_ok_same_live:
  assumes "eq_live s s'" "sched_ok s"
  shows "sched_ok s'"
proof -
  note d = assms(1) [unfolded eq_live_def]
  have c: "core {} s" "queued_ok s" "queues_ok s" "tail_ok s" using assms(2) by (simp_all add: sched_ok_def core_def)
  have q: "queued_ok s'" using c(2) d eq_liveD [OF assms(1)] by (simp add: queued_ok_def)
  have h: "holding st {} s' = holding st {} s" for st
    using d eq_liveD(2) [OF assms(1)] by (auto simp: holding_def)
  have "core {} s'"
    using coreD(7) [OF c(1)] coreD(8) [OF c(1)] d eq_liveD [OF assms(1)]
    by (intro coreI) (auto simp: coreD(1-6,9) [OF c(1)] q h)
  moreover have "tail_ok s'"
    using tail_ok_cong [of s' s] d c(2,4) eq_liveD(2) [OF assms(1)] by simp
  moreover have "queues_ok s'"
    using c(3) d eq_liveD [OF assms(1)] by (simp add: queues_ok_def queue_of_def)
  ultimately show ?thesis by (simp add: sched_ok_def)
qed

lemma building_freed:
  assumes "building k s s'" "k \<notin> ps_live s" "queued_ok s"
  shows "eq_live s (ipu_psys_kcmd_free b k s')"
proof -
  note d = assms(1) [unfolded building_def]
  have "remove1 k (ps_queue s f p) = ps_queue s f p" for f p
    using assms(2,3) by (intro remove1_idem) (auto simp: queued_ok_def)
  then have "ps_queue (ipu_psys_kcmd_free b k s') = ps_queue s"
    using d by (simp add: ipu_psys_kcmd_free_def list_del_kcmd_def Let_def upd_kpg_def)
  moreover have "kcore (ps_kcmd s' x) = kcore (ps_kcmd s x)" if "x \<in> ps_live s" for x
    using d that assms(2) by metis
  ultimately show ?thesis using d assms(2) by (simp add: eq_live_def)
qed

lemma building_start:
  "k \<notin> ps_live s \<Longrightarrow> building k s (s\<lparr>ps_kcmd := (ps_kcmd s)(k := new_kcmd f), ps_live := insert k (ps_live s)\<rparr>)"
  by (simp add: building_def)

lemma get_pg_buf_same: "get_pg_buf fresh n s = (i, s') \<Longrightarrow> eq_sched s s'"
  by (auto simp: get_pg_buf_def eq_sched_def split: option.splits)

text \<open>The command as \<^verbatim>\<open>ipu_psys_copy_cmd\<close> leaves it.\<close>

definition copied :: "psys_command \<Rightarrow> nat \<Rightarrow> nat \<Rightarrow> psys \<Rightarrow> bool" where
  "copied cmd f k s \<longleftrightarrow> km_fh (ps_kcmd s k) = f \<and> kstate s k = KCMD_STATE_NEW \<and>
     km_priority (ps_kcmd s k) = uc_priority cmd \<and> km_user_token (ps_kcmd s k) = uc_user_token cmd \<and>
     km_issue_id (ps_kcmd s k) = uc_issue_id cmd \<and> km_watchdog (ps_kcmd s k) = None"

lemma copied_same: "eq_sched s s' \<Longrightarrow> copied cmd f k s \<Longrightarrow> copied cmd f k s'"
  by (simp add: copied_def eq_schedD)

lemma building_upd_kpg: "building k s t \<Longrightarrow> building k s (upd_kpg k g t)"
  by (rule building_same [OF _ same_upd_kpg])

text \<open>What the two halves of the copy do to the command they build.\<close>

definition fresh_new :: "nat \<Rightarrow> nat \<Rightarrow> psys \<Rightarrow> bool" where
  "fresh_new f k s \<longleftrightarrow> km_fh (ps_kcmd s k) = f \<and> kstate s k = KCMD_STATE_NEW \<and>
     km_min_freq (ps_kcmd s k) = 0 \<and> km_watchdog (ps_kcmd s k) = None"

lemma fresh_new_upd:
  assumes "fresh_new f k s" "\<And>c. km_fh (g c) = km_fh c \<and> km_state (g c) = km_state c \<and>
      km_min_freq (g c) = km_min_freq c \<and> km_watchdog (g c) = km_watchdog c"
  shows "fresh_new f k (upd_kcmd k g s)"
  using assms by (simp add: fresh_new_def upd_kcmd_def)

lemma fresh_new_same: "eq_sched s s' \<Longrightarrow> fresh_new f k s \<Longrightarrow> fresh_new f k s'"
  by (simp add: fresh_new_def eq_schedD)

lemma copy_process_group_spec:
  assumes "building k s t" "fresh_new f k t" "copy_process_group q cmd f k t = (ok, t')"
  shows "building k s t' \<and> fresh_new f k t'"
proof -
  have u: "building k s u' \<and> fresh_new f k u'"
    if "building k s u" "fresh_new f k u" "eq_sched u u'" for u u'
    using building_same [OF that(1,3)] fresh_new_same [OF that(3,2)] by blast
  have w: "building k s (upd_kcmd k (\<lambda>c. c\<lparr>km_pg_user := a\<rparr>) u) \<and> fresh_new f k (upd_kcmd k (\<lambda>c. c\<lparr>km_pg_user := a\<rparr>) u)"
    "building k s (upd_kcmd k (\<lambda>c. c\<lparr>km_kpg := i\<rparr>) u) \<and> fresh_new f k (upd_kcmd k (\<lambda>c. c\<lparr>km_kpg := i\<rparr>) u)"
    if "building k s u" "fresh_new f k u" for u a i
    using building_upd [OF that(1)] fresh_new_upd [OF that(2)] by simp_all
  show ?thesis
  proof (cases "ipu_psys_lookup_kbuffer f (uc_pg cmd) (ps_bufs t)")
    case None
    then show ?thesis using assms by (simp add: copy_process_group_def)
  next
    case (Some kb)
    let ?t1 = "upd_kcmd k (\<lambda>c. c\<lparr>km_pg_user := kb_kaddr (bs_kbuf (ps_bufs t) kb)\<rparr>) t"
    obtain i t2 where g: "get_pg_buf (qe_kpg q) (kb_len (bs_kbuf (ps_bufs ?t1) kb)) ?t1 = (i, t2)"
      by (cases "get_pg_buf (qe_kpg q) (kb_len (bs_kbuf (ps_bufs ?t1) kb)) ?t1")
    have b2: "building k s t2" "fresh_new f k t2"
      using u [of ?t1 t2] w(1) [OF assms(1,2)] get_pg_buf_same [OF g] by blast+
    show ?thesis
    proof (cases i)
      case None
      then show ?thesis using assms b2 g Some by (auto simp: copy_process_group_def Let_def split: if_splits)
    next
      case (Some j)
      have b3: "building k s (upd_kpg k h (upd_kcmd k (\<lambda>c. c\<lparr>km_kpg := j\<rparr>) t2)) \<and>
          fresh_new f k (upd_kpg k h (upd_kcmd k (\<lambda>c. c\<lparr>km_kpg := j\<rparr>) t2))" for h
        using u [OF _ _ same_upd_kpg] w(2) [OF b2] by blast
      show ?thesis
        using assms b3 g Some \<open>ipu_psys_lookup_kbuffer f (uc_pg cmd) (ps_bufs t) = Some kb\<close>
        by (auto simp: copy_process_group_def Let_def split: if_splits)
    qed
  qed
qed

lemma copy_arguments_spec:
  assumes "building k s t" "fresh_new f k t" "copy_arguments q cmd f k t = (ok, t')"
  shows "building k s t' \<and> (ok \<longrightarrow> copied cmd f k t' \<and> km_min_freq (ps_kcmd t' k) = 0 \<and>
    unat (uc_priority cmd) < IPU_PSYS_CMD_PRIORITY_NUM)"
proof (cases "qe_manifest q")
  case None
  then show ?thesis using assms by (simp add: copy_arguments_def)
next
  case (Some pm)
  define t1 where "t1 = upd_kcmd k (\<lambda>c. c\<lparr>km_manifest := pm, km_user_token := uc_user_token cmd,
                km_issue_id := uc_issue_id cmd, km_priority := uc_priority cmd\<rparr>) t"
  have b1: "building k s t1" unfolding t1_def by (rule building_upd [OF assms(1)])
  have c1: "copied cmd f k t1 \<and> km_min_freq (ps_kcmd t1 k) = 0"
    using assms(2) by (simp add: t1_def upd_kcmd_def copied_def fresh_new_def)
  have keep: "building k s (upd_kcmd k g u) \<and> copied cmd f k (upd_kcmd k g u) \<and> km_min_freq (ps_kcmd (upd_kcmd k g u) k) = 0"
    if "building k s u" "copied cmd f k u \<and> km_min_freq (ps_kcmd u k) = 0"
      "\<And>c. kcore (g c) = kcore c" for u g
  proof -
    have "eq_sched u (upd_kcmd k g u)" by (rule same_upd_kcmd) (rule that(3))
    then show ?thesis using that building_same copied_same by (auto simp: eq_schedD)
  qed
  note eq = assms(3) [unfolded copy_arguments_def Let_def Some option.case, folded t1_def]
  show ?thesis
    using eq b1 c1 keep
    by (auto simp: kcore_def simp del: upd_kcmd_def split: if_splits option.splits)
qed

lemma copy_cmd_spec:
  assumes "ipu_psys_copy_cmd q cmd f s = (r, s')" "\<And>k. qe_kcmd q = Some k \<Longrightarrow> k \<notin> ps_live s" "queued_ok s"
  shows "case r of None \<Rightarrow> eq_live s s'
    | Some k \<Rightarrow> qe_kcmd q = Some k \<and> building k s s' \<and> copied cmd f k s' \<and>
        unat (uc_priority cmd) < IPU_PSYS_CMD_PRIORITY_NUM \<and> km_min_freq (ps_kcmd s' k) = 0"
proof (cases "uc_bufcount cmd > IPU_MAX_PSYS_CMD_BUFFERS \<or> uc_pg_manifest_size cmd = 0 \<or>
    uc_pg_manifest_size cmd > qe_max_cache_size q \<or> qe_kcmd q = None")
  case True
  then have "r = None" "s' = s" using assms(1) by (auto simp: ipu_psys_copy_cmd_def split: if_splits option.splits)
  then show ?thesis by (simp add: eq_live_def)
next
  case False
  then obtain k where k: "qe_kcmd q = Some k" by auto
  have fresh: "k \<notin> ps_live s" by (rule assms(2) [OF k])
  note freed = building_freed [OF _ fresh assms(3)]
  define s1 where "s1 = s\<lparr>ps_kcmd := (ps_kcmd s)(k := new_kcmd f), ps_live := insert k (ps_live s)\<rparr>"
  have b1: "building k s s1" "fresh_new f k s1"
    unfolding s1_def by (rule building_start [OF fresh]) (simp add: fresh_new_def new_kcmd_def)
  obtain ok s2 where 2: "copy_process_group q cmd f k s1 = (ok, s2)" by (cases "copy_process_group q cmd f k s1")
  have b2: "building k s s2" "fresh_new f k s2" using copy_process_group_spec [OF b1 2] by simp_all
  obtain ok' s3 where 3: "copy_arguments q cmd f k s2 = (ok', s3)" by (cases "copy_arguments q cmd f k s2")
  note b3 = copy_arguments_spec [OF b2 3]
  have "(r, s') = (if \<not> ok then (None, ipu_psys_kcmd_free False k s2)
      else if \<not> ok' then (None, ipu_psys_kcmd_free True k s3) else (Some k, s3))"
    using assms(1) False k 2 3 by (simp add: ipu_psys_copy_cmd_def Let_def flip: s1_def split: bool.splits if_splits)
  then show ?thesis using freed [OF b2(1)] freed [of s3 True] b3 k by (auto split: if_splits)
qed

lemma set_terminals_same: "eq_sched s (snd (set_terminals k is s))"
proof (induction "is" arbitrary: s)
  case (Cons i "is")
  have "eq_sched s (snd (set_terminals k is (upd_kpg k g s)))" for g
    by (rule eq_sched_trans [OF same_upd_kpg Cons.IH])
  then show ?case using Cons.IH [of s] by (simp add: Let_def split: prod.splits sum.splits errno.splits)
qed simp

lemma config_legacy_pg_same: "ipu_psys_config_legacy_pg k s = (r, s') \<Longrightarrow> eq_sched s s'"
proof -
  assume r: "ipu_psys_config_legacy_pg k s = (r, s')"
  let ?s = "put_fw_view k (ipu_fw_psys_pg_set_ipu_vaddress (fw_view s k) (kp_dma_addr (kpg_of s k))) s"
  obtain ret t where t: "set_terminals k [0..<km_nbuffers (ps_kcmd ?s k)] ?s = (ret, t)"
    by (cases "set_terminals k [0..<km_nbuffers (ps_kcmd ?s k)] ?s")
  have "eq_sched s t"
    using eq_sched_trans [OF same_put_fw_view set_terminals_same [of ?s k "[0..<km_nbuffers (ps_kcmd ?s k)]"]] t by simp
  then show "eq_sched s s'"
    using r t eq_sched_trans [OF _ eq_sched_trans [OF same_put_fw_view same_put_fw_view]]
    by (cases ret) (auto simp: ipu_psys_config_legacy_pg_def Let_def)
qed

text \<open>The end of \<^verbatim>\<open>QCMD\<close>: the command joins its queue.\<close>

definition enqueue :: "nat \<Rightarrow> nat \<Rightarrow> nat \<Rightarrow> psys \<Rightarrow> psys" where
  "enqueue f p k s =
     (let s = s\<lparr>ps_queue := (ps_queue s)(f := (ps_queue s f)(p := ps_queue s f p @ [k]))\<rparr>
      in if ps_new_tail s f p = None \<and> kstate s k = KCMD_STATE_NEW
         then kick_scheduler (set_tail f p (Some k) s) else s)"

lemma enqueue_frame [simp]:
  "ps_fhs (enqueue f p k s) = ps_fhs s" "ps_live (enqueue f p k s) = ps_live s"
  "ps_kcmd (enqueue f p k s) = ps_kcmd s" "ps_started_list (enqueue f p k s) = ps_started_list s"
  "ps_started (enqueue f p k s) = ps_started s" "ps_active (enqueue f p k s) = ps_active s"
  "ps_fault (enqueue f p k s) = ps_fault s" "ps_freq (enqueue f p k s) = ps_freq s"
  "ps_queue (enqueue f p k s) f' p' = (if f' = f \<and> p' = p then ps_queue s f p @ [k] else ps_queue s f' p')"
  "kstate s k = KCMD_STATE_NEW \<Longrightarrow> ps_new_tail (enqueue f p k s) f' p' =
     (if f' = f \<and> p' = p \<and> ps_new_tail s f p = None then Some k else ps_new_tail s f' p')"
  by (simp_all add: enqueue_def Let_def kick_scheduler_def set_tail_def)

lemma enqueue_spec:
  assumes "sched_ok s" "building k s t" "k \<notin> ps_live s" "copied cmd f k t" "f \<in> set (ps_fhs s)"
    "unat (uc_priority cmd) < IPU_PSYS_CMD_PRIORITY_NUM"
    "km_min_freq (ps_kcmd t k) \<noteq> 0 \<Longrightarrow> k \<in> fst ` set (pf_constraints (ps_freq t))"
  shows "sched_ok (enqueue f (unat (uc_priority cmd)) k t)"
proof -
  let ?p = "unat (uc_priority cmd)"
  let ?s = "enqueue f ?p k t"
  note d = assms(2) [unfolded building_def]
  note n = assms(4) [unfolded copied_def]
  have c: "core {} s" "queued_ok s" "queues_ok s" using assms(1) by (simp_all add: sched_ok_def core_def)
  have old: "kcore (ps_kcmd t x) = kcore (ps_kcmd s x)" if "x \<in> ps_live s" for x
    using d that assms(3) by metis
  then have old: "km_fh (ps_kcmd t x) = km_fh (ps_kcmd s x)" "kstate t x = kstate s x"
    "km_priority (ps_kcmd t x) = km_priority (ps_kcmd s x)" "km_min_freq (ps_kcmd t x) = km_min_freq (ps_kcmd s x)"
    if "x \<in> ps_live s" for x using that by (simp_all add: kcore_def)
  have live: "x \<in> ps_live s" if "x \<in> set (ps_queue s f' p')" for x f' p' using that c(2) by (auto simp: queued_ok_def)
  have notq: "k \<notin> set (ps_queue s f' p')" for f' p' using live assms(3) by blast
  have h: "holding st {} ?s = holding st {} s" if "st \<noteq> KCMD_STATE_NEW" for st
    using d n old that assms(3) by (auto simp: holding_def)
  have F: "ps_fhs t = ps_fhs s" "ps_queue t = ps_queue s" "ps_new_tail t = ps_new_tail s"
    "ps_live t = insert k (ps_live s)" "ps_started_list t = ps_started_list s"
    "ps_started t = ps_started s" "ps_active t = ps_active s" "ps_fault t = ps_fault s"
    "fst ` set (pf_constraints (ps_freq s)) \<subseteq> fst ` set (pf_constraints (ps_freq t))"
    using d by simp_all
  have N: "km_fh (ps_kcmd t k) = f" "kstate t k = KCMD_STATE_NEW" "km_priority (ps_kcmd t k) = uc_priority cmd"
    using n by simp_all
  have mem: "x \<in> set (ps_queue s f' p') \<or> x = k \<and> f' = f \<and> p' = ?p"
    if "x \<in> set (ps_queue ?s f' p')" for x f' p'
    using that by (auto simp: F split: if_splits)
  have q: "queued_ok ?s"
    unfolding queued_ok_def
  proof (intro conjI allI impI)
    fix f' p' x assume m: "x \<in> set (ps_queue ?s f' p')"
    have "x \<in> ps_live ?s \<and> km_fh (ps_kcmd ?s x) = f' \<and> unat (km_priority (ps_kcmd ?s x)) = p'"
    proof (cases "x \<in> set (ps_queue s f' p')")
      case True
      then show ?thesis using c(2) old [OF live [OF True]] live [OF True] unfolding queued_ok_def enqueue_frame F
        by (metis insertI2)
    next
      case False
      then have "x = k" "f' = f" "p' = ?p" using mem [OF m] by simp_all
      then show ?thesis by (simp add: F N)
    qed
    then show "x \<in> ps_live ?s" "km_fh (ps_kcmd ?s x) = f'" "unat (km_priority (ps_kcmd ?s x)) = p'" by simp_all
  next
    show "distinct (ps_queue ?s f' p')" for f' p' using c(2) notq by (simp add: F queued_ok_def)
  qed
  have "core {} ?s"
  proof (rule coreI)
    show "\<not> prepared (kstate ?s x)" if "x \<in> ps_live ?s" for x
      using that N(2) old(2) [of x] coreD(7) [OF c(1), of x] by (cases "x = k") (simp_all add: F prepared_def)
    show "x \<in> fst ` set (pf_constraints (ps_freq ?s))"
      if "x \<in> ps_live ?s" "kstate ?s x \<noteq> KCMD_STATE_COMPLETE" "km_min_freq (ps_kcmd ?s x) \<noteq> 0" for x
    proof (cases "x = k")
      case True
      then show ?thesis using that(3) assms(7) by simp
    next
      case False
      then have "x \<in> ps_live s" using that(1) d by simp
      then have "x \<in> fst ` set (pf_constraints (ps_freq s))"
        using coreD(8) [OF c(1), of x] that(2,3) old [of x] by simp
      then show ?thesis using F(9) by auto
    qed
  qed (simp_all add: F coreD(1-6,9) [OF c(1)] q h)
  moreover have "tail_ok ?s"
    unfolding tail_ok_def
  proof (intro allI)
    fix f' p'
    note t = assms(1) [unfolded sched_ok_def tail_ok_def, THEN conjunct2, THEN conjunct1, rule_format, of f' p']
    have tl: "ps_new_tail ?s f' p' = (if f' = f \<and> p' = ?p \<and> ps_new_tail s f ?p = None then Some k else ps_new_tail s f' p')"
      using n d by simp
    have st: "kstate ?s x = kstate s x" if "x \<in> set (ps_queue s f' p')" for x using old(2) [OF live [OF that]] by simp
    have k: "kstate ?s k = KCMD_STATE_NEW" using n by simp
    show "case ps_new_tail ?s f' p' of None \<Rightarrow> \<forall>x \<in> set (ps_queue ?s f' p'). kstate ?s x \<noteq> KCMD_STATE_NEW
       | Some k \<Rightarrow> k \<in> set (ps_queue ?s f' p') \<and>
         (\<forall>x \<in> set (takeWhile (\<lambda>x. x \<noteq> k) (ps_queue ?s f' p')). kstate ?s x \<noteq> KCMD_STATE_NEW) \<and>
         (\<forall>x \<in> set (dropWhile (\<lambda>x. x \<noteq> k) (ps_queue ?s f' p')). kstate ?s x = KCMD_STATE_NEW)"
    proof (cases "ps_new_tail s f' p'")
      case None
      then have no: "\<forall>x \<in> set (ps_queue s f' p'). kstate s x \<noteq> KCMD_STATE_NEW" using t by simp
      show ?thesis
      proof (cases "f' = f \<and> p' = ?p")
        case True
        have "takeWhile (\<lambda>x. x \<noteq> k) (ps_queue s f ?p @ [k]) = ps_queue s f ?p"
          "dropWhile (\<lambda>x. x \<noteq> k) (ps_queue s f ?p @ [k]) = [k]"
          using notq by (subst takeWhile_append2, auto) (subst dropWhile_append2, auto)
        then show ?thesis using True None no st k d tl by simp
      next
        case False
        then show ?thesis using None no st d tl by auto
      qed
    next
      case (Some j)
      have j: "j \<in> set (ps_queue s f' p')" using t Some by simp
      have early: "kstate ?s x \<noteq> KCMD_STATE_NEW" if "x \<in> set (takeWhile (\<lambda>x. x \<noteq> j) (ps_queue s f' p'))" for x
        using t Some that st [of x] set_takeWhileD [OF that] by simp
      have late: "kstate ?s x = KCMD_STATE_NEW" if "x \<in> set (dropWhile (\<lambda>x. x \<noteq> j) (ps_queue s f' p'))" for x
        using t Some that st [of x] set_dropWhileD [OF that] by simp
      have app: "takeWhile (\<lambda>x. x \<noteq> j) (ps_queue s f' p' @ [k]) = takeWhile (\<lambda>x. x \<noteq> j) (ps_queue s f' p')"
        "dropWhile (\<lambda>x. x \<noteq> j) (ps_queue s f' p' @ [k]) = dropWhile (\<lambda>x. x \<noteq> j) (ps_queue s f' p') @ [k]"
        using j by (auto simp: takeWhile_append1 dropWhile_append1)
      have tj: "ps_new_tail ?s f' p' = Some j" using tl Some by auto
      consider "ps_queue ?s f' p' = ps_queue s f' p'" | "ps_queue ?s f' p' = ps_queue s f' p' @ [k]"
        by (cases "f' = f \<and> p' = ?p") (auto simp: F)
      then show ?thesis
      proof cases
        case 1
        show ?thesis unfolding tj 1 option.case using j early late by blast
      next
        case 2
        show ?thesis unfolding tj 2 option.case app using j early late k by (simp del: enqueue_frame)
      qed
    qed
  qed
  moreover have "queues_ok ?s"
    unfolding queues_ok_def
  proof (intro conjI allI ballI impI)
    show "distinct (ps_fhs ?s)" using c(3) d by (simp add: queues_ok_def)
  next
    fix f' p' assume "ps_queue ?s f' p' \<noteq> []"
    then have "ps_queue s f' p' \<noteq> [] \<or> f' = f \<and> p' = ?p" by (auto simp: F split: if_splits)
    then show "f' \<in> set (ps_fhs ?s)" "p' < IPU_PSYS_CMD_PRIORITY_NUM"
      using c(3) assms(5,6) by (auto simp: F queues_ok_def)
  next
    fix x assume "x \<in> ps_live ?s"
    then consider "x = k" | "x \<in> ps_live s" "x \<noteq> k" by (auto simp: F)
    then show "x \<in> set (queue_of ?s x)"
    proof cases
      case 1
      then show ?thesis by (simp add: queue_of_def F N)
    next
      case 2
      then have "x \<in> set (ps_queue s (km_fh (ps_kcmd s x)) (unat (km_priority (ps_kcmd s x))))"
        using c(3) by (simp add: queues_ok_def queue_of_def)
      then show ?thesis by (auto simp: queue_of_def F old [OF 2(1)])
    qed
  qed
  ultimately show ?thesis by (simp add: sched_ok_def)
qed

text \<open>The whole of \<^verbatim>\<open>QCMD\<close>.\<close>

lemma add_constraint_frame:
  "fst ` set (pf_constraints (ipu_buttress_add_psys_constraint k fr s)) = insert k (fst ` set (pf_constraints s))"
  by (simp add: ipu_buttress_add_psys_constraint_def Let_def)

definition queued_command :: "psys_command \<Rightarrow> nat \<Rightarrow> nat \<Rightarrow> psys \<Rightarrow> psys \<Rightarrow> bool" where
  "queued_command cmd f k s s' \<longleftrightarrow> (\<exists>t. building k s t \<and> copied cmd f k t \<and>
     s' = enqueue f (unat (uc_priority cmd)) k t)"

lemma kcmd_new_spec:
  assumes "sched_ok s" "f \<in> set (ps_fhs s)" "\<And>k. qe_kcmd q = Some k \<Longrightarrow> k \<notin> ps_live s"
    and "ipu_psys_kcmd_new e q cmd f s = (ret, s')"
  shows "sched_ok s' \<and> (case ret of Inl err \<Rightarrow> eq_live s s'
    | Inr _ \<Rightarrow> \<exists>k. qe_kcmd q = Some k \<and> queued_command cmd f k s s')"
proof (cases "en_flr_done e")
  case True
  then have "ret = Inl EIO" "s' = s" using assms(4) by (simp_all add: ipu_psys_kcmd_new_def)
  then show ?thesis using assms(1) by (simp add: eq_live_def)
next
  case False
  have qo: "queued_ok s" using assms(1) by (simp add: sched_ok_def core_def)
  obtain r s1 where c: "ipu_psys_copy_cmd q cmd f s = (r, s1)" by (cases "ipu_psys_copy_cmd q cmd f s")
  note cs = copy_cmd_spec [OF c assms(3) qo]
  show ?thesis
  proof (cases r)
    case None
    then have "ret = Inl EINVAL" "s' = s1" using assms(4) False c by (simp_all add: ipu_psys_kcmd_new_def)
    then show ?thesis using cs None sched_ok_same_live [OF _ assms(1)] by simp
  next
    case (Some k)
    have cs: "qe_kcmd q = Some k" "building k s s1" "copied cmd f k s1"
      "unat (uc_priority cmd) < IPU_PSYS_CMD_PRIORITY_NUM" "km_min_freq (ps_kcmd s1 k) = 0"
      using cs Some by simp_all
    have fresh: "k \<notin> ps_live s" by (rule assms(3) [OF cs(1)])
    define s2 where "s2 = (if uc_min_psys_freq cmd \<noteq> 0
       then (upd_kcmd k (\<lambda>c. c\<lparr>km_min_freq := uc_min_psys_freq cmd\<rparr>) s1)
              \<lparr>ps_freq := ipu_buttress_add_psys_constraint k (uc_min_psys_freq cmd) (ps_freq s1)\<rparr>
       else s1)"
    have b2: "building k s s2"
      using cs(2) by (auto simp: s2_def building_def add_constraint_frame upd_kcmd_def)
    have c2: "copied cmd f k s2" using cs(3) by (simp add: s2_def copied_def upd_kcmd_def)
    have m2: "k \<in> fst ` set (pf_constraints (ps_freq s2))" if "km_min_freq (ps_kcmd s2 k) \<noteq> 0"
      using that cs(5) by (auto simp: s2_def add_constraint_frame split: if_splits)
    obtain r3 s3 where c3: "ipu_psys_config_legacy_pg k s2 = (r3, s3)" by (cases "ipu_psys_config_legacy_pg k s2")
    have eq_sched: "eq_sched s2 s3" by (rule config_legacy_pg_same [OF c3])
    have b3: "building k s s3" by (rule building_same [OF b2 eq_sched])
    have c3': "copied cmd f k s3" by (rule copied_same [OF eq_sched c2])
    have "(ret, s') = (if scast (pgr_size (im_pg (kp_image (kpg_of s2 k)))) > kp_pg_size (kpg_of s2 k)
        then (Inl EINVAL, ipu_psys_kcmd_free True k s2)
        else case r3 of Inl err \<Rightarrow> (Inl err, ipu_psys_kcmd_free True k s3)
          | Inr _ \<Rightarrow> (Inr (), enqueue f (unat (uc_priority cmd)) k s3))"
      using assms(4) False c Some c3
      unfolding ipu_psys_kcmd_new_def Let_def enqueue_def
      by (simp only: if_False prod.case option.case s2_def [symmetric] split: sum.split)
    moreover have "sched_ok (enqueue f (unat (uc_priority cmd)) k s3)"
      using enqueue_spec [OF assms(1) b3 fresh c3' assms(2) cs(4)] m2 by (simp add: eq_schedD [OF eq_sched])
    moreover have "queued_command cmd f k s (enqueue f (unat (uc_priority cmd)) k s3)"
      unfolding queued_command_def using b3 c3' by blast
    ultimately show ?thesis
      using building_freed [OF b2 fresh qo] building_freed [OF b3 fresh qo] cs(1)
        sched_ok_same_live [OF _ assms(1)]
      by (auto split: if_splits sum.splits)
  qed
qed

lemma open_spec:
  assumes "sched_ok s" "\<And>f. fh = Some f \<Longrightarrow> f \<notin> set (ps_fhs s)" "ipu_psys_open e auth fh s = (ret, s')"
  shows "sched_ok s' \<and> ps_queue s' = ps_queue s \<and> ps_kcmd s' = ps_kcmd s \<and> ps_live s' = ps_live s"
proof (cases "ret = Inr ()")
  case False
  then have "s' = s" using assms(3) by (auto simp: ipu_psys_open_def Let_def split: if_splits sum.splits option.splits)
  then show ?thesis using assms(1) by simp
next
  case True
  then obtain f where f: "fh = Some f"
    using assms(3) by (auto simp: ipu_psys_open_def Let_def split: if_splits sum.splits option.splits)
  have nf: "f \<notin> set (ps_fhs s)" by (rule assms(2) [OF f])
  have q: "queues_ok s" "tail_ok s" "core {} s" using assms(1) by (simp_all add: sched_ok_def)
  have e: "ps_queue s f = (\<lambda>_. [])" using q(1) nf by (auto simp: queues_ok_def)
  have t: "ps_new_tail s f = (\<lambda>_. None)"
    using tail_in_queue(5) [OF assms(1)] nf by (metis (no_types) not_None_eq ext)
  let ?b = "(ps_bufs s)\<lparr>bs_bufmap := (bs_bufmap (ps_bufs s))(f := [])\<rparr>"
  have s': "s' = s\<lparr>ps_bufs := ?b, ps_fhs := ps_fhs s @ [f]\<rparr>"
    using True assms(3) f e t fun_upd_triv [of "ps_queue s" f] fun_upd_triv [of "ps_new_tail s" f]
    by (auto simp: ipu_psys_open_def ipu_psys_fh_init_def Let_def split: if_splits sum.splits)
  have F: "ps_queue s' = ps_queue s" "ps_kcmd s' = ps_kcmd s" "ps_live s' = ps_live s"
    "ps_new_tail s' = ps_new_tail s" "ps_fhs s' = ps_fhs s @ [f]"
    "ps_started_list s' = ps_started_list s" "ps_started s' = ps_started s" "ps_active s' = ps_active s"
    "ps_freq s' = ps_freq s" "ps_fault s' = ps_fault s" unfolding s' by simp_all
  have "core {} s'" using q(3) by (simp add: core_def queued_ok_def holding_def F)
  moreover have "tail_ok s'" using q(2) unfolding tail_ok_def F .
  moreover have "queues_ok s'" using q(1) nf by (auto simp: queues_ok_def queue_of_def F)
  ultimately have "sched_ok s'" by (simp add: sched_ok_def)
  then show ?thesis by (simp add: s')
qed

end
