(* ===== verification/Simulation.thy ===== *)
theory Simulation
  imports Prelude
begin

text \<open>
  Runs of a labelled transition system, and the interface of a refinement: a transition
  system whose steps, in the states of an invariant, are steps of an abstract one.
\<close>

inductive runs_to :: "('s \<Rightarrow> 'a \<Rightarrow> 's \<Rightarrow> bool) \<Rightarrow> 's \<Rightarrow> 'a list \<Rightarrow> 's \<Rightarrow> bool" for step s where
  stays: "runs_to step s [] s"
| steps: "runs_to step s h s' \<Longrightarrow> step s' a s'' \<Longrightarrow> runs_to step s (h @ [a]) s''"

locale simulation =
  fixes step :: "'s \<Rightarrow> 'a \<Rightarrow> 's \<Rightarrow> bool"
    and astep :: "'t \<Rightarrow> 'a \<Rightarrow> 't \<Rightarrow> bool"
    and abs_of :: "'s \<Rightarrow> 't"
    and inv_of :: "'s \<Rightarrow> bool"
  assumes keeps: "inv_of s \<Longrightarrow> step s a s' \<Longrightarrow> inv_of s'"
    and simulates: "inv_of s \<Longrightarrow> step s a s' \<Longrightarrow> astep (abs_of s) a (abs_of s')"
begin

lemma run_simulates:
  assumes "runs_to step s h s'" "inv_of s"
  shows "inv_of s' \<and> runs_to astep (abs_of s) h (abs_of s')"
  using assms by induction (auto intro: runs_to.intros keeps simulates)

lemma run_abstract:
  assumes "runs_to step s h s'" "inv_of s" "\<And>v. runs_to astep (abs_of s) h v \<Longrightarrow> P v"
  shows "P (abs_of s')"
  using run_simulates [OF assms(1,2)] assms(3) by blast

end

end
