(* ===== verification/PsysDriver.thy ===== *)
theory PsysDriver
  imports PsysService Simulation
begin

text \<open>
  The driver as a transition system: the steps of threads, interrupts and system calls over
  \<open>psys\<close>, the reachable states, the contract with the clients as an abstract transition
  system on queues of submitted commands with their results, and the simulation between the two.
\<close>


section \<open>The driver as a transition system\<close>

text \<open>What a client can tell about a command: what it submitted, and the result once it is complete.\<close>

type_synonym client_entry = "u64 \<times> u64 \<times> errno option option"
type_synonym client_view = "nat \<Rightarrow> nat \<Rightarrow> client_entry list"

definition client_event :: "u64 \<Rightarrow> u64 \<Rightarrow> errno option \<Rightarrow> psys_user_event" where
  "client_event t i err =
     \<lparr>ue_type = IPU_PSYS_EVENT_TYPE_CMD_COMPLETE, ue_user_token = t, ue_issue_id = i, ue_error = err\<rparr>"

definition settles :: "client_entry \<Rightarrow> client_entry \<Rightarrow> bool" where
  "settles x y \<longleftrightarrow> fst y = fst x \<and> fst (snd y) = fst (snd x) \<and> (snd (snd x) = None \<or> snd (snd y) = snd (snd x))"

definition waits :: "client_entry list \<Rightarrow> bool" where
  "waits q \<longleftrightarrow> (case q of [] \<Rightarrow> True | x # _ \<Rightarrow> snd (snd x) = None)"

text \<open>
  Races the driver does not guard against: an event for a command the hardware does not have; a
  waiting caller whose command another caller has taken; a handle closed while the watchdog
  handler of one of its commands runs; and power management that answers "no space", which the
  scheduler takes for an answer of its own.
\<close>

datatype race = Late_event | Overtaken_waiter | Timer_at_close | Power_no_space

datatype client_action =
  Submit nat nat u64 u64
  | Choose nat nat
  | Deliver nat nat psys_user_event
  | Close nat
  | Tau
  | Race race

text \<open>
  The contract with the clients: a submitted command goes to the end of the queue of its
  handle and priority; on its own the driver only completes commands, once each; what is
  delivered is the oldest command of a queue and it is complete; closing a handle empties its queues
  and no others.
\<close>

inductive client_step :: "client_view \<Rightarrow> client_action \<Rightarrow> client_view \<Rightarrow> bool" where
  submit: "client_step v (Submit f p t i) (v(f := (v f)(p := v f p @ [(t, i, None)])))"
| deliver: "client_step v (Deliver f p (client_event t i err)) (v(f := (v f)(p := q)))"
    if "v f p = (t, i, Some err) # q"
| close: "client_step v (Close f) v'"
    if "v' f = (\<lambda>_. [])" "\<forall>f' p. f' \<noteq> f \<longrightarrow> list_all2 settles (v f' p) (v' f' p)"
| tau: "client_step v Tau v'" if "\<forall>f p. list_all2 settles (v f p) (v' f p)"

text \<open>
  A caller that does not wait gets the oldest command of the highest priority whose oldest command is
  complete; one that waits chooses its queue by that rule first and gets the command later.
  The second component holds the queues chosen by callers that wait.
\<close>

definition foremost :: "client_view \<Rightarrow> nat \<Rightarrow> nat \<Rightarrow> bool" where
  "foremost v f p \<longleftrightarrow> \<not> waits (v f p) \<and> (\<forall>p' < p. waits (v f p'))"

inductive contract_step ::
  "client_view \<times> (nat \<times> nat) set \<Rightarrow> client_action \<Rightarrow> client_view \<times> (nat \<times> nat) set \<Rightarrow> bool" where
  choose: "contract_step (v, w) (Choose f p) (v, insert (f, p) w)" if "foremost v f p"
| deliver: "contract_step (v, w) (Deliver f p ev) (v', w - {(f, p)})"
    if "client_step v (Deliver f p ev) v'" "(f, p) \<in> w \<or> foremost v f p"
| other: "contract_step (v, w) a (v', w)" if "client_step v a v'" "\<nexists>f p ev. a = Deliver f p ev"

definition client_entry_of :: "psys \<Rightarrow> nat \<Rightarrow> client_entry" where
  "client_entry_of s k = (km_user_token (ps_kcmd s k), km_issue_id (ps_kcmd s k),
     if kstate s k = KCMD_STATE_COMPLETE then Some (ue_error (km_ev (ps_kcmd s k))) else None)"

definition view :: "psys \<Rightarrow> client_view" where
  "view s f p = map (client_entry_of s) (ps_queue s f p)"

text \<open>The invariant of the driver: the scheduler's, and complete commands have their event.\<close>

definition events_ok :: "psys \<Rightarrow> bool" where
  "events_ok s \<longleftrightarrow> (\<forall>k \<in> ps_live s. kstate s k = KCMD_STATE_COMPLETE \<longrightarrow> (\<exists>err. completed_with s k err))"

definition driver_ok :: "psys \<Rightarrow> bool" where
  "driver_ok s \<longleftrightarrow> sched_ok s \<and> events_ok s"

text \<open>
  A caller of \<^verbatim>\<open>DQEVENT\<close> that waits: its handle, the command it has found, and whether another
  caller has taken that command since.
\<close>

record waiter =
  wa_fh :: nat
  wa_kcmd :: nat
  wa_overtaken :: bool

definition overtake :: "nat \<Rightarrow> waiter list \<Rightarrow> waiter list" where
  "overtake k = map (\<lambda>w. if wa_kcmd w = k then w\<lparr>wa_overtaken := True\<rparr> else w)"

definition priority_of :: "psys \<Rightarrow> nat \<Rightarrow> nat" where
  "priority_of s k = unat (km_priority (ps_kcmd s k))"

definition chosen :: "psys \<Rightarrow> waiter list \<Rightarrow> (nat \<times> nat) set" where
  "chosen s ws = (\<lambda>w. (wa_fh w, priority_of s (wa_kcmd w))) ` {w \<in> set ws. \<not> wa_overtaken w}"

text \<open>The command a waiting caller has found is complete and the first of its queue.\<close>

definition waiters_ok :: "psys \<Rightarrow> waiter list \<Rightarrow> bool" where
  "waiters_ok s ws \<longleftrightarrow> (\<forall>w \<in> set ws. \<not> wa_overtaken w \<longrightarrow>
     (\<exists>p q. ps_queue s (wa_fh w) p = wa_kcmd w # q) \<and> kstate s (wa_kcmd w) = KCMD_STATE_COMPLETE)"

text \<open>
  The steps of the driver, and of the world: clients map and unmap buffers and write to
  them, the firmware moves its queues.  The fuel of the scheduler is one more than the commands that
  exist, that of a completion is 1.  The kernel does not allocate a name in use, and does not release
  a file that a system call is using.  A step that is one of the races says so in its label.
\<close>

inductive psys_step :: "psys \<times> waiter list \<Rightarrow> client_action \<Rightarrow> psys \<times> waiter list \<Rightarrow> bool" where
  opened: "psys_step (s, ws) Tau (s', ws)"
    if "f \<notin> set (ps_fhs s)" "ipu_psys_open e auth (Some f) s = (ret, s')"
| queued: "psys_step (s, ws) (Submit f (unat (uc_priority cmd)) (uc_user_token cmd) (uc_issue_id cmd)) (s', ws)"
    if "f \<in> set (ps_fhs s)" "\<And>k. qe_kcmd q = Some k \<Longrightarrow> k \<notin> ps_live s"
      "ipu_psys_kcmd_new e q cmd f s = (Inr (), s')"
| refused: "psys_step (s, ws) Tau (s', ws)"
    if "f \<in> set (ps_fhs s)" "\<And>k. qe_kcmd q = Some k \<Longrightarrow> k \<notin> ps_live s"
      "ipu_psys_kcmd_new e q cmd f s = (Inl err, s')"
| scheduled: "psys_step (s, ws) (if pm_ok e then Tau else Race Power_no_space) (s', ws)"
    if "ipu_psys_sched_cmd (run_fuel s) 1 e False s = Some (True, s')"
| event: "psys_step (s, ws)
      (if ipu_psys_kcmd_is_valid s (unat (pe_token ev)) \<and>
          kstate s (unat (pe_token ev)) \<notin> {KCMD_STATE_STARTED, KCMD_STATE_RUNNING}
       then Race Late_event else Tau) (s', ws)"
    if "ipu_fw_psys_rcv_event (ps_port s) = (Some ev, p)" "\<not> token_error (pe_token ev)"
      "handle_event 1 e ev (s\<lparr>ps_port := p\<rparr>) = Some s'"
| unknown: "psys_step (s, ws) (if pm_ok e then Tau else Race Power_no_space) (s', ws)"
    if "ipu_fw_psys_rcv_event (ps_port s) = (Some ev, p)" "token_error (pe_token ev)"
      "ipu_psys_reset (run_fuel s) 1 e pw (s\<lparr>ps_port := p\<rparr>) = Some s'"
| world: "psys_step (s, ws) Tau (s\<lparr>ps_bufs := b, ps_mem := m, ps_port := p\<rparr>, ws)"
| timer: "psys_step (s, ws) Tau (ipu_psys_watchdog k s, ws)"
    if "km_watchdog (ps_kcmd s k) \<noteq> None"
| watchdog: "psys_step (s, ws) (if pm_ok e then Tau else Race Power_no_space) (s', ws)"
    if "ipu_psys_watchdog_work (run_fuel s) 1 e pw s = Some s'"
| reset: "psys_step (s, ws) (if pm_ok e then Tau else Race Power_no_space) (s', ws)"
    if "ipu_psys_reset (run_fuel s) 1 e pw s = Some s'"
| delivered: "psys_step (s, ws) (Deliver f (priority_of s k) ev) (s', overtake k ws)"
    if "ipu_get_completed_kcmd f s = Some k" "ipu_ioctl_dqevent nonblock signal f s = (Dq_event ev, s')"
| found: "psys_step (s, ws) (Choose f (priority_of s k)) (s, \<lparr>wa_fh = f, wa_kcmd = k, wa_overtaken = False\<rparr> # ws)"
    if "ipu_get_completed_kcmd f s = Some k"
| taken: "psys_step (s, ws @ w # ws')
      (if wa_overtaken w then Race Overtaken_waiter else Deliver (wa_fh w) (priority_of s (wa_kcmd w)) ev)
      (s', overtake (wa_kcmd w) (ws @ ws'))"
    if "dqevent_take (wa_kcmd w) s = (ev, s')"
| closed: "psys_step (s, ws) (if timers_idle e f s then Close f else Race Timer_at_close) (s', ws)"
    if "f \<notin> wa_fh ` set ws" "ipu_psys_release 1 e f s = Some s'"

definition psys_boot :: "psys \<Rightarrow> bool" where
  "psys_boot s \<longleftrightarrow> ps_fhs s = [] \<and> ps_live s = {} \<and> ps_queue s = (\<lambda>_ _. []) \<and> ps_new_tail s = (\<lambda>_ _. None) \<and>
     ps_started_list s = [] \<and> ps_started s = 0 \<and> ps_active s = 0 \<and> \<not> ps_fault s"

text \<open>Runs without a race, and the states they lead to.\<close>

definition orderly_step :: "psys \<times> waiter list \<Rightarrow> client_action \<Rightarrow> psys \<times> waiter list \<Rightarrow> bool" where
  "orderly_step st a st' \<longleftrightarrow> psys_step st a st' \<and> (\<forall>r. a \<noteq> Race r)"

definition psys_reachable :: "psys \<Rightarrow> bool" where
  "psys_reachable s \<longleftrightarrow> (\<exists>s0 h ws. psys_boot s0 \<and> runs_to orderly_step (s0, []) h (s, ws))"

lemma reachable_boot: "psys_boot s \<Longrightarrow> psys_reachable s"
  unfolding psys_reachable_def by (intro exI [of _ s] exI [of _ "[]"] conjI runs_to.stays)

lemma orderly_run:
  assumes "runs_to psys_step st h st'" "\<forall>r. Race r \<notin> set h"
  shows "runs_to orderly_step st h st'"
  using assms
proof induction
  case stays
  show ?case by (rule runs_to.stays)
next
  case (steps h st' a st'')
  have "\<forall>r. Race r \<notin> set h" "orderly_step st' a st''" using steps.prems steps.hyps(2) by (auto simp: orderly_step_def)
  then show ?case using steps.IH runs_to.steps by metis
qed

section \<open>What the clients see of a step\<close>

lemma entry_served:
  assumes "served s s' k"
  shows "settles (client_entry_of s k) (client_entry_of s' k)"
  using assms by (auto simp: settles_def client_entry_of_def served_def statics_def)

lemma list_all2_map_settles: "(\<And>k. k \<in> set ks \<Longrightarrow> settles (g k) (h k)) \<Longrightarrow> list_all2 settles (map g ks) (map h ks)"
  by (simp add: list_all2_map1 list_all2_map2 list_all2_same)

lemma view_serves: "serves s s' \<Longrightarrow> client_step (view s) Tau (view s')"
  by (rule client_step.tau) (simp add: view_def serves_def list_all2_map_settles entry_served)

lemma events_served:
  assumes "events_ok s" "ps_live s' \<subseteq> ps_live s" "\<And>k. k \<in> ps_live s' \<Longrightarrow> served s s' k"
  shows "events_ok s'"
  unfolding events_ok_def
proof (intro ballI impI)
  fix k assume k: "k \<in> ps_live s'" "kstate s' k = KCMD_STATE_COMPLETE"
  have v: "served s s' k" by (rule assms(3) [OF k(1)])
  show "\<exists>err. completed_with s' k err"
  proof (cases "kstate s k = KCMD_STATE_COMPLETE")
    case True
    then obtain err where "completed_with s k err" using assms(1,2) k(1) by (auto simp: events_ok_def)
    then have "completed_with s' k err"
      using v k(2) True by (simp add: completed_with_def served_def statics_def)
    then show ?thesis ..
  qed (use v k(2) in \<open>simp add: served_def\<close>)
qed

lemma events_serves: "events_ok s \<Longrightarrow> serves s s' \<Longrightarrow> events_ok s'"
  unfolding serves_def by (rule events_served [of s]) auto

lemma served_same_live: "eq_live s s' \<Longrightarrow> k \<in> ps_live s \<Longrightarrow> served s s' k"
  using eq_liveD [of s s' k] by (auto simp: served_def statics_def expired_def)

lemma view_live:
  assumes "queued_ok s" "ps_queue s' = ps_queue s" "\<And>k. k \<in> ps_live s \<Longrightarrow> served s s' k"
  shows "list_all2 settles (view s f p) (view s' f p)"
  unfolding view_def assms(2)
  by (rule list_all2_map_settles, rule entry_served, rule assms(3)) (use assms(1) in \<open>auto simp: queued_ok_def\<close>)

definition step_ok :: "psys \<Rightarrow> client_action \<Rightarrow> psys \<Rightarrow> bool" where
  "step_ok s a s' \<longleftrightarrow> driver_ok s' \<and> client_step (view s) a (view s')"

lemma step_ok_serves: "driver_ok s \<Longrightarrow> sched_ok s' \<Longrightarrow> serves s s' \<Longrightarrow> step_ok s Tau s'"
  using view_serves [of s s'] events_serves [of s s'] by (simp add: step_ok_def driver_ok_def)

lemma step_ok_same_live:
  assumes "driver_ok s" "sched_ok s'" "eq_live s s'"
  shows "step_ok s Tau s'"
proof -
  have q: "queued_ok s" "ps_queue s' = ps_queue s" "ps_live s' = ps_live s"
    using assms(1) apply (simp add: driver_ok_def sched_ok_def core_def)
    using assms(3) unfolding eq_live_def by blast+
  have sv: "served s s' k" if "k \<in> ps_live s" for k by (rule served_same_live [OF assms(3) that])
  have "client_step (view s) Tau (view s')"
    using view_live [OF q(1,2) sv] by (intro client_step.tau) simp
  moreover have "events_ok s'"
    using assms(1) q(3) sv by - (rule events_served [of s], simp_all add: driver_ok_def)
  ultimately show ?thesis using assms(2) by (simp add: step_ok_def driver_ok_def)
qed

lemma enqueue_view:
  assumes "queued_command cmd f k s s'" "k \<notin> ps_live s" "queued_ok s"
  shows "view s' = (view s)(f := (view s f)(unat (uc_priority cmd) :=
      view s f (unat (uc_priority cmd)) @ [(uc_user_token cmd, uc_issue_id cmd, None)]))"
    and "k' \<in> ps_live s \<Longrightarrow> served s s' k'" and "ps_live s' = insert k (ps_live s)" "kstate s' k = KCMD_STATE_NEW"
proof -
  let ?p = "unat (uc_priority cmd)"
  obtain t where t: "building k s t" "copied cmd f k t" and s': "s' = enqueue f ?p k t"
    using assms(1) by (auto simp: queued_command_def)
  have core: "kcore (ps_kcmd s' x) = kcore (ps_kcmd s x)" if "x \<in> ps_live s" for x
    using t(1) that assms(2) by (auto simp: building_def s')
  then have eq_sched: "client_entry_of s' x = client_entry_of s x" if "x \<in> ps_live s" for x
    using that by (simp add: client_entry_of_def kcore_def)
  have mem: "x \<in> ps_live s" if "x \<in> set (ps_queue s f' p')" for x f' p'
    using that assms(3) by (auto simp: queued_ok_def)
  have new: "client_entry_of s' k = (uc_user_token cmd, uc_issue_id cmd, None)"
    using t(2) by (simp add: client_entry_of_def copied_def s')
  have q: "ps_queue s' f' p' = (if f' = f \<and> p' = ?p then ps_queue s f ?p @ [k] else ps_queue s f' p')" for f' p'
    using t(1) by (simp add: s' building_def)
  have old: "map (client_entry_of s') (ps_queue s f' p') = view s f' p'" for f' p'
    unfolding view_def using eq_sched mem by (intro map_cong) auto
  have "view s' f' p' = ((view s)(f := (view s f)(?p := view s f ?p @ [(uc_user_token cmd, uc_issue_id cmd, None)]))) f' p'"
    for f' p'
    unfolding view_def [of s' f' p'] q by (simp add: old new)
  then show "view s' = (view s)(f := (view s f)(?p := view s f ?p @ [(uc_user_token cmd, uc_issue_id cmd, None)]))"
    by (intro ext)
  show "served s s' k'" if "k' \<in> ps_live s"
    using core [OF that] by (auto simp: served_def statics_def expired_def kcore_def)
  show "ps_live s' = insert k (ps_live s)" using t(1) by (simp add: s' building_def)
  show "kstate s' k = KCMD_STATE_NEW" using t(2) by (simp add: s' copied_def)
qed

lemma step_ok_queued:
  assumes "driver_ok s" "f \<in> set (ps_fhs s)" "\<And>k. qe_kcmd q = Some k \<Longrightarrow> k \<notin> ps_live s"
    and "ipu_psys_kcmd_new e q cmd f s = (Inr (), s')"
  shows "step_ok s (Submit f (unat (uc_priority cmd)) (uc_user_token cmd) (uc_issue_id cmd)) s'"
proof -
  have s: "sched_ok s" "events_ok s" "queued_ok s"
    using assms(1) by (simp_all add: driver_ok_def sched_ok_def core_def)
  obtain k where k: "qe_kcmd q = Some k" "queued_command cmd f k s s'" and ok: "sched_ok s'"
    using kcmd_new_spec [OF s(1) assms(2,3,4)] by auto
  note v = enqueue_view [OF k(2) assms(3) [OF k(1)] s(3)]
  have "events_ok s'"
    unfolding events_ok_def
  proof (intro ballI impI)
    fix x assume x: "x \<in> ps_live s'" "kstate s' x = KCMD_STATE_COMPLETE"
    then have l: "x \<in> ps_live s" using v(3,4) by auto
    have sv: "served s s' x" by (rule v(2) [OF l])
    show "\<exists>err. completed_with s' x err"
    proof (cases "kstate s x = KCMD_STATE_COMPLETE")
      case True
      then obtain err where "completed_with s x err" using s(2) l by (auto simp: events_ok_def)
      then have "completed_with s' x err"
        using sv x(2) True by (simp add: completed_with_def served_def statics_def)
      then show ?thesis ..
    qed (use sv x(2) in \<open>simp add: served_def\<close>)
  qed
  moreover have "client_step (view s) (Submit f (unat (uc_priority cmd)) (uc_user_token cmd) (uc_issue_id cmd)) (view s')"
    unfolding v(1) by (rule client_step.submit)
  ultimately show ?thesis using ok by (simp add: step_ok_def driver_ok_def)
qed

lemma timer_frame:
  "ps_fhs (ipu_psys_watchdog k s) = ps_fhs s" "ps_queue (ipu_psys_watchdog k s) = ps_queue s"
  "ps_new_tail (ipu_psys_watchdog k s) = ps_new_tail s" "ps_live (ipu_psys_watchdog k s) = ps_live s"
  "ps_started_list (ipu_psys_watchdog k s) = ps_started_list s"
  "ps_started (ipu_psys_watchdog k s) = ps_started s" "ps_active (ipu_psys_watchdog k s) = ps_active s"
  "ps_fault (ipu_psys_watchdog k s) = ps_fault s" "ps_freq (ipu_psys_watchdog k s) = ps_freq s"
  "km_fh (ps_kcmd (ipu_psys_watchdog k s) x) = km_fh (ps_kcmd s x)"
  "kstate (ipu_psys_watchdog k s) x = kstate s x"
  "km_priority (ps_kcmd (ipu_psys_watchdog k s) x) = km_priority (ps_kcmd s x)"
  "km_min_freq (ps_kcmd (ipu_psys_watchdog k s) x) = km_min_freq (ps_kcmd s x)"
  "km_user_token (ps_kcmd (ipu_psys_watchdog k s) x) = km_user_token (ps_kcmd s x)"
  "km_issue_id (ps_kcmd (ipu_psys_watchdog k s) x) = km_issue_id (ps_kcmd s x)"
  "km_ev (ps_kcmd (ipu_psys_watchdog k s) x) = km_ev (ps_kcmd s x)"
  by (simp_all add: ipu_psys_watchdog_def upd_kcmd_def)

lemma timer_core: "core D (ipu_psys_watchdog k s) = core D s"
  unfolding core_def queued_ok_def holding_def timer_frame ..

lemma step_ok_timer:
  assumes "driver_ok s" "s' = ipu_psys_watchdog k s"
  shows "step_ok s Tau s'"
proof -
  note f = timer_frame [of k s, folded assms(2)]
  have e: "client_entry_of s' = client_entry_of s" by (rule ext) (simp add: client_entry_of_def f)
  have ok: "sched_ok s" "events_ok s" using assms(1) by (simp_all add: driver_ok_def)
  have "core {} s'" using ok(1) unfolding assms(2) timer_core by (simp add: sched_ok_def)
  moreover have "tail_ok s'" using ok(1) unfolding tail_ok_def f by (simp add: sched_ok_def tail_ok_def)
  moreover have "queues_ok s'" using ok(1) by (simp add: sched_ok_def queues_ok_def queue_of_def f)
  moreover have "events_ok s'" using ok(2) by (simp add: events_ok_def completed_with_def f)
  moreover have "view s' = view s" by (intro ext) (simp add: view_def f e)
  moreover have "client_step v Tau v" for v
    by (rule client_step.tau) (simp add: list_all2_same settles_def)
  ultimately show ?thesis by (simp add: step_ok_def driver_ok_def sched_ok_def)
qed

lemma waits_queue: "(case ps_queue s f p of [] \<Rightarrow> False | k # _ \<Rightarrow> kstate s k = KCMD_STATE_COMPLETE) = (\<not> waits (view s f p))"
  by (cases "ps_queue s f p") (simp_all add: waits_def view_def client_entry_of_def)

lemma find_upt_first:
  assumes "List.find P [0..<n] = Some p"
  shows "p < n \<and> P p \<and> (\<forall>p' < p. \<not> P p')"
  using assms by (auto simp: find_Some_iff)

lemma completed_foremost:
  assumes "queued_ok s" "ipu_get_completed_kcmd f s = Some k"
  obtains q where "ps_queue s f (priority_of s k) = k # q" "kstate s k = KCMD_STATE_COMPLETE"
    "foremost (view s) f (priority_of s k)"
proof -
  obtain p where p: "List.find (\<lambda>p. \<not> waits (view s f p)) [0..<IPU_PSYS_CMD_PRIORITY_NUM] = Some p"
      "k = hd (ps_queue s f p)"
    using assms(2) unfolding ipu_get_completed_kcmd_def waits_queue by (auto split: option.splits)
  note first = find_upt_first [OF p(1)]
  obtain q where q: "ps_queue s f p = k # q" "kstate s k = KCMD_STATE_COMPLETE"
    using first p(2) by (cases "ps_queue s f p") (auto simp: waits_queue [symmetric])
  have "priority_of s k = p"
    using q(1) assms(1) unfolding queued_ok_def priority_of_def by (metis list.set_intros(1))
  then show ?thesis using that [of q] q first by (simp add: foremost_def)
qed

text \<open>Taking a complete command that is the first of its queue.\<close>

lemma step_ok_taken:
  assumes "driver_ok s" "ps_queue s f p = k # q" "kstate s k = KCMD_STATE_COMPLETE"
    and "dqevent_take k s = (ev, s')"
  shows "step_ok s (Deliver f p ev) s'" "p = priority_of s k"
    "ps_queue s' f' p' = (if f' = f \<and> p' = p then q else ps_queue s f' p')" "ps_kcmd s' = ps_kcmd s"
proof -
  have ok: "sched_ok s" "events_ok s" "queued_ok s"
    using assms(1) by (simp_all add: driver_ok_def sched_ok_def core_def)
  have g: "ev = km_ev (ps_kcmd s k)" "s' = ipu_psys_kcmd_free True k s" using assms(4) by (auto simp: dqevent_take_def)
  have kl: "k \<in> ps_live s" "k \<in> set (ps_queue s f p)"
    using assms(2) ok(3) unfolding queued_ok_def by (metis list.set_intros(1))+
  obtain err where c: "completed_with s k err" using ok(2) kl(1) assms(3) by (auto simp: events_ok_def)
  have ev: "ev = client_event (km_user_token (ps_kcmd s k)) (km_issue_id (ps_kcmd s k)) err"
    using c g(1) by (simp add: completed_with_def client_event_def)
  have e: "client_entry_of s' = client_entry_of s" by (rule ext) (simp add: client_entry_of_def g(2))
  have head: "view s f p = (km_user_token (ps_kcmd s k), km_issue_id (ps_kcmd s k), Some err) # map (client_entry_of s) q"
    using assms(2) c by (simp add: view_def client_entry_of_def completed_with_def)
  have q': "ps_queue s' f' p' = (if f' = f \<and> p' = p then q else ps_queue s f' p')" for f' p'
    using list_del_queue [OF ok(3) kl(2)] by (simp add: g(2) assms(2))
  have "view s' f' p' = ((view s)(f := (view s f)(p := map (client_entry_of s) q))) f' p'" for f' p'
    by (simp add: view_def e q')
  then have v: "view s' = (view s)(f := (view s f)(p := map (client_entry_of s) q))" by (intro ext)
  have "client_step (view s) (Deliver f p ev) (view s')"
    unfolding ev v by (rule client_step.deliver [of "view s", OF head])
  moreover have "sched_ok s'" unfolding g(2) by (rule kcmd_free_sched [OF ok(1) assms(2,3)])
  moreover have "events_ok s'" using ok(2) by (auto simp: events_ok_def completed_with_def g(2))
  ultimately show "step_ok s (Deliver f p ev) s'" by (simp add: step_ok_def driver_ok_def)
  show "p = priority_of s k" using kl(2) ok(3) by (simp add: queued_ok_def priority_of_def)
  show "ps_queue s' f' p' = (if f' = f \<and> p' = p then q else ps_queue s f' p')" by (rule q')
  show "ps_kcmd s' = ps_kcmd s" by (simp add: g(2))
qed

lemma step_ok_closed:
  assumes "driver_ok s" "timers_idle e f s" "ipu_psys_release 1 e f s = Some s'"
  shows "step_ok s (Close f) s'"
proof -
  have ok: "sched_ok s" "events_ok s" using assms(1) by (simp_all add: driver_ok_def)
  obtain s1 where r1: "ipu_psys_release (Suc 0) e f s = Some s1" "sched_ok s1"
      "ps_live s1 = {k \<in> ps_live s. km_fh (ps_kcmd s k) \<noteq> f}"
      "\<forall>f' p. ps_queue s1 f' p = (if f' = f then [] else ps_queue s f' p)"
      "\<forall>k \<in> ps_live s1. statics s s1 k \<and> untouched s s1 k"
    using release_spec [OF ok(1) assms(2)] by blast
  have "s1 = s'" using r1(1) assms(3) by simp
  note r = r1(2-5) [unfolded this]
  have ok': "queued_ok s'" using r(1) by (simp add: sched_ok_def core_def)
  have sv: "served s s' k" if "k \<in> ps_live s'" for k using r(4) that served_untouched by blast
  have "list_all2 settles (view s f' p) (view s' f' p)" if "f' \<noteq> f" for f' p
  proof -
    have q: "ps_queue s f' p = ps_queue s' f' p" using r(3) that by simp
    show ?thesis unfolding view_def q
      by (rule list_all2_map_settles, rule entry_served, rule sv) (use ok' in \<open>auto simp: queued_ok_def\<close>)
  qed
  then have "client_step (view s) (Close f) (view s')"
    by (intro client_step.close) (auto simp: view_def r(3))
  moreover have "events_ok s'" using ok(2) r(2) sv by - (rule events_served [of s], auto)
  ultimately show ?thesis using r(1) by (simp add: step_ok_def driver_ok_def)
qed

text \<open>
  The operations that are a step of their own keep the driver's invariant and the contract.
\<close>

lemma step_ok_opened:
  assumes "driver_ok s" "f \<notin> set (ps_fhs s)" "ipu_psys_open e auth (Some f) s = (ret, s')"
  shows "step_ok s Tau s'" "ps_queue s' = ps_queue s" "ps_kcmd s' = ps_kcmd s"
proof -
  have ok: "sched_ok s" "queued_ok s" "events_ok s" using assms(1) by (simp_all add: driver_ok_def sched_ok_def core_def)
  have r: "sched_ok s'" "ps_queue s' = ps_queue s" "ps_kcmd s' = ps_kcmd s" "ps_live s' = ps_live s"
    using open_spec [OF ok(1) _ assms(3)] assms(2) by simp_all
  have sv: "served s s' k" for k using r(3) by (simp add: served_def statics_def expired_def)
  have "client_step (view s) Tau (view s')"
    using view_live [OF ok(2) r(2)] sv by (intro client_step.tau) simp
  moreover have "events_ok s'" using ok(3) r(4) sv by - (rule events_served [of s], simp_all)
  ultimately show "step_ok s Tau s'" using r(1) by (simp add: step_ok_def driver_ok_def)
  show "ps_queue s' = ps_queue s" "ps_kcmd s' = ps_kcmd s" by (rule r)+
qed

lemma scheduled_serves:
  assumes "driver_ok s" "pm_ok e" "ipu_psys_sched_cmd (run_fuel s) 1 e False s = Some (True, s')"
  shows "sched_ok s' \<and> serves s s'"
proof (cases "ps_wakeup s = 0")
  case True
  then have "s' = s" using assms(3) by (simp add: ipu_psys_sched_cmd_def)
  then show ?thesis using assms(1) by (simp add: driver_ok_def)
next
  case False
  let ?s = "s\<lparr>ps_wakeup := 0\<rparr>"
  have eq_sched: "eq_sched s ?s" by (rule same_env)
  have "ipu_psys_run_next (run_fuel s) 1 e ?s = Some s'"
    using assms(3) False by (simp add: ipu_psys_sched_cmd_def)
  then have "next_post e [0..<IPU_PSYS_CMD_PRIORITY_NUM] ?s s'"
    using run_next_spec [of ?s e "run_fuel s" 0] sched_ok_same [OF eq_sched] assms(1,2)
    by (auto simp: run_fuel_def driver_ok_def)
  then show ?thesis
    using serves_progress serves_trans [OF serves_same [OF eq_sched]] by (auto simp: next_post_def)
qed

lemma event_serves:
  assumes "driver_ok s" "handle_event 1 e ev (s\<lparr>ps_port := p\<rparr>) = Some s'"
    and "ipu_psys_kcmd_is_valid s (unat (pe_token ev)) \<Longrightarrow>
        kstate s (unat (pe_token ev)) \<in> {KCMD_STATE_STARTED, KCMD_STATE_RUNNING}"
  shows "sched_ok s' \<and> serves s s'"
proof -
  let ?s = "s\<lparr>ps_port := p\<rparr>"
  have eq_sched: "eq_sched s ?s" by (rule same_env)
  have ok: "sched_ok ?s" using assms(1) sched_ok_same [OF eq_sched] by (simp add: driver_ok_def)
  have "ipu_psys_kcmd_is_valid ?s k = ipu_psys_kcmd_is_valid s k" for k by (simp add: ipu_psys_kcmd_is_valid_def)
  then have "sched_ok s'" "serves ?s s'"
    using handle_event_spec [OF ok, of ev 0 e] assms(2,3) by auto
  then show ?thesis using serves_trans [OF serves_same [OF eq_sched]] by blast
qed

lemma reset_serves:
  assumes "driver_ok s" "pm_ok e" "eq_sched s t" "ipu_psys_reset (run_fuel s) 1 e pw t = Some s'"
  shows "sched_ok s' \<and> serves s s'"
proof -
  have "run_fuel t = run_fuel s" using assms(3) by (simp add: run_fuel_def eq_schedD)
  then have "sched_ok s' \<and> serves t s'"
    using reset_spec [OF _ assms(2), of t 0 pw] sched_ok_same [OF assms(3)] assms(1,4) by (auto simp: driver_ok_def)
  then show ?thesis using serves_trans [OF serves_same [OF assms(3)]] by blast
qed

lemma world_serves: "driver_ok s \<Longrightarrow> sched_ok (s\<lparr>ps_bufs := b, ps_mem := m, ps_port := p\<rparr>) \<and>
  serves s (s\<lparr>ps_bufs := b, ps_mem := m, ps_port := p\<rparr>)"
proof -
  have "eq_sched s (s\<lparr>ps_bufs := b, ps_mem := m, ps_port := p\<rparr>)"
    by (rule eq_sched_trans [OF eq_sched_trans [OF same_env(6) same_env(3)] same_env(2)])
  then show "driver_ok s \<Longrightarrow> ?thesis" using sched_ok_same serves_same by (simp add: driver_ok_def)
qed

text \<open>What waiting callers have chosen stays as it is.\<close>

lemma waiters_keep:
  assumes "waiters_ok s ws" "queued_ok s"
    and "\<And>w p q. w \<in> set ws \<Longrightarrow> ps_queue s (wa_fh w) p = wa_kcmd w # q \<Longrightarrow> \<exists>q'. ps_queue s' (wa_fh w) p = wa_kcmd w # q'"
    and "\<And>k f p q. ps_queue s f p = k # q \<Longrightarrow> k \<in> ps_live s \<Longrightarrow> f \<in> wa_fh ` set ws \<Longrightarrow> served s s' k"
  shows "waiters_ok s' ws \<and> chosen s' ws = chosen s ws"
proof -
  have 1: "served s s' (wa_kcmd w)" if w: "w \<in> set ws" "\<not> wa_overtaken w" for w
  proof -
    obtain p q where "ps_queue s (wa_fh w) p = wa_kcmd w # q" using assms(1) w by (auto simp: waiters_ok_def)
    moreover from this have "wa_kcmd w \<in> ps_live s" using assms(2) unfolding queued_ok_def by (metis list.set_intros(1))
    ultimately show ?thesis using assms(4) w(1) by blast
  qed
  have "(wa_fh w, priority_of s' (wa_kcmd w)) = (wa_fh w, priority_of s (wa_kcmd w))"
    if "w \<in> {w \<in> set ws. \<not> wa_overtaken w}" for w
    using 1 that by (simp add: served_def statics_def priority_of_def)
  then have "chosen s' ws = chosen s ws" unfolding chosen_def by (rule image_cong [OF refl])
  moreover have "waiters_ok s' ws"
    unfolding waiters_ok_def
  proof (intro ballI impI conjI)
    fix w assume w: "w \<in> set ws" "\<not> wa_overtaken w"
    then show "\<exists>p q. ps_queue s' (wa_fh w) p = wa_kcmd w # q" using assms(1,3) unfolding waiters_ok_def by meson
    show "kstate s' (wa_kcmd w) = KCMD_STATE_COMPLETE" using 1 [OF w] assms(1) w by (simp add: served_def waiters_ok_def)
  qed
  ultimately show ?thesis by blast
qed

lemma waiters_serves:
  assumes "waiters_ok s ws" "queued_ok s" "serves s s'"
  shows "waiters_ok s' ws \<and> chosen s' ws = chosen s ws"
  by (rule waiters_keep [OF assms(1,2)]) (use assms(3) in \<open>simp_all add: serves_def\<close>)

text \<open>After a command is taken, the callers that had found it are overtaken.\<close>

lemma overtake_set: "w \<in> set (overtake k ws) \<longleftrightarrow>
    (\<exists>v \<in> set ws. w = (if wa_kcmd v = k then v\<lparr>wa_overtaken := True\<rparr> else v))"
  unfolding overtake_def set_map image_iff ..

lemma waiters_taken:
  assumes "waiters_ok s ws" "queued_ok s" "ps_queue s f p = k # q" "p = priority_of s k" "ps_kcmd s' = ps_kcmd s"
    and "\<And>f' p'. ps_queue s' f' p' = (if f' = f \<and> p' = p then q else ps_queue s f' p')"
  shows "waiters_ok s' (overtake k ws) \<and> chosen s' (overtake k ws) = chosen s ws - {(f, p)}"
proof -
  have fh: "km_fh (ps_kcmd s x) = g" if "ps_queue s g p' = x # r" for x g p' r
    using that assms(2) unfolding queued_ok_def by (metis list.set_intros(1))
  have other: "wa_kcmd w = k \<longleftrightarrow> wa_fh w = f \<and> priority_of s (wa_kcmd w) = p"
    if w: "w \<in> set ws" "\<not> wa_overtaken w" for w
  proof -
    obtain p' q' where h: "ps_queue s (wa_fh w) p' = wa_kcmd w # q'"
      using assms(1) w unfolding waiters_ok_def by meson
    have "priority_of s (wa_kcmd w) = p'"
      using h assms(2) unfolding queued_ok_def priority_of_def by (metis list.set_intros(1))
    then have p': "priority_of s (wa_kcmd w) = p'" .
    show ?thesis
    proof
      assume "wa_kcmd w = k"
      then show "wa_fh w = f \<and> priority_of s (wa_kcmd w) = p" using fh [OF h] fh [OF assms(3)] assms(4) by simp
    next
      assume "wa_fh w = f \<and> priority_of s (wa_kcmd w) = p"
      then show "wa_kcmd w = k" using h assms(3) p' by simp
    qed
  qed
  have live: "w \<in> {w \<in> set (overtake k ws). \<not> wa_overtaken w} \<longleftrightarrow> w \<in> set ws \<and> \<not> wa_overtaken w \<and> wa_kcmd w \<noteq> k" for w
  proof
    assume "w \<in> {w \<in> set (overtake k ws). \<not> wa_overtaken w}"
    then obtain v where "v \<in> set ws" "w = (if wa_kcmd v = k then v\<lparr>wa_overtaken := True\<rparr> else v)" "\<not> wa_overtaken w"
      using overtake_set by blast
    then show "w \<in> set ws \<and> \<not> wa_overtaken w \<and> wa_kcmd w \<noteq> k" by (cases "wa_kcmd v = k") simp_all
  next
    assume "w \<in> set ws \<and> \<not> wa_overtaken w \<and> wa_kcmd w \<noteq> k"
    then show "w \<in> {w \<in> set (overtake k ws). \<not> wa_overtaken w}" using overtake_set [of w k ws] by auto
  qed
  have "waiters_ok s' (overtake k ws)"
    unfolding waiters_ok_def
  proof (intro ballI impI)
    fix w assume "w \<in> set (overtake k ws)" "\<not> wa_overtaken w"
    then have w: "w \<in> set ws" "\<not> wa_overtaken w" "wa_kcmd w \<noteq> k" using live by blast+
    then obtain p' q' where h: "ps_queue s (wa_fh w) p' = wa_kcmd w # q'" "kstate s (wa_kcmd w) = KCMD_STATE_COMPLETE"
      using assms(1) unfolding waiters_ok_def by meson
    have "ps_queue s' (wa_fh w) p' = wa_kcmd w # q'" using h(1) w(3) assms(3,6) by auto
    then show "(\<exists>p q. ps_queue s' (wa_fh w) p = wa_kcmd w # q) \<and> kstate s' (wa_kcmd w) = KCMD_STATE_COMPLETE"
      using h(2) assms(5) by auto
  qed
  moreover have "chosen s' (overtake k ws) = chosen s ws - {(f, p)}"
  proof -
    have "{w \<in> set (overtake k ws). \<not> wa_overtaken w} = {w \<in> set ws. \<not> wa_overtaken w \<and> wa_kcmd w \<noteq> k}"
      using live by blast
    then have "chosen s' (overtake k ws) =
        (\<lambda>w. (wa_fh w, priority_of s (wa_kcmd w))) ` {w \<in> set ws. \<not> wa_overtaken w \<and> wa_kcmd w \<noteq> k}"
      by (simp add: chosen_def priority_of_def assms(5))
    also have "\<dots> = chosen s ws - {(f, p)}" using other by (auto simp: chosen_def)
    finally show ?thesis .
  qed
  ultimately show ?thesis ..
qed

section \<open>Every step\<close>

definition system_ok :: "psys \<times> waiter list \<Rightarrow> bool" where
  "system_ok st \<longleftrightarrow> driver_ok (fst st) \<and> waiters_ok (fst st) (snd st)"

definition system_view :: "psys \<times> waiter list \<Rightarrow> client_view \<times> (nat \<times> nat) set" where
  "system_view st = (view (fst st), chosen (fst st) (snd st))"

definition system_step_ok :: "psys \<times> waiter list \<Rightarrow> client_action \<Rightarrow> psys \<times> waiter list \<Rightarrow> bool" where
  "system_step_ok st a st' \<longleftrightarrow> system_ok st' \<and> contract_step (system_view st) a (system_view st')"

lemma system_step_same:
  assumes "step_ok s a s'" "\<nexists>f p ev. a = Deliver f p ev" "waiters_ok s' ws \<and> chosen s' ws = chosen s ws"
  shows "system_step_ok (s, ws) a (s', ws)"
  using assms contract_step.other by (simp add: system_step_ok_def system_ok_def system_view_def step_ok_def)

lemma system_step_serves:
  assumes "system_ok (s, ws)" "sched_ok s' \<and> serves s s'"
  shows "system_step_ok (s, ws) Tau (s', ws)"
proof -
  have "queued_ok s" using assms(1) by (simp add: system_ok_def driver_ok_def sched_ok_def core_def)
  then show ?thesis
    using assms step_ok_serves [of s s'] waiters_serves [of s ws s'] by (intro system_step_same) (auto simp: system_ok_def)
qed

lemma system_step_taken:
  assumes "system_ok (s, ws)" "ps_queue s f p = k # q" "kstate s k = KCMD_STATE_COMPLETE"
    and "dqevent_take k s = (ev, s')" "(f, p) \<in> chosen s ws \<or> foremost (view s) f p"
    and "set ws' \<subseteq> set ws" "chosen s ws - {(f, p)} \<subseteq> chosen s ws'"
  shows "system_step_ok (s, ws) (Deliver f p ev) (s', overtake k ws')"
proof -
  have ok: "driver_ok s" "waiters_ok s ws" "queued_ok s"
    using assms(1) by (simp_all add: system_ok_def driver_ok_def sched_ok_def core_def)
  note t = step_ok_taken [OF ok(1) assms(2-4)]
  have "waiters_ok s ws'" using ok(2) assms(6) by (auto simp: waiters_ok_def)
  then have w: "waiters_ok s' (overtake k ws')" "chosen s' (overtake k ws') = chosen s ws' - {(f, p)}"
    using waiters_taken [OF _ ok(3) assms(2) t(2,4,3)] by blast+
  have "chosen s ws' \<subseteq> chosen s ws" using assms(6) by (auto simp: chosen_def)
  then have "chosen s' (overtake k ws') = chosen s ws - {(f, p)}" using w(2) assms(7) by blast
  then show ?thesis
    using t(1) w(1) contract_step.deliver [OF _ assms(5)] by (simp add: system_step_ok_def system_ok_def system_view_def step_ok_def)
qed

lemma psys_step_system:
  assumes "psys_step st a st'" "system_ok st" "\<forall>r. a \<noteq> Race r"
  shows "system_step_ok st a st'"
  using assms(1)
proof cases
  case (opened f s e auth ret s' ws)
  have ok: "driver_ok s" "waiters_ok s ws" "queued_ok s"
    using assms(2) opened(1) by (simp_all add: system_ok_def driver_ok_def sched_ok_def core_def)
  note o = step_ok_opened [OF ok(1) opened(4,5)]
  have "waiters_ok s' ws \<and> chosen s' ws = chosen s ws"
    by (rule waiters_keep [OF ok(2,3)]) (simp_all add: o(2,3) served_def statics_def expired_def)
  then show ?thesis unfolding opened(1-3) by (intro system_step_same o(1)) simp_all
next
  case (queued f s q e cmd s' ws)
  have ok: "driver_ok s" "waiters_ok s ws" "queued_ok s" "sched_ok s"
    using assms(2) queued(1) by (simp_all add: system_ok_def driver_ok_def sched_ok_def core_def)
  obtain k where k: "qe_kcmd q = Some k" "queued_command cmd f k s s'"
    using kcmd_new_spec [OF ok(4) queued(4,5,6)] by auto
  note v = enqueue_view [OF k(2) queued(5) [OF k(1)] ok(3)]
  obtain t where t: "building k s t" "s' = enqueue f (unat (uc_priority cmd)) k t"
    using k(2) by (auto simp: queued_command_def)
  have "ps_queue s' f' p' = (if f' = f \<and> p' = unat (uc_priority cmd) then ps_queue s f' p' @ [k] else ps_queue s f' p')"
    for f' p' using t by (simp add: building_def)
  then have "waiters_ok s' ws \<and> chosen s' ws = chosen s ws"
    by (intro waiters_keep [OF ok(2,3)] v(2)) auto
  then show ?thesis unfolding queued(1-3) using step_ok_queued [OF ok(1) queued(4,5,6)] by (intro system_step_same) simp_all
next
  case (refused f s q e cmd err s' ws)
  have ok: "driver_ok s" "waiters_ok s ws" "queued_ok s" "sched_ok s"
    using assms(2) refused(1) by (simp_all add: system_ok_def driver_ok_def sched_ok_def core_def)
  have r: "sched_ok s' \<and> eq_live s s'" using kcmd_new_spec [OF ok(4) refused(4,5,6)] by simp
  then have "ps_queue s' = ps_queue s" unfolding eq_live_def by blast
  then have "waiters_ok s' ws \<and> chosen s' ws = chosen s ws"
    using r served_same_live by (intro waiters_keep [OF ok(2,3)]) auto
  then show ?thesis unfolding refused(1-3) using step_ok_same_live [OF ok(1)] r by (intro system_step_same) simp_all
next
  case (scheduled s e s' ws)
  have a: "pm_ok e" "a = Tau" using assms(3) scheduled(2) by (auto split: if_splits)
  show ?thesis using scheduled_serves [OF _ a(1) scheduled(4)] assms(2)
    unfolding scheduled(1,3) a(2) by (intro system_step_serves) (simp_all add: system_ok_def)
next
  case (event s ev p e s' ws)
  have a: "a = Tau" "ipu_psys_kcmd_is_valid s (unat (pe_token ev)) \<Longrightarrow>
        kstate s (unat (pe_token ev)) \<in> {KCMD_STATE_STARTED, KCMD_STATE_RUNNING}"
    using assms(3) event(2) by (auto split: if_splits)
  have d: "driver_ok s" using assms(2) event(1) by (simp add: system_ok_def)
  show ?thesis using event_serves [OF d event(6) a(2)] assms(2)
    unfolding event(1,3) a(1) by (intro system_step_serves) simp_all
next
  case (unknown s ev p e pw s' ws)
  have a: "pm_ok e" "a = Tau" using assms(3) unknown(2) by (auto split: if_splits)
  have d: "driver_ok s" using assms(2) unknown(1) by (simp add: system_ok_def)
  show ?thesis using reset_serves [OF d a(1) same_env(2) unknown(6)] assms(2)
    unfolding unknown(1,3) a(2) by (intro system_step_serves) simp_all
next
  case (world s ws b m p)
  then show ?thesis using world_serves [of s b m p] assms(2)
    unfolding world by (intro system_step_serves) (simp_all add: system_ok_def)
next
  case (timer s k ws)
  have ok: "driver_ok s" "waiters_ok s ws" "queued_ok s"
    using assms(2) timer(1) by (simp_all add: system_ok_def driver_ok_def sched_ok_def core_def)
  have "waiters_ok (ipu_psys_watchdog k s) ws \<and> chosen (ipu_psys_watchdog k s) ws = chosen s ws"
    using ok(2) by (simp add: waiters_ok_def chosen_def priority_of_def timer_frame)
  then show ?thesis unfolding timer(1-3) using step_ok_timer [OF ok(1) refl] by (intro system_step_same) simp_all
next
  case (watchdog s e pw s' ws)
  have a: "pm_ok e" "a = Tau" using assms(3) watchdog(2) by (auto split: if_splits)
  have "sched_ok s' \<and> serves s s'"
    using watchdog_work_spec [OF _ a(1), of s 0 pw] assms(2) watchdog(1,4) by (auto simp: system_ok_def driver_ok_def)
  then show ?thesis using assms(2) unfolding watchdog(1,3) a(2) by (intro system_step_serves) simp_all
next
  case (reset s e pw s' ws)
  have a: "pm_ok e" "a = Tau" using assms(3) reset(2) by (auto split: if_splits)
  have d: "driver_ok s" using assms(2) reset(1) by (simp add: system_ok_def)
  show ?thesis using reset_serves [OF d a(1) eq_sched_refl reset(4)] assms(2)
    unfolding reset(1,3) a(2) by (intro system_step_serves) simp_all
next
  case (delivered f s k nonblock signal ev s' ws)
  have ok: "queued_ok s" using assms(2) delivered(1) by (simp_all add: system_ok_def driver_ok_def sched_ok_def core_def)
  obtain q where q: "ps_queue s f (priority_of s k) = k # q" "kstate s k = KCMD_STATE_COMPLETE"
      "foremost (view s) f (priority_of s k)"
    by (rule completed_foremost [OF ok delivered(4)])
  have t: "dqevent_take k s = (ev, s')"
    using delivered(4,5) by (simp add: ipu_ioctl_dqevent_def dqevent_take_def)
  show ?thesis unfolding delivered(1-3)
    by (rule system_step_taken [OF _ q(1,2) t, of ws ws]) (use assms(2) delivered(1) q(3) in auto)
next
  case (found f s k ws)
  have ok: "queued_ok s" using assms(2) found(1) by (simp_all add: system_ok_def driver_ok_def sched_ok_def core_def)
  obtain q where q: "ps_queue s f (priority_of s k) = k # q" "kstate s k = KCMD_STATE_COMPLETE"
      "foremost (view s) f (priority_of s k)"
    by (rule completed_foremost [OF ok found(4)])
  let ?w = "\<lparr>wa_fh = f, wa_kcmd = k, wa_overtaken = False\<rparr>"
  have "{w \<in> set (?w # ws). \<not> wa_overtaken w} = insert ?w {w \<in> set ws. \<not> wa_overtaken w}" by auto
  then have "chosen s (?w # ws) = insert (f, priority_of s k) (chosen s ws)" by (simp add: chosen_def)
  moreover have "waiters_ok s (?w # ws)" using assms(2) found(1) q(1,2) by (auto simp: waiters_ok_def system_ok_def)
  ultimately show ?thesis
    using assms(2) contract_step.choose [OF q(3), of "chosen s ws"] unfolding found(1-3)
    by (simp add: system_step_ok_def system_ok_def system_view_def)
next
  case (taken w s ev s' ws ws')
  have a: "\<not> wa_overtaken w" "a = Deliver (wa_fh w) (priority_of s (wa_kcmd w)) ev"
    using assms(3) taken(2) by (auto split: if_splits)
  have ok: "system_ok (s, ws @ w # ws')" "queued_ok s" "waiters_ok s (ws @ w # ws')"
    using assms(2) taken(1) by (simp_all add: system_ok_def driver_ok_def sched_ok_def core_def)
  obtain p q where q: "ps_queue s (wa_fh w) p = wa_kcmd w # q" "kstate s (wa_kcmd w) = KCMD_STATE_COMPLETE"
    using ok(3) a(1) by (auto simp: waiters_ok_def)
  have p: "p = priority_of s (wa_kcmd w)"
    using q(1) ok(2) unfolding queued_ok_def priority_of_def by (metis list.set_intros(1))
  have c: "chosen s (ws @ w # ws') = insert (wa_fh w, p) (chosen s (ws @ ws'))" using a(1) p by (auto simp: chosen_def)
  show ?thesis unfolding taken(1,3) a(2) p [symmetric]
    by (rule system_step_taken [OF ok(1) q taken(4)]) (use c in auto)
next
  case (closed f ws e s s')
  have a: "timers_idle e f s" "a = Close f" using assms(3) closed(2) by (auto split: if_splits)
  have ok: "driver_ok s" "sched_ok s" "waiters_ok s ws" "queued_ok s"
    using assms(2) closed(1) by (simp_all add: system_ok_def driver_ok_def sched_ok_def core_def)
  obtain s1 where r: "ipu_psys_release (Suc 0) e f s = Some s1"
      "ps_live s1 = {k \<in> ps_live s. km_fh (ps_kcmd s k) \<noteq> f}"
      "\<forall>f' p. ps_queue s1 f' p = (if f' = f then [] else ps_queue s f' p)"
      "\<forall>k \<in> ps_live s1. statics s s1 k \<and> untouched s s1 k"
    using release_spec [OF ok(2) a(1), of 0] by blast
  have s1: "s1 = s'" using r(1) closed(5) by simp
  have "served s s' k" if k: "ps_queue s g p = k # q" "k \<in> ps_live s" "g \<in> wa_fh ` set ws" for k g p q
  proof -
    have "g \<noteq> f" using closed(4) k(3) by auto
    moreover have "km_fh (ps_kcmd s k) = g" using k(1) ok(4) unfolding queued_ok_def by (metis list.set_intros(1))
    ultimately have "k \<in> ps_live s'" using k(2) r(2) s1 by simp
    then show ?thesis using r(4) s1 served_untouched by blast
  qed
  moreover have "ps_queue s' (wa_fh w) p = ps_queue s (wa_fh w) p" if "w \<in> set ws" for w p
    using closed(4) r(3) s1 that by auto
  ultimately have "waiters_ok s' ws \<and> chosen s' ws = chosen s ws" by (intro waiters_keep [OF ok(3,4)]) auto
  then show ?thesis unfolding closed(1,3) a(2) using step_ok_closed [OF ok(1) a(1) closed(5)] by (intro system_step_same) simp_all
qed

lemma boot_ok: "psys_boot s \<Longrightarrow> system_ok (s, [])"
  by (simp add: psys_boot_def system_ok_def driver_ok_def sched_ok_def core_def queued_ok_def holding_def tail_ok_def
      queues_ok_def events_ok_def waiters_ok_def)

section \<open>Runs\<close>

interpretation psys: simulation orderly_step contract_step system_view system_ok
proof
  fix st st' a assume "system_ok st" "orderly_step st a st'"
  then have "system_step_ok st a st'" using psys_step_system by (simp add: orderly_step_def)
  then show "system_ok st'" "contract_step (system_view st) a (system_view st')" by (simp_all add: system_step_ok_def)
qed

lemma run_ok: "psys_boot s0 \<Longrightarrow> runs_to orderly_step (s0, []) h st \<Longrightarrow> system_ok st"
  using psys.run_simulates boot_ok by blast

lemma reachable_ok: "psys_reachable s \<Longrightarrow> driver_ok s"
  using run_ok by (fastforce simp: psys_reachable_def system_ok_def)

lemma reachable_sched: "psys_reachable s \<Longrightarrow> sched_ok s"
  using reachable_ok by (simp add: driver_ok_def)

text \<open>
  What was submitted to, and delivered from, one queue since its handle was last closed.
\<close>

definition submits :: "nat \<Rightarrow> nat \<Rightarrow> client_action list \<Rightarrow> (u64 \<times> u64) list" where
  "submits f p = foldl (\<lambda>l a. case a of
       Submit f' p' t i \<Rightarrow> if f' = f \<and> p' = p then l @ [(t, i)] else l
     | Close f' \<Rightarrow> if f' = f then [] else l
     | _ \<Rightarrow> l) []"

definition delivers :: "nat \<Rightarrow> nat \<Rightarrow> client_action list \<Rightarrow> (u64 \<times> u64) list" where
  "delivers f p = foldl (\<lambda>l a. case a of
       Deliver f' p' ev \<Rightarrow> if f' = f \<and> p' = p then l @ [(ue_user_token ev, ue_issue_id ev)] else l
     | Close f' \<Rightarrow> if f' = f then [] else l
     | _ \<Rightarrow> l) []"

definition outstanding :: "client_entry list \<Rightarrow> (u64 \<times> u64) list" where
  "outstanding = map (\<lambda>x. (fst x, fst (snd x)))"

lemma outstanding_settles: "list_all2 settles q q' \<Longrightarrow> outstanding q' = outstanding q"
  by (induction rule: list_all2_induct) (simp_all add: outstanding_def settles_def)

lemma client_step_fifo:
  assumes "client_step v a v'" "submits f p h = delivers f p h @ outstanding (v f p)"
  shows "submits f p (h @ [a]) = delivers f p (h @ [a]) @ outstanding (v' f p)"
  using assms(1)
proof cases
  case (submit f p t i)
  then show ?thesis using assms(2) by (simp add: submits_def delivers_def outstanding_def)
next
  case (deliver f p t i err q)
  then show ?thesis using assms(2) by (auto simp: submits_def delivers_def outstanding_def client_event_def)
next
  case (close f')
  show ?thesis
  proof (cases "f' = f")
    case True
    then have "v' f p = []" using close(2) by simp
    then show ?thesis using close(1) True by (simp add: submits_def delivers_def outstanding_def)
  next
    case False
    then have "outstanding (v' f p) = outstanding (v f p)" using close(3) by (intro outstanding_settles) simp
    then show ?thesis using close(1) False assms(2) by (simp add: submits_def delivers_def)
  qed
next
  case tau
  then have "outstanding (v' f p) = outstanding (v f p)" by (intro outstanding_settles) simp
  then show ?thesis using tau(1) assms(2) by (simp add: submits_def delivers_def)
qed

lemma contract_run_fifo:
  assumes "runs_to contract_step ((\<lambda>_ _. []), {}) h vw"
  shows "submits f p h = delivers f p h @ outstanding (fst vw f p)"
  using assms
proof induction
  case stays
  show ?case by (simp add: submits_def delivers_def outstanding_def)
next
  case (steps h vw a vw')
  from \<open>contract_step vw a vw'\<close> show ?case
  proof cases
    case (choose v f p w)
    then show ?thesis using steps.IH by (simp add: submits_def delivers_def)
  next
    case (deliver v f p ev v' w)
    then show ?thesis using client_step_fifo steps.IH by simp
  next
    case (other v v' w)
    then show ?thesis using client_step_fifo steps.IH by simp
  qed
qed

lemma boot_view: "psys_boot s \<Longrightarrow> system_view (s, []) = ((\<lambda>_ _. []), {})"
  by (simp add: psys_boot_def system_view_def view_def chosen_def fun_eq_iff)

end
