(* ===== verification/PsysClients.thy ===== *)
theory PsysClients
  imports PsysDriver
begin

text \<open>
  The properties of the command queues: the invariant of the reachable states, the
  refinement of the client contract, the scheduler's progress, watchdog, reset, events and the closing of
  a handle, each with an instance on a concrete run; then the faults the model shows.
\<close>


section \<open>A concrete run\<close>

text \<open>
  One handle, whose client has one mapped buffer with a process group without terminals and
  processes; one command is queued and scheduled.
\<close>

definition demo_env :: psys_env where
  "demo_env = \<lparr>en_search = first_fit, en_defs = demo_defs, en_early_pg_transfer = False,
     en_enable_concurrency = True, en_flr_done = False, en_jiffies = (\<lambda>_. 0), en_timeout = 100,
     en_pm_get = (\<lambda>_ p. (Inr (), p)), en_timer_running = (\<lambda>_ _. False)\<rparr>"

definition demo_image :: pg_image where
  "demo_image = \<lparr>im_pg = \<lparr>pgr_token = 0, pgr_size = 64, pgr_ID = 1, pgr_state = 0, pgr_ipu_virtual_address = 0,
       pgr_terminal_count = 0, pgr_protocol_version = 0\<rparr>,
     im_group = demo_group 0, im_terminals = (\<lambda>_. \<lparr>tm_terminal_type = 0, tm_connection_type = 0,
       tm_frame_buffer_state = 0, tm_frame_data = 0, tm_frame_data_index = 0, tm_frame_data_bytes = 0,
       tm_payload_buffer = 0, tm_payload_terminal_index = 0\<rparr>)\<rparr>"

definition demo_freq :: psys_freq where
  "demo_freq = \<lparr>pf_ctrl = \<lparr>bc_freq_ctl = 0, bc_pwr_sts_shift = 0, bc_pwr_sts_mask = 0, bc_pwr_sts_on = 0,
       bc_pwr_sts_off = 0, bc_divisor = 0, bc_divisor_shift = 0, bc_qos_floor = 0, bc_started = False\<rparr>,
     pf_constraints = [], pf_fused = \<lparr>ff_min_freq = 100, ff_max_freq = 800, ff_efficient_freq = 200\<rparr>,
     pf_min_freq = 200, pf_force_ratio = 0, pf_regs = (\<lambda>_. 0)\<rparr>"

definition demo_bufs :: buf_state where
  "demo_bufs = \<lparr>bs_kbuf = (\<lambda>_. zero_kbuffer\<lparr>kb_len := 4096, kb_fd := 4, kb_kaddr := 0x100,
       kb_sgt := KRef 0, kb_valid := True\<rparr>),
     bs_live = {0}, bs_bufmap = (\<lambda>f. if f = 7 then [0] else []), bs_calls = [], bs_fault = False\<rparr>"

definition demo_boot :: psys where
  "demo_boot = \<lparr>ps_fhs = [], ps_queue = (\<lambda>_ _. []), ps_new_tail = (\<lambda>_ _. None), ps_kcmd = new_kcmd,
     ps_live = {}, ps_started_list = [], ps_started = 0, ps_active = 0, ps_pools = demo_pools, ps_pgs = [],
     ps_kpg = (\<lambda>_. \<lparr>kp_image = demo_image, kp_size = 0, kp_pg_size = 0, kp_dma_addr = 0, kp_alloc = no_alloc\<rparr>),
     ps_bufs = demo_bufs, ps_mem = (\<lambda>_. demo_image), ps_freq = demo_freq, ps_pm = 0, ps_port = demo_port 1 1,
     ps_wakeup = 0, ps_calls = 0, ps_fault = False\<rparr>"

definition demo_cmd :: psys_command where
  "demo_cmd = \<lparr>uc_issue_id = 21, uc_user_token = 42, uc_priority = 1, uc_pg = 4, uc_pg_manifest_size = 1,
     uc_bufcount = 1, uc_min_psys_freq = 400\<rparr>"

definition demo_qcmd :: qcmd_env where
  "demo_qcmd = \<lparr>qe_max_cache_size = 4096, qe_kcmd = Some 5, qe_kpg = Some (3, 0x2000), qe_manifest = Some [],
     qe_arrays = True, qe_buffers = Some []\<rparr>"

definition demo_open :: psys where
  "demo_open = snd (ipu_psys_open demo_env (Inr ()) (Some 7) demo_boot)"

definition demo_mapped :: psys where
  "demo_mapped = demo_open\<lparr>ps_bufs := demo_bufs, ps_mem := ps_mem demo_open, ps_port := ps_port demo_open\<rparr>"

definition demo_queued :: psys where
  "demo_queued = snd (ipu_psys_kcmd_new demo_env demo_qcmd demo_cmd 7 demo_mapped)"

lemma demo_open_simps [simp]:
  "ps_fhs demo_mapped = [7]" "ps_queue demo_mapped = (\<lambda>_ _. [])" "ps_new_tail demo_mapped = (\<lambda>_ _. None)"
  "ps_kcmd demo_mapped = new_kcmd" "ps_live demo_mapped = {}" "ps_started_list demo_mapped = []"
  "ps_started demo_mapped = 0" "ps_active demo_mapped = 0" "ps_pools demo_mapped = demo_pools"
  "ps_pgs demo_mapped = []" "ps_bufs demo_mapped = demo_bufs" "ps_mem demo_mapped = (\<lambda>_. demo_image)"
  "ps_freq demo_mapped = demo_freq" "ps_pm demo_mapped = 0" "ps_port demo_mapped = demo_port 1 1"
  "ps_wakeup demo_mapped = 0" "ps_calls demo_mapped = 0" "\<not> ps_fault demo_mapped"
  "ps_kpg demo_mapped = (\<lambda>_. \<lparr>kp_image = demo_image, kp_size = 0, kp_pg_size = 0, kp_dma_addr = 0, kp_alloc = no_alloc\<rparr>)"
  by (simp_all add: demo_mapped_def demo_open_def demo_boot_def ipu_psys_open_def ipu_psys_fh_init_def demo_env_def fun_eq_iff)

lemma demo_qcmd_simps [simp]:
  "en_flr_done demo_env = False" "qe_max_cache_size demo_qcmd = 4096" "qe_kcmd demo_qcmd = Some 5"
  "qe_kpg demo_qcmd = Some (3, 0x2000)" "qe_manifest demo_qcmd = Some []" "qe_arrays demo_qcmd"
  "qe_buffers demo_qcmd = Some []" "uc_issue_id demo_cmd = 21" "uc_user_token demo_cmd = 42"
  "uc_priority demo_cmd = 1" "uc_pg demo_cmd = 4" "uc_pg_manifest_size demo_cmd = 1" "uc_bufcount demo_cmd = 1"
  "uc_min_psys_freq demo_cmd = 400"
  by (simp_all add: demo_env_def demo_qcmd_def demo_cmd_def)

lemma demo_lookup [simp]: "ipu_psys_lookup_kbuffer 7 4 demo_bufs = Some 0"
  "kb_sgt (bs_kbuf demo_bufs 0) = KRef 0" "kb_kaddr (bs_kbuf demo_bufs 0) = 0x100" "kb_len (bs_kbuf demo_bufs 0) = 4096"
  by (simp_all add: demo_bufs_def ipu_psys_lookup_kbuffer_def)

lemma demo_image_simps [simp]: "pgr_terminal_count (im_pg demo_image) = 0" "pgr_size (im_pg demo_image) = 64"
  by (simp_all add: demo_image_def)

lemmas demo_step = ipu_psys_kcmd_new_def ipu_psys_copy_cmd_def copy_process_group_def copy_arguments_def
  get_pg_buf_def IPU_MAX_PSYS_CMD_BUFFERS_def IPU_PSYS_CMD_PRIORITY_NUM_def upd_kpg_def kpg_of_def upd_kcmd_def
  ipu_psys_config_legacy_pg_def put_fw_view_def fw_view_def ipu_fw_psys_pg_set_ipu_vaddress_def
  ipu_fw_psys_pg_set_token_def ipu_fw_psys_pg_submit_def kick_scheduler_def set_tail_def Let_def fun_upd_def

definition demo_ev :: psys_user_event where
  "demo_ev = \<lparr>ue_type = 0, ue_user_token = 0, ue_issue_id = 0, ue_error = None\<rparr>"

definition demo_kcmd :: "nat \<Rightarrow> kcmd" where
  "demo_kcmd x = (if x = 5 then (new_kcmd 7)\<lparr>km_pg_user := 0x100, km_kpg := 3, km_user_token := 42, km_issue_id := 21,
      km_priority := 1, km_min_freq := 400\<rparr> else new_kcmd x)"

lemma demo_kcmd_5 [simp]: "km_state (demo_kcmd 5) = KCMD_STATE_NEW" "km_fh (demo_kcmd 5) = 7" "km_kpg (demo_kcmd 5) = 3"
  "km_priority (demo_kcmd 5) = 1" "km_user_token (demo_kcmd 5) = 42" "km_issue_id (demo_kcmd 5) = 21"
  "km_min_freq (demo_kcmd 5) = 400" "km_pg_user (demo_kcmd 5) = 0x100" "km_manifest (demo_kcmd 5) = []"
  "km_watchdog (demo_kcmd 5) = None"
  by (simp_all add: demo_kcmd_def new_kcmd_def)

lemma demo_queued_simps [simp]:
  "fst (ipu_psys_kcmd_new demo_env demo_qcmd demo_cmd 7 demo_mapped) = Inr ()"
  "ps_fhs demo_queued = [7]" "ps_queue demo_queued f p = (if f = 7 \<and> p = 1 then [5] else [])"
  "ps_new_tail demo_queued f p = (if f = 7 \<and> p = 1 then Some 5 else None)"
  "ps_kcmd demo_queued = demo_kcmd" "ps_live demo_queued = {5}" "ps_started_list demo_queued = []"
  "ps_started demo_queued = 0" "ps_active demo_queued = 0" "ps_pools demo_queued = demo_pools"
  "ps_bufs demo_queued = demo_bufs" "ps_mem demo_queued = (\<lambda>_. demo_image)"
  "ps_freq demo_queued = ipu_buttress_add_psys_constraint 5 400 demo_freq" "ps_pm demo_queued = 0"
  "ps_port demo_queued = demo_port 1 1" "ps_wakeup demo_queued = 1" "ps_calls demo_queued = 0" "\<not> ps_fault demo_queued"
  "im_group (kp_image (ps_kpg demo_queued 3)) = demo_group 0"
  "kp_alloc (ps_kpg demo_queued 3) = \<lparr>al_cells = 0, al_resource_alloc = al_resource_alloc no_alloc, al_resources = 0\<rparr>"
  by (simp_all add: demo_queued_def demo_step new_kcmd_def demo_kcmd_def demo_image_def fun_eq_iff cong: if_cong)

text \<open>The scheduler thread has taken the wake-up.\<close>

definition demo_woken :: psys where
  "demo_woken = demo_queued\<lparr>ps_wakeup := 0\<rparr>"

lemma demo_woken_simps [simp]:
  "ps_fhs demo_woken = [7]" "ps_queue demo_woken f p = (if f = 7 \<and> p = 1 then [5] else [])"
  "ps_new_tail demo_woken f p = (if f = 7 \<and> p = 1 then Some 5 else None)"
  "ps_kcmd demo_woken = demo_kcmd" "ps_live demo_woken = {5}" "ps_started_list demo_woken = []"
  "ps_started demo_woken = 0" "ps_active demo_woken = 0" "ps_pools demo_woken = demo_pools"
  "ps_bufs demo_woken = demo_bufs" "ps_mem demo_woken = (\<lambda>_. demo_image)"
  "ps_freq demo_woken = ipu_buttress_add_psys_constraint 5 400 demo_freq" "ps_pm demo_woken = 0"
  "ps_port demo_woken = demo_port 1 1" "ps_wakeup demo_woken = 0" "ps_calls demo_woken = 0" "\<not> ps_fault demo_woken"
  "im_group (kp_image (ps_kpg demo_woken 3)) = demo_group 0"
  "kp_alloc (ps_kpg demo_woken 3) = \<lparr>al_cells = 0, al_resource_alloc = al_resource_alloc no_alloc, al_resources = 0\<rparr>"
  by (simp_all add: demo_woken_def)

definition demo_allocated :: psys where
  "demo_allocated = snd (allocate_kcmd_resources demo_env 5 RUNNING_POOL demo_woken)"

lemma demo_allocates: "allocate_kcmd_resources demo_env 5 RUNNING_POOL demo_woken = (Inr (), demo_allocated)"
  by (simp add: demo_allocated_def allocate_kcmd_resources_def ipu_psys_allocate_resources_def kpg_of_def
     demo_group_def split_beta Let_def)

lemma demo_allocated_simps [simp]:
  "ps_fhs demo_allocated = [7]" "ps_queue demo_allocated = ps_queue demo_woken"
  "ps_new_tail demo_allocated = ps_new_tail demo_woken"
  "ps_kcmd demo_allocated = demo_kcmd" "ps_live demo_allocated = {5}" "ps_started_list demo_allocated = []"
  "ps_started demo_allocated = 0" "ps_active demo_allocated = 0"
  "ps_bufs demo_allocated = demo_bufs" "ps_mem demo_allocated = (\<lambda>_. demo_image)"
  "ps_freq demo_allocated = ipu_buttress_add_psys_constraint 5 400 demo_freq" "ps_pm demo_allocated = 0"
  "ps_port demo_allocated = demo_port 1 1" "ps_wakeup demo_allocated = 0" "ps_calls demo_allocated = 0"
  "\<not> ps_fault demo_allocated"
  by (simp_all add: demo_allocated_def allocate_kcmd_resources_def split_beta upd_kpg_def Let_def)

lemma demo_token [simp]: "ipu_send_get_token demo_ctx 0 (demo_regs 1 1) \<noteq> 0"
  using token_addr_not_null [of demo_queue 1] by (simp add: send_get_token_spec [OF refl] indices_ok_def)

definition demo_started :: psys where
  "demo_started = snd (the (ipu_psys_kcmd_start 1 demo_env 5 (set_state 5 KCMD_STATE_RUN_PREPARED demo_allocated)))"

lemma demo_env_more [simp]: "en_pm_get demo_env n p = (Inr (), p)" "\<not> en_early_pg_transfer demo_env"
  "en_jiffies demo_env n = 0" "en_timeout demo_env = 100" "en_enable_concurrency demo_env" "\<not> en_timer_running demo_env n k"
  by (simp_all add: demo_env_def)

lemma demo_starts: "ipu_psys_kcmd_start 1 demo_env 5 (set_state 5 KCMD_STATE_RUN_PREPARED demo_allocated)
   = Some (Inr (), demo_started)"
  by (simp add: demo_started_def ipu_psys_kcmd_start_def fw_start_def ipu_fw_psys_pg_disown_def enter_state_def
     put_fw_view_def set_state_def upd_kcmd_def upd_kpg_def demo_port_def Let_def split_beta)

lemma demo_started_simps [simp]:
  "ps_fhs demo_started = [7]" "ps_queue demo_started = ps_queue demo_woken"
  "ps_new_tail demo_started = ps_new_tail demo_woken" "ps_live demo_started = {5}"
  "ps_started_list demo_started = []" "ps_started demo_started = 0" "ps_active demo_started = 1"
  "kstate demo_started 5 = KCMD_STATE_RUNNING" "km_fh (ps_kcmd demo_started 5) = 7" "km_watchdog (ps_kcmd demo_started 5) = Some 100"
  by (simp_all add: demo_started_def ipu_psys_kcmd_start_def fw_start_def ipu_fw_psys_pg_disown_def enter_state_def
     put_fw_view_def set_state_def upd_kcmd_def upd_kpg_def demo_port_def arm_watchdog_def Let_def split_beta)

definition demo_running :: psys where
  "demo_running = list_move_tail 7 (set_tail 7 1 None demo_started)"

lemma demo_running_simps [simp]:
  "ps_fhs demo_running = [7]" "ps_queue demo_running f p = (if f = 7 \<and> p = 1 then [5] else [])"
  "ps_new_tail demo_running f p = None" "ps_live demo_running = {5}" "ps_active demo_running = 1"
  "kstate demo_running 5 = KCMD_STATE_RUNNING" "km_fh (ps_kcmd demo_running 5) = 7" "km_watchdog (ps_kcmd demo_running 5) = Some 100"
  by (simp_all add: demo_running_def list_move_tail_def set_tail_def)

lemma demo_queue_kcmd: "ipu_psys_kcmd_queue 1 demo_env 5 demo_woken = Some (Inr (), demo_started)"
  using demo_allocates demo_starts by (simp add: ipu_psys_kcmd_queue_def)

lemma demo_run_next: "ipu_psys_run_next 2 1 demo_env demo_woken = Some demo_running"
proof -
  have nn: "next_new demo_started 5 [5] = None" by (simp add: next_new_def)
  have a: "run_fh 1 demo_env 0 7 demo_woken = Some (Skip, demo_woken)"
    "run_fh 1 demo_env 1 7 demo_woken = Some (Removed, demo_running)"
    "run_fh 1 demo_env 1 7 demo_running = Some (Skip, demo_running)"
    "run_fh 1 demo_env 2 7 demo_running = Some (Skip, demo_running)"
    using demo_queue_kcmd nn by (simp_all add: run_fh_def demo_running_def)
  have p: "[0..<IPU_PSYS_CMD_PRIORITY_NUM] = [0, 1, 2]" by (simp add: IPU_PSYS_CMD_PRIORITY_NUM_def upt_rec)
  show ?thesis using a unfolding ipu_psys_run_next_def p numeral_2_eq_2 by simp
qed

lemma demo_boots: "psys_boot demo_boot"
  by (simp add: psys_boot_def demo_boot_def)

lemma demo_open_step: "psys_step (demo_boot, []) Tau (demo_open, [])"
  by (rule psys_step.opened [of 7 _ demo_env "Inr ()" "Inr ()"])
    (simp_all add: demo_open_def demo_boot_def ipu_psys_open_def Let_def)

lemma demo_mapped_step: "psys_step (demo_open, []) Tau (demo_mapped, [])"
  unfolding demo_mapped_def by (rule psys_step.world)

lemma demo_queued_step:
  "psys_step (demo_mapped, []) (Submit 7 1 42 21) (demo_queued, [])"
proof -
  have "ipu_psys_kcmd_new demo_env demo_qcmd demo_cmd 7 demo_mapped = (Inr (), demo_queued)"
    using demo_queued_simps(1) unfolding demo_queued_def by (metis prod.collapse)
  then show ?thesis
    using psys_step.queued [of 7 demo_mapped demo_qcmd demo_env demo_cmd demo_queued "[]"] by simp
qed

lemma demo_running_step: "psys_step (demo_queued, []) Tau (demo_running, [])"
proof -
  have "run_fuel demo_queued = 2" by (simp add: run_fuel_def)
  then have "ipu_psys_sched_cmd (run_fuel demo_queued) 1 demo_env False demo_queued = Some (True, demo_running)"
    using demo_run_next by (simp add: ipu_psys_sched_cmd_def demo_woken_def del: One_nat_def)
  moreover have "pm_ok demo_env" by (simp add: pm_ok_def)
  ultimately show ?thesis using psys_step.scheduled [of demo_queued demo_env demo_running "[]"] by simp
qed

lemma demo_runs:
  "runs_to psys_step (demo_boot, []) [Tau, Tau] (demo_mapped, [])"
  "runs_to psys_step (demo_boot, []) [Tau, Tau, Submit 7 1 42 21] (demo_queued, [])"
  "runs_to psys_step (demo_boot, []) [Tau, Tau, Submit 7 1 42 21, Tau] (demo_running, [])"
proof -
  note open_run = runs_to.steps [OF runs_to.stays [of psys_step] demo_open_step]
  note mapped_run = runs_to.steps [OF open_run demo_mapped_step]
  note queued_run = runs_to.steps [OF mapped_run demo_queued_step]
  show "runs_to psys_step (demo_boot, []) [Tau, Tau] (demo_mapped, [])" using mapped_run by simp
  show "runs_to psys_step (demo_boot, []) [Tau, Tau, Submit 7 1 42 21] (demo_queued, [])" using queued_run by simp
  show "runs_to psys_step (demo_boot, []) [Tau, Tau, Submit 7 1 42 21, Tau] (demo_running, [])"
    using runs_to.steps [OF queued_run demo_running_step] by simp
qed

lemma reachable_run: "psys_boot s0 \<Longrightarrow> runs_to psys_step (s0, []) h (s, ws) \<Longrightarrow> \<forall>r. Race r \<notin> set h \<Longrightarrow> psys_reachable s"
  using orderly_run unfolding psys_reachable_def by blast

lemma demo_queued_reachable: "psys_reachable demo_queued"
  by (rule reachable_run [OF demo_boots demo_runs(2)]) simp

lemma demo_running_reachable: "psys_reachable demo_running"
  by (rule reachable_run [OF demo_boots demo_runs(3)]) simp

lemma demo_env_ok: "pm_ok demo_env" "\<not> handler_running demo_env k" "timers_idle demo_env f s"
  by (simp_all add: pm_ok_def timers_idle_def handler_running_def)

text \<open>The command has been completed by a reset.\<close>

lemma demo_completed:
  obtains s where "runs_to psys_step (demo_boot, []) [Tau, Tau, Submit 7 1 42 21, Tau, Tau] (s, [])"
    "psys_reachable s" "ipu_get_completed_kcmd 7 s = Some 5" "priority_of s 5 = 1" "ps_queue s 7 1 = [5]"
proof -
  obtain s' where r: "ipu_psys_reset (run_fuel demo_running) (Suc 0) demo_env True demo_running = Some s'"
      "serves demo_running s'" "\<forall>k \<in> ps_live demo_running. settled demo_env s' k"
    using reset_spec [OF reachable_sched [OF demo_running_reachable] demo_env_ok(1), of 0 True] by auto
  have sv: "served demo_running s' 5" using r(2) unfolding serves_def by blast
  have "queued_ok demo_running"
    using reachable_sched [OF demo_running_reachable] by (simp add: sched_ok_def core_def)
  then have "5 \<in> set (ps_queue demo_running 7 1) \<longrightarrow> unat (km_priority (ps_kcmd demo_running 5)) = 1"
    unfolding queued_ok_def by blast
  then have pr: "unat (km_priority (ps_kcmd demo_running 5)) = 1" by simp
  have "psys_step (demo_running, []) Tau (s', [])"
    using psys_step.reset [of demo_running demo_env True s' "[]"] demo_env_ok(1) r(1) by simp
  from runs_to.steps [OF demo_runs(3) this]
  have run: "runs_to psys_step (demo_boot, []) [Tau, Tau, Submit 7 1 42 21, Tau, Tau] (s', [])" by simp
  moreover have "psys_reachable s'" by (rule reachable_run [OF demo_boots run]) simp
  moreover have "kstate s' 5 = KCMD_STATE_COMPLETE" "ps_queue s' = ps_queue demo_running"
    using r(3) demo_env_ok(2) r(2) [unfolded serves_def] by (simp_all add: settled_def)
  moreover from this have "ipu_get_completed_kcmd 7 s' = Some 5"
    by (simp add: ipu_get_completed_kcmd_def IPU_PSYS_CMD_PRIORITY_NUM_def upt_rec)
  moreover have "priority_of s' 5 = 1" using pr sv by (simp add: served_def statics_def priority_of_def)
  ultimately show ?thesis using that by simp
qed

section \<open>What holds of every reachable state\<close>

lemma tail_is_first_new:
  assumes "sched_ok s"
  shows "ps_new_tail s f p = List.find (\<lambda>k. kstate s k = KCMD_STATE_NEW) (ps_queue s f p)"
proof (cases "ps_new_tail s f p")
  case None
  then show ?thesis
    using assms [unfolded sched_ok_def tail_ok_def, THEN conjunct2, THEN conjunct1, rule_format, of f p]
    by (simp add: find_None_iff2)
next
  case (Some k)
  note t = tail_in_queue [OF assms Some]
  let ?tw = "takeWhile (\<lambda>x. x \<noteq> k) (ps_queue s f p)" and ?dw = "dropWhile (\<lambda>x. x \<noteq> k) (ps_queue s f p)"
  have "?dw \<noteq> []" using t(1) by (simp add: dropWhile_eq_Nil_conv)
  then have "?dw = k # tl ?dw" using hd_dropWhile [of "\<lambda>x. x \<noteq> k" "ps_queue s f p"] by (metis list.collapse)
  then have eq: "ps_queue s f p = ?tw @ k # tl ?dw" using takeWhile_dropWhile_id [of "\<lambda>x. x \<noteq> k" "ps_queue s f p"] by simp
  have find: "List.find P (xs @ k # ys) = Some k" if "\<forall>x \<in> set xs. \<not> P x" "P k" for P and xs ys :: "nat list"
    using that by (induction xs) auto
  have "List.find (\<lambda>k. kstate s k = KCMD_STATE_NEW) (?tw @ k # tl ?dw) = Some k"
    by (rule find) (use t(2,4) in blast)+
  then show ?thesis using eq Some by simp
qed

lemma mem_queue_iff:
  assumes "sched_ok s"
  shows "k \<in> set (ps_queue s f p) \<longleftrightarrow>
    k \<in> ps_live s \<and> km_fh (ps_kcmd s k) = f \<and> unat (km_priority (ps_kcmd s k)) = p"
  using assms by (auto simp: sched_ok_def core_def queued_ok_def queues_ok_def queue_of_def)

lemma started_count: "core {} s \<Longrightarrow> ps_started s = int (card (holding KCMD_STATE_STARTED {} s))"
  using coreD(3,4,5) [of "{}" s] by (metis distinct_card)







text \<open>
  C10: The scheduler always comes to an end (one more round than there are commands is enough), keeps the
  contract with the clients, and does not leave the hardware idle while a command waits:
  when nothing is running or started after it, no command is new.
\<close>

theorem run_next_ends_and_conserves_work:
  assumes "psys_reachable s" "pm_ok e"
  shows "\<exists>s'. ipu_psys_run_next (Suc (card (ps_live s))) (Suc n) e s = Some s' \<and> client_step (view s) Tau (view s') \<and>
    (ps_active s' + ps_started s' > 0 \<or> (\<forall>k \<in> ps_live s'. kstate s' k \<noteq> KCMD_STATE_NEW))"
proof -
  obtain s' where r: "ipu_psys_run_next (Suc (card (ps_live s))) (Suc n) e s = Some s'"
      "next_post e [0..<IPU_PSYS_CMD_PRIORITY_NUM] s s'"
    using run_next_spec [OF reachable_sched [OF assms(1)] assms(2), of "Suc (card (ps_live s))" n] by auto
  have ok: "sched_ok s'" and pr: "progress s s'" using r(2) by (simp_all add: next_post_def)
  have "kstate s' k \<noteq> KCMD_STATE_NEW" if idle: "\<not> ps_active s' + ps_started s' > 0" and k: "k \<in> ps_live s'" for k
  proof -
    let ?f = "km_fh (ps_kcmd s' k)" and ?p = "unat (km_priority (ps_kcmd s' k))"
    have q: "k \<in> set (ps_queue s' ?f ?p)" using mem_queue_iff [OF ok] k by blast
    then have "ps_queue s' ?f ?p \<noteq> []" by auto
    then have "?f \<in> set (ps_fhs s')" "?p < IPU_PSYS_CMD_PRIORITY_NUM"
      using ok by (simp_all add: sched_ok_def queues_ok_def)
    then have "ps_new_tail s' ?f ?p = None" using r(2) idle pr by (auto simp: next_post_def progress_def)
    then show ?thesis using tail_is_first_new [OF ok, of ?f ?p] q by (auto simp: find_None_iff)
  qed
  then show ?thesis using r(1) view_serves [OF serves_progress [OF pr]] by blast
qed

theorem run_next_ends_and_conserves_work_witness:
  "\<exists>s'. ipu_psys_run_next (Suc (card (ps_live demo_queued))) (Suc 0) demo_env demo_queued = Some s' \<and>
     (ps_active s' + ps_started s' > 0 \<or> (\<forall>k \<in> ps_live s'. kstate s' k \<noteq> KCMD_STATE_NEW))"
  using run_next_ends_and_conserves_work [OF demo_queued_reachable demo_env_ok(1), of 0] by blast


text \<open>The running command's timer has expired.\<close>

definition demo_expired :: psys where
  "demo_expired = ipu_psys_watchdog 5 demo_running"

lemma demo_expired_reachable: "psys_reachable demo_expired"
proof -
  have "psys_step (demo_running, []) Tau (demo_expired, [])"
    unfolding demo_expired_def by (rule psys_step.timer) simp
  from runs_to.steps [OF demo_runs(3) this] show ?thesis by (rule reachable_run [OF demo_boots]) simp
qed

lemma demo_expired_simps [simp]: "ps_live demo_expired = {5}" "kstate demo_expired 5 = KCMD_STATE_RUNNING"
  "km_watchdog (ps_kcmd demo_expired 5) = None"
  by (simp_all add: demo_expired_def timer_frame) (simp add: ipu_psys_watchdog_def upd_kcmd_def)







definition demo_event :: psys_event where
  "demo_event = \<lparr>pe_status = 7, pe_command = 0, pe_context_handle = 0, pe_token = 5\<rparr>"


section \<open>What goes wrong\<close>

text \<open>
  A running or started command that is aborted, by the watchdog for instance, and whose stop command the
  firmware queue accepts, is reported to its client with error 0, as a success.
\<close>

theorem accepted_abort_reads_success:
  assumes "psys_reachable s" "\<not> handler_running e k" "k \<in> ps_live s"
    and "kstate s k \<in> {KCMD_STATE_STARTED, KCMD_STATE_RUNNING}"
    and "fst (ipu_fw_psys_pg_abort (fw_view s k) (ps_port s)) = Inr ()"
  shows "\<exists>s'. ipu_psys_kcmd_abort (Suc n) e k s = Some (None, s') \<and>
    km_ev (ps_kcmd s' k) = client_event (km_user_token (ps_kcmd s k)) (km_issue_id (ps_kcmd s k)) None"
proof -
  have c: "core {} s" using reachable_sched [OF assms(1)] by (simp add: sched_ok_def)
  obtain r s' where a: "ipu_psys_kcmd_abort (Suc n) e k s = Some (r, s')" "advanced {k} s s'"
      "kstate s k = KCMD_STATE_COMPLETE \<and> s' = s \<or> completed_with s' k r"
    using abort_spec [OF c assms(3), of n e] assms(2) by blast
  then have w: "completed_with s' k r" using assms(4) by auto
  obtain v p where "ipu_fw_psys_pg_abort (fw_view s k) (ps_port s) = (Inr (), v, p)"
    using assms(5) by (metis prod.collapse)
  then have "r = None"
    using a(1) assms(4) by (auto simp: ipu_psys_kcmd_abort_def kcmd_abort_body_def simp del: ipu_psys_kcmd_complete.simps)
  moreover have "statics s s' k" by (rule statics_advanced [OF a(2)])
  ultimately show ?thesis using a(1) w by (simp add: completed_with_def client_event_def statics_def)
qed

text \<open>
  An event for a command that is already complete, as after a watchdog abort that the firmware's own completion
  crosses, completes it again: its frequency constraint, already off the list, is taken off a second
  time.
\<close>

theorem late_event_removes_constraint_twice:
  assumes "ipu_psys_kcmd_is_valid s k" "k = unat (pe_token ev)" "kstate s k = KCMD_STATE_COMPLETE"
    and "km_min_freq (ps_kcmd s k) \<noteq> 0" "k \<notin> fst ` set (pf_constraints (ps_freq s))"
  shows "\<exists>s'. handle_event (Suc n) e ev s = Some s' \<and> ps_fault s'"
proof -
  have fault: "ps_fault (finish_complete e k err s)" for err
  proof -
    have "ps_fault (drop_constraint k (set_event k err s))"
      using assms(4,5) by (simp add: drop_constraint_def ipu_buttress_remove_psys_constraint_def)
    then show ?thesis using finish_complete_same [of k err s e] by (auto simp: eq_schedD)
  qed
  then show ?thesis
    using assms(1,2,3) by (simp add: handle_event_def kcmd_complete_body_def leave_state_def kick_scheduler_def)
qed

definition demo_done :: psys where
  "demo_done = (set_state 5 KCMD_STATE_COMPLETE demo_queued)\<lparr>ps_freq := demo_freq\<rparr>"

theorem late_event_removes_constraint_twice_witness:
  "\<exists>s'. handle_event (Suc 0) demo_env demo_event demo_done = Some s' \<and> ps_fault s'"
  by (rule late_event_removes_constraint_twice [of _ 5])
    (simp_all add: ipu_psys_kcmd_is_valid_def IPU_PSYS_CMD_PRIORITY_NUM_def demo_event_def demo_done_def demo_freq_def)

text \<open>The firmware has read the start command; its queue has room again.\<close>

definition demo_taken :: psys where
  "demo_taken = demo_running\<lparr>ps_bufs := ps_bufs demo_running, ps_mem := ps_mem demo_running, ps_port := demo_port 1 1\<rparr>"

lemma demo_taken_reachable: "psys_reachable demo_taken"
proof -
  have "psys_step (demo_running, []) Tau (demo_taken, [])" unfolding demo_taken_def by (rule psys_step.world)
  from runs_to.steps [OF demo_runs(3) this] show ?thesis by (rule reachable_run [OF demo_boots]) simp
qed

theorem accepted_abort_reads_success_witness:
  "\<exists>s'. ipu_psys_kcmd_abort (Suc 0) demo_env 5 demo_taken = Some (None, s') \<and> ue_error (km_ev (ps_kcmd s' 5)) = None"
proof -
  have "fst (ipu_fw_psys_pg_abort (fw_view demo_taken 5) (ps_port demo_taken)) = Inr ()"
    by (simp add: ipu_fw_psys_pg_abort_def Let_def demo_taken_def demo_port_def)
  moreover have "5 \<in> ps_live demo_taken" "kstate demo_taken 5 = KCMD_STATE_RUNNING" by (simp_all add: demo_taken_def)
  ultimately obtain s' where "ipu_psys_kcmd_abort (Suc 0) demo_env 5 demo_taken = Some (None, s')"
    "km_ev (ps_kcmd s' 5) = client_event (km_user_token (ps_kcmd demo_taken 5)) (km_issue_id (ps_kcmd demo_taken 5)) None"
    using accepted_abort_reads_success [OF demo_taken_reachable demo_env_ok(2), of 5 0] by blast
  then show ?thesis by (simp add: client_event_def)
qed

text \<open>
  A command whose process group claims more than its buffer holds is refused and freed, but its frequency
  constraint was already registered and stays on the list: the list has an element in freed memory.
\<close>

theorem refused_command_keeps_constraint:
  assumes "\<not> en_flr_done e" "ipu_psys_copy_cmd q cmd f s = (Some k, t)" "uc_min_psys_freq cmd \<noteq> 0"
    and "scast (pgr_size (im_pg (kp_image (kpg_of t k)))) > kp_pg_size (kpg_of t k)"
  shows "fst (ipu_psys_kcmd_new e q cmd f s) = Inl EINVAL \<and>
    k \<notin> ps_live (snd (ipu_psys_kcmd_new e q cmd f s)) \<and>
    k \<in> fst ` set (pf_constraints (ps_freq (snd (ipu_psys_kcmd_new e q cmd f s))))"
  using assms by (simp add: ipu_psys_kcmd_new_def kpg_of_def upd_kcmd_def add_constraint_frame)

definition demo_oversized :: psys where
  "demo_oversized = demo_mapped\<lparr>ps_mem := (\<lambda>_. demo_image\<lparr>im_pg := (im_pg demo_image)\<lparr>pgr_size := 8192\<rparr>\<rparr>)\<rparr>"

theorem refused_command_keeps_constraint_witness:
  "5 \<notin> ps_live (snd (ipu_psys_kcmd_new demo_env demo_qcmd demo_cmd 7 demo_oversized)) \<and>
   5 \<in> fst ` set (pf_constraints (ps_freq (snd (ipu_psys_kcmd_new demo_env demo_qcmd demo_cmd 7 demo_oversized))))"
proof -
  define t where "t = snd (ipu_psys_copy_cmd demo_qcmd demo_cmd 7 demo_oversized)"
  have "ipu_psys_copy_cmd demo_qcmd demo_cmd 7 demo_oversized = (Some 5, t)"
    and "scast (pgr_size (im_pg (kp_image (kpg_of t 5)))) > kp_pg_size (kpg_of t 5)"
    by (simp_all add: t_def demo_step demo_oversized_def cong: if_cong)
  then show ?thesis
    using refused_command_keeps_constraint [of demo_env demo_qcmd demo_cmd 7 demo_oversized 5 t] by simp
qed

text \<open>
  When no command is in the hardware and the resources of the next cannot be allocated, the command is completed
  with the error and a power reference is dropped that nobody took.
\<close>

theorem unstartable_command_underflows_pm:
  assumes "kstate s k = KCMD_STATE_NEW" "ps_started s = 0" "ps_active s = 0"
    and "allocate_kcmd_resources e k RUNNING_POOL s = (Inl err, t)"
  shows "\<exists>s'. ipu_psys_kcmd_queue (Suc n) e k s = Some (Inl EINVAL, s') \<and> ps_pm s' = ps_pm s - 1 \<and>
    kstate s' k = KCMD_STATE_COMPLETE \<and> ue_error (km_ev (ps_kcmd s' k)) = Some err"
proof -
  have eq_sched: "eq_sched s t" by (rule same_allocate [OF assms(4)])
  have st: "kstate t k = KCMD_STATE_NEW" "ps_active t = 0" using assms(1,3) by (simp_all add: eq_schedD [OF eq_sched])
  have pm: "ps_pm t = ps_pm s"
    using assms(4) by (auto simp: allocate_kcmd_resources_def upd_kpg_def Let_def split: prod.splits)
  have c: "ipu_psys_kcmd_complete (Suc n) e k (Some err) t = Some (finish_complete e k (Some err) t)"
    using st(1) by (simp add: kcmd_complete_body_def leave_state_def)
  have "ps_pm (finish_complete e k (Some err) t) = ps_pm t"
    using st(1) by (simp add: finish_complete_def Let_def upd_kcmd_def set_state_def write_back_def split: option.split)
  moreover have "kstate (finish_complete e k (Some err) t) k = KCMD_STATE_COMPLETE"
    "ue_error (km_ev (ps_kcmd (finish_complete e k (Some err) t) k)) = Some err"
    by (simp_all add: finish_complete_def Let_def upd_kcmd_def set_state_def write_back_def split: option.split)
  ultimately show ?thesis
    using assms st pm c by (simp add: ipu_psys_kcmd_queue_def queue_failed_def del: ipu_psys_kcmd_complete.simps)
qed


definition demo_greedy :: psys where
  "demo_greedy = demo_woken\<lparr>ps_kcmd := demo_kcmd(5 := (demo_kcmd 5)\<lparr>km_manifest := [demo_manifest]\<rparr>),
     ps_kpg := (\<lambda>_. \<lparr>kp_image = demo_image\<lparr>im_group := demo_group 2\<rparr>, kp_size = 0, kp_pg_size = 0, kp_dma_addr = 0,
       kp_alloc = no_alloc\<rparr>)\<rparr>"

theorem unstartable_command_underflows_pm_witness:
  "\<exists>s'. ipu_psys_kcmd_queue (Suc 0) demo_env 5 demo_greedy = Some (Inl EINVAL, s') \<and> ps_pm s' = -1"
proof -
  have "fst (allocate_kcmd_resources demo_env 5 RUNNING_POOL demo_greedy) = Inl ENOSPC"
    using demo_fails by (simp add: allocate_kcmd_resources_def demo_greedy_def kpg_of_def RUNNING_POOL_def
        demo_env_def split_beta)
  then have "allocate_kcmd_resources demo_env 5 RUNNING_POOL demo_greedy =
      (Inl ENOSPC, snd (allocate_kcmd_resources demo_env 5 RUNNING_POOL demo_greedy))" by (metis prod.collapse)
  moreover have "kstate demo_greedy 5 = KCMD_STATE_NEW" "ps_started demo_greedy = 0" "ps_active demo_greedy = 0"
    "ps_pm demo_greedy = 0"
    by (simp_all add: demo_greedy_def)
  ultimately show ?thesis using unstartable_command_underflows_pm [of demo_greedy 5 demo_env ENOSPC _ 0] by auto
qed

text \<open>
  A handle that is closed while the watchdog handler of its running command runs: the abort gives up, the
  command is freed all the same, and the counter of running commands still counts it.
\<close>

theorem closed_under_handler_frees_running:
  assumes "k \<in> ps_live s" "kstate s k = KCMD_STATE_RUNNING" "\<And>c. en_timer_running e c k"
  shows "\<exists>s'. abort_and_free (Suc n) e [k] s = Some s' \<and> k \<notin> ps_live s' \<and> ps_active s' = ps_active s"
proof -
  obtain r s0 where "(case ipu_fw_psys_pg_abort (fw_view s k) (ps_port s) of
              (Inr _, v, p) \<Rightarrow> (None, put_fw_view k v (s\<lparr>ps_port := p\<rparr>))
            | (Inl err, v, p) \<Rightarrow> (Some err, put_fw_view k v (s\<lparr>ps_port := p\<rparr>))) = (r, s0)" (is "?a = _")
    by (cases ?a)
  moreover from this have "eq_sched s s0" by (auto split: prod.splits sum.splits intro: same_put_fw_view')
  moreover from this have "kstate s0 k = KCMD_STATE_RUNNING" "ps_active s0 = ps_active s" "ps_live s0 = ps_live s"
    using assms(2) by (simp_all add: eq_schedD)
  ultimately have "ipu_psys_kcmd_abort (Suc n) e k s = Some (r, s0\<lparr>ps_calls := Suc (ps_calls s0)\<rparr>)"
    using assms(2) complete_stuck [of s0 k e n r] assms(3)
    by (simp add: ipu_psys_kcmd_abort_def kcmd_abort_body_def del: ipu_psys_kcmd_complete.simps)
  then show ?thesis using \<open>ps_active s0 = ps_active s\<close> by simp
qed

theorem closed_under_handler_frees_running_witness:
  "\<exists>s'. abort_and_free (Suc 0) (demo_env\<lparr>en_timer_running := \<lambda>_ _. True\<rparr>) [5] demo_running = Some s' \<and>
     5 \<notin> ps_live s' \<and> ps_active s' = 1"
  using closed_under_handler_frees_running [of 5 demo_running "demo_env\<lparr>en_timer_running := \<lambda>_ _. True\<rparr>" 0] by simp

text \<open>
  Two callers that wait on one handle both find its first complete command; the second to get the mutex takes it
  although the first has freed it.
\<close>

theorem two_waiters_free_twice:
  assumes "psys_reachable s" "ipu_get_completed_kcmd f s = Some k"
  shows "\<not> ps_fault (snd (dqevent_take k s)) \<and>
    ps_fault (snd (dqevent_take k (snd (dqevent_take k s))))"
proof -
  have ok: "sched_ok s" by (rule reachable_sched [OF assms(1)])
  obtain p q where "ps_queue s f p = k # q" using get_completed_spec [OF assms(2)] by blast
  then have "k \<in> ps_live s" using mem_queue_iff [OF ok, of k f p] by simp
  moreover have "\<not> ps_fault s" using ok by (simp add: sched_ok_def core_def)
  ultimately show ?thesis by (simp add: dqevent_take_def)
qed

theorem two_waiters_free_twice_witness:
  "\<exists>s k. \<not> ps_fault (snd (dqevent_take k s)) \<and> ps_fault (snd (dqevent_take k (snd (dqevent_take k s))))"
proof -
  obtain s where "psys_reachable s" "ipu_get_completed_kcmd 7 s = Some 5" by (rule demo_completed)
  from two_waiters_free_twice [OF this] show ?thesis by blast
qed

end
