(* ===== verification/PsysHandles.thy ===== *)
theory PsysHandles
  imports PsysBuffers "HOL-Library.Multiset"
begin

text \<open>
  What the buffer ioctls of theory PsysBuffers keep and give back: the ownership of the
  kbuffers by the lists of the handles, the references on dma-bufs, attachments and
  mappings, and the pages pinned for a buffer.
\<close>

section \<open>Frames\<close>

lemma log_call_frame [simp]:
  "bs_kbuf (log_call c s) = bs_kbuf s" "bs_live (log_call c s) = bs_live s"
  "bs_bufmap (log_call c s) = bs_bufmap s" "bs_fault (log_call c s) = bs_fault s"
  "bs_calls (log_call c s) = bs_calls s @ [c]"
  by (simp_all add: log_call_def)

lemma upd_kbuf_frame [simp]:
  "bs_live (upd_kbuf b g s) = bs_live s" "bs_bufmap (upd_kbuf b g s) = bs_bufmap s"
  "bs_fault (upd_kbuf b g s) = bs_fault s" "bs_calls (upd_kbuf b g s) = bs_calls s"
  "bs_kbuf (upd_kbuf b g s) x = (if x = b then g (bs_kbuf s b) else bs_kbuf s x)"
  by (simp_all add: upd_kbuf_def)

lemma new_kbuf_frame [simp]:
  "bs_live (new_kbuf b s) = insert b (bs_live s)" "bs_bufmap (new_kbuf b s) = bs_bufmap s"
  "bs_fault (new_kbuf b s) = bs_fault s" "bs_calls (new_kbuf b s) = bs_calls s"
  "bs_kbuf (new_kbuf b s) x = (if x = b then zero_kbuffer else bs_kbuf s x)"
  by (simp_all add: new_kbuf_def)

lemma kfree_kbuf_frame [simp]:
  "bs_live (kfree_kbuf b s) = bs_live s - {b}" "bs_bufmap (kfree_kbuf b s) = bs_bufmap s"
  "bs_fault (kfree_kbuf b s) = (bs_fault s \<or> b \<notin> bs_live s)" "bs_calls (kfree_kbuf b s) = bs_calls s"
  "bs_kbuf (kfree_kbuf b s) = bs_kbuf s"
  by (simp_all add: kfree_kbuf_def)

lemma list_kbuf_frame [simp]:
  "bs_live (list_add_kbuf f b s) = bs_live s" "bs_live (list_del_kbuf f b s) = bs_live s"
  "bs_fault (list_add_kbuf f b s) = bs_fault s" "bs_fault (list_del_kbuf f b s) = bs_fault s"
  "bs_calls (list_add_kbuf f b s) = bs_calls s" "bs_calls (list_del_kbuf f b s) = bs_calls s"
  "bs_kbuf (list_add_kbuf f b s) = bs_kbuf s" "bs_kbuf (list_del_kbuf f b s) = bs_kbuf s"
  "bs_bufmap (list_add_kbuf f b s) f' = (if f' = f then bs_bufmap s f @ [b] else bs_bufmap s f')"
  "bs_bufmap (list_del_kbuf f b s) f' = (if f' = f then remove1 b (bs_bufmap s f) else bs_bufmap s f')"
  by (simp_all add: list_add_kbuf_def list_del_kbuf_def)

lemma zero_kbuffer_fields [simp]:
  "kb_userptr zero_kbuffer = NULL" "kb_sgt zero_kbuffer = KNull" "kb_db_attach zero_kbuffer = KNull"
  "kb_dbuf zero_kbuffer = KNull" "kb_len zero_kbuffer = 0" "\<not> kb_valid zero_kbuffer"
  by (simp_all add: zero_kbuffer_def)

section \<open>Mapping and unmapping an imported buffer\<close>

text \<open>
  A buffer imported by \<^verbatim>\<open>MAPBUF\<close> and unmapped by \<^verbatim>\<open>UNMAPBUF\<close> leaves the handle's list and the heap as they
  were; what was taken from the dma-buf core, the reference, the attachment, the mapping, is given back in reverse
  order.  The kernel address is not: the address given to \<^verbatim>\<open>dma_buf_vunmap\<close> is null, not the one mapped.
\<close>

theorem mapbuf_unmapbuf_roundtrip:
  assumes "ipu_psys_lookup_kbuffer f fd s = None" "de_kzalloc e = Some b" "b \<notin> bs_live s"
    and "\<forall>x \<in> set (bs_bufmap s f). x \<in> bs_live s"
    and "ipu_psys_mapbuf e fd f s = (Inr (), s')"
  shows "\<exists>d a v. bs_kbuf s' b = zero_kbuffer\<lparr>kb_len := de_size e, kb_fd := fd, kb_kaddr := v,
        kb_dma_addr := de_dma_address e, kb_sgt := kb_sgt (bs_kbuf s' b), kb_db_attach := KRef a, kb_dbuf := KRef d,
        kb_valid := True\<rparr> \<and>
      bs_bufmap s' f = bs_bufmap s f @ [b] \<and> bs_live s' = insert b (bs_live s) \<and>
      (case ipu_psys_unmapbuf fd f s' of (r, t) \<Rightarrow>
         r = Inr () \<and> bs_bufmap t = bs_bufmap s \<and> bs_live t = bs_live s \<and> bs_fault t = bs_fault s \<and>
         bs_calls t = bs_calls s @ [Dma_buf_get d, Dma_buf_attach d a, Dma_buf_map_attachment a, Dma_buf_vmap d v,
           Dma_buf_vunmap (KRef d) NULL, Dma_buf_unmap_attachment (KRef a), Dma_buf_detach (KRef a), Dma_buf_put (KRef d)])"
proof -
  have nb: "b \<notin> set (bs_bufmap s f)" using assms(3,4) by blast
  obtain d a t v where env: "de_get e = Inr d" "de_attach e = Inr a" "de_map e = KRef t" "de_vmap e = Some v"
    and s': "s' = upd_kbuf b (\<lambda>k. k\<lparr>kb_kaddr := v, kb_valid := True\<rparr>) (log_call (Dma_buf_vmap d v)
      (upd_kbuf b (\<lambda>k. k\<lparr>kb_sgt := KRef t, kb_dma_addr := de_dma_address e\<rparr>) (log_call (Dma_buf_map_attachment a)
      (upd_kbuf b (\<lambda>k. k\<lparr>kb_db_attach := KRef a\<rparr>) (log_call (Dma_buf_attach d a)
      (upd_kbuf b (\<lambda>k. k\<lparr>kb_dbuf := KRef d, kb_len := (if kb_len k = 0 then de_size e else kb_len k), kb_fd := fd\<rparr>)
         (log_call (Dma_buf_get d) (list_add_kbuf f b (new_kbuf b s)))))))))"
    using assms(5) by (simp add: ipu_psys_mapbuf_def assms(1,2) mapbuf_kbuf_def Let_def
        split: sum.splits kptr.splits option.splits)
  have k: "bs_kbuf s' x = (if x = b then zero_kbuffer\<lparr>kb_len := de_size e, kb_fd := fd, kb_kaddr := v,
        kb_dma_addr := de_dma_address e, kb_sgt := KRef t, kb_db_attach := KRef a, kb_dbuf := KRef d,
        kb_valid := True\<rparr> else bs_kbuf s x)" for x
    by (simp add: s')
  have m: "bs_bufmap s' f' = (if f' = f then bs_bufmap s f @ [b] else bs_bufmap s f')" for f' by (simp add: s')
  have notin: "List.find P (xs @ [b]) = (if List.find P xs = None then if P b then Some b else None else List.find P xs)"
    for P and xs :: "nat list" by (induction xs) auto
  have "List.find (\<lambda>x. kb_fd (bs_kbuf s' x) = fd) (bs_bufmap s f) = List.find (\<lambda>x. kb_fd (bs_kbuf s x) = fd) (bs_bufmap s f)"
    using nb by (intro find_cong) (auto simp: k)
  then have l: "ipu_psys_lookup_kbuffer f fd s' = Some b"
    using assms(1) by (simp add: ipu_psys_lookup_kbuffer_def m notin k)
  have "case ipu_psys_unmapbuf fd f s' of (r, t) \<Rightarrow>
         r = Inr () \<and> bs_bufmap t f' = bs_bufmap s f' \<and> bs_live t = bs_live s \<and> bs_fault t = bs_fault s \<and>
         bs_calls t = bs_calls s @ [Dma_buf_get d, Dma_buf_attach d a, Dma_buf_map_attachment a, Dma_buf_vmap d v,
           Dma_buf_vunmap (KRef d) NULL, Dma_buf_unmap_attachment (KRef a), Dma_buf_detach (KRef a), Dma_buf_put (KRef d)]" for f'
    using nb assms(3) by (simp add: ipu_psys_unmapbuf_def l Let_def k m remove1_append, simp add: s')
  then show ?thesis
    by (intro exI [of _ d] exI [of _ a] exI [of _ v]) (auto simp: k m fun_eq_iff split_beta, simp_all add: s')
qed

definition demo_dma_env :: dma_buf_env where
  "demo_dma_env = \<lparr>de_kzalloc = Some 1, de_export = Inr 9, de_fd = Inr 4, de_get = Inr 9, de_size = 4096,
     de_attach = Inr 2, de_map = KRef 3, de_dma_address = 0x4000, de_vmap = Some 0x100\<rparr>"

definition no_bufs :: buf_state where
  "no_bufs = \<lparr>bs_kbuf = (\<lambda>_. zero_kbuffer), bs_live = {}, bs_bufmap = (\<lambda>_. []), bs_calls = [], bs_fault = False\<rparr>"

lemma no_bufs_simps [simp]:
  "bs_kbuf no_bufs b = zero_kbuffer" "bs_live no_bufs = {}" "bs_bufmap no_bufs f = []" "bs_calls no_bufs = []"
  "\<not> bs_fault no_bufs"
  by (simp_all add: no_bufs_def)

lemma demo_dma_env_simps [simp]:
  "de_kzalloc demo_dma_env = Some 1" "de_export demo_dma_env = Inr 9" "de_fd demo_dma_env = Inr 4"
  "de_get demo_dma_env = Inr 9" "de_size demo_dma_env = 4096" "de_attach demo_dma_env = Inr 2"
  "de_map demo_dma_env = KRef 3" "de_dma_address demo_dma_env = 0x4000" "de_vmap demo_dma_env = Some 0x100"
  by (simp_all add: demo_dma_env_def)

lemma no_lookup [simp]: "ipu_psys_lookup_kbuffer f fd no_bufs = None"
  by (simp add: ipu_psys_lookup_kbuffer_def)

theorem mapbuf_unmapbuf_roundtrip_witness:
  "case ipu_psys_unmapbuf 4 7 (snd (ipu_psys_mapbuf demo_dma_env 4 7 no_bufs)) of (r, t) \<Rightarrow> r = Inr () \<and> bs_live t = {}"
proof -
  define s' where "s' = snd (ipu_psys_mapbuf demo_dma_env 4 7 no_bufs)"
  have "ipu_psys_mapbuf demo_dma_env 4 7 no_bufs = (Inr (), s')"
    by (simp add: s'_def ipu_psys_mapbuf_def mapbuf_kbuf_def Let_def)
  then show ?thesis
    using mapbuf_unmapbuf_roundtrip [of 7 4 no_bufs demo_dma_env 1 s'] by (auto simp flip: s'_def)
qed

section \<open>Failing to map\<close>

text \<open>What an operation has taken from the dma-buf core and not given back.\<close>

definition net :: "(dma_buf_call \<Rightarrow> int) \<Rightarrow> dma_buf_call list \<Rightarrow> int" where
  "net w cs = sum_list (map w cs)"

definition reference_of :: "dma_buf_call \<Rightarrow> int" where
  "reference_of c = (case c of Dma_buf_get _ \<Rightarrow> 1 | Dma_buf_put _ \<Rightarrow> -1 | _ \<Rightarrow> 0)"

definition attachment_of :: "dma_buf_call \<Rightarrow> int" where
  "attachment_of c = (case c of Dma_buf_attach _ _ \<Rightarrow> 1 | Dma_buf_detach _ \<Rightarrow> -1 | _ \<Rightarrow> 0)"

definition mapping_of :: "dma_buf_call \<Rightarrow> int" where
  "mapping_of c = (case c of Dma_buf_map_attachment _ \<Rightarrow> 1 | Dma_buf_unmap_attachment _ \<Rightarrow> -1 | _ \<Rightarrow> 0)"



section \<open>A created buffer\<close>

text \<open>
  A buffer made by \<^verbatim>\<open>GETBUF\<close> and never mapped is freed when its handle is closed although the dma-buf exported
  for it is still open and points to it: the last close of the descriptor frees it again.
\<close>

theorem created_buffer_freed_twice:
  assumes "de_kzalloc e = Some b" "bs_bufmap s f = []" "ipu_psys_getbuf e buf f s = (Inr (), buf', s')"
  shows "bs_fault (ipu_dma_buf_release (Some b) (release_buffers f s'))"
proof -
  obtain d fd where "de_export e = Inr d" "de_fd e = Inr fd" "ub_userptr buf \<noteq> NULL"
    using assms(1,3) by (auto simp: ipu_psys_getbuf_def Let_def split: if_splits sum.splits)
  then have "bs_bufmap s' f = [b]" "kb_dbuf (bs_kbuf s' b) = KNull" "kb_db_attach (bs_kbuf s' b) = KNull"
    using assms by (auto simp: ipu_psys_getbuf_def Let_def)
  then show ?thesis
    by (simp add: release_buffers_def release_kbuf_def ipu_dma_buf_release_def put_attached_def Let_def)
qed

theorem created_buffer_freed_twice_witness:
  "bs_fault (ipu_dma_buf_release (Some 1) (release_buffers 7 (snd (snd (ipu_psys_getbuf demo_dma_env
     \<lparr>ub_len = 4096, ub_userptr = 0x5000, ub_fd = 0, ub_data_offset = 0, ub_bytes_used = 0, ub_flags = 32\<rparr> 7 no_bufs)))))"
proof -
  let ?b = "\<lparr>ub_len = 4096, ub_userptr = 0x5000, ub_fd = 0, ub_data_offset = 0, ub_bytes_used = 0, ub_flags = 32\<rparr> :: psys_buffer"
  have "fst (ipu_psys_getbuf demo_dma_env ?b 7 no_bufs) = Inr ()" by (simp add: ipu_psys_getbuf_def Let_def)
  then obtain buf' s' where "ipu_psys_getbuf demo_dma_env ?b 7 no_bufs = (Inr (), buf', s')"
    by (cases "ipu_psys_getbuf demo_dma_env ?b 7 no_bufs") auto
  then show ?thesis using created_buffer_freed_twice [of demo_dma_env 1 no_bufs 7 ?b buf' s'] by simp
qed

section \<open>Who owns a kbuffer\<close>

text \<open>
  A listed kbuffer is allocated and in one list once; one that is valid, or has a scatter list, has its
  dma-buf and its attachment.
\<close>

definition kbuf_ok :: "kbuffer \<Rightarrow> bool" where
  "kbuf_ok k \<longleftrightarrow> (\<forall>err. kb_db_attach k \<noteq> KErr err) \<and>
     (kb_valid k \<longrightarrow> kb_sgt k \<noteq> KNull) \<and>
     (kb_sgt k \<noteq> KNull \<longrightarrow> (\<exists>a d. kb_db_attach k = KRef a \<and> kb_dbuf k = KRef d))"

definition bufs_ok :: "buf_state \<Rightarrow> bool" where
  "bufs_ok s \<longleftrightarrow> \<not> bs_fault s \<and> (\<forall>f. distinct (bs_bufmap s f)) \<and>
     (\<forall>f. \<forall>b \<in> set (bs_bufmap s f). b \<in> bs_live s \<and> kbuf_ok (bs_kbuf s b)) \<and>
     (\<forall>f f' b. b \<in> set (bs_bufmap s f) \<longrightarrow> b \<in> set (bs_bufmap s f') \<longrightarrow> f' = f)"

lemma bufs_okD:
  assumes "bufs_ok s"
  shows "\<not> bs_fault s" "distinct (bs_bufmap s f)"
    "b \<in> set (bs_bufmap s f) \<Longrightarrow> b \<in> bs_live s" "b \<in> set (bs_bufmap s f) \<Longrightarrow> kbuf_ok (bs_kbuf s b)"
    "b \<in> set (bs_bufmap s f) \<Longrightarrow> b \<in> set (bs_bufmap s f') \<Longrightarrow> f' = f"
  using assms unfolding bufs_ok_def by blast+

lemma bufs_okI:
  assumes "\<not> bs_fault s" "\<And>f. distinct (bs_bufmap s f)"
    "\<And>f b. b \<in> set (bs_bufmap s f) \<Longrightarrow> b \<in> bs_live s" "\<And>f b. b \<in> set (bs_bufmap s f) \<Longrightarrow> kbuf_ok (bs_kbuf s b)"
    "\<And>f f' b. b \<in> set (bs_bufmap s f) \<Longrightarrow> b \<in> set (bs_bufmap s f') \<Longrightarrow> f' = f"
  shows "bufs_ok s"
  using assms unfolding bufs_ok_def by blast

lemma lookup_mem: "ipu_psys_lookup_kbuffer f fd s = Some b \<Longrightarrow> b \<in> set (bs_bufmap s f) \<and> kb_fd (bs_kbuf s b) = fd"
  unfolding ipu_psys_lookup_kbuffer_def by (induction "bs_bufmap s f" arbitrary: s) (auto simp: find_Some_iff)

text \<open>One handle's list loses a buffer, which may be freed, or keeps it in a good state.\<close>

lemma bufs_ok_drop:
  assumes "bufs_ok s" "b \<in> set (bs_bufmap s f)"
    and "\<And>f'. bs_bufmap s' f' = (if f' = f then remove1 b (bs_bufmap s f) else bs_bufmap s f')"
    and "\<And>x. x \<noteq> b \<Longrightarrow> bs_kbuf s' x = bs_kbuf s x" "bs_live s - {b} \<subseteq> bs_live s'" "\<not> bs_fault s'"
  shows "bufs_ok s'"
proof -
  note ok = bufs_okD [OF assms(1)]
  have mem: "x \<in> set (bs_bufmap s' f') \<longleftrightarrow> x \<noteq> b \<and> x \<in> set (bs_bufmap s f')" for x f'
  proof (cases "f' = f")
    case True
    then show ?thesis using set_remove1_eq [OF ok(2) [of f], of b] by (auto simp: assms(3))
  next
    case False
    then have "b \<notin> set (bs_bufmap s f')" using ok(5) assms(2) by blast
    then show ?thesis using False by (auto simp: assms(3))
  qed
  show ?thesis
  proof (rule bufs_okI)
    show "\<not> bs_fault s'" by (rule assms(6))
    show "distinct (bs_bufmap s' f')" for f' using ok(2) by (simp add: assms(3))
    show "x \<in> bs_live s'" if "x \<in> set (bs_bufmap s' f')" for f' x using that ok(3) assms(5) unfolding mem by blast
    show "kbuf_ok (bs_kbuf s' x)" if "x \<in> set (bs_bufmap s' f')" for f' x
      using that ok(4) [of x f'] assms(4) unfolding mem by simp
    show "f'' = f'" if "x \<in> set (bs_bufmap s' f')" "x \<in> set (bs_bufmap s' f'')" for f' f'' x
      using that ok(5) unfolding mem by blast
  qed
qed

lemma bufs_ok_keep:
  assumes "bufs_ok s" "bs_bufmap s' = bs_bufmap s" "bs_live s' = bs_live s" "bs_fault s' = bs_fault s"
    and "\<And>x. x \<noteq> b \<Longrightarrow> bs_kbuf s' x = bs_kbuf s x" "kbuf_ok (bs_kbuf s' b)"
  shows "bufs_ok s'"
proof (rule bufs_okI)
  note ok = bufs_okD [OF assms(1)]
  show "\<not> bs_fault s'" "\<And>f. distinct (bs_bufmap s' f)"
    "\<And>f b. b \<in> set (bs_bufmap s' f) \<Longrightarrow> b \<in> bs_live s'"
    using ok assms(2,3,4) by simp_all
  show "kbuf_ok (bs_kbuf s' x)" if "x \<in> set (bs_bufmap s' f)" for f x
    using that ok(4) assms(2,5,6) by (cases "x = b") auto
  show "f' = f" if "x \<in> set (bs_bufmap s' f)" "x \<in> set (bs_bufmap s' f')" for f f' x
    using that ok(5) assms(2) by auto
qed

lemma bufs_ok_add:
  assumes "bufs_ok s" "b \<notin> bs_live s"
    and "\<And>f'. bs_bufmap s' f' = (if f' = f then bs_bufmap s f @ [b] else bs_bufmap s f')"
    and "bs_live s' = insert b (bs_live s)" "bs_fault s' = bs_fault s"
    and "\<And>x. x \<noteq> b \<Longrightarrow> bs_kbuf s' x = bs_kbuf s x" "kbuf_ok (bs_kbuf s' b)"
  shows "bufs_ok s'"
proof -
  note ok = bufs_okD [OF assms(1)]
  have nb: "b \<notin> set (bs_bufmap s f')" for f' using ok(3) assms(2) by blast
  have mem: "x \<in> set (bs_bufmap s' f') \<longleftrightarrow> x = b \<and> f' = f \<or> x \<in> set (bs_bufmap s f')" for x f'
    by (auto simp: assms(3))
  show ?thesis
  proof (rule bufs_okI)
    show "\<not> bs_fault s'" using ok(1) assms(5) by simp
    show "distinct (bs_bufmap s' f')" for f' using ok(2) nb by (simp add: assms(3))
    show "x \<in> bs_live s'" if "x \<in> set (bs_bufmap s' f')" for f' x using that ok(3) unfolding mem assms(4) by blast
    show "kbuf_ok (bs_kbuf s' x)" if "x \<in> set (bs_bufmap s' f')" for f' x
      using that ok(4) assms(6,7) unfolding mem by (cases "x = b") auto
    show "f'' = f'" if "x \<in> set (bs_bufmap s' f')" "x \<in> set (bs_bufmap s' f'')" for f' f'' x
      using that ok(5) nb unfolding mem by blast
  qed
qed

lemma getbuf_keeps:
  assumes "bufs_ok s" "\<And>b. de_kzalloc e = Some b \<Longrightarrow> b \<notin> bs_live s" "ipu_psys_getbuf e buf f s = (r, buf', s')"
  shows "bufs_ok s'"
proof (cases "ub_userptr buf = NULL \<or> de_kzalloc e = None")
  case True
  then show ?thesis using assms(1,3) by (auto simp: ipu_psys_getbuf_def split: option.splits if_splits)
next
  case False
  then obtain b where b: "de_kzalloc e = Some b" "b \<notin> bs_live s" "ub_userptr buf \<noteq> NULL" using assms(2) by auto
  have nb: "b \<notin> set (bs_bufmap s f')" for f' using bufs_okD(3) [OF assms(1)] b(2) by blast
  show ?thesis
  proof (cases "\<exists>d fd. de_export e = Inr d \<and> de_fd e = Inr fd")
    case True
    then show ?thesis using assms(3) b
      by (intro bufs_ok_add [OF assms(1) b(2), of s' f])
        (auto simp: ipu_psys_getbuf_def Let_def kbuf_ok_def)
  next
    case False
    then have "bs_bufmap s' = bs_bufmap s" "bs_live s' = bs_live s" "bs_fault s' = bs_fault s"
      "\<And>x. x \<noteq> b \<Longrightarrow> bs_kbuf s' x = bs_kbuf s x"
      using assms(3) b by (auto simp: ipu_psys_getbuf_def Let_def split: sum.splits)
    then show ?thesis using assms(1) nb unfolding bufs_ok_def by metis
  qed
qed

lemma mapbuf_kbuf_keeps:
  assumes "bufs_ok s" "b \<in> set (bs_bufmap s f)" "mapbuf_kbuf e fd f b s = (r, s')"
  shows "bufs_ok s'"
proof -
  have k: "kbuf_ok (bs_kbuf s b)" "b \<in> bs_live s" "\<not> bs_fault s" using bufs_okD [OF assms(1)] assms(2) by blast+
  consider (already) "kb_sgt (bs_kbuf s b) \<noteq> KNull" | (mapped) d a t v where "kb_sgt (bs_kbuf s b) = KNull"
      "de_get e = Inr d" "de_attach e = Inr a" "de_map e = KRef t" "de_vmap e = Some v"
    | (kept) err where "kb_sgt (bs_kbuf s b) = KNull" "de_get e = Inl err" "kb_userptr (bs_kbuf s b) \<noteq> NULL"
    | (gone) "kb_sgt (bs_kbuf s b) = KNull" "r \<noteq> Inr ()"
        "\<And>f'. bs_bufmap s' f' = (if f' = f then remove1 b (bs_bufmap s f) else bs_bufmap s f')"
    using assms(3) by (auto simp: mapbuf_kbuf_def mapbuf_error_put_def mapbuf_error_detach_def mapbuf_error_unmap_def
        Let_def split: sum.splits kptr.splits option.splits if_splits)
  then show ?thesis
  proof cases
    case already
    then show ?thesis using assms k by (intro bufs_ok_keep [OF assms(1), of s' b]) (auto simp: mapbuf_kbuf_def kbuf_ok_def)
  next
    case mapped
    then show ?thesis using assms k
      by (intro bufs_ok_keep [OF assms(1), of s' b]) (auto simp: mapbuf_kbuf_def kbuf_ok_def Let_def)
  next
    case kept
    then show ?thesis using assms k
      by (intro bufs_ok_keep [OF assms(1), of s' b]) (auto simp: mapbuf_kbuf_def kbuf_ok_def Let_def)
  next
    case gone
    show ?thesis
    proof (rule bufs_ok_drop [OF assms(1,2) gone(3)])
      show "\<And>x. x \<noteq> b \<Longrightarrow> bs_kbuf s' x = bs_kbuf s x" and "bs_live s - {b} \<subseteq> bs_live s'" and "\<not> bs_fault s'"
        using gone(1,2) k(2,3) assms(3)
        by (auto simp: mapbuf_kbuf_def mapbuf_error_put_def mapbuf_error_detach_def mapbuf_error_unmap_def
          Let_def split: sum.splits kptr.splits option.splits if_splits)
    qed
  qed
qed

lemma mapbuf_keeps:
  assumes "bufs_ok s" "\<And>b. de_kzalloc e = Some b \<Longrightarrow> b \<notin> bs_live s" "ipu_psys_mapbuf e fd f s = (r, s')"
  shows "bufs_ok s'"
proof (cases "ipu_psys_lookup_kbuffer f fd s")
  case (Some b)
  then have "mapbuf_kbuf e fd f b s = (r, s')" using assms(3) by (simp add: ipu_psys_mapbuf_def)
  then show ?thesis using mapbuf_kbuf_keeps [OF assms(1)] lookup_mem [OF Some] by blast
next
  case None
  show ?thesis
  proof (cases "de_kzalloc e")
    case (Some b)
    let ?t = "list_add_kbuf f b (new_kbuf b s)"
    have "bufs_ok ?t"
      by (rule bufs_ok_add [OF assms(1) assms(2) [OF Some], of _ f]) (simp_all add: kbuf_ok_def)
    moreover have "mapbuf_kbuf e fd f b ?t = (r, s')" using assms(3) None Some by (simp add: ipu_psys_mapbuf_def)
    ultimately show ?thesis by - (rule mapbuf_kbuf_keeps [of ?t b f], simp_all)
  qed (use assms(1,3) None in \<open>simp add: ipu_psys_mapbuf_def\<close>)
qed

lemma unmapbuf_keeps:
  assumes "bufs_ok s" "ipu_psys_unmapbuf fd f s = (r, s')"
  shows "bufs_ok s'"
proof (cases "ipu_psys_lookup_kbuffer f fd s")
  case (Some b)
  have b: "b \<in> set (bs_bufmap s f)" "b \<in> bs_live s" "\<not> bs_fault s" using lookup_mem [OF Some] bufs_okD [OF assms(1)] by blast+
  have s': "s' = snd (ipu_psys_unmapbuf fd f s)" using assms(2) by simp
  show ?thesis
  proof (rule bufs_ok_drop [OF assms(1) b(1)])
    show "bs_bufmap s' f' = (if f' = f then remove1 b (bs_bufmap s f) else bs_bufmap s f')" for f'
      by (simp add: s' ipu_psys_unmapbuf_def Some Let_def)
    show "bs_kbuf s' x = bs_kbuf s x" if "x \<noteq> b" for x
      using that by (simp add: s' ipu_psys_unmapbuf_def Some Let_def)
    show "bs_live s - {b} \<subseteq> bs_live s'" by (auto simp: s' ipu_psys_unmapbuf_def Some Let_def)
    show "\<not> bs_fault s'" using b(2,3) by (simp add: s' ipu_psys_unmapbuf_def Some Let_def)
  qed
qed (use assms in \<open>simp add: ipu_psys_unmapbuf_def\<close>)

lemma release_kbuf_keeps:
  assumes "bufs_ok s" "b \<in> set (bs_bufmap s f)"
  shows "bufs_ok (release_kbuf f b s) \<and> bs_bufmap (release_kbuf f b s) f = remove1 b (bs_bufmap s f)"
proof
  have b: "b \<in> bs_live s" "\<not> bs_fault s" "kbuf_ok (bs_kbuf s b)" using assms bufs_okD by blast+
  show "bs_bufmap (release_kbuf f b s) f = remove1 b (bs_bufmap s f)"
    by (simp add: release_kbuf_def Let_def put_attached_def split: kptr.split)
  show "bufs_ok (release_kbuf f b s)"
    by (rule bufs_ok_drop [OF assms]) (use b in \<open>auto simp: release_kbuf_def Let_def put_attached_def kbuf_ok_def split: kptr.splits\<close>)
qed

lemma release_kbufs_keeps:
  assumes "bufs_ok s" "bs_bufmap s f = bs"
  shows "bufs_ok (release_kbufs f bs s) \<and> bs_bufmap (release_kbufs f bs s) f = []"
  using assms
proof (induction bs arbitrary: s)
  case (Cons b bs)
  have "bufs_ok (release_kbuf f b s) \<and> bs_bufmap (release_kbuf f b s) f = bs"
    using release_kbuf_keeps [of s b f] Cons.prems by simp
  then show ?case using Cons.IH by simp
qed simp

text \<open>The states the ioctls and the closing of a handle reach.\<close>

inductive buf_reachable :: "buf_state \<Rightarrow> bool" where
  none: "buf_reachable s" if "\<And>f. bs_bufmap s f = []" "\<not> bs_fault s"
| got: "buf_reachable s'"
    if "buf_reachable s" "\<And>b. de_kzalloc e = Some b \<Longrightarrow> b \<notin> bs_live s" "ipu_psys_getbuf e buf f s = (r, buf', s')"
| put: "buf_reachable s'" if "buf_reachable s" "ipu_psys_putbuf buf s = (r, s')"
| mapped: "buf_reachable s'"
    if "buf_reachable s" "\<And>b. de_kzalloc e = Some b \<Longrightarrow> b \<notin> bs_live s" "ipu_psys_mapbuf e fd f s = (r, s')"
| unmapped: "buf_reachable s'" if "buf_reachable s" "ipu_psys_unmapbuf fd f s = (r, s')"
| released: "buf_reachable (release_buffers f s)" if "buf_reachable s"

lemma buf_reachable_ok: "buf_reachable s \<Longrightarrow> bufs_ok s"
proof (induction rule: buf_reachable.induct)
  case (none s)
  then show ?case by (simp add: bufs_ok_def)
next
  case (got s e buf f r buf' s')
  then show ?case using getbuf_keeps by blast
next
  case (put s buf r s')
  then show ?case by (simp add: ipu_psys_putbuf_def)
next
  case (mapped s e fd f r s')
  then show ?case using mapbuf_keeps by blast
next
  case (unmapped s fd f r s')
  then show ?case using unmapbuf_keeps by blast
next
  case (released s f)
  then show ?case using release_kbufs_keeps by (simp add: release_buffers_def)
qed


lemma demo_buf_reachable: "buf_reachable (snd (ipu_psys_mapbuf demo_dma_env 4 7 no_bufs))"
  by (rule buf_reachable.mapped [OF buf_reachable.none, of no_bufs demo_dma_env 4 7 "Inr ()"])
    (simp_all add: ipu_psys_mapbuf_def mapbuf_kbuf_def Let_def)


section \<open>Pages\<close>

lemma unpin_mset: "mset ps \<subseteq># mset pinned \<Longrightarrow> mset (unpin ps pinned) = mset pinned - mset ps"
proof (induction ps arbitrary: pinned)
  case (Cons p ps)
  have "mset ps \<subseteq># mset pinned" using Cons.prems unfolding subseteq_mset_def by (metis Suc_leD count_add_mset mset.simps(2))
  then show ?case using Cons.IH by (simp add: unpin_def)
qed (simp add: unpin_def)

text \<open>
  Pinning the pages of a user buffer either fails with the pages pinned before, or succeeds and then giving them back
  leaves the pages pinned before: no page is leaked or given back twice.
\<close>

theorem userpages_balanced:
  assumes "pe_pin e = (nr, pages)" "nr = 0 \<longrightarrow> pages = []" "at_userptr (pn_attach s) \<noteq> NULL"
    and "ipu_psys_get_userpages e s = (r, s')"
  shows "case r of Inl _ \<Rightarrow> mset (pn_pinned s') = mset (pn_pinned s)
    | Inr _ \<Rightarrow> mset (pn_pinned s') = mset (pn_pinned s) + mset pages \<and>
        mset (pn_pinned (ipu_psys_put_userpages s')) = mset (pn_pinned s) \<and>
        pn_pinned (ipu_psys_put_userpages (ipu_psys_put_userpages s')) = pn_pinned (ipu_psys_put_userpages s')"
proof -
  have u: "mset (unpin pages (pn_pinned s @ pages)) = mset (pn_pinned s)" by (subst unpin_mset) simp_all
  show ?thesis
    using assms u by (auto simp: ipu_psys_get_userpages_def ipu_psys_put_userpages_def Let_def
        split: if_splits sum.splits)
qed

definition demo_pin_env :: pin_env where
  "demo_pin_env = \<lparr>pe_sgt_alloc = True, pe_pages_alloc = True, pe_vma = True, pe_pin = (2, [11, 12]), pe_sg_table = Inr ()\<rparr>"

definition demo_pin_state :: pin_state where
  "demo_pin_state = \<lparr>pn_attach = \<lparr>at_len = 4096, at_userptr = 0x5800, at_pages = [], at_npages = 0, at_sgt = False\<rparr>,
     pn_pinned = [5]\<rparr>"

theorem userpages_balanced_witness:
  "case ipu_psys_get_userpages demo_pin_env demo_pin_state of (r, s') \<Rightarrow>
     r = Inr () \<and> mset (pn_pinned (ipu_psys_put_userpages s')) = {#5#}"
proof -
  have n: "userpages_npages 0x5800 4096 = 2" by code_simp
  obtain r s' where r: "ipu_psys_get_userpages demo_pin_env demo_pin_state = (r, s')"
    by (cases "ipu_psys_get_userpages demo_pin_env demo_pin_state")
  have "r = Inr ()" using r n by (simp add: ipu_psys_get_userpages_def demo_pin_env_def demo_pin_state_def Let_def)
  then show ?thesis
    using userpages_balanced [of demo_pin_env 2 "[11, 12]" demo_pin_state r s'] r
    by (simp add: demo_pin_env_def demo_pin_state_def)
qed

lemma unat_less_64: "unat (w :: u64) < 18446744073709551616"
proof -
  have "unat w < 2 ^ LENGTH(64)" by (rule unsigned_less)
  then show ?thesis by simp
qed

lemma unat_drop_12: "unat (drop_bit 12 w) = unat w div 4096" for w :: u64
  by (subst unsigned_drop_bit_eq) (simp add: drop_bit_eq_div take_bit_nat_eq_self unat_less_64)

lemma unat_page_mask: "unat (x AND PAGE_MASK) = unat x div 4096 * 4096"
proof -
  have m: "(0xFFF :: u64) = mask 12" by (simp add: mask_eq_exp_minus_1)
  have p: "x AND PAGE_MASK = push_bit 12 (drop_bit 12 x)"
    unfolding PAGE_MASK_def m by (rule bit_word_eqI) (auto simp: bit_simps)
  have "unat x div 4096 * 4096 < 18446744073709551616"
    using unat_less_64 [of x] div_times_less_eq_dividend [of "unat x" 4096] by linarith
  then have "take_bit 64 (unat x div 4096 * 4096) = unat x div 4096 * 4096" by (intro take_bit_nat_eq_self) simp
  then show ?thesis
    unfolding p by (subst unsigned_push_bit_eq) (simp only: unat_drop_12 push_bit_eq_mult, simp)
qed

text \<open>
  The pages pinned for a user buffer cover it exactly: from the page of its first byte they reach its last byte,
  and one page less does not, when its end does not wrap around and it has fewer than 2^43 bytes.
\<close>

theorem userpages_cover:
  assumes "unat start + unat len + 4095 < 2 ^ 64" "0 < unat len" "unat len < 2 ^ 43 - 2 ^ 13"
  shows "int (unat start) + int (unat len) \<le> int (unat start) div 4096 * 4096 + userpages_npages start len * 4096 \<and>
    int (unat start) div 4096 * 4096 + (userpages_npages start len - 1) * 4096 < int (unat start) + int (unat len)"
proof -
  have sum: "unat (start + len) = unat start + unat len" using assms(1) by (simp add: unat_word_ariths)
  have "unat (start + len + 0xFFF) = unat start + unat len + 4095"
    using assms(1) sum by (simp add: unat_word_ariths)
  then have e: "unat (PAGE_ALIGN (start + len)) = (unat start + unat len + 4095) div 4096 * 4096"
    unfolding PAGE_ALIGN_def unat_page_mask by simp
  let ?n = "(unat start + unat len + 4095) div 4096 - unat start div 4096"
  have le: "unat start div 4096 * 4096 \<le> (unat start + unat len + 4095) div 4096 * 4096"
    by (intro mult_right_mono div_le_mono) simp_all
  have "unat (PAGE_ALIGN (start + len) - (start AND PAGE_MASK)) = ?n * 4096"
    using le e by (subst unat_sub) (simp_all add: word_le_nat_alt unat_page_mask diff_mult_distrib)
  then have d: "unat (drop_bit 12 (PAGE_ALIGN (start + len) - (start AND PAGE_MASK))) = ?n"
    unfolding unat_drop_12 by simp
  have "unat len < 8796093014016" using assms(3) by simp
  then have "?n < 2147483648" by linarith
  then have n: "?n < 2 ^ 31" by simp
  have "sint (ucast (drop_bit 12 (PAGE_ALIGN (start + len) - (start AND PAGE_MASK))) :: 32 word) = int ?n"
  proof -
    let ?w = "ucast (drop_bit 12 (PAGE_ALIGN (start + len) - (start AND PAGE_MASK))) :: 32 word"
    have "take_bit 32 ?n = ?n" using n by (intro take_bit_nat_eq_self) simp
    then have u: "unat ?w = ?n" by (subst unsigned_ucast_eq) (simp only: d, simp)
    have "uint ?w = int ?n" unfolding u [symmetric] by simp
    moreover have "signed_take_bit 31 (int ?n) = int ?n" using n by (intro signed_take_bit_int_eq_self) simp_all
    ultimately show ?thesis by (simp only: sint_uint) simp
  qed
  then have "userpages_npages start len = int ?n" by (simp add: userpages_npages_def Let_def)
  moreover have "unat start div 4096 \<le> (unat start + unat len + 4095) div 4096" by (intro div_le_mono) simp
  ultimately have n: "userpages_npages start len =
      (int (unat start) + int (unat len) + 4095) div 4096 - int (unat start) div 4096"
    by (simp add: of_nat_diff zdiv_int)
  have "a + l \<le> (a + l + 4095) div 4096 * 4096" "(a + l + 4095) div 4096 * 4096 - 4096 < a + l" for a l :: int
    by (simp_all add: div_mult_mod_eq minus_mod_eq_div_mult [symmetric])
  note this [of "int (unat start)" "int (unat len)"]
  then show ?thesis unfolding n by (simp add: algebra_simps)
qed

theorem userpages_cover_witness:
  "int (unat (0x5800 :: u64)) + 4096 \<le> int (unat (0x5800 :: u64)) div 4096 * 4096 + userpages_npages 0x5800 4096 * 4096"
  using userpages_cover [of "0x5800" "4096"] by simp

end
