(* ===== verification/ButtressIpc.thy ===== *)
theory ButtressIpc
  imports ButtressFreq "HOL-Library.Monad_Syntax" "HOL-Library.Sublist"
begin

text \<open>
  The mailbox of the buttress to the security engine and to the sensor hub, and the interrupt
  handler that feeds it, \<^verbatim>\<open>ipu-buttress.c\<close>.

  The hardware is a parameter: a state of any type with what a register read returns and
  changes, what a register write changes, and the moments within one timeout at which it raises the
  interrupt line.  Every access the driver makes is kept in a trace, which is what the lemmas speak
  about.  The handlers of the two subsystems are function pointers in the code and functions on the
  hardware state here.
\<close>

section \<open>The hardware and the trace of accesses\<close>

record 'h hw_ops =
  hw_read :: "nat \<Rightarrow> 'h \<Rightarrow> u32 \<times> 'h"
  hw_write :: "nat \<Rightarrow> u32 \<Rightarrow> 'h \<Rightarrow> 'h"
  hw_irqs :: "'h \<Rightarrow> ('h \<Rightarrow> 'h) list"
  hw_polls :: "nat \<Rightarrow> nat"
  hw_pm_get :: "'h \<Rightarrow> unit result \<times> 'h"

datatype access = Rd nat u32 | Wr nat u32

datatype irqreturn = IRQ_NONE | IRQ_HANDLED | IRQ_WAKE_THREAD

record 'h adrv =
  ad_isr :: "('h \<Rightarrow> irqreturn \<times> 'h) option"
  ad_isr_threaded :: "('h \<Rightarrow> irqreturn \<times> 'h) option"
  ad_wake :: bool

text \<open>A \<^verbatim>\<open>struct completion\<close> is the number of completions not yet waited for.\<close>

record ipc =
  ipc_send_complete :: nat
  ipc_recv_complete :: nat
  ipc_nack :: u32
  ipc_nack_mask :: u32
  ipc_recv_data :: u32
  ipc_csr_out :: nat
  ipc_csr_in :: nat
  ipc_db0_in :: nat
  ipc_db0_out :: nat
  ipc_data0_out :: nat
  ipc_data0_in :: nat

datatype sysfs_file = MIN_FREQ_FILE | MAX_FREQ_FILE | EFFICIENT_FREQ_FILE

record 'h isp =
  is_hw :: 'h
  is_trace :: "access list"
  is_cse :: ipc
  is_ish :: ipc
  is_isys :: "'h adrv option"
  is_psys :: "'h adrv option"
  is_secure_mode :: bool
  is_flr_done :: bool
  is_pm_active :: bool
  is_pm_usage :: int
  is_mmu_pm_usage :: int
  is_pkg_dir_dma_addr :: u64
  is_psys_base :: nat
  is_wdt_cached_value :: u32
  is_clk_plls :: "bool list"
  is_clk_sensors :: "bool list"
  is_files :: "sysfs_file list"

datatype ipc_domain = IPU_BUTTRESS_IPC_CSE | IPU_BUTTRESS_IPC_ISH

record bulk_msg =
  bm_cmd :: u32
  bm_expected_resp :: u32
  bm_require_resp :: bool
  bm_cmd_size :: u8

definition rd :: "'h hw_ops \<Rightarrow> nat \<Rightarrow> 'h isp \<Rightarrow> u32 \<times> 'h isp" where
  "rd H r s = (case hw_read H r (is_hw s) of
     (v, h) \<Rightarrow> (v, s\<lparr>is_hw := h, is_trace := is_trace s @ [Rd r v]\<rparr>))"

definition wr :: "'h hw_ops \<Rightarrow> nat \<Rightarrow> u32 \<Rightarrow> 'h isp \<Rightarrow> 'h isp" where
  "wr H r v s = s\<lparr>is_hw := hw_write H r v (is_hw s), is_trace := is_trace s @ [Wr r v]\<rparr>"

text \<open>
  \<^verbatim>\<open>readl_poll_timeout\<close>: the register is read until the condition holds; when the time is over it
  is read once more.  \<open>hw_polls\<close> is the number of reads that fit in the time.
\<close>

fun poll_reads :: "'h hw_ops \<Rightarrow> nat \<Rightarrow> (u32 \<Rightarrow> bool) \<Rightarrow> nat \<Rightarrow> 'h isp \<Rightarrow> unit result \<times> u32 \<times> 'h isp" where
  "poll_reads H r P 0 s = (case rd H r s of (v, s) \<Rightarrow> (if P v then Inr () else Inl ETIMEDOUT, v, s))"
| "poll_reads H r P (Suc n) s =
     (case rd H r s of (v, s) \<Rightarrow> if P v then (Inr (), v, s) else poll_reads H r P n s)"

definition readl_poll_timeout ::
  "'h hw_ops \<Rightarrow> nat \<Rightarrow> (u32 \<Rightarrow> bool) \<Rightarrow> nat \<Rightarrow> 'h isp \<Rightarrow> unit result \<times> u32 \<times> 'h isp" where
  "readl_poll_timeout H r P tout s = poll_reads H r P (hw_polls H tout) s"

section \<open>Registers and bits\<close>

definition BUTTRESS_REG_IS_FREQ_CTL :: nat where "BUTTRESS_REG_IS_FREQ_CTL = 0x34"
definition BUTTRESS_REG_ISR_STATUS :: nat where "BUTTRESS_REG_ISR_STATUS = 0x90"
definition BUTTRESS_REG_ISR_ENABLE :: nat where "BUTTRESS_REG_ISR_ENABLE = 0x98"
definition BUTTRESS_REG_ISR_CLEAR :: nat where "BUTTRESS_REG_ISR_CLEAR = 0x9c"

definition BUTTRESS_ISR_IS_IRQ :: u32 where "BUTTRESS_ISR_IS_IRQ = 0x1"
definition BUTTRESS_ISR_PS_IRQ :: u32 where "BUTTRESS_ISR_PS_IRQ = 0x2"
definition BUTTRESS_ISR_IPC_EXEC_DONE_BY_CSE :: u32 where "BUTTRESS_ISR_IPC_EXEC_DONE_BY_CSE = 0x4"
definition BUTTRESS_ISR_IPC_EXEC_DONE_BY_ISH :: u32 where "BUTTRESS_ISR_IPC_EXEC_DONE_BY_ISH = 0x8"
definition BUTTRESS_ISR_IPC_FROM_CSE_IS_WAITING :: u32 where "BUTTRESS_ISR_IPC_FROM_CSE_IS_WAITING = 0x10"
definition BUTTRESS_ISR_IPC_FROM_ISH_IS_WAITING :: u32 where "BUTTRESS_ISR_IPC_FROM_ISH_IS_WAITING = 0x20"
definition BUTTRESS_ISR_SAI_VIOLATION :: u32 where "BUTTRESS_ISR_SAI_VIOLATION = 0x800"

definition BUTTRESS_IRQS :: u32 where
  "BUTTRESS_IRQS = BUTTRESS_ISR_SAI_VIOLATION OR BUTTRESS_ISR_IPC_FROM_CSE_IS_WAITING OR
     BUTTRESS_ISR_IPC_FROM_ISH_IS_WAITING OR BUTTRESS_ISR_IPC_EXEC_DONE_BY_CSE OR
     BUTTRESS_ISR_IPC_EXEC_DONE_BY_ISH OR BUTTRESS_ISR_IS_IRQ OR BUTTRESS_ISR_PS_IRQ"

definition ENTRY :: u32 where "ENTRY = 0x1"
definition EXIT :: u32 where "EXIT = 0x2"
definition QUERY :: u32 where "QUERY = 0x4"
definition PEER_ASSERTED_REG_VALID_REQ :: u32 where "PEER_ASSERTED_REG_VALID_REQ = 0x8"
definition PEER_ACKED_REG_VALID :: u32 where "PEER_ACKED_REG_VALID = 0x10"
definition PEER_DEASSERTED_REG_VALID_REQ :: u32 where "PEER_DEASSERTED_REG_VALID_REQ = 0x20"

definition BUTTRESS_IPC_RESET_TIMEOUT :: nat where "BUTTRESS_IPC_RESET_TIMEOUT = 2000"
definition BUTTRESS_IPC_VALIDITY_TIMEOUT :: nat where "BUTTRESS_IPC_VALIDITY_TIMEOUT = 1000000"
definition BUTTRESS_IPC_CMD_SEND_RETRY :: nat where "BUTTRESS_IPC_CMD_SEND_RETRY = 1"

section \<open>The interrupt handler\<close>

fun get_ipc :: "ipc_domain \<Rightarrow> 'h isp \<Rightarrow> ipc" where
  "get_ipc IPU_BUTTRESS_IPC_CSE s = is_cse s"
| "get_ipc IPU_BUTTRESS_IPC_ISH s = is_ish s"

fun upd_ipc :: "ipc_domain \<Rightarrow> (ipc \<Rightarrow> ipc) \<Rightarrow> 'h isp \<Rightarrow> 'h isp" where
  "upd_ipc IPU_BUTTRESS_IPC_CSE f s = s\<lparr>is_cse := f (is_cse s)\<rparr>"
| "upd_ipc IPU_BUTTRESS_IPC_ISH f s = s\<lparr>is_ish := f (is_ish s)\<rparr>"

definition ipu_buttress_ipc_recv :: "'h hw_ops \<Rightarrow> ipc_domain \<Rightarrow> 'h isp \<Rightarrow> 'h isp" where
  "ipu_buttress_ipc_recv H d s =
     (case rd H (ipc_data0_in (get_ipc d s)) s of (v, s) \<Rightarrow>
        let s = upd_ipc d (\<lambda>i. i\<lparr>ipc_recv_data := v\<rparr>) s
        in wr H (ipc_db0_in (get_ipc d s)) 0 s)"

definition complete_send :: "ipc_domain \<Rightarrow> 'h isp \<Rightarrow> 'h isp" where
  "complete_send d = upd_ipc d (\<lambda>i. i\<lparr>ipc_send_complete := ipc_send_complete i + 1\<rparr>)"

definition complete_recv :: "ipc_domain \<Rightarrow> 'h isp \<Rightarrow> 'h isp" where
  "complete_recv d = upd_ipc d (\<lambda>i. i\<lparr>ipc_recv_complete := ipc_recv_complete i + 1\<rparr>)"

definition ipu_buttress_call_isr :: "'h adrv option \<Rightarrow> 'h \<Rightarrow> irqreturn \<times> 'h adrv option \<times> 'h" where
  "ipu_buttress_call_isr adev h =
     (case adev of
        None \<Rightarrow> (IRQ_NONE, None, h)
      | Some a \<Rightarrow>
          (case (case ad_isr a of Some f \<Rightarrow> f h | None \<Rightarrow> (IRQ_WAKE_THREAD, h)) of (r, h) \<Rightarrow>
             let r = (if r = IRQ_WAKE_THREAD \<and> ad_isr_threaded a = None then IRQ_NONE else r)
             in (r, Some (a\<lparr>ad_wake := r = IRQ_WAKE_THREAD\<rparr>), h)))"

text \<open>One turn of the loop over the two subsystems: what their handler says is added up.\<close>

definition add_isr :: "u32 \<Rightarrow> irqreturn \<Rightarrow> irqreturn \<times> u32 \<Rightarrow> irqreturn \<times> u32" where
  "add_isr m r acc = (case acc of (ret, disable_irqs) \<Rightarrow>
     if r = IRQ_WAKE_THREAD then (IRQ_WAKE_THREAD, disable_irqs OR m)
     else if ret = IRQ_NONE \<and> r = IRQ_HANDLED then (IRQ_HANDLED, disable_irqs)
     else (ret, disable_irqs))"

definition isr_adevs :: "u32 \<Rightarrow> irqreturn \<times> u32 \<Rightarrow> 'h isp \<Rightarrow> (irqreturn \<times> u32) \<times> 'h isp" where
  "isr_adevs irq_status acc s =
     (let (acc, s) =
        (if irq_status AND BUTTRESS_ISR_IS_IRQ \<noteq> 0 then
           case ipu_buttress_call_isr (is_isys s) (is_hw s) of (r, a, h) \<Rightarrow>
             (add_isr BUTTRESS_ISR_IS_IRQ r acc, s\<lparr>is_isys := a, is_hw := h\<rparr>)
         else (acc, s))
      in if irq_status AND BUTTRESS_ISR_PS_IRQ \<noteq> 0 then
           case ipu_buttress_call_isr (is_psys s) (is_hw s) of (r, a, h) \<Rightarrow>
             (add_isr BUTTRESS_ISR_PS_IRQ r acc, s\<lparr>is_psys := a, is_hw := h\<rparr>)
         else (acc, s))"

definition isr_mailbox :: "'h hw_ops \<Rightarrow> u32 \<Rightarrow> 'h isp \<Rightarrow> 'h isp" where
  "isr_mailbox H irq_status s =
     (let s = (if irq_status AND BUTTRESS_ISR_IPC_FROM_CSE_IS_WAITING \<noteq> 0
               then complete_recv IPU_BUTTRESS_IPC_CSE (ipu_buttress_ipc_recv H IPU_BUTTRESS_IPC_CSE s) else s);
          s = (if irq_status AND BUTTRESS_ISR_IPC_FROM_ISH_IS_WAITING \<noteq> 0
               then complete_recv IPU_BUTTRESS_IPC_ISH (ipu_buttress_ipc_recv H IPU_BUTTRESS_IPC_ISH s) else s);
          s = (if irq_status AND BUTTRESS_ISR_IPC_EXEC_DONE_BY_CSE \<noteq> 0
               then complete_send IPU_BUTTRESS_IPC_CSE s else s)
      in (if irq_status AND BUTTRESS_ISR_IPC_EXEC_DONE_BY_ISH \<noteq> 0
          then complete_send IPU_BUTTRESS_IPC_ISH s else s))"

definition isr_body :: "'h hw_ops \<Rightarrow> u32 \<Rightarrow> irqreturn \<times> u32 \<Rightarrow> 'h isp \<Rightarrow> (irqreturn \<times> u32) \<times> 'h isp" where
  "isr_body H irq_status acc s =
     (case isr_adevs irq_status acc (wr H BUTTRESS_REG_ISR_CLEAR irq_status s) of ((ret, disable_irqs), s) \<Rightarrow>
        let ret = (if irq_status AND (BUTTRESS_ISR_IPC_FROM_CSE_IS_WAITING OR BUTTRESS_ISR_IPC_FROM_ISH_IS_WAITING OR
                      BUTTRESS_ISR_IPC_EXEC_DONE_BY_CSE OR BUTTRESS_ISR_IPC_EXEC_DONE_BY_ISH OR
                      BUTTRESS_ISR_SAI_VIOLATION) \<noteq> 0 \<and> ret = IRQ_NONE
                   then IRQ_HANDLED else ret)
        in ((ret, disable_irqs), isr_mailbox H irq_status s))"

text \<open>
  The loop of the handler goes on while the status register is not zero: hardware that keeps raising
  interrupts keeps the processor there, and then there is no result.
\<close>

partial_function (option) isr_loop ::
  "'h hw_ops \<Rightarrow> u32 \<Rightarrow> irqreturn \<times> u32 \<Rightarrow> 'h isp \<Rightarrow> ((irqreturn \<times> u32) \<times> 'h isp) option" where
  "isr_loop H irq_status acc s =
     (case isr_body H irq_status acc s of (acc, s) \<Rightarrow>
      case rd H BUTTRESS_REG_ISR_STATUS s of (irq_status, s) \<Rightarrow>
        if irq_status \<noteq> 0 \<and> \<not> is_flr_done s then isr_loop H irq_status acc s else Some (acc, s))"

definition pm_runtime_get :: "'h isp \<Rightarrow> 'h isp" where
  "pm_runtime_get s = s\<lparr>is_pm_usage := is_pm_usage s + 1\<rparr>"

definition pm_runtime_put :: "'h isp \<Rightarrow> 'h isp" where
  "pm_runtime_put s = s\<lparr>is_pm_usage := is_pm_usage s - 1\<rparr>"

definition ipu_buttress_isr :: "'h hw_ops \<Rightarrow> 'h isp \<Rightarrow> (irqreturn \<times> 'h isp) option" where
  "ipu_buttress_isr H s =
     (let s = pm_runtime_get s in
      if \<not> is_pm_active s then
        case rd H BUTTRESS_REG_ISR_STATUS s of (irq_status, s) \<Rightarrow>
          Some (IRQ_HANDLED, pm_runtime_put (wr H BUTTRESS_REG_ISR_CLEAR irq_status s))
      else
        case rd H BUTTRESS_REG_IS_FREQ_CTL s of (_, s) \<Rightarrow>
        case rd H BUTTRESS_REG_PS_FREQ_CTL s of (_, s) \<Rightarrow>
        case rd H BUTTRESS_REG_ISR_STATUS s of (irq_status, s) \<Rightarrow>
          if irq_status = 0 then Some (IRQ_NONE, pm_runtime_put s)
          else do {
            ((ret, disable_irqs), s) \<leftarrow> isr_loop H irq_status (IRQ_NONE, 0) s;
            let s = (if disable_irqs \<noteq> 0
                     then wr H BUTTRESS_REG_ISR_ENABLE (BUTTRESS_IRQS AND NOT disable_irqs) s else s);
            Some (ret, pm_runtime_put s)
          })"

text \<open>The threaded half: a driver whose thread was woken has a threaded handler.\<close>

definition isr_thread :: "'h adrv option \<Rightarrow> 'h \<Rightarrow> irqreturn \<times> 'h" where
  "isr_thread adev h = (case adev of
       Some a \<Rightarrow> (if ad_wake a then (case ad_isr_threaded a of Some f \<Rightarrow> f h | None \<Rightarrow> (IRQ_NONE, h)) else (IRQ_NONE, h))
     | None \<Rightarrow> (IRQ_NONE, h))"

definition ipu_buttress_isr_threaded :: "'h hw_ops \<Rightarrow> 'h isp \<Rightarrow> irqreturn \<times> 'h isp" where
  "ipu_buttress_isr_threaded H s =
     (case isr_thread (is_isys s) (is_hw s) of (r, h) \<Rightarrow>
      case isr_thread (is_psys s) h of (r', h) \<Rightarrow>
        (if r = IRQ_HANDLED \<or> r' = IRQ_HANDLED then IRQ_HANDLED else IRQ_NONE,
         wr H BUTTRESS_REG_ISR_ENABLE BUTTRESS_IRQS (s\<lparr>is_hw := h\<rparr>)))"

section \<open>Sending\<close>

text \<open>
  \<^verbatim>\<open>wait_for_completion_timeout\<close>: a completion is taken when there is one; otherwise the interrupts
  that arrive before the timeout are handled one after the other.
\<close>

datatype completion = SEND_COMPLETE | RECV_COMPLETE

fun completions :: "completion \<Rightarrow> ipc \<Rightarrow> nat" where
  "completions SEND_COMPLETE i = ipc_send_complete i"
| "completions RECV_COMPLETE i = ipc_recv_complete i"

fun set_done :: "completion \<Rightarrow> nat \<Rightarrow> ipc \<Rightarrow> ipc" where
  "set_done SEND_COMPLETE n i = i\<lparr>ipc_send_complete := n\<rparr>"
| "set_done RECV_COMPLETE n i = i\<lparr>ipc_recv_complete := n\<rparr>"

definition take_completion :: "ipc_domain \<Rightarrow> completion \<Rightarrow> 'h isp \<Rightarrow> 'h isp" where
  "take_completion d c s = upd_ipc d (set_done c (completions c (get_ipc d s) - 1)) s"

fun wait_irqs ::
  "'h hw_ops \<Rightarrow> ipc_domain \<Rightarrow> completion \<Rightarrow> ('h \<Rightarrow> 'h) list \<Rightarrow> 'h isp \<Rightarrow> (bool \<times> 'h isp) option" where
  "wait_irqs H d c [] s =
     (if completions c (get_ipc d s) > 0 then Some (True, take_completion d c s) else Some (False, s))"
| "wait_irqs H d c (f # irqs) s =
     (if completions c (get_ipc d s) > 0 then Some (True, take_completion d c s)
      else do {
        (_, s) \<leftarrow> ipu_buttress_isr H (s\<lparr>is_hw := f (is_hw s)\<rparr>);
        wait_irqs H d c irqs s
      })"

definition wait_for_completion_timeout ::
  "'h hw_ops \<Rightarrow> ipc_domain \<Rightarrow> completion \<Rightarrow> 'h isp \<Rightarrow> (bool \<times> 'h isp) option" where
  "wait_for_completion_timeout H d c s = wait_irqs H d c (hw_irqs H (is_hw s)) s"

definition reinit_completion :: "ipc_domain \<Rightarrow> completion \<Rightarrow> 'h isp \<Rightarrow> 'h isp" where
  "reinit_completion d c = upd_ipc d (set_done c 0)"

definition ipu_buttress_ipc_validity_close :: "'h hw_ops \<Rightarrow> ipc_domain \<Rightarrow> 'h isp \<Rightarrow> 'h isp" where
  "ipu_buttress_ipc_validity_close H d s = wr H (ipc_csr_out (get_ipc d s)) PEER_DEASSERTED_REG_VALID_REQ s"

definition ipu_buttress_ipc_validity_open :: "'h hw_ops \<Rightarrow> ipc_domain \<Rightarrow> 'h isp \<Rightarrow> unit result \<times> 'h isp" where
  "ipu_buttress_ipc_validity_open H d s =
     (let s = wr H (ipc_csr_out (get_ipc d s)) PEER_ASSERTED_REG_VALID_REQ s in
      case readl_poll_timeout H (ipc_csr_in (get_ipc d s)) (\<lambda>v. v AND PEER_ACKED_REG_VALID \<noteq> 0)
             BUTTRESS_IPC_VALIDITY_TIMEOUT s of (ret, _, s) \<Rightarrow>
        (case ret of
           Inr _ \<Rightarrow> (ret, s)
         | Inl _ \<Rightarrow> (case rd H (ipc_csr_in (get_ipc d s)) s of (_, s) \<Rightarrow>
             (ret, ipu_buttress_ipc_validity_close H d s))))"

text \<open>One command on its way out: the completions are armed, then the data and the doorbell are written.\<close>

definition put_cmd :: "'h hw_ops \<Rightarrow> ipc_domain \<Rightarrow> bulk_msg \<Rightarrow> 'h isp \<Rightarrow> 'h isp" where
  "put_cmd H d m s =
     (let s = reinit_completion d SEND_COMPLETE s;
          s = (if bm_require_resp m then reinit_completion d RECV_COMPLETE s else s);
          s = wr H (ipc_data0_out (get_ipc d s)) (bm_cmd m) s
      in wr H (ipc_db0_out (get_ipc d s)) (push_bit 31 1 OR ucast (bm_cmd_size m)) s)"

definition check_resp :: "ipc \<Rightarrow> bulk_msg \<Rightarrow> unit result" where
  "check_resp i m =
     (if ipc_nack_mask i \<noteq> 0 \<and> ipc_recv_data i AND ipc_nack_mask i = ipc_nack i then Inl ENODEV
      else if ipc_recv_data i \<noteq> bm_expected_resp m then Inl EIO
      else Inr ())"

fun send_msgs :: "'h hw_ops \<Rightarrow> ipc_domain \<Rightarrow> bulk_msg list \<Rightarrow> nat \<Rightarrow> 'h isp \<Rightarrow> (unit result \<times> 'h isp) option" where
  "send_msgs H d [] retry s = Some (Inr (), s)"
| "send_msgs H d (m # ms) retry s = do {
     (sent, s) \<leftarrow> wait_for_completion_timeout H d SEND_COMPLETE (put_cmd H d m s);
     if \<not> sent then
       (case retry of
          0 \<Rightarrow> Some (Inl ETIMEDOUT, s)
        | Suc retry \<Rightarrow> send_msgs H d (m # ms) retry (wr H (ipc_db0_out (get_ipc d s)) 0 s))
     else if \<not> bm_require_resp m then send_msgs H d ms BUTTRESS_IPC_CMD_SEND_RETRY s
     else do {
       (answered, s) \<leftarrow> wait_for_completion_timeout H d RECV_COMPLETE s;
       if \<not> answered then Some (Inl ETIMEDOUT, s)
       else (case check_resp (get_ipc d s) m of
           Inl e \<Rightarrow> Some (Inl e, s)
         | Inr _ \<Rightarrow> send_msgs H d ms BUTTRESS_IPC_CMD_SEND_RETRY s)
     }
   }"

definition ipu_buttress_ipc_send_bulk ::
  "'h hw_ops \<Rightarrow> ipc_domain \<Rightarrow> bulk_msg list \<Rightarrow> 'h isp \<Rightarrow> (unit result \<times> 'h isp) option" where
  "ipu_buttress_ipc_send_bulk H d msgs s =
     (case ipu_buttress_ipc_validity_open H d s of (ret, s) \<Rightarrow>
      (case ret of
         Inl e \<Rightarrow> Some (Inl e, ipu_buttress_ipc_validity_close H d s)
       | Inr _ \<Rightarrow> do {
           (ret, s) \<leftarrow> send_msgs H d msgs BUTTRESS_IPC_CMD_SEND_RETRY s;
           Some (ret, ipu_buttress_ipc_validity_close H d s)
         }))"

definition ipu_buttress_ipc_send ::
  "'h hw_ops \<Rightarrow> ipc_domain \<Rightarrow> u32 \<Rightarrow> u32 \<Rightarrow> bool \<Rightarrow> u32 \<Rightarrow> 'h isp \<Rightarrow> (unit result \<times> 'h isp) option" where
  "ipu_buttress_ipc_send H d ipc_msg sz require_resp expected_resp s =
     ipu_buttress_ipc_send_bulk H d
       [\<lparr>bm_cmd = ipc_msg, bm_expected_resp = expected_resp, bm_require_resp = require_resp, bm_cmd_size = ucast sz\<rparr>] s"

section \<open>The reset handshake\<close>

definition csr_in_clr :: u32 where
  "csr_in_clr = PEER_DEASSERTED_REG_VALID_REQ OR PEER_ACKED_REG_VALID OR PEER_ASSERTED_REG_VALID_REQ OR QUERY"

definition reset_exit :: "'h hw_ops \<Rightarrow> ipc_domain \<Rightarrow> 'h isp \<Rightarrow> u32 \<times> 'h isp" where
  "reset_exit H d s =
     (let i = get_ipc d s;
          s = wr H (ipc_csr_in i) EXIT s;
          s = wr H (ipc_db0_in i) 0 s;
          s = wr H (ipc_csr_in i) csr_in_clr s;
          s = wr H (ipc_csr_out i) EXIT s
      in rd H (ipc_csr_in i) s)"

fun reset_loop :: "'h hw_ops \<Rightarrow> ipc_domain \<Rightarrow> nat \<Rightarrow> 'h isp \<Rightarrow> unit result \<times> 'h isp" where
  "reset_loop H d 0 s = (Inl ETIMEDOUT, s)"
| "reset_loop H d (Suc retries) s =
     (let i = get_ipc d s in
      case rd H (ipc_csr_in i) s of (val, s) \<Rightarrow>
        if val = (ENTRY OR EXIT) \<or> val = (ENTRY OR EXIT OR QUERY) then
          reset_loop H d retries (wr H (ipc_csr_out i) QUERY (wr H (ipc_csr_in i) (ENTRY OR EXIT) s))
        else if val = ENTRY \<or> val = (ENTRY OR QUERY) then
          reset_loop H d retries (wr H (ipc_csr_out i) ENTRY (wr H (ipc_csr_in i) (ENTRY OR QUERY) s))
        else if val = EXIT \<or> val = (EXIT OR QUERY) then
          (case reset_exit H d s of (val, s) \<Rightarrow>
             if val AND QUERY \<noteq> 0 then reset_loop H d retries s else (Inr (), s))
        else if val = QUERY then
          reset_loop H d retries (wr H (ipc_csr_out i) ENTRY (wr H (ipc_csr_in i) QUERY s))
        else reset_loop H d retries s)"

definition ipu_buttress_ipc_reset :: "'h hw_ops \<Rightarrow> ipc_domain \<Rightarrow> 'h isp \<Rightarrow> unit result \<times> 'h isp" where
  "ipu_buttress_ipc_reset H d s =
     (if \<not> is_secure_mode s then (Inr (), s)
      else
        let i = get_ipc d s in
        case rd H (ipc_csr_in i) s of (val, s) \<Rightarrow>
          let s = wr H (ipc_csr_in i) val s;
              s = wr H (ipc_csr_out i) ENTRY s
          in reset_loop H d BUTTRESS_IPC_RESET_TIMEOUT s)"

section \<open>The two mailboxes, as \<^verbatim>\<open>ipu_buttress_init\<close> sets them up\<close>

definition cse_init :: "ipc \<Rightarrow> ipc" where
  "cse_init i = i\<lparr>ipc_send_complete := 0, ipc_recv_complete := 0, ipc_nack := 0xf20, ipc_nack_mask := 0xffff,
     ipc_csr_in := 0x30c, ipc_csr_out := 0x108, ipc_db0_in := 0x304, ipc_db0_out := 0x100,
     ipc_data0_in := 0x308, ipc_data0_out := 0x104\<rparr>"

definition ish_init :: "ipc \<Rightarrow> ipc" where
  "ish_init i = i\<lparr>ipc_send_complete := 0, ipc_recv_complete := 0,
     ipc_csr_in := 0x50, ipc_csr_out := 0x118, ipc_db0_in := 0x54, ipc_db0_out := 0x10c,
     ipc_data0_in := 0x58, ipc_data0_out := 0x110\<rparr>"

section \<open>What the trace says\<close>

fun writes_to :: "nat \<Rightarrow> access list \<Rightarrow> u32 list" where
  "writes_to r [] = []"
| "writes_to r (Wr r' v # t) = (if r' = r then v # writes_to r t else writes_to r t)"
| "writes_to r (Rd _ _ # t) = writes_to r t"

fun reads_of :: "nat \<Rightarrow> access list \<Rightarrow> u32 list" where
  "reads_of r [] = []"
| "reads_of r (Rd r' v # t) = (if r' = r then v # reads_of r t else reads_of r t)"
| "reads_of r (Wr _ _ # t) = reads_of r t"

lemma writes_to_append [simp]: "writes_to r (t @ u) = writes_to r t @ writes_to r u"
  by (induction r t rule: writes_to.induct) auto

lemma reads_of_append [simp]: "reads_of r (t @ u) = reads_of r t @ reads_of r u"
  by (induction r t rule: reads_of.induct) auto

definition written :: "nat \<Rightarrow> 'h isp \<Rightarrow> u32 list" where
  "written r s = writes_to r (is_trace s)"

definition got :: "nat \<Rightarrow> 'h isp \<Rightarrow> u32 list" where
  "got r s = reads_of r (is_trace s)"

text \<open>What the mailbox and the interrupt handler leave alone.\<close>

definition ipc_regs :: "ipc \<Rightarrow> nat list \<times> u32 list" where
  "ipc_regs i = ([ipc_csr_out i, ipc_csr_in i, ipc_db0_in i, ipc_db0_out i, ipc_data0_out i, ipc_data0_in i],
     [ipc_nack i, ipc_nack_mask i])"

definition settings :: "'h isp \<Rightarrow> (nat list \<times> u32 list) list \<times> bool list \<times> int list \<times> u64 \<times> nat" where
  "settings s = ([ipc_regs (is_cse s), ipc_regs (is_ish s)], [is_secure_mode s, is_flr_done s, is_pm_active s],
     [is_pm_usage s, is_mmu_pm_usage s], is_pkg_dir_dma_addr s, is_psys_base s)"

lemma rd_cases:
  obtains v h where "rd H r s = (v, s\<lparr>is_hw := h, is_trace := is_trace s @ [Rd r v]\<rparr>)"
  by (cases "hw_read H r (is_hw s)") (simp add: rd_def)

lemma rd_frame [frame]:
  assumes "rd H r s = (v, s')"
  shows "settings s' = settings s" "get_ipc d s' = get_ipc d s" "written r' s' = written r' s"
    "got r' s' = (if r' = r then got r' s @ [v] else got r' s)"
    "is_cse s' = is_cse s" "is_ish s' = is_ish s"
  using assms by (cases d; auto simp: rd_def settings_def written_def got_def split: prod.splits)+

lemma wr_frame [frame, simp]:
  "settings (wr H r v s) = settings s" "get_ipc d (wr H r v s) = get_ipc d s"
  "written r' (wr H r v s) = (if r' = r then written r' s @ [v] else written r' s)"
  "got r' (wr H r v s) = got r' s"
  "is_cse (wr H r v s) = is_cse s" "is_ish (wr H r v s) = is_ish s"
  by (cases d; simp add: wr_def settings_def written_def got_def)+

lemma upd_ipc_frame [simp]:
  "is_trace (upd_ipc d f s) = is_trace s" "is_hw (upd_ipc d f s) = is_hw s"
  "written r (upd_ipc d f s) = written r s" "got r (upd_ipc d f s) = got r s"
  "get_ipc d' (upd_ipc d f s) = (if d' = d then f (get_ipc d s) else get_ipc d' s)"
  by (cases d; cases d'; simp add: written_def got_def)+

lemma upd_ipc_settings:
  "(\<And>i. ipc_regs (f i) = ipc_regs i) \<Longrightarrow> settings (upd_ipc d f s) = settings s"
  by (cases d) (simp_all add: settings_def)

lemma ipc_regs_updates [simp]:
  "ipc_regs (i\<lparr>ipc_recv_data := v\<rparr>) = ipc_regs i"
  "ipc_regs (i\<lparr>ipc_send_complete := n\<rparr>) = ipc_regs i"
  "ipc_regs (i\<lparr>ipc_recv_complete := n\<rparr>) = ipc_regs i"
  "ipc_regs (set_done c n i) = ipc_regs i"
  by (cases c; simp add: ipc_regs_def)+

text \<open>
  The registers of the two mailboxes, as \<^verbatim>\<open>ipu_buttress_init\<close> sets them; they are distinct from
  one another and from those of the handler.
\<close>

definition cse_regs :: "nat list \<times> u32 list" where
  "cse_regs = ([0x108, 0x30c, 0x304, 0x100, 0x104, 0x308], [0xf20, 0xffff])"

definition ish_regs :: "nat list" where
  "ish_regs = [0x118, 0x50, 0x54, 0x10c, 0x110, 0x58]"

definition mailboxes_set :: "'h isp \<Rightarrow> bool" where
  "mailboxes_set s \<longleftrightarrow> ipc_regs (is_cse s) = cse_regs \<and> fst (ipc_regs (is_ish s)) = ish_regs"

lemma settings_mailboxes: "settings s' = settings s \<Longrightarrow> mailboxes_set s' = mailboxes_set s"
  by (simp add: settings_def mailboxes_set_def)

lemma settings_regs:
  assumes "settings s' = settings s"
  shows "ipc_regs (get_ipc d s') = ipc_regs (get_ipc d s)"
  using assms by (cases d) (simp_all add: settings_def)

lemma mailboxes_regs:
  assumes "mailboxes_set s"
  shows "ipc_csr_out (get_ipc d s) = (case d of IPU_BUTTRESS_IPC_CSE \<Rightarrow> 0x108 | IPU_BUTTRESS_IPC_ISH \<Rightarrow> 0x118)"
    "ipc_csr_in (get_ipc d s) = (case d of IPU_BUTTRESS_IPC_CSE \<Rightarrow> 0x30c | IPU_BUTTRESS_IPC_ISH \<Rightarrow> 0x50)"
    "ipc_db0_in (get_ipc d s) = (case d of IPU_BUTTRESS_IPC_CSE \<Rightarrow> 0x304 | IPU_BUTTRESS_IPC_ISH \<Rightarrow> 0x54)"
    "ipc_db0_out (get_ipc d s) = (case d of IPU_BUTTRESS_IPC_CSE \<Rightarrow> 0x100 | IPU_BUTTRESS_IPC_ISH \<Rightarrow> 0x10c)"
    "ipc_data0_out (get_ipc d s) = (case d of IPU_BUTTRESS_IPC_CSE \<Rightarrow> 0x104 | IPU_BUTTRESS_IPC_ISH \<Rightarrow> 0x110)"
    "ipc_data0_in (get_ipc d s) = (case d of IPU_BUTTRESS_IPC_CSE \<Rightarrow> 0x308 | IPU_BUTTRESS_IPC_ISH \<Rightarrow> 0x58)"
  using assms by (cases d; simp add: mailboxes_set_def ipc_regs_def cse_regs_def ish_regs_def)+

section \<open>What the interrupt handler does to the mailboxes\<close>

text \<open>
  The registers the handler writes.  What it reads from the data register of a mailbox is
  handed over one completion for each word, the last one in \<^verbatim>\<open>recv_data\<close>.
\<close>

definition irq_regs :: "nat list" where
  "irq_regs = [0x98, 0x9c, 0x304, 0x54]"

definition data_in :: "ipc_domain \<Rightarrow> nat" where
  "data_in d = (case d of IPU_BUTTRESS_IPC_CSE \<Rightarrow> 0x308 | IPU_BUTTRESS_IPC_ISH \<Rightarrow> 0x58)"

definition irq_served :: "'h isp \<Rightarrow> 'h isp \<Rightarrow> bool" where
  "irq_served s s' \<longleftrightarrow> settings s' = settings s \<and>
     (\<forall>r. r \<notin> set irq_regs \<longrightarrow> written r s' = written r s) \<and>
     (\<forall>d. \<exists>vs. got (data_in d) s' = got (data_in d) s @ vs \<and>
        ipc_recv_data (get_ipc d s') = last (ipc_recv_data (get_ipc d s) # vs) \<and>
        ipc_recv_complete (get_ipc d s') = ipc_recv_complete (get_ipc d s) + length vs)"

lemma irq_served_refl [simp]: "irq_served s s"
  by (simp add: irq_served_def)

lemma irq_served_trans [trans]:
  assumes "irq_served s s'" "irq_served s' s''"
  shows "irq_served s s''"
  unfolding irq_served_def
proof (intro conjI allI impI)
  show "settings s'' = settings s" using assms by (simp add: irq_served_def)
  show "written r s'' = written r s" if "r \<notin> set irq_regs" for r using assms that by (simp add: irq_served_def)
  fix d
  obtain vs where vs: "got (data_in d) s' = got (data_in d) s @ vs"
    "ipc_recv_data (get_ipc d s') = last (ipc_recv_data (get_ipc d s) # vs)"
    "ipc_recv_complete (get_ipc d s') = ipc_recv_complete (get_ipc d s) + length vs"
    using assms(1) unfolding irq_served_def by blast
  obtain ws where ws: "got (data_in d) s'' = got (data_in d) s' @ ws"
    "ipc_recv_data (get_ipc d s'') = last (ipc_recv_data (get_ipc d s') # ws)"
    "ipc_recv_complete (get_ipc d s'') = ipc_recv_complete (get_ipc d s') + length ws"
    using assms(2) unfolding irq_served_def by blast
  show "\<exists>us. got (data_in d) s'' = got (data_in d) s @ us \<and>
      ipc_recv_data (get_ipc d s'') = last (ipc_recv_data (get_ipc d s) # us) \<and>
      ipc_recv_complete (get_ipc d s'') = ipc_recv_complete (get_ipc d s) + length us"
    by (rule exI [of _ "vs @ ws"]) (use vs ws in \<open>auto simp: last_append\<close>)
qed

text \<open>Steps that touch no mailbox.\<close>

lemma irq_served_same:
  assumes "settings s' = settings s" "is_cse s' = is_cse s" "is_ish s' = is_ish s"
    and "\<And>r. r \<notin> set irq_regs \<Longrightarrow> written r s' = written r s"
    and "\<And>d. got (data_in d) s' = got (data_in d) s"
  shows "irq_served s s'"
proof -
  have "get_ipc d s' = get_ipc d s" for d using assms(2,3) by (cases d) simp_all
  then show ?thesis using assms(1,4,5) by (simp add: irq_served_def)
qed

lemma irq_served_rd:
  assumes "rd H r s = (v, s')" "r \<notin> {0x308, 0x58}"
  shows "irq_served s s'"
  by (rule irq_served_same) (use assms(2) rd_frame [OF assms(1)] in \<open>auto simp: data_in_def split: ipc_domain.splits\<close>)

lemma irq_served_wr: "r \<in> set irq_regs \<Longrightarrow> irq_served s (wr H r v s)"
  by (rule irq_served_same) auto

lemma irq_served_hw: "irq_served s (s\<lparr>is_hw := h\<rparr>)"
  by (rule irq_served_same) (simp_all add: settings_def written_def got_def)

lemma irq_served_isys: "irq_served s (s\<lparr>is_isys := a, is_hw := h\<rparr>)" "irq_served s (s\<lparr>is_psys := a, is_hw := h\<rparr>)"
  by (rule irq_served_same; simp add: settings_def written_def got_def)+

lemma irq_served_adevs: "isr_adevs st acc s = (acc', s') \<Longrightarrow> irq_served s s'"
proof -
  assume a: "isr_adevs st acc s = (acc', s')"
  define t where "t = (if st AND BUTTRESS_ISR_IS_IRQ \<noteq> 0
     then case ipu_buttress_call_isr (is_isys s) (is_hw s) of (r, a, h) \<Rightarrow>
       (add_isr BUTTRESS_ISR_IS_IRQ r acc, s\<lparr>is_isys := a, is_hw := h\<rparr>) else (acc, s))"
  have "irq_served s (snd t)" by (simp add: t_def irq_served_isys split: prod.splits)
  moreover have "irq_served (snd t) s'"
    using a unfolding isr_adevs_def t_def [symmetric]
    by (cases t) (auto simp: irq_served_isys Let_def split: prod.splits if_splits)
  ultimately show ?thesis by (rule irq_served_trans)
qed

lemma irq_served_send: "irq_served s (complete_send d s)"
proof -
  have "settings (complete_send d s) = settings s" by (simp add: complete_send_def upd_ipc_settings)
  then show ?thesis by (simp add: irq_served_def complete_send_def)
qed

lemma irq_served_recv:
  assumes "mailboxes_set s"
  shows "irq_served s (complete_recv d (ipu_buttress_ipc_recv H d s))"
proof -
  have in_d: "ipc_data0_in (get_ipc d s) = data_in d"
    using mailboxes_regs(6) [OF assms, of d] by (simp add: data_in_def)
  obtain v t where t: "rd H (ipc_data0_in (get_ipc d s)) s = (v, t)" by fastforce
  note f = rd_frame [OF t]
  have set: "settings (complete_recv d (ipu_buttress_ipc_recv H d s)) = settings s"
    by (simp add: complete_recv_def ipu_buttress_ipc_recv_def t Let_def upd_ipc_settings f)
  have db: "ipc_db0_in (get_ipc d t) \<in> set irq_regs"
    using mailboxes_regs(3) [OF assms, of d] f by (simp add: irq_regs_def split: ipc_domain.splits)
  have inj: "data_in d' = data_in d \<longleftrightarrow> d' = d" for d' by (cases d; cases d') (simp_all add: data_in_def)
  show ?thesis
    unfolding irq_served_def
  proof (intro conjI allI impI)
    show "settings (complete_recv d (ipu_buttress_ipc_recv H d s)) = settings s" by (rule set)
    show "written r (complete_recv d (ipu_buttress_ipc_recv H d s)) = written r s" if "r \<notin> set irq_regs" for r
      using that db f by (auto simp: complete_recv_def ipu_buttress_ipc_recv_def t Let_def)
    show "\<exists>vs. got (data_in d') (complete_recv d (ipu_buttress_ipc_recv H d s)) = got (data_in d') s @ vs \<and>
        ipc_recv_data (get_ipc d' (complete_recv d (ipu_buttress_ipc_recv H d s))) =
          last (ipc_recv_data (get_ipc d' s) # vs) \<and>
        ipc_recv_complete (get_ipc d' (complete_recv d (ipu_buttress_ipc_recv H d s))) =
          ipc_recv_complete (get_ipc d' s) + length vs" for d'
      by (rule exI [of _ "if d' = d then [v] else []"])
        (use f in \<open>simp add: complete_recv_def ipu_buttress_ipc_recv_def in_d t [unfolded in_d] Let_def inj\<close>)
  qed
qed

lemma irq_served_settings: "irq_served s s' \<Longrightarrow> settings s' = settings s"
  by (simp add: irq_served_def)

lemma irq_served_set: "irq_served s s' \<Longrightarrow> mailboxes_set s \<Longrightarrow> mailboxes_set s'"
  using settings_mailboxes irq_served_settings by blast

lemma irq_served_mailbox:
  assumes "mailboxes_set s"
  shows "irq_served s (isr_mailbox H st s)"
proof -
  define s1 where "s1 = (if st AND BUTTRESS_ISR_IPC_FROM_CSE_IS_WAITING \<noteq> 0
    then complete_recv IPU_BUTTRESS_IPC_CSE (ipu_buttress_ipc_recv H IPU_BUTTRESS_IPC_CSE s) else s)"
  define s2 where "s2 = (if st AND BUTTRESS_ISR_IPC_FROM_ISH_IS_WAITING \<noteq> 0
    then complete_recv IPU_BUTTRESS_IPC_ISH (ipu_buttress_ipc_recv H IPU_BUTTRESS_IPC_ISH s1) else s1)"
  have 1: "irq_served s s1" by (simp add: s1_def irq_served_recv [OF assms])
  have 2: "irq_served s1 s2" by (simp add: s2_def irq_served_recv [OF irq_served_set [OF 1 assms]])
  have 3: "irq_served s2 (isr_mailbox H st s)"
    unfolding isr_mailbox_def s1_def [symmetric] Let_def s2_def [symmetric]
    by (auto intro: irq_served_send irq_served_trans)
  show ?thesis using 1 2 3 by (meson irq_served_trans)
qed

lemma irq_served_body:
  assumes "mailboxes_set s" "isr_body H st acc s = (acc', s')"
  shows "irq_served s s'"
proof -
  let ?s1 = "wr H BUTTRESS_REG_ISR_CLEAR st s"
  obtain ret dis s2 where a: "isr_adevs st acc ?s1 = ((ret, dis), s2)"
    using prod.exhaust by (metis (no_types))
  have 1: "irq_served s ?s1" by (rule irq_served_wr) (simp add: irq_regs_def BUTTRESS_REG_ISR_CLEAR_def)
  have 2: "irq_served ?s1 s2" by (rule irq_served_adevs [OF a])
  have "s' = isr_mailbox H st s2" using assms(2) by (simp add: isr_body_def a Let_def)
  then have "irq_served s2 s'" using irq_served_mailbox irq_served_set 1 2 assms(1) by blast
  then show ?thesis using 1 2 by (meson irq_served_trans)
qed

lemma irq_served_loop:
  assumes "isr_loop H st acc s = Some (acc', s')" "mailboxes_set s"
  shows "irq_served s s'"
proof -
  have "mailboxes_set s \<longrightarrow> irq_served s (snd (acc', s'))"
  proof (rule isr_loop.raw_induct [where P = "\<lambda>H st acc s r. mailboxes_set s \<longrightarrow> irq_served s (snd r)", OF _ assms(1)])
    fix f H st acc s r
    assume IH: "\<And>H st acc s r. f H st acc s = Some r \<Longrightarrow> mailboxes_set s \<longrightarrow> irq_served s (snd r)"
      and eq: "(case isr_body H st acc s of (acc, s) \<Rightarrow>
        case rd H BUTTRESS_REG_ISR_STATUS s of (st, s) \<Rightarrow>
          if st \<noteq> 0 \<and> \<not> is_flr_done s then f H st acc s else Some (acc, s)) = Some r"
    show "mailboxes_set s \<longrightarrow> irq_served s (snd r)"
    proof
      assume m: "mailboxes_set s"
      obtain acc1 s1 where b: "isr_body H st acc s = (acc1, s1)" by fastforce
      obtain st2 s2 where r2: "rd H BUTTRESS_REG_ISR_STATUS s1 = (st2, s2)" by fastforce
      have 1: "irq_served s s1" by (rule irq_served_body [OF m b])
      have 2: "irq_served s1 s2" by (rule irq_served_rd [OF r2]) (simp add: BUTTRESS_REG_ISR_STATUS_def)
      have 3: "irq_served s s2" using 1 2 by (rule irq_served_trans)
      show "irq_served s (snd r)"
      proof (cases "st2 \<noteq> 0 \<and> \<not> is_flr_done s2")
        case True
        then have "f H st2 acc1 s2 = Some r" using eq b r2 by simp
        then have "irq_served s2 (snd r)" using IH irq_served_set [OF 3 m] by blast
        with 3 show ?thesis by (rule irq_served_trans)
      qed (use eq b r2 3 in auto)
    qed
  qed
  then show ?thesis using assms(2) by simp
qed

lemma pm_settings [simp]:
  "settings (pm_runtime_put (s :: 'h isp)) = settings t \<longleftrightarrow> settings s = settings (pm_runtime_get t)"
  by (auto simp: settings_def pm_runtime_put_def pm_runtime_get_def)

lemma pm_frame [simp]:
  "is_cse (pm_runtime_put s) = is_cse s" "is_ish (pm_runtime_put s) = is_ish s"
  "written r (pm_runtime_put s) = written r s" "got r (pm_runtime_put s) = got r s"
  "is_cse (pm_runtime_get s) = is_cse s" "is_ish (pm_runtime_get s) = is_ish s"
  "written r (pm_runtime_get s) = written r s" "got r (pm_runtime_get s) = got r s"
  "get_ipc d (pm_runtime_put s) = get_ipc d s" "get_ipc d (pm_runtime_get s) = get_ipc d s"
  by (cases d; simp add: pm_runtime_put_def pm_runtime_get_def written_def got_def)+

lemma irq_served_pm: "irq_served (pm_runtime_get s) t \<Longrightarrow> irq_served s (pm_runtime_put t)"
  by (simp add: irq_served_def)

lemma irq_served_isr:
  assumes "ipu_buttress_isr H s = Some (ret, s')" "mailboxes_set s"
  shows "irq_served s s'"
proof -
  let ?s0 = "pm_runtime_get s"
  have m0: "mailboxes_set ?s0" using assms(2) by (simp add: mailboxes_set_def)
  show ?thesis
  proof (cases "is_pm_active ?s0")
    case False
    obtain st s1 where r1: "rd H BUTTRESS_REG_ISR_STATUS ?s0 = (st, s1)" by fastforce
    have "irq_served ?s0 s1" by (rule irq_served_rd [OF r1]) (simp add: BUTTRESS_REG_ISR_STATUS_def)
    moreover have "irq_served s1 (wr H BUTTRESS_REG_ISR_CLEAR st s1)"
      by (rule irq_served_wr) (simp add: irq_regs_def BUTTRESS_REG_ISR_CLEAR_def)
    ultimately have "irq_served ?s0 (wr H BUTTRESS_REG_ISR_CLEAR st s1)" by (rule irq_served_trans)
    then show ?thesis using assms(1) False r1 by (auto simp: ipu_buttress_isr_def Let_def intro: irq_served_pm)
  next
    case True
    obtain v1 s1 where r1: "rd H BUTTRESS_REG_IS_FREQ_CTL ?s0 = (v1, s1)" by fastforce
    obtain v2 s2 where r2: "rd H BUTTRESS_REG_PS_FREQ_CTL s1 = (v2, s2)" by fastforce
    obtain st s3 where r3: "rd H BUTTRESS_REG_ISR_STATUS s2 = (st, s3)" by fastforce
    have "irq_served ?s0 s1" by (rule irq_served_rd [OF r1]) (simp add: BUTTRESS_REG_IS_FREQ_CTL_def)
    moreover have "irq_served s1 s2" by (rule irq_served_rd [OF r2]) (simp add: BUTTRESS_REG_PS_FREQ_CTL_def)
    moreover have "irq_served s2 s3" by (rule irq_served_rd [OF r3]) (simp add: BUTTRESS_REG_ISR_STATUS_def)
    ultimately have 3: "irq_served ?s0 s3" by (meson irq_served_trans)
    show ?thesis
    proof (cases "st = 0")
      case st: True
      then show ?thesis using assms(1) True r1 r2 r3 3 by (auto simp: ipu_buttress_isr_def Let_def intro: irq_served_pm)
    next
      case False
      then obtain ret' dis s4 where l: "isr_loop H st (IRQ_NONE, 0) s3 = Some ((ret', dis), s4)"
        using assms(1) True r1 r2 r3 by (auto simp: ipu_buttress_isr_def Let_def Option.bind_eq_Some_conv)
      have 4: "irq_served ?s0 s4" using 3 irq_served_loop [OF l irq_served_set [OF 3 m0]] by (rule irq_served_trans)
      have 5: "irq_served s4 (if dis \<noteq> 0 then wr H BUTTRESS_REG_ISR_ENABLE (BUTTRESS_IRQS AND NOT dis) s4 else s4)"
        by (simp add: irq_served_wr irq_regs_def BUTTRESS_REG_ISR_ENABLE_def)
      have "s' = pm_runtime_put (if dis \<noteq> 0 then wr H BUTTRESS_REG_ISR_ENABLE (BUTTRESS_IRQS AND NOT dis) s4 else s4)"
        using assms(1) True False r1 r2 r3 l by (simp add: ipu_buttress_isr_def Let_def)
      then show ?thesis using irq_served_trans [OF 4 5] by (simp add: irq_served_pm)
    qed
  qed
qed

section \<open>Waiting and sending\<close>

text \<open>
  Taking a completion is the only thing that lowers its count.  A reception that was taken after
  its completion was armed leaves the word that came with it in \<^verbatim>\<open>recv_data\<close>.
\<close>

lemma upd_set_done_settings [simp]: "settings (upd_ipc d (set_done c n) s) = settings s"
  by (simp add: upd_ipc_settings)

lemma recv_set_send [simp]:
  "ipc_recv_complete (set_done SEND_COMPLETE n i) = ipc_recv_complete i"
  "ipc_recv_data (set_done c n i) = ipc_recv_data i"
  by (cases c; simp)+

lemma served_set_send: "irq_served s (upd_ipc d (set_done SEND_COMPLETE n) s)"
  by (simp add: irq_served_def)

lemma wait_send_served:
  assumes "wait_irqs H d SEND_COMPLETE irqs s = Some (b, s')" "mailboxes_set s"
  shows "irq_served s s'"
  using assms
proof (induction irqs arbitrary: s)
  case Nil
  then show ?case by (auto simp: take_completion_def intro: served_set_send split: if_splits)
next
  case (Cons f irqs)
  show ?case
  proof (cases "ipc_send_complete (get_ipc d s) > 0")
    case True
    then show ?thesis using Cons.prems by (auto simp: take_completion_def intro: served_set_send)
  next
    case False
    then obtain r s1 where 1: "ipu_buttress_isr H (s\<lparr>is_hw := f (is_hw s)\<rparr>) = Some (r, s1)"
        and w: "wait_irqs H d SEND_COMPLETE irqs s1 = Some (b, s')"
      using Cons.prems(1) by (auto simp: Option.bind_eq_Some_conv)
    have "irq_served s (s\<lparr>is_hw := f (is_hw s)\<rparr>)" by (rule irq_served_hw)
    also from this have "irq_served (s\<lparr>is_hw := f (is_hw s)\<rparr>) s1"
      using irq_served_isr [OF 1] irq_served_set Cons.prems(2) by blast
    finally have "irq_served s s1" .
    moreover from this have "irq_served s1 s'" using Cons.IH [OF w] irq_served_set Cons.prems(2) by blast
    ultimately show ?thesis by (rule irq_served_trans)
  qed
qed

lemma wait_recv_served:
  assumes "wait_irqs H d RECV_COMPLETE irqs s = Some (b, s')" "mailboxes_set s"
  shows "\<exists>t. irq_served s t \<and> (if b then 0 < ipc_recv_complete (get_ipc d t) \<and>
     s' = upd_ipc d (set_done RECV_COMPLETE (ipc_recv_complete (get_ipc d t) - 1)) t else s' = t)"
  using assms
proof (induction irqs arbitrary: s)
  case Nil
  then show ?case by (intro exI [of _ s]) (auto simp: take_completion_def split: if_splits)
next
  case (Cons f irqs)
  show ?case
  proof (cases "ipc_recv_complete (get_ipc d s) > 0")
    case True
    then show ?thesis using Cons.prems by (intro exI [of _ s]) (auto simp: take_completion_def)
  next
    case False
    then obtain r s1 where 1: "ipu_buttress_isr H (s\<lparr>is_hw := f (is_hw s)\<rparr>) = Some (r, s1)"
        and w: "wait_irqs H d RECV_COMPLETE irqs s1 = Some (b, s')"
      using Cons.prems(1) by (auto simp: Option.bind_eq_Some_conv)
    have "irq_served s (s\<lparr>is_hw := f (is_hw s)\<rparr>)" by (rule irq_served_hw)
    also from this have "irq_served (s\<lparr>is_hw := f (is_hw s)\<rparr>) s1"
      using irq_served_isr [OF 1] irq_served_set Cons.prems(2) by blast
    finally have s1: "irq_served s s1" .
    then obtain t where t: "irq_served s1 t" "if b then 0 < ipc_recv_complete (get_ipc d t) \<and>
        s' = upd_ipc d (set_done RECV_COMPLETE (ipc_recv_complete (get_ipc d t) - 1)) t else s' = t"
      using Cons.IH [OF w] irq_served_set Cons.prems(2) by blast
    show ?thesis using t irq_served_trans [OF s1 t(1)] by blast
  qed
qed

text \<open>
  What has been written and read is followed for the mailbox \<open>d\<close> in use: its data and control
  registers towards the peer, and the words that came in.
\<close>

definition out_data :: "ipc_domain \<Rightarrow> nat" where
  "out_data d = (case d of IPU_BUTTRESS_IPC_CSE \<Rightarrow> 0x104 | IPU_BUTTRESS_IPC_ISH \<Rightarrow> 0x110)"

definition out_csr :: "ipc_domain \<Rightarrow> nat" where
  "out_csr d = (case d of IPU_BUTTRESS_IPC_CSE \<Rightarrow> 0x108 | IPU_BUTTRESS_IPC_ISH \<Rightarrow> 0x118)"

lemma out_data_csr [simp]:
  "out_data d \<notin> set irq_regs" "out_csr d \<notin> set irq_regs" "out_csr d \<noteq> out_data d" "out_data d \<noteq> out_csr d"
  by (cases d; simp add: out_data_def out_csr_def irq_regs_def)+

lemma irq_served_written: "irq_served s s' \<Longrightarrow> r \<notin> set irq_regs \<Longrightarrow> written r s' = written r s"
  by (simp add: irq_served_def)

text \<open>The exchange of one message: the interrupts of the wait only add words that came in.\<close>

definition out_regs :: "nat set" where
  "out_regs = {0x100, 0x104, 0x108, 0x10c, 0x110, 0x118}"

definition exchanged :: "ipc_domain \<Rightarrow> u32 list \<Rightarrow> 'h isp \<Rightarrow> 'h isp \<Rightarrow> bool" where
  "exchanged d cmds s s' \<longleftrightarrow> settings s' = settings s \<and>
     written (out_data d) s' = written (out_data d) s @ cmds \<and> written (out_csr d) s' = written (out_csr d) s \<and>
     (\<forall>q. q \<notin> out_regs \<union> set irq_regs \<longrightarrow> written q s' = written q s) \<and>
     (\<exists>vs. got (data_in d) s' = got (data_in d) s @ vs)"

lemma exchanged_trans:
  assumes "exchanged d a s t" "exchanged d b t u"
  shows "exchanged d (a @ b) s u"
  using assms by (auto simp: exchanged_def)

lemma irq_served_exchanged: "irq_served s s' \<Longrightarrow> exchanged d [] s s'"
  unfolding exchanged_def by (auto simp: irq_served_def)

lemma exchanged_set: "exchanged d a s t \<Longrightarrow> mailboxes_set s \<Longrightarrow> mailboxes_set t"
  using settings_mailboxes by (auto simp: exchanged_def)

lemma put_cmd_exchanged:
  assumes "mailboxes_set s"
  shows "exchanged d [bm_cmd m] s (put_cmd H d m s)"
    "got (data_in d) (put_cmd H d m s) = got (data_in d) s"
    "bm_require_resp m \<Longrightarrow> ipc_recv_complete (get_ipc d (put_cmd H d m s)) = 0"
proof -
  define t where "t = (if bm_require_resp m
    then reinit_completion d RECV_COMPLETE (reinit_completion d SEND_COMPLETE s) else reinit_completion d SEND_COMPLETE s)"
  have set: "settings t = settings s" by (simp add: t_def reinit_completion_def)
  have m: "mailboxes_set t" using settings_mailboxes [OF set] assms by simp
  have regs: "ipc_data0_out (get_ipc d t) = out_data d" "ipc_db0_out (get_ipc d t) \<noteq> out_data d"
    "ipc_db0_out (get_ipc d t) \<noteq> out_csr d" "ipc_db0_out (get_ipc d t) \<in> out_regs" "out_data d \<in> out_regs"
    using mailboxes_regs [OF m, of d] by (simp_all add: out_data_def out_csr_def out_regs_def split: ipc_domain.splits)
  have t: "written r t = written r s" "got r t = got r s" for r by (simp_all add: t_def reinit_completion_def)
  have put: "put_cmd H d m s = wr H (ipc_db0_out (get_ipc d t)) (push_bit 31 1 OR ucast (bm_cmd_size m))
      (wr H (ipc_data0_out (get_ipc d t)) (bm_cmd m) t)"
    by (simp add: put_cmd_def t_def Let_def)
  show "exchanged d [bm_cmd m] s (put_cmd H d m s)" "got (data_in d) (put_cmd H d m s) = got (data_in d) s"
    using regs by (auto simp: exchanged_def put set t)
  show "ipc_recv_complete (get_ipc d (put_cmd H d m s)) = 0" if "bm_require_resp m"
    using that by (simp add: put t_def reinit_completion_def)
qed

text \<open>
  The outcome of a bulk: each message was sent at least once, in order, none more than once in excess of its
  retries, and each one that asks for a response got the expected one.
\<close>

definition counts_ok :: "nat \<Rightarrow> nat list \<Rightarrow> bool" where
  "counts_ok retry ns \<longleftrightarrow> (\<forall>n \<in> set ns. 1 \<le> n) \<and>
     (case ns of [] \<Rightarrow> True | n # ns \<Rightarrow> n \<le> Suc retry \<and> (\<forall>n \<in> set ns. n \<le> Suc BUTTRESS_IPC_CMD_SEND_RETRY))"

definition repeated :: "nat list \<Rightarrow> 'a list \<Rightarrow> 'a list" where
  "repeated ns xs = concat (map2 replicate ns xs)"

definition expected :: "bulk_msg list \<Rightarrow> u32 list" where
  "expected ms = map bm_expected_resp (filter bm_require_resp ms)"

lemma repeated_Cons [simp]: "repeated (n # ns) (x # xs) = replicate n x @ repeated ns xs"
  by (simp add: repeated_def)

lemma counts_ok_Cons:
  assumes "counts_ok BUTTRESS_IPC_CMD_SEND_RETRY ns"
  shows "counts_ok retry (1 # ns)"
  using assms by (cases ns) (auto simp: counts_ok_def)

lemma counts_ok_again:
  assumes "counts_ok retry ns"
  shows "counts_ok (Suc retry) (case ns of [] \<Rightarrow> [1] | n # ns \<Rightarrow> Suc n # ns)"
  using assms by (cases ns) (auto simp: counts_ok_def)

lemma send_msgs_outcome:
  assumes "send_msgs H d ms retry s = Some (r, s')" "mailboxes_set s"
  shows "\<exists>ns vs. length ns \<le> length ms \<and> counts_ok retry ns \<and>
     exchanged d (repeated ns (map bm_cmd ms)) s s' \<and>
     got (data_in d) s' = got (data_in d) s @ vs \<and>
     (r = Inr () \<longrightarrow> length ns = length ms \<and> subseq (expected ms) vs)"
  using assms
proof (induction H d ms retry s rule: send_msgs.induct)
  case (1 H d retry s)
  show ?case
    by (intro exI [of _ "[]"]) (use 1 in \<open>simp_all add: counts_ok_def exchanged_def repeated_def expected_def\<close>)
next
  case (2 H d m ms retry s)
  let ?s0 = "put_cmd H d m s"
  note put = put_cmd_exchanged(1) [OF 2(5), of d m H] put_cmd_exchanged(2) [OF 2(5), of d H m] put_cmd_exchanged(3) [OF 2(5), of m d H]
  have m0: "mailboxes_set ?s0" using exchanged_set [OF put(1) 2(5)] .
  obtain sent s1 where w: "wait_for_completion_timeout H d SEND_COMPLETE ?s0 = Some (sent, s1)"
    using 2(4) by (auto simp: Option.bind_eq_Some_conv)
  have sv: "irq_served ?s0 s1"
    using wait_send_served [OF w [unfolded wait_for_completion_timeout_def] m0] .
  have m1: "mailboxes_set s1" using irq_served_set [OF sv m0] .
  have e1: "exchanged d [bm_cmd m] s s1" using exchanged_trans [OF put(1) irq_served_exchanged [OF sv]] by simp
  obtain us where us: "got (data_in d) s1 = got (data_in d) s @ us"
    "ipc_recv_complete (get_ipc d s1) = ipc_recv_complete (get_ipc d ?s0) + length us"
    "ipc_recv_data (get_ipc d s1) = last (ipc_recv_data (get_ipc d ?s0) # us)"
    using sv put(2) unfolding irq_served_def by metis
  show ?case
  proof (cases sent)
    case False
    show ?thesis
    proof (cases retry)
      case 0
      then have "r = Inl ETIMEDOUT" "s' = s1" using 2(4) w False by simp_all
      then show ?thesis
        by (intro exI [of _ "[1]"] exI [of _ us])
          (use e1 us in \<open>simp add: counts_ok_def repeated_def\<close>)
    next
      case (Suc k)
      let ?s2 = "wr H (ipc_db0_out (get_ipc d s1)) 0 s1"
      have db: "ipc_db0_out (get_ipc d s1) \<noteq> out_data d" "ipc_db0_out (get_ipc d s1) \<noteq> out_csr d"
          "ipc_db0_out (get_ipc d s1) \<in> out_regs"
        using mailboxes_regs(4) [OF m1, of d]
        by (simp_all add: out_data_def out_csr_def out_regs_def split: ipc_domain.splits)
      have e2: "exchanged d [] s1 ?s2" using db by (auto simp: exchanged_def)
      have m2: "mailboxes_set ?s2" by (rule exchanged_set [OF e2 m1])
      have again: "send_msgs H d (m # ms) k ?s2 = Some (r, s')" using 2(4) w False Suc by simp
      obtain ns vs where ih: "length ns \<le> length (m # ms)" "counts_ok k ns"
          "exchanged d (repeated ns (map bm_cmd (m # ms))) ?s2 s'"
          "got (data_in d) s' = got (data_in d) ?s2 @ vs"
          "r = Inr () \<longrightarrow> length ns = length (m # ms) \<and> subseq (expected (m # ms)) vs"
        using 2(1) [OF w refl False Suc again m2] by blast
      let ?ns = "case ns of [] \<Rightarrow> [1] | n # ns \<Rightarrow> Suc n # ns"
      have "repeated ?ns (map bm_cmd (m # ms)) = bm_cmd m # repeated ns (map bm_cmd (m # ms))"
        by (cases ns) (simp_all add: repeated_def)
      then have "exchanged d (repeated ?ns (map bm_cmd (m # ms))) s s'"
        using exchanged_trans [OF exchanged_trans [OF e1 e2] ih(3)] by simp
      moreover have "length ?ns \<le> length (m # ms)" using ih(1) by (cases ns) auto
      moreover have "counts_ok retry ?ns" using counts_ok_again [OF ih(2)] Suc by simp
      moreover have "got (data_in d) s' = got (data_in d) s @ (us @ vs)" using ih(4) us by simp
      moreover have "r = Inr () \<longrightarrow> length ?ns = length (m # ms) \<and> subseq (expected (m # ms)) (us @ vs)"
        using ih(5) by (auto split: list.splits intro: list_emb_append2)
      ultimately show ?thesis by blast
    qed
  next
    case True
    show ?thesis
    proof (cases "bm_require_resp m")
      case False
      then have nxt: "send_msgs H d ms BUTTRESS_IPC_CMD_SEND_RETRY s1 = Some (r, s')" using 2(4) w True by simp
      obtain ns vs where ih: "length ns \<le> length ms" "counts_ok BUTTRESS_IPC_CMD_SEND_RETRY ns"
          "exchanged d (repeated ns (map bm_cmd ms)) s1 s'" "got (data_in d) s' = got (data_in d) s1 @ vs"
          "r = Inr () \<longrightarrow> length ns = length ms \<and> subseq (expected ms) vs"
        using 2(2) [OF w refl _ False nxt m1] True by blast
      show ?thesis
        by (rule exI [of _ "1 # ns"], rule exI [of _ "us @ vs"])
          (use ih us False counts_ok_Cons [OF ih(2)] exchanged_trans [OF e1 ih(3)] in
            \<open>auto simp: expected_def intro: list_emb_append2\<close>)
    next
      case resp: True
      then obtain ans s2 where w2: "wait_for_completion_timeout H d RECV_COMPLETE s1 = Some (ans, s2)"
        using 2(4) w True by (auto simp: Option.bind_eq_Some_conv)
      obtain t where t: "irq_served s1 t" "if ans then 0 < ipc_recv_complete (get_ipc d t) \<and>
          s2 = upd_ipc d (set_done RECV_COMPLETE (ipc_recv_complete (get_ipc d t) - 1)) t else s2 = t"
        using wait_recv_served [OF w2 [unfolded wait_for_completion_timeout_def] m1] by blast
      obtain us' where us': "got (data_in d) t = got (data_in d) s1 @ us'"
          "ipc_recv_complete (get_ipc d t) = ipc_recv_complete (get_ipc d s1) + length us'"
          "ipc_recv_data (get_ipc d t) = last (ipc_recv_data (get_ipc d s1) # us')"
        using t(1) unfolding irq_served_def by metis
      have s2t: "got (data_in d) s2 = got (data_in d) t" "settings s2 = settings t" "written r s2 = written r t" for r
        using t(2) by (cases ans; simp)+
      have e2: "exchanged d [] t s2" by (simp add: exchanged_def s2t)
      have e: "exchanged d [bm_cmd m] s s2"
        using exchanged_trans [OF exchanged_trans [OF e1 irq_served_exchanged [OF t(1)]] e2] by simp
      have m2: "mailboxes_set s2" by (rule exchanged_set [OF e 2(5)])
      have g2: "got (data_in d) s2 = got (data_in d) s @ (us @ us')" using s2t(1) us us' by simp
      have stop: ?thesis if "s' = s2" "r \<noteq> Inr ()"
        by (rule exI [of _ "[1]"], rule exI [of _ "us @ us'"])
          (use e g2 that in \<open>simp add: counts_ok_def repeated_def\<close>)
      show ?thesis
      proof (cases ans)
        case False
        then have "r = Inl ETIMEDOUT" "s' = s2" using 2(4) w w2 True resp by simp_all
        then show ?thesis by (intro stop) simp_all
      next
        case ans: True
        show ?thesis
        proof (cases "check_resp (get_ipc d s2) m")
          case (Inl err)
          then have "r = Inl err" "s' = s2" using 2(4) w w2 True resp ans by simp_all
          then show ?thesis by (intro stop) simp_all
        next
          case (Inr u)
          then have nxt: "send_msgs H d ms BUTTRESS_IPC_CMD_SEND_RETRY s2 = Some (r, s')"
            using 2(4) w w2 True resp ans by simp
          obtain ns vs where ih: "length ns \<le> length ms" "counts_ok BUTTRESS_IPC_CMD_SEND_RETRY ns"
              "exchanged d (repeated ns (map bm_cmd ms)) s2 s'" "got (data_in d) s' = got (data_in d) s2 @ vs"
              "r = Inr () \<longrightarrow> length ns = length ms \<and> subseq (expected ms) vs"
            using 2(3) [OF w refl _ _ w2 refl _ Inr nxt m2] True resp ans by blast
          have word: "ipc_recv_data (get_ipc d s2) = bm_expected_resp m"
            using Inr by (auto simp: check_resp_def split: if_splits)
          have pos: "0 < length (us @ us')" using t(2) ans us us' put(3) [OF resp] by simp
          have "last (us @ us') = bm_expected_resp m"
            using word t(2) ans us us' pos by (auto split: if_splits)
          then have "us @ us' = butlast (us @ us') @ [bm_expected_resp m]"
            using pos by (metis append_butlast_last_id length_greater_0_conv)
          then have sub: "subseq [bm_expected_resp m] (us @ us')"
            by (metis list_emb_append2 subseq_order.refl)
          show ?thesis
            by (rule exI [of _ "1 # ns"], rule exI [of _ "(us @ us') @ vs"])
              (use ih g2 resp counts_ok_Cons [OF ih(2)] exchanged_trans [OF e ih(3)]
                list_emb_append_mono [OF sub, of "expected ms" vs] in \<open>auto simp: expected_def\<close>)
        qed
      qed
    qed
  qed
qed

section \<open>The mailbox: properties\<close>

lemma poll_frame:
  assumes "readl_poll_timeout H r P tout s = (ret, v, s')"
  shows "settings s' = settings s \<and> (\<forall>q. written q s' = written q s) \<and> (\<forall>q. q \<noteq> r \<longrightarrow> got q s' = got q s) \<and>
    (if ret = Inr () then P v else ret = Inl ETIMEDOUT)"
proof -
  have "settings s' = settings s \<and> (\<forall>q. written q s' = written q s) \<and> (\<forall>q. q \<noteq> r \<longrightarrow> got q s' = got q s) \<and>
      (if ret = Inr () then P v else ret = Inl ETIMEDOUT)"
    if "poll_reads H r P n s = (ret, v, s')" for n
    using that
  proof (induction n arbitrary: s)
    case 0
    obtain w t where t: "rd H r s = (w, t)" by fastforce
    then show ?case using 0 rd_frame [OF t] by (auto split: if_splits)
  next
    case (Suc n)
    obtain w t where t: "rd H r s = (w, t)" by fastforce
    show ?case
    proof (cases "P w")
      case True
      then show ?thesis using Suc.prems t rd_frame [OF t] by auto
    next
      case False
      then have q: "poll_reads H r P n t = (ret, v, s')" using Suc.prems t by simp
      show ?thesis using Suc.IH [OF q] rd_frame [OF t] by simp
    qed
  qed
  from this [of "hw_polls H tout"] show ?thesis using assms by (simp add: readl_poll_timeout_def)
qed

lemma poll_exchanged:
  assumes "readl_poll_timeout H r P tout s = (ret, v, s')" "r \<notin> {data_in d, out_data d}"
  shows "exchanged d [] s s'"
  using poll_frame [OF assms(1)] assms(2) by (simp add: exchanged_def)

lemma send_bulk_outcome:
  assumes "ipu_buttress_ipc_send_bulk H d msgs s = Some (r, s')" "mailboxes_set s"
  shows "settings s' = settings s \<and> (\<forall>q. q \<notin> out_regs \<union> set irq_regs \<longrightarrow> written q s' = written q s) \<and>
    (\<exists>ns vs cs. length ns \<le> length msgs \<and> set ns \<subseteq> {1, 2} \<and>
     written (out_data d) s' = written (out_data d) s @ concat (map2 replicate ns (map bm_cmd msgs)) \<and>
     got (data_in d) s' = got (data_in d) s @ vs \<and>
     written (out_csr d) s' = written (out_csr d) s @ PEER_ASSERTED_REG_VALID_REQ # cs \<and>
     cs \<noteq> [] \<and> set cs = {PEER_DEASSERTED_REG_VALID_REQ} \<and>
     (r = Inr () \<longrightarrow> length ns = length msgs \<and>
        subseq (map bm_expected_resp (filter bm_require_resp msgs)) vs))"
proof -
  let ?s0 = "wr H (ipc_csr_out (get_ipc d s)) PEER_ASSERTED_REG_VALID_REQ s"
  have regs: "ipc_csr_out (get_ipc d t) = out_csr d" "ipc_csr_in (get_ipc d t) \<notin> {data_in d, out_data d}" if "mailboxes_set t" for t
    using mailboxes_regs [OF that, of d] by (auto simp: out_csr_def out_data_def data_in_def split: ipc_domain.splits)
  have out: "out_csr d \<in> out_regs" by (cases d) (simp_all add: out_csr_def out_regs_def)
  have m0: "mailboxes_set ?s0" using assms(2) settings_mailboxes [of ?s0 s] by simp
  obtain ret v s1 where p: "readl_poll_timeout H (ipc_csr_in (get_ipc d ?s0)) (\<lambda>v. v AND PEER_ACKED_REG_VALID \<noteq> 0)
      BUTTRESS_IPC_VALIDITY_TIMEOUT ?s0 = (ret, v, s1)" using prod_cases3 by blast
  have 1: "exchanged d [] ?s0 s1" using poll_exchanged [OF p regs(2) [OF m0]] by simp
  have m1: "mailboxes_set s1" by (rule exchanged_set [OF 1 m0])
  show ?thesis
  proof (cases ret)
    case (Inl e)
    obtain w s2 where r2: "rd H (ipc_csr_in (get_ipc d s1)) s1 = (w, s2)" by fastforce
    have 2: "exchanged d [] s1 s2" using rd_frame [OF r2] regs(2) [OF m1] by (auto simp: exchanged_def)
    have m2: "mailboxes_set s2" by (rule exchanged_set [OF 2 m1])
    let ?s3 = "wr H (ipc_csr_out (get_ipc d s2)) PEER_DEASSERTED_REG_VALID_REQ s2"
    have m3: "mailboxes_set ?s3" using m2 settings_mailboxes [of ?s3 s2] by simp
    have "r = Inl e \<and> s' = wr H (ipc_csr_out (get_ipc d ?s3)) PEER_DEASSERTED_REG_VALID_REQ ?s3"
      using assms(1) p Inl r2
      by (auto simp: ipu_buttress_ipc_send_bulk_def ipu_buttress_ipc_validity_open_def Let_def
          ipu_buttress_ipc_validity_close_def)
    moreover obtain vs where "got (data_in d) s2 = got (data_in d) s @ vs" using 1 2 by (auto simp: exchanged_def)
    ultimately show ?thesis
      using 1 2 out regs(1) [OF assms(2)] regs(1) [OF m2]
      by (intro conjI exI [of _ "[]"] exI [of _ vs] exI [of _ "[PEER_DEASSERTED_REG_VALID_REQ, PEER_DEASSERTED_REG_VALID_REQ]"])
        (auto simp add: exchanged_def regs(1) [OF m3])
  next
    case (Inr u)
    then obtain s2 where sm: "send_msgs H d msgs BUTTRESS_IPC_CMD_SEND_RETRY s1 = Some (r, s2)"
      and s': "s' = ipu_buttress_ipc_validity_close H d s2"
      using assms(1) p by (auto simp: ipu_buttress_ipc_send_bulk_def ipu_buttress_ipc_validity_open_def Let_def
          Option.bind_eq_Some_conv)
    obtain ns vs where o: "length ns \<le> length msgs" "counts_ok BUTTRESS_IPC_CMD_SEND_RETRY ns"
        "exchanged d (repeated ns (map bm_cmd msgs)) s1 s2" "got (data_in d) s2 = got (data_in d) s1 @ vs"
        "r = Inr () \<longrightarrow> length ns = length msgs \<and> subseq (expected msgs) vs"
      using send_msgs_outcome [OF sm m1] by blast
    have m2: "mailboxes_set s2" by (rule exchanged_set [OF o(3) m1])
    have "n = 1 \<or> n = 2" if "n \<in> set ns" for n
      using o(2) that by (cases ns) (auto simp: counts_ok_def BUTTRESS_IPC_CMD_SEND_RETRY_def le_Suc_eq)
    then have "set ns \<subseteq> {1, 2}" by auto
    moreover obtain us where "got (data_in d) s1 = got (data_in d) s @ us" using 1 by (auto simp: exchanged_def)
    moreover have "subseq (expected msgs) (us @ vs)" if "subseq (expected msgs) vs"
      using that by (rule list_emb_append2)
    ultimately show ?thesis
      using 1 o out regs(1) [OF assms(2)] regs(1) [OF m2]
      by (intro conjI exI [of _ ns] exI [of _ "us @ vs"] exI [of _ "[PEER_DEASSERTED_REG_VALID_REQ]"])
        (auto simp add: exchanged_def s' ipu_buttress_ipc_validity_close_def repeated_def expected_def)
  qed
qed


section \<open>The reset handshake: properties\<close>

lemma rd_trace: "rd H r s = (v, s') \<Longrightarrow> is_trace s' = is_trace s @ [Rd r v]"
  by (auto simp: rd_def split: prod.splits)

lemma wr_trace [simp]: "is_trace (wr H r v s) = is_trace s @ [Wr r v]"
  by (simp add: wr_def)

definition handshake_done :: "nat \<Rightarrow> nat \<Rightarrow> nat \<Rightarrow> access list \<Rightarrow> bool" where
  "handshake_done csr_in csr_out db0_in tr \<longleftrightarrow> (\<exists>tr' v w. v \<in> {EXIT, EXIT OR QUERY} \<and> w AND QUERY = 0 \<and>
     tr = tr' @ [Rd csr_in v, Wr csr_in EXIT, Wr db0_in 0, Wr csr_in csr_in_clr, Wr csr_out EXIT, Rd csr_in w])"

lemma handshake_done_append: "handshake_done a b c tr \<Longrightarrow> handshake_done a b c (tr0 @ tr)"
  unfolding handshake_done_def by (metis append.assoc)

lemma reset_loop_outcome:
  assumes "reset_loop H d n s = (r, s')" "ipc_csr_in (get_ipc d s) = i" "ipc_csr_out (get_ipc d s) = j"
    "ipc_db0_in (get_ipc d s) = b"
  shows "\<exists>tr. is_trace s' = is_trace s @ tr \<and> length tr \<le> 6 * n \<and>
     (if r = Inr () then handshake_done i j b tr else r = Inl ETIMEDOUT)"
  using assms
proof (induction n arbitrary: s)
  case 0
  then show ?case by auto
next
  case (Suc n)
  obtain v t where t: "rd H i s = (v, t)" by fastforce
  have g: "get_ipc d t = get_ipc d s" "is_trace t = is_trace s @ [Rd i v]"
    using rd_frame [OF t] rd_trace [OF t] by simp_all
  have more: ?case if u: "reset_loop H d n u = (r, s')" "get_ipc d u = get_ipc d s"
      "is_trace u = is_trace s @ tr0" "length tr0 \<le> 6" for u tr0
  proof -
    obtain tr where "is_trace s' = is_trace u @ tr" "length tr \<le> 6 * n"
        "if r = Inr () then handshake_done i j b tr else r = Inl ETIMEDOUT"
      using Suc.IH [OF u(1)] u(2) Suc.prems(2-4) by auto
    then show ?thesis
      using u(3,4) by (intro exI [of _ "tr0 @ tr"]) (auto intro: handshake_done_append)
  qed
  consider (both) "v = (ENTRY OR EXIT) \<or> v = (ENTRY OR EXIT OR QUERY)"
    | (entry) "v = ENTRY \<or> v = (ENTRY OR QUERY)"
    | (exit) "v = EXIT \<or> v = (EXIT OR QUERY)"
    | (query) "v = QUERY"
    | (other) "\<not> (v = (ENTRY OR EXIT) \<or> v = (ENTRY OR EXIT OR QUERY))" "\<not> (v = ENTRY \<or> v = (ENTRY OR QUERY))"
        "\<not> (v = EXIT \<or> v = (EXIT OR QUERY))" "v \<noteq> QUERY"
    by blast
  then show ?case
  proof cases
    case both
    show ?thesis
      by (rule more [where u = "wr H j QUERY (wr H i (ENTRY OR EXIT) t)"])
        (use Suc.prems t g both in \<open>auto simp: Let_def\<close>)
  next
    case entry
    show ?thesis
      by (rule more [where u = "wr H j ENTRY (wr H i (ENTRY OR QUERY) t)"])
        (use Suc.prems t g entry in \<open>auto simp: Let_def ENTRY_def EXIT_def QUERY_def\<close>)
  next
    case query
    show ?thesis
      by (rule more [where u = "wr H j ENTRY (wr H i QUERY t)"])
        (use Suc.prems t g query in \<open>auto simp: Let_def ENTRY_def EXIT_def QUERY_def\<close>)
  next
    case other
    show ?thesis by (rule more [where u = t]) (use Suc.prems t g other in \<open>auto simp: Let_def\<close>)
  next
    case exit
    obtain w u where u: "rd H i (wr H j EXIT (wr H i csr_in_clr (wr H b 0 (wr H i EXIT t)))) = (w, u)" by fastforce
    have x: "reset_exit H d t = (w, u)" using u g Suc.prems(2-4) by (simp add: reset_exit_def Let_def)
    have tr: "is_trace u = is_trace s @ [Rd i v, Wr i EXIT, Wr b 0, Wr i csr_in_clr, Wr j EXIT, Rd i w]"
      "get_ipc d u = get_ipc d s"
      using rd_trace [OF u] rd_frame [OF u] g by simp_all
    have ne: "EXIT \<noteq> (ENTRY OR EXIT)" "EXIT \<noteq> (ENTRY OR EXIT OR QUERY)" "EXIT \<noteq> ENTRY" "EXIT \<noteq> (ENTRY OR QUERY)"
      "(EXIT OR QUERY) \<noteq> (ENTRY OR EXIT)" "(EXIT OR QUERY) \<noteq> (ENTRY OR EXIT OR QUERY)"
      "(EXIT OR QUERY) \<noteq> ENTRY" "(EXIT OR QUERY) \<noteq> (ENTRY OR QUERY)"
      by (simp_all add: ENTRY_def EXIT_def QUERY_def)
    have eq: "(r, s') = (if w AND QUERY \<noteq> 0 then reset_loop H d n u else (Inr (), u))"
      using Suc.prems t exit ne x by (auto simp: Let_def)
    show ?thesis
    proof (cases "w AND QUERY = 0")
      case True
      have "handshake_done i j b [Rd i v, Wr i EXIT, Wr b 0, Wr i csr_in_clr, Wr j EXIT, Rd i w]"
        unfolding handshake_done_def using True exit by (intro exI [of _ "[]"]) auto
      then show ?thesis
        using eq True tr by (intro exI [of _ "[Rd i v, Wr i EXIT, Wr b 0, Wr i csr_in_clr, Wr j EXIT, Rd i w]"]) simp
    next
      case False
      then show ?thesis using eq tr by (intro more [where u = u]) auto
    qed
  qed
qed

text \<open>
  C26: The reset handshake of a mailbox ends within its retries.  In secure mode it succeeds only
  when the peer announced the second phase, the driver then cleared the doorbell and every other bit and answered,
  and the peer did not query again; in every other case the result is a time-out.
\<close>

theorem ipc_reset_completes_handshake:
  assumes "ipu_buttress_ipc_reset H d s = (r, s')"
  shows "\<exists>tr. is_trace s' = is_trace s @ tr \<and> length tr \<le> 3 + 6 * 2000 \<and>
     (if \<not> is_secure_mode s then r = Inr () \<and> tr = []
      else if r = Inr () then
        \<exists>tr' v w. v \<in> {EXIT, EXIT OR QUERY} \<and> w AND QUERY = 0 \<and>
          tr = tr' @ [Rd (ipc_csr_in (get_ipc d s)) v, Wr (ipc_csr_in (get_ipc d s)) EXIT,
            Wr (ipc_db0_in (get_ipc d s)) 0, Wr (ipc_csr_in (get_ipc d s)) csr_in_clr,
            Wr (ipc_csr_out (get_ipc d s)) EXIT, Rd (ipc_csr_in (get_ipc d s)) w]
      else r = Inl ETIMEDOUT)"
proof (cases "is_secure_mode s")
  case False
  then show ?thesis using assms by (simp add: ipu_buttress_ipc_reset_def)
next
  case True
  let ?i = "ipc_csr_in (get_ipc d s)" and ?j = "ipc_csr_out (get_ipc d s)" and ?b = "ipc_db0_in (get_ipc d s)"
  obtain v t where t: "rd H ?i s = (v, t)" by fastforce
  let ?u = "wr H ?j ENTRY (wr H ?i v t)"
  have l: "reset_loop H d BUTTRESS_IPC_RESET_TIMEOUT ?u = (r, s')"
    using assms True t by (simp add: ipu_buttress_ipc_reset_def Let_def)
  have u: "get_ipc d ?u = get_ipc d s" "is_trace ?u = is_trace s @ [Rd ?i v, Wr ?i v, Wr ?j ENTRY]"
    using rd_frame [OF t] rd_trace [OF t] by simp_all
  obtain tr where tr: "is_trace s' = is_trace ?u @ tr" "length tr \<le> 6 * BUTTRESS_IPC_RESET_TIMEOUT"
      "if r = Inr () then handshake_done ?i ?j ?b tr else r = Inl ETIMEDOUT"
    using reset_loop_outcome [OF l] u(1) by metis
  show ?thesis
  proof (rule exI [of _ "[Rd ?i v, Wr ?i v, Wr ?j ENTRY] @ tr"], intro conjI)
    show "is_trace s' = is_trace s @ [Rd ?i v, Wr ?i v, Wr ?j ENTRY] @ tr" using tr(1) u(2) by simp
    show "length ([Rd ?i v, Wr ?i v, Wr ?j ENTRY] @ tr) \<le> 3 + 6 * 2000"
      using tr(2) by (simp add: BUTTRESS_IPC_RESET_TIMEOUT_def)
    have "handshake_done ?i ?j ?b ([Rd ?i v, Wr ?i v, Wr ?j ENTRY] @ tr)" if "r = Inr ()"
      using tr(3) that by (intro handshake_done_append) simp
    then show "if \<not> is_secure_mode s then r = Inr () \<and> [Rd ?i v, Wr ?i v, Wr ?j ENTRY] @ tr = []
      else if r = Inr () then
        \<exists>tr' v' w. v' \<in> {EXIT, EXIT OR QUERY} \<and> w AND QUERY = 0 \<and>
          [Rd ?i v, Wr ?i v, Wr ?j ENTRY] @ tr = tr' @ [Rd ?i v', Wr ?i EXIT, Wr ?b 0, Wr ?i csr_in_clr, Wr ?j EXIT, Rd ?i w]
      else r = Inl ETIMEDOUT"
      using True tr(3) unfolding handshake_done_def by simp
  qed
qed

section \<open>A run of the mailbox\<close>

text \<open>
  A peer that answers: the hardware state is the interrupt status and the last command; the command is
  also the response and the state of the security control.
\<close>

definition demo_hw :: "(u32 \<times> u32) hw_ops" where
  "demo_hw = \<lparr>
     hw_read = (\<lambda>r (p, c). (if r = 0x90 then p else if r = 0x308 \<or> r = 0x300 then c
        else if r = 0x30c then 0x10 else if r = 0x8000 then 0xb00710ad else 0, (p, c))),
     hw_write = (\<lambda>r v (p, c). if r = 0x9c then (p AND NOT v, c) else if r = 0x104 then (p, v) else (p, c)),
     hw_irqs = (\<lambda>_. [\<lambda>(p, c). (0x14, c)]),
     hw_polls = (\<lambda>_. 3),
     hw_pm_get = (\<lambda>h. (Inr (), h))\<rparr>"

definition no_ipc :: ipc where
  "no_ipc = \<lparr>ipc_send_complete = 0, ipc_recv_complete = 0, ipc_nack = 0, ipc_nack_mask = 0, ipc_recv_data = 0,
     ipc_csr_out = 0, ipc_csr_in = 0, ipc_db0_in = 0, ipc_db0_out = 0, ipc_data0_out = 0, ipc_data0_in = 0\<rparr>"

definition demo_isp :: "'h \<Rightarrow> 'h isp" where
  "demo_isp h = \<lparr>is_hw = h, is_trace = [], is_cse = cse_init no_ipc, is_ish = ish_init no_ipc,
     is_isys = None, is_psys = None, is_secure_mode = True, is_flr_done = False, is_pm_active = True,
     is_pm_usage = 0, is_mmu_pm_usage = 0, is_pkg_dir_dma_addr = 0x123456789, is_psys_base = 0,
     is_wdt_cached_value = 0, is_clk_plls = [False, False, False], is_clk_sensors = [False, False, False],
     is_files = []\<rparr>"

lemma demo_mailboxes: "mailboxes_set (demo_isp h)"
  by (simp add: mailboxes_set_def demo_isp_def cse_init_def ish_init_def ipc_regs_def cse_regs_def ish_regs_def)

lemmas demo_regs = BUTTRESS_REG_ISR_CLEAR_def BUTTRESS_REG_ISR_STATUS_def BUTTRESS_REG_IS_FREQ_CTL_def
  BUTTRESS_REG_PS_FREQ_CTL_def BUTTRESS_ISR_IS_IRQ_def BUTTRESS_ISR_PS_IRQ_def
  BUTTRESS_ISR_IPC_EXEC_DONE_BY_CSE_def BUTTRESS_ISR_IPC_EXEC_DONE_BY_ISH_def
  BUTTRESS_ISR_IPC_FROM_CSE_IS_WAITING_def BUTTRESS_ISR_IPC_FROM_ISH_IS_WAITING_def BUTTRESS_ISR_SAI_VIOLATION_def

lemma demo_rd:
  "is_hw s = (p, c) \<Longrightarrow> rd demo_hw r s = (let v = (if r = 0x90 then p else if r = 0x308 \<or> r = 0x300 then c
        else if r = 0x30c then 0x10 else if r = 0x8000 then 0xb00710ad else 0)
   in (v, s\<lparr>is_trace := is_trace s @ [Rd r v]\<rparr>))"
  by (simp add: rd_def demo_hw_def)

lemma demo_wr:
  "is_hw s = (p, c) \<Longrightarrow> wr demo_hw r v s = s\<lparr>is_hw := (if r = 0x9c then (p AND NOT v, c) else if r = 0x104 then (p, v) else (p, c)),
     is_trace := is_trace s @ [Wr r v]\<rparr>"
  by (simp add: wr_def demo_hw_def)

lemma demo_isr:
  assumes "is_hw s = (0x14, c)" "is_pm_active s" "\<not> is_flr_done s" "ipc_data0_in (is_cse s) = 0x308" "ipc_db0_in (is_cse s) = 0x304"
  shows "ipu_buttress_isr demo_hw s = Some (IRQ_HANDLED, s\<lparr>is_hw := (0, c), is_trace := is_trace s @
     [Rd 0x34 0, Rd 0x38 0, Rd 0x90 0x14, Wr 0x9c 0x14, Rd 0x308 c, Wr 0x304 0, Rd 0x90 0],
     is_cse := (is_cse s)\<lparr>ipc_recv_data := c, ipc_recv_complete := ipc_recv_complete (is_cse s) + 1,
       ipc_send_complete := ipc_send_complete (is_cse s) + 1\<rparr>\<rparr>)"
proof -
  have l: "isr_loop demo_hw 0x14 (IRQ_NONE, 0) t = Some ((IRQ_HANDLED, 0), t\<lparr>is_hw := (0, c), is_trace := is_trace t @
     [Wr 0x9c 0x14, Rd 0x308 c, Wr 0x304 0, Rd 0x90 0],
     is_cse := (is_cse t)\<lparr>ipc_recv_data := c, ipc_recv_complete := ipc_recv_complete (is_cse t) + 1,
       ipc_send_complete := ipc_send_complete (is_cse t) + 1\<rparr>\<rparr>)"
    if "is_hw t = (0x14, c)" "ipc_data0_in (is_cse t) = 0x308" "ipc_db0_in (is_cse t) = 0x304" for t
    using that
    by (subst isr_loop.simps)
      (simp add: isr_body_def isr_adevs_def isr_mailbox_def complete_recv_def complete_send_def ipu_buttress_ipc_recv_def
        demo_regs Let_def demo_rd demo_wr)
  show ?thesis using assms
    by (simp add: ipu_buttress_isr_def demo_regs Let_def demo_rd l pm_runtime_get_def pm_runtime_put_def)
qed


definition demo_ready :: "'h isp \<Rightarrow> bool" where
  "demo_ready s \<longleftrightarrow> is_pm_active s \<and> \<not> is_flr_done s \<and> mailboxes_set s"

lemma demo_ready_regs:
  assumes "demo_ready s"
  shows "ipc_data0_in (is_cse s) = 0x308" "ipc_db0_in (is_cse s) = 0x304" "ipc_data0_out (is_cse s) = 0x104"
    "ipc_db0_out (is_cse s) = 0x100" "ipc_csr_in (is_cse s) = 0x30c" "ipc_csr_out (is_cse s) = 0x108"
    "ipc_nack (is_cse s) = 0xf20" "ipc_nack_mask (is_cse s) = 0xffff"
  using assms by (simp_all add: demo_ready_def mailboxes_set_def ipc_regs_def cse_regs_def)

lemma demo_ready_settings: "settings s' = settings s \<Longrightarrow> demo_ready s' = demo_ready s"
  using settings_mailboxes [of s' s] by (simp add: demo_ready_def settings_def)

lemma demo_message:
  assumes "demo_ready s" "is_hw s = (0, c)"
    and "bm_expected_resp m = bm_cmd m" "bm_cmd m AND 0xffff \<noteq> 0xf20" "bm_require_resp m"
  shows "\<exists>t. send_msgs demo_hw IPU_BUTTRESS_IPC_CSE (m # ms) n s =
      send_msgs demo_hw IPU_BUTTRESS_IPC_CSE ms BUTTRESS_IPC_CMD_SEND_RETRY t \<and> demo_ready t \<and> is_hw t = (0, bm_cmd m) \<and>
      settings t = settings s"
proof -
  note regs = demo_ready_regs [OF assms(1)]
  let ?s = "put_cmd demo_hw IPU_BUTTRESS_IPC_CSE m s"
  obtain p where p: "?s = p" by simp
  have put: "is_hw p = (0, bm_cmd m)" "ipc_send_complete (is_cse p) = 0" "ipc_recv_complete (is_cse p) = 0"
      "settings p = settings s"
    using assms(2,5) regs unfolding p [symmetric]
    by (simp_all add: put_cmd_def reinit_completion_def Let_def demo_wr settings_def ipc_regs_def)
  have rp: "demo_ready p" using demo_ready_settings [OF put(4)] assms(1) by simp
  let ?q = "p\<lparr>is_hw := (0x14, bm_cmd m)\<rparr>"
  have "settings ?q = settings p" by (simp add: settings_def)
  then have rq: "demo_ready ?q" using demo_ready_settings rp by blast
  obtain u where u: "ipu_buttress_isr demo_hw ?q = Some (IRQ_HANDLED, u)" and
    hw: "is_hw u = (0, bm_cmd m)" "ipc_send_complete (is_cse u) = 1" "ipc_recv_complete (is_cse u) = 1"
      "ipc_recv_data (is_cse u) = bm_cmd m" "settings u = settings p"
    using demo_isr [of ?q "bm_cmd m"] demo_ready_regs(1,2) [OF rq] rq put
    by (simp add: demo_ready_def settings_def ipc_regs_def)
  let ?v = "take_completion IPU_BUTTRESS_IPC_CSE SEND_COMPLETE u"
  have w1: "wait_for_completion_timeout demo_hw IPU_BUTTRESS_IPC_CSE SEND_COMPLETE p = Some (True, ?v)"
    using put u hw by (simp add: wait_for_completion_timeout_def demo_hw_def)
  let ?t = "take_completion IPU_BUTTRESS_IPC_CSE RECV_COMPLETE ?v"
  have v: "ipc_recv_complete (is_cse ?v) = 1" using hw by (simp add: take_completion_def)
  have w2: "wait_for_completion_timeout demo_hw IPU_BUTTRESS_IPC_CSE RECV_COMPLETE ?v = Some (True, ?t)"
    using v by (simp add: wait_for_completion_timeout_def demo_hw_def)
  have t: "settings ?t = settings s" "is_hw ?t = (0, bm_cmd m)" "ipc_recv_data (is_cse ?t) = bm_cmd m"
    using hw put by (simp_all add: take_completion_def settings_def ipc_regs_def)
  have rt: "demo_ready ?t" using demo_ready_settings [OF t(1)] assms(1) by simp
  have "check_resp (is_cse ?t) m = Inr ()"
    using demo_ready_regs(7,8) [OF rt] t assms(3,4) by (simp add: check_resp_def)
  then have "send_msgs demo_hw IPU_BUTTRESS_IPC_CSE (m # ms) n s =
      send_msgs demo_hw IPU_BUTTRESS_IPC_CSE ms BUTTRESS_IPC_CMD_SEND_RETRY ?t"
    using w1 w2 p assms(5) by simp
  then show ?thesis using rt t by blast
qed

lemma poll_first:
  assumes "rd H r s = (v, t)" "P v"
  shows "readl_poll_timeout H r P n s = (Inr (), v, t)"
  using assms by (cases "hw_polls H n") (simp_all add: readl_poll_timeout_def)

lemma demo_send_bulk:
  assumes "demo_ready s" "is_hw s = (0, c)"
    and "\<forall>m \<in> set msgs. bm_expected_resp m = bm_cmd m \<and> bm_cmd m AND 0xffff \<noteq> 0xf20 \<and> bm_require_resp m"
  shows "\<exists>t. ipu_buttress_ipc_send_bulk demo_hw IPU_BUTTRESS_IPC_CSE msgs s = Some (Inr (), t) \<and> demo_ready t \<and>
     is_hw t = (0, last (c # map bm_cmd msgs)) \<and> settings t = settings s"
proof -
  have send: "\<exists>t. send_msgs demo_hw IPU_BUTTRESS_IPC_CSE msgs n s = Some (Inr (), t) \<and> demo_ready t \<and>
     is_hw t = (0, last (c # map bm_cmd msgs)) \<and> settings t = settings s"
    if "demo_ready s" "is_hw s = (0, c)" for n s c
    using assms(3) that
  proof (induction msgs arbitrary: n s c)
    case (Cons m ms)
    then obtain t where t: "send_msgs demo_hw IPU_BUTTRESS_IPC_CSE (m # ms) n s =
      send_msgs demo_hw IPU_BUTTRESS_IPC_CSE ms BUTTRESS_IPC_CMD_SEND_RETRY t" "demo_ready t" "is_hw t = (0, bm_cmd m)"
      "settings t = settings s"
      using demo_message [of s c m ms n] by auto
    show ?case using Cons.IH [OF _ t(2,3), of BUTTRESS_IPC_CMD_SEND_RETRY] Cons.prems(1) t by auto
  qed simp
  note regs = demo_ready_regs [OF assms(1)]
  let ?s0 = "wr demo_hw 0x108 PEER_ASSERTED_REG_VALID_REQ s"
  have s0: "is_hw ?s0 = (0, c)" "settings ?s0 = settings s" using assms(2) by (simp_all add: demo_wr settings_def)
  let ?s1 = "?s0\<lparr>is_trace := is_trace ?s0 @ [Rd 0x30c 0x10]\<rparr>"
  have s1: "settings ?s1 = settings s" "is_hw ?s1 = (0, c)" using s0 by (simp_all add: settings_def)
  have "readl_poll_timeout demo_hw 0x30c (\<lambda>v. v AND PEER_ACKED_REG_VALID \<noteq> 0) BUTTRESS_IPC_VALIDITY_TIMEOUT ?s0 =
      (Inr (), 0x10, ?s1)"
    by (rule poll_first) (simp_all add: demo_rd [OF s0(1)] PEER_ACKED_REG_VALID_def)
  then have opn: "ipu_buttress_ipc_validity_open demo_hw IPU_BUTTRESS_IPC_CSE s = (Inr (), ?s1)"
    using regs by (simp add: ipu_buttress_ipc_validity_open_def Let_def)
  have r1: "demo_ready ?s1" using demo_ready_settings [OF s1(1)] assms(1) by simp
  obtain t where t: "send_msgs demo_hw IPU_BUTTRESS_IPC_CSE msgs BUTTRESS_IPC_CMD_SEND_RETRY ?s1 = Some (Inr (), t)"
      "demo_ready t" "is_hw t = (0, last (c # map bm_cmd msgs))" "settings t = settings ?s1"
    using send [OF r1 s1(2)] by blast
  let ?t = "ipu_buttress_ipc_validity_close demo_hw IPU_BUTTRESS_IPC_CSE t"
  have "settings ?t = settings s" using t(4) s1(1) by (simp add: ipu_buttress_ipc_validity_close_def)
  moreover have "is_hw ?t = is_hw t"
    using t(3) demo_ready_regs(6) [OF t(2)] by (simp add: ipu_buttress_ipc_validity_close_def demo_wr)
  ultimately show ?thesis
    using opn t demo_ready_settings [of ?t s] assms(1) by (auto simp: ipu_buttress_ipc_send_bulk_def)
qed


lemma demo_isp_ready: "demo_ready (demo_isp h)" "is_hw (demo_isp h) = h"
  using demo_mailboxes [of h] by (simp_all add: demo_ready_def demo_isp_def)

definition demo_bulk :: "bulk_msg list" where
  "demo_bulk = [\<lparr>bm_cmd = 1, bm_expected_resp = 1, bm_require_resp = True, bm_cmd_size = 1\<rparr>,
     \<lparr>bm_cmd = 2, bm_expected_resp = 2, bm_require_resp = True, bm_cmd_size = 1\<rparr>]"


definition demo_reset :: "unit hw_ops" where
  "demo_reset = \<lparr>hw_read = (\<lambda>_ h. (2, h)), hw_write = (\<lambda>_ _ h. h), hw_irqs = (\<lambda>_. []), hw_polls = (\<lambda>_. 0),
     hw_pm_get = (\<lambda>h. (Inr (), h))\<rparr>"

lemma demo_reset_first: "0 < n \<Longrightarrow> fst (reset_loop demo_reset d n s) = Inr ()"
  by (cases n) (simp_all add: demo_reset_def rd_def wr_def Let_def reset_exit_def ENTRY_def EXIT_def QUERY_def)

lemma demo_reset_runs: "fst (ipu_buttress_ipc_reset demo_reset IPU_BUTTRESS_IPC_CSE (demo_isp ())) = Inr ()"
  by (simp add: ipu_buttress_ipc_reset_def Let_def BUTTRESS_IPC_RESET_TIMEOUT_def demo_reset_first split_beta demo_isp_def)

theorem ipc_reset_completes_handshake_witness:
  "\<exists>s' tr v w. is_trace s' = tr @ [Rd 0x30c v, Wr 0x30c EXIT, Wr 0x304 0, Wr 0x30c csr_in_clr, Wr 0x108 EXIT, Rd 0x30c w] \<and>
     ipu_buttress_ipc_reset demo_reset IPU_BUTTRESS_IPC_CSE (demo_isp ()) = (Inr (), s')"
proof -
  obtain s' where s': "ipu_buttress_ipc_reset demo_reset IPU_BUTTRESS_IPC_CSE (demo_isp ()) = (Inr (), s')"
    using demo_reset_runs by (metis prod.collapse)
  have "is_secure_mode (demo_isp ())" "ipc_csr_in (get_ipc IPU_BUTTRESS_IPC_CSE (demo_isp ())) = 0x30c"
    "ipc_db0_in (get_ipc IPU_BUTTRESS_IPC_CSE (demo_isp ())) = 0x304" "is_trace (demo_isp ()) = []"
    "ipc_csr_out (get_ipc IPU_BUTTRESS_IPC_CSE (demo_isp ())) = 0x108"
    by (simp_all add: demo_isp_def cse_init_def)
  then obtain tr v w where
      "is_trace s' = tr @ [Rd 0x30c v, Wr 0x30c EXIT, Wr 0x304 0, Wr 0x30c csr_in_clr, Wr 0x108 EXIT, Rd 0x30c w]"
    using ipc_reset_completes_handshake [OF s'] by (simp del: insert_iff) blast
  then show ?thesis using s' by blast
qed

end
