(* ===== verification/ButtressBoot.thy ===== *)
theory ButtressBoot
  imports ButtressIpc
begin

text \<open>
  What the buttress is used for, \<^verbatim>\<open>ipu-buttress.c\<close>: secure mode and the authentication of the firmware by the
  security engine, the time stamp counter, the sensor clocks, the firmware image, and bringing
  the whole part up and down.
\<close>

section \<open>Secure mode\<close>

definition BUTTRESS_REG_SECURITY_CTL :: nat where "BUTTRESS_REG_SECURITY_CTL = 0x300"
definition FW_SECURE_MODE :: u32 where "FW_SECURE_MODE = push_bit 16 1"
definition FW_SETUP_MASK :: u32 where "FW_SETUP_MASK = 0x1f"
definition FW_SETUP_DONE :: u32 where "FW_SETUP_DONE = 0x1"
definition AUTH_DONE :: u32 where "AUTH_DONE = 0x2"
definition AUTH_FAILED :: u32 where "AUTH_FAILED = 0x8"

text \<open>The retries: the register is written again until it reads back as written.\<close>

fun secure_retry :: "'h hw_ops \<Rightarrow> u32 \<Rightarrow> nat \<Rightarrow> 'h isp \<Rightarrow> 'h isp" where
  "secure_retry H val 0 s = s"
| "secure_retry H val (Suc retry) s =
     (case rd H BUTTRESS_REG_SECURITY_CTL s of (read, s) \<Rightarrow>
        if read = val then s else secure_retry H val retry (wr H BUTTRESS_REG_SECURITY_CTL val s))"

text \<open>\<^verbatim>\<open>val = read |= \<dots>\<close> stores the new value in \<^verbatim>\<open>read\<close> as well, which the comparison then reads.\<close>

definition ipu_buttress_set_secure_mode :: "'h hw_ops \<Rightarrow> bool \<Rightarrow> 'h isp \<Rightarrow> 'h isp" where
  "ipu_buttress_set_secure_mode H secure_mode_enable s =
     (case rd H BUTTRESS_REG_SECURITY_CTL s of (read, s) \<Rightarrow>
      let (val, read) = (if secure_mode_enable then (read OR FW_SECURE_MODE, read OR FW_SECURE_MODE)
                         else (read AND NOT FW_SECURE_MODE, read))
      in if val = read then s
         else secure_retry H val 100
           (wr H BUTTRESS_REG_SECURITY_CTL val (wr H BUTTRESS_REG_SECURITY_CTL val s)))"

definition ipu_buttress_get_secure_mode :: "'h hw_ops \<Rightarrow> 'h isp \<Rightarrow> bool \<times> 'h isp" where
  "ipu_buttress_get_secure_mode H s =
     (case rd H BUTTRESS_REG_SECURITY_CTL s of (val, s) \<Rightarrow> (val AND FW_SECURE_MODE \<noteq> 0, s))"

section \<open>Authentication\<close>

definition BUTTRESS_REG_FW_RESET_CTL :: nat where "BUTTRESS_REG_FW_RESET_CTL = 0x30"
definition FW_RESET_CTL_START :: u32 where "FW_RESET_CTL_START = 0x1"
definition FW_RESET_CTL_DONE :: u32 where "FW_RESET_CTL_DONE = 0x2"
definition BUTTRESS_CSE_FWRESET_TIMEOUT :: nat where "BUTTRESS_CSE_FWRESET_TIMEOUT = 100000"
definition BUTTRESS_CSE_BOOTLOAD_TIMEOUT :: nat where "BUTTRESS_CSE_BOOTLOAD_TIMEOUT = 5000000"
definition BUTTRESS_CSE_AUTHENTICATE_TIMEOUT :: nat where "BUTTRESS_CSE_AUTHENTICATE_TIMEOUT = 10000000"
definition BUTTRESS_REG_FW_SOURCE_BASE_LO :: nat where "BUTTRESS_REG_FW_SOURCE_BASE_LO = 0x78"
definition BUTTRESS_REG_FW_SOURCE_BASE_HI :: nat where "BUTTRESS_REG_FW_SOURCE_BASE_HI = 0x7c"
definition IPC_BOOT_LOAD :: u32 where "IPC_BOOT_LOAD = 1"
definition IPC_BOOT_LOAD_DONE :: u32 where "IPC_BOOT_LOAD_DONE = 1"
definition IPC_AUTH_RUN :: u32 where "IPC_AUTH_RUN = 2"
definition IPC_AUTH_RUN_DONE :: u32 where "IPC_AUTH_RUN_DONE = 2"
definition BOOTLOADER_STATUS_OFFSET :: nat where "BOOTLOADER_STATUS_OFFSET = 0x8000"
definition BOOTLOADER_MAGIC_KEY :: u32 where "BOOTLOADER_MAGIC_KEY = 0xb00710ad"

definition ipu4_buttress_auth_done :: "'h hw_ops \<Rightarrow> 'h isp \<Rightarrow> bool \<times> 'h isp" where
  "ipu4_buttress_auth_done H s =
     (if \<not> is_secure_mode s then (True, s)
      else case rd H BUTTRESS_REG_SECURITY_CTL s of (val, s) \<Rightarrow> (val AND FW_SETUP_MASK = AUTH_DONE, s))"

definition ipu_buttress_reset_authentication :: "'h hw_ops \<Rightarrow> 'h isp \<Rightarrow> unit result \<times> 'h isp" where
  "ipu_buttress_reset_authentication H s =
     (if \<not> is_secure_mode s then (Inr (), s)
      else
        let s = wr H BUTTRESS_REG_FW_RESET_CTL FW_RESET_CTL_START s in
        case readl_poll_timeout H BUTTRESS_REG_FW_RESET_CTL (\<lambda>v. v AND FW_RESET_CTL_DONE \<noteq> 0)
               BUTTRESS_CSE_FWRESET_TIMEOUT s of (ret, _, s) \<Rightarrow>
          (case ret of
             Inl e \<Rightarrow> (Inl e, s)
           | Inr _ \<Rightarrow> (Inr (), wr H BUTTRESS_REG_FW_RESET_CTL 0 s)))"

text \<open>
  Both steps of the authentication end by polling for their own state or the failed one, and then
  read the register once more to tell them apart.
\<close>

definition security_wait :: "'h hw_ops \<Rightarrow> u32 \<Rightarrow> nat \<Rightarrow> 'h isp \<Rightarrow> unit result \<times> 'h isp" where
  "security_wait H state tout s =
     (case readl_poll_timeout H BUTTRESS_REG_SECURITY_CTL
             (\<lambda>v. v AND FW_SETUP_MASK = state \<or> v AND FW_SETUP_MASK = AUTH_FAILED) tout s of (ret, _, s) \<Rightarrow>
        (case ret of
           Inl e \<Rightarrow> (Inl e, s)
         | Inr _ \<Rightarrow> (case rd H BUTTRESS_REG_SECURITY_CTL s of (data, s) \<Rightarrow>
             (if data AND FW_SETUP_MASK = AUTH_FAILED then Inl EINVAL else Inr (), s))))"

definition auth_run :: "'h hw_ops \<Rightarrow> 'h isp \<Rightarrow> (unit result \<times> 'h isp) option" where
  "auth_run H s = do {
     (rval, s) \<leftarrow> ipu_buttress_ipc_send H IPU_BUTTRESS_IPC_CSE IPC_AUTH_RUN 1 True IPC_AUTH_RUN_DONE s;
     Some (case rval of
         Inl e \<Rightarrow> (Inl e, s)
       | Inr _ \<Rightarrow> security_wait H AUTH_DONE BUTTRESS_CSE_AUTHENTICATE_TIMEOUT s)
   }"

definition boot_load :: "'h hw_ops \<Rightarrow> 'h isp \<Rightarrow> (unit result \<times> 'h isp) option" where
  "boot_load H s = do {
     (rval, s) \<leftarrow> ipu_buttress_ipc_send H IPU_BUTTRESS_IPC_CSE IPC_BOOT_LOAD 1 True IPC_BOOT_LOAD_DONE s;
     Some (case rval of
         Inl e \<Rightarrow> (Inl e, s)
       | Inr _ \<Rightarrow>
          (case security_wait H FW_SETUP_DONE BUTTRESS_CSE_BOOTLOAD_TIMEOUT s of (rval, s) \<Rightarrow>
             (case rval of
                Inl e \<Rightarrow> (Inl e, s)
              | Inr _ \<Rightarrow>
                 (case readl_poll_timeout H (is_psys_base s + BOOTLOADER_STATUS_OFFSET)
                         (\<lambda>v. v = BOOTLOADER_MAGIC_KEY) BUTTRESS_CSE_BOOTLOAD_TIMEOUT s of (rval, _, s) \<Rightarrow>
                    (rval, s)))))
   }"

definition authenticate_powered :: "'h hw_ops \<Rightarrow> 'h isp \<Rightarrow> (unit result \<times> 'h isp) option" where
  "authenticate_powered H s =
     (case ipu4_buttress_auth_done H s of (auth_done, s) \<Rightarrow>
        if auth_done then Some (Inr (), s)
        else
          let s = wr H BUTTRESS_REG_FW_SOURCE_BASE_LO (ucast (is_pkg_dir_dma_addr s)) s;
              s = wr H BUTTRESS_REG_FW_SOURCE_BASE_HI (ucast (drop_bit 32 (is_pkg_dir_dma_addr s))) s
          in do {
            (rval, s) \<leftarrow> boot_load H s;
            (case rval of Inl e \<Rightarrow> Some (Inl e, s) | Inr _ \<Rightarrow> auth_run H s)
          })"

definition mmu_pm_put :: "'h isp \<Rightarrow> 'h isp" where
  "mmu_pm_put s = s\<lparr>is_mmu_pm_usage := is_mmu_pm_usage s - 1\<rparr>"

text \<open>\<^verbatim>\<open>pm_runtime_get_sync\<close> counts the use even when it fails.\<close>

definition ipu_buttress_authenticate :: "'h hw_ops \<Rightarrow> 'h isp \<Rightarrow> (unit result \<times> 'h isp) option" where
  "ipu_buttress_authenticate H s =
     (if \<not> is_secure_mode s then Some (Inr (), s)
      else case hw_pm_get H (is_hw s) of (rval, h) \<Rightarrow>
        let s = s\<lparr>is_hw := h, is_mmu_pm_usage := is_mmu_pm_usage s + 1\<rparr> in do {
          (rval, s) \<leftarrow> (case rval of Inl e \<Rightarrow> Some (Inl e, s) | Inr _ \<Rightarrow> authenticate_powered H s);
          Some (rval, mmu_pm_put s)
        })"

section \<open>The firmware image\<close>

text \<open>
  What is allocated while the image is mapped: the array of its pages, the scatter list, the DMA
  mapping.  The kernel's allocators and \<^verbatim>\<open>vmalloc_to_page\<close> are arguments.
\<close>

record fw_map =
  fm_pages :: "nat list option"
  fm_sgt :: "nat list option"
  fm_mapped :: bool
  fm_synced :: bool

definition FW_PAGE_SIZE :: nat where "FW_PAGE_SIZE = 4096"

definition n_pages :: "nat \<Rightarrow> nat" where
  "n_pages sz = (sz + FW_PAGE_SIZE - 1) div FW_PAGE_SIZE"

fun image_pages :: "(nat \<Rightarrow> nat option) \<Rightarrow> nat \<Rightarrow> nat \<Rightarrow> nat list option" where
  "image_pages vmalloc_to_page addr 0 = Some []"
| "image_pages vmalloc_to_page addr (Suc n) =
     (case vmalloc_to_page addr of
        None \<Rightarrow> None
      | Some p \<Rightarrow> (case image_pages vmalloc_to_page (addr + FW_PAGE_SIZE) n of None \<Rightarrow> None | Some ps \<Rightarrow> Some (p # ps)))"

definition ipu_buttress_map_fw_image ::
  "bool \<Rightarrow> (nat \<Rightarrow> nat option) \<Rightarrow> bool \<Rightarrow> unit result \<Rightarrow> nat \<Rightarrow> nat \<Rightarrow> fw_map \<Rightarrow> unit result \<times> fw_map" where
  "ipu_buttress_map_fw_image kmalloc_ok vmalloc_to_page sg_ok dma_map addr sz m =
     (if \<not> kmalloc_ok then (Inl ENOMEM, m)
      else
        let m = m\<lparr>fm_pages := Some []\<rparr>;
            (rval, m) =
              (case image_pages vmalloc_to_page addr (n_pages sz) of
                 None \<Rightarrow> (Inl ENODEV, m)
               | Some ps \<Rightarrow>
                   let m = m\<lparr>fm_pages := Some ps\<rparr> in
                   if \<not> sg_ok then (Inl ENOMEM, m)
                   else
                     let m = m\<lparr>fm_sgt := Some ps\<rparr> in
                     (case dma_map of
                        Inl _ \<Rightarrow> (Inl ENOMEM, m\<lparr>fm_sgt := None\<rparr>)
                      | Inr _ \<Rightarrow> (Inr (), m\<lparr>fm_mapped := True, fm_synced := True\<rparr>)))
        in (rval, m\<lparr>fm_pages := None\<rparr>))"

definition ipu_buttress_unmap_fw_image :: "fw_map \<Rightarrow> unit result \<times> fw_map" where
  "ipu_buttress_unmap_fw_image m = (Inr (), m\<lparr>fm_mapped := False, fm_synced := False, fm_sgt := None\<rparr>)"

section \<open>The time stamp counter\<close>

definition BUTTRESS_REG_FABRIC_CMD :: nat where "BUTTRESS_REG_FABRIC_CMD = 0x88"
definition FABRIC_CMD_START_TSC_SYNC :: u32 where "FABRIC_CMD_START_TSC_SYNC = 1"
definition BUTTRESS_REG_TSW_CTL :: nat where "BUTTRESS_REG_TSW_CTL = 0x120"
definition TSW_CTL_SOFT_RESET :: u32 where "TSW_CTL_SOFT_RESET = 0x100"
definition BUTTRESS_REG_TSC_LO :: nat where "BUTTRESS_REG_TSC_LO = 0x164"
definition BUTTRESS_REG_TSC_HI :: nat where "BUTTRESS_REG_TSC_HI = 0x168"
definition HH_STATUS_SHIFT :: nat where "HH_STATUS_SHIFT = 12"
definition HH_STATUS_MASK :: u32 where "HH_STATUS_MASK = push_bit 12 3"
definition HH_STATE_DONE :: u32 where "HH_STATE_DONE = 2"
definition HH_STATE_ERR :: u32 where "HH_STATE_ERR = 3"
definition BUTTRESS_TSC_SYNC_TIMEOUT :: nat where "BUTTRESS_TSC_SYNC_TIMEOUT = 5000"
definition BUTTRESS_TSC_SYNC_RESET_TRIAL_MAX :: nat where "BUTTRESS_TSC_SYNC_RESET_TRIAL_MAX = 10"
definition IPU_BUTTRESS_TSC_LIMIT :: u32 where "IPU_BUTTRESS_TSC_LIMIT = 500"
definition IPU_BUTTRESS_TSC_RETRY :: nat where "IPU_BUTTRESS_TSC_RETRY = 10"

definition ipu_buttress_send_tsc_request :: "'h hw_ops \<Rightarrow> 'h isp \<Rightarrow> unit result \<times> 'h isp" where
  "ipu_buttress_send_tsc_request H s =
     (let s = wr H BUTTRESS_REG_FABRIC_CMD FABRIC_CMD_START_TSC_SYNC s in
      case rd H BUTTRESS_REG_PWR_STATE s of (val, s) \<Rightarrow>
        if drop_bit HH_STATUS_SHIFT (val AND HH_STATUS_MASK) = HH_STATE_ERR then (Inl EINVAL, s)
        else case readl_poll_timeout H BUTTRESS_REG_PWR_STATE
               (\<lambda>v. drop_bit HH_STATUS_SHIFT (v AND HH_STATUS_MASK) = HH_STATE_DONE)
               BUTTRESS_TSC_SYNC_TIMEOUT s of (ret, _, s) \<Rightarrow> (ret, s))"

definition tsw_soft_reset :: "'h hw_ops \<Rightarrow> 'h isp \<Rightarrow> 'h isp" where
  "tsw_soft_reset H s =
     (case rd H BUTTRESS_REG_TSW_CTL s of (val, s) \<Rightarrow>
        let val = val OR TSW_CTL_SOFT_RESET;
            s = wr H BUTTRESS_REG_TSW_CTL val s;
            val = val AND NOT TSW_CTL_SOFT_RESET
        in wr H BUTTRESS_REG_TSW_CTL val s)"

fun tsc_trials :: "'h hw_ops \<Rightarrow> nat \<Rightarrow> 'h isp \<Rightarrow> unit result \<times> 'h isp" where
  "tsc_trials H 0 s = (Inl ETIMEDOUT, s)"
| "tsc_trials H (Suc n) s =
     (case ipu_buttress_send_tsc_request H s of (ret, s) \<Rightarrow>
        if ret = Inl ETIMEDOUT then tsc_trials H n (tsw_soft_reset H s) else (ret, s))"

definition ipu4_buttress_start_tsc_sync :: "'h hw_ops \<Rightarrow> 'h isp \<Rightarrow> unit result \<times> 'h isp" where
  "ipu4_buttress_start_tsc_sync H s = tsc_trials H BUTTRESS_TSC_SYNC_RESET_TRIAL_MAX s"

text \<open>
  The counter is read in two halves, the lower one three times: the value counts only when
  the upper half stood still and the lower ones are close together.  \<open>retry\<close> is the number of
  further attempts.
\<close>

fun tsc_reads :: "'h hw_ops \<Rightarrow> nat \<Rightarrow> 'h isp \<Rightarrow> u64 result \<times> 'h isp" where
  "tsc_reads H retry s =
     (case rd H BUTTRESS_REG_TSC_HI s of (tsc_hi, s) \<Rightarrow>
      case rd H BUTTRESS_REG_TSC_LO s of (tsc_lo_1, s) \<Rightarrow>
      case rd H BUTTRESS_REG_TSC_LO s of (tsc_lo_2, s) \<Rightarrow>
      case rd H BUTTRESS_REG_TSC_LO s of (tsc_lo_3, s) \<Rightarrow>
      case rd H BUTTRESS_REG_TSC_HI s of (tsc_chk, s) \<Rightarrow>
        if tsc_chk = tsc_hi \<and> tsc_lo_2 \<noteq> 0 \<and> tsc_lo_2 - tsc_lo_1 \<le> IPU_BUTTRESS_TSC_LIMIT \<and>
           tsc_lo_3 - tsc_lo_2 \<le> IPU_BUTTRESS_TSC_LIMIT
        then (Inr (push_bit 32 (ucast tsc_hi) OR ucast tsc_lo_2), s)
        else (case retry of
            Suc retry \<Rightarrow> tsc_reads H retry s
          | 0 \<Rightarrow> (Inl (if tsc_chk = 0 \<and> tsc_lo_2 = 0 then EIO else EINVAL), s)))"

declare tsc_reads.simps [simp del]

definition ipu4_buttress_tsc_read :: "'h hw_ops \<Rightarrow> 'h isp \<Rightarrow> u64 result \<times> 'h isp" where
  "ipu4_buttress_tsc_read H s = tsc_reads H IPU_BUTTRESS_TSC_RETRY s"

definition ipu4_buttress_tsc_ticks_to_ns :: "u64 \<Rightarrow> u64" where
  "ipu4_buttress_tsc_ticks_to_ns ticks = (ticks * 10000) div 192"

section \<open>The sensor clocks\<close>

definition IPU_BUTTRESS_NUM_OF_SENS_CKS :: nat where "IPU_BUTTRESS_NUM_OF_SENS_CKS = 3"
definition NUM_PLLS :: nat where "NUM_PLLS = 3"
definition BUTTRESS_REG_SENSOR_FREQ_CTL :: nat where "BUTTRESS_REG_SENSOR_FREQ_CTL = 0x16c"
definition BUTTRESS_REG_SENSOR_CLK_CTL :: nat where "BUTTRESS_REG_SENSOR_CLK_CTL = 0x170"
definition OSC_OUT_FREQ_DEFAULT :: "nat \<Rightarrow> u32" where "OSC_OUT_FREQ_DEFAULT i = push_bit (i * 10) 0x1b"
definition OSC_OUT_FREQ_SHIFT :: "nat \<Rightarrow> nat" where "OSC_OUT_FREQ_SHIFT i = i * 10"
definition OSC_OUT_FREQ_MASK :: "nat \<Rightarrow> u32" where "OSC_OUT_FREQ_MASK i = push_bit (i * 10) 0x1ff"
definition OSC_CLK_OUT_EN :: "nat \<Rightarrow> u32" where "OSC_CLK_OUT_EN i = push_bit (i * 2) 1"
definition OSC_CLK_OUT_SEL :: "nat \<Rightarrow> u32" where "OSC_CLK_OUT_SEL i = push_bit (i * 2 + 1) 1"

definition sensor_clk_freqs :: "(u64 \<times> u32) list" where
  "sensor_clk_freqs =
     [(6750000, 0x176), (8000000, 0x164), (9600000, 0x2), (12000000, 0x1b2), (13600000, 0x1ac),
      (14400000, 0x1cc), (15800000, 0x1a6), (16200000, 0xca), (17300000, 0x12e), (18600000, 0x1c0),
      (19200000, 0x0), (24000000, 0xb2), (26000000, 0xae), (27000000, 0x196)]"

definition pll_value :: "nat \<Rightarrow> u64 \<Rightarrow> u32 \<Rightarrow> u32" where
  "pll_value i rate val =
     (let val = (val OR BUTTRESS_FREQ_CTL_START) AND NOT (OSC_OUT_FREQ_MASK i) in
      case map_of sensor_clk_freqs rate of
        Some v \<Rightarrow> val OR push_bit (OSC_OUT_FREQ_SHIFT i) v
      | None \<Rightarrow> val OR OSC_OUT_FREQ_DEFAULT i)"

definition ipu_buttress_clk_pll_enable :: "'h hw_ops \<Rightarrow> nat \<Rightarrow> u64 \<Rightarrow> 'h isp \<Rightarrow> 'h isp" where
  "ipu_buttress_clk_pll_enable H i rate s =
     (case rd H BUTTRESS_REG_SENSOR_FREQ_CTL s of (val, s) \<Rightarrow>
        wr H BUTTRESS_REG_SENSOR_FREQ_CTL (pll_value i rate val) s)"

definition ipu_buttress_clk_pll_disable :: "'h hw_ops \<Rightarrow> 'h isp \<Rightarrow> 'h isp" where
  "ipu_buttress_clk_pll_disable H s =
     (case rd H BUTTRESS_REG_SENSOR_CLK_CTL s of (val, s) \<Rightarrow>
        if \<exists>i \<in> set [0..<IPU_BUTTRESS_NUM_OF_SENS_CKS]. val AND OSC_CLK_OUT_EN i \<noteq> 0 then s
        else case rd H BUTTRESS_REG_SENSOR_FREQ_CTL s of (val, s) \<Rightarrow>
          wr H BUTTRESS_REG_SENSOR_FREQ_CTL (val AND NOT BUTTRESS_FREQ_CTL_START) s)"

definition ipu_buttress_clk_enable :: "'h hw_ops \<Rightarrow> nat \<Rightarrow> 'h isp \<Rightarrow> 'h isp" where
  "ipu_buttress_clk_enable H i s =
     (case rd H BUTTRESS_REG_SENSOR_CLK_CTL s of (val, s) \<Rightarrow>
        wr H BUTTRESS_REG_SENSOR_CLK_CTL (val OR OSC_CLK_OUT_EN i OR OSC_CLK_OUT_SEL i) s)"

definition ipu_buttress_clk_disable :: "'h hw_ops \<Rightarrow> nat \<Rightarrow> 'h isp \<Rightarrow> 'h isp" where
  "ipu_buttress_clk_disable H i s =
     (case rd H BUTTRESS_REG_SENSOR_CLK_CTL s of (val, s) \<Rightarrow>
        wr H BUTTRESS_REG_SENSOR_CLK_CTL (val AND NOT (OSC_CLK_OUT_EN i)) s)"

text \<open>
  The reference the clock framework takes on the input system while a clock is prepared;
  \<open>usage\<close> is its use count, \<open>get\<close> what \<^verbatim>\<open>pm_runtime_get_sync\<close> returns.
\<close>

definition ipu_buttress_clk_pll_prepare :: "unit result \<Rightarrow> int \<Rightarrow> unit result \<times> int" where
  "ipu_buttress_clk_pll_prepare get usage = (get, usage + 1)"

definition ipu_buttress_clk_pll_unprepare :: "int \<Rightarrow> int" where
  "ipu_buttress_clk_pll_unprepare usage = usage - 1"

text \<open>
  \<^verbatim>\<open>round_rate\<close>: the difference is formed in \<^verbatim>\<open>unsigned long\<close>, read as \<^verbatim>\<open>long\<close>, and its
  absolute value compared with the best so far.
\<close>

definition abs_diff :: "u64 \<Rightarrow> u64 \<Rightarrow> u64" where
  "abs_diff a b = (let d = a - b in if sint d < 0 then - d else d)"

fun round_from :: "u64 \<Rightarrow> u64 \<Rightarrow> u64 \<Rightarrow> (u64 \<times> u32) list \<Rightarrow> u64" where
  "round_from rate best best_rate [] = best_rate"
| "round_from rate best best_rate ((f, _) # fs) =
     (if f = rate then rate
      else if abs_diff f rate < best then round_from rate (abs_diff f rate) f fs
      else round_from rate best best_rate fs)"

definition ipu_buttress_clk_round_rate :: "u64 \<Rightarrow> u64" where
  "ipu_buttress_clk_round_rate rate = round_from rate (- 1) 0 sensor_clk_freqs"

text \<open>Registration; the clock framework's answers for the PLL or sensor clock \<open>i\<close> are arguments.\<close>

record clk_framework =
  cf_alloc_pll :: "nat \<Rightarrow> bool"
  cf_register_pll :: "nat \<Rightarrow> unit result"
  cf_alloc_sensor :: "nat \<Rightarrow> bool"
  cf_register_sensor :: "nat \<Rightarrow> unit result"
  cf_set_parent :: "nat \<Rightarrow> unit result"
  cf_clkdev :: "nat \<Rightarrow> unit result"

definition register_pll :: "clk_framework \<Rightarrow> nat \<Rightarrow> 'h isp \<Rightarrow> unit result \<times> 'h isp" where
  "register_pll C i s =
     (if \<not> cf_alloc_pll C i then (Inl ENOMEM, s)
      else case cf_register_pll C i of
          Inl e \<Rightarrow> (Inl e, s)
        | Inr _ \<Rightarrow> (Inr (), s\<lparr>is_clk_plls := (is_clk_plls s)[i := True]\<rparr>))"

definition register_sensor :: "clk_framework \<Rightarrow> nat \<Rightarrow> 'h isp \<Rightarrow> unit result \<times> 'h isp" where
  "register_sensor C i s =
     (if \<not> cf_alloc_sensor C i then (Inl ENOMEM, s)
      else case cf_register_sensor C i of
          Inl e \<Rightarrow> (Inl e, s)
        | Inr _ \<Rightarrow>
            let s = s\<lparr>is_clk_sensors := (is_clk_sensors s)[i := True]\<rparr> in
            (case cf_set_parent C i of Inl e \<Rightarrow> (Inl e, s) | Inr _ \<Rightarrow> (cf_clkdev C i, s)))"

fun for_each :: "(nat \<Rightarrow> 's \<Rightarrow> unit result \<times> 's) \<Rightarrow> nat list \<Rightarrow> 's \<Rightarrow> unit result \<times> 's" where
  "for_each f [] s = (Inr (), s)"
| "for_each f (i # is) s = (case f i s of (Inl e, s) \<Rightarrow> (Inl e, s) | (Inr _, s) \<Rightarrow> for_each f is s)"

definition unregister_clks :: "'h isp \<Rightarrow> 'h isp" where
  "unregister_clks s =
     s\<lparr>is_clk_sensors := replicate IPU_BUTTRESS_NUM_OF_SENS_CKS False, is_clk_plls := replicate NUM_PLLS False\<rparr>"

definition ipu_buttress_clk_init :: "clk_framework \<Rightarrow> 'h isp \<Rightarrow> unit result \<times> 'h isp" where
  "ipu_buttress_clk_init C s =
     (case for_each (register_pll C) [0..<NUM_PLLS] s of
        (Inl e, s) \<Rightarrow> (Inl e, unregister_clks s)
      | (Inr _, s) \<Rightarrow>
         (case for_each (register_sensor C) [0..<IPU_BUTTRESS_NUM_OF_SENS_CKS] s of
            (Inl e, s) \<Rightarrow> (Inl e, unregister_clks s)
          | (Inr _, s) \<Rightarrow> (Inr (), s)))"

definition ipu_buttress_clk_exit :: "'h isp \<Rightarrow> 'h isp" where
  "ipu_buttress_clk_exit s = unregister_clks s"

section \<open>Bringing it up and down\<close>

definition BUTTRESS_REG_WDT :: nat where "BUTTRESS_REG_WDT = 0x8"
definition BUTTRESS_CSE_IPC_RESET_RETRY :: nat where "BUTTRESS_CSE_IPC_RESET_RETRY = 4"

definition ipu_buttress_restore :: "'h hw_ops \<Rightarrow> 'h isp \<Rightarrow> unit result \<times> 'h isp" where
  "ipu_buttress_restore H s =
     (let s = wr H BUTTRESS_REG_ISR_CLEAR BUTTRESS_IRQS s;
          s = wr H BUTTRESS_REG_ISR_ENABLE BUTTRESS_IRQS s
      in (Inr (), wr H BUTTRESS_REG_WDT (is_wdt_cached_value s) s))"

fun reset_attempts :: "'h hw_ops \<Rightarrow> nat \<Rightarrow> 'h isp \<Rightarrow> unit result \<times> 'h isp" where
  "reset_attempts H n s =
     (case ipu_buttress_ipc_reset H IPU_BUTTRESS_IPC_CSE s of
        (Inr _, s) \<Rightarrow> (Inr (), s)
      | (Inl e, s) \<Rightarrow> (case n of 0 \<Rightarrow> (Inl e, s) | Suc n \<Rightarrow> reset_attempts H n s))"

declare reset_attempts.simps [simp del]

definition device_create_file :: "(sysfs_file \<Rightarrow> unit result) \<Rightarrow> sysfs_file \<Rightarrow> 'h isp \<Rightarrow> unit result \<times> 'h isp" where
  "device_create_file F f s =
     (case F f of Inl e \<Rightarrow> (Inl e, s) | Inr _ \<Rightarrow> (Inr (), s\<lparr>is_files := f # is_files s\<rparr>))"

definition device_remove_file :: "sysfs_file \<Rightarrow> 'h isp \<Rightarrow> 'h isp" where
  "device_remove_file f s = s\<lparr>is_files := filter (\<lambda>g. g \<noteq> f) (is_files s)\<rparr>"

definition init_mailboxes :: "'h isp \<Rightarrow> 'h isp" where
  "init_mailboxes s = s\<lparr>is_cse := cse_init (is_cse s), is_ish := ish_init (is_ish s)\<rparr>"

definition init_hw :: "'h hw_ops \<Rightarrow> bool \<Rightarrow> 'h isp \<Rightarrow> 'h isp" where
  "init_hw H secure_mode_enable s =
     (let s = ipu_buttress_set_secure_mode H secure_mode_enable s in
      case ipu_buttress_get_secure_mode H s of (secure, s) \<Rightarrow>
        let s = s\<lparr>is_secure_mode := secure\<rparr> in
        case rd H BUTTRESS_REG_WDT s of (wdt, s) \<Rightarrow>
          let s = s\<lparr>is_wdt_cached_value := wdt\<rparr>;
              s = wr H BUTTRESS_REG_ISR_CLEAR BUTTRESS_IRQS s
          in wr H BUTTRESS_REG_ISR_ENABLE BUTTRESS_IRQS s)"

definition init_undo_clk :: "'h isp \<Rightarrow> 'h isp" where
  "init_undo_clk s = ipu_buttress_clk_exit s"

definition init_undo_min :: "'h isp \<Rightarrow> 'h isp" where
  "init_undo_min s = init_undo_clk (device_remove_file MIN_FREQ_FILE s)"

definition init_undo_max :: "'h isp \<Rightarrow> 'h isp" where
  "init_undo_max s = init_undo_min (device_remove_file MAX_FREQ_FILE s)"

definition ipu_buttress_init ::
  "'h hw_ops \<Rightarrow> clk_framework \<Rightarrow> (sysfs_file \<Rightarrow> unit result) \<Rightarrow> bool \<Rightarrow> 'h isp \<Rightarrow> unit result \<times> 'h isp" where
  "ipu_buttress_init H C F secure_mode_enable s =
     (case ipu_buttress_clk_init C (init_mailboxes s) of
        (Inl e, s) \<Rightarrow> (Inl e, s)
      | (Inr _, s) \<Rightarrow>
         (case device_create_file F MIN_FREQ_FILE (init_hw H secure_mode_enable s) of
            (Inl e, s) \<Rightarrow> (Inl e, init_undo_clk s)
          | (Inr _, s) \<Rightarrow>
             (case device_create_file F MAX_FREQ_FILE s of
                (Inl e, s) \<Rightarrow> (Inl e, init_undo_min s)
              | (Inr _, s) \<Rightarrow>
                 (case device_create_file F EFFICIENT_FREQ_FILE s of
                    (Inl e, s) \<Rightarrow> (Inl e, init_undo_max s)
                  | (Inr _, s) \<Rightarrow>
                     (case reset_attempts H BUTTRESS_CSE_IPC_RESET_RETRY s of
                        (Inr _, s) \<Rightarrow> (Inr (), s)
                      | (Inl e, s) \<Rightarrow> (Inl e, init_undo_max s))))))"

definition ipu_buttress_exit :: "'h hw_ops \<Rightarrow> 'h isp \<Rightarrow> 'h isp" where
  "ipu_buttress_exit H s =
     (let s = wr H BUTTRESS_REG_ISR_ENABLE 0 s;
          s = device_remove_file EFFICIENT_FREQ_FILE s;
          s = device_remove_file MAX_FREQ_FILE s;
          s = device_remove_file MIN_FREQ_FILE s
      in ipu_buttress_clk_exit s)"

section \<open>Secure mode and authentication: properties\<close>

text \<open>
  Switched on, secure mode is never requested: the register is compared with the value it would be
  set to after that value was stored over what was read, so no write happens at all.
\<close>

theorem secure_mode_never_requested:
  "written r (ipu_buttress_set_secure_mode H True s) = written r s"
  using rd_frame(3) [of H BUTTRESS_REG_SECURITY_CTL s]
  by (cases "rd H BUTTRESS_REG_SECURITY_CTL s") (simp add: ipu_buttress_set_secure_mode_def Let_def)

lemma send_outcome:
  assumes "ipu_buttress_ipc_send H IPU_BUTTRESS_IPC_CSE c sz resp e s = Some (r, s')" "mailboxes_set s"
  shows "settings s' = settings s \<and> (\<forall>q. q \<notin> out_regs \<union> set irq_regs \<longrightarrow> written q s' = written q s) \<and>
    (\<exists>n \<le> 2. written 0x104 s' = written 0x104 s @ replicate n c \<and> (r = Inr () \<longrightarrow> n \<noteq> 0))"
proof -
  let ?m = "\<lparr>bm_cmd = c, bm_expected_resp = e, bm_require_resp = resp, bm_cmd_size = ucast sz\<rparr>"
  have s: "ipu_buttress_ipc_send_bulk H IPU_BUTTRESS_IPC_CSE [?m] s = Some (r, s')"
    using assms(1) by (simp add: ipu_buttress_ipc_send_def)
  obtain ns where o: "length ns \<le> 1" "set ns \<subseteq> {1, 2}" "r = Inr () \<longrightarrow> length ns = 1"
      "written 0x104 s' = written 0x104 s @ concat (map2 replicate ns [c])"
    using send_bulk_outcome [OF s assms(2)] by (auto simp: out_data_def)
  have "\<exists>n \<le> 2. written 0x104 s' = written 0x104 s @ replicate n c \<and> (r = Inr () \<longrightarrow> n \<noteq> 0)"
  proof (cases ns)
    case Nil
    then show ?thesis using o by (intro exI [of _ 0]) simp
  next
    case (Cons n ns')
    then show ?thesis using o by (intro exI [of _ n]) auto
  qed
  then show ?thesis using send_bulk_outcome [OF s assms(2)] by auto
qed

lemma security_wait_outcome:
  assumes "security_wait H st tout s = (r, s')"
  shows "settings s' = settings s \<and> (\<forall>q. written q s' = written q s) \<and>
    (r = Inr () \<longrightarrow> got 0x300 s' \<noteq> [] \<and> last (got 0x300 s') AND FW_SETUP_MASK \<noteq> AUTH_FAILED)"
proof -
  obtain ret v t where p: "readl_poll_timeout H BUTTRESS_REG_SECURITY_CTL
      (\<lambda>v. v AND FW_SETUP_MASK = st \<or> v AND FW_SETUP_MASK = AUTH_FAILED) tout s = (ret, v, t)"
    using prod_cases3 by blast
  obtain w u where u: "rd H BUTTRESS_REG_SECURITY_CTL t = (w, u)" by fastforce
  show ?thesis
    using assms p u poll_frame [OF p] rd_frame [OF u]
    by (cases ret) (auto simp: security_wait_def BUTTRESS_REG_SECURITY_CTL_def split: if_splits)
qed

lemma boot_load_outcome:
  assumes "boot_load H s = Some (r, s')" "mailboxes_set s"
  shows "settings s' = settings s \<and> (\<forall>q. q \<notin> out_regs \<union> set irq_regs \<longrightarrow> written q s' = written q s) \<and>
    (\<exists>n \<le> 2. written 0x104 s' = written 0x104 s @ replicate n IPC_BOOT_LOAD \<and> (r = Inr () \<longrightarrow> n \<noteq> 0))"
proof -
  obtain r1 s1 where snd: "ipu_buttress_ipc_send H IPU_BUTTRESS_IPC_CSE IPC_BOOT_LOAD 1 True IPC_BOOT_LOAD_DONE s = Some (r1, s1)"
    using assms(1) by (auto simp: boot_load_def Option.bind_eq_Some_conv)
  note o = send_outcome [OF snd assms(2)]
  obtain r2 s2 where w: "security_wait H FW_SETUP_DONE BUTTRESS_CSE_BOOTLOAD_TIMEOUT s1 = (r2, s2)" by fastforce
  obtain r3 v s3 where p: "readl_poll_timeout H (is_psys_base s2 + BOOTLOADER_STATUS_OFFSET)
      (\<lambda>v. v = BOOTLOADER_MAGIC_KEY) BUTTRESS_CSE_BOOTLOAD_TIMEOUT s2 = (r3, v, s3)" using prod_cases3 by blast
  have "(r, s') = (r1, s1) \<or> (r1 = Inr () \<and> (r, s') \<in> {(r2, s2), (r3, s3)})"
    using assms(1) snd w p by (auto simp: boot_load_def split: sum.splits)
  then show ?thesis using o security_wait_outcome [OF w] poll_frame [OF p] by auto
qed

lemma auth_run_outcome:
  assumes "auth_run H s = Some (r, s')" "mailboxes_set s"
  shows "settings s' = settings s \<and> (\<forall>q. q \<notin> out_regs \<union> set irq_regs \<longrightarrow> written q s' = written q s) \<and>
    (\<exists>n \<le> 2. written 0x104 s' = written 0x104 s @ replicate n IPC_AUTH_RUN \<and> (r = Inr () \<longrightarrow> n \<noteq> 0)) \<and>
    (r = Inr () \<longrightarrow> got 0x300 s' \<noteq> [] \<and> last (got 0x300 s') AND FW_SETUP_MASK \<noteq> AUTH_FAILED)"
proof -
  obtain r1 s1 where snd: "ipu_buttress_ipc_send H IPU_BUTTRESS_IPC_CSE IPC_AUTH_RUN 1 True IPC_AUTH_RUN_DONE s = Some (r1, s1)"
    using assms(1) by (auto simp: auth_run_def Option.bind_eq_Some_conv)
  note o = send_outcome [OF snd assms(2)]
  obtain r2 s2 where w: "security_wait H AUTH_DONE BUTTRESS_CSE_AUTHENTICATE_TIMEOUT s1 = (r2, s2)" by fastforce
  have "((r, s') = (r1, s1) \<and> r1 \<noteq> Inr ()) \<or> (r1 = Inr () \<and> (r, s') = (r2, s2))"
    using assms(1) snd w by (auto simp: auth_run_def split: sum.splits)
  then show ?thesis using o security_wait_outcome [OF w] by auto
qed

text \<open>What a successful authentication has done.\<close>

definition authenticated :: "'h isp \<Rightarrow> 'h isp \<Rightarrow> bool" where
  "authenticated s s' \<longleftrightarrow> got 0x300 s' \<noteq> [] \<and> last (got 0x300 s') AND FW_SETUP_MASK \<noteq> AUTH_FAILED \<and>
     (written 0x104 s' = written 0x104 s \<and> last (got 0x300 s') AND FW_SETUP_MASK = AUTH_DONE \<or>
      (\<exists>n \<in> {1, 2}. \<exists>m \<in> {1, 2}. written 0x104 s' = written 0x104 s @ replicate n IPC_BOOT_LOAD @ replicate m IPC_AUTH_RUN) \<and>
      written 0x78 s' = written 0x78 s @ [ucast (is_pkg_dir_dma_addr s)] \<and>
      written 0x7c s' = written 0x7c s @ [ucast (drop_bit 32 (is_pkg_dir_dma_addr s))])"

lemma small: "n \<le> (2 :: nat) \<Longrightarrow> n \<noteq> 0 \<Longrightarrow> n = 1 \<or> n = 2"
  by arith

lemma powered_outcome:
  assumes "authenticate_powered H s = Some (r, s')" "mailboxes_set s" "is_secure_mode s"
  shows "settings s' = settings s \<and> (r = Inr () \<longrightarrow> authenticated s s')"
proof -
  obtain v s0 where r0: "rd H BUTTRESS_REG_SECURITY_CTL s = (v, s0)" by fastforce
  note f0 = rd_frame [OF r0]
  have ad: "ipu4_buttress_auth_done H s = (v AND FW_SETUP_MASK = AUTH_DONE, s0)"
    using assms(3) r0 by (simp add: ipu4_buttress_auth_done_def)
  show ?thesis
  proof (cases "v AND FW_SETUP_MASK = AUTH_DONE")
    case True
    then have "s' = s0" using assms(1) ad by (simp add: authenticate_powered_def)
    then show ?thesis using f0 True
      by (simp add: authenticated_def BUTTRESS_REG_SECURITY_CTL_def AUTH_DONE_def AUTH_FAILED_def)
  next
    case False
    let ?a = "is_pkg_dir_dma_addr s"
    let ?s1 = "wr H BUTTRESS_REG_FW_SOURCE_BASE_HI (ucast (drop_bit 32 ?a)) (wr H BUTTRESS_REG_FW_SOURCE_BASE_LO (ucast ?a) s0)"
    have pk: "is_pkg_dir_dma_addr s0 = ?a" using f0(1) by (simp add: settings_def)
    have pk': "is_pkg_dir_dma_addr (wr H q x t) = is_pkg_dir_dma_addr t" for q x t by (simp add: wr_def)
    have set1: "settings ?s1 = settings s" using f0 by simp
    have m1: "mailboxes_set ?s1" using settings_mailboxes [OF set1] assms(2) by simp
    obtain r2 s2 where b: "boot_load H ?s1 = Some (r2, s2)"
      using assms(1) ad False pk pk' by (auto simp: authenticate_powered_def Let_def Option.bind_eq_Some_conv)
    note bo = boot_load_outcome [OF b m1]
    have m2: "mailboxes_set s2" using settings_mailboxes [of s2 ?s1] bo m1 by simp
    show ?thesis
    proof (cases r2)
      case (Inl e)
      then have "(r, s') = (Inl e, s2)" using assms(1) ad False b pk pk' by (simp add: authenticate_powered_def Let_def)
      then show ?thesis using bo set1 by simp
    next
      case (Inr u)
      then have a: "auth_run H s2 = Some (r, s')" using assms(1) ad False b pk pk' by (simp add: authenticate_powered_def Let_def)
      note ao = auth_run_outcome [OF a m2]
      have out: "0x78 \<notin> out_regs \<union> set irq_regs" "0x7c \<notin> out_regs \<union> set irq_regs"
        by (simp_all add: out_regs_def irq_regs_def)
      have regs: "written 0x78 s' = written 0x78 ?s1" "written 0x7c s' = written 0x7c ?s1" using ao bo out by simp_all
      obtain n where n: "n = 1 \<or> n = 2" "written 0x104 s2 = written 0x104 ?s1 @ replicate n IPC_BOOT_LOAD"
        using bo Inr small by (metis old.unit.exhaust)
      have "authenticated s s'" if ok: "r = Inr ()"
      proof -
        obtain m where m: "m = 1 \<or> m = 2" "written 0x104 s' = written 0x104 s2 @ replicate m IPC_AUTH_RUN"
          using ao ok small by metis
        have "written 0x104 s' = written 0x104 s @ replicate n IPC_BOOT_LOAD @ replicate m IPC_AUTH_RUN"
          using n m f0 by (simp add: BUTTRESS_REG_FW_SOURCE_BASE_LO_def BUTTRESS_REG_FW_SOURCE_BASE_HI_def)
        moreover have "written 0x78 s' = written 0x78 s @ [ucast ?a]"
          "written 0x7c s' = written 0x7c s @ [ucast (drop_bit 32 ?a)]"
          using regs f0 by (simp_all add: BUTTRESS_REG_FW_SOURCE_BASE_LO_def BUTTRESS_REG_FW_SOURCE_BASE_HI_def)
        ultimately show ?thesis using ao ok n(1) m(1) unfolding authenticated_def by blast
      qed
      then show ?thesis using ao bo set1 by simp
    qed
  qed
qed

text \<open>
  C24: Every authentication of the firmware, failed or not, gives back the power reference it takes and
  leaves the mailboxes as they were set up.  In secure mode it succeeds only when the security engine
  had it authenticated already, or the address of the package directory was written and BOOT_LOAD and then
  AUTH_RUN were sent, each at most twice, and the state read last is not the failed one.
\<close>

theorem authenticate_in_order:
  assumes "ipu_buttress_authenticate H s = Some (r, s')" "mailboxes_set s"
  shows "settings s' = settings s \<and> is_mmu_pm_usage s' = is_mmu_pm_usage s \<and>
    (r = Inr () \<and> is_secure_mode s \<longrightarrow>
       got 0x300 s' \<noteq> [] \<and> last (got 0x300 s') AND FW_SETUP_MASK \<noteq> AUTH_FAILED \<and>
       (written 0x104 s' = written 0x104 s \<and> last (got 0x300 s') AND FW_SETUP_MASK = AUTH_DONE \<or>
        (\<exists>n \<in> {1, 2}. \<exists>m \<in> {1, 2}. written 0x104 s' = written 0x104 s @ replicate n IPC_BOOT_LOAD @ replicate m IPC_AUTH_RUN) \<and>
        written 0x78 s' = written 0x78 s @ [ucast (is_pkg_dir_dma_addr s)] \<and>
        written 0x7c s' = written 0x7c s @ [ucast (drop_bit 32 (is_pkg_dir_dma_addr s))]))"
proof (cases "is_secure_mode s")
  case False
  then show ?thesis using assms(1) by (simp add: ipu_buttress_authenticate_def)
next
  case True
  obtain rv h where pm: "hw_pm_get H (is_hw s) = (rv, h)" by fastforce
  let ?s = "s\<lparr>is_hw := h, is_mmu_pm_usage := is_mmu_pm_usage s + 1\<rparr>"
  obtain t where t: "(case rv of Inl e \<Rightarrow> Some (Inl e, ?s) | Inr _ \<Rightarrow> authenticate_powered H ?s) = Some (r, t)"
    and s': "s' = mmu_pm_put t"
    using assms(1) True pm by (auto simp: ipu_buttress_authenticate_def Let_def Option.bind_eq_Some_conv)
  have m: "mailboxes_set ?s" "is_secure_mode ?s" using assms(2) True by (simp_all add: mailboxes_set_def)
  have o: "settings t = settings ?s" "r = Inr () \<longrightarrow> authenticated ?s t"
    using t powered_outcome [OF _ m] by (auto split: sum.splits)
  have b: "settings s' = settings s" using o(1) by (simp add: s' mmu_pm_put_def settings_def)
  have w: "written q ?s = written q s" "written q s' = written q t" "got q s' = got q t" for q
    by (simp_all add: written_def got_def s' mmu_pm_put_def)
  have "r = Inr () \<longrightarrow> authenticated s s'" using o(2) unfolding authenticated_def w by simp
  moreover have "is_mmu_pm_usage s' = is_mmu_pm_usage s" using b by (simp add: settings_def)
  ultimately show ?thesis using b unfolding authenticated_def by blast
qed

lemma demo_send:
  assumes "demo_ready s" "is_hw s = (0, c0)" "c AND 0xffff \<noteq> 0xf20"
  shows "\<exists>t. ipu_buttress_ipc_send demo_hw IPU_BUTTRESS_IPC_CSE c 1 True c s = Some (Inr (), t) \<and> demo_ready t \<and>
     is_hw t = (0, c) \<and> settings t = settings s"
  using demo_send_bulk [OF assms(1,2), of "[\<lparr>bm_cmd = c, bm_expected_resp = c, bm_require_resp = True, bm_cmd_size = 1\<rparr>]"]
    assms(3) by (auto simp: ipu_buttress_ipc_send_def)

lemma demo_security_wait:
  assumes "is_hw s = (0, c)" "c AND FW_SETUP_MASK = st" "st \<noteq> AUTH_FAILED"
  shows "\<exists>t. security_wait demo_hw st n s = (Inr (), t) \<and> is_hw t = (0, c) \<and> settings t = settings s"
proof -
  let ?t = "s\<lparr>is_trace := is_trace s @ [Rd 0x300 c]\<rparr>"
  have r: "rd demo_hw 0x300 s = (c, ?t)" using assms(1) by (simp add: demo_rd)
  have p: "readl_poll_timeout demo_hw 0x300 (\<lambda>v. v AND FW_SETUP_MASK = st \<or> v AND FW_SETUP_MASK = AUTH_FAILED) n s =
      (Inr (), c, ?t)"
    using assms(2) by (intro poll_first r) simp
  have "is_hw ?t = (0, c)" using assms(1) by simp
  then have "rd demo_hw 0x300 ?t = (c, ?t\<lparr>is_trace := is_trace ?t @ [Rd 0x300 c]\<rparr>)"
    by (simp add: demo_rd)
  then show ?thesis using p assms
    by (simp add: security_wait_def BUTTRESS_REG_SECURITY_CTL_def settings_def)
qed

lemma demo_magic:
  assumes "is_hw s = (0, c)" "is_psys_base s = 0"
  shows "\<exists>v t. readl_poll_timeout demo_hw (is_psys_base s + BOOTLOADER_STATUS_OFFSET)
      (\<lambda>v. v = BOOTLOADER_MAGIC_KEY) n s = (Inr (), v, t) \<and> is_hw t = (0, c) \<and> settings t = settings s"
proof -
  let ?t = "s\<lparr>is_trace := is_trace s @ [Rd 0x8000 0xb00710ad]\<rparr>"
  have "rd demo_hw 0x8000 s = (0xb00710ad, ?t)" using assms(1) by (simp add: demo_rd)
  then have "readl_poll_timeout demo_hw 0x8000 (\<lambda>v. v = BOOTLOADER_MAGIC_KEY) n s = (Inr (), 0xb00710ad, ?t)"
    by (rule poll_first) (simp add: BOOTLOADER_MAGIC_KEY_def)
  then show ?thesis using assms by (simp add: BOOTLOADER_STATUS_OFFSET_def settings_def)
qed

lemma demo_authenticates:
  "\<exists>t. ipu_buttress_authenticate demo_hw (demo_isp (0, 0)) = Some (Inr (), t)"
proof -
  let ?s0 = "demo_isp (0 :: u32, 0 :: u32)"
  let ?s1 = "?s0\<lparr>is_hw := (0, 0), is_mmu_pm_usage := 1\<rparr>"
  let ?s2 = "?s1\<lparr>is_trace := [Rd 0x300 0]\<rparr>"
  let ?s3 = "wr demo_hw 0x7c (ucast (drop_bit 32 (is_pkg_dir_dma_addr ?s2))) (wr demo_hw 0x78 (ucast (is_pkg_dir_dma_addr ?s2)) ?s2)"
  have s3: "settings ?s3 = settings ?s1" "is_hw ?s3 = (0, 0)"
    by (simp_all add: settings_def wr_def demo_hw_def demo_isp_def)
  have r1: "demo_ready ?s1" using demo_isp_ready(1) by (simp add: demo_ready_def mailboxes_set_def)
  have r3: "demo_ready ?s3" using demo_ready_settings [OF s3(1)] r1 by simp
  have ad: "ipu4_buttress_auth_done demo_hw ?s1 = (False, ?s2)"
    by (simp add: ipu4_buttress_auth_done_def rd_def demo_hw_def demo_isp_def BUTTRESS_REG_SECURITY_CTL_def
        AUTH_DONE_def)
  obtain s4 where s4: "ipu_buttress_ipc_send demo_hw IPU_BUTTRESS_IPC_CSE IPC_BOOT_LOAD 1 True IPC_BOOT_LOAD_DONE ?s3 = Some (Inr (), s4)"
      "demo_ready s4" "is_hw s4 = (0, 1)" "settings s4 = settings ?s3"
    using demo_send [OF r3 s3(2), of 1] by (auto simp: IPC_BOOT_LOAD_def IPC_BOOT_LOAD_DONE_def)
  obtain s5 where s5: "security_wait demo_hw FW_SETUP_DONE BUTTRESS_CSE_BOOTLOAD_TIMEOUT s4 = (Inr (), s5)" "is_hw s5 = (0, 1)"
      "settings s5 = settings s4"
    using demo_security_wait [OF s4(3), of FW_SETUP_DONE] by (auto simp: FW_SETUP_DONE_def FW_SETUP_MASK_def AUTH_FAILED_def)
  have "settings s5 = settings ?s1" using s5 s4 s3 by simp
  then have base: "is_psys_base s5 = 0" by (simp add: settings_def demo_isp_def)
  obtain v s6 where s6: "readl_poll_timeout demo_hw (is_psys_base s5 + BOOTLOADER_STATUS_OFFSET)
      (\<lambda>v. v = BOOTLOADER_MAGIC_KEY) BUTTRESS_CSE_BOOTLOAD_TIMEOUT s5 = (Inr (), v, s6)" "is_hw s6 = (0, 1)" "settings s6 = settings s5"
    using demo_magic [OF s5(2) base] by blast
  have b: "boot_load demo_hw ?s3 = Some (Inr (), s6)" using s4 s5 s6 by (simp add: boot_load_def)
  have r6: "demo_ready s6" using demo_ready_settings [of s6 s4] s4 s5 s6 by simp
  obtain s7 where s7: "ipu_buttress_ipc_send demo_hw IPU_BUTTRESS_IPC_CSE IPC_AUTH_RUN 1 True IPC_AUTH_RUN_DONE s6 = Some (Inr (), s7)"
      "is_hw s7 = (0, 2)"
    using demo_send [OF r6 s6(2), of 2] by (auto simp: IPC_AUTH_RUN_def IPC_AUTH_RUN_DONE_def)
  obtain s8 where s8: "security_wait demo_hw AUTH_DONE BUTTRESS_CSE_AUTHENTICATE_TIMEOUT s7 = (Inr (), s8)"
    using demo_security_wait [OF s7(2), of AUTH_DONE] by (auto simp: AUTH_DONE_def FW_SETUP_MASK_def AUTH_FAILED_def)
  have "auth_run demo_hw s6 = Some (Inr (), s8)" using s7 s8 by (simp add: auth_run_def)
  then have p: "authenticate_powered demo_hw ?s1 = Some (Inr (), s8)"
    using ad b by (simp add: authenticate_powered_def Let_def BUTTRESS_REG_FW_SOURCE_BASE_LO_def BUTTRESS_REG_FW_SOURCE_BASE_HI_def wr_def)
  have pm: "hw_pm_get demo_hw h = (Inr (), h)" for h by (simp add: demo_hw_def)
  have sec: "is_secure_mode ?s0" "is_hw ?s0 = (0, 0)" "is_mmu_pm_usage ?s0 = 0" by (simp_all add: demo_isp_def)
  show ?thesis using p sec by (simp add: ipu_buttress_authenticate_def pm Let_def)
qed

theorem authenticate_in_order_witness:
  "\<exists>t. ipu_buttress_authenticate demo_hw (demo_isp (0, 0)) = Some (Inr (), t) \<and> is_mmu_pm_usage t = 0"
proof -
  obtain t where t: "ipu_buttress_authenticate demo_hw (demo_isp (0, 0)) = Some (Inr (), t)"
    using demo_authenticates by blast
  then show ?thesis using authenticate_in_order [OF t demo_mailboxes] by (auto simp: demo_isp_def)
qed

section \<open>The time stamp counter: properties\<close>

text \<open>
  The counter is read in at most eleven attempts, and a value is returned only when the upper half read
  the same before and after the lower ones, the middle one of those is not zero, and neither of its
  neighbours is more than 500 ticks away.
\<close>

theorem tsc_read_consistent:
  assumes "ipu4_buttress_tsc_read H s = (r, s')"
  shows "\<exists>tr. is_trace s' = is_trace s @ tr \<and> length tr \<le> 5 * 11 \<and>
    (case r of
       Inr ticks \<Rightarrow> \<exists>tr' hi a b c. tr = tr' @ [Rd BUTTRESS_REG_TSC_HI hi, Rd BUTTRESS_REG_TSC_LO a, Rd BUTTRESS_REG_TSC_LO b,
           Rd BUTTRESS_REG_TSC_LO c, Rd BUTTRESS_REG_TSC_HI hi] \<and>
         b \<noteq> 0 \<and> b - a \<le> 500 \<and> c - b \<le> 500 \<and> uint ticks = uint hi * 2 ^ 32 + uint b
     | Inl e \<Rightarrow> length tr = 5 * 11 \<and> (e = EIO \<or> e = EINVAL))"
proof -
  have val: "uint (push_bit 32 (ucast hi) OR ucast lo :: u64) = uint hi * 2 ^ 32 + uint lo" for hi lo :: u32
  proof -
    have d: "push_bit 32 (ucast hi) AND ucast lo = (0 :: u64)"
      by (rule bit_word_eqI) (auto simp: bit_simps dest: bit_imp_le_length)
    have "push_bit 32 (ucast hi) OR ucast lo = (push_bit 32 (ucast hi) + ucast lo :: u64)"
      using d by (simp add: disjunctive_add_eq_or)
    moreover have u: "uint (push_bit 32 (ucast hi) :: u64) = uint hi * 2 ^ 32" "uint (ucast lo :: u64) = uint lo"
      using unsigned_less [of hi, where 'a = int] unsigned_less [of lo, where 'a = int]
      by (simp_all add: push_bit_eq_mult uint_word_ariths unsigned_ucast_eq take_bit_int_eq_self)
    moreover have "uint hi * 2 ^ 32 + uint lo < 2 ^ 64"
      using unsigned_less [of hi, where 'a = int] unsigned_less [of lo, where 'a = int] by simp
    ultimately show ?thesis by (simp add: uint_word_ariths u)
  qed
  have reads: "\<exists>tr. is_trace s' = is_trace s @ tr \<and> length tr \<le> 5 * Suc n \<and>
    (case r of
       Inr ticks \<Rightarrow> \<exists>tr' hi a b c. tr = tr' @ [Rd BUTTRESS_REG_TSC_HI hi, Rd BUTTRESS_REG_TSC_LO a, Rd BUTTRESS_REG_TSC_LO b,
           Rd BUTTRESS_REG_TSC_LO c, Rd BUTTRESS_REG_TSC_HI hi] \<and>
         b \<noteq> 0 \<and> b - a \<le> 500 \<and> c - b \<le> 500 \<and> uint ticks = uint hi * 2 ^ 32 + uint b
     | Inl e \<Rightarrow> length tr = 5 * Suc n \<and> (e = EIO \<or> e = EINVAL))"
    if "tsc_reads H n s = (r, s')" for n
    using that
  proof (induction n arbitrary: s)
    case (0 s)
    obtain hi s1 where 1: "rd H BUTTRESS_REG_TSC_HI s = (hi, s1)" by fastforce
    obtain a s2 where 2: "rd H BUTTRESS_REG_TSC_LO s1 = (a, s2)" by fastforce
    obtain b s3 where 3: "rd H BUTTRESS_REG_TSC_LO s2 = (b, s3)" by fastforce
    obtain c s4 where 4: "rd H BUTTRESS_REG_TSC_LO s3 = (c, s4)" by fastforce
    obtain chk s5 where 5: "rd H BUTTRESS_REG_TSC_HI s4 = (chk, s5)" by fastforce
    note tr = 1 [THEN rd_trace] 2 [THEN rd_trace] 3 [THEN rd_trace] 4 [THEN rd_trace] 5 [THEN rd_trace]
    show ?case using 0 1 2 3 4 5 tr by (auto simp: tsc_reads.simps [of H 0] IPU_BUTTRESS_TSC_LIMIT_def val split: if_splits)
  next
    case (Suc n s)
    obtain hi s1 where 1: "rd H BUTTRESS_REG_TSC_HI s = (hi, s1)" by fastforce
    obtain a s2 where 2: "rd H BUTTRESS_REG_TSC_LO s1 = (a, s2)" by fastforce
    obtain b s3 where 3: "rd H BUTTRESS_REG_TSC_LO s2 = (b, s3)" by fastforce
    obtain c s4 where 4: "rd H BUTTRESS_REG_TSC_LO s3 = (c, s4)" by fastforce
    obtain chk s5 where 5: "rd H BUTTRESS_REG_TSC_HI s4 = (chk, s5)" by fastforce
    note tr = 1 [THEN rd_trace] 2 [THEN rd_trace] 3 [THEN rd_trace] 4 [THEN rd_trace] 5 [THEN rd_trace]
    show ?case
    proof (cases "chk = hi \<and> b \<noteq> 0 \<and> b - a \<le> IPU_BUTTRESS_TSC_LIMIT \<and> c - b \<le> IPU_BUTTRESS_TSC_LIMIT")
      case True
      then show ?thesis using Suc.prems 1 2 3 4 5 tr
        by (auto simp: tsc_reads.simps [of H "Suc n"] IPU_BUTTRESS_TSC_LIMIT_def val)
    next
      case False
      then have "tsc_reads H n s5 = (r, s')" using Suc.prems 1 2 3 4 5 by (auto simp: tsc_reads.simps [of H "Suc n"])
      then obtain tr' where tr': "is_trace s' = is_trace s5 @ tr'" "length tr' \<le> 5 * Suc n"
        "case r of
           Inr ticks \<Rightarrow> \<exists>tr'' hi a b c. tr' = tr'' @ [Rd BUTTRESS_REG_TSC_HI hi, Rd BUTTRESS_REG_TSC_LO a, Rd BUTTRESS_REG_TSC_LO b,
               Rd BUTTRESS_REG_TSC_LO c, Rd BUTTRESS_REG_TSC_HI hi] \<and>
             b \<noteq> 0 \<and> b - a \<le> 500 \<and> c - b \<le> 500 \<and> uint ticks = uint hi * 2 ^ 32 + uint b
         | Inl e \<Rightarrow> length tr' = 5 * Suc n \<and> (e = EIO \<or> e = EINVAL)"
        using Suc.IH by blast
      show ?thesis
        by (rule exI [of _ "[Rd BUTTRESS_REG_TSC_HI hi, Rd BUTTRESS_REG_TSC_LO a, Rd BUTTRESS_REG_TSC_LO b,
            Rd BUTTRESS_REG_TSC_LO c, Rd BUTTRESS_REG_TSC_HI chk] @ tr'"])
          (use tr tr' in \<open>auto split: sum.splits simp flip: append_Cons\<close>)
    qed
  qed
  have e: "Suc 10 = 11" by simp
  have "tsc_reads H 10 s = (r, s')" using assms by (simp add: ipu4_buttress_tsc_read_def IPU_BUTTRESS_TSC_RETRY_def)
  from reads [OF this, unfolded e] show ?thesis .
qed

definition demo_tsc :: "unit hw_ops" where
  "demo_tsc = \<lparr>hw_read = (\<lambda>r h. (if r = BUTTRESS_REG_TSC_HI then 5 else 7, h)), hw_write = (\<lambda>_ _ h. h), hw_irqs = (\<lambda>_. []),
     hw_polls = (\<lambda>_. 0), hw_pm_get = (\<lambda>h. (Inr (), h))\<rparr>"

theorem tsc_read_consistent_witness:
  "\<exists>ticks s'. ipu4_buttress_tsc_read demo_tsc (demo_isp ()) = (Inr ticks, s') \<and> uint ticks mod 2 ^ 32 \<noteq> 0"
proof -
  obtain ticks s' where t: "ipu4_buttress_tsc_read demo_tsc (demo_isp ()) = (Inr ticks, s')"
    by (simp add: ipu4_buttress_tsc_read_def tsc_reads.simps [of _ IPU_BUTTRESS_TSC_RETRY] rd_def demo_tsc_def
        BUTTRESS_REG_TSC_HI_def BUTTRESS_REG_TSC_LO_def IPU_BUTTRESS_TSC_LIMIT_def)
  obtain hi b :: u32 where "b \<noteq> 0" "uint ticks = uint hi * 2 ^ 32 + uint b"
    using tsc_read_consistent [OF t] by auto
  moreover have "uint b < 2 ^ 32" using unsigned_less [of b, where 'a = int] by simp
  ultimately have "uint ticks mod 2 ^ 32 \<noteq> 0" by (simp add: unsigned_eq_0_iff)
  then show ?thesis using t by blast
qed

text \<open>
  Ticks become nanoseconds exactly, rounded down, as long as the product with 10000 fits in 64 bits.
\<close>

theorem ticks_to_ns_exact:
  assumes "uint ticks * 10000 < 2 ^ 64"
  shows "uint (ipu4_buttress_tsc_ticks_to_ns ticks) = uint ticks * 1000000000 div 19200000"
proof -
  have "uint (ticks * 10000) = uint ticks * 10000"
    using assms by (simp add: uint_word_ariths)
  then have "uint (ipu4_buttress_tsc_ticks_to_ns ticks) = uint ticks * 10000 div 192"
    by (simp add: ipu4_buttress_tsc_ticks_to_ns_def uint_div)
  also have "\<dots> = (uint ticks * 10000) * 100000 div (192 * 100000)" by (rule div_mult_mult2 [symmetric]) simp
  finally show ?thesis by (simp add: mult.assoc)
qed

section \<open>Clocks: properties\<close>

text \<open>Rates below this bound, far above the table, do not reach the sign bit.\<close>

lemma abs_diff_int:
  assumes "uint a < 2 ^ 63" "uint b < 2 ^ 63"
  shows "uint (abs_diff a b) = \<bar>uint a - uint b\<bar>"
proof -
  have s: "sint (a - b) = uint a - uint b"
  proof -
    have "uint (a - b) = take_bit 64 (uint a - uint b)" by (simp add: uint_word_ariths take_bit_eq_mod)
    then have "sint (a - b) = signed_take_bit 63 (uint a - uint b)"
      by (simp add: sint_uint signed_take_bit_take_bit)
    moreover have "- (2 ^ 63) \<le> uint a - uint b" "uint a - uint b < 2 ^ 63"
      using assms unsigned_greater_eq [of a, where 'a = int] unsigned_greater_eq [of b, where 'a = int] by linarith+
    ultimately show ?thesis by (simp add: signed_take_bit_int_eq_self)
  qed
  show ?thesis
  proof (cases "uint a < uint b")
    case True
    then have "abs_diff a b = b - a" using s by (simp add: abs_diff_def Let_def)
    moreover have "uint (b - a) = uint b - uint a" using True by (simp add: uint_sub_if')
    ultimately show ?thesis using True by simp
  next
    case False
    then have "abs_diff a b = a - b" using s by (simp add: abs_diff_def Let_def)
    moreover have "uint (a - b) = uint a - uint b" using False by (simp add: uint_sub_if')
    ultimately show ?thesis using False by simp
  qed
qed

lemma round_from_best:
  assumes "uint rate < 2 ^ 63" "\<forall>(f, v) \<in> set fs. uint f < 2 ^ 63"
    and "b \<in> B" "\<forall>f \<in> B. \<bar>uint b - uint rate\<bar> \<le> \<bar>uint f - uint rate\<bar>" "uint best = \<bar>uint b - uint rate\<bar>"
  shows "round_from rate best b fs \<in> B \<union> fst ` set fs \<and>
    (\<forall>f \<in> B \<union> fst ` set fs. \<bar>uint (round_from rate best b fs) - uint rate\<bar> \<le> \<bar>uint f - uint rate\<bar>)"
  using assms(2-5)
proof (induction fs arbitrary: best b B)
  case (Cons fv fs)
  obtain f v where fv: "fv = (f, v)" by fastforce
  have d: "uint (abs_diff f rate) = \<bar>uint f - uint rate\<bar>"
    using assms(1) Cons.prems(1) fv by (simp add: abs_diff_int)
  show ?case
  proof (cases "f = rate")
    case True
    then show ?thesis using fv by auto
  next
    case False
    show ?thesis
    proof (cases "abs_diff f rate < best")
      case True
      then have less: "\<bar>uint f - uint rate\<bar> < \<bar>uint b - uint rate\<bar>"
        using d Cons.prems(4) by (simp add: word_less_def)
      have "\<forall>g \<in> insert f B. \<bar>uint f - uint rate\<bar> \<le> \<bar>uint g - uint rate\<bar>"
        using less Cons.prems(3) by fastforce
      then show ?thesis using Cons.IH [of f "insert f B" "abs_diff f rate"] Cons.prems(1) d fv True \<open>f \<noteq> rate\<close> by simp
    next
      case less: False
      then have "\<forall>g \<in> insert f B. \<bar>uint b - uint rate\<bar> \<le> \<bar>uint g - uint rate\<bar>"
        using d Cons.prems(3,4) by (simp add: word_less_def)
      then show ?thesis using Cons.IH [of b "insert f B" best] Cons.prems(1,2,4) fv less \<open>f \<noteq> rate\<close> by simp
    qed
  qed
qed simp

text \<open>
  The rate a sensor clock is rounded to is one of the table, and none of the table is closer to
  the rate asked for.
\<close>

theorem clk_round_rate_nearest:
  assumes "uint rate < 2 ^ 63"
  shows "ipu_buttress_clk_round_rate rate \<in> fst ` set sensor_clk_freqs \<and>
    (\<forall>f \<in> fst ` set sensor_clk_freqs.
       \<bar>uint (ipu_buttress_clk_round_rate rate) - uint rate\<bar> \<le> \<bar>uint f - uint rate\<bar>)"
proof -
  let ?fs = "tl sensor_clk_freqs"
  have fs: "sensor_clk_freqs = (6750000, 0x176) # ?fs" by (simp add: sensor_clk_freqs_def)
  have small: "\<forall>(f, v) \<in> set ?fs. uint f < 2 ^ 63" by (simp add: sensor_clk_freqs_def)
  have d: "uint (abs_diff 6750000 rate) = \<bar>6750000 - uint rate\<bar>" using abs_diff_int [of 6750000 rate] assms by simp
  have max: "uint (- 1 :: u64) = 2 ^ 64 - 1" by (simp add: unsigned_minus_1_eq_mask mask_eq_exp_minus_1)
  have "\<bar>6750000 - k\<bar> < 2 ^ 64 - 1" if "0 \<le> k" "k < 2 ^ 63" for k :: int using that by (simp add: abs_less_iff)
  from this [OF uint_ge_0 assms] have less: "abs_diff 6750000 rate < - 1" 
    using d by (simp only: word_less_def max)
  show ?thesis
  proof (cases "rate = 6750000")
    case True
    then have "ipu_buttress_clk_round_rate rate = 6750000"
      by (simp add: ipu_buttress_clk_round_rate_def sensor_clk_freqs_def)
    then show ?thesis using True by (simp add: sensor_clk_freqs_def)
  next
    case False
    then have "ipu_buttress_clk_round_rate rate = round_from rate (abs_diff 6750000 rate) 6750000 ?fs"
      using less by (simp add: ipu_buttress_clk_round_rate_def sensor_clk_freqs_def)
    then show ?thesis
      using round_from_best [OF assms small, of 6750000 "{6750000}" "abs_diff 6750000 rate"] d
      by (subst (1 2) fs) simp
  qed
qed

text \<open>
  Enabling the PLL of sensor clock i sets the start bit, puts the code of the rate (or the default) in
  the nine bits of the field of this clock, and leaves every other bit of the register as it was.
\<close>

theorem pll_enable_own_field:
  assumes "i < 3" "n < 32"
  shows "bit (pll_value i rate val) n \<longleftrightarrow>
    (if n = 31 then True
     else if 10 * i \<le> n \<and> n < 10 * i + 9 then
       bit (case map_of sensor_clk_freqs rate of Some v \<Rightarrow> v | None \<Rightarrow> 0x1b) (n - 10 * i)
     else bit val n)"
proof -
  define w where "w = (case map_of sensor_clk_freqs rate of Some v \<Rightarrow> v | None \<Rightarrow> (0x1b :: u32))"
  have "map_of sensor_clk_freqs rate = Some v \<Longrightarrow> v \<in> snd ` set sensor_clk_freqs" for v
    by (metis map_of_SomeD image_eqI snd_conv)
  then have "w \<in> insert 0x1b (snd ` set sensor_clk_freqs)" by (auto simp: w_def split: option.splits)
  then have "unat w < 2 ^ 9" by (auto simp: sensor_clk_freqs_def simp del: insert_iff elim!: insertE)
  then have v: "\<not> bit w m" if "9 \<le> m" for m
    
  proof -
    have "take_bit 9 (unat w) = unat w" using \<open>unat w < 2 ^ 9\<close> by (rule take_bit_nat_eq_self)
    then have "\<not> bit (unat w) m" using that by (metis bit_take_bit_iff linorder_not_less)
    then show ?thesis using bit_imp_le_length [of w m] by (auto simp: bit_unsigned_iff)
  qed
  have ones: "(0x1ff :: u32) = mask 9" by (simp add: mask_eq_exp_minus_1)
  have pv: "pll_value i rate val = (val OR push_bit 31 1) AND NOT (push_bit (10 * i) (mask 9)) OR push_bit (10 * i) w"
    by (simp add: pll_value_def Let_def BUTTRESS_FREQ_CTL_START_def OSC_OUT_FREQ_MASK_def OSC_OUT_FREQ_SHIFT_def
        OSC_OUT_FREQ_DEFAULT_def ones mult.commute w_def split: option.splits)
  have b: "bit (pll_value i rate val) n \<longleftrightarrow>
      (bit val n \<or> n = 31) \<and> \<not> (10 * i \<le> n \<and> n < 10 * i + 9) \<or> 10 * i \<le> n \<and> bit w (n - 10 * i)"
    using assms(2) unfolding pv bit_or_iff bit_and_iff bit_not_iff bit_push_bit_iff bit_mask_iff bit_1_iff
    by (auto simp: less_diff_conv2)
  show ?thesis
  proof (cases "10 * i \<le> n \<and> n < 10 * i + 9")
    case True
    then show ?thesis unfolding b w_def [symmetric] using assms(1) by simp
  next
    case False
    then have "\<not> (10 * i \<le> n \<and> bit w (n - 10 * i))" using v [of "n - 10 * i"] by fastforce
    then show ?thesis unfolding b w_def [symmetric] using False by auto
  qed
qed

section \<open>Bringing it up and down: properties\<close>

definition resources :: "'h isp \<Rightarrow> sysfs_file list \<times> bool list \<times> bool list" where
  "resources s = (is_files s, is_clk_plls s, is_clk_sensors s)"

definition ipcs :: "'h isp \<Rightarrow> ipc \<times> ipc" where
  "ipcs s = (is_cse s, is_ish s)"

lemma rd_resources: "rd H r s = (v, s') \<Longrightarrow> resources s' = resources s \<and> ipcs s' = ipcs s"
  by (auto simp: rd_def resources_def ipcs_def split: prod.splits)

lemma wr_resources [simp]: "resources (wr H r v s) = resources s" "ipcs (wr H r v s) = ipcs s"
  by (simp_all add: wr_def resources_def ipcs_def)

lemma secure_retry_resources: "resources (secure_retry H v n s) = resources s \<and> ipcs (secure_retry H v n s) = ipcs s"
proof (induction n arbitrary: s)
  case (Suc n)
  obtain w t where t: "rd H BUTTRESS_REG_SECURITY_CTL s = (w, t)" by fastforce
  then show ?case using Suc rd_resources [OF t] by auto
qed simp

lemma set_secure_resources:
  "resources (ipu_buttress_set_secure_mode H e s) = resources s \<and> ipcs (ipu_buttress_set_secure_mode H e s) = ipcs s"
proof -
  obtain w t where t: "rd H BUTTRESS_REG_SECURITY_CTL s = (w, t)" by fastforce
  then show ?thesis using rd_resources [OF t] by (simp add: ipu_buttress_set_secure_mode_def Let_def secure_retry_resources)
qed

lemma init_hw_resources:
  "resources (init_hw H e s) = resources s \<and> ipcs (init_hw H e s) = ipcs s \<and>
   written BUTTRESS_REG_ISR_ENABLE (init_hw H e s) \<noteq> [] \<and> last (written BUTTRESS_REG_ISR_ENABLE (init_hw H e s)) = BUTTRESS_IRQS"
proof -
  let ?t = "ipu_buttress_set_secure_mode H e s"
  obtain v u where u: "rd H BUTTRESS_REG_SECURITY_CTL ?t = (v, u)" by fastforce
  let ?u = "u\<lparr>is_secure_mode := v AND FW_SECURE_MODE \<noteq> 0\<rparr>"
  obtain w x where x: "rd H BUTTRESS_REG_WDT ?u = (w, x)" by fastforce
  have 1: "resources ?u = resources s" "ipcs ?u = ipcs s"
    using set_secure_resources [of H e s] rd_resources [OF u] by (simp_all add: resources_def ipcs_def)
  have 2: "resources (x\<lparr>is_wdt_cached_value := w\<rparr>) = resources s" "ipcs (x\<lparr>is_wdt_cached_value := w\<rparr>) = ipcs s"
    using 1 rd_resources [OF x] by (simp_all add: resources_def ipcs_def)
  show ?thesis
    using 2 u x by (simp add: init_hw_def Let_def ipu_buttress_get_secure_mode_def)
qed

lemma reset_loop_resources: "reset_loop H d n s = (r, s') \<Longrightarrow> resources s' = resources s \<and> ipcs s' = ipcs s"
proof (induction n arbitrary: s)
  case (Suc n)
  let ?i = "get_ipc d s"
  obtain v t where t: "rd H (ipc_csr_in ?i) s = (v, t)" by fastforce
  obtain w u where u: "reset_exit H d t = (w, u)" by fastforce
  have "resources u = resources t \<and> ipcs u = ipcs t"
    using u rd_resources by (fastforce simp: reset_exit_def Let_def)
  moreover have "(r, s') = (Inr (), u) \<or>
      (\<exists>x. reset_loop H d n x = (r, s') \<and> (resources x, ipcs x) \<in> {(resources t, ipcs t), (resources u, ipcs u)})"
    using Suc.prems t u by (auto simp: Let_def split: if_splits)
  ultimately show ?case using Suc.IH rd_resources [OF t] by auto
qed simp

lemma ipc_reset_resources: "ipu_buttress_ipc_reset H d s = (r, s') \<Longrightarrow> resources s' = resources s \<and> ipcs s' = ipcs s"
proof -
  assume a: "ipu_buttress_ipc_reset H d s = (r, s')"
  obtain v t where t: "rd H (ipc_csr_in (get_ipc d s)) s = (v, t)" by fastforce
  then show ?thesis
    using a rd_resources [OF t] reset_loop_resources [of H d BUTTRESS_IPC_RESET_TIMEOUT _ r s']
    by (auto simp: ipu_buttress_ipc_reset_def Let_def split: if_splits)
qed

lemma reset_attempts_resources: "reset_attempts H n s = (r, s') \<Longrightarrow> resources s' = resources s \<and> ipcs s' = ipcs s"
proof (induction n arbitrary: s)
  case 0
  obtain q t where t: "ipu_buttress_ipc_reset H IPU_BUTTRESS_IPC_CSE s = (q, t)" by fastforce
  then show ?case using 0 ipc_reset_resources [OF t] by (auto simp: reset_attempts.simps [of H 0] split: sum.splits)
next
  case (Suc n)
  obtain q t where t: "ipu_buttress_ipc_reset H IPU_BUTTRESS_IPC_CSE s = (q, t)" by fastforce
  show ?case
  proof (cases q)
    case (Inl e)
    then have "reset_attempts H n t = (r, s')" using Suc.prems t by (simp add: reset_attempts.simps [of H "Suc n"])
    then show ?thesis using Suc.IH ipc_reset_resources [OF t] by simp
  next
    case (Inr u)
    then show ?thesis using Suc.prems t ipc_reset_resources [OF t] by (simp add: reset_attempts.simps [of H "Suc n"])
  qed
qed

text \<open>The clocks: all registered, or none.\<close>

definition clks_len :: "'h isp \<Rightarrow> bool" where
  "clks_len s \<longleftrightarrow> length (is_clk_plls s) = 3 \<and> length (is_clk_sensors s) = 3"

lemma upt3: "[0..<3] = [0, 1, 2 :: nat]"
  by (simp add: upt_rec)

lemma list3: "length xs = 3 \<Longrightarrow> \<exists>a b c. xs = [a, b, c]"
  by (auto simp: length_Suc_conv eval_nat_numeral)

definition regs_frame :: "'h isp \<Rightarrow> sysfs_file list \<times> ipc \<times> ipc" where
  "regs_frame s = (is_files s, is_cse s, is_ish s)"

lemma register_pll_ok:
  "register_pll C i s = (r, s') \<Longrightarrow> regs_frame s' = regs_frame s \<and> is_clk_sensors s' = is_clk_sensors s \<and>
     (r = Inr () \<longrightarrow> is_clk_plls s' = (is_clk_plls s)[i := True])"
  by (auto simp: register_pll_def regs_frame_def split: if_splits sum.splits)

lemma register_sensor_ok:
  "register_sensor C i s = (r, s') \<Longrightarrow> regs_frame s' = regs_frame s \<and> is_clk_plls s' = is_clk_plls s \<and>
     (r = Inr () \<longrightarrow> is_clk_sensors s' = (is_clk_sensors s)[i := True])"
  by (auto simp: register_sensor_def regs_frame_def Let_def split: if_splits sum.splits)

lemma plls_ok:
  "for_each (register_pll C) is s = (r, s') \<Longrightarrow> regs_frame s' = regs_frame s \<and> is_clk_sensors s' = is_clk_sensors s \<and>
     (r = Inr () \<longrightarrow> is_clk_plls s' = foldl (\<lambda>xs i. xs[i := True]) (is_clk_plls s) is)"
proof (induction "is" arbitrary: s)
  case (Cons i "is")
  obtain q t where t: "register_pll C i s = (q, t)" by fastforce
  then show ?case using Cons.prems Cons.IH [of t] register_pll_ok [OF t] by (cases q) auto
qed simp

lemma sensors_ok:
  "for_each (register_sensor C) is s = (r, s') \<Longrightarrow> regs_frame s' = regs_frame s \<and> is_clk_plls s' = is_clk_plls s \<and>
     (r = Inr () \<longrightarrow> is_clk_sensors s' = foldl (\<lambda>xs i. xs[i := True]) (is_clk_sensors s) is)"
proof (induction "is" arbitrary: s)
  case (Cons i "is")
  obtain q t where t: "register_sensor C i s = (q, t)" by fastforce
  then show ?case using Cons.prems Cons.IH [of t] register_sensor_ok [OF t] by (cases q) auto
qed simp

lemma unregister_resources [simp]:
  "regs_frame (unregister_clks s) = regs_frame s" "is_files (unregister_clks s) = is_files s"
  "is_clk_plls (unregister_clks s) = [False, False, False]" "is_clk_sensors (unregister_clks s) = [False, False, False]"
  by (simp_all add: unregister_clks_def regs_frame_def NUM_PLLS_def IPU_BUTTRESS_NUM_OF_SENS_CKS_def eval_nat_numeral)

lemma clk_init_all_or_none:
  assumes "ipu_buttress_clk_init C s = (r, s')" "clks_len s"
  shows "regs_frame s' = regs_frame s \<and>
    is_clk_plls s' = replicate 3 (r = Inr ()) \<and> is_clk_sensors s' = replicate 3 (r = Inr ())"
proof -
  obtain r1 s1 where 1: "for_each (register_pll C) [0..<NUM_PLLS] s = (r1, s1)" by fastforce
  obtain r2 s2 where 2: "for_each (register_sensor C) [0..<IPU_BUTTRESS_NUM_OF_SENS_CKS] s1 = (r2, s2)" by fastforce
  obtain a b c where p: "is_clk_plls s = [a, b, c]" using assms(2) list3 [of "is_clk_plls s"] by (auto simp: clks_len_def)
  obtain a' b' c' where q: "is_clk_sensors s = [a', b', c']" using assms(2) list3 [of "is_clk_sensors s"] by (auto simp: clks_len_def)
  show ?thesis
    using assms(1) 1 2 plls_ok [OF 1] sensors_ok [OF 2] p q
    by (cases r1; cases r2) (auto simp: ipu_buttress_clk_init_def NUM_PLLS_def IPU_BUTTRESS_NUM_OF_SENS_CKS_def upt3
        numeral_3_eq_3)
qed

lemma create_file_ok:
  "device_create_file F f s = (r, s') \<Longrightarrow> ipcs s' = ipcs s \<and> is_clk_plls s' = is_clk_plls s \<and>
     is_clk_sensors s' = is_clk_sensors s \<and> is_files s' = (if r = Inr () then f # is_files s else is_files s)"
  by (auto simp: device_create_file_def ipcs_def split: sum.splits)

lemma undo_simps [simp]:
  "is_files (init_undo_clk s) = is_files s" "is_files (init_undo_min s) = filter (\<lambda>g. g \<noteq> MIN_FREQ_FILE) (is_files s)"
  "is_files (init_undo_max s) = filter (\<lambda>g. g \<noteq> MIN_FREQ_FILE) (filter (\<lambda>g. g \<noteq> MAX_FREQ_FILE) (is_files s))"
  "is_clk_plls (init_undo_clk s) = [False, False, False]" "is_clk_plls (init_undo_min s) = [False, False, False]"
  "is_clk_plls (init_undo_max s) = [False, False, False]" "is_clk_sensors (init_undo_clk s) = [False, False, False]"
  "is_clk_sensors (init_undo_min s) = [False, False, False]" "is_clk_sensors (init_undo_max s) = [False, False, False]"
  by (simp_all add: init_undo_clk_def init_undo_min_def init_undo_max_def
      ipu_buttress_clk_exit_def device_remove_file_def regs_frame_def)

lemma init_mailboxes_set: "ipcs s' = ipcs (init_mailboxes s) \<Longrightarrow> mailboxes_set s'"
  by (simp add: ipcs_def init_mailboxes_def mailboxes_set_def cse_init_def ish_init_def ipc_regs_def cse_regs_def
      ish_regs_def)

lemma init_outcome:
  assumes "ipu_buttress_init H C F e s = (r, s')" "clks_len s" "is_files s = []"
  shows "is_clk_plls s' = replicate 3 (r = Inr ()) \<and> is_clk_sensors s' = replicate 3 (r = Inr ()) \<and>
    (r = Inr () \<longrightarrow> is_files s' = [EFFICIENT_FREQ_FILE, MAX_FREQ_FILE, MIN_FREQ_FILE] \<and> mailboxes_set s') \<and>
    (r \<noteq> Inr () \<longrightarrow> is_files s' = [] \<or> is_files s' = [EFFICIENT_FREQ_FILE])"
proof -
  let ?s0 = "init_mailboxes s"
  have len: "clks_len ?s0" "is_files ?s0 = []" using assms(2,3) by (simp_all add: clks_len_def init_mailboxes_def)
  obtain r1 s1 where 1: "ipu_buttress_clk_init C ?s0 = (r1, s1)" by fastforce
  note c = clk_init_all_or_none [OF 1 len(1)]
  let ?h = "init_hw H e s1"
  note h = init_hw_resources [of H e s1]
  obtain r2 s2 where 2: "device_create_file F MIN_FREQ_FILE ?h = (r2, s2)" by fastforce
  obtain r3 s3 where 3: "device_create_file F MAX_FREQ_FILE s2 = (r3, s3)" by fastforce
  obtain r4 s4 where 4: "device_create_file F EFFICIENT_FREQ_FILE s3 = (r4, s4)" by fastforce
  obtain r5 s5 where 5: "reset_attempts H BUTTRESS_CSE_IPC_RESET_RETRY s4 = (r5, s5)" by fastforce
  note f = create_file_ok [OF 2] create_file_ok [OF 3] create_file_ok [OF 4] reset_attempts_resources [OF 5]
  have fin: "ipcs s5 = ipcs ?s0" "is_files s1 = []"
    using c h f len by (auto simp: regs_frame_def ipcs_def)
  show ?thesis
  proof (cases r1)
    case (Inl x)
    then have "(r, s') = (Inl x, s1)" using assms(1) 1 by (simp add: ipu_buttress_init_def)
    then show ?thesis using c Inl fin by simp
  next
    case i1: (Inr u)
    have h': "is_files ?h = []" "is_clk_plls ?h = replicate 3 True" "is_clk_sensors ?h = replicate 3 True"
      using h c i1 fin by (auto simp: resources_def)
    show ?thesis
    proof (cases r2)
      case (Inl x)
      then have "(r, s') = (Inl x, init_undo_clk s2)" using assms(1) 1 2 i1 by (simp add: ipu_buttress_init_def)
      then show ?thesis using f(1) Inl h' by (simp add: numeral_3_eq_3)
    next
      case i2: (Inr u)
      show ?thesis
      proof (cases r3)
        case (Inl x)
        then have "(r, s') = (Inl x, init_undo_min s3)" using assms(1) 1 2 3 i1 i2 by (simp add: ipu_buttress_init_def)
        then show ?thesis using f Inl h' i2 by (simp add: numeral_3_eq_3)
      next
        case i3: (Inr u)
        show ?thesis
        proof (cases r4)
          case (Inl x)
          then have "(r, s') = (Inl x, init_undo_max s4)" using assms(1) 1 2 3 4 i1 i2 i3 by (simp add: ipu_buttress_init_def)
          then show ?thesis using f Inl h' i2 i3 by (simp add: numeral_3_eq_3)
        next
          case i4: (Inr u)
          show ?thesis
          proof (cases r5)
            case (Inl x)
            then have "(r, s') = (Inl x, init_undo_max s5)"
              using assms(1) 1 2 3 4 5 i1 i2 i3 i4 by (simp add: ipu_buttress_init_def)
            then show ?thesis using f Inl h' i2 i3 i4 by (simp add: numeral_3_eq_3 resources_def)
          next
            case (Inr u)
            then have "(r, s') = (Inr (), s5)" using assms(1) 1 2 3 4 5 i1 i2 i3 i4 by (simp add: ipu_buttress_init_def)
            then show ?thesis using f h' i2 i3 i4 init_mailboxes_set [OF fin(1)] by (simp add: resources_def)
          qed
        qed
      qed
    qed
  qed
qed

lemma release_written [simp]:
  "written q (unregister_clks s) = written q s" "written q (device_remove_file f s) = written q s"
  by (simp_all add: written_def unregister_clks_def device_remove_file_def)


text \<open>A security engine that never answers, on a part whose secure mode is on.\<close>

definition demo_dead :: "unit hw_ops" where
  "demo_dead = \<lparr>hw_read = (\<lambda>_ h. (0x10000, h)), hw_write = (\<lambda>_ _ h. h), hw_irqs = (\<lambda>_. []), hw_polls = (\<lambda>_. 0),
     hw_pm_get = (\<lambda>h. (Inr (), h))\<rparr>"

definition demo_clks :: clk_framework where
  "demo_clks = \<lparr>cf_alloc_pll = (\<lambda>_. True), cf_register_pll = (\<lambda>_. Inr ()), cf_alloc_sensor = (\<lambda>_. True),
     cf_register_sensor = (\<lambda>_. Inr ()), cf_set_parent = (\<lambda>_. Inr ()), cf_clkdev = (\<lambda>_. Inr ())\<rparr>"

lemma dead_loop: "fst (reset_loop demo_dead d n s) = Inl ETIMEDOUT"
  by (induction n arbitrary: s) (simp_all add: rd_def demo_dead_def Let_def ENTRY_def EXIT_def QUERY_def split_beta)

lemma dead_reset: "is_secure_mode s \<Longrightarrow> fst (ipu_buttress_ipc_reset demo_dead d s) = Inl ETIMEDOUT"
  by (simp add: ipu_buttress_ipc_reset_def Let_def dead_loop split_beta)

lemma reset_keeps_secure: "is_secure_mode (snd (reset_loop H d n s)) = is_secure_mode s"
proof (induction n arbitrary: s)
  case (Suc n)
  have w: "is_secure_mode (wr H q v t) = is_secure_mode t" for q v t by (simp add: wr_def)
  have r: "is_secure_mode (snd (rd H q t)) = is_secure_mode t" for q t by (simp add: rd_def split_beta)
  show ?case using Suc by (simp add: Let_def split_beta w r reset_exit_def)
qed simp

lemma dead_attempts: "is_secure_mode s \<Longrightarrow> fst (reset_attempts demo_dead n s) = Inl ETIMEDOUT"
proof (induction n arbitrary: s)
  case 0
  then show ?case using dead_reset [of s IPU_BUTTRESS_IPC_CSE] by (auto simp: reset_attempts.simps [of _ 0] split_beta split: sum.splits)
next
  case (Suc n)
  obtain q t where t: "ipu_buttress_ipc_reset demo_dead IPU_BUTTRESS_IPC_CSE s = (q, t)" by fastforce
  have "is_secure_mode t"
  proof -
    have w: "is_secure_mode (wr H q v t) = is_secure_mode t" for H :: "unit hw_ops" and q v t by (simp add: wr_def)
    have r: "is_secure_mode (snd (rd H q t)) = is_secure_mode t" for H :: "unit hw_ops" and q t by (simp add: rd_def split_beta)
    have "is_secure_mode (snd (ipu_buttress_ipc_reset demo_dead IPU_BUTTRESS_IPC_CSE s)) = is_secure_mode s"
      by (simp add: ipu_buttress_ipc_reset_def Let_def split_beta reset_keeps_secure w r)
    then show ?thesis using t Suc.prems by simp
  qed
  moreover have "q = Inl ETIMEDOUT" using dead_reset [OF Suc.prems, of IPU_BUTTRESS_IPC_CSE] t by simp
  ultimately show ?case using Suc.IH t by (simp add: reset_attempts.simps [of _ "Suc n"])
qed

text \<open>
  When the security engine does not take part in the reset handshake, the error path of the start goes to
  the label that leaves the file of the efficient frequency in place.
\<close>

theorem init_failure_leaves_file:
  "\<exists>t. ipu_buttress_init demo_dead demo_clks (\<lambda>_. Inr ()) True (demo_isp ()) = (Inl ETIMEDOUT, t) \<and>
     is_files t = [EFFICIENT_FREQ_FILE]"
proof -
  obtain r1 s1 where 1: "ipu_buttress_clk_init demo_clks (init_mailboxes (demo_isp ())) = (r1, s1)" by fastforce
  have r1: "r1 = Inr ()" using 1
    by (simp add: ipu_buttress_clk_init_def NUM_PLLS_def IPU_BUTTRESS_NUM_OF_SENS_CKS_def upt3 register_pll_def
        register_sensor_def demo_clks_def Let_def)
  have "regs_frame s1 = regs_frame (init_mailboxes (demo_isp ()))"
    using clk_init_all_or_none [OF 1] by (simp add: clks_len_def demo_isp_def init_mailboxes_def)
  then have f1: "is_files s1 = []" by (simp add: regs_frame_def init_mailboxes_def demo_isp_def)
  let ?h = "init_hw demo_dead True s1"
  have fh: "is_files ?h = []" using init_hw_resources [of demo_dead True s1] f1 by (simp add: resources_def)
  have sec: "is_secure_mode ?h"
    by (simp add: init_hw_def Let_def ipu_buttress_get_secure_mode_def split_beta rd_def wr_def demo_dead_def FW_SECURE_MODE_def)
  let ?s = "?h\<lparr>is_files := [EFFICIENT_FREQ_FILE, MAX_FREQ_FILE, MIN_FREQ_FILE]\<rparr>"
  obtain r5 s5 where 5: "reset_attempts demo_dead BUTTRESS_CSE_IPC_RESET_RETRY ?s = (r5, s5)" by fastforce
  have "r5 = Inl ETIMEDOUT" using dead_attempts [of ?s BUTTRESS_CSE_IPC_RESET_RETRY] 5 sec by simp
  moreover have "is_files s5 = is_files ?s" using reset_attempts_resources [OF 5] by (simp add: resources_def)
  ultimately show ?thesis using 1 r1 5 fh by (simp add: ipu_buttress_init_def device_create_file_def)
qed


section \<open>The firmware image and the clock reference: properties\<close>

text \<open>
  Mapping the firmware image frees the array of its pages whatever happens, keeps the scatter list exactly
  when it succeeds, with one entry for each page of the image, and unmapping gives everything back.
\<close>

theorem map_fw_image_balanced:
  assumes "ipu_buttress_map_fw_image k vp sg dm addr sz \<lparr>fm_pages = None, fm_sgt = None, fm_mapped = False, fm_synced = False\<rparr> = (r, m)"
  shows "fm_pages m = None \<and> fm_mapped m = (r = Inr ()) \<and>
    (r \<noteq> Inr () \<longrightarrow> fm_sgt m = None) \<and>
    (r = Inr () \<longrightarrow> (\<exists>ps. fm_sgt m = Some ps \<and> length ps = (sz + 4095) div 4096 \<and>
       (\<forall>i < length ps. vp (addr + i * 4096) = Some (ps ! i)))) \<and>
    snd (ipu_buttress_unmap_fw_image m) = \<lparr>fm_pages = None, fm_sgt = None, fm_mapped = False, fm_synced = False\<rparr>"
proof -
  have pages: "length ps = n \<and> (\<forall>i < n. vp (a + i * 4096) = Some (ps ! i))" if "image_pages vp a n = Some ps" for a n ps
    using that
  proof (induction n arbitrary: a ps)
    case (Suc n)
    then obtain p qs where q: "vp a = Some p" "image_pages vp (a + FW_PAGE_SIZE) n = Some qs" "ps = p # qs"
      by (auto split: option.splits)
    note ih = Suc.IH [OF q(2)]
    have "vp (a + i * 4096) = Some (ps ! i)" if "i < Suc n" for i
    proof (cases i)
      case 0
      then show ?thesis using q by simp
    next
      case (Suc j)
      then have "vp (a + FW_PAGE_SIZE + j * 4096) = Some (qs ! j)" using ih that by simp
      then show ?thesis using q Suc by (simp add: FW_PAGE_SIZE_def add.assoc)
    qed
    then show ?case using ih q by simp
  qed simp
  have u: "fm_pages m = None \<Longrightarrow> snd (ipu_buttress_unmap_fw_image m) = \<lparr>fm_pages = None, fm_sgt = None, fm_mapped = False, fm_synced = False\<rparr>"
    by (simp add: ipu_buttress_unmap_fw_image_def)
  have n: "n_pages sz = (sz + 4095) div 4096" by (simp add: n_pages_def FW_PAGE_SIZE_def)
  show ?thesis
    using assms pages [of addr "n_pages sz"] u
    by (cases k; cases "image_pages vp addr (n_pages sz)"; cases sg; cases dm)
      (auto simp: ipu_buttress_map_fw_image_def Let_def n)
qed

theorem map_fw_image_balanced_witness:
  "\<exists>r m. ipu_buttress_map_fw_image True (\<lambda>a. Some (a div 4096)) True (Inr ()) 8192 5000
     \<lparr>fm_pages = None, fm_sgt = None, fm_mapped = False, fm_synced = False\<rparr> = (r, m) \<and> fm_mapped m = (r = Inr ())"
proof -
  obtain r m where "ipu_buttress_map_fw_image True (\<lambda>a. Some (a div 4096)) True (Inr ()) 8192 5000
     \<lparr>fm_pages = None, fm_sgt = None, fm_mapped = False, fm_synced = False\<rparr> = (r, m)" by fastforce
  then show ?thesis using map_fw_image_balanced by blast
qed

text \<open>
  A sensor clock whose power reference cannot be taken is not prepared, so the framework never unprepares it,
  but the reference stays counted.
\<close>

theorem failed_prepare_keeps_reference:
  "ipu_buttress_clk_pll_prepare (Inl e) usage = (Inl e, usage + 1)"
  "ipu_buttress_clk_pll_unprepare (snd (ipu_buttress_clk_pll_prepare (Inr ()) usage)) = usage"
  by (simp_all add: ipu_buttress_clk_pll_prepare_def ipu_buttress_clk_pll_unprepare_def)

end
