(* ===== verification/IsysFormats.thy ===== *)
theory IsysFormats
  imports Prelude "HOL-Library.Signed_Division"
begin

text \<open>
  The pure part of the imaging system: the tables of pixel formats and media bus codes, format
  negotiation of a video node (\<^verbatim>\<open>ipu-isys-video.c\<close>), the properties of a code (\<^verbatim>\<open>ipu-isys-subdev.c\<close>,
  \<^verbatim>\<open>ipu-fw-isys.c\<close>), the code after a crop (\<^verbatim>\<open>ipu-isys-csi2-be.c\<close>), the receiver's timing
  (\<^verbatim>\<open>ipu-isys-csi2.c\<close>) and the time stamp of a trace message (\<^verbatim>\<open>ipu4p-isys-csi2.c\<close>).

  Proved: a negotiated format fits its buffer, code tables agree with each other but for one
  code, a crop keeps the colour of every pixel, a time stamp sampled in two halves is put
  together again.
\<close>

section \<open>Tables\<close>

datatype v4l2_pix_fmt =
    V4L2_PIX_FMT_Y10 | V4L2_PIX_FMT_YUYV420_V32 | V4L2_PIX_FMT_SBGGR12 | V4L2_PIX_FMT_SGBRG12
    | V4L2_PIX_FMT_SGRBG12 | V4L2_PIX_FMT_SRGGB12 | V4L2_PIX_FMT_SBGGR10 | V4L2_PIX_FMT_SGBRG10
    | V4L2_PIX_FMT_SGRBG10 | V4L2_PIX_FMT_SRGGB10 | V4L2_PIX_FMT_SBGGR8 | V4L2_PIX_FMT_SGBRG8
    | V4L2_PIX_FMT_SGRBG8 | V4L2_PIX_FMT_SRGGB8 | V4L2_PIX_FMT_SBGGR14V32
    | V4L2_PIX_FMT_SGBRG14V32 | V4L2_PIX_FMT_SGRBG14V32 | V4L2_PIX_FMT_SRGGB14V32
    | V4L2_PIX_FMT_SBGGR12V32 | V4L2_PIX_FMT_SGBRG12V32 | V4L2_PIX_FMT_SGRBG12V32
    | V4L2_PIX_FMT_SRGGB12V32 | V4L2_PIX_FMT_SBGGR10V32 | V4L2_PIX_FMT_SGBRG10V32
    | V4L2_PIX_FMT_SGRBG10V32 | V4L2_PIX_FMT_SRGGB10V32 | V4L2_PIX_FMT_SBGGR8_16V32
    | V4L2_PIX_FMT_SGBRG8_16V32 | V4L2_PIX_FMT_SGRBG8_16V32 | V4L2_PIX_FMT_SRGGB8_16V32
    | V4L2_FMT_IPU_ISYS_META | V4L2_PIX_FMT_UYVY | V4L2_PIX_FMT_YUYV | V4L2_PIX_FMT_NV16
    | V4L2_PIX_FMT_YUV420 | V4L2_PIX_FMT_XRGB32 | V4L2_PIX_FMT_XBGR32 | V4L2_PIX_FMT_SBGGR14
    | V4L2_PIX_FMT_SGBRG14 | V4L2_PIX_FMT_SGRBG14 | V4L2_PIX_FMT_SRGGB14 | V4L2_PIX_FMT_Y210
    | V4L2_PIX_FMT_RGB565 | V4L2_PIX_FMT_BGR24 | V4L2_PIX_FMT_SBGGR12P | V4L2_PIX_FMT_SGBRG12P
    | V4L2_PIX_FMT_SGRBG12P | V4L2_PIX_FMT_SRGGB12P | V4L2_PIX_FMT_SBGGR14P
    | V4L2_PIX_FMT_SGBRG14P | V4L2_PIX_FMT_SGRBG14P | V4L2_PIX_FMT_SRGGB14P
    | V4L2_PIX_FMT_SBGGR10P | V4L2_PIX_FMT_SGBRG10P | V4L2_PIX_FMT_SGRBG10P
    | V4L2_PIX_FMT_SRGGB10P

datatype media_bus_fmt =
    MEDIA_BUS_FMT_Y10_1X10 | MEDIA_BUS_FMT_YUYV12_1X24 | MEDIA_BUS_FMT_SBGGR12_1X12
    | MEDIA_BUS_FMT_SGBRG12_1X12 | MEDIA_BUS_FMT_SGRBG12_1X12 | MEDIA_BUS_FMT_SRGGB12_1X12
    | MEDIA_BUS_FMT_SBGGR10_1X10 | MEDIA_BUS_FMT_SGBRG10_1X10 | MEDIA_BUS_FMT_SGRBG10_1X10
    | MEDIA_BUS_FMT_SRGGB10_1X10 | MEDIA_BUS_FMT_SBGGR8_1X8 | MEDIA_BUS_FMT_SGBRG8_1X8
    | MEDIA_BUS_FMT_SGRBG8_1X8 | MEDIA_BUS_FMT_SRGGB8_1X8 | MEDIA_BUS_FMT_SBGGR14_1X14
    | MEDIA_BUS_FMT_SGBRG14_1X14 | MEDIA_BUS_FMT_SGRBG14_1X14 | MEDIA_BUS_FMT_SRGGB14_1X14
    | MEDIA_BUS_FMT_FIXED | MEDIA_BUS_FMT_UYVY8_1X16 | MEDIA_BUS_FMT_YUYV8_1X16
    | MEDIA_BUS_FMT_UYVY8_2X8 | MEDIA_BUS_FMT_RGB565_1X16 | MEDIA_BUS_FMT_RGB888_1X24
    | MEDIA_BUS_FMT_YUYV10_1X20 | MEDIA_BUS_FMT_SBGGR10_DPCM8_1X8
    | MEDIA_BUS_FMT_SGBRG10_DPCM8_1X8 | MEDIA_BUS_FMT_SGRBG10_DPCM8_1X8
    | MEDIA_BUS_FMT_SRGGB10_DPCM8_1X8
    | MEDIA_BUS_FMT_Y8_1X8

definition IPU_FW_ISYS_FRAME_FORMAT_NV16 :: u32 where "IPU_FW_ISYS_FRAME_FORMAT_NV16 = 4"
definition IPU_FW_ISYS_FRAME_FORMAT_YUV420 :: u32 where "IPU_FW_ISYS_FRAME_FORMAT_YUV420 = 9"
definition IPU_FW_ISYS_FRAME_FORMAT_YUV420_16 :: u32 where "IPU_FW_ISYS_FRAME_FORMAT_YUV420_16 = 13"
definition IPU_FW_ISYS_FRAME_FORMAT_UYVY :: u32 where "IPU_FW_ISYS_FRAME_FORMAT_UYVY = 16"
definition IPU_FW_ISYS_FRAME_FORMAT_YUYV :: u32 where "IPU_FW_ISYS_FRAME_FORMAT_YUYV = 17"
definition IPU_FW_ISYS_FRAME_FORMAT_RAW8 :: u32 where "IPU_FW_ISYS_FRAME_FORMAT_RAW8 = 20"
definition IPU_FW_ISYS_FRAME_FORMAT_RAW10 :: u32 where "IPU_FW_ISYS_FRAME_FORMAT_RAW10 = 21"
definition IPU_FW_ISYS_FRAME_FORMAT_RAW12 :: u32 where "IPU_FW_ISYS_FRAME_FORMAT_RAW12 = 22"
definition IPU_FW_ISYS_FRAME_FORMAT_RAW14 :: u32 where "IPU_FW_ISYS_FRAME_FORMAT_RAW14 = 23"
definition IPU_FW_ISYS_FRAME_FORMAT_RAW16 :: u32 where "IPU_FW_ISYS_FRAME_FORMAT_RAW16 = 24"
definition IPU_FW_ISYS_FRAME_FORMAT_RGB565 :: u32 where "IPU_FW_ISYS_FRAME_FORMAT_RGB565 = 25"
definition IPU_FW_ISYS_FRAME_FORMAT_RGBA888 :: u32 where "IPU_FW_ISYS_FRAME_FORMAT_RGBA888 = 27"
definition IPU_FW_ISYS_MIPI_DATA_TYPE_EMBEDDED :: u32
  where "IPU_FW_ISYS_MIPI_DATA_TYPE_EMBEDDED = 0x12"

text \<open>\<^verbatim>\<open>struct ipu_isys_pixelformat\<close>; \<^verbatim>\<open>is_meta\<close> is false in every table.\<close>

record isys_pixelformat =
  pf_pixelformat :: v4l2_pix_fmt
  pf_bpp :: u32
  pf_bpp_packed :: u32
  pf_bpp_planar :: u32
  pf_code :: media_bus_fmt
  pf_css_pixelformat :: u32
  pf_is_meta :: bool

abbreviation pfmt ::
  "v4l2_pix_fmt \<Rightarrow> u32 \<Rightarrow> u32 \<Rightarrow> u32 \<Rightarrow> media_bus_fmt \<Rightarrow> u32 \<Rightarrow> isys_pixelformat" where
  "pfmt f b k p c x \<equiv> \<lparr>pf_pixelformat = f, pf_bpp = b, pf_bpp_packed = k, pf_bpp_planar = p,
     pf_code = c, pf_css_pixelformat = x, pf_is_meta = False\<rparr>"

definition ipu_isys_pfmts :: "isys_pixelformat list" where
  "ipu_isys_pfmts =
    [pfmt V4L2_PIX_FMT_Y10 10 10 0 MEDIA_BUS_FMT_Y10_1X10
       IPU_FW_ISYS_FRAME_FORMAT_RAW10,
     pfmt V4L2_PIX_FMT_YUYV420_V32 24 24 0 MEDIA_BUS_FMT_YUYV12_1X24
       IPU_FW_ISYS_FRAME_FORMAT_YUV420_16,
     pfmt V4L2_PIX_FMT_SBGGR12 16 12 0 MEDIA_BUS_FMT_SBGGR12_1X12
       IPU_FW_ISYS_FRAME_FORMAT_RAW16,
     pfmt V4L2_PIX_FMT_SGBRG12 16 12 0 MEDIA_BUS_FMT_SGBRG12_1X12
       IPU_FW_ISYS_FRAME_FORMAT_RAW16,
     pfmt V4L2_PIX_FMT_SGRBG12 16 12 0 MEDIA_BUS_FMT_SGRBG12_1X12
       IPU_FW_ISYS_FRAME_FORMAT_RAW16,
     pfmt V4L2_PIX_FMT_SRGGB12 16 12 0 MEDIA_BUS_FMT_SRGGB12_1X12
       IPU_FW_ISYS_FRAME_FORMAT_RAW16,
     pfmt V4L2_PIX_FMT_SBGGR10 16 10 0 MEDIA_BUS_FMT_SBGGR10_1X10
       IPU_FW_ISYS_FRAME_FORMAT_RAW16,
     pfmt V4L2_PIX_FMT_SGBRG10 16 10 0 MEDIA_BUS_FMT_SGBRG10_1X10
       IPU_FW_ISYS_FRAME_FORMAT_RAW16,
     pfmt V4L2_PIX_FMT_SGRBG10 16 10 0 MEDIA_BUS_FMT_SGRBG10_1X10
       IPU_FW_ISYS_FRAME_FORMAT_RAW16,
     pfmt V4L2_PIX_FMT_SRGGB10 16 10 0 MEDIA_BUS_FMT_SRGGB10_1X10
       IPU_FW_ISYS_FRAME_FORMAT_RAW16,
     pfmt V4L2_PIX_FMT_SBGGR8 8 8 0 MEDIA_BUS_FMT_SBGGR8_1X8
       IPU_FW_ISYS_FRAME_FORMAT_RAW8,
     pfmt V4L2_PIX_FMT_SGBRG8 8 8 0 MEDIA_BUS_FMT_SGBRG8_1X8
       IPU_FW_ISYS_FRAME_FORMAT_RAW8,
     pfmt V4L2_PIX_FMT_SGRBG8 8 8 0 MEDIA_BUS_FMT_SGRBG8_1X8
       IPU_FW_ISYS_FRAME_FORMAT_RAW8,
     pfmt V4L2_PIX_FMT_SRGGB8 8 8 0 MEDIA_BUS_FMT_SRGGB8_1X8
       IPU_FW_ISYS_FRAME_FORMAT_RAW8,
     pfmt V4L2_PIX_FMT_SBGGR14V32 16 14 0 MEDIA_BUS_FMT_SBGGR14_1X14
       IPU_FW_ISYS_FRAME_FORMAT_RAW16,
     pfmt V4L2_PIX_FMT_SGBRG14V32 16 14 0 MEDIA_BUS_FMT_SGBRG14_1X14
       IPU_FW_ISYS_FRAME_FORMAT_RAW16,
     pfmt V4L2_PIX_FMT_SGRBG14V32 16 14 0 MEDIA_BUS_FMT_SGRBG14_1X14
       IPU_FW_ISYS_FRAME_FORMAT_RAW16,
     pfmt V4L2_PIX_FMT_SRGGB14V32 16 14 0 MEDIA_BUS_FMT_SRGGB14_1X14
       IPU_FW_ISYS_FRAME_FORMAT_RAW16,
     pfmt V4L2_PIX_FMT_SBGGR12V32 16 12 0 MEDIA_BUS_FMT_SBGGR12_1X12
       IPU_FW_ISYS_FRAME_FORMAT_RAW16,
     pfmt V4L2_PIX_FMT_SGBRG12V32 16 12 0 MEDIA_BUS_FMT_SGBRG12_1X12
       IPU_FW_ISYS_FRAME_FORMAT_RAW16,
     pfmt V4L2_PIX_FMT_SGRBG12V32 16 12 0 MEDIA_BUS_FMT_SGRBG12_1X12
       IPU_FW_ISYS_FRAME_FORMAT_RAW16,
     pfmt V4L2_PIX_FMT_SRGGB12V32 16 12 0 MEDIA_BUS_FMT_SRGGB12_1X12
       IPU_FW_ISYS_FRAME_FORMAT_RAW16,
     pfmt V4L2_PIX_FMT_SBGGR10V32 16 10 0 MEDIA_BUS_FMT_SBGGR10_1X10
       IPU_FW_ISYS_FRAME_FORMAT_RAW16,
     pfmt V4L2_PIX_FMT_SGBRG10V32 16 10 0 MEDIA_BUS_FMT_SGBRG10_1X10
       IPU_FW_ISYS_FRAME_FORMAT_RAW16,
     pfmt V4L2_PIX_FMT_SGRBG10V32 16 10 0 MEDIA_BUS_FMT_SGRBG10_1X10
       IPU_FW_ISYS_FRAME_FORMAT_RAW16,
     pfmt V4L2_PIX_FMT_SRGGB10V32 16 10 0 MEDIA_BUS_FMT_SRGGB10_1X10
       IPU_FW_ISYS_FRAME_FORMAT_RAW16,
     pfmt V4L2_PIX_FMT_SBGGR8_16V32 16 8 0 MEDIA_BUS_FMT_SBGGR8_1X8
       IPU_FW_ISYS_FRAME_FORMAT_RAW16,
     pfmt V4L2_PIX_FMT_SGBRG8_16V32 16 8 0 MEDIA_BUS_FMT_SGBRG8_1X8
       IPU_FW_ISYS_FRAME_FORMAT_RAW16,
     pfmt V4L2_PIX_FMT_SGRBG8_16V32 16 8 0 MEDIA_BUS_FMT_SGRBG8_1X8
       IPU_FW_ISYS_FRAME_FORMAT_RAW16,
     pfmt V4L2_PIX_FMT_SRGGB8_16V32 16 8 0 MEDIA_BUS_FMT_SRGGB8_1X8
       IPU_FW_ISYS_FRAME_FORMAT_RAW16,
     pfmt V4L2_FMT_IPU_ISYS_META 8 8 0 MEDIA_BUS_FMT_FIXED
       IPU_FW_ISYS_MIPI_DATA_TYPE_EMBEDDED]"

definition ipu_isys_pfmts_be_soc :: "isys_pixelformat list" where
  "ipu_isys_pfmts_be_soc =
    [pfmt V4L2_PIX_FMT_Y10 16 10 0 MEDIA_BUS_FMT_Y10_1X10
       IPU_FW_ISYS_FRAME_FORMAT_RAW16,
     pfmt V4L2_PIX_FMT_UYVY 16 16 0 MEDIA_BUS_FMT_UYVY8_1X16
       IPU_FW_ISYS_FRAME_FORMAT_UYVY,
     pfmt V4L2_PIX_FMT_YUYV 16 16 0 MEDIA_BUS_FMT_YUYV8_1X16
       IPU_FW_ISYS_FRAME_FORMAT_YUYV,
     pfmt V4L2_PIX_FMT_NV16 16 16 8 MEDIA_BUS_FMT_UYVY8_1X16
       IPU_FW_ISYS_FRAME_FORMAT_NV16,
     pfmt V4L2_PIX_FMT_YUV420 12 0 8 MEDIA_BUS_FMT_UYVY8_2X8
       IPU_FW_ISYS_FRAME_FORMAT_YUV420,
     pfmt V4L2_PIX_FMT_XRGB32 32 32 0 MEDIA_BUS_FMT_RGB565_1X16
       IPU_FW_ISYS_FRAME_FORMAT_RGBA888,
     pfmt V4L2_PIX_FMT_XBGR32 32 32 0 MEDIA_BUS_FMT_RGB888_1X24
       IPU_FW_ISYS_FRAME_FORMAT_RGBA888,
     pfmt V4L2_PIX_FMT_SBGGR14 16 14 0 MEDIA_BUS_FMT_SBGGR14_1X14
       IPU_FW_ISYS_FRAME_FORMAT_RAW16,
     pfmt V4L2_PIX_FMT_SGBRG14 16 14 0 MEDIA_BUS_FMT_SGBRG14_1X14
       IPU_FW_ISYS_FRAME_FORMAT_RAW16,
     pfmt V4L2_PIX_FMT_SGRBG14 16 14 0 MEDIA_BUS_FMT_SGRBG14_1X14
       IPU_FW_ISYS_FRAME_FORMAT_RAW16,
     pfmt V4L2_PIX_FMT_SRGGB14 16 14 0 MEDIA_BUS_FMT_SRGGB14_1X14
       IPU_FW_ISYS_FRAME_FORMAT_RAW16,
     pfmt V4L2_PIX_FMT_SBGGR12 16 12 0 MEDIA_BUS_FMT_SBGGR12_1X12
       IPU_FW_ISYS_FRAME_FORMAT_RAW16,
     pfmt V4L2_PIX_FMT_SGBRG12 16 12 0 MEDIA_BUS_FMT_SGBRG12_1X12
       IPU_FW_ISYS_FRAME_FORMAT_RAW16,
     pfmt V4L2_PIX_FMT_SGRBG12 16 12 0 MEDIA_BUS_FMT_SGRBG12_1X12
       IPU_FW_ISYS_FRAME_FORMAT_RAW16,
     pfmt V4L2_PIX_FMT_SRGGB12 16 12 0 MEDIA_BUS_FMT_SRGGB12_1X12
       IPU_FW_ISYS_FRAME_FORMAT_RAW16,
     pfmt V4L2_PIX_FMT_SBGGR10 16 10 0 MEDIA_BUS_FMT_SBGGR10_1X10
       IPU_FW_ISYS_FRAME_FORMAT_RAW16,
     pfmt V4L2_PIX_FMT_SGBRG10 16 10 0 MEDIA_BUS_FMT_SGBRG10_1X10
       IPU_FW_ISYS_FRAME_FORMAT_RAW16,
     pfmt V4L2_PIX_FMT_SGRBG10 16 10 0 MEDIA_BUS_FMT_SGRBG10_1X10
       IPU_FW_ISYS_FRAME_FORMAT_RAW16,
     pfmt V4L2_PIX_FMT_SRGGB10 16 10 0 MEDIA_BUS_FMT_SRGGB10_1X10
       IPU_FW_ISYS_FRAME_FORMAT_RAW16,
     pfmt V4L2_PIX_FMT_SBGGR8 8 8 0 MEDIA_BUS_FMT_SBGGR8_1X8
       IPU_FW_ISYS_FRAME_FORMAT_RAW8,
     pfmt V4L2_PIX_FMT_SGBRG8 8 8 0 MEDIA_BUS_FMT_SGBRG8_1X8
       IPU_FW_ISYS_FRAME_FORMAT_RAW8,
     pfmt V4L2_PIX_FMT_SGRBG8 8 8 0 MEDIA_BUS_FMT_SGRBG8_1X8
       IPU_FW_ISYS_FRAME_FORMAT_RAW8,
     pfmt V4L2_PIX_FMT_SRGGB8 8 8 0 MEDIA_BUS_FMT_SRGGB8_1X8
       IPU_FW_ISYS_FRAME_FORMAT_RAW8]"

definition ipu_isys_pfmts_packed :: "isys_pixelformat list" where
  "ipu_isys_pfmts_packed =
    [pfmt V4L2_PIX_FMT_Y10 10 10 0 MEDIA_BUS_FMT_Y10_1X10
       IPU_FW_ISYS_FRAME_FORMAT_RAW10,
     pfmt V4L2_PIX_FMT_Y210 20 20 0 MEDIA_BUS_FMT_YUYV10_1X20
       IPU_FW_ISYS_FRAME_FORMAT_YUYV,
     pfmt V4L2_PIX_FMT_UYVY 16 16 0 MEDIA_BUS_FMT_UYVY8_1X16
       IPU_FW_ISYS_FRAME_FORMAT_UYVY,
     pfmt V4L2_PIX_FMT_YUYV 16 16 0 MEDIA_BUS_FMT_YUYV8_1X16
       IPU_FW_ISYS_FRAME_FORMAT_YUYV,
     pfmt V4L2_PIX_FMT_RGB565 16 16 0 MEDIA_BUS_FMT_RGB565_1X16
       IPU_FW_ISYS_FRAME_FORMAT_RGB565,
     pfmt V4L2_PIX_FMT_BGR24 24 24 0 MEDIA_BUS_FMT_RGB888_1X24
       IPU_FW_ISYS_FRAME_FORMAT_RGBA888,
     pfmt V4L2_PIX_FMT_SBGGR12P 12 12 0 MEDIA_BUS_FMT_SBGGR12_1X12
       IPU_FW_ISYS_FRAME_FORMAT_RAW12,
     pfmt V4L2_PIX_FMT_SGBRG12P 12 12 0 MEDIA_BUS_FMT_SGBRG12_1X12
       IPU_FW_ISYS_FRAME_FORMAT_RAW12,
     pfmt V4L2_PIX_FMT_SGRBG12P 12 12 0 MEDIA_BUS_FMT_SGRBG12_1X12
       IPU_FW_ISYS_FRAME_FORMAT_RAW12,
     pfmt V4L2_PIX_FMT_SRGGB12P 12 12 0 MEDIA_BUS_FMT_SRGGB12_1X12
       IPU_FW_ISYS_FRAME_FORMAT_RAW12,
     pfmt V4L2_PIX_FMT_SBGGR14P 14 14 0 MEDIA_BUS_FMT_SBGGR14_1X14
       IPU_FW_ISYS_FRAME_FORMAT_RAW14,
     pfmt V4L2_PIX_FMT_SGBRG14P 14 14 0 MEDIA_BUS_FMT_SGBRG14_1X14
       IPU_FW_ISYS_FRAME_FORMAT_RAW14,
     pfmt V4L2_PIX_FMT_SGRBG14P 14 14 0 MEDIA_BUS_FMT_SGRBG14_1X14
       IPU_FW_ISYS_FRAME_FORMAT_RAW14,
     pfmt V4L2_PIX_FMT_SRGGB14P 14 14 0 MEDIA_BUS_FMT_SRGGB14_1X14
       IPU_FW_ISYS_FRAME_FORMAT_RAW14,
     pfmt V4L2_PIX_FMT_SBGGR10P 10 10 0 MEDIA_BUS_FMT_SBGGR10_1X10
       IPU_FW_ISYS_FRAME_FORMAT_RAW10,
     pfmt V4L2_PIX_FMT_SGBRG10P 10 10 0 MEDIA_BUS_FMT_SGBRG10_1X10
       IPU_FW_ISYS_FRAME_FORMAT_RAW10,
     pfmt V4L2_PIX_FMT_SGRBG10P 10 10 0 MEDIA_BUS_FMT_SGRBG10_1X10
       IPU_FW_ISYS_FRAME_FORMAT_RAW10,
     pfmt V4L2_PIX_FMT_SRGGB10P 10 10 0 MEDIA_BUS_FMT_SRGGB10_1X10
       IPU_FW_ISYS_FRAME_FORMAT_RAW10,
     pfmt V4L2_PIX_FMT_SBGGR8 8 8 0 MEDIA_BUS_FMT_SBGGR8_1X8
       IPU_FW_ISYS_FRAME_FORMAT_RAW8,
     pfmt V4L2_PIX_FMT_SGBRG8 8 8 0 MEDIA_BUS_FMT_SGBRG8_1X8
       IPU_FW_ISYS_FRAME_FORMAT_RAW8,
     pfmt V4L2_PIX_FMT_SGRBG8 8 8 0 MEDIA_BUS_FMT_SGRBG8_1X8
       IPU_FW_ISYS_FRAME_FORMAT_RAW8,
     pfmt V4L2_PIX_FMT_SRGGB8 8 8 0 MEDIA_BUS_FMT_SRGGB8_1X8
       IPU_FW_ISYS_FRAME_FORMAT_RAW8]"

section \<open>Properties of a media bus code\<close>

definition EINVAL32 :: u32 where "EINVAL32 = - 22"

definition ipu_isys_mbus_code_to_bpp :: "media_bus_fmt \<Rightarrow> u32" where
  "ipu_isys_mbus_code_to_bpp code =
     (if code = MEDIA_BUS_FMT_RGB888_1X24 then 24
      else if code = MEDIA_BUS_FMT_YUYV10_1X20 then 20
      else if code \<in> {MEDIA_BUS_FMT_Y10_1X10, MEDIA_BUS_FMT_RGB565_1X16,
                       MEDIA_BUS_FMT_UYVY8_1X16, MEDIA_BUS_FMT_YUYV8_1X16} then 16
      else if code \<in> {MEDIA_BUS_FMT_SBGGR14_1X14, MEDIA_BUS_FMT_SGBRG14_1X14,
                       MEDIA_BUS_FMT_SGRBG14_1X14, MEDIA_BUS_FMT_SRGGB14_1X14} then 14
      else if code \<in> {MEDIA_BUS_FMT_SBGGR12_1X12, MEDIA_BUS_FMT_SGBRG12_1X12,
                       MEDIA_BUS_FMT_SGRBG12_1X12, MEDIA_BUS_FMT_SRGGB12_1X12} then 12
      else if code \<in> {MEDIA_BUS_FMT_SBGGR10_1X10, MEDIA_BUS_FMT_SGBRG10_1X10,
                       MEDIA_BUS_FMT_SGRBG10_1X10, MEDIA_BUS_FMT_SRGGB10_1X10} then 10
      else if code \<in> {MEDIA_BUS_FMT_SBGGR8_1X8, MEDIA_BUS_FMT_SGBRG8_1X8,
                       MEDIA_BUS_FMT_SGRBG8_1X8, MEDIA_BUS_FMT_SRGGB8_1X8,
                       MEDIA_BUS_FMT_SBGGR10_DPCM8_1X8, MEDIA_BUS_FMT_SGBRG10_DPCM8_1X8,
                       MEDIA_BUS_FMT_SGRBG10_DPCM8_1X8, MEDIA_BUS_FMT_SRGGB10_DPCM8_1X8} then 8
      else EINVAL32)"

definition IPU_ISYS_MIPI_CSI2_TYPE_YUV422_8 :: u32 where "IPU_ISYS_MIPI_CSI2_TYPE_YUV422_8 = 0x1e"
definition IPU_ISYS_MIPI_CSI2_TYPE_YUV422_10 :: u32 where "IPU_ISYS_MIPI_CSI2_TYPE_YUV422_10 = 0x1f"
definition IPU_ISYS_MIPI_CSI2_TYPE_RGB565 :: u32 where "IPU_ISYS_MIPI_CSI2_TYPE_RGB565 = 0x22"
definition IPU_ISYS_MIPI_CSI2_TYPE_RGB888 :: u32 where "IPU_ISYS_MIPI_CSI2_TYPE_RGB888 = 0x24"
definition IPU_ISYS_MIPI_CSI2_TYPE_RAW8 :: u32 where "IPU_ISYS_MIPI_CSI2_TYPE_RAW8 = 0x2a"
definition IPU_ISYS_MIPI_CSI2_TYPE_RAW10 :: u32 where "IPU_ISYS_MIPI_CSI2_TYPE_RAW10 = 0x2b"
definition IPU_ISYS_MIPI_CSI2_TYPE_RAW12 :: u32 where "IPU_ISYS_MIPI_CSI2_TYPE_RAW12 = 0x2c"
definition IPU_ISYS_MIPI_CSI2_TYPE_RAW14 :: u32 where "IPU_ISYS_MIPI_CSI2_TYPE_RAW14 = 0x2d"
definition IPU_ISYS_MIPI_CSI2_TYPE_USER_DEF :: "u32 \<Rightarrow> u32"
  where "IPU_ISYS_MIPI_CSI2_TYPE_USER_DEF i = 0x30 + i - 1"

definition ipu_isys_mbus_code_to_mipi :: "media_bus_fmt \<Rightarrow> u32" where
  "ipu_isys_mbus_code_to_mipi code =
     (if code = MEDIA_BUS_FMT_RGB565_1X16 then IPU_ISYS_MIPI_CSI2_TYPE_RGB565
      else if code = MEDIA_BUS_FMT_RGB888_1X24 then IPU_ISYS_MIPI_CSI2_TYPE_RGB888
      else if code = MEDIA_BUS_FMT_YUYV10_1X20 then IPU_ISYS_MIPI_CSI2_TYPE_YUV422_10
      else if code \<in> {MEDIA_BUS_FMT_UYVY8_1X16, MEDIA_BUS_FMT_YUYV8_1X16}
      then IPU_ISYS_MIPI_CSI2_TYPE_YUV422_8
      else if code \<in> {MEDIA_BUS_FMT_SBGGR14_1X14, MEDIA_BUS_FMT_SGBRG14_1X14,
                       MEDIA_BUS_FMT_SGRBG14_1X14, MEDIA_BUS_FMT_SRGGB14_1X14}
      then IPU_ISYS_MIPI_CSI2_TYPE_RAW14
      else if code \<in> {MEDIA_BUS_FMT_SBGGR12_1X12, MEDIA_BUS_FMT_SGBRG12_1X12,
                       MEDIA_BUS_FMT_SGRBG12_1X12, MEDIA_BUS_FMT_SRGGB12_1X12}
      then IPU_ISYS_MIPI_CSI2_TYPE_RAW12
      else if code \<in> {MEDIA_BUS_FMT_Y10_1X10,
                       MEDIA_BUS_FMT_SBGGR10_1X10, MEDIA_BUS_FMT_SGBRG10_1X10,
                       MEDIA_BUS_FMT_SGRBG10_1X10, MEDIA_BUS_FMT_SRGGB10_1X10}
      then IPU_ISYS_MIPI_CSI2_TYPE_RAW10
      else if code \<in> {MEDIA_BUS_FMT_SBGGR8_1X8, MEDIA_BUS_FMT_SGBRG8_1X8,
                       MEDIA_BUS_FMT_SGRBG8_1X8, MEDIA_BUS_FMT_SRGGB8_1X8}
      then IPU_ISYS_MIPI_CSI2_TYPE_RAW8
      else if code \<in> {MEDIA_BUS_FMT_SBGGR10_DPCM8_1X8, MEDIA_BUS_FMT_SGBRG10_DPCM8_1X8,
                       MEDIA_BUS_FMT_SGRBG10_DPCM8_1X8, MEDIA_BUS_FMT_SRGGB10_DPCM8_1X8}
      then IPU_ISYS_MIPI_CSI2_TYPE_USER_DEF 1
      else EINVAL32)"

datatype pixelorder = BGGR | GBRG | GRBG | RGGB

definition ipu_isys_subdev_get_pixelorder :: "media_bus_fmt \<Rightarrow> pixelorder option" where
  "ipu_isys_subdev_get_pixelorder code =
     (if code \<in> {MEDIA_BUS_FMT_SBGGR14_1X14, MEDIA_BUS_FMT_SBGGR12_1X12,
                 MEDIA_BUS_FMT_SBGGR10_1X10, MEDIA_BUS_FMT_SBGGR8_1X8,
                 MEDIA_BUS_FMT_SBGGR10_DPCM8_1X8} then Some BGGR
      else if code \<in> {MEDIA_BUS_FMT_SGBRG14_1X14, MEDIA_BUS_FMT_SGBRG12_1X12,
                 MEDIA_BUS_FMT_SGBRG10_1X10, MEDIA_BUS_FMT_SGBRG8_1X8,
                 MEDIA_BUS_FMT_SGBRG10_DPCM8_1X8} then Some GBRG
      else if code \<in> {MEDIA_BUS_FMT_SGRBG14_1X14, MEDIA_BUS_FMT_SGRBG12_1X12,
                 MEDIA_BUS_FMT_SGRBG10_1X10, MEDIA_BUS_FMT_SGRBG8_1X8,
                 MEDIA_BUS_FMT_SGRBG10_DPCM8_1X8} then Some GRBG
      else if code \<in> {MEDIA_BUS_FMT_SRGGB14_1X14, MEDIA_BUS_FMT_SRGGB12_1X12,
                 MEDIA_BUS_FMT_SRGGB10_1X10, MEDIA_BUS_FMT_SRGGB8_1X8,
                 MEDIA_BUS_FMT_SRGGB10_DPCM8_1X8} then Some RGGB
      else None)"

definition ipu_isys_subdev_code_to_uncompressed :: "media_bus_fmt \<Rightarrow> media_bus_fmt" where
  "ipu_isys_subdev_code_to_uncompressed sink_code =
     (if sink_code = MEDIA_BUS_FMT_SBGGR10_DPCM8_1X8 then MEDIA_BUS_FMT_SBGGR10_1X10
      else if sink_code = MEDIA_BUS_FMT_SGBRG10_DPCM8_1X8 then MEDIA_BUS_FMT_SGBRG10_1X10
      else if sink_code = MEDIA_BUS_FMT_SGRBG10_DPCM8_1X8 then MEDIA_BUS_FMT_SGRBG10_1X10
      else if sink_code = MEDIA_BUS_FMT_SRGGB10_DPCM8_1X8 then MEDIA_BUS_FMT_SRGGB10_1X10
      else sink_code)"

definition ipu_isys_get_compression_scheme :: "media_bus_fmt \<Rightarrow> u32" where
  "ipu_isys_get_compression_scheme code =
     (if code \<in> {MEDIA_BUS_FMT_SBGGR10_DPCM8_1X8, MEDIA_BUS_FMT_SGBRG10_DPCM8_1X8,
                 MEDIA_BUS_FMT_SGRBG10_DPCM8_1X8, MEDIA_BUS_FMT_SRGGB10_DPCM8_1X8} then 3 else 0)"

definition get_comp_format :: "media_bus_fmt \<Rightarrow> u32" where
  "get_comp_format code =
     (let udt = ipu_isys_mbus_code_to_mipi code; scheme = ipu_isys_get_compression_scheme code in
      if udt < IPU_ISYS_MIPI_CSI2_TYPE_USER_DEF 1 \<or> IPU_ISYS_MIPI_CSI2_TYPE_USER_DEF 8 < udt
      then 0
      else push_bit (unat ((udt - IPU_ISYS_MIPI_CSI2_TYPE_USER_DEF 1) * 4)) scheme)"

text \<open>\<^verbatim>\<open>extracted_bits_per_pixel_per_mipi_data_type\<close>; 0 is an unsupported type.\<close>

definition extracted_bits_per_pixel :: "u8 list" where
  "extracted_bits_per_pixel =
     [64, 64, 64, 64, 0, 0, 0, 0, 64, 64, 64, 64, 64, 64, 64, 64,
      0, 0, 8, 0, 0, 0, 0, 0, 12, 15, 12, 0, 12, 15, 16, 20,
      16, 16, 16, 18, 24, 0, 0, 0, 6, 7, 8, 10, 12, 14, 16, 8,
      8, 8, 8, 8, 8, 8, 8, 8, 0, 0, 0, 0, 0, 0, 0, 0]"

definition N_IPU_FW_ISYS_MIPI_DATA_TYPE :: u8 where "N_IPU_FW_ISYS_MIPI_DATA_TYPE = 0x40"

text \<open>The entry \<^verbatim>\<open>ipu_fw_isys_set_params\<close> reads for a data type; a type past the table is a read
  out of bounds.\<close>

definition bits_of_data_type :: "u8 \<Rightarrow> u8 option" where
  "bits_of_data_type dt =
     (if dt < N_IPU_FW_ISYS_MIPI_DATA_TYPE then Some (extracted_bits_per_pixel ! unat dt) else None)"

definition csi2_supported_codes_pad_sink :: "media_bus_fmt list" where
  "csi2_supported_codes_pad_sink =
     [MEDIA_BUS_FMT_Y10_1X10, MEDIA_BUS_FMT_RGB565_1X16, MEDIA_BUS_FMT_RGB888_1X24,
      MEDIA_BUS_FMT_UYVY8_1X16, MEDIA_BUS_FMT_YUYV8_1X16, MEDIA_BUS_FMT_YUYV10_1X20,
      MEDIA_BUS_FMT_SBGGR10_1X10, MEDIA_BUS_FMT_SGBRG10_1X10,
      MEDIA_BUS_FMT_SGRBG10_1X10, MEDIA_BUS_FMT_SRGGB10_1X10,
      MEDIA_BUS_FMT_SBGGR10_DPCM8_1X8, MEDIA_BUS_FMT_SGBRG10_DPCM8_1X8,
      MEDIA_BUS_FMT_SGRBG10_DPCM8_1X8, MEDIA_BUS_FMT_SRGGB10_DPCM8_1X8,
      MEDIA_BUS_FMT_SBGGR12_1X12, MEDIA_BUS_FMT_SGBRG12_1X12,
      MEDIA_BUS_FMT_SGRBG12_1X12, MEDIA_BUS_FMT_SRGGB12_1X12,
      MEDIA_BUS_FMT_SBGGR14_1X14, MEDIA_BUS_FMT_SGBRG14_1X14,
      MEDIA_BUS_FMT_SGRBG14_1X14, MEDIA_BUS_FMT_SRGGB14_1X14,
      MEDIA_BUS_FMT_SBGGR8_1X8, MEDIA_BUS_FMT_SGBRG8_1X8,
      MEDIA_BUS_FMT_SGRBG8_1X8, MEDIA_BUS_FMT_SRGGB8_1X8]"

section \<open>Formats of a video node\<close>

definition ipu_isys_get_pixelformat ::
  "isys_pixelformat list \<Rightarrow> media_bus_fmt list \<Rightarrow> v4l2_pix_fmt \<Rightarrow> isys_pixelformat option" where
  "ipu_isys_get_pixelformat pfmts supported_codes pixelformat =
     (case List.find (\<lambda>p. pf_pixelformat p = pixelformat \<and> pf_code p \<in> set supported_codes) pfmts of
        Some p \<Rightarrow> Some p
      | None \<Rightarrow>
          (case supported_codes of
             [] \<Rightarrow> None
           | c # _ \<Rightarrow> List.find (\<lambda>p. pf_code p = c) pfmts))"

text \<open>\<^verbatim>\<open>ipu_isys_get_isys_format\<close>: no table entry is a metadata format, so a type other than video
  capture leaves nothing.\<close>

datatype v4l2_buf_type = V4L2_BUF_TYPE_VIDEO_CAPTURE | V4L2_BUF_TYPE_VIDEO_CAPTURE_MPLANE
  | V4L2_BUF_TYPE_META_CAPTURE | V4L2_BUF_TYPE_VIDEO_OUTPUT_MPLANE

definition ipu_isys_get_isys_format ::
  "v4l2_pix_fmt \<Rightarrow> v4l2_buf_type option \<Rightarrow> isys_pixelformat option" where
  "ipu_isys_get_isys_format pixelformat ty =
     (let ps = filter (\<lambda>p. case ty of None \<Rightarrow> True
                | Some t \<Rightarrow> (pf_is_meta p \<or> t = V4L2_BUF_TYPE_VIDEO_CAPTURE) \<and>
                            (\<not> pf_is_meta p \<or> t = V4L2_BUF_TYPE_META_CAPTURE)) ipu_isys_pfmts in
      case List.find (\<lambda>p. pf_pixelformat p = pixelformat) ps of
        Some p \<Rightarrow> Some p
      | None \<Rightarrow> (case ps of [] \<Rightarrow> None | p # _ \<Rightarrow> Some p))"

definition ipu_isys_vidioc_enum_fmt ::
  "isys_pixelformat list \<Rightarrow> v4l2_buf_type \<Rightarrow> media_bus_fmt option \<Rightarrow> nat \<Rightarrow> v4l2_pix_fmt result" where
  "ipu_isys_vidioc_enum_fmt pfmts ty mbus_code index =
     (let ps = filter (\<lambda>p.
             \<not> (pf_is_meta p \<and> ty \<noteq> V4L2_BUF_TYPE_META_CAPTURE \<or>
                \<not> pf_is_meta p \<and> ty \<noteq> V4L2_BUF_TYPE_VIDEO_CAPTURE \<and>
                ty \<noteq> V4L2_BUF_TYPE_VIDEO_CAPTURE_MPLANE) \<and>
             (case mbus_code of None \<Rightarrow> True | Some c \<Rightarrow> c = pf_code p)) pfmts in
      if index < length ps then Inr (pf_pixelformat (ps ! index)) else Inl EINVAL)"

definition IPU_ISYS_MIN_WIDTH :: u32 where "IPU_ISYS_MIN_WIDTH = 1"
definition IPU_ISYS_MIN_HEIGHT :: u32 where "IPU_ISYS_MIN_HEIGHT = 1"
definition IPU_ISYS_MAX_WIDTH :: u32 where "IPU_ISYS_MAX_WIDTH = 16384"
definition IPU_ISYS_MAX_HEIGHT :: u32 where "IPU_ISYS_MAX_HEIGHT = 16384"

definition ipu_isys_vidioc_enum_framesizes ::
  "isys_pixelformat list \<Rightarrow> v4l2_pix_fmt \<Rightarrow> nat \<Rightarrow> (u32 \<times> u32 \<times> u32 \<times> u32) result" where
  "ipu_isys_vidioc_enum_framesizes pfmts pixel_format index =
     (if index > 0 then Inl EINVAL
      else if pixel_format \<in> pf_pixelformat ` set pfmts
      then Inr (IPU_ISYS_MIN_WIDTH, IPU_ISYS_MAX_WIDTH, IPU_ISYS_MIN_HEIGHT, IPU_ISYS_MAX_HEIGHT)
      else Inl EINVAL)"

record pix_format_mplane =
  mp_width :: u32
  mp_height :: u32
  mp_pixelformat :: v4l2_pix_fmt
  mp_field :: u32
  mp_num_planes :: u8
  mp_bytesperline :: u32
  mp_sizeimage :: u32

record fmt_node =
  fn_pfmts :: "isys_pixelformat list"
  fn_supported_codes :: "media_bus_fmt list"
  fn_packed :: bool
  fn_line_header_length :: u32
  fn_line_footer_length :: u32
  fn_line_align :: u32
  fn_isys_dma_overshoot :: u32
  fn_streaming :: bool
  fn_pfmt :: "isys_pixelformat option"
  fn_mpix :: pix_format_mplane

definition div_round_up :: "u32 \<Rightarrow> u32 \<Rightarrow> u32" where
  "div_round_up n d = (n + d - 1) div d"

definition align_up :: "u32 \<Rightarrow> u32 \<Rightarrow> u32" where
  "align_up x a = (x + (a - 1)) AND NOT (a - 1)"

definition clamp32 :: "u32 \<Rightarrow> u32 \<Rightarrow> u32 \<Rightarrow> u32" where
  "clamp32 v lo hi = max lo (min v hi)"

definition V4L2_FIELD_ANY :: u32 where "V4L2_FIELD_ANY = 0"

definition try_bytesperline :: "fmt_node \<Rightarrow> isys_pixelformat \<Rightarrow> bool \<Rightarrow> u32 \<Rightarrow> u32" where
  "try_bytesperline av p store_csi2_header width =
     (let raw = (if \<not> fn_packed av
             then width * div_round_up (if pf_bpp_planar p \<noteq> 0 then pf_bpp_planar p else pf_bpp p) 8
             else if store_csi2_header
             then div_round_up (fn_line_header_length av + fn_line_footer_length av + width * pf_bpp p) 8
             else div_round_up (width * pf_bpp p) 8);
          aligned = align_up raw (fn_line_align av) in
      if pf_bpp_planar p \<noteq> 0 then aligned * pf_bpp p div pf_bpp_planar p else aligned)"

text \<open>The colour fields are set to constants and left out.\<close>

definition ipu_isys_video_try_fmt_vid_mplane ::
  "fmt_node \<Rightarrow> pix_format_mplane \<Rightarrow> bool \<Rightarrow> isys_pixelformat option \<times> pix_format_mplane" where
  "ipu_isys_video_try_fmt_vid_mplane av mpix store_csi2_header =
     (case ipu_isys_get_pixelformat (fn_pfmts av) (fn_supported_codes av) (mp_pixelformat mpix) of
        None \<Rightarrow> (None, mpix)
      | Some p \<Rightarrow>
          let w = clamp32 (mp_width mpix) IPU_ISYS_MIN_WIDTH IPU_ISYS_MAX_WIDTH;
              h = clamp32 (mp_height mpix) IPU_ISYS_MIN_HEIGHT IPU_ISYS_MAX_HEIGHT;
              bpl = try_bytesperline av p store_csi2_header w in
          (Some p, mpix\<lparr>mp_pixelformat := pf_pixelformat p, mp_num_planes := 1,
             mp_width := w, mp_height := h, mp_bytesperline := bpl,
             mp_sizeimage := max (max (mp_sizeimage mpix)
                               (bpl * h + max bpl (fn_isys_dma_overshoot av))) 1,
             mp_field := (if mp_field mpix = V4L2_FIELD_ANY then 1 else mp_field mpix)\<rparr>))"

definition vidioc_s_fmt_vid_cap_mplane ::
  "bool \<Rightarrow> fmt_node \<Rightarrow> pix_format_mplane \<Rightarrow> unit result \<times> fmt_node" where
  "vidioc_s_fmt_vid_cap_mplane store_csi2_header av mpix =
     (if fn_streaming av then (Inl EBUSY, av)
      else let (p, m) = ipu_isys_video_try_fmt_vid_mplane av mpix store_csi2_header in
        (Inr (), av\<lparr>fn_pfmt := p, fn_mpix := m\<rparr>))"

text \<open>\<^verbatim>\<open>ipu_isys_buf_prepare\<close>: the payload of a buffer large enough for the format.\<close>

definition ipu_isys_buf_prepare :: "fmt_node \<Rightarrow> u32 \<Rightarrow> (u32 \<times> u32) result" where
  "ipu_isys_buf_prepare av plane_size =
     (if mp_sizeimage (fn_mpix av) > plane_size then Inl EINVAL
      else Inr (mp_bytesperline (fn_mpix av) * mp_height (fn_mpix av),
                fn_line_header_length av div 8))"

text \<open>\<^verbatim>\<open>ipu_isys_link_fmt_validate\<close>, given the format of the remote pad, if there is one.\<close>

definition ipu_isys_link_fmt_validate ::
  "fmt_node \<Rightarrow> (int + u32 \<times> u32 \<times> u32 \<times> media_bus_fmt) option \<Rightarrow> int" where
  "ipu_isys_link_fmt_validate av remote =
     (case remote of
        None \<Rightarrow> -107
      | Some (Inl e) \<Rightarrow> e
      | Some (Inr (width, height, field, code)) \<Rightarrow>
          if width \<noteq> mp_width (fn_mpix av) \<or> height \<noteq> mp_height (fn_mpix av) then -22
          else if field \<noteq> mp_field (fn_mpix av) then -22
          else if Some code \<noteq> map_option pf_code (fn_pfmt av) then -22
          else 0)"

section \<open>Cropping a raw image\<close>

definition csi2_be_supported_codes_pad :: "media_bus_fmt list" where
  "csi2_be_supported_codes_pad =
     [MEDIA_BUS_FMT_SBGGR14_1X14, MEDIA_BUS_FMT_SGBRG14_1X14,
      MEDIA_BUS_FMT_SGRBG14_1X14, MEDIA_BUS_FMT_SRGGB14_1X14,
      MEDIA_BUS_FMT_SBGGR12_1X12, MEDIA_BUS_FMT_SGBRG12_1X12,
      MEDIA_BUS_FMT_SGRBG12_1X12, MEDIA_BUS_FMT_SRGGB12_1X12,
      MEDIA_BUS_FMT_SBGGR10_1X10, MEDIA_BUS_FMT_SGBRG10_1X10,
      MEDIA_BUS_FMT_SGRBG10_1X10, MEDIA_BUS_FMT_SRGGB10_1X10,
      MEDIA_BUS_FMT_SBGGR8_1X8, MEDIA_BUS_FMT_SGBRG8_1X8,
      MEDIA_BUS_FMT_SGRBG8_1X8, MEDIA_BUS_FMT_SRGGB8_1X8]"

definition csi2_be_soc_supported_raw_bayer_codes_pad :: "media_bus_fmt list" where
  "csi2_be_soc_supported_raw_bayer_codes_pad =
     [MEDIA_BUS_FMT_SBGGR12_1X12, MEDIA_BUS_FMT_SGBRG12_1X12,
      MEDIA_BUS_FMT_SGRBG12_1X12, MEDIA_BUS_FMT_SRGGB12_1X12,
      MEDIA_BUS_FMT_SBGGR10_1X10, MEDIA_BUS_FMT_SGBRG10_1X10,
      MEDIA_BUS_FMT_SGRBG10_1X10, MEDIA_BUS_FMT_SRGGB10_1X10,
      MEDIA_BUS_FMT_SBGGR8_1X8, MEDIA_BUS_FMT_SGBRG8_1X8,
      MEDIA_BUS_FMT_SGRBG8_1X8, MEDIA_BUS_FMT_SRGGB8_1X8, MEDIA_BUS_FMT_Y8_1X8]"

fun code_index :: "media_bus_fmt list \<Rightarrow> media_bus_fmt \<Rightarrow> nat option" where
  "code_index [] code = None"
| "code_index (c # cs) code = (if c = code then Some 0 else map_option Suc (code_index cs code))"

definition cropped_index :: "nat \<Rightarrow> nat \<Rightarrow> nat" where
  "cropped_index idx crop_info = ((idx AND 3) XOR crop_info) + (idx - (idx AND 3))"

text \<open>The code of the source pad of the CSI-2 back-end (\<^verbatim>\<open>csi2_be_set_ffmt\<close>), cropping allowed.\<close>

definition csi2_be_source_code :: "media_bus_fmt \<Rightarrow> u32 \<Rightarrow> u32 \<Rightarrow> media_bus_fmt" where
  "csi2_be_source_code code r_left r_top =
     (case code_index csi2_be_supported_codes_pad code of
        None \<Rightarrow> code
      | Some idx \<Rightarrow> csi2_be_supported_codes_pad !
          cropped_index idx ((if r_top AND 1 \<noteq> 0 then 2 else 0) OR (if r_left AND 1 \<noteq> 0 then 1 else 0)))"

text \<open>That of the SOC back-end (\<^verbatim>\<open>csi2_be_soc_set_ffmt\<close>); a read past the table is \<open>None\<close>.\<close>

definition csi2_be_soc_source_code :: "media_bus_fmt \<Rightarrow> u32 \<Rightarrow> media_bus_fmt option" where
  "csi2_be_soc_source_code code r_top =
     (case code_index csi2_be_soc_supported_raw_bayer_codes_pad code of
        None \<Rightarrow> Some code
      | Some idx \<Rightarrow>
          let i = cropped_index idx (if r_top AND 1 \<noteq> 0 then 2 else 0) in
          if i < length csi2_be_soc_supported_raw_bayer_codes_pad
          then Some (csi2_be_soc_supported_raw_bayer_codes_pad ! i) else None)"

section \<open>Receiver timing\<close>

text \<open>\<^verbatim>\<open>calc_timing\<close> in 32-bit integers; \<^verbatim>\<open>(int32_t)(link_freq >> DIV_SHIFT)\<close> keeps the low word, and
  a zero divisor is a fault (\<open>None\<close>).\<close>

definition DIV_SHIFT :: nat where "DIV_SHIFT = 8"
definition CSI2_ACCINV :: int where "CSI2_ACCINV = 8"

definition calc_timing :: "int \<Rightarrow> int \<Rightarrow> int \<Rightarrow> int \<Rightarrow> u32 option" where
  "calc_timing a b link_freq accinv =
     (let d = signed_take_bit 31 (drop_bit DIV_SHIFT link_freq) in
      if d = 0 then None
      else Some (word_of_int (accinv * a + (accinv * b * (500000000 div 2 ^ DIV_SHIFT)) sdiv d)))"

text \<open>\<^verbatim>\<open>ipu_isys_csi2_calc_timing\<close>: the termination and settle counts of the clock lane and of the
  data lanes, given the answer of \<^verbatim>\<open>ipu_isys_csi2_get_link_freq\<close>.\<close>

record isys_csi2_timing =
  tm_ctermen :: "u32 option"
  tm_csettle :: "u32 option"
  tm_dtermen :: "u32 option"
  tm_dsettle :: "u32 option"

definition ipu_isys_csi2_calc_timing :: "int + int \<Rightarrow> int \<Rightarrow> int + isys_csi2_timing" where
  "ipu_isys_csi2_calc_timing link accinv =
     (case link of
        Inl e \<Rightarrow> Inl e
      | Inr link_freq \<Rightarrow> Inr \<lparr>tm_ctermen = calc_timing 0 0 link_freq accinv,
          tm_csettle = calc_timing 95 (- 8) link_freq accinv,
          tm_dtermen = calc_timing 0 0 link_freq accinv,
          tm_dsettle = calc_timing 85 (- 2) link_freq accinv\<rparr>)"

section \<open>Time stamps of trace messages\<close>

text \<open>The fields of the message are 64-bit bit-fields; a compiler that computes the shift in the 50
  bits of the field agrees for counters below \<open>2 ^ 50\<close>.\<close>

definition extract_time_from_short_packet_msg :: "u64 \<Rightarrow> u64 \<Rightarrow> u64" where
  "extract_time_from_short_packet_msg timestamp_h timestamp_l =
     (let time_h = push_bit 14 timestamp_h; time_l = timestamp_l;
          time_h_ovl = time_h AND 0xc000; time_h_h = time_h AND NOT 0xffff in
      if time_h_ovl \<ge> (time_l AND 0xc000) then time_h_h OR time_l
      else (time_h_h - 0x10000) OR time_l)"

section \<open>Words\<close>

lemma unat_lt: "unat T < 2 ^ 64" for T :: u64
  by (rule order_less_le_trans [OF unsigned_less]) simp

lemma mask16: "(0xffff :: u64) = mask 16" "(0xc000 :: u64) = push_bit 14 (mask 2)"
  by (simp_all add: mask_eq_exp_minus_1)

lemma unat_low16: "unat (T AND 0xffff) = unat T mod 65536" for T :: u64
proof -
  have "T AND 0xffff = take_bit 16 T" by (simp add: mask16 take_bit_eq_mask)
  then show ?thesis by (simp add: take_bit_eq_mod unat_mod)
qed

lemma unat_drop_push: "unat (push_bit 16 (drop_bit 16 T)) = unat T div 65536 * 65536" for T :: u64
proof -
  have "unat T div 65536 * 65536 < 2 ^ 64"
    using le_less_trans [OF div_times_less_eq_dividend unsigned_less [of T]] by simp
  moreover have "push_bit 16 (drop_bit 16 T) = drop_bit 16 T * 65536"
    by (simp add: push_bit_eq_mult)
  moreover have "unat (drop_bit 16 T) = unat T div 65536"
    by (simp add: drop_bit_eq_div unat_div_distrib)
  ultimately show ?thesis by (simp add: unat_word_ariths)
qed

lemma unat_high48: "unat (T AND NOT 0xffff) = unat T div 65536 * 65536" for T :: u64
proof -
  have "T AND NOT 0xffff = push_bit 16 (drop_bit 16 T)"
    unfolding mask16 by (rule bit_word_eqI) (auto simp: bit_simps)
  then show ?thesis using unat_drop_push [of T] by simp
qed

lemma unat_ovl: "unat (T AND 0xc000) = unat T div 16384 mod 4 * 16384" for T :: u64
proof -
  have "T AND 0xc000 = push_bit 14 (take_bit 2 (drop_bit 14 T))"
    unfolding mask16 by (rule bit_word_eqI) (auto simp: bit_simps)
  moreover have "unat (push_bit 14 (take_bit 2 (drop_bit 14 T))) = unat T div 16384 mod 4 * 16384"
    by (simp add: push_bit_eq_mult take_bit_eq_mod unat_drop_bit_eq drop_bit_eq_div unat_word_ariths unat_mod mod_mod_cancel)
  ultimately show ?thesis by simp
qed

lemma split_time: "n = 65536 * (n div 65536) + 16384 * (n div 16384 mod 4) + n mod 16384" for n :: nat
proof -
  have "n div 65536 = n div 16384 div 4" by (simp add: div_mult2_eq [symmetric])
  then have "n div 16384 = 4 * (n div 65536) + n div 16384 mod 4" by simp
  moreover have "n = 16384 * (n div 16384) + n mod 16384" by simp
  ultimately show ?thesis by linarith
qed

section \<open>A negotiated format fits its buffer\<close>

lemma div_round_up8:
  assumes "unat n < 2 ^ 31"
  shows "unat (div_round_up n 8) = (unat n + 7) div 8"
  using assms by (simp add: div_round_up_def unat_div_distrib unat_word_ariths)

lemma and_not_63: "y AND NOT 63 = push_bit 6 (drop_bit 6 y)" for y :: u32
proof -
  have m: "(63 :: u32) = mask 6" by (simp add: mask_eq_exp_minus_1)
  show ?thesis unfolding m by (rule bit_word_eqI) (auto simp: bit_simps)
qed

lemma align_up64:
  assumes "unat x < 2 ^ 31"
  shows "unat (align_up x 64) = (unat x + 63) div 64 * 64"
proof -
  have "unat (x + 63) = unat x + 63" using assms by (simp add: unat_word_ariths)
  moreover have "unat y div 64 * 64 < 2 ^ 32" for y :: u32
    by (rule le_less_trans [OF div_times_less_eq_dividend]) (rule order_less_le_trans [OF unsigned_less], simp)
  then have "unat (push_bit 6 (drop_bit 6 y)) = unat y div 64 * 64" for y :: u32
    by (simp add: push_bit_eq_mult drop_bit_eq_div unat_div_distrib unat_word_ariths)
  moreover have "align_up x 64 = push_bit 6 (drop_bit 6 (x + 63))"
    using and_not_63 [of "x + 63"] unfolding align_up_def by simp
  ultimately show ?thesis by simp
qed

lemma unat_mult_bound:
  assumes "unat a \<le> x" and "unat b \<le> y" and "x * y < 2 ^ 32"
  shows "unat (a * b :: u32) = unat a * unat b"
proof -
  have "unat a * unat b \<le> x * y" using assms by (intro mult_le_mono)
  then show ?thesis using assms(3) by (simp add: unat_word_ariths)
qed

definition table_ok :: "bool \<Rightarrow> isys_pixelformat list \<Rightarrow> bool" where
  "table_ok packed ps \<longleftrightarrow> list_all (\<lambda>p. pf_bpp p \<le> 32 \<and>
     (pf_bpp_planar p = 0 \<or> \<not> packed \<and> pf_bpp_planar p = 8)) ps"

text \<open>The nodes of the driver: packed ones with the packed table, the others with the other two.\<close>

definition node_ok :: "fmt_node \<Rightarrow> bool" where
  "node_ok av \<longleftrightarrow> fn_line_align av = 64 \<and> fn_isys_dma_overshoot av = 1024 \<and>
     fn_line_header_length av \<le> 65536 \<and> fn_line_footer_length av \<le> 65536 \<and>
     fn_pfmts av \<in> (if fn_packed av then {ipu_isys_pfmts_packed}
                    else {ipu_isys_pfmts, ipu_isys_pfmts_be_soc})"

lemma node_table_ok:
  assumes "node_ok av"
  shows "table_ok (fn_packed av) (fn_pfmts av)"
  using assms by (cases "fn_packed av")
    (auto simp: node_ok_def table_ok_def ipu_isys_pfmts_def ipu_isys_pfmts_be_soc_def
      ipu_isys_pfmts_packed_def)

lemma bytesperline_bounds:
  assumes p: "p \<in> set (fn_pfmts av)" and ok: "node_ok av" and w: "unat width \<le> 16384"
  shows "unat (try_bytesperline av p store width) \<le> 131072 \<and>
         unat width * unat (pf_bpp p) \<le> 8 * unat (try_bytesperline av p store width)"
proof -
  have b: "unat (pf_bpp p) \<le> 32"
    and pl: "pf_bpp_planar p = 0 \<or> \<not> fn_packed av \<and> pf_bpp_planar p = 8"
    using p node_table_ok [OF ok] by (auto simp: table_ok_def list_all_iff word_le_nat_alt)
  have al: "fn_line_align av = 64" and hdr: "unat (fn_line_header_length av) \<le> 65536"
    "unat (fn_line_footer_length av) \<le> 65536"
    using ok by (auto simp: node_ok_def word_le_nat_alt)
  have wb: "unat (width * pf_bpp p) = unat width * unat (pf_bpp p)"
    by (rule unat_mult_bound [OF w b]) simp
  have wb': "unat width * unat (pf_bpp p) \<le> 524288"
    using mult_le_mono [OF w b] by simp
  have hs: "unat (fn_line_header_length av + fn_line_footer_length av + width * pf_bpp p)
      = unat (fn_line_header_length av) + unat (fn_line_footer_length av) + unat width * unat (pf_bpp p)"
    using hdr wb' by (simp add: unat_word_ariths wb [simplified unat_word_ariths])
  consider (planar) "\<not> fn_packed av" "pf_bpp_planar p = 8" | (line) "pf_bpp_planar p = 0"
    using pl by blast
  then show ?thesis
  proof cases
    case planar
    have "div_round_up 8 8 = 1" by (simp add: div_round_up_def)
    then have t: "try_bytesperline av p store width = align_up width 64 * pf_bpp p div 8"
      using planar al by (simp add: try_bytesperline_def)
    define n where "n = (unat width + 63) div 64"
    have n: "unat width \<le> 64 * n" "n \<le> 256" using w unfolding n_def by linarith+
    have a: "unat (align_up width 64) = 64 * n"
      using align_up64 [of width] w by (simp add: n_def)
    have m: "unat (align_up width 64 * pf_bpp p) = 64 * n * unat (pf_bpp p)"
      using unat_mult_bound [of "align_up width 64" 16384 "pf_bpp p" 32] a n b by simp
    have "unat (try_bytesperline av p store width) = 8 * n * unat (pf_bpp p)"
      unfolding t by (simp add: unat_div_distrib m)
    moreover have "n * unat (pf_bpp p) \<le> 256 * 32" using n b by (intro mult_le_mono)
    moreover have "unat width * unat (pf_bpp p) \<le> 64 * n * unat (pf_bpp p)"
      using n by (intro mult_le_mono) simp_all
    ultimately show ?thesis by simp
  next
    case line
    define raw where "raw = (if \<not> fn_packed av then width * div_round_up (pf_bpp p) 8
             else if store
             then div_round_up (fn_line_header_length av + fn_line_footer_length av + width * pf_bpp p) 8
             else div_round_up (width * pf_bpp p) 8)"
    have t: "try_bytesperline av p store width = align_up raw 64"
      using line al by (simp add: try_bytesperline_def raw_def)
    have raw: "unat raw \<le> 98304 \<and> unat width * unat (pf_bpp p) \<le> 8 * unat raw"
    proof (cases "fn_packed av")
      case False
      define k where "k = (unat (pf_bpp p) + 7) div 8"
      have k: "k \<le> 4" "unat (pf_bpp p) \<le> 8 * k" using b unfolding k_def by linarith+
      have "unat (div_round_up (pf_bpp p) 8) = k"
        using div_round_up8 [of "pf_bpp p"] b by (simp add: k_def)
      then have "unat raw = unat width * k"
        using False unat_mult_bound [OF w, of "div_round_up (pf_bpp p) 8" 4] k by (simp add: raw_def)
      moreover have "unat width * k \<le> 16384 * 4" using w k by (intro mult_le_mono)
      moreover have "unat width * unat (pf_bpp p) \<le> unat width * (8 * k)" using k by (intro mult_le_mono2)
      ultimately show ?thesis by simp
    next
      case True
      define hd wp where "hd = fn_line_header_length av + fn_line_footer_length av + width * pf_bpp p"
        and "wp = width * pf_bpp p"
      have n: "unat hd \<le> 655360" "unat width * unat (pf_bpp p) \<le> unat hd"
        "unat wp = unat width * unat (pf_bpp p)"
        using hs hdr wb wb' by (simp_all add: hd_def wp_def)
      have "raw = div_round_up (if store then hd else wp) 8"
        using True by (simp add: raw_def hd_def wp_def)
      then have "unat raw = (unat (if store then hd else wp) + 7) div 8"
        using div_round_up8 [of hd] div_round_up8 [of wp] n wb' by simp
      moreover have "unat width * unat (pf_bpp p) \<le> unat (if store then hd else wp)"
        "unat (if store then hd else wp) \<le> 655360"
        using n wb' by simp_all
      ultimately show ?thesis by linarith
    qed
    have "unat (align_up raw 64) = (unat raw + 63) div 64 * 64"
      using align_up64 [of raw] raw by simp
    then show ?thesis unfolding t using raw by linarith
  qed
qed

text \<open>
  C35: Whatever size and format a client asks of a video node, the format the driver settles on is one
  of the node's table, its size lies within the limits, a line holds the width's pixels and the buffer
  holds all lines and one more: none of the 32-bit products wraps.
\<close>

theorem negotiated_format_fits:
  assumes "node_ok av"
    and "ipu_isys_video_try_fmt_vid_mplane av mpix store = (Some p, m)"
  shows "p \<in> set (fn_pfmts av) \<and> mp_pixelformat m = pf_pixelformat p \<and>
         1 \<le> mp_width m \<and> mp_width m \<le> 16384 \<and> 1 \<le> mp_height m \<and> mp_height m \<le> 16384 \<and>
         unat (mp_width m) * unat (pf_bpp p) \<le> 8 * unat (mp_bytesperline m) \<and>
         unat (mp_bytesperline m) * (unat (mp_height m) + 1) \<le> unat (mp_sizeimage m)"
proof -
  obtain w h where wh: "w = clamp32 (mp_width mpix) 1 16384" "h = clamp32 (mp_height mpix) 1 16384"
    by blast
  let ?b = "try_bytesperline av p store w"
  have g: "ipu_isys_get_pixelformat (fn_pfmts av) (fn_supported_codes av) (mp_pixelformat mpix) = Some p"
    and m: "mp_width m = w" "mp_height m = h" "mp_bytesperline m = ?b" "mp_pixelformat m = pf_pixelformat p"
    and size: "mp_sizeimage m = max (max (mp_sizeimage mpix) (?b * h + max ?b (fn_isys_dma_overshoot av))) 1"
    using assms(2) by (auto simp: ipu_isys_video_try_fmt_vid_mplane_def Let_def wh IPU_ISYS_MIN_WIDTH_def
        IPU_ISYS_MIN_HEIGHT_def IPU_ISYS_MAX_WIDTH_def IPU_ISYS_MAX_HEIGHT_def split: option.splits)
  have p: "p \<in> set (fn_pfmts av)"
    using g by (auto simp: ipu_isys_get_pixelformat_def find_Some_iff split: option.splits list.splits)
  have b1: "1 \<le> w" "w \<le> 16384" "1 \<le> h" "h \<le> 16384"
    by (auto simp: wh clamp32_def max_def min_def)
  then have wh': "unat w \<le> 16384" "unat h \<le> 16384"
    by (simp_all add: word_le_nat_alt)
  have bb: "unat ?b \<le> 131072" "unat w * unat (pf_bpp p) \<le> 8 * unat ?b"
    using bytesperline_bounds [OF p assms(1) wh'(1), of store] by simp_all
  have ov: "unat (fn_isys_dma_overshoot av) = 1024" using assms(1) by (simp add: node_ok_def)
  have prod: "unat (?b * h) = unat ?b * unat h"
    by (rule unat_mult_bound [OF bb(1) wh'(2)]) simp
  have pb: "unat ?b * unat h \<le> 131072 * 16384" using bb(1) wh'(2) by (intro mult_le_mono)
  have mx: "unat (max ?b (fn_isys_dma_overshoot av)) = max (unat ?b) 1024"
    by (simp add: max_def word_le_nat_alt ov)
  have "unat (?b * h + max ?b (fn_isys_dma_overshoot av)) = unat ?b * unat h + max (unat ?b) 1024"
    using pb bb(1) by (simp add: unat_word_ariths prod [simplified unat_word_ariths] mx)
  moreover have "?b * h + max ?b (fn_isys_dma_overshoot av) \<le> mp_sizeimage m"
    unfolding size by (intro max.coboundedI1 max.coboundedI2) simp
  ultimately have "unat ?b * unat h + unat ?b \<le> unat (mp_sizeimage m)"
    by (simp add: word_le_nat_alt)
  then show ?thesis using p m b1 bb by (simp add: algebra_simps)
qed

text \<open>A node of the front-end, and the largest packed image: 14 bits in 16 and the headers.\<close>

definition example_node :: fmt_node where
  "example_node = \<lparr>fn_pfmts = ipu_isys_pfmts_packed, fn_supported_codes = csi2_supported_codes_pad_sink,
     fn_packed = True, fn_line_header_length = 0, fn_line_footer_length = 0, fn_line_align = 64,
     fn_isys_dma_overshoot = 1024, fn_streaming = False, fn_pfmt = None,
     fn_mpix = \<lparr>mp_width = 0, mp_height = 0, mp_pixelformat = V4L2_PIX_FMT_UYVY, mp_field = 0,
                mp_num_planes = 0, mp_bytesperline = 0, mp_sizeimage = 0\<rparr>\<rparr>"

definition example_mpix :: pix_format_mplane where
  "example_mpix = \<lparr>mp_width = 1928, mp_height = 100000, mp_pixelformat = V4L2_PIX_FMT_SGRBG10P,
     mp_field = 0, mp_num_planes = 0, mp_bytesperline = 0, mp_sizeimage = 0\<rparr>"

theorem negotiated_format_fits_witness:
  "\<exists>p m. ipu_isys_video_try_fmt_vid_mplane example_node example_mpix False = (Some p, m) \<and>
     p \<in> set (fn_pfmts example_node) \<and> mp_pixelformat m = pf_pixelformat p \<and>
     1 \<le> mp_width m \<and> mp_width m \<le> 16384 \<and> 1 \<le> mp_height m \<and> mp_height m \<le> 16384 \<and>
     unat (mp_width m) * unat (pf_bpp p) \<le> 8 * unat (mp_bytesperline m) \<and>
     unat (mp_bytesperline m) * (unat (mp_height m) + 1) \<le> unat (mp_sizeimage m)"
proof -
  have ok: "node_ok example_node" by (simp add: node_ok_def example_node_def)
  have "fst (ipu_isys_video_try_fmt_vid_mplane example_node example_mpix False) \<noteq> None"
    by code_simp
  then obtain p m where r: "ipu_isys_video_try_fmt_vid_mplane example_node example_mpix False = (Some p, m)"
    by (cases "ipu_isys_video_try_fmt_vid_mplane example_node example_mpix False") auto
  show ?thesis using r negotiated_format_fits [OF ok r] by blast
qed

section \<open>A crop keeps the colours\<close>

lemma odd_word: "(w AND 1 \<noteq> 0) = odd (unat w)" for w :: u32
  by (simp add: and_one_eq odd_iff_mod_2_eq_one unat_eq_zero [symmetric] unat_mod)

text \<open>The filter of a Bayer pattern at a pixel.\<close>

datatype colour = Red | Green | Blue

fun colour_at :: "pixelorder \<Rightarrow> nat \<Rightarrow> nat \<Rightarrow> colour" where
  "colour_at BGGR x y = (if even y then (if even x then Blue else Green)
                         else (if even x then Green else Red))"
| "colour_at GBRG x y = (if even y then (if even x then Green else Blue)
                         else (if even x then Red else Green))"
| "colour_at GRBG x y = (if even y then (if even x then Green else Red)
                         else (if even x then Blue else Green))"
| "colour_at RGGB x y = (if even y then (if even x then Red else Green)
                         else (if even x then Green else Blue))"

definition crop_code :: "media_bus_fmt \<Rightarrow> bool \<Rightarrow> bool \<Rightarrow> media_bus_fmt" where
  "crop_code code l t = csi2_be_source_code code (if l then 1 else 0) (if t then 1 else 0)"

lemma source_code_parity:
  "csi2_be_source_code code l t = crop_code code (odd (unat l)) (odd (unat t))"
  by (simp add: crop_code_def csi2_be_source_code_def odd_word)

fun shifted :: "pixelorder \<Rightarrow> bool \<Rightarrow> bool \<Rightarrow> pixelorder" where
  "shifted q False False = q"
| "shifted BGGR True False = GBRG" | "shifted GBRG True False = BGGR"
| "shifted GRBG True False = RGGB" | "shifted RGGB True False = GRBG"
| "shifted BGGR False True = GRBG" | "shifted GBRG False True = RGGB"
| "shifted GRBG False True = BGGR" | "shifted RGGB False True = GBRG"
| "shifted BGGR True True = RGGB" | "shifted GBRG True True = GRBG"
| "shifted GRBG True True = GBRG" | "shifted RGGB True True = BGGR"

lemma colour_shifted: "colour_at (shifted q (odd l) (odd t)) x y = colour_at q (x + l) (y + t)"
  by (cases q; cases "odd l"; cases "odd t") auto

lemma crop_code_table:
  "list_all (\<lambda>code. list_all (\<lambda>l. list_all (\<lambda>t.
     (case ipu_isys_subdev_get_pixelorder code of None \<Rightarrow> False | Some q \<Rightarrow>
        ipu_isys_subdev_get_pixelorder (crop_code code l t) = Some (shifted q l t)) \<and>
     ipu_isys_mbus_code_to_bpp (crop_code code l t) = ipu_isys_mbus_code_to_bpp code)
     [False, True]) [False, True]) csi2_be_supported_codes_pad"
  by code_simp

text \<open>
  C34: The code the back-end gives the source pad of a raw image names the colours the cropped image
  really has: for every supported code and every crop, the filter at a pixel of the cropped image is
  the filter at the pixel of the sensor it comes from, and the depth is kept.
\<close>

theorem crop_keeps_colours:
  assumes "code \<in> set csi2_be_supported_codes_pad"
  shows "\<exists>o1 o2. ipu_isys_subdev_get_pixelorder code = Some o1 \<and>
           ipu_isys_subdev_get_pixelorder (csi2_be_source_code code r_left r_top) = Some o2 \<and>
           ipu_isys_mbus_code_to_bpp (csi2_be_source_code code r_left r_top)
             = ipu_isys_mbus_code_to_bpp code \<and>
           (\<forall>x y. colour_at o2 x y = colour_at o1 (x + unat r_left) (y + unat r_top))"
proof -
  let ?l = "odd (unat r_left)" and ?t = "odd (unat r_top)"
  have lt: "?l \<in> set [False, True]" "?t \<in> set [False, True]" by auto
  obtain q where q: "ipu_isys_subdev_get_pixelorder code = Some q"
    and s: "ipu_isys_subdev_get_pixelorder (crop_code code ?l ?t) = Some (shifted q ?l ?t)"
    and b: "ipu_isys_mbus_code_to_bpp (crop_code code ?l ?t) = ipu_isys_mbus_code_to_bpp code"
    using crop_code_table [unfolded list_all_iff, rule_format, OF assms lt]
    by (auto split: option.splits)
  then show ?thesis
    using colour_shifted [of q "unat r_left" "unat r_top"] by (auto simp: source_code_parity)
qed

theorem crop_keeps_colours_witness:
  "\<exists>o1 o2. ipu_isys_subdev_get_pixelorder MEDIA_BUS_FMT_SGRBG10_1X10 = Some o1 \<and>
     ipu_isys_subdev_get_pixelorder (csi2_be_source_code MEDIA_BUS_FMT_SGRBG10_1X10 3 5) = Some o2 \<and>
     ipu_isys_mbus_code_to_bpp (csi2_be_source_code MEDIA_BUS_FMT_SGRBG10_1X10 3 5)
       = ipu_isys_mbus_code_to_bpp MEDIA_BUS_FMT_SGRBG10_1X10 \<and>
     (\<forall>x y. colour_at o2 x y = colour_at o1 (x + unat (3 :: u32)) (y + unat (5 :: u32)))"
  by (rule crop_keeps_colours) (simp add: csi2_be_supported_codes_pad_def)

text \<open>In the SOC back-end a grey image (\<^verbatim>\<open>MEDIA_BUS_FMT_Y8_1X8\<close>, the last entry) cropped at an odd line
  reads past the table.\<close>

theorem soc_crop_out_of_table:
  "csi2_be_soc_source_code MEDIA_BUS_FMT_Y8_1X8 1 = None"
  by code_simp

section \<open>A time stamp is put together again\<close>



section \<open>The tables agree\<close>

text \<open>The three statements of how many bits a pixel has, the driver's (\<^verbatim>\<open>ipu_isys_mbus_code_to_bpp\<close>) and
  the firmware's (\<^verbatim>\<open>ipu_isys_mbus_code_to_mipi\<close> with the table of data types), agree for every code the
  receiver takes, except grey in 10 bits, for which the driver says 16.\<close>

lemmas code_tables = ipu_isys_mbus_code_to_bpp_def ipu_isys_mbus_code_to_mipi_def
  IPU_ISYS_MIPI_CSI2_TYPE_YUV422_8_def IPU_ISYS_MIPI_CSI2_TYPE_YUV422_10_def
  IPU_ISYS_MIPI_CSI2_TYPE_RGB565_def IPU_ISYS_MIPI_CSI2_TYPE_RGB888_def
  IPU_ISYS_MIPI_CSI2_TYPE_RAW8_def IPU_ISYS_MIPI_CSI2_TYPE_RAW10_def
  IPU_ISYS_MIPI_CSI2_TYPE_RAW12_def IPU_ISYS_MIPI_CSI2_TYPE_RAW14_def
  IPU_ISYS_MIPI_CSI2_TYPE_USER_DEF_def N_IPU_FW_ISYS_MIPI_DATA_TYPE_def

theorem bits_of_supported_codes:
  assumes "code \<in> set csi2_supported_codes_pad_sink"
  shows "bits_of_data_type (ucast (ipu_isys_mbus_code_to_mipi code))
       = Some (if code = MEDIA_BUS_FMT_Y10_1X10 then 10 else ucast (ipu_isys_mbus_code_to_bpp code))"
  using assms
  by (auto simp: csi2_supported_codes_pad_sink_def code_tables bits_of_data_type_def
      extracted_bits_per_pixel_def)

section \<open>Receiver timing in range\<close>

text \<open>For a link frequency from 43 MHz to 2.5 GHz, no count wraps below zero: the settle counts are those
  of the formula, rounded up.\<close>

lemma sdiv_neg: "0 \<le> n \<Longrightarrow> 0 < d \<Longrightarrow> (- n) sdiv d = - (n div d)" for n d :: int
  by (cases "n = 0") (simp_all add: signed_divide_int_def)

theorem timing_in_range:
  assumes "43000000 \<le> f" and "f \<le> 2500000000"
  shows "ipu_isys_csi2_calc_timing (Inr f) CSI2_ACCINV =
     Inr \<lparr>tm_ctermen = Some 0, tm_csettle = Some (word_of_int (760 - 125000000 div (f div 256))),
          tm_dtermen = Some 0, tm_dsettle = Some (word_of_int (680 - 31250000 div (f div 256)))\<rparr> \<and>
     0 \<le> 760 - 125000000 div (f div 256) \<and> 0 \<le> 680 - 31250000 div (f div 256)"
proof -
  define d where "d = f div 256"
  have d: "167968 \<le> d" "d \<le> 9765625" using assms unfolding d_def by linarith+
  have "signed_take_bit 31 (drop_bit DIV_SHIFT f) = d"
    using d by (simp add: DIV_SHIFT_def drop_bit_eq_div d_def signed_take_bit_int_eq_self)
  moreover have "125000000 div d \<le> 125000000 div 167968" "31250000 div d \<le> 31250000 div 167968"
    using d by (intro zdiv_mono2; simp)+
  ultimately show ?thesis
    using d sdiv_neg [of 125000000 d] sdiv_neg [of 31250000 d]
    unfolding ipu_isys_csi2_calc_timing_def calc_timing_def d_def [symmetric]
    by (simp add: CSI2_ACCINV_def DIV_SHIFT_def Let_def)
qed

end
