(* ===== verification/IsysQueue.thy ===== *)
theory IsysQueue
  imports IsysFormats
begin

text \<open>
  The state of the imaging system's capture path and its buffer lists: the first half of
  \<^verbatim>\<open>ipu-isys-queue.c\<close>, with the firmware message buffers of \<^verbatim>\<open>ipu-isys.c\<close>.

  A pointer is a 64-bit word.  The queue (\<^verbatim>\<open>ipu_isys_queue\<close>) and the pipeline
  (\<^verbatim>\<open>ipu_isys_pipeline\<close>) are embedded in the video node, so one pointer names all three.
  The driver's linked lists are the values of one map from list heads to the nodes in order, first
  node first; \<^verbatim>\<open>sy_done\<close> is the history of what was handed back to videobuf2.
  The firmware library, the sensors, the receivers' registers, clocks and allocators are the
  operations of \<^verbatim>\<open>isys_ops\<close> over a world of any type; interrupts are responses the world delivers
  when the driver has called it or waits.

  Census: a list operation neither loses nor copies a node (\<open>balanced\<close>).
\<close>

section \<open>Data\<close>

type_synonym node = u64   \<comment> \<open>a video node, its queue and its pipeline\<close>
type_synonym buf = u64

definition E_IO :: int where "E_IO = -5"
definition E_NOMEM :: int where "E_NOMEM = -12"
definition E_BUSY :: int where "E_BUSY = -16"
definition E_NODEV :: int where "E_NODEV = -19"
definition E_INVAL :: int where "E_INVAL = -22"
definition E_NODATA :: int where "E_NODATA = -61"
definition E_TIMEDOUT :: int where "E_TIMEDOUT = -110"
definition E_NOIOCTLCMD :: int where "E_NOIOCTLCMD = -515"

lemmas error_codes = E_IO_def E_NOMEM_def E_BUSY_def E_NODEV_def E_INVAL_def E_NODATA_def
  E_TIMEDOUT_def E_NOIOCTLCMD_def

datatype vb2_buffer_state = VB2_BUF_STATE_QUEUED | VB2_BUF_STATE_DONE | VB2_BUF_STATE_ERROR

datatype isys_buffer_type = IPU_ISYS_VIDEO_BUFFER | IPU_ISYS_SHORT_PACKET_BUFFER

text \<open>\<^verbatim>\<open>struct ipu_isys_buffer\<close> with the video buffer or private buffer around it.\<close>

record isys_buffer =
  ib_type :: isys_buffer_type
  ib_queue :: node              \<comment> \<open>the queue of the vb2 buffer, or the pipeline of a private one\<close>
  ib_req :: "u64 option"
  ib_str2mmio_flag :: bool
  ib_index :: u32
  ib_addr :: u32                \<comment> \<open>DMA address of plane 0\<close>
  ib_timestamp :: u64
  ib_sequence :: u32
  ib_field :: u32

definition IPU_ISYS_BUFFER_LIST_FL_INCOMING :: u32 where "IPU_ISYS_BUFFER_LIST_FL_INCOMING = 1"
definition IPU_ISYS_BUFFER_LIST_FL_ACTIVE :: u32 where "IPU_ISYS_BUFFER_LIST_FL_ACTIVE = 2"
definition IPU_ISYS_BUFFER_LIST_FL_SET_STATE :: u32 where "IPU_ISYS_BUFFER_LIST_FL_SET_STATE = 4"

record isys_buffer_list =
  bl_head :: "buf list"
  bl_nbufs :: nat

text \<open>\<^verbatim>\<open>struct ipu_fw_isys_frame_buff_set_abi\<close>.\<close>

record fw_frame_set =
  fs_addr :: "nat \<Rightarrow> u32"
  fs_out_buf_id :: "nat \<Rightarrow> u64"
  fs_pgl_addr :: u32
  fs_pgl_param_buf_id :: u64
  fs_send_irq_sof :: u8
  fs_send_irq_eof :: u8
  fs_send_irq_capture_ack :: u8
  fs_send_irq_capture_done :: u8
  fs_send_resp_sof :: u8
  fs_send_resp_eof :: u8

definition empty_frame_set :: fw_frame_set where
  "empty_frame_set = \<lparr>fs_addr = (\<lambda>_. 0), fs_out_buf_id = (\<lambda>_. 0), fs_pgl_addr = 0,
     fs_pgl_param_buf_id = 0, fs_send_irq_sof = 0, fs_send_irq_eof = 0,
     fs_send_irq_capture_ack = 0, fs_send_irq_capture_done = 0, fs_send_resp_sof = 0,
     fs_send_resp_eof = 0\<rparr>"

text \<open>\<^verbatim>\<open>struct ipu_fw_isys_stream_cfg_data_abi\<close> with its pins and the crop of the first stage.\<close>

record fw_input_pin =
  ii_width :: u32
  ii_height :: u32
  ii_dt :: u8
  ii_mipi_store_mode :: u8
  ii_bits_per_pix :: u8
  ii_mapped_dt :: u8

record fw_output_pin =
  op_input_pin_id :: u8
  op_width :: u32
  op_height :: u32
  op_stride :: u32
  op_pt :: u8
  op_ft :: u8
  op_send_irq :: u8

record fw_stream_cfg =
  sc_src :: u32
  sc_vc :: u8
  sc_isl_use :: u8
  sc_compfmt :: u32
  sc_nof_input_pins :: nat
  sc_nof_output_pins :: nat
  sc_input_pins :: "nat \<Rightarrow> fw_input_pin"
  sc_output_pins :: "nat \<Rightarrow> fw_output_pin"
  sc_crop :: "u32 \<times> u32 \<times> u32 \<times> u32"   \<comment> \<open>left, top, right, bottom\<close>

text \<open>The libcalls of \<^verbatim>\<open>ipu_fw_isys_simple_cmd\<close> and \<^verbatim>\<open>ipu_fw_isys_complex_cmd\<close>.\<close>

datatype fw_send =
    STREAM_OPEN fw_stream_cfg
  | STREAM_START
  | STREAM_START_AND_CAPTURE fw_frame_set
  | STREAM_CAPTURE fw_frame_set
  | STREAM_STOP
  | STREAM_FLUSH
  | STREAM_CLOSE

text \<open>\<^verbatim>\<open>struct ipu_fw_isys_resp_info_abi\<close>, what the driver reads of it.\<close>

record fw_resp =
  rs_buf_id :: u64
  rs_pin_addr :: u32
  rs_error :: u32
  rs_timestamp_lo :: u32
  rs_timestamp_hi :: u32
  rs_stream_handle :: u8
  rs_type :: u8
  rs_pin_id :: u8

text \<open>A register, by the block it belongs to; those of a receiver by the receiver.\<close>

datatype isys_reg =
    Isys_reg u32 | Isp_reg u32 | Csi2_reg u64 u32
  | Csi_irq_ctrl u64 u32 | Csi_irq_ctrl0 u64 u32

text \<open>What the interrupt thread does at a time: one firmware response, or one receiver.\<close>

datatype isys_irq = Fw_irq | Csi2_irq u64

text \<open>\<^verbatim>\<open>struct ipu_isys_queue\<close>; a function pointer is a function or \<open>None\<close>.\<close>

record isys_queue =
  aq_fw_output :: nat
  aq_css_pin_type :: u8
  aq_prepare_frame_buff_set :: bool
  aq_fill_frame_buff_set_pin ::
    "(isys_buffer \<Rightarrow> nat \<Rightarrow> fw_frame_set \<Rightarrow> fw_frame_set) option"
  aq_vbq_streaming :: bool       \<comment> \<open>\<^verbatim>\<open>vbq.streaming\<close>, which videobuf2 keeps\<close>

record isys_video =
  av_pipe :: "node option"
  av_streaming :: bool
  av_width :: u32
  av_height :: u32
  av_bytesperline :: u32
  av_bpp_planar :: u32
  av_css_pixelformat :: u8

datatype isl_mode = IPU_ISL_OFF | IPU_ISL_CSI2_BE | IPU_ISL_ISA

datatype isys_completion = Stream_open | Stream_close | Stream_start | Stream_stop | Capture_ack

datatype pin_ready = Queue_buf_ready node | Short_packet_ready

datatype capture_done = Csi2_capture_done | Isa_capture_done

record isys_pipeline =
  ip_external :: "u64 option"
  ip_sequence :: u32
  ip_frames_done :: u32
  ip_verify_active :: bool
  ip_seq_index :: nat
  ip_seq :: "(u32 \<times> u64) list"
  ip_source :: u32
  ip_stream_handle :: int
  ip_nr_output_pins :: u32
  ip_isl_mode :: isl_mode
  ip_csi2_be :: "u64 option"
  ip_csi2_be_soc :: "u64 option"
  ip_csi2 :: "u64 option"
  ip_tpg :: "u64 option"
  ip_nr_queues :: int
  ip_nr_streaming :: int
  ip_streaming :: bool
  ip_queues :: "node list"
  ip_completion :: "isys_completion \<Rightarrow> nat"
  ip_capture_done :: "capture_done list"
  ip_output_pins :: "nat \<Rightarrow> pin_ready option"
  ip_has_sof :: bool
  ip_interlaced :: bool
  ip_error :: u32
  ip_num_short_packet_lines :: u32
  ip_short_packet_output_pin :: nat
  ip_cur_field :: u32
  ip_vc :: nat
  ip_stream_id :: u32
  ip_start_count :: nat           \<comment> \<open>of the \<^verbatim>\<open>media_pipeline\<close>\<close>
  ip_asv :: "nat \<Rightarrow> nat \<times> nat"      \<comment> \<open>substream and virtual channel\<close>
  ip_entities :: "node list"      \<comment> \<open>the video nodes of \<^verbatim>\<open>entity_enum\<close>\<close>

text \<open>\<^verbatim>\<open>struct ipu_isys_csi2\<close>.\<close>

record isys_csi2 =
  cs_index :: nat
  cs_source :: u32
  cs_nlanes :: u32
  cs_stream_count :: u32
  cs_remote_streams :: u32
  cs_receiver_errors :: u32
  cs_last_receiver_errors :: u32
  cs_fatal_receiver_errors :: u32
  cs_in_frame :: "nat \<Rightarrow> bool"
  cs_wait_for_sync :: "nat \<Rightarrow> bool"
  cs_eof_completion :: nat

text \<open>A subdevice by its driver.\<close>

datatype subdev_kind = Csi2_subdev | Be_subdev | Soc_subdev | Isa_subdev | Other_subdev

text \<open>A link as seen from one of its entities, with what the checks read of its source.\<close>

record media_link =
  lk_pad :: nat
  lk_is_sink :: bool
  lk_must_connect :: bool
  lk_enabled :: bool
  lk_source :: u64
  lk_source_is_subdev :: bool
  lk_source_ours :: bool
  lk_source_is_tpg :: bool
  lk_source_single_pad :: bool

text \<open>An entity of the media graph: a video node, or a subdevice, which is the driver's own when its name
  has the driver's prefix.\<close>

datatype media_entity = Video_entity node | Subdev_entity u64 bool

text \<open>\<^verbatim>\<open>struct ipu4p_isys_quirks\<close>, the part about the front camera's receiver.\<close>

record isys_quirks =
  qk_front_csi_index :: nat
  qk_front_source :: u32
  qk_front_lanes :: u32
  qk_clock_first_data_ticks :: u32
  qk_data_ticks :: u32

datatype list_id =
    Incoming node | Active node
  | Pending_interlaced node | Short_packet_incoming node | Short_packet_active node

datatype short_packet_source =
  IPU_ISYS_SHORT_PACKET_FROM_RECEIVER | IPU_ISYS_SHORT_PACKET_FROM_TUNIT

record 'w isys =
  sy_world :: 'w
  sy_buf :: "buf \<Rightarrow> isys_buffer"
  sy_list :: "list_id \<Rightarrow> buf list"
  sy_aq :: "node \<Rightarrow> isys_queue"
  sy_av :: "node \<Rightarrow> isys_video"
  sy_ip :: "node \<Rightarrow> isys_pipeline"
  sy_csi2 :: "u64 \<Rightarrow> isys_csi2"
  sy_sd_pipe :: "u64 \<Rightarrow> node option"    \<comment> \<open>\<^verbatim>\<open>pads[0].pipe\<close> of a subdevice\<close>
  sy_short_bufs :: "node \<Rightarrow> buf list"
  sy_pipes :: "nat \<Rightarrow> node option"
  sy_requests :: "u64 list"
  sy_req_buffers :: "u64 \<Rightarrow> buf list"
  sy_framebuflist :: "u64 list"
  sy_framebuflist_fw :: "u64 list"
  sy_stream_opened :: u32
  sy_video_opened :: u32
  sy_reset_needed :: bool
  sy_fwcom :: bool
  sy_power :: bool
  sy_flr_done :: bool
  sy_isr_csi2_bits :: u32
  sy_nports :: "u64 list"             \<comment> \<open>the receivers, by port\<close>
  sy_be_av :: "u64 \<Rightarrow> node"
  sy_isa_av :: node
  sy_line_align :: u32
  sy_use_stream_stop :: bool
  sy_quirks :: "isys_quirks option"
  sy_isa_config :: node
  sy_isa_3a :: node
  sy_short_packet_source :: short_packet_source
  sy_done :: "(buf \<times> vb2_buffer_state) list"
  sy_sent :: "(int \<times> fw_send \<times> int) list"   \<comment> \<open>handle, command, result\<close>
  sy_sensor :: "(bool \<times> int) list"      \<comment> \<open>\<^verbatim>\<open>s_stream\<close> calls of external sensors\<close>
  sy_wild :: bool                     \<comment> \<open>undefined behaviour has happened\<close>

text \<open>What the driver asks of the rest of the machine.\<close>

record 'w isys_ops =
  w_fw_call :: "int \<Rightarrow> fw_send \<Rightarrow> 'w \<Rightarrow> int \<times> 'w"
  w_irqs :: "'w \<Rightarrow> isys_irq list \<times> 'w"
  w_msg_alloc :: "'w \<Rightarrow> u64 option \<times> 'w"
  w_prepare_frame_buff_set :: "buf \<Rightarrow> 'w \<Rightarrow> 'w"
  w_s_stream :: "u64 \<Rightarrow> bool \<Rightarrow> 'w \<Rightarrow> int \<times> 'w"
  w_enable_streams :: "u64 \<Rightarrow> u32 \<Rightarrow> u64 \<Rightarrow> bool \<Rightarrow> 'w \<Rightarrow> int \<times> 'w"
  w_streams_flag :: "u64 \<Rightarrow> bool"
  w_src_stream :: "u64 \<Rightarrow> u32 \<Rightarrow> 'w \<Rightarrow> u32"
  w_remote_pad :: "node \<Rightarrow> 'w \<Rightarrow> (u64 \<times> u32 \<times> bool) option"   \<comment> \<open>entity, index, source\<close>
  w_graph :: "node \<Rightarrow> media_entity list"
  w_upstream :: "media_entity \<Rightarrow> media_entity option"   \<comment> \<open>the remote entity of \<^verbatim>\<open>pads[0]\<close>\<close>
  w_kind :: "u64 \<Rightarrow> subdev_kind"
  w_links :: "media_entity \<Rightarrow> media_link list"
  w_num_pads :: "media_entity \<Rightarrow> nat"
  w_validates :: "media_entity \<Rightarrow> bool"
  w_link_check :: "media_entity \<Rightarrow> media_link \<Rightarrow> 'w \<Rightarrow> (bool \<times> bool \<times> int) \<times> 'w"
    \<comment> \<open>the core's check: whether it calls the driver's, whether the fields alternate, the result\<close>
  w_asd_source :: "u64 \<Rightarrow> u32"
  w_asd_isl :: "u64 \<Rightarrow> isl_mode"
  w_query_sub_stream :: "u64 \<Rightarrow> 'w \<Rightarrow> bool"
  w_sub_stream :: "u64 \<Rightarrow> nat \<Rightarrow> 'w \<Rightarrow> (int + u64)"
  w_enum_init :: "'w \<Rightarrow> int \<times> 'w"
  w_header_conflict :: "u64 \<Rightarrow> bool"     \<comment> \<open>a source pad leads to a subdevice\<close>
  w_link_fmt :: "node \<Rightarrow> 'w \<Rightarrow> int \<times> 'w"   \<comment> \<open>\<^verbatim>\<open>link_fmt_validate\<close> of the queue\<close>
  w_short_alloc :: "node \<Rightarrow> 'w \<Rightarrow> u64 option \<times> 'w"
  w_graph_init :: "'w \<Rightarrow> int \<times> 'w"
  w_external_format :: "node \<Rightarrow> 'w \<Rightarrow> (int \<times> u32 \<times> u32 \<times> media_bus_fmt) \<times> 'w"
  w_store_csi2_header :: "u64 \<Rightarrow> 'w \<Rightarrow> bool"
  w_selection :: "u64 \<Rightarrow> node \<Rightarrow> 'w \<Rightarrow> (u32 \<times> u32 \<times> u32 \<times> u32) option"
  w_link_freq :: "u64 \<Rightarrow> 'w \<Rightarrow> int + int"
  w_host_lanes :: "u64 \<Rightarrow> 'w \<Rightarrow> u32 option"
  w_readl :: "isys_reg \<Rightarrow> 'w \<Rightarrow> u32 \<times> 'w"
  w_writel :: "u32 \<Rightarrow> isys_reg \<Rightarrow> 'w \<Rightarrow> 'w"
  w_get_resp :: "'w \<Rightarrow> fw_resp option \<times> 'w"
  w_ktime :: "'w \<Rightarrow> u64 \<times> 'w"
  w_tsc :: "'w \<Rightarrow> u64 option \<times> 'w"
  w_current_field :: "node \<Rightarrow> u64 \<Rightarrow> 'w \<Rightarrow> u32 \<times> 'w"

section \<open>Lists\<close>

definition put_list :: "list_id \<Rightarrow> buf list \<Rightarrow> 'w isys \<Rightarrow> 'w isys" where
  "put_list l xs s = s\<lparr>sy_list := (sy_list s)(l := xs)\<rparr>"

definition list_add :: "buf \<Rightarrow> list_id \<Rightarrow> 'w isys \<Rightarrow> 'w isys" where
  "list_add b l s = put_list l (b # sy_list s l) s"

definition list_add_tail :: "buf \<Rightarrow> list_id \<Rightarrow> 'w isys \<Rightarrow> 'w isys" where
  "list_add_tail b l s = put_list l (sy_list s l @ [b]) s"

text \<open>\<^verbatim>\<open>list_del\<close> of a node that may be on any list.\<close>

definition unlink :: "buf \<Rightarrow> 'w isys \<Rightarrow> 'w isys" where
  "unlink b s = s\<lparr>sy_list := (\<lambda>l. removeAll b (sy_list s l))\<rparr>"

definition vb2_buffer_done :: "buf \<Rightarrow> vb2_buffer_state \<Rightarrow> 'w isys \<Rightarrow> 'w isys" where
  "vb2_buffer_done b st s = s\<lparr>sy_done := sy_done s @ [(b, st)]\<rparr>"

definition upd_ip :: "node \<Rightarrow> (isys_pipeline \<Rightarrow> isys_pipeline) \<Rightarrow> 'w isys \<Rightarrow> 'w isys" where
  "upd_ip p f s = s\<lparr>sy_ip := (sy_ip s)(p := f (sy_ip s p))\<rparr>"

definition upd_csi2 :: "u64 \<Rightarrow> (isys_csi2 \<Rightarrow> isys_csi2) \<Rightarrow> 'w isys \<Rightarrow> 'w isys" where
  "upd_csi2 c f s = s\<lparr>sy_csi2 := (sy_csi2 s)(c := f (sy_csi2 s c))\<rparr>"

definition upd_buf :: "buf \<Rightarrow> (isys_buffer \<Rightarrow> isys_buffer) \<Rightarrow> 'w isys \<Rightarrow> 'w isys" where
  "upd_buf b f s = s\<lparr>sy_buf := (sy_buf s)(b := f (sy_buf s b))\<rparr>"

definition upd_av :: "node \<Rightarrow> (isys_video \<Rightarrow> isys_video) \<Rightarrow> 'w isys \<Rightarrow> 'w isys" where
  "upd_av v f s = s\<lparr>sy_av := (sy_av s)(v := f (sy_av s v))\<rparr>"

definition upd_aq :: "node \<Rightarrow> (isys_queue \<Rightarrow> isys_queue) \<Rightarrow> 'w isys \<Rightarrow> 'w isys" where
  "upd_aq v f s = s\<lparr>sy_aq := (sy_aq s)(v := f (sy_aq s v))\<rparr>"

section \<open>Moving buffer lists\<close>

text \<open>The loop of \<^verbatim>\<open>ipu_isys_buffer_list_queue\<close>.\<close>

definition queue_one :: "u32 \<Rightarrow> vb2_buffer_state \<Rightarrow> buf \<Rightarrow> 'w isys \<Rightarrow> 'w isys" where
  "queue_one op_flags st b s =
     (let q = ib_queue (sy_buf s b) in
      case ib_type (sy_buf s b) of
        IPU_ISYS_VIDEO_BUFFER \<Rightarrow>
          if op_flags AND IPU_ISYS_BUFFER_LIST_FL_SET_STATE \<noteq> 0 then vb2_buffer_done b st s
          else if op_flags AND IPU_ISYS_BUFFER_LIST_FL_ACTIVE \<noteq> 0 then list_add b (Active q) s
          else if op_flags AND IPU_ISYS_BUFFER_LIST_FL_INCOMING \<noteq> 0
               then list_add_tail b (Incoming q) s
          else s
      | IPU_ISYS_SHORT_PACKET_BUFFER \<Rightarrow>
          if op_flags AND IPU_ISYS_BUFFER_LIST_FL_ACTIVE \<noteq> 0
          then list_add b (Short_packet_active q) s
          else if op_flags AND IPU_ISYS_BUFFER_LIST_FL_INCOMING \<noteq> 0
               then list_add b (Short_packet_incoming q) s
          else s)"

fun queue_all :: "u32 \<Rightarrow> vb2_buffer_state \<Rightarrow> buf list \<Rightarrow> 'w isys \<Rightarrow> 'w isys" where
  "queue_all op_flags st [] s = s"
| "queue_all op_flags st (b # bs) s = queue_all op_flags st bs (queue_one op_flags st b s)"

definition ipu_isys_buffer_list_queue ::
  "isys_buffer_list \<Rightarrow> u32 \<Rightarrow> vb2_buffer_state \<Rightarrow> 'w isys \<Rightarrow> isys_buffer_list \<times> 'w isys" where
  "ipu_isys_buffer_list_queue bl op_flags st s =
     (\<lparr>bl_head = [], bl_nbufs = bl_nbufs bl - length (bl_head bl)\<rparr>,
      queue_all op_flags st (bl_head bl) s)"

text \<open>\<^verbatim>\<open>flush_firmware_streamon_fail\<close>: the active buffers of every queue of the pipeline are completed.\<close>

fun detach_active :: "node list \<Rightarrow> isys_buffer_list \<Rightarrow> 'w isys \<Rightarrow> isys_buffer_list \<times> 'w isys" where
  "detach_active [] bl s = (bl, s)"
| "detach_active (q # qs) bl s =
     detach_active qs
       \<lparr>bl_head = bl_head bl @ sy_list s (Active q),
        bl_nbufs = bl_nbufs bl + length (sy_list s (Active q))\<rparr>
       (put_list (Active q) [] s)"

definition flush_firmware_streamon_fail ::
  "node \<Rightarrow> vb2_buffer_state \<Rightarrow> 'w isys \<Rightarrow> 'w isys" where
  "flush_firmware_streamon_fail p st s =
     (let (bl, s1) = detach_active (ip_queues (sy_ip s p)) \<lparr>bl_head = [], bl_nbufs = 0\<rparr> s in
      if bl_nbufs bl \<noteq> 0
      then snd (ipu_isys_buffer_list_queue bl IPU_ISYS_BUFFER_LIST_FL_SET_STATE st s1)
      else s1)"

text \<open>\<^verbatim>\<open>buffer_list_get\<close>: the oldest buffer of every queue, or none at all.\<close>

fun take_buffers ::
  "node list \<Rightarrow> isys_buffer_list \<Rightarrow> 'w isys \<Rightarrow> int \<times> isys_buffer_list \<times> 'w isys" where
  "take_buffers [] bl s = (0, bl, s)"
| "take_buffers (q # qs) bl s =
     (if sy_list s (Incoming q) = [] then (E_NODATA, bl, s)
      else let b = last (sy_list s (Incoming q)) in
        if ib_req (sy_buf s b) \<noteq> None then (E_NODATA, bl, s)
        else take_buffers qs \<lparr>bl_head = b # bl_head bl, bl_nbufs = bl_nbufs bl + 1\<rparr>
               (put_list (Incoming q) (butlast (sy_list s (Incoming q))) s))"

fun prepare_buffers :: "'w isys_ops \<Rightarrow> buf list \<Rightarrow> 'w isys \<Rightarrow> 'w isys" where
  "prepare_buffers ops [] s = s"
| "prepare_buffers ops (b # bs) s =
     prepare_buffers ops bs
       (if aq_prepare_frame_buff_set (sy_aq s (ib_queue (sy_buf s b)))
        then s\<lparr>sy_world := w_prepare_frame_buff_set ops b (sy_world s)\<rparr> else s)"

definition ipu_isys_csi2_get_short_packet_buffer :: "node \<Rightarrow> 'w isys \<Rightarrow> buf option" where
  "ipu_isys_csi2_get_short_packet_buffer p s =
     (if sy_list s (Short_packet_incoming p) = [] then None
      else Some (last (sy_list s (Short_packet_incoming p))))"

definition give_back :: "isys_buffer_list \<Rightarrow> 'w isys \<Rightarrow> isys_buffer_list \<times> 'w isys" where
  "give_back bl s =
     (if bl_head bl \<noteq> []
      then ipu_isys_buffer_list_queue bl IPU_ISYS_BUFFER_LIST_FL_INCOMING VB2_BUF_STATE_QUEUED s
      else (bl, s))"

definition buffer_list_get ::
  "'w isys_ops \<Rightarrow> node \<Rightarrow> 'w isys \<Rightarrow> int \<times> isys_buffer_list \<times> 'w isys" where
  "buffer_list_get ops p s =
     (case take_buffers (ip_queues (sy_ip s p)) \<lparr>bl_head = [], bl_nbufs = 0\<rparr> s of
        (ret, bl, s1) \<Rightarrow>
          if ret \<noteq> 0 then (ret, give_back bl s1)
          else let s2 = prepare_buffers ops (bl_head bl) s1 in
            if ip_interlaced (sy_ip s2 p) \<and>
               sy_short_packet_source s2 = IPU_ISYS_SHORT_PACKET_FROM_RECEIVER
            then case ipu_isys_csi2_get_short_packet_buffer p s2 of
                None \<Rightarrow> (E_NODATA, give_back bl s2)
              | Some b \<Rightarrow>
                  (0, \<lparr>bl_head = b # bl_head bl, bl_nbufs = bl_nbufs bl + 1\<rparr>,
                   put_list (Short_packet_incoming p)
                     (butlast (sy_list s2 (Short_packet_incoming p))) s2)
            else (0, bl, s2))"

section \<open>Frame buffer sets\<close>

definition ipu_isys_buffer_list_to_ipu_fw_isys_frame_buff_set_pin ::
  "isys_buffer \<Rightarrow> nat \<Rightarrow> fw_frame_set \<Rightarrow> fw_frame_set" where
  "ipu_isys_buffer_list_to_ipu_fw_isys_frame_buff_set_pin vb fw_output fs =
     fs\<lparr>fs_addr := (fs_addr fs)(fw_output := ib_addr vb),
         fs_out_buf_id := (fs_out_buf_id fs)(fw_output := ucast (ib_index vb + 1))\<rparr>"

definition fill_one :: "node \<Rightarrow> 'w isys \<Rightarrow> buf \<Rightarrow> fw_frame_set \<Rightarrow> fw_frame_set" where
  "fill_one p s b fs =
     (let ib = sy_buf s b; aq = sy_aq s (ib_queue ib) in
      case ib_type ib of
        IPU_ISYS_VIDEO_BUFFER \<Rightarrow>
          (case aq_fill_frame_buff_set_pin aq of
             Some f \<Rightarrow> f ib (aq_fw_output aq) fs | None \<Rightarrow> fs)
      | IPU_ISYS_SHORT_PACKET_BUFFER \<Rightarrow>
          ipu_isys_buffer_list_to_ipu_fw_isys_frame_buff_set_pin ib
            (ip_short_packet_output_pin (sy_ip s p)) fs)"

definition set_irq_flags :: "fw_frame_set \<Rightarrow> fw_frame_set" where
  "set_irq_flags fs =
     fs\<lparr>fs_send_irq_sof := 1, fs_send_resp_sof := 1, fs_send_irq_capture_ack := 1,
         fs_send_irq_capture_done := 1, fs_send_irq_eof := 1, fs_send_resp_eof := 1\<rparr>"

definition ipu_isys_buffer_list_to_ipu_fw_isys_frame_buff_set ::
  "fw_frame_set \<Rightarrow> node \<Rightarrow> isys_buffer_list \<Rightarrow> 'w isys \<Rightarrow> fw_frame_set" where
  "ipu_isys_buffer_list_to_ipu_fw_isys_frame_buff_set fs p bl s =
     fold (fill_one p s) (bl_head bl) (set_irq_flags fs)"

section \<open>Firmware message buffers\<close>

fun alloc_loop :: "nat \<Rightarrow> 'w isys_ops \<Rightarrow> 'w isys \<Rightarrow> bool \<times> 'w isys" where
  "alloc_loop 0 ops s = (True, s)"
| "alloc_loop (Suc n) ops s =
     (let (a, w) = w_msg_alloc ops (sy_world s); s1 = s\<lparr>sy_world := w\<rparr> in
      case a of
        None \<Rightarrow> (False, s1)
      | Some m \<Rightarrow> alloc_loop n ops (s1\<lparr>sy_framebuflist := m # sy_framebuflist s1\<rparr>))"

definition alloc_fw_msg_buffers :: "'w isys_ops \<Rightarrow> nat \<Rightarrow> 'w isys \<Rightarrow> int \<times> 'w isys" where
  "alloc_fw_msg_buffers ops amount s =
     (let (ok, s1) = alloc_loop amount ops s in
      if ok then (0, s1) else (E_NOMEM, s1\<lparr>sy_framebuflist := []\<rparr>))"

text \<open>The message is the last one of the list and its memory is cleared.\<close>

definition ipu_get_fw_msg_buf :: "'w isys_ops \<Rightarrow> 'w isys \<Rightarrow> u64 option \<times> 'w isys" where
  "ipu_get_fw_msg_buf ops s =
     (let s1 = (if sy_framebuflist s = [] then snd (alloc_fw_msg_buffers ops 5 s) else s) in
      if sy_framebuflist s1 = [] then (None, s1)
      else let msg = last (sy_framebuflist s1) in
        (Some msg, s1\<lparr>sy_framebuflist := butlast (sy_framebuflist s1),
                       sy_framebuflist_fw := msg # sy_framebuflist_fw s1\<rparr>))"

definition ipu_put_fw_mgs_buffer :: "u64 \<Rightarrow> 'w isys \<Rightarrow> 'w isys" where
  "ipu_put_fw_mgs_buffer msg s =
     (if msg = 0 then s
      else s\<lparr>sy_framebuflist_fw := removeAll msg (sy_framebuflist_fw s),
             sy_framebuflist := msg # removeAll msg (sy_framebuflist s)\<rparr>)"

definition ipu_cleanup_fw_msg_bufs :: "'w isys \<Rightarrow> 'w isys" where
  "ipu_cleanup_fw_msg_bufs s =
     s\<lparr>sy_framebuflist := rev (sy_framebuflist_fw s) @ sy_framebuflist s,
       sy_framebuflist_fw := []\<rparr>"

end
