(* ===== verification/IsysRecv.thy ===== *)
theory IsysRecv
  imports IsysQueue ButtressBoot
begin

text \<open>
  The receiving side of the capture path: the responses of the firmware (\<^verbatim>\<open>isys_isr_one\<close> of
  \<^verbatim>\<open>ipu-isys.c\<close>), the buffers they complete (second half of \<^verbatim>\<open>ipu-isys-queue.c\<close>), the receivers' errors
  and frame events (\<^verbatim>\<open>ipu-isys-csi2.c\<close>, \<^verbatim>\<open>ipu4p-isys-csi2.c\<close>) and the interrupt handler of
  \<^verbatim>\<open>ipu4-isys.c\<close>.
\<close>

section \<open>Sequence numbers and time\<close>

definition IPU_ISYS_MAX_PARALLEL_SOF :: nat where "IPU_ISYS_MAX_PARALLEL_SOF = 2"

definition resp_time :: "fw_resp \<Rightarrow> u64" where
  "resp_time info = push_bit 32 (ucast (rs_timestamp_hi info)) OR ucast (rs_timestamp_lo info)"

definition get_sof_sequence_by_timestamp :: "isys_pipeline \<Rightarrow> fw_resp \<Rightarrow> u32" where
  "get_sof_sequence_by_timestamp ip info =
     (case List.find (\<lambda>e. snd e = resp_time info) (take IPU_ISYS_MAX_PARALLEL_SOF (ip_seq ip)) of
        Some (seq, _) \<Rightarrow> seq
      | None \<Rightarrow> 0)"

definition get_sof_ns_delta :: "'w isys_ops \<Rightarrow> fw_resp \<Rightarrow> 'w isys \<Rightarrow> u64 \<times> 'w isys" where
  "get_sof_ns_delta ops info s =
     (let (t, w) = w_tsc ops (sy_world s);
          delta = (case t of Some now \<Rightarrow> now - resp_time info | None \<Rightarrow> 0) in
      (ipu4_buttress_tsc_ticks_to_ns delta, s\<lparr>sy_world := w\<rparr>))"

definition ipu_isys_buf_calc_sequence_time ::
  "'w isys_ops \<Rightarrow> buf \<Rightarrow> fw_resp \<Rightarrow> 'w isys \<Rightarrow> 'w isys" where
  "ipu_isys_buf_calc_sequence_time ops b info s =
     (case av_pipe (sy_av s (ib_queue (sy_buf s b))) of
        None \<Rightarrow> s
      | Some p \<Rightarrow>
          let (now, w) = w_ktime ops (sy_world s); s1 = s\<lparr>sy_world := w\<rparr> in
          if ip_has_sof (sy_ip s1 p)
          then let (d, s2) = get_sof_ns_delta ops info s1 in
            upd_buf b (\<lambda>ib. ib\<lparr>ib_timestamp := now - d,
              ib_sequence := get_sof_sequence_by_timestamp (sy_ip s2 p) info\<rparr>) s2
          else let seq = ip_sequence (sy_ip s1 p) in
            upd_buf b (\<lambda>ib. ib\<lparr>ib_timestamp := now,
              ib_sequence := word_of_int (sint seq sdiv ip_nr_queues (sy_ip s1 p))\<rparr>)
             (upd_ip p (\<lambda>ip. ip\<lparr>ip_sequence := seq + 1\<rparr>) s1))"

section \<open>Completing buffers\<close>

definition ipu_isys_queue_buf_done :: "buf \<Rightarrow> 'w isys \<Rightarrow> 'w isys" where
  "ipu_isys_queue_buf_done b s =
     (if ib_str2mmio_flag (sy_buf s b)
      then upd_buf b (\<lambda>ib. ib\<lparr>ib_str2mmio_flag := False\<rparr>)
             (vb2_buffer_done b VB2_BUF_STATE_ERROR s)
      else vb2_buffer_done b VB2_BUF_STATE_DONE s)"

definition IPU_FW_ISYS_ERROR_HW_REPORTED_STR2MMIO :: u32 where
  "IPU_FW_ISYS_ERROR_HW_REPORTED_STR2MMIO = 8"
definition V4L2_FIELD_NONE :: u32 where "V4L2_FIELD_NONE = 1"

definition str2mmio :: "fw_resp \<Rightarrow> bool" where
  "str2mmio info \<longleftrightarrow> rs_error info = IPU_FW_ISYS_ERROR_HW_REPORTED_STR2MMIO"

text \<open>The matching buffer leaves the active list: it is parked, kept for its field, or completed.\<close>

definition buf_ready_found ::
  "'w isys_ops \<Rightarrow> node \<Rightarrow> node \<Rightarrow> buf \<Rightarrow> fw_resp \<Rightarrow> 'w isys \<Rightarrow> 'w isys" where
  "buf_ready_found ops p q b info s =
     (let ip = sy_ip s p; rest = put_list (Active q) (remove1 b (sy_list s (Active q))) s in
      if str2mmio info \<and> \<not> ip_interlaced ip \<and> ib_req (sy_buf s b) = None \<and> ip_verify_active ip
      then list_add b (Incoming q) rest
      else
        let s1 = upd_buf b (\<lambda>ib. ib\<lparr>ib_str2mmio_flag := str2mmio info \<or> ib_str2mmio_flag ib,
                                    ib_field := V4L2_FIELD_NONE\<rparr>) rest;
            s2 = ipu_isys_buf_calc_sequence_time ops b info s1 in
        if ip_interlaced (sy_ip s2 p) then list_add b (Pending_interlaced p) s2
        else ipu_isys_queue_buf_done b s2)"

definition ipu_isys_queue_buf_ready ::
  "'w isys_ops \<Rightarrow> node \<Rightarrow> node \<Rightarrow> fw_resp \<Rightarrow> 'w isys \<Rightarrow> 'w isys" where
  "ipu_isys_queue_buf_ready ops p q info s =
     (case List.find (\<lambda>b. ib_addr (sy_buf s b) = rs_pin_addr info) (rev (sy_list s (Active q))) of
        None \<Rightarrow> s
      | Some b \<Rightarrow> buf_ready_found ops p q b info s)"

definition ipu_isys_queue_short_packet_ready ::
  "'w isys_ops \<Rightarrow> node \<Rightarrow> fw_resp \<Rightarrow> 'w isys \<Rightarrow> 'w isys" where
  "ipu_isys_queue_short_packet_ready ops p info s =
     (let (f, w) = w_current_field ops p (resp_time info) (sy_world s) in
      upd_ip p (\<lambda>ip. ip\<lparr>ip_cur_field := f\<rparr>) (s\<lparr>sy_world := w\<rparr>))"

section \<open>Receiver errors\<close>

definition isys_readl :: "'w isys_ops \<Rightarrow> isys_reg \<Rightarrow> 'w isys \<Rightarrow> u32 \<times> 'w isys" where
  "isys_readl ops r s = (let (v, w) = w_readl ops r (sy_world s) in (v, s\<lparr>sy_world := w\<rparr>))"

definition isys_writel :: "'w isys_ops \<Rightarrow> u32 \<Rightarrow> isys_reg \<Rightarrow> 'w isys \<Rightarrow> 'w isys" where
  "isys_writel ops v r s = s\<lparr>sy_world := w_writel ops v r (sy_world s)\<rparr>"

definition IPU_ISYS_CSI2_FATAL_ERRORS :: u32 where "IPU_ISYS_CSI2_FATAL_ERRORS = 0x480"

definition ipu4p_isys_register_errors :: "'w isys_ops \<Rightarrow> u64 \<Rightarrow> 'w isys \<Rightarrow> 'w isys" where
  "ipu4p_isys_register_errors ops c s =
     (let (status, s1) = isys_readl ops (Csi_irq_ctrl0 c 8) s;
          s2 = isys_writel ops status (Csi_irq_ctrl0 c 0xc) s1 in
      upd_csi2 c (\<lambda>cs. cs\<lparr>cs_receiver_errors := cs_receiver_errors cs OR (status AND 0xffff)\<rparr>) s2)"

definition ipu_isys_csi2_error :: "'w isys_ops \<Rightarrow> u64 \<Rightarrow> 'w isys \<Rightarrow> int \<times> 'w isys" where
  "ipu_isys_csi2_error ops c s =
     (let s1 = ipu4p_isys_register_errors ops c s;
          status = cs_receiver_errors (sy_csi2 s1 c);
          s2 = upd_csi2 c (\<lambda>cs. cs\<lparr>cs_receiver_errors := 0, cs_last_receiver_errors := status,
                 cs_fatal_receiver_errors := cs_fatal_receiver_errors cs
                   OR (status AND IPU_ISYS_CSI2_FATAL_ERRORS)\<rparr>) s1 in
      (if status AND IPU_ISYS_CSI2_FATAL_ERRORS \<noteq> 0 then E_IO else 0, s2))"

definition ipu_isys_csi2_reset_errors :: "'w isys_ops \<Rightarrow> u64 \<Rightarrow> 'w isys \<Rightarrow> 'w isys" where
  "ipu_isys_csi2_reset_errors ops c s =
     (let (st, s1) = isys_readl ops (Csi_irq_ctrl c 8) s;
          s2 = isys_writel ops st (Csi_irq_ctrl c 0xc) s1;
          (st0, s3) = isys_readl ops (Csi_irq_ctrl0 c 8) s2;
          s4 = isys_writel ops st0 (Csi_irq_ctrl0 c 0xc) s3 in
      upd_csi2 c (\<lambda>cs. cs\<lparr>cs_receiver_errors := 0, cs_last_receiver_errors := 0,
                           cs_fatal_receiver_errors := 0\<rparr>) s4)"

section \<open>Frame events\<close>

definition IPU_ISYS_MAX_STREAMS :: nat where "IPU_ISYS_MAX_STREAMS = 8"
definition NR_OF_CSI2_VC :: nat where "NR_OF_CSI2_VC = 4"

definition pipe_of_vc :: "u64 \<Rightarrow> nat \<Rightarrow> 'w isys \<Rightarrow> node option" where
  "pipe_of_vc c vc s =
     List.find (\<lambda>p. ip_vc (sy_ip s p) = vc \<and> ip_csi2 (sy_ip s p) = Some c)
       (List.map_filter (sy_pipes s) [0..<IPU_ISYS_MAX_STREAMS])"

definition ipu_isys_csi2_sof_event :: "u64 \<Rightarrow> nat \<Rightarrow> 'w isys \<Rightarrow> 'w isys" where
  "ipu_isys_csi2_sof_event c vc s =
     (let s1 = upd_csi2 c (\<lambda>cs. cs\<lparr>cs_in_frame := (cs_in_frame cs)(vc := True)\<rparr>) s in
      case pipe_of_vc c vc s1 of
        None \<Rightarrow> s1
      | Some p \<Rightarrow> upd_ip p (\<lambda>ip. ip\<lparr>ip_sequence := ip_sequence ip + 1\<rparr>) s1)"

definition ipu_isys_csi2_eof_event :: "u64 \<Rightarrow> nat \<Rightarrow> 'w isys \<Rightarrow> 'w isys" where
  "ipu_isys_csi2_eof_event c vc s =
     upd_csi2 c (\<lambda>cs. cs\<lparr>cs_in_frame := (cs_in_frame cs)(vc := False),
       cs_eof_completion := cs_eof_completion cs + (if cs_wait_for_sync cs vc then 1 else 0)\<rparr>) s"

definition CSI2_IRQ_FS_VC :: "nat \<Rightarrow> u32" where "CSI2_IRQ_FS_VC chn = push_bit (chn * 4) 0x10000"
definition CSI2_IRQ_FE_VC :: "nat \<Rightarrow> u32" where "CSI2_IRQ_FE_VC chn = push_bit (chn * 4) 0x20000"

definition vc_events :: "u64 \<Rightarrow> u32 \<Rightarrow> nat \<Rightarrow> 'w isys \<Rightarrow> 'w isys" where
  "vc_events c status i s =
     (let s1 = (if status AND CSI2_IRQ_FS_VC i \<noteq> 0 then ipu_isys_csi2_sof_event c i s else s) in
      if status AND CSI2_IRQ_FE_VC i \<noteq> 0 then ipu_isys_csi2_eof_event c i s1 else s1)"

definition ipu_isys_csi2_isr :: "'w isys_ops \<Rightarrow> u64 \<Rightarrow> 'w isys \<Rightarrow> 'w isys" where
  "ipu_isys_csi2_isr ops c s =
     (let (ctrl_status, s1) = isys_readl ops (Csi_irq_ctrl c 8) s;
          s2 = isys_writel ops ctrl_status (Csi_irq_ctrl c 0xc) s1 in
      if ctrl_status AND 1 = 0 then s2
      else
        let (status, s3) = isys_readl ops (Csi_irq_ctrl0 c 8) s2;
            s4 = isys_writel ops status (Csi_irq_ctrl0 c 0xc) s3;
            s5 = upd_csi2 c (\<lambda>cs. cs\<lparr>cs_receiver_errors := cs_receiver_errors cs
                   OR (status AND 0xffff)\<rparr>) s4 in
        fold (vc_events c status) [0..<NR_OF_CSI2_VC] s5)"

section \<open>Firmware responses\<close>

definition IPU_FW_ISYS_RESP_TYPE_STREAM_OPEN_DONE :: u8
  where "IPU_FW_ISYS_RESP_TYPE_STREAM_OPEN_DONE = 0"
definition IPU_FW_ISYS_RESP_TYPE_STREAM_START_ACK :: u8
  where "IPU_FW_ISYS_RESP_TYPE_STREAM_START_ACK = 1"
definition IPU_FW_ISYS_RESP_TYPE_STREAM_START_AND_CAPTURE_ACK :: u8
  where "IPU_FW_ISYS_RESP_TYPE_STREAM_START_AND_CAPTURE_ACK = 2"
definition IPU_FW_ISYS_RESP_TYPE_STREAM_CAPTURE_ACK :: u8
  where "IPU_FW_ISYS_RESP_TYPE_STREAM_CAPTURE_ACK = 3"
definition IPU_FW_ISYS_RESP_TYPE_STREAM_STOP_ACK :: u8
  where "IPU_FW_ISYS_RESP_TYPE_STREAM_STOP_ACK = 4"
definition IPU_FW_ISYS_RESP_TYPE_STREAM_FLUSH_ACK :: u8
  where "IPU_FW_ISYS_RESP_TYPE_STREAM_FLUSH_ACK = 5"
definition IPU_FW_ISYS_RESP_TYPE_STREAM_CLOSE_ACK :: u8
  where "IPU_FW_ISYS_RESP_TYPE_STREAM_CLOSE_ACK = 6"
definition IPU_FW_ISYS_RESP_TYPE_PIN_DATA_READY :: u8
  where "IPU_FW_ISYS_RESP_TYPE_PIN_DATA_READY = 7"
definition IPU_FW_ISYS_RESP_TYPE_FRAME_SOF :: u8
  where "IPU_FW_ISYS_RESP_TYPE_FRAME_SOF = 9"
definition IPU_FW_ISYS_RESP_TYPE_STREAM_START_AND_CAPTURE_DONE :: u8
  where "IPU_FW_ISYS_RESP_TYPE_STREAM_START_AND_CAPTURE_DONE = 11"
definition IPU_FW_ISYS_RESP_TYPE_STREAM_CAPTURE_DONE :: u8
  where "IPU_FW_ISYS_RESP_TYPE_STREAM_CAPTURE_DONE = 12"

lemmas resp_types = IPU_FW_ISYS_RESP_TYPE_STREAM_OPEN_DONE_def
  IPU_FW_ISYS_RESP_TYPE_STREAM_START_ACK_def
  IPU_FW_ISYS_RESP_TYPE_STREAM_START_AND_CAPTURE_ACK_def
  IPU_FW_ISYS_RESP_TYPE_STREAM_CAPTURE_ACK_def IPU_FW_ISYS_RESP_TYPE_STREAM_STOP_ACK_def
  IPU_FW_ISYS_RESP_TYPE_STREAM_FLUSH_ACK_def IPU_FW_ISYS_RESP_TYPE_STREAM_CLOSE_ACK_def
  IPU_FW_ISYS_RESP_TYPE_PIN_DATA_READY_def IPU_FW_ISYS_RESP_TYPE_FRAME_SOF_def
  IPU_FW_ISYS_RESP_TYPE_STREAM_START_AND_CAPTURE_DONE_def
  IPU_FW_ISYS_RESP_TYPE_STREAM_CAPTURE_DONE_def

definition complete_stream :: "node \<Rightarrow> isys_completion \<Rightarrow> 'w isys \<Rightarrow> 'w isys" where
  "complete_stream p c s =
     upd_ip p (\<lambda>ip. ip\<lparr>ip_completion := (ip_completion ip)(c := ip_completion ip c + 1)\<rparr>) s"

definition IPU_ISYS_OUTPUT_PINS :: nat where "IPU_ISYS_OUTPUT_PINS = 11"

definition resp_pin_data_ready ::
  "'w isys_ops \<Rightarrow> node \<Rightarrow> fw_resp \<Rightarrow> 'w isys \<Rightarrow> 'w isys" where
  "resp_pin_data_ready ops p resp s =
     (let s1 = (if rs_error resp = 0
                then upd_ip p (\<lambda>ip. ip\<lparr>ip_frames_done := ip_frames_done ip + 1\<rparr>) s else s) in
      if unat (rs_pin_id resp) < IPU_ISYS_OUTPUT_PINS then
        case ip_output_pins (sy_ip s1 p) (unat (rs_pin_id resp)) of
          Some (Queue_buf_ready q) \<Rightarrow> ipu_isys_queue_buf_ready ops p q resp s1
        | Some Short_packet_ready \<Rightarrow> ipu_isys_queue_short_packet_ready ops p resp s1
        | None \<Rightarrow> s1
      else s1)"

text \<open>
  Completing the fields of interlaced capture.  \<^verbatim>\<open>list_cut_position\<close> returns at once when the list it
  cuts is empty and leaves the local head as it was, which is not initialised.
\<close>

fun finish_fields :: "u32 \<Rightarrow> buf list \<Rightarrow> 'w isys \<Rightarrow> 'w isys" where
  "finish_fields f [] s = s"
| "finish_fields f (b # bs) s =
     finish_fields f bs (ipu_isys_queue_buf_done b (upd_buf b (\<lambda>ib. ib\<lparr>ib_field := f\<rparr>) s))"

definition interlaced_done ::
  "'w isys_ops \<Rightarrow> node \<Rightarrow> fw_resp \<Rightarrow> 'w isys \<Rightarrow> 'w isys" where
  "interlaced_done ops p resp s =
     (let s1 = (if sy_short_packet_source s = IPU_ISYS_SHORT_PACKET_FROM_TUNIT
                then ipu_isys_queue_short_packet_ready ops p resp s else s);
          pend = sy_list s1 (Pending_interlaced p) in
      if pend = [] then s1\<lparr>sy_wild := True\<rparr>
      else finish_fields (ip_cur_field (sy_ip s1 p)) pend (put_list (Pending_interlaced p) [] s1))"

definition csi2_capture_done :: "'w isys_ops \<Rightarrow> node \<Rightarrow> 'w isys \<Rightarrow> 'w isys" where
  "csi2_capture_done ops p s =
     (let s1 = (if ip_interlaced (sy_ip s p) \<and>
                   sy_short_packet_source s = IPU_ISYS_SHORT_PACKET_FROM_RECEIVER \<and>
                   sy_list s (Short_packet_active p) \<noteq> []
                then list_add (last (sy_list s (Short_packet_active p))) (Short_packet_incoming p)
                       (put_list (Short_packet_active p)
                          (butlast (sy_list s (Short_packet_active p))) s)
                else s) in
      case ip_csi2 (sy_ip s1 p) of
        None \<Rightarrow> s1
      | Some c \<Rightarrow> snd (ipu_isys_csi2_error ops c s1))"

definition isa_take_last :: "'w isys_ops \<Rightarrow> node \<Rightarrow> fw_resp \<Rightarrow> 'w isys \<Rightarrow> 'w isys" where
  "isa_take_last ops q info s =
     (let b = last (sy_list s (Active q));
          s1 = put_list (Active q) (butlast (sy_list s (Active q))) s in
      ipu_isys_queue_buf_done b (ipu_isys_buf_calc_sequence_time ops b info s1))"

definition isa_capture_done ::
  "'w isys_ops \<Rightarrow> fw_resp \<Rightarrow> 'w isys \<Rightarrow> 'w isys" where
  "isa_capture_done ops info s =
     (let q = sy_isa_config s; q3 = sy_isa_3a s in
      if sy_list s (Active q) = [] then s
      else let s1 = isa_take_last ops q info s in
        if av_pipe (sy_av s1 q3) \<noteq> av_pipe (sy_av s1 q) then s1
        else if sy_list s1 (Active q3) = [] then s1
        else isa_take_last ops q3 info s1)"

definition run_capture_done ::
  "'w isys_ops \<Rightarrow> node \<Rightarrow> fw_resp \<Rightarrow> capture_done \<Rightarrow> 'w isys \<Rightarrow> 'w isys" where
  "run_capture_done ops p resp f s =
     (case f of Csi2_capture_done \<Rightarrow> csi2_capture_done ops p s
              | Isa_capture_done \<Rightarrow> isa_capture_done ops resp s)"

definition resp_capture_done ::
  "'w isys_ops \<Rightarrow> node \<Rightarrow> fw_resp \<Rightarrow> 'w isys \<Rightarrow> 'w isys" where
  "resp_capture_done ops p resp s =
     (let s1 = (if ip_interlaced (sy_ip s p) then interlaced_done ops p resp s else s) in
      fold (run_capture_done ops p resp) (ip_capture_done (sy_ip s1 p)) s1)"

definition resp_frame_sof :: "node \<Rightarrow> fw_resp \<Rightarrow> 'w isys \<Rightarrow> 'w isys" where
  "resp_frame_sof p resp s =
     upd_ip p (\<lambda>ip. ip\<lparr>ip_seq := (ip_seq ip)[ip_seq_index ip := (ip_sequence ip - 1, resp_time resp)],
       ip_seq_index := (ip_seq_index ip + 1) mod IPU_ISYS_MAX_PARALLEL_SOF\<rparr>) s"

text \<open>The switch over the response type.\<close>

definition isys_response ::
  "'w isys_ops \<Rightarrow> node \<Rightarrow> fw_resp \<Rightarrow> 'w isys \<Rightarrow> 'w isys" where
  "isys_response ops p resp s =
     (let t = rs_type resp in
      if t = IPU_FW_ISYS_RESP_TYPE_STREAM_OPEN_DONE
      then complete_stream p Stream_open (ipu_put_fw_mgs_buffer (rs_buf_id resp) s)
      else if t = IPU_FW_ISYS_RESP_TYPE_STREAM_CLOSE_ACK then complete_stream p Stream_close s
      else if t = IPU_FW_ISYS_RESP_TYPE_STREAM_START_ACK then complete_stream p Stream_start s
      else if t = IPU_FW_ISYS_RESP_TYPE_STREAM_START_AND_CAPTURE_ACK
      then complete_stream p Stream_start (ipu_put_fw_mgs_buffer (rs_buf_id resp) s)
      else if t = IPU_FW_ISYS_RESP_TYPE_STREAM_STOP_ACK then complete_stream p Stream_stop s
      else if t = IPU_FW_ISYS_RESP_TYPE_STREAM_FLUSH_ACK then complete_stream p Stream_stop s
      else if t = IPU_FW_ISYS_RESP_TYPE_PIN_DATA_READY then resp_pin_data_ready ops p resp s
      else if t = IPU_FW_ISYS_RESP_TYPE_STREAM_CAPTURE_ACK
      then complete_stream p Capture_ack (ipu_put_fw_mgs_buffer (rs_buf_id resp) s)
      else if t = IPU_FW_ISYS_RESP_TYPE_STREAM_START_AND_CAPTURE_DONE \<or>
              t = IPU_FW_ISYS_RESP_TYPE_STREAM_CAPTURE_DONE
      then resp_capture_done ops p resp s
      else if t = IPU_FW_ISYS_RESP_TYPE_FRAME_SOF then resp_frame_sof p resp s
      else s)"

text \<open>\<^verbatim>\<open>ipu_fw_isys_get_resp\<close> of \<^verbatim>\<open>libintel-ipu4p.c\<close>: the library's answer, without a buffer id.\<close>

definition ipu_fw_isys_get_resp :: "'w isys_ops \<Rightarrow> 'w isys \<Rightarrow> fw_resp option \<times> 'w isys" where
  "ipu_fw_isys_get_resp ops s =
     (let (r, w) = w_get_resp ops (sy_world s) in
      (map_option (\<lambda>resp. resp\<lparr>rs_buf_id := 0\<rparr>) r, s\<lparr>sy_world := w\<rparr>))"

definition isys_isr_one :: "'w isys_ops \<Rightarrow> 'w isys \<Rightarrow> int \<times> 'w isys" where
  "isys_isr_one ops s =
     (if \<not> sy_fwcom s then (0, s)
      else let (r, s1) = ipu_fw_isys_get_resp ops s in
        case r of
          None \<Rightarrow> (1, s1)
        | Some resp \<Rightarrow>
            if unat (rs_stream_handle resp) \<ge> IPU_ISYS_MAX_STREAMS then (0, s1)
            else case sy_pipes s1 (unat (rs_stream_handle resp)) of
              None \<Rightarrow> (0, s1)
            | Some p \<Rightarrow>
                (0, isys_response ops p resp (upd_ip p (\<lambda>ip. ip\<lparr>ip_error := rs_error resp\<rparr>) s1)))"

text \<open>Work of the interrupt thread, one item at a time.\<close>

definition isys_irq :: "'w isys_ops \<Rightarrow> isys_irq \<Rightarrow> 'w isys \<Rightarrow> 'w isys" where
  "isys_irq ops i s =
     (case i of Fw_irq \<Rightarrow> snd (isys_isr_one ops s) | Csi2_irq c \<Rightarrow> ipu_isys_csi2_isr ops c s)"

definition interrupts :: "'w isys_ops \<Rightarrow> 'w isys \<Rightarrow> 'w isys" where
  "interrupts ops s =
     (let (evs, w) = w_irqs ops (sy_world s) in fold (isys_irq ops) evs (s\<lparr>sy_world := w\<rparr>))"

section \<open>The interrupt handler\<close>

definition IPU_REG_ISYS_UNISPART_IRQ_STATUS :: u32 where "IPU_REG_ISYS_UNISPART_IRQ_STATUS = 0x7c008"
definition IPU_REG_ISYS_UNISPART_IRQ_CLEAR :: u32 where "IPU_REG_ISYS_UNISPART_IRQ_CLEAR = 0x7c00c"
definition IPU_REG_ISYS_UNISPART_SW_IRQ_REG :: u32 where "IPU_REG_ISYS_UNISPART_SW_IRQ_REG = 0x7c414"
definition IPU_REG_ISYS_SIP0_IRQ_CTRL_STATUS :: u32 where "IPU_REG_ISYS_SIP0_IRQ_CTRL_STATUS = 0x66d08"
definition IPU_REG_ISYS_SIP1_IRQ_CTRL_STATUS :: u32 where "IPU_REG_ISYS_SIP1_IRQ_CTRL_STATUS = 0x6ed08"
definition IPU_REG_ISYS_SIP0_IRQ_CTRL_CLEAR :: u32 where "IPU_REG_ISYS_SIP0_IRQ_CTRL_CLEAR = 0x66d0c"
definition IPU_REG_ISYS_SIP1_IRQ_CTRL_CLEAR :: u32 where "IPU_REG_ISYS_SIP1_IRQ_CTRL_CLEAR = 0x6ed0c"
definition IPU_ISYS_UNISPART_IRQ_SW :: u32 where "IPU_ISYS_UNISPART_IRQ_SW = 0x400000"

text \<open>Whether the status words of the two interrupt blocks name port \<open>i\<close>.\<close>

definition csi2_port_irq :: "u32 \<Rightarrow> u32 \<Rightarrow> nat \<Rightarrow> bool" where
  "csi2_port_irq sip0 sip1 i =
     (if i = 0 then sip0 AND 8 \<noteq> 0 else i < 8 \<and> bit sip1 (i - 1))"

definition csi2_irqs :: "'w isys_ops \<Rightarrow> u32 \<Rightarrow> u32 \<Rightarrow> 'w isys \<Rightarrow> 'w isys" where
  "csi2_irqs ops sip0 sip1 s =
     fold (\<lambda>i s. if csi2_port_irq sip0 sip1 i then ipu_isys_csi2_isr ops (sy_nports s ! i) s else s)
       [0..<length (sy_nports s)] s"

text \<open>One round of the loop of \<^verbatim>\<open>isys_isr\<close>: the new status word and state.\<close>

definition isr_round :: "'w isys_ops \<Rightarrow> u32 \<Rightarrow> 'w isys \<Rightarrow> u32 \<times> 'w isys" where
  "isr_round ops status s =
     (let s1 = isys_writel ops status (Isys_reg IPU_REG_ISYS_UNISPART_IRQ_CLEAR) s;
          (sip0, s2) = isys_readl ops (Isys_reg IPU_REG_ISYS_SIP0_IRQ_CTRL_STATUS) s1;
          (sip1, s3) = isys_readl ops (Isys_reg IPU_REG_ISYS_SIP1_IRQ_CTRL_STATUS) s2;
          s4 = isys_writel ops sip0 (Isys_reg IPU_REG_ISYS_SIP0_IRQ_CTRL_CLEAR) s3;
          s5 = isys_writel ops sip1 (Isys_reg IPU_REG_ISYS_SIP1_IRQ_CTRL_CLEAR) s4;
          s6 = isys_writel ops 0 (Isys_reg IPU_REG_ISYS_UNISPART_SW_IRQ_REG) (csi2_irqs ops sip0 sip1 s5);
          (r, s7) = (if status AND IPU_ISYS_UNISPART_IRQ_SW \<noteq> 0 then isys_isr_one ops s6
                     else (1, s6));
          st = (if r = 0 then IPU_ISYS_UNISPART_IRQ_SW else 0);
          (st', s8) = isys_readl ops (Isys_reg IPU_REG_ISYS_UNISPART_IRQ_STATUS) s7 in
      (st OR st', s8))"

partial_function (option) isr_loop :: "'w isys_ops \<Rightarrow> u32 \<Rightarrow> 'w isys \<Rightarrow> 'w isys option" where
  "isr_loop ops status s =
     (let (st, s1) = isr_round ops status s in
      if st AND (sy_isr_csi2_bits s1 OR IPU_ISYS_UNISPART_IRQ_SW) \<noteq> 0 \<and> \<not> sy_flr_done s1
      then isr_loop ops st s1 else Some s1)"

definition isys_isr :: "'w isys_ops \<Rightarrow> 'w isys \<Rightarrow> (bool \<times> 'w isys) option" where
  "isys_isr ops s =
     (if \<not> sy_power s then Some (False, s)
      else let (status, s1) = isys_readl ops (Isys_reg IPU_REG_ISYS_UNISPART_IRQ_STATUS) s in
        map_option (Pair True) (isr_loop ops status s1))"

end
