(* ===== verification/IsysStream.thy ===== *)
theory IsysStream
  imports IsysRecv
begin

text \<open>
  Streams of the imaging system: opening, starting, stopping and closing a stream in the firmware and
  the order in which receiver, firmware and sensor are started and stopped
  (\<^verbatim>\<open>start_stream_firmware\<close> to \<^verbatim>\<open>ipu_isys_video_set_streaming\<close> of \<^verbatim>\<open>ipu-isys-video.c\<close>), with the receiver's
  own start and stop (\<^verbatim>\<open>ipu-isys-csi2.c\<close>, \<^verbatim>\<open>ipu4p-isys-csi2.c\<close>).

  A function that runs on a video node \<open>v\<close> gets the pipeline \<open>p\<close> the node belongs to.  Interrupts are
  served after every firmware call and at every wait; a wait ends with a time-out when the completion
  has not been signalled by then.
\<close>

section \<open>Calls that other parts answer\<close>

definition fw_cmd :: "'w isys_ops \<Rightarrow> node \<Rightarrow> fw_send \<Rightarrow> 'w isys \<Rightarrow> int \<times> 'w isys" where
  "fw_cmd ops p cmd s =
     (let h = ip_stream_handle (sy_ip s p); (r, w) = w_fw_call ops h cmd (sy_world s) in
      (r, interrupts ops (s\<lparr>sy_world := w, sy_sent := sy_sent s @ [(h, cmd, r)]\<rparr>)))"

definition reinit_completion :: "node \<Rightarrow> isys_completion \<Rightarrow> 'w isys \<Rightarrow> 'w isys" where
  "reinit_completion p c s = upd_ip p (\<lambda>ip. ip\<lparr>ip_completion := (ip_completion ip)(c := 0)\<rparr>) s"

definition wait_completion ::
  "'w isys_ops \<Rightarrow> node \<Rightarrow> isys_completion \<Rightarrow> 'w isys \<Rightarrow> bool \<times> 'w isys" where
  "wait_completion ops p c s =
     (let s1 = interrupts ops s; n = ip_completion (sy_ip s1 p) c in
      if n > 0 then (True, upd_ip p (\<lambda>ip. ip\<lparr>ip_completion := (ip_completion ip)(c := n - 1)\<rparr>) s1)
      else (False, s1))"

definition sensor_s_stream :: "'w isys_ops \<Rightarrow> node \<Rightarrow> bool \<Rightarrow> 'w isys \<Rightarrow> int \<times> 'w isys" where
  "sensor_s_stream ops p on s =
     (case ip_external (sy_ip s p) of
        None \<Rightarrow> (E_NODEV, s)
      | Some e \<Rightarrow>
          let (r, w) = w_s_stream ops e on (sy_world s) in
          (r, s\<lparr>sy_world := w, sy_sensor := sy_sensor s @ [(on, r)]\<rparr>))"

section \<open>Stream handles\<close>

definition get_stream_opened :: "'w isys \<Rightarrow> 'w isys" where
  "get_stream_opened s = s\<lparr>sy_stream_opened := sy_stream_opened s + 1\<rparr>"

definition put_stream_opened :: "'w isys \<Rightarrow> 'w isys" where
  "put_stream_opened s = s\<lparr>sy_stream_opened := sy_stream_opened s - 1\<rparr>"

definition get_stream_handle :: "node \<Rightarrow> 'w isys \<Rightarrow> int \<times> 'w isys" where
  "get_stream_handle p s =
     (case List.find (\<lambda>h. sy_pipes s h = None) [0..<IPU_ISYS_MAX_STREAMS] of
        None \<Rightarrow> (E_BUSY, s)
      | Some h \<Rightarrow> (0, upd_ip p (\<lambda>ip. ip\<lparr>ip_stream_handle := int h\<rparr>)
                       (s\<lparr>sy_pipes := (sy_pipes s)(h := Some p)\<rparr>)))"

definition put_stream_handle :: "node \<Rightarrow> 'w isys \<Rightarrow> 'w isys" where
  "put_stream_handle p s =
     upd_ip p (\<lambda>ip. ip\<lparr>ip_stream_handle := -1\<rparr>)
       (s\<lparr>sy_pipes := (sy_pipes s)(nat (ip_stream_handle (sy_ip s p)) := None)\<rparr>)"

definition mark_stream_reset_needed :: "'w isys \<Rightarrow> 'w isys" where
  "mark_stream_reset_needed s = s\<lparr>sy_reset_needed := True\<rparr>"

section \<open>Configuration of a stream\<close>

definition pin_stride :: "'w isys \<Rightarrow> node \<Rightarrow> u32" where
  "pin_stride s v =
     (let av = sy_av s v in
      if av_bpp_planar av = 0 then av_bytesperline av
      else align_up (div_round_up (av_width av * av_bpp_planar av) 8) (sy_line_align s))"

definition ipu_isys_prepare_firmware_stream_cfg_default ::
  "node \<Rightarrow> node \<Rightarrow> fw_stream_cfg \<times> 'w isys \<Rightarrow> fw_stream_cfg \<times> 'w isys" where
  "ipu_isys_prepare_firmware_stream_cfg_default p v cs =
     (let (cfg, s) = cs; pin = sc_nof_output_pins cfg; av = sy_av s v;
          info = \<lparr>op_input_pin_id = 0, op_width = av_width av, op_height = av_height av,
                  op_stride = pin_stride s v, op_pt = aq_css_pin_type (sy_aq s v),
                  op_ft = av_css_pixelformat av, op_send_irq = 1\<rparr> in
      (cfg\<lparr>sc_nof_output_pins := pin + 1, sc_output_pins := (sc_output_pins cfg)(pin := info),
           sc_vc := of_nat (ip_vc (sy_ip s p))\<rparr>,
       upd_ip p (\<lambda>ip. ip\<lparr>ip_output_pins := (ip_output_pins ip)(pin := Some (Queue_buf_ready v))\<rparr>)
         (upd_aq v (\<lambda>aq. aq\<lparr>aq_fw_output := pin\<rparr>) s)))"

definition IPU_ISYS_SHORT_PACKET_WIDTH :: u32 where "IPU_ISYS_SHORT_PACKET_WIDTH = 32"
definition IPU_ISYS_SHORT_PACKET_UNITSIZE :: u32 where "IPU_ISYS_SHORT_PACKET_UNITSIZE = 8"

definition no_input_pin :: fw_input_pin where
  "no_input_pin = \<lparr>ii_width = 0, ii_height = 0, ii_dt = 0, ii_mipi_store_mode = 0,
     ii_bits_per_pix = 0, ii_mapped_dt = 0\<rparr>"

definition csi_short_packet_prepare_firmware_stream_cfg ::
  "node \<Rightarrow> fw_stream_cfg \<times> 'w isys \<Rightarrow> fw_stream_cfg \<times> 'w isys" where
  "csi_short_packet_prepare_firmware_stream_cfg p cs =
     (let (cfg, s) = cs; i = sc_nof_input_pins cfg; o' = sc_nof_output_pins cfg;
          n = ip_num_short_packet_lines (sy_ip s p);
          inp = (sc_input_pins cfg i)\<lparr>ii_dt := 0, ii_width := IPU_ISYS_SHORT_PACKET_WIDTH,
                                      ii_height := n\<rparr>;
          outp = \<lparr>op_input_pin_id = of_nat i, op_width = IPU_ISYS_SHORT_PACKET_WIDTH, op_height = n,
                  op_stride = IPU_ISYS_SHORT_PACKET_WIDTH * IPU_ISYS_SHORT_PACKET_UNITSIZE,
                  op_pt = 0, op_ft = 0, op_send_irq = 1\<rparr> in
      (cfg\<lparr>sc_nof_input_pins := i + 1, sc_nof_output_pins := o' + 1,
           sc_input_pins := (sc_input_pins cfg)(i := inp),
           sc_output_pins := (sc_output_pins cfg)(o' := outp)\<rparr>,
       upd_ip p (\<lambda>ip. ip\<lparr>ip_output_pins := (ip_output_pins ip)(o' := Some Short_packet_ready),
                         ip_short_packet_output_pin := o'\<rparr>) s))"

text \<open>\<^verbatim>\<open>ipu_fw_isys_set_params\<close>; a data type past the table is undefined behaviour.\<close>

definition set_params_pin :: "fw_input_pin \<Rightarrow> fw_input_pin" where
  "set_params_pin i =
     i\<lparr>ii_bits_per_pix := (case bits_of_data_type (ii_dt i) of Some b \<Rightarrow> b | None \<Rightarrow> 0),
        ii_mapped_dt := N_IPU_FW_ISYS_MIPI_DATA_TYPE\<rparr>"

definition ipu_fw_isys_set_params ::
  "fw_stream_cfg \<Rightarrow> 'w isys \<Rightarrow> fw_stream_cfg \<times> 'w isys" where
  "ipu_fw_isys_set_params cfg s =
     (cfg\<lparr>sc_input_pins := (\<lambda>i. if i < sc_nof_input_pins cfg then set_params_pin (sc_input_pins cfg i)
                                else sc_input_pins cfg i)\<rparr>,
      if list_all (\<lambda>i. bits_of_data_type (ii_dt (sc_input_pins cfg i)) \<noteq> None)
           [0..<sc_nof_input_pins cfg] then s else s\<lparr>sy_wild := True\<rparr>)"

definition stream_input_pin ::
  "'w isys_ops \<Rightarrow> node \<Rightarrow> u32 \<times> u32 \<times> media_bus_fmt \<Rightarrow> 'w isys \<Rightarrow> fw_input_pin" where
  "stream_input_pin ops p f s =
     (let (width, height, code) = f; ip = sy_ip s p;
          discard = (case ip_csi2 ip of
              Some c \<Rightarrow> (if \<not> w_store_csi2_header ops c (sy_world s) then True
                        else case ip_tpg ip of Some t \<Rightarrow> \<not> w_store_csi2_header ops t (sy_world s)
                                             | None \<Rightarrow> False)
            | None \<Rightarrow> (case ip_tpg ip of Some t \<Rightarrow> \<not> w_store_csi2_header ops t (sy_world s)
                                        | None \<Rightarrow> False)) in
      no_input_pin\<lparr>ii_width := width, ii_height := height,
        ii_dt := ucast (ipu_isys_mbus_code_to_mipi code),
        ii_mapped_dt := N_IPU_FW_ISYS_MIPI_DATA_TYPE,
        ii_mipi_store_mode := (if discard then 1 else 0)\<rparr>)"

definition isl_use_code :: "isl_mode \<Rightarrow> u8" where
  "isl_use_code m = (case m of IPU_ISL_OFF \<Rightarrow> 0 | IPU_ISL_CSI2_BE \<Rightarrow> 1 | IPU_ISL_ISA \<Rightarrow> 2)"

definition stream_crop ::
  "'w isys_ops \<Rightarrow> node \<Rightarrow> node \<Rightarrow> u32 \<times> u32 \<times> media_bus_fmt \<Rightarrow> 'w isys \<Rightarrow> u32 \<times> u32 \<times> u32 \<times> u32" where
  "stream_crop ops p v f s =
     (let (width, height, _) = f; ip = sy_ip s p;
          be = (case ip_csi2_be ip of Some b \<Rightarrow> Some b | None \<Rightarrow> ip_csi2_be_soc ip);
          sel = (case be of None \<Rightarrow> None | Some b \<Rightarrow> w_selection ops b v (sy_world s)) in
      case sel of
        Some (l, t, w, h) \<Rightarrow> (l, t, l + w, t + h)
      | None \<Rightarrow> (0, 0, width, height))"

text \<open>The back-end's or the accelerator's own node comes first in the queues.\<close>

definition isl_first :: "node \<Rightarrow> 'w isys \<Rightarrow> 'w isys" where
  "isl_first p s =
     (let ip = sy_ip s p;
          isl = (case ip_isl_mode ip of
                   IPU_ISL_CSI2_BE \<Rightarrow> map_option (sy_be_av s) (ip_csi2_be ip)
                 | IPU_ISL_ISA \<Rightarrow> Some (sy_isa_av s)
                 | IPU_ISL_OFF \<Rightarrow> None) in
      case isl of
        None \<Rightarrow> s
      | Some v \<Rightarrow> if v \<in> set (ip_queues ip)
                  then upd_ip p (\<lambda>ip. ip\<lparr>ip_queues := v # remove1 v (ip_queues ip)\<rparr>) s else s)"

definition build_stream_cfg ::
  "'w isys_ops \<Rightarrow> node \<Rightarrow> node \<Rightarrow> u32 \<times> u32 \<times> media_bus_fmt \<Rightarrow> 'w isys \<Rightarrow> fw_stream_cfg \<times> 'w isys" where
  "build_stream_cfg ops p v f s =
     (let cfg = \<lparr>sc_src = ip_source (sy_ip s p), sc_vc = 0,
            sc_isl_use = isl_use_code (ip_isl_mode (sy_ip s p)), sc_compfmt = get_comp_format (snd (snd f)),
            sc_nof_input_pins = 1, sc_nof_output_pins = 0,
            sc_input_pins = (\<lambda>i. if i = 0 then stream_input_pin ops p f s else no_input_pin),
            sc_output_pins = (\<lambda>_. \<lparr>op_input_pin_id = 0, op_width = 0, op_height = 0, op_stride = 0,
                                   op_pt = 0, op_ft = 0, op_send_irq = 0\<rparr>),
            sc_crop = stream_crop ops p v f s\<rparr>;
          s1 = isl_first p s;
          cs = fold (ipu_isys_prepare_firmware_stream_cfg_default p) (ip_queues (sy_ip s1 p)) (cfg, s1);
          (cfg', s2) = (if ip_interlaced (sy_ip (snd cs) p) \<and>
                sy_short_packet_source (snd cs) = IPU_ISYS_SHORT_PACKET_FROM_RECEIVER
              then csi_short_packet_prepare_firmware_stream_cfg p cs else cs) in
      (cfg', upd_ip p (\<lambda>ip. ip\<lparr>ip_nr_output_pins := of_nat (sc_nof_output_pins cfg')\<rparr>) s2))"

section \<open>Requests\<close>

text \<open>Video nodes do not offer requests to clients (\<^verbatim>\<open>allow_requests\<close> is commented out in
  \<^verbatim>\<open>ipu_isys_queue_init\<close>), so the list of requests stays empty; the code that serves them is kept.\<close>

definition request_is_for :: "node \<Rightarrow> 'w isys \<Rightarrow> u64 \<Rightarrow> bool" where
  "request_is_for p s r =
     (let ours = (\<lambda>b. ib_queue (sy_buf s b) \<in> set (ip_entities (sy_ip s p))) in
      list_ex ours (sy_req_buffers s r) \<and> list_all ours (sy_req_buffers s r))"

definition ipu_isys_find_queued_request :: "node \<Rightarrow> 'w isys \<Rightarrow> u64 option" where
  "ipu_isys_find_queued_request p s = List.find (request_is_for p s) (rev (sy_requests s))"

definition ipu_isys_next_queued_request :: "node \<Rightarrow> 'w isys \<Rightarrow> u64 option \<times> 'w isys" where
  "ipu_isys_next_queued_request p s =
     (case ipu_isys_find_queued_request p s of
        None \<Rightarrow> (None, s)
      | Some r \<Rightarrow> (Some r, s\<lparr>sy_requests := removeAll r (sy_requests s)\<rparr>))"

fun prepare_request_buffers ::
  "'w isys_ops \<Rightarrow> buf list \<Rightarrow> fw_frame_set \<times> 'w isys \<Rightarrow> fw_frame_set \<times> 'w isys" where
  "prepare_request_buffers ops [] fs = fs"
| "prepare_request_buffers ops (b # bs) fs =
     (let (set0, s) = fs; ib = sy_buf s b; aq = sy_aq s (ib_queue ib);
          s1 = (if aq_prepare_frame_buff_set aq
                then s\<lparr>sy_world := w_prepare_frame_buff_set ops b (sy_world s)\<rparr> else s);
          set1 = (case aq_fill_frame_buff_set_pin aq of Some f \<Rightarrow> f ib (aq_fw_output aq) set0 | None \<Rightarrow> set0) in
      prepare_request_buffers ops bs (set1, list_add b (Active (ib_queue ib)) (unlink b s1)))"

definition ipu_isys_req_prepare ::
  "'w isys_ops \<Rightarrow> u64 \<Rightarrow> 'w isys \<Rightarrow> fw_frame_set \<times> 'w isys" where
  "ipu_isys_req_prepare ops r s =
     prepare_request_buffers ops (sy_req_buffers s r) (set_irq_flags empty_frame_set, s)"

definition ipu_isys_req_dispatch ::
  "'w isys_ops \<Rightarrow> node \<Rightarrow> u64 \<Rightarrow> fw_frame_set \<Rightarrow> 'w isys \<Rightarrow> int \<times> 'w isys" where
  "ipu_isys_req_dispatch ops p msg fs s =
     (let (r, s1) = fw_cmd ops p (STREAM_CAPTURE fs) s in (r, ipu_put_fw_mgs_buffer msg s1))"

text \<open>\<^verbatim>\<open>ipu_isys_req_buffer_list_queue\<close>: the buffers of a failed request that are on a list.\<close>

definition on_a_list :: "buf \<Rightarrow> 'w isys \<Rightarrow> bool" where
  "on_a_list b s \<longleftrightarrow> b \<in> set (sy_list s (Incoming (ib_queue (sy_buf s b)))) \<or>
                     b \<in> set (sy_list s (Active (ib_queue (sy_buf s b))))"

fun detach_request :: "buf list \<Rightarrow> isys_buffer_list \<Rightarrow> 'w isys \<Rightarrow> isys_buffer_list \<times> 'w isys" where
  "detach_request [] bl s = (bl, s)"
| "detach_request (b # bs) bl s =
     (if on_a_list b s
      then detach_request bs \<lparr>bl_head = bl_head bl @ [b], bl_nbufs = bl_nbufs bl + 1\<rparr> (unlink b s)
      else detach_request bs bl s)"

definition ipu_isys_req_buffer_list_queue :: "u64 \<Rightarrow> vb2_buffer_state \<Rightarrow> 'w isys \<Rightarrow> 'w isys" where
  "ipu_isys_req_buffer_list_queue r st s =
     (let (bl, s1) = detach_request (sy_req_buffers s r) \<lparr>bl_head = [], bl_nbufs = 0\<rparr> s in
      if bl_nbufs bl \<noteq> 0
      then snd (ipu_isys_buffer_list_queue bl IPU_ISYS_BUFFER_LIST_FL_SET_STATE st s1) else s1)"

section \<open>Starting a stream in the firmware\<close>

type_synonym start_list = "isys_buffer_list option"   \<comment> \<open>the first buffers, when there are any\<close>

definition csi2_error_of :: "'w isys_ops \<Rightarrow> node \<Rightarrow> 'w isys \<Rightarrow> 'w isys" where
  "csi2_error_of ops p s =
     (case ip_csi2 (sy_ip s p) of None \<Rightarrow> s | Some c \<Rightarrow> snd (ipu_isys_csi2_error ops c s))"

text \<open>\<open>out_stream_close\<close> and what follows it.\<close>

definition abort_stream :: "'w isys_ops \<Rightarrow> node \<Rightarrow> 'w isys \<Rightarrow> 'w isys" where
  "abort_stream ops p s =
     (let (r, s1) = fw_cmd ops p STREAM_CLOSE (reinit_completion p Stream_close s) in
      if r < 0
      then put_stream_handle p (put_stream_opened (mark_stream_reset_needed s1))
      else let (ok, s2) = wait_completion ops p Stream_close s1 in
        if \<not> ok
        then put_stream_handle p (put_stream_opened (mark_stream_reset_needed (csi2_error_of ops p s2)))
        else if ip_error (sy_ip s2 p) \<noteq> 0
        then put_stream_handle p (put_stream_opened (mark_stream_reset_needed s2))
        else put_stream_handle p (put_stream_opened s2))"

text \<open>The wait for the answer to the start command.\<close>

definition await_start :: "'w isys_ops \<Rightarrow> node \<Rightarrow> int \<Rightarrow> 'w isys \<Rightarrow> int \<times> 'w isys" where
  "await_start ops p r s =
     (if r < 0 then (r, abort_stream ops p s)
      else let (ok, s1) = wait_completion ops p Stream_start s in
        if \<not> ok then (E_TIMEDOUT, abort_stream ops p s1)
        else if ip_error (sy_ip s1 p) \<noteq> 0 then (E_IO, abort_stream ops p s1)
        else (0, s1))"

definition start_with_set ::
  "'w isys_ops \<Rightarrow> node \<Rightarrow> u64 \<Rightarrow> fw_frame_set \<Rightarrow> 'w isys \<Rightarrow> int \<times> 'w isys" where
  "start_with_set ops p msg fs s =
     (let (r, s1) = fw_cmd ops p (STREAM_START_AND_CAPTURE fs) (reinit_completion p Stream_start s) in
      await_start ops p r (ipu_put_fw_mgs_buffer msg s1))"

definition start_opened ::
  "'w isys_ops \<Rightarrow> node \<Rightarrow> start_list \<Rightarrow> 'w isys \<Rightarrow> int \<times> start_list \<times> 'w isys" where
  "start_opened ops p bl s =
     (case ipu_isys_next_queued_request p s of
        (req, s1) \<Rightarrow>
          case bl of
            Some l \<Rightarrow>
              (case ipu_get_fw_msg_buf ops s1 of
                 (None, s2) \<Rightarrow> (E_NOMEM, bl, abort_stream ops p s2)
               | (Some msg, s2) \<Rightarrow>
                   let fs = ipu_isys_buffer_list_to_ipu_fw_isys_frame_buff_set empty_frame_set p l s2;
                       (l', s3) = ipu_isys_buffer_list_queue l IPU_ISYS_BUFFER_LIST_FL_ACTIVE
                                    VB2_BUF_STATE_QUEUED s2 in
                   case start_with_set ops p msg fs s3 of (r, s4) \<Rightarrow> (r, Some l', s4))
          | None \<Rightarrow>
              (case req of
                 None \<Rightarrow>
                   let (r, s2) = fw_cmd ops p STREAM_START (reinit_completion p Stream_start s1) in
                   (case await_start ops p r s2 of (r', s3) \<Rightarrow> (r', None, s3))
               | Some q \<Rightarrow>
                   (case ipu_get_fw_msg_buf ops s1 of
                      (None, s2) \<Rightarrow> (E_NOMEM, bl, abort_stream ops p s2)
                    | (Some msg, s2) \<Rightarrow>
                        let (fs, s3) = ipu_isys_req_prepare ops q s2 in
                        (case start_with_set ops p msg fs s3 of (r, s4) \<Rightarrow> (r, None, s4)))))"

definition start_stream_firmware ::
  "'w isys_ops \<Rightarrow> node \<Rightarrow> node \<Rightarrow> start_list \<Rightarrow> 'w isys \<Rightarrow> int \<times> start_list \<times> 'w isys" where
  "start_stream_firmware ops p v bl s =
     (let ((e, f), w) = w_external_format ops p (sy_world s); s1 = s\<lparr>sy_world := w\<rparr> in
      if e \<noteq> 0 then (e, bl, s1)
      else
        (case ipu_get_fw_msg_buf ops s1 of
           (None, s2) \<Rightarrow> (E_NOMEM, bl, s2)
         | (Some msg, s2) \<Rightarrow>
             let (cfg, s3) = build_stream_cfg ops p v f s2;
                 (h, s4) = get_stream_handle p s3 in
             if h \<noteq> 0 then (h, bl, s4)
             else
               let (cfg', s5) = ipu_fw_isys_set_params cfg (reinit_completion p Stream_open s4);
                   (r, s6) = fw_cmd ops p (STREAM_OPEN cfg') s5;
                   s7 = ipu_put_fw_mgs_buffer msg s6 in
               if r < 0 then (r, bl, put_stream_handle p s7)
               else
                 let (ok, s8) = wait_completion ops p Stream_open (get_stream_opened s7) in
                 if \<not> ok then (E_TIMEDOUT, bl, put_stream_handle p (put_stream_opened s8))
                 else if ip_error (sy_ip s8 p) \<noteq> 0
                 then (E_IO, bl, put_stream_handle p (put_stream_opened s8))
                 else start_opened ops p bl s8))"

section \<open>Stopping and closing it\<close>

definition stop_command :: "'w isys \<Rightarrow> fw_send" where
  "stop_command s = (if sy_use_stream_stop s then STREAM_STOP else STREAM_FLUSH)"

definition stop_streaming_firmware :: "'w isys_ops \<Rightarrow> node \<Rightarrow> 'w isys \<Rightarrow> bool \<times> 'w isys" where
  "stop_streaming_firmware ops p s =
     (let s0 = reinit_completion p Stream_stop s; (r, s1) = fw_cmd ops p (stop_command s0) s0 in
      if r < 0 then (False, mark_stream_reset_needed s1)
      else let (ok, s2) = wait_completion ops p Stream_stop s1 in
        if \<not> ok then (False, mark_stream_reset_needed (csi2_error_of ops p s2))
        else if ip_error (sy_ip s2 p) \<noteq> 0 then (False, mark_stream_reset_needed s2)
        else (True, s2))"

definition release_streaming_firmware :: "node \<Rightarrow> 'w isys \<Rightarrow> 'w isys" where
  "release_streaming_firmware p s = put_stream_handle p (put_stream_opened s)"

definition close_streaming_firmware :: "'w isys_ops \<Rightarrow> node \<Rightarrow> 'w isys \<Rightarrow> int \<times> 'w isys" where
  "close_streaming_firmware ops p s =
     (let (r, s1) = fw_cmd ops p STREAM_CLOSE (reinit_completion p Stream_close s) in
      if r < 0 then (r, release_streaming_firmware p (mark_stream_reset_needed s1))
      else let (ok, s2) = wait_completion ops p Stream_close s1;
               failed = (if r \<noteq> 0 then r else E_IO) in
        if \<not> ok
        then (failed, release_streaming_firmware p (mark_stream_reset_needed (csi2_error_of ops p s2)))
        else if ip_error (sy_ip s2 p) \<noteq> 0
        then (failed, release_streaming_firmware p (mark_stream_reset_needed s2))
        else (0, release_streaming_firmware p s2))"

definition IPU_NUM_CAPTURE_DONE :: nat where "IPU_NUM_CAPTURE_DONE = 2"

definition ipu_isys_video_add_capture_done :: "node \<Rightarrow> capture_done \<Rightarrow> 'w isys \<Rightarrow> 'w isys" where
  "ipu_isys_video_add_capture_done p f s =
     (let cs = ip_capture_done (sy_ip s p) in
      if f \<in> set cs then s
      else if length cs < IPU_NUM_CAPTURE_DONE
      then upd_ip p (\<lambda>ip. ip\<lparr>ip_capture_done := cs @ [f]\<rparr>) s else s)"

section \<open>Starting and stopping a receiver\<close>

definition CSI2_REG_CSI_RX_ENABLE :: u32 where "CSI2_REG_CSI_RX_ENABLE = 0"
definition CSI2_REG_CSI_RX_NOF_ENABLED_LANES :: u32 where "CSI2_REG_CSI_RX_NOF_ENABLED_LANES = 4"
definition CSI2_REG_CSI_RX_CONFIG :: u32 where "CSI2_REG_CSI_RX_CONFIG = 8"
definition CSI2_REG_CSI_RX_DLY_CNT_TERMEN_CLANE :: u32
  where "CSI2_REG_CSI_RX_DLY_CNT_TERMEN_CLANE = 0x2c"
definition CSI2_REG_CSI_RX_DLY_CNT_SETTLE_CLANE :: u32
  where "CSI2_REG_CSI_RX_DLY_CNT_SETTLE_CLANE = 0x30"
definition CSI2_REG_CSI_RX_DLY_CNT_TERMEN_DLANE :: "nat \<Rightarrow> u32"
  where "CSI2_REG_CSI_RX_DLY_CNT_TERMEN_DLANE n = 0x34 + of_nat n * 8"
definition CSI2_REG_CSI_RX_DLY_CNT_SETTLE_DLANE :: "nat \<Rightarrow> u32"
  where "CSI2_REG_CSI_RX_DLY_CNT_SETTLE_DLANE n = 0x38 + of_nat n * 8"

text \<open>Release of LP11 and the byte clock gating of \<^verbatim>\<open>RX_CONFIG\<close>.\<close>

definition RX_CONFIG_RUN :: u32 where "RX_CONFIG_RUN = 3"

definition writes :: "'w isys_ops \<Rightarrow> (u32 \<times> isys_reg) list \<Rightarrow> 'w isys \<Rightarrow> 'w isys" where
  "writes ops ws s = fold (\<lambda>(v, r). isys_writel ops v r) ws s"

definition CPHYX_DLL_OVRD_8 :: u32 where "CPHYX_DLL_OVRD_8 = 0x10500"
definition DPHYX_DLL_OVRD_8 :: u32 where "DPHYX_DLL_OVRD_8 = 0x1054c"
definition BBX_AFE_CONFIG_8 :: u32 where "BBX_AFE_CONFIG_8 = 0x10574"

text \<open>\<^verbatim>\<open>IPU_FW_ISYS_STREAM_SRC_CSI2_PORT0\<close> is 0.\<close>

definition ipu4p_csi2_init_source6_bb8 :: "'w isys_ops \<Rightarrow> u64 \<Rightarrow> 'w isys \<Rightarrow> 'w isys" where
  "ipu4p_csi2_init_source6_bb8 ops c s =
     (if cs_source (sy_csi2 s c) \<noteq> 6 then s
      else
        let (cphy, s1) = isys_readl ops (Isp_reg CPHYX_DLL_OVRD_8) s;
            (dphy, s2) = isys_readl ops (Isp_reg DPHYX_DLL_OVRD_8) s1;
            (_, s3) = isys_readl ops (Isp_reg BBX_AFE_CONFIG_8) s2;
            s4 = writes ops
              [((cphy AND NOT 0x7e) OR (push_bit 1 13 OR 1), Isp_reg CPHYX_DLL_OVRD_8),
               ((dphy AND NOT 0x7e) OR (push_bit 1 32 OR 1), Isp_reg DPHYX_DLL_OVRD_8),
               (0x44104015, Isp_reg BBX_AFE_CONFIG_8)] s3;
            (_, s5) = isys_readl ops (Isp_reg CPHYX_DLL_OVRD_8) s4;
            (_, s6) = isys_readl ops (Isp_reg DPHYX_DLL_OVRD_8) s5 in
        snd (isys_readl ops (Isp_reg BBX_AFE_CONFIG_8) s6))"

definition ipu4p_csi2_apply_source7_mipi_timing ::
  "'w isys_ops \<Rightarrow> u64 \<Rightarrow> 'w isys \<Rightarrow> bool \<times> 'w isys" where
  "ipu4p_csi2_apply_source7_mipi_timing ops c s =
     (case sy_quirks s of
        None \<Rightarrow> (False, s)
      | Some q \<Rightarrow>
          let cs = sy_csi2 s c in
          if cs_index cs \<noteq> qk_front_csi_index q \<or> cs_source cs \<noteq> qk_front_source q \<or>
             cs_nlanes cs \<noteq> qk_front_lanes q
          then (False, s)
          else (True, writes ops
             ([(0, Csi2_reg c 0x30), (qk_clock_first_data_ticks q, Csi2_reg c 0x34)] @
              concat (map (\<lambda>i. [(0, Csi2_reg c (0x38 + of_nat i * 8)),
                                (qk_data_ticks q, Csi2_reg c (0x3c + of_nat i * 8))]) [0..<8])) s))"

text \<open>A timing that could not be computed (a division by zero) is undefined behaviour.\<close>

definition timing_value :: "u32 option \<Rightarrow> u32" where
  "timing_value t = (case t of Some v \<Rightarrow> v | None \<Rightarrow> 0)"

definition csi2part :: u32 where
  "csi2part = fold (\<lambda>i a. a OR CSI2_IRQ_FS_VC i OR CSI2_IRQ_FE_VC i) [0..<NR_OF_CSI2_VC] 0 OR 0xffff"

definition csi2_hw_disable :: "'w isys_ops \<Rightarrow> u64 \<Rightarrow> 'w isys \<Rightarrow> 'w isys" where
  "csi2_hw_disable ops c s =
     (let s1 = snd (ipu_isys_csi2_error ops c s);
          (v, s2) = isys_readl ops (Csi2_reg c CSI2_REG_CSI_RX_CONFIG) s1;
          s3 = writes ops
            [(v AND NOT RX_CONFIG_RUN, Csi2_reg c CSI2_REG_CSI_RX_CONFIG),
             (0, Csi2_reg c CSI2_REG_CSI_RX_ENABLE),
             (0, Csi_irq_ctrl c 4), (0, Csi_irq_ctrl c 0x10),
             (0, Csi_irq_ctrl0 c 4), (0, Csi_irq_ctrl0 c 0x10)] s2 in
      ipu_isys_csi2_reset_errors ops c s3)"

definition csi2_hw_enable ::
  "'w isys_ops \<Rightarrow> u64 \<Rightarrow> isys_csi2_timing \<Rightarrow> u32 \<Rightarrow> 'w isys \<Rightarrow> 'w isys" where
  "csi2_hw_enable ops c t nlanes s =
     (let s1 = ipu4p_csi2_init_source6_bb8 ops c s;
          s2 = writes ops
            [(timing_value (tm_ctermen t), Csi2_reg c CSI2_REG_CSI_RX_DLY_CNT_TERMEN_CLANE),
             (timing_value (tm_csettle t), Csi2_reg c CSI2_REG_CSI_RX_DLY_CNT_SETTLE_CLANE)] s1;
          (quirk, s3) = ipu4p_csi2_apply_source7_mipi_timing ops c s2;
          s4 = (if quirk then s3 else writes ops
            (concat (map (\<lambda>i.
               [(timing_value (tm_dtermen t), Csi2_reg c (CSI2_REG_CSI_RX_DLY_CNT_TERMEN_DLANE i)),
                (timing_value (tm_dsettle t), Csi2_reg c (CSI2_REG_CSI_RX_DLY_CNT_SETTLE_DLANE i))])
               [0..<unat nlanes])) s3);
          s5 = writes ops [(nlanes, Csi2_reg c CSI2_REG_CSI_RX_NOF_ENABLED_LANES)] s4;
          (v, s6) = isys_readl ops (Csi2_reg c CSI2_REG_CSI_RX_CONFIG) s5 in
      writes ops
        [(v OR RX_CONFIG_RUN, Csi2_reg c CSI2_REG_CSI_RX_CONFIG),
         (1, Csi2_reg c CSI2_REG_CSI_RX_ENABLE),
         (1, Csi_irq_ctrl c 0), (0, Csi_irq_ctrl c 0x14), (0xffffffff, Csi_irq_ctrl c 0xc),
         (1, Csi_irq_ctrl c 4), (1, Csi_irq_ctrl c 0x10),
         (csi2part, Csi_irq_ctrl0 c 0), (0, Csi_irq_ctrl0 c 0x14), (0xffffffff, Csi_irq_ctrl0 c 0xc),
         (csi2part, Csi_irq_ctrl0 c 4), (csi2part, Csi_irq_ctrl0 c 0x10)] s6)"

definition IPU_ISYS_MAX_CSI2_LANES :: u32 where "IPU_ISYS_MAX_CSI2_LANES = 4"

definition csi2_start_receiver ::
  "'w isys_ops \<Rightarrow> node \<Rightarrow> u64 \<Rightarrow> u64 \<Rightarrow> 'w isys \<Rightarrow> int \<times> 'w isys" where
  "csi2_start_receiver ops p c e s =
     (let s1 = ipu_isys_csi2_reset_errors ops c s in
      case w_host_lanes ops e (sy_world s1) of
        None \<Rightarrow> (E_INVAL, s1)
      | Some n \<Rightarrow>
          if n = 0 \<or> n > IPU_ISYS_MAX_CSI2_LANES then (E_INVAL, s1)
          else (case ipu_isys_csi2_calc_timing (w_link_freq ops c (sy_world s1)) CSI2_ACCINV of
              Inl r \<Rightarrow> (r, s1)
            | Inr t \<Rightarrow>
                let s2 = (if tm_csettle t = None then s1\<lparr>sy_wild := True\<rparr> else s1) in
                (0, upd_csi2 c (\<lambda>cs. cs\<lparr>cs_stream_count := cs_stream_count cs + 1\<rparr>)
                      (csi2_hw_enable ops c t n s2))))"

definition csi2_set_stream ::
  "'w isys_ops \<Rightarrow> node \<Rightarrow> u64 \<Rightarrow> bool \<Rightarrow> 'w isys \<Rightarrow> int \<times> 'w isys" where
  "csi2_set_stream ops p c enable s =
     (case ip_external (sy_ip s p) of
        None \<Rightarrow> (E_NODEV, s)
      | Some e \<Rightarrow>
          if \<not> enable then
            let n = cs_stream_count (sy_csi2 s c) - 1;
                s1 = upd_csi2 c (\<lambda>cs. cs\<lparr>cs_stream_count := n\<rparr>) s in
            if n \<noteq> 0 then (0, s1) else (0, csi2_hw_disable ops c s1)
          else
            let s1 = upd_ip p (\<lambda>ip. ip\<lparr>ip_has_sof := True\<rparr>) s in
            if cs_stream_count (sy_csi2 s1 c) \<noteq> 0
            then (0, upd_csi2 c (\<lambda>cs. cs\<lparr>cs_stream_count := cs_stream_count cs + 1\<rparr>) s1)
            else csi2_start_receiver ops p c e s1)"

text \<open>\<^verbatim>\<open>csi2_enable_streams\<close> and \<^verbatim>\<open>csi2_disable_streams\<close>: one call for every bit of the mask.\<close>

definition valid_streams :: "u32 \<Rightarrow> u64 \<Rightarrow> bool" where
  "valid_streams pad streams_mask \<longleftrightarrow> 1 \<le> pad \<and> pad < 5 \<and> streams_mask \<noteq> 0 \<and>
     streams_mask AND NOT 0xf = 0"

fun stop_started :: "'w isys_ops \<Rightarrow> node \<Rightarrow> u64 \<Rightarrow> nat \<Rightarrow> 'w isys \<Rightarrow> 'w isys" where
  "stop_started ops p c 0 s = s"
| "stop_started ops p c (Suc n) s = stop_started ops p c n (snd (csi2_set_stream ops p c False s))"

fun start_streams ::
  "'w isys_ops \<Rightarrow> node \<Rightarrow> u64 \<Rightarrow> nat \<Rightarrow> nat \<Rightarrow> 'w isys \<Rightarrow> int \<times> 'w isys" where
  "start_streams ops p c 0 started s = (0, s)"
| "start_streams ops p c (Suc n) started s =
     (let (r, s1) = csi2_set_stream ops p c True s in
      if r \<noteq> 0 then (r, stop_started ops p c started s1)
      else start_streams ops p c n (started + 1) s1)"

fun stop_streams :: "'w isys_ops \<Rightarrow> node \<Rightarrow> u64 \<Rightarrow> nat \<Rightarrow> 'w isys \<Rightarrow> int \<times> 'w isys" where
  "stop_streams ops p c 0 s = (0, s)"
| "stop_streams ops p c (Suc n) s =
     (let (r, s1) = csi2_set_stream ops p c False s in
      if r \<noteq> 0 then (r, s1) else stop_streams ops p c n s1)"

definition mask_bits :: "u64 \<Rightarrow> nat" where
  "mask_bits m = length (filter (bit m) [0..<64])"

definition csi2_switch_streams ::
  "'w isys_ops \<Rightarrow> node \<Rightarrow> u64 \<Rightarrow> u32 \<Rightarrow> u64 \<Rightarrow> bool \<Rightarrow> 'w isys \<Rightarrow> int \<times> 'w isys" where
  "csi2_switch_streams ops p c pad streams_mask enable s =
     (if \<not> valid_streams pad streams_mask then (E_INVAL, s)
      else if enable then start_streams ops p c (mask_bits streams_mask) 0 s
      else stop_streams ops p c (mask_bits streams_mask) s)"

definition ipu_isys_csi2_set_skew_cal :: "'w isys_ops \<Rightarrow> u64 \<Rightarrow> bool \<Rightarrow> 'w isys \<Rightarrow> 'w isys" where
  "ipu_isys_csi2_set_skew_cal ops c enable s =
     (let (v, s1) = isys_readl ops (Csi2_reg c CSI2_REG_CSI_RX_CONFIG) s in
      isys_writel ops (if enable then v OR 4 else v AND NOT 4) (Csi2_reg c CSI2_REG_CSI_RX_CONFIG) s1)"

definition IPU_SKEW_CAL_LIMIT_HZ :: int where "IPU_SKEW_CAL_LIMIT_HZ = 750000000"

definition ipu_isys_csi2_skew_cal_required :: "'w isys_ops \<Rightarrow> u64 option \<Rightarrow> 'w isys \<Rightarrow> bool" where
  "ipu_isys_csi2_skew_cal_required ops c s =
     (case c of
        None \<Rightarrow> False
      | Some c \<Rightarrow>
          cs_remote_streams (sy_csi2 s c) = cs_stream_count (sy_csi2 s c) \<and>
          (case w_link_freq ops c (sy_world s) of
             Inl _ \<Rightarrow> False | Inr f \<Rightarrow> f > IPU_SKEW_CAL_LIMIT_HZ))"

definition perform_skew_cal :: "'w isys_ops \<Rightarrow> node \<Rightarrow> u64 \<Rightarrow> 'w isys \<Rightarrow> int \<times> 'w isys" where
  "perform_skew_cal ops p c s =
     (if ip_external (sy_ip s p) = None then (E_NODEV, s)
      else let s1 = ipu_isys_csi2_set_skew_cal ops c True s;
               (r, s2) = sensor_s_stream ops p True s1 in
        if r \<noteq> 0 then (r, interrupts ops (ipu_isys_csi2_set_skew_cal ops c False s2))
        else let (r', s3) = sensor_s_stream ops p False (interrupts ops s2) in
          (r', interrupts ops (ipu_isys_csi2_set_skew_cal ops c False s3)))"

definition wait_one_eof :: "'w isys_ops \<Rightarrow> u64 \<Rightarrow> nat \<Rightarrow> 'w isys \<Rightarrow> 'w isys" where
  "wait_one_eof ops c i s =
     (if \<not> cs_in_frame (sy_csi2 s c) i then s
      else let s1 = upd_csi2 c (\<lambda>cs. cs\<lparr>cs_eof_completion := 0,
                 cs_wait_for_sync := (cs_wait_for_sync cs)(i := True)\<rparr>) s;
               s2 = interrupts ops s1 in
        upd_csi2 c (\<lambda>cs. cs\<lparr>cs_eof_completion := cs_eof_completion cs - 1,
                 cs_wait_for_sync := (cs_wait_for_sync cs)(i := False)\<rparr>) s2)"

definition ipu_isys_csi2_wait_last_eof :: "'w isys_ops \<Rightarrow> u64 \<Rightarrow> 'w isys \<Rightarrow> 'w isys" where
  "ipu_isys_csi2_wait_last_eof ops c s = fold (wait_one_eof ops c) [0..<NR_OF_CSI2_VC] s"

section \<open>Starting and stopping a pipeline\<close>

definition stop_external_sensor :: "'w isys_ops \<Rightarrow> node \<Rightarrow> 'w isys \<Rightarrow> int \<times> 'w isys" where
  "stop_external_sensor ops p s =
     (let (r, s1) = (case ip_csi2 (sy_ip s p) of
          Some c \<Rightarrow> (if cs_stream_count (sy_csi2 s c) = 1
                     then sensor_s_stream ops p False (ipu_isys_csi2_wait_last_eof ops c s) else (0, s))
        | None \<Rightarrow> sensor_s_stream ops p False s) in
      (r, if r \<noteq> 0 \<and> r \<noteq> E_NOIOCTLCMD then mark_stream_reset_needed s1 else s1))"

definition E_NOLINK :: int where "E_NOLINK = -67"

text \<open>The core's part of \<^verbatim>\<open>v4l2_subdev_enable_streams\<close> comes first; for a receiver it calls
  \<^verbatim>\<open>csi2_enable_streams\<close>.\<close>

definition v4l2_subdev_streams ::
  "'w isys_ops \<Rightarrow> node \<Rightarrow> u64 \<Rightarrow> u32 \<Rightarrow> u64 \<Rightarrow> bool \<Rightarrow> 'w isys \<Rightarrow> int \<times> 'w isys" where
  "v4l2_subdev_streams ops p sd pad m enable s =
     (let (r, w) = w_enable_streams ops sd pad m enable (sy_world s); s1 = s\<lparr>sy_world := w\<rparr> in
      if r \<noteq> 0 \<or> ip_csi2 (sy_ip s p) \<noteq> Some sd then (r, s1)
      else csi2_switch_streams ops p sd pad m enable s1)"

definition ipu_isys_video_subdev_stream ::
  "'w isys_ops \<Rightarrow> node \<Rightarrow> node \<Rightarrow> u64 \<Rightarrow> bool \<Rightarrow> 'w isys \<Rightarrow> int \<times> 'w isys" where
  "ipu_isys_video_subdev_stream ops p v sd enable s =
     (if \<not> w_streams_flag ops sd
      then (let (r, w) = w_s_stream ops sd enable (sy_world s) in (r, s\<lparr>sy_world := w\<rparr>))
      else
        let own = (ip_csi2 (sy_ip s p) = Some sd);
            pad = (if own
                   then (if ip_vc (sy_ip s p) \<ge> NR_OF_CSI2_VC then Inl E_INVAL
                         else Inr (of_nat (ip_vc (sy_ip s p) + 1) :: u32))
                   else (case w_remote_pad ops v (sy_world s) of
                           Some (e, i, src) \<Rightarrow> if e = sd \<and> src then Inr i else Inl E_NOLINK
                         | None \<Rightarrow> Inl E_NOLINK)) in
        case pad of
          Inl e \<Rightarrow> (e, s)
        | Inr i \<Rightarrow>
            let stream = w_src_stream ops sd i (sy_world s) in
            if stream \<ge> 64 then (E_INVAL, s)
            else
              let s1 = (if own then upd_ip p (\<lambda>ip. ip\<lparr>ip_stream_id := stream\<rparr>) s else s) in
              v4l2_subdev_streams ops p sd i (push_bit (unat stream) 1) enable s1)"

text \<open>The subdevices the graph walk of \<^verbatim>\<open>ipu_isys_video_set_streaming\<close> does not skip.\<close>

definition own_subdevs :: "'w isys_ops \<Rightarrow> node \<Rightarrow> node \<Rightarrow> 'w isys \<Rightarrow> u64 list" where
  "own_subdevs ops p v s =
     List.map_filter (\<lambda>e. case e of
         Subdev_entity sd ours \<Rightarrow> if \<not> ours \<or> ip_external (sy_ip s p) = Some sd then None else Some sd
       | Video_entity _ \<Rightarrow> None) (w_graph ops v)"

text \<open>Starting stops at the first error and remembers what it has started; stopping goes on and
  keeps the first error.\<close>

fun start_subdevs ::
  "'w isys_ops \<Rightarrow> node \<Rightarrow> node \<Rightarrow> u64 list \<Rightarrow> u64 list \<Rightarrow> 'w isys \<Rightarrow> int \<times> u64 list \<times> 'w isys" where
  "start_subdevs ops p v [] started s = (0, started, s)"
| "start_subdevs ops p v (sd # sds) started s =
     (let (r, s1) = ipu_isys_video_subdev_stream ops p v sd True s in
      if r \<noteq> 0 \<and> r \<noteq> E_NOIOCTLCMD then (r, started, s1)
      else start_subdevs ops p v sds (started @ [sd]) s1)"

fun stop_subdevs ::
  "'w isys_ops \<Rightarrow> node \<Rightarrow> node \<Rightarrow> u64 list \<Rightarrow> int \<Rightarrow> 'w isys \<Rightarrow> int \<times> 'w isys" where
  "stop_subdevs ops p v [] err s = (err, s)"
| "stop_subdevs ops p v (sd # sds) err s =
     (let (r, s1) = ipu_isys_video_subdev_stream ops p v sd False s in
      stop_subdevs ops p v sds (if r \<noteq> 0 \<and> r \<noteq> E_NOIOCTLCMD \<and> err = 0 then r else err) s1)"

text \<open>\<open>out_media_entity_stop_streaming\<close>.\<close>

definition unwind_streaming ::
  "'w isys_ops \<Rightarrow> node \<Rightarrow> node \<Rightarrow> bool \<Rightarrow> u64 list \<Rightarrow> 'w isys \<Rightarrow> 'w isys" where
  "unwind_streaming ops p v sensor started s =
     (let s1 = (if sensor then snd (stop_external_sensor ops p s) else s) in
      snd (stop_subdevs ops p v started 0 s1))"

text \<open>\<open>out_media_entity_stop_streaming_firmware\<close>.\<close>

definition unwind_firmware ::
  "'w isys_ops \<Rightarrow> node \<Rightarrow> node \<Rightarrow> bool \<Rightarrow> u64 list \<Rightarrow> 'w isys \<Rightarrow> 'w isys" where
  "unwind_firmware ops p v sensor started s =
     (let (ok, s1) = stop_streaming_firmware ops p s;
          s2 = (if ok then snd (close_streaming_firmware ops p s1) else release_streaming_firmware p s1) in
      unwind_streaming ops p v sensor started s2)"

text \<open>Starting the sensor once the stream runs: the result, whether a start was tried, and whether an
  error was seen before it.\<close>

definition start_sensor :: "'w isys_ops \<Rightarrow> node \<Rightarrow> 'w isys \<Rightarrow> int \<times> bool \<times> 'w isys" where
  "start_sensor ops p s =
     (case ip_csi2 (sy_ip s p) of
        None \<Rightarrow> (case sensor_s_stream ops p True s of (r, s1) \<Rightarrow> (r, True, s1))
      | Some c \<Rightarrow>
          let own = (cs_remote_streams (sy_csi2 s c) = cs_stream_count (sy_csi2 s c));
              (e, s1) = (if own then ipu_isys_csi2_error ops c s else (0, s)) in
          if e \<noteq> 0 then (e, False, s1)
          else
            let (r, s2) = (if own then sensor_s_stream ops p True s1 else (0, s1)) in
            if r \<noteq> 0 then (r, own, s2)
            else
              let (e2, s3) = ipu_isys_csi2_error ops c s2;
                  fatal = cs_fatal_receiver_errors (sy_csi2 s3 c) in
              (if e2 = 0 \<and> fatal \<noteq> 0 then E_IO else e2, own, s3))"

definition streaming_on ::
  "'w isys_ops \<Rightarrow> node \<Rightarrow> node \<Rightarrow> start_list \<Rightarrow> 'w isys \<Rightarrow> int \<times> start_list \<times> 'w isys" where
  "streaming_on ops p v bl s =
     (let (r, started, s1) = start_subdevs ops p v (own_subdevs ops p v s) [] s in
      if r \<noteq> 0 \<and> r \<noteq> E_NOIOCTLCMD then (r, bl, unwind_streaming ops p v False started s1)
      else
        let s2 = (case ip_csi2 (sy_ip s1 p) of
                    None \<Rightarrow> s1
                  | Some c \<Rightarrow> if ipu_isys_csi2_skew_cal_required ops (Some c) s1
                              then snd (perform_skew_cal ops p c s1) else s1);
            (r2, bl2, s3) = start_stream_firmware ops p v bl s2 in
        if r2 \<noteq> 0 then (r2, bl2, unwind_streaming ops p v False started s3)
        else
          let (r3, sensor, s4) = start_sensor ops p s3 in
          if r3 \<noteq> 0 then (r3, bl2, unwind_firmware ops p v sensor started s4)
          else (0, bl2, upd_av v (\<lambda>av. av\<lparr>av_streaming := True\<rparr>) s4))"

definition streaming_off :: "'w isys_ops \<Rightarrow> node \<Rightarrow> node \<Rightarrow> 'w isys \<Rightarrow> int \<times> 'w isys" where
  "streaming_off ops p v s =
     (let (ok, s1) = stop_streaming_firmware ops p s;
          s2 = (if ok then s1 else release_streaming_firmware p s1);
          e0 = (if ok then 0 else E_IO);
          (r, s3) = stop_external_sensor ops p s2;
          e1 = (if r \<noteq> 0 \<and> r \<noteq> E_NOIOCTLCMD \<and> e0 = 0 then r else e0);
          (e2, s4) = stop_subdevs ops p v (own_subdevs ops p v s3) e1 s3;
          (r', s5) = (if ok then close_streaming_firmware ops p s4 else (0, s4));
          e3 = (if r' \<noteq> 0 \<and> e2 = 0 then r' else e2);
          s6 = upd_ip v (\<lambda>ip. ip\<lparr>ip_stream_id := 0, ip_vc := 0\<rparr>) s5 in
      (e3, upd_av v (\<lambda>av. av\<lparr>av_streaming := False\<rparr>) s6))"

definition ipu_isys_video_set_streaming ::
  "'w isys_ops \<Rightarrow> node \<Rightarrow> node \<Rightarrow> bool \<Rightarrow> start_list \<Rightarrow> 'w isys \<Rightarrow> int \<times> start_list \<times> 'w isys" where
  "ipu_isys_video_set_streaming ops p v state bl s =
     (if ip_external (sy_ip s p) = None then (E_NODEV, bl, s)
      else if state then
        (let (g, w) = w_graph_init ops (sy_world s); s1 = s\<lparr>sy_world := w\<rparr> in
         if g \<noteq> 0 then (g, bl, s1) else streaming_on ops p v bl s1)
      else (case streaming_off ops p v s of (r, s1) \<Rightarrow> (r, bl, s1)))"
end
