(* ===== verification/IsysPipeline.thy ===== *)
theory IsysPipeline
  imports IsysStream
begin

text \<open>
  Building and dissolving a pipeline: the walk over the media graph that gives every entity its pipeline
  and validates the links (\<^verbatim>\<open>is_support_vc\<close> to \<^verbatim>\<open>media_pipeline_start_by_vc\<close> and
  \<^verbatim>\<open>ipu_isys_video_prepare_streaming\<close> of \<^verbatim>\<open>ipu-isys-video.c\<close>) with the link checks of the video nodes
  and of the subdevices.

  The graph (entities in the order of the core's walk, links, pads) and the core's comparison of formats
  are operations of the world.
\<close>

section \<open>Pipelines of entities\<close>

definition entity_pipe :: "media_entity \<Rightarrow> 'w isys \<Rightarrow> node option" where
  "entity_pipe e s = (case e of Video_entity v \<Rightarrow> av_pipe (sy_av s v) | Subdev_entity sd _ \<Rightarrow> sy_sd_pipe s sd)"

definition set_entity_pipe :: "media_entity \<Rightarrow> node option \<Rightarrow> 'w isys \<Rightarrow> 'w isys" where
  "set_entity_pipe e po s =
     (case e of
        Video_entity v \<Rightarrow> upd_av v (\<lambda>av. av\<lparr>av_pipe := po\<rparr>) s
      | Subdev_entity sd _ \<Rightarrow> s\<lparr>sy_sd_pipe := (sy_sd_pipe s)(sd := po)\<rparr>)"

section \<open>Virtual channels\<close>

definition MEDIA_ENTITY_ENUM_MAX_DEPTH :: nat where "MEDIA_ENTITY_ENUM_MAX_DEPTH = 16"
definition CSI2_BE_SOC_SOURCE_PADS_NUM :: nat where "CSI2_BE_SOC_SOURCE_PADS_NUM = 8"
definition NR_OF_CSI2_BE_SOC_SINK_PADS :: u32 where "NR_OF_CSI2_BE_SOC_SINK_PADS = 8"

text \<open>The walk up to the receiver; the subdevice connected to its sink is the sensor.\<close>

fun find_extern :: "nat \<Rightarrow> 'w isys_ops \<Rightarrow> media_entity \<Rightarrow> u64 option" where
  "find_extern 0 ops e = None"
| "find_extern (Suc depth) ops e =
     (case w_upstream ops e of
        None \<Rightarrow> None
      | Some (Video_entity v) \<Rightarrow> find_extern depth ops (Video_entity v)
      | Some (Subdev_entity sd ours) \<Rightarrow>
          if w_kind ops sd \<noteq> Csi2_subdev then find_extern depth ops (Subdev_entity sd ours)
          else (case w_upstream ops (Subdev_entity sd ours) of
                  Some (Subdev_entity ext _) \<Rightarrow> Some ext
                | _ \<Rightarrow> None))"

definition is_support_vc ::
  "'w isys_ops \<Rightarrow> media_entity \<Rightarrow> node \<Rightarrow> 'w isys \<Rightarrow> bool \<times> 'w isys" where
  "is_support_vc ops src p s =
     (case find_extern MEDIA_ENTITY_ENUM_MAX_DEPTH ops src of
        None \<Rightarrow> (False, s)
      | Some sd \<Rightarrow>
          if w_query_sub_stream ops sd (sy_world s) then (True, s)
          else (False, upd_ip p (\<lambda>ip. ip\<lparr>ip_asv := (\<lambda>i. if i < CSI2_BE_SOC_SOURCE_PADS_NUM
                                    then (fst (ip_asv ip i), 0) else ip_asv ip i)\<rparr>) s))"

text \<open>The loop of \<^verbatim>\<open>ipu_isys_query_sensor_info\<close>: the last result, whether the node's own sub-stream was
  seen, and the pipeline with what the sensor says.\<close>

fun query_streams ::
  "nat list \<Rightarrow> 'w isys_ops \<Rightarrow> u64 \<Rightarrow> u32 \<Rightarrow> 'w \<Rightarrow> int \<times> bool \<times> isys_pipeline \<Rightarrow> int \<times> bool \<times> isys_pipeline" where
  "query_streams [] ops sd pad_id w st = st"
| "query_streams (i # is') ops sd pad_id w st =
     (let (_, flag, ip) = st in
      query_streams is' ops sd pad_id w
        (case w_sub_stream ops sd i w of
           Inl e \<Rightarrow> (e, flag, ip)
         | Inr value \<Rightarrow>
             let vc = unat (drop_bit 56 value AND 0xff);
                 ip1 = ip\<lparr>ip_asv := (ip_asv ip)(i := (i, vc))\<rparr> in
             if (of_nat i :: u32) = pad_id - NR_OF_CSI2_BE_SOC_SINK_PADS
             then (0, True, ip1\<lparr>ip_vc := vc\<rparr>) else (0, flag, ip1)))"

definition ipu_isys_query_sensor_info ::
  "'w isys_ops \<Rightarrow> media_entity \<Rightarrow> u32 \<Rightarrow> node \<Rightarrow> 'w isys \<Rightarrow> int \<times> 'w isys" where
  "ipu_isys_query_sensor_info ops src pad_id p s =
     (case find_extern MEDIA_ENTITY_ENUM_MAX_DEPTH ops src of
        None \<Rightarrow> (E_NOLINK, s)
      | Some sd \<Rightarrow>
          (case query_streams [0..<CSI2_BE_SOC_SOURCE_PADS_NUM] ops sd pad_id (sy_world s)
                  (E_NOLINK, False, sy_ip s p) of
             (ret, flag, ip) \<Rightarrow> (if flag then 0 else ret, upd_ip p (\<lambda>_. ip) s)))"

section \<open>Link checks\<close>

definition core_link_check ::
  "'w isys_ops \<Rightarrow> media_entity \<Rightarrow> media_link \<Rightarrow> 'w isys \<Rightarrow> bool \<times> bool \<times> int \<times> 'w isys" where
  "core_link_check ops e lk s =
     (let ((called, alternate, r), w) = w_link_check ops e lk (sy_world s) in
      (called, alternate, r, s\<lparr>sy_world := w\<rparr>))"

text \<open>\<^verbatim>\<open>ipu_isys_subdev_link_validate\<close>: which pad is external and which source the firmware is to use.\<close>

definition ipu_isys_subdev_link_validate ::
  "'w isys_ops \<Rightarrow> node \<Rightarrow> u64 \<Rightarrow> media_link \<Rightarrow> 'w isys \<Rightarrow> 'w isys" where
  "ipu_isys_subdev_link_validate ops p sd lk s =
     (let s1 = (if \<not> lk_source_ours lk
            then upd_ip p (\<lambda>ip. ip\<lparr>ip_external := Some (lk_source lk), ip_source := w_asd_source ops sd\<rparr>) s
            else if lk_source_single_pad lk
            then upd_ip p (\<lambda>ip. ip\<lparr>ip_external := Some (lk_source lk),
                                    ip_source := w_asd_source ops (lk_source lk)\<rparr>) s
            else s) in
      if w_asd_isl ops sd \<noteq> IPU_ISL_OFF
      then upd_ip p (\<lambda>ip. ip\<lparr>ip_isl_mode := w_asd_isl ops sd\<rparr>) s1 else s1)"

text \<open>\<^verbatim>\<open>v4l2_subdev_link_validate\<close> with the driver's callback of the kind.\<close>

definition subdev_link_validate ::
  "'w isys_ops \<Rightarrow> node \<Rightarrow> u64 \<Rightarrow> bool \<Rightarrow> media_link \<Rightarrow> 'w isys \<Rightarrow> int \<times> 'w isys" where
  "subdev_link_validate ops p sd ours lk s =
     (let (called, alternate, r, s1) = core_link_check ops (Subdev_entity sd ours) lk s;
          s2 = (if \<not> called then s1
            else case w_kind ops sd of
                Csi2_subdev \<Rightarrow> ipu_isys_subdev_link_validate ops p sd lk
                   (if alternate then upd_ip p (\<lambda>ip. ip\<lparr>ip_interlaced := True\<rparr>) s1 else s1)
              | Be_subdev \<Rightarrow> ipu_isys_subdev_link_validate ops p sd lk
                   (upd_ip p (\<lambda>ip. ip\<lparr>ip_csi2_be := Some sd\<rparr>) s1)
              | Soc_subdev \<Rightarrow> ipu_isys_subdev_link_validate ops p sd lk
                   (upd_ip p (\<lambda>ip. ip\<lparr>ip_csi2_be_soc := Some sd\<rparr>) s1)
              | Isa_subdev \<Rightarrow> ipu_isys_subdev_link_validate ops p sd lk s1
              | Other_subdev \<Rightarrow> s1) in
      (r, s2))"

definition csi2_link_validate ::
  "'w isys_ops \<Rightarrow> node \<Rightarrow> u64 \<Rightarrow> bool \<Rightarrow> media_link \<Rightarrow> 'w isys \<Rightarrow> int \<times> 'w isys" where
  "csi2_link_validate ops p sd ours lk s =
     (let s1 = upd_csi2 sd (\<lambda>cs. cs\<lparr>cs_receiver_errors := 0, cs_last_receiver_errors := 0,
                                    cs_fatal_receiver_errors := 0\<rparr>) s;
          s2 = ipu_isys_video_add_capture_done p Csi2_capture_done
                 (upd_ip p (\<lambda>ip. ip\<lparr>ip_csi2 := Some sd\<rparr>) s1);
          (r, s3) = subdev_link_validate ops p sd ours lk s2 in
      if r \<noteq> 0 then (r, s3)
      else if \<not> w_store_csi2_header ops sd (sy_world s3) \<and> w_header_conflict ops sd then (E_INVAL, s3)
      else (0, upd_csi2 sd (\<lambda>cs. cs\<lparr>cs_remote_streams := 1\<rparr>) s3))"

definition isa_link_validate ::
  "'w isys_ops \<Rightarrow> node \<Rightarrow> u64 \<Rightarrow> bool \<Rightarrow> media_link \<Rightarrow> 'w isys \<Rightarrow> int \<times> 'w isys" where
  "isa_link_validate ops p sd ours lk s =
     (if lk_source_is_subdev lk then subdev_link_validate ops p sd ours lk s
      else (0, upd_ip p (\<lambda>ip. ip\<lparr>ip_nr_queues := ip_nr_queues ip + 1\<rparr>) s))"

definition is_external :: "media_link \<Rightarrow> bool" where
  "is_external lk \<longleftrightarrow> lk_source_is_subdev lk \<and> (\<not> lk_source_ours lk \<or> lk_source_is_tpg lk)"

definition video_link_validate ::
  "'w isys_ops \<Rightarrow> node \<Rightarrow> node \<Rightarrow> media_link \<Rightarrow> 'w isys \<Rightarrow> int \<times> 'w isys" where
  "video_link_validate ops p v lk s =
     (let s1 = (if is_external lk \<and> ip_external (sy_ip s p) = None
                then upd_ip p (\<lambda>ip. ip\<lparr>ip_external := Some (lk_source lk),
                                        ip_source := w_asd_source ops (lk_source lk)\<rparr>) s
                else s);
          (_, _, r, s2) = core_link_check ops (Video_entity v) lk s1 in
      (r, s2))"

definition link_validate ::
  "'w isys_ops \<Rightarrow> node \<Rightarrow> media_entity \<Rightarrow> media_link \<Rightarrow> 'w isys \<Rightarrow> int \<times> 'w isys" where
  "link_validate ops p e lk s =
     (case e of
        Video_entity v \<Rightarrow> video_link_validate ops p v lk s
      | Subdev_entity sd ours \<Rightarrow>
          (case w_kind ops sd of
             Csi2_subdev \<Rightarrow> csi2_link_validate ops p sd ours lk s
           | Isa_subdev \<Rightarrow> isa_link_validate ops p sd ours lk s
           | _ \<Rightarrow> subdev_link_validate ops p sd ours lk s))"

section \<open>The walk\<close>

text \<open>The links of one entity: the pads that are fine and the pads that have a link.\<close>

fun validate_links ::
  "'w isys_ops \<Rightarrow> node \<Rightarrow> media_entity \<Rightarrow> media_link list \<Rightarrow> nat list \<Rightarrow> nat list \<Rightarrow> 'w isys \<Rightarrow>
   int \<times> nat list \<times> nat list \<times> 'w isys" where
  "validate_links ops p e [] act lnk s = (0, act, lnk, s)"
| "validate_links ops p e (lk # lks) act lnk s =
     (let lnk1 = lk_pad lk # lnk;
          act1 = (if \<not> lk_must_connect lk \<or> lk_enabled lk then lk_pad lk # act else act) in
      if \<not> lk_is_sink lk \<or> \<not> lk_enabled lk then validate_links ops p e lks act1 lnk1 s
      else
        let (r, s1) = link_validate ops p e lk s in
        if r < 0 \<and> r \<noteq> E_NOIOCTLCMD then (r, act1, lnk1, s1)
        else validate_links ops p e lks act1 lnk1 s1)"

definition validate_entity ::
  "'w isys_ops \<Rightarrow> node \<Rightarrow> media_entity \<Rightarrow> 'w isys \<Rightarrow> int \<times> 'w isys" where
  "validate_entity ops p e s =
     (case validate_links ops p e (w_links ops e) [] [] s of
        (r, act, lnk, s1) \<Rightarrow>
          if r \<noteq> 0 then (r, s1)
          else if list_all (\<lambda>i. i \<in> set act \<or> i \<notin> set lnk) [0..<w_num_pads ops e] then (0, s1)
          else (E_NOLINK, s1))"

text \<open>The virtual channel of a node's sub-stream; \<^verbatim>\<open>entity_vc\<close> keeps its value when there is none.\<close>

definition channel_of :: "isys_pipeline \<Rightarrow> u32 \<Rightarrow> int \<Rightarrow> int" where
  "channel_of ip pad_id evc =
     (case List.find (\<lambda>i. (of_nat (fst (ip_asv ip i)) :: u32) = pad_id - NR_OF_CSI2_BE_SOC_SINK_PADS)
             [0..<CSI2_BE_SOC_SOURCE_PADS_NUM] of
        Some i \<Rightarrow> int (snd (ip_asv ip i))
      | None \<Rightarrow> evc)"

text \<open>What the walk does with an entity: whether it takes it, and the new \<^verbatim>\<open>entity_vc\<close>.\<close>

definition takes_entity ::
  "'w isys_ops \<Rightarrow> node \<Rightarrow> bool \<Rightarrow> int \<Rightarrow> media_entity \<Rightarrow> 'w isys \<Rightarrow> bool \<times> int" where
  "takes_entity ops p is_vc evc e s =
     (case e of
        Subdev_entity _ _ \<Rightarrow> (True, evc)
      | Video_entity v \<Rightarrow>
          if entity_pipe e s \<noteq> None then (False, evc)
          else if \<not> is_vc then (True, evc)
          else (case w_remote_pad ops v (sy_world s) of
              None \<Rightarrow> (False, evc)
            | Some (_, i, _) \<Rightarrow>
                let c = channel_of (sy_ip s p) i evc in (c = int (ip_vc (sy_ip s p)), c)))"

text \<open>The result and the failing entity, if any.\<close>

fun walk_entities ::
  "'w isys_ops \<Rightarrow> node \<Rightarrow> bool \<Rightarrow> media_entity list \<Rightarrow> int \<Rightarrow> 'w isys \<Rightarrow>
   int \<times> media_entity option \<times> 'w isys" where
  "walk_entities ops p is_vc [] evc s = (0, None, s)"
| "walk_entities ops p is_vc (e # es) evc s =
     (let (take', evc1) = takes_entity ops p is_vc evc e s in
      if \<not> take' then walk_entities ops p is_vc es evc1 s
      else
        let s1 = set_entity_pipe e (Some p) s in
        if \<not> w_validates ops e then walk_entities ops p is_vc es evc1 s1
        else
          let (r, s2) = validate_entity ops p e s1 in
          if r \<noteq> 0 then (r, Some e, s2) else walk_entities ops p is_vc es evc1 s2)"

text \<open>The reversal at \<open>error\<close>: every entity up to the failing one loses its pipeline.\<close>

fun revert_walk :: "media_entity list \<Rightarrow> media_entity \<Rightarrow> 'w isys \<Rightarrow> 'w isys" where
  "revert_walk [] failed s = s"
| "revert_walk (e # es) failed s =
     (let s1 = set_entity_pipe e None s in if e = failed then s1 else revert_walk es failed s1)"

definition walk_graph ::
  "'w isys_ops \<Rightarrow> node \<Rightarrow> node \<Rightarrow> bool \<Rightarrow> 'w isys \<Rightarrow> int \<times> 'w isys" where
  "walk_graph ops p v is_vc s =
     (let (g, w) = w_graph_init ops (sy_world s); s1 = s\<lparr>sy_world := w\<rparr> in
      if g \<noteq> 0 then (g, s1)
      else (case walk_entities ops p is_vc (w_graph ops v) (- 1) s1 of
          (r, None, s2) \<Rightarrow> (0, upd_ip p (\<lambda>ip. ip\<lparr>ip_start_count := ip_start_count ip + 1\<rparr>) s2)
        | (r, Some e, s2) \<Rightarrow> (r, revert_walk (w_graph ops v) e s2)))"

definition media_pipeline_walk_by_vc ::
  "'w isys_ops \<Rightarrow> node \<Rightarrow> node \<Rightarrow> 'w isys \<Rightarrow> int \<times> 'w isys" where
  "media_pipeline_walk_by_vc ops p v s =
     (case w_remote_pad ops v (sy_world s) of
        None \<Rightarrow> (E_NOLINK, s)
      | Some (src, pad_id, _) \<Rightarrow>
          if ip_start_count (sy_ip s p) \<noteq> 0
          then (0, upd_ip p (\<lambda>ip. ip\<lparr>ip_start_count := ip_start_count ip + 1\<rparr>) s)
          else
            let (vc, s1) = is_support_vc ops (Subdev_entity src True) p s;
                (r, s2) = (if vc then ipu_isys_query_sensor_info ops (Subdev_entity src True) pad_id p s1
                           else (0, s1)) in
            if r \<noteq> 0 then (r, s2) else walk_graph ops p v vc s2)"

definition media_pipeline_stop_for_vc :: "'w isys_ops \<Rightarrow> node \<Rightarrow> 'w isys \<Rightarrow> 'w isys" where
  "media_pipeline_stop_for_vc ops v s =
     (case av_pipe (sy_av s v) of
        None \<Rightarrow> s
      | Some p \<Rightarrow>
          let s1 = upd_ip p (\<lambda>ip. ip\<lparr>ip_start_count := ip_start_count ip - 1\<rparr>) s in
          if ip_start_count (sy_ip s1 p) \<noteq> 0 then s1
          else
            let (g, w) = w_graph_init ops (sy_world s1); s2 = s1\<lparr>sy_world := w\<rparr> in
            if g \<noteq> 0 then s2 else fold (\<lambda>e. set_entity_pipe e None) (w_graph ops v) s2)"

section \<open>Short packet buffers\<close>

definition IPU_ISYS_SHORT_PACKET_BUFFER_NUM :: nat where "IPU_ISYS_SHORT_PACKET_BUFFER_NUM = 32"

definition short_packet_lines :: "u32 \<Rightarrow> u32" where
  "short_packet_lines num_lines =
     div_round_up ((num_lines * 2 + 2 + 64) * IPU_ISYS_SHORT_PACKET_UNITSIZE)
       (IPU_ISYS_SHORT_PACKET_WIDTH * IPU_ISYS_SHORT_PACKET_UNITSIZE)"

definition short_packet_queue_destroy :: "node \<Rightarrow> 'w isys \<Rightarrow> 'w isys" where
  "short_packet_queue_destroy p s = s\<lparr>sy_short_bufs := (sy_short_bufs s)(p := [])\<rparr>"

fun alloc_short :: "nat \<Rightarrow> 'w isys_ops \<Rightarrow> node \<Rightarrow> 'w isys \<Rightarrow> int \<times> 'w isys" where
  "alloc_short 0 ops p s = (0, s)"
| "alloc_short (Suc n) ops p s =
     (let (a, w) = w_short_alloc ops p (sy_world s); s1 = s\<lparr>sy_world := w\<rparr> in
      case a of
        None \<Rightarrow> (E_NOMEM, short_packet_queue_destroy p s1)
      | Some b \<Rightarrow>
          alloc_short n ops p
            (list_add b (Short_packet_incoming p)
              (upd_buf b (\<lambda>ib. ib\<lparr>ib_type := IPU_ISYS_SHORT_PACKET_BUFFER, ib_queue := p,
                                  ib_index := of_nat (length (sy_short_bufs s1 p))\<rparr>)
                (s1\<lparr>sy_short_bufs := (sy_short_bufs s1)(p := sy_short_bufs s1 p @ [b])\<rparr>))))"

definition V4L2_FIELD_TOP :: u32 where "V4L2_FIELD_TOP = 2"

definition short_packet_queue_setup ::
  "'w isys_ops \<Rightarrow> node \<Rightarrow> 'w isys \<Rightarrow> int \<times> 'w isys" where
  "short_packet_queue_setup ops p s =
     (let s1 = upd_ip p (\<lambda>ip. ip\<lparr>ip_cur_field := V4L2_FIELD_TOP\<rparr>) (put_list (Pending_interlaced p) [] s) in
      if sy_short_packet_source s1 = IPU_ISYS_SHORT_PACKET_FROM_TUNIT then (0, s1)
      else
        let ((e, _, height, _), w) = w_external_format ops p (sy_world s1); s2 = s1\<lparr>sy_world := w\<rparr> in
        if e \<noteq> 0 then (e, s2)
        else alloc_short IPU_ISYS_SHORT_PACKET_BUFFER_NUM ops p
               (put_list (Short_packet_active p) [] (put_list (Short_packet_incoming p) []
                 (upd_ip p (\<lambda>ip. ip\<lparr>ip_num_short_packet_lines := short_packet_lines height\<rparr>) s2))))"

section \<open>Preparing a pipeline\<close>

definition reset_pipeline :: "isys_pipeline \<Rightarrow> isys_pipeline" where
  "reset_pipeline ip =
     ip\<lparr>ip_has_sof := False, ip_nr_queues := 0, ip_external := None, ip_sequence := 0,
        ip_frames_done := 0, ip_isl_mode := IPU_ISL_OFF, ip_capture_done := [], ip_csi2_be := None,
        ip_csi2_be_soc := None, ip_csi2 := None, ip_tpg := None, ip_seq_index := 0,
        ip_seq := replicate IPU_ISYS_MAX_PARALLEL_SOF (0, 0), ip_interlaced := False\<rparr>"

definition undo_pipeline :: "'w isys_ops \<Rightarrow> node \<Rightarrow> 'w isys \<Rightarrow> 'w isys" where
  "undo_pipeline ops v s = upd_av v (\<lambda>av. av\<lparr>av_pipe := None\<rparr>) (media_pipeline_stop_for_vc ops v s)"

definition gather_entities :: "'w isys_ops \<Rightarrow> node \<Rightarrow> 'w isys \<Rightarrow> 'w isys" where
  "gather_entities ops v s =
     (let vs = List.map_filter (\<lambda>e. case e of Video_entity x \<Rightarrow> Some x | _ \<Rightarrow> None) (w_graph ops v) in
      upd_ip v (\<lambda>ip. ip\<lparr>ip_entities := vs, ip_nr_queues := ip_nr_queues ip + int (length vs)\<rparr>) s)"

definition ipu_isys_video_prepare_streaming ::
  "'w isys_ops \<Rightarrow> node \<Rightarrow> 'w isys \<Rightarrow> int \<times> 'w isys" where
  "ipu_isys_video_prepare_streaming ops v s =
     (let s1 = upd_ip v reset_pipeline s;
          (e, w) = w_enum_init ops (sy_world s1); s2 = s1\<lparr>sy_world := w\<rparr> in
      if e \<noteq> 0 then (e, s2)
      else
        let (r, s3) = media_pipeline_walk_by_vc ops v v s2 in
        if r < 0 then (r, s3)
        else if ip_external (sy_ip s3 v) = None then (E_INVAL, undo_pipeline ops v s3)
        else
          let (g, w') = w_graph_init ops (sy_world s3); s4 = s3\<lparr>sy_world := w'\<rparr> in
          if g \<noteq> 0 then (g, undo_pipeline ops v s4)
          else
            let s5 = gather_entities ops v s4 in
            if \<not> ip_interlaced (sy_ip s5 v) then (0, s5)
            else
              let (r', s6) = short_packet_queue_setup ops v s5 in
              if r' \<noteq> 0 then (r', undo_pipeline ops v s6) else (0, s6))"

definition ipu_isys_video_unprepare_streaming :: "'w isys_ops \<Rightarrow> node \<Rightarrow> node \<Rightarrow> 'w isys \<Rightarrow> 'w isys" where
  "ipu_isys_video_unprepare_streaming ops p v s =
     (let s1 = (if ip_interlaced (sy_ip s p) \<and>
                   sy_short_packet_source s = IPU_ISYS_SHORT_PACKET_FROM_RECEIVER
                then short_packet_queue_destroy p s else s) in
      undo_pipeline ops v s1)"

end
