(* ===== verification/IsysStart.thy ===== *)
theory IsysStart
  imports IsysPipeline
begin

text \<open>
  Capture queues of the imaging system: starting a pipeline, verifying that it delivers frames, queueing
  buffers while it runs, stopping it and giving the buffers back (\<^verbatim>\<open>ipu-isys-queue.c\<close> from
  \<^verbatim>\<open>stream_capture_refeed\<close> to \<^verbatim>\<open>stop_streaming\<close>).

  A loop whose end depends on the firmware is a partial function: \<open>None\<close> is a loop that does not end.
\<close>

section \<open>Submitting buffer sets\<close>

text \<open>A set of buffers is taken, its message is built, the buffers become active and the message is sent.
  The result is \<open>None\<close> when no message is to be had.\<close>

definition submit_list ::
  "'w isys_ops \<Rightarrow> node \<Rightarrow> isys_buffer_list \<Rightarrow> u64 \<Rightarrow> 'w isys \<Rightarrow> int \<times> isys_buffer_list \<times> 'w isys" where
  "submit_list ops p bl msg s =
     (let fs = ipu_isys_buffer_list_to_ipu_fw_isys_frame_buff_set empty_frame_set p bl s;
          (bl', s1) = ipu_isys_buffer_list_queue bl IPU_ISYS_BUFFER_LIST_FL_ACTIVE VB2_BUF_STATE_QUEUED s;
          (r, s2) = fw_cmd ops p (STREAM_CAPTURE fs) s1 in
      (r, bl', ipu_put_fw_mgs_buffer msg s2))"

text \<open>One round of \<^verbatim>\<open>stream_capture_refeed\<close>: the result when the loop ends.\<close>

definition refeed_round :: "'w isys_ops \<Rightarrow> node \<Rightarrow> 'w isys \<Rightarrow> int option \<times> 'w isys" where
  "refeed_round ops p s =
     (case buffer_list_get ops p s of
        (r, bl, s1) \<Rightarrow>
          if r < 0 then (Some (if r = E_NODATA then 0 else r), s1)
          else (case ipu_get_fw_msg_buf ops s1 of
              (None, s2) \<Rightarrow>
                (Some E_NOMEM, snd (ipu_isys_buffer_list_queue bl IPU_ISYS_BUFFER_LIST_FL_INCOMING
                                      VB2_BUF_STATE_QUEUED s2))
            | (Some msg, s2) \<Rightarrow>
                (case submit_list ops p bl msg s2 of
                   (r', _, s3) \<Rightarrow> (if r' \<noteq> 0 then Some r' else None, s3))))"

partial_function (option) stream_capture_refeed ::
  "'w isys_ops \<Rightarrow> node \<Rightarrow> 'w isys \<Rightarrow> (int \<times> 'w isys) option" where
  "stream_capture_refeed ops p s =
     (case refeed_round ops p s of
        (Some r, s1) \<Rightarrow> Some (r, s1)
      | (None, s1) \<Rightarrow> stream_capture_refeed ops p s1)"

section \<open>Verifying a start\<close>

definition VERIFY_TICKS :: nat where "VERIFY_TICKS = 12"
definition VERIFY_RETRIES :: nat where "VERIFY_RETRIES = 30"

definition frames_changed :: "node \<Rightarrow> u32 \<Rightarrow> 'w isys \<Rightarrow> bool" where
  "frames_changed p before s \<longleftrightarrow> ip_frames_done (sy_ip s p) \<noteq> before"

text \<open>The inner loop: at most twelve sleeps.\<close>

fun verify_ticks :: "nat \<Rightarrow> 'w isys_ops \<Rightarrow> node \<Rightarrow> u32 \<Rightarrow> 'w isys \<Rightarrow> 'w isys" where
  "verify_ticks 0 ops p before s = s"
| "verify_ticks (Suc n) ops p before s =
     (let s1 = interrupts ops s in
      if frames_changed p before s1 then s1 else verify_ticks n ops p before s1)"

text \<open>Switching the sensor off and on and feeding the parked buffers again.\<close>

definition bounce_sensor ::
  "'w isys_ops \<Rightarrow> node \<Rightarrow> u64 \<Rightarrow> 'w isys \<Rightarrow> (int \<times> 'w isys) option" where
  "bounce_sensor ops p c s =
     (let (r, s1) = sensor_s_stream ops p False s in
      if r \<noteq> 0 then Some (r, s1)
      else
        let s2 = interrupts ops (snd (ipu_isys_csi2_error ops c s1));
            (r', s3) = sensor_s_stream ops p True s2 in
        if r' \<noteq> 0 then Some (r', s3) else stream_capture_refeed ops p s3)"

text \<open>The loop of \<^verbatim>\<open>verify_stream_start\<close>; the first argument is the number of bounces left.\<close>

fun verify_loop ::
  "nat \<Rightarrow> 'w isys_ops \<Rightarrow> node \<Rightarrow> u64 \<Rightarrow> u32 \<Rightarrow> 'w isys \<Rightarrow> (int \<times> 'w isys) option" where
  "verify_loop n ops p c before s =
     (if frames_changed p before s then Some (0, s)
      else
        let s1 = verify_ticks VERIFY_TICKS ops p before s in
        if frames_changed p before s1 then Some (0, s1)
        else (case n of
            0 \<Rightarrow> Some (E_TIMEDOUT, s1)
          | Suc m \<Rightarrow>
              (case bounce_sensor ops p c s1 of
                 None \<Rightarrow> None
               | Some (r, s2) \<Rightarrow> if r \<noteq> 0 then Some (r, s2) else verify_loop m ops p c before s2)))"

declare verify_loop.simps [simp del]

definition verify_stream_start ::
  "'w isys_ops \<Rightarrow> node \<Rightarrow> u32 \<Rightarrow> 'w isys \<Rightarrow> (int \<times> 'w isys) option" where
  "verify_stream_start ops p before s =
     (case ip_csi2 (sy_ip s p) of
        None \<Rightarrow> Some (0, s)
      | Some c \<Rightarrow>
          if ip_external (sy_ip s p) = None \<or> ip_interlaced (sy_ip s p) \<or> frames_changed p before s
          then Some (0, s)
          else
            (case verify_loop VERIFY_RETRIES ops p c before
                    (upd_ip p (\<lambda>ip. ip\<lparr>ip_verify_active := True\<rparr>) s) of
               None \<Rightarrow> None
             | Some (r, s1) \<Rightarrow>
                 (case stream_capture_refeed ops p (upd_ip p (\<lambda>ip. ip\<lparr>ip_verify_active := False\<rparr>) s1) of
                    None \<Rightarrow> None
                  | Some (r', s2) \<Rightarrow> Some (if r = 0 then r' else r, s2))))"

section \<open>Starting a pipeline\<close>

text \<open>The loop that sends the queued requests; every round takes one from the list.  The result holds the
  request that could not be sent.\<close>

fun dispatch_requests ::
  "nat \<Rightarrow> 'w isys_ops \<Rightarrow> node \<Rightarrow> 'w isys \<Rightarrow> int \<times> u64 option \<times> 'w isys" where
  "dispatch_requests 0 ops p s = (0, None, s)"
| "dispatch_requests (Suc n) ops p s =
     (case ipu_isys_next_queued_request p s of
        (None, s1) \<Rightarrow> (0, None, s1)
      | (Some q, s1) \<Rightarrow>
          (case ipu_get_fw_msg_buf ops s1 of
             (None, s2) \<Rightarrow> (E_NOMEM, Some q, s2)
           | (Some msg, s2) \<Rightarrow>
               let (fs, s3) = ipu_isys_req_prepare ops q s2;
                   (r, s4) = ipu_isys_req_dispatch ops p msg fs s3 in
               if r \<noteq> 0 then (r, Some q, s4) else dispatch_requests n ops p s4))"

text \<open>\<open>out_requeue\<close>.\<close>

definition start_requeue ::
  "'w isys_ops \<Rightarrow> node \<Rightarrow> bool \<Rightarrow> bool \<Rightarrow> u64 option \<Rightarrow> start_list \<Rightarrow> 'w isys \<Rightarrow> 'w isys" where
  "start_requeue ops p err started req bl s =
     (let st = (if err then VB2_BUF_STATE_ERROR else VB2_BUF_STATE_QUEUED);
          s1 = (if started
                then upd_ip p (\<lambda>ip. ip\<lparr>ip_streaming := False\<rparr>)
                       (snd (snd (ipu_isys_video_set_streaming ops p p False None s)))
                else s);
          s2 = (case req of Some q \<Rightarrow> ipu_isys_req_buffer_list_queue q VB2_BUF_STATE_ERROR s1 | None \<Rightarrow> s1);
          s3 = (case bl of
                  Some l \<Rightarrow>
                    if bl_nbufs l \<noteq> 0
                    then snd (ipu_isys_buffer_list_queue l
                           (IPU_ISYS_BUFFER_LIST_FL_INCOMING OR
                            (if err then IPU_ISYS_BUFFER_LIST_FL_SET_STATE else 0)) st s2)
                    else s2
                | None \<Rightarrow> s2) in
      flush_firmware_streamon_fail p st s3)"

text \<open>The loop that submits all complete sets: the result, the list in hand when it ended, and whether the
  message ran out or the list was invalid.\<close>

partial_function (option) submit_all ::
  "'w isys_ops \<Rightarrow> node \<Rightarrow> 'w isys \<Rightarrow> (int \<times> isys_buffer_list \<times> 'w isys) option" where
  "submit_all ops p s =
     (case buffer_list_get ops p s of
        (r, bl, s1) \<Rightarrow>
          if r < 0 then Some (if r = E_NODATA then 0 else r, bl, s1)
          else (case ipu_get_fw_msg_buf ops s1 of
              (None, s2) \<Rightarrow> Some (E_NOMEM, bl, s2)
            | (Some msg, s2) \<Rightarrow>
                (case submit_list ops p bl msg s2 of
                   (r', bl', s3) \<Rightarrow> if r' \<noteq> 0 then Some (r', bl', s3) else submit_all ops p s3)))"

definition ipu_isys_stream_start ::
  "'w isys_ops \<Rightarrow> node \<Rightarrow> start_list \<Rightarrow> bool \<Rightarrow> 'w isys \<Rightarrow> (int \<times> 'w isys) option" where
  "ipu_isys_stream_start ops p bl err s =
     (let before = ip_frames_done (sy_ip s p); req0 = ipu_isys_find_queued_request p s in
      case ipu_isys_video_set_streaming ops p p True bl s of
        (r, bl1, s1) \<Rightarrow>
          if r \<noteq> 0 then Some (r, start_requeue ops p err False req0 bl1 s1)
          else
            let s2 = upd_ip p (\<lambda>ip. ip\<lparr>ip_streaming := True\<rparr>) s1;
                s3 = (case (bl, req0) of
                        (Some _, Some q) \<Rightarrow>
                          if q \<notin> set (sy_requests s2) then s2\<lparr>sy_requests := sy_requests s2 @ [q]\<rparr> else s2
                      | _ \<Rightarrow> s2);
                (r4, req, s4) = dispatch_requests (length (sy_requests s3)) ops p s3 in
            if r4 \<noteq> 0 then Some (r4, start_requeue ops p err True req bl1 s4)
            else
              (case submit_all ops p s4 of
                 None \<Rightarrow> None
               | Some (r5, bl5, s5) \<Rightarrow>
                   if r5 \<noteq> 0 then Some (r5, start_requeue ops p err True None (Some bl5) s5)
                   else
                     (case verify_stream_start ops p before s5 of
                        None \<Rightarrow> None
                      | Some (r6, s6) \<Rightarrow>
                          if r6 \<noteq> 0 then Some (r6, start_requeue ops p err True None (Some bl5) s6)
                          else Some (0, s6))))"

section \<open>Queueing a buffer\<close>

text \<open>\<^verbatim>\<open>buffer_list_active_error\<close>: a buffer of a failed submission that is still active is completed.\<close>

fun take_active :: "node \<Rightarrow> buf list \<Rightarrow> isys_buffer_list \<Rightarrow> 'w isys \<Rightarrow> isys_buffer_list \<times> 'w isys" where
  "take_active p [] bl s = (bl, s)"
| "take_active p (b # bs) bl s =
     (case ib_type (sy_buf s b) of
        IPU_ISYS_VIDEO_BUFFER \<Rightarrow>
          let q = ib_queue (sy_buf s b) in
          if b \<in> set (sy_list s (Active q))
          then take_active p bs \<lparr>bl_head = bl_head bl @ [b], bl_nbufs = bl_nbufs bl + 1\<rparr>
                 (put_list (Active q) (remove1 b (sy_list s (Active q))) s)
          else take_active p bs bl s
      | IPU_ISYS_SHORT_PACKET_BUFFER \<Rightarrow>
          if b \<in> set (sy_list s (Short_packet_active p))
          then take_active p bs bl
                 (list_add b (Short_packet_incoming p)
                   (put_list (Short_packet_active p) (remove1 b (sy_list s (Short_packet_active p))) s))
          else take_active p bs bl s)"

definition buffer_list_active_error :: "node \<Rightarrow> buf list \<Rightarrow> 'w isys \<Rightarrow> 'w isys" where
  "buffer_list_active_error p bs s =
     (let (bl, s1) = take_active p bs \<lparr>bl_head = [], bl_nbufs = 0\<rparr> s in
      if bl_nbufs bl \<noteq> 0
      then snd (ipu_isys_buffer_list_queue bl IPU_ISYS_BUFFER_LIST_FL_SET_STATE VB2_BUF_STATE_ERROR s1)
      else s1)"

definition submit_running :: "'w isys_ops \<Rightarrow> node \<Rightarrow> isys_buffer_list \<Rightarrow> 'w isys \<Rightarrow> 'w isys" where
  "submit_running ops p bl s =
     (case ipu_get_fw_msg_buf ops s of
        (None, s1) \<Rightarrow>
          snd (ipu_isys_buffer_list_queue bl IPU_ISYS_BUFFER_LIST_FL_INCOMING VB2_BUF_STATE_QUEUED s1)
      | (Some msg, s1) \<Rightarrow>
          let queued = take (IPU_ISYS_OUTPUT_PINS + 1) (bl_head bl) in
          (case submit_list ops p bl msg s1 of
             (r, _, s2) \<Rightarrow> if r < 0 then buffer_list_active_error p queued s2 else s2))"

definition buf_queue :: "'w isys_ops \<Rightarrow> buf \<Rightarrow> 'w isys \<Rightarrow> 'w isys option" where
  "buf_queue ops b s =
     (let v = ib_queue (sy_buf s b); s1 = list_add b (Incoming v) s in
      if ib_req (sy_buf s1 b) \<noteq> None then Some s1
      else (case av_pipe (sy_av s1 v) of
          None \<Rightarrow> Some s1
        | Some p \<Rightarrow>
            if \<not> aq_vbq_streaming (sy_aq s1 v) then Some s1
            else if ip_nr_streaming (sy_ip s1 p) \<noteq> ip_nr_queues (sy_ip s1 p) then Some s1
            else (case buffer_list_get ops p s1 of
                (r, bl, s2) \<Rightarrow>
                  if r < 0 then Some s2
                  else if \<not> ip_streaming (sy_ip s2 p)
                  then map_option snd (ipu_isys_stream_start ops p (Some bl) True s2)
                  else Some (submit_running ops p bl s2))))"

section \<open>Giving buffers back, starting and stopping a queue\<close>

fun complete_all :: "buf list \<Rightarrow> vb2_buffer_state \<Rightarrow> 'w isys \<Rightarrow> 'w isys" where
  "complete_all [] st s = s"
| "complete_all (b # bs) st s = complete_all bs st (vb2_buffer_done b st s)"

definition return_buffers :: "node \<Rightarrow> vb2_buffer_state \<Rightarrow> 'w isys \<Rightarrow> 'w isys" where
  "return_buffers v st s =
     (let s1 = complete_all (sy_list s (Incoming v)) st (put_list (Incoming v) [] s);
          act = sy_list s1 (Active v);
          s2 = complete_all act st (put_list (Active v) [] s1) in
      if act \<noteq> [] then s2\<lparr>sy_reset_needed := True\<rparr> else s2)"

text \<open>\<open>out_unprepare_streaming\<close> and \<open>out_return_buffers\<close>.\<close>

definition start_failed :: "'w isys_ops \<Rightarrow> node \<Rightarrow> node \<Rightarrow> bool \<Rightarrow> 'w isys \<Rightarrow> 'w isys" where
  "start_failed ops p v first s =
     return_buffers v VB2_BUF_STATE_QUEUED
       (if first then ipu_isys_video_unprepare_streaming ops p v s else s)"

definition leave_queues :: "node \<Rightarrow> node \<Rightarrow> 'w isys \<Rightarrow> 'w isys" where
  "leave_queues p v s =
     upd_ip p (\<lambda>ip. ip\<lparr>ip_queues := removeAll v (ip_queues ip), ip_nr_streaming := ip_nr_streaming ip - 1\<rparr>) s"

definition start_joined ::
  "'w isys_ops \<Rightarrow> node \<Rightarrow> node \<Rightarrow> bool \<Rightarrow> start_list \<Rightarrow> 'w isys \<Rightarrow> (int \<times> 'w isys) option" where
  "start_joined ops p v first bl s =
     (case ipu_isys_stream_start ops p bl False s of
        None \<Rightarrow> None
      | Some (r, s1) \<Rightarrow>
          if r \<noteq> 0 then Some (r, start_failed ops p v first (leave_queues p v s1)) else Some (0, s1))"

definition start_prepared ::
  "'w isys_ops \<Rightarrow> node \<Rightarrow> node \<Rightarrow> bool \<Rightarrow> 'w isys \<Rightarrow> (int \<times> 'w isys) option" where
  "start_prepared ops p v first s =
     (let (r, w) = w_link_fmt ops v (sy_world s); s1 = s\<lparr>sy_world := w\<rparr> in
      if r \<noteq> 0 then Some (r, start_failed ops p v first s1)
      else
        let s2 = upd_ip p (\<lambda>ip. ip\<lparr>ip_nr_streaming := ip_nr_streaming ip + 1,
                                   ip_queues := v # ip_queues ip\<rparr>) s1 in
        if ip_nr_streaming (sy_ip s2 p) \<noteq> ip_nr_queues (sy_ip s2 p) then Some (0, s2)
        else if sy_requests s2 \<noteq> [] then start_joined ops p v first None s2
        else (case buffer_list_get ops p s2 of
            (r', bl, s3) \<Rightarrow>
              if r' = E_INVAL then Some (r', start_failed ops p v first (leave_queues p v s3))
              else if r' < 0 then Some (0, s3)
              else start_joined ops p v first (Some bl) s3))"

definition start_streaming :: "'w isys_ops \<Rightarrow> node \<Rightarrow> 'w isys \<Rightarrow> (int \<times> 'w isys) option" where
  "start_streaming ops v s =
     (case av_pipe (sy_av s v) of
        Some p \<Rightarrow> start_prepared ops p v False s
      | None \<Rightarrow>
          (case ipu_isys_video_prepare_streaming ops v s of
             (r, s1) \<Rightarrow>
               if r \<noteq> 0 then Some (r, return_buffers v VB2_BUF_STATE_QUEUED s1)
               else (case av_pipe (sy_av s1 v) of
                   None \<Rightarrow> Some (0, s1\<lparr>sy_wild := True\<rparr>)
                 | Some p \<Rightarrow> start_prepared ops p v True s1)))"

definition stop_streaming :: "'w isys_ops \<Rightarrow> node \<Rightarrow> 'w isys \<Rightarrow> 'w isys" where
  "stop_streaming ops v s =
     (case av_pipe (sy_av s v) of
        None \<Rightarrow> s
      | Some p \<Rightarrow>
          let s1 = (if ip_nr_streaming (sy_ip s p) = ip_nr_queues (sy_ip s p) \<and> ip_streaming (sy_ip s p)
                    then snd (snd (ipu_isys_video_set_streaming ops p v False None s)) else s);
              s2 = (if ip_nr_streaming (sy_ip s1 p) = 1
                    then ipu_isys_video_unprepare_streaming ops p v s1 else s1);
              s3 = upd_ip p (\<lambda>ip. ip\<lparr>ip_nr_streaming := (if ip_nr_streaming ip > 0
                                then ip_nr_streaming ip - 1 else ip_nr_streaming ip),
                              ip_queues := removeAll v (ip_queues ip), ip_streaming := False\<rparr>) s2 in
          return_buffers v VB2_BUF_STATE_ERROR s3)"

end
