(* ===== verification/IsysCensus.thy ===== *)
theory IsysCensus
  imports IsysStart "HOL-Library.Multiset"
begin

text \<open>
  The buffers of the imaging system are conserved, part one: the lists, the messages, the interrupts and
  the firmware calls.

  \<open>accounted\<close> counts every node on a list and every buffer handed back to videobuf2; \<open>moves s M s' N\<close> says
  that an operation that starts with the buffers \<open>M\<close> in hand and ends with \<open>N\<close> in hand neither loses nor
  copies one, in states where every buffer is on a list of its kind (\<open>regular\<close>).  \<open>quiet\<close> operations
  touch no list at all.
\<close>

section \<open>Frames\<close>

definition kind_of :: "'w isys \<Rightarrow> buf \<Rightarrow> isys_buffer_type \<times> node" where
  "kind_of s b = (ib_type (sy_buf s b), ib_queue (sy_buf s b))"

definition quiet :: "'w isys \<Rightarrow> 'w isys \<Rightarrow> bool" where
  "quiet s s' \<longleftrightarrow> sy_list s' = sy_list s \<and> sy_done s' = sy_done s \<and>
     sy_requests s' = sy_requests s \<and> kind_of s' = kind_of s"

lemma quiet_refl [simp]: "quiet s s" by (simp add: quiet_def)

lemma quiet_trans [trans]: "quiet s s' \<Longrightarrow> quiet s' s'' \<Longrightarrow> quiet s s''"
  by (simp add: quiet_def)

lemma kind_frame [simp]:
  "kind_of (s\<lparr>sy_world := w\<rparr>) = kind_of s" "kind_of (s\<lparr>sy_ip := i\<rparr>) = kind_of s"
  "kind_of (s\<lparr>sy_csi2 := c\<rparr>) = kind_of s" "kind_of (s\<lparr>sy_list := l\<rparr>) = kind_of s"
  "kind_of (s\<lparr>sy_av := a\<rparr>) = kind_of s" "kind_of (s\<lparr>sy_aq := q\<rparr>) = kind_of s"
  "kind_of (s\<lparr>sy_done := d\<rparr>) = kind_of s" "kind_of (s\<lparr>sy_wild := x\<rparr>) = kind_of s"
  "kind_of (s\<lparr>sy_sent := t\<rparr>) = kind_of s" "kind_of (s\<lparr>sy_sensor := u\<rparr>) = kind_of s"
  "kind_of (s\<lparr>sy_pipes := v\<rparr>) = kind_of s" "kind_of (s\<lparr>sy_stream_opened := n\<rparr>) = kind_of s"
  "kind_of (s\<lparr>sy_reset_needed := x\<rparr>) = kind_of s" "kind_of (s\<lparr>sy_requests := r\<rparr>) = kind_of s"
  "kind_of (s\<lparr>sy_framebuflist := fl\<rparr>) = kind_of s" "kind_of (s\<lparr>sy_framebuflist_fw := fl\<rparr>) = kind_of s"
  "kind_of (s\<lparr>sy_sd_pipe := pp\<rparr>) = kind_of s" "kind_of (s\<lparr>sy_short_bufs := sb\<rparr>) = kind_of s"
  by (simp_all add: kind_of_def fun_eq_iff)

lemma upd_frame [simp]:
  "sy_list (upd_ip p f s) = sy_list s" "sy_done (upd_ip p f s) = sy_done s"
  "sy_requests (upd_ip p f s) = sy_requests s" "kind_of (upd_ip p f s) = kind_of s"
  "sy_list (upd_csi2 c g s) = sy_list s" "sy_done (upd_csi2 c g s) = sy_done s"
  "sy_requests (upd_csi2 c g s) = sy_requests s" "kind_of (upd_csi2 c g s) = kind_of s"
  "sy_list (upd_av p h s) = sy_list s" "sy_done (upd_av p h s) = sy_done s"
  "sy_requests (upd_av p h s) = sy_requests s" "kind_of (upd_av p h s) = kind_of s"
  "sy_list (upd_aq p k s) = sy_list s" "sy_done (upd_aq p k s) = sy_done s"
  "sy_requests (upd_aq p k s) = sy_requests s" "kind_of (upd_aq p k s) = kind_of s"
  "sy_list (upd_buf b m s) = sy_list s" "sy_done (upd_buf b m s) = sy_done s"
  "sy_requests (upd_buf b m s) = sy_requests s"
  by (simp_all add: upd_ip_def upd_csi2_def upd_av_def upd_aq_def upd_buf_def)

lemma kind_upd_buf:
  "(\<And>ib. ib_type (m ib) = ib_type ib \<and> ib_queue (m ib) = ib_queue ib) \<Longrightarrow> kind_of (upd_buf b m s) = kind_of s"
  by (simp add: upd_buf_def kind_of_def fun_eq_iff)

lemma readl_frame [simp]:
  "sy_list (snd (isys_readl ops r s)) = sy_list s" "sy_done (snd (isys_readl ops r s)) = sy_done s"
  "sy_requests (snd (isys_readl ops r s)) = sy_requests s" "kind_of (snd (isys_readl ops r s)) = kind_of s"
  "sy_list (isys_writel ops v r s) = sy_list s" "sy_done (isys_writel ops v r s) = sy_done s"
  "sy_requests (isys_writel ops v r s) = sy_requests s" "kind_of (isys_writel ops v r s) = kind_of s"
  by (simp_all add: isys_readl_def isys_writel_def split_beta Let_def)

section \<open>The census\<close>

lemma finite_list_id: "finite (UNIV :: list_id set)"
proof -
  have "(UNIV :: list_id set) \<subseteq> range Incoming \<union> range Active \<union> range Pending_interlaced \<union>
      range Short_packet_incoming \<union> range Short_packet_active"
  proof
    fix l :: list_id show "l \<in> range Incoming \<union> range Active \<union> range Pending_interlaced \<union>
      range Short_packet_incoming \<union> range Short_packet_active" by (cases l) auto
  qed
  then show ?thesis by (rule finite_subset) simp
qed

instantiation list_id :: finite
begin
instance by standard (rule finite_list_id)
end

text \<open>All nodes on lists and all buffers handed back.\<close>

definition accounted :: "'w isys \<Rightarrow> buf multiset" where
  "accounted s = (\<Sum>l\<in>UNIV. mset (sy_list s l)) + mset (map fst (sy_done s))"

definition placed :: "isys_buffer_type \<times> node \<Rightarrow> list_id \<Rightarrow> bool" where
  "placed k l =
     (case l of
        Incoming q \<Rightarrow> k = (IPU_ISYS_VIDEO_BUFFER, q)
      | Active q \<Rightarrow> k = (IPU_ISYS_VIDEO_BUFFER, q)
      | Pending_interlaced p \<Rightarrow> fst k = IPU_ISYS_VIDEO_BUFFER
      | Short_packet_incoming p \<Rightarrow> k = (IPU_ISYS_SHORT_PACKET_BUFFER, p)
      | Short_packet_active p \<Rightarrow> k = (IPU_ISYS_SHORT_PACKET_BUFFER, p))"

definition well_placed :: "'w isys \<Rightarrow> bool" where
  "well_placed s \<longleftrightarrow> (\<forall>l. \<forall>b\<in>set (sy_list s l). placed (kind_of s b) l)"

definition regular :: "'w isys \<Rightarrow> bool" where
  "regular s \<longleftrightarrow> well_placed s \<and> sy_requests s = []"

text \<open>\<open>moves s M s' N\<close>: with the buffers \<open>M\<close> in hand before and \<open>N\<close> after, none is lost or copied.\<close>

definition moves :: "'w isys \<Rightarrow> buf multiset \<Rightarrow> 'w isys \<Rightarrow> buf multiset \<Rightarrow> bool" where
  "moves s M s' N \<longleftrightarrow> (regular s \<longrightarrow>
     regular s' \<and> kind_of s' = kind_of s \<and> accounted s' + N = accounted s + M)"

abbreviation keeps :: "'w isys \<Rightarrow> 'w isys \<Rightarrow> bool" where
  "keeps s s' \<equiv> moves s {#} s' {#}"

lemma moves_refl [simp]: "moves s M s M" by (simp add: moves_def)

lemma moves_trans [trans]: "moves s M s' N \<Longrightarrow> moves s' N s'' K \<Longrightarrow> moves s M s'' K"
  by (auto simp: moves_def)

lemma keeps_moves: "keeps s s' \<Longrightarrow> moves s M s' M"
  by (auto simp: moves_def)

lemma moves_add: "moves s M s' N \<Longrightarrow> moves s (M + K) s' (N + K)"
  by (auto simp: moves_def ac_simps)

lemma quiet_moves: "quiet s s' \<Longrightarrow> moves s M s' M"
  by (auto simp: moves_def quiet_def regular_def well_placed_def accounted_def)

lemma movesI: "(regular s \<Longrightarrow> moves s M s' N) \<Longrightarrow> moves s M s' N"
  by (simp add: moves_def)

lemma accounted_put_list:
  "accounted (put_list l xs s) + mset (sy_list s l) = accounted s + mset xs"
proof -
  have "(\<Sum>k\<in>UNIV. mset (sy_list (put_list l xs s) k)) = mset xs + (\<Sum>k\<in>UNIV - {l}. mset (sy_list s k))"
    by (subst sum.remove [of _ l]) (auto simp: put_list_def)
  moreover have "(\<Sum>k\<in>UNIV. mset (sy_list s k)) = mset (sy_list s l) + (\<Sum>k\<in>UNIV - {l}. mset (sy_list s k))"
    by (subst sum.remove [of _ l]) auto
  ultimately show ?thesis by (simp add: accounted_def put_list_def)
qed

lemma put_list_frame [simp]:
  "sy_done (put_list l xs s) = sy_done s" "sy_requests (put_list l xs s) = sy_requests s"
  "kind_of (put_list l xs s) = kind_of s" "sy_list (put_list l xs s) = (sy_list s)(l := xs)"
  by (simp_all add: put_list_def)

lemma put_list_moves:
  assumes "mset xs + N = mset (sy_list s l) + M" and "\<forall>b\<in>set xs. b \<in> set (sy_list s l) \<or> placed (kind_of s b) l"
  shows "moves s M (put_list l xs s) N"
proof -
  have "accounted (put_list l xs s) + N + mset (sy_list s l) = accounted s + M + mset (sy_list s l)"
    using accounted_put_list [of l xs s] assms(1) by (metis add.assoc add.commute)
  then have a: "accounted (put_list l xs s) + N = accounted s + M" by simp
  have "well_placed (put_list l xs s)" if "well_placed s"
    using that assms(2) by (auto simp: well_placed_def)
  then show ?thesis using a by (simp add: moves_def regular_def)
qed

lemma list_add_moves: "placed (kind_of s b) l \<Longrightarrow> moves s {#b#} (list_add b l s) {#}"
  unfolding list_add_def by (rule put_list_moves) auto

lemma list_add_tail_moves: "placed (kind_of s b) l \<Longrightarrow> moves s {#b#} (list_add_tail b l s) {#}"
  unfolding list_add_tail_def by (rule put_list_moves) auto

lemma vb2_done_moves: "moves s {#b#} (vb2_buffer_done b st s) {#}"
  by (simp add: moves_def regular_def vb2_buffer_done_def well_placed_def accounted_def)

lemma remove1_moves:
  "b \<in> set (sy_list s l) \<Longrightarrow> moves s {#} (put_list l (remove1 b (sy_list s l)) s) {#b#}"
  by (rule put_list_moves) (auto dest: subsetD [OF set_remove1_subset])

lemma butlast_moves:
  assumes "sy_list s l \<noteq> []"
  shows "moves s {#} (put_list l (butlast (sy_list s l)) s) {#last (sy_list s l)#}"
proof (rule put_list_moves)
  show "mset (butlast (sy_list s l)) + {#last (sy_list s l)#} = mset (sy_list s l) + {#}"
    using assms by (metis append_butlast_last_id mset_append mset_single_iff_right add.right_neutral)
qed (auto dest: in_set_butlastD)

section \<open>Buffer lists\<close>

definition deliverable :: "u32 \<Rightarrow> isys_buffer_type \<times> node \<Rightarrow> bool" where
  "deliverable f k \<longleftrightarrow>
     f AND IPU_ISYS_BUFFER_LIST_FL_ACTIVE \<noteq> 0 \<or> f AND IPU_ISYS_BUFFER_LIST_FL_INCOMING \<noteq> 0 \<or>
     fst k = IPU_ISYS_VIDEO_BUFFER \<and> f AND IPU_ISYS_BUFFER_LIST_FL_SET_STATE \<noteq> 0"

lemma queue_one_moves:
  assumes "deliverable f (kind_of s b)"
  shows "moves s {#b#} (queue_one f st b s) {#}"
proof (cases "ib_type (sy_buf s b)")
  case IPU_ISYS_VIDEO_BUFFER
  then have k: "kind_of s b = (IPU_ISYS_VIDEO_BUFFER, ib_queue (sy_buf s b))" by (simp add: kind_of_def)
  show ?thesis
    using assms k list_add_moves [of s b "Active (ib_queue (sy_buf s b))"]
      list_add_tail_moves [of s b "Incoming (ib_queue (sy_buf s b))"]
    by (auto simp: queue_one_def IPU_ISYS_VIDEO_BUFFER placed_def deliverable_def vb2_done_moves Let_def)
next
  case IPU_ISYS_SHORT_PACKET_BUFFER
  then have k: "kind_of s b = (IPU_ISYS_SHORT_PACKET_BUFFER, ib_queue (sy_buf s b))" by (simp add: kind_of_def)
  show ?thesis
    using assms k list_add_moves [of s b "Short_packet_active (ib_queue (sy_buf s b))"]
      list_add_moves [of s b "Short_packet_incoming (ib_queue (sy_buf s b))"]
    by (auto simp: queue_one_def IPU_ISYS_SHORT_PACKET_BUFFER placed_def deliverable_def Let_def)
qed

lemma queue_one_kind [simp]: "kind_of (queue_one f st b s) = kind_of s"
  by (simp add: queue_one_def Let_def list_add_def list_add_tail_def vb2_buffer_done_def
      split: isys_buffer_type.splits)

lemma queue_all_moves:
  "\<forall>b\<in>set bs. deliverable f (kind_of s b) \<Longrightarrow> moves s (mset bs) (queue_all f st bs s) {#}"
proof (induction bs arbitrary: s)
  case (Cons b bs)
  have "moves s ({#b#} + mset bs) (queue_one f st b s) ({#} + mset bs)"
    using Cons.prems by (intro moves_add queue_one_moves) simp
  moreover have "moves (queue_one f st b s) (mset bs) (queue_all f st bs (queue_one f st b s)) {#}"
    using Cons.prems by (intro Cons.IH) simp
  ultimately show ?case using moves_trans by fastforce
qed simp

lemma buffer_list_queue_moves:
  "\<forall>b\<in>set (bl_head bl). deliverable f (kind_of s b) \<Longrightarrow>
   moves s (mset (bl_head bl)) (snd (ipu_isys_buffer_list_queue bl f st s)) {#}"
  by (simp add: ipu_isys_buffer_list_queue_def queue_all_moves)

lemma or_and_one: "(1 OR f) AND 1 = (1 :: u32)"
  by (rule bit_word_eqI) (auto simp: bit_simps)

lemma flags_deliver [simp]:
  "deliverable IPU_ISYS_BUFFER_LIST_FL_ACTIVE k" "deliverable IPU_ISYS_BUFFER_LIST_FL_INCOMING k"
  "deliverable (IPU_ISYS_BUFFER_LIST_FL_INCOMING OR f) k"
  "deliverable IPU_ISYS_BUFFER_LIST_FL_SET_STATE k \<longleftrightarrow> fst k = IPU_ISYS_VIDEO_BUFFER"
  by (auto simp: deliverable_def IPU_ISYS_BUFFER_LIST_FL_ACTIVE_def IPU_ISYS_BUFFER_LIST_FL_INCOMING_def
      IPU_ISYS_BUFFER_LIST_FL_SET_STATE_def or_and_one)

definition counted :: "isys_buffer_list \<Rightarrow> bool" where
  "counted bl \<longleftrightarrow> bl_nbufs bl = length (bl_head bl)"

lemma queue_list_counted [simp]:
  "counted bl \<Longrightarrow> fst (ipu_isys_buffer_list_queue bl f st s) = \<lparr>bl_head = [], bl_nbufs = 0\<rparr>"
  by (simp add: ipu_isys_buffer_list_queue_def counted_def)

lemma detach_active_moves:
  assumes "detach_active qs bl s = (bl', s')"
  shows "moves s (mset (bl_head bl)) s' (mset (bl_head bl')) \<and> (counted bl \<longrightarrow> counted bl') \<and>
         (regular s \<longrightarrow> (\<forall>b\<in>set (bl_head bl'). b \<in> set (bl_head bl) \<or> fst (kind_of s b) = IPU_ISYS_VIDEO_BUFFER))"
  using assms
proof (induction qs arbitrary: bl s)
  case (Cons q qs)
  let ?bl = "\<lparr>bl_head = bl_head bl @ sy_list s (Active q), bl_nbufs = bl_nbufs bl + length (sy_list s (Active q))\<rparr>"
  let ?s = "put_list (Active q) [] s"
  have r: "detach_active qs ?bl ?s = (bl', s')" using Cons.prems by simp
  have 1: "moves s (mset (bl_head bl)) ?s (mset (bl_head ?bl))"
    by (rule put_list_moves) auto
  have v: "b \<in> set (sy_list s (Active q)) \<Longrightarrow> regular s \<Longrightarrow> fst (kind_of s b) = IPU_ISYS_VIDEO_BUFFER" for b
    by (auto simp: regular_def well_placed_def placed_def dest: spec [of _ "Active q"])
  have reg: "regular s \<Longrightarrow> regular ?s" using 1 by (simp add: moves_def)
  show ?case
    using Cons.IH [OF r] 1 v reg moves_trans [OF 1] by (auto simp: counted_def)
qed auto

lemma flush_keeps: "keeps s (flush_firmware_streamon_fail p st s)"
proof (rule movesI)
  assume reg: "regular s"
  obtain bl s1 where d: "detach_active (ip_queues (sy_ip s p)) \<lparr>bl_head = [], bl_nbufs = 0\<rparr> s = (bl, s1)"
    by fastforce
  note D = detach_active_moves [OF d]
  have m: "moves s {#} s1 (mset (bl_head bl))" using D by simp
  have k: "kind_of s1 = kind_of s" using m reg by (simp add: moves_def)
  have "\<forall>b\<in>set (bl_head bl). deliverable IPU_ISYS_BUFFER_LIST_FL_SET_STATE (kind_of s1 b)"
    using D reg k by auto
  then have "moves s1 (mset (bl_head bl)) (snd (ipu_isys_buffer_list_queue bl
      IPU_ISYS_BUFFER_LIST_FL_SET_STATE st s1)) {#}"
    by (rule buffer_list_queue_moves)
  moreover have "bl_nbufs bl = 0 \<Longrightarrow> bl_head bl = []" using D by (simp add: counted_def)
  ultimately show "keeps s (flush_firmware_streamon_fail p st s)"
    using m moves_trans by (auto simp: flush_firmware_streamon_fail_def d)
qed

section \<open>Taking buffers\<close>

lemma take_buffers_moves:
  assumes "take_buffers qs bl s = (r, bl', s')"
  shows "moves s (mset (bl_head bl)) s' (mset (bl_head bl')) \<and> (counted bl \<longrightarrow> counted bl') \<and>
         (r = 0 \<or> r = E_NODATA)"
  using assms
proof (induction qs arbitrary: bl s)
  case (Cons q qs)
  let ?b = "last (sy_list s (Incoming q))"
  let ?s = "put_list (Incoming q) (butlast (sy_list s (Incoming q))) s"
  let ?bl = "\<lparr>bl_head = ?b # bl_head bl, bl_nbufs = bl_nbufs bl + 1\<rparr>"
  show ?case
  proof (cases "sy_list s (Incoming q) = [] \<or> ib_req (sy_buf s ?b) \<noteq> None")
    case True
    then show ?thesis using Cons.prems by (auto split: if_splits)
  next
    case False
    then have r: "take_buffers qs ?bl ?s = (r, bl', s')" using Cons.prems by simp
    have "moves s {#} ?s {#?b#}" using False by (intro butlast_moves) simp
    from moves_add [OF this, of "mset (bl_head bl)"]
    have 1: "moves s (mset (bl_head bl)) ?s (mset (bl_head ?bl))" by simp
    show ?thesis using Cons.IH [OF r] moves_trans [OF 1] by (auto simp: counted_def)
  qed
qed auto

lemma prepare_buffers_frame [simp]:
  "sy_list (prepare_buffers ops bs s) = sy_list s" "sy_done (prepare_buffers ops bs s) = sy_done s"
  "sy_requests (prepare_buffers ops bs s) = sy_requests s" "kind_of (prepare_buffers ops bs s) = kind_of s"
  "sy_ip (prepare_buffers ops bs s) = sy_ip s" "sy_buf (prepare_buffers ops bs s) = sy_buf s"
  by (induction bs arbitrary: s) simp_all

lemma give_back_moves:
  "moves s (mset (bl_head bl)) (snd (give_back bl s)) {#}"
  by (auto simp: give_back_def intro: buffer_list_queue_moves)

lemma give_back_counted: "counted bl \<Longrightarrow> fst (give_back bl s) = \<lparr>bl_head = [], bl_nbufs = 0\<rparr>"
  by (cases bl) (auto simp: give_back_def counted_def)

lemma short_packet_take_moves:
  "ipu_isys_csi2_get_short_packet_buffer p s = Some b \<Longrightarrow>
   moves s {#} (put_list (Short_packet_incoming p) (butlast (sy_list s (Short_packet_incoming p))) s) {#b#}"
  by (auto simp: ipu_isys_csi2_get_short_packet_buffer_def split: if_splits intro: butlast_moves)

lemma buffer_list_get_moves:
  assumes "buffer_list_get ops p s = (r, bl, s')"
  shows "moves s {#} s' (mset (bl_head bl)) \<and> counted bl \<and> (r = 0 \<or> r = E_NODATA) \<and>
         (r \<noteq> 0 \<longrightarrow> bl = \<lparr>bl_head = [], bl_nbufs = 0\<rparr>)"
proof -
  obtain r1 bl1 s1 where t: "take_buffers (ip_queues (sy_ip s p)) \<lparr>bl_head = [], bl_nbufs = 0\<rparr> s = (r1, bl1, s1)"
    by (metis prod_cases3)
  note T = take_buffers_moves [OF t]
  have c: "counted bl1" using T by (simp add: counted_def)
  have m: "moves s {#} s1 (mset (bl_head bl1))" using T by simp
  let ?s2 = "prepare_buffers ops (bl_head bl1) s1"
  have m2: "moves s {#} ?s2 (mset (bl_head bl1))"
    using moves_trans [OF m quiet_moves [of s1 ?s2]] by (simp add: quiet_def)
  have gb: "moves s {#} (snd (give_back bl1 s1)) {#}" "moves s {#} (snd (give_back bl1 ?s2)) {#}"
    using m m2 give_back_moves moves_trans by blast+
  show ?thesis
  proof (cases "r1 \<noteq> 0")
    case True
    then have e: "r = r1" "bl = fst (give_back bl1 s1)" "s' = snd (give_back bl1 s1)"
      using assms unfolding buffer_list_get_def t by auto
    show ?thesis using T True gb(1) unfolding e by (simp add: give_back_counted [OF c] counted_def)
  next
    case r1: False
    show ?thesis
    proof (cases "ip_interlaced (sy_ip s1 p) \<and> sy_short_packet_source ?s2 = IPU_ISYS_SHORT_PACKET_FROM_RECEIVER")
      case False
      then have e: "r = 0" "bl = bl1" "s' = ?s2"
        using assms r1 unfolding buffer_list_get_def t by (auto simp: Let_def)
      show ?thesis using m2 c unfolding e by simp
    next
      case i: True
      show ?thesis
      proof (cases "ipu_isys_csi2_get_short_packet_buffer p ?s2")
        case None
        then have e: "r = E_NODATA" "bl = fst (give_back bl1 ?s2)" "s' = snd (give_back bl1 ?s2)"
          using assms r1 i unfolding buffer_list_get_def t by (auto simp: Let_def)
        show ?thesis using gb(2) unfolding e by (simp add: give_back_counted [OF c] counted_def)
      next
        case (Some b)
        then have e: "r = 0" "bl = \<lparr>bl_head = b # bl_head bl1, bl_nbufs = bl_nbufs bl1 + 1\<rparr>"
          "s' = put_list (Short_packet_incoming p) (butlast (sy_list ?s2 (Short_packet_incoming p))) ?s2"
          using assms r1 i unfolding buffer_list_get_def t by (auto simp: Let_def)
        have "moves ?s2 (mset (bl_head bl1)) s' (mset (bl_head bl))"
          using moves_add [OF short_packet_take_moves [OF Some], of "mset (bl_head bl1)"] unfolding e by simp
        then show ?thesis using moves_trans [OF m2] c unfolding e by (auto simp: counted_def)
      qed
    qed
  qed
qed

section \<open>Messages\<close>

lemma alloc_loop_quiet: "quiet s (snd (alloc_loop n ops s))"
proof (induction n arbitrary: s)
  case (Suc n)
  obtain a w where w: "w_msg_alloc ops (sy_world s) = (a, w)" by fastforce
  show ?case
    using Suc.IH [of "s\<lparr>sy_world := w, sy_framebuflist := the a # sy_framebuflist s\<rparr>"]
    by (cases a) (auto simp: w Let_def quiet_def)
qed simp

lemma get_msg_quiet: "quiet s (snd (ipu_get_fw_msg_buf ops s))"
  using alloc_loop_quiet [of s 5 ops]
  by (auto simp: ipu_get_fw_msg_buf_def alloc_fw_msg_buffers_def Let_def split_beta quiet_def)

lemma put_msg_quiet: "quiet s (ipu_put_fw_mgs_buffer msg s)"
  by (simp add: ipu_put_fw_mgs_buffer_def quiet_def)

section \<open>Interrupts\<close>

lemma csi2_error_quiet: "quiet s (snd (ipu_isys_csi2_error ops c s))"
  by (simp add: ipu_isys_csi2_error_def ipu4p_isys_register_errors_def split_beta Let_def quiet_def)

lemma reset_errors_quiet: "quiet s (ipu_isys_csi2_reset_errors ops c s)"
  by (simp add: ipu_isys_csi2_reset_errors_def split_beta Let_def quiet_def)

lemma vc_events_quiet: "quiet s (vc_events c st i s)"
  by (simp add: vc_events_def ipu_isys_csi2_sof_event_def ipu_isys_csi2_eof_event_def Let_def quiet_def
      split: option.splits)

lemma fold_quiet: "(\<And>x s. quiet s (f x s)) \<Longrightarrow> quiet s (fold f xs s)"
  by (induction xs arbitrary: s) (auto intro: quiet_trans)

lemma fold_keeps: "(\<And>x s. keeps s (f x s)) \<Longrightarrow> keeps s (fold f xs s)"
  by (induction xs arbitrary: s) (auto intro: moves_trans)

lemma csi2_isr_quiet: "quiet s (ipu_isys_csi2_isr ops c s)"
proof -
  have "quiet s0 (fold (vc_events c st) xs s0)" for s0 :: "'a isys" and st xs
    by (rule fold_quiet) (rule vc_events_quiet)
  moreover define s1 where "s1 = isys_writel ops (fst (isys_readl ops (Csi_irq_ctrl c 8) s)) (Csi_irq_ctrl c 0xc)
      (snd (isys_readl ops (Csi_irq_ctrl c 8) s))"
  moreover have "quiet s s1" by (simp add: quiet_def s1_def)
  ultimately show ?thesis
    by (auto simp: ipu_isys_csi2_isr_def split_beta Let_def s1_def [symmetric] quiet_def)
qed

lemma sequence_time_quiet: "quiet s (ipu_isys_buf_calc_sequence_time ops b info s)"
  by (simp add: ipu_isys_buf_calc_sequence_time_def get_sof_ns_delta_def Let_def split_beta quiet_def
      kind_upd_buf split: option.splits)

lemma buf_done_moves: "moves s {#b#} (ipu_isys_queue_buf_done b s) {#}"
proof -
  have "quiet s' (upd_buf b (\<lambda>ib. ib\<lparr>ib_str2mmio_flag := False\<rparr>) s')" for s' :: "'a isys"
    by (simp add: quiet_def kind_upd_buf)
  from moves_trans [OF vb2_done_moves quiet_moves [OF this]] show ?thesis
    by (simp add: ipu_isys_queue_buf_done_def vb2_done_moves)
qed

lemma find_rev_mem: "List.find P (rev xs) = Some b \<Longrightarrow> b \<in> set xs"
  by (metis find_Some_iff nth_mem set_rev)

lemma buf_ready_keeps: "keeps s (ipu_isys_queue_buf_ready ops p q info s)"
proof (cases "List.find (\<lambda>b. ib_addr (sy_buf s b) = rs_pin_addr info) (rev (sy_list s (Active q)))")
  case (Some b)
  then have b: "b \<in> set (sy_list s (Active q))" by (rule find_rev_mem)
  define rest where "rest = put_list (Active q) (remove1 b (sy_list s (Active q))) s"
  define s1 where "s1 = upd_buf b (\<lambda>ib. ib\<lparr>ib_str2mmio_flag := str2mmio info \<or> ib_str2mmio_flag ib,
                                    ib_field := V4L2_FIELD_NONE\<rparr>) rest"
  define s2 where "s2 = ipu_isys_buf_calc_sequence_time ops b info s1"
  have out: "moves s {#} rest {#b#}" unfolding rest_def using b by (rule remove1_moves)
  have "quiet rest s1" by (simp add: s1_def quiet_def kind_upd_buf)
  then have "quiet rest s2" unfolding s2_def using sequence_time_quiet quiet_trans by blast
  then have m2: "moves s {#} s2 {#b#}" using moves_trans [OF out quiet_moves] by blast
  have k: "kind_of rest = kind_of s" "kind_of s2 = kind_of s"
    using \<open>quiet rest s2\<close> by (simp_all add: rest_def quiet_def)
  have "keeps s (buf_ready_found ops p q b info s)"
  proof (rule movesI)
    assume "regular s"
    then have v: "kind_of s b = (IPU_ISYS_VIDEO_BUFFER, q)"
      using b by (auto simp: regular_def well_placed_def placed_def dest: spec [of _ "Active q"])
    have "moves rest {#b#} (list_add b (Incoming q) rest) {#}"
      "moves s2 {#b#} (list_add b (Pending_interlaced p) s2) {#}"
      by (rule list_add_moves; simp add: placed_def k v)+
    then show "keeps s (buf_ready_found ops p q b info s)"
      using moves_trans [OF out] moves_trans [OF m2] buf_done_moves [of s2 b]
      unfolding buf_ready_found_def Let_def rest_def [symmetric] s1_def [symmetric] s2_def [symmetric]
      by auto
  qed
  then show ?thesis by (simp add: ipu_isys_queue_buf_ready_def Some)
qed (simp add: ipu_isys_queue_buf_ready_def)

lemma short_packet_ready_quiet: "quiet s (ipu_isys_queue_short_packet_ready ops p info s)"
  by (simp add: ipu_isys_queue_short_packet_ready_def split_beta quiet_def)

lemma pin_ready_keeps: "keeps s (resp_pin_data_ready ops p resp s)"
proof -
  define s1 where "s1 = (if rs_error resp = 0
      then upd_ip p (\<lambda>ip. ip\<lparr>ip_frames_done := ip_frames_done ip + 1\<rparr>) s else s)"
  have "keeps s s1" by (rule quiet_moves) (simp add: quiet_def s1_def)
  from moves_trans [OF this buf_ready_keeps] moves_trans [OF this quiet_moves [OF short_packet_ready_quiet]] this
  show ?thesis
    by (auto simp: resp_pin_data_ready_def s1_def [symmetric] Let_def split: option.splits pin_ready.splits)
qed

lemma finish_fields_moves: "moves s (mset bs) (finish_fields f bs s) {#}"
proof (induction bs arbitrary: s)
  case (Cons b bs)
  let ?u = "upd_buf b (\<lambda>ib. ib\<lparr>ib_field := f\<rparr>) s"
  have "quiet s ?u" by (simp add: quiet_def kind_upd_buf)
  note 1 = moves_trans [OF quiet_moves [OF this] buf_done_moves]
  have "moves s ({#b#} + mset bs) (ipu_isys_queue_buf_done b ?u) ({#} + mset bs)"
    by (rule moves_add) (rule 1)
  then show ?case using moves_trans [OF _ Cons.IH] by fastforce
qed simp

lemma interlaced_keeps: "keeps s (interlaced_done ops p resp s)"
proof -
  define s1 where "s1 = (if sy_short_packet_source s = IPU_ISYS_SHORT_PACKET_FROM_TUNIT
                then ipu_isys_queue_short_packet_ready ops p resp s else s)"
  have q: "keeps s s1"
    by (simp add: s1_def quiet_moves [OF short_packet_ready_quiet])
  have "keeps s1 (finish_fields f (sy_list s1 (Pending_interlaced p)) (put_list (Pending_interlaced p) [] s1))" for f
    by (rule moves_trans [OF put_list_moves finish_fields_moves]) simp_all
  moreover have "keeps s1 (s1\<lparr>sy_wild := True\<rparr>)" by (rule quiet_moves) (simp add: quiet_def)
  ultimately show ?thesis
    using moves_trans [OF q] by (simp add: interlaced_done_def s1_def [symmetric] Let_def)
qed

lemma csi2_capture_done_keeps: "keeps s (csi2_capture_done ops p s)"
proof -
  let ?l = "Short_packet_active p"
  define s1 where "s1 = (if ip_interlaced (sy_ip s p) \<and>
      sy_short_packet_source s = IPU_ISYS_SHORT_PACKET_FROM_RECEIVER \<and> sy_list s ?l \<noteq> []
    then list_add (last (sy_list s ?l)) (Short_packet_incoming p) (put_list ?l (butlast (sy_list s ?l)) s) else s)"
  have "keeps s s1"
  proof (rule movesI)
    assume reg: "regular s"
    show "keeps s s1"
    proof (cases "sy_list s ?l = []")
      case False
      then have "placed (kind_of s (last (sy_list s ?l))) ?l"
        using reg last_in_set by (auto simp: regular_def well_placed_def)
      then have "moves (put_list ?l (butlast (sy_list s ?l)) s) {#last (sy_list s ?l)#}
         (list_add (last (sy_list s ?l)) (Short_packet_incoming p) (put_list ?l (butlast (sy_list s ?l)) s)) {#}"
        by (intro list_add_moves) (simp add: placed_def)
      then show ?thesis using moves_trans [OF butlast_moves [OF False]] by (simp add: s1_def)
    qed (simp add: s1_def)
  qed
  then show ?thesis
    using moves_trans [OF _ quiet_moves [OF csi2_error_quiet]]
    by (auto simp: csi2_capture_done_def s1_def [symmetric] Let_def split: option.splits)
qed

lemma isa_take_keeps:
  assumes "sy_list s (Active q) \<noteq> []"
  shows "keeps s (isa_take_last ops q info s)"
proof -
  note 1 = moves_trans [OF butlast_moves [OF assms] quiet_moves [OF sequence_time_quiet]]
  show ?thesis unfolding isa_take_last_def Let_def by (rule moves_trans [OF 1 buf_done_moves])
qed

lemma isa_capture_done_keeps: "keeps s (isa_capture_done ops info s)"
  by (simp add: isa_capture_done_def Let_def isa_take_keeps moves_trans [OF isa_take_keeps isa_take_keeps])

lemma capture_done_keeps: "keeps s (resp_capture_done ops p resp s)"
proof -
  have f: "keeps s0 (fold (run_capture_done ops p resp) fs s0)" for s0 :: "'a isys" and fs
    by (rule fold_keeps)
      (simp add: run_capture_done_def csi2_capture_done_keeps isa_capture_done_keeps split: capture_done.split)
  show ?thesis
    by (simp add: resp_capture_done_def Let_def f moves_trans [OF interlaced_keeps f])
qed

lemma complete_stream_quiet: "quiet s (complete_stream p c s)"
  by (simp add: complete_stream_def quiet_def)

lemma response_keeps: "keeps s (isys_response ops p resp s)"
proof -
  have q: "keeps s (complete_stream p c s)" "keeps s (complete_stream p c (ipu_put_fw_mgs_buffer m s))" for c m
    using complete_stream_quiet put_msg_quiet quiet_trans by (blast intro: quiet_moves)+
  have "keeps s (resp_frame_sof p resp s)"
    by (rule quiet_moves) (simp add: resp_frame_sof_def quiet_def)
  then show ?thesis
    by (simp add: isys_response_def Let_def q pin_ready_keeps capture_done_keeps)
qed

lemma isr_one_keeps: "keeps s (snd (isys_isr_one ops s))"
proof -
  obtain r s1 where g: "ipu_fw_isys_get_resp ops s = (r, s1)" by fastforce
  then have q: "quiet s s1" by (auto simp: ipu_fw_isys_get_resp_def split_beta quiet_def)
  have "keeps s (isys_response ops p resp (upd_ip p f s1))" for p resp f
    by (rule moves_trans [OF quiet_moves response_keeps]) (use q in \<open>simp add: quiet_def\<close>)
  then show ?thesis
    using quiet_moves [OF q] by (simp add: isys_isr_one_def g Let_def split: option.splits)
qed

lemma interrupts_keep: "keeps s (interrupts ops s)"
proof -
  obtain evs w where e: "w_irqs ops (sy_world s) = (evs, w)" by fastforce
  have "keeps s0 (isys_irq ops i s0)" for i and s0 :: "'a isys"
    by (simp add: isys_irq_def isr_one_keeps quiet_moves csi2_isr_quiet split: isys_irq.split)
  then have "keeps (s\<lparr>sy_world := w\<rparr>) (fold (isys_irq ops) evs (s\<lparr>sy_world := w\<rparr>))" by (rule fold_keeps)
  moreover have "keeps s (s\<lparr>sy_world := w\<rparr>)" by (rule quiet_moves) (simp add: quiet_def)
  ultimately show ?thesis using moves_trans by (auto simp: interrupts_def e)
qed

section \<open>Rewriting with kept censuses\<close>

lemma keeps_regular: "keeps s s' \<Longrightarrow> regular s \<Longrightarrow> regular s'" by (simp add: moves_def)
lemma keeps_kind: "keeps s s' \<Longrightarrow> regular s \<Longrightarrow> kind_of s' = kind_of s" by (simp add: moves_def)
lemma keeps_accounted: "keeps s s' \<Longrightarrow> regular s \<Longrightarrow> accounted s' = accounted s" by (simp add: moves_def)

lemma keepsI:
  "(regular s \<Longrightarrow> regular s' \<and> kind_of s' = kind_of s \<and> accounted s' = accounted s) \<Longrightarrow> keeps s s'"
  by (simp add: moves_def)

lemma regular_frame [simp]:
  "regular (upd_ip p f s) = regular s" "regular (upd_csi2 c g s) = regular s"
  "regular (upd_av p h s) = regular s" "regular (upd_aq p k s) = regular s"
  "regular (s\<lparr>sy_world := w\<rparr>) = regular s" "regular (s\<lparr>sy_wild := x\<rparr>) = regular s"
  "regular (s\<lparr>sy_sent := t\<rparr>) = regular s" "regular (s\<lparr>sy_sensor := u\<rparr>) = regular s"
  "regular (s\<lparr>sy_pipes := v\<rparr>) = regular s" "regular (s\<lparr>sy_stream_opened := n\<rparr>) = regular s"
  "regular (s\<lparr>sy_reset_needed := x\<rparr>) = regular s" "regular (s\<lparr>sy_sd_pipe := pp\<rparr>) = regular s"
  "regular (s\<lparr>sy_short_bufs := sb\<rparr>) = regular s"
  by (auto simp: regular_def well_placed_def)

lemma accounted_frame [simp]:
  "accounted (upd_ip p f s) = accounted s" "accounted (upd_csi2 c g s) = accounted s"
  "accounted (upd_av p h s) = accounted s" "accounted (upd_aq p k s) = accounted s"
  "accounted (s\<lparr>sy_world := w\<rparr>) = accounted s" "accounted (s\<lparr>sy_wild := x\<rparr>) = accounted s"
  "accounted (s\<lparr>sy_sent := t\<rparr>) = accounted s" "accounted (s\<lparr>sy_sensor := u\<rparr>) = accounted s"
  "accounted (s\<lparr>sy_pipes := v\<rparr>) = accounted s" "accounted (s\<lparr>sy_stream_opened := n\<rparr>) = accounted s"
  "accounted (s\<lparr>sy_reset_needed := x\<rparr>) = accounted s" "accounted (s\<lparr>sy_sd_pipe := pp\<rparr>) = accounted s"
  "accounted (s\<lparr>sy_short_bufs := sb\<rparr>) = accounted s"
  by (simp_all add: accounted_def)

lemma readl_census [simp]:
  "regular (snd (isys_readl ops r s)) = regular s" "accounted (snd (isys_readl ops r s)) = accounted s"
  "regular (isys_writel ops v r s) = regular s" "accounted (isys_writel ops v r s) = accounted s"
  by (simp_all add: isys_readl_def isys_writel_def split_beta)

lemma quiet_regular: "quiet s s' \<Longrightarrow> regular s' = regular s"
  by (auto simp: quiet_def regular_def well_placed_def)
lemma quiet_kind: "quiet s s' \<Longrightarrow> kind_of s' = kind_of s" by (simp add: quiet_def)
lemma quiet_accounted: "quiet s s' \<Longrightarrow> accounted s' = accounted s" by (simp add: quiet_def accounted_def)

lemmas interrupts_census [simp] =
  interrupts_keep [THEN keeps_regular] interrupts_keep [THEN keeps_kind] interrupts_keep [THEN keeps_accounted]
lemmas get_msg_census [simp] =
  get_msg_quiet [THEN quiet_regular] get_msg_quiet [THEN quiet_kind] get_msg_quiet [THEN quiet_accounted]
lemmas put_msg_census [simp] =
  put_msg_quiet [THEN quiet_regular] put_msg_quiet [THEN quiet_kind] put_msg_quiet [THEN quiet_accounted]
lemmas csi2_error_census [simp] =
  csi2_error_quiet [THEN quiet_regular] csi2_error_quiet [THEN quiet_kind] csi2_error_quiet [THEN quiet_accounted]
lemmas reset_errors_census [simp] =
  reset_errors_quiet [THEN quiet_regular] reset_errors_quiet [THEN quiet_kind] reset_errors_quiet [THEN quiet_accounted]

section \<open>Streams\<close>

lemma fw_cmd_keeps: "keeps s (snd (fw_cmd ops p c s))"
  by (rule keepsI) (simp add: fw_cmd_def split_beta Let_def)

lemma wait_keeps: "keeps s (snd (wait_completion ops p c s))"
  by (rule keepsI) (simp add: wait_completion_def Let_def)

lemmas fw_cmd_census [simp] =
  fw_cmd_keeps [THEN keeps_regular] fw_cmd_keeps [THEN keeps_kind] fw_cmd_keeps [THEN keeps_accounted]
lemmas wait_census [simp] =
  wait_keeps [THEN keeps_regular] wait_keeps [THEN keeps_kind] wait_keeps [THEN keeps_accounted]

lemma small_census [simp]:
  "regular (reinit_completion p c s) = regular s" "accounted (reinit_completion p c s) = accounted s"
  "kind_of (reinit_completion p c s) = kind_of s"
  "regular (put_stream_handle p s) = regular s" "accounted (put_stream_handle p s) = accounted s"
  "kind_of (put_stream_handle p s) = kind_of s"
  "regular (put_stream_opened s) = regular s" "accounted (put_stream_opened s) = accounted s"
  "kind_of (put_stream_opened s) = kind_of s"
  "regular (get_stream_opened s) = regular s" "accounted (get_stream_opened s) = accounted s"
  "kind_of (get_stream_opened s) = kind_of s"
  "regular (mark_stream_reset_needed s) = regular s" "accounted (mark_stream_reset_needed s) = accounted s"
  "kind_of (mark_stream_reset_needed s) = kind_of s"
  by (simp_all add: reinit_completion_def put_stream_handle_def put_stream_opened_def
      get_stream_opened_def mark_stream_reset_needed_def)

lemma get_handle_census [simp]:
  "regular (snd (get_stream_handle p s)) = regular s" "accounted (snd (get_stream_handle p s)) = accounted s"
  "kind_of (snd (get_stream_handle p s)) = kind_of s"
  by (simp_all add: get_stream_handle_def split: option.split)

lemma sensor_census [simp]:
  "regular (snd (sensor_s_stream ops p on s)) = regular s"
  "accounted (snd (sensor_s_stream ops p on s)) = accounted s"
  "kind_of (snd (sensor_s_stream ops p on s)) = kind_of s"
  by (simp_all add: sensor_s_stream_def split_beta split: option.split)

lemma csi2_error_of_census [simp]:
  "regular (csi2_error_of ops p s) = regular s" "accounted (csi2_error_of ops p s) = accounted s"
  "kind_of (csi2_error_of ops p s) = kind_of s"
  by (simp_all add: csi2_error_of_def split: option.split)

lemma abort_keeps: "keeps s (abort_stream ops p s)"
  by (rule keepsI) (simp add: abort_stream_def split_beta Let_def)

lemmas abort_census [simp] =
  abort_keeps [THEN keeps_regular] abort_keeps [THEN keeps_kind] abort_keeps [THEN keeps_accounted]

lemma await_start_keeps: "keeps s (snd (await_start ops p r s))"
  by (rule keepsI) (simp add: await_start_def split_beta Let_def)

lemmas await_start_census [simp] =
  await_start_keeps [THEN keeps_regular] await_start_keeps [THEN keeps_kind] await_start_keeps [THEN keeps_accounted]

lemma start_with_set_keeps: "keeps s (snd (start_with_set ops p msg fs s))"
  by (rule keepsI) (simp add: start_with_set_def split_beta Let_def)

lemma stop_firmware_keeps: "keeps s (snd (stop_streaming_firmware ops p s))"
  by (rule keepsI) (simp add: stop_streaming_firmware_def split_beta Let_def)

lemma release_census [simp]:
  "regular (release_streaming_firmware p s) = regular s" "accounted (release_streaming_firmware p s) = accounted s"
  "kind_of (release_streaming_firmware p s) = kind_of s"
  by (simp_all add: release_streaming_firmware_def)

lemma close_firmware_keeps: "keeps s (snd (close_streaming_firmware ops p s))"
  by (rule keepsI) (simp add: close_streaming_firmware_def split_beta Let_def)

lemmas firmware_census [simp] =
  start_with_set_keeps [THEN keeps_regular] start_with_set_keeps [THEN keeps_kind]
  start_with_set_keeps [THEN keeps_accounted]
  stop_firmware_keeps [THEN keeps_regular] stop_firmware_keeps [THEN keeps_kind]
  stop_firmware_keeps [THEN keeps_accounted]
  close_firmware_keeps [THEN keeps_regular] close_firmware_keeps [THEN keeps_kind]
  close_firmware_keeps [THEN keeps_accounted]

lemma prepare_cfg_census [simp]:
  "regular (snd (ipu_isys_prepare_firmware_stream_cfg_default p v cs)) = regular (snd cs)"
  "accounted (snd (ipu_isys_prepare_firmware_stream_cfg_default p v cs)) = accounted (snd cs)"
  "kind_of (snd (ipu_isys_prepare_firmware_stream_cfg_default p v cs)) = kind_of (snd cs)"
  "regular (snd (csi_short_packet_prepare_firmware_stream_cfg p cs)) = regular (snd cs)"
  "accounted (snd (csi_short_packet_prepare_firmware_stream_cfg p cs)) = accounted (snd cs)"
  "kind_of (snd (csi_short_packet_prepare_firmware_stream_cfg p cs)) = kind_of (snd cs)"
  by (simp_all add: ipu_isys_prepare_firmware_stream_cfg_default_def
      csi_short_packet_prepare_firmware_stream_cfg_def split_beta Let_def)

lemma prepare_cfgs_census [simp]:
  "regular (snd (fold (ipu_isys_prepare_firmware_stream_cfg_default p) vs cs)) = regular (snd cs)"
  "accounted (snd (fold (ipu_isys_prepare_firmware_stream_cfg_default p) vs cs)) = accounted (snd cs)"
  "kind_of (snd (fold (ipu_isys_prepare_firmware_stream_cfg_default p) vs cs)) = kind_of (snd cs)"
  by (induction vs arbitrary: cs) simp_all

lemma isl_first_census [simp]:
  "regular (isl_first p s) = regular s" "accounted (isl_first p s) = accounted s"
  "kind_of (isl_first p s) = kind_of s"
  by (simp_all add: isl_first_def Let_def split: option.split isl_mode.split)

lemma build_cfg_census [simp]:
  "regular (snd (build_stream_cfg ops p v f s)) = regular s"
  "accounted (snd (build_stream_cfg ops p v f s)) = accounted s"
  "kind_of (snd (build_stream_cfg ops p v f s)) = kind_of s"
  by (simp_all add: build_stream_cfg_def split_beta Let_def)

lemma set_params_census [simp]:
  "regular (snd (ipu_fw_isys_set_params cfg s)) = regular s"
  "accounted (snd (ipu_fw_isys_set_params cfg s)) = accounted s"
  "kind_of (snd (ipu_fw_isys_set_params cfg s)) = kind_of s"
  by (simp_all add: ipu_fw_isys_set_params_def)

end
