(* ===== verification/IsysConserve.thy ===== *)
theory IsysConserve
  imports IsysCensus
begin

text \<open>
  The buffers of the imaging system are conserved, part two: starting and stopping streams, submitting and
  verifying, building a pipeline, queueing a buffer, starting and stopping a queue.

  \<open>hand\<close> are the buffers of the list a start takes along.  A pipeline is \<open>progressive\<close> when no link of
  the graph carries alternating fields; then no short packet buffers are allocated.
\<close>

section \<open>Starting a stream with buffers in hand\<close>

definition hand :: "start_list \<Rightarrow> buf multiset" where
  "hand bl = (case bl of None \<Rightarrow> {#} | Some l \<Rightarrow> mset (bl_head l))"

definition hand_ok :: "start_list \<Rightarrow> bool" where
  "hand_ok bl = (case bl of None \<Rightarrow> True | Some l \<Rightarrow> counted l)"

lemma hand_simps [simp]: "hand None = {#}" "hand (Some l) = mset (bl_head l)"
  "hand_ok None" "hand_ok (Some l) = counted l"
  by (simp_all add: hand_def hand_ok_def)

lemma movesE:
  "moves s M s' N \<Longrightarrow> regular s \<Longrightarrow> regular s' \<and> kind_of s' = kind_of s \<and> accounted s' + N = accounted s + M"
  by (simp add: moves_def)

lemma no_requests:
  assumes "regular s"
  shows "ipu_isys_next_queued_request p s = (None, s)" "ipu_isys_find_queued_request p s = None"
  using assms by (simp_all add: regular_def ipu_isys_next_queued_request_def ipu_isys_find_queued_request_def)

lemma queue_active_moves:
  "moves s (mset (bl_head l)) (snd (ipu_isys_buffer_list_queue l IPU_ISYS_BUFFER_LIST_FL_ACTIVE st s)) {#}"
  by (rule buffer_list_queue_moves) simp

lemma queue_list_empty [simp]:
  "bl_head (fst (ipu_isys_buffer_list_queue l f st s)) = []"
  "counted l \<Longrightarrow> counted (fst (ipu_isys_buffer_list_queue l f st s))"
  by (simp_all add: ipu_isys_buffer_list_queue_def counted_def)

lemma start_opened_none:
  assumes "regular s" and "start_opened ops p None s = (r, bl', s')"
  shows "bl' = None \<and> regular s' \<and> kind_of s' = kind_of s \<and> accounted s' = accounted s"
proof -
  obtain x s2 where c: "fw_cmd ops p STREAM_START (reinit_completion p Stream_start s) = (x, s2)" by fastforce
  have k: "keeps s s2"
    by (rule keepsI) (use fw_cmd_keeps [of "reinit_completion p Stream_start s" ops p STREAM_START]
      in \<open>simp add: c moves_def\<close>)
  obtain r' s3 where a: "await_start ops p x s2 = (r', s3)" by fastforce
  have "keeps s2 s3" using await_start_keeps [of s2 ops p x] by (simp add: a)
  have "bl' = None" "s' = s3"
    using assms(2) [unfolded start_opened_def no_requests(1) [OF assms(1)] prod.case option.case c a Let_def]
    by simp_all
  then show ?thesis using movesE [OF moves_trans [OF k \<open>keeps s2 s3\<close>] assms(1)] by simp
qed

lemma start_opened_some:
  assumes "regular s" and "start_opened ops p (Some l) s = (r, bl', s')" and "counted l"
  shows "regular s' \<and> kind_of s' = kind_of s \<and> accounted s' + hand bl' = accounted s + mset (bl_head l) \<and>
         hand_ok bl' \<and> (r = 0 \<longrightarrow> hand bl' = {#})"
proof -
  obtain m s2 where g: "ipu_get_fw_msg_buf ops s = (m, s2)" by fastforce
  have r2: "regular s2" "kind_of s2 = kind_of s" "accounted s2 = accounted s"
    using assms(1) get_msg_census [where s = s and ops = ops] by (simp_all add: g)
  obtain l' s3 where q: "ipu_isys_buffer_list_queue l IPU_ISYS_BUFFER_LIST_FL_ACTIVE VB2_BUF_STATE_QUEUED s2 = (l', s3)"
    by fastforce
  have r3: "regular s3" "kind_of s3 = kind_of s2" "accounted s3 = accounted s2 + mset (bl_head l)"
    using movesE [OF queue_active_moves [of s2 l VB2_BUF_STATE_QUEUED] r2(1)] by (simp_all add: q)
  have l': "bl_head l' = []" "counted l'"
    using q assms(3) by (auto simp: ipu_isys_buffer_list_queue_def counted_def)
  note run = assms(2) [unfolded start_opened_def no_requests(1) [OF assms(1)] prod.case option.case g]
  show ?thesis
  proof (cases m)
    case None
    then have "bl' = Some l" "s' = abort_stream ops p s2" "r = E_NOMEM" using run by simp_all
    then show ?thesis using r2 assms(3) by (simp add: E_NOMEM_def)
  next
    case (Some msg)
    then have "bl' = Some l' \<and> (\<exists>fs. s' = snd (start_with_set ops p msg fs s3))"
      using run by (auto simp: q split_beta Let_def)
    then show ?thesis using r2 r3 l' by auto
  qed
qed

lemma start_opened_moves:
  assumes "start_opened ops p bl s = (r, bl', s')" and "hand_ok bl"
  shows "moves s (hand bl) s' (hand bl') \<and> (regular s \<longrightarrow> hand_ok bl' \<and> (r = 0 \<longrightarrow> hand bl' = {#}))"
proof (cases bl)
  case None
  then show ?thesis
    using start_opened_none [of s ops p r bl' s'] assms(1) by (simp add: moves_def)
next
  case (Some l)
  then show ?thesis
    using start_opened_some [of s ops p l r bl' s'] assms by (simp add: moves_def)
qed

lemma start_firmware_moves:
  assumes "start_stream_firmware ops p v bl s = (r, bl', s')" and "hand_ok bl"
  shows "moves s (hand bl) s' (hand bl') \<and> (regular s \<longrightarrow> hand_ok bl' \<and> (r = 0 \<longrightarrow> hand bl' = {#}))"
proof -
  obtain e f' w where f: "w_external_format ops p (sy_world s) = ((e, f'), w)" by (metis surj_pair)
  define s1 where "s1 = s\<lparr>sy_world := w\<rparr>"
  have s1: "moves s M s1 M" for M unfolding s1_def by (rule quiet_moves) (simp add: quiet_def)
  show ?thesis
  proof (cases "e = 0")
    case False
    then show ?thesis using assms s1 by (auto simp: start_stream_firmware_def f s1_def)
  next
    case e0: True
    obtain m s2 where g: "ipu_get_fw_msg_buf ops s1 = (m, s2)" by fastforce
    have s2: "moves s M s2 M" for M
      using moves_trans [OF s1 quiet_moves [OF get_msg_quiet [of s1 ops]]] by (simp add: g)
    show ?thesis
    proof (cases m)
      case None
      then show ?thesis using assms s2 g by (auto simp: start_stream_firmware_def f s1_def e0 E_NOMEM_def)
    next
      case (Some msg)
      obtain cfg s3 where c: "build_stream_cfg ops p v f' s2 = (cfg, s3)" by fastforce
      obtain h s4 where h: "get_stream_handle p s3 = (h, s4)" by fastforce
      have s4: "keeps s2 s4"
        by (rule keepsI) (use build_cfg_census [of ops p v f' s2] get_handle_census [of p s3] in \<open>simp add: c h\<close>)
      obtain cfg' s5 where p: "ipu_fw_isys_set_params cfg (reinit_completion p Stream_open s4) = (cfg', s5)"
        by fastforce
      obtain rr s6 where cmd: "fw_cmd ops p (STREAM_OPEN cfg') s5 = (rr, s6)" by fastforce
      define s7 where "s7 = ipu_put_fw_mgs_buffer msg s6"
      obtain ok s8 where w8: "wait_completion ops p Stream_open (get_stream_opened s7) = (ok, s8)" by fastforce
      have k5: "keeps s4 s5"
        by (rule keepsI) (use set_params_census [of cfg "reinit_completion p Stream_open s4"] in \<open>simp add: p\<close>)
      have k7: "keeps s5 s7"
        by (rule keepsI) (use fw_cmd_census [of s5 ops p "STREAM_OPEN cfg'"] in \<open>simp add: cmd s7_def\<close>)
      have k8: "keeps s7 s8"
        by (rule keepsI) (use wait_census [of "get_stream_opened s7" ops p Stream_open] in \<open>simp add: w8\<close>)
      note m4 = moves_trans [OF s2 keeps_moves [OF s4]]
      note m7 = moves_trans [OF m4 keeps_moves [OF moves_trans [OF k5 k7]]]
      note m8 = moves_trans [OF m7 keeps_moves [OF k8]]
      have cl: "keeps x (put_stream_handle p x)" "keeps x (put_stream_handle p (put_stream_opened x))" for x :: "'a isys"
        by (rule keepsI; simp)+
      note run = assms(1) [unfolded start_stream_firmware_def f s1_def [symmetric] Let_def prod.case
        g Some option.case c h p cmd s7_def [symmetric] w8]
      show ?thesis
      proof (cases "h \<noteq> 0")
        case True
        then show ?thesis using run e0 assms(2) m4 by auto
      next
        case h0: False
        show ?thesis
        proof (cases "rr < 0")
          case True
          then show ?thesis using run e0 h0 assms(2) moves_trans [OF m7 keeps_moves [OF cl(1)]] by auto
        next
          case rr: False
          show ?thesis
          proof (cases "\<not> ok \<or> ip_error (sy_ip s8 p) \<noteq> 0")
            case True
            then show ?thesis
              using run e0 h0 rr assms(2) moves_trans [OF m8 keeps_moves [OF cl(2)]] by (auto simp: E_TIMEDOUT_def E_IO_def split: if_splits)
          next
            case False
            then have "start_opened ops p bl s8 = (r, bl', s')" using run e0 h0 rr by simp
            then show ?thesis
              using start_opened_moves [OF _ assms(2)] moves_trans [OF m8] movesE [OF m8] by blast
          qed
        qed
      qed
    qed
  qed
qed

section \<open>Receivers and sensors\<close>

lemma writes_census [simp]:
  "regular (writes ops ws s) = regular s" "accounted (writes ops ws s) = accounted s"
  "kind_of (writes ops ws s) = kind_of s"
  unfolding writes_def by (induction ws arbitrary: s; simp add: split_beta)+

lemma hw_census [simp]:
  "regular (csi2_hw_disable ops c s) = regular s" "accounted (csi2_hw_disable ops c s) = accounted s"
  "kind_of (csi2_hw_disable ops c s) = kind_of s"
  by (simp_all add: csi2_hw_disable_def split_beta Let_def)

lemma bb8_census [simp]:
  "regular (ipu4p_csi2_init_source6_bb8 ops c s) = regular s"
  "accounted (ipu4p_csi2_init_source6_bb8 ops c s) = accounted s"
  "kind_of (ipu4p_csi2_init_source6_bb8 ops c s) = kind_of s"
  by (simp_all add: ipu4p_csi2_init_source6_bb8_def split_beta Let_def)

lemma quirk_census [simp]:
  "regular (snd (ipu4p_csi2_apply_source7_mipi_timing ops c s)) = regular s"
  "accounted (snd (ipu4p_csi2_apply_source7_mipi_timing ops c s)) = accounted s"
  "kind_of (snd (ipu4p_csi2_apply_source7_mipi_timing ops c s)) = kind_of s"
  unfolding ipu4p_csi2_apply_source7_mipi_timing_def Let_def by (auto split: option.split)

lemma hw_enable_census [simp]:
  "regular (csi2_hw_enable ops c t n s) = regular s" "accounted (csi2_hw_enable ops c t n s) = accounted s"
  "kind_of (csi2_hw_enable ops c t n s) = kind_of s"
  unfolding csi2_hw_enable_def Let_def split_beta by simp_all

lemma set_stream_census [simp]:
  "regular (snd (csi2_set_stream ops p c e s)) = regular s"
  "accounted (snd (csi2_set_stream ops p c e s)) = accounted s"
  "kind_of (snd (csi2_set_stream ops p c e s)) = kind_of s"
  by (simp_all add: csi2_set_stream_def csi2_start_receiver_def Let_def split: option.split sum.split)

lemma streams_census [simp]:
  "regular (stop_started ops p c n s) = regular s" "accounted (stop_started ops p c n s) = accounted s"
  "kind_of (stop_started ops p c n s) = kind_of s"
  "regular (snd (start_streams ops p c n k s)) = regular s"
  "accounted (snd (start_streams ops p c n k s)) = accounted s"
  "kind_of (snd (start_streams ops p c n k s)) = kind_of s"
  "regular (snd (stop_streams ops p c n s)) = regular s"
  "accounted (snd (stop_streams ops p c n s)) = accounted s"
  "kind_of (snd (stop_streams ops p c n s)) = kind_of s"
proof -
  show a: "regular (stop_started ops p c n s) = regular s" "accounted (stop_started ops p c n s) = accounted s"
    "kind_of (stop_started ops p c n s) = kind_of s" for s n
    by (induction n arbitrary: s) simp_all
  show "regular (snd (start_streams ops p c n k s)) = regular s"
    "accounted (snd (start_streams ops p c n k s)) = accounted s"
    "kind_of (snd (start_streams ops p c n k s)) = kind_of s"
    by (induction n arbitrary: k s; simp add: split_beta Let_def a)+
  show "regular (snd (stop_streams ops p c n s)) = regular s"
    "accounted (snd (stop_streams ops p c n s)) = accounted s"
    "kind_of (snd (stop_streams ops p c n s)) = kind_of s"
    by (induction n arbitrary: s; simp add: split_beta Let_def)+
qed

lemma subdev_stream_census [simp]:
  "regular (snd (ipu_isys_video_subdev_stream ops p v sd e s)) = regular s"
  "accounted (snd (ipu_isys_video_subdev_stream ops p v sd e s)) = accounted s"
  "kind_of (snd (ipu_isys_video_subdev_stream ops p v sd e s)) = kind_of s"
  by (simp_all add: ipu_isys_video_subdev_stream_def v4l2_subdev_streams_def csi2_switch_streams_def
      split_beta Let_def split: sum.split)

lemma start_subdevs_census [simp]:
  "regular (snd (snd (start_subdevs ops p v sds st s))) = regular s"
  "accounted (snd (snd (start_subdevs ops p v sds st s))) = accounted s"
  "kind_of (snd (snd (start_subdevs ops p v sds st s))) = kind_of s"
  by (induction sds arbitrary: st s; simp add: split_beta Let_def)+

lemma stop_subdevs_census [simp]:
  "regular (snd (stop_subdevs ops p v sds er s)) = regular s"
  "accounted (snd (stop_subdevs ops p v sds er s)) = accounted s"
  "kind_of (snd (stop_subdevs ops p v sds er s)) = kind_of s"
  by (induction sds arbitrary: er s; simp add: split_beta Let_def)+

lemma wait_eof_keeps: "keeps s (ipu_isys_csi2_wait_last_eof ops c s)"
  unfolding ipu_isys_csi2_wait_last_eof_def
  by (rule fold_keeps) (rule keepsI, simp add: wait_one_eof_def Let_def)

lemmas wait_eof_census [simp] =
  wait_eof_keeps [THEN keeps_regular] wait_eof_keeps [THEN keeps_kind] wait_eof_keeps [THEN keeps_accounted]

lemma stop_sensor_keeps: "keeps s (snd (stop_external_sensor ops p s))"
  by (rule keepsI) (simp add: stop_external_sensor_def Let_def split_beta split: option.split)

lemmas stop_sensor_census [simp] =
  stop_sensor_keeps [THEN keeps_regular] stop_sensor_keeps [THEN keeps_kind] stop_sensor_keeps [THEN keeps_accounted]

lemma skew_keeps: "keeps s (snd (perform_skew_cal ops p c s))"
  by (rule keepsI) (simp add: perform_skew_cal_def ipu_isys_csi2_set_skew_cal_def Let_def split_beta)

lemma unwind_keeps: "keeps s (unwind_streaming ops p v b st s)"
  by (rule keepsI) (simp add: unwind_streaming_def Let_def)

lemmas unwind_census [simp] =
  unwind_keeps [THEN keeps_regular] unwind_keeps [THEN keeps_kind] unwind_keeps [THEN keeps_accounted]

lemma unwind_firmware_keeps: "keeps s (unwind_firmware ops p v b st s)"
  by (rule keepsI) (simp add: unwind_firmware_def Let_def split_beta)

lemma start_sensor_keeps: "keeps s (snd (snd (start_sensor ops p s)))"
  by (rule keepsI) (simp add: start_sensor_def Let_def split_beta split: option.split)

lemma streaming_off_keeps: "keeps s (snd (streaming_off ops p v s))"
  by (rule keepsI) (simp add: streaming_off_def Let_def split_beta)

lemma streaming_on_moves:
  assumes "streaming_on ops p v bl s = (r, bl', s')" and "hand_ok bl"
  shows "moves s (hand bl) s' (hand bl') \<and> (regular s \<longrightarrow> hand_ok bl' \<and> (r = 0 \<longrightarrow> hand bl' = {#}))"
proof -
  obtain r1 st s1 where a: "start_subdevs ops p v (own_subdevs ops p v s) [] s = (r1, st, s1)"
    by (metis prod_cases3)
  have k1: "keeps s s1"
    by (rule keepsI) (use start_subdevs_census [of ops p v "own_subdevs ops p v s" "[]" s] in \<open>simp add: a\<close>)
  define s2 where "s2 = (case ip_csi2 (sy_ip s1 p) of None \<Rightarrow> s1
     | Some c \<Rightarrow> if ipu_isys_csi2_skew_cal_required ops (Some c) s1 then snd (perform_skew_cal ops p c s1) else s1)"
  have k2: "keeps s1 s2" by (auto simp: s2_def skew_keeps split: option.split)
  obtain r2 bl2 s3 where b: "start_stream_firmware ops p v bl s2 = (r2, bl2, s3)" by (metis prod_cases3)
  obtain r3 se s4 where c: "start_sensor ops p s3 = (r3, se, s4)" by (metis prod_cases3)
  have k4: "keeps s3 s4" using start_sensor_keeps [of s3 ops p] by (simp add: c)
  have ko: "keeps s4 (upd_av v f s4)" for f by (rule quiet_moves) (simp add: quiet_def)
  note B = start_firmware_moves [OF b assms(2)]
  note m1 = keeps_moves [OF k1]
  note m3 = moves_trans [OF moves_trans [OF m1 keeps_moves [OF k2]] conjunct1 [OF B]]
  note m4 = moves_trans [OF m3 keeps_moves [OF k4]]
  have reg: "regular s \<Longrightarrow> regular s2" using movesE [OF moves_trans [OF m1 keeps_moves [OF k2]]] by blast
  note run = assms(1) [unfolded streaming_on_def a Let_def prod.case s2_def [symmetric] b c]
  show ?thesis
    using run assms(2) B reg moves_trans [OF m1 keeps_moves [OF unwind_keeps [of s1 ops p v False st]]]
      moves_trans [OF m3 keeps_moves [OF unwind_keeps [of s3 ops p v False st]]]
      moves_trans [OF m4 keeps_moves [OF unwind_firmware_keeps [of s4 ops p v se st]]]
      moves_trans [OF m4 keeps_moves [OF ko]]
    by (auto split: if_splits)
qed

lemma set_streaming_moves:
  assumes "ipu_isys_video_set_streaming ops p v state bl s = (r, bl', s')" and "hand_ok bl"
  shows "moves s (hand bl) s' (hand bl') \<and> (regular s \<longrightarrow> hand_ok bl' \<and> (r = 0 \<and> state \<longrightarrow> hand bl' = {#}))"
proof -
  obtain g w where g: "w_graph_init ops (sy_world s) = (g, w)" by fastforce
  have k: "moves s M (s\<lparr>sy_world := w\<rparr>) M" for M by (rule quiet_moves) (simp add: quiet_def)
  note u = assms(1) [unfolded ipu_isys_video_set_streaming_def g Let_def prod.case]
  show ?thesis
  proof (cases "ip_external (sy_ip s p) = None")
    case True
    then show ?thesis using u assms(2) by (auto simp: E_NODEV_def)
  next
    case e: False
    show ?thesis
    proof (cases state)
      case True
      show ?thesis
      proof (cases "g = 0")
        case True
        then have "streaming_on ops p v bl (s\<lparr>sy_world := w\<rparr>) = (r, bl', s')" using u e \<open>state\<close> by simp
        from streaming_on_moves [OF this assms(2)] show ?thesis using moves_trans [OF k] by auto
      next
        case False
        then have "s' = s\<lparr>sy_world := w\<rparr>" "bl' = bl" "r \<noteq> 0" using u e \<open>state\<close> by auto
        then show ?thesis using k assms(2) by simp
      qed
    next
      case False
      then have "s' = snd (streaming_off ops p v s)" "bl' = bl" using u e by (auto split: prod.splits)
      then show ?thesis using keeps_moves [OF streaming_off_keeps] assms(2) False by simp
    qed
  qed
qed

section \<open>Submitting\<close>

lemma submit_list_moves:
  assumes "submit_list ops p bl msg s = (r, bl', s')"
  shows "moves s (mset (bl_head bl)) s' {#} \<and> bl_head bl' = [] \<and> (counted bl \<longrightarrow> counted bl')"
proof -
  obtain l' s1 where q: "ipu_isys_buffer_list_queue bl IPU_ISYS_BUFFER_LIST_FL_ACTIVE VB2_BUF_STATE_QUEUED s = (l', s1)"
    by fastforce
  have m: "moves s (mset (bl_head bl)) s1 {#}"
    using queue_active_moves [of s bl VB2_BUF_STATE_QUEUED] by (simp add: q)
  obtain x s2 where c: "fw_cmd ops p (STREAM_CAPTURE
      (ipu_isys_buffer_list_to_ipu_fw_isys_frame_buff_set empty_frame_set p bl s)) s1 = (x, s2)" by fastforce
  have k: "keeps s1 s2" using fw_cmd_keeps by (metis c snd_conv)
  have "r = x" "bl' = l'" "s' = ipu_put_fw_mgs_buffer msg s2"
    using assms [unfolded submit_list_def Let_def q prod.case c] by simp_all
  moreover have "bl_head l' = []" "counted bl \<longrightarrow> counted l'"
    using q by (auto simp: ipu_isys_buffer_list_queue_def counted_def)
  ultimately show ?thesis
    using moves_trans [OF moves_trans [OF m k] quiet_moves [OF put_msg_quiet]] by simp
qed

lemma requeue_moves:
  "moves s (mset (bl_head bl)) (snd (ipu_isys_buffer_list_queue bl IPU_ISYS_BUFFER_LIST_FL_INCOMING st s)) {#}"
  by (rule buffer_list_queue_moves) simp

lemma refeed_round_keeps: "keeps s (snd (refeed_round ops p s))"
proof -
  obtain r bl s1 where g: "buffer_list_get ops p s = (r, bl, s1)" by (metis prod_cases3)
  note G = buffer_list_get_moves [OF g]
  obtain m s2 where f: "ipu_get_fw_msg_buf ops s1 = (m, s2)" by fastforce
  have "quiet s1 s2" using get_msg_quiet [of s1 ops] by (simp add: f)
  then have m2: "moves s {#} s2 (mset (bl_head bl))"
    using moves_trans [OF conjunct1 [OF G] quiet_moves] by blast
  show ?thesis
  proof (cases "r < 0")
    case True
    then have "r \<noteq> 0" by simp
    then show ?thesis using G True by (auto simp: refeed_round_def g)
  next
    case False
    show ?thesis
    proof (cases m)
      case None
      then show ?thesis
        using False moves_trans [OF m2 requeue_moves [of s2 bl VB2_BUF_STATE_QUEUED]]
        by (simp add: refeed_round_def g f)
    next
      case (Some msg)
      obtain r' bl' s3 where sl: "submit_list ops p bl msg s2 = (r', bl', s3)" by (metis prod_cases3)
      show ?thesis
        using False Some moves_trans [OF m2] submit_list_moves [OF sl]
        by (simp add: refeed_round_def g f sl)
    qed
  qed
qed

lemma refeed_keeps:
  assumes "stream_capture_refeed ops p s = Some (r, s')"
  shows "keeps s s'"
proof -
  have "case y of (r, s') \<Rightarrow> keeps s s'" if "stream_capture_refeed ops p s = Some y" for y
  proof (rule stream_capture_refeed.raw_induct [where P = "\<lambda>ops p s y. case y of (r, s') \<Rightarrow> keeps s s'", OF _ that])
    fix f :: "'b isys_ops \<Rightarrow> node \<Rightarrow> 'b isys \<Rightarrow> (int \<times> 'b isys) option" and ops p s y
    assume IH: "\<And>ops p s y. f ops p s = Some y \<Longrightarrow> case y of (r, s') \<Rightarrow> keeps s s'"
      and ret: "(case refeed_round ops p s of (Some r, s1) \<Rightarrow> Some (r, s1) | (None, s1) \<Rightarrow> f ops p s1) = Some y"
    obtain ro s1 where rr: "refeed_round ops p s = (ro, s1)" by fastforce
    have k: "keeps s s1" using refeed_round_keeps [of s ops p] by (simp add: rr)
    show "case y of (r, s') \<Rightarrow> keeps s s'"
    proof (cases ro)
      case None
      then have "f ops p s1 = Some y" using ret by (simp add: rr)
      then show ?thesis using IH moves_trans [OF k] by fastforce
    next
      case (Some r)
      then show ?thesis using ret k by (auto simp: rr)
    qed
  qed
  then show ?thesis using assms by fastforce
qed

lemma ticks_keep: "keeps s (verify_ticks n ops p before s)"
proof (induction n arbitrary: s)
  case (Suc n)
  show ?case
    using interrupts_keep [of s ops] moves_trans [OF interrupts_keep Suc.IH] by (simp add: Let_def)
qed simp

lemma bounce_keeps:
  assumes "bounce_sensor ops p c s = Some (r, s')"
  shows "keeps s s'"
proof -
  obtain r1 s1 where a: "sensor_s_stream ops p False s = (r1, s1)" by fastforce
  define s2 where "s2 = interrupts ops (snd (ipu_isys_csi2_error ops c s1))"
  obtain r2 s3 where b: "sensor_s_stream ops p True s2 = (r2, s3)" by fastforce
  have k1: "keeps s s1" by (rule keepsI) (use sensor_census [of ops p False s] in \<open>simp add: a\<close>)
  have k2: "keeps s1 s2" by (rule keepsI) (simp add: s2_def)
  have k3: "keeps s2 s3" by (rule keepsI) (use sensor_census [of ops p True s2] in \<open>simp add: b\<close>)
  note k = moves_trans [OF k1 k2] and k' = moves_trans [OF moves_trans [OF k1 k2] k3]
  note run = assms [unfolded bounce_sensor_def a Let_def prod.case s2_def [symmetric] b]
  show ?thesis
    using run k1 k' moves_trans [OF k' refeed_keeps] by (auto split: if_splits)
qed

lemma verify_loop_keeps:
  "verify_loop n ops p c before s = Some (r, s') \<Longrightarrow> keeps s s'"
proof (induction n arbitrary: s)
  case 0
  then show ?case using ticks_keep [of s VERIFY_TICKS ops p before]
    by (subst (asm) verify_loop.simps) (auto simp: Let_def split: if_splits)
next
  case (Suc n)
  let ?s1 = "verify_ticks VERIFY_TICKS ops p before s"
  have t: "keeps s ?s1" by (rule ticks_keep)
  show ?case
  proof (cases "frames_changed p before s \<or> frames_changed p before ?s1")
    case True
    then show ?thesis using Suc.prems t by (subst (asm) verify_loop.simps) (auto simp: Let_def split: if_splits)
  next
    case False
    then obtain x where x: "bounce_sensor ops p c ?s1 = Some x"
      "(if fst x \<noteq> 0 then Some (fst x, snd x) else verify_loop n ops p c before (snd x)) = Some (r, s')"
      using Suc.prems by (subst (asm) verify_loop.simps) (auto simp: Let_def split: option.splits if_splits)
    then have "keeps ?s1 (snd x)" using bounce_keeps [of ops p c ?s1 "fst x" "snd x"] by simp
    then show ?thesis
      using x(2) moves_trans [OF t] moves_trans [OF moves_trans [OF t] Suc.IH] by (auto split: if_splits)
  qed
qed

lemma verify_keeps:
  assumes "verify_stream_start ops p before s = Some (r, s')"
  shows "keeps s s'"
proof (cases "ip_csi2 (sy_ip s p)")
  case None
  then show ?thesis using assms by (simp add: verify_stream_start_def)
next
  case (Some c)
  show ?thesis
  proof (cases "ip_external (sy_ip s p) = None \<or> ip_interlaced (sy_ip s p) \<or> frames_changed p before s")
    case True
    then show ?thesis using assms Some by (auto simp: verify_stream_start_def)
  next
    case False
    let ?on = "upd_ip p (\<lambda>ip. ip\<lparr>ip_verify_active := True\<rparr>) s"
    obtain x s1 where v: "verify_loop VERIFY_RETRIES ops p c before ?on = Some (x, s1)"
      using assms False Some by (auto simp: verify_stream_start_def split: option.splits)
    let ?off = "upd_ip p (\<lambda>ip. ip\<lparr>ip_verify_active := False\<rparr>) s1"
    obtain y s2 where f: "stream_capture_refeed ops p ?off = Some (y, s2)" and e: "s' = s2"
      using assms False Some v by (auto simp: verify_stream_start_def split: option.splits)
    have "keeps s ?on" "keeps s1 ?off" by (rule keepsI; simp)+
    then show ?thesis
      using moves_trans verify_loop_keeps [OF v] refeed_keeps [OF f] unfolding e by blast
  qed
qed

section \<open>Starting\<close>

lemma start_requeue_moves:
  assumes "hand_ok bl"
  shows "moves s (hand bl) (start_requeue ops p err started None bl s) {#}"
proof -
  let ?st = "if err then VB2_BUF_STATE_ERROR else VB2_BUF_STATE_QUEUED"
  define s1 where "s1 = (if started then upd_ip p (\<lambda>ip. ip\<lparr>ip_streaming := False\<rparr>)
       (snd (snd (ipu_isys_video_set_streaming ops p p False None s))) else s)"
  have off: "keeps x (snd (snd (ipu_isys_video_set_streaming ops p p False None x)))" for x :: "'a isys"
  proof -
    obtain a b c where "ipu_isys_video_set_streaming ops p p False None x = (a, b, c)" by (metis prod_cases3)
    moreover from set_streaming_moves [OF this] have "moves x {#} c (hand b)" by simp
    moreover have "b = None" using calculation(1)
      by (auto simp: ipu_isys_video_set_streaming_def split: if_splits prod.splits)
    ultimately show ?thesis by simp
  qed
  have up: "keeps x (upd_ip p f x)" for x :: "'a isys" and f by (rule keepsI) simp
  have k1: "keeps s s1" by (simp add: s1_def moves_trans [OF off up])
  have body: "start_requeue ops p err started None bl s = flush_firmware_streamon_fail p ?st
     (case bl of Some l \<Rightarrow> if bl_nbufs l \<noteq> 0
        then snd (ipu_isys_buffer_list_queue l (IPU_ISYS_BUFFER_LIST_FL_INCOMING OR
               (if err then IPU_ISYS_BUFFER_LIST_FL_SET_STATE else 0)) ?st s1) else s1 | None \<Rightarrow> s1)"
    unfolding start_requeue_def Let_def s1_def by (simp only: option.case)
  show ?thesis
  proof (cases bl)
    case None
    then show ?thesis unfolding body using moves_trans [OF k1 flush_keeps] by simp
  next
    case (Some l)
    have q: "moves s1 (mset (bl_head l)) (snd (ipu_isys_buffer_list_queue l (IPU_ISYS_BUFFER_LIST_FL_INCOMING OR
               (if err then IPU_ISYS_BUFFER_LIST_FL_SET_STATE else 0)) ?st s1)) {#}"
      by (rule buffer_list_queue_moves) simp
    have z: "bl_nbufs l = 0 \<Longrightarrow> bl_head l = []" using assms Some by (simp add: counted_def)
    show ?thesis unfolding body
      using Some z moves_trans [OF moves_trans [OF keeps_moves [OF k1] q] flush_keeps]
        moves_trans [OF k1 flush_keeps] by auto
  qed
qed

lemma submit_all_moves:
  assumes "submit_all ops p s = Some (r, bl, s')"
  shows "moves s {#} s' (mset (bl_head bl)) \<and> counted bl \<and> (r = 0 \<longrightarrow> bl_head bl = [])"
proof -
  have "case y of (r, bl, s') \<Rightarrow> moves s {#} s' (mset (bl_head bl)) \<and> counted bl \<and> (r = 0 \<longrightarrow> bl_head bl = [])"
    if "submit_all ops p s = Some y" for y
  proof (rule submit_all.raw_induct [where P = "\<lambda>ops p s y. case y of (r, bl, s') \<Rightarrow>
       moves s {#} s' (mset (bl_head bl)) \<and> counted bl \<and> (r = 0 \<longrightarrow> bl_head bl = [])", OF _ that])
    fix f :: "'b isys_ops \<Rightarrow> node \<Rightarrow> 'b isys \<Rightarrow> (int \<times> isys_buffer_list \<times> 'b isys) option" and ops p s y
    assume IH: "\<And>ops p s y. f ops p s = Some y \<Longrightarrow> case y of (r, bl, s') \<Rightarrow>
         moves s {#} s' (mset (bl_head bl)) \<and> counted bl \<and> (r = 0 \<longrightarrow> bl_head bl = [])"
      and ret: "(case buffer_list_get ops p s of
        (r, bl, s1) \<Rightarrow>
          if r < 0 then Some (if r = E_NODATA then 0 else r, bl, s1)
          else (case ipu_get_fw_msg_buf ops s1 of
              (None, s2) \<Rightarrow> Some (E_NOMEM, bl, s2)
            | (Some msg, s2) \<Rightarrow>
                (case submit_list ops p bl msg s2 of
                   (r', bl', s3) \<Rightarrow> if r' \<noteq> 0 then Some (r', bl', s3) else f ops p s3))) = Some y"
    obtain r bl s1 where g: "buffer_list_get ops p s = (r, bl, s1)" by (metis prod_cases3)
    note G = buffer_list_get_moves [OF g]
    obtain m s2 where q: "ipu_get_fw_msg_buf ops s1 = (m, s2)" by fastforce
    have "quiet s1 s2" using get_msg_quiet [of s1 ops] by (simp add: q)
    then have m2: "moves s {#} s2 (mset (bl_head bl))"
      using moves_trans [OF conjunct1 [OF G] quiet_moves] by blast
    show "case y of (r, bl, s') \<Rightarrow> moves s {#} s' (mset (bl_head bl)) \<and> counted bl \<and> (r = 0 \<longrightarrow> bl_head bl = [])"
    proof (cases "r < 0 \<or> m = None")
      case True
      then have "y = (if r < 0 then (if r = E_NODATA then 0 else r, bl, s1) else (E_NOMEM, bl, s2))"
        using ret by (auto simp: g q split: if_splits option.splits)
      then show ?thesis using G m2 by (auto simp: E_NOMEM_def)
    next
      case False
      then obtain msg where m: "m = Some msg" by auto
      obtain r' bl' s3 where sl: "submit_list ops p bl msg s2 = (r', bl', s3)" by (metis prod_cases3)
      note S = submit_list_moves [OF sl]
      have m3: "keeps s s3" using moves_trans [OF m2] S by blast
      show ?thesis
      proof (cases "r' = 0")
        case True
        then have "f ops p s3 = Some y" using ret False m by (simp add: g q sl)
        then show ?thesis using IH moves_trans [OF m3] by fastforce
      next
        case r': False
        then have "y = (r', bl', s3)" using ret False m by (simp add: g q sl)
        then show ?thesis using m3 S G by simp
      qed
    qed
  qed
  then show ?thesis using assms by fastforce
qed

lemma stream_start_moves:
  assumes "ipu_isys_stream_start ops p bl err s = Some (r, s')" and "hand_ok bl"
  shows "moves s (hand bl) s' {#}"
proof (rule movesI)
  assume reg: "regular s"
  obtain r1 bl1 s1 where a: "ipu_isys_video_set_streaming ops p p True bl s = (r1, bl1, s1)"
    by (metis prod_cases3)
  have A: "moves s (hand bl) s1 (hand bl1)" "hand_ok bl1"
    using set_streaming_moves [OF a assms(2)] reg by auto
  define s2 where "s2 = upd_ip p (\<lambda>ip. ip\<lparr>ip_streaming := True\<rparr>) s1"
  have k2: "keeps s1 s2" by (rule keepsI) (simp add: s2_def)
  have reg2: "sy_requests s2 = []"
    using movesE [OF moves_trans [OF A(1) keeps_moves [OF k2]] reg] by (simp add: regular_def)
  have m2: "moves s (hand bl) s2 (hand bl1)" by (rule moves_trans [OF A(1) keeps_moves [OF k2]])
  have dsp: "dispatch_requests (length (sy_requests s2)) ops p s2 = (0, None, s2)" using reg2 by simp
  have fr: "ipu_isys_find_queued_request p s = None" using reg by (rule no_requests)
  note run = assms(1) [unfolded ipu_isys_stream_start_def Let_def a prod.case fr s2_def [symmetric]]
  show "moves s (hand bl) s' {#}"
  proof (cases "r1 \<noteq> 0")
    case True
    then have "s' = start_requeue ops p err False None bl1 s1" using run by simp
    then show ?thesis using moves_trans [OF A(1) start_requeue_moves [OF A(2)]] by simp
  next
    case r1: False
    then have run1: "(case submit_all ops p s2 of None \<Rightarrow> None
        | Some (r5, bl5, s5) \<Rightarrow>
            if r5 \<noteq> 0 then Some (r5, start_requeue ops p err True None (Some bl5) s5)
            else case verify_stream_start ops p (ip_frames_done (sy_ip s p)) s5 of None \<Rightarrow> None
              | Some (r6, s6) \<Rightarrow> if r6 \<noteq> 0 then Some (r6, start_requeue ops p err True None (Some bl5) s6)
                               else Some (0, s6)) = Some (r, s')"
      using run by (cases bl) (simp_all add: dsp)
    then obtain r5 bl5 s5 where sa: "submit_all ops p s2 = Some (r5, bl5, s5)"
      by (auto split: option.splits)
    note SA = submit_all_moves [OF sa]
    have m5: "moves s (hand bl) s5 (hand bl1 + mset (bl_head bl5))"
      using moves_trans [OF m2, of s5] moves_add [OF conjunct1 [OF SA], of "hand bl1"]
      by (simp add: add.commute)
    have h1: "hand bl1 = {#}" using set_streaming_moves [OF a assms(2)] reg r1 by simp
    have m5': "moves s (hand bl) s5 (hand (Some bl5))" using m5 h1 by simp
    have ok5: "hand_ok (Some bl5)" using SA by simp
    show ?thesis
    proof (cases "r5 \<noteq> 0")
      case True
      then have "s' = start_requeue ops p err True None (Some bl5) s5" using run1 sa by simp
      then show ?thesis using moves_trans [OF m5' start_requeue_moves [OF ok5]] by simp
    next
      case False
      then have e: "bl_head bl5 = []" using SA by simp
      obtain r6 s6 where v: "verify_stream_start ops p (ip_frames_done (sy_ip s p)) s5 = Some (r6, s6)"
        using run1 sa False by (auto split: option.splits)
      have m6: "moves s (hand bl) s6 (hand (Some bl5))"
        by (rule moves_trans [OF m5' keeps_moves [OF verify_keeps [OF v]]])
      have "s' = (if r6 \<noteq> 0 then start_requeue ops p err True None (Some bl5) s6 else s6)"
        using run1 sa False v by (auto split: if_splits)
      then show ?thesis
        using moves_trans [OF m6 start_requeue_moves [OF ok5]] m6 e by (auto split: if_splits)
    qed
  qed
qed

section \<open>Queueing\<close>

lemma take_active_moves:
  assumes "take_active p bs bl s = (bl', s')"
  shows "moves s (mset (bl_head bl)) s' (mset (bl_head bl')) \<and> (counted bl \<longrightarrow> counted bl') \<and>
         kind_of s' = kind_of s \<and>
         (\<forall>b\<in>set (bl_head bl'). b \<in> set (bl_head bl) \<or> fst (kind_of s b) = IPU_ISYS_VIDEO_BUFFER)"
  using assms
proof (induction bs arbitrary: bl s)
  case (Cons b bs)
  show ?case
  proof (cases "ib_type (sy_buf s b)")
    case IPU_ISYS_VIDEO_BUFFER
    let ?q = "ib_queue (sy_buf s b)"
    show ?thesis
    proof (cases "b \<in> set (sy_list s (Active ?q))")
      case True
      let ?s = "put_list (Active ?q) (remove1 b (sy_list s (Active ?q))) s"
      let ?bl = "\<lparr>bl_head = bl_head bl @ [b], bl_nbufs = bl_nbufs bl + 1\<rparr>"
      have r: "take_active p bs ?bl ?s = (bl', s')"
        using Cons.prems True IPU_ISYS_VIDEO_BUFFER by (simp add: Let_def)
      have "moves s (mset (bl_head bl)) ?s (mset (bl_head ?bl))"
        using moves_add [OF remove1_moves [OF True], of "mset (bl_head bl)"] by simp
      then show ?thesis
        using Cons.IH [OF r] moves_trans IPU_ISYS_VIDEO_BUFFER by (auto simp: counted_def kind_of_def)
    next
      case False
      then show ?thesis using Cons IPU_ISYS_VIDEO_BUFFER by simp
    qed
  next
    case IPU_ISYS_SHORT_PACKET_BUFFER
    show ?thesis
    proof (cases "b \<in> set (sy_list s (Short_packet_active p))")
      case True
      let ?s = "put_list (Short_packet_active p) (remove1 b (sy_list s (Short_packet_active p))) s"
      let ?t = "list_add b (Short_packet_incoming p) ?s"
      have r: "take_active p bs bl ?t = (bl', s')" using Cons.prems True IPU_ISYS_SHORT_PACKET_BUFFER by simp
      have "keeps s ?t"
      proof (rule movesI)
        assume "regular s"
        then have "placed (kind_of s b) (Short_packet_active p)"
          using True by (auto simp: regular_def well_placed_def)
        then have "moves ?s {#b#} ?t {#}" by (intro list_add_moves) (simp add: placed_def)
        then show "keeps s ?t" using moves_trans [OF remove1_moves [OF True]] by blast
      qed
      moreover have "kind_of ?t = kind_of s" by (simp add: list_add_def)
      ultimately show ?thesis
        using Cons.IH [OF r] moves_trans [OF keeps_moves] by auto
    next
      case False
      then show ?thesis using Cons IPU_ISYS_SHORT_PACKET_BUFFER by simp
    qed
  qed
qed auto

lemma active_error_keeps: "keeps s (buffer_list_active_error p bs s)"
proof -
  obtain bl s1 where t: "take_active p bs \<lparr>bl_head = [], bl_nbufs = 0\<rparr> s = (bl, s1)" by fastforce
  note T = take_active_moves [OF t]
  have "moves s1 (mset (bl_head bl)) (snd (ipu_isys_buffer_list_queue bl
      IPU_ISYS_BUFFER_LIST_FL_SET_STATE VB2_BUF_STATE_ERROR s1)) {#}"
    by (rule buffer_list_queue_moves) (use T in auto)
  moreover have "bl_nbufs bl = 0 \<Longrightarrow> bl_head bl = []" using T by (simp add: counted_def)
  ultimately show ?thesis
    using T moves_trans by (auto simp: buffer_list_active_error_def t)
qed

lemma submit_running_moves: "moves s (mset (bl_head bl)) (submit_running ops p bl s) {#}"
proof -
  obtain m s1 where g: "ipu_get_fw_msg_buf ops s = (m, s1)" by fastforce
  have "quiet s s1" using get_msg_quiet [of s ops] by (simp add: g)
  note q = quiet_moves [OF this]
  show ?thesis
  proof (cases m)
    case None
    then show ?thesis
      using moves_trans [OF q requeue_moves [of s1 bl VB2_BUF_STATE_QUEUED]] by (simp add: submit_running_def g)
  next
    case (Some msg)
    obtain r bl' s2 where sl: "submit_list ops p bl msg s1 = (r, bl', s2)" by (metis prod_cases3)
    note m2 = moves_trans [OF q conjunct1 [OF submit_list_moves [OF sl]]]
    show ?thesis
      using m2 moves_trans [OF m2 active_error_keeps] by (simp add: submit_running_def g Some sl Let_def)
  qed
qed

lemma buf_queue_moves:
  assumes "buf_queue ops b s = Some s'" and "fst (kind_of s b) = IPU_ISYS_VIDEO_BUFFER"
  shows "moves s {#b#} s' {#}"
proof -
  let ?v = "ib_queue (sy_buf s b)"
  define s1 where "s1 = list_add b (Incoming ?v) s"
  have "kind_of s b = (IPU_ISYS_VIDEO_BUFFER, ?v)" using assms(2) by (simp add: kind_of_def)
  then have m1: "moves s {#b#} s1 {#}" unfolding s1_def by (intro list_add_moves) (simp add: placed_def)
  note run = assms(1) [unfolded buf_queue_def Let_def s1_def [symmetric]]
  show ?thesis
  proof (cases "s' = s1")
    case True
    then show ?thesis using m1 by simp
  next
    case False
    then obtain p where run1: "(case buffer_list_get ops p s1 of (r, bl, s2) \<Rightarrow>
                  if r < 0 then Some s2
                  else if \<not> ip_streaming (sy_ip s2 p)
                  then map_option snd (ipu_isys_stream_start ops p (Some bl) True s2)
                  else Some (submit_running ops p bl s2)) = Some s'"
      using run by (auto split: if_splits option.splits)
    obtain r bl s2 where g: "buffer_list_get ops p s1 = (r, bl, s2)" by (metis prod_cases3)
    note G = buffer_list_get_moves [OF g]
    have m2: "moves s {#b#} s2 (mset (bl_head bl))" using moves_trans [OF m1 conjunct1 [OF G]] .
    show ?thesis
    proof (cases "r < 0")
      case True
      then show ?thesis using run1 g m2 G by auto
    next
      case r: False
      show ?thesis
      proof (cases "ip_streaming (sy_ip s2 p)")
        case True
        then have "s' = submit_running ops p bl s2" using run1 g r by simp
        then show ?thesis using moves_trans [OF m2 submit_running_moves] by simp
      next
        case False
        then obtain x where "ipu_isys_stream_start ops p (Some bl) True s2 = Some (x, s')"
          using run1 g r by auto
        from stream_start_moves [OF this] G have "moves s2 (mset (bl_head bl)) s' {#}" by simp
        then show ?thesis using moves_trans [OF m2] by blast
      qed
    qed
  qed
qed

section \<open>Giving back\<close>

lemma complete_all_moves: "moves s (mset bs) (complete_all bs st s) {#}"
proof (induction bs arbitrary: s)
  case (Cons b bs)
  have "moves s ({#b#} + mset bs) (vb2_buffer_done b st s) ({#} + mset bs)"
    by (rule moves_add) (rule vb2_done_moves)
  then show ?case using moves_trans [OF _ Cons.IH] by fastforce
qed simp

lemma complete_list_keeps: "keeps s (complete_all (sy_list s l) st (put_list l [] s))"
  by (rule moves_trans [OF put_list_moves complete_all_moves]) simp_all

lemma return_buffers_keeps: "keeps s (return_buffers v st s)"
proof -
  define s1 where "s1 = complete_all (sy_list s (Incoming v)) st (put_list (Incoming v) [] s)"
  define s2 where "s2 = complete_all (sy_list s1 (Active v)) st (put_list (Active v) [] s1)"
  have 1: "keeps s s1" "keeps s1 s2" unfolding s1_def s2_def by (rule complete_list_keeps)+
  define s3 where "s3 = s2\<lparr>sy_reset_needed := True\<rparr>"
  have 2: "keeps s2 s3" unfolding s3_def by (rule keepsI) simp
  have "return_buffers v st s = (if sy_list s1 (Active v) \<noteq> [] then s3 else s2)"
    unfolding return_buffers_def Let_def s1_def [symmetric] s2_def [symmetric] s3_def [symmetric] ..
  then show ?thesis
    by (simp add: moves_trans [OF 1] moves_trans [OF moves_trans [OF 1] 2])
qed

section \<open>Pipelines\<close>

lemma entity_pipe_census [simp]:
  "regular (set_entity_pipe e po s) = regular s" "accounted (set_entity_pipe e po s) = accounted s"
  "kind_of (set_entity_pipe e po s) = kind_of s"
  by (simp_all add: set_entity_pipe_def split: media_entity.split)

lemma entity_pipes_census [simp]:
  "regular (fold (\<lambda>e. set_entity_pipe e po) es s) = regular s"
  "accounted (fold (\<lambda>e. set_entity_pipe e po) es s) = accounted s"
  "kind_of (fold (\<lambda>e. set_entity_pipe e po) es s) = kind_of s"
  by (induction es arbitrary: s; simp)+

lemma stop_pipeline_census [simp]:
  "regular (media_pipeline_stop_for_vc ops v s) = regular s"
  "accounted (media_pipeline_stop_for_vc ops v s) = accounted s"
  "kind_of (media_pipeline_stop_for_vc ops v s) = kind_of s"
  by (simp_all add: media_pipeline_stop_for_vc_def split_beta Let_def split: option.split)

lemma undo_pipeline_census [simp]:
  "regular (undo_pipeline ops v s) = regular s" "accounted (undo_pipeline ops v s) = accounted s"
  "kind_of (undo_pipeline ops v s) = kind_of s"
  by (simp_all add: undo_pipeline_def)

lemma unprepare_keeps: "keeps s (ipu_isys_video_unprepare_streaming ops p v s)"
  by (rule keepsI) (simp add: ipu_isys_video_unprepare_streaming_def short_packet_queue_destroy_def Let_def)

text \<open>No link of the graph carries alternating fields.\<close>

definition progressive :: "'w isys_ops \<Rightarrow> bool" where
  "progressive ops \<longleftrightarrow> (\<forall>e lk w. \<not> fst (snd (fst (w_link_check ops e lk w))))"

text \<open>A step of the walk: no census change, and the pipeline stays progressive.\<close>

definition calm :: "node \<Rightarrow> 'w isys \<Rightarrow> 'w isys \<Rightarrow> bool" where
  "calm p s s' \<longleftrightarrow> quiet s s' \<and> (ip_interlaced (sy_ip s' p) = ip_interlaced (sy_ip s p))"

lemma calm_refl [simp]: "calm p s s" by (simp add: calm_def)
lemma calm_trans [trans]: "calm p s s' \<Longrightarrow> calm p s' s'' \<Longrightarrow> calm p s s''"
  by (auto simp: calm_def intro: quiet_trans)

lemma calm_upd_ip: "(\<And>ip. ip_interlaced (f ip) = ip_interlaced ip) \<Longrightarrow> calm p s (upd_ip q f s)"
  by (simp add: calm_def quiet_def) (simp add: upd_ip_def)

lemma calm_world: "calm p s (s\<lparr>sy_world := w\<rparr>)" by (simp add: calm_def quiet_def)

lemma calm_csi2: "calm p s (upd_csi2 c f s)"
  by (simp add: calm_def quiet_def) (simp add: upd_csi2_def)

lemma calm_entity: "calm p s (set_entity_pipe e po s)"
  by (simp add: calm_def quiet_def set_entity_pipe_def split: media_entity.split) (simp add: upd_av_def)

lemma validate_subdev_calm: "calm p s (ipu_isys_subdev_link_validate ops q sd lk s)"
proof -
  define s1 where "s1 = (if \<not> lk_source_ours lk
            then upd_ip q (\<lambda>ip. ip\<lparr>ip_external := Some (lk_source lk), ip_source := w_asd_source ops sd\<rparr>) s
            else if lk_source_single_pad lk
            then upd_ip q (\<lambda>ip. ip\<lparr>ip_external := Some (lk_source lk),
                                    ip_source := w_asd_source ops (lk_source lk)\<rparr>) s else s)"
  have 1: "calm p s s1" unfolding s1_def by (auto intro: calm_upd_ip)
  have 2: "calm p s1 (upd_ip q (\<lambda>ip. ip\<lparr>ip_isl_mode := m\<rparr>) s1)" for m by (rule calm_upd_ip) simp
  show ?thesis
    using 1 calm_trans [OF 1 2] by (simp add: ipu_isys_subdev_link_validate_def s1_def [symmetric] Let_def)
qed

lemma subdev_link_calm:
  assumes "progressive ops"
  shows "calm p s (snd (subdev_link_validate ops q sd ours lk s))"
proof -
  obtain called alt r w where c: "w_link_check ops (Subdev_entity sd ours) lk (sy_world s) = ((called, alt, r), w)"
    by (metis surj_pair)
  have "alt = False" using assms c by (auto simp: progressive_def) (metis fst_conv snd_conv)
  define s1 where "s1 = s\<lparr>sy_world := w\<rparr>"
  have 1: "calm p s s1" unfolding s1_def by (rule calm_world)
  have u: "calm p s1 (upd_ip q f s1) \<Longrightarrow> calm p s (ipu_isys_subdev_link_validate ops q sd lk (upd_ip q f s1))" for f
    using calm_trans [OF calm_trans [OF 1] validate_subdev_calm] by blast
  show ?thesis
    using 1 calm_trans [OF 1 validate_subdev_calm] u [OF calm_upd_ip] \<open>alt = False\<close>
    by (auto simp: subdev_link_validate_def core_link_check_def c s1_def [symmetric] Let_def
        split: subdev_kind.split)
qed

lemma add_done_calm: "calm p s (ipu_isys_video_add_capture_done q f s)"
  by (auto simp: ipu_isys_video_add_capture_done_def Let_def intro: calm_upd_ip)

lemma csi2_link_calm:
  assumes "progressive ops"
  shows "calm p s (snd (csi2_link_validate ops q sd ours lk s))"
proof -
  define s1 where "s1 = upd_csi2 sd (\<lambda>cs. cs\<lparr>cs_receiver_errors := 0, cs_last_receiver_errors := 0,
                                    cs_fatal_receiver_errors := 0\<rparr>) s"
  define s2 where "s2 = ipu_isys_video_add_capture_done q Csi2_capture_done
                 (upd_ip q (\<lambda>ip. ip\<lparr>ip_csi2 := Some sd\<rparr>) s1)"
  have 1: "calm p s s1" unfolding s1_def by (rule calm_csi2)
  have 2: "calm p s s2" unfolding s2_def
    by (rule calm_trans [OF calm_trans [OF 1 calm_upd_ip] add_done_calm]) simp
  note 3 = calm_trans [OF 2 subdev_link_calm [OF assms, of p s2 q sd ours lk]]
  show ?thesis
    using 3 calm_trans [OF 3 calm_csi2]
    by (simp add: csi2_link_validate_def s1_def [symmetric] s2_def [symmetric] split_beta Let_def)
qed

lemma link_calm:
  assumes "progressive ops"
  shows "calm p s (snd (link_validate ops q e lk s))"
proof -
  define s1 where "s1 = (if is_external lk \<and> ip_external (sy_ip s q) = None
       then upd_ip q (\<lambda>ip. ip\<lparr>ip_external := Some (lk_source lk),
                               ip_source := w_asd_source ops (lk_source lk)\<rparr>) s else s)"
  have 1: "calm p s s1" unfolding s1_def by (auto intro: calm_upd_ip)
  have "calm p s (snd (video_link_validate ops q v lk s))" for v
    using calm_trans [OF 1 calm_world]
    by (simp add: video_link_validate_def core_link_check_def s1_def [symmetric] split_beta Let_def)
  moreover have "calm p s (snd (isa_link_validate ops q sd ours lk s))" for sd ours
    by (auto simp: isa_link_validate_def subdev_link_calm [OF assms] intro: calm_upd_ip)
  ultimately show ?thesis
    by (simp add: link_validate_def subdev_link_calm [OF assms] csi2_link_calm [OF assms]
        split: media_entity.split subdev_kind.split)
qed

lemma links_calm:
  assumes "progressive ops"
  shows "calm p s (snd (snd (snd (validate_links ops q e lks act lnk s))))"
proof (induction lks arbitrary: act lnk s)
  case (Cons lk lks)
  show ?case
    using Cons.IH link_calm [OF assms, of p s q e lk] calm_trans [OF link_calm [OF assms, of p s q e lk] Cons.IH]
    by (simp add: split_beta Let_def)
qed simp

lemma entity_calm: "progressive ops \<Longrightarrow> calm p s (snd (validate_entity ops q e s))"
  using links_calm [of ops p s q e "w_links ops e" "[]" "[]"]
  by (simp add: validate_entity_def split_beta)

lemma walk_calm:
  assumes "progressive ops"
  shows "calm p s (snd (snd (walk_entities ops q vc es evc s)))"
proof (induction es arbitrary: evc s)
  case (Cons e es)
  let ?s1 = "set_entity_pipe e (Some q) s"
  have 1: "calm p s ?s1" by (rule calm_entity)
  note 2 = calm_trans [OF 1 entity_calm [OF assms, of p ?s1 q e]]
  show ?case
    using Cons.IH calm_trans [OF 1 Cons.IH] 2 calm_trans [OF 2 Cons.IH]
    by (simp add: split_beta Let_def)
qed simp

lemma revert_calm: "calm p s (revert_walk es e s)"
proof (induction es arbitrary: s)
  case (Cons x es)
  show ?case by (simp add: Let_def calm_entity calm_trans [OF calm_entity Cons.IH])
qed simp

lemma pipeline_calm:
  assumes "progressive ops"
  shows "calm p s (snd (media_pipeline_walk_by_vc ops q v s))"
proof -
  have a: "calm p s (snd (is_support_vc ops src q s))" for src s
    by (auto simp: is_support_vc_def split: option.split intro: calm_upd_ip)
  have qs: "ip_interlaced (snd (snd (query_streams is' ops sd pad w st))) = ip_interlaced (snd (snd st))" for is' sd pad w st
    by (induction is' arbitrary: st) (auto simp: split_beta Let_def split: sum.split)
  have b: "calm p s (snd (ipu_isys_query_sensor_info ops src pad q s))" for src pad s
  proof (cases "find_extern MEDIA_ENTITY_ENUM_MAX_DEPTH ops src")
    case (Some sd)
    obtain r f ip where x: "query_streams [0..<CSI2_BE_SOC_SOURCE_PADS_NUM] ops sd pad (sy_world s)
         (E_NOLINK, False, sy_ip s q) = (r, f, ip)" by (metis prod_cases3)
    have "ip_interlaced ip = ip_interlaced (sy_ip s q)"
      using qs [of "[0..<CSI2_BE_SOC_SOURCE_PADS_NUM]" sd pad "sy_world s" "(E_NOLINK, False, sy_ip s q)"] by (simp add: x)
    then show ?thesis
      by (simp add: ipu_isys_query_sensor_info_def Some x) (simp add: calm_def quiet_def, simp add: upd_ip_def)
  qed (simp add: ipu_isys_query_sensor_info_def)
  have c: "calm p s (snd (walk_graph ops q v vc s))" for vc s
  proof -
    obtain g w where g: "w_graph_init ops (sy_world s) = (g, w)" by fastforce
    have 1: "calm p s (s\<lparr>sy_world := w\<rparr>)" by (rule calm_world)
    obtain r eo s2 where x: "walk_entities ops q vc (w_graph ops v) (- 1) (s\<lparr>sy_world := w\<rparr>) = (r, eo, s2)"
      by (metis prod_cases3)
    have 2: "calm p s s2" using calm_trans [OF 1 walk_calm [OF assms]] by (metis x snd_conv)
    have "calm p s2 (upd_ip q (\<lambda>ip. ip\<lparr>ip_start_count := ip_start_count ip + 1\<rparr>) s2)"
      by (rule calm_upd_ip) simp
    then show ?thesis
      by (cases eo) (simp_all add: walk_graph_def g x Let_def 1 calm_trans [OF 2] calm_trans [OF 2 revert_calm])
  qed
  have d: "calm p s (upd_ip q (\<lambda>ip. ip\<lparr>ip_start_count := Suc (ip_start_count ip)\<rparr>) s)" for s
    by (rule calm_upd_ip) simp
  show ?thesis
  proof (cases "w_remote_pad ops v (sy_world s)")
    case (Some x)
    then obtain src pad f where x: "w_remote_pad ops v (sy_world s) = Some (src, pad, f)"
      by (metis prod_cases3)
    obtain vc s1 where s1: "is_support_vc ops (Subdev_entity src True) q s = (vc, s1)" by fastforce
    obtain r s2 where s2: "(if vc then ipu_isys_query_sensor_info ops (Subdev_entity src True) pad q s1
                             else (0, s1)) = (r, s2)" by fastforce
    have 1: "calm p s s1" using a [of s "Subdev_entity src True"] by (simp add: s1)
    have "calm p s1 s2" using s2 b [of s1 "Subdev_entity src True" pad] by (auto split: if_splits)
    then have 2: "calm p s s2" by (rule calm_trans [OF 1])
    show ?thesis
      by (simp add: media_pipeline_walk_by_vc_def x s1 s2 d 2 calm_trans [OF 2 c])
  qed (simp add: media_pipeline_walk_by_vc_def)
qed

section \<open>Starting and stopping a queue\<close>

lemma prepare_keeps:
  assumes "progressive ops"
  shows "keeps s (snd (ipu_isys_video_prepare_streaming ops v s))"
proof (rule keepsI)
  assume reg: "regular s"
  define s1 where "s1 = upd_ip v reset_pipeline s"
  have i1: "\<not> ip_interlaced (sy_ip s1 v)" by (simp add: s1_def upd_ip_def reset_pipeline_def)
  obtain e w where e: "w_enum_init ops (sy_world s1) = (e, w)" by fastforce
  define s2 where "s2 = s1\<lparr>sy_world := w\<rparr>"
  obtain r s3 where r: "media_pipeline_walk_by_vc ops v v s2 = (r, s3)" by fastforce
  have c: "calm v s2 s3" using pipeline_calm [OF assms, of v s2 v v] by (simp add: r)
  have i3: "\<not> ip_interlaced (sy_ip s3 v)" using c i1 by (simp add: calm_def s2_def)
  obtain g w' where g: "w_graph_init ops (sy_world s3) = (g, w')" by fastforce
  define s5 where "s5 = gather_entities ops v (s3\<lparr>sy_world := w'\<rparr>)"
  have i5: "\<not> ip_interlaced (sy_ip s5 v)" using i3 by (simp add: s5_def gather_entities_def upd_ip_def Let_def)
  have k2: "regular s2" "accounted s2 = accounted s" "kind_of s2 = kind_of s"
    using reg by (simp_all add: s2_def s1_def)
  have "quiet s2 s3" using c by (simp add: calm_def)
  then have k3: "regular s3" "accounted s3 = accounted s" "kind_of s3 = kind_of s"
    by (simp_all add: k2 quiet_regular [of s2 s3] quiet_kind [of s2 s3] quiet_accounted [of s2 s3])
  have k5: "regular s5" "accounted s5 = accounted s" "kind_of s5 = kind_of s"
    using k3 by (simp_all add: s5_def gather_entities_def Let_def)
  have "ipu_isys_video_prepare_streaming ops v s =
      (if e \<noteq> 0 then (e, s2) else if r < 0 then (r, s3)
       else if ip_external (sy_ip s3 v) = None then (E_INVAL, undo_pipeline ops v s3)
       else if g \<noteq> 0 then (g, undo_pipeline ops v (s3\<lparr>sy_world := w'\<rparr>)) else (0, s5))"
    using i5 by (simp add: ipu_isys_video_prepare_streaming_def s1_def [symmetric] e s2_def [symmetric] r g
        s5_def [symmetric] Let_def)
  then show "regular (snd (ipu_isys_video_prepare_streaming ops v s)) \<and>
      kind_of (snd (ipu_isys_video_prepare_streaming ops v s)) = kind_of s \<and>
      accounted (snd (ipu_isys_video_prepare_streaming ops v s)) = accounted s"
    using k2 k3 k5 by simp
qed

lemma start_failed_keeps: "keeps s (start_failed ops p v first s)"
  by (simp add: start_failed_def return_buffers_keeps moves_trans [OF unprepare_keeps return_buffers_keeps])

lemma leave_queues_keeps: "keeps s (leave_queues p v s)"
  by (rule keepsI) (simp add: leave_queues_def)

lemma start_joined_moves:
  assumes "start_joined ops p v first bl s = Some (r, s')" and "hand_ok bl"
  shows "moves s (hand bl) s' {#}"
proof -
  obtain x s1 where a: "ipu_isys_stream_start ops p bl False s = Some (x, s1)"
    using assms(1) by (auto simp: start_joined_def split: option.splits)
  note 1 = stream_start_moves [OF a assms(2)]
  note 2 = moves_trans [OF 1 moves_trans [OF leave_queues_keeps start_failed_keeps]]
  show ?thesis using assms(1) 1 2 by (auto simp: start_joined_def a split: if_splits)
qed

lemma start_prepared_keeps:
  assumes "start_prepared ops p v first s = Some (r, s')"
  shows "keeps s s'"
proof (rule movesI)
  assume reg: "regular s"
  obtain l w where l: "w_link_fmt ops v (sy_world s) = (l, w)" by fastforce
  define s1 where "s1 = s\<lparr>sy_world := w\<rparr>"
  define s2 where "s2 = upd_ip p (\<lambda>ip. ip\<lparr>ip_nr_streaming := ip_nr_streaming ip + 1,
                                   ip_queues := v # ip_queues ip\<rparr>) s1"
  have 1: "keeps s s1" by (rule keepsI) (simp add: s1_def)
  have 2: "keeps s s2" by (rule keepsI) (simp add: s2_def s1_def)
  have "sy_requests s2 = []" using 2 reg by (simp add: moves_def regular_def)
  obtain x bl s3 where g: "buffer_list_get ops p s2 = (x, bl, s3)" by (metis prod_cases3)
  note G = buffer_list_get_moves [OF g]
  have 3: "moves s {#} s3 (mset (bl_head bl))" using moves_trans [OF 2] G by blast
  note run = assms [unfolded start_prepared_def l Let_def prod.case s1_def [symmetric] s2_def [symmetric]]
  show "keeps s s'"
  proof (cases "l = 0 \<and> ip_nr_streaming (sy_ip s2 p) = ip_nr_queues (sy_ip s2 p) \<and> x = 0")
    case True
    then have "start_joined ops p v first (Some bl) s3 = Some (r, s')"
      using run g \<open>sy_requests s2 = []\<close> by (simp add: E_INVAL_def)
    then have "moves s3 (mset (bl_head bl)) s' {#}" using start_joined_moves G by fastforce
    then show ?thesis by (rule moves_trans [OF 3])
  next
    case False
    have "x < 0 \<longrightarrow> bl_head bl = []" using G by auto
    then have 4: "x < 0 \<Longrightarrow> keeps s s3" using 3 by simp
    have "x \<noteq> 0 \<longrightarrow> x = E_NODATA" using G by auto
    then have "s' = start_failed ops p v first s1 \<or> s' = s2 \<or> x < 0 \<and> s' = s3"
      using run False g \<open>sy_requests s2 = []\<close> by (auto simp: error_codes split: if_splits)
    then show ?thesis using moves_trans [OF 1 start_failed_keeps] 2 4 by blast
  qed
qed

lemma start_streaming_keeps:
  assumes "start_streaming ops v s = Some (r, s')" and "progressive ops"
  shows "keeps s s'"
proof (cases "av_pipe (sy_av s v)")
  case None
  obtain x s1 where x: "ipu_isys_video_prepare_streaming ops v s = (x, s1)" by fastforce
  have 1: "keeps s s1" using prepare_keeps [OF assms(2), of s v] by (simp add: x)
  show ?thesis
  proof (cases "x = 0")
    case False
    then show ?thesis
      using assms(1) None x moves_trans [OF 1 return_buffers_keeps] by (auto simp: start_streaming_def)
  next
    case True
    have w: "keeps s1 (s1\<lparr>sy_wild := True\<rparr>)" by (rule keepsI) simp
    show ?thesis
      using assms(1) None x True moves_trans [OF 1 w] moves_trans [OF 1 start_prepared_keeps]
      by (auto simp: start_streaming_def split: option.splits)
  qed
next
  case (Some p)
  then show ?thesis using assms(1) start_prepared_keeps by (simp add: start_streaming_def)
qed

lemma stop_streaming_keeps: "keeps s (stop_streaming ops v s)"
proof (cases "av_pipe (sy_av s v)")
  case (Some p)
  define s1 where "s1 = (if ip_nr_streaming (sy_ip s p) = ip_nr_queues (sy_ip s p) \<and> ip_streaming (sy_ip s p)
                    then snd (snd (ipu_isys_video_set_streaming ops p v False None s)) else s)"
  define s2 where "s2 = (if ip_nr_streaming (sy_ip s1 p) = 1
                    then ipu_isys_video_unprepare_streaming ops p v s1 else s1)"
  obtain r bl s' where st: "ipu_isys_video_set_streaming ops p v False None s = (r, bl, s')"
    by (metis prod_cases3)
  have "bl = None" using st
    by (auto simp: ipu_isys_video_set_streaming_def split: if_splits prod.splits)
  then have 1: "keeps s s1" using set_streaming_moves [OF st] by (simp add: s1_def st)
  have 2: "keeps s s2" using moves_trans [OF 1 unprepare_keeps] 1 by (simp add: s2_def)
  have "keeps s2 (upd_ip p f s2)" for f by (rule keepsI) simp
  then have "keeps s (return_buffers v VB2_BUF_STATE_ERROR (upd_ip p f s2))" for f
    using moves_trans [OF 2 moves_trans [OF _ return_buffers_keeps]] by blast
  then show ?thesis
    by (simp add: stop_streaming_def Some Let_def s1_def [symmetric] s2_def [symmetric])
qed (simp add: stop_streaming_def)

lemma irq_keeps: "keeps s (isys_irq ops i s)"
  by (simp add: isys_irq_def isr_one_keeps quiet_moves csi2_isr_quiet split: isys_irq.split)

end
