(* ===== verification/IsysReturns.thy ===== *)
theory IsysReturns
  imports IsysConserve
begin

text \<open>
  The loops of the imaging system end: submitting takes a buffer from every queue of the pipeline in each
  round, and nothing puts one back as long as the firmware does not report the error for which the
  driver parks a buffer.

  \<open>queue_sets\<close> are the queues of each pipeline, which nothing changes while a pipeline is started;
  \<open>incoming\<close> are the buffers that wait, which interrupts do not change (\<open>clean\<close>).
\<close>

section \<open>The queues of a pipeline\<close>

definition queue_sets :: "'w isys \<Rightarrow> node \<Rightarrow> node set" where
  "queue_sets s = (\<lambda>p. set (ip_queues (sy_ip s p)))"

definition incoming :: "'w isys \<Rightarrow> node \<Rightarrow> buf list" where
  "incoming s = (\<lambda>q. sy_list s (Incoming q))"

lemma queue_sets_upd_ip [simp]:
  "(\<And>ip. set (ip_queues (f ip)) = set (ip_queues ip)) \<Longrightarrow> queue_sets (upd_ip p f s) = queue_sets s"
  by (auto simp: queue_sets_def upd_ip_def fun_eq_iff)

lemma queue_sets_frame [simp]:
  "queue_sets (upd_csi2 c g s) = queue_sets s" "queue_sets (upd_av p h s) = queue_sets s"
  "queue_sets (upd_aq p k s) = queue_sets s" "queue_sets (upd_buf b m s) = queue_sets s"
  "queue_sets (put_list l xs s) = queue_sets s" "queue_sets (list_add b l s) = queue_sets s"
  "queue_sets (list_add_tail b l s) = queue_sets s" "queue_sets (unlink b s) = queue_sets s"
  "queue_sets (vb2_buffer_done b st s) = queue_sets s"
  "queue_sets (s\<lparr>sy_world := w\<rparr>) = queue_sets s" "queue_sets (s\<lparr>sy_wild := x\<rparr>) = queue_sets s"
  "queue_sets (s\<lparr>sy_sent := t\<rparr>) = queue_sets s" "queue_sets (s\<lparr>sy_sensor := u\<rparr>) = queue_sets s"
  "queue_sets (s\<lparr>sy_pipes := v\<rparr>) = queue_sets s" "queue_sets (s\<lparr>sy_stream_opened := n\<rparr>) = queue_sets s"
  "queue_sets (s\<lparr>sy_reset_needed := x\<rparr>) = queue_sets s" "queue_sets (s\<lparr>sy_requests := r\<rparr>) = queue_sets s"
  "queue_sets (s\<lparr>sy_framebuflist := fl\<rparr>) = queue_sets s"
  "queue_sets (s\<lparr>sy_framebuflist_fw := fl\<rparr>) = queue_sets s"
  by (simp_all add: queue_sets_def upd_csi2_def upd_av_def upd_aq_def upd_buf_def put_list_def
      list_add_def list_add_tail_def unlink_def vb2_buffer_done_def)

lemma incoming_frame [simp]:
  "incoming (upd_ip p f s) = incoming s"
  "incoming (upd_csi2 c g s) = incoming s" "incoming (upd_av p h s) = incoming s"
  "incoming (upd_aq p k s) = incoming s" "incoming (upd_buf b m s) = incoming s"
  "incoming (vb2_buffer_done b st s) = incoming s"
  "\<forall>q. l \<noteq> Incoming q \<Longrightarrow> incoming (put_list l xs s) = incoming s"
  "\<forall>q. l \<noteq> Incoming q \<Longrightarrow> incoming (list_add b l s) = incoming s"
  "incoming (s\<lparr>sy_world := w\<rparr>) = incoming s" "incoming (s\<lparr>sy_wild := x\<rparr>) = incoming s"
  "incoming (s\<lparr>sy_sent := t\<rparr>) = incoming s"
  "incoming (s\<lparr>sy_framebuflist := fl\<rparr>) = incoming s"
  "incoming (s\<lparr>sy_framebuflist_fw := fl\<rparr>) = incoming s"
  by (auto simp: incoming_def list_add_def vb2_buffer_done_def fun_eq_iff)

section \<open>Interrupts\<close>

lemma fold_same: "(\<And>x s. F (f x s) = F s) \<Longrightarrow> F (fold f xs s) = F s"
  by (induction xs arbitrary: s) simp_all

lemma readl_still [simp]:
  "queue_sets (snd (isys_readl ops r s)) = queue_sets s" "incoming (snd (isys_readl ops r s)) = incoming s"
  "queue_sets (isys_writel ops v r s) = queue_sets s" "incoming (isys_writel ops v r s) = incoming s"
  by (simp_all add: isys_readl_def isys_writel_def split_beta)

lemma errors_still [simp]:
  "queue_sets (snd (ipu_isys_csi2_error ops c s)) = queue_sets s"
  "incoming (snd (ipu_isys_csi2_error ops c s)) = incoming s"
  "queue_sets (ipu_isys_csi2_reset_errors ops c s) = queue_sets s"
  by (simp_all add: ipu_isys_csi2_error_def ipu4p_isys_register_errors_def ipu_isys_csi2_reset_errors_def
      split_beta Let_def)

lemma vc_events_still [simp]:
  "queue_sets (vc_events c st i s) = queue_sets s" "incoming (vc_events c st i s) = incoming s"
  by (simp_all add: vc_events_def ipu_isys_csi2_sof_event_def ipu_isys_csi2_eof_event_def Let_def
      split: option.splits)

lemma csi2_isr_still [simp]:
  "queue_sets (ipu_isys_csi2_isr ops c s) = queue_sets s" "incoming (ipu_isys_csi2_isr ops c s) = incoming s"
  by (simp_all add: ipu_isys_csi2_isr_def split_beta Let_def fold_same [where F = queue_sets]
      fold_same [where F = incoming])

lemma done_still [simp]:
  "queue_sets (ipu_isys_queue_buf_done b s) = queue_sets s"
  "incoming (ipu_isys_queue_buf_done b s) = incoming s"
  "queue_sets (ipu_isys_buf_calc_sequence_time ops b info s) = queue_sets s"
  "incoming (ipu_isys_buf_calc_sequence_time ops b info s) = incoming s"
  "queue_sets (ipu_isys_queue_short_packet_ready ops p info s) = queue_sets s"
  "incoming (ipu_isys_queue_short_packet_ready ops p info s) = incoming s"
  "queue_sets (ipu_put_fw_mgs_buffer m s) = queue_sets s" "incoming (ipu_put_fw_mgs_buffer m s) = incoming s"
  "queue_sets (complete_stream p c s) = queue_sets s" "incoming (complete_stream p c s) = incoming s"
  by (simp_all add: ipu_isys_queue_buf_done_def ipu_isys_buf_calc_sequence_time_def get_sof_ns_delta_def
      ipu_isys_queue_short_packet_ready_def ipu_put_fw_mgs_buffer_def complete_stream_def split_beta Let_def
      split: option.split)

lemma buf_ready_still [simp]:
  "queue_sets (ipu_isys_queue_buf_ready ops p q info s) = queue_sets s"
  "\<not> str2mmio info \<Longrightarrow> incoming (ipu_isys_queue_buf_ready ops p q info s) = incoming s"
  by (simp_all add: ipu_isys_queue_buf_ready_def buf_ready_found_def Let_def split: option.split)

lemma pin_ready_still [simp]:
  "queue_sets (resp_pin_data_ready ops p info s) = queue_sets s"
  "\<not> str2mmio info \<Longrightarrow> incoming (resp_pin_data_ready ops p info s) = incoming s"
  by (simp_all add: resp_pin_data_ready_def Let_def split: option.split pin_ready.split)

lemma finish_fields_still [simp]:
  "queue_sets (finish_fields f bs s) = queue_sets s" "incoming (finish_fields f bs s) = incoming s"
  by (induction bs arbitrary: s) simp_all

lemma capture_done_still [simp]:
  "queue_sets (resp_capture_done ops p info s) = queue_sets s"
  "incoming (resp_capture_done ops p info s) = incoming s"
proof -
  have "queue_sets (run_capture_done ops p info f s) = queue_sets s"
    "incoming (run_capture_done ops p info f s) = incoming s" for f and s :: "'a isys"
    by (simp_all add: run_capture_done_def csi2_capture_done_def isa_capture_done_def isa_take_last_def Let_def
        split: capture_done.split option.split)
  then show "queue_sets (resp_capture_done ops p info s) = queue_sets s"
    "incoming (resp_capture_done ops p info s) = incoming s"
    by (simp_all add: resp_capture_done_def interlaced_done_def Let_def fold_same [where F = queue_sets]
      fold_same [where F = incoming])
qed

lemma response_still [simp]:
  "queue_sets (isys_response ops p info s) = queue_sets s"
  "\<not> str2mmio info \<Longrightarrow> incoming (isys_response ops p info s) = incoming s"
  by (simp_all add: isys_response_def resp_frame_sof_def Let_def)

text \<open>The firmware never reports the error that makes the driver park a buffer.\<close>

definition clean :: "'w isys_ops \<Rightarrow> bool" where
  "clean ops \<longleftrightarrow> (\<forall>w. case fst (w_get_resp ops w) of None \<Rightarrow> True | Some r \<Rightarrow> \<not> str2mmio r)"

lemma isr_one_still [simp]:
  "queue_sets (snd (isys_isr_one ops s)) = queue_sets s"
  "clean ops \<Longrightarrow> incoming (snd (isys_isr_one ops s)) = incoming s"
proof -
  obtain r w where r: "w_get_resp ops (sy_world s) = (r, w)" by fastforce
  show "queue_sets (snd (isys_isr_one ops s)) = queue_sets s"
    by (simp add: isys_isr_one_def ipu_fw_isys_get_resp_def r split: option.split)
  assume "clean ops"
  then have "r = Some x \<Longrightarrow> \<not> str2mmio (x\<lparr>rs_buf_id := 0\<rparr>)" for x
    using r by (auto simp: clean_def str2mmio_def split: option.splits dest: spec [of _ "sy_world s"])
  then show "incoming (snd (isys_isr_one ops s)) = incoming s"
    by (cases r) (simp_all add: isys_isr_one_def ipu_fw_isys_get_resp_def r split: option.split)
qed

lemma irq_still [simp]:
  "queue_sets (isys_irq ops i s) = queue_sets s"
  "clean ops \<Longrightarrow> incoming (isys_irq ops i s) = incoming s"
  by (simp_all add: isys_irq_def split: isys_irq.split)

lemma interrupts_still [simp]:
  "queue_sets (interrupts ops s) = queue_sets s" "clean ops \<Longrightarrow> incoming (interrupts ops s) = incoming s"
  by (simp_all add: interrupts_def split_beta Let_def fold_same [where F = queue_sets]
      fold_same [where F = incoming])

section \<open>Streams\<close>

lemma small_still [simp]:
  "queue_sets (snd (fw_cmd ops p c s)) = queue_sets s"
  "queue_sets (reinit_completion p k s) = queue_sets s"
  "queue_sets (snd (wait_completion ops p k s)) = queue_sets s"
  "queue_sets (snd (sensor_s_stream ops p on s)) = queue_sets s"
  "queue_sets (get_stream_opened s) = queue_sets s" "queue_sets (put_stream_opened s) = queue_sets s"
  "queue_sets (snd (get_stream_handle p s)) = queue_sets s" "queue_sets (put_stream_handle p s) = queue_sets s"
  "queue_sets (mark_stream_reset_needed s) = queue_sets s"
  "queue_sets (csi2_error_of ops p s) = queue_sets s"
  by (simp_all add: fw_cmd_def reinit_completion_def wait_completion_def sensor_s_stream_def
      get_stream_opened_def put_stream_opened_def get_stream_handle_def put_stream_handle_def
      mark_stream_reset_needed_def csi2_error_of_def split_beta Let_def split: option.split)

lemma fw_cmd_incoming [simp]: "clean ops \<Longrightarrow> incoming (snd (fw_cmd ops p c s)) = incoming s"
  by (simp add: fw_cmd_def split_beta Let_def)

lemma alloc_loop_still [simp]:
  "queue_sets (snd (alloc_loop n ops s)) = queue_sets s" "incoming (snd (alloc_loop n ops s)) = incoming s"
  by (induction n arbitrary: s; simp add: split_beta Let_def split: option.split)+

lemma get_msg_still [simp]:
  "queue_sets (snd (ipu_get_fw_msg_buf ops s)) = queue_sets s"
  "incoming (snd (ipu_get_fw_msg_buf ops s)) = incoming s"
  by (simp_all add: ipu_get_fw_msg_buf_def alloc_fw_msg_buffers_def Let_def split_beta)

lemma queue_one_still [simp]: "queue_sets (queue_one f st b s) = queue_sets s"
  by (simp add: queue_one_def Let_def split: isys_buffer_type.split)

lemma queue_all_still [simp]: "queue_sets (queue_all f st bs s) = queue_sets s"
  by (induction bs arbitrary: s) simp_all

lemma list_queue_still [simp]: "queue_sets (snd (ipu_isys_buffer_list_queue bl f st s)) = queue_sets s"
  by (simp add: ipu_isys_buffer_list_queue_def)

lemma queue_active_incoming [simp]:
  "incoming (snd (ipu_isys_buffer_list_queue bl IPU_ISYS_BUFFER_LIST_FL_ACTIVE st s)) = incoming s"
proof -
  have "incoming (queue_one IPU_ISYS_BUFFER_LIST_FL_ACTIVE st b s) = incoming s" for b and s :: "'a isys"
    by (simp add: queue_one_def IPU_ISYS_BUFFER_LIST_FL_ACTIVE_def IPU_ISYS_BUFFER_LIST_FL_SET_STATE_def Let_def
        split: isys_buffer_type.split)
  then have "incoming (queue_all IPU_ISYS_BUFFER_LIST_FL_ACTIVE st bs s) = incoming s" for bs and s :: "'a isys"
    by (induction bs arbitrary: s) simp_all
  then show ?thesis by (simp add: ipu_isys_buffer_list_queue_def)
qed

lemma submit_list_still [simp]:
  "queue_sets (snd (snd (submit_list ops p bl msg s))) = queue_sets s"
  "clean ops \<Longrightarrow> incoming (snd (snd (submit_list ops p bl msg s))) = incoming s"
  by (simp_all add: submit_list_def split_beta Let_def)

lemma prepare_buffers_still [simp]:
  "queue_sets (prepare_buffers ops bs s) = queue_sets s" "incoming (prepare_buffers ops bs s) = incoming s"
  by (induction bs arbitrary: s; simp)+

lemma take_buffers_still [simp]: "queue_sets (snd (snd (take_buffers qs bl s))) = queue_sets s"
  by (induction qs arbitrary: bl s) (simp_all add: Let_def)

lemma take_buffers_takes:
  assumes "fst (take_buffers qs bl s) = 0"
  shows "length (incoming (snd (snd (take_buffers qs bl s))) q) + (if q \<in> set qs then 1 else 0)
         \<le> length (incoming s q)"
  using assms
proof (induction qs arbitrary: bl s)
  case (Cons x qs)
  let ?b = "last (sy_list s (Incoming x))"
  let ?bl = "\<lparr>bl_head = ?b # bl_head bl, bl_nbufs = bl_nbufs bl + 1\<rparr>"
  let ?s = "put_list (Incoming x) (butlast (sy_list s (Incoming x))) s"
  have ne: "sy_list s (Incoming x) \<noteq> []" and r: "ib_req (sy_buf s ?b) = None"
    using Cons.prems by (auto simp: E_NODATA_def Let_def split: if_splits)
  have "fst (take_buffers qs ?bl ?s) = 0" using Cons.prems ne r by (simp add: Let_def)
  from Cons.IH [OF this] have
    "length (incoming (snd (snd (take_buffers qs ?bl ?s))) q) + (if q \<in> set qs then 1 else 0) \<le> length (incoming ?s q)" .
  moreover have "length (incoming ?s q) + (if q = x then 1 else 0) = length (incoming s q)"
    using ne by (cases "q = x") (auto simp: incoming_def)
  ultimately show ?case using ne r by (auto simp: Let_def split: if_splits)
qed simp

lemma give_back_still [simp]: "queue_sets (snd (give_back bl s)) = queue_sets s"
  by (simp add: give_back_def)

lemma buffer_list_get_still [simp]: "queue_sets (snd (snd (buffer_list_get ops p s))) = queue_sets s"
  using take_buffers_still [of "ip_queues (sy_ip s p)" "\<lparr>bl_head = [], bl_nbufs = 0\<rparr>" s]
  by (simp add: buffer_list_get_def split_beta Let_def split: option.split)

lemma buffer_list_get_takes:
  assumes "buffer_list_get ops p s = (r, bl, s')" and "\<not> r < 0" and "q \<in> queue_sets s p"
  shows "length (incoming s' q) < length (incoming s q)"
proof -
  obtain r1 bl1 s1 where t: "take_buffers (ip_queues (sy_ip s p)) \<lparr>bl_head = [], bl_nbufs = 0\<rparr> s = (r1, bl1, s1)"
    by (metis prod_cases3)
  have "r1 = 0 \<or> r1 = E_NODATA" using take_buffers_moves [OF t] by simp
  moreover have "r1 = E_NODATA \<Longrightarrow> r < 0"
    using assms(1) t by (auto simp: buffer_list_get_def E_NODATA_def)
  ultimately have r1: "r1 = 0" using assms(2) by auto
  have "length (incoming s1 q) < length (incoming s q)"
    using take_buffers_takes [of "ip_queues (sy_ip s p)" "\<lparr>bl_head = [], bl_nbufs = 0\<rparr>" s q] assms(3)
    by (simp add: t r1 queue_sets_def)
  moreover have "incoming s' = incoming s1"
    using assms(1,2) by (auto simp: buffer_list_get_def t r1 Let_def E_NODATA_def split: if_splits option.splits)
  ultimately show ?thesis by simp
qed

section \<open>The loops end\<close>

lemma refeed_round_still [simp]: "queue_sets (snd (refeed_round ops p s)) = queue_sets s"
  using buffer_list_get_still [of ops p s]
  by (auto simp: refeed_round_def split_beta Let_def split: option.split prod.splits)

lemma refeed_round_shrinks:
  assumes "refeed_round ops p s = (None, s')" and "clean ops" and "q \<in> queue_sets s p"
  shows "length (incoming s' q) < length (incoming s q)"
proof -
  obtain r bl s1 where g: "buffer_list_get ops p s = (r, bl, s1)" by (metis prod_cases3)
  obtain m s2 where f: "ipu_get_fw_msg_buf ops s1 = (m, s2)" by fastforce
  have i2: "incoming s2 = incoming s1" using get_msg_still(2) [of ops s1] by (simp add: f)
  have r: "\<not> r < 0" using assms(1) by (auto simp: refeed_round_def g)
  then obtain msg where m: "m = Some msg" using assms(1) by (auto simp: refeed_round_def g f split: option.splits)
  obtain r' bl' s3 where sl: "submit_list ops p bl msg s2 = (r', bl', s3)" by (metis prod_cases3)
  have "s' = s3" using assms(1) r by (auto simp: refeed_round_def g f m sl split: if_splits)
  then have "incoming s' = incoming s2" using submit_list_still(2) [OF assms(2), of p bl msg s2] by (simp add: sl)
  then show ?thesis using buffer_list_get_takes [OF g r assms(3)] i2 by simp
qed

lemma refeed_returns:
  assumes "clean ops" and "q \<in> queue_sets s p"
  shows "\<exists>r s'. stream_capture_refeed ops p s = Some (r, s') \<and> queue_sets s' = queue_sets s"
  using assms(2)
proof (induction "length (incoming s q)" arbitrary: s rule: less_induct)
  case less
  obtain x s1 where r: "refeed_round ops p s = (x, s1)" by fastforce
  have k: "queue_sets s1 = queue_sets s" using refeed_round_still [of ops p s] by (simp add: r)
  show ?case
  proof (cases x)
    case (Some y)
    then show ?thesis using r k by (subst stream_capture_refeed.simps) simp
  next
    case None
    have "length (incoming s1 q) < length (incoming s q)"
      using refeed_round_shrinks [OF r [unfolded None] assms(1) less.prems] .
    then show ?thesis
      using less.hyps [of s1] less.prems k r None by (subst stream_capture_refeed.simps) simp
  qed
qed

lemma submit_all_returns:
  assumes "clean ops" and "q \<in> queue_sets s p"
  shows "\<exists>r bl s'. submit_all ops p s = Some (r, bl, s') \<and> queue_sets s' = queue_sets s"
  using assms(2)
proof (induction "length (incoming s q)" arbitrary: s rule: less_induct)
  case less
  obtain r bl s1 where g: "buffer_list_get ops p s = (r, bl, s1)" by (metis prod_cases3)
  have k1: "queue_sets s1 = queue_sets s" using buffer_list_get_still [of ops p s] by (simp add: g)
  show ?case
  proof (cases "r < 0")
    case True
    then show ?thesis using g k1 by (subst submit_all.simps) simp
  next
    case r: False
    obtain m s2 where f: "ipu_get_fw_msg_buf ops s1 = (m, s2)" by fastforce
    have k2: "queue_sets s2 = queue_sets s" "incoming s2 = incoming s1"
      using get_msg_still [of ops s1] k1 by (simp_all add: f)
    show ?thesis
    proof (cases m)
      case None
      then show ?thesis using g r f k2 by (subst submit_all.simps) simp
    next
      case (Some msg)
      obtain r' bl' s3 where sl: "submit_list ops p bl msg s2 = (r', bl', s3)" by (metis prod_cases3)
      have k3: "queue_sets s3 = queue_sets s" "incoming s3 = incoming s1"
        using submit_list_still [of ops p bl msg s2] k2 assms(1) by (simp_all add: sl)
      have "length (incoming s3 q) < length (incoming s q)"
        using buffer_list_get_takes [OF g r less.prems] k3 by simp
      then show ?thesis
        using less.hyps [of s3] less.prems k3 g r f Some sl
        by (subst submit_all.simps) simp
    qed
  qed
qed

section \<open>Receivers, sensors and streams\<close>

lemma abort_still [simp]: "queue_sets (abort_stream ops p s) = queue_sets s"
  by (simp add: abort_stream_def split_beta Let_def)

lemma await_still [simp]: "queue_sets (snd (await_start ops p r s)) = queue_sets s"
  by (simp add: await_start_def split_beta Let_def)

lemma start_with_set_still [simp]: "queue_sets (snd (start_with_set ops p msg fs s)) = queue_sets s"
  by (simp add: start_with_set_def split_beta Let_def)

lemma firmware_still [simp]:
  "queue_sets (snd (stop_streaming_firmware ops p s)) = queue_sets s"
  "queue_sets (release_streaming_firmware p s) = queue_sets s"
  "queue_sets (snd (close_streaming_firmware ops p s)) = queue_sets s"
  by (simp_all add: stop_streaming_firmware_def release_streaming_firmware_def close_streaming_firmware_def
      split_beta Let_def)

lemma prepare_request_still [simp]:
  "queue_sets (snd (prepare_request_buffers ops bs fs)) = queue_sets (snd fs)"
  by (induction bs arbitrary: fs) (simp_all add: split_beta Let_def)

lemma requests_still [simp]:
  "queue_sets (snd (ipu_isys_next_queued_request p s)) = queue_sets s"
  "queue_sets (snd (ipu_isys_req_prepare ops q s)) = queue_sets s"
  "queue_sets (snd (ipu_isys_req_dispatch ops p msg fs s)) = queue_sets s"
  by (simp_all add: ipu_isys_next_queued_request_def ipu_isys_req_prepare_def ipu_isys_req_dispatch_def split_beta
      split: option.split)

lemma start_opened_still [simp]: "queue_sets (snd (snd (start_opened ops p bl s))) = queue_sets s"
proof -
  obtain q s1 where n: "ipu_isys_next_queued_request p s = (q, s1)" by fastforce
  obtain m s2 where g: "ipu_get_fw_msg_buf ops s1 = (m, s2)" by fastforce
  have k: "queue_sets s1 = queue_sets s" "queue_sets s2 = queue_sets s"
    using requests_still(1) [of p s] get_msg_still(1) [of ops s1] by (simp_all add: n g)
  show ?thesis
    by (simp add: start_opened_def n g k split_beta Let_def split: option.split)
qed

lemma prepare_cfgs_still [simp]:
  "queue_sets (snd (fold (ipu_isys_prepare_firmware_stream_cfg_default p) vs cs)) = queue_sets (snd cs)"
  by (induction vs arbitrary: cs)
    (simp_all add: ipu_isys_prepare_firmware_stream_cfg_default_def split_beta Let_def)

lemma short_cfg_still [simp]:
  "queue_sets (snd (csi_short_packet_prepare_firmware_stream_cfg p cs)) = queue_sets (snd cs)"
  by (simp add: csi_short_packet_prepare_firmware_stream_cfg_def split_beta Let_def)

lemma move_first_still:
  assumes "v \<in> set (ip_queues (sy_ip s p))"
  shows "queue_sets (upd_ip p (\<lambda>ip. ip\<lparr>ip_queues := v # remove1 v (ip_queues ip)\<rparr>) s) = queue_sets s"
proof -
  have "insert v (set (remove1 v xs)) = set xs" if "v \<in> set xs" for xs
    using that by (induction xs) auto
  then show ?thesis using assms by (simp add: queue_sets_def upd_ip_def fun_eq_iff)
qed

lemma isl_first_still [simp]: "queue_sets (isl_first p s) = queue_sets s"
  by (simp add: isl_first_def Let_def move_first_still split: option.split)

lemma build_cfg_still [simp]: "queue_sets (snd (build_stream_cfg ops p v f s)) = queue_sets s"
  by (simp add: build_stream_cfg_def split_beta Let_def)

lemma set_params_still [simp]: "queue_sets (snd (ipu_fw_isys_set_params cfg s)) = queue_sets s"
  by (simp add: ipu_fw_isys_set_params_def)

lemma start_firmware_still [simp]: "queue_sets (snd (snd (start_stream_firmware ops p v bl s))) = queue_sets s"
proof -
  obtain e f w where x: "w_external_format ops p (sy_world s) = ((e, f), w)" by (metis surj_pair)
  define s1 where "s1 = s\<lparr>sy_world := w\<rparr>"
  obtain m s2 where g: "ipu_get_fw_msg_buf ops s1 = (m, s2)" by fastforce
  have k: "queue_sets s1 = queue_sets s" by (simp add: s1_def)
  have k2: "queue_sets s2 = queue_sets s" using get_msg_still(1) [of ops s1] by (simp add: g k)
  show ?thesis
    by (simp add: start_stream_firmware_def x s1_def [symmetric] g k k2 split_beta Let_def split: option.split)
qed

lemma writes_still [simp]: "queue_sets (writes ops ws s) = queue_sets s"
  unfolding writes_def by (induction ws arbitrary: s) (simp_all add: split_beta)

lemma hw_still [simp]:
  "queue_sets (csi2_hw_disable ops c s) = queue_sets s"
  "queue_sets (ipu4p_csi2_init_source6_bb8 ops c s) = queue_sets s"
  "queue_sets (snd (ipu4p_csi2_apply_source7_mipi_timing ops c s)) = queue_sets s"
  by (simp_all add: csi2_hw_disable_def ipu4p_csi2_init_source6_bb8_def ipu4p_csi2_apply_source7_mipi_timing_def
      split_beta Let_def split: option.split)

lemma hw_enable_still [simp]: "queue_sets (csi2_hw_enable ops c t n s) = queue_sets s"
  unfolding csi2_hw_enable_def Let_def split_beta by simp

lemma set_stream_still [simp]: "queue_sets (snd (csi2_set_stream ops p c e s)) = queue_sets s"
  by (simp add: csi2_set_stream_def csi2_start_receiver_def Let_def split: option.split sum.split)

lemma streams_still [simp]:
  "queue_sets (stop_started ops p c n s) = queue_sets s"
  "queue_sets (snd (start_streams ops p c n k s)) = queue_sets s"
  "queue_sets (snd (stop_streams ops p c n s)) = queue_sets s"
proof -
  show a [simp]: "queue_sets (stop_started ops p c n s) = queue_sets s" for n s
    by (induction n arbitrary: s) simp_all
  show "queue_sets (snd (start_streams ops p c n k s)) = queue_sets s"
    by (induction n arbitrary: k s) (simp_all add: split_beta Let_def)
  show "queue_sets (snd (stop_streams ops p c n s)) = queue_sets s"
    by (induction n arbitrary: s) (simp_all add: split_beta Let_def)
qed

lemma subdev_stream_still [simp]:
  "queue_sets (snd (ipu_isys_video_subdev_stream ops p v sd e s)) = queue_sets s"
  by (simp add: ipu_isys_video_subdev_stream_def v4l2_subdev_streams_def csi2_switch_streams_def
      split_beta Let_def split: sum.split)

lemma subdevs_still [simp]:
  "queue_sets (snd (snd (start_subdevs ops p v sds st s))) = queue_sets s"
  "queue_sets (snd (stop_subdevs ops p v sds er s)) = queue_sets s"
  by (induction sds arbitrary: st er s; simp add: split_beta Let_def)+

lemma wait_eof_still [simp]: "queue_sets (ipu_isys_csi2_wait_last_eof ops c s) = queue_sets s"
  unfolding ipu_isys_csi2_wait_last_eof_def
  by (rule fold_same [where F = queue_sets]) (simp add: wait_one_eof_def Let_def)

lemma sensor_still [simp]:
  "queue_sets (snd (stop_external_sensor ops p s)) = queue_sets s"
  "queue_sets (snd (perform_skew_cal ops p c s)) = queue_sets s"
  "queue_sets (snd (snd (start_sensor ops p s))) = queue_sets s"
  by (simp_all add: stop_external_sensor_def perform_skew_cal_def ipu_isys_csi2_set_skew_cal_def start_sensor_def
      Let_def split_beta split: option.split)

lemma unwind_still [simp]:
  "queue_sets (unwind_streaming ops p v b st s) = queue_sets s"
  "queue_sets (unwind_firmware ops p v b st s) = queue_sets s"
  by (simp_all add: unwind_streaming_def unwind_firmware_def Let_def split_beta)

lemma streaming_on_still [simp]: "queue_sets (snd (snd (streaming_on ops p v bl s))) = queue_sets s"
  unfolding streaming_on_def Let_def split_beta by (simp split: option.split)

lemma streaming_off_still [simp]: "queue_sets (snd (streaming_off ops p v s)) = queue_sets s"
  unfolding streaming_off_def Let_def split_beta by simp

lemma set_streaming_still [simp]:
  "queue_sets (snd (snd (ipu_isys_video_set_streaming ops p v state bl s))) = queue_sets s"
  by (simp add: ipu_isys_video_set_streaming_def split_beta Let_def)

section \<open>Starting returns\<close>

lemma ticks_still [simp]: "queue_sets (verify_ticks n ops p before s) = queue_sets s"
  by (induction n arbitrary: s) (simp_all add: Let_def)

lemma bounce_returns:
  assumes "clean ops" and "q \<in> queue_sets s p"
  shows "\<exists>r s'. bounce_sensor ops p c s = Some (r, s') \<and> queue_sets s' = queue_sets s"
proof -
  obtain r1 s1 where a: "sensor_s_stream ops p False s = (r1, s1)" by fastforce
  define s2 where "s2 = interrupts ops (snd (ipu_isys_csi2_error ops c s1))"
  obtain r3 s3 where b: "sensor_s_stream ops p True s2 = (r3, s3)" by fastforce
  have k: "queue_sets s1 = queue_sets s" using small_still(4) [of ops p False s] by (simp add: a)
  then have "queue_sets s2 = queue_sets s" by (simp add: s2_def)
  then have k3: "queue_sets s3 = queue_sets s" using small_still(4) [of ops p True s2] by (simp add: b)
  then show ?thesis
    using refeed_returns [OF assms(1), of q s3 p] assms(2) k
    by (simp add: bounce_sensor_def a s2_def [symmetric] b Let_def)
qed

lemma verify_loop_returns:
  assumes "clean ops" and "q \<in> queue_sets s p"
  shows "\<exists>r s'. verify_loop n ops p c before s = Some (r, s') \<and> queue_sets s' = queue_sets s"
  using assms(2)
proof (induction n arbitrary: s)
  case 0
  then show ?case by (subst verify_loop.simps) (simp add: Let_def)
next
  case (Suc n)
  let ?s1 = "verify_ticks VERIFY_TICKS ops p before s"
  obtain r s2 where b: "bounce_sensor ops p c ?s1 = Some (r, s2)" and k: "queue_sets s2 = queue_sets s"
    using bounce_returns [OF assms(1), of q ?s1 p c] Suc.prems by auto
  show ?case
    using Suc.IH [of s2] Suc.prems k by (subst verify_loop.simps) (simp add: Let_def b)
qed

lemma verify_returns:
  assumes "clean ops" and "q \<in> queue_sets s p"
  shows "\<exists>r s'. verify_stream_start ops p before s = Some (r, s') \<and> queue_sets s' = queue_sets s"
proof (cases "ip_csi2 (sy_ip s p)")
  case (Some c)
  define s0 where "s0 = upd_ip p (\<lambda>ip. ip\<lparr>ip_verify_active := True\<rparr>) s"
  have "q \<in> queue_sets s0 p" using assms(2) by (simp add: s0_def)
  then obtain r s1 where v: "verify_loop VERIFY_RETRIES ops p c before s0 = Some (r, s1)"
    and k1: "queue_sets s1 = queue_sets s0" using verify_loop_returns [OF assms(1)] by blast
  define s2 where "s2 = upd_ip p (\<lambda>ip. ip\<lparr>ip_verify_active := False\<rparr>) s1"
  have "q \<in> queue_sets s2 p" using assms(2) k1 by (simp add: s0_def s2_def)
  then obtain r' s3 where f: "stream_capture_refeed ops p s2 = Some (r', s3)"
    and k3: "queue_sets s3 = queue_sets s2" using refeed_returns [OF assms(1)] by blast
  show ?thesis
    using k1 k3 by (simp add: verify_stream_start_def Some s0_def [symmetric] v s2_def [symmetric] f)
      (simp add: s0_def s2_def)
qed (simp add: verify_stream_start_def)

lemma dispatch_still [simp]: "queue_sets (snd (snd (dispatch_requests n ops p s))) = queue_sets s"
proof (induction n arbitrary: s)
  case (Suc n)
  obtain q s1 where a: "ipu_isys_next_queued_request p s = (q, s1)" by fastforce
  obtain m s2 where b: "ipu_get_fw_msg_buf ops s1 = (m, s2)" by fastforce
  have k: "queue_sets s1 = queue_sets s" "queue_sets s2 = queue_sets s"
    using requests_still(1) [of p s] get_msg_still(1) [of ops s1] by (simp_all add: a b)
  show ?case by (simp add: a b k Suc.IH split_beta Let_def split: option.split)
qed simp

lemma stream_start_returns:
  assumes "clean ops" and "q \<in> queue_sets s p"
  shows "\<exists>r s'. ipu_isys_stream_start ops p bl err s = Some (r, s')"
proof -
  let ?req = "ipu_isys_find_queued_request p s"
  obtain r1 bl1 s1 where a: "ipu_isys_video_set_streaming ops p p True bl s = (r1, bl1, s1)" by (metis prod_cases3)
  have k1: "queue_sets s1 = queue_sets s" using set_streaming_still [of ops p p True bl s] by (simp add: a)
  define s2 where "s2 = upd_ip p (\<lambda>ip. ip\<lparr>ip_streaming := True\<rparr>) s1"
  define s3 where "s3 = (case bl of None \<Rightarrow> s2 | Some _ \<Rightarrow> (case ?req of None \<Rightarrow> s2
      | Some q \<Rightarrow> if q \<notin> set (sy_requests s2) then s2\<lparr>sy_requests := sy_requests s2 @ [q]\<rparr> else s2))"
  have k3: "queue_sets s3 = queue_sets s" by (simp add: s3_def s2_def k1 split: option.split)
  obtain r4 req s4 where d: "dispatch_requests (length (sy_requests s3)) ops p s3 = (r4, req, s4)" by (metis prod_cases3)
  have "queue_sets s4 = queue_sets s" using dispatch_still [of "length (sy_requests s3)" ops p s3] k3 by (simp add: d)
  then obtain r5 bl5 s5 where e: "submit_all ops p s4 = Some (r5, bl5, s5)" and k5: "queue_sets s5 = queue_sets s"
    using submit_all_returns [OF assms(1), of q s4 p] assms(2) by auto
  obtain r6 s6 where f: "verify_stream_start ops p (ip_frames_done (sy_ip s p)) s5 = Some (r6, s6)"
    using verify_returns [OF assms(1), of q s5 p "ip_frames_done (sy_ip s p)"] assms(2) k5 by auto
  show ?thesis
    unfolding ipu_isys_stream_start_def Let_def a prod.case s2_def [symmetric] s3_def [symmetric] d
    by (simp add: e f)
qed

lemma start_joined_returns:
  assumes "clean ops" and "q \<in> queue_sets s p"
  shows "\<exists>r s'. start_joined ops p v first bl s = Some (r, s')"
  using stream_start_returns [OF assms, of bl False] by (auto simp: start_joined_def)

lemma start_prepared_returns:
  assumes "clean ops"
  shows "\<exists>r s'. start_prepared ops p v first s = Some (r, s')"
proof -
  obtain l w where l: "w_link_fmt ops v (sy_world s) = (l, w)" by fastforce
  define s2 where "s2 = upd_ip p (\<lambda>ip. ip\<lparr>ip_nr_streaming := ip_nr_streaming ip + 1,
                                   ip_queues := v # ip_queues ip\<rparr>) (s\<lparr>sy_world := w\<rparr>)"
  have 2: "v \<in> queue_sets s2 p" by (simp add: s2_def queue_sets_def upd_ip_def)
  obtain x bl s3 where g: "buffer_list_get ops p s2 = (x, bl, s3)" by (metis prod_cases3)
  have 3: "v \<in> queue_sets s3 p" using buffer_list_get_still [of ops p s2] 2 by (simp add: g)
  show ?thesis
    using start_joined_returns [OF assms 2, of v first None] start_joined_returns [OF assms 3, of v first "Some bl"]
    by (simp add: start_prepared_def l s2_def [symmetric] g Let_def)
qed

lemma start_streaming_ends: "clean ops \<Longrightarrow> \<exists>r s'. start_streaming ops v s = Some (r, s')"
  using start_prepared_returns [of ops]
  by (auto simp: start_streaming_def split_beta split: option.split)

lemma buf_queue_ends:
  assumes "clean ops"
    and "\<And>p. av_pipe (sy_av s (ib_queue (sy_buf s b))) = Some p \<Longrightarrow> ip_queues (sy_ip s p) \<noteq> []"
  shows "\<exists>s'. buf_queue ops b s = Some s'"
proof (cases "av_pipe (sy_av s (ib_queue (sy_buf s b)))")
  case (Some p)
  let ?v = "ib_queue (sy_buf s b)"
  define s1 where "s1 = list_add b (Incoming ?v) s"
  obtain q where q: "q \<in> queue_sets s p" using assms(2) [OF Some] by (auto simp: queue_sets_def) fastforce
  obtain r bl s2 where g: "buffer_list_get ops p s1 = (r, bl, s2)" by (metis prod_cases3)
  have "queue_sets s1 = queue_sets s" by (simp add: s1_def)
  then have "q \<in> queue_sets s2 p" using buffer_list_get_still [of ops p s1] q by (simp add: g)
  then obtain x s3 where "ipu_isys_stream_start ops p (Some bl) True s2 = Some (x, s3)"
    using stream_start_returns [OF assms(1)] by blast
  moreover have "av_pipe (sy_av s1 ?v) = Some p" using Some by (simp add: s1_def list_add_def put_list_def)
  ultimately show ?thesis
    by (simp add: buf_queue_def s1_def [symmetric] Let_def g)
qed (simp add: buf_queue_def list_add_def put_list_def Let_def)

end
