(* ===== verification/IsysExample.thy ===== *)
theory IsysExample
  imports IsysStart
begin

text \<open>
  Machines on which the capture queues are run: one without sensors, on which no pipeline can be prepared,
  and one with a sensor that delivers its first frame only after it has been switched off and on again.
\<close>

section \<open>A machine without sensors\<close>

definition example_ops :: "unit isys_ops" where
  "example_ops = \<lparr>w_fw_call = (\<lambda>h c w. (0, w)), w_irqs = (\<lambda>w. ([], w)), w_msg_alloc = (\<lambda>w. (Some 64, w)),
     w_prepare_frame_buff_set = (\<lambda>b w. w), w_s_stream = (\<lambda>e on w. (0, w)),
     w_enable_streams = (\<lambda>sd pad m e w. (0, w)), w_streams_flag = (\<lambda>sd. False),
     w_src_stream = (\<lambda>sd pad w. 0), w_remote_pad = (\<lambda>v w. None), w_graph = (\<lambda>v. [Video_entity v]),
     w_upstream = (\<lambda>e. None), w_kind = (\<lambda>sd. Other_subdev), w_links = (\<lambda>e. []), w_num_pads = (\<lambda>e. 0),
     w_validates = (\<lambda>e. False), w_link_check = (\<lambda>e lk w. ((True, False, 0), w)),
     w_asd_source = (\<lambda>sd. 0), w_asd_isl = (\<lambda>sd. IPU_ISL_OFF), w_query_sub_stream = (\<lambda>sd w. False),
     w_sub_stream = (\<lambda>sd i w. Inl E_INVAL), w_enum_init = (\<lambda>w. (0, w)), w_header_conflict = (\<lambda>sd. False),
     w_link_fmt = (\<lambda>v w. (0, w)), w_short_alloc = (\<lambda>p w. (None, w)), w_graph_init = (\<lambda>w. (0, w)),
     w_external_format = (\<lambda>p w. ((0, 640, 480, MEDIA_BUS_FMT_Y10_1X10), w)),
     w_store_csi2_header = (\<lambda>c w. False), w_selection = (\<lambda>sd v w. None),
     w_link_freq = (\<lambda>c w. Inr 419200000), w_host_lanes = (\<lambda>e w. Some 2),
     w_readl = (\<lambda>r w. (0, w)), w_writel = (\<lambda>v r w. w), w_get_resp = (\<lambda>w. (None, w)),
     w_ktime = (\<lambda>w. (0, w)), w_tsc = (\<lambda>w. (Some 0, w)), w_current_field = (\<lambda>p t w. (0, w))\<rparr>"

definition example_pipeline :: isys_pipeline where
  "example_pipeline = \<lparr>ip_external = None, ip_sequence = 0, ip_frames_done = 0, ip_verify_active = False,
     ip_seq_index = 0, ip_seq = [], ip_source = 0, ip_stream_handle = -1, ip_nr_output_pins = 0,
     ip_isl_mode = IPU_ISL_OFF, ip_csi2_be = None, ip_csi2_be_soc = None, ip_csi2 = None, ip_tpg = None,
     ip_nr_queues = 0, ip_nr_streaming = 0, ip_streaming = False, ip_queues = [],
     ip_completion = (\<lambda>_. 0), ip_capture_done = [], ip_output_pins = (\<lambda>_. None), ip_has_sof = False,
     ip_interlaced = False, ip_error = 0, ip_num_short_packet_lines = 0, ip_short_packet_output_pin = 0,
     ip_cur_field = 0, ip_vc = 0, ip_stream_id = 0, ip_start_count = 0, ip_asv = (\<lambda>_. (0, 0)),
     ip_entities = []\<rparr>"

definition fresh_isys :: "'w \<Rightarrow> 'w isys" where
  "fresh_isys w = \<lparr>sy_world = w,
     sy_buf = (\<lambda>b. \<lparr>ib_type = IPU_ISYS_VIDEO_BUFFER, ib_queue = 0, ib_req = None, ib_str2mmio_flag = False,
                    ib_index = ucast b, ib_addr = 4096 * ucast b, ib_timestamp = 0, ib_sequence = 0,
                    ib_field = 0\<rparr>),
     sy_list = (\<lambda>_. []),
     sy_aq = (\<lambda>v. \<lparr>aq_fw_output = 0, aq_css_pin_type = 0, aq_prepare_frame_buff_set = False,
                   aq_fill_frame_buff_set_pin =
                     Some ipu_isys_buffer_list_to_ipu_fw_isys_frame_buff_set_pin,
                   aq_vbq_streaming = False\<rparr>),
     sy_av = (\<lambda>v. \<lparr>av_pipe = None, av_streaming = False, av_width = 640, av_height = 480,
                   av_bytesperline = 1280, av_bpp_planar = 0, av_css_pixelformat = 21\<rparr>),
     sy_ip = (\<lambda>p. example_pipeline),
     sy_csi2 = (\<lambda>c. \<lparr>cs_index = 0, cs_source = 0, cs_nlanes = 2, cs_stream_count = 0,
                    cs_remote_streams = 0, cs_receiver_errors = 0, cs_last_receiver_errors = 0,
                    cs_fatal_receiver_errors = 0, cs_in_frame = (\<lambda>_. False),
                    cs_wait_for_sync = (\<lambda>_. False), cs_eof_completion = 0\<rparr>),
     sy_sd_pipe = (\<lambda>_. None), sy_short_bufs = (\<lambda>_. []), sy_pipes = (\<lambda>_. None), sy_requests = [],
     sy_req_buffers = (\<lambda>_. []), sy_framebuflist = [], sy_framebuflist_fw = [], sy_stream_opened = 0,
     sy_video_opened = 1, sy_reset_needed = False, sy_fwcom = True, sy_power = True, sy_flr_done = False,
     sy_isr_csi2_bits = 0, sy_nports = [], sy_be_av = (\<lambda>_. 0), sy_isa_av = 0, sy_line_align = 64,
     sy_use_stream_stop = False, sy_quirks = None, sy_isa_config = 0, sy_isa_3a = 0,
     sy_short_packet_source = IPU_ISYS_SHORT_PACKET_FROM_RECEIVER, sy_done = [], sy_sent = [],
     sy_sensor = [], sy_wild = False\<rparr>"

definition example_isys :: "unit isys" where
  "example_isys = fresh_isys ()"

section \<open>A machine with a sensor\<close>

text \<open>
  Video node 0 takes its frames from receiver 5, which is connected to sensor 9.  The world holds the
  firmware's answers that have not been read, and how often the sensor has been switched on.  The firmware
  answers every command; the frame of the first buffer (address 4096) comes with the second start of the
  sensor.
\<close>

definition answer :: "u8 \<Rightarrow> fw_resp" where
  "answer t = \<lparr>rs_buf_id = 0, rs_pin_addr = 4096, rs_error = 0, rs_timestamp_lo = 0, rs_timestamp_hi = 0,
     rs_stream_handle = 0, rs_type = t, rs_pin_id = 0\<rparr>"

definition live_answers :: "fw_send \<Rightarrow> u8 list" where
  "live_answers c =
     (case c of
        STREAM_OPEN _ \<Rightarrow> [IPU_FW_ISYS_RESP_TYPE_STREAM_OPEN_DONE]
      | STREAM_START \<Rightarrow> [IPU_FW_ISYS_RESP_TYPE_STREAM_START_ACK]
      | STREAM_START_AND_CAPTURE _ \<Rightarrow> [IPU_FW_ISYS_RESP_TYPE_STREAM_START_AND_CAPTURE_ACK]
      | STREAM_CAPTURE _ \<Rightarrow> [IPU_FW_ISYS_RESP_TYPE_STREAM_CAPTURE_ACK]
      | STREAM_STOP \<Rightarrow> [IPU_FW_ISYS_RESP_TYPE_STREAM_STOP_ACK]
      | STREAM_FLUSH \<Rightarrow> [IPU_FW_ISYS_RESP_TYPE_STREAM_FLUSH_ACK]
      | STREAM_CLOSE \<Rightarrow> [IPU_FW_ISYS_RESP_TYPE_STREAM_CLOSE_ACK])"

definition live_stream :: "bool \<Rightarrow> u8 list \<times> nat \<Rightarrow> int \<times> u8 list \<times> nat" where
  "live_stream on w =
     (if on then (0, (if snd w = 1 then fst w @ [IPU_FW_ISYS_RESP_TYPE_PIN_DATA_READY] else fst w), snd w +
         1)
      else (0, w))"

definition live_links :: "media_entity \<Rightarrow> media_link list" where
  "live_links e =
     (if e = Subdev_entity 5 True
      then [\<lparr>lk_pad = 0, lk_is_sink = True, lk_must_connect = True, lk_enabled = True, lk_source = 9,
             lk_source_is_subdev = True, lk_source_ours = False, lk_source_is_tpg = False,
             lk_source_single_pad = True\<rparr>]
      else [])"

definition live_ops :: "(u8 list \<times> nat) isys_ops" where
  "live_ops = \<lparr>w_fw_call = (\<lambda>h c w. (0, fst w @ live_answers c, snd w)),
     w_irqs = (\<lambda>w. (replicate (length (fst w)) Fw_irq, w)), w_msg_alloc = (\<lambda>w. (Some 64, w)),
     w_prepare_frame_buff_set = (\<lambda>b w. w), w_s_stream = (\<lambda>e on w. live_stream on w),
     w_enable_streams = (\<lambda>sd pad m e w. (0, w)), w_streams_flag = (\<lambda>sd. sd = 5),
     w_src_stream = (\<lambda>sd pad w. 0), w_remote_pad = (\<lambda>v w. Some (5, 1, True)),
     w_graph = (\<lambda>v. [Video_entity v, Subdev_entity 5 True, Subdev_entity 9 False]),
     w_upstream = (\<lambda>e. if e = Subdev_entity 5 True then Some (Subdev_entity 9 False) else None),
     w_kind = (\<lambda>sd. if sd = 5 then Csi2_subdev else Other_subdev), w_links = live_links,
     w_num_pads = (\<lambda>e. if e = Subdev_entity 5 True then 1 else 0),
     w_validates = (\<lambda>e. e = Subdev_entity 5 True), w_link_check = (\<lambda>e lk w. ((True, False, 0), w)),
     w_asd_source = (\<lambda>sd. 0), w_asd_isl = (\<lambda>sd. IPU_ISL_OFF), w_query_sub_stream = (\<lambda>sd w. False),
     w_sub_stream = (\<lambda>sd i w. Inl E_INVAL), w_enum_init = (\<lambda>w. (0, w)), w_header_conflict = (\<lambda>sd. False),
     w_link_fmt = (\<lambda>v w. (0, w)), w_short_alloc = (\<lambda>p w. (None, w)), w_graph_init = (\<lambda>w. (0, w)),
     w_external_format = (\<lambda>p w. ((0, 640, 480, MEDIA_BUS_FMT_Y10_1X10), w)),
     w_store_csi2_header = (\<lambda>c w. False), w_selection = (\<lambda>sd v w. None),
     w_link_freq = (\<lambda>c w. Inr 419200000), w_host_lanes = (\<lambda>e w. Some 2),
     w_readl = (\<lambda>r w. (0, w)), w_writel = (\<lambda>v r w. w),
     w_get_resp = (\<lambda>w. case fst w of [] \<Rightarrow> (None, w) | t # ts \<Rightarrow> (Some (answer t), ts, snd w)),
     w_ktime = (\<lambda>w. (0, w)), w_tsc = (\<lambda>w. (Some 0, w)), w_current_field = (\<lambda>p t w. (0, w))\<rparr>"

definition live_isys :: "(u8 list \<times> nat) isys" where
  "live_isys = fresh_isys ([], 0)"

definition live_start :: "(u8 list \<times> nat) isys" where
  "live_start = list_add 2 (Incoming 0) (list_add 1 (Incoming 0) live_isys)"

text \<open>The states of the machine once the pipeline of node 0 has been prepared.\<close>

definition live_queue :: isys_queue where
  "live_queue = \<lparr>aq_fw_output = 0, aq_css_pin_type = 0, aq_prepare_frame_buff_set = False,
     aq_fill_frame_buff_set_pin = Some ipu_isys_buffer_list_to_ipu_fw_isys_frame_buff_set_pin,
     aq_vbq_streaming = False\<rparr>"

definition live_video :: "node option \<Rightarrow> bool \<Rightarrow> isys_video" where
  "live_video p b = \<lparr>av_pipe = p, av_streaming = b, av_width = 640, av_height = 480,
     av_bytesperline = 1280, av_bpp_planar = 0, av_css_pixelformat = 21\<rparr>"

definition live_receiver :: isys_csi2 where
  "live_receiver = \<lparr>cs_index = 0, cs_source = 0, cs_nlanes = 2, cs_stream_count = 0,
     cs_remote_streams = 0, cs_receiver_errors = 0, cs_last_receiver_errors = 0,
     cs_fatal_receiver_errors = 0, cs_in_frame = (\<lambda>_. False),
     cs_wait_for_sync = (\<lambda>_. False), cs_eof_completion = 0\<rparr>"

definition live_state ::
  "u8 list \<times> nat \<Rightarrow> (list_id \<Rightarrow> buf list) \<Rightarrow> isys_pipeline \<Rightarrow> isys_csi2 \<Rightarrow> (buf \<Rightarrow> isys_buffer) \<Rightarrow>
   u64 list \<Rightarrow> u64 list \<Rightarrow> (nat \<Rightarrow> node option) \<Rightarrow> u32 \<Rightarrow> bool \<Rightarrow> (buf \<times> vb2_buffer_state) list \<Rightarrow>
   (int \<times> fw_send \<times> int) list \<Rightarrow> (bool \<times> int) list \<Rightarrow> (u8 list \<times> nat) isys" where
  "live_state w l ip cs buf fl flf pipes n st dn sent sens =
     (fresh_isys w)\<lparr>sy_list := l, sy_ip := (\<lambda>_. example_pipeline)(0 := ip),
       sy_csi2 := (\<lambda>_. live_receiver)(5 := cs), sy_buf := buf, sy_framebuflist := fl,
       sy_framebuflist_fw := flf, sy_pipes := pipes, sy_stream_opened := n,
       sy_av := (\<lambda>_. live_video None False)(0 := live_video (Some 0) st),
       sy_sd_pipe := (\<lambda>_. None)(5 := Some 0, 9 := Some 0), sy_done := dn, sy_sent := sent,
       sy_sensor := sens\<rparr>"

lemma live_selectors [simp]:
  "sy_world (live_state w l ip cs buf fl flf pipes n st dn sent sens) = w"
  "sy_list (live_state w l ip cs buf fl flf pipes n st dn sent sens) = l"
  "sy_ip (live_state w l ip cs buf fl flf pipes n st dn sent sens) 0 = ip"
  "sy_csi2 (live_state w l ip cs buf fl flf pipes n st dn sent sens) 5 = cs"
  "sy_buf (live_state w l ip cs buf fl flf pipes n st dn sent sens) = buf"
  "sy_framebuflist (live_state w l ip cs buf fl flf pipes n st dn sent sens) = fl"
  "sy_framebuflist_fw (live_state w l ip cs buf fl flf pipes n st dn sent sens) = flf"
  "sy_pipes (live_state w l ip cs buf fl flf pipes n st dn sent sens) = pipes"
  "sy_stream_opened (live_state w l ip cs buf fl flf pipes n st dn sent sens) = n"
  "sy_av (live_state w l ip cs buf fl flf pipes n st dn sent sens) 0 = live_video (Some 0) st"
  "sy_done (live_state w l ip cs buf fl flf pipes n st dn sent sens) = dn"
  "sy_sent (live_state w l ip cs buf fl flf pipes n st dn sent sens) = sent"
  "sy_sensor (live_state w l ip cs buf fl flf pipes n st dn sent sens) = sens"
  "sy_aq (live_state w l ip cs buf fl flf pipes n st dn sent sens) v = live_queue"
  "sy_requests (live_state w l ip cs buf fl flf pipes n st dn sent sens) = []"
  "sy_fwcom (live_state w l ip cs buf fl flf pipes n st dn sent sens) = True"
  "sy_quirks (live_state w l ip cs buf fl flf pipes n st dn sent sens) = None"
  by (simp_all add: live_state_def fresh_isys_def live_queue_def)

lemma live_updaters [simp]:
  "live_state w l ip cs buf fl flf pipes n st dn sent sens\<lparr>sy_world := w'\<rparr> =
   live_state w' l ip cs buf fl flf pipes n st dn sent sens"
  "put_list k xs (live_state w l ip cs buf fl flf pipes n st dn sent sens) =
   live_state w (l(k := xs)) ip cs buf fl flf pipes n st dn sent sens"
  "upd_ip 0 f (live_state w l ip cs buf fl flf pipes n st dn sent sens) =
   live_state w l (f ip) cs buf fl flf pipes n st dn sent sens"
  "upd_csi2 5 g (live_state w l ip cs buf fl flf pipes n st dn sent sens) =
   live_state w l ip (g cs) buf fl flf pipes n st dn sent sens"
  "upd_buf b h (live_state w l ip cs buf fl flf pipes n st dn sent sens) =
   live_state w l ip cs (buf(b := h (buf b))) fl flf pipes n st dn sent sens"
  "live_state w l ip cs buf fl flf pipes n st dn sent sens\<lparr>sy_framebuflist := fl'\<rparr> =
   live_state w l ip cs buf fl' flf pipes n st dn sent sens"
  "live_state w l ip cs buf fl flf pipes n st dn sent sens\<lparr>sy_framebuflist_fw := flf'\<rparr> =
   live_state w l ip cs buf fl flf' pipes n st dn sent sens"
  "live_state w l ip cs buf fl flf pipes n st dn sent sens\<lparr>sy_pipes := pipes'\<rparr> =
   live_state w l ip cs buf fl flf pipes' n st dn sent sens"
  "live_state w l ip cs buf fl flf pipes n st dn sent sens\<lparr>sy_stream_opened := n'\<rparr> =
   live_state w l ip cs buf fl flf pipes n' st dn sent sens"
  "live_state w l ip cs buf fl flf pipes n st dn sent sens\<lparr>sy_sensor := sens'\<rparr> =
   live_state w l ip cs buf fl flf pipes n st dn sent sens'"
  "live_state w l ip cs buf fl flf pipes n st dn sent sens\<lparr>sy_sent := sent'\<rparr> =
   live_state w l ip cs buf fl flf pipes n st dn sent' sens"
  "vb2_buffer_done b x (live_state w l ip cs buf fl flf pipes n st dn sent sens) =
   live_state w l ip cs buf fl flf pipes n st (dn @ [(b, x)]) sent sens"
  "upd_av 0 (\<lambda>av. av\<lparr>av_streaming := st'\<rparr>) (live_state w l ip cs buf fl flf pipes n st dn sent sens) =
   live_state w l ip cs buf fl flf pipes n st' dn sent sens"
  "upd_aq 0 (\<lambda>aq. aq\<lparr>aq_fw_output := 0\<rparr>) (live_state w l ip cs buf fl flf pipes n st dn sent sens) =
   live_state w l ip cs buf fl flf pipes n st dn sent sens"
  by (simp_all add: live_state_def fresh_isys_def put_list_def upd_ip_def upd_csi2_def upd_buf_def
      vb2_buffer_done_def upd_av_def live_video_def upd_aq_def fun_upd_idem)

section \<open>A start that succeeds\<close>

lemma live_world [simp]:
  "w_readl live_ops r w = (0, w)" "w_writel live_ops x r w = w"
  "w_graph_init live_ops w = (0, w)" "w_irqs live_ops w = (replicate (length (fst w)) Fw_irq, w)"
  "w_enum_init live_ops w = (0, w)" "w_remote_pad live_ops v w = Some (5, 1, True)"
  "w_graph live_ops v = [Video_entity v, Subdev_entity 5 True, Subdev_entity 9 False]"
  "w_links live_ops e = live_links e" "w_link_check live_ops e lk w = ((True, False, 0), w)"
  "w_asd_source live_ops sd = 0" "w_asd_isl live_ops sd = IPU_ISL_OFF"
  "w_header_conflict live_ops sd = False" "w_link_fmt live_ops v w = (0, w)"
  "w_validates live_ops e = (e = Subdev_entity 5 True)"
  "w_kind live_ops sd = (if sd = 5 then Csi2_subdev else Other_subdev)"
  "w_num_pads live_ops e = (if e = Subdev_entity 5 True then 1 else 0)"
  "w_upstream live_ops e = (if e = Subdev_entity 5 True then Some (Subdev_entity 9 False) else None)"
  "w_fw_call live_ops h cmd w = (0, fst w @ live_answers cmd, snd w)" "w_msg_alloc live_ops w = (Some 64,
      w)"
  "w_s_stream live_ops sd on w = live_stream on w" "w_enable_streams live_ops sd pad m on w = (0, w)"
  "w_streams_flag live_ops sd = (sd = 5)" "w_src_stream live_ops sd pad w = 0"
  "w_external_format live_ops p w = ((0, 640, 480, MEDIA_BUS_FMT_Y10_1X10), w)"
  "w_store_csi2_header live_ops sd w = False" "w_selection live_ops sd p w = None"
  "w_link_freq live_ops sd w = Inr 419200000" "w_host_lanes live_ops sd w = Some 2"
  "w_get_resp live_ops w = (case fst w of [] \<Rightarrow> (None, w) | t # ts \<Rightarrow> (Some (answer t), ts, snd w))"
  "w_ktime live_ops w = (0, w)" "w_tsc live_ops w = (Some 0, w)" "w_prepare_frame_buff_set live_ops b w = w"
  by (simp_all add: live_ops_def)

lemma live_registers [simp]: "isys_readl live_ops r s = (0, s)" "isys_writel live_ops x r s = s"
  by (simp_all add: isys_readl_def isys_writel_def)

lemmas live_updates = upd_ip_def upd_csi2_def upd_av_def upd_buf_def put_list_def list_add_def
    list_add_tail_def upd_aq_def

lemma no_extern [simp]: "find_extern MEDIA_ENTITY_ENUM_MAX_DEPTH live_ops (Subdev_entity 5 True) = None"
proof -
  have "MEDIA_ENTITY_ENUM_MAX_DEPTH = Suc (Suc 14)" by (simp add: MEDIA_ENTITY_ENUM_MAX_DEPTH_def)
  show ?thesis unfolding \<open>MEDIA_ENTITY_ENUM_MAX_DEPTH = _\<close> find_extern.simps by simp
qed

definition live_prepared :: isys_pipeline where
  "live_prepared = (reset_pipeline example_pipeline)\<lparr>ip_external := Some 9, ip_source := 0, ip_csi2 := Some
      5,
     ip_capture_done := [Csi2_capture_done], ip_nr_queues := 1, ip_start_count := 1, ip_entities := [0]\<rparr>"

definition live_bufs :: "buf \<Rightarrow> isys_buffer" where
  "live_bufs b = \<lparr>ib_type = IPU_ISYS_VIDEO_BUFFER, ib_queue = 0, ib_req = None, ib_str2mmio_flag = False,
     ib_index = ucast b, ib_addr = 4096 * ucast b, ib_timestamp = 0, ib_sequence = 0, ib_field = 0\<rparr>"

definition live_ready :: "(u8 list \<times> nat) isys" where
  "live_ready = live_state ([], 0) ((\<lambda>_. [])(Incoming 0 := [2, 1])) live_prepared
     (live_receiver\<lparr>cs_remote_streams := 1\<rparr>) live_bufs [] [] (\<lambda>_. None) 0 False [] [] []"

lemma live_walk: "ipu_isys_video_prepare_streaming live_ops 0 live_start = (0, live_ready)"
  by (simp add: ipu_isys_video_prepare_streaming_def media_pipeline_walk_by_vc_def is_support_vc_def
     walk_graph_def  live_start_def list_add_def put_list_def live_isys_def fresh_isys_def
    live_updates reset_pipeline_def example_pipeline_def)
   (simp add: Let_def takes_entity_def entity_pipe_def set_entity_pipe_def live_updates validate_entity_def
       live_links_def
    link_validate_def csi2_link_validate_def ipu_isys_video_add_capture_done_def subdev_link_validate_def
        core_link_check_def
    ipu_isys_subdev_link_validate_def gather_entities_def undo_pipeline_def List.map_filter_def
        IPU_NUM_CAPTURE_DONE_def
    live_ready_def live_state_def live_prepared_def live_receiver_def live_bufs_def fresh_isys_def
        live_video_def reset_pipeline_def example_pipeline_def fun_eq_iff)

lemma live_video_pipe [simp]: "av_pipe (live_video p b) = p" by (simp add: live_video_def)
lemma live_bufs_fields [simp]:
  "ib_type (live_bufs b) = IPU_ISYS_VIDEO_BUFFER" "ib_queue (live_bufs b) = 0" "ib_req (live_bufs b) = None"
  "ib_addr (live_bufs b) = 4096 * ucast b" "ib_str2mmio_flag (live_bufs b) = False"
  by (simp_all add: live_bufs_def)
lemma live_queue_fields [simp]:
  "aq_prepare_frame_buff_set live_queue = False" "aq_fw_output live_queue = 0"
  "aq_fill_frame_buff_set_pin live_queue = Some ipu_isys_buffer_list_to_ipu_fw_isys_frame_buff_set_pin"
  by (simp_all add: live_queue_def)

lemma live_get:
  assumes "ip_queues ip = [0]" "\<not> ip_interlaced ip"
  shows "buffer_list_get live_ops 0 (live_state w l ip cs live_bufs fl flf pipes n st dn sent sens) =
    (if l (Incoming 0) = [] then (E_NODATA, \<lparr>bl_head = [], bl_nbufs = 0\<rparr>, live_state w l ip cs live_bufs fl
        flf pipes n st dn sent sens)
     else (0, \<lparr>bl_head = [last (l (Incoming 0))], bl_nbufs = 1\<rparr>,
       live_state w (l(Incoming 0 := butlast (l (Incoming 0)))) ip cs live_bufs fl flf pipes n st dn sent
           sens))"
  using assms by (simp add: buffer_list_get_def Let_def E_NODATA_def give_back_def)

lemma live_message:
  "ipu_get_fw_msg_buf live_ops (live_state w l ip cs buf fl flf pipes n st dn sent sens) =
   (if fl = [] then (Some 64, live_state w l ip cs buf [64,64,64,64] (64 # flf) pipes n st dn sent sens)
    else (Some (last fl), live_state w l ip cs buf (butlast fl) (last fl # flf) pipes n st dn sent sens))"
  by (simp add: ipu_get_fw_msg_buf_def alloc_fw_msg_buffers_def eval_nat_numeral Let_def)

lemma live_put_message:
  "ipu_put_fw_mgs_buffer 64 (live_state w l ip cs buf fl flf pipes n st dn sent sens) =
   live_state w l ip cs buf (64 # removeAll 64 fl) (removeAll 64 flf) pipes n st dn sent sens"
  by (simp add: ipu_put_fw_mgs_buffer_def)

lemma live_active:
  "ipu_isys_buffer_list_queue \<lparr>bl_head = [b], bl_nbufs = 1\<rparr> IPU_ISYS_BUFFER_LIST_FL_ACTIVE v
     (live_state w l ip cs live_bufs fl flf pipes n st dn sent sens) =
   (\<lparr>bl_head = [], bl_nbufs = 0\<rparr>,
    live_state w (l(Active 0 := b # l (Active 0))) ip cs live_bufs fl flf pipes n st dn sent sens)"
  by (simp add: ipu_isys_buffer_list_queue_def queue_one_def Let_def list_add_def
      IPU_ISYS_BUFFER_LIST_FL_ACTIVE_def IPU_ISYS_BUFFER_LIST_FL_SET_STATE_def)

text \<open>The interrupts: an acknowledgement completes its wait, the frame completes the first buffer.\<close>

lemma live_idle:
  "interrupts live_ops (live_state ([], k) l ip cs buf fl flf pipes n st dn sent sens) =
   live_state ([], k) l ip cs buf fl flf pipes n st dn sent sens"
  by (simp add: interrupts_def)

definition acked :: "isys_completion \<Rightarrow> isys_pipeline \<Rightarrow> isys_pipeline" where
  "acked c ip = ip\<lparr>ip_error := 0, ip_completion := (ip_completion ip)(c := ip_completion ip c + 1)\<rparr>"

lemma live_ack:
  assumes "pipes 0 = Some 0"
  shows "interrupts live_ops (live_state ([IPU_FW_ISYS_RESP_TYPE_STREAM_OPEN_DONE], k)
      l ip cs buf fl flf pipes n st dn sent sens) =
    live_state ([], k) l (acked Stream_open ip) cs buf fl flf pipes n st dn sent sens"
    "interrupts live_ops (live_state ([IPU_FW_ISYS_RESP_TYPE_STREAM_START_AND_CAPTURE_ACK], k)
      l ip cs buf fl flf pipes n st dn sent sens) =
    live_state ([], k) l (acked Stream_start ip) cs buf fl flf pipes n st dn sent sens"
    "interrupts live_ops (live_state ([IPU_FW_ISYS_RESP_TYPE_STREAM_CAPTURE_ACK], k)
      l ip cs buf fl flf pipes n st dn sent sens) =
    live_state ([], k) l (acked Capture_ack ip) cs buf fl flf pipes n st dn sent sens"
  using assms
  by (simp_all add: interrupts_def isys_irq_def isys_isr_one_def ipu_fw_isys_get_resp_def answer_def
      IPU_ISYS_MAX_STREAMS_def isys_response_def resp_types complete_stream_def ipu_put_fw_mgs_buffer_def
      Let_def acked_def)

lemma live_cmd:
  "fw_cmd live_ops 0 cmd (live_state ([], k) l ip cs buf fl flf pipes n st dn sent sens) =
   (0, interrupts live_ops (live_state (live_answers cmd, k) l ip cs buf fl flf pipes n st dn
      (sent @ [(ip_stream_handle ip, cmd, 0)]) sens))"
  by (simp add: fw_cmd_def Let_def)

lemma live_wait:
  "wait_completion live_ops 0 c (live_state ([], k) l ip cs buf fl flf pipes n st dn sent sens) =
   (if ip_completion ip c > 0
    then (True, live_state ([], k) l (ip\<lparr>ip_completion := (ip_completion ip)(c := ip_completion ip c - 1)\<rparr>)
        cs buf fl flf pipes n st dn sent sens)
    else (False, live_state ([], k) l ip cs buf fl flf pipes n st dn sent sens))"
  by (simp add: wait_completion_def Let_def live_idle)

lemma live_receiver_error:
  assumes "cs_receiver_errors cs = 0" "cs_last_receiver_errors cs = 0"
  shows "ipu_isys_csi2_error live_ops 5 (live_state w l ip cs buf fl flf pipes n st dn sent sens) =
   (0, live_state w l ip cs buf fl flf pipes n st dn sent sens)"
  using assms by (cases cs) (simp add: ipu_isys_csi2_error_def ipu4p_isys_register_errors_def Let_def)

definition live_running :: isys_csi2 where
  "live_running = live_receiver\<lparr>cs_remote_streams := 1, cs_stream_count := 1\<rparr>"

definition live_joined :: isys_pipeline where
  "live_joined = live_prepared\<lparr>ip_nr_streaming := 1, ip_queues := [0]\<rparr>"

lemma live_joined_fields [simp]:
  "ip_queues live_joined = [0]" "\<not> ip_interlaced live_joined" "ip_external live_joined = Some 9"
  "ip_csi2 live_joined = Some 5" "ip_vc live_joined = 0" "ip_completion live_joined = (\<lambda>_. 0)"
  "ip_nr_queues live_joined = 1" "ip_nr_streaming live_joined = 1" "ip_isl_mode live_joined = IPU_ISL_OFF"
  "ip_frames_done live_joined = 0" "ip_tpg live_joined = None" "ip_csi2_be live_joined = None" 
  "ip_csi2_be_soc live_joined = None" "ip_source live_joined = 0" "ip_output_pins live_joined = (\<lambda>_. None)"
  "ip_stream_handle live_joined = -1"
  by (simp_all add: live_joined_def live_prepared_def reset_pipeline_def example_pipeline_def)

lemma live_receiver_fields [simp]:
  "cs_stream_count live_receiver = 0" "cs_source live_receiver = 0" "cs_receiver_errors live_receiver = 0"
  "cs_last_receiver_errors live_receiver = 0" "cs_fatal_receiver_errors live_receiver = 0"
  by (simp_all add: live_receiver_def)

lemma writes_live [simp]: "writes live_ops ws s = s"
proof -
  have "fold (\<lambda>(v, r). isys_writel live_ops v r) ws s = s" by (induction ws) auto
  then show ?thesis by (simp add: writes_def)
qed

lemma live_subdevs:
  "own_subdevs live_ops 0 0 (live_state w l ip cs buf fl flf pipes n st dn sent sens) =
     (if ip_external ip = Some 5 then [] else [5])"
  by (simp add: own_subdevs_def List.map_filter_def)

lemma live_timing:
  "\<exists>t. ipu_isys_csi2_calc_timing (Inr 419200000) CSI2_ACCINV = Inr t \<and> (\<exists>x. tm_csettle t = Some x)"
  by (simp add: ipu_isys_csi2_calc_timing_def calc_timing_def DIV_SHIFT_def drop_bit_eq_div
      signed_take_bit_int_eq_self Let_def)

lemma live_enable:
  assumes "cs_source cs = 0"
  shows "csi2_hw_enable live_ops 5 t k (live_state w l ip cs buf fl flf pipes n st dn sent sens) =
     live_state w l ip cs buf fl flf pipes n st dn sent sens"
  using assms by (simp add: csi2_hw_enable_def ipu4p_csi2_init_source6_bb8_def
     ipu4p_csi2_apply_source7_mipi_timing_def Let_def)

lemma live_receiver_equal:
  "live_receiver\<lparr>cs_remote_streams := 1, cs_receiver_errors := 0, cs_last_receiver_errors := 0,
     cs_fatal_receiver_errors := 0\<rparr> = live_receiver\<lparr>cs_remote_streams := 1\<rparr>"
  by (simp add: live_receiver_def)

definition live_going :: isys_pipeline where
  "live_going = live_joined\<lparr>ip_stream_id := 0, ip_has_sof := True\<rparr>"

lemma live_start_receiver:
  "start_subdevs live_ops 0 0 [5] [] (live_state w l live_joined (live_receiver\<lparr>cs_remote_streams := 1\<rparr>) buf
      fl flf pipes n st dn sent sens) =
   (0, [5], live_state w l live_going live_running buf fl flf pipes n st dn sent sens)"
proof -
  have "mask_bits 1 = Suc 0" by code_simp
  moreover obtain t x where "ipu_isys_csi2_calc_timing (Inr 419200000) CSI2_ACCINV = Inr t" "tm_csettle t =
      Some x"
    using live_timing by blast
  ultimately show ?thesis
    by (simp add: ipu_isys_video_subdev_stream_def NR_OF_CSI2_VC_def Let_def v4l2_subdev_streams_def
        csi2_switch_streams_def valid_streams_def csi2_set_stream_def csi2_start_receiver_def
        ipu_isys_csi2_reset_errors_def IPU_ISYS_MAX_CSI2_LANES_def live_running_def live_going_def
            live_enable
        live_receiver_equal)
qed

lemma live_going_fields [simp]:
  "ip_queues live_going = [0]" "\<not> ip_interlaced live_going" "ip_external live_going = Some 9"
  "ip_csi2 live_going = Some 5" "ip_vc live_going = 0" "ip_completion live_going = (\<lambda>_. 0)"
  "ip_isl_mode live_going = IPU_ISL_OFF" "ip_frames_done live_going = 0" "ip_tpg live_going = None"
  "ip_csi2_be live_going = None" "ip_csi2_be_soc live_going = None" "ip_source live_going = 0"
  by (simp_all add: live_going_def)

lemma live_format:
  "ucast (ipu_isys_mbus_code_to_mipi MEDIA_BUS_FMT_Y10_1X10) = (43 :: u8)"
  "\<exists>b. bits_of_data_type 43 = Some b"
   by code_simp+

lemma live_config:
  "\<exists>cfg. build_stream_cfg live_ops 0 0 (640, 480, MEDIA_BUS_FMT_Y10_1X10)
     (live_state w l live_going cs buf fl flf pipes n st dn sent sens) =
     (cfg, live_state w l (live_going\<lparr>ip_output_pins := (ip_output_pins live_going)(0 := Some
         (Queue_buf_ready 0)),
        ip_nr_output_pins := 1\<rparr>) cs buf fl flf pipes n st dn sent sens) \<and>
     sc_nof_input_pins cfg = 1 \<and> ii_dt (sc_input_pins cfg 0) = 43"
  by (simp add: build_stream_cfg_def Let_def isl_first_def ipu_isys_prepare_firmware_stream_cfg_default_def
    stream_input_pin_def live_format(1))

definition live_open :: isys_pipeline where
  "live_open = live_going\<lparr>ip_output_pins := (\<lambda>_. None)(0 := Some (Queue_buf_ready 0)),
        ip_nr_output_pins := 1, ip_stream_handle := 0, ip_error := 0, ip_completion := (\<lambda>_. 0)\<rparr>"

lemma const_upd [simp]: "(\<lambda>_. c)(x := c) = (\<lambda>_. c)" by auto

lemma live_pins: "ip_output_pins live_going = (\<lambda>_. None)"
  by (simp add: live_going_def)

lemma live_handle:
  "get_stream_handle 0 (live_state w l ip cs buf fl flf (\<lambda>_. None) n st dn sent sens) =
    (0, live_state w l (ip\<lparr>ip_stream_handle := 0\<rparr>) cs buf fl flf ((\<lambda>_. None)(0 := Some 0)) n st dn sent
        sens)"
  by (simp add: get_stream_handle_def IPU_ISYS_MAX_STREAMS_def upt_rec)

lemma live_params:
  assumes "sc_nof_input_pins cfg = 1" "ii_dt (sc_input_pins cfg 0) = 43"
  shows "snd (ipu_fw_isys_set_params cfg s) = s"
  using assms live_format(2) by (auto simp: ipu_fw_isys_set_params_def)

lemma live_stream_firmware:
  "\<exists>sent. start_stream_firmware live_ops 0 0 (Some \<lparr>bl_head = [1], bl_nbufs = 1\<rparr>)
     (live_state ([], 0) l live_going cs live_bufs [] [] (\<lambda>_. None) 0 False [] [] []) =
   (0, Some \<lparr>bl_head = [], bl_nbufs = 0\<rparr>,
    live_state ([], 0) (l(Active 0 := 1 # l (Active 0))) live_open cs live_bufs [64] []
      ((\<lambda>_. None)(0 := Some 0)) 1 False [] sent [])"
proof -
  obtain cfg where cfg: "build_stream_cfg live_ops 0 0 (640, 480, MEDIA_BUS_FMT_Y10_1X10)
     (live_state ([], 0) l live_going cs live_bufs [64, 64, 64, 64] [64] (\<lambda>_. None) 0 False [] [] []) =
     (cfg, live_state ([], 0) l (live_going\<lparr>ip_output_pins := (\<lambda>_. None)(0 := Some (Queue_buf_ready 0)),
        ip_nr_output_pins := 1\<rparr>) cs live_bufs [64, 64, 64, 64] [64] (\<lambda>_. None) 0 False [] [] [])"
     "sc_nof_input_pins cfg = 1" "ii_dt (sc_input_pins cfg 0) = 43"
    using live_config [of "([], 0)" l cs live_bufs "[64, 64, 64, 64]" "[64]" "\<lambda>_. None" 0 False "[]" "[]"
        "[]"]
    unfolding live_pins by blast
  have p: "ipu_fw_isys_set_params cfg s = (fst (ipu_fw_isys_set_params cfg s), s)" for s :: "(u8 list \<times> nat)
      isys"
    using live_params [OF cfg(2,3)] by (metis prod.collapse)
  define cfg' where "cfg' = fst (ipu_fw_isys_set_params cfg (undefined :: (u8 list \<times> nat) isys))"
  have p: "ipu_fw_isys_set_params cfg s = (cfg', s)" for s :: "(u8 list \<times> nat) isys"
    using p [of s] by (simp add: cfg'_def ipu_fw_isys_set_params_def)
  show ?thesis
    by (simp add: start_stream_firmware_def Let_def live_message cfg(1) live_handle p reinit_completion_def
        live_cmd live_answers_def live_ack live_put_message get_stream_opened_def live_wait acked_def
        start_opened_def ipu_isys_next_queued_request_def ipu_isys_find_queued_request_def live_active
        start_with_set_def await_start_def live_open_def del: One_nat_def) blast
qed

lemma live_open_fields [simp]:
  "ip_queues live_open = [0]" "\<not> ip_interlaced live_open" "ip_external live_open = Some 9"
  "ip_csi2 live_open = Some 5" "ip_frames_done live_open = 0" 
  "ip_output_pins live_open = (\<lambda>_. None)(0 := Some (Queue_buf_ready 0))"
  "ip_capture_done live_open = [Csi2_capture_done]" "ip_verify_active live_open = False"
  "ip_completion live_open = (\<lambda>_. 0)" "ip_stream_handle live_open = 0"
  by (simp_all add: live_open_def live_going_def live_joined_def live_prepared_def reset_pipeline_def
      example_pipeline_def)

lemma live_running_fields [simp]:
  "cs_stream_count live_running = 1" "cs_remote_streams live_running = 1" "cs_receiver_errors live_running =
      0"
  "cs_last_receiver_errors live_running = 0" "cs_fatal_receiver_errors live_running = 0"
  by (simp_all add: live_running_def)

lemma live_sensor:
  "ip_external ip = Some e \<Longrightarrow> sensor_s_stream live_ops 0 on (live_state w l ip cs buf fl flf pipes n st dn
      sent sens) =
   (0, live_state (snd (live_stream on w)) l ip cs buf fl flf pipes n st dn sent (sens @ [(on, 0)]))"
  by (simp add: sensor_s_stream_def live_stream_def)

lemma live_streaming:
  "\<exists>sent. ipu_isys_video_set_streaming live_ops 0 0 True (Some \<lparr>bl_head = [1], bl_nbufs = 1\<rparr>)
     (live_state ([], 0) l live_joined (live_receiver\<lparr>cs_remote_streams := 1\<rparr>) live_bufs [] [] (\<lambda>_. None) 0
         False [] [] []) =
   (0, Some \<lparr>bl_head = [], bl_nbufs = 0\<rparr>,
    live_state ([], 1) (l(Active 0 := 1 # l (Active 0))) live_open live_running live_bufs [64] []
      ((\<lambda>_. None)(0 := Some 0)) 1 True [] sent [(True, 0)])"
proof -
  obtain sent where f: "start_stream_firmware live_ops 0 0 (Some \<lparr>bl_head = [1], bl_nbufs = 1\<rparr>)
     (live_state ([], 0) l live_going live_running live_bufs [] [] (\<lambda>_. None) 0 False [] [] []) =
   (0, Some \<lparr>bl_head = [], bl_nbufs = 0\<rparr>,
    live_state ([], 0) (l(Active 0 := 1 # l (Active 0))) live_open live_running live_bufs [64] []
      ((\<lambda>_. None)(0 := Some 0)) 1 False [] sent [])"
    using live_stream_firmware by blast
  show ?thesis
    by (simp add: ipu_isys_video_set_streaming_def Let_def streaming_on_def live_subdevs live_start_receiver
        ipu_isys_csi2_skew_cal_required_def IPU_SKEW_CAL_LIMIT_HZ_def f start_sensor_def live_receiver_error
            live_sensor
        live_stream_def del: One_nat_def start_subdevs.simps) blast
qed

definition live_on :: isys_pipeline where
  "live_on = live_open\<lparr>ip_streaming := True\<rparr>"

definition live_fed :: isys_pipeline where
  "live_fed = live_on\<lparr>ip_error := 0, ip_completion := (\<lambda>_. 0)(Capture_ack := 1)\<rparr>"

lemma live_submit:
  "\<exists>sent'. submit_all live_ops 0 (live_state ([], k) ((\<lambda>_. [])(Incoming 0 := [2], Active 0 := [1])) live_on
      live_running live_bufs [64] []
      ((\<lambda>_. None)(0 := Some 0)) 1 True dn sent sens) =
    Some (0, \<lparr>bl_head = [], bl_nbufs = 0\<rparr>, live_state ([], k) ((\<lambda>_. [])(Active 0 := [2, 1])) live_fed
        live_running live_bufs [64] []
      ((\<lambda>_. None)(0 := Some 0)) 1 True dn sent' sens)"
  apply (subst submit_all.simps)
  apply (simp add: live_get live_on_def live_message submit_list_def Let_def live_active live_cmd
      live_answers_def live_ack live_put_message del: One_nat_def)
  apply (subst submit_all.simps)
  apply (simp add: live_get live_on_def live_fed_def acked_def E_NODATA_def del: One_nat_def)
  apply blast
  done

definition live_verify :: isys_pipeline where
  "live_verify = live_fed\<lparr>ip_verify_active := True\<rparr>"

definition live_done :: isys_pipeline where
  "live_done = live_verify\<lparr>ip_error := 0, ip_frames_done := 1\<rparr>"

lemma live_verify_fields [simp]:
  "ip_queues live_fed = [0]" "\<not> ip_interlaced live_fed" "ip_external live_fed = Some 9"
  "ip_csi2 live_fed = Some 5" "ip_frames_done live_fed = 0"
  "ip_queues live_verify = [0]" "\<not> ip_interlaced live_verify" "ip_external live_verify = Some 9"
  "ip_csi2 live_verify = Some 5" "ip_frames_done live_verify = 0"
  "ip_output_pins live_verify = (\<lambda>_. None)(0 := Some (Queue_buf_ready 0))"
  "ip_queues live_done = [0]" "\<not> ip_interlaced live_done" "ip_frames_done live_done = 1"
  "ip_has_sof live_verify"
  by (simp_all add: live_done_def live_verify_def live_fed_def live_on_def live_open_def live_going_def)

lemma live_frame:
  "\<exists>ib. interrupts live_ops (live_state ([IPU_FW_ISYS_RESP_TYPE_PIN_DATA_READY], k)
      ((\<lambda>_. [])(Active 0 := [2, 1])) live_verify cs live_bufs fl flf ((\<lambda>_. None)(0 := Some 0)) n st dn sent
          sens) =
    live_state ([], k) ((\<lambda>_. [])(Active 0 := [2])) live_done cs (live_bufs(1 := ib)) fl flf ((\<lambda>_. None)(0 :=
        Some 0)) n st
      (dn @ [(1, VB2_BUF_STATE_DONE)]) sent sens"
  by (simp add: interrupts_def isys_irq_def isys_isr_one_def ipu_fw_isys_get_resp_def answer_def
      IPU_ISYS_MAX_STREAMS_def
     isys_response_def resp_types resp_pin_data_ready_def IPU_ISYS_OUTPUT_PINS_def
         ipu_isys_queue_buf_ready_def
     buf_ready_found_def str2mmio_def IPU_FW_ISYS_ERROR_HW_REPORTED_STR2MMIO_def Let_def
         ipu_isys_buf_calc_sequence_time_def
     get_sof_ns_delta_def ipu_isys_queue_buf_done_def live_done_def) blast

lemma live_get_none:
  assumes "ip_queues ip = [0]" "\<not> ip_interlaced ip" "l (Incoming 0) = []"
  shows "buffer_list_get live_ops 0 (live_state w l ip cs buf fl flf pipes n st dn sent sens) =
    (E_NODATA, \<lparr>bl_head = [], bl_nbufs = 0\<rparr>, live_state w l ip cs buf fl flf pipes n st dn sent sens)"
  using assms by (simp add: buffer_list_get_def Let_def E_NODATA_def give_back_def)

lemma live_refeed:
  assumes "ip_queues ip = [0]" "\<not> ip_interlaced ip" "l (Incoming 0) = []"
  shows "stream_capture_refeed live_ops 0 (live_state w l ip cs buf fl flf pipes n st dn sent sens) =
    Some (0, live_state w l ip cs buf fl flf pipes n st dn sent sens)"
  by (subst stream_capture_refeed.simps) (simp add: refeed_round_def live_get_none assms E_NODATA_def)

lemma live_ticks:
  "ip_frames_done ip = 0 \<Longrightarrow>
   verify_ticks j live_ops 0 0 (live_state ([], k) l ip cs buf fl flf pipes n st dn sent sens) =
   live_state ([], k) l ip cs buf fl flf pipes n st dn sent sens"
  by (induction j) (simp_all add: live_idle frames_changed_def)

text \<open>The sensor delivers nothing, is bounced once, and then delivers.\<close>

lemma live_verifies:
  "\<exists>ib. verify_loop (Suc m) live_ops 0 5 0 (live_state ([], 1) ((\<lambda>_. [])(Active 0 := [2, 1]))
      live_verify live_running live_bufs fl flf ((\<lambda>_. None)(0 := Some 0)) n st dn sent sens) =
    Some (0, live_state ([], 2) ((\<lambda>_. [])(Active 0 := [2])) live_done live_running (live_bufs(1 := ib)) fl
        flf
      ((\<lambda>_. None)(0 := Some 0)) n st (dn @ [(1, VB2_BUF_STATE_DONE)]) sent (sens @ [(False, 0), (True,
          0)]))"
proof -
  let ?S = "live_state ([], 1) ((\<lambda>_. [])(Active 0 := [2, 1])) live_verify live_running live_bufs fl flf
     ((\<lambda>_. None)(0 := Some 0)) n st dn sent sens"
  let ?T = "live_state ([IPU_FW_ISYS_RESP_TYPE_PIN_DATA_READY], 2) ((\<lambda>_. [])(Active 0 := [2, 1]))
     live_verify live_running live_bufs fl flf ((\<lambda>_. None)(0 := Some 0)) n st dn sent
     (sens @ [(False, 0), (True, 0)])"
  have b: "bounce_sensor live_ops 0 5 ?S = Some (0, ?T)"
    by (simp add: bounce_sensor_def live_sensor live_stream_def live_receiver_error live_idle live_refeed
        Let_def
        numeral_2_eq_2)
  obtain ib where f: "interrupts live_ops ?T =
    live_state ([], 2) ((\<lambda>_. [])(Active 0 := [2])) live_done live_running (live_bufs(1 := ib)) fl flf ((\<lambda>_.
        None)(0 := Some 0)) n st
      (dn @ [(1, VB2_BUF_STATE_DONE)]) sent (sens @ [(False, 0), (True, 0)])"
    using live_frame by blast
  have t: "VERIFY_TICKS = Suc 11" by (simp add: VERIFY_TICKS_def)
  have "verify_ticks VERIFY_TICKS live_ops 0 0 ?T = live_state ([], 2) ((\<lambda>_. [])(Active 0 := [2])) live_done
     live_running (live_bufs(1 := ib)) fl flf ((\<lambda>_. None)(0 := Some 0)) n st (dn @ [(1,
         VB2_BUF_STATE_DONE)]) sent
     (sens @ [(False, 0), (True, 0)])"
    unfolding t verify_ticks.simps by (simp add: frames_changed_def f Let_def)
  then have "verify_loop m live_ops 0 5 0 ?T = Some (0, live_state ([], 2) ((\<lambda>_. [])(Active 0 := [2]))
      live_done
     live_running (live_bufs(1 := ib)) fl flf ((\<lambda>_. None)(0 := Some 0)) n st (dn @ [(1,
         VB2_BUF_STATE_DONE)]) sent
     (sens @ [(False, 0), (True, 0)]))"
    unfolding verify_loop.simps [of m] by (simp add: frames_changed_def Let_def)
  then show ?thesis
    unfolding verify_loop.simps [of "Suc m"] by (simp add: frames_changed_def live_ticks b Let_def del:
        One_nat_def) blast
qed

text \<open>The state after the start: the first buffer has been handed back, the second is with the firmware, and
  the sensor was bounced once.\<close>

definition live_after :: "(u8 list \<times> nat) isys \<Rightarrow> bool" where
  "live_after s \<longleftrightarrow> (\<exists>ib sent. s = live_state ([], 2) ((\<lambda>_. [])(Active 0 := [2]))
     (live_done\<lparr>ip_verify_active := False\<rparr>) live_running (live_bufs(1 := ib)) [64] [] ((\<lambda>_. None)(0 := Some
         0)) 1
     True [(1, VB2_BUF_STATE_DONE)] sent [(True, 0), (False, 0), (True, 0)])"

lemma live_after_fields:
  assumes "live_after s"
  shows "sy_done s = [(1, VB2_BUF_STATE_DONE)]" "sy_list s = (\<lambda>_. [])(Active 0 := [2])"
    "sy_sensor s = [(True, 0), (False, 0), (True, 0)]" "av_pipe (sy_av s 0) = Some 0"
    "ip_queues (sy_ip s 0) = [0]" "ib_queue (sy_buf s 3) = 0"
  using assms by (auto simp: live_after_def)

text \<open>The state in which the verification of that start begins: the sensor is on and silent.\<close>

definition live_silent :: "(int \<times> fw_send \<times> int) list \<Rightarrow> (u8 list \<times> nat) isys" where
  "live_silent sent = live_state ([], 1) ((\<lambda>_. [])(Active 0 := [2, 1])) live_verify live_running live_bufs
      [64] []
     ((\<lambda>_. None)(0 := Some 0)) 1 True [] sent [(True, 0)]"

lemma live_bounces:
  "\<exists>s'. verify_loop VERIFY_RETRIES live_ops 0 5 0 (live_silent sent) = Some (0, s') \<and>
     sy_sensor (live_silent sent) = [(True, 0)] \<and> sy_sensor s' = [(True, 0), (False, 0), (True, 0)] \<and>
     ip_queues (sy_ip (live_silent sent) 0) \<noteq> []"
proof -
  have r: "VERIFY_RETRIES = Suc 29" by (simp add: VERIFY_RETRIES_def)
  show ?thesis
    unfolding r live_silent_def
    using live_verifies [of 29 "[64]" "[]" 1 True "[]" sent "[(True, 0)]"] by auto
qed

lemma live_starts:
  "\<exists>s. start_streaming live_ops 0 live_start = Some (0, s) \<and> live_after s"
proof -
  have p: "av_pipe (sy_av live_start 0) = None"
    by (simp add: live_start_def list_add_def put_list_def live_isys_def fresh_isys_def)
  obtain sent where s: "ipu_isys_video_set_streaming live_ops 0 0 True (Some \<lparr>bl_head = [1], bl_nbufs = 1\<rparr>)
     (live_state ([], 0) ((\<lambda>_. [])(Incoming 0 := [2])) live_joined (live_receiver\<lparr>cs_remote_streams := 1\<rparr>)
         live_bufs [] []
        (\<lambda>_. None) 0 False [] [] []) =
   (0, Some \<lparr>bl_head = [], bl_nbufs = 0\<rparr>,
    live_state ([], 1) ((\<lambda>_. [])(Incoming 0 := [2], Active 0 := [1])) live_open live_running live_bufs [64]
        []
      ((\<lambda>_. None)(0 := Some 0)) 1 True [] sent [(True, 0)])"
    using live_streaming [of "(\<lambda>_. [])(Incoming 0 := [2])"] by auto
  obtain sent' where u: "submit_all live_ops 0 (live_state ([], 1) ((\<lambda>_. [])(Incoming 0 := [2], Active 0 :=
      [1])) live_on
      live_running live_bufs [64] [] ((\<lambda>_. None)(0 := Some 0)) 1 True [] sent [(True, 0)]) =
    Some (0, \<lparr>bl_head = [], bl_nbufs = 0\<rparr>, live_state ([], 1) ((\<lambda>_. [])(Active 0 := [2, 1])) live_fed
        live_running
      live_bufs [64] [] ((\<lambda>_. None)(0 := Some 0)) 1 True [] sent' [(True, 0)])"
    using live_submit by blast
  have r: "VERIFY_RETRIES = Suc 29" by (simp add: VERIFY_RETRIES_def)
  obtain ib where v: "verify_loop VERIFY_RETRIES live_ops 0 5 0 (live_state ([], 1) ((\<lambda>_. [])(Active 0 :=
      [2, 1]))
      live_verify live_running live_bufs [64] [] ((\<lambda>_. None)(0 := Some 0)) 1 True [] sent' [(True, 0)]) =
    Some (0, live_state ([], 2) ((\<lambda>_. [])(Active 0 := [2])) live_done live_running (live_bufs(1 := ib)) [64]
        []
      ((\<lambda>_. None)(0 := Some 0)) 1 True [(1, VB2_BUF_STATE_DONE)] sent' [(True, 0), (False, 0), (True, 0)])"
    unfolding r using live_verifies [of 29 "[64]" "[]" 1 True "[]" sent' "[(True, 0)]"] by auto
  have "\<exists>s. verify_stream_start live_ops 0 0 (live_state ([], 1) ((\<lambda>_. [])(Active 0 := [2, 1])) live_fed
      live_running
      live_bufs [64] [] ((\<lambda>_. None)(0 := Some 0)) 1 True [] sent' [(True, 0)]) = Some (0, s) \<and> live_after s"
    by (simp add: live_after_def verify_stream_start_def frames_changed_def live_verify_def [symmetric] v
        live_refeed
        del: One_nat_def) blast
  then obtain s where e: "verify_stream_start live_ops 0 0 (live_state ([], 1) ((\<lambda>_. [])(Active 0 := [2,
      1])) live_fed
      live_running live_bufs [64] [] ((\<lambda>_. None)(0 := Some 0)) 1 True [] sent' [(True, 0)]) = Some (0, s)"
     "live_after s" by blast
  have j: "live_prepared\<lparr>ip_nr_streaming := 1, ip_queues := [0]\<rparr> = live_joined" "ip_nr_streaming
      live_prepared = 0"
    "ip_queues live_prepared = []"
    by (simp_all add: live_joined_def live_prepared_def reset_pipeline_def example_pipeline_def)
  have "start_prepared live_ops 0 0 True live_ready = Some (0, s)"
    by (simp add: start_prepared_def live_ready_def Let_def j live_get start_joined_def
        ipu_isys_stream_start_def s ipu_isys_find_queued_request_def live_on_def [symmetric] u e(1)
            E_INVAL_def del: One_nat_def)
  then show ?thesis using e(2) by (simp add: start_streaming_def p live_walk live_ready_def)
qed

end
