(* ===== verification/IsysCapture.thy ===== *)
theory IsysCapture
  imports IsysReturns IsysExample Simulation
begin

text \<open>
  The capture queues as videobuf2 sees them: a transition system whose events are the calls of a client
  and the interrupts (\<open>capture_steps\<close>), its refinement of an account of buffers (an interpretation of
  \<open>simulation\<close>), the calls of the sensor while a start is verified, and the properties of the queues.
  They are tried on the machines of \<^verbatim>\<open>IsysExample\<close>.
\<close>

section \<open>The interrupt handler\<close>

lemma isr_round_keeps: "keeps s (snd (isr_round ops status s))"
proof -
  have c: "keeps s0 (csi2_irqs ops a b s0)" for a b and s0 :: "'a isys"
    unfolding csi2_irqs_def by (rule fold_keeps) (simp add: quiet_moves csi2_isr_quiet)
  note [simp] = c [THEN keeps_regular] c [THEN keeps_kind] c [THEN keeps_accounted]
  note [simp] = isr_one_keeps [THEN keeps_regular] isr_one_keeps [THEN keeps_kind] isr_one_keeps [THEN
      keeps_accounted]
  show ?thesis by (rule keepsI) (simp add: isr_round_def split_beta Let_def)
qed

lemma isr_loop_keeps:
  assumes "isr_loop ops status s = Some s'"
  shows "keeps s s'"
proof (rule isr_loop.raw_induct [where P = "\<lambda>ops status s s'. keeps s s'", OF _ assms])
  fix f :: "'a isys_ops \<Rightarrow> u32 \<Rightarrow> 'a isys \<Rightarrow> 'a isys option" and ops :: "'a isys_ops" and status s s'
  assume IH: "\<And>ops status s s'. f ops status s = Some s' \<Longrightarrow> keeps s s'"
    and ret: "(let (st, s1) = isr_round ops status s in
      if st AND (sy_isr_csi2_bits s1 OR IPU_ISYS_UNISPART_IRQ_SW) \<noteq> 0 \<and> \<not> sy_flr_done s1
      then f ops st s1 else Some s1) = Some s'"
  obtain st s1 where r: "isr_round ops status s = (st, s1)" by fastforce
  have 1: "keeps s s1" using isr_round_keeps [of s ops status] by (simp add: r)
  then show "keeps s s'"
    using ret moves_trans [OF 1 IH] by (auto simp: r split: if_splits)
qed

lemma isr_keeps:
  assumes "isys_isr ops s = Some (h, s')"
  shows "keeps s s'"
proof (cases "sy_power s")
  case True
  obtain st s1 where r: "isys_readl ops (Isys_reg IPU_REG_ISYS_UNISPART_IRQ_STATUS) s = (st, s1)" by
      fastforce
  have "keeps s s1" by (rule keepsI) (use readl_census readl_frame in \<open>metis r snd_conv\<close>)
  moreover have "isr_loop ops st s1 = Some s'" using assms True by (auto simp: isys_isr_def r)
  ultimately show ?thesis using moves_trans isr_loop_keeps by blast
qed (use assms in \<open>simp add: isys_isr_def\<close>)

section \<open>Events\<close>

text \<open>What happens to the capture queues: a client queues a buffer, starts or stops a queue; the interrupt
  line is raised; the interrupt thread does one item.\<close>

datatype capture_event =
  Queue_buffer buf | Start_queue node | Stop_queue node | Interrupt_line | Interrupt_item isys_irq

definition capture_step :: "'w isys_ops \<Rightarrow> capture_event \<Rightarrow> 'w isys \<Rightarrow> 'w isys option" where
  "capture_step ops e s =
     (case e of
        Queue_buffer b \<Rightarrow> buf_queue ops b s
      | Start_queue v \<Rightarrow> map_option snd (start_streaming ops v s)
      | Stop_queue v \<Rightarrow> Some (stop_streaming ops v s)
      | Interrupt_line \<Rightarrow> map_option snd (isys_isr ops s)
      | Interrupt_item i \<Rightarrow> Some (isys_irq ops i s))"

fun queued_buffers :: "capture_event list \<Rightarrow> buf list" where
  "queued_buffers [] = []"
| "queued_buffers (Queue_buffer b # es) = b # queued_buffers es"
| "queued_buffers (_ # es) = queued_buffers es"

lemma capture_step_moves:
  assumes "capture_step ops e s = Some s'" and "progressive ops"
    and "\<forall>b\<in>set (queued_buffers [e]). fst (kind_of s b) = IPU_ISYS_VIDEO_BUFFER"
  shows "moves s (mset (queued_buffers [e])) s' {#}"
proof (cases e)
  case (Queue_buffer b)
  then show ?thesis using assms buf_queue_moves by (simp add: capture_step_def)
next
  case (Start_queue v)
  then show ?thesis
    using assms start_streaming_keeps [OF _ assms(2)] by (auto simp: capture_step_def)
next
  case Stop_queue
  then show ?thesis using assms stop_streaming_keeps by (auto simp: capture_step_def)
next
  case Interrupt_line
  then show ?thesis using assms isr_keeps by (auto simp: capture_step_def)
next
  case Interrupt_item
  then show ?thesis using assms irq_keeps by (auto simp: capture_step_def)
qed

section \<open>The account of buffers\<close>

text \<open>What videobuf2 knows of a driver: which buffers it has been given, waiting or handed back.  It gives
  a queue buffers of the queue only, not the driver's own.\<close>

definition capture_steps :: "'w isys_ops \<Rightarrow> 'w isys \<Rightarrow> capture_event \<Rightarrow> 'w isys \<Rightarrow> bool" where
  "capture_steps ops s e s' \<longleftrightarrow>
     (\<forall>b\<in>set (queued_buffers [e]). ib_type (sy_buf s b) = IPU_ISYS_VIDEO_BUFFER) \<and>
     capture_step ops e s = Some s'"

definition account_step :: "buf multiset \<Rightarrow> capture_event \<Rightarrow> buf multiset \<Rightarrow> bool" where
  "account_step A e B \<longleftrightarrow> B = A + mset (queued_buffers [e])"

definition progressive_regular :: "'w isys_ops \<Rightarrow> 'w isys \<Rightarrow> bool" where
  "progressive_regular ops s \<longleftrightarrow> progressive ops \<and> regular s"

interpretation account: simulation "capture_steps ops" account_step accounted "progressive_regular ops"
  for ops :: "'w isys_ops"
proof
  fix s s' :: "'w isys" and e
  assume r: "progressive_regular ops s" and st: "capture_steps ops s e s'"
  then have "moves s (mset (queued_buffers [e])) s' {#}"
    by (intro capture_step_moves) (auto simp: capture_steps_def progressive_regular_def kind_of_def)
  then show "progressive_regular ops s'" "account_step (accounted s) e (accounted s')"
    using r by (simp_all add: moves_def progressive_regular_def account_step_def)
qed

lemma queued_append: "queued_buffers (es @ [e]) = queued_buffers es @ queued_buffers [e]"
proof (induction es)
  case (Cons x es)
  then show ?case by (cases x) simp_all
qed simp

lemma account_run:
  assumes "runs_to account_step A es B"
  shows "B = A + mset (queued_buffers es)"
  using assms by induction (auto simp: account_step_def queued_append)

section \<open>Calls of the sensor\<close>

text \<open>Interrupts call no sensor, and no pipeline gets another sensor while it runs.\<close>

definition sensors :: "'w isys \<Rightarrow> node \<Rightarrow> u64 option" where
  "sensors s = (\<lambda>p. ip_external (sy_ip s p))"

lemma sensors_upd_ip [simp]:
  "(\<And>ip. ip_external (f ip) = ip_external ip) \<Longrightarrow> sensors (upd_ip p f s) = sensors s"
  by (simp add: sensors_def upd_ip_def fun_eq_iff)

lemma sensors_world [simp]: "sensors (s\<lparr>sy_world := w\<rparr>) = sensors s" "sensors (s\<lparr>sy_wild := x\<rparr>) = sensors s"
  "sensors (s\<lparr>sy_framebuflist := fl\<rparr>) = sensors s" "sensors (s\<lparr>sy_framebuflist_fw := flf\<rparr>) = sensors s"
  by (simp_all add: sensors_def)

lemma sensor_log_frame [simp]:
  "sy_sensor (upd_ip p f s) = sy_sensor s" "sy_sensor (upd_csi2 c g s) = sy_sensor s"
  "sy_sensor (upd_buf b m s) = sy_sensor s" "sy_sensor (put_list l xs s) = sy_sensor s"
  "sy_sensor (list_add b l s) = sy_sensor s" "sy_sensor (list_add_tail b l s) = sy_sensor s"
  "sy_sensor (vb2_buffer_done b st s) = sy_sensor s"
  "sy_sensor (snd (isys_readl ops r s)) = sy_sensor s" "sy_sensor (isys_writel ops v r s) = sy_sensor s"
  "sensors (upd_csi2 c g s) = sensors s"
  "sensors (upd_buf b m s) = sensors s"
  "sensors (put_list l xs s) = sensors s"
  "sensors (list_add b l s) = sensors s"
  "sensors (list_add_tail b l s) = sensors s"
  "sensors (vb2_buffer_done b st s) = sensors s"
  "sensors (snd (isys_readl ops r s)) = sensors s"
  "sensors (isys_writel ops v r s) = sensors s"
  by (simp_all add: sensors_def upd_ip_def upd_csi2_def upd_buf_def put_list_def list_add_def
      list_add_tail_def vb2_buffer_done_def isys_readl_def isys_writel_def split_beta)

lemma sensor_log_handlers [simp]:
  "sy_sensor (snd (ipu_isys_csi2_error ops c s)) = sy_sensor s"
  "sy_sensor (ipu_isys_queue_buf_done b s) = sy_sensor s"
  "sy_sensor (ipu_isys_buf_calc_sequence_time ops b info s) = sy_sensor s"
  "sy_sensor (ipu_isys_queue_short_packet_ready ops p info s) = sy_sensor s"
  "sy_sensor (ipu_put_fw_mgs_buffer m s) = sy_sensor s" "sy_sensor (complete_stream p k s) = sy_sensor s"
  "sensors (snd (ipu_isys_csi2_error ops c s)) = sensors s"
  "sensors (ipu_isys_queue_buf_done b s) = sensors s"
  "sensors (ipu_isys_buf_calc_sequence_time ops b info s) = sensors s"
  "sensors (ipu_isys_queue_short_packet_ready ops p info s) = sensors s"
  "sensors (ipu_put_fw_mgs_buffer m s) = sensors s"
  "sensors (complete_stream p k s) = sensors s"
  by (simp_all add: ipu_isys_csi2_error_def ipu4p_isys_register_errors_def ipu_isys_queue_buf_done_def
      ipu_isys_buf_calc_sequence_time_def get_sof_ns_delta_def ipu_isys_queue_short_packet_ready_def
      ipu_put_fw_mgs_buffer_def complete_stream_def split_beta Let_def split: option.split)

lemma sensor_log_receiver [simp]: "sy_sensor (ipu_isys_csi2_isr ops c s) = sy_sensor s"
  "sensors (ipu_isys_csi2_isr ops c s) = sensors s"
proof -
  have "sy_sensor (vc_events c st i s) = sy_sensor s"
    "sensors (vc_events c st i s) = sensors s" for st i and s :: "'a isys"
    by (simp_all add: vc_events_def ipu_isys_csi2_sof_event_def ipu_isys_csi2_eof_event_def Let_def
        split: option.splits)
  then show "sy_sensor (ipu_isys_csi2_isr ops c s) = sy_sensor s" "sensors (ipu_isys_csi2_isr ops c s) =
      sensors s"
    by (simp_all add: ipu_isys_csi2_isr_def split_beta Let_def fold_same [where F = sy_sensor] fold_same
        [where F = sensors])
qed

lemma sensor_log_pin [simp]: "sy_sensor (resp_pin_data_ready ops p info s) = sy_sensor s"
  "sensors (resp_pin_data_ready ops p info s) = sensors s"
  by (simp_all add: resp_pin_data_ready_def ipu_isys_queue_buf_ready_def buf_ready_found_def Let_def
      split: option.split pin_ready.split)

lemma sensor_log_fields [simp]: "sy_sensor (finish_fields f bs s) = sy_sensor s"
  "sensors (finish_fields f bs s) = sensors s"
  by (induction bs arbitrary: s) simp_all

lemma sensor_log_done [simp]: "sy_sensor (resp_capture_done ops p info s) = sy_sensor s"
  "sensors (resp_capture_done ops p info s) = sensors s"
proof -
  have "sy_sensor (run_capture_done ops p info f s) = sy_sensor s"
    "sensors (run_capture_done ops p info f s) = sensors s" for f and s :: "'a isys"
    by (simp_all add: run_capture_done_def csi2_capture_done_def isa_capture_done_def isa_take_last_def
        Let_def
        split: capture_done.split option.split)
  then show "sy_sensor (resp_capture_done ops p info s) = sy_sensor s" "sensors (resp_capture_done ops p
      info s) = sensors s"
    by (simp_all add: resp_capture_done_def interlaced_done_def Let_def fold_same [where F = sy_sensor]
        fold_same [where F = sensors])
qed

lemma sensor_log_interrupts [simp]: "sy_sensor (interrupts ops s) = sy_sensor s"
  "sensors (interrupts ops s) = sensors s"
proof -
  have "sy_sensor (isys_response ops p info s) = sy_sensor s"
    "sensors (isys_response ops p info s) = sensors s" for p info and s :: "'a isys"
    by (simp_all add: isys_response_def resp_frame_sof_def Let_def)
  then have "sy_sensor (isys_irq ops i s) = sy_sensor s"
    "sensors (isys_irq ops i s) = sensors s" for i and s :: "'a isys"
    by (simp_all add: isys_irq_def isys_isr_one_def ipu_fw_isys_get_resp_def split_beta Let_def
        split: isys_irq.split option.split)
  then show "sy_sensor (interrupts ops s) = sy_sensor s" "sensors (interrupts ops s) = sensors s"
    by (simp_all add: interrupts_def split_beta Let_def fold_same [where F = sy_sensor] fold_same [where F =
        sensors])
qed

lemma sensor_log_queue [simp]: "sy_sensor (snd (ipu_isys_buffer_list_queue bl f st s)) = sy_sensor s"
proof -
  have "sy_sensor (queue_one f st b s) = sy_sensor s" for b and s :: "'a isys"
    by (simp add: queue_one_def Let_def split: isys_buffer_type.split)
  then have "sy_sensor (queue_all f st bs s) = sy_sensor s" for bs and s :: "'a isys"
    by (induction bs arbitrary: s) simp_all
  then show ?thesis by (simp add: ipu_isys_buffer_list_queue_def)
qed

lemma sensor_log_message [simp]: "sy_sensor (snd (ipu_get_fw_msg_buf ops s)) = sy_sensor s"
proof -
  have "sy_sensor (snd (alloc_loop n ops s)) = sy_sensor s" for n
    by (induction n arbitrary: s) (simp_all add: split_beta Let_def split: option.split)
  then show ?thesis by (simp add: ipu_get_fw_msg_buf_def alloc_fw_msg_buffers_def Let_def split_beta)
qed

lemma sensor_log_get [simp]: "sy_sensor (snd (snd (buffer_list_get ops p s))) = sy_sensor s"
proof -
  have t: "sy_sensor (snd (snd (take_buffers qs bl s))) = sy_sensor s" for qs bl
    by (induction qs arbitrary: bl s) (simp_all add: Let_def)
  have [simp]: "sy_sensor (prepare_buffers ops bs s) = sy_sensor s" for bs and s :: "'a isys"
    by (induction bs arbitrary: s) simp_all
  have [simp]: "sy_sensor (snd (give_back bl s)) = sy_sensor s" for bl and s :: "'a isys"
    by (simp add: give_back_def)
  show ?thesis
    using t [of "ip_queues (sy_ip s p)" "\<lparr>bl_head = [], bl_nbufs = 0\<rparr>"]
    by (simp add: buffer_list_get_def split_beta Let_def split: option.split)
qed

lemma sensor_log_submit [simp]: "sy_sensor (snd (snd (submit_list ops p bl msg s))) = sy_sensor s"
  by (simp add: submit_list_def fw_cmd_def split_beta Let_def)

lemma sensor_log_round [simp]: "sy_sensor (snd (refeed_round ops p s)) = sy_sensor s"
  using sensor_log_get [of ops p s]
  by (auto simp: refeed_round_def split_beta Let_def split: option.split prod.splits)

lemma sensor_log_refeed:
  assumes "stream_capture_refeed ops p s = Some (r, s')"
  shows "sy_sensor s' = sy_sensor s"
proof -
  have "case y of (r, s') \<Rightarrow> sy_sensor s' = sy_sensor s" if "stream_capture_refeed ops p s = Some y" for y
  proof (rule stream_capture_refeed.raw_induct
      [where P = "\<lambda>ops p s y. case y of (r, s') \<Rightarrow> sy_sensor s' = sy_sensor s", OF _ that])
    fix f :: "'a isys_ops \<Rightarrow> node \<Rightarrow> 'a isys \<Rightarrow> (int \<times> 'a isys) option"
      and ops :: "'a isys_ops" and p s y
    assume IH: "\<And>ops p s y. f ops p s = Some y \<Longrightarrow> case y of (r, s') \<Rightarrow> sy_sensor s' = sy_sensor s"
      and ret: "(case refeed_round ops p s of (None, s1) \<Rightarrow> f ops p s1 | (Some r, s1) \<Rightarrow> Some (r, s1)) = Some
          y"
    obtain x s1 where r: "refeed_round ops p s = (x, s1)" by fastforce
    have "sy_sensor s1 = sy_sensor s" using sensor_log_round [of ops p s] by (simp add: r)
    then show "case y of (r, s') \<Rightarrow> sy_sensor s' = sy_sensor s"
      using ret IH [of ops p s1 y] by (auto simp: r split: option.splits)
  qed
  from this [OF assms] show ?thesis by simp
qed

section \<open>Bouncing the sensor\<close>

text \<open>The calls of \<open>k\<close> bounces that succeeded, with their results.\<close>

definition bounces :: "nat \<Rightarrow> (bool \<times> int) list" where
  "bounces k = concat (replicate k [(False, 0), (True, 0)])"

text \<open>The calls of a bounce that failed at a call: switching off failed, or switching on again did.\<close>

definition broken_off :: "int \<Rightarrow> (bool \<times> int) list \<Rightarrow> bool" where
  "broken_off r log \<longleftrightarrow> r \<noteq> 0 \<and> (log = [(False, r)] \<or> log = [(False, 0), (True, r)])"

lemma bounces_Suc: "bounces (Suc k) = [(False, 0), (True, 0)] @ bounces k" "bounces 0 = []"
  by (simp_all add: bounces_def)

lemma sensor_log_call:
  assumes "sensor_s_stream ops p on s = (r, s')"
  shows "sy_sensor s' = sy_sensor s @ (if sensors s p = None then [] else [(on, r)])"
    "sensors s' = sensors s" "sensors s p = None \<Longrightarrow> r = E_NODEV"
  using assms by (auto simp: sensors_def sensor_s_stream_def split_beta split: option.splits)

lemma bounce_log:
  assumes "bounce_sensor ops p c s = Some (r, s')"
  shows "\<exists>log. sy_sensor s' = sy_sensor s @ log \<and>
    (log = [(False, 0), (True, 0)] \<or> broken_off r log \<or> r \<noteq> 0 \<and> log = [])"
proof -
  obtain r1 s1 where a: "sensor_s_stream ops p False s = (r1, s1)" by fastforce
  define s2 where "s2 = interrupts ops (snd (ipu_isys_csi2_error ops c s1))"
  obtain r3 s3 where b: "sensor_s_stream ops p True s2 = (r3, s3)" by fastforce
  have s2: "sy_sensor s2 = sy_sensor s1" "sensors s2 = sensors s1" by (simp_all add: s2_def)
  note A = sensor_log_call [OF a] and B = sensor_log_call [OF b]
  have *: "r1 \<noteq> 0 \<and> r = r1 \<and> s' = s1 \<or> r1 = 0 \<and> r3 \<noteq> 0 \<and> r = r3 \<and> s' = s3 \<or>
      r1 = 0 \<and> r3 = 0 \<and> stream_capture_refeed ops p s3 = Some (r, s')"
    using assms by (auto simp: bounce_sensor_def a s2_def [symmetric] b Let_def split: if_splits)
  show ?thesis
  proof (cases "sensors s p = None")
    case True
    then have "r1 = E_NODEV" by (rule A(3))
    then have "r1 \<noteq> 0" by (simp add: E_NODEV_def)
    then show ?thesis using * A(1) True by auto
  next
    case False
    then have "sensors s2 p \<noteq> None" using A(2) s2(2) by simp
    then have on: "sy_sensor s3 = sy_sensor s @ [(False, r1), (True, r3)]" using A(1) B(1) s2(1) False by
        simp
    from * consider "r1 \<noteq> 0" "r = r1" "s' = s1" | "r1 = 0" "r3 \<noteq> 0" "r = r3" "s' = s3"
      | "r1 = 0" "r3 = 0" "sy_sensor s' = sy_sensor s3" using sensor_log_refeed [of ops p s3 r s'] by blast
    then show ?thesis
      by cases (use on A(1) False in \<open>auto simp: broken_off_def\<close>)
  qed
qed

lemma ticks_log [simp]: "sy_sensor (verify_ticks n ops p before s) = sy_sensor s"
  by (induction n arbitrary: s) (simp_all add: Let_def)

lemma verify_loop_log:
  assumes "verify_loop n ops p c before s = Some (r, s')"
  shows "\<exists>k log. sy_sensor s' = sy_sensor s @ bounces k @ log \<and> k \<le> n \<and>
    (r = 0 \<longrightarrow> frames_changed p before s') \<and> (log = [] \<or> k < n \<and> broken_off r log)"
  using assms
proof (induction n arbitrary: s)
  case 0
  then have "sy_sensor s' = sy_sensor s" "r = 0 \<longrightarrow> frames_changed p before s'"
    by (auto simp: verify_loop.simps [of 0] Let_def E_TIMEDOUT_def split: if_splits)
  then show ?case by (intro exI [of _ 0] exI [of _ "[]"]) (simp add: bounces_Suc)
next
  case (Suc n)
  let ?s1 = "verify_ticks VERIFY_TICKS ops p before s"
  consider "r = 0" "frames_changed p before s'" "sy_sensor s' = sy_sensor s"
    | r2 s2 where "bounce_sensor ops p c ?s1 = Some (r2, s2)"
      "r2 \<noteq> 0 \<and> r = r2 \<and> s' = s2 \<or> r2 = 0 \<and> verify_loop n ops p c before s2 = Some (r, s')"
    using Suc.prems by (auto simp: verify_loop.simps [of "Suc n"] Let_def split: if_splits option.splits)
  then show ?case
  proof cases
    case 1
    then show ?thesis by (intro exI [of _ 0] exI [of _ "[]"]) (simp add: bounces_Suc)
  next
    case 2
    obtain log where l: "sy_sensor s2 = sy_sensor s @ log"
      "log = [(False, 0), (True, 0)] \<or> broken_off r2 log \<or> r2 \<noteq> 0 \<and> log = []"
      using bounce_log [OF 2(1)] by auto
    from 2(2) show ?thesis
    proof
      assume r: "r2 \<noteq> 0 \<and> r = r2 \<and> s' = s2"
      from l(2) show ?thesis
      proof
        assume "log = [(False, 0), (True, 0)]"
        then show ?thesis using l(1) r by (intro exI [of _ 1] exI [of _ "[]"]) (simp add: bounces_def)
      next
        assume "broken_off r2 log \<or> r2 \<noteq> 0 \<and> log = []"
        then show ?thesis using l(1) r by (intro exI [of _ 0] exI [of _ log]) (auto simp: bounces_def)
      qed
    next
      assume r: "r2 = 0 \<and> verify_loop n ops p c before s2 = Some (r, s')"
      from Suc.IH [OF conjunct2 [OF r]] obtain k log2 where
        k: "sy_sensor s' = sy_sensor s2 @ bounces k @ log2" "k \<le> n" "r = 0 \<longrightarrow> frames_changed p before s'"
        "log2 = [] \<or> k < n \<and> broken_off r log2" by blast
      have "log = [(False, 0), (True, 0)]" using l(2) r by (simp add: broken_off_def)
      then show ?thesis
        using k l(1) by (intro exI [of _ "Suc k"] exI [of _ log2]) (auto simp: bounces_Suc)
    qed
  qed
qed

section \<open>Queues that have ended\<close>

lemma complete_all_lists [simp]: "sy_list (complete_all bs st s) = sy_list s"
  by (induction bs arbitrary: s) (simp_all add: vb2_buffer_done_def)

lemma return_buffers_empty:
  "sy_list (return_buffers v st s) (Incoming v) = []" "sy_list (return_buffers v st s) (Active v) = []"
  by (simp_all add: return_buffers_def Let_def)

lemma start_joined_failed:
  assumes "start_joined ops p v first bl s = Some (r, s')" and "r \<noteq> 0"
  shows "\<exists>s1. s' = return_buffers v VB2_BUF_STATE_QUEUED s1"
  using assms by (auto simp: start_joined_def start_failed_def split: option.splits if_splits)

lemma start_prepared_failed:
  assumes "start_prepared ops p v first s = Some (r, s')" and "r \<noteq> 0"
  shows "\<exists>s1. s' = return_buffers v VB2_BUF_STATE_QUEUED s1"
  using assms start_joined_failed [OF _ assms(2)]
  by (fastforce simp: start_prepared_def start_failed_def split_beta Let_def split: if_splits prod.splits)

lemma start_streaming_failed:
  assumes "start_streaming ops v s = Some (r, s')" and "r \<noteq> 0"
  shows "\<exists>s1. s' = return_buffers v VB2_BUF_STATE_QUEUED s1"
  using assms start_prepared_failed [OF _ assms(2)]
  by (fastforce simp: start_streaming_def split: option.splits if_splits prod.splits)

section \<open>The examples\<close>

lemma live_assumptions: "clean live_ops" "progressive live_ops"
  by (simp_all add: clean_def progressive_def str2mmio_def answer_def
      IPU_FW_ISYS_ERROR_HW_REPORTED_STR2MMIO_def split: list.split)

lemma live_regular: "regular live_isys" "accounted live_isys = {#}"
  by (simp_all add: regular_def well_placed_def accounted_def live_isys_def fresh_isys_def)

lemma live_queued: "runs_to (capture_steps live_ops) live_isys [Queue_buffer 1, Queue_buffer 2] live_start"
proof -
  let ?s1 = "list_add 1 (Incoming 0) live_isys"
  have "buf_queue live_ops 1 live_isys = Some ?s1" "buf_queue live_ops 2 ?s1 = Some live_start"
    by (simp_all add: buf_queue_def live_start_def live_isys_def fresh_isys_def list_add_def put_list_def
        Let_def)
  then have 1: "capture_steps live_ops live_isys (Queue_buffer 1) ?s1"
    and 2: "capture_steps live_ops ?s1 (Queue_buffer 2) live_start"
    by (simp_all add: capture_steps_def capture_step_def)
      (simp_all add: live_isys_def fresh_isys_def list_add_def put_list_def)
  have "runs_to (capture_steps live_ops) live_isys ([] @ [Queue_buffer 1]) ?s1"
    by (rule runs_to.steps [where step = "capture_steps live_ops", OF runs_to.stays 1])
  from runs_to.steps [OF this 2] show ?thesis by simp
qed

definition example_start :: "unit isys" where
  "example_start = list_add 2 (Incoming 0) (list_add 1 (Incoming 0) example_isys)"

lemma example_fails:
  "start_streaming example_ops 0 example_start =
     Some (E_NOLINK, return_buffers 0 VB2_BUF_STATE_QUEUED (upd_ip 0 reset_pipeline example_start))"
proof -
  have "av_pipe (sy_av example_start 0) = None"
    by (simp add: example_start_def list_add_def put_list_def example_isys_def fresh_isys_def)
  moreover have "ipu_isys_video_prepare_streaming example_ops 0 example_start
      = (E_NOLINK, upd_ip 0 reset_pipeline example_start)"
    by (simp add: ipu_isys_video_prepare_streaming_def media_pipeline_walk_by_vc_def example_ops_def
        E_NOLINK_def
        Let_def)
  ultimately show ?thesis by (simp add: start_streaming_def E_NOLINK_def)
qed

section \<open>Properties\<close>



text \<open>
  C13: Starting a queue and queueing a buffer return, for every firmware that does not report the error for
  which buffers are parked: the loops that submit buffers and that verify a start all end.  For queueing,
  the pipeline of a node that videobuf2 counts as streaming has to have a queue, which it has from the start
  of the node's own queue on.
\<close>

theorem capture_returns:
  assumes "clean ops"
    and "\<forall>p. av_pipe (sy_av s (ib_queue (sy_buf s b))) = Some p \<and>
      aq_vbq_streaming (sy_aq s (ib_queue (sy_buf s b))) \<longrightarrow> ip_queues (sy_ip s p) \<noteq> []"
  shows "(\<exists>r s'. start_streaming ops v s = Some (r, s')) \<and> (\<exists>s'. buf_queue ops b s = Some s')"
proof -
  have "\<exists>s'. buf_queue ops b s = Some s'"
  proof (cases "aq_vbq_streaming (sy_aq s (ib_queue (sy_buf s b)))")
    case True
    then show ?thesis using buf_queue_ends [OF assms(1), of s b] assms(2) by blast
  next
    case False
    then show ?thesis by (simp add: buf_queue_def list_add_def put_list_def Let_def split: option.split)
  qed
  then show ?thesis using start_streaming_ends [OF assms(1)] by blast
qed

text \<open>On the machine with a sensor: a start that bounces the sensor once and succeeds, and a third buffer
  queued while the pipeline runs.\<close>

theorem capture_returns_witness:
  "\<exists>s s'. start_streaming live_ops 0 live_start = Some (0, s) \<and>
     sy_sensor s = [(True, 0), (False, 0), (True, 0)] \<and>
     av_pipe (sy_av s 0) = Some 0 \<and> ip_queues (sy_ip s 0) = [0] \<and>
     buf_queue live_ops 3 (upd_aq 0 (\<lambda>aq. aq\<lparr>aq_vbq_streaming := True\<rparr>) s) = Some s'"
proof -
  have "\<exists>r s. start_streaming live_ops 0 live_start = Some (r, s)"
    by (rule capture_returns [where b = 3, THEN conjunct1])
      (simp_all add: live_assumptions live_start_def list_add_def put_list_def live_isys_def fresh_isys_def)
  then obtain s where s: "start_streaming live_ops 0 live_start = Some (0, s)" "live_after s"
    using live_starts by blast
  let ?s = "upd_aq 0 (\<lambda>aq. aq\<lparr>aq_vbq_streaming := True\<rparr>) s"
  note f = live_after_fields [OF s(2)]
  have "\<exists>s'. buf_queue live_ops 3 ?s = Some s'"
    by (rule capture_returns [THEN conjunct2]) (simp_all add: live_assumptions upd_aq_def f)
  then obtain s' where s': "buf_queue live_ops 3 ?s = Some s'" by blast
  show ?thesis using s(1) s' f by blast
qed

text \<open>
  C22: A queue that has been stopped, or whose start has failed, keeps no buffer: its waiting and its
  active list are empty, as videobuf2 demands.
\<close>

theorem ended_queue_keeps_none:
  assumes "start_streaming ops v s = Some (r, s') \<and> r \<noteq> 0 \<or>
           av_pipe (sy_av s v) \<noteq> None \<and> s' = stop_streaming ops v s"
  shows "sy_list s' (Incoming v) = [] \<and> sy_list s' (Active v) = []"
proof -
  have "\<exists>st s1. s' = return_buffers v st s1" using assms
  proof
    assume "start_streaming ops v s = Some (r, s') \<and> r \<noteq> 0"
    then show ?thesis using start_streaming_failed by blast
  next
    assume "av_pipe (sy_av s v) \<noteq> None \<and> s' = stop_streaming ops v s"
    then obtain p where p: "av_pipe (sy_av s v) = Some p" "s' = stop_streaming ops v s" by auto
    then show ?thesis unfolding p stop_streaming_def Let_def option.case by blast
  qed
  then show ?thesis using return_buffers_empty by auto
qed

theorem ended_queue_keeps_none_witness:
  "\<exists>r s'. start_streaming example_ops 0 example_start = Some (r, s') \<and>
     sy_list example_start (Incoming 0) = [2, 1] \<and> sy_list s' (Incoming 0) = [] \<and> sy_list s' (Active 0) =
         []"
proof -
  define s' where "s' = return_buffers 0 VB2_BUF_STATE_QUEUED (upd_ip 0 reset_pipeline example_start)"
  have f: "start_streaming example_ops 0 example_start = Some (E_NOLINK, s')"
    by (simp add: example_fails s'_def)
  have "sy_list s' (Incoming 0) = [] \<and> sy_list s' (Active 0) = []"
    by (rule ended_queue_keeps_none [of example_ops 0 example_start E_NOLINK]) (simp add: f E_NOLINK_def)
  then show ?thesis
    using f by (intro exI [of _ E_NOLINK] exI [of _ s'])
      (simp add: example_start_def list_add_def put_list_def example_isys_def fresh_isys_def)
qed

text \<open>
  C14: Verifying that a started pipeline delivers makes at most thirty bounces, each of which switches the
  sensor off and on again with both calls succeeding, and possibly one more that fails: then its first call
  failed, or its first call succeeded and its second failed, no further call is made, and the error is the
  result.  So the sensor is left off only by a call that failed.  Success is reported only when an
  error-free frame has been counted; with a firmware that does not make the driver park buffers, and a
  queue in the pipeline, the verification ends.
\<close>

theorem verification_bounces:
  "(clean ops \<and> ip_queues (sy_ip s p) \<noteq> [] \<longrightarrow> verify_loop VERIFY_RETRIES ops p c before s \<noteq> None) \<and>
   (\<forall>r s'. verify_loop VERIFY_RETRIES ops p c before s = Some (r, s') \<longrightarrow>
      (r = 0 \<longrightarrow> frames_changed p before s') \<and>
      (\<exists>k log. sy_sensor s' = sy_sensor s @ concat (replicate k [(False, 0), (True, 0)]) @ log \<and>
         (log = [] \<and> k \<le> 30 \<or>
          k < 30 \<and> r \<noteq> 0 \<and> (log = [(False, r)] \<or> log = [(False, 0), (True, r)]))))"
proof (intro conjI impI allI)
  assume "clean ops \<and> ip_queues (sy_ip s p) \<noteq> []"
  then obtain q where "clean ops" "q \<in> queue_sets s p"
    by (cases "ip_queues (sy_ip s p)") (auto simp: queue_sets_def)
  from verify_loop_returns [OF this] show "verify_loop VERIFY_RETRIES ops p c before s \<noteq> None" by force
next
  fix r s' assume v: "verify_loop VERIFY_RETRIES ops p c before s = Some (r, s')"
  show "r = 0 \<Longrightarrow> frames_changed p before s'" using verify_loop_log [OF v] by blast
  show "\<exists>k log. sy_sensor s' = sy_sensor s @ concat (replicate k [(False, 0), (True, 0)]) @ log \<and>
         (log = [] \<and> k \<le> 30 \<or>
          k < 30 \<and> r \<noteq> 0 \<and> (log = [(False, r)] \<or> log = [(False, 0), (True, r)]))"
    using verify_loop_log [OF v] unfolding VERIFY_RETRIES_def bounces_def broken_off_def by blast
qed

theorem verification_bounces_witness:
  "\<exists>s' k log. verify_loop VERIFY_RETRIES live_ops 0 5 0 (live_silent []) = Some (0, s') \<and>
     sy_sensor (live_silent []) = [(True, 0)] \<and> sy_sensor s' = [(True, 0), (False, 0), (True, 0)] \<and>
     frames_changed 0 0 s' \<and>
     sy_sensor s' = sy_sensor (live_silent []) @ concat (replicate k [(False, 0), (True, 0)]) @ log \<and>
     log = [] \<and> k \<le> 30"
proof -
  have "verify_loop VERIFY_RETRIES live_ops 0 5 0 (live_silent []) \<noteq> None"
    by (rule verification_bounces [THEN conjunct1, rule_format])
      (use live_assumptions live_bounces in blast)
  obtain s' where v: "verify_loop VERIFY_RETRIES live_ops 0 5 0 (live_silent []) = Some (0, s')"
    "sy_sensor (live_silent []) = [(True, 0)]" "sy_sensor s' = [(True, 0), (False, 0), (True, 0)]"
    using live_bounces by blast
  from verification_bounces [of live_ops "live_silent []" 0 5 0, THEN conjunct2, rule_format, OF v(1)]
  show ?thesis using v by fastforce
qed

end
