(* ===== verification/Spec2Isabelle.thy ===== *)
theory Spec2Isabelle
  imports LiveOwnership Cpd DmaLists IrBridge AuthSupervisor PsysClients PsysHandles ButtressBoot IsysCapture
begin

text \<open>
  Verification of the Surface Pro 7 IPU4P camera stack.

  \<^bold>\<open>The program.\<close>  Two halves meet in this repository.  In user space (\<^verbatim>\<open>src/cbridge\<close>) three C
  programs bring the laptop's cameras to ordinary applications: \<^verbatim>\<open>surface-camera-bridge\<close>
  watches which process has a loopback video device open and, through a controller, starts and
  stops one media worker process per camera; \<^verbatim>\<open>ir-camera-bridge\<close> reads raw frames from the
  infrared camera, decodes them and writes them to a loopback device; \<^verbatim>\<open>auth-capture-helper\<close>
  hands a bounded number of infrared frames to the face authentication through a pipe.  In the
  kernel (\<^verbatim>\<open>src/linux-6.19.8/drivers/media/pci/intel\<close>) the driver of the IPU4P
  authenticates and loads a firmware package, runs its own IOMMU, exchanges messages with the
  firmware over token rings, queues the processing commands of its clients, and captures frames: video
  nodes hand buffers to streams that the firmware fills from the receivers of the sensors.

  \<^bold>\<open>Theories and code.\<close>  A C struct is a record with the source's field names under a prefix, an enum
  a datatype, a fixed-width integer a word; each operation is one definition named after the
  C function, with its auxiliary blocks (a loop, a label, a switch) as definitions of their
  own just before it.  What is outside the repository, the kernel's services and the system
  calls, is a parameter: a function in the arguments or a record of answers.
  \<^item> \<open>Prelude\<close>: machine integers, errno results, the collections of rewrite rules.
    \<open>Simulation\<close>: runs of transition systems and refinement as an interface.
  \<^item> \<open>Controller\<close>, \<open>Controller_Timing\<close>, \<open>Worker_Ownership\<close>: \<^verbatim>\<open>controller.c\<close>, the polled state
    machine with its debounce, grace period and back-off; the operations table it is given is the
    interface \<open>worker_ops\<close>.
  \<^item> \<open>LiveScan\<close>, \<open>LiveWorker\<close>, \<open>LiveBridge\<close>, \<open>LiveOwnership\<close>: \<^verbatim>\<open>surface-camera-bridge.c\<close>, which
    implements that interface: the scan for consumers, the worker processes, the main
    loop; the interpretation of \<open>worker_ops\<close> carries the controller's theorems over to it.
  \<^item> \<open>IrDecode\<close>, \<open>IrCapture\<close>, \<open>IrStream\<close>, \<open>IrSession\<close>: \<^verbatim>\<open>ir-v4l2.c\<close>, from finding the
    camera's route to a decoded frame; \<open>IrBridge\<close>: \<^verbatim>\<open>ir-camera-bridge.c\<close>, its client.
  \<^item> \<open>AuthCapture\<close>, \<open>AuthSupervisor\<close>: \<^verbatim>\<open>auth-capture-helper.c\<close>, the worker and the parent that
    bounds it in time.
  \<^item> \<open>Cpd\<close>: \<^verbatim>\<open>ipu-cpd.c\<close>, validation of the firmware container and the package directory.
  \<^item> \<open>FwCom\<close>, \<open>FwPsys\<close>: \<^verbatim>\<open>ipu-fw-com.c\<close> and \<^verbatim>\<open>ipu-fw-psys.c\<close>, token rings and, on top of
    them, the processing system's commands and events (interface \<open>message_queue\<close>).
  \<^item> \<open>Mmu\<close>, \<open>MmuTables\<close>: \<^verbatim>\<open>ipu-mmu.c\<close>, the two-level page tables and what they mean as a map;
    \<open>Dma\<close>, \<open>DmaBooks\<close>, \<open>DmaLists\<close>: \<^verbatim>\<open>ipu-dma.c\<close>, its client through the interface
    \<open>page_mapper\<close>.
  \<^item> \<open>PsysResources\<close>: \<^verbatim>\<open>ipu4-resources.c\<close>, pools of cells, channels and memories; the kernel's
    bitmap search is the interface \<open>zero_area\<close>.
  \<^item> \<open>PsysBuffers\<close>, \<open>PsysHandles\<close>: the client buffers of \<^verbatim>\<open>ipu-psys.c\<close>.  \<open>ButtressFreq\<close>: the frequency
    and power control of \<^verbatim>\<open>ipu-buttress.c\<close>; \<open>ButtressIpc\<close>: its mailboxes and interrupt
    handler over a trace of register accesses; \<open>ButtressBoot\<close>: what uses them, the authentication of
    the firmware, the time stamp counter, the clocks and the start of the part.
  \<^item> \<open>PsysKcmd\<close>: \<^verbatim>\<open>ipu4-psys.c\<close> with the scheduler and interrupt threads and the handle operations of
    \<^verbatim>\<open>ipu-psys.c\<close>, over the port, resources, buffers and frequency above.  \<open>PsysSched\<close>,
    \<open>PsysService\<close>, \<open>PsysDriver\<close>, \<open>PsysClients\<close>: its invariant, steps, refinement and properties.
  \<^item> The imaging system, bottom up.  \<open>IsysFormats\<close>: format tables and the format calls of
    \<^verbatim>\<open>ipu-isys-video.c\<close>, with the tables of \<^verbatim>\<open>ipu-isys-subdev.c\<close>, the back-ends and the receivers.
    \<open>IsysQueue\<close>: the state and its buffer lists, where a linked list is a list per list head (one map
    for all of them), with the message pool of \<^verbatim>\<open>ipu-isys.c\<close>.  \<open>IsysRecv\<close>: firmware responses and
    interrupts (\<^verbatim>\<open>isys_isr_one\<close>, \<^verbatim>\<open>isys_isr\<close>, \<^verbatim>\<open>ipu-isys-csi2.c\<close>, \<^verbatim>\<open>ipu4p-isys-csi2.c\<close>).
    \<open>IsysStream\<close>: opening to closing a stream, receivers and sensors.  \<open>IsysPipeline\<close>: the walk
    that builds a pipeline and validates its links.  \<open>IsysStart\<close>: the queue operations of
    \<^verbatim>\<open>ipu-isys-queue.c\<close> that videobuf2 calls.  Interrupts are served wherever the driver waits or
    has just called the firmware.  \<open>IsysCensus\<close> counts the buffers on the lists and in messages, and
    \<open>IsysConserve\<close> follows the count through every operation; \<open>IsysReturns\<close>: the loops end;
    \<open>IsysCapture\<close>: the events of the capture queues as a transition system, its account of
    buffers through the interface \<open>simulation\<close>, and the properties.

  \<^bold>\<open>What is proved.\<close>
  \<^item> Controller and live bridge: the reachable states are well formed and own their
    workers; a camera is opened only after its debounce and never preempted while it is
    used; the scan reports exactly the devices open in another process; the program releases
    everything at the end.
  \<^item> Infrared capture and its clients: the decoder equals a pixel-wise reference; frames come in the
    order of their sequence numbers; buffers stay queued; sessions release what they
    opened; the supervisor forwards a worker's bytes unchanged and ends by its deadline.
  \<^item> Firmware: parsing stays inside the file for every input, and the directory read back is
    the one written.  The ring is a FIFO of messages under both sides' operations.
  \<^item> IOMMU and DMA: map and unmap refine updates of a finite map, with the tables' memory accounted
    for; every mapped buffer translates to its own pages.
  \<^item> Resources: allocation is all or nothing, and freeing undoes it.
  \<^item> Command queues: in every reachable state of the driver (any interleaving of opens,
    submissions, scheduling, firmware events, timers, resets, pick-ups and closes) lists, counters and
    states agree and nothing freed is touched; each step refines a contract in which a client
    has FIFO queues whose entries are completed once; so what is delivered is, in order,
    what was submitted.  The scheduler ends and does not leave the hardware idle while a command
    waits.
  \<^item> Buffers: whatever the dma-buf core answers, the ioctls free nothing twice, and a failed
    mapping gives everything back.  Frequency: the one in force is the largest asked for.
  \<^item> Buttress: for every behaviour of the hardware and the interrupts, commands go to the security engine in
    order within a window that is closed again, a success means the expected responses came in, and
    an authentication gives its power reference back; the reset handshake ends, and a failed start
    releases what it took, up to one file.
  \<^item> Imaging system: a negotiated format fits its buffer without a wrap-around; cropping a Bayer image
    names the colours it really has; the time of a short packet is put together exactly.  Over any
    run of queueing, starting, stopping and interrupts no capture buffer is lost or given back twice;
    starting and queueing return; a queue that has ended keeps no buffer; checking that a stream has
    really started bounces the sensor at most thirty times.
  \<^item> Where the code does not do what it means to, a theorem states what it does: a full ring that is
    overrun, an abort reported as success, a frequency constraint left on its list after its
    command is freed, a buffer freed twice, and others.

  \<^bold>\<open>Bounds and fuel.\<close>  Loops that depend on the outside (the bridges' main loops, the worker's and
  the supervisor's loops, polling for the firmware) take the number of rounds; the theorems
  quantify over it or give a number that is enough.  A completion can start a waiting command,
  and starting can complete: fuel 1 always returns, because the command that is completed is no
  longer counted when the waiting one is tried.  The scheduler takes one more round than there are
  commands.  The interrupt handler's loop runs while the status register is not zero, which no
  number bounds: it is a partial function, and its callers return \<open>None\<close> with it.  So are the loops of the
  imaging system that submit buffers until none is left, since an interrupt can queue one again; its
  other loops run over lists, or the twelve sleeps and thirty bounces of \<^verbatim>\<open>verify_stream_start\<close>.  The kernel's poll
  helper takes the number of reads that fit in its time from the hardware parameter.  \<open>None\<close> is always a run that does not return, and the theorems show \<open>Some\<close>.

  \<^bold>\<open>Parameters.\<close>  System calls and their results, the clock, the kernel's allocators, bitmap search, dma-buf core, page
  pinning, runtime power management, timers, the registers' behaviour, the walk over the media graph and
  the V4L2 core's comparison of formats.  Assumed of them where a
  theorem says so: an allocator does not return what is in use; power management does not answer
  with "no space"; a timer handler is not running at the instant its command is completed; the firmware
  reports only commands it was given; for the account of capture buffers, no link
  carries an alternating field order; for the imaging system's calls to return, no response has the
  error that parks a buffer, since it puts the buffer back on the list that is being emptied.

  \<^bold>\<open>Not modelled.\<close>  Log and trace output, cache maintenance, locks (an operation that holds a mutex is one
  step; the one place where that matters is modelled as two), the imaging system's open, close and
  registration calls, the propagation of formats between subdevices and the image signal
  accelerator, probing and removal of devices, debug
  files, the GStreamer pipelines of \<^verbatim>\<open>media-backend.c\<close>, the sensor drivers, and the vendored
  firmware libraries, which the driver only calls.
\<close>

end
